(* ===== verification/Swinx_Prelude.thy ===== *)
theory Swinx_Prelude
  imports Main
begin

text \<open>
  The prelude of the development: the lemma collections the component theories fill, the
  32-bit wrap-around of \<^verbatim>\<open>INT\<close> arithmetic, and the facts on lists that several components
  share.
\<close>

section \<open>Lemma collections\<close>

named_theorems geom \<open>unfolding rules for points, spans and rectangles\<close>
named_theorems band_intro \<open>introduction rules for bands\<close>

section \<open>Machine integers\<close>

text \<open>
  \<^verbatim>\<open>INT\<close> and \<^verbatim>\<open>LONG\<close> are 32-bit. Where the code only compares and copies coordinates
  they are modelled as unbounded integers; where it adds or subtracts them, the result goes
  through \<open>wrap32\<close>, the two's complement reduction.
\<close>

definition wrap32 :: "int \<Rightarrow> int" where
  "wrap32 x = (x + 2147483648) mod 4294967296 - 2147483648"

definition in_int32 :: "int \<Rightarrow> bool" where
  "in_int32 x \<longleftrightarrow> - 2147483648 \<le> x \<and> x < 2147483648"

lemma wrap32_id [simp]: "in_int32 x \<Longrightarrow> wrap32 x = x"
  by (simp add: wrap32_def in_int32_def)

lemma wrap32_range: "in_int32 (wrap32 x)"
  by (simp add: wrap32_def in_int32_def)

section \<open>Runs\<close>

text \<open>A component promises that each of its steps keeps an invariant; whoever runs any number of them relies on it.\<close>

locale kept =
  fixes step :: "'s \<Rightarrow> 's \<Rightarrow> bool" and inv :: "'s \<Rightarrow> bool"
  assumes step_keeps: "step s s' \<Longrightarrow> inv s \<Longrightarrow> inv s'"
begin

lemma run_keeps: "step\<^sup>*\<^sup>* s s' \<Longrightarrow> inv s \<Longrightarrow> inv s'"
  by (induction rule: rtranclp_induct) (auto intro: step_keeps)

end

text \<open>The runs of an abstract component, given by the operations one after another.\<close>

fun abs_run :: "('o \<Rightarrow> 'a \<Rightarrow> 'a \<Rightarrow> bool) \<Rightarrow> 'o list \<Rightarrow> 'a \<Rightarrow> 'a \<Rightarrow> bool" where
  "abs_run astep [] a a' \<longleftrightarrow> a' = a"
| "abs_run astep (op # ops) a a' \<longleftrightarrow> (\<exists>b. astep op a b \<and> abs_run astep ops b a')"

text \<open>A component whose operations simulate abstract ones: what represents a state before an operation represents the next one after it.\<close>

locale simulation =
  fixes rep :: "'c \<Rightarrow> 'a \<Rightarrow> bool" and exec :: "'o \<Rightarrow> 'c \<Rightarrow> 'c" and astep :: "'o \<Rightarrow> 'a \<Rightarrow> 'a \<Rightarrow> bool"
  assumes exec_simulates: "rep c a \<Longrightarrow> astep op a b \<Longrightarrow> rep (exec op c) b"
begin

lemma run_simulates: "rep c a \<Longrightarrow> abs_run astep ops a b \<Longrightarrow> rep (fold exec ops c) b"
  by (induction ops arbitrary: c a) (auto intro: exec_simulates)

end

section \<open>Lists\<close>

lemma takeWhile_dropWhile_split: "xs = takeWhile P xs @ dropWhile P xs"
  by simp

lemma dropWhile_Cons_shorter: "P x \<Longrightarrow> length (dropWhile P (x # xs)) < length (x # xs)"
  by (simp add: le_imp_less_Suc length_dropWhile_le)

lemma dropWhile_ConsD: "dropWhile P xs = y # ys \<Longrightarrow> \<not> P y"
  by (induction xs) (auto split: if_splits)

lemma sorted_wrt_map_mono:
  assumes "sorted_wrt P xs" and "\<And>a b. P a b \<Longrightarrow> Q (f a) (f b)"
  shows "sorted_wrt Q (map f xs)"
  using assms(1) by (simp add: sorted_wrt_map) (rule sorted_wrt_mono_rel [OF _ assms(1)], rule assms(2))

lemma take_length_takeWhile: "take (length (takeWhile P xs)) xs = takeWhile P xs"
  by (metis append_eq_conv_conj takeWhile_dropWhile_id)

lemma drop_length_takeWhile: "drop (length (takeWhile P xs)) xs = dropWhile P xs"
  by (simp add: dropWhile_eq_drop)

end
