(* ===== verification/Rect_Model.thy ===== *)
theory Rect_Model
  imports Swinx_Prelude
begin

text \<open>
  Rectangles: the \<^verbatim>\<open>RECT\<close> structure and the small predicates on it at the head of
  \<^verbatim>\<open>src/region.cpp\<close> (\<open>order_rect\<close>, \<open>overlapping\<close>, \<open>is_in_rect\<close>).
\<close>

section \<open>The structure and its predicates\<close>

record rect =
  r_left :: int
  r_top :: int
  r_right :: int
  r_bottom :: int

definition mk_rect :: "int \<Rightarrow> int \<Rightarrow> int \<Rightarrow> int \<Rightarrow> rect" where
  "mk_rect l t r b = \<lparr>r_left = l, r_top = t, r_right = r, r_bottom = b\<rparr>"

lemma mk_rect_sel [simp]:
  "r_left (mk_rect l t r b) = l" "r_top (mk_rect l t r b) = t"
  "r_right (mk_rect l t r b) = r" "r_bottom (mk_rect l t r b) = b"
  by (simp_all add: mk_rect_def)

lemma mk_rect_eta [simp]: "mk_rect (r_left q) (r_top q) (r_right q) (r_bottom q) = q"
  by (cases q) (simp add: mk_rect_def)

lemma rect_eqI:
  "r_left p = r_left q \<Longrightarrow> r_top p = r_top q \<Longrightarrow> r_right p = r_right q \<Longrightarrow> r_bottom p = r_bottom q
   \<Longrightarrow> p = (q :: rect)"
  by simp

text \<open>\<open>order_rect\<close>: swap the sides that are in the wrong order.\<close>

definition order_rect :: "rect \<Rightarrow> rect" where
  "order_rect q =
     (let q1 = (if r_left q > r_right q
                then q\<lparr>r_left := r_right q, r_right := r_left q\<rparr> else q)
      in if r_top q1 > r_bottom q1
         then q1\<lparr>r_top := r_bottom q1, r_bottom := r_top q1\<rparr> else q1)"

definition overlapping :: "rect \<Rightarrow> rect \<Rightarrow> bool" where
  "overlapping r1 r2 \<longleftrightarrow> r_right r1 > r_left r2 \<and> r_left r1 < r_right r2
     \<and> r_bottom r1 > r_top r2 \<and> r_top r1 < r_bottom r2"

definition is_in_rect :: "rect \<Rightarrow> int \<Rightarrow> int \<Rightarrow> bool" where
  "is_in_rect q x y \<longleftrightarrow> r_right q > x \<and> r_left q \<le> x \<and> r_bottom q > y \<and> r_top q \<le> y"

section \<open>Facts\<close>

definition rect_ok :: "rect \<Rightarrow> bool" where
  "rect_ok q \<longleftrightarrow> r_left q < r_right q \<and> r_top q < r_bottom q"

lemma order_rect_ordered:
  "r_left (order_rect q) \<le> r_right (order_rect q) \<and> r_top (order_rect q) \<le> r_bottom (order_rect q)"
  by (simp add: order_rect_def Let_def)

lemma order_rect_ok_iff: "rect_ok (order_rect q) \<longleftrightarrow> r_left q \<noteq> r_right q \<and> r_top q \<noteq> r_bottom q"
  by (auto simp: rect_ok_def order_rect_def Let_def)

lemma overlapping_sym: "overlapping p q = overlapping q p"
  by (auto simp: overlapping_def)

lemma overlapping_witness:
  assumes "rect_ok p" "rect_ok q"
  shows "overlapping p q \<longleftrightarrow> (\<exists>x y. is_in_rect p x y \<and> is_in_rect q x y)"
proof
  assume "overlapping p q"
  then have "is_in_rect p (max (r_left p) (r_left q)) (max (r_top p) (r_top q))"
    "is_in_rect q (max (r_left p) (r_left q)) (max (r_top p) (r_top q))"
    using assms by (auto simp: overlapping_def is_in_rect_def rect_ok_def)
  then show "\<exists>x y. is_in_rect p x y \<and> is_in_rect q x y" by blast
qed (auto simp: overlapping_def is_in_rect_def)

end
