(* ===== verification/Region_Model.thy ===== *)
theory Region_Model
  imports Rect_Model
begin

text \<open>
  The region structure of \<^verbatim>\<open>src/region.cpp\<close> and the internal operations on it, up to
  \<open>REGION_RegionOp\<close>. A \<^verbatim>\<open>WINEREGION\<close> is a record of its capacity, its live rectangles
  (\<^verbatim>\<open>numRects\<close> is the length of the list; slots past it are never read before they are
  written) and its extents. A pointer pair \<open>r, rEnd\<close> into an array of rectangles is the list
  of the rectangles between the two. Memory allocation is the parameter \<open>mem\<close>: \<open>mem n\<close> says
  whether an array of \<open>n\<close> rectangles can be had, and \<open>None\<close> is the \<^verbatim>\<open>FALSE\<close> the code
  returns when it cannot.
\<close>

section \<open>The structure\<close>

record wregion =
  wr_size :: nat
  wr_rects :: "rect list"
  wr_extents :: rect

type_synonym mem = "nat \<Rightarrow> bool"

datatype rgn_type = RGN_ERROR | NULLREGION | SIMPLEREGION | COMPLEXREGION

definition RGN_DEFAULT_RECTS :: nat where
  "RGN_DEFAULT_RECTS = 4"

abbreviation numRects :: "wregion \<Rightarrow> nat" where
  "numRects reg \<equiv> length (wr_rects reg)"

definition get_region_type :: "wregion \<Rightarrow> rgn_type" where
  "get_region_type reg =
     (if numRects reg = 0 then NULLREGION
      else if numRects reg = 1 then SIMPLEREGION else COMPLEXREGION)"

text \<open>\<open>region_find_pt\<close>: binary search for the rectangle at a point, or the first one after it.\<close>

function find_pt_loop :: "rect list \<Rightarrow> int \<Rightarrow> int \<Rightarrow> int \<Rightarrow> int \<Rightarrow> int \<times> bool" where
  "find_pt_loop rs x y s e =
     (if s \<le> e then
        let i = (s + e) div 2; q = rs ! nat i in
        if r_bottom q \<le> y \<or> (r_top q \<le> y \<and> r_right q \<le> x) then find_pt_loop rs x y (i + 1) e
        else if r_top q > y \<or> (r_bottom q > y \<and> r_left q > x) then find_pt_loop rs x y s (i - 1)
        else (i, True)
      else (s, False))"
  by pat_completeness auto
termination
  by (relation "measure (\<lambda>(rs, x, y, s, e). nat (e + 1 - s))") auto

declare find_pt_loop.simps [simp del]

definition region_find_pt :: "wregion \<Rightarrow> int \<Rightarrow> int \<Rightarrow> int \<times> bool" where
  "region_find_pt reg x y = find_pt_loop (wr_rects reg) x y 0 (int (numRects reg) - 1)"

section \<open>Allocation and growth\<close>

definition grow_region :: "mem \<Rightarrow> wregion \<Rightarrow> nat \<Rightarrow> wregion option" where
  "grow_region mem reg n =
     (if n \<le> wr_size reg then Some reg
      else if mem n then Some (reg\<lparr>wr_size := n\<rparr>) else None)"

definition add_rect :: "mem \<Rightarrow> wregion \<Rightarrow> int \<Rightarrow> int \<Rightarrow> int \<Rightarrow> int \<Rightarrow> wregion option" where
  "add_rect mem reg left tp right bt =
     (case (if numRects reg \<ge> wr_size reg then grow_region mem reg (2 * wr_size reg) else Some reg) of
        None \<Rightarrow> None
      | Some reg' \<Rightarrow> Some (reg'\<lparr>wr_rects := wr_rects reg' @ [mk_rect left tp right bt]\<rparr>))"

definition empty_region :: "wregion \<Rightarrow> wregion" where
  "empty_region reg = reg\<lparr>wr_rects := [], wr_extents := mk_rect 0 0 0 0\<rparr>"

text \<open>\<open>init_region\<close>: 134217727 is \<^verbatim>\<open>INT_MAX / sizeof(RECT)\<close>.\<close>

definition init_region :: "mem \<Rightarrow> nat \<Rightarrow> wregion option" where
  "init_region mem n =
     (let n' = max n RGN_DEFAULT_RECTS;
          fresh = \<lparr>wr_size = n', wr_rects = [], wr_extents = mk_rect 0 0 0 0\<rparr>
      in if n' > RGN_DEFAULT_RECTS
         then (if n' > 134217727 then None else if mem n' then Some (empty_region fresh) else None)
         else Some (empty_region fresh))"

definition move_rects :: "wregion \<Rightarrow> wregion \<Rightarrow> wregion" where
  "move_rects dst src = dst\<lparr>wr_rects := wr_rects src, wr_size := wr_size src\<rparr>"

definition REGION_compact :: "mem \<Rightarrow> wregion \<Rightarrow> wregion" where
  "REGION_compact mem reg =
     (if numRects reg < wr_size reg div 2 \<and> numRects reg > RGN_DEFAULT_RECTS
      then (if mem (numRects reg) then reg\<lparr>wr_size := numRects reg\<rparr> else reg)
      else reg)"

section \<open>Coalescing bands\<close>

text \<open>The start of the last band: step back while the rectangle before has the same top.\<close>

fun last_band_start :: "rect list \<Rightarrow> nat \<Rightarrow> nat" where
  "last_band_start rs 0 = 0"
| "last_band_start rs (Suc k) =
     (if r_top (rs ! k) = r_top (rs ! Suc k) then last_band_start rs k else Suc k)"

definition same_spans :: "rect list \<Rightarrow> rect list \<Rightarrow> bool" where
  "same_spans = list_all2 (\<lambda>p c. r_left p = r_left c \<and> r_right p = r_right c)"

text \<open>
  \<open>REGION_Coalesce\<close> on the rectangles of a region, with the indices of the previous and the
  current band; it returns the rectangles and the index of the next previous band.
\<close>

definition REGION_Coalesce :: "rect list \<Rightarrow> nat \<Rightarrow> nat \<Rightarrow> rect list \<times> nat" where
  "REGION_Coalesce rs prevStart curStart =
     (let prevNum = curStart - prevStart;
          cur = takeWhile (\<lambda>q. r_top q = r_top (rs ! curStart)) (drop curStart rs);
          curNum = length cur;
          curEnd = curStart + curNum;
          curStart' = (if curEnd \<noteq> length rs then last_band_start rs (length rs - 1) else curStart);
          prev = take prevNum (drop prevStart rs)
      in if curNum = prevNum \<and> curNum \<noteq> 0 \<and> r_bottom (rs ! prevStart) = r_top (rs ! curStart)
            \<and> same_spans prev cur
         then (take prevStart rs @ map2 (\<lambda>p c. p\<lparr>r_bottom := r_bottom c\<rparr>) prev cur @ drop curEnd rs,
               if curEnd = length rs then prevStart else curStart')
         else (rs, curStart'))"

section \<open>The overlap and non-overlap functions\<close>

type_synonym ovl_fun = "mem \<Rightarrow> wregion \<Rightarrow> rect list \<Rightarrow> rect list \<Rightarrow> int \<Rightarrow> int \<Rightarrow> wregion option"
type_synonym non_fun = "mem \<Rightarrow> wregion \<Rightarrow> rect list \<Rightarrow> int \<Rightarrow> int \<Rightarrow> wregion option"

fun REGION_IntersectO :: ovl_fun where
  "REGION_IntersectO mem reg (p # ps) (q # qs) tp bt =
     (let left = max (r_left p) (r_left q); right = min (r_right p) (r_right q) in
      case (if left < right then add_rect mem reg left tp right bt else Some reg) of
        None \<Rightarrow> None
      | Some reg' \<Rightarrow>
          if r_right p < r_right q then REGION_IntersectO mem reg' ps (q # qs) tp bt
          else if r_right q < r_right p then REGION_IntersectO mem reg' (p # ps) qs tp bt
          else REGION_IntersectO mem reg' ps qs tp bt)"
| "REGION_IntersectO mem reg ps qs tp bt = Some reg"

fun REGION_UnionNonO :: non_fun where
  "REGION_UnionNonO mem reg [] tp bt = Some reg"
| "REGION_UnionNonO mem reg (q # qs) tp bt =
     (case add_rect mem reg (r_left q) tp (r_right q) bt of
        None \<Rightarrow> None
      | Some reg' \<Rightarrow> REGION_UnionNonO mem reg' qs tp bt)"

text \<open>The macro \<^verbatim>\<open>MERGERECT\<close> of \<open>REGION_UnionO\<close>.\<close>

definition MERGERECT :: "mem \<Rightarrow> wregion \<Rightarrow> rect \<Rightarrow> int \<Rightarrow> int \<Rightarrow> wregion option" where
  "MERGERECT mem reg q tp bt =
     (if numRects reg \<noteq> 0 \<and> r_top (last (wr_rects reg)) = tp
         \<and> r_bottom (last (wr_rects reg)) = bt \<and> r_right (last (wr_rects reg)) \<ge> r_left q
      then if r_right (last (wr_rects reg)) < r_right q
           then Some (reg\<lparr>wr_rects := butlast (wr_rects reg)
                         @ [(last (wr_rects reg))\<lparr>r_right := r_right q\<rparr>]\<rparr>)
           else Some reg
      else add_rect mem reg (r_left q) tp (r_right q) bt)"

fun REGION_UnionO :: ovl_fun where
  "REGION_UnionO mem reg (p # ps) (q # qs) tp bt =
     (if r_left p < r_left q
      then (case MERGERECT mem reg p tp bt of
              None \<Rightarrow> None | Some reg' \<Rightarrow> REGION_UnionO mem reg' ps (q # qs) tp bt)
      else (case MERGERECT mem reg q tp bt of
              None \<Rightarrow> None | Some reg' \<Rightarrow> REGION_UnionO mem reg' (p # ps) qs tp bt))"
| "REGION_UnionO mem reg (p # ps) [] tp bt =
     (case MERGERECT mem reg p tp bt of
        None \<Rightarrow> None | Some reg' \<Rightarrow> REGION_UnionO mem reg' ps [] tp bt)"
| "REGION_UnionO mem reg [] (q # qs) tp bt =
     (case MERGERECT mem reg q tp bt of
        None \<Rightarrow> None | Some reg' \<Rightarrow> REGION_UnionO mem reg' [] qs tp bt)"
| "REGION_UnionO mem reg [] [] tp bt = Some reg"

fun REGION_SubtractNonO1 :: non_fun where
  "REGION_SubtractNonO1 mem reg [] tp bt = Some reg"
| "REGION_SubtractNonO1 mem reg (q # qs) tp bt =
     (case add_rect mem reg (r_left q) tp (r_right q) bt of
        None \<Rightarrow> None
      | Some reg' \<Rightarrow> REGION_SubtractNonO1 mem reg' qs tp bt)"

text \<open>\<open>r1++; if (r1 != r1End) left = r1->left\<close>: the left fence after stepping to \<open>ps\<close>.\<close>

definition next_left :: "int \<Rightarrow> rect list \<Rightarrow> int" where
  "next_left left ps = (case ps of [] \<Rightarrow> left | p # _ \<Rightarrow> r_left p)"

function SubtractO_loop ::
    "mem \<Rightarrow> wregion \<Rightarrow> int \<Rightarrow> rect list \<Rightarrow> rect list \<Rightarrow> int \<Rightarrow> int \<Rightarrow> wregion option" where
  "SubtractO_loop mem reg left [] qs tp bt = Some reg"
| "SubtractO_loop mem reg left (p # ps) [] tp bt =
     (case add_rect mem reg left tp (r_right p) bt of
        None \<Rightarrow> None
      | Some reg' \<Rightarrow> SubtractO_loop mem reg' (next_left left ps) ps [] tp bt)"
| "SubtractO_loop mem reg left (p # ps) (q # qs) tp bt =
     (if r_right q \<le> left then SubtractO_loop mem reg left (p # ps) qs tp bt
      else if r_left q \<le> left then
        (let left' = r_right q in
         if left' \<ge> r_right p then SubtractO_loop mem reg (next_left left' ps) ps (q # qs) tp bt
         else SubtractO_loop mem reg left' (p # ps) qs tp bt)
      else if r_left q < r_right p then
        (case add_rect mem reg left tp (r_left q) bt of
           None \<Rightarrow> None
         | Some reg' \<Rightarrow>
             let left' = r_right q in
             if left' \<ge> r_right p then SubtractO_loop mem reg' (next_left left' ps) ps (q # qs) tp bt
             else SubtractO_loop mem reg' left' (p # ps) qs tp bt)
      else
        (case (if r_right p > left then add_rect mem reg left tp (r_right p) bt else Some reg) of
           None \<Rightarrow> None
         | Some reg' \<Rightarrow> SubtractO_loop mem reg' (next_left left ps) ps (q # qs) tp bt))"
  by pat_completeness auto
termination
  by (relation "measure (\<lambda>(mem, reg, left, ps, qs, tp, bt). length ps + length qs)") auto

definition REGION_SubtractO :: ovl_fun where
  "REGION_SubtractO mem reg ps qs tp bt =
     SubtractO_loop mem reg (r_left (hd ps)) ps qs tp bt"

section \<open>The band sweep\<close>

definition cur_band :: "rect list \<Rightarrow> rect list" where
  "cur_band rs = takeWhile (\<lambda>q. r_top q = r_top (hd rs)) rs"

definition next_band :: "rect list \<Rightarrow> rect list" where
  "next_band rs = dropWhile (\<lambda>q. r_top q = r_top (hd rs)) rs"

lemma next_band_shorter: "rs \<noteq> [] \<Longrightarrow> length (next_band rs) < length rs"
  by (cases rs) (auto simp: next_band_def le_imp_less_Suc length_dropWhile_le)

text \<open>\<open>if (newReg.numRects != curBand) prevBand = REGION_Coalesce(...)\<close>\<close>

definition coalesce_new :: "wregion \<Rightarrow> nat \<Rightarrow> nat \<Rightarrow> wregion \<times> nat" where
  "coalesce_new reg prevBand curBand =
     (if numRects reg \<noteq> curBand
      then (let (rs, pb) = REGION_Coalesce (wr_rects reg) prevBand curBand
            in (reg\<lparr>wr_rects := rs\<rparr>, pb))
      else (reg, prevBand))"

text \<open>\<open>if ((top != bot) && (nonOverlapFunc != NULL)) ...\<close>\<close>

definition call_non :: "mem \<Rightarrow> non_fun option \<Rightarrow> wregion \<Rightarrow> rect list \<Rightarrow> int \<Rightarrow> int \<Rightarrow> wregion option" where
  "call_non mem nf reg band tp bo =
     (case nf of None \<Rightarrow> Some reg
      | Some f \<Rightarrow> if tp \<noteq> bo then f mem reg band tp bo else Some reg)"

text \<open>The first half of one pass of the loop: the band that only one region has.\<close>

definition RegionOp_top ::
    "mem \<Rightarrow> non_fun option \<Rightarrow> non_fun option \<Rightarrow> wregion \<Rightarrow> int \<Rightarrow> rect list \<Rightarrow> rect list
     \<Rightarrow> (wregion \<times> int) option" where
  "RegionOp_top mem n1 n2 reg ybot r1 r2 =
     (if r_top (hd r1) < r_top (hd r2) then
        map_option (\<lambda>reg'. (reg', r_top (hd r2)))
          (call_non mem n1 reg (cur_band r1) (max (r_top (hd r1)) ybot)
             (min (r_bottom (hd r1)) (r_top (hd r2))))
      else if r_top (hd r2) < r_top (hd r1) then
        map_option (\<lambda>reg'. (reg', r_top (hd r1)))
          (call_non mem n2 reg (cur_band r2) (max (r_top (hd r2)) ybot)
             (min (r_bottom (hd r2)) (r_top (hd r1))))
      else Some (reg, r_top (hd r1)))"

text \<open>One pass of the loop: the new region, the previous band, the new \<open>ybot\<close> and the rests.\<close>

definition RegionOp_pass ::
    "mem \<Rightarrow> ovl_fun \<Rightarrow> non_fun option \<Rightarrow> non_fun option \<Rightarrow> wregion \<Rightarrow> nat \<Rightarrow> int
     \<Rightarrow> rect list \<Rightarrow> rect list \<Rightarrow> (wregion \<times> nat \<times> int) option" where
  "RegionOp_pass mem ovl n1 n2 reg prevBand ybot r1 r2 =
     (case RegionOp_top mem n1 n2 reg ybot r1 r2 of
        None \<Rightarrow> None
      | Some (reg1, ytop) \<Rightarrow>
          (let (reg2, pb1) = coalesce_new reg1 prevBand (numRects reg);
               ybot' = min (r_bottom (hd r1)) (r_bottom (hd r2));
               curBand = numRects reg2
           in case (if ybot' > ytop then ovl mem reg2 (cur_band r1) (cur_band r2) ytop ybot'
                    else Some reg2) of
                None \<Rightarrow> None
              | Some reg3 \<Rightarrow>
                  (let (reg4, pb2) = coalesce_new reg3 pb1 curBand in Some (reg4, pb2, ybot'))))"

definition RegionOp_skip :: "int \<Rightarrow> rect list \<Rightarrow> rect list" where
  "RegionOp_skip ybot r = (if r_bottom (hd r) = ybot then next_band r else r)"

text \<open>
  The \<^verbatim>\<open>do ... while ((r1 != r1End) && (r2 != r2End))\<close> loop. Every caller passes two
  non-empty regions, so testing the condition first runs the same passes.
\<close>

function RegionOp_loop ::
    "mem \<Rightarrow> ovl_fun \<Rightarrow> non_fun option \<Rightarrow> non_fun option \<Rightarrow> wregion \<Rightarrow> nat \<Rightarrow> int
     \<Rightarrow> rect list \<Rightarrow> rect list \<Rightarrow> (wregion \<times> nat \<times> int \<times> rect list \<times> rect list) option" where
  "RegionOp_loop mem ovl n1 n2 reg prevBand ybot r1 r2 =
     (if r1 \<noteq> [] \<and> r2 \<noteq> [] then
        (case RegionOp_pass mem ovl n1 n2 reg prevBand ybot r1 r2 of
           None \<Rightarrow> None
         | Some (reg', pb', _) \<Rightarrow>
             (let yb = min (r_bottom (hd r1)) (r_bottom (hd r2)) in
              RegionOp_loop mem ovl n1 n2 reg' pb' yb (RegionOp_skip yb r1) (RegionOp_skip yb r2)))
      else Some (reg, prevBand, ybot, r1, r2))"
  by pat_completeness auto
termination
proof (relation "measure (\<lambda>(mem, ovl, n1, n2, reg, prevBand, ybot, r1, r2). length r1 + length r2)",
       goal_cases)
  case (2 mem ovl n1 n2 reg prevBand ybot r1 r2 x2 reg' y pb' z yb)
  then have "length (RegionOp_skip yb r1) \<le> length r1" "length (RegionOp_skip yb r2) \<le> length r2"
    using next_band_shorter [of r1] next_band_shorter [of r2] by (auto simp: RegionOp_skip_def)
  moreover have "length (RegionOp_skip yb r1) < length r1 \<or> length (RegionOp_skip yb r2) < length r2"
    using 2 next_band_shorter [of r1] next_band_shorter [of r2]
    by (auto simp: RegionOp_skip_def min_def)
  ultimately show ?case by auto
qed simp

declare RegionOp_loop.simps [simp del]

text \<open>The bands of the region that is not exhausted.\<close>

function RegionOp_rest :: "mem \<Rightarrow> non_fun \<Rightarrow> wregion \<Rightarrow> int \<Rightarrow> rect list \<Rightarrow> wregion option" where
  "RegionOp_rest mem f reg ybot r =
     (if r = [] then Some reg
      else (case f mem reg (cur_band r) (max (r_top (hd r)) ybot) (r_bottom (hd r)) of
              None \<Rightarrow> None
            | Some reg' \<Rightarrow> RegionOp_rest mem f reg' ybot (next_band r)))"
  by pat_completeness auto
termination
  by (relation "measure (\<lambda>(mem, f, reg, ybot, r). length r)") (auto simp: next_band_shorter)

declare RegionOp_rest.simps [simp del]

definition RegionOp_tail ::
    "mem \<Rightarrow> non_fun option \<Rightarrow> non_fun option \<Rightarrow> wregion \<Rightarrow> int \<Rightarrow> rect list \<Rightarrow> rect list
     \<Rightarrow> wregion option" where
  "RegionOp_tail mem n1 n2 reg ybot r1 r2 =
     (if r1 \<noteq> [] then
        (case n1 of None \<Rightarrow> Some reg | Some f \<Rightarrow> RegionOp_rest mem f reg ybot r1)
      else if r2 \<noteq> [] then
        (case n2 of None \<Rightarrow> Some reg | Some f \<Rightarrow> RegionOp_rest mem f reg ybot r2)
      else Some reg)"

text \<open>
  \<open>REGION_RegionOp\<close>, from the two source regions to the region that \<open>move_rects\<close> puts into
  the destination.
\<close>

definition RegionOp_new ::
    "mem \<Rightarrow> ovl_fun \<Rightarrow> non_fun option \<Rightarrow> non_fun option \<Rightarrow> wregion \<Rightarrow> wregion \<Rightarrow> wregion option" where
  "RegionOp_new mem ovl n1 n2 reg1 reg2 =
     (case init_region mem (max (numRects reg1) (numRects reg2) * 2) of
        None \<Rightarrow> None
      | Some new \<Rightarrow>
          (let ybot = (if r_top (wr_extents reg1) < r_top (wr_extents reg2)
                       then r_top (wr_extents reg1) else r_top (wr_extents reg2))
           in case RegionOp_loop mem ovl n1 n2 new 0 ybot (wr_rects reg1) (wr_rects reg2) of
                None \<Rightarrow> None
              | Some (new1, prevBand, yb, r1, r2) \<Rightarrow>
                  (case RegionOp_tail mem n1 n2 new1 yb r1 r2 of
                     None \<Rightarrow> None
                   | Some new2 \<Rightarrow>
                       Some (REGION_compact mem (fst (coalesce_new new2 prevBand (numRects new1)))))))"

end
