(* ===== verification/Region_Store.thy ===== *)
theory Region_Store
  imports Region_Model
begin

text \<open>
  The operations of \<^verbatim>\<open>src/region.cpp\<close> on region objects. They take pointers and mutate what
  the pointers refer to, and the destination may be one of the sources, so they are modelled
  on an explicit store: a map from region pointers to regions. A pointer refers to a heap
  object (\<open>Obj\<close>) or to a \<^verbatim>\<open>WINEREGION\<close> on the stack of an operation (\<open>Tmp\<close>); no operation
  that has locals calls another that has, so the two numbers below never clash. An operation
  returns the \<^verbatim>\<open>BOOL\<close> of the code and the store after it.
\<close>

section \<open>The store\<close>

datatype rptr = Obj nat | Tmp nat

type_synonym store = "rptr \<Rightarrow> wregion"
type_synonym outcome = "bool \<times> store"

text \<open>\<open>ret_op\<close> puts the result of a fallible update into the store; \<open>seq_op\<close> is \<^verbatim>\<open>&&\<close> and \<^verbatim>\<open>if (!...) goto done\<close>.\<close>

definition ret_op :: "rptr \<Rightarrow> store \<Rightarrow> wregion option \<Rightarrow> outcome" where
  "ret_op p st r = (case r of None \<Rightarrow> (False, st) | Some reg \<Rightarrow> (True, st(p := reg)))"

definition seq_op :: "outcome \<Rightarrow> (store \<Rightarrow> outcome) \<Rightarrow> outcome" where
  "seq_op r f = (if fst r then f (snd r) else r)"

section \<open>Extents, copying, offsetting\<close>

definition widen :: "rect \<Rightarrow> rect \<Rightarrow> rect" where
  "widen e q = (let e1 = (if r_left q < r_left e then e\<lparr>r_left := r_left q\<rparr> else e)
     in if r_right q > r_right e1 then e1\<lparr>r_right := r_right q\<rparr> else e1)"

definition REGION_SetExtents :: "wregion \<Rightarrow> wregion" where
  "REGION_SetExtents reg =
     (if numRects reg = 0 then reg\<lparr>wr_extents := mk_rect 0 0 0 0\<rparr>
      else (let rs = wr_rects reg;
                e = mk_rect (r_left (hd rs)) (r_top (hd rs)) (r_right (last rs)) (r_bottom (last rs))
            in reg\<lparr>wr_extents := foldl widen e rs\<rparr>))"

definition REGION_CopyRegion :: "mem \<Rightarrow> rptr \<Rightarrow> rptr \<Rightarrow> store \<Rightarrow> outcome" where
  "REGION_CopyRegion mem d s st =
     (if d \<noteq> s then
        ret_op d st (map_option (\<lambda>g. g\<lparr>wr_rects := wr_rects (st s), wr_extents := wr_extents (st s)\<rparr>)
          (if wr_size (st d) < numRects (st s) then grow_region mem (st d) (numRects (st s)) else Some (st d)))
      else (True, st))"

text \<open>\<^verbatim>\<open>INT\<close> additions wrap.\<close>

definition offset_rect :: "int \<Rightarrow> int \<Rightarrow> rect \<Rightarrow> rect" where
  "offset_rect x y q = mk_rect (wrap32 (r_left q + x)) (wrap32 (r_top q + y))
     (wrap32 (r_right q + x)) (wrap32 (r_bottom q + y))"

definition offset_wregion :: "int \<Rightarrow> int \<Rightarrow> wregion \<Rightarrow> wregion" where
  "offset_wregion x y reg =
     (if (x \<noteq> 0 \<or> y \<noteq> 0) \<and> numRects reg \<noteq> 0
      then reg\<lparr>wr_rects := map (offset_rect x y) (wr_rects reg),
               wr_extents := offset_rect x y (wr_extents reg)\<rparr>
      else reg)"

definition REGION_OffsetRegion :: "mem \<Rightarrow> rptr \<Rightarrow> rptr \<Rightarrow> int \<Rightarrow> int \<Rightarrow> store \<Rightarrow> outcome" where
  "REGION_OffsetRegion mem d s x y st =
     seq_op (if d \<noteq> s then REGION_CopyRegion mem d s st else (True, st))
       (\<lambda>st. (True, st(d := offset_wregion x y (st d))))"

section \<open>Mirroring\<close>

definition mirror_rect :: "int \<Rightarrow> rect \<Rightarrow> rect" where
  "mirror_rect width q = mk_rect (wrap32 (width - r_right q)) (r_top q) (wrap32 (width - r_left q)) (r_bottom q)"

text \<open>Each band is written back to front; a band ends where the top changes.\<close>

function mirror_bands :: "int \<Rightarrow> rect list \<Rightarrow> rect list" where
  "mirror_bands width rs =
     (if rs = [] then []
      else map (mirror_rect width) (rev (cur_band rs)) @ mirror_bands width (next_band rs))"
  by pat_completeness auto
termination
  by (relation "measure (\<lambda>(width, rs). length rs)") (auto simp: next_band_shorter)

declare mirror_bands.simps [simp del]

definition REGION_MirrorRegion :: "mem \<Rightarrow> rptr \<Rightarrow> rptr \<Rightarrow> int \<Rightarrow> store \<Rightarrow> outcome" where
  "REGION_MirrorRegion mem d s width st =
     (let rects = mirror_bands width (wr_rects (st s));
          ext = mirror_rect width (wr_extents (st s))
      in if d \<noteq> s
         then ret_op d st (map_option (\<lambda>g. g\<lparr>wr_rects := rects, wr_extents := ext\<rparr>)
                (grow_region mem (st d) (numRects (st s))))
         else ret_op d st (map_option (\<lambda>tmp. (move_rects (st d) (tmp\<lparr>wr_rects := rects\<rparr>))\<lparr>wr_extents := ext\<rparr>)
                (init_region mem (numRects (st s)))))"

section \<open>The set operations\<close>

definition REGION_RegionOp ::
    "mem \<Rightarrow> ovl_fun \<Rightarrow> non_fun option \<Rightarrow> non_fun option \<Rightarrow> rptr \<Rightarrow> rptr \<Rightarrow> rptr \<Rightarrow> store \<Rightarrow> outcome" where
  "REGION_RegionOp mem ovl n1 n2 d a b st =
     ret_op d st (map_option (move_rects (st d)) (RegionOp_new mem ovl n1 n2 (st a) (st b)))"

definition update_op :: "rptr \<Rightarrow> (wregion \<Rightarrow> wregion) \<Rightarrow> store \<Rightarrow> outcome" where
  "update_op p f st = (True, st(p := f (st p)))"

definition REGION_IntersectRegion :: "mem \<Rightarrow> rptr \<Rightarrow> rptr \<Rightarrow> rptr \<Rightarrow> store \<Rightarrow> outcome" where
  "REGION_IntersectRegion mem d a b st =
     seq_op
       (if numRects (st a) = 0 \<or> numRects (st b) = 0
           \<or> \<not> overlapping (wr_extents (st a)) (wr_extents (st b))
        then update_op d (\<lambda>reg. reg\<lparr>wr_rects := []\<rparr>) st
        else REGION_RegionOp mem REGION_IntersectO None None d a b st)
       (update_op d REGION_SetExtents)"

text \<open>\<open>subsumes e f\<close>: the test of \<open>REGION_UnionRegion\<close> for one box inside another.\<close>

definition subsumes :: "rect \<Rightarrow> rect \<Rightarrow> bool" where
  "subsumes e f \<longleftrightarrow> r_left e \<le> r_left f \<and> r_top e \<le> r_top f \<and> r_right e \<ge> r_right f \<and> r_bottom e \<ge> r_bottom f"

definition join_extents :: "rect \<Rightarrow> rect \<Rightarrow> rect" where
  "join_extents e f = mk_rect (min (r_left e) (r_left f)) (min (r_top e) (r_top f))
     (max (r_right e) (r_right f)) (max (r_bottom e) (r_bottom f))"

definition copy_unless_same :: "mem \<Rightarrow> rptr \<Rightarrow> rptr \<Rightarrow> store \<Rightarrow> outcome" where
  "copy_unless_same mem d s st = (if d \<noteq> s then REGION_CopyRegion mem d s st else (True, st))"

text \<open>
  After \<open>REGION_RegionOp\<close> the code reads the extents of \<open>reg1\<close> and \<open>reg2\<close> again, which are
  still the old ones: \<open>move_rects\<close> leaves the extents of the destination alone. It writes the
  destination's four fields one after the other; where the destination is a source, each
  field is read only in the assignment that overwrites it.
\<close>

definition REGION_UnionRegion :: "mem \<Rightarrow> rptr \<Rightarrow> rptr \<Rightarrow> rptr \<Rightarrow> store \<Rightarrow> outcome" where
  "REGION_UnionRegion mem d a b st =
     (if a = b \<or> numRects (st a) = 0 then copy_unless_same mem d b st
      else if numRects (st b) = 0 then copy_unless_same mem d a st
      else if numRects (st a) = 1 \<and> subsumes (wr_extents (st a)) (wr_extents (st b))
        then copy_unless_same mem d a st
      else if numRects (st b) = 1 \<and> subsumes (wr_extents (st b)) (wr_extents (st a))
        then copy_unless_same mem d b st
      else seq_op (REGION_RegionOp mem REGION_UnionO (Some REGION_UnionNonO) (Some REGION_UnionNonO) d a b st)
        (\<lambda>st'. (True, st'(d := (st' d)\<lparr>wr_extents := join_extents (wr_extents (st' a)) (wr_extents (st' b))\<rparr>))))"

definition REGION_SubtractRegion :: "mem \<Rightarrow> rptr \<Rightarrow> rptr \<Rightarrow> rptr \<Rightarrow> store \<Rightarrow> outcome" where
  "REGION_SubtractRegion mem d m s st =
     (if numRects (st m) = 0 \<or> numRects (st s) = 0
         \<or> \<not> overlapping (wr_extents (st m)) (wr_extents (st s))
      then REGION_CopyRegion mem d m st
      else seq_op (REGION_RegionOp mem REGION_SubtractO (Some REGION_SubtractNonO1) None d m s st)
        (update_op d REGION_SetExtents))"

text \<open>\<open>tra\<close> and \<open>trb\<close> are the locals \<open>Tmp 0\<close> and \<open>Tmp 1\<close>.\<close>

definition REGION_XorRegion :: "mem \<Rightarrow> rptr \<Rightarrow> rptr \<Rightarrow> rptr \<Rightarrow> store \<Rightarrow> outcome" where
  "REGION_XorRegion mem d a b st =
     seq_op (ret_op (Tmp 0) st (init_region mem (numRects (st a) + 1)))
       (\<lambda>st. seq_op (ret_op (Tmp 1) st (init_region mem (numRects (st b) + 1)))
       (\<lambda>st. seq_op (REGION_SubtractRegion mem (Tmp 0) a b st)
       (\<lambda>st. seq_op (REGION_SubtractRegion mem (Tmp 1) b a st)
       (\<lambda>st. REGION_UnionRegion mem d (Tmp 0) (Tmp 1) st))))"

text \<open>The local \<open>region\<close> of \<open>REGION_UnionRectWithRegion\<close>; \<open>init_region (1)\<close> uses the inline buffer.\<close>

definition rect_region :: "rect \<Rightarrow> wregion" where
  "rect_region q = \<lparr>wr_size = RGN_DEFAULT_RECTS, wr_rects = [q], wr_extents = q\<rparr>"

definition REGION_UnionRectWithRegion :: "mem \<Rightarrow> rect \<Rightarrow> rptr \<Rightarrow> store \<Rightarrow> outcome" where
  "REGION_UnionRectWithRegion mem q p st =
     REGION_UnionRegion mem p p (Tmp 0) (st(Tmp 0 := rect_region q))"

text \<open>
  The body of \<open>REGION_FrameRgn\<close> once both objects are found and the source is not empty;
  \<open>tmprgn\<close> is \<open>Tmp 0\<close>.
\<close>

definition FrameRgn_body :: "mem \<Rightarrow> rptr \<Rightarrow> rptr \<Rightarrow> int \<Rightarrow> int \<Rightarrow> store \<Rightarrow> outcome" where
  "FrameRgn_body mem d s x y st =
     seq_op (ret_op (Tmp 0) st (init_region mem (numRects (st s))))
       (\<lambda>st. seq_op (REGION_OffsetRegion mem d s (wrap32 (- x)) 0 st)
       (\<lambda>st. seq_op (REGION_OffsetRegion mem (Tmp 0) s x 0 st)
       (\<lambda>st. seq_op (REGION_IntersectRegion mem d d (Tmp 0) st)
       (\<lambda>st. seq_op (REGION_OffsetRegion mem (Tmp 0) s 0 (wrap32 (- y)) st)
       (\<lambda>st. seq_op (REGION_IntersectRegion mem d d (Tmp 0) st)
       (\<lambda>st. seq_op (REGION_OffsetRegion mem (Tmp 0) s 0 y st)
       (\<lambda>st. seq_op (REGION_IntersectRegion mem d d (Tmp 0) st)
       (\<lambda>st. REGION_SubtractRegion mem d s d st))))))))"

end
