(* ===== verification/Region_Spec.thy ===== *)
theory Region_Spec
  imports Region_Model
begin

text \<open>
  What a list of rectangles means and which lists the code builds. \<open>covers rs x y\<close> is the
  point set; \<open>banded\<close> is the y-x-banding every operation relies on; \<open>gapped\<close> and
  \<open>coalesced\<close> add that spans and bands are maximal, which makes the list canonical: two
  canonical lists with the same points are equal.
\<close>

section \<open>Points, spans, bands\<close>

definition span_cov :: "rect list \<Rightarrow> int \<Rightarrow> bool" where
  "span_cov rs x \<longleftrightarrow> (\<exists>q\<in>set rs. r_left q \<le> x \<and> x < r_right q)"

definition covers :: "rect list \<Rightarrow> int \<Rightarrow> int \<Rightarrow> bool" where
  "covers rs x y \<longleftrightarrow> (\<exists>q\<in>set rs. is_in_rect q x y)"

definition rect_before :: "rect \<Rightarrow> rect \<Rightarrow> bool" where
  "rect_before p q \<longleftrightarrow> r_bottom p \<le> r_top q
     \<or> (r_top p = r_top q \<and> r_bottom p = r_bottom q \<and> r_right p \<le> r_left q)"

definition banded :: "rect list \<Rightarrow> bool" where
  "banded rs \<longleftrightarrow> (\<forall>q\<in>set rs. rect_ok q) \<and> sorted_wrt rect_before rs"

definition is_band :: "int \<Rightarrow> int \<Rightarrow> rect list \<Rightarrow> bool" where
  "is_band t b rs \<longleftrightarrow> (\<forall>q\<in>set rs. r_top q = t \<and> r_bottom q = b \<and> rect_ok q)
     \<and> sorted_wrt (\<lambda>p q. r_right p \<le> r_left q) rs"

definition gapped :: "rect list \<Rightarrow> bool" where
  "gapped rs \<longleftrightarrow> sorted_wrt (\<lambda>p q. r_top p = r_top q \<longrightarrow> r_right p < r_left q) rs"

definition xspans :: "rect list \<Rightarrow> (int \<times> int) list" where
  "xspans rs = map (\<lambda>q. (r_left q, r_right q)) rs"

definition spans_at :: "rect list \<Rightarrow> int \<Rightarrow> (int \<times> int) list" where
  "spans_at rs y = xspans (filter (\<lambda>q. r_top q \<le> y \<and> y < r_bottom q) rs)"

definition coalesced :: "rect list \<Rightarrow> bool" where
  "coalesced rs \<longleftrightarrow> (\<forall>q\<in>set rs. spans_at rs (r_top q - 1) \<noteq> spans_at rs (r_top q))"

definition canonical :: "rect list \<Rightarrow> bool" where
  "canonical rs \<longleftrightarrow> banded rs \<and> gapped rs \<and> coalesced rs"

subsection \<open>Simple facts\<close>

lemma covers_Nil [simp]: "\<not> covers [] x y"
  by (simp add: covers_def)

lemma covers_append [simp]: "covers (as @ bs) x y \<longleftrightarrow> covers as x y \<or> covers bs x y"
  by (auto simp: covers_def)

lemma covers_Cons: "covers (q # rs) x y \<longleftrightarrow> is_in_rect q x y \<or> covers rs x y"
  by (auto simp: covers_def)

lemma span_cov_simps [simp]:
  "\<not> span_cov [] x"
  "span_cov (q # rs) x \<longleftrightarrow> (r_left q \<le> x \<and> x < r_right q) \<or> span_cov rs x"
  "span_cov (as @ bs) x \<longleftrightarrow> span_cov as x \<or> span_cov bs x"
  by (auto simp: span_cov_def)

lemma is_band_Nil [simp]: "is_band t b []"
  by (simp add: is_band_def)

lemma is_band_Cons:
  "is_band t b (q # rs) \<longleftrightarrow> r_top q = t \<and> r_bottom q = b \<and> rect_ok q
     \<and> (\<forall>p\<in>set rs. r_right q \<le> r_left p) \<and> is_band t b rs"
  by (auto simp: is_band_def)

lemma is_band_append:
  "is_band t b (as @ bs) \<longleftrightarrow> is_band t b as \<and> is_band t b bs
     \<and> (\<forall>p\<in>set as. \<forall>q\<in>set bs. r_right p \<le> r_left q)"
  by (auto simp: is_band_def sorted_wrt_append)

lemma gapped_Nil [simp]: "gapped []"
  by (simp add: gapped_def)

lemma gapped_Cons:
  "gapped (q # rs) \<longleftrightarrow> (\<forall>p\<in>set rs. r_top q = r_top p \<longrightarrow> r_right q < r_left p) \<and> gapped rs"
  by (simp add: gapped_def)

lemma gapped_append:
  "gapped (as @ bs) \<longleftrightarrow> gapped as \<and> gapped bs
     \<and> (\<forall>p\<in>set as. \<forall>q\<in>set bs. r_top p = r_top q \<longrightarrow> r_right p < r_left q)"
  by (auto simp: gapped_def sorted_wrt_append)

lemma banded_Nil [simp]: "banded []"
  by (simp add: banded_def)

lemma banded_Cons:
  "banded (q # rs) \<longleftrightarrow> rect_ok q \<and> (\<forall>p\<in>set rs. rect_before q p) \<and> banded rs"
  by (auto simp: banded_def)

lemma banded_append:
  "banded (as @ bs) \<longleftrightarrow> banded as \<and> banded bs \<and> (\<forall>p\<in>set as. \<forall>q\<in>set bs. rect_before p q)"
  by (auto simp: banded_def sorted_wrt_append)

lemma banded_ok: "banded rs \<Longrightarrow> q \<in> set rs \<Longrightarrow> rect_ok q"
  by (simp add: banded_def)

lemma is_band_ok: "is_band t b rs \<Longrightarrow> q \<in> set rs \<Longrightarrow> rect_ok q \<and> r_top q = t \<and> r_bottom q = b"
  by (simp add: is_band_def)

lemma is_band_banded: "is_band t b rs \<Longrightarrow> banded rs"
  by (induction rs) (auto simp: is_band_Cons banded_Cons rect_before_def is_band_def)

lemma banded_is_band:
  "banded rs \<Longrightarrow> \<forall>q\<in>set rs. r_top q = t \<and> r_bottom q = b \<Longrightarrow> is_band t b rs"
  by (induction rs) (auto simp: is_band_Cons banded_Cons rect_before_def rect_ok_def)

lemma banded_above:
  assumes "banded as" "banded bs" "\<forall>p\<in>set as. r_bottom p \<le> t" "\<forall>q\<in>set bs. t \<le> r_top q"
  shows "banded (as @ bs)"
  using assms by (fastforce simp: banded_append rect_before_def)

lemma covers_band:
  "is_band t b rs \<Longrightarrow> covers rs x y \<longleftrightarrow> span_cov rs x \<and> t \<le> y \<and> y < b"
  by (auto simp: covers_def span_cov_def is_band_def is_in_rect_def)

lemma covers_below: "\<forall>q\<in>set rs. r_bottom q \<le> y \<Longrightarrow> \<not> covers rs x y"
  by (auto simp: covers_def is_in_rect_def)

lemma covers_over: "\<forall>q\<in>set rs. y < r_top q \<Longrightarrow> \<not> covers rs x y"
  by (auto simp: covers_def is_in_rect_def)

lemma covers_bounds: "covers rs x y \<Longrightarrow> \<exists>q\<in>set rs. r_top q \<le> y \<and> y < r_bottom q"
  by (auto simp: covers_def is_in_rect_def)

section \<open>The first band\<close>

lemma cur_next_band [simp]: "cur_band rs @ next_band rs = rs"
  by (simp add: cur_band_def next_band_def)

lemma cur_band_nonempty [simp]: "cur_band rs = [] \<longleftrightarrow> rs = []"
  by (cases rs) (simp_all add: cur_band_def)

lemma hd_cur_band [simp]: "hd (cur_band rs) = hd rs"
  by (cases rs) (simp_all add: cur_band_def)

lemma set_cur_next: "set rs = set (cur_band rs) \<union> set (next_band rs)"
  by (metis cur_next_band set_append)

lemma banded_cur_band:
  assumes "banded rs" "rs \<noteq> []"
  shows "is_band (r_top (hd rs)) (r_bottom (hd rs)) (cur_band rs)"
proof -
  let ?C = "cur_band rs"
  have C: "banded ?C" using assms(1) cur_next_band banded_append by metis
  obtain q qs where rs: "?C = q # qs" using assms(2) by (cases ?C) auto
  have hd: "hd rs = q" using rs hd_cur_band [of rs] by simp
  have top: "\<forall>p\<in>set ?C. r_top p = r_top q"
    using hd by (auto simp: cur_band_def dest: set_takeWhileD)
  have bot: "\<forall>p\<in>set ?C. r_bottom p = r_bottom q"
  proof
    fix p assume p: "p \<in> set ?C"
    have "rect_ok q" and "p = q \<or> rect_before q p" using C p rs by (auto simp: banded_Cons)
    with top p show "r_bottom p = r_bottom q" by (auto simp: rect_before_def rect_ok_def)
  qed
  show ?thesis using banded_is_band [OF C] top bot hd by simp
qed

lemma banded_next_band: "banded rs \<Longrightarrow> banded (next_band rs)"
  using cur_next_band banded_append by metis

lemma next_band_below:
  assumes "banded rs" "rs \<noteq> []" "q \<in> set (next_band rs)"
  shows "r_bottom (hd rs) \<le> r_top q"
proof -
  from assms(2) obtain p ps where cur: "cur_band rs = p # ps" by (cases "cur_band rs") auto
  then have p: "p = hd rs" using hd_cur_band [of rs] by simp
  obtain n ns where nx: "next_band rs = n # ns" using assms(3) by (cases "next_band rs") auto
  have qn: "q = n \<or> q \<in> set ns" using assms(3) nx by auto
  have n: "r_top n \<noteq> r_top p"
    using nx unfolding next_band_def p by (rule dropWhile_ConsD)
  have b: "banded ((p # ps) @ (n # ns))" using assms(1) cur nx cur_next_band by metis
  then have "rect_before p n" by (simp add: banded_Cons)
  then have "r_bottom p \<le> r_top n" using n by (auto simp: rect_before_def)
  moreover have "q = n \<or> rect_before n q" using qn b by (auto simp: banded_append banded_Cons)
  moreover have "rect_ok n" using b by (simp add: banded_append banded_Cons)
  ultimately show ?thesis using p by (auto simp: rect_before_def rect_ok_def)
qed

lemma covers_first_band:
  assumes "banded rs" "rs \<noteq> []"
  shows "covers rs x y \<longleftrightarrow>
    (span_cov (cur_band rs) x \<and> r_top (hd rs) \<le> y \<and> y < r_bottom (hd rs)) \<or> covers (next_band rs) x y"
  using covers_band [OF banded_cur_band [OF assms]] by (metis covers_append cur_next_band)

lemma covers_next_band_from:
  "banded rs \<Longrightarrow> rs \<noteq> [] \<Longrightarrow> covers (next_band rs) x y \<Longrightarrow> r_bottom (hd rs) \<le> y"
  by (fastforce dest: covers_bounds next_band_below)

lemma gapped_cur_next: "gapped rs \<Longrightarrow> gapped (cur_band rs) \<and> gapped (next_band rs)"
  using cur_next_band gapped_append by metis

lemma banded_hd_top: "banded rs \<Longrightarrow> q \<in> set rs \<Longrightarrow> r_top (hd rs) \<le> r_top q"
  by (cases rs) (auto simp: banded_Cons rect_before_def rect_ok_def)

end
