(* ===== verification/Region_Coalesce.thy ===== *)
theory Region_Coalesce
  imports Region_Spec
begin

text \<open>
  \<open>REGION_Coalesce\<close>: it keeps the points and the banding of a region, and appending one band
  and coalescing keeps a canonical list canonical.
\<close>

section \<open>Bands with the same spans\<close>

definition rebottom :: "int \<Rightarrow> rect \<Rightarrow> rect" where
  "rebottom b q = q\<lparr>r_bottom := b\<rparr>"

lemma rebottom_sel [simp]:
  "r_left (rebottom b q) = r_left q" "r_right (rebottom b q) = r_right q"
  "r_top (rebottom b q) = r_top q" "r_bottom (rebottom b q) = b"
  by (simp_all add: rebottom_def)

lemma same_spans_xspans: "same_spans as bs \<longleftrightarrow> xspans as = xspans bs"
  unfolding same_spans_def xspans_def
  by (induction as arbitrary: bs) (auto simp: list_all2_Cons1 Cons_eq_map_conv)

lemma span_cov_xspans: "span_cov rs x \<longleftrightarrow> (\<exists>(l, r)\<in>set (xspans rs). l \<le> x \<and> x < r)"
  by (auto simp: span_cov_def xspans_def)

lemma xspans_cong: "xspans as = xspans bs \<Longrightarrow> span_cov as x = span_cov bs x"
  by (simp add: span_cov_xspans)

lemma map2_rebottom:
  "is_band t b cs \<Longrightarrow> length ps = length cs \<Longrightarrow>
   map2 (\<lambda>p c. p\<lparr>r_bottom := r_bottom c\<rparr>) ps cs = map (rebottom b) ps"
proof (induction ps arbitrary: cs)
  case (Cons p ps)
  then show ?case by (cases cs) (auto simp: is_band_Cons rebottom_def)
qed simp

lemma is_band_rebottom:
  "is_band t b rs \<Longrightarrow> t < b' \<Longrightarrow> is_band t b' (map (rebottom b') rs)"
  by (induction rs) (auto simp: is_band_Cons rect_ok_def)

lemma xspans_rebottom [simp]: "xspans (map (rebottom b) rs) = xspans rs"
  by (simp add: xspans_def)

lemma gapped_rebottom [simp]: "gapped (map (rebottom b) rs) = gapped rs"
  by (simp add: gapped_def sorted_wrt_map)

section \<open>The result of coalescing\<close>

lemma Coalesce_eq:
  assumes "N \<noteq> []"
  shows "REGION_Coalesce (P @ L @ N) (length P) (length P + length L) =
    (if L \<noteq> [] \<and> r_bottom (hd L) = r_top (hd N) \<and> xspans L = xspans (cur_band N)
     then (P @ map2 (\<lambda>p c. p\<lparr>r_bottom := r_bottom c\<rparr>) L (cur_band N) @ next_band N,
           if next_band N = [] then length P
           else last_band_start (P @ L @ N) (length (P @ L @ N) - 1))
     else (P @ L @ N,
           if next_band N = [] then length P + length L
           else last_band_start (P @ L @ N) (length (P @ L @ N) - 1)))"
proof -
  let ?rs = "P @ L @ N" and ?c = "length P + length L"
  have c: "?rs ! ?c = hd N" "drop ?c ?rs = N" "drop (length P) ?rs = L @ N"
    using assms by (simp_all add: nth_append hd_conv_nth)
  have len: "?c + length (cur_band N) = length ?rs \<longleftrightarrow> next_band N = []"
    using cur_next_band [of N] by (metis add_right_imp_eq append_Nil2 append_assoc
        append_eq_conv_conj append_self_conv length_append same_append_eq)
  have dr: "drop (?c + length (cur_band N)) ?rs = next_band N"
    using cur_next_band [of N] by (metis add.commute append_eq_conv_conj c(2) drop_drop)
  have L0: "L \<noteq> [] \<Longrightarrow> ?rs ! length P = hd L" by (cases L) (simp_all add: nth_append)
  have sl: "xspans L = xspans (cur_band N) \<Longrightarrow> length L = length (cur_band N)"
    unfolding xspans_def by (metis length_map)
  have cond: "length (cur_band N) = length L \<and> length (cur_band N) \<noteq> 0
        \<and> r_bottom (?rs ! length P) = r_top (?rs ! ?c) \<and> same_spans L (cur_band N) \<longleftrightarrow>
      L \<noteq> [] \<and> r_bottom (hd L) = r_top (hd N) \<and> xspans L = xspans (cur_band N)"
    using L0 sl assms c(1) by (cases "L = []") (auto simp: same_spans_xspans)
  show ?thesis
    unfolding REGION_Coalesce_def Let_def
    using cond len dr c assms by (simp add: cur_band_def [symmetric])
qed

text \<open>
  The situation in which \<open>REGION_RegionOp\<close> calls it: \<open>P\<close> is what lies above the previous
  band \<open>L\<close> (which may be empty), and \<open>N\<close> holds the bands just added.
\<close>

definition coalesce_pre :: "rect list \<Rightarrow> rect list \<Rightarrow> rect list \<Rightarrow> bool" where
  "coalesce_pre P L N \<longleftrightarrow> N \<noteq> [] \<and> banded (P @ L) \<and> banded N
     \<and> (\<exists>t b. is_band t b L \<and> (\<forall>p\<in>set P. r_bottom p \<le> t))
     \<and> (\<forall>p\<in>set (P @ L). r_bottom p \<le> r_top (hd N))"

lemma coalesce_join:
  assumes pre: "coalesce_pre P L N"
    and L: "L \<noteq> []" "r_bottom (hd L) = r_top (hd N)" "xspans L = xspans (cur_band N)"
  obtains M where "map2 (\<lambda>p c. p\<lparr>r_bottom := r_bottom c\<rparr>) L (cur_band N) = M"
    "M = map (rebottom (r_bottom (hd N))) L" "M \<noteq> []"
    "is_band (r_top (hd L)) (r_bottom (hd L)) L" "is_band (r_top (hd L)) (r_bottom (hd N)) M"
    "\<forall>p\<in>set P. r_bottom p \<le> r_top (hd L)" "r_top (hd N) < r_bottom (hd N)"
proof -
  from pre obtain t b where tb: "is_band t b L" "\<forall>p\<in>set P. r_bottom p \<le> t"
    and N: "N \<noteq> []" "banded N" by (auto simp: coalesce_pre_def)
  have hdL: "r_top (hd L) = t" "r_bottom (hd L) = b" "t < b"
    using tb(1) L(1) by (auto dest!: is_band_ok [of _ _ _ "hd L"] simp: rect_ok_def)
  have cb: "is_band (r_top (hd N)) (r_bottom (hd N)) (cur_band N)"
    using banded_cur_band N by blast
  have nn: "r_top (hd N) < r_bottom (hd N)"
    using N banded_ok [of N "hd N"] by (simp add: rect_ok_def)
  have len: "length L = length (cur_band N)" using L(3) unfolding xspans_def by (metis length_map)
  show ?thesis
    by (rule that [OF refl map2_rebottom [OF cb len]])
      (use L hdL tb nn map2_rebottom [OF cb len] is_band_rebottom [of t b L "r_bottom (hd N)"] in auto)
qed

lemma coalesce_banded:
  assumes "coalesce_pre P L N"
  shows "banded (P @ L @ N)"
proof -
  have "\<forall>q\<in>set N. r_top (hd N) \<le> r_top q"
    using assms by (auto simp: coalesce_pre_def intro: banded_hd_top)
  then have "banded ((P @ L) @ N)" using assms
    by (intro banded_above [of "P @ L" N "r_top (hd N)"]) (simp_all add: coalesce_pre_def)
  then show ?thesis by simp
qed

lemma Coalesce_sem:
  assumes pre: "coalesce_pre P L N"
    and co: "REGION_Coalesce (P @ L @ N) (length P) (length P + length L) = (rs', k')"
  shows "banded rs'" "\<And>x y. covers rs' x y \<longleftrightarrow> covers (P @ L @ N) x y"
    "\<And>b. \<forall>q\<in>set (P @ L @ N). r_bottom q \<le> b \<Longrightarrow> \<forall>q\<in>set rs'. r_bottom q \<le> b"
    "length rs' \<le> length (P @ L @ N)" "rs' \<noteq> []"
proof -
  have N: "N \<noteq> []" "banded N" using pre by (auto simp: coalesce_pre_def)
  have "banded rs' \<and> (\<forall>x y. covers rs' x y \<longleftrightarrow> covers (P @ L @ N) x y)
    \<and> (\<forall>b. (\<forall>q\<in>set (P @ L @ N). r_bottom q \<le> b) \<longrightarrow> (\<forall>q\<in>set rs'. r_bottom q \<le> b))
    \<and> length rs' \<le> length (P @ L @ N) \<and> rs' \<noteq> []"
  proof (cases "L \<noteq> [] \<and> r_bottom (hd L) = r_top (hd N) \<and> xspans L = xspans (cur_band N)")
    case False
    then have "rs' = P @ L @ N" using co Coalesce_eq [OF N(1)] by auto
    then show ?thesis using coalesce_banded [OF pre] N by auto
  next
    case True
    then obtain M where M: "map2 (\<lambda>p c. p\<lparr>r_bottom := r_bottom c\<rparr>) L (cur_band N) = M"
      "M = map (rebottom (r_bottom (hd N))) L" "M \<noteq> []"
      "is_band (r_top (hd L)) (r_bottom (hd L)) L" "is_band (r_top (hd L)) (r_bottom (hd N)) M"
      "\<forall>p\<in>set P. r_bottom p \<le> r_top (hd L)" "r_top (hd N) < r_bottom (hd N)"
      using coalesce_join [OF pre] by blast
    have rs': "rs' = P @ M @ next_band N" using co True M(1) Coalesce_eq [OF N(1)] by auto
    have P: "banded P" using pre by (simp add: coalesce_pre_def banded_append)
    have "\<forall>q\<in>set (next_band N). r_bottom (hd N) \<le> r_top q"
      using next_band_below N by blast
    then have tailb: "banded (M @ next_band N)"
      using is_band_ok [OF M(5)] is_band_banded [OF M(5)] banded_next_band [OF N(2)]
      by (intro banded_above [where t = "r_bottom (hd N)"]) auto
    have L_lt: "r_top (hd L) < r_bottom (hd L)"
      using M(4) True by (auto dest!: is_band_ok [of _ _ _ "hd L"] simp: rect_ok_def)
    have "\<forall>q\<in>set (next_band N). r_top (hd L) \<le> r_top q"
      using L_lt M(7) True \<open>\<forall>q\<in>set (next_band N). r_bottom (hd N) \<le> r_top q\<close> by fastforce
    then have "\<forall>q\<in>set (M @ next_band N). r_top (hd L) \<le> r_top q"
      using is_band_ok [OF M(5)] by auto
    then have bd: "banded rs'" unfolding rs'
      using banded_above [OF P tailb M(6)] by blast
    have cov: "covers M x y \<longleftrightarrow> covers L x y \<or> covers (cur_band N) x y" for x y
    proof -
      have "span_cov M x = span_cov L x" using M(2) by (intro xspans_cong) simp
      moreover have "span_cov (cur_band N) x = span_cov L x" using True by (intro xspans_cong) simp
      ultimately show ?thesis
        using covers_band [OF M(5)] covers_band [OF M(4)] covers_band [OF banded_cur_band [OF N(2,1)]]
          True M(7) L_lt by auto
    qed
    have "covers N x y \<longleftrightarrow> covers (cur_band N) x y \<or> covers (next_band N) x y" for x y
      by (metis covers_append cur_next_band)
    then have "\<forall>x y. covers rs' x y \<longleftrightarrow> covers (P @ L @ N) x y" using cov by (auto simp: rs')
    moreover have "\<forall>b. (\<forall>q\<in>set (P @ L @ N). r_bottom q \<le> b) \<longrightarrow> (\<forall>q\<in>set rs'. r_bottom q \<le> b)"
      using hd_in_set [OF N(1)] M(2) set_cur_next [of N] unfolding rs' by auto
    moreover have "length (next_band N) \<le> length N"
      by (simp add: next_band_def length_dropWhile_le)
    ultimately show ?thesis using bd M(2,3) unfolding rs' by auto
  qed
  then show "banded rs'" "\<And>x y. covers rs' x y \<longleftrightarrow> covers (P @ L @ N) x y"
    "\<And>b. \<forall>q\<in>set (P @ L @ N). r_bottom q \<le> b \<Longrightarrow> \<forall>q\<in>set rs'. r_bottom q \<le> b"
    "length rs' \<le> length (P @ L @ N)" "rs' \<noteq> []" by blast+
qed

section \<open>Coalescing keeps lists canonical\<close>

lemma spans_at_append [simp]: "spans_at (as @ bs) y = spans_at as y @ spans_at bs y"
  by (simp add: spans_at_def xspans_def)

lemma spans_at_Nil [simp]: "spans_at [] y = []"
  by (simp add: spans_at_def xspans_def)

lemma spans_at_band:
  "is_band t b rs \<Longrightarrow> spans_at rs y = (if t \<le> y \<and> y < b then xspans rs else [])"
  by (induction rs) (auto simp: spans_at_def xspans_def is_band_Cons)

lemma spans_at_empty:
  "\<forall>q\<in>set rs. y < r_top q \<or> r_bottom q \<le> y \<Longrightarrow> spans_at rs y = []"
  by (auto simp: spans_at_def xspans_def filter_empty_conv)

lemma covers_spans_at: "covers rs x y \<longleftrightarrow> (\<exists>(l, r)\<in>set (spans_at rs y). l \<le> x \<and> x < r)"
  by (auto simp: covers_def spans_at_def xspans_def is_in_rect_def)

lemma gapped_above:
  assumes "banded as" "\<forall>p\<in>set as. r_bottom p \<le> t" "\<forall>q\<in>set bs. t \<le> r_top q" "gapped as" "gapped bs"
  shows "gapped (as @ bs)"
  using assms banded_ok [OF assms(1)] by (fastforce simp: gapped_append rect_ok_def)

lemma coalesced_band: "is_band t b rs \<Longrightarrow> coalesced rs"
  unfolding coalesced_def
proof
  fix q assume b: "is_band t b rs" and q: "q \<in> set rs"
  have "r_top q = t" "t < b" using is_band_ok [OF b q] by (auto simp: rect_ok_def)
  moreover have "xspans rs \<noteq> []" using q by (auto simp: xspans_def)
  ultimately show "spans_at rs (r_top q - 1) \<noteq> spans_at rs (r_top q)"
    using spans_at_band [OF b] by simp
qed

lemma Coalesce_spans_at:
  assumes pre: "coalesce_pre P L N"
    and co: "REGION_Coalesce (P @ L @ N) (length P) (length P + length L) = (rs', k')"
  shows "spans_at rs' y = (if y < r_top (hd N) then spans_at (P @ L) y else spans_at N y)"
proof -
  have N: "N \<noteq> []" "banded N" using pre by (auto simp: coalesce_pre_def)
  have PL: "\<forall>p\<in>set (P @ L). r_bottom p \<le> r_top (hd N)" using pre by (simp add: coalesce_pre_def)
  have lo: "\<not> y < r_top (hd N) \<Longrightarrow> spans_at P y = [] \<and> spans_at L y = []"
    using spans_at_empty [of "P @ L" y] PL by fastforce
  have hi: "y < r_top (hd N) \<Longrightarrow> spans_at N y = []"
    using banded_hd_top [OF N(2)] by (force intro!: spans_at_empty)
  show ?thesis
  proof (cases "L \<noteq> [] \<and> r_bottom (hd L) = r_top (hd N) \<and> xspans L = xspans (cur_band N)")
    case False
    then have "rs' = P @ L @ N" using co Coalesce_eq [OF N(1)] by auto
    then show ?thesis using lo hi by auto
  next
    case True
    then obtain M where M: "map2 (\<lambda>p c. p\<lparr>r_bottom := r_bottom c\<rparr>) L (cur_band N) = M"
      "M = map (rebottom (r_bottom (hd N))) L" "M \<noteq> []"
      "is_band (r_top (hd L)) (r_bottom (hd L)) L" "is_band (r_top (hd L)) (r_bottom (hd N)) M"
      "\<forall>p\<in>set P. r_bottom p \<le> r_top (hd L)" "r_top (hd N) < r_bottom (hd N)"
      using coalesce_join [OF pre] by blast
    have rs': "rs' = P @ M @ next_band N" using co True M(1) Coalesce_eq [OF N(1)] by auto
    have "spans_at N y = spans_at (cur_band N) y @ spans_at (next_band N) y"
      by (metis spans_at_append cur_next_band)
    moreover have "y < r_top (hd N) \<Longrightarrow> spans_at (next_band N) y = []"
      using M(7) next_band_below [OF N(2,1)] by (force intro!: spans_at_empty)
    moreover have "r_top (hd L) < r_bottom (hd L)"
      using M(4) True by (auto dest!: is_band_ok [of _ _ _ "hd L"] simp: rect_ok_def)
    ultimately show ?thesis
      using lo hi True M(2,7) spans_at_band [OF M(4)] spans_at_band [OF M(5)]
        spans_at_band [OF banded_cur_band [OF N(2,1)]]
      unfolding rs' by auto
  qed
qed

lemma Coalesce_canonical:
  assumes pre: "coalesce_pre P L N"
    and co: "REGION_Coalesce (P @ L @ N) (length P) (length P + length L) = (rs', k')"
    and can: "gapped (P @ L)" "coalesced (P @ L)" "gapped N" "coalesced N"
    and empty: "L = [] \<Longrightarrow> \<forall>p\<in>set P. r_bottom p < r_top (hd N)"
  shows "gapped rs' \<and> coalesced rs'"
proof -
  have N: "N \<noteq> []" "banded N" using pre by (auto simp: coalesce_pre_def)
  have PL: "\<forall>p\<in>set (P @ L). r_bottom p \<le> r_top (hd N)" "banded (P @ L)"
    using pre by (simp_all add: coalesce_pre_def)
  have PL_top: "p \<in> set (P @ L) \<Longrightarrow> r_top p < r_top (hd N)" for p
    using PL banded_ok by (fastforce simp: rect_ok_def)
  note sp = Coalesce_spans_at [OF pre co]
  have upper: "spans_at rs' (r_top p - 1) \<noteq> spans_at rs' (r_top p)" if "p \<in> set (P @ L)" for p
    using can(2) that PL_top [OF that] unfolding coalesced_def sp by auto
  have lower: "spans_at rs' (r_top q - 1) \<noteq> spans_at rs' (r_top q)"
    if "q \<in> set N" "r_top (hd N) < r_top q" for q
    using can(4) that unfolding coalesced_def sp by auto
  show ?thesis
  proof (cases "L \<noteq> [] \<and> r_bottom (hd L) = r_top (hd N) \<and> xspans L = xspans (cur_band N)")
    case False
    then have rs': "rs' = P @ L @ N" using co Coalesce_eq [OF N(1)] by auto
    have nc: "spans_at N (r_top (hd N)) = xspans (cur_band N)"
    proof -
      have "spans_at N (r_top (hd N)) = spans_at (cur_band N) (r_top (hd N)) @ spans_at (next_band N) (r_top (hd N))"
        by (metis spans_at_append cur_next_band)
      moreover have "spans_at (next_band N) (r_top (hd N)) = []"
        using next_band_below [OF N(2,1)] banded_ok [OF N(2) hd_in_set [OF N(1)]]
        by (force intro!: spans_at_empty simp: rect_ok_def)
      ultimately show ?thesis
        using spans_at_band [OF banded_cur_band [OF N(2,1)]] banded_ok [OF N(2) hd_in_set [OF N(1)]]
        by (simp add: rect_ok_def)
    qed
    have ne: "xspans (cur_band N) \<noteq> []" using N(1) by (simp add: xspans_def)
    have "spans_at (P @ L) (r_top (hd N) - 1) \<noteq> xspans (cur_band N)"
    proof (cases "L = []")
      case True
      then have "\<forall>p\<in>set (P @ L). r_bottom p \<le> r_top (hd N) - 1" using empty by simp
      then have "spans_at (P @ L) (r_top (hd N) - 1) = []" by (intro spans_at_empty) simp
      then show ?thesis using ne by simp
    next
      case L: False
      from pre obtain t b where tb: "is_band t b L" "\<forall>p\<in>set P. r_bottom p \<le> t"
        by (auto simp: coalesce_pre_def)
      have hdL: "r_top (hd L) = t" "r_bottom (hd L) = b" "t < b" "b \<le> r_top (hd N)"
        using tb(1) L PL(1) hd_in_set [OF L]
        by (auto dest!: is_band_ok [of _ _ _ "hd L"] simp: rect_ok_def)
      have "spans_at P (r_top (hd N) - 1) = []" using tb(2) hdL by (force intro!: spans_at_empty)
      then show ?thesis using False L ne hdL spans_at_band [OF tb(1)] by auto
    qed
    then have "spans_at rs' (r_top (hd N) - 1) \<noteq> spans_at rs' (r_top (hd N))"
      unfolding sp using nc by simp
    then have "coalesced rs'"
      unfolding coalesced_def using upper lower banded_hd_top [OF N(2)] rs'
      by (metis antisym_conv2 append_assoc Un_iff set_append)
    moreover have "gapped rs'"
      unfolding rs' using gapped_above [OF PL(2,1) _ can(1,3)] banded_hd_top [OF N(2)] by simp
    ultimately show ?thesis by blast
  next
    case True
    then obtain M where M: "map2 (\<lambda>p c. p\<lparr>r_bottom := r_bottom c\<rparr>) L (cur_band N) = M"
      "M = map (rebottom (r_bottom (hd N))) L" "M \<noteq> []"
      "is_band (r_top (hd L)) (r_bottom (hd L)) L" "is_band (r_top (hd L)) (r_bottom (hd N)) M"
      "\<forall>p\<in>set P. r_bottom p \<le> r_top (hd L)" "r_top (hd N) < r_bottom (hd N)"
      using coalesce_join [OF pre] by blast
    have rs': "rs' = P @ M @ next_band N" using co True M(1) Coalesce_eq [OF N(1)] by auto
    have below: "\<forall>q\<in>set (next_band N). r_bottom (hd N) \<le> r_top q"
      using next_band_below [OF N(2,1)] by blast
    have "spans_at rs' (r_top q - 1) \<noteq> spans_at rs' (r_top q)" if "q \<in> set rs'" for q
    proof -
      from that consider "q \<in> set P" | "q \<in> set M" | "q \<in> set (next_band N)" by (auto simp: rs')
      then show ?thesis
      proof cases
        case 2
        then have "r_top q = r_top (hd L)" using is_band_ok [OF M(5)] by blast
        then show ?thesis using upper [of "hd L"] True by simp
      next
        case 3
        then show ?thesis using lower [of q] below M(7) set_cur_next [of N] by fastforce
      qed (use upper in simp)
    qed
    moreover have "gapped rs'"
    proof -
      have g: "gapped P" "gapped M" "gapped (next_band N)"
        using can M(2) gapped_cur_next by (auto simp: gapped_append)
      have "\<forall>p\<in>set M. r_bottom p \<le> r_bottom (hd N)" using is_band_ok [OF M(5)] by simp
      then have "gapped (M @ next_band N)"
        using gapped_above [OF is_band_banded [OF M(5)] _ below] g by blast
      moreover have "\<forall>q\<in>set (M @ next_band N). r_top (hd L) \<le> r_top q"
        using is_band_ok [OF M(5)] below M(7) PL_top [of "hd L"] True by fastforce
      ultimately show ?thesis
        unfolding rs' using gapped_above [of P, OF _ M(6)] g PL(2) by (simp add: banded_append)
    qed
    ultimately show ?thesis unfolding coalesced_def by blast
  qed
qed

end
