(* ===== verification/Region_Sweep.thy ===== *)
theory Region_Sweep
  imports Region_Coalesce
begin

text \<open>
  The band sweep \<open>REGION_RegionOp\<close> against its specification. The locale \<open>region_op\<close> is the
  interface between the sweep and its three function arguments: an overlap function and two
  optional non-overlap functions implement a pointwise operation \<open>opr\<close> on membership. Inside
  it the sweep is proved to compute \<open>opr\<close> on the points of the two regions, to return a
  banded list, and to return a canonical list when the sources are canonical.
\<close>

section \<open>The interface of the sweep\<close>

definition cap_ok :: "wregion \<Rightarrow> bool" where
  "cap_ok reg \<longleftrightarrow> RGN_DEFAULT_RECTS \<le> wr_size reg \<and> numRects reg \<le> wr_size reg"

definition good :: "bool \<Rightarrow> rect list \<Rightarrow> bool" where
  "good s rs \<longleftrightarrow> banded rs \<and> (s \<longrightarrow> gapped rs \<and> coalesced rs)"

definition rebound :: "int \<Rightarrow> int \<Rightarrow> rect \<Rightarrow> rect" where
  "rebound t b q = mk_rect (r_left q) t (r_right q) b"

locale region_op =
  fixes opr :: "bool \<Rightarrow> bool \<Rightarrow> bool"
    and ovl :: ovl_fun and n1 :: "non_fun option" and n2 :: "non_fun option"
  assumes opr_none: "\<not> opr False False"
    and ovl_pushes:
      "\<lbrakk>ovl mem reg B1 B2 t b = Some reg'; is_band t1 b1 B1; is_band t2 b2 B2; B1 \<noteq> []; B2 \<noteq> [];
        t < b; \<forall>q\<in>set (wr_rects reg). r_bottom q \<le> t\<rbrakk>
       \<Longrightarrow> \<exists>N. wr_rects reg' = wr_rects reg @ N \<and> is_band t b N
            \<and> (\<forall>x. span_cov N x = opr (span_cov B1 x) (span_cov B2 x))
            \<and> (gapped B1 \<and> gapped B2 \<longrightarrow> gapped N)"
    and ovl_cap: "\<lbrakk>ovl mem reg B1 B2 t b = Some reg'; cap_ok reg\<rbrakk> \<Longrightarrow> cap_ok reg'"
    and ovl_total: "\<forall>n. mem n \<Longrightarrow> \<exists>reg'. ovl mem reg B1 B2 t b = Some reg'"
    and n1_none: "n1 = None \<Longrightarrow> \<not> opr True False"
    and n1_some: "n1 = Some f \<Longrightarrow> opr True False"
    and n1_pushes: "\<lbrakk>n1 = Some f; f mem reg B t b = Some reg'\<rbrakk>
       \<Longrightarrow> wr_rects reg' = wr_rects reg @ map (rebound t b) B \<and> (cap_ok reg \<longrightarrow> cap_ok reg')"
    and n1_total: "\<lbrakk>n1 = Some f; \<forall>n. mem n\<rbrakk> \<Longrightarrow> \<exists>reg'. f mem reg B t b = Some reg'"
    and n2_none: "n2 = None \<Longrightarrow> \<not> opr False True"
    and n2_some: "n2 = Some f \<Longrightarrow> opr False True"
    and n2_pushes: "\<lbrakk>n2 = Some f; f mem reg B t b = Some reg'\<rbrakk>
       \<Longrightarrow> wr_rects reg' = wr_rects reg @ map (rebound t b) B \<and> (cap_ok reg \<longrightarrow> cap_ok reg')"
    and n2_total: "\<lbrakk>n2 = Some f; \<forall>n. mem n\<rbrakk> \<Longrightarrow> \<exists>reg'. f mem reg B t b = Some reg'"

section \<open>Facts on clipped bands\<close>

lemma rebound_sel [simp]:
  "r_left (rebound t b q) = r_left q" "r_right (rebound t b q) = r_right q"
  "r_top (rebound t b q) = t" "r_bottom (rebound t b q) = b"
  by (simp_all add: rebound_def)

lemma is_band_rebound: "is_band t' b' rs \<Longrightarrow> t < b \<Longrightarrow> is_band t b (map (rebound t b) rs)"
  by (induction rs) (auto simp: is_band_Cons rect_ok_def)

lemma span_cov_rebound [simp]: "span_cov (map (rebound t b) rs) x = span_cov rs x"
  by (induction rs) auto

lemma gapped_rebound: "is_band t' b' rs \<Longrightarrow> gapped rs \<Longrightarrow> gapped (map (rebound t b) rs)"
  by (induction rs) (auto simp: is_band_Cons gapped_Cons dest: is_band_ok)

definition clip_top :: "int \<Rightarrow> rect \<Rightarrow> rect" where
  "clip_top y q = mk_rect (r_left q) (max (r_top q) y) (r_right q) (r_bottom q)"

lemma clip_top_sel [simp]:
  "r_left (clip_top y q) = r_left q" "r_right (clip_top y q) = r_right q"
  "r_top (clip_top y q) = max (r_top q) y" "r_bottom (clip_top y q) = r_bottom q"
  by (simp_all add: clip_top_def)

lemma clip_top_ok: "rect_ok q \<Longrightarrow> y < r_bottom q \<Longrightarrow> rect_ok (clip_top y q)"
  by (simp add: rect_ok_def)

lemma banded_hd_bottom:
  assumes "banded rs" "q \<in> set rs" shows "r_bottom (hd rs) \<le> r_bottom q"
  using assms by (cases rs) (auto simp: banded_Cons rect_before_def rect_ok_def dest!: banded_ok)

lemma banded_clip:
  assumes "banded rs" "rs \<noteq> [] \<Longrightarrow> y < r_bottom (hd rs)"
  shows "banded (map (clip_top y) rs)"
proof -
  have bt: "\<forall>q\<in>set rs. y < r_bottom q"
    using assms banded_hd_bottom [OF assms(1)] by (cases rs) fastforce+
  with assms(1) show ?thesis
  proof (induction rs)
    case (Cons q rs)
    then show ?case
      by (fastforce simp: banded_Cons clip_top_ok rect_before_def)
  qed simp
qed

lemma spans_at_clip: "spans_at (map (clip_top y) rs) z = (if y \<le> z then spans_at rs z else [])"
  by (induction rs) (auto simp: spans_at_def xspans_def)

lemma covers_clip: "covers (map (clip_top y) rs) x z \<longleftrightarrow> y \<le> z \<and> covers rs x z"
  by (auto simp: covers_spans_at spans_at_clip)

lemma good_clip:
  assumes "good s rs" "rs \<noteq> [] \<Longrightarrow> y < r_bottom (hd rs)"
  shows "good s (map (clip_top y) rs)"
proof -
  have b: "banded rs" using assms(1) by (simp add: good_def)
  have bt: "\<forall>q\<in>set rs. y < r_bottom q"
    using assms(2) banded_hd_bottom [OF b] by (cases rs) fastforce+
  have g: "gapped (map (clip_top y) rs)" if g: "gapped rs"
    using b g bt
  proof (induction rs)
    case (Cons q rs)
    have "r_right q < r_left p" if "p \<in> set rs" "max (r_top q) y = max (r_top p) y" for p
      using Cons.prems that by (fastforce simp: gapped_Cons banded_Cons rect_before_def)
    with Cons show ?case by (auto simp: gapped_Cons banded_Cons)
  qed simp
  have c: "coalesced (map (clip_top y) rs)" if c: "coalesced rs"
    unfolding coalesced_def
  proof
    fix q' assume "q' \<in> set (map (clip_top y) rs)"
    then obtain q where q: "q \<in> set rs" "q' = clip_top y q" by auto
    have ne: "spans_at rs (r_top q) \<noteq> spans_at rs (r_top q - 1)" using c q(1) unfolding coalesced_def by metis
    have "r_top q \<le> z \<Longrightarrow> z < r_bottom q \<Longrightarrow> spans_at rs z \<noteq> []" for z
      using q(1) by (auto simp: spans_at_def xspans_def filter_empty_conv)
    then have "spans_at rs (max (r_top q) y) \<noteq> []"
      using bt q(1) banded_ok [OF b q(1)] by (auto simp: rect_ok_def max_def)
    then show "spans_at (map (clip_top y) rs) (r_top q' - 1) \<noteq> spans_at (map (clip_top y) rs) (r_top q')"
      using ne q(2) unfolding spans_at_clip by (auto simp: max_def)
  qed
  show ?thesis using assms banded_clip [OF b] g c by (auto simp: good_def)
qed

section \<open>Coalescing what was just added\<close>

definition last_band :: "rect list \<Rightarrow> nat \<Rightarrow> bool" where
  "last_band rs k \<longleftrightarrow> k \<le> length rs
     \<and> (\<exists>t b. is_band t b (drop k rs) \<and> (\<forall>p\<in>set (take k rs). r_bottom p \<le> t))
     \<and> (drop k rs = [] \<longrightarrow> rs = [])"

lemma last_band_Nil [simp]: "last_band [] 0"
  by (simp add: last_band_def)

lemma coalesce_new_eq:
  assumes "wr_rects reg = P @ L @ N" "N \<noteq> []"
    and "REGION_Coalesce (P @ L @ N) (length P) (length P + length L) = (rs', k')"
  shows "coalesce_new reg (length P) (length P + length L) = (reg\<lparr>wr_rects := rs'\<rparr>, k')"
  using assms by (simp add: coalesce_new_def)

lemma coalesce_new_same [simp]: "coalesce_new reg pb (numRects reg) = (reg, pb)"
  by (simp add: coalesce_new_def)

lemma last_band_split:
  assumes "last_band A k"
  obtains P L t b where "A = P @ L" "k = length P" "is_band t b L" "\<forall>p\<in>set P. r_bottom p \<le> t"
    "L = [] \<longrightarrow> P = []"
proof -
  from assms obtain t b where "is_band t b (drop k A)" "\<forall>p\<in>set (take k A). r_bottom p \<le> t"
    and "drop k A = [] \<longrightarrow> A = []" "k \<le> length A" by (auto simp: last_band_def)
  then show ?thesis by (intro that [of "take k A" "drop k A"]) auto
qed

text \<open>Adding the bands \<open>N\<close> below the list \<open>A\<close> and coalescing.\<close>

lemma coalesce_new_good:
  assumes A: "good s A" "last_band A k" and N: "good s N" "N \<noteq> []"
    and below: "\<forall>p\<in>set A. r_bottom p \<le> r_top (hd N)"
    and reg: "wr_rects reg = A @ N"
    and co: "coalesce_new reg k (length A) = (reg', k')"
  shows "good s (wr_rects reg')" "\<And>x y. covers (wr_rects reg') x y \<longleftrightarrow> covers A x y \<or> covers N x y"
    "\<And>b. \<forall>q\<in>set (A @ N). r_bottom q \<le> b \<Longrightarrow> \<forall>q\<in>set (wr_rects reg'). r_bottom q \<le> b"
    "cap_ok reg \<Longrightarrow> cap_ok reg'"
proof -
  obtain P L t b where PL: "A = P @ L" "k = length P" "is_band t b L" "\<forall>p\<in>set P. r_bottom p \<le> t"
    "L = [] \<longrightarrow> P = []" using last_band_split [OF A(2)] by blast
  have pre: "coalesce_pre P L N"
    using A N below PL unfolding coalesce_pre_def good_def by blast
  obtain rs' k'' where eq: "REGION_Coalesce (P @ L @ N) (length P) (length P + length L) = (rs', k'')"
    by (cases "REGION_Coalesce (P @ L @ N) (length P) (length P + length L)")
  have "coalesce_new reg (length P) (length P + length L) = (reg\<lparr>wr_rects := rs'\<rparr>, k'')"
    by (rule coalesce_new_eq [OF _ N(2) eq]) (simp add: reg PL(1))
  then have reg': "reg' = reg\<lparr>wr_rects := rs'\<rparr>" using co by (simp add: PL(1,2))
  note sem = Coalesce_sem [OF pre eq]
  have "s \<longrightarrow> gapped rs' \<and> coalesced rs'"
    using Coalesce_canonical [OF pre eq] A N PL unfolding good_def by auto
  then show "good s (wr_rects reg')" using sem(1) by (simp add: good_def reg')
  show "covers (wr_rects reg') x y \<longleftrightarrow> covers A x y \<or> covers N x y" for x y
    using sem(2) by (simp add: reg' PL(1))
  show "\<forall>q\<in>set (A @ N). r_bottom q \<le> b \<Longrightarrow> \<forall>q\<in>set (wr_rects reg'). r_bottom q \<le> b" for b
    using sem(3) [of b] by (simp add: reg' PL(1))
  show "cap_ok reg \<Longrightarrow> cap_ok reg'"
    using sem(4) reg by (simp add: cap_ok_def reg' PL(1))
qed

text \<open>When \<open>N\<close> is a single band, the returned index starts the last band.\<close>

lemma coalesce_new_last_band:
  assumes A: "banded A" "last_band A k" and N: "is_band t b N" "N \<noteq> []"
    and below: "\<forall>p\<in>set A. r_bottom p \<le> t"
    and reg: "wr_rects reg = A @ N"
    and co: "coalesce_new reg k (length A) = (reg', k')"
  shows "last_band (wr_rects reg') k'"
proof -
  obtain P L t' b' where PL: "A = P @ L" "k = length P" "is_band t' b' L" "\<forall>p\<in>set P. r_bottom p \<le> t'"
    "L = [] \<longrightarrow> P = []" using last_band_split [OF A(2)] by blast
  have hdN: "r_top (hd N) = t" "r_bottom (hd N) = b" using N is_band_ok hd_in_set by blast+
  have cb: "cur_band N = N" "next_band N = []"
    using N by (auto simp: cur_band_def next_band_def takeWhile_eq_all_conv dropWhile_eq_Nil_conv hdN
        dest: is_band_ok)
  have pre: "coalesce_pre P L N"
    using A N below PL is_band_banded [OF N(1)] hdN unfolding coalesce_pre_def by blast
  obtain rs' k'' where eq: "REGION_Coalesce (P @ L @ N) (length P) (length P + length L) = (rs', k'')"
    by (cases "REGION_Coalesce (P @ L @ N) (length P) (length P + length L)")
  have "coalesce_new reg (length P) (length P + length L) = (reg\<lparr>wr_rects := rs'\<rparr>, k'')"
    by (rule coalesce_new_eq [OF _ N(2) eq]) (simp add: reg PL(1))
  then have res: "reg' = reg\<lparr>wr_rects := rs'\<rparr>" "k'' = k'" using co by (simp_all add: PL(1,2))
  show ?thesis
  proof (cases "L \<noteq> [] \<and> r_bottom (hd L) = r_top (hd N) \<and> xspans L = xspans (cur_band N)")
    case True
    then obtain M where M: "map2 (\<lambda>p c. p\<lparr>r_bottom := r_bottom c\<rparr>) L (cur_band N) = M"
      "M = map (rebottom (r_bottom (hd N))) L" "M \<noteq> []"
      "is_band (r_top (hd L)) (r_bottom (hd L)) L" "is_band (r_top (hd L)) (r_bottom (hd N)) M"
      "\<forall>p\<in>set P. r_bottom p \<le> r_top (hd L)" "r_top (hd N) < r_bottom (hd N)"
      using coalesce_join [OF pre] by blast
    have "rs' = P @ M" "k'' = length P" using eq True M(1) Coalesce_eq [OF N(2)] cb by auto
    then show ?thesis using M(3,5,6) res by (auto simp: last_band_def)
  next
    case False
    then have "rs' = (P @ L) @ N" "k'' = length (P @ L)" using eq Coalesce_eq [OF N(2)] cb by auto
    then show ?thesis using N below PL(1) res unfolding last_band_def by auto
  qed
qed

text \<open>Pushing one band (possibly without a rectangle) and coalescing it.\<close>

lemma push_coalesce:
  assumes A: "good s (wr_rects reg)" "last_band (wr_rects reg) k" "\<forall>p\<in>set (wr_rects reg). r_bottom p \<le> t"
    and N: "wr_rects reg1 = wr_rects reg @ N" "is_band t b N" "s \<longrightarrow> gapped N" "t \<le> b"
    and cap: "cap_ok reg1"
    and co: "coalesce_new reg1 k (numRects reg) = (reg', k')"
  shows "good s (wr_rects reg')" "last_band (wr_rects reg') k'"
    "\<forall>p\<in>set (wr_rects reg'). r_bottom p \<le> b" "cap_ok reg'"
    "\<And>x y. covers (wr_rects reg') x y \<longleftrightarrow>
       covers (wr_rects reg) x y \<or> (span_cov N x \<and> t \<le> y \<and> y < b)"
proof -
  have "good s (wr_rects reg') \<and> last_band (wr_rects reg') k' \<and> (\<forall>p\<in>set (wr_rects reg'). r_bottom p \<le> b)
    \<and> cap_ok reg' \<and> (\<forall>x y. covers (wr_rects reg') x y \<longleftrightarrow>
       covers (wr_rects reg) x y \<or> (span_cov N x \<and> t \<le> y \<and> y < b))"
  proof (cases "N = []")
    case True
    then have "numRects reg = numRects reg1" using N(1) by simp
    then have "reg' = reg1" "k' = k" using co by simp_all
    then show ?thesis using True A N cap by fastforce
  next
    case False
    have gN: "good s N" using N is_band_banded coalesced_band by (auto simp: good_def)
    have hd: "r_top (hd N) = t" using N(2) False is_band_ok hd_in_set by blast
    have bA: "banded (wr_rects reg)" using A by (simp add: good_def)
    have below: "\<forall>p\<in>set (wr_rects reg). r_bottom p \<le> r_top (hd N)" using A(3) hd by simp
    note g = coalesce_new_good [OF A(1,2) gN False below N(1) co]
    have "\<forall>q\<in>set (wr_rects reg @ N). r_bottom q \<le> b" using A(3) N(2,4) is_band_ok [OF N(2)] by fastforce
    then show ?thesis
      using g cap coalesce_new_last_band [OF bA A(2) N(2) False A(3) N(1) co] covers_band [OF N(2)]
      by simp
  qed
  then show "good s (wr_rects reg')" "last_band (wr_rects reg') k'"
    "\<forall>p\<in>set (wr_rects reg'). r_bottom p \<le> b" "cap_ok reg'"
    "\<And>x y. covers (wr_rects reg') x y \<longleftrightarrow>
       covers (wr_rects reg) x y \<or> (span_cov N x \<and> t \<le> y \<and> y < b)" by blast+
qed

section \<open>The sweep\<close>

definition sweep_inv :: "bool \<Rightarrow> wregion \<Rightarrow> nat \<Rightarrow> int \<Rightarrow> rect list \<Rightarrow> rect list \<Rightarrow> bool" where
  "sweep_inv s reg k yb r1 r2 \<longleftrightarrow> good s (wr_rects reg) \<and> last_band (wr_rects reg) k
     \<and> (\<forall>q\<in>set (wr_rects reg). r_bottom q \<le> yb) \<and> cap_ok reg \<and> good s r1 \<and> good s r2
     \<and> (r1 \<noteq> [] \<longrightarrow> yb < r_bottom (hd r1)) \<and> (r2 \<noteq> [] \<longrightarrow> yb < r_bottom (hd r2))
     \<and> (r1 \<noteq> [] \<and> r2 \<noteq> [] \<longrightarrow> yb \<le> r_top (hd r1) \<or> yb \<le> r_top (hd r2))"

definition sweep_sem ::
    "(bool \<Rightarrow> bool \<Rightarrow> bool) \<Rightarrow> wregion \<Rightarrow> int \<Rightarrow> rect list \<Rightarrow> rect list \<Rightarrow> int \<Rightarrow> int \<Rightarrow> bool" where
  "sweep_sem f reg yb r1 r2 x y \<longleftrightarrow>
     covers (wr_rects reg) x y \<or> (yb \<le> y \<and> f (covers r1 x y) (covers r2 x y))"

lemma good_next_band:
  assumes "good s rs" "rs \<noteq> []" shows "good s (next_band rs)"
proof -
  have b: "banded rs" using assms by (simp add: good_def)
  have top: "r_top (hd rs) < r_bottom (hd rs)"
    using banded_ok [OF b hd_in_set [OF assms(2)]] by (simp add: rect_ok_def)
  have sp: "spans_at rs y = (if y < r_bottom (hd rs) then spans_at (cur_band rs) y else spans_at (next_band rs) y)" for y
  proof -
    have "spans_at rs y = spans_at (cur_band rs) y @ spans_at (next_band rs) y"
      by (metis spans_at_append cur_next_band)
    moreover have "y < r_bottom (hd rs) \<Longrightarrow> spans_at (next_band rs) y = []"
      using next_band_below [OF b assms(2)] by (force intro!: spans_at_empty)
    ultimately show ?thesis using spans_at_band [OF banded_cur_band [OF b assms(2)]] by simp
  qed
  have "coalesced (next_band rs)" if c: "coalesced rs"
    unfolding coalesced_def
  proof
    fix q assume q: "q \<in> set (next_band rs)"
    then have qr: "q \<in> set rs" using set_cur_next [of rs] by simp
    have ge: "r_bottom (hd rs) \<le> r_top q" using next_band_below [OF b assms(2) q] .
    have ne: "spans_at rs (r_top q - 1) \<noteq> spans_at rs (r_top q)" using c qr by (simp add: coalesced_def)
    show "spans_at (next_band rs) (r_top q - 1) \<noteq> spans_at (next_band rs) (r_top q)"
    proof (cases "r_bottom (hd rs) = r_top q")
      case True
      have "spans_at (next_band rs) (r_top q - 1) = []"
        using next_band_below [OF b assms(2)] True by (force intro!: spans_at_empty)
      moreover have "spans_at (next_band rs) (r_top q) \<noteq> []"
        using q banded_ok [OF b qr] by (auto simp: spans_at_def xspans_def filter_empty_conv rect_ok_def)
      ultimately show ?thesis by simp
    qed (use ne ge sp in auto)
  qed
  then show ?thesis using assms banded_next_band gapped_cur_next by (auto simp: good_def)
qed

lemma skip_good: "good s rs \<Longrightarrow> rs \<noteq> [] \<Longrightarrow> good s (RegionOp_skip yb rs)"
  by (simp add: RegionOp_skip_def good_next_band)

lemma skip_hd:
  assumes "good s rs" "rs \<noteq> []" "yb \<le> r_bottom (hd rs)" "RegionOp_skip yb rs \<noteq> []"
  shows "yb < r_bottom (hd (RegionOp_skip yb rs))"
    "r_bottom (hd rs) = yb \<Longrightarrow> yb \<le> r_top (hd (RegionOp_skip yb rs))"
proof -
  have b: "banded rs" using assms(1) by (simp add: good_def)
  have nb: "yb \<le> r_top (hd (next_band rs)) \<and> yb < r_bottom (hd (next_band rs))"
    if "r_bottom (hd rs) = yb" "next_band rs \<noteq> []"
    using next_band_below [OF b assms(2) hd_in_set [OF that(2)]] that
      banded_ok [OF banded_next_band [OF b] hd_in_set [OF that(2)]] by (simp add: rect_ok_def)
  show "yb < r_bottom (hd (RegionOp_skip yb rs))"
    using assms(3,4) nb by (auto simp: RegionOp_skip_def split: if_splits)
  show "r_bottom (hd rs) = yb \<Longrightarrow> yb \<le> r_top (hd (RegionOp_skip yb rs))"
    using assms(4) nb by (simp add: RegionOp_skip_def)
qed

lemma skip_covers:
  assumes "good s rs" "rs \<noteq> []" "yb \<le> y"
  shows "covers (RegionOp_skip yb rs) x y = covers rs x y"
proof -
  have "banded rs" using assms(1) by (simp add: good_def)
  then show ?thesis using covers_first_band [of rs x y] assms by (auto simp: RegionOp_skip_def)
qed

lemma covers_hd:
  assumes "banded rs" "rs \<noteq> []"
  shows "y < r_top (hd rs) \<Longrightarrow> \<not> covers rs x y"
    "r_top (hd rs) \<le> y \<Longrightarrow> y < r_bottom (hd rs) \<Longrightarrow> covers rs x y = span_cov (cur_band rs) x"
  using covers_first_band [OF assms] covers_next_band_from [OF assms] banded_ok [OF assms(1) hd_in_set [OF assms(2)]]
  by (force simp: rect_ok_def)+

text \<open>One non-overlap call: the band of \<open>r\<close> clipped to the rows from \<open>t\<close> to \<open>b\<close>, or nothing.\<close>

definition non_law :: "mem \<Rightarrow> non_fun option \<Rightarrow> bool \<Rightarrow> bool" where
  "non_law mem nf w \<longleftrightarrow> (nf \<noteq> None \<longleftrightarrow> w)
     \<and> (\<forall>f reg B t b reg'. nf = Some f \<and> f mem reg B t b = Some reg' \<longrightarrow>
          wr_rects reg' = wr_rects reg @ map (rebound t b) B \<and> (cap_ok reg \<longrightarrow> cap_ok reg'))"

lemma call_non_pushes:
  assumes nf: "non_law mem nf w"
    and call: "call_non mem nf reg (cur_band r) t b = Some reg'"
    and r: "good s r" "r \<noteq> []" and tb: "t \<le> b" "r_top (hd r) \<le> t" "b \<le> r_bottom (hd r)"
  shows "\<exists>N. wr_rects reg' = wr_rects reg @ N \<and> is_band t b N \<and> (s \<longrightarrow> gapped N)
    \<and> (\<forall>x y. span_cov N x \<and> t \<le> y \<and> y < b \<longleftrightarrow> w \<and> covers r x y \<and> t \<le> y \<and> y < b)
    \<and> (cap_ok reg \<longrightarrow> cap_ok reg')"
proof (cases "nf = None \<or> t = b")
  case True
  then have "reg' = reg" using call by (auto simp: call_non_def split: option.splits if_splits)
  moreover have "nf = None \<Longrightarrow> \<not> w" using nf by (auto simp: non_law_def)
  ultimately show ?thesis using True by (intro exI [of _ "[]"]) auto
next
  case False
  then obtain f where f: "nf = Some f" "f mem reg (cur_band r) t b = Some reg'" "t < b"
    using call tb by (auto simp: call_non_def split: option.splits)
  have b: "banded r" using r by (simp add: good_def)
  have cb: "is_band (r_top (hd r)) (r_bottom (hd r)) (cur_band r)" using banded_cur_band [OF b r(2)] .
  have "s \<longrightarrow> gapped (map (rebound t b) (cur_band r))"
    using gapped_rebound [OF cb] gapped_cur_next r(1) by (auto simp: good_def)
  moreover have "w" "wr_rects reg' = wr_rects reg @ map (rebound t b) (cur_band r)"
    "cap_ok reg \<longrightarrow> cap_ok reg'" using nf f(1,2) unfolding non_law_def by blast+
  ultimately show ?thesis
    using is_band_rebound [OF cb f(3)] covers_hd(2) [OF b r(2)] tb
    by (intro exI [of _ "map (rebound t b) (cur_band r)"]) auto
qed

lemma rest_pushes:
  assumes "RegionOp_rest mem f reg yb r = Some reg'" "banded r"
    and "\<And>reg B t b reg'. f mem reg B t b = Some reg' \<Longrightarrow>
       wr_rects reg' = wr_rects reg @ map (rebound t b) B \<and> (cap_ok reg \<longrightarrow> cap_ok reg')"
  shows "wr_rects reg' = wr_rects reg @ map (clip_top yb) r \<and> (cap_ok reg \<longrightarrow> cap_ok reg')"
  using assms(1,2)
proof (induction "length r" arbitrary: reg r rule: less_induct)
  case less
  show ?case
  proof (cases "r = []")
    case True
    then show ?thesis using less.prems by (simp add: RegionOp_rest.simps)
  next
    case False
    let ?t = "max (r_top (hd r)) yb" and ?b = "r_bottom (hd r)"
    have "(case f mem reg (cur_band r) ?t ?b of None \<Rightarrow> None
       | Some reg1 \<Rightarrow> RegionOp_rest mem f reg1 yb (next_band r)) = Some reg'"
      using less.prems(1) False by (subst (asm) RegionOp_rest.simps) simp
    then obtain reg1 where f: "f mem reg (cur_band r) ?t ?b = Some reg1"
      and rest: "RegionOp_rest mem f reg1 yb (next_band r) = Some reg'" by (auto split: option.splits)
    have "map (rebound ?t ?b) (cur_band r) = map (clip_top yb) (cur_band r)"
      using is_band_ok [OF banded_cur_band [OF less.prems(2) False]]
      by (intro map_cong) (auto simp: rebound_def clip_top_def)
    moreover have "map (clip_top yb) r = map (clip_top yb) (cur_band r) @ map (clip_top yb) (next_band r)"
      by (metis map_append cur_next_band)
    ultimately show ?thesis
      using less.hyps [OF next_band_shorter [OF False] rest banded_next_band [OF less.prems(2)]]
        assms(3) [OF f] by auto
  qed
qed

lemma RegionOp_pass_SomeE:
  assumes run: "RegionOp_pass mem ovl n1 n2 reg k yb r1 r2 = Some (reg', k', yb')"
  obtains reg1 ytop reg2 k2 reg3 where
    "RegionOp_top mem n1 n2 reg yb r1 r2 = Some (reg1, ytop)"
    "coalesce_new reg1 k (numRects reg) = (reg2, k2)"
    "(if min (r_bottom (hd r1)) (r_bottom (hd r2)) > ytop
      then ovl mem reg2 (cur_band r1) (cur_band r2) ytop (min (r_bottom (hd r1)) (r_bottom (hd r2)))
      else Some reg2) = Some reg3"
    "coalesce_new reg3 k2 (numRects reg2) = (reg', k')"
    "yb' = min (r_bottom (hd r1)) (r_bottom (hd r2))"
proof -
  let ?bt = "min (r_bottom (hd r1)) (r_bottom (hd r2))"
  obtain reg1 ytop where tp: "RegionOp_top mem n1 n2 reg yb r1 r2 = Some (reg1, ytop)"
    using run by (cases "RegionOp_top mem n1 n2 reg yb r1 r2") (auto simp: RegionOp_pass_def)
  obtain reg2 k2 where c1: "coalesce_new reg1 k (numRects reg) = (reg2, k2)"
    by (cases "coalesce_new reg1 k (numRects reg)")
  define res where "res = (if ?bt > ytop then ovl mem reg2 (cur_band r1) (cur_band r2) ytop ?bt else Some reg2)"
  have run': "(case res of None \<Rightarrow> None
     | Some reg3 \<Rightarrow> (let (reg4, pb2) = coalesce_new reg3 k2 (numRects reg2) in Some (reg4, pb2, ?bt)))
     = Some (reg', k', yb')"
    using run unfolding RegionOp_pass_def tp res_def by (simp add: c1 Let_def)
  then obtain reg3 where r3: "res = Some reg3" by (cases res) auto
  have "coalesce_new reg3 k2 (numRects reg2) = (reg', k')" "yb' = ?bt"
    using run' r3 by (cases "coalesce_new reg3 k2 (numRects reg2)"; simp)+
  then show ?thesis using that [OF tp c1 r3 [unfolded res_def]] by blast
qed

context region_op begin

lemma opr_sides: "opr p False \<longleftrightarrow> p \<and> opr True False" "opr False p \<longleftrightarrow> p \<and> opr False True"
  using opr_none by (cases p; simp)+

lemma n1_law: "non_law mem n1 (opr True False)"
  unfolding non_law_def using n1_none n1_some n1_pushes by blast

lemma n2_law: "non_law mem n2 (opr False True)"
  unfolding non_law_def using n2_none n2_some n2_pushes by blast

text \<open>The rows above \<open>ytop\<close> of one pass.\<close>

lemma top_pass:
  assumes inv: "sweep_inv s reg k yb r1 r2" "r1 \<noteq> []" "r2 \<noteq> []"
    and run: "RegionOp_top mem n1 n2 reg yb r1 r2 = Some (reg1, ytop)"
  defines "ybot \<equiv> min (r_bottom (hd r1)) (r_bottom (hd r2))"
  obtains N t b where "ytop = max (r_top (hd r1)) (r_top (hd r2))"
    "wr_rects reg1 = wr_rects reg @ N" "is_band t b N" "s \<longrightarrow> gapped N" "cap_ok reg1"
    "yb \<le> t" "t \<le> b" "b \<le> min ytop ybot"
    "\<And>x y. span_cov N x \<and> t \<le> y \<and> y < b \<longleftrightarrow>
       yb \<le> y \<and> y < min ytop ybot \<and> opr (covers r1 x y) (covers r2 x y)"
proof -
  have g: "good s r1" "good s r2" "banded r1" "banded r2" and cap: "cap_ok reg"
    using inv by (auto simp: sweep_inv_def good_def)
  have yb: "yb < r_bottom (hd r1)" "yb < r_bottom (hd r2)" "yb \<le> max (r_top (hd r1)) (r_top (hd r2))"
    using inv by (auto simp: sweep_inv_def)
  have ok: "r_top (hd r1) < r_bottom (hd r1)" "r_top (hd r2) < r_bottom (hd r2)"
    using banded_ok [OF g(3) hd_in_set [OF inv(2)]] banded_ok [OF g(4) hd_in_set [OF inv(3)]]
    by (auto simp: rect_ok_def)
  note h1 = covers_hd [OF g(3) inv(2)] and h2 = covers_hd [OF g(4) inv(3)]
  consider (lt) "r_top (hd r1) < r_top (hd r2)" | (gt) "r_top (hd r2) < r_top (hd r1)"
    | (eq) "r_top (hd r1) = r_top (hd r2)" by linarith
  then show ?thesis
  proof cases
    case lt
    let ?t = "max (r_top (hd r1)) yb" and ?b = "min (r_bottom (hd r1)) (r_top (hd r2))"
    have call: "call_non mem n1 reg (cur_band r1) ?t ?b = Some reg1" and yt: "ytop = r_top (hd r2)"
      using run lt by (auto simp: RegionOp_top_def)
    have tb: "?t \<le> ?b" "r_top (hd r1) \<le> ?t" "?b \<le> r_bottom (hd r1)" using lt ok yb by auto
    obtain N where N: "wr_rects reg1 = wr_rects reg @ N" "is_band ?t ?b N" "s \<longrightarrow> gapped N"
      "\<And>x y. span_cov N x \<and> ?t \<le> y \<and> y < ?b \<longleftrightarrow> opr True False \<and> covers r1 x y \<and> ?t \<le> y \<and> y < ?b"
      "cap_ok reg \<longrightarrow> cap_ok reg1"
      using call_non_pushes [OF n1_law call g(1) inv(2) tb] by blast
    show ?thesis
    proof (rule that [OF _ N(1,2,3)])
      show "span_cov N x \<and> ?t \<le> y \<and> y < ?b \<longleftrightarrow>
        yb \<le> y \<and> y < min ytop ybot \<and> opr (covers r1 x y) (covers r2 x y)" for x y
      proof -
        have rows: "?t \<le> y \<and> y < ?b \<longleftrightarrow> yb \<le> y \<and> y < min ytop ybot \<and> r_top (hd r1) \<le> y"
          using yt lt ok unfolding ybot_def by auto
        have "opr (covers r1 x y) (covers r2 x y) \<longleftrightarrow> opr True False \<and> covers r1 x y" if "y < ytop"
          using h2(1) [of y x] opr_sides(1) [of "covers r1 x y"] that yt by auto
        moreover have "covers r1 x y \<Longrightarrow> r_top (hd r1) \<le> y" using h1(1) [of y x] by linarith
        ultimately show ?thesis using N(4) [of x y] rows by auto
      qed
    qed (use N(5) cap tb yt lt ok ybot_def in auto)
  next
    case gt
    let ?t = "max (r_top (hd r2)) yb" and ?b = "min (r_bottom (hd r2)) (r_top (hd r1))"
    have call: "call_non mem n2 reg (cur_band r2) ?t ?b = Some reg1" and yt: "ytop = r_top (hd r1)"
      using run gt by (auto simp: RegionOp_top_def)
    have tb: "?t \<le> ?b" "r_top (hd r2) \<le> ?t" "?b \<le> r_bottom (hd r2)" using gt ok yb by auto
    obtain N where N: "wr_rects reg1 = wr_rects reg @ N" "is_band ?t ?b N" "s \<longrightarrow> gapped N"
      "\<And>x y. span_cov N x \<and> ?t \<le> y \<and> y < ?b \<longleftrightarrow> opr False True \<and> covers r2 x y \<and> ?t \<le> y \<and> y < ?b"
      "cap_ok reg \<longrightarrow> cap_ok reg1"
      using call_non_pushes [OF n2_law call g(2) inv(3) tb] by blast
    show ?thesis
    proof (rule that [OF _ N(1,2,3)])
      show "span_cov N x \<and> ?t \<le> y \<and> y < ?b \<longleftrightarrow>
        yb \<le> y \<and> y < min ytop ybot \<and> opr (covers r1 x y) (covers r2 x y)" for x y
      proof -
        have rows: "?t \<le> y \<and> y < ?b \<longleftrightarrow> yb \<le> y \<and> y < min ytop ybot \<and> r_top (hd r2) \<le> y"
          using yt gt ok unfolding ybot_def by auto
        have "opr (covers r1 x y) (covers r2 x y) \<longleftrightarrow> opr False True \<and> covers r2 x y" if "y < ytop"
          using h1(1) [of y x] opr_sides(2) [of "covers r2 x y"] that yt by auto
        moreover have "covers r2 x y \<Longrightarrow> r_top (hd r2) \<le> y" using h2(1) [of y x] by linarith
        ultimately show ?thesis using N(4) [of x y] rows by auto
      qed
    qed (use N(5) cap tb yt gt ok ybot_def in auto)
  next
    case eq
    then have yt: "reg1 = reg" "ytop = r_top (hd r1)" using run by (auto simp: RegionOp_top_def)
    show ?thesis
      by (rule that [of "[]" yb yb])
        (use yt eq cap yb ok h1(1) h2(1) opr_none in \<open>auto simp: ybot_def\<close>)
  qed
qed

text \<open>The rows both bands have.\<close>

lemma ovl_pass:
  assumes A: "good s (wr_rects reg)" "last_band (wr_rects reg) k" "\<forall>q\<in>set (wr_rects reg). r_bottom q \<le> tp"
      "cap_ok reg"
    and B: "good s r1" "good s r2" "r1 \<noteq> []" "r2 \<noteq> []"
    and rows: "max (r_top (hd r1)) (r_top (hd r2)) \<le> tp" "bt \<le> min (r_bottom (hd r1)) (r_bottom (hd r2))"
    and run: "(if bt > tp then ovl mem reg (cur_band r1) (cur_band r2) tp bt else Some reg) = Some reg1"
    and co: "coalesce_new reg1 k (numRects reg) = (reg', k')"
  shows "good s (wr_rects reg')" "last_band (wr_rects reg') k'"
    "\<forall>q\<in>set (wr_rects reg'). r_bottom q \<le> max tp bt" "cap_ok reg'"
    "\<And>x y. covers (wr_rects reg') x y \<longleftrightarrow> covers (wr_rects reg) x y
       \<or> (tp \<le> y \<and> y < bt \<and> opr (covers r1 x y) (covers r2 x y))"
proof -
  have b: "banded r1" "banded r2" using B by (auto simp: good_def)
  note cb = banded_cur_band [OF b(1) B(3)] banded_cur_band [OF b(2) B(4)]
  obtain N where N: "wr_rects reg1 = wr_rects reg @ N" "is_band tp (max tp bt) N" "s \<longrightarrow> gapped N" "cap_ok reg1"
    "\<And>x. tp < bt \<Longrightarrow> span_cov N x = opr (span_cov (cur_band r1) x) (span_cov (cur_band r2) x)"
    "bt \<le> tp \<Longrightarrow> N = []"
  proof (cases "tp < bt")
    case True
    then have o: "ovl mem reg (cur_band r1) (cur_band r2) tp bt = Some reg1" using run by simp
    obtain N where "wr_rects reg1 = wr_rects reg @ N" "is_band tp bt N"
        "\<forall>x. span_cov N x = opr (span_cov (cur_band r1) x) (span_cov (cur_band r2) x)"
        "gapped (cur_band r1) \<and> gapped (cur_band r2) \<longrightarrow> gapped N"
      using ovl_pushes [OF o cb _ _ True A(3)] B by auto
    moreover have "s \<longrightarrow> gapped (cur_band r1) \<and> gapped (cur_band r2)"
      using B gapped_cur_next by (auto simp: good_def)
    ultimately show ?thesis using True ovl_cap [OF o A(4)] by (intro that [of N]) auto
  next
    case False
    then show ?thesis using run A(4) by (intro that [of "[]"]) auto
  qed
  have "opr (covers r1 x y) (covers r2 x y) = span_cov N x" if "tp \<le> y" "y < bt" for x y
    using N(5) [of x] covers_hd(2) [OF b(1) B(3)] covers_hd(2) [OF b(2) B(4)] rows that by simp
  then have eq: "tp \<le> y \<and> y < bt \<and> opr (covers r1 x y) (covers r2 x y)
      \<longleftrightarrow> span_cov N x \<and> tp \<le> y \<and> y < max tp bt" for x y
    using N(6) by auto
  note pc = push_coalesce [OF A(1-3) N(1-3) _ N(4) co]
  show "good s (wr_rects reg')" "last_band (wr_rects reg') k'"
    "\<forall>q\<in>set (wr_rects reg'). r_bottom q \<le> max tp bt" "cap_ok reg'"
    using pc(1-4) by simp_all
  show "covers (wr_rects reg') x y \<longleftrightarrow> covers (wr_rects reg) x y
       \<or> (tp \<le> y \<and> y < bt \<and> opr (covers r1 x y) (covers r2 x y))" for x y
    unfolding eq using pc(5) by simp
qed

lemma pass_step:
  assumes inv: "sweep_inv s reg k yb r1 r2" "r1 \<noteq> []" "r2 \<noteq> []"
    and run: "RegionOp_pass mem ovl n1 n2 reg k yb r1 r2 = Some (reg', k', yb')"
  defines "ybot \<equiv> min (r_bottom (hd r1)) (r_bottom (hd r2))"
  shows "yb' = ybot"
    "sweep_inv s reg' k' ybot (RegionOp_skip ybot r1) (RegionOp_skip ybot r2)"
    "\<And>x y. sweep_sem opr reg' ybot (RegionOp_skip ybot r1) (RegionOp_skip ybot r2) x y
       = sweep_sem opr reg yb r1 r2 x y"
proof -
  have g: "good s r1" "good s r2" and A: "good s (wr_rects reg)" "last_band (wr_rects reg) k"
    "\<forall>q\<in>set (wr_rects reg). r_bottom q \<le> yb" and yb: "yb < ybot"
    using inv by (auto simp: sweep_inv_def ybot_def)
  obtain reg1 ytop reg2 k2 reg3 where
    tp: "RegionOp_top mem n1 n2 reg yb r1 r2 = Some (reg1, ytop)"
    and c1: "coalesce_new reg1 k (numRects reg) = (reg2, k2)"
    and ov: "(if ybot > ytop then ovl mem reg2 (cur_band r1) (cur_band r2) ytop ybot else Some reg2) = Some reg3"
    and c2: "coalesce_new reg3 k2 (numRects reg2) = (reg', k')" and "yb' = ybot"
    using RegionOp_pass_SomeE [OF run] unfolding ybot_def by blast
  then show "yb' = ybot" by simp
  obtain N t b where N: "ytop = max (r_top (hd r1)) (r_top (hd r2))"
    "wr_rects reg1 = wr_rects reg @ N" "is_band t b N" "s \<longrightarrow> gapped N" "cap_ok reg1"
    "yb \<le> t" "t \<le> b" "b \<le> min ytop ybot"
    "\<And>x y. span_cov N x \<and> t \<le> y \<and> y < b \<longleftrightarrow>
       yb \<le> y \<and> y < min ytop ybot \<and> opr (covers r1 x y) (covers r2 x y)"
    using top_pass [OF inv tp] unfolding ybot_def by blast
  have "\<forall>q\<in>set (wr_rects reg). r_bottom q \<le> t" using A(3) N(6) by fastforce
  note p1 = push_coalesce [OF A(1,2) this N(2,3,4,7,5) c1]
  have b2: "\<forall>q\<in>set (wr_rects reg2). r_bottom q \<le> ytop" using p1(3) N(8) by fastforce
  have p2: "good s (wr_rects reg')" "last_band (wr_rects reg') k'" "cap_ok reg'"
    "\<And>x y. covers (wr_rects reg') x y \<longleftrightarrow> covers (wr_rects reg2) x y
       \<or> (ytop \<le> y \<and> y < ybot \<and> opr (covers r1 x y) (covers r2 x y))"
    using ovl_pass [OF p1(1,2) b2 p1(4) g inv(2,3) _ _ ov c2] N(1) by (simp_all add: ybot_def)
  have bots: "\<forall>q\<in>set (wr_rects reg'). r_bottom q \<le> ybot"
  proof (cases "ytop < ybot")
    case True
    then show ?thesis using ovl_pass(3) [OF p1(1,2) b2 p1(4) g inv(2,3) _ _ ov c2] N(1)
      by (simp add: ybot_def max_def)
  next
    case False
    then have "reg3 = reg2" using ov by simp
    then have "reg' = reg2" using c2 by simp
    then show ?thesis using p1(3) N(8) by fastforce
  qed
  have sk: "good s (RegionOp_skip ybot r1)" "good s (RegionOp_skip ybot r2)"
    using skip_good g inv by blast+
  have le: "ybot \<le> r_bottom (hd r1)" "ybot \<le> r_bottom (hd r2)" by (simp_all add: ybot_def)
  note h1 = skip_hd [OF g(1) inv(2) le(1)] and h2 = skip_hd [OF g(2) inv(3) le(2)]
  have "r_bottom (hd r1) = ybot \<or> r_bottom (hd r2) = ybot" by (auto simp: ybot_def)
  then show "sweep_inv s reg' k' ybot (RegionOp_skip ybot r1) (RegionOp_skip ybot r2)"
    unfolding sweep_inv_def using p2 bots sk h1 h2 by blast
  show "sweep_sem opr reg' ybot (RegionOp_skip ybot r1) (RegionOp_skip ybot r2) x y
       = sweep_sem opr reg yb r1 r2 x y" for x y
  proof -
    have "covers (wr_rects reg') x y \<longleftrightarrow> covers (wr_rects reg) x y
        \<or> (yb \<le> y \<and> y < ybot \<and> opr (covers r1 x y) (covers r2 x y))"
      using p1(5) [of x y] p2(4) [of x y] N(9) [of x y] N(6,7,8) inv yb
      unfolding sweep_inv_def N(1) by auto
    then show ?thesis
      unfolding sweep_sem_def using skip_covers [OF g(1) inv(2)] skip_covers [OF g(2) inv(3)] yb by auto
  qed
qed

lemma loop_correct:
  assumes "RegionOp_loop mem ovl n1 n2 reg k yb r1 r2 = Some (reg', k', yb', r1', r2')"
    and "sweep_inv s reg k yb r1 r2"
  shows "sweep_inv s reg' k' yb' r1' r2' \<and> (r1' = [] \<or> r2' = [])
    \<and> (\<forall>x y. sweep_sem opr reg' yb' r1' r2' x y = sweep_sem opr reg yb r1 r2 x y)"
  using assms
proof (induction "length r1 + length r2" arbitrary: reg k yb r1 r2 rule: less_induct)
  case less
  show ?case
  proof (cases "r1 \<noteq> [] \<and> r2 \<noteq> []")
    case False
    then show ?thesis using less.prems by (subst (asm) RegionOp_loop.simps) auto
  next
    case True
    let ?yb = "min (r_bottom (hd r1)) (r_bottom (hd r2))"
    obtain reg1 k1 y1 where p: "RegionOp_pass mem ovl n1 n2 reg k yb r1 r2 = Some (reg1, k1, y1)"
      and l: "RegionOp_loop mem ovl n1 n2 reg1 k1 ?yb (RegionOp_skip ?yb r1) (RegionOp_skip ?yb r2)
                = Some (reg', k', yb', r1', r2')"
      using less.prems(1) True
      by (subst (asm) RegionOp_loop.simps) (auto simp: Let_def split: option.splits)
    note st = pass_step [OF less.prems(2) _ _ p]
    have "length (RegionOp_skip ?yb r1) + length (RegionOp_skip ?yb r2) < length r1 + length r2"
      using next_band_shorter [of r1] next_band_shorter [of r2] True
      by (auto simp: RegionOp_skip_def min_def)
    from less.hyps [OF this l] show ?thesis using st(2,3) True by auto
  qed
qed

lemma tail_pushes:
  assumes inv: "sweep_inv s reg k yb r1 r2" "r1 = [] \<or> r2 = []"
    and run: "RegionOp_tail mem n1 n2 reg yb r1 r2 = Some reg'"
  obtains N where "wr_rects reg' = wr_rects reg @ N" "good s N" "\<forall>q\<in>set N. yb \<le> r_top q" "cap_ok reg'"
    "\<And>x y. covers N x y \<longleftrightarrow> yb \<le> y \<and> opr (covers r1 x y) (covers r2 x y)"
proof -
  have g: "good s r1" "good s r2" "banded r1" "banded r2" "cap_ok reg"
    "r1 \<noteq> [] \<Longrightarrow> yb < r_bottom (hd r1)" "r2 \<noteq> [] \<Longrightarrow> yb < r_bottom (hd r2)"
    using inv by (auto simp: sweep_inv_def good_def)
  note res = that
  have none: thesis if "reg' = reg" "\<And>x y. \<not> opr (covers r1 x y) (covers r2 x y)"
    using that g(5) by (intro res [of "[]"]) (auto simp: good_def coalesced_def)
  consider (both) "r1 = []" "r2 = []" | (one) "r1 \<noteq> []" "r2 = []" | (two) "r1 = []" "r2 \<noteq> []"
    using inv(2) by blast
  then show ?thesis
  proof cases
    case both
    then show ?thesis using none run opr_none by (auto simp: RegionOp_tail_def)
  next
    case one
    show ?thesis
    proof (cases n1)
      case None
      then have "\<not> opr p False" for p using n1_none opr_none by (cases p) auto
      then show ?thesis using none run one None by (auto simp: RegionOp_tail_def)
    next
      case (Some f)
      then have "RegionOp_rest mem f reg yb r1 = Some reg'" using run one by (simp add: RegionOp_tail_def)
      from rest_pushes [OF this g(3) n1_pushes [OF Some]]
      moreover have "opr p False = p" for p using n1_some [OF Some] opr_none by (cases p) auto
      ultimately show ?thesis using one g good_clip [OF g(1,6)]
        by (intro that [of "map (clip_top yb) r1"]) (auto simp: covers_clip)
    qed
  next
    case two
    show ?thesis
    proof (cases n2)
      case None
      then have "\<not> opr False p" for p using n2_none opr_none by (cases p) auto
      then show ?thesis using none run two None by (auto simp: RegionOp_tail_def)
    next
      case (Some f)
      then have "RegionOp_rest mem f reg yb r2 = Some reg'" using run two by (simp add: RegionOp_tail_def)
      from rest_pushes [OF this g(4) n2_pushes [OF Some]]
      moreover have "opr False p = p" for p using n2_some [OF Some] opr_none by (cases p) auto
      ultimately show ?thesis using two g good_clip [OF g(2,7)]
        by (intro that [of "map (clip_top yb) r2"]) (auto simp: covers_clip)
    qed
  qed
qed

text \<open>The sweep is correct: it returns a good list with the points \<open>opr\<close> asks for.\<close>

lemma RegionOp_correct:
  assumes g: "good s (wr_rects reg1)" "good s (wr_rects reg2)" "wr_rects reg1 \<noteq> []" "wr_rects reg2 \<noteq> []"
    and ext: "r_top (wr_extents reg1) = r_top (hd (wr_rects reg1))"
      "r_top (wr_extents reg2) = r_top (hd (wr_rects reg2))"
    and run: "RegionOp_new mem ovl n1 n2 reg1 reg2 = Some new"
  shows "good s (wr_rects new)" "cap_ok new"
    "\<And>x y. covers (wr_rects new) x y \<longleftrightarrow> opr (covers (wr_rects reg1) x y) (covers (wr_rects reg2) x y)"
proof -
  let ?yb = "min (r_top (hd (wr_rects reg1))) (r_top (hd (wr_rects reg2)))"
  obtain new0 where i: "init_region mem (max (numRects reg1) (numRects reg2) * 2) = Some new0"
    using run by (auto simp: RegionOp_new_def split: option.splits)
  then have new0: "wr_rects new0 = []" "cap_ok new0"
    by (auto simp: init_region_def Let_def empty_region_def cap_ok_def split: if_splits)
  have yb: "(if r_top (wr_extents reg1) < r_top (wr_extents reg2)
     then r_top (wr_extents reg1) else r_top (wr_extents reg2)) = ?yb" using ext by auto
  obtain new1 k yb r1 r2 new2 where
    l: "RegionOp_loop mem ovl n1 n2 new0 0 ?yb (wr_rects reg1) (wr_rects reg2) = Some (new1, k, yb, r1, r2)"
    and t: "RegionOp_tail mem n1 n2 new1 yb r1 r2 = Some new2"
    and new: "new = REGION_compact mem (fst (coalesce_new new2 k (numRects new1)))"
    using run i unfolding RegionOp_new_def yb by (auto simp: Let_def split: option.splits)
  have b: "banded (wr_rects reg1)" "banded (wr_rects reg2)" using g by (auto simp: good_def)
  have hd: "r_top (hd (wr_rects reg1)) < r_bottom (hd (wr_rects reg1))"
    "r_top (hd (wr_rects reg2)) < r_bottom (hd (wr_rects reg2))"
    using banded_ok [OF b(1) hd_in_set] banded_ok [OF b(2) hd_in_set] g by (auto simp: rect_ok_def)
  have "sweep_inv s new0 0 ?yb (wr_rects reg1) (wr_rects reg2)"
    using new0 g hd by (auto simp: sweep_inv_def good_def coalesced_def)
  note lp = loop_correct [OF l this]
  then have inv: "sweep_inv s new1 k yb r1 r2" "r1 = [] \<or> r2 = []" by auto
  obtain N where N: "wr_rects new2 = wr_rects new1 @ N" "good s N" "\<forall>q\<in>set N. yb \<le> r_top q" "cap_ok new2"
    "\<And>x y. covers N x y \<longleftrightarrow> yb \<le> y \<and> opr (covers r1 x y) (covers r2 x y)"
    using tail_pushes [OF inv t] by blast
  obtain reg' k' where co: "coalesce_new new2 k (numRects new1) = (reg', k')"
    by (cases "coalesce_new new2 k (numRects new1)")
  have A: "good s (wr_rects new1)" "last_band (wr_rects new1) k" "\<forall>q\<in>set (wr_rects new1). r_bottom q \<le> yb"
    using inv by (auto simp: sweep_inv_def)
  have fin: "good s (wr_rects reg') \<and> cap_ok reg' \<and> (\<forall>x y. covers (wr_rects reg') x y \<longleftrightarrow>
      covers (wr_rects new1) x y \<or> covers N x y)"
  proof (cases "N = []")
    case True
    then have "reg' = new2" using co N(1) by (simp add: coalesce_new_def)
    then show ?thesis using A N True by simp
  next
    case False
    have below: "\<forall>p\<in>set (wr_rects new1). r_bottom p \<le> r_top (hd N)"
      using A(3) N(3) hd_in_set [OF False] by fastforce
    show ?thesis using coalesce_new_good [OF A(1,2) N(2) False below N(1) co] N(4) by blast
  qed
  have cpt: "wr_rects new = wr_rects reg'" "cap_ok new"
    using new co fin by (auto simp: REGION_compact_def cap_ok_def)
  show "good s (wr_rects new)" "cap_ok new" using fin cpt by auto
  show "covers (wr_rects new) x y \<longleftrightarrow> opr (covers (wr_rects reg1) x y) (covers (wr_rects reg2) x y)" for x y
  proof -
    have "covers (wr_rects reg') x y \<longleftrightarrow> sweep_sem opr new1 yb r1 r2 x y"
      using fin N(5) by (simp add: sweep_sem_def)
    also have "\<dots> \<longleftrightarrow> sweep_sem opr new0 ?yb (wr_rects reg1) (wr_rects reg2) x y" using lp by blast
    also have "\<dots> \<longleftrightarrow> opr (covers (wr_rects reg1) x y) (covers (wr_rects reg2) x y)"
      using covers_hd(1) [OF b(1) g(3), of y x] covers_hd(1) [OF b(2) g(4), of y x] opr_none
      by (cases "?yb \<le> y") (auto simp: sweep_sem_def new0 min_def split: if_splits)
    finally show ?thesis by (simp add: cpt)
  qed
qed

text \<open>Without a memory shortage it returns.\<close>

lemma init_region_total: "\<forall>n. mem n \<Longrightarrow> n \<le> 134217727 \<Longrightarrow> \<exists>r. init_region mem n = Some r"
  by (simp add: init_region_def Let_def RGN_DEFAULT_RECTS_def)

lemma call_non_total:
  assumes "\<forall>n. mem n" "nf = n1 \<or> nf = n2"
  shows "\<exists>reg'. call_non mem nf reg B t b = Some reg'"
  using assms n1_total n2_total by (cases nf) (auto simp: call_non_def)

lemma pass_total:
  assumes "\<forall>n. mem n"
  shows "\<exists>res. RegionOp_pass mem ovl n1 n2 reg k yb r1 r2 = Some res"
proof -
  obtain reg1 ytop where t: "RegionOp_top mem n1 n2 reg yb r1 r2 = Some (reg1, ytop)"
    using call_non_total [OF assms] unfolding RegionOp_top_def by fastforce
  obtain reg2 k2 where c: "coalesce_new reg1 k (numRects reg) = (reg2, k2)"
    by (cases "coalesce_new reg1 k (numRects reg)")
  have "\<exists>reg3. (if min (r_bottom (hd r1)) (r_bottom (hd r2)) > ytop
      then ovl mem reg2 (cur_band r1) (cur_band r2) ytop (min (r_bottom (hd r1)) (r_bottom (hd r2)))
      else Some reg2) = Some reg3" using ovl_total [OF assms] by auto
  then obtain reg3 where "(if min (r_bottom (hd r1)) (r_bottom (hd r2)) > ytop
      then ovl mem reg2 (cur_band r1) (cur_band r2) ytop (min (r_bottom (hd r1)) (r_bottom (hd r2)))
      else Some reg2) = Some reg3" by blast
  then show ?thesis unfolding RegionOp_pass_def t using c by (simp add: Let_def split: prod.splits)
qed

lemma loop_total:
  assumes "\<forall>n. mem n"
  shows "\<exists>res. RegionOp_loop mem ovl n1 n2 reg k yb r1 r2 = Some res"
proof (induction "length r1 + length r2" arbitrary: reg k yb r1 r2 rule: less_induct)
  case less
  show ?case
  proof (cases "r1 \<noteq> [] \<and> r2 \<noteq> []")
    case True
    let ?yb = "min (r_bottom (hd r1)) (r_bottom (hd r2))"
    obtain reg1 k1 y1 where p: "RegionOp_pass mem ovl n1 n2 reg k yb r1 r2 = Some (reg1, k1, y1)"
      using pass_total [OF assms] by (metis prod_cases3)
    have "length (RegionOp_skip ?yb r1) + length (RegionOp_skip ?yb r2) < length r1 + length r2"
      using next_band_shorter [of r1] next_band_shorter [of r2] True
      by (auto simp: RegionOp_skip_def min_def)
    from less.hyps [OF this] show ?thesis using p True
      by (subst RegionOp_loop.simps) (simp add: Let_def)
  qed (subst RegionOp_loop.simps, auto)
qed

lemma rest_total:
  assumes "\<And>reg B t b. \<exists>reg'. f mem reg B t b = Some reg'"
  shows "\<exists>reg'. RegionOp_rest mem f reg yb r = Some reg'"
proof (induction "length r" arbitrary: reg r rule: less_induct)
  case less
  show ?case
  proof (cases "r = []")
    case False
    obtain reg1 where "f mem reg (cur_band r) (max (r_top (hd r)) yb) (r_bottom (hd r)) = Some reg1"
      using assms by blast
    then show ?thesis using False less.hyps [OF next_band_shorter [OF False]]
      by (subst RegionOp_rest.simps) simp
  qed (simp add: RegionOp_rest.simps)
qed

lemma tail_total:
  assumes "\<forall>n. mem n"
  shows "\<exists>reg'. RegionOp_tail mem n1 n2 reg yb r1 r2 = Some reg'"
proof -
  have "\<exists>reg'. f mem reg B t b = Some reg'" if "n1 = Some f \<or> n2 = Some f" for f reg B t b
    using that n1_total [OF _ assms] n2_total [OF _ assms] by metis
  then have "n1 = Some f \<or> n2 = Some f \<Longrightarrow> \<exists>reg'. RegionOp_rest mem f reg yb r = Some reg'" for f r
    using rest_total [of f mem] by metis
  then show ?thesis by (auto simp: RegionOp_tail_def split: option.splits)
qed

lemma RegionOp_total:
  assumes "\<forall>n. mem n" "max (numRects reg1) (numRects reg2) * 2 \<le> 134217727"
  shows "\<exists>new. RegionOp_new mem ovl n1 n2 reg1 reg2 = Some new"
proof -
  obtain new0 where i: "init_region mem (max (numRects reg1) (numRects reg2) * 2) = Some new0"
    using init_region_total [OF assms] by blast
  let ?y = "if r_top (wr_extents reg1) < r_top (wr_extents reg2)
     then r_top (wr_extents reg1) else r_top (wr_extents reg2)"
  obtain new1 k yb r1 r2 where
    l: "RegionOp_loop mem ovl n1 n2 new0 0 ?y (wr_rects reg1) (wr_rects reg2) = Some (new1, k, yb, r1, r2)"
    using loop_total [OF assms(1)] by (metis prod_cases5)
  obtain new2 where "RegionOp_tail mem n1 n2 new1 yb r1 r2 = Some new2" using tail_total [OF assms(1)] by blast
  then show ?thesis using l i by (simp add: RegionOp_new_def Let_def del: max_less_iff_conj)
qed

end

end
