(* ===== verification/Region_Bands.thy ===== *)
theory Region_Bands
  imports Region_Sweep
begin

text \<open>
  The overlap and non-overlap functions of the region operations, each proved against the
  pointwise operation it implements, and the interpretations of the sweep's interface for
  intersection, union and subtraction.
\<close>

section \<open>Adding a rectangle\<close>

lemma add_rect_pushes:
  assumes "add_rect mem reg l t r b = Some reg'"
  shows "wr_rects reg' = wr_rects reg @ [mk_rect l t r b]" "cap_ok reg \<Longrightarrow> cap_ok reg'"
proof -
  from assms obtain reg1 where r: "(if numRects reg \<ge> wr_size reg
      then grow_region mem reg (2 * wr_size reg) else Some reg) = Some reg1"
    "reg' = reg1\<lparr>wr_rects := wr_rects reg1 @ [mk_rect l t r b]\<rparr>"
    by (auto simp: add_rect_def split: option.splits)
  then have "wr_rects reg1 = wr_rects reg" by (auto simp: grow_region_def split: if_splits)
  then show "wr_rects reg' = wr_rects reg @ [mk_rect l t r b]" using r(2) by simp
  show "cap_ok reg \<Longrightarrow> cap_ok reg'"
    using r by (auto simp: cap_ok_def grow_region_def RGN_DEFAULT_RECTS_def split: if_splits)
qed

lemma add_rect_total: "\<forall>n. mem n \<Longrightarrow> \<exists>reg'. add_rect mem reg l t r b = Some reg'"
  by (simp add: add_rect_def grow_region_def)

section \<open>The non-overlap functions\<close>

lemma UnionNonO_pushes:
  "REGION_UnionNonO mem reg qs t b = Some reg' \<Longrightarrow>
   wr_rects reg' = wr_rects reg @ map (rebound t b) qs \<and> (cap_ok reg \<longrightarrow> cap_ok reg')"
  by (induction mem reg qs t b rule: REGION_UnionNonO.induct)
    (auto simp: rebound_def dest: add_rect_pushes split: option.splits)

lemma UnionNonO_total: "\<forall>n. mem n \<Longrightarrow> \<exists>reg'. REGION_UnionNonO mem reg qs t b = Some reg'"
proof (induction qs arbitrary: reg)
  case (Cons q qs)
  then show ?case using add_rect_total [OF Cons.prems, of reg "r_left q" t "r_right q" b] by auto
qed simp

lemma SubtractNonO1_eq: "REGION_SubtractNonO1 = REGION_UnionNonO"
proof (intro ext)
  show "REGION_SubtractNonO1 mem reg qs t b = REGION_UnionNonO mem reg qs t b" for mem reg qs t b
    by (induction mem reg qs t b rule: REGION_UnionNonO.induct) (auto split: option.splits)
qed

section \<open>Intersection\<close>

lemma IntersectO_pushes:
  "\<lbrakk>REGION_IntersectO mem reg ps qs t b = Some reg'; is_band t1 b1 ps; is_band t2 b2 qs; t < b\<rbrakk>
   \<Longrightarrow> \<exists>N. wr_rects reg' = wr_rects reg @ N \<and> is_band t b N \<and> (cap_ok reg \<longrightarrow> cap_ok reg')
      \<and> (\<forall>x. span_cov N x = (span_cov ps x \<and> span_cov qs x))
      \<and> (gapped ps \<and> gapped qs \<longrightarrow> gapped N)
      \<and> (\<forall>n\<in>set N. (\<exists>p\<in>set ps. r_left p \<le> r_left n) \<and> (\<exists>q\<in>set qs. r_left q \<le> r_left n))"
proof (induction mem reg ps qs t b rule: REGION_IntersectO.induct)
  case (1 mem reg p ps q qs t b)
  let ?l = "max (r_left p) (r_left q)" and ?r = "min (r_right p) (r_right q)"
  obtain reg1 where a: "(if ?l < ?r then add_rect mem reg ?l t ?r b else Some reg) = Some reg1"
    using "1.prems"(1) by (auto simp: Let_def split: option.splits if_splits)
  define N1 where "N1 = (if ?l < ?r then [mk_rect ?l t ?r b] else [])"
  have N1: "wr_rects reg1 = wr_rects reg @ N1" "cap_ok reg \<longrightarrow> cap_ok reg1" "is_band t b N1" "gapped N1"
    "\<And>x. span_cov N1 x = (?l \<le> x \<and> x < ?r)"
    using a add_rect_pushes [of mem reg ?l t ?r b reg1] "1.prems"(4)
    by (auto simp: N1_def is_band_Cons gapped_Cons rect_ok_def split: if_splits)
  have ok: "rect_ok p" "rect_ok q" and ps: "is_band t1 b1 ps" "\<forall>p'\<in>set ps. r_right p \<le> r_left p'"
    and qs: "is_band t2 b2 qs" "\<forall>q'\<in>set qs. r_right q \<le> r_left q'"
    and tops: "\<forall>p'\<in>set ps. r_top p' = r_top p" "\<forall>q'\<in>set qs. r_top q' = r_top q"
    using "1.prems"(2,3) by (auto simp: is_band_Cons dest: is_band_ok)
  define ps' where "ps' = (if r_right p < r_right q \<or> r_right p = r_right q then ps else p # ps)"
  define qs' where "qs' = (if r_right q < r_right p \<or> r_right p = r_right q then qs else q # qs)"
  have run: "REGION_IntersectO mem reg1 ps' qs' t b = Some reg'"
    using "1.prems"(1) a by (auto simp: Let_def ps'_def qs'_def split: if_splits)
  have bands: "is_band t1 b1 ps'" "is_band t2 b2 qs'"
    using "1.prems"(2,3) by (auto simp: ps'_def qs'_def is_band_Cons)
  have "\<exists>N. wr_rects reg' = wr_rects reg1 @ N \<and> is_band t b N \<and> (cap_ok reg1 \<longrightarrow> cap_ok reg')
      \<and> (\<forall>x. span_cov N x = (span_cov ps' x \<and> span_cov qs' x))
      \<and> (gapped ps' \<and> gapped qs' \<longrightarrow> gapped N)
      \<and> (\<forall>n\<in>set N. (\<exists>p\<in>set ps'. r_left p \<le> r_left n) \<and> (\<exists>q\<in>set qs'. r_left q \<le> r_left n))"
  proof -
    consider "r_right p < r_right q" | "r_right q < r_right p" | "r_right p = r_right q" by linarith
    then show ?thesis
    proof cases
      case 1
      then show ?thesis using "1.IH"(1) [OF refl refl a 1] run bands "1.prems"(4)
        by (simp add: ps'_def qs'_def)
    next
      case 2
      then show ?thesis using "1.IH"(2) [OF refl refl a _ 2] run bands "1.prems"(4)
        by (simp add: ps'_def qs'_def)
    next
      case 3
      then show ?thesis using "1.IH"(3) [OF refl refl a] run bands "1.prems"(4)
        by (simp add: ps'_def qs'_def)
    qed
  qed
  then obtain N where N: "wr_rects reg' = wr_rects reg1 @ N" "is_band t b N" "cap_ok reg1 \<longrightarrow> cap_ok reg'"
    "\<And>x. span_cov N x = (span_cov ps' x \<and> span_cov qs' x)" "gapped ps' \<and> gapped qs' \<longrightarrow> gapped N"
    "\<forall>n\<in>set N. (\<exists>p\<in>set ps'. r_left p \<le> r_left n) \<and> (\<exists>q\<in>set qs'. r_left q \<le> r_left n)" by blast
  have right: "?r \<le> r_left n" if n: "n \<in> set N" for n
    using N(6) n ps(2) qs(2) unfolding ps'_def qs'_def by (fastforce split: if_splits)
  have right': "?r < r_left n" if n: "n \<in> set N" and g: "gapped (p # ps)" "gapped (q # qs)" for n
    using N(6) n g tops unfolding ps'_def qs'_def by (fastforce simp: gapped_Cons split: if_splits)
  have "is_band t b (N1 @ N)"
    using N1(3) N(2) right by (auto simp: is_band_append N1_def)
  moreover have "span_cov (N1 @ N) x = (span_cov (p # ps) x \<and> span_cov (q # qs) x)" for x
  proof -
    have "span_cov ps x \<Longrightarrow> r_right p \<le> x" "span_cov qs x \<Longrightarrow> r_right q \<le> x"
      using ps(2) qs(2) by (force simp: span_cov_def)+
    then show ?thesis using N1(5) [of x] N(4) [of x] by (auto simp: ps'_def qs'_def)
  qed
  moreover have "gapped (p # ps) \<and> gapped (q # qs) \<longrightarrow> gapped (N1 @ N)"
    using N(5) N1(4) right' by (auto simp: gapped_append gapped_Cons ps'_def qs'_def N1_def split: if_splits)
  moreover have "\<forall>n\<in>set (N1 @ N). (\<exists>p'\<in>set (p # ps). r_left p' \<le> r_left n) \<and> (\<exists>q'\<in>set (q # qs). r_left q' \<le> r_left n)"
    using N(6) by (fastforce simp: N1_def ps'_def qs'_def split: if_splits)
  ultimately show ?case using N(1,3) N1(1,2) by (intro exI [of _ "N1 @ N"]) auto
qed (auto intro: exI [of _ "[]"])

lemma IntersectO_step:
  "(if max (r_left p) (r_left q) < min (r_right p) (r_right q)
    then add_rect mem reg (max (r_left p) (r_left q)) t (min (r_right p) (r_right q)) b else Some reg) = Some reg1
   \<Longrightarrow> REGION_IntersectO mem reg (p # ps) (q # qs) t b =
      (if r_right p < r_right q then REGION_IntersectO mem reg1 ps (q # qs) t b
       else if r_right q < r_right p then REGION_IntersectO mem reg1 (p # ps) qs t b
       else REGION_IntersectO mem reg1 ps qs t b)"
  by (simp only: REGION_IntersectO.simps(1) Let_def option.simps)

lemma IntersectO_total: "\<forall>n. mem n \<Longrightarrow> \<exists>reg'. REGION_IntersectO mem reg ps qs t b = Some reg'"
proof (induction mem reg ps qs t b rule: REGION_IntersectO.induct)
  case (1 mem reg p ps q qs t b)
  let ?l = "max (r_left p) (r_left q)" and ?r = "min (r_right p) (r_right q)"
  have "\<exists>reg1. (if ?l < ?r then add_rect mem reg ?l t ?r b else Some reg) = Some reg1"
    using add_rect_total [OF "1.prems", of reg ?l t ?r b] by (cases "?l < ?r") (simp_all only: if_True if_False ex_simps option.inject simp_thms)
  then obtain reg1 where a: "(if ?l < ?r then add_rect mem reg ?l t ?r b else Some reg) = Some reg1" by blast
  consider "r_right p < r_right q" | "r_right q < r_right p" | "r_right p = r_right q" by linarith
  then show ?case
  proof cases
    case 1
    then show ?thesis using "1.IH"(1) [OF refl refl a 1 "1.prems"]  unfolding IntersectO_step [OF a] by simp
  next
    case 2
    then show ?thesis using "1.IH"(2) [OF refl refl a _ 2 "1.prems"]  unfolding IntersectO_step [OF a] by simp
  next
    case 3
    then show ?thesis using "1.IH"(3) [OF refl refl a _ _ "1.prems"]  unfolding IntersectO_step [OF a] by simp
  qed
qed simp_all

lemma IntersectO_cap:
  "REGION_IntersectO mem reg ps qs t b = Some reg' \<Longrightarrow> cap_ok reg \<Longrightarrow> cap_ok reg'"
proof (induction mem reg ps qs t b rule: REGION_IntersectO.induct)
  case (1 mem reg p ps q qs t b)
  let ?l = "max (r_left p) (r_left q)" and ?r = "min (r_right p) (r_right q)"
  obtain reg1 where a: "(if ?l < ?r then add_rect mem reg ?l t ?r b else Some reg) = Some reg1"
    using "1.prems"(1) by (auto simp: Let_def split: option.splits if_splits)
  then have "cap_ok reg1" using "1.prems"(2) add_rect_pushes(2) by (auto split: if_splits)
  then show ?case using "1.IH" [OF refl refl a] "1.prems"(1) a by (simp add: Let_def split: if_splits)
qed auto

interpretation inter: region_op "(\<and>)" REGION_IntersectO None None
proof unfold_locales
  fix mem reg B1 B2 t b reg' t1 b1 t2 b2
  assume "REGION_IntersectO mem reg B1 B2 t b = Some reg'" "is_band t1 b1 B1" "is_band t2 b2 B2" "t < b"
  from IntersectO_pushes [OF this]
  show "\<exists>N. wr_rects reg' = wr_rects reg @ N \<and> is_band t b N
    \<and> (\<forall>x. span_cov N x = (span_cov B1 x \<and> span_cov B2 x)) \<and> (gapped B1 \<and> gapped B2 \<longrightarrow> gapped N)" by blast
next
  show "REGION_IntersectO mem reg B1 B2 t b = Some reg' \<Longrightarrow> cap_ok reg \<Longrightarrow> cap_ok reg'"
    for mem reg B1 B2 t b reg' by (rule IntersectO_cap)
qed (use IntersectO_total in auto)

section \<open>Union\<close>

text \<open>
  While \<open>REGION_UnionO\<close> runs, the rectangles it has put into the region form a band \<open>N\<close> with
  gaps, after rectangles \<open>A\<close> that end above it; \<open>union_state\<close> says so. The rectangles still to
  come start right of every left side in \<open>N\<close>.
\<close>

definition union_state :: "wregion \<Rightarrow> rect list \<Rightarrow> int \<Rightarrow> int \<Rightarrow> rect list \<Rightarrow> bool" where
  "union_state reg A t b N \<longleftrightarrow> wr_rects reg = A @ N \<and> is_band t b N \<and> gapped N"

lemma MERGERECT_step:
  assumes st: "union_state reg A t b N" and q: "rect_ok q" "\<forall>n\<in>set N. r_left n \<le> r_left q"
    and A: "\<forall>a\<in>set A. r_bottom a \<le> t" and tb: "t < b"
    and run: "MERGERECT mem reg q t b = Some reg'"
  obtains N' where "union_state reg' A t b N'" "cap_ok reg \<longrightarrow> cap_ok reg'"
    "\<forall>x. span_cov N' x = (span_cov N x \<or> (r_left q \<le> x \<and> x < r_right q))"
    "\<forall>n\<in>set N'. \<forall>p :: rect. r_left q \<le> r_left p \<longrightarrow> r_left n \<le> r_left p"
proof (cases "N \<noteq> [] \<and> r_right (last N) \<ge> r_left q")
  case True
  then obtain M l where N: "N = M @ [l]" by (metis append_butlast_last_id)
  have l: "r_top l = t" "r_bottom l = b" "rect_ok l" "r_left l \<le> r_left q" "r_left q \<le> r_right l"
    using st q N True by (auto simp: union_state_def is_band_append is_band_Cons)
  let ?l = "l\<lparr>r_right := max (r_right l) (r_right q)\<rparr>"
  have reg': "reg' = reg\<lparr>wr_rects := A @ M @ [?l]\<rparr>"
    using run st N l by (auto simp: MERGERECT_def union_state_def butlast_append max_def split: if_splits)
  show ?thesis
  proof (rule that [of "M @ [?l]"])
    have "gapped (M @ [?l])" "is_band t b (M @ [?l])"
      using st N l q(1) by (auto simp: union_state_def gapped_append gapped_Cons is_band_append is_band_Cons rect_ok_def)
    then show "union_state reg' A t b (M @ [?l])" by (simp add: union_state_def reg')
    show "cap_ok reg \<longrightarrow> cap_ok reg'" using st N by (simp add: cap_ok_def reg' union_state_def)
    show "\<forall>x. span_cov (M @ [?l]) x = (span_cov N x \<or> (r_left q \<le> x \<and> x < r_right q))"
      using l q(1) by (auto simp: N rect_ok_def)
    show "\<forall>n\<in>set (M @ [?l]). \<forall>p :: rect. r_left q \<le> r_left p \<longrightarrow> r_left n \<le> r_left p"
      using q(2) by (auto simp: N)
  qed
next
  case False
  have add: "add_rect mem reg (r_left q) t (r_right q) b = Some reg'"
  proof (cases "N = []")
    case True
    have "\<not> (A \<noteq> [] \<and> r_bottom (last A) = b)" using A tb last_in_set [of A] by fastforce
    then show ?thesis using run st True by (auto simp: MERGERECT_def union_state_def)
  next
    case N: False
    then show ?thesis using run st False by (simp add: MERGERECT_def union_state_def)
  qed
  let ?q = "mk_rect (r_left q) t (r_right q) b"
  have "r_right n < r_left q" if "n \<in> set N" for n
  proof -
    from that obtain M l where N: "N = M @ [l]" by (metis append_butlast_last_id empty_iff empty_set)
    have "n = l \<or> r_right n \<le> r_left l" using st that N by (auto simp: union_state_def is_band_append)
    moreover have "r_left l < r_right l" using st N by (simp add: union_state_def is_band_append is_band_Cons rect_ok_def)
    ultimately show ?thesis using False N by auto
  qed
  then have "gapped (N @ [?q])" "is_band t b (N @ [?q])"
    using st q(1) tb by (auto simp: union_state_def gapped_append gapped_Cons is_band_append is_band_Cons
        rect_ok_def less_imp_le)
  then show ?thesis
    using add_rect_pushes [OF add] st q(2) by (intro that [of "N @ [?q]"]) (auto simp: union_state_def)
qed

lemma UnionO_state:
  "\<lbrakk>REGION_UnionO mem reg ps qs t b = Some reg'; union_state reg A t b N; is_band t1 b1 ps;
    is_band t2 b2 qs; t < b; \<forall>a\<in>set A. r_bottom a \<le> t;
    \<forall>n\<in>set N. \<forall>p\<in>set (ps @ qs). r_left n \<le> r_left p\<rbrakk>
   \<Longrightarrow> \<exists>N'. union_state reg' A t b N' \<and> (cap_ok reg \<longrightarrow> cap_ok reg')
      \<and> (\<forall>x. span_cov N' x = (span_cov N x \<or> span_cov ps x \<or> span_cov qs x))"
proof (induction mem reg ps qs t b arbitrary: N rule: REGION_UnionO.induct)
  case (1 mem reg p ps q qs t b)
  have p: "rect_ok p" "is_band t1 b1 ps" "\<forall>p'\<in>set ps. r_left p < r_left p'"
    and q: "rect_ok q" "is_band t2 b2 qs" "\<forall>q'\<in>set qs. r_left q < r_left q'"
    using "1.prems"(3,4) by (fastforce simp: is_band_Cons rect_ok_def)+
  show ?case
  proof (cases "r_left p < r_left q")
    case True
    then obtain reg1 where m: "MERGERECT mem reg p t b = Some reg1"
      and run: "REGION_UnionO mem reg1 ps (q # qs) t b = Some reg'"
      using "1.prems"(1) by (auto split: option.splits)
    have lft: "\<forall>n\<in>set N. r_left n \<le> r_left p" using "1.prems"(7) by simp
    obtain N1 where N1: "union_state reg1 A t b N1" "cap_ok reg \<longrightarrow> cap_ok reg1"
      "\<forall>x. span_cov N1 x = (span_cov N x \<or> (r_left p \<le> x \<and> x < r_right p))"
      "\<forall>n\<in>set N1. \<forall>p' :: rect. r_left p \<le> r_left p' \<longrightarrow> r_left n \<le> r_left p'"
      using MERGERECT_step [OF "1.prems"(2) p(1) lft "1.prems"(6,5) m] .
    have rest: "\<forall>n\<in>set N1. \<forall>p\<in>set (ps @ q # qs). r_left n \<le> r_left p"
      using N1(4) p(3) q(3) True by fastforce
    from "1.IH"(1) [OF True m run N1(1) p(2) "1.prems"(4-6) rest]
    show ?thesis using N1(2,3) by auto
  next
    case False
    then obtain reg1 where m: "MERGERECT mem reg q t b = Some reg1"
      and run: "REGION_UnionO mem reg1 (p # ps) qs t b = Some reg'"
      using "1.prems"(1) by (auto split: option.splits)
    have lft: "\<forall>n\<in>set N. r_left n \<le> r_left q" using "1.prems"(7) by simp
    obtain N1 where N1: "union_state reg1 A t b N1" "cap_ok reg \<longrightarrow> cap_ok reg1"
      "\<forall>x. span_cov N1 x = (span_cov N x \<or> (r_left q \<le> x \<and> x < r_right q))"
      "\<forall>n\<in>set N1. \<forall>p' :: rect. r_left q \<le> r_left p' \<longrightarrow> r_left n \<le> r_left p'"
      using MERGERECT_step [OF "1.prems"(2) q(1) lft "1.prems"(6,5) m] .
    have rest: "\<forall>n\<in>set N1. \<forall>p\<in>set ((p # ps) @ qs). r_left n \<le> r_left p"
      using N1(4) p(3) q(3) False by fastforce
    from "1.IH"(2) [OF False m run N1(1) "1.prems"(3) q(2) "1.prems"(5,6) rest]
    show ?thesis using N1(2,3) by auto
  qed
next
  case (2 mem reg p ps t b)
  have p: "rect_ok p" "is_band t1 b1 ps" "\<forall>p'\<in>set ps. r_left p < r_left p'"
    using "2.prems"(3) by (fastforce simp: is_band_Cons rect_ok_def)+
  obtain reg1 where m: "MERGERECT mem reg p t b = Some reg1"
    and run: "REGION_UnionO mem reg1 ps [] t b = Some reg'"
    using "2.prems"(1) by (auto split: option.splits)
  have lft: "\<forall>n\<in>set N. r_left n \<le> r_left p" using "2.prems"(7) by simp
  obtain N1 where N1: "union_state reg1 A t b N1" "cap_ok reg \<longrightarrow> cap_ok reg1"
    "\<forall>x. span_cov N1 x = (span_cov N x \<or> (r_left p \<le> x \<and> x < r_right p))"
    "\<forall>n\<in>set N1. \<forall>p' :: rect. r_left p \<le> r_left p' \<longrightarrow> r_left n \<le> r_left p'"
    using MERGERECT_step [OF "2.prems"(2) p(1) lft "2.prems"(6,5) m] .
  have rest: "\<forall>n\<in>set N1. \<forall>p\<in>set (ps @ []). r_left n \<le> r_left p"
    using N1(4) p(3) by fastforce
  from "2.IH" [OF m run N1(1) p(2) "2.prems"(4-6) rest]
  show ?case using N1(2,3) by auto
next
  case (3 mem reg q qs t b)
  have q: "rect_ok q" "is_band t2 b2 qs" "\<forall>q'\<in>set qs. r_left q < r_left q'"
    using "3.prems"(4) by (fastforce simp: is_band_Cons rect_ok_def)+
  obtain reg1 where m: "MERGERECT mem reg q t b = Some reg1"
    and run: "REGION_UnionO mem reg1 [] qs t b = Some reg'"
    using "3.prems"(1) by (auto split: option.splits)
  have lft: "\<forall>n\<in>set N. r_left n \<le> r_left q" using "3.prems"(7) by simp
  obtain N1 where N1: "union_state reg1 A t b N1" "cap_ok reg \<longrightarrow> cap_ok reg1"
    "\<forall>x. span_cov N1 x = (span_cov N x \<or> (r_left q \<le> x \<and> x < r_right q))"
    "\<forall>n\<in>set N1. \<forall>p' :: rect. r_left q \<le> r_left p' \<longrightarrow> r_left n \<le> r_left p'"
    using MERGERECT_step [OF "3.prems"(2) q(1) lft "3.prems"(6,5) m] .
  have rest: "\<forall>n\<in>set N1. \<forall>p\<in>set ([] @ qs). r_left n \<le> r_left p"
    using N1(4) q(3) by fastforce
  from "3.IH" [OF m run N1(1) "3.prems"(3) q(2) "3.prems"(5,6) rest]
  show ?case using N1(2,3) by auto
qed auto

lemma MERGERECT_cap: "MERGERECT mem reg q t b = Some reg' \<Longrightarrow> cap_ok reg \<Longrightarrow> cap_ok reg'"
  by (auto simp: MERGERECT_def cap_ok_def dest: add_rect_pushes(2) [unfolded cap_ok_def] split: if_splits)

lemma UnionO_cap: "REGION_UnionO mem reg ps qs t b = Some reg' \<Longrightarrow> cap_ok reg \<Longrightarrow> cap_ok reg'"
  by (induction mem reg ps qs t b rule: REGION_UnionO.induct)
    (auto dest: MERGERECT_cap split: option.splits if_splits)

lemma MERGERECT_total: "\<forall>n. mem n \<Longrightarrow> \<exists>reg'. MERGERECT mem reg q t b = Some reg'"
  using add_rect_total [of mem reg "r_left q" t "r_right q" b] by (simp add: MERGERECT_def)

lemma UnionO_total: "\<forall>n. mem n \<Longrightarrow> \<exists>reg'. REGION_UnionO mem reg ps qs t b = Some reg'"
proof (induction mem reg ps qs t b rule: REGION_UnionO.induct)
  case (1 mem reg p ps q qs t b)
  then show ?case using MERGERECT_total [OF "1.prems", of reg p t b] MERGERECT_total [OF "1.prems", of reg q t b]
    by fastforce
next
  case (2 mem reg p ps t b)
  then show ?case using MERGERECT_total [OF "2.prems", of reg p t b] by fastforce
next
  case (3 mem reg q qs t b)
  then show ?case using MERGERECT_total [OF "3.prems", of reg q t b] by fastforce
qed simp

interpretation uni: region_op "(\<or>)" REGION_UnionO "Some REGION_UnionNonO" "Some REGION_UnionNonO"
proof unfold_locales
  fix mem reg B1 B2 t b reg' t1 b1 t2 b2
  assume "REGION_UnionO mem reg B1 B2 t b = Some reg'" "is_band t1 b1 B1" "is_band t2 b2 B2" "t < b"
    "\<forall>q\<in>set (wr_rects reg). r_bottom q \<le> t"
  moreover have "union_state reg (wr_rects reg) t b []" by (simp add: union_state_def)
  ultimately obtain N where "union_state reg' (wr_rects reg) t b N"
    "\<forall>x. span_cov N x = (span_cov [] x \<or> span_cov B1 x \<or> span_cov B2 x)"
    using UnionO_state [of mem reg B1 B2 t b reg' "wr_rects reg" "[]" t1 b1 t2 b2] by auto
  then show "\<exists>N. wr_rects reg' = wr_rects reg @ N \<and> is_band t b N
    \<and> (\<forall>x. span_cov N x = (span_cov B1 x \<or> span_cov B2 x)) \<and> (gapped B1 \<and> gapped B2 \<longrightarrow> gapped N)"
    by (auto simp: union_state_def)
qed (use UnionO_total UnionO_cap UnionNonO_pushes UnionNonO_total in auto)

section \<open>Subtraction\<close>

text \<open>
  \<open>fence left ps\<close>: the left fence lies in the first minuend rectangle. \<open>sub_post\<close> is what a
  run of the loop from there leaves behind.
\<close>

definition fence :: "int \<Rightarrow> rect list \<Rightarrow> bool" where
  "fence left ps \<longleftrightarrow> (ps \<noteq> [] \<longrightarrow> r_left (hd ps) \<le> left \<and> left < r_right (hd ps))"

definition sub_post ::
    "int \<Rightarrow> rect list \<Rightarrow> rect list \<Rightarrow> int \<Rightarrow> int \<Rightarrow> wregion \<Rightarrow> wregion \<Rightarrow> bool" where
  "sub_post left ps qs t b reg reg' \<longleftrightarrow>
     (\<exists>N. wr_rects reg' = wr_rects reg @ N \<and> is_band t b N \<and> (cap_ok reg \<longrightarrow> cap_ok reg')
       \<and> (\<forall>x. span_cov N x = (left \<le> x \<and> span_cov ps x \<and> \<not> span_cov qs x))
       \<and> (gapped ps \<longrightarrow> gapped N) \<and> (\<forall>n\<in>set N. left \<le> r_left n \<and> ps \<noteq> []))"

lemma sub_post_skip:
  assumes "sub_post left' ps' qs' t b reg reg'" "ps' \<noteq> [] \<Longrightarrow> left \<le> left'" "ps \<noteq> []"
    and "gapped ps \<Longrightarrow> gapped ps'"
    and "\<And>x. (left' \<le> x \<and> span_cov ps' x \<and> \<not> span_cov qs' x) = (left \<le> x \<and> span_cov ps x \<and> \<not> span_cov qs x)"
  shows "sub_post left ps qs t b reg reg'"
proof -
  from assms(1) obtain N where N: "wr_rects reg' = wr_rects reg @ N" "is_band t b N" "cap_ok reg \<longrightarrow> cap_ok reg'"
    "\<forall>x. span_cov N x = (left' \<le> x \<and> span_cov ps' x \<and> \<not> span_cov qs' x)"
    "gapped ps' \<longrightarrow> gapped N" "\<forall>n\<in>set N. left' \<le> r_left n \<and> ps' \<noteq> []"
    unfolding sub_post_def by blast
  have "\<forall>n\<in>set N. left \<le> r_left n \<and> ps \<noteq> []" using N(6) assms(2,3) by fastforce
  then show ?thesis unfolding sub_post_def
    using N(1-5) assms(4,5) by (intro exI [of _ N]) simp
qed

lemma sub_post_add:
  assumes add: "add_rect mem reg left t r b = Some reg1"
    and post: "sub_post left' ps' qs' t b reg1 reg'"
    and lr: "left < r" "t < b" "ps \<noteq> []" and fence: "ps' \<noteq> [] \<Longrightarrow> r \<le> left'"
    and gap: "gapped ps \<Longrightarrow> gapped ps' \<and> (ps' \<noteq> [] \<longrightarrow> r < left')"
    and sem: "\<And>x. ((left \<le> x \<and> x < r) \<or> (left' \<le> x \<and> span_cov ps' x \<and> \<not> span_cov qs' x))
      = (left \<le> x \<and> span_cov ps x \<and> \<not> span_cov qs x)"
  shows "sub_post left ps qs t b reg reg'"
proof -
  from post obtain N where N: "wr_rects reg' = wr_rects reg1 @ N" "is_band t b N" "cap_ok reg1 \<longrightarrow> cap_ok reg'"
    "\<forall>x. span_cov N x = (left' \<le> x \<and> span_cov ps' x \<and> \<not> span_cov qs' x)"
    "gapped ps' \<longrightarrow> gapped N" "\<forall>n\<in>set N. left' \<le> r_left n \<and> ps' \<noteq> []"
    unfolding sub_post_def by blast
  let ?N = "mk_rect left t r b # N"
  have right: "\<forall>n\<in>set N. r \<le> r_left n" using N(6) fence by fastforce
  have "is_band t b ?N" using N(2) right lr by (simp add: is_band_Cons rect_ok_def)
  moreover have "gapped ps \<longrightarrow> gapped ?N" using N(5,6) gap by (fastforce simp: gapped_Cons)
  moreover have "\<forall>x. span_cov ?N x = (left \<le> x \<and> span_cov ps x \<and> \<not> span_cov qs x)"
    using N(4) sem by simp
  moreover have "\<forall>n\<in>set ?N. left \<le> r_left n \<and> ps \<noteq> []" using right lr by auto
  ultimately show ?thesis unfolding sub_post_def
    using add_rect_pushes [OF add] N(1,3) by (intro exI [of _ ?N]) simp
qed

lemma next_left_band:
  assumes "is_band t b (p # ps)"
  shows "fence (next_left l ps) ps"
    and "ps \<noteq> [] \<Longrightarrow> r_right p \<le> next_left l ps"
    and "ps \<noteq> [] \<Longrightarrow> gapped (p # ps) \<Longrightarrow> r_right p < next_left l ps"
    and "span_cov ps x \<Longrightarrow> next_left l ps \<le> x"
    and "span_cov ps x \<Longrightarrow> r_right p \<le> x"
proof -
  have ok: "\<forall>q\<in>set ps. rect_ok q" using assms is_band_ok by fastforce
  have srt: "\<forall>q\<in>set (tl ps). r_left (hd ps) \<le> r_left q"
    using assms by (cases ps) (auto simp: is_band_Cons rect_ok_def)
  show "fence (next_left l ps) ps"
    using ok by (cases ps) (auto simp: fence_def next_left_def rect_ok_def)
  show "ps \<noteq> [] \<Longrightarrow> r_right p \<le> next_left l ps"
    using assms by (cases ps) (auto simp: next_left_def is_band_Cons)
  show "ps \<noteq> [] \<Longrightarrow> gapped (p # ps) \<Longrightarrow> r_right p < next_left l ps"
    using assms by (cases ps) (auto simp: next_left_def is_band_Cons gapped_Cons)
  show "span_cov ps x \<Longrightarrow> next_left l ps \<le> x"
    using srt by (cases ps) (fastforce simp: next_left_def span_cov_def)+
  show "span_cov ps x \<Longrightarrow> r_right p \<le> x"
    using assms by (fastforce simp: span_cov_def is_band_Cons)
qed

lemma span_cov_after:
  "is_band t b (q # qs) \<Longrightarrow> span_cov qs x \<Longrightarrow> r_right q \<le> x"
  by (fastforce simp: span_cov_def is_band_Cons)

lemma SubtractO_loop_post:
  "\<lbrakk>SubtractO_loop mem reg left ps qs t b = Some reg'; is_band t1 b1 ps; is_band t2 b2 qs; t < b;
    fence left ps\<rbrakk> \<Longrightarrow> sub_post left ps qs t b reg reg'"
proof (induction "length ps + length qs" arbitrary: reg left ps qs rule: less_induct)
  case less
  note run = less.prems(1) and tb = less.prems(4)
  show ?case
  proof (cases ps)
    case Nil
    then show ?thesis using run by (auto simp: sub_post_def)
  next
    case ps: (Cons p ps')
    have p: "rect_ok p" "r_left p \<le> left" "left < r_right p"
      using less.prems(2,5) by (simp_all add: ps fence_def is_band_Cons)
    have bps: "is_band t1 b1 ps'" using less.prems(2) by (simp add: ps is_band_Cons)
    have gps: "gapped ps \<Longrightarrow> gapped ps'" by (simp add: ps gapped_Cons)
    note nl = next_left_band [OF less.prems(2) [unfolded ps]]
    have ord: "ps' \<noteq> [] \<Longrightarrow> r_right p \<le> next_left l ps'"
      "gapped ps \<Longrightarrow> gapped ps' \<and> (ps' \<noteq> [] \<longrightarrow> r_right p < next_left l ps')" for l
      using nl(2,3) gps by (simp_all add: ps)
    have far: "span_cov ps' x \<Longrightarrow> next_left l ps' \<le> x \<and> r_right p \<le> x" for l x
      using nl(4,5) by blast
    show ?thesis
    proof (cases qs)
      case Nil
      from run obtain reg1 where add: "add_rect mem reg left t (r_right p) b = Some reg1"
        and rec: "SubtractO_loop mem reg1 (next_left left ps') ps' [] t b = Some reg'"
        by (auto simp: ps Nil split: option.splits)
      have post: "sub_post (next_left left ps') ps' [] t b reg1 reg'"
        by (rule less.hyps [OF _ rec bps _ tb nl(1)]) (simp_all add: ps Nil)
      show ?thesis
          proof (rule sub_post_add [OF add post p(3) tb], goal_cases)
            case (4 x)
            then show ?case using p far [of x left] by (auto simp: ps Nil)
          qed (use ord [of left] p in \<open>auto simp: ps Nil\<close>)
    next
      case qs: (Cons q qs')
      have q: "r_left q < r_right q" and bqs: "is_band t2 b2 qs'"
        using less.prems(3) by (simp_all add: qs is_band_Cons rect_ok_def)
      note after = span_cov_after [OF less.prems(3) [unfolded qs]]
      consider (gone) "r_right q \<le> left" | (covered) "\<not> r_right q \<le> left" "r_left q \<le> left"
        | (inside) "left < r_left q" "r_left q < r_right p" | (beyond) "left < r_left q" "r_right p \<le> r_left q"
        by linarith
      then show ?thesis
      proof cases
        case gone
        then have "SubtractO_loop mem reg left ps qs' t b = Some reg'" using run by (simp add: ps qs)
        from less.hyps [OF _ this less.prems(2) bqs tb less.prems(5)]
        have "sub_post left ps qs' t b reg reg'" by (simp add: qs)
        then show ?thesis
          by (rule sub_post_skip) (use gone in \<open>auto simp: ps qs\<close>)
      next
        case covered
        show ?thesis
        proof (cases "r_right q \<ge> r_right p")
          case True
          then have rec: "SubtractO_loop mem reg (next_left (r_right q) ps') ps' qs t b = Some reg'"
            using run covered by (simp add: ps qs)
          have post: "sub_post (next_left (r_right q) ps') ps' qs t b reg reg'"
            by (rule less.hyps [OF _ rec bps less.prems(3) tb nl(1)]) (simp add: ps)
          show ?thesis
          proof (rule sub_post_skip [OF post], goal_cases)
            case (4 x)
            then show ?case using p far [of x "r_right q"] True covered by (auto simp: ps qs)
          qed (use ord [of "r_right q"] p True covered in \<open>auto simp: ps qs\<close>)
        next
          case False
          then have rec: "SubtractO_loop mem reg (r_right q) ps qs' t b = Some reg'"
            using run covered by (simp add: ps qs)
          have f: "fence (r_right q) ps" using False covered p by (simp add: fence_def ps)
          have post: "sub_post (r_right q) ps qs' t b reg reg'"
            by (rule less.hyps [OF _ rec less.prems(2) bqs tb f]) (simp add: qs)
          show ?thesis
          proof (rule sub_post_skip [OF post], goal_cases)
            case (4 x)
            then show ?case using p far [of x left] after [of x] False covered by (auto simp: ps qs)
          qed (use p False covered in \<open>auto simp: ps qs\<close>)
        qed
      next
        case inside
        from run obtain reg1 where add: "add_rect mem reg left t (r_left q) b = Some reg1"
          and rec: "(if r_right q \<ge> r_right p then SubtractO_loop mem reg1 (next_left (r_right q) ps') ps' (q # qs') t b
             else SubtractO_loop mem reg1 (r_right q) (p # ps') qs' t b) = Some reg'"
          using inside q by (auto simp: ps qs Let_def split: option.splits)
        show ?thesis
        proof (cases "r_right q \<ge> r_right p")
          case True
          then have rec: "SubtractO_loop mem reg1 (next_left (r_right q) ps') ps' qs t b = Some reg'"
            using rec by (simp add: qs)
          have post: "sub_post (next_left (r_right q) ps') ps' qs t b reg1 reg'"
            by (rule less.hyps [OF _ rec bps less.prems(3) tb nl(1)]) (simp add: ps)
          show ?thesis
          proof (rule sub_post_add [OF add post inside(1) tb], goal_cases)
            case (4 x)
            then show ?case using p q far [of x "r_right q"] after [of x] True inside by (auto simp: ps qs)
          qed (use ord [of "r_right q"] p q True inside in \<open>auto simp: ps qs\<close>)
        next
          case False
          then have rec: "SubtractO_loop mem reg1 (r_right q) ps qs' t b = Some reg'" using rec by (simp add: ps)
          have f: "fence (r_right q) ps" using False inside q p by (simp add: fence_def ps)
          have post: "sub_post (r_right q) ps qs' t b reg1 reg'"
            by (rule less.hyps [OF _ rec less.prems(2) bqs tb f]) (simp add: qs)
          show ?thesis
          proof (rule sub_post_add [OF add post inside(1) tb], goal_cases)
            case (4 x)
            then show ?case using p q far [of x left] after [of x] False inside by (auto simp: ps qs)
          qed (use p q False inside in \<open>auto simp: ps qs\<close>)
        qed
      next
        case beyond
        from run obtain reg1 where add: "add_rect mem reg left t (r_right p) b = Some reg1"
          and "SubtractO_loop mem reg1 (next_left left ps') ps' (q # qs') t b = Some reg'"
          using beyond q p by (auto simp: ps qs split: option.splits)
        then have rec: "SubtractO_loop mem reg1 (next_left left ps') ps' qs t b = Some reg'" by (simp add: qs)
        have post: "sub_post (next_left left ps') ps' qs t b reg1 reg'"
          by (rule less.hyps [OF _ rec bps less.prems(3) tb nl(1)]) (simp add: ps)
        show ?thesis
          proof (rule sub_post_add [OF add post p(3) tb], goal_cases)
            case (4 x)
            then show ?case using p q far [of x left] after [of x] beyond by (auto simp: ps qs)
          qed (use ord [of left] p q beyond in \<open>auto simp: ps qs\<close>)
      qed
    qed
  qed
qed

lemma SubtractO_loop_total:
  assumes mem: "\<forall>n. mem n"
  shows "\<exists>reg'. SubtractO_loop mem reg left ps qs t b = Some reg'"
proof (induction "length ps + length qs" arbitrary: reg left ps qs rule: less_induct)
  case less
  show ?case
  proof (cases ps)
    case ps: (Cons p ps')
    obtain reg1 reg2 where add: "add_rect mem reg left t (r_right p) b = Some reg1"
      "add_rect mem reg left t (r_left (hd qs)) b = Some reg2"
      using add_rect_total [OF mem] by meson
    have IH: "\<exists>reg'. SubtractO_loop mem r l ps' qs t b = Some reg'" for r l
      by (rule less) (simp add: ps)
    have IH': "qs \<noteq> [] \<Longrightarrow> \<exists>reg'. SubtractO_loop mem r l ps (tl qs) t b = Some reg'" for r l
      by (rule less) (cases qs; simp)
    show ?thesis using add IH IH' by (cases qs) (simp_all add: ps Let_def)
  qed simp
qed

lemma SubtractO_loop_cap:
  "SubtractO_loop mem reg left ps qs t b = Some reg' \<Longrightarrow> cap_ok reg \<Longrightarrow> cap_ok reg'"
  by (induction mem reg left ps qs t b rule: SubtractO_loop.induct)
    (auto simp: Let_def dest: add_rect_pushes split: option.splits if_splits)

interpretation diff: region_op "\<lambda>p q. p \<and> \<not> q" REGION_SubtractO "Some REGION_SubtractNonO1" None
proof unfold_locales
  fix mem reg B1 B2 t b reg' t1 b1 t2 b2
  assume run: "REGION_SubtractO mem reg B1 B2 t b = Some reg'" and bands: "is_band t1 b1 B1" "is_band t2 b2 B2"
    and ne: "B1 \<noteq> []" and tb: "t < b"
  have first: "span_cov B1 x \<Longrightarrow> r_left (hd B1) \<le> x" for x
    using bands(1) ne by (cases B1) (fastforce simp: is_band_Cons rect_ok_def span_cov_def)+
  have "fence (r_left (hd B1)) B1" using bands(1) ne by (cases B1) (auto simp: fence_def is_band_Cons rect_ok_def)
  from SubtractO_loop_post [OF run [unfolded REGION_SubtractO_def] bands tb this]
  show "\<exists>N. wr_rects reg' = wr_rects reg @ N \<and> is_band t b N
    \<and> (\<forall>x. span_cov N x = (span_cov B1 x \<and> \<not> span_cov B2 x)) \<and> (gapped B1 \<and> gapped B2 \<longrightarrow> gapped N)"
    using first by (fastforce simp: sub_post_def)
qed (use SubtractO_loop_total SubtractO_loop_cap UnionNonO_pushes UnionNonO_total in
      \<open>auto simp: REGION_SubtractO_def SubtractNonO1_eq\<close>)

end
