(* ===== verification/Region_Canonical.thy ===== *)
theory Region_Canonical
  imports Region_Coalesce
begin

text \<open>
  Canonical lists are determined by their points: at each height the spans are the maximal
  intervals of the row, and each band is a maximal run of equal rows. This is what makes the
  rectangle-by-rectangle comparison of \<open>EqualRgn\<close> a comparison of point sets.
\<close>

section \<open>Rows\<close>

definition row_ok :: "(int \<times> int) list \<Rightarrow> bool" where
  "row_ok ss \<longleftrightarrow> (\<forall>s\<in>set ss. fst s < snd s) \<and> sorted_wrt (\<lambda>a b. snd a < fst b) ss"

definition row_mem :: "(int \<times> int) list \<Rightarrow> int \<Rightarrow> bool" where
  "row_mem ss x \<longleftrightarrow> (\<exists>s\<in>set ss. fst s \<le> x \<and> x < snd s)"

lemma row_simps [simp]:
  "row_ok []" "\<not> row_mem [] x"
  "row_ok (s # ss) \<longleftrightarrow> fst s < snd s \<and> (\<forall>a\<in>set ss. snd s < fst a) \<and> row_ok ss"
  "row_mem (s # ss) x \<longleftrightarrow> (fst s \<le> x \<and> x < snd s) \<or> row_mem ss x"
  by (auto simp: row_ok_def row_mem_def)

lemma row_mem_after: "\<forall>a\<in>set ss. r < fst a \<Longrightarrow> row_mem ss x \<Longrightarrow> r < x"
  by (fastforce simp: row_mem_def)

lemma row_hd: "row_ok (s # ss) \<Longrightarrow> row_mem (s # ss) x \<Longrightarrow> fst s \<le> x"
  using row_mem_after [of ss "snd s" x] by auto

lemma row_unique:
  "row_ok ss \<Longrightarrow> row_ok ts \<Longrightarrow> (\<And>x. row_mem ss x = row_mem ts x) \<Longrightarrow> ss = ts"
proof (induction ss arbitrary: ts)
  case Nil
  show ?case
  proof (cases ts)
    case (Cons t ts')
    then show ?thesis using Nil(2) Nil(3) [of "fst t"] by simp
  qed simp
next
  case (Cons s ss)
  note eq = Cons.prems(3)
  have "row_mem ts (fst s)" using Cons.prems(1) eq [of "fst s"] by simp
  then obtain t ts' where ts: "ts = t # ts'" by (cases ts) auto
  note okt = Cons.prems(2) [unfolded ts] and eq = eq [unfolded ts]
  have "row_mem (s # ss) (fst t)" using okt eq [of "fst t"] by simp
  then have lft: "fst s = fst t"
    using row_hd [OF Cons.prems(1)] row_hd [OF okt, of "fst s"] eq [of "fst s"] Cons.prems(1) by fastforce
  have after: "row_mem ss x \<Longrightarrow> snd s < x" "row_mem ts' x \<Longrightarrow> snd t < x" for x
    using row_mem_after [of ss "snd s" x] row_mem_after [of ts' "snd t" x] Cons.prems(1) okt by auto
  have rgt: "snd s = snd t"
  proof (rule ccontr)
    assume "snd s \<noteq> snd t"
    then consider "snd s < snd t" | "snd t < snd s" by linarith
    then show False
    proof cases
      case 1
      then show False using eq [of "snd s"] lft after(1) [of "snd s"] Cons.prems(1) by auto
    next
      case 2
      then show False using eq [of "snd t"] lft after(2) [of "snd t"] okt by auto
    qed
  qed
  have "row_mem ss x = row_mem ts' x" for x
    using eq [of x] after [of x] lft rgt by auto
  then have "ss = ts'" using Cons.IH [of ts'] Cons.prems(1) okt by simp
  then show ?case using lft rgt ts by (simp add: prod_eq_iff)
qed

section \<open>The row of a banded list at a height\<close>

lemma spans_at_Cons:
  "spans_at (q # rs) y = (if r_top q \<le> y \<and> y < r_bottom q then [(r_left q, r_right q)] else []) @ spans_at rs y"
  by (simp add: spans_at_def xspans_def)

lemma spans_at_set: "a \<in> set (spans_at rs y) \<longleftrightarrow>
    (\<exists>q\<in>set rs. r_top q \<le> y \<and> y < r_bottom q \<and> a = (r_left q, r_right q))"
  by (auto simp: spans_at_def xspans_def)

lemma spans_at_row_ok: "banded rs \<Longrightarrow> gapped rs \<Longrightarrow> row_ok (spans_at rs y)"
proof (induction rs)
  case (Cons q rs)
  then show ?case
    by (fastforce simp: spans_at_Cons banded_Cons gapped_Cons spans_at_set rect_ok_def rect_before_def)
qed simp

lemma covers_row: "covers rs x y = row_mem (spans_at rs y) x"
  unfolding covers_spans_at row_mem_def by (simp add: case_prod_beta)

lemma rows_equal:
  assumes "banded rs" "gapped rs" "banded rs'" "gapped rs'" "\<And>x y. covers rs x y = covers rs' x y"
  shows "spans_at rs y = spans_at rs' y"
  using assms by (intro row_unique spans_at_row_ok) (auto simp: covers_row)

section \<open>The first band of a canonical list\<close>

lemma spans_at_next_band:
  assumes "banded rs" "rs \<noteq> []"
  shows "spans_at (next_band rs) y = (if y < r_bottom (hd rs) then [] else spans_at rs y)"
proof (cases "y < r_bottom (hd rs)")
  case True
  then show ?thesis using next_band_below [OF assms] by (fastforce intro: spans_at_empty)
next
  case False
  have "spans_at rs y = spans_at (cur_band rs) y @ spans_at (next_band rs) y"
    by (metis cur_next_band spans_at_append)
  then show ?thesis using False spans_at_band [OF banded_cur_band [OF assms], of y] by simp
qed

lemma spans_at_first_band:
  assumes "banded rs" "rs \<noteq> []" "y < r_bottom (hd rs)"
  shows "spans_at rs y = (if r_top (hd rs) \<le> y then xspans (cur_band rs) else [])"
proof -
  have "spans_at rs y = spans_at (cur_band rs) y @ spans_at (next_band rs) y"
    by (metis cur_next_band spans_at_append)
  then show ?thesis
    using assms spans_at_next_band [OF assms(1,2)] spans_at_band [OF banded_cur_band [OF assms(1,2)], of y] by simp
qed

lemma xspans_cur_band: "rs \<noteq> [] \<Longrightarrow> xspans (cur_band rs) \<noteq> []"
  by (simp add: xspans_def)

lemma coalesced_next_band:
  assumes "banded rs" "rs \<noteq> []" "coalesced rs"
  shows "coalesced (next_band rs)"
  unfolding coalesced_def
proof
  fix q assume q: "q \<in> set (next_band rs)"
  then have "q \<in> set rs" and below: "r_bottom (hd rs) \<le> r_top q"
    using set_cur_next [of rs] next_band_below [OF assms(1,2) q] by auto
  then have ne: "spans_at rs (r_top q - 1) \<noteq> spans_at rs (r_top q)" using assms(3) by (simp add: coalesced_def)
  have "spans_at rs (r_top q) \<noteq> []"
    using \<open>q \<in> set rs\<close> banded_ok [OF assms(1)] by (auto simp: spans_at_def xspans_def filter_empty_conv rect_ok_def)
  then show "spans_at (next_band rs) (r_top q - 1) \<noteq> spans_at (next_band rs) (r_top q)"
    using ne below by (simp add: spans_at_next_band [OF assms(1,2)])
qed

lemma first_band_ends:
  assumes "banded rs" "rs \<noteq> []" "coalesced rs"
  shows "spans_at rs (r_bottom (hd rs)) \<noteq> xspans (cur_band rs)"
proof
  let ?b = "r_bottom (hd rs)"
  assume eq: "spans_at rs ?b = xspans (cur_band rs)"
  have ok: "r_top (hd rs) < ?b" using assms(1,2) banded_ok [OF assms(1) hd_in_set] by (simp add: rect_ok_def)
  from eq have "spans_at (next_band rs) ?b \<noteq> []"
    using assms(2) by (simp add: spans_at_next_band [OF assms(1,2)] xspans_cur_band)
  then obtain q where q: "q \<in> set (next_band rs)" "r_top q \<le> ?b" "?b < r_bottom q"
    by (auto simp: spans_at_def xspans_def filter_empty_conv)
  then have top: "r_top q = ?b" using next_band_below [OF assms(1,2) q(1)] by simp
  have "spans_at rs (?b - 1) = xspans (cur_band rs)" using ok spans_at_first_band [OF assms(1,2), of "?b - 1"] by simp
  moreover have "q \<in> set rs" using q(1) set_cur_next [of rs] by blast
  ultimately show False using assms(3) top eq unfolding coalesced_def by fastforce
qed

lemma first_bottom_le:
  assumes "canonical rs" "rs \<noteq> []" "banded rs'" "rs' \<noteq> []" "\<And>y. spans_at rs y = spans_at rs' y"
    "r_top (hd rs) = r_top (hd rs')"
  shows "r_bottom (hd rs') \<le> r_bottom (hd rs)"
proof (rule ccontr)
  assume a: "\<not> ?thesis"
  have b: "banded rs" "coalesced rs" using assms(1) by (simp_all add: canonical_def)
  have ok: "r_top (hd rs) < r_bottom (hd rs)" using banded_ok [OF b(1) hd_in_set] assms(2) by (simp add: rect_ok_def)
  let ?b = "r_bottom (hd rs)"
  have "spans_at rs' ?b = spans_at rs' (?b - 1)"
    using a ok assms(6) spans_at_first_band [OF assms(3,4)] by simp
  then have "spans_at rs ?b = xspans (cur_band rs)"
    using assms(5) ok spans_at_first_band [OF b(1) assms(2), of "?b - 1"] by simp
  with first_band_ends [OF b(1) assms(2) b(2)] show False by simp
qed

lemma first_top_le:
  assumes "banded rs" "rs \<noteq> []" "banded rs'" "rs' \<noteq> []" "\<And>y. spans_at rs y = spans_at rs' y"
  shows "r_top (hd rs') \<le> r_top (hd rs)"
proof (rule ccontr)
  assume a: "\<not> ?thesis"
  have ok: "r_top (hd rs) < r_bottom (hd rs)" "r_top (hd rs') < r_bottom (hd rs')"
    using banded_ok [OF assms(1) hd_in_set] banded_ok [OF assms(3) hd_in_set] assms by (simp_all add: rect_ok_def)
  then have "spans_at rs (r_top (hd rs)) \<noteq> []" "spans_at rs' (r_top (hd rs)) = []"
    using a spans_at_first_band [OF assms(1,2), of "r_top (hd rs)"] xspans_cur_band [OF assms(2)]
      spans_at_first_band [OF assms(3,4), of "r_top (hd rs)"] by simp_all
  then show False using assms(5) by simp
qed

lemma band_unique:
  assumes "is_band t b as" "is_band t b bs" "xspans as = xspans bs"
  shows "as = bs"
  using assms
proof (induction as arbitrary: bs)
  case Nil
  then show ?case by (simp add: xspans_def)
next
  case (Cons a as)
  then obtain c cs where bs: "bs = c # cs" by (cases bs) (auto simp: xspans_def)
  have "a = c" using Cons.prems by (intro rect_eqI) (auto simp: bs is_band_Cons xspans_def)
  moreover have "as = cs" using Cons.prems by (intro Cons.IH) (auto simp: bs is_band_Cons xspans_def)
  ultimately show ?case by (simp add: bs)
qed

section \<open>Canonical lists are determined by their points\<close>

lemma canonical_rows_unique:
  "canonical rs \<Longrightarrow> canonical rs' \<Longrightarrow> (\<And>y. spans_at rs y = spans_at rs' y) \<Longrightarrow> rs = rs'"
proof (induction "length rs" arbitrary: rs rs' rule: less_induct)
  case less
  note can = less.prems(1,2) and eq = less.prems(3)
  have b: "banded rs" "banded rs'" using can by (simp_all add: canonical_def)
  have nonempty: "banded xs \<Longrightarrow> xs \<noteq> [] \<Longrightarrow> spans_at xs (r_top (hd xs)) \<noteq> []" for xs
    using banded_ok [OF _ hd_in_set] by (simp add: spans_at_first_band xspans_cur_band rect_ok_def)
  show ?case
  proof (cases "rs = [] \<or> rs' = []")
    case True
    then have "rs = [] \<and> rs' = []" using nonempty [OF b(1)] nonempty [OF b(2)] eq by (metis spans_at_Nil)
    then show ?thesis by simp
  next
    case False
    then have ne: "rs \<noteq> []" "rs' \<noteq> []" by auto
    have top: "r_top (hd rs) = r_top (hd rs')"
      using first_top_le [OF b(1) ne(1) b(2) ne(2) eq] first_top_le [OF b(2) ne(2) b(1) ne(1) eq [symmetric]] by simp
    have bot: "r_bottom (hd rs) = r_bottom (hd rs')"
      using first_bottom_le [OF can(1) ne(1) b(2) ne(2) eq top]
        first_bottom_le [OF can(2) ne(2) b(1) ne(1) eq [symmetric] top [symmetric]] by simp
    have ok: "r_top (hd rs) < r_bottom (hd rs)" using banded_ok [OF b(1) hd_in_set] ne by (simp add: rect_ok_def)
    have "xspans (cur_band rs) = xspans (cur_band rs')"
      using eq [of "r_top (hd rs)"] ok top bot spans_at_first_band [OF b(1) ne(1), of "r_top (hd rs)"]
        spans_at_first_band [OF b(2) ne(2), of "r_top (hd rs)"] by simp
    then have cur: "cur_band rs = cur_band rs'"
      using band_unique banded_cur_band [OF b(1) ne(1)] banded_cur_band [OF b(2) ne(2)] top bot by metis
    have can': "canonical (next_band rs)" "canonical (next_band rs')"
      using can ne by (auto simp: canonical_def banded_next_band coalesced_next_band dest: gapped_cur_next)
    have "spans_at (next_band rs) y = spans_at (next_band rs') y" for y
      using eq [of y] bot by (simp add: spans_at_next_band b ne)
    then have "next_band rs = next_band rs'"
      by (intro less.hyps [OF next_band_shorter [OF ne(1)] can'])
    then show ?thesis using cur cur_next_band by metis
  qed
qed

lemma canonical_unique:
  assumes "canonical rs" "canonical rs'" "\<And>x y. covers rs x y = covers rs' x y"
  shows "rs = rs'"
  using assms by (intro canonical_rows_unique rows_equal) (auto simp: canonical_def)

end
