(* ===== verification/Region_Ops.thy ===== *)
theory Region_Ops
  imports Region_Store Region_Bands Region_Canonical
begin

text \<open>
  The operations on region objects against their specification as sets of points. \<open>wf_region\<close>
  is the invariant of a region object; \<open>computes\<close> is the contract every operation is proved
  to meet: the destination holds the specified point set and is well-formed, every other
  object is unchanged, and on failure nothing has changed. Aliasing of the pointers is
  unrestricted except where a lemma says otherwise.
\<close>

section \<open>The invariant and the contract\<close>

text \<open>\<open>tight e P\<close>: the box \<open>e\<close> contains \<open>P\<close> and each of its four sides is touched.\<close>

definition tight :: "rect \<Rightarrow> (int \<Rightarrow> int \<Rightarrow> bool) \<Rightarrow> bool" where
  "tight e P \<longleftrightarrow> (\<forall>x y. P x y \<longrightarrow> is_in_rect e x y)
     \<and> (\<exists>y. P (r_left e) y) \<and> (\<exists>y. P (r_right e - 1) y)
     \<and> (\<exists>x. P x (r_top e)) \<and> (\<exists>x. P x (r_bottom e - 1))"

definition points :: "wregion \<Rightarrow> int \<Rightarrow> int \<Rightarrow> bool" where
  "points reg = covers (wr_rects reg)"

text \<open>\<open>s\<close> says whether the region is canonical or only banded.\<close>

definition wf_region :: "bool \<Rightarrow> wregion \<Rightarrow> bool" where
  "wf_region s reg \<longleftrightarrow> cap_ok reg \<and> good s (wr_rects reg)
     \<and> (if wr_rects reg = []
        then r_left (wr_extents reg) = r_right (wr_extents reg) \<and> r_top (wr_extents reg) = r_bottom (wr_extents reg)
        else tight (wr_extents reg) (points reg))"

definition computes :: "bool \<Rightarrow> rptr set \<Rightarrow> store \<Rightarrow> rptr \<Rightarrow> (int \<Rightarrow> int \<Rightarrow> bool) \<Rightarrow> outcome \<Rightarrow> bool" where
  "computes s T st d P res \<longleftrightarrow>
     (\<forall>p. p \<notin> T \<longrightarrow> p \<noteq> d \<or> \<not> fst res \<longrightarrow> snd res p = st p)
     \<and> (fst res \<longrightarrow> wf_region s (snd res d) \<and> points (snd res d) = P)"

lemma points_Nil [simp]: "wr_rects reg = [] \<Longrightarrow> points reg = (\<lambda>x y. False)"
  by (intro ext) (simp add: points_def)

lemma points_upd [simp]: "points (reg\<lparr>wr_extents := e\<rparr>) = points reg"
  by (simp add: points_def)

lemma wf_cap: "wf_region s reg \<Longrightarrow> cap_ok reg"
  by (simp add: wf_region_def)

lemma wf_good: "wf_region s reg \<Longrightarrow> good s (wr_rects reg)"
  by (simp add: wf_region_def)

lemma wf_banded: "wf_region s reg \<Longrightarrow> banded (wr_rects reg)"
  by (simp add: wf_region_def good_def)

lemma wf_tight: "wf_region s reg \<Longrightarrow> wr_rects reg \<noteq> [] \<Longrightarrow> tight (wr_extents reg) (points reg)"
  by (simp add: wf_region_def)

lemma good_Nil [simp]: "good s []"
  by (simp add: good_def coalesced_def)

lemma wf_inside: "wf_region s reg \<Longrightarrow> points reg x y \<Longrightarrow> is_in_rect (wr_extents reg) x y"
  by (cases "wr_rects reg = []") (auto simp: wf_region_def tight_def)

lemma disjoint_boxes:
  "wf_region s r1 \<Longrightarrow> wf_region s' r2 \<Longrightarrow> \<not> overlapping (wr_extents r1) (wr_extents r2)
   \<Longrightarrow> \<not> (points r1 x y \<and> points r2 x y)"
  using wf_inside [of s r1 x y] wf_inside [of s' r2 x y] by (auto simp: is_in_rect_def overlapping_def)

lemma covers_nonempty: "banded rs \<Longrightarrow> rs \<noteq> [] \<Longrightarrow> covers rs (r_left (hd rs)) (r_top (hd rs))"
  using banded_ok [OF _ hd_in_set] by (fastforce simp: covers_def is_in_rect_def rect_ok_def intro!: bexI [OF _ hd_in_set])

lemma tight_hd_top:
  assumes "banded rs" "rs \<noteq> []" "tight e (covers rs)"
  shows "r_top e = r_top (hd rs)"
proof (rule antisym)
  show "r_top e \<le> r_top (hd rs)"
    using covers_nonempty [OF assms(1,2)] assms(3) by (auto simp: tight_def is_in_rect_def)
  obtain x where "covers rs x (r_top e)" using assms(3) by (auto simp: tight_def)
  then obtain q where "q \<in> set rs" "r_top q \<le> r_top e" using covers_bounds by blast
  then show "r_top (hd rs) \<le> r_top e" using banded_hd_top [OF assms(1)] by fastforce
qed

lemma tight_join:
  assumes "tight e P" "tight f Q"
  shows "tight (join_extents e f) (\<lambda>x y. P x y \<or> Q x y)"
  unfolding tight_def
proof (intro conjI)
  show "\<forall>x y. P x y \<or> Q x y \<longrightarrow> is_in_rect (join_extents e f) x y"
    using assms by (auto simp: tight_def is_in_rect_def join_extents_def less_max_iff_disj min_le_iff_disj)
qed (use assms in \<open>auto simp: tight_def join_extents_def min_def max_def\<close>)

section \<open>The extents\<close>

lemma widen_sel [simp]:
  "r_left (widen e q) = min (r_left e) (r_left q)" "r_right (widen e q) = max (r_right e) (r_right q)"
  "r_top (widen e q) = r_top e" "r_bottom (widen e q) = r_bottom e"
  by (auto simp: widen_def Let_def)

lemma foldl_widen:
  "r_top (foldl widen e rs) = r_top e \<and> r_bottom (foldl widen e rs) = r_bottom e
   \<and> (\<forall>q\<in>set rs. r_left (foldl widen e rs) \<le> r_left q \<and> r_right q \<le> r_right (foldl widen e rs))
   \<and> r_left (foldl widen e rs) \<in> insert (r_left e) (r_left ` set rs)
   \<and> r_right (foldl widen e rs) \<in> insert (r_right e) (r_right ` set rs)"
proof (induction rs rule: rev_induct)
  case (snoc q rs)
  then show ?case by (auto simp: min_def max_def)
qed simp

lemma banded_last_bottom: "banded rs \<Longrightarrow> q \<in> set rs \<Longrightarrow> r_bottom q \<le> r_bottom (last rs)"
proof (induction rs rule: rev_induct)
  case (snoc a rs)
  then show ?case by (fastforce simp: banded_append banded_Cons rect_before_def rect_ok_def)
qed simp

lemma SetExtents_tight:
  assumes "banded (wr_rects reg)" "wr_rects reg \<noteq> []"
  shows "tight (wr_extents (REGION_SetExtents reg)) (points reg)"
proof -
  let ?rs = "wr_rects reg" and ?e = "wr_extents (REGION_SetExtents reg)"
  let ?init = "mk_rect (r_left (hd ?rs)) (r_top (hd ?rs)) (r_right (last ?rs)) (r_bottom (last ?rs))"
  have e: "?e = foldl widen ?init ?rs" using assms(2) by (simp add: REGION_SetExtents_def Let_def)
  note w = foldl_widen [of ?init ?rs, folded e, simplified]
  have in_rs: "hd ?rs \<in> set ?rs" "last ?rs \<in> set ?rs" using assms(2) by simp_all
  have l: "\<exists>q\<in>set ?rs. r_left q = r_left ?e" and r: "\<exists>q\<in>set ?rs. r_right q = r_right ?e"
    using w in_rs by auto
  have corner: "covers ?rs (r_left q) (r_top q)" "covers ?rs (r_right q - 1) (r_top q)"
    "covers ?rs (r_left q) (r_bottom q - 1)" if "q \<in> set ?rs" for q
    using that banded_ok [OF assms(1) that]
    by (auto simp: covers_def is_in_rect_def rect_ok_def intro!: bexI [of _ q])
  have "is_in_rect ?e x y" if c: "covers ?rs x y" for x y
  proof -
    from c obtain q where q: "q \<in> set ?rs" "is_in_rect q x y" by (auto simp: covers_def)
    then show ?thesis
      using w banded_hd_top [OF assms(1) q(1)] banded_last_bottom [OF assms(1) q(1)] by (fastforce simp: is_in_rect_def)
  qed
  then show ?thesis unfolding tight_def points_def
    using l r corner w in_rs by (metis mk_rect_sel(2,4))
qed

lemma SetExtents_simps [simp]:
  "wr_rects (REGION_SetExtents reg) = wr_rects reg" "wr_size (REGION_SetExtents reg) = wr_size reg"
  by (simp_all add: REGION_SetExtents_def Let_def)

lemma points_SetExtents [simp]: "points (REGION_SetExtents reg) = points reg"
  by (simp add: points_def)

lemma SetExtents_wf: "cap_ok reg \<Longrightarrow> good s (wr_rects reg) \<Longrightarrow> wf_region s (REGION_SetExtents reg)"
  using SetExtents_tight [of reg]
  by (cases "wr_rects reg = []") (simp_all add: wf_region_def cap_ok_def good_def, simp add: REGION_SetExtents_def)

section \<open>Copying\<close>

lemma computes_copy:
  assumes "wf_region s (st a)" "wf_region s (st d)"
  shows "computes s {} st d (points (st a)) (REGION_CopyRegion mem d a st)"
proof -
  have "cap_ok (g\<lparr>wr_rects := wr_rects (st a), wr_extents := e\<rparr>)"
    if "(if wr_size (st d) < numRects (st a) then grow_region mem (st d) (numRects (st a)) else Some (st d)) = Some g" for g e
    using that wf_cap [OF assms(2)] by (auto simp: cap_ok_def grow_region_def split: if_splits)
  then show ?thesis using assms
    by (auto simp: computes_def REGION_CopyRegion_def ret_op_def wf_region_def points_def split: option.splits)
qed

lemma computes_copy_unless:
  assumes "wf_region s (st a)" "wf_region s (st d)"
  shows "computes s {} st d (points (st a)) (copy_unless_same mem d a st)"
  using computes_copy [OF assms] assms by (auto simp: copy_unless_same_def computes_def)

lemma copy_total: "\<forall>n. mem n \<Longrightarrow> fst (REGION_CopyRegion mem d a st)"
  by (auto simp: REGION_CopyRegion_def ret_op_def grow_region_def split: option.splits)

section \<open>Intersection, union, difference\<close>

context region_op
begin

lemma RegionOp_store:
  assumes wf: "wf_region s (st a)" "wf_region s (st b)" "wr_rects (st a) \<noteq> []" "wr_rects (st b) \<noteq> []"
    and run: "REGION_RegionOp mem ovl n1 n2 d a b st = (True, st')"
  shows "p \<noteq> d \<Longrightarrow> st' p = st p" "wr_extents (st' d) = wr_extents (st d)"
    "cap_ok (st' d)" "good s (wr_rects (st' d))"
    "points (st' d) = (\<lambda>x y. opr (points (st a) x y) (points (st b) x y))"
proof -
  obtain new where new: "RegionOp_new mem ovl n1 n2 (st a) (st b) = Some new" "st' = st(d := move_rects (st d) new)"
    using run by (auto simp: REGION_RegionOp_def ret_op_def split: option.splits)
  have top: "r_top (wr_extents (st a)) = r_top (hd (wr_rects (st a)))"
    "r_top (wr_extents (st b)) = r_top (hd (wr_rects (st b)))"
    using wf tight_hd_top wf_banded wf_tight [unfolded points_def] by blast+
  note res = RegionOp_correct [OF wf_good [OF wf(1)] wf_good [OF wf(2)] wf(3,4) top new(1)]
  show "p \<noteq> d \<Longrightarrow> st' p = st p" "wr_extents (st' d) = wr_extents (st d)"
    by (simp_all add: new(2) move_rects_def)
  show "cap_ok (st' d)" using res(2) by (simp add: new(2) move_rects_def cap_ok_def)
  show "good s (wr_rects (st' d))" using res(1) by (simp add: new(2) move_rects_def)
  show "points (st' d) = (\<lambda>x y. opr (points (st a) x y) (points (st b) x y))"
    using res(3) by (intro ext) (simp add: new(2) move_rects_def points_def)
qed

lemma RegionOp_fails: "REGION_RegionOp mem ovl n1 n2 d a b st = (False, st') \<Longrightarrow> st' = st"
  by (auto simp: REGION_RegionOp_def ret_op_def split: option.splits)

lemma RegionOp_store_total:
  assumes "\<forall>n. mem n" "max (numRects (st a)) (numRects (st b)) * 2 \<le> 134217727"
  shows "fst (REGION_RegionOp mem ovl n1 n2 d a b st)"
  using RegionOp_total [OF assms] by (auto simp: REGION_RegionOp_def ret_op_def)

end

lemma computes_False [simp]: "computes s T st d P (False, st') \<longleftrightarrow> (\<forall>p. p \<notin> T \<longrightarrow> st' p = st p)"
  by (simp add: computes_def)

lemma computes_True: "computes s T st d P (True, st') \<longleftrightarrow>
    (\<forall>p. p \<notin> T \<longrightarrow> p \<noteq> d \<longrightarrow> st' p = st p) \<and> wf_region s (st' d) \<and> points (st' d) = P"
  by (auto simp: computes_def)

text \<open>An operation that ends with \<open>REGION_SetExtents\<close>.\<close>

lemma computes_set_extents:
  assumes "\<And>p. p \<noteq> d \<or> \<not> ok \<Longrightarrow> st' p = st p"
    and "ok \<Longrightarrow> cap_ok (st' d) \<and> good s (wr_rects (st' d)) \<and> points (st' d) = P"
  shows "computes s {} st d P (seq_op (ok, st') (update_op d REGION_SetExtents))"
  using assms SetExtents_wf [of "st' d" s] by (cases ok) (auto simp: seq_op_def update_op_def computes_True)

lemma computes_intersect:
  assumes wf: "wf_region s (st a)" "wf_region s (st b)" "wf_region s (st d)"
  shows "computes s {} st d (\<lambda>x y. points (st a) x y \<and> points (st b) x y) (REGION_IntersectRegion mem d a b st)"
proof (cases "numRects (st a) = 0 \<or> numRects (st b) = 0 \<or> \<not> overlapping (wr_extents (st a)) (wr_extents (st b))")
  case True
  then have none: "\<not> (points (st a) x y \<and> points (st b) x y)" for x y
    using disjoint_boxes [OF wf(1,2), of x y] by (auto simp: points_def)
  then have P: "(\<lambda>x y. points (st a) x y \<and> points (st b) x y) = (\<lambda>x y. False)" by (intro ext) simp
  show ?thesis unfolding P
    using True wf_cap [OF wf(3)] unfolding REGION_IntersectRegion_def if_P [OF True] update_op_def [of d "\<lambda>reg. reg\<lparr>wr_rects := []\<rparr>"]
    by (intro computes_set_extents) (auto simp: cap_ok_def)
next
  case False
  obtain ok st' where run: "REGION_RegionOp mem REGION_IntersectO None None d a b st = (ok, st')" by fastforce
  have ne: "wr_rects (st a) \<noteq> []" "wr_rects (st b) \<noteq> []" using False by auto
  show ?thesis unfolding REGION_IntersectRegion_def if_not_P [OF False] run
    using inter.RegionOp_fails [of mem d a b st st'] run inter.RegionOp_store [OF wf(1,2) ne, of mem d st']
    by (intro computes_set_extents) (cases ok; auto)+
qed

lemma computes_subtract:
  assumes wf: "wf_region s (st a)" "wf_region s (st b)" "wf_region s (st d)"
  shows "computes s {} st d (\<lambda>x y. points (st a) x y \<and> \<not> points (st b) x y) (REGION_SubtractRegion mem d a b st)"
proof (cases "numRects (st a) = 0 \<or> numRects (st b) = 0 \<or> \<not> overlapping (wr_extents (st a)) (wr_extents (st b))")
  case True
  then have "points (st a) x y \<and> \<not> points (st b) x y \<longleftrightarrow> points (st a) x y" for x y
    using disjoint_boxes [OF wf(1,2), of x y] by (auto simp: points_def)
  then have P: "(\<lambda>x y. points (st a) x y \<and> \<not> points (st b) x y) = points (st a)" by blast
  show ?thesis unfolding P REGION_SubtractRegion_def if_P [OF True] by (rule computes_copy [OF wf(1,3)])
next
  case False
  obtain ok st' where run: "REGION_RegionOp mem REGION_SubtractO (Some REGION_SubtractNonO1) None d a b st = (ok, st')"
    by fastforce
  have ne: "wr_rects (st a) \<noteq> []" "wr_rects (st b) \<noteq> []" using False by auto
  show ?thesis unfolding REGION_SubtractRegion_def if_not_P [OF False] run
    using diff.RegionOp_fails [of mem d a b st st'] run diff.RegionOp_store [OF wf(1,2) ne, of mem d st']
    by (intro computes_set_extents) (cases ok; auto)+
qed

lemma tight_rect:
  assumes "tight e (is_in_rect q)" "rect_ok q"
  shows "is_in_rect e = is_in_rect q"
proof -
  have "is_in_rect q (r_left q) (r_top q)" "is_in_rect q (r_right q - 1) (r_bottom q - 1)"
    using assms(2) by (auto simp: is_in_rect_def rect_ok_def)
  then have "is_in_rect e (r_left q) (r_top q)" "is_in_rect e (r_right q - 1) (r_bottom q - 1)"
    using assms(1) unfolding tight_def by blast+
  moreover have "r_left q \<le> r_left e" "r_right e \<le> r_right q" "r_top q \<le> r_top e" "r_bottom e \<le> r_bottom q"
    using assms(1) unfolding tight_def is_in_rect_def by fastforce+
  ultimately show ?thesis by (intro ext) (auto simp: is_in_rect_def)
qed

lemma single_extents:
  assumes "wf_region s reg" "numRects reg = 1"
  shows "points reg = is_in_rect (wr_extents reg)"
proof -
  obtain q where q: "wr_rects reg = [q]" using assms(2) by (auto simp: length_Suc_conv)
  then have "points reg = is_in_rect q" by (intro ext) (simp add: points_def covers_Cons)
  moreover have "rect_ok q" using wf_banded [OF assms(1)] q by (simp add: banded_Cons)
  ultimately show ?thesis using wf_tight [OF assms(1)] q tight_rect by simp
qed

lemma subsumes_points:
  assumes "wf_region s r1" "wf_region s' r2" "numRects r1 = 1" "subsumes (wr_extents r1) (wr_extents r2)"
    "points r2 x y"
  shows "points r1 x y"
  using wf_inside [OF assms(2,5)] assms(4) unfolding single_extents [OF assms(1,3)]
  by (auto simp: is_in_rect_def subsumes_def)

lemma computes_union:
  assumes wf: "wf_region s (st a)" "wf_region s (st b)" "wf_region s (st d)"
  shows "computes s {} st d (\<lambda>x y. points (st a) x y \<or> points (st b) x y) (REGION_UnionRegion mem d a b st)"
proof -
  let ?P = "\<lambda>x y. points (st a) x y \<or> points (st b) x y"
  consider (b) "a = b \<or> numRects (st a) = 0
      \<or> numRects (st b) \<noteq> 0 \<and> \<not> (numRects (st a) = 1 \<and> subsumes (wr_extents (st a)) (wr_extents (st b)))
        \<and> numRects (st b) = 1 \<and> subsumes (wr_extents (st b)) (wr_extents (st a))"
    | (a) "\<not> (a = b \<or> numRects (st a) = 0)" "numRects (st b) = 0
        \<or> (numRects (st a) = 1 \<and> subsumes (wr_extents (st a)) (wr_extents (st b)))"
    | (op) "a \<noteq> b" "numRects (st a) \<noteq> 0" "numRects (st b) \<noteq> 0"
        "\<not> (numRects (st a) = 1 \<and> subsumes (wr_extents (st a)) (wr_extents (st b)))"
        "\<not> (numRects (st b) = 1 \<and> subsumes (wr_extents (st b)) (wr_extents (st a)))" by blast
  then show ?thesis
  proof cases
    case b
    then have "?P = points (st b)" using subsumes_points [OF wf(2,1)] by (intro ext) auto
    moreover have "REGION_UnionRegion mem d a b st = copy_unless_same mem d b st"
      using b by (auto simp: REGION_UnionRegion_def)
    ultimately show ?thesis using computes_copy_unless [OF wf(2,3)] by simp
  next
    case a
    then have "?P = points (st a)" using subsumes_points [OF wf(1,2)] by (intro ext) auto
    moreover have "REGION_UnionRegion mem d a b st = copy_unless_same mem d a st"
      using a unfolding REGION_UnionRegion_def by (simp only: if_False if_True simp_thms split: if_split) blast
    ultimately show ?thesis using computes_copy_unless [OF wf(1,3)] by simp
  next
    case op
    obtain ok st' where run: "REGION_RegionOp mem REGION_UnionO (Some REGION_UnionNonO) (Some REGION_UnionNonO) d a b st = (ok, st')"
      by fastforce
    have union: "REGION_UnionRegion mem d a b st = seq_op (ok, st')
        (\<lambda>st'. (True, st'(d := (st' d)\<lparr>wr_extents := join_extents (wr_extents (st' a)) (wr_extents (st' b))\<rparr>)))"
      using op unfolding REGION_UnionRegion_def run by (simp only: simp_thms if_False)
    show ?thesis
    proof (cases ok)
      case False
      then show ?thesis using uni.RegionOp_fails [of mem d a b st st'] run by (simp add: union seq_op_def)
    next
      case True
      have ne: "wr_rects (st a) \<noteq> []" "wr_rects (st b) \<noteq> []" using op by auto
      note res = uni.RegionOp_store [OF wf(1,2) ne run [unfolded eqTrueI [OF True]]]
      have ext: "wr_extents (st' p) = wr_extents (st p)" for p using res(1,2) by (cases "p = d") auto
      have tight: "tight (join_extents (wr_extents (st a)) (wr_extents (st b))) (points (st' d))"
        unfolding res(5) by (rule tight_join [OF wf_tight [OF wf(1) ne(1)] wf_tight [OF wf(2) ne(2)]])
      have "points (st a) (r_left (hd (wr_rects (st a)))) (r_top (hd (wr_rects (st a))))"
        unfolding points_def by (rule covers_nonempty [OF wf_banded [OF wf(1)] ne(1)])
      then have "wr_rects (st' d) \<noteq> []" using res(5) points_Nil [of "st' d"] by meson
      then have "wf_region s ((st' d)\<lparr>wr_extents := join_extents (wr_extents (st a)) (wr_extents (st b))\<rparr>)"
        using res(3,4) tight by (simp add: wf_region_def cap_ok_def)
      then show ?thesis using res(1,5) True by (simp add: union seq_op_def computes_True ext)
    qed
  qed
qed

section \<open>Exclusive or, adding a rectangle\<close>

lemma init_region_wf: "init_region mem n = Some r \<Longrightarrow> wf_region s r"
  by (auto simp: init_region_def Let_def empty_region_def wf_region_def cap_ok_def split: if_splits)

lemma computes_init: "computes s {} st t (\<lambda>x y. False) (ret_op t st (init_region mem n))"
  using init_region_wf [of mem n _ s]
  by (auto simp: ret_op_def computes_True init_region_def Let_def empty_region_def split: option.splits if_splits)

text \<open>Sequencing: a step that writes only a local \<open>t\<close>, then the rest.\<close>

lemma computes_seq:
  assumes r: "computes s {} st t Q r" "t \<in> T"
    and f: "\<And>st1. \<lbrakk>\<forall>p. p \<noteq> t \<longrightarrow> st1 p = st p; wf_region s (st1 t); points (st1 t) = Q\<rbrakk>
      \<Longrightarrow> computes s T st1 d P (f st1)"
  shows "computes s T st d P (seq_op r f)"
proof (cases r)
  case (Pair ok st1)
  show ?thesis
  proof (cases ok)
    case True
    have same: "\<forall>p. p \<noteq> t \<longrightarrow> st1 p = st p" and t: "wf_region s (st1 t)" "points (st1 t) = Q"
      using r(1) by (auto simp: Pair True computes_True)
    have "computes s T st1 d P (f st1)" by (rule f [OF same t])
    then show ?thesis using same r(2) by (auto simp: seq_op_def Pair True computes_def)
  next
    case False
    then show ?thesis using r(1) by (simp add: seq_op_def Pair)
  qed
qed

lemma computes_weaken: "computes s {} st d P res \<Longrightarrow> computes s T st d P res"
  by (auto simp: computes_def)

lemma computes_xor:
  assumes wf: "wf_region s (st (Obj a))" "wf_region s (st (Obj b))" "wf_region s (st (Obj d))"
  shows "computes s {Tmp 0, Tmp 1} st (Obj d) (\<lambda>x y. points (st (Obj a)) x y \<noteq> points (st (Obj b)) x y)
    (REGION_XorRegion mem (Obj d) (Obj a) (Obj b) st)"
  unfolding REGION_XorRegion_def
proof (rule computes_seq [OF computes_init], simp)
  fix st1 assume 1: "\<forall>p. p \<noteq> Tmp 0 \<longrightarrow> st1 p = st p" "wf_region s (st1 (Tmp 0))"
  show "computes s {Tmp 0, Tmp 1} st1 (Obj d) (\<lambda>x y. points (st (Obj a)) x y \<noteq> points (st (Obj b)) x y)
    (seq_op (ret_op (Tmp 1) st1 (init_region mem (numRects (st1 (Obj b)) + 1)))
       (\<lambda>st. seq_op (REGION_SubtractRegion mem (Tmp 0) (Obj a) (Obj b) st)
       (\<lambda>st. seq_op (REGION_SubtractRegion mem (Tmp 1) (Obj b) (Obj a) st)
       (REGION_UnionRegion mem (Obj d) (Tmp 0) (Tmp 1)))))" (is "computes _ _ _ _ ?P _")
  proof (rule computes_seq [OF computes_init], simp)
    fix st2 assume 2: "\<forall>p. p \<noteq> Tmp 1 \<longrightarrow> st2 p = st1 p" "wf_region s (st2 (Tmp 1))"
    have st2: "st2 (Obj n) = st (Obj n)" for n using 1 2 by simp
    show "computes s {Tmp 0, Tmp 1} st2 (Obj d) ?P
      (seq_op (REGION_SubtractRegion mem (Tmp 0) (Obj a) (Obj b) st2)
       (\<lambda>st. seq_op (REGION_SubtractRegion mem (Tmp 1) (Obj b) (Obj a) st)
       (REGION_UnionRegion mem (Obj d) (Tmp 0) (Tmp 1))))"
    proof (rule computes_seq [OF computes_subtract [where s = s]], goal_cases)
      case (5 st3)
      show ?case
      proof (rule computes_seq [OF computes_subtract [where s = s]], goal_cases)
        case (5 st4)
        have "?P = (\<lambda>x y. points (st4 (Tmp 0)) x y \<or> points (st4 (Tmp 1)) x y)"
          using 5 \<open>\<forall>p. p \<noteq> Tmp 0 \<longrightarrow> st3 p = st2 p\<close> \<open>points (st3 (Tmp 0)) = _\<close> st2 by (intro ext) auto
        moreover have "wf_region s (st4 (Tmp 0))" "wf_region s (st4 (Tmp 1))" "wf_region s (st4 (Obj d))"
          using 5 \<open>\<forall>p. p \<noteq> Tmp 0 \<longrightarrow> st3 p = st2 p\<close> \<open>wf_region s (st3 (Tmp 0))\<close> wf st2 by auto
        ultimately show ?case using computes_weaken [OF computes_union] by simp
      qed (use 5 2 wf st2 in auto)
    qed (use 1 2 wf st2 in auto)
  qed
qed

end
