(* ===== verification/Region_Moves.thy ===== *)
theory Region_Moves
  imports Region_Ops
begin

text \<open>
  Adding a rectangle, moving, mirroring and framing region objects. Where the code adds
  \<^verbatim>\<open>INT\<close>s, the theorems assume that the moved coordinates still fit in 32 bits and show that
  the wrap-around of the model is then invisible.
\<close>

section \<open>Adding a rectangle\<close>

lemma rect_region_wf: "rect_ok q \<Longrightarrow> wf_region s (rect_region q)"
proof -
  assume q: "rect_ok q"
  have "coalesced [q]" using q by (auto simp: coalesced_def spans_at_def xspans_def rect_ok_def)
  then show ?thesis
    using q by (auto simp: wf_region_def rect_region_def cap_ok_def RGN_DEFAULT_RECTS_def good_def banded_Cons
      gapped_Cons tight_def points_def covers_Cons is_in_rect_def rect_ok_def)
qed

lemma points_rect_region [simp]: "points (rect_region q) = is_in_rect q"
  by (intro ext) (simp add: points_def rect_region_def covers_Cons)

lemma computes_union_rect:
  assumes "wf_region s (st (Obj p))" "rect_ok q"
  shows "computes s {Tmp 0} st (Obj p) (\<lambda>x y. points (st (Obj p)) x y \<or> is_in_rect q x y)
    (REGION_UnionRectWithRegion mem q (Obj p) st)"
proof -
  let ?st = "st(Tmp 0 := rect_region q)"
  have "computes s {} ?st (Obj p) (\<lambda>x y. points (?st (Obj p)) x y \<or> points (?st (Tmp 0)) x y)
    (REGION_UnionRegion mem (Obj p) (Obj p) (Tmp 0) ?st)"
    by (rule computes_union) (use assms rect_region_wf in auto)
  then show ?thesis by (auto simp: computes_def REGION_UnionRectWithRegion_def)
qed

section \<open>Sides of the extents\<close>

lemma image_antisym: "\<exists>q\<in>S. f q \<le> v \<and> v \<le> f q \<Longrightarrow> (v :: int) \<in> f ` S"
  by force

lemma tight_sides:
  assumes "banded rs" "tight e (covers rs)"
  shows "r_left e \<in> r_left ` set rs" "r_right e \<in> r_right ` set rs"
    "r_top e \<in> r_top ` set rs" "r_bottom e \<in> r_bottom ` set rs"
proof -
  have corner: "covers rs (r_left q) (r_top q)" "covers rs (r_right q - 1) (r_bottom q - 1)" if "q \<in> set rs" for q
    using that banded_ok [OF assms(1) that] by (auto simp: covers_def is_in_rect_def rect_ok_def intro!: bexI [of _ q])
  have box: "r_left e \<le> r_left q \<and> r_top e \<le> r_top q \<and> r_right q \<le> r_right e \<and> r_bottom q \<le> r_bottom e"
    if "q \<in> set rs" for q
    using corner [OF that] assms(2) unfolding tight_def is_in_rect_def by fastforce
  from assms(2) obtain y1 y2 x1 x2 where t: "covers rs (r_left e) y1" "covers rs (r_right e - 1) y2"
    "covers rs x1 (r_top e)" "covers rs x2 (r_bottom e - 1)" unfolding tight_def by blast
  have side: "\<exists>q\<in>set rs. r_left q \<le> x \<and> x + 1 \<le> r_right q \<and> r_top q \<le> y \<and> y + 1 \<le> r_bottom q"
    if "covers rs x y" for x y using that by (fastforce simp: covers_def is_in_rect_def)
  show "r_left e \<in> r_left ` set rs" "r_right e \<in> r_right ` set rs"
    "r_top e \<in> r_top ` set rs" "r_bottom e \<in> r_bottom ` set rs"
    by (rule image_antisym; use side [OF t(1)] side [OF t(2), simplified] side [OF t(3)] side [OF t(4), simplified] box in blast)+
qed

section \<open>Offsetting\<close>

definition shift_rect :: "int \<Rightarrow> int \<Rightarrow> rect \<Rightarrow> rect" where
  "shift_rect x y q = mk_rect (r_left q + x) (r_top q + y) (r_right q + x) (r_bottom q + y)"

definition x_fits :: "int \<Rightarrow> rect \<Rightarrow> bool" where
  "x_fits x q \<longleftrightarrow> in_int32 (r_left q + x) \<and> in_int32 (r_right q + x)"

definition y_fits :: "int \<Rightarrow> rect \<Rightarrow> bool" where
  "y_fits y q \<longleftrightarrow> in_int32 (r_top q + y) \<and> in_int32 (r_bottom q + y)"

definition shift_fits :: "int \<Rightarrow> int \<Rightarrow> wregion \<Rightarrow> bool" where
  "shift_fits x y reg \<longleftrightarrow> (\<forall>q\<in>set (wr_rects reg). x_fits x q \<and> y_fits y q)"

lemma shift_rect_sel [simp]:
  "r_left (shift_rect x y q) = r_left q + x" "r_right (shift_rect x y q) = r_right q + x"
  "r_top (shift_rect x y q) = r_top q + y" "r_bottom (shift_rect x y q) = r_bottom q + y"
  by (simp_all add: shift_rect_def)

lemma shift_rect_0 [simp]: "shift_rect 0 0 q = q"
  by (simp add: shift_rect_def)

lemma offset_rect_shift: "x_fits x q \<Longrightarrow> y_fits y q \<Longrightarrow> offset_rect x y q = shift_rect x y q"
  by (simp add: offset_rect_def shift_rect_def x_fits_def y_fits_def)

lemma covers_shift: "covers (map (shift_rect x y) rs) u v = covers rs (u - x) (v - y)"
  by (induction rs) (auto simp: covers_Cons is_in_rect_def)

lemma spans_at_shift:
  "spans_at (map (shift_rect x y) rs) v = map (\<lambda>(l, r). (l + x, r + x)) (spans_at rs (v - y))"
  by (induction rs) (auto simp: spans_at_Cons)

lemma good_shift: "good s rs \<Longrightarrow> good s (map (shift_rect x y) rs)"
proof -
  assume g: "good s rs"
  have "inj (\<lambda>(l, r). (l + x, r + x :: int))" by (auto simp: inj_def)
  then have inj: "map (\<lambda>(l, r). (l + x, r + x :: int)) as = map (\<lambda>(l, r). (l + x, r + x)) bs \<longleftrightarrow> as = bs" for as bs
    by (simp add: inj_map_eq_map)
  have "banded (map (shift_rect x y) rs)"
    using g by (auto simp: good_def banded_def rect_ok_def rect_before_def [abs_def] sorted_wrt_map)
  moreover have "coalesced rs \<Longrightarrow> coalesced (map (shift_rect x y) rs)"
    by (auto simp: coalesced_def spans_at_shift inj algebra_simps)
  moreover have "gapped rs \<Longrightarrow> gapped (map (shift_rect x y) rs)"
    by (auto simp: gapped_def sorted_wrt_map)
  ultimately show ?thesis using g by (auto simp: good_def)
qed

lemma tight_shift: "tight e P \<Longrightarrow> tight (shift_rect x y e) (\<lambda>u v. P (u - x) (v - y))"
  unfolding tight_def is_in_rect_def
proof (elim conjE, intro conjI)
  assume "\<exists>x. P x (r_top e)" "\<exists>y. P (r_left e) y"
  then show "\<exists>u. P (u - x) (r_top (shift_rect x y e) - y)" "\<exists>v. P (r_left (shift_rect x y e) - x) (v - y)"
    by (simp_all, (metis add_diff_cancel_right')+)
next
  assume "\<exists>x. P x (r_bottom e - 1)" "\<exists>y. P (r_right e - 1) y"
  then show "\<exists>u. P (u - x) (r_bottom (shift_rect x y e) - 1 - y)"
    "\<exists>v. P (r_right (shift_rect x y e) - 1 - x) (v - y)"
    by (simp_all add: algebra_simps, (metis add_diff_cancel_left')+)
qed fastforce

lemma offset_wregion_shift:
  assumes "wf_region s reg" "shift_fits x y reg"
  shows "wf_region s (offset_wregion x y reg) \<and> points (offset_wregion x y reg) = (\<lambda>u v. points reg (u - x) (v - y))"
proof (cases "(x \<noteq> 0 \<or> y \<noteq> 0) \<and> numRects reg \<noteq> 0")
  case False
  then show ?thesis using assms(1) by (auto simp: offset_wregion_def fun_eq_iff points_def)
next
  case True
  then have ne: "wr_rects reg \<noteq> []" by simp
  note t = wf_tight [OF assms(1) ne]
  have rects: "map (offset_rect x y) (wr_rects reg) = map (shift_rect x y) (wr_rects reg)"
    using assms(2) offset_rect_shift by (simp add: shift_fits_def)
  have "x_fits x (wr_extents reg)" "y_fits y (wr_extents reg)"
    using tight_sides [OF wf_banded [OF assms(1)] t [unfolded points_def]] assms(2)
    by (auto simp: shift_fits_def x_fits_def y_fits_def)
  then have box: "offset_rect x y (wr_extents reg) = shift_rect x y (wr_extents reg)" by (rule offset_rect_shift)
  have reg: "offset_wregion x y reg = reg\<lparr>wr_rects := map (shift_rect x y) (wr_rects reg),
      wr_extents := shift_rect x y (wr_extents reg)\<rparr>"
    using True by (simp add: offset_wregion_def rects box)
  have pts: "points (offset_wregion x y reg) = (\<lambda>u v. points reg (u - x) (v - y))"
    by (intro ext) (simp add: reg points_def covers_shift)
  have "wf_region s (offset_wregion x y reg)"
    using assms(1) ne tight_shift [OF t, of x y] good_shift [OF wf_good [OF assms(1)]] wf_cap [OF assms(1)]
    unfolding wf_region_def pts by (simp add: reg cap_ok_def)
  with pts show ?thesis by simp
qed

lemma computes_offset:
  assumes wf: "wf_region s (st a)" "wf_region s (st d)" and fits: "shift_fits x y (st a)"
  shows "computes s {} st d (\<lambda>u v. points (st a) (u - x) (v - y)) (REGION_OffsetRegion mem d a x y st)"
proof -
  obtain ok st' where c: "(if d \<noteq> a then REGION_CopyRegion mem d a st else (True, st)) = (ok, st')" by fastforce
  have "computes s {} st d (points (st a)) (ok, st')"
    using computes_copy_unless [OF wf, of mem] c by (simp add: copy_unless_same_def)
  moreover have "ok \<Longrightarrow> wr_rects (st' d) = wr_rects (st a)"
    using c by (auto simp: REGION_CopyRegion_def ret_op_def split: option.splits if_splits)
  ultimately show ?thesis
    using offset_wregion_shift [of s "st' d" x y] fits unfolding REGION_OffsetRegion_def c
    by (cases ok) (auto simp: seq_op_def computes_True shift_fits_def)
qed

section \<open>Mirroring\<close>

definition flip_rect :: "int \<Rightarrow> rect \<Rightarrow> rect" where
  "flip_rect w q = mk_rect (w - r_right q) (r_top q) (w - r_left q) (r_bottom q)"

definition mirror_fits :: "int \<Rightarrow> wregion \<Rightarrow> bool" where
  "mirror_fits w reg \<longleftrightarrow> (\<forall>q\<in>set (wr_rects reg). in_int32 (w - r_right q) \<and> in_int32 (w - r_left q))"

lemma flip_rect_sel [simp]:
  "r_left (flip_rect w q) = w - r_right q" "r_right (flip_rect w q) = w - r_left q"
  "r_top (flip_rect w q) = r_top q" "r_bottom (flip_rect w q) = r_bottom q"
  by (simp_all add: flip_rect_def)

lemma mirror_rect_flip: "in_int32 (w - r_right q) \<Longrightarrow> in_int32 (w - r_left q) \<Longrightarrow> mirror_rect w q = flip_rect w q"
  by (simp add: mirror_rect_def flip_rect_def)

function flip_bands :: "int \<Rightarrow> rect list \<Rightarrow> rect list" where
  "flip_bands w rs = (if rs = [] then [] else map (flip_rect w) (rev (cur_band rs)) @ flip_bands w (next_band rs))"
  by pat_completeness auto
termination
  by (relation "measure (\<lambda>(w, rs). length rs)") (auto simp: next_band_shorter)

declare flip_bands.simps [simp del]

lemma flip_bands_Nil [simp]: "flip_bands w [] = []"
  by (simp add: flip_bands.simps)

lemma mirror_bands_flip:
  "\<forall>q\<in>set rs. in_int32 (w - r_right q) \<and> in_int32 (w - r_left q) \<Longrightarrow> mirror_bands w rs = flip_bands w rs"
proof (induction w rs rule: mirror_bands.induct)
  case (1 w rs)
  show ?case
  proof (cases "rs = []")
    case False
    have "mirror_bands w (next_band rs) = flip_bands w (next_band rs)"
      using 1 False set_cur_next [of rs] by blast
    moreover have "map (mirror_rect w) (rev (cur_band rs)) = map (flip_rect w) (rev (cur_band rs))"
      using 1(2) set_cur_next [of rs] by (simp add: mirror_rect_flip)
    ultimately show ?thesis using False by (simp add: mirror_bands.simps [of w rs] flip_bands.simps [of w rs])
  qed (simp add: mirror_bands.simps flip_bands.simps)
qed

lemma flip_band: "is_band t b rs \<Longrightarrow> is_band t b (map (flip_rect w) (rev rs))"
  by (induction rs) (auto simp: is_band_Cons is_band_append rect_ok_def)

lemma flip_gapped: "is_band t b rs \<Longrightarrow> gapped rs \<Longrightarrow> gapped (map (flip_rect w) (rev rs))"
  by (induction rs) (auto simp: is_band_Cons gapped_Cons gapped_append dest: is_band_ok)

lemma set_flip_bands: "set (flip_bands w rs) = flip_rect w ` set rs"
proof (induction w rs rule: flip_bands.induct)
  case (1 w rs)
  then show ?case using set_cur_next [of rs] by (cases "rs = []") (auto simp: flip_bands.simps [of w rs])
qed

lemma covers_flip: "covers (flip_bands w rs) x y = covers rs (w - 1 - x) y"
proof -
  have "is_in_rect (flip_rect w q) x y = is_in_rect q (w - 1 - x) y" for q by (auto simp: is_in_rect_def)
  then show ?thesis by (simp add: covers_def set_flip_bands)
qed

lemma flip_banded: "banded rs \<Longrightarrow> banded (flip_bands w rs) \<and> (gapped rs \<longrightarrow> gapped (flip_bands w rs))"
proof (induction w rs rule: flip_bands.induct)
  case (1 w rs)
  show ?case
  proof (cases "rs = []")
    case False
    let ?C = "map (flip_rect w) (rev (cur_band rs))" and ?N = "flip_bands w (next_band rs)"
    have band: "is_band (r_top (hd rs)) (r_bottom (hd rs)) ?C"
      by (rule flip_band [OF banded_cur_band [OF 1(2) False]])
    have N: "banded ?N" "gapped rs \<longrightarrow> gapped ?N"
      using 1 False banded_next_band gapped_cur_next by blast+
    have above: "\<forall>q\<in>set ?C. r_bottom q \<le> r_bottom (hd rs)" "\<forall>q\<in>set ?N. r_bottom (hd rs) \<le> r_top q"
      using is_band_ok [OF band] next_band_below [OF 1(2) False] by (auto simp: set_flip_bands)
    have "gapped rs \<longrightarrow> gapped ?C"
      using flip_gapped [OF banded_cur_band [OF 1(2) False]] gapped_cur_next by blast
    then show ?thesis
      using banded_above [OF is_band_banded [OF band] N(1) above] N(2) gapped_above [OF is_band_banded [OF band] above]
      by (simp add: flip_bands.simps [of w rs] False)
  qed (simp add: flip_bands.simps)
qed

lemma spans_at_flip:
  "banded rs \<Longrightarrow> spans_at (flip_bands w rs) y = map (\<lambda>(l, r). (w - r, w - l)) (rev (spans_at rs y))"
proof (induction w rs rule: flip_bands.induct)
  case (1 w rs)
  show ?case
  proof (cases "rs = []")
    case False
    note band = banded_cur_band [OF 1(2) False]
    have IH: "spans_at (flip_bands w (next_band rs)) y = map (\<lambda>(l, r). (w - r, w - l)) (rev (spans_at (next_band rs) y))"
      by (rule 1(1) [OF False banded_next_band [OF 1(2)]])
    have cur: "spans_at (map (flip_rect w) (rev (cur_band rs))) y = map (\<lambda>(l, r). (w - r, w - l)) (rev (spans_at (cur_band rs) y))"
      unfolding spans_at_band [OF band] spans_at_band [OF flip_band [OF band]] by (simp add: xspans_def rev_map)
    have one: "spans_at (cur_band rs) y = [] \<or> spans_at (next_band rs) y = []"
      using spans_at_band [OF band, of y] spans_at_next_band [OF 1(2) False, of y] by auto
    have rs: "spans_at rs y = spans_at (cur_band rs) y @ spans_at (next_band rs) y"
      by (metis cur_next_band spans_at_append)
    show ?thesis using one by (auto simp: flip_bands.simps [of w rs] False IH cur rs)
  qed (simp add: flip_bands.simps)
qed

lemma good_flip:
  assumes "good s rs"
  shows "good s (flip_bands w rs)"
proof -
  have b: "banded rs" using assms by (simp add: good_def)
  have "inj (\<lambda>(l, r). (w - r, w - l :: int))" by (auto simp: inj_def)
  then have inj: "map (\<lambda>(l, r). (w - r, w - l :: int)) as = map (\<lambda>(l, r). (w - r, w - l)) bs \<longleftrightarrow> as = bs" for as bs
    by (simp add: inj_map_eq_map)
  have "coalesced rs \<Longrightarrow> coalesced (flip_bands w rs)"
    by (simp add: coalesced_def set_flip_bands spans_at_flip [OF b] inj)
  then show ?thesis using assms flip_banded [OF b] by (auto simp: good_def)
qed

lemma ex_flip: "(\<exists>x. P (w - 1 - x)) = (\<exists>x. P (x :: int))"
proof
  assume "\<exists>x. P x"
  then obtain x where "P (w - 1 - (w - 1 - x))" by auto
  then show "\<exists>x. P (w - 1 - x)" by blast
qed blast

lemma tight_flip:
  assumes "tight e P"
  shows "tight (flip_rect w e) (\<lambda>u v. P (w - 1 - u) v)"
proof -
  have "P u v \<Longrightarrow> u < r_right e \<and> r_left e \<le> u \<and> v < r_bottom e \<and> r_top e \<le> v" for u v
    using assms by (auto simp: tight_def is_in_rect_def)
  from this [of "w - 1 - u" v for u v] show ?thesis
    using assms ex_flip [of "\<lambda>x. P x (r_top e)" w] ex_flip [of "\<lambda>x. P x (r_bottom e - 1)" w]
    unfolding tight_def is_in_rect_def by (fastforce simp: algebra_simps)
qed

text \<open>Any region with the mirrored rectangles and extents of a well-formed one.\<close>

lemma mirrored_wf:
  assumes wf: "wf_region s reg" and fits: "mirror_fits w reg"
    and m: "wr_rects m = mirror_bands w (wr_rects reg)" "wr_extents m = mirror_rect w (wr_extents reg)"
    and cap: "cap_ok m"
  shows "wf_region s m \<and> points m = (\<lambda>x y. points reg (w - 1 - x) y)"
proof -
  have rects: "wr_rects m = flip_bands w (wr_rects reg)"
    unfolding m(1) by (rule mirror_bands_flip) (use fits in \<open>simp add: mirror_fits_def\<close>)
  then have pts: "points m = (\<lambda>x y. points reg (w - 1 - x) y)" by (intro HOL.ext) (simp add: points_def covers_flip)
  have g: "good s (wr_rects m)" unfolding rects by (rule good_flip [OF wf_good [OF wf]])
  show ?thesis
  proof (cases "wr_rects reg = []")
    case True
    then have "wr_rects m = []" using rects by simp
    then show ?thesis using wf cap g pts True by (simp add: wf_region_def m(2) mirror_rect_def)
  next
    case False
    note t = wf_tight [OF wf False]
    have "wr_extents m = flip_rect w (wr_extents reg)"
      unfolding m(2) using tight_sides(1,2) [OF wf_banded [OF wf] t [unfolded points_def]] fits
      by (intro mirror_rect_flip) (auto simp: mirror_fits_def)
    then have "tight (wr_extents m) (points m)" unfolding pts using tight_flip [OF t] by simp
    moreover have "wr_rects m \<noteq> []" using False set_flip_bands [of w "wr_rects reg"] rects by auto
    ultimately show ?thesis using cap g pts by (simp add: wf_region_def)
  qed
qed

lemma length_mirror_bands: "length (mirror_bands w rs) = length rs"
proof (induction w rs rule: mirror_bands.induct)
  case (1 w rs)
  have "length (cur_band rs) + length (next_band rs) = length rs" by (metis cur_next_band length_append)
  then show ?case using 1 by (cases "rs = []") (auto simp: mirror_bands.simps [of w rs] mirror_bands.simps [of w "[]"])
qed

lemma computes_mirror:
  assumes wf: "wf_region s (st a)" "wf_region s (st d)" and fits: "mirror_fits w (st a)"
  shows "computes s {} st d (\<lambda>x y. points (st a) (w - 1 - x) y) (REGION_MirrorRegion mem d a w st)"
proof -
  have main: "computes s {} st d (\<lambda>x y. points (st a) (w - 1 - x) y) (True, st(d := m))"
    if "wr_rects m = mirror_bands w (wr_rects (st a))" "wr_extents m = mirror_rect w (wr_extents (st a))" "cap_ok m" for m
    using mirrored_wf [OF wf(1) fits that] by (simp add: computes_True)
  show ?thesis
  proof (cases "d = a")
    case False
    have "cap_ok (g\<lparr>wr_rects := mirror_bands w (wr_rects (st a)), wr_extents := e\<rparr>)"
      if "grow_region mem (st d) (numRects (st a)) = Some g" for g e
      using that wf_cap [OF wf(2)] by (auto simp: cap_ok_def grow_region_def length_mirror_bands split: if_splits)
    then show ?thesis using False main by (auto simp: REGION_MirrorRegion_def Let_def ret_op_def split: option.splits)
  next
    case True
    have "cap_ok ((move_rects (st d) (g\<lparr>wr_rects := mirror_bands w (wr_rects (st a))\<rparr>))\<lparr>wr_extents := e\<rparr>)"
      if "init_region mem (numRects (st a)) = Some g" for g e
      using that by (auto simp: cap_ok_def init_region_def empty_region_def move_rects_def Let_def length_mirror_bands
          split: if_splits)
    then show ?thesis using True main
      by (auto simp: REGION_MirrorRegion_def Let_def ret_op_def move_rects_def split: option.splits)
  qed
qed

section \<open>Framing\<close>

lemma seq_op_True: "seq_op r f = (True, st') \<longleftrightarrow> (\<exists>st1. r = (True, st1) \<and> f st1 = (True, st'))"
  by (cases r) (auto simp: seq_op_def)

text \<open>A step that has succeeded, as facts on the store after it.\<close>

lemma computes_ok:
  "computes s T st d P r \<Longrightarrow> r = (True, st') \<Longrightarrow>
   (\<forall>p. p \<notin> T \<longrightarrow> p \<noteq> d \<longrightarrow> st' p = st p) \<and> wf_region s (st' d) \<and> points (st' d) = P"
  by (simp add: computes_True)

text \<open>One round of \<open>REGION_FrameRgn\<close>: intersect the destination with the moved source.\<close>

definition frame_step :: "mem \<Rightarrow> rptr \<Rightarrow> rptr \<Rightarrow> int \<Rightarrow> int \<Rightarrow> (store \<Rightarrow> outcome) \<Rightarrow> store \<Rightarrow> outcome" where
  "frame_step mem d a x y f st =
     seq_op (REGION_OffsetRegion mem (Tmp 0) a x y st) (\<lambda>st. seq_op (REGION_IntersectRegion mem d d (Tmp 0) st) f)"

lemma FrameRgn_body_steps:
  "FrameRgn_body mem d a x y st =
     seq_op (ret_op (Tmp 0) st (init_region mem (numRects (st a))))
       (\<lambda>st. seq_op (REGION_OffsetRegion mem d a (wrap32 (- x)) 0 st)
       (frame_step mem d a x 0 (frame_step mem d a 0 (wrap32 (- y)) (frame_step mem d a 0 y
         (REGION_SubtractRegion mem d a d)))))"
  by (simp add: FrameRgn_body_def frame_step_def [abs_def])

definition frame_inv :: "bool \<Rightarrow> store \<Rightarrow> rptr \<Rightarrow> (int \<Rightarrow> int \<Rightarrow> bool) \<Rightarrow> store \<Rightarrow> bool" where
  "frame_inv s st d S st1 \<longleftrightarrow> (\<forall>p. p \<noteq> Tmp 0 \<longrightarrow> p \<noteq> d \<longrightarrow> st1 p = st p) \<and> wf_region s (st1 d)
     \<and> wf_region s (st1 (Tmp 0)) \<and> points (st1 d) = S"

lemma frame_step_ok:
  assumes run: "frame_step mem (Obj d) (Obj a) x y f st1 = (True, st')" and "a \<noteq> d"
    and inv: "frame_inv s st (Obj d) S st1"
    and wf: "wf_region s (st (Obj a))" and fits: "shift_fits x y (st (Obj a))"
  shows "\<exists>st2. f st2 = (True, st')
    \<and> frame_inv s st (Obj d) (\<lambda>u v. S u v \<and> points (st (Obj a)) (u - x) (v - y)) st2"
proof -
  from run obtain st0 st2 where o: "REGION_OffsetRegion mem (Tmp 0) (Obj a) x y st1 = (True, st0)"
    and i: "REGION_IntersectRegion mem (Obj d) (Obj d) (Tmp 0) st0 = (True, st2)" and f: "f st2 = (True, st')"
    by (auto simp: frame_step_def seq_op_True)
  have a: "st1 (Obj a) = st (Obj a)" using inv assms(2) by (simp add: frame_inv_def)
  have 0: "\<forall>p. p \<noteq> Tmp 0 \<longrightarrow> st0 p = st1 p" "wf_region s (st0 (Tmp 0))"
    "points (st0 (Tmp 0)) = (\<lambda>u v. points (st (Obj a)) (u - x) (v - y))"
    using computes_ok [OF computes_offset [of s st1 "Obj a" "Tmp 0" x y] o] inv wf fits a by (auto simp: frame_inv_def)
  have 1: "\<forall>p. p \<noteq> Obj d \<longrightarrow> st2 p = st0 p" "wf_region s (st2 (Obj d))"
    "points (st2 (Obj d)) = (\<lambda>u v. points (st0 (Obj d)) u v \<and> points (st0 (Tmp 0)) u v)"
    using computes_ok [OF computes_intersect [of s st0 "Obj d" "Tmp 0" "Obj d"] i] 0 inv by (auto simp: frame_inv_def)
  have "frame_inv s st (Obj d) (\<lambda>u v. S u v \<and> points (st (Obj a)) (u - x) (v - y)) st2"
    using 0 1 inv by (simp add: frame_inv_def)
  with f show ?thesis by blast
qed

lemma FrameRgn_body_ok:
  assumes run: "FrameRgn_body mem (Obj d) (Obj a) x y st = (True, st')" and ne: "a \<noteq> d"
    and wf: "wf_region s (st (Obj a))" "wf_region s (st (Obj d))"
    and xy: "in_int32 (- x)" "in_int32 (- y)"
    and fits: "shift_fits (- x) 0 (st (Obj a))" "shift_fits x 0 (st (Obj a))"
      "shift_fits 0 (- y) (st (Obj a))" "shift_fits 0 y (st (Obj a))"
  shows "(\<forall>p. p \<noteq> Tmp 0 \<longrightarrow> p \<noteq> Obj d \<longrightarrow> st' p = st p) \<and> wf_region s (st' (Obj d))
    \<and> (\<forall>u v. points (st' (Obj d)) u v = (let P = points (st (Obj a)) in
       P u v \<and> \<not> (P (u + x) v \<and> P (u - x) v \<and> P u (v + y) \<and> P u (v - y))))"
proof -
  note run = run [unfolded FrameRgn_body_steps wrap32_id [OF xy(1)] wrap32_id [OF xy(2)]]
  from run obtain st0 st1 where 0: "ret_op (Tmp 0) st (init_region mem (numRects (st (Obj a)))) = (True, st0)"
    and 1: "REGION_OffsetRegion mem (Obj d) (Obj a) (- x) 0 st0 = (True, st1)"
    and r: "frame_step mem (Obj d) (Obj a) x 0 (frame_step mem (Obj d) (Obj a) 0 (- y) (frame_step mem (Obj d) (Obj a) 0 y
      (REGION_SubtractRegion mem (Obj d) (Obj a) (Obj d)))) st1 = (True, st')"
    by (auto simp: seq_op_True)
  have s0: "\<forall>p. p \<noteq> Tmp 0 \<longrightarrow> st0 p = st p" "wf_region s (st0 (Tmp 0))"
    using computes_ok [OF computes_init [of s] 0] by auto
  have i1: "frame_inv s st (Obj d) (\<lambda>u v. points (st (Obj a)) (u - - x) (v - 0)) st1"
    using computes_ok [OF computes_offset [of s st0 "Obj a" "Obj d" "- x" 0] 1] s0 wf fits by (simp add: frame_inv_def)
  note step = frame_step_ok [where s = s and st = st and a = a, OF _ ne _ wf(1)]
  from step [OF r i1 fits(2)] obtain st2 where r2: "frame_step mem (Obj d) (Obj a) 0 (- y)
      (frame_step mem (Obj d) (Obj a) 0 y (REGION_SubtractRegion mem (Obj d) (Obj a) (Obj d))) st2 = (True, st')"
    and i2: "frame_inv s st (Obj d) (\<lambda>u v. points (st (Obj a)) (u - - x) (v - 0) \<and> points (st (Obj a)) (u - x) (v - 0)) st2"
    by blast
  from step [OF r2 i2 fits(3)] obtain st3 where
    r3: "frame_step mem (Obj d) (Obj a) 0 y (REGION_SubtractRegion mem (Obj d) (Obj a) (Obj d)) st3 = (True, st')"
    and i3: "frame_inv s st (Obj d) (\<lambda>u v. (points (st (Obj a)) (u - - x) (v - 0) \<and> points (st (Obj a)) (u - x) (v - 0))
      \<and> points (st (Obj a)) (u - 0) (v - - y)) st3" by blast
  from step [OF r3 i3 fits(4)] obtain st4 where r4: "REGION_SubtractRegion mem (Obj d) (Obj a) (Obj d) st4 = (True, st')"
    and i4: "frame_inv s st (Obj d) (\<lambda>u v. ((points (st (Obj a)) (u - - x) (v - 0) \<and> points (st (Obj a)) (u - x) (v - 0))
      \<and> points (st (Obj a)) (u - 0) (v - - y)) \<and> points (st (Obj a)) (u - 0) (v - y)) st4" by blast
  have a4: "st4 (Obj a) = st (Obj a)" using i4 ne by (simp add: frame_inv_def)
  have w4: "wf_region s (st4 (Obj a))" "wf_region s (st4 (Obj d))" using i4 a4 wf by (simp_all add: frame_inv_def)
  note s5 = computes_ok [OF computes_subtract [OF w4 w4(2)] r4]
  have "points (st' (Obj d)) u v = (let P = points (st (Obj a)) in
       P u v \<and> \<not> (P (u + x) v \<and> P (u - x) v \<and> P u (v + y) \<and> P u (v - y)))" for u v
    using s5 i4 by (simp add: a4 frame_inv_def Let_def)
  then show ?thesis using s5 i4 by (simp add: frame_inv_def)
qed

end
