(* ===== verification/Region_Query.thy ===== *)
theory Region_Query
  imports Region_Moves
begin

text \<open>
  Point and rectangle tests: the binary search \<open>region_find_pt\<close> and the scan of \<open>RectInRegion\<close>
  that starts from it, and what \<open>get_region_type\<close> says about a point set.
\<close>

section \<open>The binary search\<close>

text \<open>The two tests of the loop: the rectangle lies before, or after, the point.\<close>

definition before_pt :: "int \<Rightarrow> int \<Rightarrow> rect \<Rightarrow> bool" where
  "before_pt x y q \<longleftrightarrow> r_bottom q \<le> y \<or> (r_top q \<le> y \<and> r_right q \<le> x)"

definition after_pt :: "int \<Rightarrow> int \<Rightarrow> rect \<Rightarrow> bool" where
  "after_pt x y q \<longleftrightarrow> r_top q > y \<or> (r_bottom q > y \<and> r_left q > x)"

lemma pt_trichotomy: "is_in_rect q x y \<longleftrightarrow> \<not> before_pt x y q \<and> \<not> after_pt x y q"
  by (auto simp: is_in_rect_def before_pt_def after_pt_def)

lemma before_mono:
  "rect_before p q \<Longrightarrow> rect_ok p \<Longrightarrow> rect_ok q \<Longrightarrow> before_pt x y q \<Longrightarrow> before_pt x y p"
  by (auto simp: rect_before_def before_pt_def rect_ok_def)

lemma after_mono:
  "rect_before p q \<Longrightarrow> rect_ok p \<Longrightarrow> rect_ok q \<Longrightarrow> after_pt x y p \<Longrightarrow> after_pt x y q"
  by (auto simp: rect_before_def after_pt_def rect_ok_def)

lemma before_not_after: "rect_ok q \<Longrightarrow> before_pt x y q \<Longrightarrow> \<not> after_pt x y q"
  by (auto simp: before_pt_def after_pt_def rect_ok_def)

lemma banded_nth:
  "banded rs \<Longrightarrow> i < j \<Longrightarrow> j < length rs \<Longrightarrow> rect_before (rs ! i) (rs ! j) \<and> rect_ok (rs ! i) \<and> rect_ok (rs ! j)"
  by (auto simp: banded_def sorted_wrt_iff_nth_less)

text \<open>What a search from \<open>start\<close> to \<open>end\<close> returns, given what is known outside of them.\<close>

definition find_post :: "rect list \<Rightarrow> int \<Rightarrow> int \<Rightarrow> int \<times> bool \<Rightarrow> bool" where
  "find_post rs x y r \<longleftrightarrow> 0 \<le> fst r \<and> fst r \<le> int (length rs)
     \<and> (\<forall>j < nat (fst r). before_pt x y (rs ! j))
     \<and> (if snd r then nat (fst r) < length rs \<and> is_in_rect (rs ! nat (fst r)) x y
        else \<forall>j. nat (fst r) \<le> j \<longrightarrow> j < length rs \<longrightarrow> after_pt x y (rs ! j))"

lemma find_pt_loop_post:
  "\<lbrakk>banded rs; 0 \<le> s; s \<le> e + 1; e < int (length rs); \<forall>j < nat s. before_pt x y (rs ! j);
    \<forall>j. nat (e + 1) \<le> j \<longrightarrow> j < length rs \<longrightarrow> after_pt x y (rs ! j)\<rbrakk>
   \<Longrightarrow> find_post rs x y (find_pt_loop rs x y s e)"
proof (induction rs x y s e rule: find_pt_loop.induct)
  case (1 rs x y s e)
  note b = "1.prems"(1)
  show ?case
  proof (cases "s \<le> e")
    case False
    then have "s = e + 1" using "1.prems" by simp
    then show ?thesis using "1.prems" False by (simp add: find_post_def find_pt_loop.simps)
  next
    case True
    let ?i = "(s + e) div 2"
    have i: "s \<le> ?i" "?i \<le> e" "nat ?i < length rs" "0 \<le> ?i" using True "1.prems" by auto
    have ok: "rect_ok (rs ! nat ?i)" using banded_ok [OF b] i(3) by simp
    have step: "find_pt_loop rs x y s e =
       (if before_pt x y (rs ! nat ?i) then find_pt_loop rs x y (?i + 1) e
        else if after_pt x y (rs ! nat ?i) then find_pt_loop rs x y s (?i - 1) else (?i, True))"
      using True by (simp add: find_pt_loop.simps [of rs x y s e] before_pt_def after_pt_def Let_def)
    consider "before_pt x y (rs ! nat ?i)" | "\<not> before_pt x y (rs ! nat ?i)" "after_pt x y (rs ! nat ?i)"
      | "is_in_rect (rs ! nat ?i) x y" using pt_trichotomy by blast
    then show ?thesis
    proof cases
      case 1
      have "\<forall>j < nat (?i + 1). before_pt x y (rs ! j)"
      proof (intro allI impI)
        fix j assume "j < nat (?i + 1)"
        then have "j = nat ?i \<or> j < nat ?i" using i by linarith
        then show "before_pt x y (rs ! j)" using 1 before_mono banded_nth [OF b _ i(3), of j] by blast
      qed
      then show ?thesis
        using "1.IH"(1) [OF True refl refl _ b] 1 i "1.prems" unfolding step by (simp add: before_pt_def)
    next
      case 2
      have "\<forall>j. nat ?i \<le> j \<longrightarrow> j < length rs \<longrightarrow> after_pt x y (rs ! j)"
      proof (intro allI impI)
        fix j assume "nat ?i \<le> j" "j < length rs"
        then have "j = nat ?i \<or> nat ?i < j" by linarith
        then show "after_pt x y (rs ! j)" using 2 after_mono banded_nth [OF b _ \<open>j < length rs\<close>, of "nat ?i"] by blast
      qed
      then have "find_post rs x y (find_pt_loop rs x y s (?i - 1))"
        using "1.IH"(2) [OF True refl refl _ _ b] 2 i "1.prems" by (simp add: before_pt_def after_pt_def)
      then show ?thesis using 2 unfolding step by simp
    next
      case 3
      have "\<forall>j < nat ?i. before_pt x y (rs ! j)"
      proof (intro allI impI)
        fix j assume "j < nat ?i"
        then have "rect_before (rs ! j) (rs ! nat ?i)" "rect_ok (rs ! j)" using banded_nth [OF b _ i(3)] by blast+
        then show "before_pt x y (rs ! j)" using 3 ok by (auto simp: rect_before_def before_pt_def is_in_rect_def)
      qed
      then show ?thesis using 3 i pt_trichotomy unfolding step by (simp add: find_post_def)
    qed
  qed
qed

lemma region_find_pt_post: "banded (wr_rects reg) \<Longrightarrow> find_post (wr_rects reg) x y (region_find_pt reg x y)"
  unfolding region_find_pt_def by (rule find_pt_loop_post) auto

lemma region_find_pt_hit:
  assumes "banded (wr_rects reg)"
  shows "snd (region_find_pt reg x y) \<longleftrightarrow> points reg x y"
proof -
  obtain i h where r: "region_find_pt reg x y = (i, h)" by fastforce
  note post = region_find_pt_post [OF assms, of x y, unfolded r find_post_def fst_conv snd_conv]
  show ?thesis
  proof (cases h)
    case True
    then show ?thesis using post r by (auto simp: points_def covers_def)
  next
    case False
    have "\<not> is_in_rect (wr_rects reg ! j) x y" if "j < numRects reg" for j
      using post False that pt_trichotomy [of "wr_rects reg ! j" x y] by (cases "j < nat i") auto
    then show ?thesis using r False by (auto simp: points_def covers_def in_set_conv_nth)
  qed
qed

section \<open>The scan of \<open>RectInRegion\<close>\<close>

text \<open>The loop over \<^verbatim>\<open>obj->rects[i]\<close>: \<^verbatim>\<open>continue\<close>, \<^verbatim>\<open>break\<close> and the hit.\<close>

fun rect_in_loop :: "rect \<Rightarrow> rect list \<Rightarrow> bool" where
  "rect_in_loop rc [] = False"
| "rect_in_loop rc (q # qs) =
     (if r_bottom q \<le> r_top rc then rect_in_loop rc qs
      else if r_top q \<ge> r_bottom rc then False
      else if r_right q \<le> r_left rc then rect_in_loop rc qs
      else if r_left q \<ge> r_right rc then rect_in_loop rc qs
      else True)"

definition rect_in_region :: "wregion \<Rightarrow> rect \<Rightarrow> bool" where
  "rect_in_region reg rect =
     (let rc = order_rect rect
      in if numRects reg > 0 \<and> overlapping (wr_extents reg) rc
         then (let (i, hit) = region_find_pt reg (r_left rc) (r_top rc)
               in hit \<or> rect_in_loop rc (drop (nat i) (wr_rects reg)))
         else False)"

definition pt_in_region :: "wregion \<Rightarrow> int \<Rightarrow> int \<Rightarrow> bool" where
  "pt_in_region reg x y =
     (if numRects reg > 0 \<and> is_in_rect (wr_extents reg) x y then snd (region_find_pt reg x y) else False)"

lemma pt_in_region_iff: "wf_region s reg \<Longrightarrow> pt_in_region reg x y \<longleftrightarrow> points reg x y"
  using region_find_pt_hit [OF wf_banded] wf_inside [of s reg x y]
  by (auto simp: pt_in_region_def)

lemma rect_in_loop_iff:
  "banded qs \<Longrightarrow> rect_ok rc \<Longrightarrow> rect_in_loop rc qs \<longleftrightarrow> (\<exists>q\<in>set qs. overlapping q rc)"
proof (induction qs)
  case (Cons q qs)
  have "\<not> overlapping p rc" if "r_top q \<ge> r_bottom rc" "p \<in> set qs" for p
    using banded_hd_top [OF Cons.prems(1), of p] that by (simp add: overlapping_def)
  then show ?case using Cons by (auto simp: overlapping_def banded_Cons)
qed simp

lemma overlap_points:
  assumes "banded (wr_rects reg)" "rect_ok rc"
  shows "(\<exists>q\<in>set (wr_rects reg). overlapping q rc) \<longleftrightarrow> (\<exists>x y. points reg x y \<and> is_in_rect rc x y)"
  using overlapping_witness [OF banded_ok [OF assms(1)] assms(2)] by (fastforce simp: points_def covers_def)

lemma rect_in_region_iff:
  assumes wf: "wf_region s reg" and rc: "rect_ok (order_rect rc)"
  shows "rect_in_region reg rc \<longleftrightarrow> (\<exists>x y. points reg x y \<and> is_in_rect (order_rect rc) x y)"
proof (cases "numRects reg > 0 \<and> overlapping (wr_extents reg) (order_rect rc)")
  case False
  have "\<not> (points reg x y \<and> is_in_rect (order_rect rc) x y)" for x y
    using False wf_inside [OF wf, of x y] by (auto simp: is_in_rect_def overlapping_def)
  then show ?thesis using False by (auto simp: rect_in_region_def Let_def)
next
  case True
  let ?rc = "order_rect rc"
  note b = wf_banded [OF wf]
  obtain i h where f: "region_find_pt reg (r_left ?rc) (r_top ?rc) = (i, h)" by fastforce
  have run: "rect_in_region reg rc = (h \<or> rect_in_loop ?rc (drop (nat i) (wr_rects reg)))"
    using True f by (simp add: rect_in_region_def)
  note post = region_find_pt_post [OF b, of "r_left ?rc" "r_top ?rc", unfolded f find_post_def fst_conv snd_conv]
  have hit: "h \<longleftrightarrow> points reg (r_left ?rc) (r_top ?rc)"
    using region_find_pt_hit [OF b, of "r_left ?rc" "r_top ?rc"] f by simp
  have in_rc: "is_in_rect ?rc (r_left ?rc) (r_top ?rc)" using rc by (auto simp: is_in_rect_def rect_ok_def)
  have skipped: "\<not> overlapping q ?rc" if q: "q \<in> set (take (nat i) (wr_rects reg))" for q
  proof -
    from q obtain j where "j < nat i" "q = wr_rects reg ! j" by (auto simp: in_set_conv_nth)
    then have "before_pt (r_left ?rc) (r_top ?rc) q" using post by simp
    then show ?thesis by (auto simp: before_pt_def overlapping_def)
  qed
  have split: "set (wr_rects reg) = set (take (nat i) (wr_rects reg)) \<union> set (drop (nat i) (wr_rects reg))"
    by (metis append_take_drop_id set_append)
  have "banded (drop (nat i) (wr_rects reg))" using b by (metis append_take_drop_id banded_append)
  then have loop: "rect_in_loop ?rc (drop (nat i) (wr_rects reg)) \<longleftrightarrow> (\<exists>q\<in>set (wr_rects reg). overlapping q ?rc)"
    using rect_in_loop_iff [OF _ rc] skipped split by blast
  show ?thesis unfolding run loop overlap_points [OF b rc] using hit in_rc by blast
qed

section \<open>Region types\<close>

lemma type_null: "wf_region s reg \<Longrightarrow> get_region_type reg = NULLREGION \<longleftrightarrow> (\<forall>x y. \<not> points reg x y)"
  using covers_nonempty [OF wf_banded] by (auto simp: get_region_type_def points_def)

lemma type_simple:
  assumes "wf_region True reg"
  shows "get_region_type reg = SIMPLEREGION \<longleftrightarrow> (\<exists>q. rect_ok q \<and> points reg = is_in_rect q)"
proof
  assume t: "get_region_type reg = SIMPLEREGION"
  then obtain q where q: "wr_rects reg = [q]"
    by (auto simp: get_region_type_def length_Suc_conv split: if_splits)
  then have "points reg = is_in_rect q" by (intro HOL.ext) (simp add: points_def covers_Cons)
  then show "\<exists>q. rect_ok q \<and> points reg = is_in_rect q"
    using wf_banded [OF assms] q by (auto simp: banded_Cons)
next
  assume "\<exists>q. rect_ok q \<and> points reg = is_in_rect q"
  then obtain q where q: "rect_ok q" "points reg = is_in_rect q" by blast
  have "canonical [q]" "canonical (wr_rects reg)"
    using wf_good [OF rect_region_wf [OF q(1), of True]] wf_good [OF assms]
    by (simp_all add: rect_region_def good_def canonical_def)
  then have "wr_rects reg = [q]" by (intro canonical_unique) (use q(2) in \<open>simp_all add: points_def covers_Cons\<close>)
  then show "get_region_type reg = SIMPLEREGION" by (simp add: get_region_type_def)
qed

end
