(* ===== verification/Handle_Model.thy ===== *)
theory Handle_Model
  imports Swinx_Prelude
begin

text \<open>
  Handles (\<^verbatim>\<open>src/handle.cpp\<close>, \<^verbatim>\<open>src/handle.h\<close>): the \<^verbatim>\<open>_Handle\<close> wrapper with its type, its
  reference count, the object it owns and its destructor, the count of live GDI objects and
  the operations that create, share and close handles. A handle is null,
  \<^verbatim>\<open>INVALID_HANDLE_VALUE\<close>, or the address of a wrapper; the heap maps an address to the
  wrapper while it is alive. Following an address whose wrapper has been deleted is undefined
  in the code and \<open>None\<close> here.
\<close>

section \<open>State\<close>

datatype HANDLE = NullHandle | INVALID_HANDLE_VALUE | AsHandle nat

record Handle =
  h_type :: int
  h_nRef :: int
  h_ptr :: nat
  h_cbFree :: bool

text \<open>\<open>hs_freed\<close> lists the objects whose \<^verbatim>\<open>cbFree\<close> has run, the latest first.\<close>

record hstate =
  hs_heap :: "nat \<Rightarrow> Handle option"
  hs_next :: nat
  hs_gdi :: int
  hs_freed :: "nat list"

definition OBJ_PEN :: int where "OBJ_PEN = 1"

definition OBJ_REGION :: int where "OBJ_REGION = 8"

definition OBJ_ENHMETAFILE :: int where "OBJ_ENHMETAFILE = 13"

definition IsGdiObjectType :: "int \<Rightarrow> bool" where
  "IsGdiObjectType ty \<longleftrightarrow> ty \<ge> OBJ_PEN \<and> ty \<le> OBJ_ENHMETAFILE"

section \<open>Operations\<close>

definition AddSwinxGdiObject :: "'a hstate_scheme \<Rightarrow> 'a hstate_scheme" where
  "AddSwinxGdiObject s = s\<lparr>hs_gdi := hs_gdi s + 1\<rparr>"

definition ReleaseSwinxGdiObject :: "'a hstate_scheme \<Rightarrow> 'a hstate_scheme" where
  "ReleaseSwinxGdiObject s = s\<lparr>hs_gdi := hs_gdi s - 1\<rparr>"

text \<open>\<open>InitHandle\<close> and the constructor it calls; \<^verbatim>\<open>new\<close> returns an address that is not in use.\<close>

definition InitHandle :: "int \<Rightarrow> nat \<Rightarrow> bool \<Rightarrow> 'a hstate_scheme \<Rightarrow> HANDLE \<times> 'a hstate_scheme" where
  "InitHandle ty ptr cb s =
     (let s1 = s\<lparr>hs_heap := (hs_heap s)(hs_next s \<mapsto> \<lparr>h_type = ty, h_nRef = 1, h_ptr = ptr, h_cbFree = cb\<rparr>),
                 hs_next := hs_next s + 1\<rparr>
      in (AsHandle (hs_next s), if IsGdiObjectType ty then AddSwinxGdiObject s1 else s1))"

text \<open>\<^verbatim>\<open>delete handle\<close>: the destructor, then the memory.\<close>

definition delete_handle :: "nat \<Rightarrow> Handle \<Rightarrow> 'a hstate_scheme \<Rightarrow> 'a hstate_scheme" where
  "delete_handle a w s =
     (let s1 = (if IsGdiObjectType (h_type w) then ReleaseSwinxGdiObject s else s);
          s2 = (if h_cbFree w then s1\<lparr>hs_freed := h_ptr w # hs_freed s1\<rparr> else s1)
      in s2\<lparr>hs_heap := (hs_heap s2)(a := None)\<rparr>)"

definition AddHandleRef :: "HANDLE \<Rightarrow> 'a hstate_scheme \<Rightarrow> (HANDLE \<times> 'a hstate_scheme) option" where
  "AddHandleRef h s =
     (case h of
        INVALID_HANDLE_VALUE \<Rightarrow> Some (INVALID_HANDLE_VALUE, s)
      | NullHandle \<Rightarrow> Some (NullHandle, s)
      | AsHandle a \<Rightarrow>
          (case hs_heap s a of
             None \<Rightarrow> None
           | Some w \<Rightarrow> Some (h, s\<lparr>hs_heap := (hs_heap s)(a \<mapsto> w\<lparr>h_nRef := h_nRef w + 1\<rparr>)\<rparr>)))"

definition CloseHandle :: "HANDLE \<Rightarrow> 'a hstate_scheme \<Rightarrow> (bool \<times> 'a hstate_scheme) option" where
  "CloseHandle h s =
     (case h of
        INVALID_HANDLE_VALUE \<Rightarrow> Some (False, s)
      | NullHandle \<Rightarrow> Some (True, s)
      | AsHandle a \<Rightarrow>
          (case hs_heap s a of
             None \<Rightarrow> None
           | Some w \<Rightarrow>
               if \<not> h_cbFree w then Some (True, s)
               else (let w' = w\<lparr>h_nRef := h_nRef w - 1\<rparr>;
                         s1 = s\<lparr>hs_heap := (hs_heap s)(a \<mapsto> w')\<rparr>
                     in Some (True, if h_nRef w' = 0 then delete_handle a w' s1 else s1))))"

definition GR_GDIOBJECTS :: int where "GR_GDIOBJECTS = 0"

definition GetGuiResources :: "int \<Rightarrow> 'a hstate_scheme \<Rightarrow> int" where
  "GetGuiResources uiFlags s = (if uiFlags = GR_GDIOBJECTS then hs_gdi s mod 4294967296 else 0)"

section \<open>Invariant\<close>

text \<open>
  Live wrappers have a positive count, addresses from \<open>hs_next\<close> on are unused, and the
  counter is the number of live GDI wrappers.
\<close>

definition gdi_live :: "'a hstate_scheme \<Rightarrow> nat set" where
  "gdi_live s = {a. \<exists>w. hs_heap s a = Some w \<and> IsGdiObjectType (h_type w)}"

definition handles_ok :: "'a hstate_scheme \<Rightarrow> bool" where
  "handles_ok s \<longleftrightarrow> (\<forall>a w. hs_heap s a = Some w \<longrightarrow> a < hs_next s \<and> 0 < h_nRef w)
     \<and> hs_gdi s = int (card (gdi_live s))"

lemma gdi_live_finite: "handles_ok s \<Longrightarrow> finite (gdi_live s)"
  by (rule finite_subset [of _ "{..< hs_next s}"]) (auto simp: handles_ok_def gdi_live_def)

lemma gdi_live_upd:
  "gdi_live (s\<lparr>hs_heap := (hs_heap s)(a \<mapsto> w)\<rparr>) =
     (if IsGdiObjectType (h_type w) then insert a (gdi_live s) else gdi_live s - {a})"
  "gdi_live (s\<lparr>hs_heap := (hs_heap s)(a := None)\<rparr>) = gdi_live s - {a}"
  by (auto simp: gdi_live_def)

lemma gdi_live_other [simp]:
  "gdi_live (s\<lparr>hs_next := n\<rparr>) = gdi_live s" "gdi_live (s\<lparr>hs_gdi := g\<rparr>) = gdi_live s"
  "gdi_live (s\<lparr>hs_freed := f\<rparr>) = gdi_live s"
  by (simp_all add: gdi_live_def)

lemma InitHandle_ok:
  assumes "handles_ok s"
  shows "handles_ok (snd (InitHandle ty ptr cb s))"
proof -
  have new: "hs_next s \<notin> gdi_live s" using assms by (auto simp: handles_ok_def gdi_live_def)
  have "gdi_live (snd (InitHandle ty ptr cb s)) = (if IsGdiObjectType ty then insert (hs_next s) (gdi_live s) else gdi_live s)"
    using new by (auto simp: InitHandle_def Let_def AddSwinxGdiObject_def gdi_live_def)
  then show ?thesis
    using assms new gdi_live_finite [OF assms]
    by (auto simp: handles_ok_def InitHandle_def Let_def AddSwinxGdiObject_def less_Suc_eq)
qed

lemma AddHandleRef_ok:
  assumes "handles_ok s" "AddHandleRef h s = Some (r, s')"
  shows "handles_ok s'"
proof (cases h)
  case (AsHandle a)
  then obtain w where w: "hs_heap s a = Some w" "s' = s\<lparr>hs_heap := (hs_heap s)(a \<mapsto> w\<lparr>h_nRef := h_nRef w + 1\<rparr>)\<rparr>"
    using assms(2) by (auto simp: AddHandleRef_def split: option.splits)
  have "gdi_live s' = gdi_live s" using w by (auto simp: gdi_live_def)
  then show ?thesis using assms(1) w by (fastforce simp: handles_ok_def)
qed (use assms in \<open>auto simp: AddHandleRef_def\<close>)

text \<open>The three outcomes of closing a live handle.\<close>

lemma CloseHandle_cases:
  assumes "hs_heap s a = Some w"
  shows "\<not> h_cbFree w \<Longrightarrow> CloseHandle (AsHandle a) s = Some (True, s)"
    and "h_cbFree w \<Longrightarrow> h_nRef w \<noteq> 1 \<Longrightarrow> CloseHandle (AsHandle a) s
      = Some (True, s\<lparr>hs_heap := (hs_heap s)(a \<mapsto> w\<lparr>h_nRef := h_nRef w - 1\<rparr>)\<rparr>)"
    and "h_cbFree w \<Longrightarrow> h_nRef w = 1 \<Longrightarrow> CloseHandle (AsHandle a) s
      = Some (True, s\<lparr>hs_heap := (hs_heap s)(a := None), hs_freed := h_ptr w # hs_freed s,
          hs_gdi := hs_gdi s - (if IsGdiObjectType (h_type w) then 1 else 0)\<rparr>)"
  using assms by (auto simp: CloseHandle_def Let_def delete_handle_def ReleaseSwinxGdiObject_def)

lemma CloseHandle_ok:
  assumes "handles_ok s" "CloseHandle h s = Some (r, s')"
  shows "handles_ok s'"
proof (cases h)
  case (AsHandle a)
  obtain w where w: "hs_heap s a = Some w" using assms(2) AsHandle by (auto simp: CloseHandle_def split: option.splits)
  have pos: "0 < h_nRef w" using assms(1) w by (simp add: handles_ok_def)
  consider "\<not> h_cbFree w" | "h_cbFree w" "h_nRef w \<noteq> 1" | "h_cbFree w" "h_nRef w = 1" by blast
  then show ?thesis
  proof cases
    case 1
    then show ?thesis using CloseHandle_cases(1) [OF w] assms AsHandle by simp
  next
    case 2
    then have s': "s' = s\<lparr>hs_heap := (hs_heap s)(a \<mapsto> w\<lparr>h_nRef := h_nRef w - 1\<rparr>)\<rparr>"
      using CloseHandle_cases(2) [OF w] assms AsHandle by simp
    have "gdi_live s' = gdi_live s" using w by (auto simp: gdi_live_def s')
    then show ?thesis using assms(1) w pos 2 by (fastforce simp: handles_ok_def s')
  next
    case 3
    then have s': "s' = s\<lparr>hs_heap := (hs_heap s)(a := None), hs_freed := h_ptr w # hs_freed s,
          hs_gdi := hs_gdi s - (if IsGdiObjectType (h_type w) then 1 else 0)\<rparr>"
      using CloseHandle_cases(3) [OF w] assms AsHandle by simp
    have live: "gdi_live s' = gdi_live s - {a}" by (auto simp: gdi_live_def s')
    have "a \<in> gdi_live s \<longleftrightarrow> IsGdiObjectType (h_type w)" using w by (simp add: gdi_live_def)
    then have "int (card (gdi_live s - {a})) = hs_gdi s - (if IsGdiObjectType (h_type w) then 1 else 0)"
      using assms(1) gdi_live_finite [OF assms(1)] card_gt_0_iff [of "gdi_live s"]
      by (auto simp: handles_ok_def of_nat_diff)
    then show ?thesis using assms(1) live by (auto simp: handles_ok_def s')
  qed
qed (use assms in \<open>auto simp: CloseHandle_def\<close>)

end
