(* ===== verification/Region_Api.thy ===== *)
theory Region_Api
  imports Region_Query Handle_Model
begin

text \<open>
  The region functions on handles: the exported half of \<^verbatim>\<open>src/region.cpp\<close>. Their state is the
  handle state extended with the store of region objects. A call returns its result and the
  state after it, or \<open>None\<close> where it follows a handle that is null, invalid or deleted:
  \<open>GDI_GetObjPtr\<close> reads the type through the handle, so there is no error return for those.
\<close>

section \<open>State\<close>

record rgn_state = hstate +
  rs_store :: store
  rs_fresh :: nat

type_synonym 'r api = "('r \<times> rgn_state) option"

definition GDI_GetObjPtr :: "HANDLE \<Rightarrow> int \<Rightarrow> rgn_state \<Rightarrow> rptr option option" where
  "GDI_GetObjPtr h ty g =
     (case h of
        AsHandle a \<Rightarrow>
          (case hs_heap g a of
             None \<Rightarrow> None
           | Some w \<Rightarrow> Some (if h_type w \<noteq> ty then None else Some (Obj (h_ptr w))))
      | _ \<Rightarrow> None)"

text \<open>Look a region up; \<open>r\<close> is the result when the handle has another type.\<close>

definition with_region :: "HANDLE \<Rightarrow> rgn_state \<Rightarrow> 'r \<Rightarrow> (rptr \<Rightarrow> 'r api) \<Rightarrow> 'r api" where
  "with_region h g r f =
     (case GDI_GetObjPtr h OBJ_REGION g of
        None \<Rightarrow> None | Some None \<Rightarrow> Some (r, g) | Some (Some p) \<Rightarrow> f p)"

text \<open>\<^verbatim>\<open>if (op) result = get_region_type(obj)\<close>, from \<^verbatim>\<open>result = ERROR\<close>.\<close>

definition type_result :: "rptr \<Rightarrow> rgn_state \<Rightarrow> outcome \<Rightarrow> rgn_type api" where
  "type_result p g res =
     Some (if fst res then get_region_type (snd res p) else RGN_ERROR, g\<lparr>rs_store := snd res\<rparr>)"

definition bool_result :: "rgn_state \<Rightarrow> outcome \<Rightarrow> bool api" where
  "bool_result g res = Some (fst res, g\<lparr>rs_store := snd res\<rparr>)"

section \<open>Operations\<close>

definition RGN_AND :: int where "RGN_AND = 1"

definition RGN_OR :: int where "RGN_OR = 2"

definition RGN_XOR :: int where "RGN_XOR = 3"

definition RGN_DIFF :: int where "RGN_DIFF = 4"

definition RGN_COPY :: int where "RGN_COPY = 5"

definition combine_switch :: "mem \<Rightarrow> int \<Rightarrow> rptr \<Rightarrow> rptr \<Rightarrow> rptr \<Rightarrow> store \<Rightarrow> outcome" where
  "combine_switch mem mode d a b st =
     (if mode = RGN_AND then REGION_IntersectRegion mem d a b st
      else if mode = RGN_OR then REGION_UnionRegion mem d a b st
      else if mode = RGN_XOR then REGION_XorRegion mem d a b st
      else if mode = RGN_DIFF then REGION_SubtractRegion mem d a b st
      else (False, st))"

definition CombineRgn :: "mem \<Rightarrow> HANDLE \<Rightarrow> HANDLE \<Rightarrow> HANDLE \<Rightarrow> int \<Rightarrow> rgn_state \<Rightarrow> rgn_type api" where
  "CombineRgn mem hDest hSrc1 hSrc2 mode g =
     with_region hDest g RGN_ERROR (\<lambda>d.
     with_region hSrc1 g RGN_ERROR (\<lambda>a.
       if mode = RGN_COPY then type_result d g (REGION_CopyRegion mem d a (rs_store g))
       else with_region hSrc2 g RGN_ERROR (\<lambda>b.
         type_result d g (combine_switch mem mode d a b (rs_store g)))))"

definition OffsetRgn :: "mem \<Rightarrow> HANDLE \<Rightarrow> int \<Rightarrow> int \<Rightarrow> rgn_state \<Rightarrow> rgn_type api" where
  "OffsetRgn mem hrgn x y g =
     with_region hrgn g RGN_ERROR (\<lambda>p.
       let st = snd (REGION_OffsetRegion mem p p x y (rs_store g))
       in Some (get_region_type (st p), g\<lparr>rs_store := st\<rparr>))"

text \<open>\<open>GetRgnBox\<close> with the rectangle it stores.\<close>

definition GetRgnBox :: "HANDLE \<Rightarrow> rgn_state \<Rightarrow> (rgn_type \<times> rect option) api" where
  "GetRgnBox hrgn g =
     with_region hrgn g (RGN_ERROR, None) (\<lambda>p.
       Some ((get_region_type (rs_store g p), Some (wr_extents (rs_store g p))), g))"

definition set_rect_region :: "int \<Rightarrow> int \<Rightarrow> int \<Rightarrow> int \<Rightarrow> wregion \<Rightarrow> wregion" where
  "set_rect_region left tp right bt reg =
     (let (l, r) = (if left > right then (right, left) else (left, right));
          (t, b) = (if tp > bt then (bt, tp) else (tp, bt))
      in if l \<noteq> r \<and> t \<noteq> b
         then reg\<lparr>wr_rects := [mk_rect l t r b], wr_extents := mk_rect l t r b\<rparr>
         else empty_region reg)"

definition SetRectRgn :: "HANDLE \<Rightarrow> int \<Rightarrow> int \<Rightarrow> int \<Rightarrow> int \<Rightarrow> rgn_state \<Rightarrow> bool api" where
  "SetRectRgn hrgn left tp right bt g =
     with_region hrgn g False (\<lambda>p.
       bool_result g (update_op p (set_rect_region left tp right bt) (rs_store g)))"

text \<open>
  \<open>alloc_region\<close> and \<open>alloc_gdi_handle\<close>: \<open>obj\<close> says whether the memory of the structure can be
  had; \<^verbatim>\<open>new\<close> in \<open>InitHandle\<close> does not return null.
\<close>

definition alloc_region :: "bool \<Rightarrow> mem \<Rightarrow> nat \<Rightarrow> rgn_state \<Rightarrow> (rptr \<times> rgn_state) option" where
  "alloc_region obj mem n g =
     (if obj then map_option (\<lambda>reg. (Obj (rs_fresh g),
        g\<lparr>rs_store := (rs_store g)(Obj (rs_fresh g) := reg), rs_fresh := rs_fresh g + 1\<rparr>)) (init_region mem n)
      else None)"

definition rptr_id :: "rptr \<Rightarrow> nat" where
  "rptr_id p = (case p of Obj n \<Rightarrow> n | Tmp n \<Rightarrow> n)"

definition alloc_gdi_handle :: "rptr \<Rightarrow> int \<Rightarrow> rgn_state \<Rightarrow> HANDLE \<times> rgn_state" where
  "alloc_gdi_handle p ty g = InitHandle ty (rptr_id p) True g"

definition CreateRectRgn :: "bool \<Rightarrow> mem \<Rightarrow> int \<Rightarrow> int \<Rightarrow> int \<Rightarrow> int \<Rightarrow> rgn_state \<Rightarrow> HANDLE api" where
  "CreateRectRgn obj mem left tp right bt g =
     (case alloc_region obj mem RGN_DEFAULT_RECTS g of
        None \<Rightarrow> Some (NullHandle, g)
      | Some (p, g1) \<Rightarrow>
          (let (h, g2) = alloc_gdi_handle p OBJ_REGION g1
           in map_option (\<lambda>(_, g3). (h, g3)) (SetRectRgn h left tp right bt g2)))"

definition CreateRectRgnIndirect :: "bool \<Rightarrow> mem \<Rightarrow> rect \<Rightarrow> rgn_state \<Rightarrow> HANDLE api" where
  "CreateRectRgnIndirect obj mem rc g =
     CreateRectRgn obj mem (r_left rc) (r_top rc) (r_right rc) (r_bottom rc) g"

definition PtInRegion :: "HANDLE \<Rightarrow> int \<Rightarrow> int \<Rightarrow> rgn_state \<Rightarrow> bool api" where
  "PtInRegion hrgn x y g = with_region hrgn g False (\<lambda>p. Some (pt_in_region (rs_store g p) x y, g))"

definition RectInRegion :: "HANDLE \<Rightarrow> rect \<Rightarrow> rgn_state \<Rightarrow> bool api" where
  "RectInRegion hrgn rc g = with_region hrgn g False (\<lambda>p. Some (rect_in_region (rs_store g p) rc, g))"

text \<open>The comparison of \<open>EqualRgn\<close>, field by field and rectangle by rectangle.\<close>

definition same_rect :: "rect \<Rightarrow> rect \<Rightarrow> bool" where
  "same_rect p q \<longleftrightarrow> r_left p = r_left q \<and> r_right p = r_right q \<and> r_top p = r_top q \<and> r_bottom p = r_bottom q"

definition equal_regions :: "wregion \<Rightarrow> wregion \<Rightarrow> bool" where
  "equal_regions r1 r2 =
     (if numRects r1 \<noteq> numRects r2 then False
      else if numRects r1 = 0 then True
      else if \<not> same_rect (wr_extents r1) (wr_extents r2) then False
      else list_all2 same_rect (wr_rects r1) (wr_rects r2))"

definition EqualRgn :: "HANDLE \<Rightarrow> HANDLE \<Rightarrow> rgn_state \<Rightarrow> bool api" where
  "EqualRgn hrgn1 hrgn2 g =
     with_region hrgn1 g False (\<lambda>p. with_region hrgn2 g False (\<lambda>q.
       Some (equal_regions (rs_store g p) (rs_store g q), g)))"

definition add_rect_to_region :: "mem \<Rightarrow> HANDLE \<Rightarrow> rect \<Rightarrow> rgn_state \<Rightarrow> bool api" where
  "add_rect_to_region mem rgn rc g =
     with_region rgn g False (\<lambda>p. bool_result g (REGION_UnionRectWithRegion mem rc p (rs_store g)))"

definition REGION_FrameRgn :: "mem \<Rightarrow> HANDLE \<Rightarrow> HANDLE \<Rightarrow> int \<Rightarrow> int \<Rightarrow> rgn_state \<Rightarrow> bool api" where
  "REGION_FrameRgn mem hDest hSrc x y g =
     with_region hSrc g False (\<lambda>s.
       if numRects (rs_store g s) \<noteq> 0
       then with_region hDest g False (\<lambda>d. bool_result g (FrameRgn_body mem d s x y (rs_store g)))
       else Some (False, g))"

definition mirror_region :: "mem \<Rightarrow> HANDLE \<Rightarrow> HANDLE \<Rightarrow> int \<Rightarrow> rgn_state \<Rightarrow> rgn_type api" where
  "mirror_region mem dst src width g =
     with_region src g RGN_ERROR (\<lambda>s. with_region dst g RGN_ERROR (\<lambda>d.
       type_result d g (REGION_MirrorRegion mem d s width (rs_store g))))"

definition mirror_window_region :: "mem \<Rightarrow> rect \<Rightarrow> HANDLE \<Rightarrow> rgn_state \<Rightarrow> bool api" where
  "mirror_window_region mem rc hrgn g =
     map_option (\<lambda>(r, g'). (r \<noteq> RGN_ERROR, g')) (mirror_region mem hrgn hrgn (wrap32 (r_right rc - r_left rc)) g)"

section \<open>Region data\<close>

text \<open>
  \<^verbatim>\<open>RGNDATA\<close>: the header, then the rectangles. A \<^verbatim>\<open>RECT\<close> has 16 bytes, the header 32, and
  \<^verbatim>\<open>Buffer\<close> starts right after it. Byte counts are \<^verbatim>\<open>DWORD\<close>s.
\<close>

record rgndata =
  rd_dwSize :: int
  rd_iType :: int
  rd_nCount :: int
  rd_nRgnSize :: int
  rd_rcBound :: rect
  rd_Buffer :: "rect list"

definition RDH_RECTANGLES :: int where "RDH_RECTANGLES = 1"

definition dword :: "int \<Rightarrow> int" where
  "dword n = n mod 4294967296"

text \<open>\<open>buf\<close> is the caller's buffer, \<open>None\<close> for null; the result has what is written to it.\<close>

definition GetRegionData :: "HANDLE \<Rightarrow> int \<Rightarrow> rgndata option \<Rightarrow> rgn_state \<Rightarrow> (int \<times> rgndata option) api" where
  "GetRegionData hrgn count buf g =
     with_region hrgn g (0, buf) (\<lambda>p.
       let reg = rs_store g p; size = dword (int (numRects reg) * 16)
       in if buf = None \<or> count < dword (32 + size)
          then Some ((if buf \<noteq> None then 0 else dword (32 + size), buf), g)
          else Some ((dword (32 + size),
            Some \<lparr>rd_dwSize = 32, rd_iType = RDH_RECTANGLES, rd_nCount = int (numRects reg),
                  rd_nRgnSize = size, rd_rcBound = wr_extents reg, rd_Buffer = wr_rects reg\<rparr>), g))"

text \<open>The loop of \<open>ExtCreateRegion\<close> without a transformation: union the non-empty rectangles.\<close>

fun ext_create_loop :: "mem \<Rightarrow> rect list \<Rightarrow> rptr \<Rightarrow> store \<Rightarrow> outcome" where
  "ext_create_loop mem [] p st = (True, st)"
| "ext_create_loop mem (q # qs) p st =
     (if r_left q < r_right q \<and> r_top q < r_bottom q
      then seq_op (REGION_UnionRectWithRegion mem q p st) (ext_create_loop mem qs p)
      else ext_create_loop mem qs p st)"

text \<open>
  \<open>ExtCreateRegion\<close> with a null \<^verbatim>\<open>xform\<close>. The loop reads \<^verbatim>\<open>nCount\<close> rectangles, whatever the
  buffer holds: past its end the code reads other memory, and the model has no result.
\<close>

definition ExtCreateRegion :: "bool \<Rightarrow> mem \<Rightarrow> int \<Rightarrow> rgndata option \<Rightarrow> rgn_state \<Rightarrow> HANDLE api" where
  "ExtCreateRegion obj mem count data g =
     (case data of
        None \<Rightarrow> Some (NullHandle, g)
      | Some d \<Rightarrow>
          if rd_dwSize d < 32 then Some (NullHandle, g)
          else (case alloc_region obj mem (nat (wrap32 (rd_nCount d))) g of
                  None \<Rightarrow> Some (NullHandle, g)
                | Some (p, g1) \<Rightarrow>
                    if nat (rd_nCount d) > length (rd_Buffer d) then None
                    else (let (ok, st) = ext_create_loop mem (take (nat (rd_nCount d)) (rd_Buffer d)) p (rs_store g1);
                              g2 = g1\<lparr>rs_store := st\<rparr>
                          in if ok then Some (alloc_gdi_handle p OBJ_REGION g2) else Some (NullHandle, g2))))"

end
