(* ===== verification/Region_Laws.thy ===== *)
theory Region_Laws
  imports Region_Api
begin

text \<open>
  The invariant of the handle-level state and the rule that carries the contract of an
  operation on region objects up to the handles.
\<close>

section \<open>The invariant\<close>

definition is_rgn :: "rgn_state \<Rightarrow> HANDLE \<Rightarrow> bool" where
  "is_rgn g h \<longleftrightarrow> (\<exists>a w. h = AsHandle a \<and> hs_heap g a = Some w \<and> h_type w = OBJ_REGION)"

definition rgn_id :: "rgn_state \<Rightarrow> HANDLE \<Rightarrow> nat" where
  "rgn_id g h = (case h of AsHandle a \<Rightarrow> (case hs_heap g a of Some w \<Rightarrow> h_ptr w | None \<Rightarrow> 0) | _ \<Rightarrow> 0)"

abbreviation rgn_obj :: "rgn_state \<Rightarrow> HANDLE \<Rightarrow> wregion" where
  "rgn_obj g h \<equiv> rs_store g (Obj (rgn_id g h))"

definition rgn_points :: "rgn_state \<Rightarrow> HANDLE \<Rightarrow> int \<Rightarrow> int \<Rightarrow> bool" where
  "rgn_points g h = points (rgn_obj g h)"

text \<open>Every region handle has a well-formed object of its own.\<close>

definition rgn_ok :: "bool \<Rightarrow> rgn_state \<Rightarrow> bool" where
  "rgn_ok s g \<longleftrightarrow> handles_ok g
     \<and> (\<forall>h. is_rgn g h \<longrightarrow> wf_region s (rgn_obj g h) \<and> rgn_id g h < rs_fresh g)
     \<and> (\<forall>h h'. is_rgn g h \<longrightarrow> is_rgn g h' \<longrightarrow> rgn_id g h = rgn_id g h' \<longrightarrow> h = h')"

text \<open>
  What a call that writes the region \<open>h\<close> promises: if it succeeds, \<open>h\<close> has the points \<open>P\<close>;
  every other region, and \<open>h\<close> too if the call fails, is the object it was; handles stay the same.
\<close>

definition api_computes :: "bool \<Rightarrow> rgn_state \<Rightarrow> HANDLE \<Rightarrow> (int \<Rightarrow> int \<Rightarrow> bool) \<Rightarrow> bool \<Rightarrow> rgn_state \<Rightarrow> bool" where
  "api_computes s g h P ok g' \<longleftrightarrow> rgn_ok s g' \<and> hs_heap g' = hs_heap g
     \<and> (\<forall>h'. is_rgn g h' \<longrightarrow> h' \<noteq> h \<or> \<not> ok \<longrightarrow> rgn_obj g' h' = rgn_obj g h')
     \<and> (ok \<longrightarrow> rgn_points g' h = P)"

section \<open>Looking regions up\<close>

lemma GDI_GetObjPtr_rgn: "is_rgn g h \<Longrightarrow> GDI_GetObjPtr h OBJ_REGION g = Some (Some (Obj (rgn_id g h)))"
  by (auto simp: is_rgn_def GDI_GetObjPtr_def rgn_id_def)

lemma with_region_rgn [simp]: "is_rgn g h \<Longrightarrow> with_region h g r f = f (Obj (rgn_id g h))"
  by (simp add: with_region_def GDI_GetObjPtr_rgn)

lemma heap_same: "hs_heap g' = hs_heap g \<Longrightarrow> is_rgn g' h = is_rgn g h \<and> rgn_id g' h = rgn_id g h"
  by (simp add: is_rgn_def rgn_id_def cong: HANDLE.case_cong)

lemma is_rgn_store [simp]: "is_rgn (g\<lparr>rs_store := st\<rparr>) h = is_rgn g h" "rgn_id (g\<lparr>rs_store := st\<rparr>) h = rgn_id g h"
  by (simp_all add: is_rgn_def rgn_id_def cong: HANDLE.case_cong)

lemma handles_ok_store [simp]: "handles_ok (g\<lparr>rs_store := st\<rparr>) = handles_ok g"
  by (simp add: handles_ok_def gdi_live_def)

lemma rgn_ok_wf: "rgn_ok s g \<Longrightarrow> is_rgn g h \<Longrightarrow> wf_region s (rgn_obj g h)"
  by (simp add: rgn_ok_def)

lemma rgn_ok_inj: "rgn_ok s g \<Longrightarrow> is_rgn g h \<Longrightarrow> is_rgn g h' \<Longrightarrow> rgn_id g h = rgn_id g h' \<longleftrightarrow> h = h'"
  by (auto simp: rgn_ok_def)

lemma api_lift:
  assumes ok: "rgn_ok s g" and h: "is_rgn g h" and T: "\<forall>n. Obj n \<notin> T"
    and c: "computes s T (rs_store g) (Obj (rgn_id g h)) P res"
  shows "api_computes s g h P (fst res) (g\<lparr>rs_store := snd res\<rparr>)"
proof -
  have other: "snd res (Obj n) = rs_store g (Obj n)" if "n \<noteq> rgn_id g h \<or> \<not> fst res" for n
    using c T that by (auto simp: computes_def)
  have "wf_region s (snd res (Obj (rgn_id g h')))" if "is_rgn g h'" for h'
    using other [of "rgn_id g h'"] rgn_ok_wf [OF ok that] c
    by (cases "rgn_id g h' = rgn_id g h \<and> fst res") (auto simp: computes_def)
  then have "rgn_ok s (g\<lparr>rs_store := snd res\<rparr>)" using ok by (simp add: rgn_ok_def)
  then show ?thesis using other c rgn_ok_inj [OF ok _ h] by (auto simp: api_computes_def computes_def rgn_points_def)
qed

section \<open>The operations of \<open>CombineRgn\<close>\<close>

definition combine_points :: "int \<Rightarrow> (int \<Rightarrow> int \<Rightarrow> bool) \<Rightarrow> (int \<Rightarrow> int \<Rightarrow> bool) \<Rightarrow> int \<Rightarrow> int \<Rightarrow> bool" where
  "combine_points mode P Q = (\<lambda>x y.
     if mode = RGN_AND then P x y \<and> Q x y
     else if mode = RGN_OR then P x y \<or> Q x y
     else if mode = RGN_XOR then P x y \<noteq> Q x y
     else if mode = RGN_DIFF then P x y \<and> \<not> Q x y
     else P x y)"

lemmas mode_defs = RGN_AND_def RGN_OR_def RGN_XOR_def RGN_DIFF_def RGN_COPY_def

lemma computes_combine:
  assumes "mode \<in> {RGN_AND, RGN_OR, RGN_XOR, RGN_DIFF}"
    and wf: "wf_region s (st (Obj a))" "wf_region s (st (Obj b))" "wf_region s (st (Obj d))"
  shows "computes s {Tmp 0, Tmp 1} st (Obj d) (combine_points mode (points (st (Obj a))) (points (st (Obj b))))
    (combine_switch mem mode (Obj d) (Obj a) (Obj b) st)"
  using assms(1) computes_weaken [OF computes_intersect [OF wf]] computes_weaken [OF computes_union [OF wf]]
    computes_weaken [OF computes_subtract [OF wf]] computes_xor [OF wf]
  by (auto simp: combine_switch_def combine_points_def mode_defs)

lemma type_result_ok: "get_region_type reg \<noteq> RGN_ERROR"
  by (simp add: get_region_type_def)

lemma type_result_lift:
  assumes "rgn_ok s g" "is_rgn g h" "\<forall>n. Obj n \<notin> T" "computes s T (rs_store g) (Obj (rgn_id g h)) P res"
  shows "\<exists>r g'. type_result (Obj (rgn_id g h)) g res = Some (r, g') \<and> api_computes s g h P (r \<noteq> RGN_ERROR) g'
    \<and> (r \<noteq> RGN_ERROR \<longrightarrow> r = get_region_type (rgn_obj g' h))"
  using api_lift [OF assms] type_result_ok by (auto simp: type_result_def)

lemma bool_result_lift:
  assumes "rgn_ok s g" "is_rgn g h" "\<forall>n. Obj n \<notin> T" "computes s T (rs_store g) (Obj (rgn_id g h)) P res"
  shows "\<exists>r g'. bool_result g res = Some (r, g') \<and> api_computes s g h P r g'"
  using api_lift [OF assms] by (auto simp: bool_result_def)

lemma combine_contract:
  assumes ok: "rgn_ok s g" and h: "is_rgn g hDest" "is_rgn g hSrc1" "is_rgn g hSrc2"
    and mode: "mode \<in> {RGN_AND, RGN_OR, RGN_XOR, RGN_DIFF, RGN_COPY}"
  shows "\<exists>r g'. CombineRgn mem hDest hSrc1 hSrc2 mode g = Some (r, g')
    \<and> api_computes s g hDest (combine_points mode (rgn_points g hSrc1) (rgn_points g hSrc2)) (r \<noteq> RGN_ERROR) g'
    \<and> (r \<noteq> RGN_ERROR \<longrightarrow> r = get_region_type (rgn_obj g' hDest))"
proof (cases "mode = RGN_COPY")
  case True
  have "computes s {} (rs_store g) (Obj (rgn_id g hDest)) (combine_points mode (rgn_points g hSrc1) (rgn_points g hSrc2))
      (REGION_CopyRegion mem (Obj (rgn_id g hDest)) (Obj (rgn_id g hSrc1)) (rs_store g))"
    using computes_copy [OF rgn_ok_wf [OF ok h(2)] rgn_ok_wf [OF ok h(1)], of mem] True
    by (simp add: combine_points_def mode_defs rgn_points_def)
  from type_result_lift [OF ok h(1) _ this] show ?thesis using True h by (simp add: CombineRgn_def)
next
  case False
  then have "mode \<in> {RGN_AND, RGN_OR, RGN_XOR, RGN_DIFF}" using mode by simp
  note c = computes_combine [OF this rgn_ok_wf [OF ok h(2)] rgn_ok_wf [OF ok h(3)] rgn_ok_wf [OF ok h(1)], of mem]
  from type_result_lift [OF ok h(1) _ c] show ?thesis using False h by (simp add: CombineRgn_def rgn_points_def)
qed

section \<open>Rectangles\<close>

lemma set_rect_region_points:
  "points (set_rect_region l t r b reg) = (\<lambda>x y. is_in_rect (order_rect (mk_rect l t r b)) x y)"
  by (intro HOL.ext) (auto simp: set_rect_region_def empty_region_def points_def covers_Cons order_rect_def is_in_rect_def)

lemma set_rect_region_wf: "cap_ok reg \<Longrightarrow> wf_region s (set_rect_region l t r b reg)"
proof (cases "l \<noteq> r \<and> t \<noteq> b")
  case True
  assume cap: "cap_ok reg"
  let ?q = "mk_rect (min l r) (min t b) (max l r) (max t b)"
  have eq: "set_rect_region l t r b reg = reg\<lparr>wr_rects := [?q], wr_extents := ?q\<rparr>"
    using True by (auto simp: set_rect_region_def min_def max_def)
  have "rect_ok ?q" using True by (auto simp: rect_ok_def)
  from rect_region_wf [OF this, of s] show ?thesis
    using cap unfolding eq by (simp add: wf_region_def rect_region_def cap_ok_def points_def RGN_DEFAULT_RECTS_def)
next
  case False
  assume "cap_ok reg"
  then show ?thesis using False
    by (auto simp: set_rect_region_def empty_region_def wf_region_def cap_ok_def)
qed

section \<open>Comparison\<close>

lemma same_rect_eq: "same_rect p q \<longleftrightarrow> p = q"
  by (auto simp: same_rect_def intro: rect_eqI)

lemma same_rects_eq: "list_all2 same_rect ps qs \<longleftrightarrow> ps = qs"
proof -
  have "same_rect = (=)" by (intro HOL.ext) (rule same_rect_eq)
  then show ?thesis by (simp add: list.rel_eq)
qed

lemma tight_unique: "tight e P \<Longrightarrow> tight f P \<Longrightarrow> e = f"
proof -
  have le: "r_left e \<le> r_left f \<and> r_top e \<le> r_top f \<and> r_right f \<le> r_right e \<and> r_bottom f \<le> r_bottom e"
    if "tight e P" "tight f P" for e f :: rect
    using that unfolding tight_def is_in_rect_def by fastforce
  assume "tight e P" "tight f P"
  then show ?thesis using le [of e f] le [of f e] by (intro rect_eqI) auto
qed

lemma equal_regions_iff:
  assumes wf: "wf_region True r1" "wf_region True r2"
  shows "equal_regions r1 r2 \<longleftrightarrow> points r1 = points r2"
proof
  assume "equal_regions r1 r2"
  then have "wr_rects r1 = wr_rects r2"
    by (auto simp: equal_regions_def same_rects_eq split: if_splits)
  then show "points r1 = points r2" by (simp add: points_def)
next
  assume eq: "points r1 = points r2"
  have "canonical (wr_rects r1)" "canonical (wr_rects r2)"
    using wf_good [OF wf(1)] wf_good [OF wf(2)] by (simp_all add: good_def canonical_def)
  then have rects: "wr_rects r1 = wr_rects r2" using eq by (intro canonical_unique) (simp_all add: points_def)
  show "equal_regions r1 r2"
  proof (cases "wr_rects r1 = []")
    case False
    then have "wr_extents r1 = wr_extents r2" using wf_tight wf eq rects tight_unique by metis
    then show ?thesis using rects by (simp add: equal_regions_def same_rect_eq same_rects_eq)
  qed (use rects in \<open>simp add: equal_regions_def\<close>)
qed

section \<open>New regions\<close>

lemma alloc_region_init: "alloc_region obj mem n g = Some (p, g1) \<Longrightarrow> p = Obj (rs_fresh g)
   \<and> g1 = g\<lparr>rs_store := rs_store g1, rs_fresh := rs_fresh g + 1\<rparr> \<and> (\<forall>q. q \<noteq> p \<longrightarrow> rs_store g1 q = rs_store g q)
   \<and> wf_region s (rs_store g1 p) \<and> points (rs_store g1 p) = (\<lambda>x y. False)"
  using init_region_wf [of mem n _ s]
  by (auto simp: alloc_region_def init_region_def Let_def empty_region_def split: if_splits)

text \<open>What creating a region promises.\<close>

definition creates :: "bool \<Rightarrow> rgn_state \<Rightarrow> (int \<Rightarrow> int \<Rightarrow> bool) \<Rightarrow> HANDLE \<Rightarrow> rgn_state \<Rightarrow> bool" where
  "creates s g P h g' \<longleftrightarrow> rgn_ok s g' \<and> \<not> is_rgn g h \<and> is_rgn g' h \<and> rgn_points g' h = P
     \<and> (\<forall>h'. is_rgn g h' \<longrightarrow> is_rgn g' h' \<and> rgn_obj g' h' = rgn_obj g h')
     \<and> hs_gdi g' = hs_gdi g + 1"

lemma new_handle:
  assumes ok: "rgn_ok s g" and g1: "hs_heap g1 = hs_heap g" "hs_next g1 = hs_next g" "hs_gdi g1 = hs_gdi g"
      "rs_fresh g1 = rs_fresh g + 1" "\<forall>n. n \<noteq> rs_fresh g \<longrightarrow> rs_store g1 (Obj n) = rs_store g (Obj n)"
    and wf: "wf_region s (rs_store g1 (Obj (rs_fresh g)))"
    and h: "alloc_gdi_handle (Obj (rs_fresh g)) OBJ_REGION g1 = (h, g')"
  shows "creates s g (points (rs_store g1 (Obj (rs_fresh g)))) h g'"
proof -
  have h': "h = AsHandle (hs_next g)" and g': "g' = g1\<lparr>hs_heap := (hs_heap g)(hs_next g \<mapsto>
      \<lparr>h_type = OBJ_REGION, h_nRef = 1, h_ptr = rs_fresh g, h_cbFree = True\<rparr>), hs_next := hs_next g + 1, hs_gdi := hs_gdi g + 1\<rparr>"
    using h g1 by (auto simp: alloc_gdi_handle_def InitHandle_def rptr_id_def Let_def AddSwinxGdiObject_def
        IsGdiObjectType_def OBJ_REGION_def OBJ_PEN_def OBJ_ENHMETAFILE_def)
  have hok: "handles_ok g" using ok by (simp add: rgn_ok_def)
  have "handles_ok g1" using hok g1 by (simp add: handles_ok_def gdi_live_def)
  then have hok': "handles_ok g'" using InitHandle_ok [of g1] h by (metis alloc_gdi_handle_def snd_conv)
  have fresh: "hs_heap g (hs_next g) = None"
    using hok unfolding handles_ok_def by (metis less_irrefl not_Some_eq)
  have rgn: "is_rgn g' h' \<longleftrightarrow> h' = h \<or> is_rgn g h'" "is_rgn g h' \<Longrightarrow> rgn_id g' h' = rgn_id g h'" for h'
    using fresh by (auto simp: is_rgn_def rgn_id_def g' h' split: if_splits)
  have id: "rgn_id g' h = rs_fresh g" by (simp add: rgn_id_def g' h')
  have old: "rgn_id g h' < rs_fresh g" "wf_region s (rgn_obj g h')" if "is_rgn g h'" for h'
    using ok that by (auto simp: rgn_ok_def)
  have store: "rs_store g' = rs_store g1" "rs_fresh g' = rs_fresh g + 1" "hs_gdi g' = hs_gdi g + 1" using g1 by (simp_all add: g')
  have obj: "rgn_obj g' h' = rgn_obj g h'" if "is_rgn g h'" for h'
    using rgn(2) [OF that] old(1) [OF that] g1(5) store by simp
  have new: "\<not> is_rgn g h" using fresh by (auto simp: is_rgn_def h')
  have "rgn_ok s g'"
    unfolding rgn_ok_def using hok' rgn old obj id wf store rgn_ok_inj [OF ok]
    by (auto simp: less_Suc_eq) (metis less_irrefl)+
  then show ?thesis using new rgn obj id store by (auto simp: creates_def rgn_points_def)
qed

lemma ext_create_loop_ok:
  "\<lbrakk>ext_create_loop mem qs (Obj n) st = (True, st'); wf_region s (st (Obj n))\<rbrakk> \<Longrightarrow>
   (\<forall>p. p \<noteq> Tmp 0 \<longrightarrow> p \<noteq> Obj n \<longrightarrow> st' p = st p) \<and> wf_region s (st' (Obj n))
   \<and> points (st' (Obj n)) = (\<lambda>x y. points (st (Obj n)) x y \<or> covers qs x y)"
proof (induction qs arbitrary: st)
  case (Cons q qs)
  show ?case
  proof (cases "r_left q < r_right q \<and> r_top q < r_bottom q")
    case True
    then obtain st1 where u: "REGION_UnionRectWithRegion mem q (Obj n) st = (True, st1)"
      and l: "ext_create_loop mem qs (Obj n) st1 = (True, st')"
      using Cons.prems(1) by (auto simp: seq_op_True)
    have "rect_ok q" using True by (simp add: rect_ok_def)
    note 1 = computes_ok [OF computes_union_rect [of s st n, OF Cons.prems(2) this] u]
    show ?thesis using Cons.IH [OF l] 1 by (auto simp: covers_Cons)
  next
    case False
    then have "\<not> is_in_rect q x y" for x y by (auto simp: is_in_rect_def)
    then show ?thesis using Cons.IH [of st] Cons.prems False by (simp add: covers_Cons)
  qed
qed simp

lemma ext_create_loop_other:
  "ext_create_loop mem qs (Obj n) st = (ok, st') \<Longrightarrow> p \<noteq> Tmp 0 \<Longrightarrow> p \<noteq> Obj n \<Longrightarrow> st' p = st p"
proof (induction qs arbitrary: st)
  case (Cons q qs)
  have same: "snd (REGION_UnionRectWithRegion mem q (Obj n) st) p = st p" for st
    using Cons.prems(2,3) by (auto simp: REGION_UnionRectWithRegion_def REGION_UnionRegion_def copy_unless_same_def
      REGION_CopyRegion_def ret_op_def seq_op_def REGION_RegionOp_def split: option.splits)
  show ?case
  proof (cases "r_left q < r_right q \<and> r_top q < r_bottom q")
    case True
    obtain ok1 st1 where u: "REGION_UnionRectWithRegion mem q (Obj n) st = (ok1, st1)" by fastforce
    show ?thesis using Cons.IH [of st1] Cons.prems True u same [of st] by (cases ok1) (auto simp: seq_op_def)
  next
    case False
    then have "ext_create_loop mem qs (Obj n) st = (ok, st')" using Cons.prems(1) by (simp del: de_Morgan_conj)
    then show ?thesis using Cons.IH Cons.prems(2,3) by blast
  qed
qed simp

lemma init_region_points: "init_region mem n = Some r \<Longrightarrow> points r = (\<lambda>x y. False)"
  by (auto simp: init_region_def Let_def empty_region_def split: if_splits)

text \<open>The two ways creation ends: no region and nothing changed, or a new region.\<close>

lemma CreateRectRgn_cases:
  assumes ok: "rgn_ok s g"
  shows "\<exists>h g'. CreateRectRgn obj mem l t r b g = Some (h, g')
    \<and> (if h = NullHandle then g' = g else creates s g (is_in_rect (order_rect (mk_rect l t r b))) h g')"
proof (cases "alloc_region obj mem RGN_DEFAULT_RECTS g")
  case None
  then show ?thesis by (simp add: CreateRectRgn_def)
next
  case (Some pg)
  then obtain p g1 where a: "alloc_region obj mem RGN_DEFAULT_RECTS g = Some (p, g1)" by (cases pg) auto
  note i = alloc_region_init [OF a, of s]
  obtain h g2 where h: "alloc_gdi_handle p OBJ_REGION g1 = (h, g2)" by fastforce
  have g1: "hs_heap g1 = hs_heap g" "hs_next g1 = hs_next g" "hs_gdi g1 = hs_gdi g" "rs_fresh g1 = rs_fresh g + 1"
    using i by (metis hstate.select_convs hstate.surjective hstate.update_convs rgn_state.surjective rgn_state.update_convs
      rgn_state.select_convs)+
  have c: "creates s g (points (rs_store g1 (Obj (rs_fresh g)))) h g2"
    using i h g1 by (intro new_handle [OF ok g1]) auto
  have rgn: "is_rgn g2 h" "rgn_ok s g2" using c by (simp_all add: creates_def)
  have set: "SetRectRgn h l t r b g2 = Some (True, g2\<lparr>rs_store := (rs_store g2)
      (Obj (rgn_id g2 h) := set_rect_region l t r b (rgn_obj g2 h))\<rparr>)"
    using rgn by (simp add: SetRectRgn_def bool_result_def update_op_def)
  let ?g3 = "g2\<lparr>rs_store := (rs_store g2)(Obj (rgn_id g2 h) := set_rect_region l t r b (rgn_obj g2 h))\<rparr>"
  have "computes s {} (rs_store g2) (Obj (rgn_id g2 h)) (is_in_rect (order_rect (mk_rect l t r b)))
      (True, rs_store ?g3)"
    using set_rect_region_points set_rect_region_wf [OF wf_cap [OF rgn_ok_wf [OF rgn(2,1)]]]
    by (simp add: computes_True)
  from api_lift [OF rgn(2,1) _ this] have api: "api_computes s g2 h (is_in_rect (order_rect (mk_rect l t r b))) True ?g3" by simp
  have "h' \<noteq> h" if "is_rgn g h'" for h' using c that by (auto simp: creates_def)
  then have "rgn_obj ?g3 h' = rgn_obj g h'" if "is_rgn g h'" for h'
    using that c api unfolding creates_def api_computes_def by metis
  then have "creates s g (is_in_rect (order_rect (mk_rect l t r b))) h ?g3"
    using c api by (simp add: creates_def api_computes_def)
  moreover have "h \<noteq> NullHandle" using rgn(1) by (auto simp: is_rgn_def)
  ultimately show ?thesis using a h set by (simp add: CreateRectRgn_def)
qed

lemma ExtCreateRegion_cases:
  assumes ok: "rgn_ok s g" and d: "rd_dwSize d \<ge> 32" "nat (rd_nCount d) \<le> length (rd_Buffer d)"
  shows "\<exists>h g'. ExtCreateRegion obj mem count (Some d) g = Some (h, g')
    \<and> (if h = NullHandle then \<forall>h'. is_rgn g h' \<longrightarrow> is_rgn g' h' \<and> rgn_obj g' h' = rgn_obj g h'
       else creates s g (covers (take (nat (rd_nCount d)) (rd_Buffer d))) h g')"
proof (cases "alloc_region obj mem (nat (wrap32 (rd_nCount d))) g")
  case None
  then show ?thesis using d by (simp add: ExtCreateRegion_def)
next
  case (Some pg)
  let ?qs = "take (nat (rd_nCount d)) (rd_Buffer d)"
  obtain p g1 where a: "alloc_region obj mem (nat (wrap32 (rd_nCount d))) g = Some (p, g1)" using Some by (cases pg) auto
  note i = alloc_region_init [OF a, of s]
  have p: "p = Obj (rs_fresh g)" using i by blast
  have g1: "hs_heap g1 = hs_heap g" "hs_next g1 = hs_next g" "hs_gdi g1 = hs_gdi g" "rs_fresh g1 = rs_fresh g + 1"
    using i by (metis hstate.select_convs hstate.surjective hstate.update_convs rgn_state.surjective rgn_state.update_convs
      rgn_state.select_convs)+
  obtain fin st where l: "ext_create_loop mem ?qs p (rs_store g1) = (fin, st)" by fastforce
  have other: "st (Obj n) = rs_store g (Obj n)" if "n \<noteq> rs_fresh g" for n
    using ext_create_loop_other [OF l [unfolded p], of "Obj n"] i that by (simp add: p)
  have run: "ExtCreateRegion obj mem count (Some d) g =
      Some (if fin then alloc_gdi_handle p OBJ_REGION (g1\<lparr>rs_store := st\<rparr>) else (NullHandle, g1\<lparr>rs_store := st\<rparr>))"
    using a l d by (simp add: ExtCreateRegion_def)
  have old: "rgn_id g h' < rs_fresh g" if "is_rgn g h'" for h' using ok that by (simp add: rgn_ok_def)
  show ?thesis
  proof (cases fin)
    case False
    have "is_rgn g1 h' = is_rgn g h'" "rgn_id g1 h' = rgn_id g h'" for h' using heap_same [OF g1(1)] by auto
    then have "\<forall>h'. is_rgn g h' \<longrightarrow> is_rgn (g1\<lparr>rs_store := st\<rparr>) h' \<and> rgn_obj (g1\<lparr>rs_store := st\<rparr>) h' = rgn_obj g h'"
      using old other by (auto dest!: old)
    then show ?thesis using run False by simp
  next
    case True
    obtain h g' where h: "alloc_gdi_handle p OBJ_REGION (g1\<lparr>rs_store := st\<rparr>) = (h, g')" by fastforce
    have res: "wf_region s (st p)" "points (st p) = covers ?qs"
      using ext_create_loop_ok [OF l [unfolded p eqTrueI [OF True]], of s] i by (auto simp: p)
    have "creates s g (points (rs_store (g1\<lparr>rs_store := st\<rparr>) (Obj (rs_fresh g)))) h g'"
      using other res h g1 by (intro new_handle [OF ok]) (auto simp: p)
    then have "creates s g (covers ?qs) h g'" using res by (simp add: p)
    moreover have "h \<noteq> NullHandle" using h by (auto simp: alloc_gdi_handle_def InitHandle_def Let_def)
    ultimately show ?thesis using run h True by simp
  qed
qed

end
