(* ===== verification/Region_Create.thy ===== *)
theory Region_Create
  imports Region_Laws
begin

text \<open>
  \<open>ExtCreateRegion\<close> on the rectangles of a region, one union after the other: a canonical list has the fewest
  rectangles, so that no intermediate region is larger than the result, and no union fails when memory can be had.
\<close>

section \<open>Canonical lists have the fewest rectangles\<close>

definition corner :: "rect \<Rightarrow> int \<times> int" where
  "corner q = (r_left q, r_top q)"

lemma distinct_corners: "banded rs \<Longrightarrow> distinct (map corner rs)"
  by (induction rs) (auto simp: banded_Cons corner_def rect_before_def rect_ok_def dest!: banded_ok)

text \<open>Within a band the row does not change.\<close>

lemma same_row:
  assumes "banded rs" "p \<in> set rs" "r_top p \<le> y - 1" "y < r_bottom p"
  shows "spans_at rs (y - 1) = spans_at rs y"
proof -
  have "(r_top q \<le> y - 1 \<and> y - 1 < r_bottom q) = (r_top q \<le> y \<and> y < r_bottom q)" if q: "q \<in> set rs" for q
  proof -
    have "sorted_wrt rect_before rs" using assms(1) by (simp add: banded_def)
    then have "p = q \<or> rect_before p q \<or> rect_before q p"
      using assms(2) q by (induction rs) auto
    then show ?thesis using assms(3,4) by (auto simp: rect_before_def)
  qed
  then show ?thesis unfolding spans_at_def by (metis (mono_tags, lifting) filter_cong)
qed

lemma corners_kept:
  assumes "banded rs" "\<And>y. spans_at cs y = spans_at rs y" "coalesced cs" "banded cs" "q \<in> set cs"
  shows "corner q \<in> corner ` set rs"
proof -
  have "rect_ok q" using banded_ok [OF assms(4,5)] .
  then have "(r_left q, r_right q) \<in> set (spans_at cs (r_top q))" using assms(5) by (auto simp: spans_at_set rect_ok_def)
  then obtain p where p: "p \<in> set rs" "r_top p \<le> r_top q" "r_top q < r_bottom p" "r_left p = r_left q"
    unfolding assms(2) by (auto simp: spans_at_set)
  have "spans_at rs (r_top q - 1) \<noteq> spans_at rs (r_top q)" using assms(3,5) unfolding coalesced_def assms(2) by blast
  then have "\<not> r_top p \<le> r_top q - 1" using same_row [OF assms(1) p(1) _ p(3)] by blast
  then have "corner p = corner q" using p by (simp add: corner_def)
  then show ?thesis using p(1) by (metis imageI)
qed

lemma canonical_fewest:
  assumes "banded rs" "gapped rs" "canonical cs" "\<And>x y. covers cs x y = covers rs x y"
  shows "length cs \<le> length rs"
proof -
  have c: "banded cs" "gapped cs" "coalesced cs" using assms(3) by (simp_all add: canonical_def)
  have "spans_at cs y = spans_at rs y" for y by (rule rows_equal [OF c(1,2) assms(1,2,4)])
  then have "corner ` set cs \<subseteq> corner ` set rs" using corners_kept [OF assms(1) _ c(3,1)] by blast
  then have "card (corner ` set cs) \<le> card (corner ` set rs)" by (intro card_mono) simp_all
  moreover have "card (corner ` set cs) = length cs" using distinct_card [OF distinct_corners [OF c(1)]] by simp
  moreover have "card (corner ` set rs) \<le> length rs" by (metis card_length length_map set_map)
  ultimately show ?thesis by simp
qed

section \<open>The loop\<close>

lemma UnionRegion_granted:
  assumes "\<forall>n. mem n" "max (numRects (st a)) (numRects (st b)) * 2 \<le> 134217727"
  shows "fst (REGION_UnionRegion mem d a b st)"
  using uni.RegionOp_store_total [OF assms] copy_total [OF assms(1)]
  by (auto simp: REGION_UnionRegion_def copy_unless_same_def seq_op_def)

lemma UnionRect_granted:
  assumes "\<forall>n. mem n" "numRects (st (Obj n)) * 2 \<le> 134217727"
  shows "fst (REGION_UnionRectWithRegion mem q (Obj n) st)"
  unfolding REGION_UnionRectWithRegion_def
  by (rule UnionRegion_granted) (use assms in \<open>simp_all add: rect_region_def\<close>)

lemma ext_create_loop_granted:
  assumes "\<forall>n. mem n" "canonical (pre @ qs)" "length (pre @ qs) * 2 \<le> 134217727"
    and "wf_region True (st (Obj n))" "points (st (Obj n)) = covers pre"
  shows "fst (ext_create_loop mem qs (Obj n) st)"
  using assms(2-)
proof (induction qs arbitrary: pre st)
  case (Cons q qs)
  have b: "banded pre" "gapped pre" "rect_ok q" using Cons.prems(1) by (auto simp: canonical_def banded_append gapped_append banded_Cons)
  have "canonical (wr_rects (st (Obj n)))" using Cons.prems(3) by (simp add: wf_region_def good_def canonical_def)
  then have "numRects (st (Obj n)) \<le> length pre"
    using canonical_fewest [OF b(1,2)] Cons.prems(4) by (metis points_def)
  then have f: "fst (REGION_UnionRectWithRegion mem q (Obj n) st)" using Cons.prems(2) by (intro UnionRect_granted [OF assms(1)]) simp
  obtain st1 where u: "REGION_UnionRectWithRegion mem q (Obj n) st = (True, st1)" using f by (metis prod.collapse)
  note st1 = computes_ok [OF computes_union_rect [of True st n, OF Cons.prems(3) b(3)] u]
  have "points (st1 (Obj n)) = covers (pre @ [q])" using st1 Cons.prems(4) by (auto simp: covers_Cons fun_eq_iff)
  then have "fst (ext_create_loop mem qs (Obj n) st1)" using Cons.IH [of "pre @ [q]" st1] Cons.prems(1,2) st1 by simp
  then show ?case using u b(3) by (simp add: seq_op_def rect_ok_def)
qed simp

lemma ExtCreateRegion_granted:
  assumes "rgn_ok True g" "\<forall>n. mem n" "canonical (rd_Buffer d)" "length (rd_Buffer d) * 2 \<le> 134217727"
    and "rd_dwSize d \<ge> 32" "rd_nCount d = int (length (rd_Buffer d))"
  shows "\<exists>h g'. ExtCreateRegion True mem count (Some d) g = Some (h, g') \<and> h \<noteq> NullHandle \<and> creates True g (covers (rd_Buffer d)) h g'"
proof -
  have w: "nat (wrap32 (rd_nCount d)) = length (rd_Buffer d)" using assms(4,6) by (simp add: wrap32_def)
  obtain r where r: "init_region mem (length (rd_Buffer d)) = Some r" using uni.init_region_total [OF assms(2), of "length (rd_Buffer d)"] assms(4) by auto
  obtain p g1 where a: "alloc_region True mem (length (rd_Buffer d)) g = Some (p, g1)" using r by (simp add: alloc_region_def)
  note i = alloc_region_init [OF a, of True]
  have p: "p = Obj (rs_fresh g)" using i by blast
  have "wf_region True (rs_store g1 (Obj (rs_fresh g)))" "points (rs_store g1 (Obj (rs_fresh g))) = covers []" using i by (auto simp: fun_eq_iff)
  then have "fst (ext_create_loop mem (rd_Buffer d) p (rs_store g1))"
    unfolding p using ext_create_loop_granted [OF assms(2), of "[]"] assms(3,4) by simp
  then obtain st where l: "ext_create_loop mem (rd_Buffer d) p (rs_store g1) = (True, st)" by (metis prod.collapse)
  obtain h g' where e: "ExtCreateRegion True mem count (Some d) g = Some (h, g')"
      "if h = NullHandle then \<forall>h'. is_rgn g h' \<longrightarrow> is_rgn g' h' \<and> rgn_obj g' h' = rgn_obj g h'
       else creates True g (covers (take (nat (rd_nCount d)) (rd_Buffer d))) h g'"
    using ExtCreateRegion_cases [OF assms(1,5), of True mem count] assms(6) by auto
  have "ExtCreateRegion True mem count (Some d) g = Some (alloc_gdi_handle p OBJ_REGION (g1\<lparr>rs_store := st\<rparr>))"
    using a l assms(5,6) w by (simp add: ExtCreateRegion_def)
  then have "h \<noteq> NullHandle" using e(1) by (auto simp: alloc_gdi_handle_def InitHandle_def Let_def)
  then show ?thesis using e assms(6) by auto
qed

end
