(* ===== verification/Region_Props.thy ===== *)
theory Region_Props
  imports Region_Create
begin

text \<open>
  The properties of the region functions, each stated on handles, with the state \<open>demo\<close> that
  their witnesses evaluate: three region handles, on the rectangles (0,0)-(10,10),
  (5,5)-(20,20) and (0,0)-(1,1).
\<close>

section \<open>A concrete state\<close>

definition demo_rect :: "nat \<Rightarrow> rect" where
  "demo_rect n = (if n = 0 then mk_rect 0 0 10 10 else if n = 1 then mk_rect 5 5 20 20 else mk_rect 0 0 1 1)"

definition demo :: rgn_state where
  "demo = \<lparr>hs_heap = (\<lambda>a. if a < 3 then Some \<lparr>h_type = OBJ_REGION, h_nRef = 1, h_ptr = a, h_cbFree = True\<rparr> else None),
     hs_next = 3, hs_gdi = 3, hs_freed = [],
     rs_store = (\<lambda>p. rect_region (demo_rect (rptr_id p))), rs_fresh = 3\<rparr>"

definition all_mem :: mem where
  "all_mem n = True"

lemma demo_rgn [simp]: "is_rgn demo (AsHandle a) \<longleftrightarrow> a < 3"
  by (auto simp: is_rgn_def demo_def)

lemma demo_id: "a < 3 \<Longrightarrow> rgn_id demo (AsHandle a) = a"
  by (simp add: rgn_id_def demo_def)

lemma demo_rect_ok: "rect_ok (demo_rect n)"
  by (simp add: demo_rect_def rect_ok_def)

lemma demo_ok: "rgn_ok s demo"
proof -
  have "gdi_live demo = {..< 3}"
    by (auto simp: gdi_live_def demo_def IsGdiObjectType_def OBJ_REGION_def OBJ_PEN_def OBJ_ENHMETAFILE_def)
  then have "handles_ok demo" by (simp add: handles_ok_def) (simp add: demo_def)
  moreover have "is_rgn demo h \<longleftrightarrow> (\<exists>a<3. h = AsHandle a)" for h by (cases h) (auto simp: is_rgn_def demo_def)
  moreover have "rs_store demo p = rect_region (demo_rect (rptr_id p))" "rs_fresh demo = 3" for p by (simp_all add: demo_def)
  ultimately show ?thesis using rect_region_wf [OF demo_rect_ok] by (auto simp: rgn_ok_def demo_id)
qed

lemma demo_obj [simp]: "a < 3 \<Longrightarrow> rgn_obj demo (AsHandle a) = rect_region (demo_rect a)"
  by (simp add: demo_id) (simp add: demo_def rptr_id_def)

lemma demo_points [simp]: "a < 3 \<Longrightarrow> rgn_points demo (AsHandle a) = is_in_rect (demo_rect a)"
  by (simp add: rgn_points_def)

section \<open>Running the operations on concrete regions\<close>

text \<open>The operations as updates of one object, so that a concrete run is a chain of them.\<close>

definition intersect_new :: "mem \<Rightarrow> wregion \<Rightarrow> wregion \<Rightarrow> wregion \<Rightarrow> wregion option" where
  "intersect_new mem ra rb rd = map_option REGION_SetExtents
     (if numRects ra = 0 \<or> numRects rb = 0 \<or> \<not> overlapping (wr_extents ra) (wr_extents rb)
      then Some (rd\<lparr>wr_rects := []\<rparr>)
      else map_option (move_rects rd) (RegionOp_new mem REGION_IntersectO None None ra rb))"

definition subtract_new :: "mem \<Rightarrow> wregion \<Rightarrow> wregion \<Rightarrow> wregion \<Rightarrow> wregion option" where
  "subtract_new mem ra rb rd = map_option REGION_SetExtents
      (map_option (move_rects rd) (RegionOp_new mem REGION_SubtractO (Some REGION_SubtractNonO1) None ra rb))"

lemma intersect_eq: "REGION_IntersectRegion mem d a b st = ret_op d st (intersect_new mem (st a) (st b) (st d))"
  by (auto simp: REGION_IntersectRegion_def intersect_new_def seq_op_def update_op_def ret_op_def REGION_RegionOp_def
      split: option.splits)

lemma subtract_eq:
  "\<lbrakk>numRects (st a) \<noteq> 0; numRects (st b) \<noteq> 0; overlapping (wr_extents (st a)) (wr_extents (st b))\<rbrakk>
   \<Longrightarrow> REGION_SubtractRegion mem d a b st = ret_op d st (subtract_new mem (st a) (st b) (st d))"
  by (auto simp: REGION_SubtractRegion_def subtract_new_def seq_op_def update_op_def ret_op_def REGION_RegionOp_def
      split: option.splits)

lemma seq_ret [simp]: "seq_op (ret_op p st (Some r)) f = f (st(p := r))" "seq_op (True, st) f = f st"
  by (simp_all add: ret_op_def seq_op_def)

text \<open>A region that is one rectangle, in the inline buffer.\<close>

definition one :: "int \<Rightarrow> int \<Rightarrow> int \<Rightarrow> int \<Rightarrow> wregion" where
  "one l t r b = \<lparr>wr_size = 4, wr_rects = [mk_rect l t r b], wr_extents = mk_rect l t r b\<rparr>"

lemma one_sel [simp]: "wr_size (one l t r b) = 4" "wr_rects (one l t r b) = [mk_rect l t r b]"
  "wr_extents (one l t r b) = mk_rect l t r b"
  by (simp_all add: one_def)

lemma offset_one:
  "d \<noteq> a \<Longrightarrow> st a = one l t r b \<Longrightarrow> wr_size (st d) = 4 \<Longrightarrow> in_int32 (l + x) \<Longrightarrow> in_int32 (r + x)
   \<Longrightarrow> in_int32 (t + y) \<Longrightarrow> in_int32 (b + y) \<Longrightarrow>
   REGION_OffsetRegion mem d a x y st = (True, st(d := one (l + x) (t + y) (r + x) (b + y)))"
  "st a = one l t r b \<Longrightarrow> in_int32 (l + x) \<Longrightarrow> in_int32 (r + x) \<Longrightarrow> in_int32 (t + y) \<Longrightarrow> in_int32 (b + y)
   \<Longrightarrow> REGION_OffsetRegion mem a a x y st = (True, st(a := one (l + x) (t + y) (r + x) (b + y)))"
  by (cases "st d"; auto simp: REGION_OffsetRegion_def REGION_CopyRegion_def offset_wregion_def offset_rect_def
      seq_op_def ret_op_def one_def fun_upd_idem)+

section \<open>Combining\<close>

text \<open>C1: \<open>CombineRgn\<close> on live region handles, equal or not, returns without a fault; when its
  result is not \<^verbatim>\<open>ERROR\<close> the destination holds exactly the intersection, union, symmetric
  difference, difference or copy that the mode asks for, the result is the type of the new
  region, and no other region has changed; on \<^verbatim>\<open>ERROR\<close> no region has changed. All regions
  stay well-formed, and canonical where they were.\<close>

theorem CombineRgn_points:
  assumes ok: "rgn_ok s g" and h: "is_rgn g hDest" "is_rgn g hSrc1" "is_rgn g hSrc2"
    and mode: "mode \<in> {RGN_AND, RGN_OR, RGN_XOR, RGN_DIFF, RGN_COPY}"
  shows "\<exists>r g'. CombineRgn mem hDest hSrc1 hSrc2 mode g = Some (r, g')
    \<and> api_computes s g hDest (combine_points mode (rgn_points g hSrc1) (rgn_points g hSrc2)) (r \<noteq> RGN_ERROR) g'
    \<and> (r \<noteq> RGN_ERROR \<longrightarrow> r = get_region_type (rgn_obj g' hDest))"
  by (rule combine_contract [OF assms])

theorem CombineRgn_points_witness:
  "\<exists>r g'. CombineRgn all_mem (AsHandle 2) (AsHandle 0) (AsHandle 1) RGN_XOR demo = Some (r, g')
    \<and> (r \<noteq> RGN_ERROR \<longrightarrow> rgn_points g' (AsHandle 2) 2 3 \<and> \<not> rgn_points g' (AsHandle 2) 7 7)"
proof -
  obtain r g' where "CombineRgn all_mem (AsHandle 2) (AsHandle 0) (AsHandle 1) RGN_XOR demo = Some (r, g')"
    "api_computes True demo (AsHandle 2) (combine_points RGN_XOR (rgn_points demo (AsHandle 0)) (rgn_points demo (AsHandle 1)))
      (r \<noteq> RGN_ERROR) g'"
    using CombineRgn_points [OF demo_ok, of "AsHandle 2" "AsHandle 0" "AsHandle 1" RGN_XOR all_mem True] by auto
  then show ?thesis
    by (auto simp: api_computes_def combine_points_def mode_defs demo_rect_def is_in_rect_def)
qed

text \<open>When memory can be had and the regions are not too large, \<open>CombineRgn\<close> succeeds on
  live region handles.\<close>

theorem CombineRgn_succeeds:
  assumes h: "is_rgn g hDest" "is_rgn g hSrc1" "is_rgn g hSrc2" and mem: "\<forall>n. mem n"
    and mode: "mode \<in> {RGN_AND, RGN_OR, RGN_DIFF, RGN_COPY}"
    and size: "max (numRects (rgn_obj g hSrc1)) (numRects (rgn_obj g hSrc2)) * 2 \<le> 134217727"
  shows "\<exists>r g'. CombineRgn mem hDest hSrc1 hSrc2 mode g = Some (r, g') \<and> r \<noteq> RGN_ERROR"
proof -
  have copy: "fst (copy_unless_same mem d a st)" for d a st
    using copy_total [OF mem] by (simp add: copy_unless_same_def)
  have seq: "fst (seq_op r f) \<longleftrightarrow> fst r \<and> fst (f (snd r))" for r f by (simp add: seq_op_def)
  have "fst (combine_switch mem mode (Obj d) (Obj (rgn_id g hSrc1)) (Obj (rgn_id g hSrc2)) (rs_store g))"
    if "mode \<noteq> RGN_COPY" for d
    using mode that copy copy_total [OF mem] inter.RegionOp_store_total [OF mem size]
      uni.RegionOp_store_total [OF mem size] diff.RegionOp_store_total [OF mem size]
    unfolding combine_switch_def REGION_IntersectRegion_def REGION_UnionRegion_def REGION_SubtractRegion_def
    by (auto simp: mode_defs seq update_op_def simp del: max_less_iff_conj)
  then show ?thesis using h type_result_ok copy_total [OF mem]
    by (cases "mode = RGN_COPY") (simp_all add: CombineRgn_def type_result_def)
qed

theorem CombineRgn_succeeds_witness:
  "\<exists>r g'. CombineRgn all_mem (AsHandle 2) (AsHandle 0) (AsHandle 1) RGN_DIFF demo = Some (r, g') \<and> r \<noteq> RGN_ERROR"
  by (rule CombineRgn_succeeds) (simp_all add: all_mem_def rect_region_def mode_defs)

text \<open>On canonical regions the result of \<open>CombineRgn\<close> says what the new point set is:
  \<^verbatim>\<open>NULLREGION\<close> exactly when it is empty and \<^verbatim>\<open>SIMPLEREGION\<close> exactly when it is a
  rectangle.\<close>

theorem CombineRgn_type:
  assumes ok: "rgn_ok True g" and h: "is_rgn g hDest" "is_rgn g hSrc1" "is_rgn g hSrc2"
    and mode: "mode \<in> {RGN_AND, RGN_OR, RGN_XOR, RGN_DIFF, RGN_COPY}"
    and run: "CombineRgn mem hDest hSrc1 hSrc2 mode g = Some (r, g')" "r \<noteq> RGN_ERROR"
  shows "(r = NULLREGION \<longleftrightarrow> (\<forall>x y. \<not> combine_points mode (rgn_points g hSrc1) (rgn_points g hSrc2) x y))
    \<and> (r = SIMPLEREGION \<longleftrightarrow> (\<exists>q. rect_ok q \<and> combine_points mode (rgn_points g hSrc1) (rgn_points g hSrc2) = is_in_rect q))"
proof -
  let ?P = "combine_points mode (rgn_points g hSrc1) (rgn_points g hSrc2)"
  have res: "api_computes True g hDest ?P True g'" "r = get_region_type (rgn_obj g' hDest)"
    using combine_contract [OF ok h mode, of mem] run by auto
  have "wf_region True (rgn_obj g' hDest)" "points (rgn_obj g' hDest) = ?P"
    using res(1) h(1) heap_same [of g' g] by (auto simp: api_computes_def rgn_ok_def rgn_points_def)
  then show ?thesis using type_null type_simple unfolding res(2) by metis
qed

theorem CombineRgn_type_witness:
  "\<exists>r g'. CombineRgn all_mem (AsHandle 2) (AsHandle 0) (AsHandle 0) RGN_COPY demo = Some (r, g') \<and> r \<noteq> NULLREGION"
proof -
  obtain r g' where run: "CombineRgn all_mem (AsHandle 2) (AsHandle 0) (AsHandle 0) RGN_COPY demo = Some (r, g')" "r \<noteq> RGN_ERROR"
    using copy_total [of all_mem] type_result_ok by (auto simp: CombineRgn_def type_result_def all_mem_def)
  have "combine_points RGN_COPY (rgn_points demo (AsHandle 0)) (rgn_points demo (AsHandle 0)) 1 1"
    by (simp add: combine_points_def mode_defs demo_rect_def is_in_rect_def)
  then have "r \<noteq> NULLREGION" using CombineRgn_type [OF demo_ok _ _ _ _ run] by fastforce
  with run(1) show ?thesis by blast
qed

section \<open>Tests\<close>

text \<open>C10: \<open>EqualRgn\<close> on canonical regions compares point sets: it returns true exactly when the
  two regions have the same points, although it compares rectangle lists.\<close>

theorem EqualRgn_iff:
  assumes "rgn_ok True g" "is_rgn g h1" "is_rgn g h2"
  shows "EqualRgn h1 h2 g = Some (rgn_points g h1 = rgn_points g h2, g)"
  using equal_regions_iff [OF rgn_ok_wf rgn_ok_wf] assms by (simp add: EqualRgn_def rgn_points_def)

theorem EqualRgn_iff_witness: "EqualRgn (AsHandle 0) (AsHandle 1) demo = Some (False, demo)"
proof -
  have "rgn_points demo (AsHandle 0) 1 1 \<noteq> rgn_points demo (AsHandle 1) 1 1"
    by (simp add: demo_rect_def is_in_rect_def)
  then have "rgn_points demo (AsHandle 0) \<noteq> rgn_points demo (AsHandle 1)" by metis
  then show ?thesis using EqualRgn_iff [OF demo_ok, of "AsHandle 0" "AsHandle 1"] by simp
qed

text \<open>C11: \<open>PtInRegion\<close>, with its test of the extents and its binary search, returns true exactly
  when the point belongs to the region, and changes nothing.\<close>

theorem PtInRegion_iff:
  assumes "rgn_ok s g" "is_rgn g h"
  shows "PtInRegion h x y g = Some (rgn_points g h x y, g)"
  using pt_in_region_iff [OF rgn_ok_wf] assms by (simp add: PtInRegion_def rgn_points_def)

theorem PtInRegion_iff_witness:
  "PtInRegion (AsHandle 1) 19 5 demo = Some (True, demo) \<and> PtInRegion (AsHandle 1) 20 5 demo = Some (False, demo)"
  using PtInRegion_iff [OF demo_ok, of "AsHandle 1"] by (simp add: demo_rect_def is_in_rect_def)

text \<open>C12: \<open>RectInRegion\<close> on a rectangle of non-zero width and height, its sides given in any
  order, returns true exactly when the rectangle and the region have a point in common.\<close>

theorem RectInRegion_iff:
  assumes "rgn_ok s g" "is_rgn g h" "r_left rc \<noteq> r_right rc" "r_top rc \<noteq> r_bottom rc"
  shows "RectInRegion h rc g = Some (\<exists>x y. rgn_points g h x y \<and> is_in_rect (order_rect rc) x y, g)"
  using rect_in_region_iff [OF rgn_ok_wf, of s g h rc] assms by (simp add: RectInRegion_def rgn_points_def order_rect_ok_iff)

theorem RectInRegion_iff_witness: "RectInRegion (AsHandle 0) (mk_rect 12 12 9 9) demo = Some (True, demo)"
proof -
  have "rgn_points demo (AsHandle 0) 9 9 \<and> is_in_rect (order_rect (mk_rect 12 12 9 9)) 9 9"
    by (simp add: demo_rect_def is_in_rect_def order_rect_def)
  then show ?thesis using RectInRegion_iff [OF demo_ok, of "AsHandle 0" "mk_rect 12 12 9 9"] by auto
qed

text \<open>\<open>region_find_pt\<close> returns the index its comment promises: every rectangle before it lies
  before the point, and the one at it contains the point, or, without a hit, it and every
  rectangle after it lie after the point.\<close>

theorem region_find_pt_index:
  assumes "wf_region s reg" "region_find_pt reg x y = (i, hit)"
  shows "0 \<le> i \<and> i \<le> int (numRects reg) \<and> (\<forall>j < nat i. before_pt x y (wr_rects reg ! j))
    \<and> (if hit then nat i < numRects reg \<and> is_in_rect (wr_rects reg ! nat i) x y
       else \<forall>j. nat i \<le> j \<longrightarrow> j < numRects reg \<longrightarrow> after_pt x y (wr_rects reg ! j))"
  using region_find_pt_post [OF wf_banded [OF assms(1)], of x y]
  unfolding assms(2) find_post_def fst_conv snd_conv .

theorem region_find_pt_index_witness:
  "region_find_pt (rect_region (mk_rect 0 0 10 10)) 10 3 = (1, False) \<and> before_pt 10 3 (mk_rect 0 0 10 10)"
proof -
  have run: "region_find_pt (rect_region (mk_rect 0 0 10 10)) 10 3 = (1, False)"
    by (simp add: region_find_pt_def rect_region_def find_pt_loop.simps)
  have "wf_region True (rect_region (mk_rect 0 0 10 10))" by (rule rect_region_wf) (simp add: rect_ok_def)
  from region_find_pt_index [OF this run] run show ?thesis by (simp add: rect_region_def)
qed

text \<open>The rectangle \<open>GetRgnBox\<close> stores is the smallest one around a non-empty region: it
  contains every point, and each of its four sides is touched.\<close>

theorem GetRgnBox_tight:
  assumes "rgn_ok s g" "is_rgn g h" "rgn_points g h x y"
  shows "\<exists>e. GetRgnBox h g = Some ((get_region_type (rgn_obj g h), Some e), g) \<and> tight e (rgn_points g h)"
proof -
  have "wr_rects (rgn_obj g h) \<noteq> []" using assms(3) by (auto simp: rgn_points_def points_def)
  then show ?thesis using wf_tight [OF rgn_ok_wf [OF assms(1,2)]] assms(2) by (simp add: GetRgnBox_def rgn_points_def)
qed

theorem GetRgnBox_tight_witness:
  "\<exists>e. GetRgnBox (AsHandle 0) demo = Some ((SIMPLEREGION, Some e), demo) \<and> tight e (is_in_rect (mk_rect 0 0 10 10))"
  using GetRgnBox_tight [OF demo_ok, of "AsHandle 0" 1 1]
  by (simp add: demo_rect_def is_in_rect_def [of _ 1] get_region_type_def rect_region_def)

section \<open>Moving\<close>

text \<open>\<open>OffsetRgn\<close> moves every point of the region by the offset, when the moved coordinates
  fit in 32 bits, leaves every other region alone and returns the type of the region.\<close>

theorem OffsetRgn_points:
  assumes ok: "rgn_ok s g" and h: "is_rgn g h" and fits: "shift_fits x y (rgn_obj g h)"
  shows "\<exists>g'. OffsetRgn mem h x y g = Some (get_region_type (rgn_obj g' h), g')
    \<and> api_computes s g h (\<lambda>u v. rgn_points g h (u - x) (v - y)) True g'"
proof -
  let ?p = "Obj (rgn_id g h)"
  have "fst (REGION_OffsetRegion mem ?p ?p x y (rs_store g))" by (simp add: REGION_OffsetRegion_def seq_op_def)
  then show ?thesis
    using api_lift [OF ok h _ computes_offset [where st = "rs_store g" and a = ?p and d = ?p,
        OF rgn_ok_wf [OF ok h] rgn_ok_wf [OF ok h] fits, of mem]] h
    by (simp add: OffsetRgn_def rgn_points_def Let_def)
qed

theorem OffsetRgn_points_witness:
  "\<exists>g'. OffsetRgn all_mem (AsHandle 0) 100 (- 5) demo = Some (get_region_type (rgn_obj g' (AsHandle 0)), g')
    \<and> rgn_points g' (AsHandle 0) 101 (- 4) \<and> \<not> rgn_points g' (AsHandle 0) 1 1"
proof -
  have "shift_fits 100 (- 5) (rgn_obj demo (AsHandle 0))"
    by (simp add: shift_fits_def rect_region_def demo_rect_def x_fits_def y_fits_def in_int32_def)
  from OffsetRgn_points [where s = True and mem = all_mem, OF demo_ok _ this] show ?thesis
    by (auto simp: api_computes_def demo_rect_def is_in_rect_def)
qed

text \<open>\<open>mirror_region\<close> succeeds only with the mirror image of the source in the destination,
  which may be the source itself: point x goes to width - 1 - x, and banding and canonicity
  survive the reversal of every band.\<close>

theorem mirror_region_points:
  assumes ok: "rgn_ok s g" and h: "is_rgn g dst" "is_rgn g src" and fits: "mirror_fits width (rgn_obj g src)"
  shows "\<exists>r g'. mirror_region mem dst src width g = Some (r, g')
    \<and> api_computes s g dst (\<lambda>x y. rgn_points g src (width - 1 - x) y) (r \<noteq> RGN_ERROR) g'
    \<and> (r \<noteq> RGN_ERROR \<longrightarrow> r = get_region_type (rgn_obj g' dst))"
  using type_result_lift [OF ok h(1) _ computes_mirror [OF rgn_ok_wf [OF ok h(2)] rgn_ok_wf [OF ok h(1)] fits, of mem]] h
  by (simp add: mirror_region_def rgn_points_def)

theorem mirror_region_points_witness:
  "\<exists>r g'. mirror_region all_mem (AsHandle 2) (AsHandle 0) 100 demo = Some (r, g')
    \<and> (r \<noteq> RGN_ERROR \<longrightarrow> rgn_points g' (AsHandle 2) 99 0 \<and> \<not> rgn_points g' (AsHandle 2) 89 0)"
proof -
  have "mirror_fits 100 (rgn_obj demo (AsHandle 0))"
    by (simp add: mirror_fits_def rect_region_def demo_rect_def in_int32_def)
  from mirror_region_points [where s = True and mem = all_mem and dst = "AsHandle 2", OF demo_ok _ _ this]
  obtain r g' where "mirror_region all_mem (AsHandle 2) (AsHandle 0) 100 demo = Some (r, g')"
    "api_computes True demo (AsHandle 2) (\<lambda>x y. rgn_points demo (AsHandle 0) (100 - 1 - x) y) (r \<noteq> RGN_ERROR) g'" by auto
  then show ?thesis by (auto simp: api_computes_def demo_rect_def is_in_rect_def)
qed

text \<open>When it succeeds on two different regions, \<open>REGION_FrameRgn\<close> leaves in the destination the
  points of the source that are missing from the source moved left, right, up or down.\<close>

theorem FrameRgn_points:
  assumes ok: "rgn_ok s g" and h: "is_rgn g hDest" "is_rgn g hSrc" "hDest \<noteq> hSrc"
    and xy: "in_int32 (- x)" "in_int32 (- y)"
    and fits: "shift_fits (- x) 0 (rgn_obj g hSrc)" "shift_fits x 0 (rgn_obj g hSrc)"
      "shift_fits 0 (- y) (rgn_obj g hSrc)" "shift_fits 0 y (rgn_obj g hSrc)"
    and run: "REGION_FrameRgn mem hDest hSrc x y g = Some (True, g')"
  shows "(\<forall>u v. rgn_points g' hDest u v \<longleftrightarrow> (let P = rgn_points g hSrc in
      P u v \<and> \<not> (P (u + x) v \<and> P (u - x) v \<and> P u (v + y) \<and> P u (v - y))))
    \<and> (\<forall>h'. is_rgn g h' \<and> h' \<noteq> hDest \<longrightarrow> rgn_obj g' h' = rgn_obj g h')"
proof -
  obtain st' where body: "FrameRgn_body mem (Obj (rgn_id g hDest)) (Obj (rgn_id g hSrc)) x y (rs_store g) = (True, st')"
    and g': "g' = g\<lparr>rs_store := st'\<rparr>"
    using run h by (cases "FrameRgn_body mem (Obj (rgn_id g hDest)) (Obj (rgn_id g hSrc)) x y (rs_store g)")
      (auto simp: REGION_FrameRgn_def bool_result_def split: if_splits)
  have ne: "rgn_id g hSrc \<noteq> rgn_id g hDest" using rgn_ok_inj [OF ok h(2,1)] h(3) by auto
  note res = FrameRgn_body_ok [OF body ne rgn_ok_wf [OF ok h(2)] rgn_ok_wf [OF ok h(1)] xy fits]
  show ?thesis using res rgn_ok_inj [OF ok _ h(1)] by (simp add: g' rgn_points_def)
qed

lemma frame_runs:
  "intersect_new all_mem (one (-1) 0 9 10) (one 1 0 11 10) (one (-1) 0 9 10) = Some (one 1 0 9 10)"
  "intersect_new all_mem (one 1 0 9 10) (one 0 (-1) 10 9) (one 1 0 9 10) = Some (one 1 0 9 9)"
  "intersect_new all_mem (one 1 0 9 9) (one 0 1 10 11) (one 1 0 9 9) = Some (one 1 1 9 9)"
  "subtract_new all_mem (one 0 0 10 10) (one 1 1 9 9) (one 1 1 9 9) \<noteq> None"
  by code_simp+

lemma frame_runs_in_place:
  "intersect_new all_mem (one (-1) 0 9 10) (one 0 0 10 10) (one (-1) 0 9 10) = Some (one 0 0 9 10)"
  "intersect_new all_mem (one 0 0 9 10) (one 0 (-1) 9 9) (one 0 0 9 10) = Some (one 0 0 9 9)"
  "intersect_new all_mem (one 0 0 9 9) (one 0 1 9 10) (one 0 0 9 9) = Some (one 0 1 9 9)"
  "map_option wr_rects (subtract_new all_mem (one 0 1 9 9) (one 0 1 9 9) (one 0 1 9 9)) = Some []"
  by code_simp+

lemma demo_store: "rs_store demo = (\<lambda>p. rect_region (demo_rect (rptr_id p)))"
  by (simp add: demo_def)

lemma rect_region_one: "rect_region (mk_rect l t r b) = one l t r b"
  by (simp add: rect_region_def one_def RGN_DEFAULT_RECTS_def)

lemma init_one: "init_region all_mem (Suc 0) = Some (empty_region (one 0 0 0 0))"
  by (simp add: init_region_def empty_region_def one_def RGN_DEFAULT_RECTS_def)

lemma empty_size [simp]: "wr_size (empty_region reg) = wr_size reg"
  by (simp add: empty_region_def)

lemma demo_objs:
  "rs_store demo (Obj 0) = one 0 0 10 10" "rs_store demo (Obj 2) = one 0 0 1 1"
  by (simp_all add: demo_store rptr_id_def demo_rect_def rect_region_one)

lemma ret_op_sel: "fst (ret_op p st r) = (r \<noteq> None)" "r = Some v \<Longrightarrow> snd (ret_op p st r) = st(p := v)"
  by (auto simp: ret_op_def split: option.splits)

lemmas frame_eval = FrameRgn_body_def demo_objs init_one offset_one in_int32_def intersect_eq subtract_eq
  overlapping_def ret_op_sel

lemma frame_demo: "fst (FrameRgn_body all_mem (Obj 2) (Obj 0) 1 1 (rs_store demo))"
  using frame_runs by (simp add: frame_eval)

lemma frame_demo_in_place:
  "fst (FrameRgn_body all_mem (Obj 0) (Obj 0) 1 1 (rs_store demo))
   \<and> wr_rects (snd (FrameRgn_body all_mem (Obj 0) (Obj 0) 1 1 (rs_store demo)) (Obj 0)) = []"
  using frame_runs_in_place by (auto simp: frame_eval)

theorem FrameRgn_points_witness:
  "\<exists>g'. REGION_FrameRgn all_mem (AsHandle 2) (AsHandle 0) 1 1 demo = Some (True, g')
    \<and> rgn_points g' (AsHandle 2) 0 5 \<and> \<not> rgn_points g' (AsHandle 2) 5 5"
proof -
  obtain g' where run: "REGION_FrameRgn all_mem (AsHandle 2) (AsHandle 0) 1 1 demo = Some (True, g')"
    using frame_demo by (simp add: REGION_FrameRgn_def demo_id bool_result_def demo_objs)
  have "shift_fits a b (rgn_obj demo (AsHandle 0))" if "a \<in> {-1, 0, 1}" "b \<in> {-1, 0, 1}" for a b
    using that by (auto simp: shift_fits_def rect_region_def demo_rect_def x_fits_def y_fits_def in_int32_def)
  then have "\<forall>u v. rgn_points g' (AsHandle 2) u v \<longleftrightarrow> (let P = rgn_points demo (AsHandle 0) in
      P u v \<and> \<not> (P (u + 1) v \<and> P (u - 1) v \<and> P u (v + 1) \<and> P u (v - 1)))"
    using FrameRgn_points [OF demo_ok _ _ _ _ _ _ _ _ _ run] by (simp add: in_int32_def)
  then show ?thesis using run by (simp add: demo_rect_def is_in_rect_def Let_def)
qed

text \<open>\<open>REGION_FrameRgn\<close> with one handle as destination and source moves the source before
  it has been used: framing the square (0,0)-(10,10) onto itself leaves nothing.\<close>

theorem FrameRgn_in_place_empty:
  "\<exists>g'. REGION_FrameRgn all_mem (AsHandle 0) (AsHandle 0) 1 1 demo = Some (True, g')
    \<and> wr_rects (rgn_obj g' (AsHandle 0)) = []"
  using frame_demo_in_place by (simp add: REGION_FrameRgn_def demo_id bool_result_def demo_objs)

section \<open>Creating and changing regions\<close>

text \<open>\<open>CreateRectRgn\<close> either returns null and changes nothing, or returns a new handle on a
  region whose points are those of the rectangle, its sides put in order, with every other
  region unchanged and the GDI count one higher.\<close>

theorem CreateRectRgn_creates:
  assumes "rgn_ok s g"
  shows "\<exists>h g'. CreateRectRgn obj mem l t r b g = Some (h, g')
    \<and> (if h = NullHandle then g' = g else creates s g (is_in_rect (order_rect (mk_rect l t r b))) h g')"
  by (rule CreateRectRgn_cases [OF assms])

theorem CreateRectRgn_creates_witness:
  "\<exists>h g'. CreateRectRgn True all_mem 8 2 3 5 demo = Some (h, g') \<and> (h = NullHandle \<or> (rgn_points g' h 3 4 \<and> \<not> rgn_points g' h 8 4))"
proof -
  obtain h g' where "CreateRectRgn True all_mem 8 2 3 5 demo = Some (h, g')"
    "if h = NullHandle then g' = demo else creates True demo (is_in_rect (order_rect (mk_rect 8 2 3 5))) h g'"
    using CreateRectRgn_creates [OF demo_ok] by blast
  then show ?thesis by (auto simp: creates_def order_rect_def is_in_rect_def split: if_splits)
qed

text \<open>\<open>SetRectRgn\<close> on a live region always succeeds and makes it the given rectangle, in
  whatever order the sides come, and empty when the rectangle has no width or no height.\<close>

theorem SetRectRgn_points:
  assumes ok: "rgn_ok s g" and h: "is_rgn g h"
  shows "\<exists>g'. SetRectRgn h l t r b g = Some (True, g')
    \<and> api_computes s g h (is_in_rect (order_rect (mk_rect l t r b))) True g'"
proof -
  let ?st = "(rs_store g)(Obj (rgn_id g h) := set_rect_region l t r b (rgn_obj g h))"
  have "computes s {} (rs_store g) (Obj (rgn_id g h)) (is_in_rect (order_rect (mk_rect l t r b))) (True, ?st)"
    using set_rect_region_points set_rect_region_wf [OF wf_cap [OF rgn_ok_wf [OF ok h]]] by (simp add: computes_True)
  from api_lift [OF ok h _ this] h show ?thesis by (simp add: SetRectRgn_def update_op_def bool_result_def)
qed

theorem SetRectRgn_points_witness:
  "\<exists>g'. SetRectRgn (AsHandle 1) 7 7 4 9 demo = Some (True, g') \<and> rgn_points g' (AsHandle 1) 4 8 \<and> \<not> rgn_points g' (AsHandle 1) 19 19"
  using SetRectRgn_points [OF demo_ok, of "AsHandle 1" 7 7 4 9 True]
  by (auto simp: api_computes_def order_rect_def is_in_rect_def)

text \<open>\<open>add_rect_to_region\<close> returns true only with the points of a non-empty rectangle added to
  the region, and on false leaves it as it was.\<close>

theorem add_rect_to_region_points:
  assumes ok: "rgn_ok s g" and h: "is_rgn g h" and q: "rect_ok q"
  shows "\<exists>r g'. add_rect_to_region mem h q g = Some (r, g')
    \<and> api_computes s g h (\<lambda>x y. rgn_points g h x y \<or> is_in_rect q x y) r g'"
  using bool_result_lift [OF ok h _ computes_union_rect [of s "rs_store g" "rgn_id g h", OF rgn_ok_wf [OF ok h] q, of mem]] h
  by (simp add: add_rect_to_region_def rgn_points_def)

theorem add_rect_to_region_points_witness:
  "\<exists>r g'. add_rect_to_region all_mem (AsHandle 2) (mk_rect 1 1 3 4) demo = Some (r, g')
    \<and> (r \<longrightarrow> rgn_points g' (AsHandle 2) 0 0 \<and> rgn_points g' (AsHandle 2) 2 3 \<and> \<not> rgn_points g' (AsHandle 2) 0 1)"
proof -
  obtain r g' where "add_rect_to_region all_mem (AsHandle 2) (mk_rect 1 1 3 4) demo = Some (r, g')"
    "api_computes True demo (AsHandle 2) (\<lambda>x y. rgn_points demo (AsHandle 2) x y \<or> is_in_rect (mk_rect 1 1 3 4) x y) r g'"
    using add_rect_to_region_points [where s = True and mem = all_mem, OF demo_ok, of "AsHandle 2" "mk_rect 1 1 3 4"]
    by (auto simp: rect_ok_def)
  then show ?thesis by (auto simp: api_computes_def demo_rect_def is_in_rect_def)
qed

text \<open>\<open>ExtCreateRegion\<close> without a transformation accepts any rectangles, overlapping, unordered
  or empty: when it returns a handle, the new region has exactly the points that some
  rectangle of the data contains; when it returns null, no region has changed.\<close>

theorem ExtCreateRegion_points:
  assumes "rgn_ok s g" "rd_dwSize d \<ge> 32" "nat (rd_nCount d) \<le> length (rd_Buffer d)"
  shows "\<exists>h g'. ExtCreateRegion obj mem count (Some d) g = Some (h, g')
    \<and> (if h = NullHandle then \<forall>h'. is_rgn g h' \<longrightarrow> is_rgn g' h' \<and> rgn_obj g' h' = rgn_obj g h'
       else creates s g (covers (take (nat (rd_nCount d)) (rd_Buffer d))) h g')"
  by (rule ExtCreateRegion_cases [OF assms])

definition demo_data :: rgndata where
  "demo_data = \<lparr>rd_dwSize = 32, rd_iType = RDH_RECTANGLES, rd_nCount = 2, rd_nRgnSize = 32,
     rd_rcBound = mk_rect 0 0 0 0, rd_Buffer = [mk_rect 4 4 9 9, mk_rect 2 2 5 5]\<rparr>"

theorem ExtCreateRegion_points_witness:
  "\<exists>h g'. ExtCreateRegion True all_mem 64 (Some demo_data) demo = Some (h, g')
    \<and> (h = NullHandle \<or> (rgn_points g' h 2 3 \<and> rgn_points g' h 8 8 \<and> \<not> rgn_points g' h 2 8))"
proof -
  obtain h g' where "ExtCreateRegion True all_mem 64 (Some demo_data) demo = Some (h, g')"
    "h \<noteq> NullHandle \<Longrightarrow> creates True demo (covers (rd_Buffer demo_data)) h g'"
    using ExtCreateRegion_points [where s = True, OF demo_ok, of demo_data True all_mem 64]
    by (auto simp: demo_data_def split: if_splits)
  then show ?thesis by (auto simp: creates_def demo_data_def covers_Cons is_in_rect_def)
qed

text \<open>C13: the round trip of region data: when memory can be had and the region has at most 67,108,863 rectangles, what \<open>GetRegionData\<close> writes
  into a large enough buffer makes \<open>ExtCreateRegion\<close> return the handle of a new region, which \<open>EqualRgn\<close> calls equal.\<close>

theorem RegionData_roundtrip:
  assumes ok: "rgn_ok True g" and h: "is_rgn g h" and mem: "\<forall>n. mem n"
    and size: "2 * int (numRects (rgn_obj g h)) \<le> 134217727" "count \<ge> 32 + 16 * int (numRects (rgn_obj g h))"
  shows "\<exists>n d h' g'. GetRegionData h count (Some buf) g = Some ((n, Some d), g)
    \<and> n = 32 + 16 * int (numRects (rgn_obj g h))
    \<and> ExtCreateRegion True mem n (Some d) g = Some (h', g')
    \<and> h' \<noteq> NullHandle \<and> \<not> is_rgn g h' \<and> is_rgn g' h' \<and> EqualRgn h h' g' = Some (True, g')"
proof -
  let ?reg = "rgn_obj g h"
  let ?d = "\<lparr>rd_dwSize = 32, rd_iType = RDH_RECTANGLES, rd_nCount = int (numRects ?reg),
    rd_nRgnSize = 16 * int (numRects ?reg), rd_rcBound = wr_extents ?reg, rd_Buffer = wr_rects ?reg\<rparr>"
  have get: "GetRegionData h count (Some buf) g = Some ((32 + 16 * int (numRects ?reg), Some ?d), g)"
    using h size by (simp add: GetRegionData_def Let_def dword_def)
  have "canonical (wr_rects ?reg)" using rgn_ok_wf [OF ok h] by (simp add: wf_region_def good_def canonical_def)
  then obtain h' g' where e: "ExtCreateRegion True mem (32 + 16 * int (numRects ?reg)) (Some ?d) g = Some (h', g')"
    and c: "h' \<noteq> NullHandle" "creates True g (covers (wr_rects ?reg)) h' g'"
    using ExtCreateRegion_granted [OF ok mem, of ?d "32 + 16 * int (numRects ?reg)"] size(1) by auto
  have n: "rgn_ok True g'" "is_rgn g' h'" "is_rgn g' h" "\<not> is_rgn g h'" "rgn_points g' h' = points ?reg" "rgn_points g' h = points ?reg"
    using c h by (auto simp: creates_def points_def rgn_points_def)
  then have "EqualRgn h h' g' = Some (True, g')" using equal_regions_iff [OF rgn_ok_wf rgn_ok_wf, OF n(1,3) n(1,2)]
    by (simp add: EqualRgn_def rgn_points_def)
  with get e c n show ?thesis by blast
qed

theorem RegionData_roundtrip_witness:
  "\<exists>d h' g'. GetRegionData (AsHandle 1) 48 (Some demo_data) demo = Some ((48, Some d), demo)
    \<and> ExtCreateRegion True all_mem 48 (Some d) demo = Some (h', g')
    \<and> h' \<noteq> NullHandle \<and> EqualRgn (AsHandle 1) h' g' = Some (True, g')"
  using RegionData_roundtrip [OF demo_ok, of "AsHandle 1" all_mem 48 demo_data]
  by (auto simp: rect_region_def all_mem_def)

end
