(* ===== verification/Handle_Props.thy ===== *)
theory Handle_Props
  imports Handle_Model
begin

text \<open>
  The properties of handles: the invariant that ties the GDI counter to the live wrappers,
  and the life of a reference count.
\<close>

section \<open>A run of the handle operations\<close>

datatype handle_call = CallInit int nat bool | CallAddRef HANDLE | CallClose HANDLE

definition handle_step :: "handle_call \<Rightarrow> 'a hstate_scheme \<Rightarrow> 'a hstate_scheme option" where
  "handle_step c s =
     (case c of
        CallInit ty ptr cb \<Rightarrow> Some (snd (InitHandle ty ptr cb s))
      | CallAddRef h \<Rightarrow> map_option snd (AddHandleRef h s)
      | CallClose h \<Rightarrow> map_option snd (CloseHandle h s))"

fun handle_run :: "handle_call list \<Rightarrow> 'a hstate_scheme \<Rightarrow> 'a hstate_scheme option" where
  "handle_run [] s = Some s"
| "handle_run (c # cs) s = (case handle_step c s of None \<Rightarrow> None | Some s' \<Rightarrow> handle_run cs s')"

definition no_handles :: hstate where
  "no_handles = \<lparr>hs_heap = (\<lambda>a. None), hs_next = 0, hs_gdi = 0, hs_freed = []\<rparr>"

lemma handle_step_ok: "handles_ok s \<Longrightarrow> handle_step c s = Some s' \<Longrightarrow> handles_ok s'"
  using InitHandle_ok AddHandleRef_ok CloseHandle_ok
  by (cases c) (auto simp: handle_step_def)

lemma handle_run_ok: "handle_run cs s = Some s' \<Longrightarrow> handles_ok s \<Longrightarrow> handles_ok s'"
  by (induction cs s rule: handle_run.induct) (auto split: option.splits dest: handle_step_ok)

lemma no_handles_ok: "handles_ok no_handles"
  by (simp add: handles_ok_def no_handles_def gdi_live_def)

section \<open>Properties\<close>

text \<open>C14: in every run of \<open>InitHandle\<close>, \<open>AddHandleRef\<close> and \<open>CloseHandle\<close> from the empty state that
  does not touch a dead handle, \<^verbatim>\<open>GetGuiResources(GR_GDIOBJECTS)\<close> is the number of live GDI
  objects, whatever mix of other handle types there is.\<close>

theorem GetGuiResources_counts:
  assumes "handle_run cs no_handles = Some s"
  shows "GetGuiResources GR_GDIOBJECTS s = int (card (gdi_live s)) mod 4294967296"
  using handle_run_ok [OF assms no_handles_ok] by (simp add: GetGuiResources_def handles_ok_def)

theorem GetGuiResources_counts_witness:
  "\<exists>s. handle_run [CallInit 8 5 True, CallInit 20 6 True, CallAddRef (AsHandle 0), CallClose (AsHandle 1)] no_handles = Some s
     \<and> GetGuiResources GR_GDIOBJECTS s = int (card (gdi_live s)) mod 4294967296 \<and> GetGuiResources GR_GDIOBJECTS s = 1"
proof -
  let ?cs = "[CallInit 8 5 True, CallInit 20 6 True, CallAddRef (AsHandle 0), CallClose (AsHandle 1)]"
  have "map_option hs_gdi (handle_run ?cs no_handles) = Some 1" by code_simp
  then obtain s where run: "handle_run ?cs no_handles = Some s" and one: "hs_gdi s = 1" by auto
  from GetGuiResources_counts [OF run] run one show ?thesis by (auto simp: GetGuiResources_def)
qed

text \<open>C15: a wrapper whose count is n survives n - 1 calls of \<open>CloseHandle\<close>, and the n-th call
  deletes it, runs its \<^verbatim>\<open>cbFree\<close> on the object exactly once, and touches no other handle.\<close>

primrec close_times :: "nat \<Rightarrow> HANDLE \<Rightarrow> 'a hstate_scheme \<Rightarrow> 'a hstate_scheme option" where
  "close_times 0 h s = Some s"
| "close_times (Suc n) h s = (case CloseHandle h s of None \<Rightarrow> None | Some (_, s') \<Rightarrow> close_times n h s')"

lemma close_times_alive:
  "\<lbrakk>hs_heap s a = Some w; h_cbFree w; h_nRef w = int n + int k; 0 < k\<rbrakk> \<Longrightarrow>
   close_times n (AsHandle a) s = Some (if n = 0 then s
     else s\<lparr>hs_heap := (hs_heap s)(a \<mapsto> w\<lparr>h_nRef := int k\<rparr>)\<rparr>)"
proof (induction n arbitrary: s w)
  case (Suc n)
  let ?s1 = "s\<lparr>hs_heap := (hs_heap s)(a \<mapsto> w\<lparr>h_nRef := h_nRef w - 1\<rparr>)\<rparr>"
  have "CloseHandle (AsHandle a) s = Some (True, ?s1)"
    by (rule CloseHandle_cases(2) [OF Suc.prems(1,2)]) (use Suc.prems in simp)
  moreover have "close_times n (AsHandle a) ?s1 = Some (if n = 0 then ?s1
     else ?s1\<lparr>hs_heap := (hs_heap ?s1)(a \<mapsto> (w\<lparr>h_nRef := h_nRef w - 1\<rparr>)\<lparr>h_nRef := int k\<rparr>)\<rparr>)"
    by (rule Suc.IH) (use Suc.prems in auto)
  ultimately show ?case using Suc.prems by auto
qed simp

lemma close_times_append:
  "close_times (n + m) h s = (case close_times n h s of None \<Rightarrow> None | Some s' \<Rightarrow> close_times m h s')"
  by (induction n arbitrary: s) (auto split: option.splits)

theorem CloseHandle_last:
  assumes w: "hs_heap s a = Some w" "h_cbFree w" "h_nRef w = int (Suc n)"
  shows "(\<exists>s1. close_times n (AsHandle a) s = Some s1 \<and> hs_heap s1 a = Some (w\<lparr>h_nRef := 1\<rparr>) \<and> hs_freed s1 = hs_freed s)
    \<and> (\<exists>s2. close_times (Suc n) (AsHandle a) s = Some s2 \<and> hs_heap s2 a = None
         \<and> hs_freed s2 = h_ptr w # hs_freed s \<and> (\<forall>b. b \<noteq> a \<longrightarrow> hs_heap s2 b = hs_heap s b))"
proof -
  let ?s1 = "if n = 0 then s else s\<lparr>hs_heap := (hs_heap s)(a \<mapsto> w\<lparr>h_nRef := 1\<rparr>)\<rparr>"
  have 1: "close_times n (AsHandle a) s = Some ?s1"
    using close_times_alive [OF w(1,2), of n 1] w(3) by simp
  have alive: "hs_heap ?s1 a = Some (w\<lparr>h_nRef := 1\<rparr>)" "hs_freed ?s1 = hs_freed s"
    "\<forall>b. b \<noteq> a \<longrightarrow> hs_heap ?s1 b = hs_heap s b" using w by (cases w; auto)+
  have "close_times (Suc n) (AsHandle a) s = close_times 1 (AsHandle a) ?s1"
    unfolding Suc_eq_plus1 close_times_append [of n 1] 1 by (simp only: option.simps)
  then show ?thesis using 1 alive CloseHandle_cases(3) [OF alive(1)] w by auto
qed

theorem CloseHandle_last_witness:
  "\<exists>s2. close_times 2 (AsHandle 0) (no_handles\<lparr>hs_heap := [0 \<mapsto> \<lparr>h_type = 20, h_nRef = 2, h_ptr = 7, h_cbFree = True\<rparr>]\<rparr>)
     = Some s2 \<and> hs_heap s2 0 = None \<and> hs_freed s2 = [7]"
  using CloseHandle_last [of "no_handles\<lparr>hs_heap := [0 \<mapsto> \<lparr>h_type = 20, h_nRef = 2, h_ptr = 7, h_cbFree = True\<rparr>]\<rparr>" 0
      "\<lparr>h_type = 20, h_nRef = 2, h_ptr = 7, h_cbFree = True\<rparr>" 1]
  by (auto simp: no_handles_def numeral_2_eq_2)

end
