(* ===== verification/Uniconv_Model.thy ===== *)
theory Uniconv_Model
  imports Swinx_Prelude "HOL-Library.Word"
begin

text \<open>
  The conversions between UTF-8, UTF-16 and UTF-32 of \<^verbatim>\<open>src/uniconv.cpp\<close>. An array and its
  length are one list, code units are integers in range; a read past the end of the source,
  or a write past the end of the destination, is undefined in the code and \<open>None\<close> here. The
  output is the list of the units written, without the terminator that the functions add when
  the buffer has room for it.
\<close>

unbundle bit_operations_syntax

section \<open>Constants and lengths\<close>

definition SURROGATE_LEAD_FIRST :: int where "SURROGATE_LEAD_FIRST = 0xD800"

definition SURROGATE_LEAD_LAST :: int where "SURROGATE_LEAD_LAST = 0xDBFF"

definition SURROGATE_TRAIL_FIRST :: int where "SURROGATE_TRAIL_FIRST = 0xDC00"

definition SURROGATE_TRAIL_LAST :: int where "SURROGATE_TRAIL_LAST = 0xDFFF"

lemmas surrogate_defs = SURROGATE_LEAD_FIRST_def SURROGATE_LEAD_LAST_def SURROGATE_TRAIL_FIRST_def
  SURROGATE_TRAIL_LAST_def

definition UTF8CharLength :: "int \<Rightarrow> nat" where
  "UTF8CharLength ch =
     (if ch < 0x80 then 1 else if ch < 0x80 + 0x40 + 0x20 then 2
      else if ch < 0x80 + 0x40 + 0x20 + 0x10 then 3 else 4)"

definition UTF16CharLength :: "int \<Rightarrow> nat" where
  "UTF16CharLength uch = (if uch \<ge> SURROGATE_LEAD_FIRST \<and> uch \<le> SURROGATE_LEAD_LAST then 2 else 1)"

definition is_surrogate :: "int \<Rightarrow> bool" where
  "is_surrogate uch \<longleftrightarrow> uch \<ge> SURROGATE_LEAD_FIRST \<and> uch \<le> SURROGATE_TRAIL_LAST"

text \<open>The loop skips the unit after a surrogate without reading it.\<close>

fun UTF16toUTF8Length :: "int list \<Rightarrow> nat" where
  "UTF16toUTF8Length [] = 0"
| "UTF16toUTF8Length (uch # us) =
     (if uch < 0x80 then 1 + UTF16toUTF8Length us
      else if uch < 0x800 then 2 + UTF16toUTF8Length us
      else if is_surrogate uch then (case us of [] \<Rightarrow> 4 | _ # vs \<Rightarrow> 4 + UTF16toUTF8Length vs)
      else 3 + UTF16toUTF8Length us)"

fun UTF32toUTF8Length :: "int list \<Rightarrow> nat" where
  "UTF32toUTF8Length [] = 0"
| "UTF32toUTF8Length (uch # us) =
     (if uch < 0x80 then 1 else if uch < 0x800 then 2 else if uch < 0x10000 then 3
      else if uch < 0x200000 then 4 else 0) + UTF32toUTF8Length us"

text \<open>
  \<open>UTF16Length\<close> and \<open>UTF32Length\<close> return the number of units and the number of bytes of an
  incomplete last character, \<open>None\<close> where \<^verbatim>\<open>unconvertedCharacters\<close> is left alone.
\<close>

fun UTF16Length :: "int list \<Rightarrow> nat \<times> nat option" where
  "UTF16Length [] = (0, None)"
| "UTF16Length (ch # s) =
     (let charLen = UTF8CharLength ch; extra = (if charLen = 4 then 1 else 0)
      in if length (ch # s) < charLen then (extra, Some (length (ch # s)))
         else (let (n, u) = UTF16Length (drop (charLen - 1) s) in (extra + 1 + n, u)))"

fun UTF32Length :: "int list \<Rightarrow> nat \<times> nat option" where
  "UTF32Length [] = (0, None)"
| "UTF32Length (ch # s) =
     (let charLen = UTF8CharLength ch
      in if length (ch # s) < charLen then (0, Some (length (ch # s)))
         else (let (n, u) = UTF32Length (drop (charLen - 1) s) in (1 + n, u)))"

section \<open>Encoding\<close>

definition to_char :: "int \<Rightarrow> int" where
  "to_char x = x mod 256"

definition enc2 :: "int \<Rightarrow> int list" where
  "enc2 uch = [to_char (0xC0 OR drop_bit 6 uch), to_char (0x80 OR (uch AND 0x3f))]"

definition enc3 :: "int \<Rightarrow> int list" where
  "enc3 uch = [to_char (0xE0 OR drop_bit 12 uch), to_char (0x80 OR (drop_bit 6 uch AND 0x3f)),
     to_char (0x80 OR (uch AND 0x3f))]"

definition enc4 :: "int \<Rightarrow> int list" where
  "enc4 xch = [to_char (0xF0 OR drop_bit 18 xch), to_char (0x80 OR (drop_bit 12 xch AND 0x3f)),
     to_char (0x80 OR (drop_bit 6 xch AND 0x3f)), to_char (0x80 OR (xch AND 0x3f))]"

fun UTF8FromUTF16 :: "int list \<Rightarrow> int list option" where
  "UTF8FromUTF16 [] = Some []"
| "UTF8FromUTF16 (uch # us) =
     (if uch < 0x80 then map_option ((@) [to_char uch]) (UTF8FromUTF16 us)
      else if uch < 0x800 then map_option ((@) (enc2 uch)) (UTF8FromUTF16 us)
      else if is_surrogate uch then
        (case us of
           [] \<Rightarrow> None
         | v # vs \<Rightarrow> map_option ((@) (enc4 (0x10000 + push_bit 10 (uch AND 0x3ff) + (v AND 0x3ff)))) (UTF8FromUTF16 vs))
      else map_option ((@) (enc3 uch)) (UTF8FromUTF16 us))"

fun UTF8FromUTF32 :: "int list \<Rightarrow> int list" where
  "UTF8FromUTF32 [] = []"
| "UTF8FromUTF32 (uch # us) =
     (if uch < 0x80 then [to_char uch] else if uch < 0x800 then enc2 uch
      else if uch < 0x10000 then enc3 uch else if uch < 0x200000 then enc4 uch else []) @ UTF8FromUTF32 us"

section \<open>Decoding\<close>

definition uint16 :: "int \<Rightarrow> int" where
  "uint16 x = x mod 65536"

definition dec2 :: "int \<Rightarrow> int \<Rightarrow> int" where
  "dec2 c1 c2 = push_bit 6 (c1 AND 0x1F) + (c2 AND 0x7F)"

definition dec3 :: "int \<Rightarrow> int \<Rightarrow> int \<Rightarrow> int" where
  "dec3 c1 c2 c3 = push_bit 12 (c1 AND 0xF) + push_bit 6 (c2 AND 0x7F) + (c3 AND 0x7F)"

definition dec4 :: "int \<Rightarrow> int \<Rightarrow> int \<Rightarrow> int \<Rightarrow> int" where
  "dec4 c1 c2 c3 c4 = push_bit 18 (c1 AND 0x7) + push_bit 12 (c2 AND 0x3F) + push_bit 6 (c3 AND 0x3F) + (c4 AND 0x3F)"

text \<open>
  The loop of \<open>UTF16FromUTF8\<close>: \<open>free\<close> is \<^verbatim>\<open>tlen - ui\<close>. A character of four bytes writes two units
  without looking at \<open>free\<close> again.
\<close>

fun UTF16FromUTF8 :: "int list \<Rightarrow> nat \<Rightarrow> int list option" where
  "UTF16FromUTF8 [] free = Some []"
| "UTF16FromUTF8 (c1 # s) free =
     (if free = 0 then Some []
      else if c1 < 0x80 then map_option ((#) c1) (UTF16FromUTF8 s (free - 1))
      else if c1 < 0x80 + 0x40 + 0x20 then
        (case s of
           c2 # s2 \<Rightarrow> map_option ((#) (uint16 (dec2 c1 c2))) (UTF16FromUTF8 s2 (free - 1))
         | _ \<Rightarrow> None)
      else if c1 < 0x80 + 0x40 + 0x20 + 0x10 then
        (case s of
           c2 # c3 # s3 \<Rightarrow> map_option ((#) (uint16 (dec3 c1 c2 c3))) (UTF16FromUTF8 s3 (free - 1))
         | _ \<Rightarrow> None)
      else
        (case s of
           c2 # c3 # c4 # s4 \<Rightarrow>
             if free < 2 then None
             else (let val = dec4 c1 c2 c3 c4 in
               map_option ((@) [uint16 (drop_bit 10 (val - 0x10000) + SURROGATE_LEAD_FIRST),
                                uint16 ((val AND 0x3ff) + SURROGATE_TRAIL_FIRST)]) (UTF16FromUTF8 s4 (free - 2)))
         | _ \<Rightarrow> None))"

fun UTF32FromUTF8 :: "int list \<Rightarrow> nat \<Rightarrow> int list option" where
  "UTF32FromUTF8 [] free = Some []"
| "UTF32FromUTF8 (c1 # s) free =
     (if free = 0 then Some []
      else if c1 < 0x80 then map_option ((#) c1) (UTF32FromUTF8 s (free - 1))
      else if c1 < 0x80 + 0x40 + 0x20 then
        (case s of
           c2 # s2 \<Rightarrow> map_option ((#) (dec2 c1 c2)) (UTF32FromUTF8 s2 (free - 1))
         | _ \<Rightarrow> None)
      else if c1 < 0x80 + 0x40 + 0x20 + 0x10 then
        (case s of
           c2 # c3 # s3 \<Rightarrow> map_option ((#) (dec3 c1 c2 c3)) (UTF32FromUTF8 s3 (free - 1))
         | _ \<Rightarrow> None)
      else
        (case s of
           c2 # c3 # c4 # s4 \<Rightarrow> map_option ((#) (dec4 c1 c2 c3 c4)) (UTF32FromUTF8 s4 (free - 1))
         | _ \<Rightarrow> None))"

section \<open>Bits as arithmetic\<close>

lemma and_masks [simp]:
  "(x :: int) AND 0x3f = x mod 64" "x AND 0x3ff = x mod 1024" "x AND 0x7f = x mod 128"
  "x AND 0x1f = x mod 32" "x AND 0xf = x mod 16" "x AND 0x7 = x mod 8"
  using take_bit_eq_mask [of 6 x] take_bit_eq_mask [of 10 x] take_bit_eq_mask [of 7 x]
    take_bit_eq_mask [of 5 x] take_bit_eq_mask [of 4 x] take_bit_eq_mask [of 3 x]
  by (simp_all add: take_bit_eq_mod mask_eq_exp_minus_1)

lemma or_add: "0 \<le> x \<Longrightarrow> x < 2 ^ n \<Longrightarrow> push_bit n a OR x = push_bit n a + (x :: int)"
proof (rule disjunctive_add [symmetric])
  fix k assume x: "0 \<le> x" "x < 2 ^ n"
  show "\<not> bit (push_bit n a) k \<or> \<not> bit x k"
  proof (cases "k < n")
    case False
    then have "x < 2 ^ k" using x(2) by (meson le_less_trans less_le_trans not_less one_le_numeral power_increasing)
    then show ?thesis using x(1) by (simp add: bit_iff_odd div_pos_pos_trivial)
  qed (simp add: bit_push_bit_iff)
qed

lemma or_leads:
  "0 \<le> x \<Longrightarrow> x < 64 \<Longrightarrow> 0x80 OR x = 0x80 + (x :: int)"
  "0 \<le> x \<Longrightarrow> x < 32 \<Longrightarrow> 0xC0 OR x = 0xC0 + (x :: int)"
  "0 \<le> x \<Longrightarrow> x < 16 \<Longrightarrow> 0xE0 OR x = 0xE0 + (x :: int)"
  "0 \<le> x \<Longrightarrow> x < 8 \<Longrightarrow> 0xF0 OR x = 0xF0 + (x :: int)"
  using or_add [of x 6 2] or_add [of x 5 6] or_add [of x 4 14] or_add [of x 3 30] by (simp_all add: push_bit_eq_mult)

end
