(* ===== verification/Strapi_Model.thy ===== *)
theory Strapi_Model
  imports Uniconv_Model
begin

text \<open>
  The string functions of \<^verbatim>\<open>src/strapi.cpp\<close> that have their own logic: the checked copies,
  stepping to the next character, case conversion of buffers, splitting a path, and the
  character types. C strings are lists without the terminator; \<^verbatim>\<open>wchar_t\<close> has 32 bits, as in
  every build that is not for Windows.
\<close>

section \<open>Checked copies\<close>

definition EINVAL :: int where "EINVAL = 22"

definition ERANGE :: int where "ERANGE = 34"

text \<open>
  \<open>strcpy_s\<close>: the destination as \<^verbatim>\<open>num\<close> cells, \<open>None\<close> for null; the copy overwrites the front
  with the string and its terminator.
\<close>

definition overwrite :: "int list \<Rightarrow> int list \<Rightarrow> int list" where
  "overwrite new buf = new @ drop (length new) buf"

definition strcpy_s :: "int list option \<Rightarrow> int list option \<Rightarrow> int \<times> int list option" where
  "strcpy_s destination source =
     (case destination of
        None \<Rightarrow> (EINVAL, None)
      | Some buf \<Rightarrow>
          if length buf = 0 then (EINVAL, Some buf)
          else (case source of
                  None \<Rightarrow> (EINVAL, Some (overwrite [0] buf))
                | Some s \<Rightarrow>
                    if length s \<ge> length buf then (ERANGE, Some (overwrite [0] buf))
                    else (0, Some (overwrite (s @ [0]) buf))))"

definition wcscpy_s :: "int list option \<Rightarrow> int list option \<Rightarrow> int \<times> int list option" where
  "wcscpy_s = strcpy_s"

section \<open>Stepping\<close>

definition WideCharLength :: "int \<Rightarrow> nat" where
  "WideCharLength ch = 1"

definition mbsinc :: "int \<Rightarrow> nat \<Rightarrow> nat" where
  "mbsinc ch off = off + UTF8CharLength ch"

text \<open>The offset \<open>CharNextA\<close> moves to from the start of \<open>s\<close>.\<close>

definition CharNextA :: "int list \<Rightarrow> nat" where
  "CharNextA s = (case s of [] \<Rightarrow> 0 | c # _ \<Rightarrow> mbsinc c 0)"

definition CharNextW :: "int list \<Rightarrow> nat" where
  "CharNextW s = (case s of c # _ \<Rightarrow> (if c \<ge> 0xD800 \<and> c \<le> 0xDBFF then 2 else 1) | [] \<Rightarrow> 1)"

section \<open>Case conversion\<close>

text \<open>\<^verbatim>\<open>tolower\<close> and \<^verbatim>\<open>toupper\<close> of the C locale.\<close>

definition tolower :: "int \<Rightarrow> int" where
  "tolower c = (if 65 \<le> c \<and> c \<le> 90 then c + 32 else c)"

definition toupper :: "int \<Rightarrow> int" where
  "toupper c = (if 97 \<le> c \<and> c \<le> 122 then c - 32 else c)"

text \<open>
  The loop of \<open>CharLowerBuffA\<close> and its three siblings over the first \<^verbatim>\<open>cchLength\<close> cells, with the
  length of a character and the case function as parameters: the number of cells passed and
  the cells.
\<close>

function char_buff_loop :: "(int \<Rightarrow> nat) \<Rightarrow> (int \<Rightarrow> int) \<Rightarrow> int list \<Rightarrow> nat \<times> int list" where
  "char_buff_loop len f [] = (0, [])"
| "char_buff_loop len f (c # s) =
     (let charLen = len c
      in if charLen > length (c # s) \<or> charLen = 0 then (0, c # s)
         else (let (i, out) = char_buff_loop len f (drop charLen (c # s))
               in (charLen + i, (if charLen = 1 then [f c] else take charLen (c # s)) @ out)))"
  by pat_completeness auto
termination
  by (relation "measure (\<lambda>(len, f, s). length s)") (auto simp: not_less)

definition CharLowerBuffW :: "int list \<Rightarrow> nat \<times> int list" where
  "CharLowerBuffW = char_buff_loop WideCharLength tolower"

definition CharLowerBuffA :: "int list \<Rightarrow> nat \<times> int list" where
  "CharLowerBuffA = char_buff_loop UTF8CharLength tolower"

definition CharUpperBuffW :: "int list \<Rightarrow> nat \<times> int list" where
  "CharUpperBuffW = char_buff_loop WideCharLength toupper"

definition CharUpperBuffA :: "int list \<Rightarrow> nat \<times> int list" where
  "CharUpperBuffA = char_buff_loop UTF8CharLength toupper"

section \<open>Splitting a path\<close>

definition MAX_PART :: nat where
  "MAX_PART = 256"

text \<open>The last position whose character satisfies the test, counting from \<open>i\<close>.\<close>

fun scan_last :: "(int \<Rightarrow> bool) \<Rightarrow> int list \<Rightarrow> nat \<Rightarrow> nat option \<Rightarrow> nat option" where
  "scan_last P [] i found = found"
| "scan_last P (c # s) i found = scan_last P s (i + 1) (if P c then Some i else found)"

text \<open>\<^verbatim>\<open>strncpy\<close> of \<open>n\<close> characters cut to the size of the buffer, and its terminator.\<close>

definition copy_part :: "nat \<Rightarrow> int list \<Rightarrow> int list" where
  "copy_part n s = take (if n \<ge> MAX_PART then MAX_PART - 1 else n) s"

text \<open>The directory, the name and the extension, as \<open>_splitpath\<close> stores them.\<close>

definition splitpath :: "int list \<Rightarrow> int list \<times> int list \<times> int list" where
  "splitpath path =
     (let lastSlash = scan_last (\<lambda>c. c = 47 \<or> c = 92) path 0 None;
          nameStart = (case lastSlash of None \<Rightarrow> 0 | Some i \<Rightarrow> i + 1);
          lastDot = scan_last (\<lambda>c. c = 46) (drop nameStart path) nameStart None;
          dir = (case lastSlash of None \<Rightarrow> [] | Some i \<Rightarrow> copy_part (i + 1) path);
          nameLen = (case lastDot of None \<Rightarrow> length path - nameStart | Some j \<Rightarrow> j - nameStart);
          fname = copy_part nameLen (drop nameStart path);
          ext = (case lastDot of None \<Rightarrow> [] | Some j \<Rightarrow> copy_part (length path - j) (drop j path))
      in (dir, fname, ext))"

definition wsplitpath :: "int list \<Rightarrow> int list \<times> int list \<times> int list" where
  "wsplitpath = splitpath"

section \<open>Character types\<close>

definition CT_CTYPE1 :: int where "CT_CTYPE1 = 1"

definition CT_CTYPE2 :: int where "CT_CTYPE2 = 2"

definition CT_CTYPE3 :: int where "CT_CTYPE3 = 4"

text \<open>A \<^verbatim>\<open>switch\<close> on the kind of information, with the value for each kind.\<close>

definition by_type :: "int \<Rightarrow> int \<Rightarrow> int \<Rightarrow> int \<Rightarrow> int" where
  "by_type info v1 v2 v3 =
     (if info = CT_CTYPE1 then v1 else if info = CT_CTYPE2 then v2 else if info = CT_CTYPE3 then v3 else 0)"

definition inrange :: "int \<Rightarrow> int \<Rightarrow> int \<Rightarrow> bool" where
  "inrange x a b \<longleftrightarrow> x \<ge> a \<and> x \<le> b"

definition get_char_type :: "int \<Rightarrow> int \<Rightarrow> int" where
  "get_char_type ch info =
     (if ch = 0x3000 then by_type info 0x0200 0x000A 0x8000
      else if ch > 0x7f then by_type info 0x0200 0x000B 0x1000
      else if inrange ch 97 122 then by_type info 0x0002 0x0006 0x8000
      else if inrange ch 65 90 then by_type info 0x0001 0x0006 0x8000
      else if inrange ch 48 57 then by_type info 0x0004 0x0006 0x8000
      else if inrange ch 0x21 0x2f \<or> ch = 0x7F then by_type info 0x0010 0x0006 0x8000
      else if inrange ch 0x21 0x2f \<or> inrange ch 0x3A 0x40 \<or> inrange ch 0x5B 0x60 \<or> inrange ch 0x7B 0x7E
        then by_type info 0x0010 0x0006 0x8000
      else if ch = 0x20 \<or> inrange ch 0x09 0x0D
        then by_type info (if ch = 0x20 then 0x0048 else 0x0008) 0x0006 0x8000
      else 0)"

text \<open>
  The words written to \<^verbatim>\<open>pwCharType\<close>, \<open>None\<close> for the \<^verbatim>\<open>FALSE\<close> return. \<open>n\<close> is the number of
  iterations left, \<^verbatim>\<open>nLength - i\<close>; the source may be longer than \<^verbatim>\<open>nLength\<close>.
\<close>

definition valid_info :: "int \<Rightarrow> bool" where
  "valid_info info \<longleftrightarrow> info = CT_CTYPE1 \<or> info = CT_CTYPE2 \<or> info = CT_CTYPE3"

definition GetStringTypeExW :: "int \<Rightarrow> int list \<Rightarrow> int list option" where
  "GetStringTypeExW info s =
     (if \<not> valid_info info then None
      else Some (concat (map (\<lambda>c. if WideCharLength c > 1
        then replicate (WideCharLength c) (by_type info 0x0200 0x000B 0x0800)
        else [get_char_type c info]) s)))"

text \<open>
  \<open>GetStringTypeExA\<close>: each pass decodes the bytes of one character with the parameter \<open>decode\<close>
  (\<^verbatim>\<open>MultiByteToWideChar\<close>), writes one word per byte, and advances by the length of the wide
  character.
\<close>

definition type_words :: "int \<Rightarrow> nat \<Rightarrow> int \<Rightarrow> int list" where
  "type_words info u8CharLen wc =
     (if WideCharLength wc > 1 then replicate u8CharLen (by_type info 0x0200 0x000B 0x0800)
      else replicate u8CharLen (get_char_type wc info))"

function string_type_loop :: "(int list \<Rightarrow> int) \<Rightarrow> int \<Rightarrow> int list \<Rightarrow> nat \<Rightarrow> int list" where
  "string_type_loop decode info psz n =
     (if n = 0 \<or> psz = [] then []
      else (let u8CharLen = UTF8CharLength (hd psz); wc = decode (take u8CharLen psz); charLen = WideCharLength wc
            in type_words info u8CharLen wc @ string_type_loop decode info (drop charLen psz) (n - charLen)))"
  by pat_completeness auto
termination
  by (relation "measure (\<lambda>(decode, info, psz, n). n)") (auto simp: WideCharLength_def)

declare string_type_loop.simps [simp del]

definition GetStringTypeExA :: "(int list \<Rightarrow> int) \<Rightarrow> int \<Rightarrow> int list \<Rightarrow> int list option" where
  "GetStringTypeExA decode info s =
     (if \<not> valid_info info then None else Some (string_type_loop decode info s (length s)))"

end
