(* ===== verification/Uniconv_Props.thy ===== *)
theory Uniconv_Props
  imports Uniconv_Model
begin

text \<open>
  The conversions against each other: decoding undoes encoding, the length functions give the
  number of units the conversions write, and the two inputs on which the loops leave their
  buffers.
\<close>

section \<open>One character\<close>

lemma enc2_eq: "0x80 \<le> u \<Longrightarrow> u < 0x800 \<Longrightarrow> enc2 u = [192 + u div 64, 128 + u mod 64]"
  by (simp add: enc2_def to_char_def drop_bit_eq_div or_leads)

lemma enc3_eq: "0x800 \<le> u \<Longrightarrow> u < 0x10000 \<Longrightarrow> enc3 u = [224 + u div 4096, 128 + (u div 64) mod 64, 128 + u mod 64]"
  by (simp add: enc3_def to_char_def drop_bit_eq_div or_leads)

lemma enc4_eq: "0x10000 \<le> u \<Longrightarrow> u < 0x200000 \<Longrightarrow>
    enc4 u = [240 + u div 262144, 128 + (u div 4096) mod 64, 128 + (u div 64) mod 64, 128 + u mod 64]"
  by (simp add: enc4_def to_char_def drop_bit_eq_div or_leads)

lemma join64:
  "4096 * (u div 64 div 64) + 64 * ((u div 64) mod 64) + u mod 64 = (u :: int)"
  "262144 * (u div 64 div 64 div 64) + 4096 * ((u div 64 div 64) mod 64) + 64 * ((u div 64) mod 64) + u mod 64 = u"
proof -
  have nest: "4096 * a + 64 * b + c = 64 * (64 * a + b) + c"
    "262144 * a + 4096 * b + 64 * c + d = 64 * (64 * (64 * a + b) + c) + d" for a b c d :: int by simp_all
  show "4096 * (u div 64 div 64) + 64 * ((u div 64) mod 64) + u mod 64 = u"
    "262144 * (u div 64 div 64 div 64) + 4096 * ((u div 64 div 64) mod 64) + 64 * ((u div 64) mod 64) + u mod 64 = u"
    unfolding nest mult_div_mod_eq by (rule refl)+
qed

lemma mod_base: "c mod n = 0 \<Longrightarrow> 0 \<le> a \<Longrightarrow> a < n \<Longrightarrow> (c + a) mod n = (a :: int)"
  by (metis add_0 mod_add_left_eq mod_pos_pos_trivial)

lemma lead_bounds:
  "0 \<le> (u :: int) \<Longrightarrow> u < 0x800 \<Longrightarrow> u div 64 < 32" "0 \<le> u \<Longrightarrow> u < 0x10000 \<Longrightarrow> u div 4096 < 16"
  "0 \<le> u \<Longrightarrow> u < 0x200000 \<Longrightarrow> u div 262144 < 8"
  "0 \<le> u \<Longrightarrow> 0 \<le> u div 64 \<and> 0 \<le> u div 4096 \<and> 0 \<le> u div 262144"
  by auto

lemma mod_tail: "(128 + x mod 64) mod 128 = x mod 64" "(128 + x mod 64) mod 64 = x mod (64 :: int)"
proof -
  have "0 \<le> x mod 64" "x mod 64 < 64" by simp_all
  then show "(128 + x mod 64) mod 128 = x mod 64" "(128 + x mod 64) mod 64 = x mod 64"
    using mod_base [of 128 128 "x mod 64"] mod_base [of 128 64 "x mod 64"] by simp_all
qed

lemma dec2_enc: "0 \<le> u \<Longrightarrow> u < 0x800 \<Longrightarrow> dec2 (192 + u div 64) (128 + u mod 64) = u"
proof -
  assume u: "0 \<le> u" "u < 0x800"
  have "(192 + u div 64) mod 32 = u div 64" using lead_bounds(1,4) [of u] u by (intro mod_base) simp_all
  then show ?thesis by (simp add: dec2_def push_bit_eq_mult mod_tail)
qed

lemma div_chain: "(u :: int) div 4096 = u div 64 div 64" "u div 262144 = u div 64 div 64 div 64"
  by (simp_all add: zdiv_zmult2_eq [symmetric])

lemma poly:
  "(a :: int) * 2 ^ 12 + b * 2 ^ 6 + c = 4096 * a + 64 * b + c"
  "a * 2 ^ 18 + b * 2 ^ 12 + c * 2 ^ 6 + d = 262144 * a + 4096 * b + 64 * c + d"
  by simp_all

lemma dec3_enc: "0 \<le> u \<Longrightarrow> u < 0x10000 \<Longrightarrow> dec3 (224 + u div 4096) (128 + (u div 64) mod 64) (128 + u mod 64) = u"
proof -
  assume u: "0 \<le> u" "u < 0x10000"
  have h: "(224 + u div 4096) mod 16 = u div 4096" using lead_bounds(2,4) [of u] u by (intro mod_base) simp_all
  have "dec3 (224 + u div 4096) (128 + (u div 64) mod 64) (128 + u mod 64) =
      4096 * (u div 64 div 64) + 64 * ((u div 64) mod 64) + u mod 64"
    unfolding dec3_def push_bit_eq_mult and_masks mod_tail h unfolding div_chain poly by (rule refl)
  then show ?thesis unfolding join64 .
qed

lemma dec4_enc: "0 \<le> u \<Longrightarrow> u < 0x200000 \<Longrightarrow>
    dec4 (240 + u div 262144) (128 + (u div 4096) mod 64) (128 + (u div 64) mod 64) (128 + u mod 64) = u"
proof -
  assume u: "0 \<le> u" "u < 0x200000"
  have h: "(240 + u div 262144) mod 8 = u div 262144" using lead_bounds(3,4) [of u] u by (intro mod_base) simp_all
  have "dec4 (240 + u div 262144) (128 + (u div 4096) mod 64) (128 + (u div 64) mod 64) (128 + u mod 64) =
      262144 * (u div 64 div 64 div 64) + 4096 * ((u div 64 div 64) mod 64) + 64 * ((u div 64) mod 64) + u mod 64"
    unfolding dec4_def push_bit_eq_mult and_masks mod_tail h unfolding div_chain poly by (rule refl)
  then show ?thesis unfolding join64 .
qed

section \<open>UTF-32\<close>

text \<open>The bytes of a character as plain variables.\<close>

lemma enc2_bytes:
  assumes "0x80 \<le> u" "u < 0x800"
  obtains a b where "enc2 u = [192 + a, 128 + b]" "0 \<le> a" "a < 32" "0 \<le> b" "b < 64" "dec2 (192 + a) (128 + b) = u"
proof -
  have u: "0 \<le> u" using assms(1) by simp
  note b = lead_bounds(1) [OF u assms(2)] lead_bounds(4) [OF u]
  show thesis
    by (rule that [OF enc2_eq [OF assms]], (rule b | rule b(2) [THEN conjunct1] | rule b(2) [THEN conjunct2, THEN conjunct1]
        | rule b(2) [THEN conjunct2, THEN conjunct2] | rule dec2_enc [OF u assms(2)] | rule pos_mod_sign | rule pos_mod_bound
        | rule zero_less_numeral)+)
qed

lemma enc3_bytes:
  assumes "0x800 \<le> u" "u < 0x10000"
  obtains a b c where "enc3 u = [224 + a, 128 + b, 128 + c]" "0 \<le> a" "a < 16" "0 \<le> b" "b < 64" "0 \<le> c" "c < 64"
    "dec3 (224 + a) (128 + b) (128 + c) = u"
proof -
  have u: "0 \<le> u" using assms(1) by simp
  note b = lead_bounds(2) [OF u assms(2)] lead_bounds(4) [OF u]
  show thesis
    by (rule that [OF enc3_eq [OF assms]], (rule b | rule b(2) [THEN conjunct1] | rule b(2) [THEN conjunct2, THEN conjunct1]
        | rule b(2) [THEN conjunct2, THEN conjunct2] | rule dec3_enc [OF u assms(2)] | rule pos_mod_sign | rule pos_mod_bound
        | rule zero_less_numeral)+)
qed

lemma enc4_bytes:
  assumes "0x10000 \<le> u" "u < 0x200000"
  obtains a b c d where "enc4 u = [240 + a, 128 + b, 128 + c, 128 + d]" "0 \<le> a" "a < 8" "0 \<le> b" "b < 64"
    "0 \<le> c" "c < 64" "0 \<le> d" "d < 64" "dec4 (240 + a) (128 + b) (128 + c) (128 + d) = u"
proof -
  have u: "0 \<le> u" using assms(1) by simp
  note b = lead_bounds(3) [OF u assms(2)] lead_bounds(4) [OF u]
  show thesis
    by (rule that [OF enc4_eq [OF assms]], (rule b | rule b(2) [THEN conjunct1] | rule b(2) [THEN conjunct2, THEN conjunct1]
        | rule b(2) [THEN conjunct2, THEN conjunct2] | rule dec4_enc [OF u assms(2)] | rule pos_mod_sign | rule pos_mod_bound
        | rule zero_less_numeral)+)
qed

text \<open>\<open>UTF32FromUTF8\<close> undoes \<open>UTF8FromUTF32\<close> on every sequence of values below 0x200000, when
  the buffer has room for them.\<close>

theorem UTF32_roundtrip:
  "(\<forall>u\<in>set us. 0 \<le> u \<and> u < 0x200000) \<Longrightarrow> length us \<le> free \<Longrightarrow> UTF32FromUTF8 (UTF8FromUTF32 us) free = Some us"
proof (induction us arbitrary: free)
  case (Cons u us)
  have u: "0 \<le> u" "u < 0x200000" and free: "free \<noteq> 0" using Cons.prems by auto
  have IH: "UTF32FromUTF8 (UTF8FromUTF32 us) (free - 1) = Some us" using Cons by simp
  consider "u < 0x80" | "0x80 \<le> u" "u < 0x800" | "0x800 \<le> u" "u < 0x10000" | "0x10000 \<le> u" by linarith
  then show ?case
  proof cases
    case 1
    then show ?thesis using u free IH by (simp add: to_char_def)
  next
    case 2
    then obtain a b where "enc2 u = [192 + a, 128 + b]" "0 \<le> a" "a < 32" "dec2 (192 + a) (128 + b) = u" by (rule enc2_bytes)
    then show ?thesis using 2 free IH by simp
  next
    case 3
    then obtain a b c where "enc3 u = [224 + a, 128 + b, 128 + c]" "0 \<le> a" "a < 16" "dec3 (224 + a) (128 + b) (128 + c) = u"
      by (rule enc3_bytes)
    then show ?thesis using 3 free IH by simp
  next
    case 4
    then obtain a b c d where "enc4 u = [240 + a, 128 + b, 128 + c, 128 + d]" "0 \<le> a"
      "dec4 (240 + a) (128 + b) (128 + c) (128 + d) = u" using u(2) by (rule enc4_bytes)
    then show ?thesis using 4 u free IH by simp
  qed
qed simp

theorem UTF32_roundtrip_witness:
  "UTF32FromUTF8 (UTF8FromUTF32 [0x24, 0xA3, 0x20AC, 0x10348]) 4 = Some [0x24, 0xA3, 0x20AC, 0x10348]"
  by (rule UTF32_roundtrip) auto

section \<open>UTF-16\<close>

text \<open>Well-formed UTF-16: leads are followed by trails, and trails only follow leads.\<close>

fun wf16 :: "int list \<Rightarrow> bool" where
  "wf16 [] = True"
| "wf16 (u # us) =
     (if 0xD800 \<le> u \<and> u \<le> 0xDBFF
      then (case us of [] \<Rightarrow> False | v # vs \<Rightarrow> 0xDC00 \<le> v \<and> v \<le> 0xDFFF \<and> wf16 vs)
      else 0 \<le> u \<and> u < 0x10000 \<and> \<not> (0xDC00 \<le> u \<and> u \<le> 0xDFFF) \<and> wf16 us)"

lemma mod_shift: "c mod 1024 = 0 \<Longrightarrow> c \<le> v \<Longrightarrow> v < c + 1024 \<Longrightarrow> v mod 1024 = v - (c :: int)"
  using mod_base [of c 1024 "v - c"] by simp

lemma pair_value:
  fixes u v :: int
  assumes "0xD800 \<le> u" "u \<le> 0xDBFF" "0xDC00 \<le> v" "v \<le> 0xDFFF"
  shows "0x10000 + push_bit 10 (u AND 0x3ff) + (v AND 0x3ff) = 0x10000 + 1024 * (u - 0xD800) + (v - 0xDC00)"
  using mod_shift [of "0xD800" u] mod_shift [of "0xDC00" v] assms by (simp add: push_bit_eq_mult)

lemma pair_units:
  fixes u v :: int
  assumes "0xD800 \<le> u" "u \<le> 0xDBFF" "0xDC00 \<le> v" "v \<le> 0xDFFF" "x = 0x10000 + 1024 * (u - 0xD800) + (v - 0xDC00)"
  shows "uint16 (drop_bit 10 (x - 0x10000) + SURROGATE_LEAD_FIRST) = u" "uint16 ((x AND 0x3ff) + SURROGATE_TRAIL_FIRST) = v"
proof -
  have "(1024 * (u - 0xD800) + (v - 0xDC00)) div 1024 = u - 0xD800" "(1024 * (64 + (u - 0xD800)) + (v - 0xDC00)) mod 1024 = v - 0xDC00"
    unfolding mod_mult_self4 div_mult_self4 using assms by simp_all
  moreover have "x - 0x10000 = 1024 * (u - 0xD800) + (v - 0xDC00)" "x = 1024 * (64 + (u - 0xD800)) + (v - 0xDC00)"
    using assms by simp_all
  ultimately have "(x - 0x10000) div 1024 = u - 0xD800" "x mod 1024 = v - 0xDC00" by simp_all
  then show "uint16 (drop_bit 10 (x - 0x10000) + SURROGATE_LEAD_FIRST) = u" "uint16 ((x AND 0x3ff) + SURROGATE_TRAIL_FIRST) = v"
    using assms(1-4) by (simp_all add: uint16_def drop_bit_eq_div surrogate_defs)
qed

lemma wf16_step:
  assumes "wf16 (u # us)"
  obtains (one) "u < 0x80" "0 \<le> u" "wf16 us"
    | (two) "0x80 \<le> u" "u < 0x800" "wf16 us"
    | (three) "0x800 \<le> u" "u < 0x10000" "\<not> is_surrogate u" "wf16 us"
    | (pair) v vs where "us = v # vs" "0xD800 \<le> u" "u \<le> 0xDBFF" "0xDC00 \<le> v" "v \<le> 0xDFFF" "wf16 vs" "is_surrogate u"
  using assms by (fastforce simp: is_surrogate_def surrogate_defs split: if_splits list.splits)

text \<open>C18: \<open>UTF16FromUTF8\<close> undoes \<open>UTF8FromUTF16\<close> on well-formed UTF-16, surrogate pairs included,
  when the buffer has room for the result.\<close>

theorem UTF16_roundtrip:
  "wf16 us \<Longrightarrow> length us \<le> free \<Longrightarrow>
   \<exists>bs. UTF8FromUTF16 us = Some bs \<and> UTF16FromUTF8 bs free = Some us"
proof (induction "length us" arbitrary: us free rule: less_induct)
  case less
  show ?case
  proof (cases us)
    case (Cons u us')
    have free: "free \<noteq> 0" using less.prems(2) Cons by auto
    have IH: "\<exists>bs. UTF8FromUTF16 us' = Some bs \<and> UTF16FromUTF8 bs (free - 1) = Some us'" if "wf16 us'"
      using less.hyps [of us' "free - 1"] less.prems(2) that Cons by auto
    from less.prems(1) [unfolded Cons] show ?thesis
    proof (cases rule: wf16_step)
      case one
      then show ?thesis using free IH by (auto simp: Cons to_char_def)
    next
      case two
      from two(1,2) obtain a b where "enc2 u = [192 + a, 128 + b]" "0 \<le> a" "a < 32" "dec2 (192 + a) (128 + b) = u" by (rule enc2_bytes)
      then show ?thesis using two free IH by (auto simp: Cons uint16_def)
    next
      case three
      from three(1,2) obtain a b c where "enc3 u = [224 + a, 128 + b, 128 + c]" "0 \<le> a" "a < 16"
        "dec3 (224 + a) (128 + b) (128 + c) = u" by (rule enc3_bytes)
      then show ?thesis using three free IH by (auto simp: Cons uint16_def)
    next
      case (pair v vs)
      let ?x = "0x10000 + 1024 * (u - 0xD800) + (v - 0xDC00)"
      have x: "0x10000 \<le> ?x" "?x < 0x200000" using pair by simp_all
      then obtain a b c d where e: "enc4 ?x = [240 + a, 128 + b, 128 + c, 128 + d]" "0 \<le> a"
        "dec4 (240 + a) (128 + b) (128 + c) (128 + d) = ?x" by (rule enc4_bytes)
      obtain bs where bs: "UTF8FromUTF16 vs = Some bs" "UTF16FromUTF8 bs (free - 2) = Some vs"
        using less.hyps [OF _ pair(6), of "free - 2"] less.prems(2) pair(1) Cons by fastforce
      have "UTF8FromUTF16 us = map_option ((@) (enc4 ?x)) (UTF8FromUTF16 vs)"
        unfolding Cons pair(1) pair_value [OF pair(2-5), symmetric] using pair(2,7) by simp
      then have "UTF8FromUTF16 us = Some ([240 + a, 128 + b, 128 + c, 128 + d] @ bs)" unfolding bs(1) e(1) by simp
      moreover have "UTF16FromUTF8 ([240 + a, 128 + b, 128 + c, 128 + d] @ bs) free = Some us"
        using bs(2) e(2) free less.prems(2) pair(1) pair_units [OF pair(2-5) refl]
        by (simp add: Cons e(3) del: and_masks)
      ultimately show ?thesis by blast
    qed
  qed simp
qed

theorem UTF16_roundtrip_witness:
  "\<exists>bs. UTF8FromUTF16 [0x41, 0xD83D, 0xDE00, 0x4E2D] = Some bs \<and> UTF16FromUTF8 bs 4 = Some [0x41, 0xD83D, 0xDE00, 0x4E2D]"
  by (rule UTF16_roundtrip) simp_all

text \<open>\<open>UTF16toUTF8Length\<close> is the number of bytes \<open>UTF8FromUTF16\<close> writes, so a buffer of that
  size is never overrun, on any input on which the conversion does not read past its end.\<close>

lemma enc_lengths [simp]: "length (enc2 u) = 2" "length (enc3 u) = 3" "length (enc4 u) = 4"
  by (simp_all add: enc2_def enc3_def enc4_def)

theorem UTF16toUTF8Length_exact:
  "UTF8FromUTF16 us = Some bs \<Longrightarrow> length bs = UTF16toUTF8Length us"
  by (induction us arbitrary: bs rule: UTF8FromUTF16.induct) (auto split: if_splits list.splits)

theorem UTF16toUTF8Length_exact_witness:
  "length [0x41, 0xC2, 0xA9 :: int] = UTF16toUTF8Length [0x41, 0xA9]"
  by (rule UTF16toUTF8Length_exact) code_simp

lemma char_length_drop:
  "UTF8CharLength c = Suc k \<Longrightarrow> \<not> length (c # s) < UTF8CharLength c \<Longrightarrow> \<exists>t r. s = t @ r \<and> length t = k \<and> drop (UTF8CharLength c - 1) s = r"
  by (rule exI [of _ "take k s"], rule exI [of _ "drop k s"]) simp

text \<open>The length functions for UTF-16 and UTF-32 agree with the conversions: when the source has
  no incomplete last character and the buffer has at least the units \<open>UTF16Length\<close> or
  \<open>UTF32Length\<close> announces, the conversion stays inside both arrays and writes exactly that many.\<close>

theorem UTF16Length_exact:
  "\<lbrakk>UTF16Length s = (n, None); n \<le> free\<rbrakk> \<Longrightarrow> \<exists>us. UTF16FromUTF8 s free = Some us \<and> length us = n"
proof (induction s arbitrary: n free rule: UTF16Length.induct)
  case (2 c s)
  let ?L = "UTF8CharLength c"
  let ?e = "if ?L = 4 then 1 else 0 :: nat"
  have enough: "\<not> length (c # s) < ?L" using "2.prems"(1) by (auto simp: Let_def split: if_splits)
  obtain m where m: "UTF16Length (drop (?L - 1) s) = (m, None)" "n = ?e + 1 + m"
    using "2.prems"(1) enough by (auto simp: Let_def split: if_splits prod.splits)
  have IH: "\<exists>us. UTF16FromUTF8 (drop (?L - 1) s) (free - (?e + 1)) = Some us \<and> length us = m"
    by (rule "2.IH" [OF refl refl enough m(1)]) (use "2.prems"(2) m(2) in simp)
  have free: "free \<noteq> 0" "?L = 4 \<Longrightarrow> 2 \<le> free" using "2.prems"(2) m(2) by (auto split: if_splits)
  consider "c < 0x80" | "0x80 \<le> c" "c < 0xE0" | "0xE0 \<le> c" "c < 0xF0" | "0xF0 \<le> c" by linarith
  then show ?case
  proof cases
    case 1
    then show ?thesis using IH free m(2) by (auto simp: UTF8CharLength_def)
  next
    case 2
    then obtain c2 s2 where "s = c2 # s2" using enough by (cases s) (auto simp: UTF8CharLength_def)
    then show ?thesis using 2 IH free m(2) by (auto simp: UTF8CharLength_def)
  next
    case 3
    then obtain c2 c3 s3 where "s = c2 # c3 # s3" using enough
      by (cases s rule: remdups_adj.cases) (auto simp: UTF8CharLength_def)
    then show ?thesis using 3 IH free m(2) by (auto simp: UTF8CharLength_def)
  next
    case 4
    then obtain c2 c3 c4 s4 where "s = c2 # c3 # c4 # s4" using enough
      by (auto simp: UTF8CharLength_def Suc_le_length_iff not_less eval_nat_numeral)
    then show ?thesis using 4 IH free m(2) by (auto simp: UTF8CharLength_def Let_def numeral_2_eq_2)
  qed
qed simp

theorem UTF16Length_exact_witness:
  "\<exists>us. UTF16FromUTF8 [0x41, 0xE4, 0xB8, 0xAD, 0xF0, 0x9F, 0x98, 0x80] 4 = Some us \<and> length us = 4"
  by (rule UTF16Length_exact [where n = 4]) (simp_all add: UTF8CharLength_def Let_def)

section \<open>Inputs that leave the buffers\<close>

text \<open>With room for one unit only, \<open>UTF16FromUTF8\<close> writes the second half of every character
  of four bytes past the end of the buffer: the loop tests the room once per character.\<close>

theorem UTF16FromUTF8_overrun:
  "0xF0 \<le> c1 \<Longrightarrow> UTF16FromUTF8 (c1 # c2 # c3 # c4 # s) 1 = None"
  by simp

theorem UTF16FromUTF8_overrun_witness: "UTF16FromUTF8 [0xF0, 0x9F, 0x98, 0x80] 1 = None"
  by (rule UTF16FromUTF8_overrun) simp

text \<open>\<open>UTF8FromUTF16\<close> reads one unit past the end of its source exactly when the last character
  it comes to is a surrogate with nothing after it.\<close>

fun ends_in_half :: "int list \<Rightarrow> bool" where
  "ends_in_half [] = False"
| "ends_in_half (u # us) =
     (if 0x800 \<le> u \<and> is_surrogate u then (case us of [] \<Rightarrow> True | _ # vs \<Rightarrow> ends_in_half vs) else ends_in_half us)"

theorem UTF8FromUTF16_overread: "UTF8FromUTF16 us = None \<longleftrightarrow> ends_in_half us"
  by (induction us rule: UTF8FromUTF16.induct)
    (auto simp: is_surrogate_def surrogate_defs split: list.splits)

end
