(* ===== verification/Strapi_Props.thy ===== *)
theory Strapi_Props
  imports Strapi_Model Uniconv_Props
begin

text \<open>The properties of the string functions.\<close>

section \<open>Checked copies\<close>

text \<open>\<open>strcpy_s\<close> keeps the size of the destination whatever its arguments; it returns 0 exactly
  when the string and its terminator fit, and then the destination holds them; on every other
  return a destination with at least one cell holds the empty string.\<close>

theorem strcpy_s_result:
  assumes "buf \<noteq> []"
  shows "\<exists>r out. strcpy_s (Some buf) src = (r, Some out) \<and> length out = length buf
    \<and> (r = 0 \<longleftrightarrow> (\<exists>s. src = Some s \<and> length s < length buf))
    \<and> (case src of Some s \<Rightarrow> r = 0 \<longrightarrow> take (length s + 1) out = s @ [0] | None \<Rightarrow> True)
    \<and> (r \<noteq> 0 \<longrightarrow> hd out = 0)"
  using assms by (cases src) (auto simp: strcpy_s_def overwrite_def EINVAL_def ERANGE_def neq_Nil_conv)

theorem strcpy_s_result_witness:
  "\<exists>out. strcpy_s (Some [7, 7, 7, 7]) (Some [97, 98, 99]) = (0, Some out) \<and> take 4 out = [97, 98, 99, 0]"
  using strcpy_s_result [of "[7, 7, 7, 7]" "Some [97, 98, 99]"] by auto

section \<open>Case conversion\<close>

lemma tolower_range: "0 \<le> u \<Longrightarrow> u < 0x80 \<Longrightarrow> 0 \<le> tolower u \<and> tolower u < 0x80"
  by (simp add: tolower_def)

lemma tolower_big [simp]: "0x80 \<le> u \<Longrightarrow> tolower u = u"
  by (simp add: tolower_def)

lemma loop_char:
  assumes "UTF8CharLength (hd bs) = length bs" "bs \<noteq> []"
  shows "char_buff_loop UTF8CharLength f (bs @ s) = (let (i, out) = char_buff_loop UTF8CharLength f s
    in (length bs + i, (if length bs = 1 then [f (hd bs)] else bs) @ out))"
proof -
  obtain c cs where bs: "bs = c # cs" using assms(2) by (cases bs) auto
  have "\<not> (UTF8CharLength c > length (c # cs @ s) \<or> UTF8CharLength c = 0)" using assms by (simp add: bs)
  moreover have "drop (UTF8CharLength c) (c # cs @ s) = s" "take (UTF8CharLength c) (c # cs @ s) = bs"
    using assms by (simp_all add: bs)
  ultimately show ?thesis using assms by (simp add: bs Let_def del: drop_Suc_Cons take_Suc_Cons)
qed

text \<open>\<open>CharLowerBuffA\<close> on UTF-8 lowers exactly the ASCII letters of the text: on the encoding
  of a sequence of characters it passes the whole buffer and leaves the encoding of the
  lowered characters, so it never touches a byte of a longer character.\<close>

theorem CharLowerBuffA_utf8:
  "\<forall>u\<in>set us. 0 \<le> u \<and> u < 0x200000 \<Longrightarrow>
   CharLowerBuffA (UTF8FromUTF32 us) = (length (UTF8FromUTF32 us), UTF8FromUTF32 (map tolower us))"
proof (induction us)
  case Nil
  then show ?case by (simp add: CharLowerBuffA_def)
next
  case (Cons u us)
  have u: "0 \<le> u" "u < 0x200000" using Cons.prems by auto
  have IH: "char_buff_loop UTF8CharLength tolower (UTF8FromUTF32 us) = (length (UTF8FromUTF32 us), UTF8FromUTF32 (map tolower us))"
    using Cons by (simp add: CharLowerBuffA_def)
  consider "u < 0x80" | "0x80 \<le> u" "u < 0x800" | "0x800 \<le> u" "u < 0x10000" | "0x10000 \<le> u" by linarith
  then show ?case
  proof cases
    case 1
    then show ?thesis using u IH loop_char [of "[u]" tolower "UTF8FromUTF32 us"] tolower_range [of u]
      by (simp add: CharLowerBuffA_def UTF8CharLength_def to_char_def del: char_buff_loop.simps)
  next
    case 2
    then obtain a b where e: "enc2 u = [192 + a, 128 + b]" "0 \<le> a" "a < 32" by (rule enc2_bytes)
    then show ?thesis using 2 IH loop_char [of "[192 + a, 128 + b]" tolower "UTF8FromUTF32 us"]
      by (simp add: CharLowerBuffA_def UTF8CharLength_def del: char_buff_loop.simps)
  next
    case 3
    then obtain a b c where e: "enc3 u = [224 + a, 128 + b, 128 + c]" "0 \<le> a" "a < 16" by (rule enc3_bytes)
    then show ?thesis using 3 IH loop_char [of "[224 + a, 128 + b, 128 + c]" tolower "UTF8FromUTF32 us"]
      by (simp add: CharLowerBuffA_def UTF8CharLength_def del: char_buff_loop.simps)
  next
    case 4
    then obtain a b c d where e: "enc4 u = [240 + a, 128 + b, 128 + c, 128 + d]" "0 \<le> a" using u(2) by (rule enc4_bytes)
    then show ?thesis using 4 u(2) IH loop_char [of "[240 + a, 128 + b, 128 + c, 128 + d]" tolower "UTF8FromUTF32 us"]
      by (simp add: CharLowerBuffA_def UTF8CharLength_def del: char_buff_loop.simps)
  qed
qed

theorem CharLowerBuffA_utf8_witness:
  "CharLowerBuffA (UTF8FromUTF32 [0x41, 0x4E2D, 0x5A]) = (length (UTF8FromUTF32 [0x41, 0x4E2D, 0x5A]), UTF8FromUTF32 (map tolower [0x41, 0x4E2D, 0x5A]))"
  by (rule CharLowerBuffA_utf8) auto

section \<open>Splitting a path\<close>

lemma scan_last_gen_Some:
  "scan_last P s i found = Some k \<Longrightarrow> (found = Some k \<and> (\<forall>c\<in>set s. \<not> P c))
     \<or> (\<exists>m < length s. k = i + m \<and> P (s ! m) \<and> (\<forall>c\<in>set (drop (Suc m) s). \<not> P c))"
proof (induction P s i found rule: scan_last.induct)
  case (2 P c s i found)
  from 2(1) 2(2) consider "(if P c then Some i else found) = Some k" "\<forall>c\<in>set s. \<not> P c"
    | m where "m < length s" "k = i + Suc m" "P (s ! m)" "\<forall>c\<in>set (drop (Suc m) s). \<not> P c"
    by auto
  then show ?case
  proof cases
    case 1
    then show ?thesis by (cases "P c") (auto intro: exI [of _ 0])
  next
    case 2
    then show ?thesis by (auto intro!: exI [of _ "Suc m"])
  qed
qed simp

lemma scan_last_Some:
  "scan_last P s i None = Some k \<Longrightarrow> i \<le> k \<and> k < i + length s \<and> P (s ! (k - i)) \<and> (\<forall>c\<in>set (drop (k - i + 1) s). \<not> P c)"
  using scan_last_gen_Some [where P = P and s = s and i = i and found = None and k = k] by auto

lemma scan_last_gen_None: "scan_last P s i found = None \<Longrightarrow> found = None \<and> (\<forall>c\<in>set s. \<not> P c)"
proof (induction P s i found rule: scan_last.induct)
  case (2 P c s i found)
  have "scan_last P s (i + 1) (if P c then Some i else found) = None" using 2(2) by (simp only: scan_last.simps)
  from 2(1) [OF this] have "(if P c then Some i else found) = None" "\<forall>c\<in>set s. \<not> P c" by blast+
  then show ?case by (cases "P c") simp_all
qed simp

lemma scan_last_None: "scan_last P s i None = None \<Longrightarrow> \<forall>c\<in>set s. \<not> P c"
  by (simp add: scan_last_gen_None)

lemma copy_part_all: "length s < MAX_PART \<Longrightarrow> n \<le> length s \<Longrightarrow> copy_part n s = take n s"
  by (simp add: copy_part_def)

text \<open>C19: the three parts \<open>_splitpath\<close> stores put together are the path, when it is shorter than the
  buffers; the directory is empty or ends with a separator, no separator follows it, and the
  extension is empty or a dot with no further dot.\<close>

theorem splitpath_roundtrip:
  assumes "length path < MAX_PART" "splitpath path = (dir, fname, ext)"
  shows "dir @ fname @ ext = path \<and> (dir = [] \<or> last dir \<in> {47, 92})
    \<and> (\<forall>c\<in>set (fname @ ext). c \<notin> {47, 92}) \<and> (ext = [] \<or> (hd ext = 46 \<and> 46 \<notin> set (tl ext)))
    \<and> (ext = [] \<longrightarrow> 46 \<notin> set fname)"
proof -
  define sl where "sl = scan_last (\<lambda>c. c = 47 \<or> c = 92) path 0 None"
  define n where "n = (case sl of None \<Rightarrow> 0 | Some i \<Rightarrow> i + 1)"
  define dt where "dt = scan_last (\<lambda>c. c = 46) (drop n path) n None"
  have sp: "splitpath path = ((case sl of None \<Rightarrow> [] | Some i \<Rightarrow> copy_part (i + 1) path),
      copy_part (case dt of None \<Rightarrow> length path - n | Some j \<Rightarrow> j - n) (drop n path),
      (case dt of None \<Rightarrow> [] | Some j \<Rightarrow> copy_part (length path - j) (drop j path)))"
    unfolding splitpath_def Let_def sl_def [symmetric] n_def [symmetric] dt_def [symmetric] by (rule refl)
  have slash: "n \<le> length path" "\<forall>c\<in>set (drop n path). c \<notin> {47, 92}" "n = 0 \<or> path ! (n - 1) \<in> {47, 92}"
  proof -
    have "n \<le> length path \<and> (\<forall>c\<in>set (drop n path). c \<notin> {47, 92}) \<and> (n = 0 \<or> path ! (n - 1) \<in> {47, 92})"
    proof (cases sl)
      case None
      then show ?thesis using scan_last_None [OF None [unfolded sl_def]] by (simp add: n_def)
    next
      case (Some k)
      then show ?thesis using scan_last_Some [OF Some [unfolded sl_def]] by (simp add: n_def)
    qed
    then show "n \<le> length path" "\<forall>c\<in>set (drop n path). c \<notin> {47, 92}" "n = 0 \<or> path ! (n - 1) \<in> {47, 92}"
      by blast+
  qed
  have dir: "dir = take n path"
    using sp assms slash(1) by (auto simp: n_def copy_part_all split: option.splits)
  have dirlast: "dir = [] \<or> last dir \<in> {47, 92}"
    using slash(1,3) by (cases n) (auto simp: dir take_Suc_conv_app_nth)
  show ?thesis
  proof (cases dt)
    case None
    then have f: "fname = drop n path" "ext = []" using sp assms by (auto simp: copy_part_def)
    have "46 \<notin> set (drop n path)" using scan_last_None [OF None [unfolded dt_def]] by auto
    then show ?thesis using dir dirlast slash f by simp
  next
    case (Some j)
    note d = scan_last_Some [OF Some [unfolded dt_def]]
    have j: "n \<le> j" "j < length path" "path ! j = 46" "46 \<notin> set (drop (j + 1) path)"
      using d slash(1) by (auto simp: add.commute)
    have f: "fname = take (j - n) (drop n path)" "ext = drop j path"
      using sp assms Some j by (auto simp: copy_part_def)
    have "ext = 46 # drop (j + 1) path" using j f by (metis Cons_nth_drop_Suc Suc_eq_plus1)
    moreover have "fname @ ext = drop n path"
      using f j by (metis append_take_drop_id drop_drop le_add_diff_inverse2)
    ultimately show ?thesis using dir dirlast slash j(4) by (metis append_take_drop_id hd_Cons_tl list.sel(1,3) list.discI)
  qed
qed

theorem splitpath_roundtrip_witness:
  "splitpath [47, 97, 46, 98, 47, 99, 46, 100, 46, 101] = ([47, 97, 46, 98, 47], [99, 46, 100], [46, 101])
   \<and> [47, 97, 46, 98, 47] @ [99, 46, 100] @ [46, 101] = [47, 97, 46, 98, 47, 99, 46, 100, 46, 101 :: int]"
proof -
  have run: "splitpath [47, 97, 46, 98, 47, 99, 46, 100, 46, 101] = ([47, 97, 46, 98, 47], [99, 46, 100], [46, 101])" by code_simp
  from splitpath_roundtrip [OF _ run] run show ?thesis by (simp add: MAX_PART_def)
qed

section \<open>Character types\<close>

text \<open>\<open>GetStringTypeExA\<close> writes as many words as the lengths that all bytes of the source announce
  add up to, which is more than the source has bytes as soon as one of them is not ASCII: it
  advances by the length of the wide character instead of the bytes it has decoded.\<close>

lemma type_words_length: "length (type_words info n wc) = n"
  by (simp add: type_words_def)

lemma string_type_loop_length:
  "length (string_type_loop decode info s (length s)) = (\<Sum>c\<leftarrow>s. UTF8CharLength c)"
proof (induction s)
  case Nil
  then show ?case by (simp add: string_type_loop.simps)
next
  case (Cons c s)
  have "length (string_type_loop decode info (c # s) (length (c # s)))
      = UTF8CharLength c + length (string_type_loop decode info s (length s))"
    by (subst string_type_loop.simps) (simp add: Let_def type_words_length WideCharLength_def)
  then show ?case using Cons by simp
qed

theorem GetStringTypeExA_overrun:
  assumes "valid_info info" "c \<in> set s" "0x80 \<le> c"
  shows "\<exists>ws. GetStringTypeExA decode info s = Some ws \<and> length s < length ws"
proof -
  have ge: "length xs \<le> (\<Sum>c\<leftarrow>xs. UTF8CharLength c)" for xs
    by (induction xs) (auto simp: UTF8CharLength_def)
  obtain as bs where s: "s = as @ c # bs" using assms(2) by (meson split_list)
  have "2 \<le> UTF8CharLength c" using assms(3) by (simp add: UTF8CharLength_def)
  then have "length s < (\<Sum>c\<leftarrow>s. UTF8CharLength c)" using ge [of as] ge [of bs] by (simp add: s)
  then show ?thesis using assms(1) string_type_loop_length [of decode info s] by (simp add: GetStringTypeExA_def)
qed

theorem GetStringTypeExA_overrun_witness:
  "\<exists>ws. GetStringTypeExA (\<lambda>bs. 0x4E2D) CT_CTYPE1 [0xE4, 0xB8, 0xAD] = Some ws \<and> 3 < length ws"
  using GetStringTypeExA_overrun [of CT_CTYPE1 "0xE4" "[0xE4, 0xB8, 0xAD]" "\<lambda>bs. 0x4E2D"] by (simp add: valid_info_def eval_nat_numeral)

end
