(* ===== verification/Path_Model.thy ===== *)
theory Path_Model
  imports Swinx_Prelude
begin

text \<open>
  The path string operations of \<^verbatim>\<open>src/shlwapi.cpp\<close>. A C string is the list of its
  characters before the terminator, a null pointer is \<open>None\<close>, and a buffer that an operation
  rewrites is returned. Each pair of an A and a W function in the source has one body for two
  character types; it is modelled once, on character codes, and named for both.
\<close>

section \<open>Characters\<close>

type_synonym cstr = "int list"

definition MAX_PATH :: nat where
  "MAX_PATH = 1000"

definition char_at :: "cstr \<Rightarrow> nat \<Rightarrow> int" where
  "char_at s i = (if i < length s then s ! i else 0)"

definition path_is_sep :: "int \<Rightarrow> bool" where
  "path_is_sep c \<longleftrightarrow> c = 92 \<or> c = 47"

definition path_is_abs :: "cstr \<Rightarrow> bool" where
  "path_is_abs p =
     (if char_at p 0 = 0 then False
      else if path_is_sep (char_at p 0) then True
      else ((char_at p 0 \<ge> 97 \<and> char_at p 0 \<le> 122) \<or> (char_at p 0 \<ge> 65 \<and> char_at p 0 \<le> 90))
           \<and> char_at p 1 = 58)"

text \<open>The offset of the last component: the loop moves it behind every separator it passes.\<close>

fun last_component_loop :: "cstr \<Rightarrow> nat \<Rightarrow> nat \<Rightarrow> nat" where
  "last_component_loop [] i lst = lst"
| "last_component_loop (c # s) i lst = last_component_loop s (i + 1) (if path_is_sep c then i + 1 else lst)"

definition path_last_component :: "cstr \<Rightarrow> nat" where
  "path_last_component s = last_component_loop s 0 0"

definition GCT_INVALID :: int where "GCT_INVALID = 0"

definition GCT_LFNCHAR :: int where "GCT_LFNCHAR = 1"

definition GCT_SHORTCHAR :: int where "GCT_SHORTCHAR = 2"

definition GCT_WILD :: int where "GCT_WILD = 4"

definition GCT_SEPARATOR :: int where "GCT_SEPARATOR = 8"

definition PathGetCharTypeW :: "int \<Rightarrow> int" where
  "PathGetCharTypeW ch =
     (if ch = 92 \<or> ch = 47 then GCT_SEPARATOR
      else if ch = 42 \<or> ch = 63 then GCT_WILD
      else if ch = 34 \<or> ch = 60 \<or> ch = 62 \<or> ch = 124 \<or> ch = 58 then GCT_INVALID
      else if ch < 32 then GCT_INVALID
      else if ch \<ge> 0x80 then GCT_LFNCHAR
      else if ch = 32 then GCT_LFNCHAR
      else GCT_LFNCHAR + GCT_SHORTCHAR)"

definition PathGetCharTypeA :: "int \<Rightarrow> int" where
  "PathGetCharTypeA ch = PathGetCharTypeW (ch mod 256)"

section \<open>Operations\<close>

text \<open>The result is the \<^verbatim>\<open>BOOL\<close> and the contents of \<^verbatim>\<open>pszPath\<close> afterwards.\<close>

definition PathAppend :: "cstr option \<Rightarrow> cstr option \<Rightarrow> bool \<times> cstr option" where
  "PathAppend pszPath pszMore =
     (case (pszPath, pszMore) of
        (Some path, Some more) \<Rightarrow>
          (let nPath = length path; nMore = length more;
               bAddSep = (nPath > 0 \<and> nMore > 0 \<and> \<not> path_is_sep (path ! (nPath - 1)) \<and> \<not> path_is_sep (more ! 0))
           in if nPath + (if bAddSep then 1 else 0) + nMore \<ge> MAX_PATH then (False, Some [])
              else (True, Some (path @ (if bAddSep then [92] else []) @ more)))
      | _ \<Rightarrow> (False, pszPath))"

text \<open>The result is what \<^verbatim>\<open>PathCombine\<close> returns, null or the destination, and the destination.\<close>

definition PathCombine :: "cstr option \<Rightarrow> cstr option \<Rightarrow> cstr option \<Rightarrow> cstr option \<times> cstr option" where
  "PathCombine pszDest pszDir pszFile =
     (case (pszDest, pszFile) of
        (Some dest, Some file) \<Rightarrow>
          (case pszDir of
             Some (d # dir') \<Rightarrow>
               if path_is_abs file
               then (if length file \<ge> MAX_PATH then (None, Some []) else (Some file, Some file))
               else (let dir = d # dir'; bAddSep = (\<not> path_is_sep (dir ! (length dir - 1)));
                         nPre = length dir + (if bAddSep then 1 else 0)
                     in if nPre + length file \<ge> MAX_PATH then (None, Some [])
                        else (let out = dir @ (if bAddSep then [92] else []) @ file in (Some out, Some out)))
           | _ \<Rightarrow> (if length file \<ge> MAX_PATH then (None, Some []) else (Some file, Some file)))
      | _ \<Rightarrow> (None, pszDest))"

definition PathIsUNC :: "cstr option \<Rightarrow> bool" where
  "PathIsUNC pszPath =
     (case pszPath of
        None \<Rightarrow> False
      | Some p \<Rightarrow>
          if char_at p 0 = 0 \<or> char_at p 1 = 0 then False
          else (char_at p 0 = 92 \<and> char_at p 1 = 92) \<or> (char_at p 0 = 47 \<and> char_at p 1 = 47))"

text \<open>The characters before the first dot of the last component.\<close>

definition before_dot :: "cstr \<Rightarrow> cstr" where
  "before_dot p = (let n = path_last_component p in take n p @ takeWhile (\<lambda>c. c \<noteq> 46) (drop n p))"

definition PathRemoveExtension :: "cstr option \<Rightarrow> cstr option" where
  "PathRemoveExtension pszPath = map_option before_dot pszPath"

definition PathRenameExtension :: "cstr option \<Rightarrow> cstr option \<Rightarrow> bool \<times> cstr option" where
  "PathRenameExtension pszPath pszExt =
     (case (pszPath, pszExt) of
        (Some p, Some ext) \<Rightarrow>
          if length (before_dot p) + length ext \<ge> MAX_PATH then (False, Some p)
          else (True, Some (before_dot p @ ext))
      | _ \<Rightarrow> (False, pszPath))"

text \<open>
  The first loop of \<open>PathRemoveFileSpec\<close> cuts the separators at the end; the second walks back
  from there to a separator, and \<open>n\<close> is the position of \<^verbatim>\<open>p\<close>.
\<close>

fun strip_seps :: "cstr \<Rightarrow> nat \<Rightarrow> cstr" where
  "strip_seps s 0 = []"
| "strip_seps s (Suc n) = (if path_is_sep (s ! n) then strip_seps s n else take (Suc n) s)"

fun file_spec_loop :: "cstr \<Rightarrow> nat \<Rightarrow> bool \<times> cstr" where
  "file_spec_loop s 0 = (False, s)"
| "file_spec_loop s (Suc n) =
     (if path_is_sep (s ! n)
      then (True, if n = 0 then [] else if n = 2 \<and> char_at s 1 = 58 then take 3 s else take n s)
      else file_spec_loop s n)"

definition PathRemoveFileSpec :: "cstr option \<Rightarrow> bool \<times> cstr option" where
  "PathRemoveFileSpec pszPath =
     (case pszPath of
        None \<Rightarrow> (False, None)
      | Some p \<Rightarrow>
          if p = [] then (False, Some p)
          else (let s = strip_seps p (length p); (r, out) = file_spec_loop s (length s) in (r, Some out)))"

section \<open>The W functions\<close>

text \<open>The same bodies on \<^verbatim>\<open>wchar_t\<close>.\<close>

definition PathAppendW :: "cstr option \<Rightarrow> cstr option \<Rightarrow> bool \<times> cstr option" where
  "PathAppendW = PathAppend"

definition PathCombineW :: "cstr option \<Rightarrow> cstr option \<Rightarrow> cstr option \<Rightarrow> cstr option \<times> cstr option" where
  "PathCombineW = PathCombine"

definition PathIsUNCW :: "cstr option \<Rightarrow> bool" where
  "PathIsUNCW = PathIsUNC"

definition PathRemoveExtensionW :: "cstr option \<Rightarrow> cstr option" where
  "PathRemoveExtensionW = PathRemoveExtension"

definition PathRemoveFileSpecW :: "cstr option \<Rightarrow> bool \<times> cstr option" where
  "PathRemoveFileSpecW = PathRemoveFileSpec"

definition PathRenameExtensionW :: "cstr option \<Rightarrow> cstr option \<Rightarrow> bool \<times> cstr option" where
  "PathRenameExtensionW = PathRenameExtension"

end
