(* ===== verification/Path_Props.thy ===== *)
theory Path_Props
  imports Path_Model
begin

text \<open>
  The path operations: what they leave in the buffer, that they never exceed
  \<^verbatim>\<open>MAX_PATH\<close>, and how appending, renaming and removing undo each other.
\<close>

section \<open>The last component\<close>

lemma last_component_loop_eq:
  "last_component_loop s i lst = (if \<exists>c\<in>set s. path_is_sep c then i + length s - length (takeWhile (\<lambda>c. \<not> path_is_sep c) (rev s)) else lst)"
proof (induction s arbitrary: i lst)
  case (Cons c s)
  have le: "length (takeWhile (\<lambda>c. \<not> path_is_sep c) (rev s)) \<le> length s" by (metis length_rev length_takeWhile_le)
  show ?case
  proof (cases "\<exists>c\<in>set s. path_is_sep c")
    case True
    then show ?thesis using Cons by (auto simp: takeWhile_append)
  next
    case False
    then have "takeWhile (\<lambda>c. \<not> path_is_sep c) (rev s) = rev s" by (simp add: takeWhile_eq_all_conv)
    then show ?thesis using Cons False by (auto simp: takeWhile_append takeWhile_eq_all_conv)
  qed
qed simp

text \<open>The path as its directory part, which ends with a separator or is empty, and its last component.\<close>

lemma path_split:
  obtains d f where "p = d @ f" "path_last_component p = length d" "\<forall>c\<in>set f. \<not> path_is_sep c"
    "d = [] \<or> path_is_sep (last d)"
proof -
  let ?f = "rev (takeWhile (\<lambda>c. \<not> path_is_sep c) (rev p))" and ?d = "rev (dropWhile (\<lambda>c. \<not> path_is_sep c) (rev p))"
  have split: "p = ?d @ ?f" by (metis rev_append rev_rev_ident takeWhile_dropWhile_id)
  have "length p = length ?d + length ?f" using arg_cong [OF split, of length] by simp
  moreover have "\<not> (\<exists>c\<in>set p. path_is_sep c) \<Longrightarrow> ?d = []" by (simp add: dropWhile_eq_Nil_conv)
  ultimately have n: "path_last_component p = length ?d"
    by (auto simp: path_last_component_def last_component_loop_eq)
  have f: "\<forall>c\<in>set ?f. \<not> path_is_sep c" by (auto dest: set_takeWhileD)
  have "?d \<noteq> [] \<Longrightarrow> path_is_sep (last ?d)"
    using hd_dropWhile [of "\<lambda>c. \<not> path_is_sep c" "rev p"] by (simp add: last_rev)
  then show thesis using that [OF split n f] by blast
qed

lemma last_component_append:
  assumes "\<forall>c\<in>set f. \<not> path_is_sep c" "d = [] \<or> path_is_sep (last d)"
  shows "path_last_component (d @ f) = length d"
proof -
  have "takeWhile (\<lambda>c. \<not> path_is_sep c) (rev (d @ f)) = rev f"
    using assms by (cases d rule: rev_cases) (auto simp: takeWhile_append)
  moreover have "d \<noteq> [] \<Longrightarrow> \<exists>c\<in>set d. path_is_sep c" using assms(2) last_in_set by blast
  ultimately show ?thesis using assms(1) by (auto simp: path_last_component_def last_component_loop_eq)
qed

lemma before_dot_append:
  assumes "\<forall>c\<in>set f. \<not> path_is_sep c" "d = [] \<or> path_is_sep (last d)"
  shows "before_dot (d @ f) = d @ takeWhile (\<lambda>c. c \<noteq> 46) f"
  by (simp add: before_dot_def last_component_append [OF assms])

section \<open>Properties\<close>

text \<open>\<open>PathAppend\<close> puts exactly one separator between two non-empty parts that have none
  there, returns true only with a result shorter than \<^verbatim>\<open>MAX_PATH\<close>, and otherwise empties
  the path.\<close>

theorem PathAppend_result:
  assumes "path \<noteq> []" "more \<noteq> []"
  shows "let out = path @ (if path_is_sep (last path) \<or> path_is_sep (hd more) then [] else [92]) @ more in
    PathAppend (Some path) (Some more) = (if length out < MAX_PATH then (True, Some out) else (False, Some []))"
  using assms by (simp add: PathAppend_def Let_def last_conv_nth hd_conv_nth)

theorem PathAppend_result_witness: "PathAppend (Some [97]) (Some [98]) = (True, Some [97, 92, 98])"
  using PathAppend_result [of "[97]" "[98]"] by (simp add: path_is_sep_def MAX_PATH_def)

text \<open>\<open>PathRemoveExtension\<close> keeps the directory part and leaves a last component without a dot,
  so running it again changes nothing.\<close>

theorem PathRemoveExtension_result:
  "\<exists>d f. p = d @ f \<and> (d = [] \<or> path_is_sep (last d)) \<and> (\<forall>c\<in>set f. \<not> path_is_sep c)
    \<and> PathRemoveExtension (Some p) = Some (d @ takeWhile (\<lambda>c. c \<noteq> 46) f)
    \<and> PathRemoveExtension (PathRemoveExtension (Some p)) = PathRemoveExtension (Some p)"
proof -
  obtain d f where s: "p = d @ f" "path_last_component p = length d" "\<forall>c\<in>set f. \<not> path_is_sep c"
    "d = [] \<or> path_is_sep (last d)" by (rule path_split)
  have g: "\<forall>c\<in>set (takeWhile (\<lambda>c. c \<noteq> 46) f). \<not> path_is_sep c" using s(3) by (auto dest: set_takeWhileD)
  have "takeWhile (\<lambda>c. c \<noteq> 46) (takeWhile (\<lambda>c. c \<noteq> 46) f) = takeWhile (\<lambda>c. c \<noteq> 46) f"
    by (auto simp: takeWhile_eq_all_conv dest: set_takeWhileD)
  then have "before_dot (d @ takeWhile (\<lambda>c. c \<noteq> 46) f) = d @ takeWhile (\<lambda>c. c \<noteq> 46) f"
    by (simp add: before_dot_append [OF g s(4)])
  then show ?thesis using s before_dot_append [OF s(3,4)]
    by (intro exI [of _ d] exI [of _ f]) (simp add: PathRemoveExtension_def)
qed

text \<open>Renaming the extension and removing it again is removing it: when
  \<open>PathRenameExtension\<close> with an extension that starts with a dot and has no separator returns
  true, \<open>PathRemoveExtension\<close> afterwards gives what it gives on the original path.\<close>

theorem PathRenameExtension_roundtrip:
  assumes "PathRenameExtension (Some p) (Some (46 # e)) = (True, q)" "\<forall>c\<in>set e. \<not> path_is_sep c"
  shows "PathRemoveExtension q = PathRemoveExtension (Some p)"
proof -
  obtain d f where s: "p = d @ f" "path_last_component p = length d" "\<forall>c\<in>set f. \<not> path_is_sep c"
    "d = [] \<or> path_is_sep (last d)" by (rule path_split)
  have p: "before_dot p = d @ takeWhile (\<lambda>c. c \<noteq> 46) f" using before_dot_append [OF s(3,4)] s(1) by simp
  have g: "\<forall>c\<in>set (takeWhile (\<lambda>c. c \<noteq> 46) f @ 46 # e). \<not> path_is_sep c"
    using s(3) assms(2) by (auto simp: path_is_sep_def dest: set_takeWhileD)
  have t: "takeWhile (\<lambda>c. c \<noteq> 46) (takeWhile (\<lambda>c. c \<noteq> 46) f @ 46 # e) = takeWhile (\<lambda>c. c \<noteq> 46) f"
    by (subst takeWhile_append2) (auto dest: set_takeWhileD)
  have "q = Some (before_dot p @ 46 # e)" using assms(1) by (auto simp: PathRenameExtension_def split: if_splits)
  moreover have "before_dot (before_dot p @ 46 # e) = before_dot p"
    using before_dot_append [OF g s(4)] by (simp add: p t)
  ultimately show ?thesis by (simp add: PathRemoveExtension_def)
qed

theorem PathRenameExtension_roundtrip_witness:
  "PathRemoveExtension (Some [97, 92, 98, 46, 99, 46, 100]) = PathRemoveExtension (Some [97, 92, 98, 46, 120])"
  by (rule PathRenameExtension_roundtrip [where e = "[99, 46, 100]"]) (code_simp, simp add: path_is_sep_def)

text \<open>\<open>PathRemoveFileSpec\<close> undoes \<open>PathAppend\<close> of a plain name, except on a bare drive.\<close>

lemma strip_seps_id: "s \<noteq> [] \<Longrightarrow> \<not> path_is_sep (last s) \<Longrightarrow> strip_seps s (length s) = s"
  by (cases s rule: rev_cases) auto

lemma file_spec_loop_back:
  "\<forall>c\<in>set f. \<not> path_is_sep c \<Longrightarrow> path_is_sep c \<Longrightarrow>
   file_spec_loop (d @ c # f) (length d + 1 + k) =
     (if k \<le> length f then (True, if d = [] then [] else if length d = 2 \<and> d ! 1 = 58 then take 3 (d @ c # f) else d)
      else file_spec_loop (d @ c # f) (length d + 1 + k))"
proof (induction k)
  case 0
  then show ?case by (auto simp: char_at_def nth_append)
next
  case (Suc k)
  show ?case
  proof (cases "Suc k \<le> length f")
    case True
    then have "\<not> path_is_sep ((d @ c # f) ! (length d + 1 + k))"
      using Suc.prems(1) by (simp add: nth_append)
    then show ?thesis using Suc True by simp
  qed simp
qed

theorem PathAppend_RemoveFileSpec:
  assumes "path \<noteq> []" "name \<noteq> []" "\<not> path_is_sep (last path)" "\<forall>c\<in>set name. \<not> path_is_sep c"
    "\<not> (length path = 2 \<and> path ! 1 = 58)" "PathAppend (Some path) (Some name) = (True, q)"
  shows "PathRemoveFileSpec q = (True, Some path)"
proof -
  have "\<not> path_is_sep (hd name)" using assms(2,4) by simp
  then have q: "q = Some (path @ 92 # name)"
    using PathAppend_result [OF assms(1,2)] assms(3,6) by (auto simp: Let_def split: if_splits)
  let ?s = "path @ 92 # name"
  have "strip_seps ?s (length ?s) = ?s" using assms(2,4) last_in_set [OF assms(2)] by (intro strip_seps_id) auto
  moreover have "file_spec_loop ?s (length ?s) = (True, path)"
    using file_spec_loop_back [OF assms(4), of 92 path "length name"] assms(1,5) by (simp add: path_is_sep_def)
  ultimately show ?thesis by (simp add: q PathRemoveFileSpec_def Let_def)
qed

theorem PathAppend_RemoveFileSpec_witness: "PathRemoveFileSpec (Some [97, 92, 98, 99]) = (True, Some [97])"
  by (rule PathAppend_RemoveFileSpec [where name = "[98, 99]"]) (simp_all add: path_is_sep_def PathAppend_def MAX_PATH_def)

text \<open>Where \<open>PathRemoveFileSpec\<close> finds no directory part and returns false, it does not keep
  the string: it has cut the separators at the end, the root directory included.\<close>

theorem PathRemoveFileSpec_false_changes:
  assumes "name \<noteq> []" "\<forall>c\<in>set name. \<not> path_is_sep c" "path_is_sep c"
  shows "PathRemoveFileSpec (Some (name @ [c])) = (False, Some name)"
proof -
  have "strip_seps (name @ [c]) (length (name @ [c])) = strip_seps (name @ [c]) (length name)" using assms(3) by simp
  also have "\<dots> = name"
    using assms(1,2) by (cases name rule: rev_cases) (auto simp: nth_append)
  finally have strip: "strip_seps (name @ [c]) (length (name @ [c])) = name" .
  have "file_spec_loop name n = (False, name)" if "n \<le> length name" for n
    using that assms(2) by (induction n) (auto simp: all_set_conv_all_nth)
  then show ?thesis by (simp add: PathRemoveFileSpec_def Let_def strip del: length_append)
qed

theorem PathRemoveFileSpec_false_changes_witness:
  "PathRemoveFileSpec (Some [67, 58, 92]) = (False, Some [67, 58])"
  using PathRemoveFileSpec_false_changes [of "[67, 58]" 92] by (simp add: path_is_sep_def)

end
