(* ===== verification/Memory_Model.thy ===== *)
theory Memory_Model
  imports Swinx_Prelude "HOL-Library.Word"
begin

text \<open>
  Heaps and local memory (\<^verbatim>\<open>src/platform/posix/memory.cpp\<close>): the blocks of a heap, the calls
  \<open>HeapAlloc\<close> to \<open>FlushInstructionCache\<close>, and on the process heap the fixed and moveable blocks
  of \<open>LocalAlloc\<close> to \<open>LocalHandle\<close> and their \<^verbatim>\<open>Global\<close> names.

  Memory is the map from addresses to bytes, so the handle in front of a block, the packed
  header of a moveable block and the data are bytes at the offsets the code uses. Sizes and
  addresses are 64 bits and wrap as \<^verbatim>\<open>size_t\<close> does. The page size, \<^verbatim>\<open>posix_memalign\<close>, \<^verbatim>\<open>mprotect\<close>
  and the probing of a pointer belong to the operating system and are parameters (\<open>os\<close>). The
  bytes of a freed block are left as they were; page protection is not modelled. A call holds
  the mutex of the heap from its start to its end, so it is one step.
\<close>

unbundle bit_operations_syntax

section \<open>Bytes\<close>

type_synonym bytes = "nat \<Rightarrow> nat"

definition size_t :: "nat \<Rightarrow> nat" where
  "size_t n = n mod 2 ^ 64"

definition size_sub :: "nat \<Rightarrow> nat \<Rightarrow> nat" where
  "size_sub a b = size_t (a + 2 ^ 64 - b)"

text \<open>Little-endian loads and stores of \<open>n\<close> bytes.\<close>

fun load :: "nat \<Rightarrow> nat \<Rightarrow> bytes \<Rightarrow> nat" where
  "load 0 a m = 0"
| "load (Suc n) a m = m a + 256 * load n (a + 1) m"

fun store :: "nat \<Rightarrow> nat \<Rightarrow> nat \<Rightarrow> bytes \<Rightarrow> bytes" where
  "store 0 a v m = m"
| "store (Suc n) a v m = store n (a + 1) (v div 256) (m(a := v mod 256))"

definition memset :: "nat \<Rightarrow> nat \<Rightarrow> nat \<Rightarrow> bytes \<Rightarrow> bytes" where
  "memset p v n m = (\<lambda>a. if p \<le> a \<and> a < p + n then v else m a)"

definition memcpy :: "nat \<Rightarrow> nat \<Rightarrow> nat \<Rightarrow> bytes \<Rightarrow> bytes" where
  "memcpy d p n m = (\<lambda>a. if d \<le> a \<and> a < d + n then m (p + (a - d)) else m a)"

section \<open>State\<close>

record MemBlock =
  mb_len :: nat
  mb_flushLen :: nat
  mb_allocSize :: nat
  mb_ptr :: nat
  mb_flags :: nat

record HeapInfo =
  hi_option :: nat
  hi_dwInitialSize :: nat
  hi_dwMaximumSize :: nat
  hi_lstMem :: "MemBlock list"

text \<open>The live heap objects by handle, the handle of the process heap, the bytes, and \<^verbatim>\<open>GetLastError\<close>.\<close>

record mstate =
  ms_heaps :: "(nat \<times> HeapInfo) list"
  ms_process :: nat
  ms_mem :: bytes
  ms_error :: nat

record os =
  os_pageSize :: nat
  os_memalign :: "mstate \<Rightarrow> nat \<Rightarrow> nat option"
  os_mprotect :: "nat \<Rightarrow> nat \<Rightarrow> int"
  os_IsBadReadPtr :: "mstate \<Rightarrow> nat \<Rightarrow> nat \<Rightarrow> bool"
  os_IsBadWritePtr :: "mstate \<Rightarrow> nat \<Rightarrow> nat \<Rightarrow> bool"

definition HEAP_ZERO_MEMORY :: nat where "HEAP_ZERO_MEMORY = 0x8"

definition HEAP_REALLOC_IN_PLACE_ONLY :: nat where "HEAP_REALLOC_IN_PLACE_ONLY = 0x10"

definition HEAP_CREATE_ENABLE_EXECUTE :: nat where "HEAP_CREATE_ENABLE_EXECUTE = 0x40000"

definition LMEM_MOVEABLE :: nat where "LMEM_MOVEABLE = 0x2"

definition LMEM_ZEROINIT :: nat where "LMEM_ZEROINIT = 0x40"

definition LMEM_MODIFY :: nat where "LMEM_MODIFY = 0x80"

definition LMEM_DISCARDABLE :: nat where "LMEM_DISCARDABLE = 0xF00"

definition LMEM_LOCKCOUNT :: nat where "LMEM_LOCKCOUNT = 0xFF"

definition GMEM_OBSOLETE :: nat where "GMEM_OBSOLETE = 0x10 + 0x1000 + 0x4000"

definition MAGIC_LOCAL_USED :: nat where "MAGIC_LOCAL_USED = 0x5342"

definition HLOCAL_STORAGE :: nat where "HLOCAL_STORAGE = 16"

definition INT_MAX :: nat where "INT_MAX = 2147483647"

definition has :: "nat \<Rightarrow> nat \<Rightarrow> bool" where
  "has flags bits \<longleftrightarrow> flags AND bits \<noteq> 0"

definition SetLastError :: "nat \<Rightarrow> mstate \<Rightarrow> mstate" where
  "SetLastError e s = s\<lparr>ms_error := e\<rparr>"

definition ERROR_INVALID_HANDLE :: nat where "ERROR_INVALID_HANDLE = 6"
definition ERROR_OUTOFMEMORY :: nat where "ERROR_OUTOFMEMORY = 14"
definition ERROR_INVALID_PARAMETER :: nat where "ERROR_INVALID_PARAMETER = 87"
definition ERROR_DISCARDED :: nat where "ERROR_DISCARDED = 157"
definition ERROR_NOT_LOCKED :: nat where "ERROR_NOT_LOCKED = 158"
definition ERROR_NOACCESS :: nat where "ERROR_NOACCESS = 998"

section \<open>Heaps\<close>

definition GetProcessHeap :: "mstate \<Rightarrow> nat" where
  "GetProcessHeap s = ms_process s"

text \<open>The test that opens every call: a handle that is not null and is the handle of a heap.\<close>

definition heap_of :: "nat \<Rightarrow> mstate \<Rightarrow> HeapInfo option" where
  "heap_of hHeap s = (if hHeap = 0 then None else map_of (ms_heaps s) hHeap)"

definition set_blocks :: "nat \<Rightarrow> MemBlock list \<Rightarrow> mstate \<Rightarrow> mstate" where
  "set_blocks hHeap bs s =
     s\<lparr>ms_heaps := map (\<lambda>(k, info). if k = hHeap then (k, info\<lparr>hi_lstMem := bs\<rparr>) else (k, info)) (ms_heaps s)\<rparr>"

text \<open>The first block of a list with the given address, as an index.\<close>

fun block_index :: "nat \<Rightarrow> MemBlock list \<Rightarrow> nat option" where
  "block_index p [] = None"
| "block_index p (b # bs) = (if mb_ptr b = p then Some 0 else map_option Suc (block_index p bs))"

definition page_round :: "os \<Rightarrow> nat \<Rightarrow> nat" where
  "page_round os dwBytes = size_t (dwBytes + 8 + os_pageSize os - 1) div os_pageSize os * os_pageSize os"

definition HeapAlloc :: "os \<Rightarrow> nat \<Rightarrow> nat \<Rightarrow> nat \<Rightarrow> mstate \<Rightarrow> nat \<times> mstate" where
  "HeapAlloc os hHeap dwFlags dwBytes s =
     (case heap_of hHeap s of
        None \<Rightarrow> (0, s)
      | Some info \<Rightarrow>
          (let bufLen = page_round os dwBytes
           in case os_memalign os s bufLen of
                None \<Rightarrow> (0, s)
              | Some base \<Rightarrow>
                  (let m1 = store 8 base hHeap (ms_mem s);
                       allocSize = size_sub bufLen 8;
                       p = base + 8;
                       m2 = (if has dwFlags HEAP_ZERO_MEMORY then memset p 0 dwBytes m1 else m1);
                       m3 = memset (size_t (p + dwBytes)) 0 (size_sub allocSize dwBytes) m2;
                       block = \<lparr>mb_len = dwBytes, mb_flushLen = 0, mb_allocSize = allocSize, mb_ptr = p, mb_flags = dwFlags\<rparr>
                   in (p, set_blocks hHeap (hi_lstMem info @ [block]) (s\<lparr>ms_mem := m3\<rparr>)))))"

text \<open>Erasing an element of the list of blocks.\<close>

definition erase :: "nat \<Rightarrow> 'a list \<Rightarrow> 'a list" where
  "erase i xs = take i xs @ drop (i + 1) xs"

definition HeapFree :: "nat \<Rightarrow> nat \<Rightarrow> mstate \<Rightarrow> bool \<times> mstate" where
  "HeapFree hHeap lpMem s =
     (case heap_of hHeap s of
        None \<Rightarrow> (False, s)
      | Some info \<Rightarrow>
          (case block_index lpMem (hi_lstMem info) of
             None \<Rightarrow> (False, s)
           | Some i \<Rightarrow> (True, set_blocks hHeap (erase i (hi_lstMem info)) s)))"

text \<open>The two branches of \<open>HeapReAlloc\<close>: the block is large enough, or it moves to new pages.\<close>

definition realloc_in_place :: "nat \<Rightarrow> nat \<Rightarrow> nat \<Rightarrow> MemBlock \<Rightarrow> HeapInfo \<Rightarrow> nat \<Rightarrow> mstate \<Rightarrow> nat \<times> mstate" where
  "realloc_in_place hHeap dwFlags dwBytes it info i s =
     (let m = (if dwBytes > mb_len it \<and> has dwFlags HEAP_ZERO_MEMORY
               then memset (mb_ptr it + mb_len it) 0 (dwBytes - mb_len it) (ms_mem s) else ms_mem s)
      in (mb_ptr it, set_blocks hHeap ((hi_lstMem info)[i := it\<lparr>mb_len := dwBytes\<rparr>]) (s\<lparr>ms_mem := m\<rparr>)))"

definition realloc_move :: "os \<Rightarrow> nat \<Rightarrow> nat \<Rightarrow> nat \<Rightarrow> MemBlock \<Rightarrow> HeapInfo \<Rightarrow> nat \<Rightarrow> mstate \<Rightarrow> nat \<times> mstate" where
  "realloc_move os hHeap dwFlags dwBytes it info i s =
     (let bufLen = page_round os dwBytes
      in case os_memalign os s bufLen of
           None \<Rightarrow> (0, s)
         | Some base \<Rightarrow>
             (let m1 = store 8 base hHeap (ms_mem s);
                  p = base + 8;
                  m2 = (if has dwFlags HEAP_ZERO_MEMORY then memset p 0 dwBytes m1 else m1);
                  m3 = memcpy p (mb_ptr it) (min (mb_len it) dwBytes) m2;
                  flush = (if has (mb_flags it) HEAP_CREATE_ENABLE_EXECUTE \<and> mb_flushLen it > 0 then 0 else mb_flushLen it);
                  it2 = it\<lparr>mb_ptr := p, mb_len := dwBytes, mb_allocSize := size_sub bufLen 8, mb_flushLen := flush\<rparr>
              in (p, set_blocks hHeap ((hi_lstMem info)[i := it2]) (s\<lparr>ms_mem := m3\<rparr>))))"

definition HeapReAlloc :: "os \<Rightarrow> nat \<Rightarrow> nat \<Rightarrow> nat \<Rightarrow> nat \<Rightarrow> mstate \<Rightarrow> nat \<times> mstate" where
  "HeapReAlloc os hHeap dwFlags lpMem dwBytes s =
     (case heap_of hHeap s of
        None \<Rightarrow> (0, s)
      | Some info \<Rightarrow>
          (case block_index lpMem (hi_lstMem info) of
             None \<Rightarrow> (0, s)
           | Some i \<Rightarrow>
               (let it = hi_lstMem info ! i
                in if mb_allocSize it \<ge> dwBytes then realloc_in_place hHeap dwFlags dwBytes it info i s
                   else realloc_move os hHeap dwFlags dwBytes it info i s)))"

definition HeapSize :: "nat \<Rightarrow> nat \<Rightarrow> mstate \<Rightarrow> nat" where
  "HeapSize hHeap lpMem s =
     (case heap_of hHeap s of
        None \<Rightarrow> 0
      | Some info \<Rightarrow>
          (case block_index lpMem (hi_lstMem info) of None \<Rightarrow> 0 | Some i \<Rightarrow> mb_len (hi_lstMem info ! i)))"

definition HeapLock :: "nat \<Rightarrow> mstate \<Rightarrow> bool" where
  "HeapLock hHeap s \<longleftrightarrow> heap_of hHeap s \<noteq> None"

definition HeapUnlock :: "nat \<Rightarrow> mstate \<Rightarrow> bool" where
  "HeapUnlock hHeap s \<longleftrightarrow> heap_of hHeap s \<noteq> None"

definition HeapValidate :: "os \<Rightarrow> nat \<Rightarrow> nat \<Rightarrow> mstate \<Rightarrow> bool" where
  "HeapValidate os hHeap lpMem s =
     (let pBuf = size_sub lpMem 8
      in if os_IsBadWritePtr os s pBuf 8 then False else load 8 pBuf (ms_mem s) = hHeap)"

text \<open>
  The result, \<open>None\<close> when the word in front of the block is not a live handle: the code follows
  it without a test. The first executable block with the address decides.
\<close>

fun flush_index :: "nat \<Rightarrow> MemBlock list \<Rightarrow> nat option" where
  "flush_index p [] = None"
| "flush_index p (b # bs) =
     (if mb_ptr b = p \<and> has (mb_flags b) HEAP_CREATE_ENABLE_EXECUTE then Some 0 else map_option Suc (flush_index p bs))"

definition FlushInstructionCache :: "os \<Rightarrow> nat \<Rightarrow> nat \<Rightarrow> mstate \<Rightarrow> (bool \<times> mstate) option" where
  "FlushInstructionCache os lpMem dwSize s =
     (let pBuf = size_sub lpMem 8
      in if os_IsBadWritePtr os s pBuf 8 then Some (False, s)
         else (let hHeap = load 8 pBuf (ms_mem s)
               in case heap_of hHeap s of
                    None \<Rightarrow> None
                  | Some info \<Rightarrow>
                      (case flush_index lpMem (hi_lstMem info) of
                         None \<Rightarrow> Some (False, s)
                       | Some i \<Rightarrow>
                           (let it = hi_lstMem info ! i
                            in if dwSize > mb_len it then Some (False, s)
                               else (let dwMapSize = page_round os dwSize mod 2 ^ 32
                                     in if os_mprotect os (lpMem - 8) dwMapSize = 0
                                        then Some (True, set_blocks hHeap
                                          ((hi_lstMem info)[i := it\<lparr>mb_flushLen := size_sub dwMapSize 8\<rparr>]) s)
                                        else Some (False, s))))))"

section \<open>Headers of moveable blocks\<close>

text \<open>\<^verbatim>\<open>local_header\<close> is packed: magic at 0, the pointer at 2, the flags at 10, the lock count at 11.\<close>

definition sizeof_header :: nat where "sizeof_header = 12"

definition get_header :: "nat \<Rightarrow> nat" where "get_header hmem = size_sub hmem 2"

definition get_handle :: "nat \<Rightarrow> nat" where "get_handle header = header + 2"

definition is_pointer :: "nat \<Rightarrow> bool" where "is_pointer hmem \<longleftrightarrow> hmem AND 2 = 0"

definition hdr_magic :: "nat \<Rightarrow> mstate \<Rightarrow> nat" where "hdr_magic header s = load 2 header (ms_mem s)"

definition hdr_ptr :: "nat \<Rightarrow> mstate \<Rightarrow> nat" where "hdr_ptr header s = load 8 (header + 2) (ms_mem s)"

definition hdr_flags :: "nat \<Rightarrow> mstate \<Rightarrow> nat" where "hdr_flags header s = load 1 (header + 10) (ms_mem s)"

definition hdr_lock :: "nat \<Rightarrow> mstate \<Rightarrow> nat" where "hdr_lock header s = load 1 (header + 11) (ms_mem s)"

definition set_hdr_magic :: "nat \<Rightarrow> nat \<Rightarrow> mstate \<Rightarrow> mstate" where
  "set_hdr_magic header v s = s\<lparr>ms_mem := store 2 header v (ms_mem s)\<rparr>"

definition set_hdr_ptr :: "nat \<Rightarrow> nat \<Rightarrow> mstate \<Rightarrow> mstate" where
  "set_hdr_ptr header v s = s\<lparr>ms_mem := store 8 (header + 2) v (ms_mem s)\<rparr>"

definition set_hdr_flags :: "nat \<Rightarrow> nat \<Rightarrow> mstate \<Rightarrow> mstate" where
  "set_hdr_flags header v s = s\<lparr>ms_mem := store 1 (header + 10) v (ms_mem s)\<rparr>"

definition set_hdr_lock :: "nat \<Rightarrow> nat \<Rightarrow> mstate \<Rightarrow> mstate" where
  "set_hdr_lock header v s = s\<lparr>ms_mem := store 1 (header + 11) v (ms_mem s)\<rparr>"

definition set_word :: "nat \<Rightarrow> nat \<Rightarrow> mstate \<Rightarrow> mstate" where
  "set_word p v s = s\<lparr>ms_mem := store 8 p v (ms_mem s)\<rparr>"

section \<open>Local memory\<close>

definition zero_flag :: "nat \<Rightarrow> nat" where
  "zero_flag flags = (if has flags LMEM_ZEROINIT then HEAP_ZERO_MEMORY else 0)"

definition LocalAlloc :: "os \<Rightarrow> nat \<Rightarrow> nat \<Rightarrow> mstate \<Rightarrow> nat \<times> mstate" where
  "LocalAlloc os flags cb s =
     (if \<not> has flags LMEM_MOVEABLE then HeapAlloc os (GetProcessHeap s) (zero_flag flags) cb s
      else if cb > INT_MAX - HLOCAL_STORAGE then (0, SetLastError ERROR_OUTOFMEMORY s)
      else
        (let (header, s1) = HeapAlloc os (GetProcessHeap s) 0 sizeof_header s
         in if header = 0 then (0, s1)
            else
              (let s2 = set_hdr_lock header 0 (set_hdr_flags header (drop_bit 8 flags) (set_hdr_magic header MAGIC_LOCAL_USED s1))
               in if cb \<noteq> 0
                  then (let (p, s3) = HeapAlloc os (GetProcessHeap s2) (zero_flag flags) (cb + HLOCAL_STORAGE) s2
                        in if p = 0 then (0, snd (HeapFree (GetProcessHeap s3) header s3))
                           else (get_handle header, set_hdr_ptr header (p + HLOCAL_STORAGE) (set_word p (get_handle header) s3)))
                  else (get_handle header, set_hdr_ptr header 0 s2))))"

definition LocalFree :: "nat \<Rightarrow> mstate \<Rightarrow> nat \<times> mstate" where
  "LocalFree hmem s =
     (let heap = GetProcessHeap s
      in if is_pointer hmem
         then (let (ok, s1) = HeapFree heap hmem s
               in if \<not> ok then (hmem, SetLastError ERROR_INVALID_HANDLE s1) else (0, s1))
         else
           (let header = get_header hmem
            in if hdr_magic header s = MAGIC_LOCAL_USED
               then (let s1 = set_hdr_magic header 0xdead s;
                         (ok2, s2) = (if hdr_ptr header s1 \<noteq> 0
                                      then HeapFree heap (size_sub (hdr_ptr header s1) HLOCAL_STORAGE) s1 else (True, s1));
                         (ok3, s3) = HeapFree heap header s2
                     in (if ok2 \<and> ok3 then 0 else hmem, s3))
               else (hmem, SetLastError ERROR_INVALID_HANDLE s)))"

definition LocalLock :: "nat \<Rightarrow> mstate \<Rightarrow> nat \<times> mstate" where
  "LocalLock hmem s =
     (if is_pointer hmem then (hmem, s)
      else
        (let header = get_header hmem
         in if hdr_magic header s = MAGIC_LOCAL_USED
            then (hdr_ptr header s,
                  if hdr_ptr header s = 0 then SetLastError ERROR_DISCARDED s
                  else if hdr_lock header s < LMEM_LOCKCOUNT then set_hdr_lock header (hdr_lock header s + 1) s else s)
            else (0, SetLastError ERROR_INVALID_HANDLE s)))"

definition LocalUnlock :: "nat \<Rightarrow> mstate \<Rightarrow> bool \<times> mstate" where
  "LocalUnlock hmem s =
     (if is_pointer hmem then (True, SetLastError ERROR_NOT_LOCKED s)
      else
        (let header = get_header hmem
         in if hdr_magic header s = MAGIC_LOCAL_USED
            then (if hdr_lock header s \<noteq> 0
                  then (let s1 = set_hdr_lock header (hdr_lock header s - 1) s; ret = (hdr_lock header s1 \<noteq> 0)
                        in (ret, if \<not> ret then SetLastError 0 s1 else s1))
                  else (False, SetLastError ERROR_NOT_LOCKED s))
            else (False, SetLastError ERROR_INVALID_HANDLE s)))"

text \<open>The branches of \<open>LocalReAlloc\<close> in the order of the code.\<close>

definition realloc_modify :: "os \<Rightarrow> nat \<Rightarrow> nat \<Rightarrow> mstate \<Rightarrow> nat \<times> mstate" where
  "realloc_modify os hmem flags s =
     (if is_pointer hmem \<and> has flags LMEM_MOVEABLE
      then (if hmem = 0 then (0, SetLastError ERROR_NOACCESS s)
            else
              (let sz = HeapSize (GetProcessHeap s) hmem s;
                   (ret, s1) = LocalAlloc os flags sz s;
                   (p, s2) = LocalLock ret s1;
                   s3 = s2\<lparr>ms_mem := memcpy p hmem sz (ms_mem s2)\<rparr>;
                   (_, s4) = LocalUnlock ret s3;
                   (_, s5) = LocalFree hmem s4
               in (ret, s5)))
      else if \<not> is_pointer hmem \<and> has flags LMEM_DISCARDABLE
      then (let header = get_header hmem
            in (hmem, set_hdr_flags header (hdr_flags header s OR drop_bit 8 LMEM_DISCARDABLE) s))
      else (0, SetLastError ERROR_INVALID_PARAMETER s))"

definition realloc_fixed :: "os \<Rightarrow> nat \<Rightarrow> nat \<Rightarrow> nat \<Rightarrow> mstate \<Rightarrow> nat \<times> mstate" where
  "realloc_fixed os hmem cb flags s =
     (if \<not> has flags LMEM_MOVEABLE
      then HeapReAlloc os (GetProcessHeap s) (zero_flag flags OR HEAP_REALLOC_IN_PLACE_ONLY) hmem cb s
      else
        (let (ret, s1) = LocalAlloc os flags cb s;
             (dst, s2) = LocalLock ret s1;
             sz_src = HeapSize (GetProcessHeap s2) hmem s2;
             s3 = s2\<lparr>ms_mem := memcpy dst hmem (min sz_src cb) (ms_mem s2)\<rparr>;
             (_, s4) = LocalUnlock ret s3;
             (_, s5) = HeapFree (GetProcessHeap s4) hmem s4
         in (ret, s5)))"

definition realloc_moveable :: "os \<Rightarrow> nat \<Rightarrow> nat \<Rightarrow> nat \<Rightarrow> mstate \<Rightarrow> nat \<times> mstate" where
  "realloc_moveable os hmem cb flags s =
     (let header = get_header hmem; heap = GetProcessHeap s
      in if cb \<noteq> 0
         then (if cb \<le> INT_MAX - HLOCAL_STORAGE
               then (if hdr_ptr header s \<noteq> 0
                     then (let (p, s1) = HeapReAlloc os heap (zero_flag flags) (size_sub (hdr_ptr header s) HLOCAL_STORAGE)
                                           (cb + HLOCAL_STORAGE) s
                           in if p \<noteq> 0 then (hmem, set_hdr_ptr header (p + HLOCAL_STORAGE) s1) else (0, s1))
                     else (let (p, s1) = HeapAlloc os heap (zero_flag flags) (cb + HLOCAL_STORAGE) s
                           in if p \<noteq> 0 then (hmem, set_hdr_ptr header (p + HLOCAL_STORAGE) (set_word p hmem s1)) else (0, s1)))
               else (0, SetLastError ERROR_OUTOFMEMORY s))
         else (if hdr_lock header s = 0
               then (if hdr_ptr header s \<noteq> 0
                     then (hmem, set_hdr_ptr header 0 (snd (HeapFree heap (size_sub (hdr_ptr header s) HLOCAL_STORAGE) s)))
                     else (hmem, s))
               else (0, s)))"

definition LocalReAlloc :: "os \<Rightarrow> nat \<Rightarrow> nat \<Rightarrow> nat \<Rightarrow> mstate \<Rightarrow> nat \<times> mstate" where
  "LocalReAlloc os hmem cb flags s =
     (if has flags LMEM_MODIFY then realloc_modify os hmem flags s
      else if is_pointer hmem then realloc_fixed os hmem cb flags s
      else realloc_moveable os hmem cb flags s)"

definition LocalSize :: "nat \<Rightarrow> mstate \<Rightarrow> nat \<times> mstate" where
  "LocalSize hMem s =
     (let heap = GetProcessHeap s
      in if is_pointer hMem then (HeapSize heap hMem s mod 2 ^ 32, s)
         else
           (let header = get_header hMem
            in if hdr_magic header s = MAGIC_LOCAL_USED
               then (if hdr_ptr header s \<noteq> 0
                     then (size_sub (HeapSize heap (size_sub (hdr_ptr header s) HLOCAL_STORAGE) s) HLOCAL_STORAGE mod 2 ^ 32, s)
                     else (0, s))
               else (0, SetLastError ERROR_INVALID_HANDLE s)))"

definition LocalFlags :: "nat \<Rightarrow> mstate \<Rightarrow> nat" where
  "LocalFlags hMem s = hdr_flags (get_header hMem) s"

definition LocalHandle :: "os \<Rightarrow> nat \<Rightarrow> mstate \<Rightarrow> nat \<times> mstate" where
  "LocalHandle os pmem s =
     (if pmem = 0 then (0, SetLastError ERROR_INVALID_PARAMETER s)
      else if is_pointer pmem \<and> HeapValidate os (GetProcessHeap s) pmem s then (pmem, s)
      else if os_IsBadReadPtr os s (size_sub pmem HLOCAL_STORAGE) HLOCAL_STORAGE then (0, SetLastError ERROR_INVALID_HANDLE s)
      else
        (let handle = load 8 (size_sub pmem HLOCAL_STORAGE) (ms_mem s)
         in if hdr_magic (get_header handle) s \<noteq> MAGIC_LOCAL_USED then (0, SetLastError ERROR_INVALID_HANDLE s)
            else (handle, s)))"

section \<open>Global memory\<close>

definition GlobalAlloc :: "os \<Rightarrow> nat \<Rightarrow> nat \<Rightarrow> mstate \<Rightarrow> nat \<times> mstate" where
  "GlobalAlloc os flags cb s =
     (let flags = flags - (flags AND GMEM_OBSOLETE);
          cb = (if \<not> has flags LMEM_MOVEABLE \<and> cb = 0 then 1 else cb)
      in LocalAlloc os flags cb s)"

definition GlobalFree :: "nat \<Rightarrow> mstate \<Rightarrow> nat \<times> mstate" where
  "GlobalFree = LocalFree"

definition GlobalUnlock :: "nat \<Rightarrow> mstate \<Rightarrow> bool \<times> mstate" where
  "GlobalUnlock = LocalUnlock"

definition GlobalLock :: "nat \<Rightarrow> mstate \<Rightarrow> nat \<times> mstate" where
  "GlobalLock = LocalLock"

definition GlobalSize :: "nat \<Rightarrow> mstate \<Rightarrow> nat \<times> mstate" where
  "GlobalSize = LocalSize"

definition GlobalReAlloc :: "os \<Rightarrow> nat \<Rightarrow> nat \<Rightarrow> nat \<Rightarrow> mstate \<Rightarrow> nat \<times> mstate" where
  "GlobalReAlloc = LocalReAlloc"

definition GlobalFlags :: "nat \<Rightarrow> mstate \<Rightarrow> nat" where
  "GlobalFlags = LocalFlags"

definition GlobalHandle :: "os \<Rightarrow> nat \<Rightarrow> mstate \<Rightarrow> nat \<times> mstate" where
  "GlobalHandle = LocalHandle"

end
