(* ===== verification/Memory_Laws.thy ===== *)
theory Memory_Laws
  imports Memory_Model
begin

text \<open>
  The heap as a map from a handle and an address to a block, the invariant of the map and the
  bytes, and what the heap calls do to both. The calls on local memory are proved from these
  laws alone.
\<close>

named_theorems mem_simps \<open>reads after writes at other addresses\<close>

section \<open>Bytes\<close>

lemma store_outside [mem_simps]: "x < a \<or> a + n \<le> x \<Longrightarrow> store n a v m x = m x"
  by (induction n a v m rule: store.induct) auto

lemma load_cong: "(\<And>x. a \<le> x \<Longrightarrow> x < a + n \<Longrightarrow> m x = m' x) \<Longrightarrow> load n a m = load n a m'"
  by (induction n a m rule: load.induct) auto

lemma load_store_same: "v < 256 ^ n \<Longrightarrow> load n a (store n a v m) = v"
proof (induction n a v m rule: store.induct)
  case (2 n a v m)
  have "store n (a + 1) (v div 256) (m(a := v mod 256)) a = v mod 256"
    by (subst store_outside) auto
  moreover have "v div 256 < 256 ^ n" using 2(2) by (simp add: less_mult_imp_div_less mult.commute)
  ultimately have "load n (a + 1) (store n (a + 1) (v div 256) (m(a := v mod 256))) = v div 256"
    "store n (a + 1) (v div 256) (m(a := v mod 256)) a = v mod 256"
    using 2(1) by blast+
  then show ?case by (simp only: load.simps store.simps mod_mult_div_eq)
qed simp

lemma load_store_other [mem_simps]: "a + n \<le> b \<or> b + k \<le> a \<Longrightarrow> load n a (store k b v m) = load n a m"
  by (rule load_cong) (auto simp: mem_simps)

lemma load_1 [simp]: "load 1 a m = m a" "load (Suc 0) a m = m a"
  by simp_all

lemma store_1: "store 1 a v m = m(a := v mod 256)"
  by simp

lemma memset_outside [mem_simps]: "x < p \<or> p + n \<le> x \<Longrightarrow> memset p v n m x = m x"
  by (auto simp: memset_def)

lemma memset_inside: "p \<le> x \<Longrightarrow> x < p + n \<Longrightarrow> memset p v n m x = v"
  by (simp add: memset_def)

lemma load_memset_other [mem_simps]: "a + k \<le> p \<or> p + n \<le> a \<Longrightarrow> load k a (memset p v n m) = load k a m"
  by (rule load_cong) (auto simp: mem_simps)

lemma memcpy_outside [mem_simps]: "x < d \<or> d + n \<le> x \<Longrightarrow> memcpy d p n m x = m x"
  by (auto simp: memcpy_def)

lemma memcpy_inside: "d \<le> x \<Longrightarrow> x < d + n \<Longrightarrow> memcpy d p n m x = m (p + (x - d))"
  by (simp add: memcpy_def)

lemma load_memcpy_other [mem_simps]: "a + k \<le> d \<or> d + n \<le> a \<Longrightarrow> load k a (memcpy d p n m) = load k a m"
  by (rule load_cong) (auto simp: mem_simps)

lemma load_4: "load 4 p m = m p + 256 * (m (p + 1) + 256 * (m (p + 2) + 256 * m (p + 3)))"
proof -
  have "load (Suc (Suc (Suc (Suc 0)))) p m = m p + 256 * (m (p + 1) + 256 * (m (p + 1 + 1) + 256 * m (p + 1 + 1 + 1)))"
    by (simp only: load.simps mult_0_right add_0_right)
  moreover have "Suc (Suc (Suc (Suc 0))) = 4" "p + 1 + 1 = p + 2" "p + 2 + 1 = p + 3" by simp_all
  ultimately show ?thesis by (simp only:)
qed

lemma load_split: "load (k + n) a m = load k a m + 256 ^ k * load n (a + k) m"
  by (induction k arbitrary: a) (simp_all add: algebra_simps)

lemma load_2: "load 2 p m = m p + 256 * m (p + 1)"
  by (simp add: numeral_2_eq_2)

lemma load_8: "load 8 p m = load 4 p m + 4294967296 * load 4 (p + 4) m"
  using load_split [of 4 4 p m] by simp

lemma load_zero: "(\<And>x. a \<le> x \<Longrightarrow> x < a + n \<Longrightarrow> m x = 0) \<Longrightarrow> load n a m = 0"
proof (induction n arbitrary: a)
  case (Suc n)
  have "load n (a + 1) m = 0" by (rule Suc.IH) (use Suc.prems in auto)
  then show ?case using Suc.prems [of a] by (simp add: load.simps)
qed (simp add: load.simps)

lemma load_shift: "(\<And>i. i < n \<Longrightarrow> m (a + i) = m' (b + i)) \<Longrightarrow> load n a m = load n b m'"
proof (induction n arbitrary: a b)
  case (Suc n)
  have "load n (a + 1) m = load n (b + 1) m'" by (rule Suc.IH) (use Suc.prems [of "Suc i" for i] in simp)
  then show ?case using Suc.prems [of 0] by simp
qed simp

section \<open>Lists of blocks as maps\<close>

definition lookup :: "MemBlock list \<Rightarrow> nat \<Rightarrow> MemBlock option" where
  "lookup bs p = map_option (nth bs) (block_index p bs)"

lemma lookup_Nil [simp]: "lookup [] p = None"
  by (simp add: lookup_def)

lemma lookup_Cons [simp]: "lookup (b # bs) p = (if mb_ptr b = p then Some b else lookup bs p)"
  by (cases "block_index p bs") (simp_all add: lookup_def)

lemma lookup_SomeD: "lookup bs p = Some b \<Longrightarrow> b \<in> set bs \<and> mb_ptr b = p"
  by (induction bs) (auto split: if_splits)

lemma lookup_None: "lookup bs p = None \<longleftrightarrow> p \<notin> mb_ptr ` set bs"
  by (induction bs) auto

lemma block_index_None: "block_index p bs = None \<longleftrightarrow> lookup bs p = None"
  by (simp add: lookup_def)

lemma block_index_SomeD: "block_index p bs = Some i \<Longrightarrow> i < length bs \<and> lookup bs p = Some (bs ! i) \<and> mb_ptr (bs ! i) = p"
  by (induction bs arbitrary: i) (auto split: if_splits)

lemma lookup_append_new: "mb_ptr b \<notin> mb_ptr ` set bs \<Longrightarrow> lookup (bs @ [b]) = (lookup bs)(mb_ptr b \<mapsto> b)"
  by (rule HOL.ext, induction bs) auto

lemma lookup_erase:
  "distinct (map mb_ptr bs) \<Longrightarrow> block_index p bs = Some i \<Longrightarrow> lookup (erase i bs) = (lookup bs)(p := None)"
proof (induction bs arbitrary: i)
  case (Cons b bs)
  show ?case
  proof (cases "mb_ptr b = p")
    case True
    then have "i = 0" "lookup bs p = None" using Cons.prems by (auto simp: lookup_None)
    then show ?thesis using True by (auto simp: erase_def)
  next
    case False
    then obtain j where j: "block_index p bs = Some j" "i = Suc j" using Cons.prems by auto
    then have "erase i (b # bs) = b # erase j bs" by (simp add: erase_def)
    moreover have "lookup (erase j bs) = (lookup bs)(p := None)" by (rule Cons.IH) (use Cons.prems j in simp_all)
    ultimately show ?thesis using False by auto
  qed
qed simp

lemma distinct_erase: "distinct (map f bs) \<Longrightarrow> distinct (map f (erase i bs))"
  unfolding erase_def map_append take_map [symmetric] drop_map [symmetric]
  using set_take_disj_set_drop_if_distinct [where i = i and j = "i + 1" and vs = "map f bs"]
  by (simp add: distinct_take distinct_drop)

lemma lookup_list_update:
  "distinct (map mb_ptr bs) \<Longrightarrow> block_index p bs = Some i \<Longrightarrow> mb_ptr b' = p \<or> lookup bs (mb_ptr b') = None \<Longrightarrow>
   lookup (bs[i := b']) = (lookup bs)(p := None, mb_ptr b' \<mapsto> b') \<and> distinct (map mb_ptr (bs[i := b']))"
proof (induction bs arbitrary: i)
  case (Cons b bs)
  show ?case
  proof (cases "mb_ptr b = p")
    case True
    then have "i = 0" "lookup bs p = None" using Cons.prems by (auto simp: lookup_None)
    then show ?thesis using True Cons.prems by (auto simp: lookup_None split: if_splits)
  next
    case False
    then obtain j where j: "block_index p bs = Some j" "i = Suc j" using Cons.prems by auto
    have IH: "lookup (bs[j := b']) = (lookup bs)(p := None, mb_ptr b' \<mapsto> b')" "distinct (map mb_ptr (bs[j := b']))"
      using Cons j by (auto split: if_splits)
    have nb: "mb_ptr b \<noteq> mb_ptr b'" using False Cons.prems(3) by auto
    have "mb_ptr b \<notin> mb_ptr ` set bs" using Cons.prems by simp
    then have none: "lookup bs (mb_ptr b) = None" by (simp only: lookup_None not_False_eq_True)
    then have "lookup (bs[j := b']) (mb_ptr b) = None" using IH(1) nb False by simp
    then have "mb_ptr b \<notin> set (map mb_ptr (bs[j := b']))" by (simp add: lookup_None)
    then have "distinct (map mb_ptr ((b # bs)[i := b']))" using IH(2) j(2) by simp
    moreover have "lookup ((b # bs)[i := b']) = (lookup (b # bs))(p := None, mb_ptr b' \<mapsto> b')"
      using IH(1) nb False none j(2) by auto
    ultimately show ?thesis by blast
  qed
qed simp

section \<open>The heaps as one map\<close>

definition blocks :: "mstate \<Rightarrow> nat \<times> nat \<Rightarrow> MemBlock option" where
  "blocks s = (\<lambda>(h, p). case heap_of h s of None \<Rightarrow> None | Some info \<Rightarrow> lookup (hi_lstMem info) p)"

text \<open>What is left of a heap when its blocks are forgotten.\<close>

definition heap_there :: "nat \<Rightarrow> mstate \<Rightarrow> bool" where
  "heap_there h s \<longleftrightarrow> heap_of h s \<noteq> None"

lemma heap_of_mem [simp]: "heap_of h (s\<lparr>ms_mem := m\<rparr>) = heap_of h s" "heap_of h (SetLastError e s) = heap_of h s"
  by (simp_all add: heap_of_def SetLastError_def)

lemma blocks_mem [simp]: "blocks (s\<lparr>ms_mem := m\<rparr>) = blocks s" "blocks (SetLastError e s) = blocks s"
  by (simp_all add: blocks_def)

lemma map_of_set_blocks:
  "map_of (map (\<lambda>(k, info). if k = h then (k, info\<lparr>hi_lstMem := bs\<rparr>) else (k, info)) xs) k
   = (if k = h then map_option (\<lambda>info. info\<lparr>hi_lstMem := bs\<rparr>) (map_of xs k) else map_of xs k)"
  for xs :: "(nat \<times> HeapInfo) list"
  by (induction xs) auto

lemma heap_of_set_blocks:
  "heap_of k (set_blocks h bs s) = (if k = h then map_option (\<lambda>info. info\<lparr>hi_lstMem := bs\<rparr>) (heap_of k s) else heap_of k s)"
proof -
  have "ms_heaps (set_blocks h bs s) = map (\<lambda>(k, info). if k = h then (k, info\<lparr>hi_lstMem := bs\<rparr>) else (k, info)) (ms_heaps s)"
    by (simp add: set_blocks_def)
  then show ?thesis unfolding heap_of_def by (simp only: map_of_set_blocks) simp
qed

lemma set_blocks_frame [simp]:
  "ms_mem (set_blocks h bs s) = ms_mem s" "ms_process (set_blocks h bs s) = ms_process s" "ms_error (set_blocks h bs s) = ms_error s"
  by (simp_all add: set_blocks_def)

lemma heap_there_simps [simp]:
  "heap_there k (set_blocks h bs s) = heap_there k s" "heap_there k (s\<lparr>ms_mem := m\<rparr>) = heap_there k s"
  "heap_there k (SetLastError e s) = heap_there k s"
  by (auto simp: heap_there_def heap_of_set_blocks)

lemma blocks_set_blocks:
  "heap_of h s = Some info \<Longrightarrow> blocks (set_blocks h bs s) (k, p) = (if k = h then lookup bs p else blocks s (k, p))"
  by (simp add: blocks_def heap_of_set_blocks)

lemma lookup_blocks: "heap_of h s = Some info \<Longrightarrow> lookup (hi_lstMem info) p = blocks s (h, p)"
  by (simp add: blocks_def)

lemma size_sub_small [simp]: "b \<le> a \<Longrightarrow> a < 2 ^ 64 \<Longrightarrow> size_sub a b = a - b"
proof -
  assume a: "b \<le> a" "a < 2 ^ 64"
  then have "a + 2 ^ 64 - b = (a - b) + 2 ^ 64" by simp
  then show ?thesis using a unfolding size_sub_def size_t_def by (simp only: mod_add_self2 mod_less diff_le_self le_less_trans)
qed

section \<open>The invariant\<close>

text \<open>
  A block starts one handle after a page, has whole pages and its length inside them, and the
  handle of its heap stands in front of it.
\<close>

definition block_ok :: "os \<Rightarrow> nat \<Rightarrow> MemBlock \<Rightarrow> bytes \<Rightarrow> bool" where
  "block_ok os h b m \<longleftrightarrow> mb_ptr b \<ge> 8 + os_pageSize os \<and> os_pageSize os dvd (mb_ptr b - 8)
     \<and> os_pageSize os dvd (mb_allocSize b + 8) \<and> mb_len b \<le> mb_allocSize b \<and> mb_ptr b + mb_allocSize b \<le> 2 ^ 64
     \<and> h < 2 ^ 64 \<and> load 8 (mb_ptr b - 8) m = h"

definition apart :: "MemBlock \<Rightarrow> MemBlock \<Rightarrow> bool" where
  "apart b c \<longleftrightarrow> mb_ptr b + mb_allocSize b + 8 \<le> mb_ptr c \<or> mb_ptr c + mb_allocSize c + 8 \<le> mb_ptr b"

definition heap_inv :: "os \<Rightarrow> mstate \<Rightarrow> bool" where
  "heap_inv os s \<longleftrightarrow>
     (\<forall>h info. heap_of h s = Some info \<longrightarrow> h < 2 ^ 64 \<and> distinct (map mb_ptr (hi_lstMem info)))
     \<and> (\<forall>h p b. blocks s (h, p) = Some b \<longrightarrow> block_ok os h b (ms_mem s))
     \<and> (\<forall>k l b c. blocks s k = Some b \<longrightarrow> blocks s l = Some c \<longrightarrow> k \<noteq> l \<longrightarrow> apart b c)"

text \<open>
  What the code relies on: pages of a multiple of eight bytes, and \<^verbatim>\<open>posix_memalign\<close> gives whole
  pages that are in no live block.
\<close>

definition os_ok :: "os \<Rightarrow> bool" where
  "os_ok os \<longleftrightarrow> 0 < os_pageSize os \<and> 8 dvd os_pageSize os \<and> os_pageSize os \<le> 2 ^ 31
     \<and> (\<forall>s n a. os_memalign os s n = Some a \<longrightarrow> 0 < n \<longrightarrow>
          0 < a \<and> os_pageSize os dvd a \<and> a + n \<le> 2 ^ 64
          \<and> (\<forall>k b. blocks s k = Some b \<longrightarrow> a + n + 8 \<le> mb_ptr b \<or> mb_ptr b + mb_allocSize b \<le> a))"

lemma page_round_bounds:
  assumes "os_ok os" "n + 8 + os_pageSize os \<le> 2 ^ 64"
  shows "n + 8 \<le> page_round os n" "page_round os n < 2 ^ 64" "os_pageSize os dvd page_round os n"
    "size_sub (page_round os n) 8 = page_round os n - 8" "0 < page_round os n"
proof -
  let ?g = "os_pageSize os"
  have g: "0 < ?g" using assms(1) by (simp add: os_ok_def)
  have r: "page_round os n = (n + 8 + ?g - 1) div ?g * ?g"
    using assms(2) g by (simp add: page_round_def size_t_def)
  have "(n + 8 + ?g - 1) = (n + 8 + ?g - 1) div ?g * ?g + (n + 8 + ?g - 1) mod ?g" by simp
  moreover have "(n + 8 + ?g - 1) mod ?g \<le> ?g - 1" using g by (simp add: Suc_leI le_diff_conv2 less_eq_Suc_le [symmetric] Suc_leD)
  ultimately show 1: "n + 8 \<le> page_round os n" using r g by linarith
  have "page_round os n \<le> n + 8 + ?g - 1" unfolding r by (rule div_times_less_eq_dividend)
  then show 2: "page_round os n < 2 ^ 64" using assms(2) g by linarith
  show "?g dvd page_round os n" by (simp add: r)
  show "size_sub (page_round os n) 8 = page_round os n - 8" using 1 2 by (simp add: size_sub_small)
  show "0 < page_round os n" using 1 by simp
qed

section \<open>Changing the map of blocks\<close>

lemma blocks_SomeD:
  assumes "heap_inv os s" "blocks s (h, p) = Some b"
  shows "block_ok os h b (ms_mem s)" "mb_ptr b = p" "heap_there h s"
  using assms by (auto simp: heap_inv_def heap_there_def blocks_def dest: lookup_SomeD split: option.splits)

lemma block_okD:
  assumes "block_ok os h b m"
  shows "8 < mb_ptr b \<or> os_pageSize os = 0" "mb_len b \<le> mb_allocSize b" "mb_ptr b + mb_allocSize b \<le> 2 ^ 64" "8 \<le> mb_ptr b"
    "load 8 (mb_ptr b - 8) m = h"
  using assms by (auto simp: block_ok_def)

lemma block_ok_mem:
  "block_ok os h b m \<Longrightarrow> load 8 (mb_ptr b - 8) m' = load 8 (mb_ptr b - 8) m \<Longrightarrow> block_ok os h b m'"
  by (simp add: block_ok_def)

lemma apart_sym: "apart b c \<longleftrightarrow> apart c b"
  by (auto simp: apart_def)

lemma heap_inv_apart: "heap_inv os s \<Longrightarrow> blocks s k = Some b \<Longrightarrow> blocks s l = Some c \<Longrightarrow> k \<noteq> l \<Longrightarrow> apart b c"
  unfolding heap_inv_def by blast

lemma heap_inv_distinct: "heap_inv os s \<Longrightarrow> heap_of h s = Some info \<Longrightarrow> distinct (map mb_ptr (hi_lstMem info)) \<and> h < 2 ^ 64"
  unfolding heap_inv_def by blast

text \<open>The invariant after a change is shown block by block.\<close>

lemma heap_inv_set_blocks:
  assumes inv: "heap_inv os s" and h: "heap_of h s = Some info" and d: "distinct (map mb_ptr bs)"
    and B: "B = blocks (set_blocks h bs (s\<lparr>ms_mem := m\<rparr>))"
    and ok: "\<And>k p b. B (k, p) = Some b \<Longrightarrow> block_ok os k b m"
    and ap: "\<And>k l b c. B k = Some b \<Longrightarrow> B l = Some c \<Longrightarrow> k \<noteq> l \<Longrightarrow> apart b c"
  shows "heap_inv os (set_blocks h bs (s\<lparr>ms_mem := m\<rparr>))"
proof -
  have "k < 2 ^ 64 \<and> distinct (map mb_ptr (hi_lstMem i))"
    if "heap_of k (set_blocks h bs (s\<lparr>ms_mem := m\<rparr>)) = Some i" for k i
  proof (cases "k = h")
    case True
    then show ?thesis using that heap_inv_distinct [OF inv h] h d by (auto simp: heap_of_set_blocks)
  next
    case False
    then show ?thesis using that heap_inv_distinct [OF inv] by (auto simp: heap_of_set_blocks)
  qed
  then show ?thesis using ok ap unfolding heap_inv_def B by simp
qed

lemma heap_inv_mem:
  assumes "heap_inv os s" "\<And>k p b. blocks s (k, p) = Some b \<Longrightarrow> load 8 (mb_ptr b - 8) m = load 8 (mb_ptr b - 8) (ms_mem s)"
  shows "heap_inv os (s\<lparr>ms_mem := m\<rparr>)"
  using assms(1) block_ok_mem [OF _ assms(2)] unfolding heap_inv_def by simp

lemma blocks_key: "blocks s (h, p) = Some b \<Longrightarrow> mb_ptr b = p"
  by (auto simp: blocks_def dest: lookup_SomeD split: option.splits)

lemma blocks_add:
  assumes "heap_of h s = Some info" "blocks s (h, mb_ptr b) = None"
  shows "blocks (set_blocks h (hi_lstMem info @ [b]) (s\<lparr>ms_mem := m\<rparr>)) = (blocks s)((h, mb_ptr b) \<mapsto> b)"
proof -
  have "mb_ptr b \<notin> mb_ptr ` set (hi_lstMem info)" using assms by (simp add: blocks_def lookup_None)
  then show ?thesis using assms(1) by (intro HOL.ext) (auto simp: blocks_set_blocks lookup_append_new lookup_blocks split: if_splits)
qed

lemma heap_inv_add:
  assumes inv: "heap_inv os s" and h: "heap_of h s = Some info" and ok: "block_ok os h b m"
    and ap: "\<And>k c. blocks s k = Some c \<Longrightarrow> apart b c"
    and hdr: "\<And>k c. blocks s k = Some c \<Longrightarrow> load 8 (mb_ptr c - 8) m = load 8 (mb_ptr c - 8) (ms_mem s)"
  shows "heap_inv os (set_blocks h (hi_lstMem info @ [b]) (s\<lparr>ms_mem := m\<rparr>))" "blocks s (h, mb_ptr b) = None"
proof -
  show none: "blocks s (h, mb_ptr b) = None"
  proof (cases "blocks s (h, mb_ptr b)")
    case (Some c)
    then have "mb_ptr c = mb_ptr b" by (rule blocks_key)
    then show ?thesis using ap [OF Some] by (simp add: apart_def)
  qed
  have new: "mb_ptr b \<notin> mb_ptr ` set (hi_lstMem info)" using none h by (simp add: blocks_def lookup_None)
  let ?s = "set_blocks h (hi_lstMem info @ [b]) (s\<lparr>ms_mem := m\<rparr>)"
  have B: "blocks ?s = (blocks s)((h, mb_ptr b) \<mapsto> b)" using h none by (rule blocks_add)
  show "heap_inv os ?s"
  proof (rule heap_inv_set_blocks [OF inv h _ refl])
    show "distinct (map mb_ptr (hi_lstMem info @ [b]))" using heap_inv_distinct [OF inv h] new by auto
    show "block_ok os k c m" if "blocks ?s (k, p) = Some c" for k p c
      using that ok hdr [of "(k, p)" c] blocks_SomeD(1) [OF inv, of k p c] by (auto simp: B intro: block_ok_mem split: if_splits)
    show "apart c c'" if "blocks ?s k = Some c" "blocks ?s l = Some c'" "k \<noteq> l" for k l c c'
      using that ap [of k c] ap [of l c'] heap_inv_apart [OF inv, of k c l c'] by (auto simp: B apart_sym split: if_splits)
  qed
qed

lemma blocks_replace:
  assumes inv: "heap_inv os s" and h: "heap_of h s = Some info" and i: "block_index p (hi_lstMem info) = Some i"
    and new: "mb_ptr b = p \<or> blocks s (h, mb_ptr b) = None"
  shows "blocks (set_blocks h ((hi_lstMem info)[i := b]) (s\<lparr>ms_mem := m\<rparr>)) = (blocks s)((h, p) := None, (h, mb_ptr b) \<mapsto> b)"
    "distinct (map mb_ptr ((hi_lstMem info)[i := b]))"
proof -
  have "mb_ptr b = p \<or> lookup (hi_lstMem info) (mb_ptr b) = None" using new h by (simp add: blocks_def)
  then have u: "lookup ((hi_lstMem info)[i := b]) = (lookup (hi_lstMem info))(p := None, mb_ptr b \<mapsto> b)"
    "distinct (map mb_ptr ((hi_lstMem info)[i := b]))"
    using lookup_list_update [OF _ i] heap_inv_distinct [OF inv h] by blast+
  show "distinct (map mb_ptr ((hi_lstMem info)[i := b]))" by (rule u(2))
  show "blocks (set_blocks h ((hi_lstMem info)[i := b]) (s\<lparr>ms_mem := m\<rparr>)) = (blocks s)((h, p) := None, (h, mb_ptr b) \<mapsto> b)"
    using h u(1) by (intro HOL.ext) (auto simp: blocks_set_blocks lookup_blocks split: if_splits)
qed

lemma heap_inv_replace:
  assumes inv: "heap_inv os s" and h: "heap_of h s = Some info" and i: "block_index p (hi_lstMem info) = Some i"
    and new: "mb_ptr b = p \<or> blocks s (h, mb_ptr b) = None" and ok: "block_ok os h b m"
    and ap: "\<And>k c. blocks s k = Some c \<Longrightarrow> k \<noteq> (h, p) \<Longrightarrow> apart b c"
    and hdr: "\<And>k c. blocks s k = Some c \<Longrightarrow> k \<noteq> (h, p) \<Longrightarrow> load 8 (mb_ptr c - 8) m = load 8 (mb_ptr c - 8) (ms_mem s)"
  shows "heap_inv os (set_blocks h ((hi_lstMem info)[i := b]) (s\<lparr>ms_mem := m\<rparr>))"
proof -
  let ?s = "set_blocks h ((hi_lstMem info)[i := b]) (s\<lparr>ms_mem := m\<rparr>)"
  note B = blocks_replace(1) [OF inv h i new, of m]
  show ?thesis
  proof (rule heap_inv_set_blocks [OF inv h _ refl])
    show "distinct (map mb_ptr ((hi_lstMem info)[i := b]))" by (rule blocks_replace(2) [OF inv h i new])
    show "block_ok os k c m" if "blocks ?s (k, q) = Some c" for k q c
      using that ok hdr [of "(k, q)" c] blocks_SomeD(1) [OF inv, of k q c] by (auto simp: B intro: block_ok_mem split: if_splits)
    show "apart c c'" if "blocks ?s k = Some c" "blocks ?s l = Some c'" "k \<noteq> l" for k l c c'
      using that ap [of k c] ap [of l c'] heap_inv_apart [OF inv, of k c l c'] by (auto simp: B apart_sym split: if_splits)
  qed
qed

lemma heap_inv_erase:
  assumes inv: "heap_inv os s" and h: "heap_of h s = Some info" and i: "block_index p (hi_lstMem info) = Some i"
  shows "heap_inv os (set_blocks h (erase i (hi_lstMem info)) s)"
    "blocks (set_blocks h (erase i (hi_lstMem info)) s) = (blocks s)((h, p) := None)"
proof -
  let ?s = "set_blocks h (erase i (hi_lstMem info)) s"
  have "lookup (erase i (hi_lstMem info)) = (lookup (hi_lstMem info))(p := None)"
    using heap_inv_distinct [OF inv h] i lookup_erase by blast
  then show B: "blocks ?s = (blocks s)((h, p) := None)" using h
    by (intro HOL.ext) (auto simp: blocks_set_blocks lookup_blocks split: if_splits)
  have "heap_inv os (set_blocks h (erase i (hi_lstMem info)) (s\<lparr>ms_mem := ms_mem s\<rparr>))"
  proof (rule heap_inv_set_blocks [OF inv h _ refl])
    show "distinct (map mb_ptr (erase i (hi_lstMem info)))" using heap_inv_distinct [OF inv h] distinct_erase by blast
    show "block_ok os k c (ms_mem s)" if "blocks (set_blocks h (erase i (hi_lstMem info)) (s\<lparr>ms_mem := ms_mem s\<rparr>)) (k, q) = Some c" for k q c
      using that blocks_SomeD(1) [OF inv, of k q c] B by (auto split: if_splits)
    show "apart c c'" if "blocks (set_blocks h (erase i (hi_lstMem info)) (s\<lparr>ms_mem := ms_mem s\<rparr>)) k = Some c"
        "blocks (set_blocks h (erase i (hi_lstMem info)) (s\<lparr>ms_mem := ms_mem s\<rparr>)) l = Some c'" "k \<noteq> l" for k l c c'
      using that heap_inv_apart [OF inv, of k c l c'] B by (auto split: if_splits)
  qed
  then show "heap_inv os ?s" by simp
qed

section \<open>The heap calls\<close>

text \<open>The pages a block occupies, and a state that differs from another only inside a range.\<close>

definition same_outside :: "nat \<Rightarrow> nat \<Rightarrow> mstate \<Rightarrow> mstate \<Rightarrow> bool" where
  "same_outside lo hi s t \<longleftrightarrow> (\<forall>a. a < lo \<or> hi \<le> a \<longrightarrow> ms_mem t a = ms_mem s a)
     \<and> ms_process t = ms_process s \<and> ms_error t = ms_error s \<and> (\<forall>h. heap_there h t = heap_there h s)"

lemma fresh_pages:
  assumes "os_ok os" "heap_inv os s" "os_memalign os s (page_round os n) = Some base" "n + 8 + os_pageSize os \<le> 2 ^ 64"
    and b: "mb_ptr b = base + 8" "mb_allocSize b = page_round os n - 8" "mb_len b = n" "h < 2 ^ 64" "load 8 base m = h"
  shows "block_ok os h b m" "blocks s k = Some c \<Longrightarrow> apart b c" "0 < base" "n \<le> mb_allocSize b"
proof -
  note pr = page_round_bounds [OF assms(1,4)]
  have a: "0 < base" "os_pageSize os dvd base" "base + page_round os n \<le> 2 ^ 64"
    "\<And>k b. blocks s k = Some b \<Longrightarrow> base + page_round os n + 8 \<le> mb_ptr b \<or> mb_ptr b + mb_allocSize b \<le> base"
    using assms(1,3) pr(5) unfolding os_ok_def by blast+
  show "0 < base" by (rule a(1))
  show "n \<le> mb_allocSize b" using b(2) pr(1) by simp
  have "os_pageSize os \<le> base" using a(1,2) by (rule dvd_imp_le [rotated])
  then show "block_ok os h b m" using a pr b by (simp add: block_ok_def)
  show "apart b c" if "blocks s k = Some c" using a(4) [OF that] b(1,2) pr(1) by (simp add: apart_def)
qed

lemma tail_memset:
  "n \<le> a \<Longrightarrow> a < 2 ^ 64 \<Longrightarrow> p + a \<le> 2 ^ 64 \<Longrightarrow> memset (size_t (p + n)) 0 (size_sub a n) m = memset (p + n) 0 (a - n) m"
proof (cases "p + n = 2 ^ 64")
  case True
  moreover assume "n \<le> a" "a < 2 ^ 64" "p + a \<le> 2 ^ 64"
  ultimately have "a - n = 0" "size_sub a n = 0" by simp_all
  then show ?thesis by (auto simp: memset_def)
qed (simp add: size_t_def)

lemma HeapAlloc_law:
  assumes os: "os_ok os" and inv: "heap_inv os s" and there: "heap_there h s" and n: "n + 8 + os_pageSize os \<le> 2 ^ 64"
    and run: "HeapAlloc os h fl n s = (p, s')"
  shows "(p = 0 \<and> s' = s) \<or>
    (\<exists>b. p \<noteq> 0 \<and> blocks s' = (blocks s)((h, p) \<mapsto> b) \<and> blocks s (h, p) = None \<and> heap_inv os s' \<and> mb_ptr b = p \<and> mb_len b = n
      \<and> mb_flags b = fl \<and> 8 < p \<and> (\<forall>k c. blocks s k = Some c \<longrightarrow> apart b c)
      \<and> same_outside (p - 8) (p + mb_allocSize b) s s' \<and> (has fl HEAP_ZERO_MEMORY \<longrightarrow> (\<forall>a. p \<le> a \<and> a < p + n \<longrightarrow> ms_mem s' a = 0)))"
proof -
  obtain info where h: "heap_of h s = Some info" using there by (auto simp: heap_there_def)
  note pr = page_round_bounds [OF os n]
  show ?thesis
  proof (cases "os_memalign os s (page_round os n)")
    case None
    then show ?thesis using run h by (simp add: HeapAlloc_def Let_def)
  next
    case (Some base)
    define b where "b = \<lparr>mb_len = n, mb_flushLen = 0, mb_allocSize = page_round os n - 8, mb_ptr = base + 8, mb_flags = fl\<rparr>"
    define m where "m = memset (base + 8 + n) 0 (page_round os n - 8 - n)
      (if has fl HEAP_ZERO_MEMORY then memset (base + 8) 0 n (store 8 base h (ms_mem s)) else store 8 base h (ms_mem s))"
    have a: "base + page_round os n \<le> 2 ^ 64" using os Some pr(5) unfolding os_ok_def by blast
    have tm: "memset (size_t (base + 8 + n)) 0 (size_sub (page_round os n - 8) n) m' = memset (base + 8 + n) 0 (page_round os n - 8 - n) m'" for m'
      by (rule tail_memset) (use pr(1,2) a in simp_all)
    have "HeapAlloc os h fl n s = (base + 8, set_blocks h (hi_lstMem info @ [b]) (s\<lparr>ms_mem := m\<rparr>))"
      unfolding HeapAlloc_def h Let_def option.case Some pr(4) tm b_def m_def by (rule refl)
    then have res: "p = base + 8" "s' = set_blocks h (hi_lstMem info @ [b]) (s\<lparr>ms_mem := m\<rparr>)" using run by simp_all
    have hb: "h < 2 ^ 64" using heap_inv_distinct [OF inv h] by blast
    have "load 8 base m = load 8 base (store 8 base h (ms_mem s))" unfolding m_def by (simp add: mem_simps)
    then have hdr: "load 8 base m = h" using hb by (simp add: load_store_same)
    note f = fresh_pages [OF os inv Some n, of b h m]
    have f': "block_ok os h b m" "\<And>k c. blocks s k = Some c \<Longrightarrow> apart b c" "0 < base"
      using f hb hdr by (simp_all add: b_def)
    have out: "m a = ms_mem s a" if "a < base \<or> base + page_round os n \<le> a" for a
      using that pr(1) by (auto simp: m_def mem_simps)
    have hdrs: "load 8 (mb_ptr c - 8) m = load 8 (mb_ptr c - 8) (ms_mem s)" if "blocks s k = Some c" for k c
    proof (rule load_cong)
      fix x assume x: "mb_ptr c - 8 \<le> x" "x < mb_ptr c - 8 + 8"
      have "8 \<le> mb_ptr c" using blocks_SomeD(1) [OF inv, of "fst k" "snd k" c] that block_okD(4) by simp
      then show "m x = ms_mem s x" using f'(2) [OF that] x by (intro out) (auto simp: apart_def b_def)
    qed
    note add = heap_inv_add [OF inv h f'(1,2) hdrs]
    have "blocks s' = (blocks s)((h, p) \<mapsto> b)" "blocks s (h, p) = None" "heap_inv os s'"
      using blocks_add [OF h add(2), where m = m] add by (simp_all add: res b_def)
    moreover have "has fl HEAP_ZERO_MEMORY \<longrightarrow> (\<forall>a. p \<le> a \<and> a < p + n \<longrightarrow> ms_mem s' a = 0)"
      by (auto simp: res m_def mem_simps memset_inside)
    moreover have "same_outside (p - 8) (p + mb_allocSize b) s s'"
      using out pr(1) by (auto simp: same_outside_def res b_def)
    moreover have "p \<noteq> 0" "mb_ptr b = p" "mb_len b = n" "mb_flags b = fl" "8 < p" using f'(3) by (simp_all add: b_def res)
    moreover have "\<forall>k c. blocks s k = Some c \<longrightarrow> apart b c" using f'(2) by blast
    ultimately show ?thesis by (intro disjI2 exI [of _ b] conjI)
  qed
qed

lemma HeapFree_law:
  assumes inv: "heap_inv os s" and run: "HeapFree h p s = (ok, s')"
  shows "ok \<longleftrightarrow> blocks s (h, p) \<noteq> None" "blocks s' = (blocks s)((h, p) := None)" "heap_inv os s'" "same_outside 0 0 s s'"
proof -
  have "(ok \<longleftrightarrow> blocks s (h, p) \<noteq> None) \<and> blocks s' = (blocks s)((h, p) := None) \<and> heap_inv os s' \<and> same_outside 0 0 s s'"
  proof (cases "heap_of h s")
    case None
    then have "ok = False" "s' = s" "blocks s (h, p) = None" using run by (simp_all add: HeapFree_def blocks_def)
    then show ?thesis using inv by (simp add: same_outside_def fun_upd_idem)
  next
    case (Some info)
    show ?thesis
    proof (cases "block_index p (hi_lstMem info)")
      case None
      then have "blocks s (h, p) = None" using Some by (simp add: block_index_None lookup_blocks)
      then show ?thesis using run Some None inv by (simp add: HeapFree_def same_outside_def fun_upd_idem)
    next
      case (Some i)
      then have "blocks s (h, p) \<noteq> None" using \<open>heap_of h s = Some info\<close> block_index_SomeD [OF Some] by (simp add: lookup_blocks)
      moreover have "ok" "s' = set_blocks h (erase i (hi_lstMem info)) s"
        using run Some \<open>heap_of h s = Some info\<close> by (simp_all add: HeapFree_def)
      ultimately show ?thesis using heap_inv_erase [OF inv \<open>heap_of h s = Some info\<close> Some] by (simp add: same_outside_def)
    qed
  qed
  then show "ok \<longleftrightarrow> blocks s (h, p) \<noteq> None" "blocks s' = (blocks s)((h, p) := None)" "heap_inv os s'" "same_outside 0 0 s s'"
    by blast+
qed

lemma HeapSize_law: "HeapSize h p s = (case blocks s (h, p) of None \<Rightarrow> 0 | Some b \<Rightarrow> mb_len b)"
  by (auto simp: HeapSize_def blocks_def lookup_def split: option.splits)

text \<open>
  Reallocation keeps or moves the block, with its new length; the first bytes are the old ones
  and, with the flag, the bytes behind the old length are zero.
\<close>

definition realloc_result :: "os \<Rightarrow> nat \<Rightarrow> nat \<Rightarrow> nat \<Rightarrow> nat \<Rightarrow> MemBlock \<Rightarrow> nat \<Rightarrow> MemBlock \<Rightarrow> mstate \<Rightarrow> mstate \<Rightarrow> bool" where
  "realloc_result os h fl p n it q b s s' \<longleftrightarrow>
     q \<noteq> 0 \<and> 8 < q \<and> mb_ptr b = q \<and> mb_len b = n \<and> mb_flags b = mb_flags it \<and> heap_inv os s'
     \<and> (q = p \<or> blocks s (h, q) = None) \<and> blocks s' = (blocks s)((h, p) := None, (h, q) \<mapsto> b)
     \<and> (\<forall>k c. blocks s k = Some c \<longrightarrow> k \<noteq> (h, p) \<longrightarrow> apart b c)
     \<and> same_outside (q - 8) (q + mb_allocSize b) s s'
     \<and> (\<forall>i < min (mb_len it) n. ms_mem s' (q + i) = ms_mem s (p + i))
     \<and> (has fl HEAP_ZERO_MEMORY \<longrightarrow> (\<forall>i. mb_len it \<le> i \<and> i < n \<longrightarrow> ms_mem s' (q + i) = 0))"

lemma headers_outside:
  assumes inv: "heap_inv os s" and k: "blocks s k = Some c" and b: "8 \<le> mb_ptr b" "apart b c"
    and out: "\<And>a. a < mb_ptr b - 8 \<or> mb_ptr b + mb_allocSize b \<le> a \<Longrightarrow> m a = ms_mem s a"
  shows "load 8 (mb_ptr c - 8) m = load 8 (mb_ptr c - 8) (ms_mem s)"
proof (rule load_cong)
  fix x assume x: "mb_ptr c - 8 \<le> x" "x < mb_ptr c - 8 + 8"
  have "8 \<le> mb_ptr c" using blocks_SomeD(1) [OF inv, of "fst k" "snd k" c] k block_okD(4) by simp
  then show "m x = ms_mem s x" using b x by (intro out) (auto simp: apart_def)
qed

lemma realloc_in_place_law:
  assumes inv: "heap_inv os s" and h: "heap_of h s = Some info" and i: "block_index p (hi_lstMem info) = Some i"
    and it: "blocks s (h, p) = Some it" "hi_lstMem info ! i = it" "n \<le> mb_allocSize it"
    and run: "realloc_in_place h fl n it info i s = (q, s')" and g: "0 < os_pageSize os"
  shows "realloc_result os h fl p n it q (it\<lparr>mb_len := n\<rparr>) s s'"
proof -
  let ?b = "it\<lparr>mb_len := n\<rparr>"
  define m where "m = (if n > mb_len it \<and> has fl HEAP_ZERO_MEMORY
    then memset (mb_ptr it + mb_len it) 0 (n - mb_len it) (ms_mem s) else ms_mem s)"
  have res: "q = mb_ptr it" "s' = set_blocks h ((hi_lstMem info)[i := ?b]) (s\<lparr>ms_mem := m\<rparr>)"
    using run by (simp_all add: realloc_in_place_def m_def Let_def)
  note ok = blocks_SomeD(1) [OF inv it(1)]
  have p: "mb_ptr it = p" "8 < p" using blocks_key [OF it(1)] block_okD(1) [OF ok] g by auto
  have out: "m a = ms_mem s a" if "a < p \<or> p + mb_allocSize it \<le> a" for a
    using that it(3) p(1) by (auto simp: m_def mem_simps)
  have ok': "block_ok os h ?b m"
  proof -
    have "load 8 (p - 8) m = load 8 (p - 8) (ms_mem s)" by (rule load_cong) (use p(2) in \<open>auto intro!: out\<close>)
    then show ?thesis using ok it(3) by (simp add: block_ok_def p)
  qed
  have ap: "apart ?b c" if "blocks s k = Some c" "k \<noteq> (h, p)" for k c
    using heap_inv_apart [OF inv it(1) that(1)] that(2) by (auto simp: apart_def)
  have hdr: "load 8 (mb_ptr c - 8) m = load 8 (mb_ptr c - 8) (ms_mem s)" if "blocks s k = Some c" "k \<noteq> (h, p)" for k c
  proof (rule headers_outside [OF inv that(1) _ ap [OF that]])
    show "8 \<le> mb_ptr (it\<lparr>mb_len := n\<rparr>)" using p by simp
    show "m a = ms_mem s a" if "a < mb_ptr (it\<lparr>mb_len := n\<rparr>) - 8 \<or> mb_ptr (it\<lparr>mb_len := n\<rparr>) + mb_allocSize (it\<lparr>mb_len := n\<rparr>) \<le> a" for a
      by (rule out) (use that p in auto)
  qed
  have new: "mb_ptr ?b = p \<or> blocks s (h, mb_ptr ?b) = None" by (simp add: p)
  have "heap_inv os s'" using heap_inv_replace [OF inv h i new ok' ap hdr] by (simp add: res)
  moreover have "blocks s' = (blocks s)((h, p) := None, (h, q) \<mapsto> ?b)"
    using blocks_replace(1) [OF inv h i new, where m = m] by (simp add: res)
  moreover have "same_outside (q - 8) (q + mb_allocSize ?b) s s'" by (auto simp: same_outside_def res p intro!: out)
  moreover have "\<forall>i < min (mb_len it) n. ms_mem s' (q + i) = ms_mem s (p + i)"
    by (auto simp: res p m_def mem_simps)
  moreover have "has fl HEAP_ZERO_MEMORY \<longrightarrow> (\<forall>i. mb_len it \<le> i \<and> i < n \<longrightarrow> ms_mem s' (q + i) = 0)"
    by (auto simp: res p m_def memset_inside)
  ultimately show ?thesis using ap p by (simp add: realloc_result_def res)
qed

lemma realloc_move_law:
  assumes os: "os_ok os" and n: "n + 8 + os_pageSize os \<le> 2 ^ 64"
    and inv: "heap_inv os s" and h: "heap_of h s = Some info" and i: "block_index p (hi_lstMem info) = Some i"
    and it: "blocks s (h, p) = Some it" "hi_lstMem info ! i = it"
    and run: "realloc_move os h fl n it info i s = (q, s')" "q \<noteq> 0"
  shows "\<exists>b. realloc_result os h fl p n it q b s s'"
proof -
  note pr = page_round_bounds [OF os n]
  obtain base where base: "os_memalign os s (page_round os n) = Some base"
    using run by (cases "os_memalign os s (page_round os n)") (auto simp: realloc_move_def Let_def)
  define b where "b = it\<lparr>mb_ptr := base + 8, mb_len := n, mb_allocSize := page_round os n - 8,
    mb_flushLen := (if has (mb_flags it) HEAP_CREATE_ENABLE_EXECUTE \<and> mb_flushLen it > 0 then 0 else mb_flushLen it)\<rparr>"
  define m where "m = memcpy (base + 8) (mb_ptr it) (min (mb_len it) n)
    (if has fl HEAP_ZERO_MEMORY then memset (base + 8) 0 n (store 8 base h (ms_mem s)) else store 8 base h (ms_mem s))"
  have "realloc_move os h fl n it info i s = (base + 8, set_blocks h ((hi_lstMem info)[i := b]) (s\<lparr>ms_mem := m\<rparr>))"
    unfolding realloc_move_def Let_def base option.case pr(4) b_def m_def by (rule refl)
  then have res: "q = base + 8" "s' = set_blocks h ((hi_lstMem info)[i := b]) (s\<lparr>ms_mem := m\<rparr>)" using run by simp_all
  have hb: "h < 2 ^ 64" using heap_inv_distinct [OF inv h] by blast
  have "load 8 base m = load 8 base (store 8 base h (ms_mem s))" unfolding m_def by (simp add: mem_simps)
  then have hdr: "load 8 base m = h" using hb by (simp add: load_store_same)
  note f = fresh_pages [OF os inv base n, of b h m]
  have f': "block_ok os h b m" "\<And>k c. blocks s k = Some c \<Longrightarrow> apart b c" "0 < base" using f hb hdr by (simp_all add: b_def)
  have p: "mb_ptr it = p" by (rule blocks_key [OF it(1)])
  have out: "m a = ms_mem s a" if "a < base \<or> base + page_round os n \<le> a" for a
    using that pr(1) by (auto simp: m_def mem_simps)
  have hdrs: "load 8 (mb_ptr c - 8) m = load 8 (mb_ptr c - 8) (ms_mem s)" if "blocks s k = Some c" for k c
    by (rule headers_outside [OF inv that _ f'(2) [OF that]]) (use pr(1) in \<open>auto simp: b_def intro!: out\<close>)
  have new: "blocks s (h, mb_ptr b) = None" by (rule heap_inv_add(2) [OF inv h f'(1,2) hdrs])
  have "heap_inv os s'" using heap_inv_replace [OF inv h i disjI2 [OF new] f'(1,2) hdrs] by (simp add: res)
  moreover have "blocks s' = (blocks s)((h, p) := None, (h, q) \<mapsto> b)" "blocks s (h, q) = None"
    using blocks_replace(1) [OF inv h i disjI2 [OF new], where m = m] new by (simp_all add: res b_def)
  moreover have "same_outside (q - 8) (q + mb_allocSize b) s s'" using out pr(1) by (auto simp: same_outside_def res b_def)
  moreover have "\<forall>i < min (mb_len it) n. ms_mem s' (q + i) = ms_mem s (p + i)"
  proof (intro allI impI)
    fix j assume j: "j < min (mb_len it) n"
    have old: "p + j < base \<or> base + page_round os n \<le> p + j"
      using f'(2) [OF it(1)] j block_okD(2) [OF blocks_SomeD(1) [OF inv it(1)]] pr(1) by (auto simp: apart_def b_def p)
    have "m (q + j) = (if has fl HEAP_ZERO_MEMORY then memset (base + 8) 0 n (store 8 base h (ms_mem s)) else store 8 base h (ms_mem s)) (p + j)"
      using j by (simp add: m_def res p memcpy_inside)
    also have "\<dots> = ms_mem s (p + j)" using old pr(1) by (auto simp: mem_simps)
    finally show "ms_mem s' (q + j) = ms_mem s (p + j)" by (simp add: res)
  qed
  moreover have "has fl HEAP_ZERO_MEMORY \<longrightarrow> (\<forall>i. mb_len it \<le> i \<and> i < n \<longrightarrow> ms_mem s' (q + i) = 0)"
    by (auto simp: res m_def mem_simps memset_inside)
  moreover have "\<forall>k c. blocks s k = Some c \<longrightarrow> k \<noteq> (h, p) \<longrightarrow> apart b c" using f'(2) by blast
  moreover have "q \<noteq> 0" "8 < q" "mb_ptr b = q" "mb_len b = n" "mb_flags b = mb_flags it" using f'(3) by (simp_all add: b_def res)
  ultimately show ?thesis unfolding realloc_result_def by (intro exI [of _ b] conjI disjI2)
qed

lemma HeapReAlloc_law:
  assumes os: "os_ok os" and n: "n + 8 + os_pageSize os \<le> 2 ^ 64" and inv: "heap_inv os s"
    and run: "HeapReAlloc os h fl p n s = (q, s')" "q \<noteq> 0"
  shows "\<exists>it b. blocks s (h, p) = Some it \<and> realloc_result os h fl p n it q b s s'"
proof -
  obtain info where h: "heap_of h s = Some info" using run by (cases "heap_of h s") (auto simp: HeapReAlloc_def)
  obtain i where i: "block_index p (hi_lstMem info) = Some i"
    using run h by (cases "block_index p (hi_lstMem info)") (auto simp: HeapReAlloc_def)
  have it: "blocks s (h, p) = Some (hi_lstMem info ! i)" using block_index_SomeD [OF i] h by (simp add: lookup_blocks)
  have g: "0 < os_pageSize os" using os by (simp add: os_ok_def)
  show ?thesis
  proof (cases "n \<le> mb_allocSize (hi_lstMem info ! i)")
    case True
    then have "realloc_in_place h fl n (hi_lstMem info ! i) info i s = (q, s')" using run h i by (simp add: HeapReAlloc_def Let_def)
    from realloc_in_place_law [OF inv h i it refl True this g] it show ?thesis by blast
  next
    case False
    then have "realloc_move os h fl n (hi_lstMem info ! i) info i s = (q, s')" using run h i by (simp add: HeapReAlloc_def Let_def)
    from realloc_move_law [OF os n inv h i it refl this run(2)] it show ?thesis by blast
  qed
qed

end
