(* ===== verification/Memory_Local.thy ===== *)
theory Memory_Local
  imports Memory_Laws
begin

text \<open>
  Moveable blocks over the laws of the heap: what a live handle is, that \<open>LocalAlloc\<close> makes one,
  and what the other calls do to it.
\<close>

section \<open>Alignment\<close>

lemma is_pointer_iff: "is_pointer n \<longleftrightarrow> n mod 4 < 2"
proof -
  have "n AND 2 = 0 \<longleftrightarrow> \<not> bit n 1" using and_exp_eq_0_iff_not_bit [of n 1] by simp
  also have "\<not> bit n 1 \<longleftrightarrow> even (n div 2)" by (simp add: bit_iff_odd)
  also have "even (n div 2) \<longleftrightarrow> n mod 4 < 2" by presburger
  finally show ?thesis by (simp add: is_pointer_def)
qed

lemma block_aligned:
  assumes "os_ok os" "block_ok os h b m"
  shows "8 dvd mb_ptr b" "8 < mb_ptr b"
proof -
  have g: "8 dvd os_pageSize os" "0 < os_pageSize os" using assms(1) by (simp_all add: os_ok_def)
  have b: "os_pageSize os dvd (mb_ptr b - 8)" "8 + os_pageSize os \<le> mb_ptr b" using assms(2) by (simp_all add: block_ok_def)
  have "8 dvd mb_ptr b - 8" using g(1) b(1) by (rule dvd_trans)
  then have "8 dvd mb_ptr b - 8 + 8" by simp
  then show "8 dvd mb_ptr b" using b(2) by simp
  show "8 < mb_ptr b" using g(2) b(2) by simp
qed

lemma pointer_of_block: "8 dvd (p :: nat) \<Longrightarrow> is_pointer p" "8 dvd p \<Longrightarrow> \<not> is_pointer (p + 2)" "8 dvd p \<Longrightarrow> is_pointer (p + 16)"
  unfolding is_pointer_iff by presburger+

lemma get_header_handle: "2 \<le> hm \<Longrightarrow> hm < 2 ^ 64 \<Longrightarrow> get_header hm = hm - 2"
  by (simp add: get_header_def)

section \<open>Writes inside a block\<close>

lemma heap_inv_write:
  assumes inv: "heap_inv os s" and k: "blocks s k = Some b"
    and out: "\<And>a. a < mb_ptr b \<or> mb_ptr b + mb_allocSize b \<le> a \<Longrightarrow> m a = ms_mem s a"
  shows "heap_inv os (s\<lparr>ms_mem := m\<rparr>)"
proof (rule heap_inv_mem [OF inv])
  fix l p c assume c: "blocks s (l, p) = Some c"
  note okc = block_okD [OF blocks_SomeD(1) [OF inv c]]
  obtain h q where kq: "k = (h, q)" by (cases k)
  note okb = block_okD [OF blocks_SomeD(1) [OF inv k [unfolded kq]]]
  show "load 8 (mb_ptr c - 8) m = load 8 (mb_ptr c - 8) (ms_mem s)"
  proof (cases "k = (l, p)")
    case True
    then have "c = b" using c k by simp
    then show ?thesis using okb(4) by (intro load_cong out) auto
  next
    case False
    then have "apart b c" using heap_inv_apart [OF inv k c] by simp
    then show ?thesis using okb okc(4) by (intro load_cong out) (auto simp: apart_def)
  qed
qed

text \<open>Reading \<open>k\<close> bytes that a step leaves alone.\<close>

lemma same_outside_load: "same_outside lo hi s t \<Longrightarrow> a + k \<le> lo \<or> hi \<le> a \<Longrightarrow> load k a (ms_mem t) = load k a (ms_mem s)"
  by (rule load_cong) (auto simp: same_outside_def)

lemma same_outside_frame: "same_outside lo hi s t \<Longrightarrow> ms_process t = ms_process s \<and> heap_there h t = heap_there h s"
  by (simp add: same_outside_def)

lemma heap_inv_process [simp]: "heap_inv os (SetLastError e s) = heap_inv os s"
  by (simp add: heap_inv_def SetLastError_def heap_of_def blocks_def)

lemma hdr_frame [simp]:
  "blocks (set_hdr_magic a v s) = blocks s" "blocks (set_hdr_ptr a v s) = blocks s" "blocks (set_hdr_flags a v s) = blocks s"
  "blocks (set_hdr_lock a v s) = blocks s" "blocks (set_word a v s) = blocks s"
  "ms_process (set_hdr_magic a v s) = ms_process s" "ms_process (set_hdr_ptr a v s) = ms_process s" "ms_process (set_hdr_flags a v s) = ms_process s"
  "ms_process (set_hdr_lock a v s) = ms_process s" "ms_process (set_word a v s) = ms_process s" "ms_process (SetLastError e s) = ms_process s"
  "heap_there h (set_hdr_magic a v s) = heap_there h s" "heap_there h (set_hdr_ptr a v s) = heap_there h s" "heap_there h (set_hdr_flags a v s) = heap_there h s"
  "heap_there h (set_hdr_lock a v s) = heap_there h s" "heap_there h (set_word a v s) = heap_there h s"
  "ms_mem (SetLastError e s) = ms_mem s"
  by (simp_all add: set_hdr_magic_def set_hdr_ptr_def set_hdr_flags_def set_hdr_lock_def set_word_def SetLastError_def)

lemma hdr_mem [simp]:
  "ms_mem (set_hdr_magic a v s) = store 2 a v (ms_mem s)" "ms_mem (set_hdr_ptr a v s) = store 8 (a + 2) v (ms_mem s)"
  "ms_mem (set_hdr_flags a v s) = store 1 (a + 10) v (ms_mem s)" "ms_mem (set_hdr_lock a v s) = store 1 (a + 11) v (ms_mem s)"
  "ms_mem (set_word a v s) = store 8 a v (ms_mem s)"
  by (simp_all add: set_hdr_magic_def set_hdr_ptr_def set_hdr_flags_def set_hdr_lock_def set_word_def)

declare store.simps [simp del] load.simps [simp del]

lemma heap_inv_hdr:
  assumes inv: "heap_inv os s" and k: "blocks s k = Some b" "mb_ptr b \<le> a" "a + n \<le> mb_ptr b + mb_allocSize b"
    and t: "t = s\<lparr>ms_mem := store n a v (ms_mem s)\<rparr>"
  shows "heap_inv os t"
  unfolding t by (rule heap_inv_write [OF inv k(1)]) (use k in \<open>auto simp: mem_simps\<close>)

section \<open>Live handles\<close>

text \<open>
  \<open>moveable s hm n q\<close>: \<open>hm\<close> is the handle of a moveable block of \<open>n\<close> bytes of the process heap,
  whose data is at \<open>q\<close>; a discarded block has no data and \<open>q\<close> is null.
\<close>

definition header_block :: "mstate \<Rightarrow> nat \<Rightarrow> bool" where
  "header_block s hm \<longleftrightarrow> 2 \<le> hm \<and> hm < 2 ^ 64 \<and> \<not> is_pointer hm
     \<and> (\<exists>hb. blocks s (ms_process s, hm - 2) = Some hb \<and> mb_len hb = 12 \<and> 12 \<le> mb_allocSize hb)
     \<and> load 2 (hm - 2) (ms_mem s) = MAGIC_LOCAL_USED"

definition data_block :: "mstate \<Rightarrow> nat \<Rightarrow> nat \<Rightarrow> nat \<Rightarrow> bool" where
  "data_block s hm n q \<longleftrightarrow> 16 < q \<and> q < 2 ^ 64 \<and> q \<noteq> hm + 14 \<and> n + 16 < 2 ^ 31
     \<and> (\<exists>db. blocks s (ms_process s, q - 16) = Some db \<and> mb_len db = n + 16) \<and> load 8 (q - 16) (ms_mem s) = hm"

definition moveable :: "mstate \<Rightarrow> nat \<Rightarrow> nat \<Rightarrow> nat \<Rightarrow> bool" where
  "moveable s hm n q \<longleftrightarrow> header_block s hm \<and> load 8 hm (ms_mem s) = q
     \<and> (if q = 0 then n = 0 else data_block s hm n q)"

lemma hdr_ptr_handle: "2 \<le> hm \<Longrightarrow> hdr_ptr (hm - 2) s = load 8 hm (ms_mem s)"
  by (simp only: hdr_ptr_def le_add_diff_inverse2)

lemma moveable_header:
  assumes "moveable s hm n q"
  shows "get_header hm = hm - 2" "hdr_magic (hm - 2) s = MAGIC_LOCAL_USED" "hdr_ptr (hm - 2) s = q" "\<not> is_pointer hm" "2 \<le> hm"
  using assms by (auto simp: moveable_def header_block_def get_header_handle hdr_magic_def hdr_ptr_handle)

lemma LocalLock_moveable:
  assumes "moveable s hm n q"
  shows "LocalLock hm s = (q, if q = 0 then SetLastError ERROR_DISCARDED s
    else if hdr_lock (hm - 2) s < LMEM_LOCKCOUNT then set_hdr_lock (hm - 2) (hdr_lock (hm - 2) s + 1) s else s)"
  using moveable_header [OF assms] by (simp add: LocalLock_def Let_def)

lemma LocalSize_moveable:
  assumes "moveable s hm n q"
  shows "LocalSize hm s = (n, s)"
proof (cases "q = 0")
  case True
  then show ?thesis using moveable_header [OF assms] assms by (simp add: LocalSize_def Let_def moveable_def)
next
  case False
  then have "data_block s hm n q" using assms by (simp add: moveable_def)
  then obtain db where d: "16 < q" "q < 2 ^ 64" "n + 16 < 2 ^ 31" "blocks s (ms_process s, q - 16) = Some db" "mb_len db = n + 16"
    by (auto simp: data_block_def)
  then have "HeapSize (ms_process s) (q - 16) s = n + 16" by (simp add: HeapSize_law)
  then show ?thesis using moveable_header [OF assms] False d
    by (simp add: LocalSize_def Let_def GetProcessHeap_def HLOCAL_STORAGE_def)
qed

section \<open>Allocation\<close>

text \<open>Every byte of every block of \<open>s\<close> is the same in \<open>t\<close>.\<close>

definition blocks_kept :: "mstate \<Rightarrow> mstate \<Rightarrow> bool" where
  "blocks_kept s t \<longleftrightarrow> (\<forall>k b a. blocks s k = Some b \<longrightarrow> mb_ptr b - 8 \<le> a \<longrightarrow> a < mb_ptr b + mb_allocSize b \<longrightarrow> ms_mem t a = ms_mem s a)"

lemma new_block_bounds:
  assumes "os_ok os" "heap_inv os s'" "blocks s' (h, p) = Some b"
  shows "8 dvd p" "mb_len b \<le> mb_allocSize b" "p + mb_allocSize b \<le> 2 ^ 64" "8 < p" "mb_ptr b = p"
  using block_aligned [OF assms(1) blocks_SomeD(1) [OF assms(2,3)]] block_okD [OF blocks_SomeD(1) [OF assms(2,3)]]
    blocks_key [OF assms(3)] by auto

lemma apart_range:
  "apart b c \<Longrightarrow> 8 \<le> mb_ptr c \<Longrightarrow> 8 \<le> mb_ptr b \<Longrightarrow> mb_ptr c - 8 \<le> a \<Longrightarrow> a < mb_ptr c + mb_allocSize c \<Longrightarrow>
   a < mb_ptr b - 8 \<or> mb_ptr b + mb_allocSize b \<le> a"
  by (auto simp: apart_def)

lemma has_zero_flag: "has (zero_flag fl) HEAP_ZERO_MEMORY \<longleftrightarrow> has fl LMEM_ZEROINIT"
  by (auto simp: zero_flag_def has_def HEAP_ZERO_MEMORY_def)

text \<open>The header \<open>LocalAlloc\<close> writes into a fresh block of 12 bytes.\<close>

definition init_header :: "nat \<Rightarrow> nat \<Rightarrow> mstate \<Rightarrow> mstate" where
  "init_header header fl s = set_hdr_lock header 0 (set_hdr_flags header (drop_bit 8 fl) (set_hdr_magic header MAGIC_LOCAL_USED s))"

lemma init_header_mem:
  "ms_mem (init_header p fl s) = store 1 (p + 11) 0 (store 1 (p + 10) (drop_bit 8 fl) (store 2 p MAGIC_LOCAL_USED (ms_mem s)))"
  by (simp add: init_header_def)

lemma init_header_frame [simp]:
  "blocks (init_header p fl s) = blocks s" "ms_process (init_header p fl s) = ms_process s" "heap_there h (init_header p fl s) = heap_there h s"
  by (simp_all add: init_header_def)

lemma init_header_reads:
  "load 2 p (ms_mem (init_header p fl s)) = MAGIC_LOCAL_USED" "ms_mem (init_header p fl s) (p + 11) = 0"
  "a < p \<or> p + 12 \<le> a \<Longrightarrow> ms_mem (init_header p fl s) a = ms_mem s a"
proof -
  show "load 2 p (ms_mem (init_header p fl s)) = MAGIC_LOCAL_USED"
    by (simp add: init_header_mem mem_simps load_store_same MAGIC_LOCAL_USED_def)
  show "ms_mem (init_header p fl s) (p + 11) = 0" by (simp add: init_header_mem store.simps)
  show "a < p \<or> p + 12 \<le> a \<Longrightarrow> ms_mem (init_header p fl s) a = ms_mem s a" by (auto simp: init_header_mem mem_simps)
qed

lemma heap_inv_init_header:
  assumes "heap_inv os s" "blocks s (h, p) = Some b" "12 \<le> mb_allocSize b"
  shows "heap_inv os (init_header p fl s)"
proof -
  have "heap_inv os (s\<lparr>ms_mem := ms_mem (init_header p fl s)\<rparr>)"
    by (rule heap_inv_write [OF assms(1,2)]) (use assms(3) blocks_key [OF assms(2)] in \<open>auto intro!: init_header_reads(3)\<close>)
  moreover have "s\<lparr>ms_mem := ms_mem (init_header p fl s)\<rparr> = init_header p fl s"
    by (simp add: init_header_def set_hdr_lock_def set_hdr_flags_def set_hdr_magic_def)
  ultimately show ?thesis by simp
qed

definition alloc_result :: "os \<Rightarrow> nat \<Rightarrow> nat \<Rightarrow> nat \<Rightarrow> nat \<Rightarrow> mstate \<Rightarrow> mstate \<Rightarrow> bool" where
  "alloc_result os fl n hm q s s' \<longleftrightarrow> heap_inv os s' \<and> moveable s' hm n q \<and> q \<noteq> 0 \<and> ms_mem s' (hm + 9) = 0
     \<and> blocks s (ms_process s, hm - 2) = None \<and> blocks s (ms_process s, q - 16) = None
     \<and> (\<exists>hb db. blocks s' = (blocks s)((ms_process s, hm - 2) \<mapsto> hb, (ms_process s, q - 16) \<mapsto> db))
     \<and> ms_process s' = ms_process s \<and> (\<forall>h. heap_there h s' = heap_there h s) \<and> blocks_kept s s'
     \<and> (has fl LMEM_ZEROINIT \<longrightarrow> (\<forall>a. q - 8 \<le> a \<and> a < q + n \<longrightarrow> ms_mem s' a = 0))"

lemma apart_sep: "apart b c \<Longrightarrow> mb_ptr b + mb_allocSize b + 8 \<le> mb_ptr c \<or> mb_ptr c + mb_allocSize c + 8 \<le> mb_ptr b"
  by (auto simp: apart_def)

text \<open>Storing the links between a header and its data makes a live handle.\<close>

lemma set_ptr_moveable:
  assumes os: "os_ok os" and inv: "heap_inv os s" and hd: "header_block s hm"
    and db: "blocks s (ms_process s, d) = Some db" "mb_len db = n + 16" and n: "0 < n" "n + 16 < 2 ^ 31" and pd: "d \<noteq> hm - 2"
    and owner: "load 8 d (ms_mem s) = hm" and s': "s' = set_hdr_ptr (hm - 2) (d + 16) s"
  shows "heap_inv os s'" "moveable s' hm n (d + 16)" "a < hm \<or> hm + 8 \<le> a \<Longrightarrow> ms_mem s' a = ms_mem s a"
proof -
  obtain hb where hb: "blocks s (ms_process s, hm - 2) = Some hb" "mb_len hb = 12" "12 \<le> mb_allocSize hb" "2 \<le> hm"
      "load 2 (hm - 2) (ms_mem s) = MAGIC_LOCAL_USED"
    using hd by (auto simp: header_block_def)
  note p = new_block_bounds [OF os inv hb(1)] and d = new_block_bounds [OF os inv db(1)]
  have sep: "hm - 2 + mb_allocSize hb + 8 \<le> d \<or> d + mb_allocSize db + 8 \<le> hm - 2"
    using apart_sep [OF heap_inv_apart [OF inv hb(1) db(1)]] pd p(5) d(5) by simp
  have len: "n + 16 \<le> mb_allocSize db" using d(2) db(2) by simp
  have mem: "ms_mem s' = store 8 hm (d + 16) (ms_mem s)" 
    unfolding s' hdr_mem le_add_diff_inverse2 [OF hb(4)] by (rule refl)
  have b64: "d + 16 < 256 ^ 8" "d + 16 < 2 ^ 64" using d(3) len n(1) by simp_all
  have keep: "load 2 (hm - 2) (ms_mem s') = MAGIC_LOCAL_USED" 
    unfolding mem using hb(4,5) by (subst load_store_other) auto
  have ptr: "load 8 hm (ms_mem s') = d + 16" unfolding mem by (rule load_store_same [OF b64(1)])
  have own: "load 8 d (ms_mem s') = hm"
    unfolding mem using sep hb(3,4) len d(4) owner by (subst load_store_other) auto
  show "heap_inv os s'"
  proof (rule heap_inv_hdr [OF inv hb(1), of hm 8 _ "d + 16"])
    show "s' = s\<lparr>ms_mem := store 8 hm (d + 16) (ms_mem s)\<rparr>" unfolding s' set_hdr_ptr_def le_add_diff_inverse2 [OF hb(4)] by (rule refl)
  qed (use p(5) hb(3,4) in simp_all)
  have "blocks s' = blocks s" "ms_process s' = ms_process s" by (simp_all add: s')
  then show "moveable s' hm n (d + 16)"
    using hd keep ptr own db b64 n d pd hb(4) by (auto simp: moveable_def header_block_def data_block_def)
  show "a < hm \<or> hm + 8 \<le> a \<Longrightarrow> ms_mem s' a = ms_mem s a" unfolding mem by (rule store_outside)
qed

lemma link_moveable:
  assumes os: "os_ok os" and inv: "heap_inv os s" and hb: "blocks s (ms_process s, p) = Some hb" "mb_len hb = 12"
    and db: "blocks s (ms_process s, d) = Some db" "mb_len db = n + 16" and n: "0 < n" "n + 16 < 2 ^ 31" and pd: "p \<noteq> d"
    and magic: "load 2 p (ms_mem s) = MAGIC_LOCAL_USED" and s': "s' = set_hdr_ptr p (d + 16) (set_word d (p + 2) s)"
  shows "heap_inv os s'" "moveable s' (p + 2) n (d + 16)"
    "(a < d \<or> d + 8 \<le> a) \<Longrightarrow> (a < p + 2 \<or> p + 10 \<le> a) \<Longrightarrow> ms_mem s' a = ms_mem s a"
proof -
  note p = new_block_bounds [OF os inv hb(1)] and d = new_block_bounds [OF os inv db(1)]
  have sep: "p + mb_allocSize hb + 8 \<le> d \<or> d + mb_allocSize db + 8 \<le> p"
    using apart_sep [OF heap_inv_apart [OF inv hb(1) db(1)]] pd p(5) d(5) by simp
  have len: "12 \<le> mb_allocSize hb" "n + 16 \<le> mb_allocSize db" using p(2) d(2) hb(2) db(2) by auto
  let ?s = "set_word d (p + 2) s"
  have b64: "p + 2 < 256 ^ 8" "p + 2 < 2 ^ 64" using p(3) len by simp_all
  have inv': "heap_inv os ?s"
    by (rule heap_inv_hdr [OF inv db(1), of d 8]) (use len d(5) in \<open>simp_all add: set_word_def\<close>)
  have "load 2 p (ms_mem ?s) = MAGIC_LOCAL_USED"
    using sep by (rule disjE) (use len p(4) d(4) magic in \<open>simp_all add: mem_simps\<close>)
  then have hd: "header_block ?s (p + 2)" using hb b64 len pointer_of_block(2) [OF p(1)] by (auto simp: header_block_def)
  have own: "load 8 d (ms_mem ?s) = p + 2" using load_store_same [OF b64(1)] by simp
  note set = set_ptr_moveable [OF os inv' hd _ db(2) n _ own, of s', unfolded hdr_frame, OF db(1)]
  have "d \<noteq> p + 2 - 2" "s' = set_hdr_ptr (p + 2 - 2) (d + 16) ?s" using pd s' by simp_all
  note set = set [OF this]
  show "heap_inv os s'" "moveable s' (p + 2) n (d + 16)" by (rule set(1), rule set(2))
  show "ms_mem s' a = ms_mem s a" if a: "a < d \<or> d + 8 \<le> a" "a < p + 2 \<or> p + 10 \<le> a"
  proof -
    have "a < p + 2 \<or> p + 2 + 8 \<le> a" using a(2) by auto
    from set(3) [OF this] show ?thesis using store_outside [OF a(1)] by simp
  qed
qed

lemma LocalAlloc_law:
  assumes os: "os_ok os" and inv: "heap_inv os s" and there: "heap_there (ms_process s) s"
    and fl: "has fl LMEM_MOVEABLE" and n: "0 < n" and run: "LocalAlloc os fl n s = (hm, s')" "hm \<noteq> 0"
  shows "\<exists>q. alloc_result os fl n hm q s s'"
proof -
  let ?P = "ms_process s"
  have g: "os_pageSize os \<le> 2 ^ 31" using os by (simp add: os_ok_def)
  have small: "n \<le> INT_MAX - HLOCAL_STORAGE" using run fl by (auto simp: LocalAlloc_def split: if_splits)
  obtain p s1 where a1: "HeapAlloc os ?P 0 sizeof_header s = (p, s1)" by fastforce
  have "p \<noteq> 0" using run fl small a1 by (cases "p = 0") (auto simp: LocalAlloc_def GetProcessHeap_def)
  moreover have "sizeof_header + 8 + os_pageSize os \<le> 2 ^ 64" using g by (simp add: sizeof_header_def)
  ultimately obtain hb where hb: "blocks s1 = (blocks s)((?P, p) \<mapsto> hb)" "blocks s (?P, p) = None" "heap_inv os s1" "mb_ptr hb = p"
      "mb_len hb = 12" "\<And>k c. blocks s k = Some c \<Longrightarrow> apart hb c" "same_outside (p - 8) (p + mb_allocSize hb) s s1"
    using HeapAlloc_law [OF os inv there _ a1] by (auto simp: sizeof_header_def)
  have hb1: "blocks s1 (?P, p) = Some hb" using hb(1) by simp
  note p = new_block_bounds [OF os hb(3) hb1]
  define s2 where "s2 = init_header p fl s1"
  have fr1: "ms_process s1 = ?P" "heap_there h s1 = heap_there h s" for h using same_outside_frame [OF hb(7)] by auto
  have inv2: "heap_inv os s2" unfolding s2_def by (rule heap_inv_init_header [OF hb(3) hb1]) (use p(2) hb(5) in simp)
  obtain d s3 where a2: "HeapAlloc os ?P (zero_flag fl) (n + HLOCAL_STORAGE) s2 = (d, s3)" by fastforce
  have rest: "LocalAlloc os fl n s = (if d = 0 then (0, snd (HeapFree (GetProcessHeap s3) p s3))
      else (get_handle p, set_hdr_ptr p (d + HLOCAL_STORAGE) (set_word d (get_handle p) s3)))"
    using fl small a1 \<open>p \<noteq> 0\<close> n a2 fr1(1)
    by (simp add: LocalAlloc_def GetProcessHeap_def Let_def s2_def init_header_def not_less split: prod.splits)
  then have dn: "d \<noteq> 0" and hm: "hm = p + 2" and s': "s' = set_hdr_ptr p (d + 16) (set_word d (p + 2) s3)"
    using run by (auto simp: get_handle_def HLOCAL_STORAGE_def split: if_splits)
  have n31: "n + 16 < 2 ^ 31" using small by (simp add: INT_MAX_def HLOCAL_STORAGE_def)
  have bnd: "n + HLOCAL_STORAGE + 8 + os_pageSize os \<le> 2 ^ 64" using g n31 by (simp add: HLOCAL_STORAGE_def)
  have there2: "heap_there ?P s2" using there fr1(2) by (simp add: s2_def)
  obtain db where db: "blocks s3 = (blocks s2)((?P, d) \<mapsto> db)" "blocks s2 (?P, d) = None" "heap_inv os s3" "mb_ptr db = d"
      "mb_len db = n + 16" "\<And>k c. blocks s2 k = Some c \<Longrightarrow> apart db c" "same_outside (d - 8) (d + mb_allocSize db) s2 s3"
      "has fl LMEM_ZEROINIT \<longrightarrow> (\<forall>a. d \<le> a \<and> a < d + (n + 16) \<longrightarrow> ms_mem s3 a = 0)"
    using HeapAlloc_law [OF os inv2 there2 bnd a2] dn by (auto simp: HLOCAL_STORAGE_def has_zero_flag)
  have db3: "blocks s3 (?P, d) = Some db" "blocks s3 (?P, p) = Some hb" and P3: "ms_process s3 = ?P"
    using db(1,2) hb1 same_outside_frame [OF db(7)] fr1 by (auto simp: s2_def)
  note d = new_block_bounds [OF os db(3) db3(1)]
  have sep: "d + mb_allocSize db + 8 \<le> p \<or> p + mb_allocSize hb + 8 \<le> d"
    using apart_sep [OF db(6) [of "(?P, p)" hb]] hb(4) db(4) hb1 by (simp add: s2_def)
  have len: "12 \<le> mb_allocSize hb" "n + 16 \<le> mb_allocSize db" using p(2) d(2) hb(5) db(5) by auto
  have keep3: "load k a (ms_mem s3) = load k a (ms_mem s2)" if "p - 8 \<le> a" "a + k \<le> p + mb_allocSize hb" for k a
    by (rule same_outside_load [OF db(7)]) (use that sep p(4) d(4) in auto)
  have magic: "load 2 p (ms_mem s3) = MAGIC_LOCAL_USED" using len by (simp add: keep3 init_header_reads(1) s2_def)
  have "p \<noteq> d" using sep len by auto
  note link = link_moveable [OF os db(3) _ hb(5) _ db(5) n n31 this magic s', unfolded P3, OF db3(2,1)]
  have lock: "ms_mem s' (hm + 9) = 0"
  proof -
    have "ms_mem s' (hm + 9) = ms_mem s3 (p + 11)" using sep len unfolding hm by (subst link(3)) (auto simp: add.commute)
    also have "\<dots> = ms_mem s2 (p + 11)" using keep3 [of "p + 11" 1] len by simp
    also have "\<dots> = 0" unfolding s2_def by (rule init_header_reads(2))
    finally show ?thesis .
  qed
  have fr: "blocks s' = blocks s3" "ms_process s' = ?P" "heap_there h s' = heap_there h s" for h
    using same_outside_frame [OF db(7)] fr1 by (simp_all add: s' s2_def)
  have "blocks_kept s s'"
    unfolding blocks_kept_def
  proof (intro allI impI)
    fix k b a assume k: "blocks s k = Some b" and a: "mb_ptr b - 8 \<le> a" "a < mb_ptr b + mb_allocSize b"
    have b8: "8 \<le> mb_ptr b" using block_okD(4) [OF blocks_SomeD(1) [OF inv, of "fst k" "snd k" b]] k by simp
    have "k \<noteq> (?P, p)" using k hb(2) by auto
    then have k2: "blocks s2 k = Some b" using k hb(1) by (simp add: s2_def)
    note ap1 = apart_range [OF hb(6) [OF k] b8 _ a] and ap2 = apart_range [OF db(6) [OF k2] b8 _ a]
    have "ms_mem s' a = ms_mem s3 a" using ap1 ap2 hb(4) db(4) p(4) d(4) len by (intro link(3)) auto
    also have "\<dots> = ms_mem s2 a" using ap2 db(4,7) d(4) by (auto simp: same_outside_def)
    also have "\<dots> = ms_mem s1 a" unfolding s2_def by (rule init_header_reads(3)) (use ap1 hb(4) p(4) len in auto)
    also have "\<dots> = ms_mem s a" using ap1 hb(4,7) p(4) by (auto simp: same_outside_def)
    finally show "ms_mem s' a = ms_mem s a" .
  qed
  moreover have "has fl LMEM_ZEROINIT \<longrightarrow> (\<forall>a. d + 16 - 8 \<le> a \<and> a < d + 16 + n \<longrightarrow> ms_mem s' a = 0)"
  proof (intro impI allI)
    fix a assume z: "has fl LMEM_ZEROINIT" and a: "d + 16 - 8 \<le> a \<and> a < d + 16 + n"
    have "ms_mem s' a = ms_mem s3 a" using a sep len p(4) d(4) by (intro link(3)) auto
    then show "ms_mem s' a = 0" using db(8) z a by auto
  qed
  moreover have "\<exists>hb db. blocks s' = (blocks s)((?P, hm - 2) \<mapsto> hb, (?P, d + 16 - 16) \<mapsto> db)"
    using fr(1) db(1) hb(1) by (auto simp: hm s2_def)
  moreover have "blocks s (?P, d + 16 - 16) = None" using db(2) hb(1) db3 by (auto simp: s2_def split: if_splits)
  ultimately have "alloc_result os fl n hm (d + 16) s s'"
    using lock fr hb(2) link(1,2) by (simp add: alloc_result_def hm)
  then show ?thesis by blast
qed

section \<open>Reallocation\<close>

lemma moveableE:
  assumes "moveable s hm n q" "q \<noteq> 0"
  obtains hb db where "header_block s hm" "data_block s hm n q" "blocks s (ms_process s, hm - 2) = Some hb" "mb_len hb = 12"
    "12 \<le> mb_allocSize hb" "blocks s (ms_process s, q - 16) = Some db" "mb_len db = n + 16" "q - 16 \<noteq> hm - 2" "16 < q" "q < 2 ^ 64" "2 \<le> hm"
    "load 8 (q - 16) (ms_mem s) = hm" "n + 16 < 2 ^ 31" "load 2 (hm - 2) (ms_mem s) = MAGIC_LOCAL_USED"
proof -
  have h: "header_block s hm" and d: "data_block s hm n q" using assms by (simp_all add: moveable_def)
  from h d have "q - 16 \<noteq> hm - 2" by (auto simp: header_block_def data_block_def)
  with h d that show ?thesis unfolding header_block_def data_block_def by blast
qed

text \<open>
  What a successful reallocation of a moveable block leaves: the handle is still live, with the
  new size; the common bytes are kept, with the flag the bytes behind the old size are zero, and
  no other block changes.
\<close>

definition realloc_kept :: "os \<Rightarrow> nat \<Rightarrow> nat \<Rightarrow> nat \<Rightarrow> nat \<Rightarrow> nat \<Rightarrow> nat \<Rightarrow> mstate \<Rightarrow> mstate \<Rightarrow> bool" where
  "realloc_kept os fl hm n q m q' s s' \<longleftrightarrow> heap_inv os s' \<and> moveable s' hm m q' \<and> q' \<noteq> 0 \<and> ms_mem s' (hm + 9) = ms_mem s (hm + 9)
     \<and> ms_process s' = ms_process s
     \<and> (\<forall>i < min n m. ms_mem s' (q' + i) = ms_mem s (q + i))
     \<and> (has fl LMEM_ZEROINIT \<longrightarrow> (\<forall>i. n \<le> i \<and> i < m \<longrightarrow> ms_mem s' (q' + i) = 0))
     \<and> (\<forall>k b. blocks s k = Some b \<longrightarrow> k \<noteq> (ms_process s, hm - 2) \<longrightarrow> k \<noteq> (ms_process s, q - 16) \<longrightarrow>
          blocks s' k = Some b \<and> (\<forall>a. mb_ptr b - 8 \<le> a \<and> a < mb_ptr b + mb_allocSize b \<longrightarrow> ms_mem s' a = ms_mem s a))"

lemma moveable_realloc:
  assumes os: "os_ok os" and inv: "heap_inv os s" and mv: "moveable s hm n q" "q \<noteq> 0"
    and m: "0 < m" "m + 16 < 2 ^ 31" and run: "HeapReAlloc os (ms_process s) fl' (q - 16) (m + 16) s = (p, s1)" "p \<noteq> 0"
    and fl: "has fl' HEAP_ZERO_MEMORY \<longleftrightarrow> has fl LMEM_ZEROINIT" and s': "s' = set_hdr_ptr (hm - 2) (p + 16) s1"
  shows "realloc_kept os fl hm n q m (p + 16) s s'"
proof -
  let ?P = "ms_process s"
  obtain hb db where d: "header_block s hm" "blocks s (?P, hm - 2) = Some hb" "mb_len hb = 12"
    "12 \<le> mb_allocSize hb" "blocks s (?P, q - 16) = Some db" "mb_len db = n + 16" "q - 16 \<noteq> hm - 2" "16 < q" "2 \<le> hm"
    "load 8 (q - 16) (ms_mem s) = hm" "load 2 (hm - 2) (ms_mem s) = MAGIC_LOCAL_USED"
    using moveableE [OF mv] by metis
  have bnd: "m + 16 + 8 + os_pageSize os \<le> 2 ^ 64" using m(2) os by (simp add: os_ok_def)
  obtain b where rr: "realloc_result os ?P fl' (q - 16) (m + 16) db p b s s1"
    using HeapReAlloc_law [OF os bnd inv run] d(5) by auto
  then have b: "mb_ptr b = p" "mb_len b = m + 16" "heap_inv os s1" "p = q - 16 \<or> blocks s (?P, p) = None" "8 < p"
      "blocks s1 = (blocks s)((?P, q - 16) := None, (?P, p) \<mapsto> b)" "\<And>k c. blocks s k = Some c \<Longrightarrow> k \<noteq> (?P, q - 16) \<Longrightarrow> apart b c"
      "same_outside (p - 8) (p + mb_allocSize b) s s1"
      "\<And>i. i < min (n + 16) (m + 16) \<Longrightarrow> ms_mem s1 (p + i) = ms_mem s (q - 16 + i)"
      "has fl' HEAP_ZERO_MEMORY \<Longrightarrow> \<forall>i. n + 16 \<le> i \<and> i < m + 16 \<longrightarrow> ms_mem s1 (p + i) = 0"
    by (auto simp: realloc_result_def d(6))
  have P1: "ms_process s1 = ?P" using same_outside_frame [OF b(8)] by simp
  have hb1: "blocks s1 (?P, hm - 2) = Some hb" and ph: "p \<noteq> hm - 2" using b(4,6) d(2,7) by auto
  have kept: "ms_mem s1 a = ms_mem s a" if "blocks s k = Some c" "k \<noteq> (?P, q - 16)" "mb_ptr c - 8 \<le> a" "a < mb_ptr c + mb_allocSize c" for k c a
    using apart_range [OF b(7) [OF that(1,2)] _ _ that(3,4)] b(1,5,8) block_okD(4) [OF blocks_SomeD(1) [OF inv, of "fst k" "snd k" c]] that(1)
    by (auto simp: same_outside_def)
  have hkey: "mb_ptr hb = hm - 2" using d(2) by (rule blocks_key)
  have hdr: "ms_mem s1 a = ms_mem s a" if "hm - 2 \<le> a" "a < hm + 10" for a
    by (rule kept [OF d(2)]) (use that d(4,7,9) hkey in auto)
  have "load 2 (hm - 2) (ms_mem s1) = MAGIC_LOCAL_USED"
    using load_cong [of "hm - 2" 2 "ms_mem s1" "ms_mem s"] hdr d(9,11) by auto
  then have hd1: "header_block s1 hm" using d(1,3,4) hb1 P1 by (auto simp: header_block_def)
  have "load 8 p (ms_mem s1) = load 8 (q - 16) (ms_mem s)" by (rule load_shift) (use b(9) in simp)
  then have own: "load 8 p (ms_mem s1) = hm" using d(10) by simp
  have pb: "blocks s1 (ms_process s1, p) = Some b" using b(6) P1 by simp
  note set = set_ptr_moveable [OF os b(3) hd1 pb b(2) m ph own s']
  note d1 = new_block_bounds [OF os b(3) pb]
  have sep: "hm - 2 + mb_allocSize hb + 8 \<le> p \<or> p + mb_allocSize b + 8 \<le> hm - 2"
    using apart_sep [OF b(7) [OF d(2)]] d(7) b(1) hkey by auto
  have data: "ms_mem s' (p + 16 + i) = ms_mem s1 (p + 16 + i)" if "i < m" for i
    by (rule set(3)) (use sep that d1(2) b(2) d(4,9) in auto)
  have "ms_mem s' (hm + 9) = ms_mem s1 (hm + 9)" by (rule set(3)) simp
  also have "\<dots> = ms_mem s (hm + 9)" by (rule hdr) simp_all
  finally have lock: "ms_mem s' (hm + 9) = ms_mem s (hm + 9)" .
  have "ms_mem s' (p + 16 + i) = ms_mem s (q + i)" if "i < min n m" for i
    using data [of i] b(9) [of "16 + i"] that d(8) by (simp add: add.assoc)
  moreover have "ms_mem s' (p + 16 + i) = 0" if "has fl LMEM_ZEROINIT" "n \<le> i" "i < m" for i
    using data [of i] b(10) fl that by (simp add: add.assoc)
  moreover have "blocks s' k = Some c \<and> (\<forall>a. mb_ptr c - 8 \<le> a \<and> a < mb_ptr c + mb_allocSize c \<longrightarrow> ms_mem s' a = ms_mem s a)"
    if k: "blocks s k = Some c" "k \<noteq> (?P, hm - 2)" "k \<noteq> (?P, q - 16)" for k c
  proof (intro conjI allI impI)
    show "blocks s' k = Some c" using k b(4,6) by (auto simp: s')
    fix a assume a: "mb_ptr c - 8 \<le> a \<and> a < mb_ptr c + mb_allocSize c"
    have "apart hb c" using heap_inv_apart [OF inv d(2) k(1)] k(2) by auto
    then have "a < hm \<or> hm + 8 \<le> a"
      using apart_sep [of hb c] a d(4,9) hkey block_okD(4) [OF blocks_SomeD(1) [OF inv, of "fst k" "snd k" c]] k(1) by auto
    then have "ms_mem s' a = ms_mem s1 a" by (rule set(3))
    then show "ms_mem s' a = ms_mem s a" using kept [OF k(1,3)] a by simp
  qed
  ultimately show ?thesis using set(1,2) lock P1 d1(4) by (simp add: realloc_kept_def s')
qed

lemma LocalReAlloc_law:
  assumes os: "os_ok os" and inv: "heap_inv os s" and mv: "moveable s hm n q" "q \<noteq> 0"
    and fl: "\<not> has fl LMEM_MODIFY" and m: "0 < m" and run: "LocalReAlloc os hm m fl s = (r, s')" "r \<noteq> 0"
  shows "r = hm \<and> (\<exists>q'. realloc_kept os fl hm n q m q' s s')"
proof -
  note h = moveable_header [OF mv(1)]
  have q: "size_sub q 16 = q - 16" using moveableE [OF mv] size_sub_small [of 16 q] by (metis less_imp_le)
  have small: "m \<le> INT_MAX - HLOCAL_STORAGE"
    using run fl h mv(2) m by (auto simp: LocalReAlloc_def realloc_moveable_def Let_def split: if_splits)
  then have m31: "m + 16 < 2 ^ 31" by (simp add: INT_MAX_def HLOCAL_STORAGE_def)
  obtain p s1 where ra: "HeapReAlloc os (ms_process s) (zero_flag fl) (q - 16) (m + 16) s = (p, s1)" by fastforce
  have e: "LocalReAlloc os hm m fl s = (if p \<noteq> 0 then (hm, set_hdr_ptr (hm - 2) (p + 16) s1) else (0, s1))"
    using fl h mv(2) m small q ra
    by (simp add: LocalReAlloc_def realloc_moveable_def Let_def GetProcessHeap_def HLOCAL_STORAGE_def)
  then have p: "p \<noteq> 0" "r = hm" "s' = set_hdr_ptr (hm - 2) (p + 16) s1" using run by (auto split: if_splits)
  show ?thesis using moveable_realloc [OF os inv mv m m31 ra p(1) has_zero_flag p(3)] p(2) by blast
qed

section \<open>Freeing\<close>

lemma LocalFree_law:
  assumes inv: "heap_inv os s" and mv: "moveable s hm n q" and run: "LocalFree hm s = (r, s')"
  shows "r = 0" "blocks s' = (blocks s)((ms_process s, q - 16) := if q = 0 then blocks s (ms_process s, q - 16) else None, (ms_process s, hm - 2) := None)"
    "ms_process s' = ms_process s"
proof -
  let ?P = "ms_process s"
  note h = moveable_header [OF mv]
  obtain hb where hb: "blocks s (?P, hm - 2) = Some hb" "12 \<le> mb_allocSize hb"
    using mv by (auto simp: moveable_def header_block_def)
  define s1 where "s1 = set_hdr_magic (hm - 2) 0xdead s"
  have inv1: "heap_inv os s1"
    by (rule heap_inv_hdr [OF inv hb(1), of "hm - 2" 2 s1 "0xdead"])
      (use hb(2) blocks_key [OF hb(1)] in \<open>simp_all add: s1_def set_hdr_magic_def\<close>)
  have s1: "blocks s1 = blocks s" "ms_process s1 = ?P" by (simp_all add: s1_def)
  have "load 8 hm (ms_mem s1) = q"
    using mv h(5) unfolding s1_def hdr_mem by (subst load_store_other) (auto simp: moveable_def)
  then have ptr: "hdr_ptr (hm - 2) s1 = q" using h(5) by (simp add: hdr_ptr_handle)
  obtain ok2 s2 where f2: "(if q \<noteq> 0 then HeapFree ?P (size_sub q 16) s1 else (True, s1)) = (ok2, s2)" by fastforce
  obtain ok3 s3 where f3: "HeapFree ?P (hm - 2) s2 = (ok3, s3)" by fastforce
  have e: "LocalFree hm s = (if ok2 \<and> ok3 then 0 else hm, s3)"
    by (cases "q = 0") (use h f2 f3 ptr in \<open>auto simp: LocalFree_def Let_def GetProcessHeap_def HLOCAL_STORAGE_def s1_def [symmetric]\<close>)
  have two: "ok2 \<and> heap_inv os s2 \<and> blocks s2 = (blocks s)((?P, q - 16) := if q = 0 then blocks s (?P, q - 16) else None)
    \<and> ms_process s2 = ?P \<and> blocks s2 (?P, hm - 2) = Some hb"
  proof (cases "q = 0")
    case True
    then show ?thesis using f2 inv1 s1 hb(1) by (auto simp: fun_upd_idem)
  next
    case False
    obtain db where db: "blocks s (?P, q - 16) = Some db" "q - 16 \<noteq> hm - 2" "16 < q" "q < 2 ^ 64"
      using moveableE [OF mv False] by metis
    have "HeapFree ?P (q - 16) s1 = (ok2, s2)" using f2 False db(3,4) by simp
    from HeapFree_law [OF inv1 this] show ?thesis using False s1 db hb(1) by (auto dest: same_outside_frame)
  qed
  from two have t2: "heap_inv os s2" "blocks s2 (?P, hm - 2) = Some hb" by blast+
  note fr = HeapFree_law [OF t2(1) f3]
  have "ok3" using fr(1) t2(2) by blast
  then show "r = 0" using run e two by simp
  have "s' = s3" using run e by simp
  then show "ms_process s' = ?P" using same_outside_frame [OF fr(4)] two by simp
  show "blocks s' = (blocks s)((?P, q - 16) := if q = 0 then blocks s (?P, q - 16) else None, (?P, hm - 2) := None)"
    using fr(2) two \<open>s' = s3\<close> by simp
qed

section \<open>Locks\<close>

lemma moveable_set_lock:
  assumes "moveable s hm n q" "heap_inv os s" "os_ok os" "q \<noteq> 0"
  shows "moveable (set_hdr_lock (hm - 2) v s) hm n q" "hdr_lock (hm - 2) (set_hdr_lock (hm - 2) v s) = v mod 256"
proof -
  obtain hb db where d: "blocks s (ms_process s, hm - 2) = Some hb" "12 \<le> mb_allocSize hb" "blocks s (ms_process s, q - 16) = Some db"
    "mb_len db = n + 16" "q - 16 \<noteq> hm - 2" "16 < q" "2 \<le> hm" "load 8 (q - 16) (ms_mem s) = hm"
    using moveableE [OF assms(1,4)] by metis
  note hb = new_block_bounds [OF assms(3,2) d(1)] and db = new_block_bounds [OF assms(3,2) d(3)]
  have sep: "hm - 2 + mb_allocSize hb + 8 \<le> q - 16 \<or> q - 16 + mb_allocSize db + 8 \<le> hm - 2"
    using apart_sep [OF heap_inv_apart [OF assms(2) d(1,3)]] d(5) hb(5) db(5) by simp
  have e: "hm - 2 + 11 = hm + 9" using d(7) by simp
  have mem: "ms_mem (set_hdr_lock (hm - 2) v s) = store 1 (hm + 9) v (ms_mem s)" unfolding hdr_mem e by (rule refl)
  have "load 2 (hm - 2) (ms_mem (set_hdr_lock (hm - 2) v s)) = load 2 (hm - 2) (ms_mem s)"
    "load 8 hm (ms_mem (set_hdr_lock (hm - 2) v s)) = load 8 hm (ms_mem s)"
    "load 8 (q - 16) (ms_mem (set_hdr_lock (hm - 2) v s)) = load 8 (q - 16) (ms_mem s)"
    unfolding mem by (subst load_store_other; use sep d(2,4,7) db(2) in auto)+
  then show "moveable (set_hdr_lock (hm - 2) v s) hm n q"
    using assms(1,4) by (simp add: moveable_def header_block_def data_block_def)
  show "hdr_lock (hm - 2) (set_hdr_lock (hm - 2) v s) = v mod 256"
    unfolding hdr_lock_def mem e load_1 by (simp add: store.simps)
qed

text \<open>A state that differs only in the lock count of a header keeps the invariant.\<close>

lemma heap_inv_set_lock:
  assumes "heap_inv os s" "moveable s hm n q"
  shows "heap_inv os (set_hdr_lock (hm - 2) v s)"
proof -
  obtain hb where hb: "blocks s (ms_process s, hm - 2) = Some hb" "12 \<le> mb_allocSize hb"
    using assms(2) by (auto simp: moveable_def header_block_def)
  show ?thesis
    by (rule heap_inv_hdr [OF assms(1) hb(1), of "hm - 2 + 11" 1 _ v])
      (use hb(2) blocks_key [OF hb(1)] in \<open>simp_all add: set_hdr_lock_def\<close>)
qed

section \<open>From the data to the handle\<close>

text \<open>Probing an address inside a live block, or the handle in front of it, succeeds.\<close>

definition probe_ok :: "os \<Rightarrow> bool" where
  "probe_ok os \<longleftrightarrow> (\<forall>s k b a n. blocks s k = Some b \<longrightarrow> mb_ptr b - 8 \<le> a \<longrightarrow> a + n \<le> mb_ptr b + mb_allocSize b \<longrightarrow>
     \<not> os_IsBadReadPtr os s a n \<and> \<not> os_IsBadWritePtr os s a n)"

lemma LocalHandle_law:
  assumes os: "os_ok os" "probe_ok os" and inv: "heap_inv os s" and mv: "moveable s hm n q" "q \<noteq> 0"
    and other: "load 8 (q - 8) (ms_mem s) \<noteq> ms_process s"
  shows "LocalHandle os q s = (hm, s)"
proof -
  obtain hb db where d: "blocks s (ms_process s, q - 16) = Some db" "mb_len db = n + 16" "16 < q" "q < 2 ^ 64"
    "load 8 (q - 16) (ms_mem s) = hm"
    using moveableE [OF mv] by metis
  note db = new_block_bounds [OF os(1) inv d(1)]
  have "mb_ptr db - 8 \<le> q - 16" "q - 16 + 16 \<le> mb_ptr db + mb_allocSize db" using d(2,3) db by simp_all
  then have "\<not> os_IsBadReadPtr os s (q - 16) 16" using os(2) d(1) unfolding probe_ok_def by blast
  moreover have "\<not> HeapValidate os (ms_process s) q s" using other d(3,4) by (simp add: HeapValidate_def Let_def)
  moreover have "size_sub q 16 = q - 16" using d(3,4) by simp
  ultimately show ?thesis using mv(2) moveable_header [OF mv(1)] d(5)
    by (simp add: LocalHandle_def Let_def GetProcessHeap_def HLOCAL_STORAGE_def)
qed

lemma LocalUnlock_moveable:
  assumes "moveable s hm n q"
  shows "LocalUnlock hm s = (if hdr_lock (hm - 2) s \<noteq> 0
    then (let s1 = set_hdr_lock (hm - 2) (hdr_lock (hm - 2) s - 1) s; r = (hdr_lock (hm - 2) s1 \<noteq> 0)
          in (r, if \<not> r then SetLastError 0 s1 else s1))
    else (False, SetLastError ERROR_NOT_LOCKED s))"
  using moveable_header [OF assms] by (simp add: LocalUnlock_def Let_def)

end
