(* ===== verification/Memory_Props.thy ===== *)
theory Memory_Props
  imports Memory_Local
begin

text \<open>The properties of the heaps and of local memory, and a concrete system they are applied to.\<close>

section \<open>Runs of the heap calls\<close>

lemma flush_index_block_index:
  "distinct (map mb_ptr bs) \<Longrightarrow> flush_index p bs = Some i \<Longrightarrow> block_index p bs = Some i"
proof (induction bs arbitrary: i)
  case (Cons b bs)
  show ?case
  proof (cases "mb_ptr b = p")
    case True
    then have "p \<notin> mb_ptr ` set bs" using Cons.prems(1) by simp
    then have "flush_index p bs = None" by (induction bs) auto
    then show ?thesis using True Cons.prems(2) by (auto split: if_splits)
  next
    case False
    then show ?thesis using Cons by auto
  qed
qed simp

lemma FlushInstructionCache_law:
  assumes inv: "heap_inv os s" and run: "FlushInstructionCache os p n s = Some (r, s')"
  shows "heap_inv os s'"
proof (cases "s' = s")
  case False
  define h where "h = load 8 (size_sub p 8) (ms_mem s)"
  obtain info i where h: "heap_of h s = Some info" and i: "flush_index p (hi_lstMem info) = Some i"
    and s': "\<exists>f. s' = set_blocks h ((hi_lstMem info)[i := (hi_lstMem info ! i)\<lparr>mb_flushLen := f\<rparr>]) s"
    using run False unfolding FlushInstructionCache_def Let_def h_def [symmetric] by (auto split: if_splits option.splits)
  have bi: "block_index p (hi_lstMem info) = Some i" using flush_index_block_index [OF _ i] heap_inv_distinct [OF inv h] by blast
  have it: "blocks s (h, p) = Some (hi_lstMem info ! i)" using block_index_SomeD [OF bi] h by (simp add: lookup_blocks)
  obtain f where f: "s' = set_blocks h ((hi_lstMem info)[i := (hi_lstMem info ! i)\<lparr>mb_flushLen := f\<rparr>]) (s\<lparr>ms_mem := ms_mem s\<rparr>)"
    using s' by auto
  show ?thesis unfolding f
  proof (rule heap_inv_replace [OF inv h bi])
    show "block_ok os h ((hi_lstMem info ! i)\<lparr>mb_flushLen := f\<rparr>) (ms_mem s)"
      using blocks_SomeD(1) [OF inv it] by (simp add: block_ok_def)
    show "apart ((hi_lstMem info ! i)\<lparr>mb_flushLen := f\<rparr>) c" if "blocks s k = Some c" "k \<noteq> (h, p)" for k c
      using heap_inv_apart [OF inv it that(1)] that(2) by (auto simp: apart_def)
  qed (use blocks_key [OF it] in simp_all)
qed (use inv in simp)

text \<open>
  One call of a program that uses heaps: any of the calls, with sizes up to \<open>lim\<close> and any other arguments, or a store into the bytes
  it asked for.
\<close>

inductive heap_step :: "nat \<Rightarrow> os \<Rightarrow> mstate \<Rightarrow> mstate \<Rightarrow> bool" for lim os where
  alloc: "n \<le> lim \<Longrightarrow> HeapAlloc os h fl n s = (p, s') \<Longrightarrow> heap_step lim os s s'"
| free: "HeapFree h p s = (ok, s') \<Longrightarrow> heap_step lim os s s'"
| realloc: "n \<le> lim \<Longrightarrow> HeapReAlloc os h fl p n s = (q, s') \<Longrightarrow> heap_step lim os s s'"
| flush: "FlushInstructionCache os p n s = Some (r, s') \<Longrightarrow> heap_step lim os s s'"
| poke: "blocks s (h, p) = Some b \<Longrightarrow> p \<le> a \<Longrightarrow> a < p + mb_len b \<Longrightarrow> heap_step lim os s (s\<lparr>ms_mem := (ms_mem s)(a := v)\<rparr>)"

lemma HeapReAlloc_null: "HeapReAlloc os h fl p n s = (0, s') \<Longrightarrow> os_ok os \<Longrightarrow> heap_inv os s \<Longrightarrow> s' = s"
proof -
  assume run: "HeapReAlloc os h fl p n s = (0, s')" and os: "os_ok os" and inv: "heap_inv os s"
  show "s' = s"
  proof (cases "\<exists>info i. heap_of h s = Some info \<and> block_index p (hi_lstMem info) = Some i")
    case True
    then obtain info i where h: "heap_of h s = Some info" and i: "block_index p (hi_lstMem info) = Some i" by blast
    have it: "blocks s (h, p) = Some (hi_lstMem info ! i)" using block_index_SomeD [OF i] h by (simp add: lookup_blocks)
    have "mb_ptr (hi_lstMem info ! i) \<noteq> 0" using new_block_bounds(4,5) [OF os inv it] by simp
    then show ?thesis using run h i
      by (auto simp: HeapReAlloc_def Let_def realloc_in_place_def realloc_move_def split: if_splits option.splits)
  qed (use run in \<open>auto simp: HeapReAlloc_def split: option.splits\<close>)
qed

lemma heap_step_inv: "heap_step lim os s s' \<Longrightarrow> lim + 8 + os_pageSize os \<le> 2 ^ 64 \<Longrightarrow> os_ok os \<Longrightarrow> heap_inv os s \<Longrightarrow> heap_inv os s'"
proof (induction rule: heap_step.induct)
  case (alloc n h fl s p s')
  show ?case
  proof (cases "heap_there h s")
    case True
    show ?thesis using HeapAlloc_law [OF alloc(4,5) True _ alloc(2)] alloc(1,3,5) by fastforce
  next
    case False
    then show ?thesis using alloc(2,5) by (simp add: heap_there_def HeapAlloc_def)
  qed
next
  case (free h p s ok s')
  then show ?case using HeapFree_law(3) by blast
next
  case (realloc n h fl p s q s')
  show ?case
  proof (cases "q = 0")
    case True
    then show ?thesis using realloc HeapReAlloc_null by blast
  next
    case False
    show ?thesis using HeapReAlloc_law [OF realloc(4) _ realloc(5,2) False] realloc(1,3) by (fastforce simp: realloc_result_def)
  qed
next
  case (flush p n s r s')
  then show ?case using FlushInstructionCache_law by blast
next
  case (poke s h p b a v)
  show ?case
    by (rule heap_inv_write [OF poke(6,1)])
      (use poke(2,3) new_block_bounds(2,5) [OF poke(5,6,1)] in auto)
qed

definition fresh_heaps :: "mstate \<Rightarrow> bool" where
  "fresh_heaps s \<longleftrightarrow> (\<forall>h info. heap_of h s = Some info \<longrightarrow> h < 2 ^ 64 \<and> hi_lstMem info = [])"

lemma fresh_heaps_inv: "fresh_heaps s \<Longrightarrow> heap_inv os s"
proof -
  assume f: "fresh_heaps s"
  then have "blocks s = Map.empty" by (intro HOL.ext) (auto simp: fresh_heaps_def blocks_def split: option.splits)
  then show ?thesis using f by (auto simp: heap_inv_def fresh_heaps_def)
qed

interpretation heaps: kept "heap_step lim os" "\<lambda>s. lim + 8 + os_pageSize os \<le> 2 ^ 64 \<and> os_ok os \<and> heap_inv os s" for lim os
  by unfold_locales (auto intro: heap_step_inv)

lemma heap_run_inv: "(heap_step lim os)\<^sup>*\<^sup>* s0 s \<Longrightarrow> lim + 8 + os_pageSize os \<le> 2 ^ 64 \<Longrightarrow> os_ok os \<Longrightarrow> heap_inv os s0 \<Longrightarrow> heap_inv os s"
  using heaps.run_keeps by blast

section \<open>A concrete system\<close>

text \<open>Pages of 4096 bytes, given out behind every live block.\<close>

fun top_of :: "MemBlock list \<Rightarrow> nat" where
  "top_of [] = 0"
| "top_of (b # bs) = max (mb_ptr b + mb_allocSize b) (top_of bs)"

definition bump :: "mstate \<Rightarrow> nat \<Rightarrow> nat option" where
  "bump s n = (let base = (top_of (concat (map (hi_lstMem \<circ> snd) (ms_heaps s))) div 4096 + 1) * 4096
               in if base + n \<le> 2 ^ 64 then Some base else None)"

definition bump_os :: os where
  "bump_os = \<lparr>os_pageSize = 4096, os_memalign = bump, os_mprotect = \<lambda>_ _. 0, os_IsBadReadPtr = \<lambda>_ _ _. False, os_IsBadWritePtr = \<lambda>_ _ _. False\<rparr>"

lemma top_of_ge: "b \<in> set bs \<Longrightarrow> mb_ptr b + mb_allocSize b \<le> top_of bs"
  by (induction bs) auto

lemma blocks_in_heaps: "blocks s k = Some b \<Longrightarrow> b \<in> set (concat (map (hi_lstMem \<circ> snd) (ms_heaps s)))"
  by (cases k) (force simp: blocks_def heap_of_def dest!: lookup_SomeD map_of_SomeD split: option.splits if_splits)

lemma round_above: "(t :: nat) \<le> (t div 4096 + 1) * 4096" "0 < (t div 4096 + 1) * 4096"
proof -
  have "t < 4096 + t div 4096 * 4096" by (rule dividend_less_div_times) simp
  then show "t \<le> (t div 4096 + 1) * 4096" by (simp only: add_mult_distrib mult_1 less_imp_le add.commute)
qed simp

lemma bump_os_ok: "os_ok bump_os" "probe_ok bump_os"
proof -
  have "0 < a \<and> 4096 dvd a \<and> a + n \<le> 2 ^ 64
      \<and> (\<forall>k b. blocks s k = Some b \<longrightarrow> a + n + 8 \<le> mb_ptr b \<or> mb_ptr b + mb_allocSize b \<le> a)" if "bump s n = Some a" for s n a
  proof -
    let ?t = "top_of (concat (map (hi_lstMem \<circ> snd) (ms_heaps s)))"
    have a: "a = (?t div 4096 + 1) * 4096" "a + n \<le> 2 ^ 64" using that by (auto simp: bump_def Let_def split: if_splits)
    have "?t \<le> a" "0 < a" "4096 dvd a" unfolding a(1) using round_above by simp_all
    then show ?thesis using a(2) top_of_ge [OF blocks_in_heaps] by (meson dual_order.trans)
  qed
  then show "os_ok bump_os" by (simp add: os_ok_def bump_os_def)
  show "probe_ok bump_os" by (simp add: probe_ok_def bump_os_def)
qed

definition start :: mstate where
  "start = \<lparr>ms_heaps = [(65536, \<lparr>hi_option = 0, hi_dwInitialSize = 0, hi_dwMaximumSize = 0, hi_lstMem = []\<rparr>)],
     ms_process = 65536, ms_mem = (\<lambda>_. 170), ms_error = 0\<rparr>"

lemma start_fresh: "fresh_heaps start" "heap_there (ms_process start) start" "heap_inv bump_os start"
  by (auto simp: fresh_heaps_def start_def heap_of_def heap_there_def intro!: fresh_heaps_inv split: if_splits)

section \<open>Heaps\<close>

text \<open>C3: whatever sequence of heap calls and in-bounds stores a program makes from empty heaps, as long as no size it asks for comes within a page
  and eight bytes of the largest \<^verbatim>\<open>size_t\<close> (beyond, the rounding of \<open>HeapAlloc\<close> wraps and the claim is false), two
  live blocks never overlap, not even with the word in front of them, each block has the length
  \<open>HeapSize\<close> reports inside its pages, and the word in front of it names its heap.\<close>

theorem heap_run_safe:
  assumes "os_ok os" "fresh_heaps s0" "lim + 8 + os_pageSize os \<le> 2 ^ 64" "(heap_step lim os)\<^sup>*\<^sup>* s0 s"
    and "blocks s (h, p) = Some b" "blocks s (k, q) = Some c" "(h, p) \<noteq> (k, q)"
  shows "(p + HeapSize h p s \<le> q - 8 \<or> q + HeapSize k q s \<le> p - 8) \<and> HeapSize h p s \<le> mb_allocSize b
    \<and> load 8 (p - 8) (ms_mem s) = h \<and> 8 < p"
proof -
  have inv: "heap_inv os s" using heap_run_inv [OF assms(4,3,1) fresh_heaps_inv [OF assms(2)]] .
  note b = new_block_bounds [OF assms(1) inv assms(5)] and c = new_block_bounds [OF assms(1) inv assms(6)]
  have "p + mb_allocSize b + 8 \<le> q \<or> q + mb_allocSize c + 8 \<le> p"
    using apart_sep [OF heap_inv_apart [OF inv assms(5,6,7)]] b(5) c(5) by simp
  moreover have "load 8 (p - 8) (ms_mem s) = h" using block_okD(5) [OF blocks_SomeD(1) [OF inv assms(5)]] b(5) by simp
  ultimately show ?thesis using b(2,4) c(2) assms(5,6) by (auto simp: HeapSize_law)
qed

lemmas run_defs = HeapAlloc_def bump_os_def bump_def start_def page_round_def size_t_def heap_of_def Let_def set_blocks_def

lemma first_alloc: "HeapAlloc bump_os 65536 fl 10 start = (4104, snd (HeapAlloc bump_os 65536 fl 10 start))"
  by (rule prod_eqI) (simp_all add: run_defs)

lemma second_alloc:
  "HeapAlloc bump_os 65536 fl 20 (snd (HeapAlloc bump_os 65536 fl 10 start))
   = (12296, snd (HeapAlloc bump_os 65536 fl 20 (snd (HeapAlloc bump_os 65536 fl 10 start))))"
  by (rule prod_eqI) (simp_all add: run_defs)

lemma then_realloc:
  "HeapReAlloc bump_os 65536 fl 4104 5000 (snd (HeapAlloc bump_os 65536 fl 10 start))
   = (12296, snd (HeapReAlloc bump_os 65536 fl 4104 5000 (snd (HeapAlloc bump_os 65536 fl 10 start))))"
  by (rule prod_eqI) (simp_all add: run_defs HeapReAlloc_def realloc_move_def)

theorem heap_run_safe_witness:
  "\<exists>s. (heap_step 5000 bump_os)\<^sup>*\<^sup>* start s \<and> 4104 + HeapSize 65536 4104 s \<le> 12296 - 8"
proof -
  define s1 where "s1 = snd (HeapAlloc bump_os 65536 0 10 start)"
  define s2 where "s2 = snd (HeapAlloc bump_os 65536 0 20 s1)"
  have a1: "HeapAlloc bump_os 65536 0 10 start = (4104, s1)" unfolding s1_def by (rule first_alloc)
  have a2: "HeapAlloc bump_os 65536 0 20 s1 = (12296, s2)" unfolding s1_def s2_def by (rule second_alloc)
  have st: "heap_step 5000 bump_os start s1" "heap_step 5000 bump_os s1 s2"
    by (rule heap_step.alloc [OF _ a1], simp) (rule heap_step.alloc [OF _ a2], simp)
  then have run: "(heap_step 5000 bump_os)\<^sup>*\<^sup>* start s2" by auto
  have there: "heap_there 65536 start" using start_fresh(2) by (simp add: start_def)
  obtain b where b: "blocks s1 = (blocks start)((65536, 4104) \<mapsto> b)" "heap_inv bump_os s1" "same_outside (4104 - 8) (4104 + mb_allocSize b) start s1"
    using HeapAlloc_law [OF bump_os_ok(1) start_fresh(3) there _ a1] by (auto simp: bump_os_def)
  have "heap_there 65536 s1" using same_outside_frame [OF b(3)] there by simp
  then obtain c where c: "blocks s2 = (blocks s1)((65536, 12296) \<mapsto> c)"
    using HeapAlloc_law [OF bump_os_ok(1) b(2) _ _ a2] by (auto simp: bump_os_def)
  have "blocks s2 (65536, 4104) = Some b" "blocks s2 (65536, 12296) = Some c" using b(1) c by simp_all
  from heap_run_safe [OF bump_os_ok(1) start_fresh(1) _ run this] have "4104 + HeapSize 65536 4104 s2 \<le> 12296 - 8" by (auto simp: bump_os_def)
  then show ?thesis using run by blast
qed

text \<open>A successful \<open>HeapReAlloc\<close> gives a block of the new size that starts with the common bytes of
  the old one, with \<open>HEAP_ZERO_MEMORY\<close> the bytes behind the old size are zero; the old address, when the
  block has moved, is no longer a block, and every other block keeps its size.\<close>

theorem HeapReAlloc_keeps:
  assumes "os_ok os" "heap_inv os s" "n + 8 + os_pageSize os \<le> 2 ^ 64" "HeapReAlloc os h fl p n s = (q, s')" "q \<noteq> 0"
  shows "HeapSize h q s' = n \<and> heap_inv os s'
    \<and> (\<forall>i < min (HeapSize h p s) n. ms_mem s' (q + i) = ms_mem s (p + i))
    \<and> (has fl HEAP_ZERO_MEMORY \<longrightarrow> (\<forall>i. HeapSize h p s \<le> i \<and> i < n \<longrightarrow> ms_mem s' (q + i) = 0))
    \<and> (q \<noteq> p \<longrightarrow> HeapSize h p s' = 0) \<and> (\<forall>k r. (k, r) \<noteq> (h, p) \<longrightarrow> (k, r) \<noteq> (h, q) \<longrightarrow> HeapSize k r s' = HeapSize k r s)"
proof -
  obtain it b where r: "blocks s (h, p) = Some it" "realloc_result os h fl p n it q b s s'"
    using HeapReAlloc_law [OF assms(1,3,2,4,5)] by blast
  then show ?thesis by (auto simp: realloc_result_def HeapSize_law)
qed

theorem HeapReAlloc_keeps_witness:
  "\<exists>s1 s2. HeapAlloc bump_os 65536 8 10 start = (4104, s1) \<and> HeapReAlloc bump_os 65536 8 4104 5000 s1 = (12296, s2)
     \<and> HeapSize 65536 12296 s2 = 5000 \<and> HeapSize 65536 4104 s2 = 0"
proof -
  define s1 where "s1 = snd (HeapAlloc bump_os 65536 8 10 start)"
  define s2 where "s2 = snd (HeapReAlloc bump_os 65536 8 4104 5000 s1)"
  have a1: "HeapAlloc bump_os 65536 8 10 start = (4104, s1)" unfolding s1_def by (rule first_alloc)
  have a2: "HeapReAlloc bump_os 65536 8 4104 5000 s1 = (12296, s2)" unfolding s1_def s2_def by (rule then_realloc)
  have there: "heap_there 65536 start" using start_fresh(2) by (simp add: start_def)
  have inv: "heap_inv bump_os s1" using HeapAlloc_law [OF bump_os_ok(1) start_fresh(3) there _ a1] by (auto simp: bump_os_def)
  from HeapReAlloc_keeps [OF bump_os_ok(1) inv _ a2] a1 a2 show ?thesis by (auto simp: bump_os_def)
qed

text \<open>\<open>HeapAlloc\<close> adds the size of a handle and a page to the size it is asked for without a test; within
  seven bytes of the largest \<^verbatim>\<open>size_t\<close> the sum wraps, one page is allocated, and the heap records a block of
  that size in it.\<close>

theorem HeapAlloc_wraps:
  assumes "2 ^ 64 - 7 \<le> n" "n < 2 ^ 64" "8 < os_pageSize os" "os_pageSize os \<le> 2 ^ 31" "heap_there h s"
    and "os_memalign os s (os_pageSize os) = Some base" "blocks s (h, base + 8) = None"
  shows "\<exists>s' b. HeapAlloc os h fl n s = (base + 8, s') \<and> HeapSize h (base + 8) s' = n
    \<and> blocks s' (h, base + 8) = Some b \<and> mb_allocSize b = os_pageSize os - 8"
proof -
  let ?g = "os_pageSize os"
  obtain info where h: "heap_of h s = Some info" using assms(5) by (auto simp: heap_there_def)
  define r where "r = n + 8 - 2 ^ 64"
  have r: "n + 8 = 2 ^ 64 + r" "1 \<le> r" "r \<le> 7" using assms(1,2) by (simp_all add: r_def)
  have "n + 8 + ?g - 1 = 2 ^ 64 + (r + ?g - 1)" using r assms(3) by simp
  moreover have "r + ?g - 1 < 2 ^ 64" using r assms(4) by simp
  ultimately have "size_t (n + 8 + ?g - 1) = r + ?g - 1" unfolding size_t_def by simp
  moreover have "(r + ?g - 1) div ?g = 1" using r assms(3) by (intro div_nat_eqI) auto
  ultimately have pr: "page_round os n = ?g" by (simp add: page_round_def)
  have sub: "size_sub ?g 8 = ?g - 8" using assms(3,4) by simp
  define b where "b = \<lparr>mb_len = n, mb_flushLen = 0, mb_allocSize = ?g - 8, mb_ptr = base + 8, mb_flags = fl\<rparr>"
  obtain m where run: "HeapAlloc os h fl n s = (base + 8, set_blocks h (hi_lstMem info @ [b]) (s\<lparr>ms_mem := m\<rparr>))"
    unfolding HeapAlloc_def h pr option.case Let_def assms(6) sub b_def by blast
  have "blocks (set_blocks h (hi_lstMem info @ [b]) (s\<lparr>ms_mem := m\<rparr>)) (h, base + 8) = Some b"
    using blocks_add [OF h, of b m] assms(7) by (simp add: b_def)
  then show ?thesis using run by (auto simp: HeapSize_law b_def)
qed

theorem HeapAlloc_wraps_witness:
  "\<exists>s'. HeapAlloc bump_os 65536 0 (2 ^ 64 - 1) start = (4104, s') \<and> HeapSize 65536 4104 s' = 2 ^ 64 - 1"
proof -
  have "bump start 4096 = Some 4096" "blocks start (65536, 4104) = None" "heap_there 65536 start"
    by (simp_all add: bump_def start_def blocks_def heap_there_def heap_of_def)
  then have "\<exists>s' b. HeapAlloc bump_os 65536 0 (2 ^ 64 - 1) start = (4096 + 8, s') \<and> HeapSize 65536 (4096 + 8) s' = 2 ^ 64 - 1
      \<and> blocks s' (65536, 4096 + 8) = Some b \<and> mb_allocSize b = os_pageSize bump_os - 8"
    by (intro HeapAlloc_wraps) (simp_all add: bump_os_def)
  then show ?thesis by auto
qed

section \<open>Local memory\<close>

lemma heap_there_nonnull: "heap_there h s \<Longrightarrow> h \<noteq> 0"
  by (cases "h = 0") (simp_all add: heap_there_def heap_of_def)

lemma hdr_lock_handle: "2 \<le> hm \<Longrightarrow> hdr_lock (hm - 2) s = ms_mem s (hm + 9)"
proof -
  assume "2 \<le> hm"
  then have "hm - 2 + 11 = hm + 9" by simp
  then show ?thesis by (simp only: hdr_lock_def load_1)
qed

lemma fst_LocalLock: "moveable s hm n q \<Longrightarrow> fst (LocalLock hm s) = q"
  by (simp add: LocalLock_moveable)

text \<open>A moveable block that \<open>LocalAlloc\<close> returns has the size asked for, starts unlocked, locks to an
  address whose bytes are in no older block and are zero if asked, and no byte of an older block has
  changed.\<close>

theorem LocalAlloc_moveable:
  assumes "os_ok os" "heap_inv os s" "heap_there (GetProcessHeap s) s"
    and "has fl LMEM_MOVEABLE" "0 < n" "LocalAlloc os fl n s = (hm, s')" "hm \<noteq> 0"
  shows "\<exists>q s1. LocalLock hm s' = (q, s1) \<and> q \<noteq> 0 \<and> LocalSize hm s' = (n, s') \<and> LocalUnlock hm s1 = (False, SetLastError 0 (set_hdr_lock (hm - 2) 0 s1))
    \<and> (has fl LMEM_ZEROINIT \<longrightarrow> (\<forall>i < n. ms_mem s' (q + i) = 0))
    \<and> (\<forall>k b. blocks s k = Some b \<longrightarrow> q + n \<le> mb_ptr b - 8 \<or> mb_ptr b + mb_allocSize b \<le> q) \<and> blocks_kept s s'"
proof -
  obtain q where r: "alloc_result os fl n hm q s s'"
    using LocalAlloc_law [OF assms(1,2) _ assms(4-7)] assms(3) by (auto simp: GetProcessHeap_def)
  then have r: "heap_inv os s'" "moveable s' hm n q" "q \<noteq> 0" "ms_mem s' (hm + 9) = 0" "blocks s (ms_process s, q - 16) = None"
      "ms_process s' = ms_process s" "blocks_kept s s'" "\<exists>hb db. blocks s' = (blocks s)((ms_process s, hm - 2) \<mapsto> hb, (ms_process s, q - 16) \<mapsto> db)"
      "blocks s (ms_process s, hm - 2) = None" "has fl LMEM_ZEROINIT \<longrightarrow> (\<forall>a. q - 8 \<le> a \<and> a < q + n \<longrightarrow> ms_mem s' a = 0)"
    by (auto simp: alloc_result_def)
  obtain db where db: "blocks s' (ms_process s, q - 16) = Some db" "mb_len db = n + 16" "16 < q" "2 \<le> hm"
    using moveableE [OF r(2,3)] r(6) by metis
  note d = new_block_bounds [OF assms(1) r(1) db(1)]
  have lock: "hdr_lock (hm - 2) s' = 0" using r(4) by (simp add: hdr_lock_handle [OF db(4)])
  let ?s1 = "set_hdr_lock (hm - 2) 1 s'"
  have l1: "LocalLock hm s' = (q, ?s1)" using LocalLock_moveable [OF r(2)] r(3) lock by (simp add: LMEM_LOCKCOUNT_def)
  note mv1 = moveable_set_lock [OF r(2,1) assms(1) r(3), of 1]
  have inv1: "heap_inv os ?s1" by (rule heap_inv_set_lock [OF r(1,2)])
  note mv2 = moveable_set_lock [OF mv1(1) inv1 assms(1) r(3), of 0]
  have l2: "LocalUnlock hm ?s1 = (False, SetLastError 0 (set_hdr_lock (hm - 2) 0 ?s1))"
    using LocalUnlock_moveable [OF mv1(1)] mv1(2) mv2(2) by (simp add: Let_def)
  have "q + n \<le> mb_ptr b - 8 \<or> mb_ptr b + mb_allocSize b \<le> q" if k: "blocks s k = Some b" for k b
  proof -
    have "blocks s' k = Some b" "k \<noteq> (ms_process s, q - 16)" using r(5,8,9) k by auto
    then show ?thesis using apart_sep [OF heap_inv_apart [OF r(1) db(1)]] d db(2,3) by fastforce
  qed
  then show ?thesis using l1 l2 r(3,7,10) LocalSize_moveable [OF r(2)] by auto
qed

lemma local_alloc_run:
  "LocalAlloc bump_os 66 100 start = (4106, snd (LocalAlloc bump_os 66 100 start))"
  by (rule prod_eqI)
    (simp_all add: LocalAlloc_def run_defs has_def LMEM_MOVEABLE_def sizeof_header_def INT_MAX_def
      HLOCAL_STORAGE_def GetProcessHeap_def get_handle_def set_hdr_lock_def set_hdr_flags_def set_hdr_magic_def)

lemma flags_66: "has 66 LMEM_MOVEABLE" "has 66 LMEM_ZEROINIT"
  by (simp_all add: has_def LMEM_MOVEABLE_def LMEM_ZEROINIT_def)

theorem LocalAlloc_moveable_witness:
  "\<exists>s' q. LocalAlloc bump_os 66 100 start = (4106, s') \<and> fst (LocalLock 4106 s') = q \<and> q \<noteq> 0 \<and> LocalSize 4106 s' = (100, s')
     \<and> ms_mem s' (q + 99) = 0"
proof -
  define s' where "s' = snd (LocalAlloc bump_os 66 100 start)"
  have run: "LocalAlloc bump_os 66 100 start = (4106, s')" unfolding s'_def by (rule local_alloc_run)
  have there: "heap_there (GetProcessHeap start) start" using start_fresh(2) by (simp add: GetProcessHeap_def)
  obtain q s1 where "LocalLock 4106 s' = (q, s1)" "q \<noteq> 0" "LocalSize 4106 s' = (100, s')" "has 66 LMEM_ZEROINIT \<longrightarrow> (\<forall>i<100. ms_mem s' (q + i) = 0)"
    using LocalAlloc_moveable [OF bump_os_ok(1) start_fresh(3) there flags_66(1) _ run] by auto
  then show ?thesis using run flags_66(2) by auto
qed

text \<open>\<open>LocalHandle\<close> takes the address a zeroed moveable block is locked at back to its handle.\<close>

theorem LocalHandle_LocalLock:
  assumes "os_ok os" "probe_ok os" "heap_inv os s" "heap_there (GetProcessHeap s) s"
    and "has fl LMEM_MOVEABLE" "has fl LMEM_ZEROINIT" "0 < n" "LocalAlloc os fl n s = (hm, s')" "hm \<noteq> 0"
  shows "LocalHandle os (fst (LocalLock hm s')) s' = (hm, s')"
proof -
  have there: "heap_there (ms_process s) s" using assms(4) by (simp add: GetProcessHeap_def)
  obtain q where r: "alloc_result os fl n hm q s s'" using LocalAlloc_law [OF assms(1,3) there assms(5,7,8,9)] by blast
  then have mv: "moveable s' hm n q" "q \<noteq> 0" "heap_inv os s'" "ms_process s' = ms_process s"
    and z: "\<And>a. q - 8 \<le> a \<Longrightarrow> a < q + n \<Longrightarrow> ms_mem s' a = 0"
    using assms(6) by (auto simp: alloc_result_def)
  have "16 < q" using moveableE [OF mv(1,2)] by metis
  then have "load 8 (q - 8) (ms_mem s') = 0" by (intro load_zero z) auto
  then have "load 8 (q - 8) (ms_mem s') \<noteq> ms_process s'" using heap_there_nonnull [OF there] mv(4) by simp
  from LocalHandle_law [OF assms(1,2) mv(3,1,2) this] show ?thesis by (simp add: fst_LocalLock [OF mv(1)])
qed

theorem LocalHandle_LocalLock_witness:
  "\<exists>s'. LocalAlloc bump_os 66 100 start = (4106, s') \<and> LocalHandle bump_os (fst (LocalLock 4106 s')) s' = (4106, s')"
proof -
  have there: "heap_there (GetProcessHeap start) start" using start_fresh(2) by (simp add: GetProcessHeap_def)
  define s' where "s' = snd (LocalAlloc bump_os 66 100 start)"
  have run: "LocalAlloc bump_os 66 100 start = (4106, s')" unfolding s'_def by (rule local_alloc_run)
  from LocalHandle_LocalLock [OF bump_os_ok start_fresh(3) there flags_66 _ run] run show ?thesis by auto
qed

text \<open>C16: a successful \<open>LocalReAlloc\<close> of a moveable block returns the same handle; the block then has the new
  size, starts with the common bytes of the old data, is zero behind them when asked, and has the
  same lock count.\<close>

theorem LocalReAlloc_keeps:
  assumes "os_ok os" "heap_inv os s" "moveable s hm n q" "q \<noteq> 0" "\<not> has fl LMEM_MODIFY" "0 < m"
    and "LocalReAlloc os hm m fl s = (r, s')" "r \<noteq> 0"
  shows "\<exists>q'. r = hm \<and> fst (LocalLock hm s') = q' \<and> LocalSize hm s' = (m, s') \<and> heap_inv os s'
    \<and> (\<forall>i < min n m. ms_mem s' (q' + i) = ms_mem s (q + i))
    \<and> (has fl LMEM_ZEROINIT \<longrightarrow> (\<forall>i. n \<le> i \<and> i < m \<longrightarrow> ms_mem s' (q' + i) = 0))
    \<and> hdr_lock (get_header hm) s' = hdr_lock (get_header hm) s"
proof -
  obtain q' where "r = hm" and k: "realloc_kept os fl hm n q m q' s s'" using LocalReAlloc_law [OF assms] by blast
  then have mv: "moveable s' hm m q'" by (simp add: realloc_kept_def)
  have "hdr_lock (get_header hm) s' = hdr_lock (get_header hm) s"
    using k moveable_header(1,5) [OF mv] by (simp add: realloc_kept_def hdr_lock_handle)
  then show ?thesis using k \<open>r = hm\<close> fst_LocalLock [OF mv] LocalSize_moveable [OF mv] by (simp add: realloc_kept_def)
qed

lemma HeapReAlloc_in_place:
  assumes "os_ok os" "heap_inv os s" "blocks s (h, p) = Some b" "n \<le> mb_allocSize b"
  shows "fst (HeapReAlloc os h fl p n s) = p"
proof -
  obtain info where h: "heap_of h s = Some info" and l: "lookup (hi_lstMem info) p = Some b"
    using assms(3) by (auto simp: blocks_def split: option.splits)
  then obtain i where i: "block_index p (hi_lstMem info) = Some i" "hi_lstMem info ! i = b" by (auto simp: lookup_def)
  have "mb_ptr b = p" using assms(3) by (rule blocks_key)
  then show ?thesis using h i assms(4) by (simp add: HeapReAlloc_def Let_def realloc_in_place_def)
qed

lemma LocalReAlloc_shrink:
  assumes "os_ok os" "heap_inv os s" "moveable s hm n q" "q \<noteq> 0" "\<not> has fl LMEM_MODIFY" "0 < m" "m \<le> n"
  shows "fst (LocalReAlloc os hm m fl s) = hm"
proof -
  note h = moveable_header [OF assms(3)]
  obtain hb db where d: "blocks s (ms_process s, q - 16) = Some db" "mb_len db = n + 16" "16 < q" "q < 2 ^ 64" "n + 16 < 2 ^ 31"
    using moveableE [OF assms(3,4)] by metis
  note b = new_block_bounds [OF assms(1,2) d(1)]
  have fit: "m + 16 \<le> mb_allocSize db" using b(2) d(2) assms(7) by simp
  have "size_sub q 16 = q - 16" "q - 16 \<noteq> 0" using d(3,4) by simp_all
  moreover have "m \<le> INT_MAX - HLOCAL_STORAGE" using assms(7) d(5) by (simp add: INT_MAX_def HLOCAL_STORAGE_def)
  moreover obtain s1 where "HeapReAlloc os (ms_process s) (zero_flag fl) (q - 16) (m + 16) s = (q - 16, s1)"
    using HeapReAlloc_in_place [OF assms(1,2) d(1) fit, of "zero_flag fl"] by (metis prod.collapse)
  ultimately show ?thesis using h assms(4,5,6)
    by (auto simp: LocalReAlloc_def realloc_moveable_def Let_def GetProcessHeap_def HLOCAL_STORAGE_def split: prod.splits)
qed

theorem LocalReAlloc_keeps_witness:
  "\<exists>s' s''. LocalAlloc bump_os 66 100 start = (4106, s') \<and> LocalReAlloc bump_os 4106 50 0 s' = (4106, s'') \<and> LocalSize 4106 s'' = (50, s'')"
proof -
  define s' where "s' = snd (LocalAlloc bump_os 66 100 start)"
  have run: "LocalAlloc bump_os 66 100 start = (4106, s')" unfolding s'_def by (rule local_alloc_run)
  obtain q where q: "heap_inv bump_os s'" "moveable s' 4106 100 q" "q \<noteq> 0"
    using LocalAlloc_law [OF bump_os_ok(1) start_fresh(3,2) flags_66(1) _ run] by (auto simp: alloc_result_def)
  have fl: "\<not> has 0 LMEM_MODIFY" by (simp add: has_def)
  obtain s'' where re: "LocalReAlloc bump_os 4106 50 0 s' = (4106, s'')"
    using LocalReAlloc_shrink [OF bump_os_ok(1) q fl, of 50] by (cases "LocalReAlloc bump_os 4106 50 0 s'") simp
  from LocalReAlloc_keeps [OF bump_os_ok(1) q fl _ re] run re show ?thesis by auto
qed

text \<open>C17: the lock count of a moveable block counts to 255 and no further: after \<open>k\<close> calls of \<open>LocalLock\<close>
  on an unlocked block it is the smaller of \<open>k\<close> and 255, that many calls of \<open>LocalUnlock\<close> bring it back
  to zero, and only the last of them returns \<^verbatim>\<open>FALSE\<close>.\<close>

definition lock_times :: "nat \<Rightarrow> nat \<Rightarrow> mstate \<Rightarrow> mstate" where
  "lock_times k hm s = ((\<lambda>s. snd (LocalLock hm s)) ^^ k) s"

definition unlock_times :: "nat \<Rightarrow> nat \<Rightarrow> mstate \<Rightarrow> mstate" where
  "unlock_times k hm s = ((\<lambda>s. snd (LocalUnlock hm s)) ^^ k) s"

lemma moveable_SetLastError: "moveable (SetLastError e s) hm n q = moveable s hm n q" "hdr_lock a (SetLastError e s) = hdr_lock a s"
  by (simp_all add: moveable_def header_block_def data_block_def hdr_lock_def)

lemma lock_step:
  assumes "os_ok os" "heap_inv os s" "moveable s hm n q" "q \<noteq> 0" "hdr_lock (hm - 2) s \<le> 255"
  shows "heap_inv os (snd (LocalLock hm s)) \<and> moveable (snd (LocalLock hm s)) hm n q
    \<and> hdr_lock (hm - 2) (snd (LocalLock hm s)) = min 255 (hdr_lock (hm - 2) s + 1)"
  using assms moveable_set_lock [OF assms(3,2,1,4)] heap_inv_set_lock [OF assms(2,3)] LocalLock_moveable [OF assms(3)]
  by (auto simp: LMEM_LOCKCOUNT_def)

lemma unlock_step:
  assumes "os_ok os" "heap_inv os s" "moveable s hm n q" "q \<noteq> 0" "hdr_lock (hm - 2) s \<le> 255"
  shows "heap_inv os (snd (LocalUnlock hm s)) \<and> moveable (snd (LocalUnlock hm s)) hm n q
    \<and> hdr_lock (hm - 2) (snd (LocalUnlock hm s)) = hdr_lock (hm - 2) s - 1
    \<and> (fst (LocalUnlock hm s) \<longleftrightarrow> 1 < hdr_lock (hm - 2) s)"
  using assms moveable_set_lock [OF assms(3,2,1,4)] heap_inv_set_lock [OF assms(2,3)] LocalUnlock_moveable [OF assms(3)]
  by (auto simp: Let_def moveable_SetLastError)

lemma lock_times_count:
  assumes "os_ok os" "heap_inv os s" "moveable s hm n q" "q \<noteq> 0" "hdr_lock (hm - 2) s = 0"
  shows "heap_inv os (lock_times k hm s) \<and> moveable (lock_times k hm s) hm n q \<and> hdr_lock (hm - 2) (lock_times k hm s) = min 255 k"
proof (induction k)
  case (Suc k)
  then show ?case using lock_step [OF assms(1), of "lock_times k hm s" hm n q] assms(4) by (simp add: lock_times_def)
qed (use assms in \<open>simp add: lock_times_def\<close>)

lemma unlock_times_count:
  assumes "os_ok os" "heap_inv os s" "moveable s hm n q" "q \<noteq> 0" "hdr_lock (hm - 2) s \<le> 255"
  shows "heap_inv os (unlock_times j hm s) \<and> moveable (unlock_times j hm s) hm n q
    \<and> hdr_lock (hm - 2) (unlock_times j hm s) = hdr_lock (hm - 2) s - j"
proof (induction j)
  case (Suc j)
  then show ?case using unlock_step [OF assms(1), of "unlock_times j hm s" hm n q] assms(4,5) by (simp add: unlock_times_def)
qed (use assms in \<open>simp add: unlock_times_def\<close>)

theorem LocalLock_count:
  assumes "os_ok os" "heap_inv os s" "moveable s hm n q" "q \<noteq> 0" "hdr_lock (get_header hm) s = 0"
  shows "hdr_lock (get_header hm) (lock_times k hm s) = min 255 k
    \<and> hdr_lock (get_header hm) (unlock_times j hm (lock_times k hm s)) = min 255 k - j
    \<and> (fst (LocalUnlock hm (unlock_times j hm (lock_times k hm s))) \<longleftrightarrow> j + 1 < min 255 k)"
proof -
  note g = moveable_header(1) [OF assms(3)]
  have l: "heap_inv os (lock_times k hm s)" "moveable (lock_times k hm s) hm n q" "hdr_lock (hm - 2) (lock_times k hm s) = min 255 k"
    using lock_times_count [OF assms(1-4), of k] assms(5) g by auto
  have u: "heap_inv os (unlock_times j hm (lock_times k hm s))" "moveable (unlock_times j hm (lock_times k hm s)) hm n q"
    "hdr_lock (hm - 2) (unlock_times j hm (lock_times k hm s)) = min 255 k - j"
    using unlock_times_count [OF assms(1) l(1,2) assms(4)] l(3) by auto
  show ?thesis using l(3) u(3) unlock_step [OF assms(1) u(1,2) assms(4)] g by auto
qed

theorem LocalLock_count_witness:
  "\<exists>s'. LocalAlloc bump_os 66 100 start = (4106, s') \<and> hdr_lock 4104 (lock_times 300 4106 s') = 255
     \<and> hdr_lock 4104 (unlock_times 255 4106 (lock_times 300 4106 s')) = 0"
proof -
  define s' where "s' = snd (LocalAlloc bump_os 66 100 start)"
  have run: "LocalAlloc bump_os 66 100 start = (4106, s')" unfolding s'_def by (rule local_alloc_run)
  obtain q where q: "heap_inv bump_os s'" "moveable s' 4106 100 q" "q \<noteq> 0" "ms_mem s' (4106 + 9) = 0"
    using LocalAlloc_law [OF bump_os_ok(1) start_fresh(3,2) flags_66(1) _ run] by (auto simp: alloc_result_def)
  have g: "get_header 4106 = 4106 - 2" by (rule moveable_header(1) [OF q(2)])
  have "hdr_lock (get_header 4106) s' = 0" using q(4) hdr_lock_handle [of 4106 s'] g by simp
  from LocalLock_count [OF bump_os_ok(1) q(1-3) this, of 300 255] run g show ?thesis by auto
qed

text \<open>Allocating and freeing a moveable block leaves the blocks of every heap as they were.\<close>

lemma LocalAlloc_LocalFree:
  assumes "os_ok os" "heap_inv os s" "heap_there (GetProcessHeap s) s"
    and "has fl LMEM_MOVEABLE" "0 < n" "LocalAlloc os fl n s = (hm, s')" "hm \<noteq> 0"
  shows "fst (LocalFree hm s') = 0 \<and> blocks (snd (LocalFree hm s')) = blocks s"
proof -
  obtain q where "alloc_result os fl n hm q s s'"
    using LocalAlloc_law [OF assms(1,2) _ assms(4-7)] assms(3) by (auto simp: GetProcessHeap_def)
  then have r: "heap_inv os s'" "moveable s' hm n q" "q \<noteq> 0" "ms_process s' = ms_process s"
      "blocks s (ms_process s, hm - 2) = None" "blocks s (ms_process s, q - 16) = None"
      "\<exists>hb db. blocks s' = (blocks s)((ms_process s, hm - 2) \<mapsto> hb, (ms_process s, q - 16) \<mapsto> db)"
    by (auto simp: alloc_result_def)
  obtain t where f: "LocalFree hm s' = (fst (LocalFree hm s'), t)" by (metis prod.collapse)
  have "blocks t = (blocks s')((ms_process s, q - 16) := None, (ms_process s, hm - 2) := None)"
    using LocalFree_law(2) [OF r(1,2) f] r(3,4) by simp
  also have "\<dots> = blocks s" using r(5,6,7) by (intro HOL.ext) (auto split: if_splits)
  finally show ?thesis using LocalFree_law(1) [OF r(1,2) f] f by (metis snd_conv)
qed

end
