(* ===== verification/TaskMem_Model.thy ===== *)
theory TaskMem_Model
  imports Memory_Model
begin

text \<open>
  The task allocator (\<^verbatim>\<open>src/malloc_impl.cpp\<close>) over the process heap: \<open>IMalloc\<close>, the spy an
  application may register on it, and the table of the blocks allocated under the spy. The spy
  is an object of the application and a parameter; its methods are functions of their
  arguments. A critical section is entered and left inside each call, so a call is one step.
\<close>

section \<open>State\<close>

record spy =
  PreAlloc :: "nat \<Rightarrow> nat"
  PostAlloc :: "nat \<Rightarrow> nat"
  PreRealloc :: "nat \<Rightarrow> nat \<Rightarrow> bool \<Rightarrow> nat \<times> nat"
  PostRealloc :: "nat \<Rightarrow> nat"
  PreFree :: "nat \<Rightarrow> bool \<Rightarrow> nat"
  PreGetSize :: "nat \<Rightarrow> bool \<Rightarrow> nat"
  PostGetSize :: "nat \<Rightarrow> bool \<Rightarrow> nat"
  PreDidAlloc :: "nat \<Rightarrow> bool \<Rightarrow> nat"
  PostDidAlloc :: "nat \<Rightarrow> bool \<Rightarrow> bool \<Rightarrow> bool"

text \<open>\<^verbatim>\<open>blocks\<close> is the address of the table, null before the first allocation under a spy.\<close>

record allocator =
  al_spy :: "spy option"
  al_spyed :: nat
  al_pending :: bool
  al_blocks :: nat
  al_length :: nat

record astate =
  as_heap :: mstate
  as_al :: allocator

text \<open>The count of spied blocks is a \<^verbatim>\<open>DWORD\<close> and wraps.\<close>

definition dword :: "nat \<Rightarrow> nat" where
  "dword n = n mod 2 ^ 32"

section \<open>The table of spied blocks\<close>

definition mallocspy_grow :: "os \<Rightarrow> nat \<Rightarrow> astate \<Rightarrow> bool \<times> astate" where
  "mallocspy_grow os len s =
     (let al = as_al s;
          (blocks, h) = (if al_blocks al = 0 then LocalAlloc os LMEM_ZEROINIT (len * 8) (as_heap s)
                         else LocalReAlloc os (al_blocks al) (len * 8) (LMEM_ZEROINIT OR LMEM_MOVEABLE) (as_heap s));
          s1 = s\<lparr>as_heap := h\<rparr>
      in if blocks \<noteq> 0 then (True, s1\<lparr>as_al := al\<lparr>al_blocks := blocks, al_length := len\<rparr>\<rparr>) else (False, s1))"

text \<open>The entry of the table at an index, read from memory.\<close>

definition table_at :: "astate \<Rightarrow> nat \<Rightarrow> nat" where
  "table_at s i = load 8 (al_blocks (as_al s) + 8 * i) (ms_mem (as_heap s))"

definition set_table :: "nat \<Rightarrow> nat \<Rightarrow> astate \<Rightarrow> astate" where
  "set_table i v s = s\<lparr>as_heap := set_word (al_blocks (as_al s) + 8 * i) v (as_heap s)\<rparr>"

text \<open>
  The search for a free entry from \<open>i\<close>; the table grows whenever the search passes its end, and
  \<open>None\<close> is a search that never ends.
\<close>

partial_function (option) find_free :: "os \<Rightarrow> nat \<Rightarrow> astate \<Rightarrow> (nat option \<times> astate) option" where
  "find_free os i s =
     (if table_at s i = 0 then Some (Some i, s)
      else if i + 1 \<ge> al_length (as_al s)
      then (let old_length = al_length (as_al s); (ok, s1) = mallocspy_grow os (dword (old_length + 0x1000)) s
            in if \<not> ok then Some (None, s1) else find_free os old_length s1)
      else find_free os (i + 1) s)"

definition mallocspy_add_mem :: "os \<Rightarrow> nat \<Rightarrow> astate \<Rightarrow> astate option" where
  "mallocspy_add_mem os mem s =
     (if mem = 0 then Some s
      else
        (let (ok, s1) = (if al_length (as_al s) = 0 then mallocspy_grow os 0x1000 s else (True, s))
         in if \<not> ok then Some s1
            else (case find_free os 0 s1 of
                    None \<Rightarrow> None
                  | Some (None, s2) \<Rightarrow> Some s2
                  | Some (Some i, s2) \<Rightarrow>
                      (let s3 = set_table i mem s2 in Some (s3\<lparr>as_al := (as_al s3)\<lparr>al_spyed := dword (al_spyed (as_al s3) + 1)\<rparr>\<rparr>)))))"

text \<open>
  The index of a block in the table, from \<open>i\<close> on. The loop reads an entry before it looks at the
  length; without a table it follows a null pointer, which is \<open>None\<close> here.
\<close>

function find_block :: "astate \<Rightarrow> nat \<Rightarrow> nat \<Rightarrow> nat option" where
  "find_block s mem i =
     (if table_at s i = mem then Some i
      else if i + 1 \<ge> al_length (as_al s) then None else find_block s mem (i + 1))"
  by pat_completeness auto
termination
  by (relation "measure (\<lambda>(s, mem, i). al_length (as_al s) - i)") auto

declare find_block.simps [simp del]

definition mallocspy_is_allocation_spyed :: "nat \<Rightarrow> astate \<Rightarrow> nat option option" where
  "mallocspy_is_allocation_spyed mem s = (if al_blocks (as_al s) = 0 then None else Some (find_block s mem 0))"

definition mallocspy_remove_spyed_memory :: "nat \<Rightarrow> astate \<Rightarrow> bool \<times> astate" where
  "mallocspy_remove_spyed_memory mem s =
     (if al_length (as_al s) = 0 then (False, s)
      else (case find_block s mem 0 of
              None \<Rightarrow> (False, s)
            | Some i \<Rightarrow>
                (True, set_table i 0 (s\<lparr>as_al := (as_al s)\<lparr>al_spyed := dword (al_spyed (as_al s) + 2 ^ 32 - 1)\<rparr>\<rparr>))))"

section \<open>The allocator\<close>

definition CMalloc_Alloc :: "os \<Rightarrow> nat \<Rightarrow> astate \<Rightarrow> (nat \<times> astate) option" where
  "CMalloc_Alloc os cb s =
     (let heap = GetProcessHeap (as_heap s)
      in case al_spy (as_al s) of
           None \<Rightarrow> (let (addr, h) = HeapAlloc os heap 0 cb (as_heap s) in Some (addr, s\<lparr>as_heap := h\<rparr>))
         | Some spy \<Rightarrow>
             if cb \<noteq> 0 \<and> PreAlloc spy cb = 0 then Some (0, s)
             else (let (addr, h) = HeapAlloc os heap 0 cb (as_heap s); addr2 = PostAlloc spy addr
                   in map_option (\<lambda>s2. (addr2, s2)) (mallocspy_add_mem os addr2 (s\<lparr>as_heap := h\<rparr>))))"

text \<open>Dropping the spy once the last block allocated under it is gone.\<close>

definition release_spy :: "astate \<Rightarrow> astate" where
  "release_spy s =
     (if al_pending (as_al s) \<and> al_spyed (as_al s) = 0
      then s\<lparr>as_al := (as_al s)\<lparr>al_spy := None, al_pending := False\<rparr>\<rparr> else s)"

text \<open>\<open>Realloc\<close> on the heap, after the spy has had its say.\<close>

definition heap_realloc :: "os \<Rightarrow> nat \<Rightarrow> nat \<Rightarrow> mstate \<Rightarrow> nat \<times> mstate" where
  "heap_realloc os pv cb h =
     (if pv = 0 then HeapAlloc os (GetProcessHeap h) 0 cb h
      else if cb \<noteq> 0 then HeapReAlloc os (GetProcessHeap h) 0 pv cb h
      else (0, snd (HeapFree (GetProcessHeap h) pv h)))"

definition CMalloc_Realloc :: "os \<Rightarrow> nat \<Rightarrow> nat \<Rightarrow> astate \<Rightarrow> (nat \<times> astate) option" where
  "CMalloc_Realloc os pv cb s =
     (case al_spy (as_al s) of
        None \<Rightarrow> (let (addr, h) = heap_realloc os pv cb (as_heap s) in Some (addr, s\<lparr>as_heap := h\<rparr>))
      | Some spy \<Rightarrow>
          (let (spyed, s1) = mallocspy_remove_spyed_memory pv s;
               (cb2, real_mem) = PreRealloc spy pv cb spyed;
               s2 = release_spy s1
           in if cb2 = 0 then Some (0, s2)
              else (let (addr, h) = heap_realloc os real_mem cb2 (as_heap s2); s3 = s2\<lparr>as_heap := h\<rparr>
                    in case al_spy (as_al s3) of
                         None \<Rightarrow> Some (addr, s3)
                       | Some spy2 \<Rightarrow> (let addr2 = PostRealloc spy2 addr
                                        in map_option (\<lambda>s4. (addr2, s4)) (mallocspy_add_mem os addr2 s3)))))"

definition CMalloc_Free :: "nat \<Rightarrow> astate \<Rightarrow> astate" where
  "CMalloc_Free mem s =
     (if mem = 0 then s
      else (case al_spy (as_al s) of
              None \<Rightarrow> s\<lparr>as_heap := snd (HeapFree (GetProcessHeap (as_heap s)) mem (as_heap s))\<rparr>
            | Some spy \<Rightarrow>
                (let (spyed, s1) = mallocspy_remove_spyed_memory mem s; mem2 = PreFree spy mem spyed;
                     s2 = s1\<lparr>as_heap := snd (HeapFree (GetProcessHeap (as_heap s1)) mem2 (as_heap s1))\<rparr>
                 in release_spy s2)))"

text \<open>The result of \<open>GetSize\<close> and \<open>DidAlloc\<close>, \<open>None\<close> when they follow a null pointer; \<^verbatim>\<open>(SIZE_T)-1\<close> is \<open>2 ^ 64 - 1\<close>.\<close>

definition CMalloc_GetSize :: "nat \<Rightarrow> astate \<Rightarrow> nat option" where
  "CMalloc_GetSize mem s =
     (let heap = GetProcessHeap (as_heap s)
      in if mem = 0 then Some (2 ^ 64 - 1)
         else (case al_spy (as_al s) of
                 None \<Rightarrow> Some (HeapSize heap mem (as_heap s))
               | Some spy \<Rightarrow>
                   (case mallocspy_is_allocation_spyed mem s of
                      None \<Rightarrow> None
                    | Some r \<Rightarrow>
                        (let spyed = (r \<noteq> None)
                         in Some (PostGetSize spy (HeapSize heap (PreGetSize spy mem spyed) (as_heap s)) spyed)))))"

definition CMalloc_DidAlloc :: "os \<Rightarrow> nat \<Rightarrow> astate \<Rightarrow> int option" where
  "CMalloc_DidAlloc os mem s =
     (let heap = GetProcessHeap (as_heap s)
      in if mem = 0 then Some (- 1)
         else (case al_spy (as_al s) of
                 None \<Rightarrow> Some (of_bool (HeapValidate os heap mem (as_heap s)))
               | Some spy \<Rightarrow>
                   (case mallocspy_is_allocation_spyed mem s of
                      None \<Rightarrow> None
                    | Some r \<Rightarrow>
                        (let spyed = (r \<noteq> None); mem2 = PreDidAlloc spy mem spyed
                         in Some (of_bool (PostDidAlloc spy mem2 spyed (HeapValidate os heap mem2 (as_heap s))))))))"

section \<open>The calls\<close>

definition CoTaskMemAlloc :: "os \<Rightarrow> nat \<Rightarrow> astate \<Rightarrow> (nat \<times> astate) option" where
  "CoTaskMemAlloc = CMalloc_Alloc"

definition CoTaskMemFree :: "nat \<Rightarrow> astate \<Rightarrow> astate" where
  "CoTaskMemFree = CMalloc_Free"

definition CoTaskMemRealloc :: "os \<Rightarrow> nat \<Rightarrow> nat \<Rightarrow> astate \<Rightarrow> (nat \<times> astate) option" where
  "CoTaskMemRealloc = CMalloc_Realloc"

datatype spy_result = SPY_OK | SPY_INVALIDARG | SPY_OBJISREG | SPY_OBJNOTREG | SPY_ACCESSDENIED

text \<open>\<open>None\<close> is a null spy; \<open>queries\<close> tells whether its \<^verbatim>\<open>QueryInterface\<close> succeeds.\<close>

definition CoRegisterMallocSpy :: "spy option \<Rightarrow> bool \<Rightarrow> astate \<Rightarrow> spy_result \<times> astate" where
  "CoRegisterMallocSpy sp queries s =
     (case sp of
        None \<Rightarrow> (SPY_INVALIDARG, s)
      | Some p \<Rightarrow>
          if al_spy (as_al s) \<noteq> None then (SPY_OBJISREG, s)
          else if queries then (SPY_OK, s\<lparr>as_al := (as_al s)\<lparr>al_spy := Some p\<rparr>\<rparr>)
          else (SPY_INVALIDARG, s))"

definition CoRevokeMallocSpy :: "astate \<Rightarrow> spy_result \<times> astate" where
  "CoRevokeMallocSpy s =
     (if al_spy (as_al s) = None then (SPY_OBJNOTREG, s)
      else if al_spyed (as_al s) \<noteq> 0 then (SPY_ACCESSDENIED, s\<lparr>as_al := (as_al s)\<lparr>al_pending := True\<rparr>\<rparr>)
      else (SPY_OK, s\<lparr>as_al := (as_al s)\<lparr>al_spy := None\<rparr>\<rparr>))"

end
