(* ===== verification/TaskMem_Props.thy ===== *)
theory TaskMem_Props
  imports TaskMem_Model Memory_Props
begin

text \<open>The properties of the task allocator, over the laws of the heap and of local memory.\<close>

section \<open>Fixed blocks made moveable\<close>

text \<open>\<open>LocalReAlloc\<close> of a fixed block that asks for a moveable one: a new handle, and the old block is gone.\<close>

lemma heap_inv_memcpy:
  assumes "heap_inv os s" "blocks s k = Some b" "mb_ptr b \<le> d" "d + n \<le> mb_ptr b + mb_allocSize b"
  shows "heap_inv os (s\<lparr>ms_mem := memcpy d p n (ms_mem s)\<rparr>)"
  by (rule heap_inv_write [OF assms(1,2)]) (use assms(3,4) in \<open>auto simp: mem_simps\<close>)

lemma realloc_fixed_handle:
  assumes os: "os_ok os" and inv: "heap_inv os s" and there: "heap_there (ms_process s) s"
    and fl: "has fl LMEM_MOVEABLE" and n: "0 < n" and run: "realloc_fixed os p n fl s = (hm, s')" "hm \<noteq> 0"
    and old: "blocks s (ms_process s, p) = Some old"
  shows "\<exists>hb. blocks s' (ms_process s', hm - 2) = Some hb \<and> mb_len hb = 12 \<and> \<not> is_pointer hm \<and> 2 \<le> hm
    \<and> blocks s' (ms_process s', p) = None \<and> heap_inv os s'"
proof -
  let ?P = "ms_process s"
  obtain hm' s1 where a: "LocalAlloc os fl n s = (hm', s1)" by fastforce
  have hm: "hm' = hm" using run(1) fl a by (auto simp: realloc_fixed_def Let_def split: prod.splits)
  obtain q where "alloc_result os fl n hm q s s1" using LocalAlloc_law [OF os inv there fl n] a hm run(2) by blast
  then have r: "heap_inv os s1" "moveable s1 hm n q" "q \<noteq> 0" "ms_process s1 = ?P" "blocks s (?P, hm - 2) = None" "blocks s (?P, q - 16) = None"
      "\<exists>hb db. blocks s1 = (blocks s)((?P, hm - 2) \<mapsto> hb, (?P, q - 16) \<mapsto> db)"
    by (auto simp: alloc_result_def)
  obtain hb db where d: "blocks s1 (?P, hm - 2) = Some hb" "mb_len hb = 12" "blocks s1 (?P, q - 16) = Some db" "mb_len db = n + 16" "16 < q" "2 \<le> hm"
    using moveableE [OF r(2,3)] r(4) by metis
  note db = new_block_bounds [OF os r(1) d(3)]
  obtain s2 where l: "LocalLock hm s1 = (q, s2)" using fst_LocalLock [OF r(2)] by (metis prod.collapse)
  have s2: "blocks s2 = blocks s1" "ms_process s2 = ?P" "heap_inv os s2"
    using l LocalLock_moveable [OF r(2)] r(1,3,4) heap_inv_set_lock [OF r(1,2)] by (auto split: if_splits)
  define c where "c = min (HeapSize ?P p s2) n"
  define s3 where "s3 = s2\<lparr>ms_mem := memcpy q p c (ms_mem s2)\<rparr>"
  have s3: "blocks s3 = blocks s1" "ms_process s3 = ?P" "heap_inv os s3"
    using s2 heap_inv_memcpy [OF s2(3), of "(?P, q - 16)" db q c] d db by (simp_all add: s3_def c_def)
  obtain u s4 where un: "LocalUnlock hm s3 = (u, s4)" by fastforce
  have hbk: "mb_ptr hb = hm - 2" "12 \<le> mb_allocSize hb" using new_block_bounds [OF os r(1) d(1)] d(2) by auto
  have lk: "heap_inv os (set_hdr_lock (hm - 2) v s3)" for v
    by (rule heap_inv_hdr [OF s3(3), of "(?P, hm - 2)" hb "hm - 2 + 11" 1 _ v])
      (use d(1) s3(1) hbk in \<open>simp_all add: set_hdr_lock_def\<close>)
  have gh: "get_header hm = hm - 2" by (rule moveable_header(1) [OF r(2)])
  have s4: "blocks s4 = blocks s1" "ms_process s4 = ?P" "heap_inv os s4"
    using un lk s3 unfolding LocalUnlock_def Let_def gh by (auto split: if_splits)
  obtain ok s5 where f: "HeapFree ?P p s4 = (ok, s5)" by fastforce
  have "s' = s5"
    using run(1) fl a hm l un f s2(2) s4(2) by (simp add: realloc_fixed_def GetProcessHeap_def c_def [symmetric] s3_def [symmetric])
  moreover note HeapFree_law [OF s4(3) f]
  moreover have "p \<noteq> hm - 2" using old r(5) by auto
  moreover have "ms_process s5 = ?P" using same_outside_frame [OF HeapFree_law(4) [OF s4(3) f]] s4(2) by simp
  ultimately show ?thesis using d(1,2,6) s4(1) moveable_header(4) [OF r(2)] by simp
qed

section \<open>The table of spied blocks\<close>

text \<open>Once the table of spied blocks is full, growing it leaves it unusable. \<open>LocalReAlloc\<close> is asked for a moveable
  block and returns a handle, which \<open>mallocspy_grow\<close> keeps as the address of the table: it is no
  pointer, the \<open>len\<close> entries lie on a header of 12 bytes, and the block with the old entries is gone.\<close>

theorem mallocspy_grow_handle:
  assumes "os_ok os" "heap_inv os (as_heap s)" "heap_there (GetProcessHeap (as_heap s)) (as_heap s)"
    and "al_blocks (as_al s) \<noteq> 0" "HeapSize (GetProcessHeap (as_heap s)) (al_blocks (as_al s)) (as_heap s) \<noteq> 0"
    and "0 < len" "mallocspy_grow os len s = (True, s')"
  shows "al_length (as_al s') = len \<and> \<not> is_pointer (al_blocks (as_al s'))
    \<and> HeapSize (GetProcessHeap (as_heap s')) (al_blocks (as_al s') - 2) (as_heap s') = 12
    \<and> HeapSize (GetProcessHeap (as_heap s')) (al_blocks (as_al s)) (as_heap s') = 0"
proof -
  let ?b = "al_blocks (as_al s)" and ?h = "as_heap s" and ?fl = "LMEM_ZEROINIT OR LMEM_MOVEABLE"
  obtain old where old: "blocks ?h (ms_process ?h, ?b) = Some old"
    using assms(5) by (auto simp: HeapSize_law GetProcessHeap_def split: option.splits)
  have ptr: "is_pointer ?b" using new_block_bounds(1) [OF assms(1,2) old] by (rule pointer_of_block(1))
  have fl: "has ?fl LMEM_MOVEABLE" "\<not> has ?fl LMEM_MODIFY"
    by (simp_all add: has_def LMEM_ZEROINIT_def LMEM_MOVEABLE_def LMEM_MODIFY_def)
  obtain hm h where re: "realloc_fixed os ?b (len * 8) ?fl ?h = (hm, h)" by fastforce
  have "hm \<noteq> 0" and s': "al_blocks (as_al s') = hm" "al_length (as_al s') = len" "as_heap s' = h"
    using assms(4,7) re ptr fl(2) by (auto simp: mallocspy_grow_def LocalReAlloc_def Let_def split: if_splits)
  have there: "heap_there (ms_process ?h) ?h" using assms(3) by (simp add: GetProcessHeap_def)
  obtain hb where "blocks h (ms_process h, hm - 2) = Some hb" "mb_len hb = 12" "\<not> is_pointer hm" "blocks h (ms_process h, ?b) = None"
    using realloc_fixed_handle [OF assms(1,2) there fl(1) _ re \<open>hm \<noteq> 0\<close> old] assms(6) by auto
  then show ?thesis using s' by (simp add: HeapSize_law GetProcessHeap_def)
qed

text \<open>A table of 4096 entries in the first block of a fresh heap, and its growth.\<close>

definition table_start :: astate where
  "table_start = \<lparr>as_heap = snd (LocalAlloc bump_os 64 32768 start),
     as_al = \<lparr>al_spy = None, al_spyed = 0, al_pending = False, al_blocks = 4104, al_length = 4096\<rparr>\<rparr>"

lemmas local_run_defs = LocalAlloc_def run_defs has_def LMEM_MOVEABLE_def LMEM_ZEROINIT_def sizeof_header_def INT_MAX_def
  HLOCAL_STORAGE_def GetProcessHeap_def get_handle_def set_hdr_lock_def set_hdr_flags_def set_hdr_magic_def

lemma table_start_run:
  "LocalAlloc bump_os 64 32768 start = (4104, snd (LocalAlloc bump_os 64 32768 start))"
  by (rule prod_eqI) (simp_all add: local_run_defs)

lemma table_start_next: "fst (LocalAlloc bump_os 66 65536 (snd (LocalAlloc bump_os 64 32768 start))) \<noteq> 0"
  by (simp add: local_run_defs)

lemma fst_realloc_fixed: "has fl LMEM_MOVEABLE \<Longrightarrow> fst (realloc_fixed os p n fl s) = fst (LocalAlloc os fl n s)"
  by (simp add: realloc_fixed_def Let_def split: prod.splits)

lemma table_start_heap: "heap_inv bump_os (as_heap table_start)" "heap_there (ms_process (as_heap table_start)) (as_heap table_start)"
  "HeapSize (ms_process (as_heap table_start)) 4104 (as_heap table_start) = 32768"
proof -
  let ?h = "as_heap table_start"
  have run: "HeapAlloc bump_os (ms_process start) 8 32768 start = (4104, ?h)"
    using table_start_run unfolding table_start_def
    by (simp add: LocalAlloc_def has_def LMEM_MOVEABLE_def LMEM_ZEROINIT_def GetProcessHeap_def zero_flag_def HEAP_ZERO_MEMORY_def)
  obtain b where b: "blocks ?h = (blocks start)((ms_process start, 4104) \<mapsto> b)" "heap_inv bump_os ?h" "mb_len b = 32768"
      "same_outside (4104 - 8) (4104 + mb_allocSize b) start ?h"
    using HeapAlloc_law [OF bump_os_ok(1) start_fresh(3,2) _ run] by (auto simp: bump_os_def)
  note fr = same_outside_frame [OF b(4)]
  show "heap_inv bump_os ?h" by (rule b(2))
  show "heap_there (ms_process ?h) ?h" using fr start_fresh(2) by simp
  show "HeapSize (ms_process ?h) 4104 ?h = 32768" using b(1,3) fr by (simp add: HeapSize_law)
qed

theorem mallocspy_grow_handle_witness:
  "\<exists>s'. mallocspy_grow bump_os 8192 table_start = (True, s') \<and> al_length (as_al s') = 8192 \<and> \<not> is_pointer (al_blocks (as_al s'))
     \<and> HeapSize (GetProcessHeap (as_heap s')) (al_blocks (as_al s') - 2) (as_heap s') = 12"
proof -
  have al: "al_blocks (as_al table_start) = 4104" by (simp add: table_start_def)
  have "fst (LocalReAlloc bump_os 4104 65536 66 (as_heap table_start)) \<noteq> 0"
    using table_start_next
    by (simp add: LocalReAlloc_def is_pointer_iff has_def LMEM_MODIFY_def fst_realloc_fixed LMEM_MOVEABLE_def table_start_def)
  then obtain s' where g: "mallocspy_grow bump_os 8192 table_start = (True, s')"
    by (cases "mallocspy_grow bump_os 8192 table_start")
      (auto simp: mallocspy_grow_def al Let_def LMEM_ZEROINIT_def LMEM_MOVEABLE_def split: prod.splits if_splits)
  have "GetProcessHeap (as_heap table_start) = ms_process (as_heap table_start)" by (simp add: GetProcessHeap_def)
  then have "al_length (as_al s') = 8192 \<and> \<not> is_pointer (al_blocks (as_al s'))
    \<and> HeapSize (GetProcessHeap (as_heap s')) (al_blocks (as_al s') - 2) (as_heap s') = 12
    \<and> HeapSize (GetProcessHeap (as_heap s')) (al_blocks (as_al table_start)) (as_heap s') = 0"
    by (intro mallocspy_grow_handle [OF bump_os_ok(1) table_start_heap(1) _ _ _ _ g]) (simp_all add: table_start_heap al)
  then show ?thesis using g by blast
qed

section \<open>Counting spied blocks\<close>

lemma find_block_None:
  "find_block s mem i = None \<Longrightarrow> i \<le> j \<Longrightarrow> j < al_length (as_al s) \<Longrightarrow> table_at s j \<noteq> mem"
proof (induction s mem i rule: find_block.induct)
  case (1 s mem i)
  have ne: "table_at s i \<noteq> mem" using "1.prems"(1) by (simp add: find_block.simps [of s mem i] split: if_splits)
  show ?case
  proof (cases "i = j")
    case False
    then have "i + 1 \<le> j" "\<not> al_length (as_al s) \<le> i + 1" using "1.prems" by auto
    moreover have "find_block s mem (i + 1) = None" using "1.prems"(1) ne calculation(2) by (simp add: find_block.simps [of s mem i])
    ultimately show ?thesis using "1.IH" [OF ne] "1.prems"(3) by simp
  qed (use ne in simp)
qed

lemma find_block_Some: "find_block s mem i = Some k \<Longrightarrow> table_at s k = mem \<and> i \<le> k"
proof (induction s mem i rule: find_block.induct)
  case (1 s mem i)
  then show ?case by (auto simp: find_block.simps [of s mem i] split: if_splits)
qed

lemma find_block_length: "find_block s mem i = Some k \<Longrightarrow> i < al_length (as_al s) \<Longrightarrow> k < al_length (as_al s)"
proof (induction s mem i rule: find_block.induct)
  case (1 s mem i)
  then show ?case by (auto simp: find_block.simps [of s mem i] split: if_splits)
qed

lemma find_free_first:
  "table_at s k = 0 \<Longrightarrow> k < al_length (as_al s) \<Longrightarrow> i \<le> k \<Longrightarrow> \<forall>j. i \<le> j \<and> j < k \<longrightarrow> table_at s j \<noteq> 0 \<Longrightarrow> find_free os i s = Some (Some k, s)"
proof (induction "k - i" arbitrary: i)
  case 0
  then show ?case by (simp add: find_free.simps)
next
  case (Suc d)
  then have "find_free os (i + 1) s = Some (Some k, s)" by (intro Suc.hyps(1)) auto
  moreover have "i < k" using Suc.hyps(2) by simp
  then have "table_at s i \<noteq> 0" "\<not> al_length (as_al s) \<le> i + 1" using Suc.prems by auto
  ultimately show ?case by (simp add: find_free.simps [of os i s])
qed

lemma table_at_set_table:
  "v < 2 ^ 64 \<Longrightarrow> table_at (set_table i v s) j = (if j = i then v else table_at s j)"
proof (cases "j = i")
  case False
  then have "8 * j + 8 \<le> 8 * i \<or> 8 * i + 8 \<le> 8 * j" by linarith
  then have "al_blocks (as_al s) + 8 * j + 8 \<le> al_blocks (as_al s) + 8 * i \<or> al_blocks (as_al s) + 8 * i + 8 \<le> al_blocks (as_al s) + 8 * j" by linarith
  then show ?thesis using False load_store_other by (simp add: table_at_def set_table_def)
qed (simp add: table_at_def set_table_def load_store_same)

lemma set_table_al [simp]: "as_al (set_table i v s) = as_al s"
  by (simp add: set_table_def)

lemma table_at_al [simp]: "table_at (s\<lparr>as_al := (as_al s)\<lparr>al_spyed := n\<rparr>\<rparr>) i = table_at s i"
  by (simp add: table_at_def)

text \<open>A block added to a table with a free entry is found there; removing it again restores every entry
  and the count.\<close>

theorem mallocspy_add_remove:
  assumes "0 < mem" "mem < 2 ^ 64" "al_spyed (as_al s) < 2 ^ 32" "al_blocks (as_al s) \<noteq> 0"
    and "\<forall>i < al_length (as_al s). table_at s i \<noteq> mem" "\<exists>i < al_length (as_al s). table_at s i = 0"
  shows "\<exists>s' s'' k. mallocspy_add_mem os mem s = Some s' \<and> mallocspy_is_allocation_spyed mem s' = Some (Some k)
    \<and> mallocspy_remove_spyed_memory mem s' = (True, s'') \<and> (\<forall>i. table_at s'' i = table_at s i) \<and> al_spyed (as_al s'') = al_spyed (as_al s)"
proof -
  let ?n = "al_length (as_al s)"
  obtain k where k: "k < ?n" "table_at s k = 0" "\<forall>j. 0 \<le> j \<and> j < k \<longrightarrow> table_at s j \<noteq> 0"
    using assms(6) exists_least_iff [of "\<lambda>i. i < ?n \<and> table_at s i = 0"] by (metis less_trans)
  have ff: "find_free os 0 s = Some (Some k, s)" using k by (intro find_free_first) auto
  define s' where "s' = (set_table k mem s)\<lparr>as_al := (as_al s)\<lparr>al_spyed := dword (al_spyed (as_al s) + 1)\<rparr>\<rparr>"
  have add: "mallocspy_add_mem os mem s = Some s'" using assms(1) k(1) ff by (simp add: mallocspy_add_mem_def s'_def Let_def)
  have tab: "table_at s' i = (if i = k then mem else table_at s i)" for i
    using table_at_set_table [OF assms(2), of k s i] unfolding s'_def by (simp add: table_at_def)
  have al: "al_length (as_al s') = ?n" "al_blocks (as_al s') \<noteq> 0" "al_spyed (as_al s') = dword (al_spyed (as_al s) + 1)"
    using assms(4) by (simp_all add: s'_def)
  obtain j where j: "find_block s' mem 0 = Some j"
    using find_block_None [of s' mem 0 k] k(1) tab [of k] al(1) by (cases "find_block s' mem 0") auto
  have "j < ?n" "table_at s' j = mem" using find_block_length [OF j] find_block_Some [OF j] k(1) al(1) by auto
  then have "j = k" using tab [of j] assms(5) by (auto split: if_splits)
  define s'' where "s'' = set_table k 0 (s'\<lparr>as_al := (as_al s')\<lparr>al_spyed := dword (al_spyed (as_al s') + 2 ^ 32 - 1)\<rparr>\<rparr>)"
  have rem: "mallocspy_remove_spyed_memory mem s' = (True, s'')"
    using j k(1) al(1) \<open>j = k\<close> by (simp add: mallocspy_remove_spyed_memory_def s''_def)
  have "table_at s'' i = table_at s i" for i
    using table_at_set_table [of 0 k _ i] tab [of i] k(2) by (simp add: s''_def)
  moreover have "al_spyed (as_al s'') = al_spyed (as_al s)"
  proof -
    have "(al_spyed (as_al s) + 1) mod 2 ^ 32 + 2 ^ 32 - 1 = (if al_spyed (as_al s) = 2 ^ 32 - 1 then 2 ^ 32 - 1 else al_spyed (as_al s) + 2 ^ 32)"
      using assms(3) by auto
    then show ?thesis using al(3) assms(3) by (auto simp: s''_def dword_def)
  qed
  moreover have "mallocspy_is_allocation_spyed mem s' = Some (Some k)"
    using j \<open>j = k\<close> al(2) by (simp add: mallocspy_is_allocation_spyed_def)
  ultimately show ?thesis using add rem by blast
qed

definition zero_table :: astate where
  "zero_table = \<lparr>as_heap = start\<lparr>ms_mem := \<lambda>_. 0\<rparr>,
     as_al = \<lparr>al_spy = None, al_spyed = 0, al_pending = False, al_blocks = 4096, al_length = 8\<rparr>\<rparr>"

theorem mallocspy_add_remove_witness:
  "\<exists>s' s'' k. mallocspy_add_mem bump_os 20000 zero_table = Some s' \<and> mallocspy_is_allocation_spyed 20000 s' = Some (Some k)
    \<and> mallocspy_remove_spyed_memory 20000 s' = (True, s'') \<and> (\<forall>i. table_at s'' i = table_at zero_table i) \<and> al_spyed (as_al s'') = 0"
proof -
  have z: "table_at zero_table i = 0" for i unfolding table_at_def by (rule load_zero) (simp add: zero_table_def)
  have al: "al_spyed (as_al zero_table) = 0" "al_blocks (as_al zero_table) = 4096" "al_length (as_al zero_table) = 8" by (simp_all add: zero_table_def)
  show ?thesis using mallocspy_add_remove [of 20000 zero_table bump_os] z al by fastforce
qed

end
