(* ===== verification/Bstr_Model.thy ===== *)
theory Bstr_Model
  imports TaskMem_Model "HOL-Library.Monad_Syntax"
begin

text \<open>
  The state the automation types share, and the \<^verbatim>\<open>BSTR\<close> functions (\<^verbatim>\<open>src/objbase.cpp\<close>): a string is the
  address of its characters, its length stands in the four bytes in front. Strings live in blocks
  of the C library's \<^verbatim>\<open>malloc\<close>, which is a parameter, as are the methods of objects the application
  implements. \<open>None\<close> is a call that does not return: a read through a null pointer, \<^verbatim>\<open>free\<close> of an
  address that is no block, or a loop without end.
\<close>

section \<open>State\<close>

datatype HRESULT = S_OK | E_INVALIDARG | E_OUTOFMEMORY | E_POINTER | E_UNEXPECTED | DISP_E_ARRAYISLOCKED | DISP_E_BADINDEX | HR int

text \<open>A code of an application's object is a success unless its top bit is set.\<close>

fun SUCCEEDED :: "HRESULT \<Rightarrow> bool" where
  "SUCCEEDED S_OK \<longleftrightarrow> True"
| "SUCCEEDED (HR n) \<longleftrightarrow> 0 \<le> n"
| "SUCCEEDED _ \<longleftrightarrow> False"

record SAFEARRAYBOUND =
  cElements :: nat
  lLbound :: int

record SAFEARRAY =
  cDims :: nat
  fFeatures :: nat
  cbElements :: nat
  cLocks :: int
  pvData :: nat
  rgsabound :: "SAFEARRAYBOUND list"

text \<open>The calls made on interfaces that only count references.\<close>

datatype call = AddRef nat | Release nat

text \<open>
  The task allocator with the bytes of memory, the descriptors of safe arrays by their address,
  the size of the live blocks of \<^verbatim>\<open>malloc\<close>, and the reference calls made so far.
\<close>

record ole_state =
  os_al :: astate
  os_desc :: "nat \<Rightarrow> SAFEARRAY option"
  os_cblocks :: "nat \<Rightarrow> nat option"
  os_calls :: "call list"

definition mem :: "ole_state \<Rightarrow> bytes" where
  "mem st = ms_mem (as_heap (os_al st))"

definition put_mem :: "bytes \<Rightarrow> ole_state \<Rightarrow> ole_state" where
  "put_mem m st = st\<lparr>os_al := (os_al st)\<lparr>as_heap := (as_heap (os_al st))\<lparr>ms_mem := m\<rparr>\<rparr>\<rparr>"

definition call :: "call \<Rightarrow> ole_state \<Rightarrow> ole_state" where
  "call c st = st\<lparr>os_calls := os_calls st @ [c]\<rparr>"

text \<open>
  What is outside: the operating system, \<^verbatim>\<open>malloc\<close>, the record descriptions of user types. The two
  functions on variants and safe arrays call each other and are joined in the theory of variants.
\<close>

record ole =
  ole_os :: os
  ole_malloc :: "ole_state \<Rightarrow> nat \<Rightarrow> nat option"
  ole_GetSize :: "nat \<Rightarrow> nat"
  ole_RecordClear :: "nat \<Rightarrow> nat \<Rightarrow> ole_state \<Rightarrow> ole_state"
  ole_RecordCopy :: "nat \<Rightarrow> nat \<Rightarrow> nat \<Rightarrow> ole_state \<Rightarrow> HRESULT \<times> ole_state"
  ole_VariantClear :: "nat \<Rightarrow> ole_state \<Rightarrow> ole_state option"
  ole_VariantCopy :: "nat \<Rightarrow> nat \<Rightarrow> ole_state \<Rightarrow> (HRESULT \<times> ole_state) option"

section \<open>Blocks of the C library\<close>

definition AllocateForBSTR :: "ole \<Rightarrow> nat \<Rightarrow> ole_state \<Rightarrow> nat \<times> ole_state" where
  "AllocateForBSTR ole cb st =
     (case ole_malloc ole st cb of
        None \<Rightarrow> (0, st)
      | Some p \<Rightarrow> (p, st\<lparr>os_cblocks := (os_cblocks st)(p \<mapsto> cb)\<rparr>))"

definition FreeForBSTR :: "nat \<Rightarrow> ole_state \<Rightarrow> ole_state option" where
  "FreeForBSTR pv st =
     (case os_cblocks st pv of
        None \<Rightarrow> None
      | Some n \<Rightarrow> Some (st\<lparr>os_cblocks := (os_cblocks st)(pv := None)\<rparr>))"

section \<open>Strings\<close>

text \<open>\<^verbatim>\<open>OLECHAR\<close> is the \<^verbatim>\<open>wchar_t\<close> of the platform.\<close>

definition sizeof_OLECHAR :: nat where "sizeof_OLECHAR = 4"

definition sizeof_CBstrSizeType :: nat where "sizeof_CBstrSizeType = 4"

definition k_Bstr_ByteAlloc_Flag :: nat where "k_Bstr_ByteAlloc_Flag = 0x40000000"

text \<open>The word in front of a string, its flag and the length without the flag.\<close>

definition bstr_word :: "nat \<Rightarrow> ole_state \<Rightarrow> nat" where
  "bstr_word bstr st = load 4 (bstr - sizeof_CBstrSizeType) (mem st)"

definition bstr_is_bytes :: "nat \<Rightarrow> ole_state \<Rightarrow> bool" where
  "bstr_is_bytes bstr st \<longleftrightarrow> bstr_word bstr st AND k_Bstr_ByteAlloc_Flag \<noteq> 0"

definition bstr_stored_len :: "nat \<Rightarrow> ole_state \<Rightarrow> nat" where
  "bstr_stored_len bstr st = bstr_word bstr st AND (0xFFFFFFFF - k_Bstr_ByteAlloc_Flag)"

definition SysAllocStringByteLen :: "ole \<Rightarrow> nat \<Rightarrow> nat \<Rightarrow> ole_state \<Rightarrow> nat \<times> ole_state" where
  "SysAllocStringByteLen ole s len st =
     (if len \<ge> k_Bstr_ByteAlloc_Flag - sizeof_OLECHAR * 2 then (0, st)
      else
        (let size = (len + sizeof_OLECHAR + sizeof_OLECHAR - 1) div sizeof_OLECHAR * sizeof_OLECHAR;
             (p, st1) = AllocateForBSTR ole (size + sizeof_CBstrSizeType) st
         in if p = 0 then (0, st1)
            else
              (let bstr = p + sizeof_CBstrSizeType;
                   m1 = store 4 p (len OR k_Bstr_ByteAlloc_Flag) (mem st1);
                   m2 = (if s \<noteq> 0 then memcpy bstr s len m1 else m1);
                   m3 = memset (bstr + len) 0 (size - len) m2
               in (bstr, put_mem m3 st1))))"

definition SysAllocStringLen :: "ole \<Rightarrow> nat \<Rightarrow> nat \<Rightarrow> ole_state \<Rightarrow> nat \<times> ole_state" where
  "SysAllocStringLen ole s len st =
     (if len \<ge> k_Bstr_ByteAlloc_Flag div 2 div sizeof_OLECHAR then (0, st)
      else
        (let size = len * sizeof_OLECHAR;
             (p, st1) = AllocateForBSTR ole (size + sizeof_CBstrSizeType + sizeof_OLECHAR) st
         in if p = 0 then (0, st1)
            else
              (let bstr = p + sizeof_CBstrSizeType;
                   m1 = store 4 p (len * 2) (mem st1);
                   m2 = (if s \<noteq> 0 then memcpy bstr s size m1 else m1);
                   m3 = store 4 (bstr + len * sizeof_OLECHAR) 0 m2
               in (bstr, put_mem m3 st1))))"

text \<open>The characters in front of the terminator at or behind \<open>s2\<close>.\<close>

partial_function (option) find_nul :: "nat \<Rightarrow> bytes \<Rightarrow> nat option" where
  "find_nul s2 m = (if load 4 s2 m \<noteq> 0 then find_nul (s2 + 4) m else Some s2)"

definition SysAllocString :: "ole \<Rightarrow> nat \<Rightarrow> ole_state \<Rightarrow> (nat \<times> ole_state) option" where
  "SysAllocString ole s st =
     (if s = 0 then Some (0, st)
      else do { s2 \<leftarrow> find_nul s (mem st); Some (SysAllocStringLen ole s (dword ((s2 - s) div sizeof_OLECHAR)) st) })"

definition SysFreeString :: "nat \<Rightarrow> ole_state \<Rightarrow> ole_state option" where
  "SysFreeString bstr st = (if bstr \<noteq> 0 then FreeForBSTR (bstr - sizeof_CBstrSizeType) st else Some st)"

definition SysReAllocString :: "ole \<Rightarrow> nat \<Rightarrow> nat \<Rightarrow> ole_state \<Rightarrow> (bool \<times> ole_state) option" where
  "SysReAllocString ole pbstr psz st =
     (if pbstr = 0 then Some (False, st)
      else if psz = 0
      then do { st1 \<leftarrow> SysFreeString (load 8 pbstr (mem st)) st; Some (True, put_mem (store 8 pbstr 0 (mem st1)) st1) }
      else do {
        (newstr, st1) \<leftarrow> SysAllocString ole psz st;
        if newstr = 0 then Some (False, st1)
        else do { st2 \<leftarrow> SysFreeString (load 8 pbstr (mem st1)) st1; Some (True, put_mem (store 8 pbstr newstr (mem st2)) st2) } })"

definition SysReAllocStringLen :: "ole \<Rightarrow> nat \<Rightarrow> nat \<Rightarrow> nat \<Rightarrow> ole_state \<Rightarrow> (bool \<times> ole_state) option" where
  "SysReAllocStringLen ole pbstr psz len st =
     (if pbstr = 0 then Some (False, st)
      else
        (let (newstr, st1) = SysAllocStringLen ole psz len st
         in if newstr = 0 then Some (False, st1)
            else do { st2 \<leftarrow> SysFreeString (load 8 pbstr (mem st1)) st1; Some (True, put_mem (store 8 pbstr newstr (mem st2)) st2) }))"

definition SysStringByteLen :: "nat \<Rightarrow> ole_state \<Rightarrow> nat" where
  "SysStringByteLen bstr st = (if bstr = 0 then 0 else bstr_stored_len bstr st)"

definition SysStringLen :: "nat \<Rightarrow> ole_state \<Rightarrow> nat" where
  "SysStringLen bstr st = (if bstr = 0 then 0 else bstr_stored_len bstr st div 2)"

definition SysAllocStringCopy :: "ole \<Rightarrow> nat \<Rightarrow> ole_state \<Rightarrow> nat \<times> ole_state" where
  "SysAllocStringCopy ole src st =
     (if src = 0 then (0, st)
      else if bstr_is_bytes src st then SysAllocStringByteLen ole src (bstr_stored_len src st) st
      else SysAllocStringLen ole src (bstr_stored_len src st div 2) st)"

definition SysBstrRawByteCount :: "nat \<Rightarrow> ole_state \<Rightarrow> nat" where
  "SysBstrRawByteCount bstr st =
     (if bstr = 0 then 0
      else if bstr_is_bytes bstr st then bstr_stored_len bstr st
      else bstr_stored_len bstr st div 2 * sizeof_OLECHAR)"

end
