(* ===== verification/Safearray_Model.thy ===== *)
theory Safearray_Model
  imports Bstr_Model
begin

text \<open>
  Safe arrays (\<^verbatim>\<open>src/safearray.cpp\<close>): descriptors, data, locks, indexing, copying and resizing.
  The descriptor behind an address is a record in the state; the 16 bytes in front of it, the
  elements and everything else are bytes of memory. A vector's elements follow its descriptor.
  Counts and sizes are \<^verbatim>\<open>ULONG\<close> and wrap at 32 bits, bounds and locks are \<^verbatim>\<open>LONG\<close>. \<open>None\<close> is a call
  that follows a null or dangling pointer.
\<close>

section \<open>Types and features\<close>

definition VT_I2 :: nat where "VT_I2 = 2"
definition VT_I4 :: nat where "VT_I4 = 3"
definition VT_R4 :: nat where "VT_R4 = 4"
definition VT_R8 :: nat where "VT_R8 = 5"
definition VT_CY :: nat where "VT_CY = 6"
definition VT_DATE :: nat where "VT_DATE = 7"
definition VT_BSTR :: nat where "VT_BSTR = 8"
definition VT_DISPATCH :: nat where "VT_DISPATCH = 9"
definition VT_ERROR :: nat where "VT_ERROR = 10"
definition VT_BOOL :: nat where "VT_BOOL = 11"
definition VT_VARIANT :: nat where "VT_VARIANT = 12"
definition VT_UNKNOWN :: nat where "VT_UNKNOWN = 13"
definition VT_DECIMAL :: nat where "VT_DECIMAL = 14"
definition VT_I1 :: nat where "VT_I1 = 16"
definition VT_UI1 :: nat where "VT_UI1 = 17"
definition VT_UI2 :: nat where "VT_UI2 = 18"
definition VT_UI4 :: nat where "VT_UI4 = 19"
definition VT_I8 :: nat where "VT_I8 = 20"
definition VT_UI8 :: nat where "VT_UI8 = 21"
definition VT_INT :: nat where "VT_INT = 22"
definition VT_UINT :: nat where "VT_UINT = 23"
definition VT_RECORD :: nat where "VT_RECORD = 36"
definition VT_INT_PTR :: nat where "VT_INT_PTR = 37"
definition VT_UINT_PTR :: nat where "VT_UINT_PTR = 38"

lemmas vt_defs = VT_I2_def VT_I4_def VT_R4_def VT_R8_def VT_CY_def VT_DATE_def VT_BSTR_def VT_DISPATCH_def VT_ERROR_def
  VT_BOOL_def VT_VARIANT_def VT_UNKNOWN_def VT_DECIMAL_def VT_I1_def VT_UI1_def VT_UI2_def VT_UI4_def VT_I8_def
  VT_UI8_def VT_INT_def VT_UINT_def VT_RECORD_def VT_INT_PTR_def VT_UINT_PTR_def

definition FADF_AUTO :: nat where "FADF_AUTO = 0x1"
definition FADF_STATIC :: nat where "FADF_STATIC = 0x2"
definition FADF_EMBEDDED :: nat where "FADF_EMBEDDED = 0x4"
definition FADF_FIXEDSIZE :: nat where "FADF_FIXEDSIZE = 0x10"
definition FADF_RECORD :: nat where "FADF_RECORD = 0x20"
definition FADF_HAVEIID :: nat where "FADF_HAVEIID = 0x40"
definition FADF_HAVEVARTYPE :: nat where "FADF_HAVEVARTYPE = 0x80"
definition FADF_BSTR :: nat where "FADF_BSTR = 0x100"
definition FADF_UNKNOWN :: nat where "FADF_UNKNOWN = 0x200"
definition FADF_DISPATCH :: nat where "FADF_DISPATCH = 0x400"
definition FADF_VARIANT :: nat where "FADF_VARIANT = 0x800"
definition FADF_CREATEVECTOR :: nat where "FADF_CREATEVECTOR = 0x2000"
definition FADF_DATADELETED :: nat where "FADF_DATADELETED = 0x4000"

lemmas fadf_defs = FADF_AUTO_def FADF_STATIC_def FADF_EMBEDDED_def FADF_FIXEDSIZE_def FADF_RECORD_def FADF_HAVEIID_def
  FADF_HAVEVARTYPE_def FADF_BSTR_def FADF_UNKNOWN_def FADF_DISPATCH_def FADF_VARIANT_def FADF_CREATEVECTOR_def FADF_DATADELETED_def

definition ignored_copy_features :: nat where
  "ignored_copy_features = FADF_AUTO OR FADF_STATIC OR FADF_EMBEDDED OR FADF_FIXEDSIZE OR FADF_CREATEVECTOR"

text \<open>A 16-bit feature word without some bits.\<close>

definition without :: "nat \<Rightarrow> nat \<Rightarrow> nat" where
  "without flags bits = flags AND (0xFFFF - bits)"

definition sizeof_SAFEARRAY :: nat where "sizeof_SAFEARRAY = 32"

definition sizeof_SAFEARRAYBOUND :: nat where "sizeof_SAFEARRAYBOUND = 8"

definition SAFEARRAY_HIDDEN_SIZE :: nat where "SAFEARRAY_HIDDEN_SIZE = 16"

text \<open>The interface ids as the sixteen bytes of their \<^verbatim>\<open>GUID\<close>, read little-endian.\<close>

definition GUID_NULL :: nat where "GUID_NULL = 0"
definition IID_IDispatch :: nat where "IID_IDispatch = 0x46000000000000C00000000000020400"
definition IID_IUnknown :: nat where "IID_IUnknown = 0x01000000000000000000000000000000"

definition ulong :: "int \<Rightarrow> nat" where
  "ulong x = nat (x mod 4294967296)"

section \<open>Memory and descriptors\<close>

definition set_desc :: "nat \<Rightarrow> SAFEARRAY \<Rightarrow> ole_state \<Rightarrow> ole_state" where
  "set_desc psa a st = st\<lparr>os_desc := (os_desc st)(psa \<mapsto> a)\<rparr>"

text \<open>The size of the block is a \<^verbatim>\<open>ULONG\<close>.\<close>

definition SAFEARRAY_Malloc :: "ole \<Rightarrow> nat \<Rightarrow> ole_state \<Rightarrow> (nat \<times> ole_state) option" where
  "SAFEARRAY_Malloc ole n st =
     (let sz = dword n
      in do { (ret, al) \<leftarrow> CoTaskMemAlloc (ole_os ole) sz (os_al st);
              let st1 = st\<lparr>os_al := al\<rparr>;
              Some (ret, if ret \<noteq> 0 then put_mem (memset ret 0 sz (mem st1)) st1 else st1) })"

definition SAFEARRAY_Free :: "nat \<Rightarrow> ole_state \<Rightarrow> ole_state" where
  "SAFEARRAY_Free p st = st\<lparr>os_al := CoTaskMemFree p (os_al st)\<rparr>"

definition SAFEARRAY_GetVTSize :: "nat \<Rightarrow> nat" where
  "SAFEARRAY_GetVTSize vt =
     (if vt = VT_I1 \<or> vt = VT_UI1 then 1
      else if vt = VT_BOOL \<or> vt = VT_I2 \<or> vt = VT_UI2 then 2
      else if vt = VT_I4 \<or> vt = VT_UI4 \<or> vt = VT_R4 \<or> vt = VT_ERROR then 4
      else if vt = VT_R8 \<or> vt = VT_I8 \<or> vt = VT_UI8 then 8
      else if vt = VT_INT \<or> vt = VT_UINT then 4
      else if vt = VT_INT_PTR \<or> vt = VT_UINT_PTR then 8
      else if vt = VT_CY then 16
      else if vt = VT_DATE then 8
      else if vt = VT_BSTR then 8
      else if vt = VT_DISPATCH then 8
      else if vt = VT_VARIANT then 24
      else if vt = VT_UNKNOWN then 8
      else if vt = VT_DECIMAL then 16
      else if vt = VT_RECORD then 32
      else 0)"

definition SAFEARRAY_SetHiddenDWORD :: "nat \<Rightarrow> nat \<Rightarrow> ole_state \<Rightarrow> ole_state" where
  "SAFEARRAY_SetHiddenDWORD psa dw st = put_mem (store 4 (psa - 4) dw (mem st)) st"

definition SAFEARRAY_GetHiddenDWORD :: "nat \<Rightarrow> ole_state \<Rightarrow> nat" where
  "SAFEARRAY_GetHiddenDWORD psa st = load 4 (psa - 4) (mem st)"

fun cell_product :: "SAFEARRAYBOUND list \<Rightarrow> nat \<Rightarrow> nat" where
  "cell_product [] n = n"
| "cell_product (b # bs) n = (if cElements b = 0 then 0 else cell_product bs (dword (n * cElements b)))"

definition SAFEARRAY_GetCellCount :: "SAFEARRAY \<Rightarrow> nat" where
  "SAFEARRAY_GetCellCount a = cell_product (take (cDims a) (rgsabound a)) 1"

text \<open>
  The block is zeroed, so the new descriptor has every field zero; \<open>slots\<close> is the number of bounds
  the caller made room for.
\<close>

definition SAFEARRAY_AllocDescriptor :: "ole \<Rightarrow> nat \<Rightarrow> nat \<Rightarrow> ole_state \<Rightarrow> (HRESULT \<times> nat \<times> ole_state) option" where
  "SAFEARRAY_AllocDescriptor ole slots ulSize st =
     do { (ptr, st1) \<leftarrow> SAFEARRAY_Malloc ole (ulSize + SAFEARRAY_HIDDEN_SIZE) st;
          if ptr = 0 then Some (E_OUTOFMEMORY, 0, st1)
          else (let psa = ptr + SAFEARRAY_HIDDEN_SIZE
                in Some (S_OK, psa, set_desc psa
                     \<lparr>cDims = 0, fFeatures = 0, cbElements = 0, cLocks = 0, pvData = 0,
                      rgsabound = replicate slots \<lparr>cElements = 0, lLbound = 0\<rparr>\<rparr> st1)) }"

definition SafeArraySetIID :: "nat \<Rightarrow> nat \<Rightarrow> ole_state \<Rightarrow> (HRESULT \<times> ole_state) option" where
  "SafeArraySetIID psa guid st =
     (if psa = 0 then Some (E_INVALIDARG, st)
      else if guid = GUID_NULL then Some (E_INVALIDARG, st)
      else do { a \<leftarrow> os_desc st psa;
                Some (if \<not> has (fFeatures a) FADF_HAVEIID then (E_INVALIDARG, st)
                      else (S_OK, put_mem (store 16 (psa - 16) guid (mem st)) st)) })"

definition SafeArrayGetIID :: "nat \<Rightarrow> ole_state \<Rightarrow> (HRESULT \<times> nat) option" where
  "SafeArrayGetIID psa st =
     (if psa = 0 then Some (E_INVALIDARG, 0)
      else do { a \<leftarrow> os_desc st psa;
                Some (if \<not> has (fFeatures a) FADF_HAVEIID then (E_INVALIDARG, 0) else (S_OK, load 16 (psa - 16) (mem st))) })"

text \<open>The record information is the pointer in front of the descriptor.\<close>

definition SafeArraySetRecordInfo :: "nat \<Rightarrow> nat \<Rightarrow> ole_state \<Rightarrow> (HRESULT \<times> ole_state) option" where
  "SafeArraySetRecordInfo psa pRinfo st =
     (if psa = 0 then Some (E_INVALIDARG, st)
      else do { a \<leftarrow> os_desc st psa;
                if \<not> has (fFeatures a) FADF_RECORD then Some (E_INVALIDARG, st)
                else (let st1 = (if pRinfo \<noteq> 0 then call (AddRef pRinfo) st else st);
                          old = load 8 (psa - 8) (mem st1);
                          st2 = (if old \<noteq> 0 then call (Release old) st1 else st1)
                      in Some (S_OK, put_mem (store 8 (psa - 8) pRinfo (mem st2)) st2)) })"

definition SafeArrayGetRecordInfo :: "nat \<Rightarrow> ole_state \<Rightarrow> (HRESULT \<times> nat \<times> ole_state) option" where
  "SafeArrayGetRecordInfo psa st =
     (if psa = 0 then Some (E_INVALIDARG, 0, st)
      else do { a \<leftarrow> os_desc st psa;
                if \<not> has (fFeatures a) FADF_RECORD then Some (E_INVALIDARG, 0, st)
                else (let p = load 8 (psa - 8) (mem st) in Some (S_OK, p, if p \<noteq> 0 then call (AddRef p) st else st)) })"

definition SafeArrayGetVartype :: "nat \<Rightarrow> ole_state \<Rightarrow> (HRESULT \<times> nat) option" where
  "SafeArrayGetVartype psa st =
     (if psa = 0 then Some (E_INVALIDARG, 0)
      else do { a \<leftarrow> os_desc st psa;
                Some (if has (fFeatures a) FADF_RECORD then (S_OK, VT_RECORD)
                      else if fFeatures a AND (FADF_HAVEIID OR FADF_DISPATCH) = FADF_HAVEIID OR FADF_DISPATCH then (S_OK, VT_DISPATCH)
                      else if has (fFeatures a) FADF_HAVEIID then (S_OK, VT_UNKNOWN)
                      else if has (fFeatures a) FADF_HAVEVARTYPE then (S_OK, SAFEARRAY_GetHiddenDWORD psa st mod 2 ^ 16)
                      else (E_INVALIDARG, 0)) })"

text \<open>The results of the calls on the id are not looked at.\<close>

definition SAFEARRAY_SetFeatures :: "nat \<Rightarrow> nat \<Rightarrow> ole_state \<Rightarrow> ole_state option" where
  "SAFEARRAY_SetFeatures vt psa st =
     do { a \<leftarrow> os_desc st psa;
          if vt = VT_DISPATCH then map_option snd (SafeArraySetIID psa IID_IDispatch (set_desc psa (a\<lparr>fFeatures := FADF_HAVEIID\<rparr>) st))
          else if vt = VT_UNKNOWN then map_option snd (SafeArraySetIID psa IID_IUnknown (set_desc psa (a\<lparr>fFeatures := FADF_HAVEIID\<rparr>) st))
          else if vt = VT_RECORD then Some (set_desc psa (a\<lparr>fFeatures := FADF_RECORD\<rparr>) st)
          else Some (SAFEARRAY_SetHiddenDWORD psa vt (set_desc psa (a\<lparr>fFeatures := FADF_HAVEVARTYPE\<rparr>) st)) }"

text \<open>The feature that \<open>SAFEARRAY_Create\<close> and \<open>SAFEARRAY_CreateVector\<close> add for the element type.\<close>

definition type_feature :: "nat \<Rightarrow> nat" where
  "type_feature vt = (if vt = VT_BSTR then FADF_BSTR else if vt = VT_UNKNOWN then FADF_UNKNOWN
     else if vt = VT_DISPATCH then FADF_DISPATCH else if vt = VT_VARIANT then FADF_VARIANT else 0)"

definition SafeArrayAllocDescriptor :: "ole \<Rightarrow> nat \<Rightarrow> ole_state \<Rightarrow> (HRESULT \<times> nat \<times> ole_state) option" where
  "SafeArrayAllocDescriptor ole dims st =
     (if dims = 0 \<or> dims \<ge> 0x10000 then Some (E_INVALIDARG, 0, st)
      else do { (hr, psa, st1) \<leftarrow> SAFEARRAY_AllocDescriptor ole dims (sizeof_SAFEARRAY + sizeof_SAFEARRAYBOUND * (dims - 1)) st;
                if \<not> SUCCEEDED hr then Some (hr, 0, st1)
                else do { a \<leftarrow> os_desc st1 psa; Some (S_OK, psa, set_desc psa (a\<lparr>cDims := dims\<rparr>) st1) } })"

definition SafeArrayAllocDescriptorEx :: "ole \<Rightarrow> nat \<Rightarrow> nat \<Rightarrow> ole_state \<Rightarrow> (HRESULT \<times> nat \<times> ole_state) option" where
  "SafeArrayAllocDescriptorEx ole vt dims st =
     do { (hr, psa, st1) \<leftarrow> SafeArrayAllocDescriptor ole dims st;
          if SUCCEEDED hr
          then do { st2 \<leftarrow> SAFEARRAY_SetFeatures vt psa st1; a \<leftarrow> os_desc st2 psa;
                    Some (hr, psa, set_desc psa (a\<lparr>cbElements := SAFEARRAY_GetVTSize vt\<rparr>) st2) }
          else Some (hr, psa, st1) }"

definition SafeArrayAllocData :: "ole \<Rightarrow> nat \<Rightarrow> ole_state \<Rightarrow> (HRESULT \<times> ole_state) option" where
  "SafeArrayAllocData ole psa st =
     (if psa = 0 then Some (E_INVALIDARG, st)
      else do { a \<leftarrow> os_desc st psa;
                (p, st1) \<leftarrow> SAFEARRAY_Malloc ole (dword (SAFEARRAY_GetCellCount a * cbElements a)) st;
                Some (if p \<noteq> 0 then S_OK else E_OUTOFMEMORY, set_desc psa (a\<lparr>pvData := p\<rparr>) st1) })"

section \<open>Elements\<close>

text \<open>The loops over the elements of an array, from an address on.\<close>

fun release_cells :: "nat \<Rightarrow> nat \<Rightarrow> ole_state \<Rightarrow> ole_state" where
  "release_cells 0 p st = st"
| "release_cells (Suc n) p st =
     (let unk = load 8 p (mem st) in release_cells n (p + 8) (if unk \<noteq> 0 then call (Release unk) st else st))"

fun clear_records :: "ole \<Rightarrow> nat \<Rightarrow> nat \<Rightarrow> nat \<Rightarrow> nat \<Rightarrow> ole_state \<Rightarrow> ole_state" where
  "clear_records ole ri cb 0 p st = st"
| "clear_records ole ri cb (Suc n) p st = clear_records ole ri cb n (p + cb) (ole_RecordClear ole ri p st)"

fun free_strings :: "nat \<Rightarrow> nat \<Rightarrow> ole_state \<Rightarrow> ole_state option" where
  "free_strings 0 p st = Some st"
| "free_strings (Suc n) p st = do { st1 \<leftarrow> SysFreeString (load 8 p (mem st)) st; free_strings n (p + 8) st1 }"

fun clear_variants :: "ole \<Rightarrow> nat \<Rightarrow> nat \<Rightarrow> ole_state \<Rightarrow> ole_state option" where
  "clear_variants ole 0 p st = Some st"
| "clear_variants ole (Suc n) p st = do { st1 \<leftarrow> ole_VariantClear ole p st; clear_variants ole n (p + 24) st1 }"

text \<open>
  Records are cleared from the start of the data whatever the first cell is, and through a null
  record information when there is none.
\<close>

definition SAFEARRAY_DestroyData :: "ole \<Rightarrow> nat \<Rightarrow> nat \<Rightarrow> ole_state \<Rightarrow> (HRESULT \<times> ole_state) option" where
  "SAFEARRAY_DestroyData ole psa ulStartCell st =
     do { a \<leftarrow> os_desc st psa;
          if pvData a \<noteq> 0 \<and> \<not> has (fFeatures a) FADF_DATADELETED
          then (if ulStartCell > SAFEARRAY_GetCellCount a then Some (E_UNEXPECTED, st)
                else
                  (let n = SAFEARRAY_GetCellCount a - ulStartCell
                   in if has (fFeatures a) (FADF_UNKNOWN OR FADF_DISPATCH)
                      then Some (S_OK, release_cells n (pvData a + 8 * ulStartCell) st)
                      else if has (fFeatures a) FADF_RECORD
                      then do { (hr, ri, st1) \<leftarrow> SafeArrayGetRecordInfo psa st;
                                if SUCCEEDED hr
                                then (if ri = 0 then None
                                      else Some (S_OK, call (Release ri) (clear_records ole ri (cbElements a) n (pvData a) st1)))
                                else Some (S_OK, st1) }
                      else if has (fFeatures a) FADF_BSTR
                      then do { st1 \<leftarrow> free_strings n (pvData a + 8 * ulStartCell) st; Some (S_OK, st1) }
                      else if has (fFeatures a) FADF_VARIANT
                      then do { st1 \<leftarrow> clear_variants ole n (pvData a + 24 * ulStartCell) st; Some (S_OK, st1) }
                      else Some (S_OK, st)))
          else Some (S_OK, st) }"

fun copy_variants :: "ole \<Rightarrow> nat \<Rightarrow> nat \<Rightarrow> nat \<Rightarrow> ole_state \<Rightarrow> ole_state option" where
  "copy_variants ole 0 d s st = Some st"
| "copy_variants ole (Suc n) d s st = do { (hr, st1) \<leftarrow> ole_VariantCopy ole d s st; copy_variants ole n (d + 24) (s + 24) st1 }"

fun copy_strings :: "ole \<Rightarrow> nat \<Rightarrow> nat \<Rightarrow> nat \<Rightarrow> ole_state \<Rightarrow> (HRESULT \<times> ole_state) option" where
  "copy_strings ole 0 d s st = Some (S_OK, st)"
| "copy_strings ole (Suc n) d s st =
     do { st1 \<leftarrow> SysFreeString (load 8 d (mem st)) st;
          let src = load 8 s (mem st1);
          if src \<noteq> 0
          then (let (p, st2) = SysAllocStringCopy ole src st1; st3 = put_mem (store 8 d p (mem st2)) st2
                in if p = 0 then Some (E_OUTOFMEMORY, st3) else copy_strings ole n (d + 8) (s + 8) st3)
          else copy_strings ole n (d + 8) (s + 8) (put_mem (store 8 d 0 (mem st1)) st1) }"

fun copy_records :: "ole \<Rightarrow> nat \<Rightarrow> nat \<Rightarrow> nat \<Rightarrow> nat \<Rightarrow> nat \<Rightarrow> HRESULT \<Rightarrow> ole_state \<Rightarrow> HRESULT \<times> ole_state" where
  "copy_records ole ri cb 0 d s hr st = (hr, st)"
| "copy_records ole ri cb (Suc n) d s hr st =
     (let (hr1, st1) = ole_RecordCopy ole ri s d st
      in if \<not> SUCCEEDED hr1 then (hr1, st1) else copy_records ole ri cb n (d + cb) (s + cb) hr1 st1)"

fun copy_interfaces :: "nat \<Rightarrow> nat \<Rightarrow> nat \<Rightarrow> ole_state \<Rightarrow> ole_state" where
  "copy_interfaces 0 d s st = st"
| "copy_interfaces (Suc n) d s st =
     (let old = load 8 d (mem st); st1 = (if old \<noteq> 0 then call (Release old) st else st);
          new = load 8 s (mem st1); st2 = put_mem (store 8 d new (mem st1)) st1;
          st3 = (if load 8 d (mem st2) \<noteq> 0 then call (AddRef (load 8 d (mem st2))) st2 else st2)
      in copy_interfaces n (d + 8) (s + 8) st3)"

text \<open>What follows the copy of the elements: the id or the type in front of the descriptor.\<close>

definition copy_hidden :: "nat \<Rightarrow> nat \<Rightarrow> ole_state \<Rightarrow> ole_state option" where
  "copy_hidden psa dest st =
     do { a \<leftarrow> os_desc st psa;
          if has (fFeatures a) FADF_HAVEIID
          then do { (hr, guid) \<leftarrow> SafeArrayGetIID psa st; map_option snd (SafeArraySetIID dest guid st) }
          else if has (fFeatures a) FADF_HAVEVARTYPE
          then Some (SAFEARRAY_SetHiddenDWORD dest (SAFEARRAY_GetHiddenDWORD psa st) st)
          else Some st }"

definition copy_cells :: "ole \<Rightarrow> nat \<Rightarrow> nat \<Rightarrow> SAFEARRAY \<Rightarrow> SAFEARRAY \<Rightarrow> ole_state \<Rightarrow> (HRESULT \<times> ole_state) option" where
  "copy_cells ole psa dest a d st =
     (let n = SAFEARRAY_GetCellCount a
      in if has (fFeatures a) FADF_VARIANT
         then do { st1 \<leftarrow> copy_variants ole n (pvData d) (pvData a) st; Some (S_OK, st1) }
         else if has (fFeatures a) FADF_BSTR then copy_strings ole n (pvData d) (pvData a) st
         else if has (fFeatures a) FADF_RECORD
         then do { (_, ri, st1) \<leftarrow> SafeArrayGetRecordInfo psa st;
                   if ri = 0 then None
                   else (let (hr, st2) = copy_records ole ri (cbElements a) n (pvData d) (pvData a) S_OK st1
                         in do { (_, st3) \<leftarrow> SafeArraySetRecordInfo dest ri st2; d3 \<leftarrow> os_desc st3 dest;
                                 Some (hr, call (Release ri) (set_desc dest (d3\<lparr>cbElements := cbElements a\<rparr>) st3)) }) }
         else if has (fFeatures a) (FADF_UNKNOWN OR FADF_DISPATCH)
         then Some (S_OK, copy_interfaces n (pvData d) (pvData a) st)
         else Some (S_OK, put_mem (memcpy (pvData d) (pvData a) (dword (n * cbElements a)) (mem st)) st))"

text \<open>Running out of memory on a string returns at once; every other failure still copies the hidden data.\<close>

definition SAFEARRAY_CopyData :: "ole \<Rightarrow> nat \<Rightarrow> nat \<Rightarrow> ole_state \<Rightarrow> (HRESULT \<times> ole_state) option" where
  "SAFEARRAY_CopyData ole psa dest st =
     do { a \<leftarrow> os_desc st psa;
          if pvData a = 0 then Some (S_OK, st)
          else do {
            d \<leftarrow> os_desc st dest;
            if pvData d = 0 \<or> has (fFeatures a) FADF_DATADELETED then Some (E_INVALIDARG, st)
            else (let st1 = set_desc dest (d\<lparr>fFeatures := (fFeatures d AND FADF_CREATEVECTOR) OR without (fFeatures a) ignored_copy_features\<rparr>) st
                  in do { a1 \<leftarrow> os_desc st1 psa; (hr, st2) \<leftarrow> copy_cells ole psa dest a1 d st1;
                          if has (fFeatures a1) FADF_BSTR \<and> \<not> has (fFeatures a1) FADF_VARIANT \<and> \<not> SUCCEEDED hr then Some (hr, st2)
                          else do { st3 \<leftarrow> copy_hidden psa dest st2; Some (hr, st3) } }) } }"

end
