(* ===== verification/Safearray_Api.thy ===== *)
theory Safearray_Api
  imports Safearray_Model
begin

text \<open>
  Safe arrays, continued: creation and destruction, locks, indexing, access to elements, copying,
  resizing, and the conversions between strings and byte vectors.
\<close>

section \<open>Locks\<close>

definition SafeArrayLock :: "nat \<Rightarrow> ole_state \<Rightarrow> (HRESULT \<times> ole_state) option" where
  "SafeArrayLock psa st =
     (if psa = 0 then Some (E_INVALIDARG, st)
      else do { a \<leftarrow> os_desc st psa;
                let l = wrap32 (cLocks a + 1);
                Some (if ulong l > 0xffff then (E_UNEXPECTED, set_desc psa (a\<lparr>cLocks := wrap32 (l - 1)\<rparr>) st)
                      else (S_OK, set_desc psa (a\<lparr>cLocks := l\<rparr>) st)) })"

definition SafeArrayUnlock :: "nat \<Rightarrow> ole_state \<Rightarrow> (HRESULT \<times> ole_state) option" where
  "SafeArrayUnlock psa st =
     (if psa = 0 then Some (E_INVALIDARG, st)
      else do { a \<leftarrow> os_desc st psa;
                let l = wrap32 (cLocks a - 1);
                Some (if l < 0 then (E_UNEXPECTED, set_desc psa (a\<lparr>cLocks := wrap32 (l + 1)\<rparr>) st)
                      else (S_OK, set_desc psa (a\<lparr>cLocks := l\<rparr>) st)) })"

definition SafeArrayAccessData :: "nat \<Rightarrow> ole_state \<Rightarrow> (HRESULT \<times> nat \<times> ole_state) option" where
  "SafeArrayAccessData psa st =
     (if psa = 0 then Some (E_INVALIDARG, 0, st)
      else do { (hr, st1) \<leftarrow> SafeArrayLock psa st; a \<leftarrow> os_desc st1 psa;
                Some (hr, if SUCCEEDED hr then pvData a else 0, st1) })"

definition SafeArrayUnaccessData :: "nat \<Rightarrow> ole_state \<Rightarrow> (HRESULT \<times> ole_state) option" where
  "SafeArrayUnaccessData = SafeArrayUnlock"

section \<open>Destruction\<close>

definition SafeArrayDestroyDescriptor :: "ole \<Rightarrow> nat \<Rightarrow> ole_state \<Rightarrow> (HRESULT \<times> ole_state) option" where
  "SafeArrayDestroyDescriptor ole psa st =
     (if psa = 0 then Some (S_OK, st)
      else do {
        a \<leftarrow> os_desc st psa;
        if cLocks a \<noteq> 0 then Some (DISP_E_ARRAYISLOCKED, st)
        else do {
          st1 \<leftarrow> (if has (fFeatures a) FADF_RECORD then map_option snd (SafeArraySetRecordInfo psa 0 st) else Some st);
          st2 \<leftarrow> (if has (fFeatures a) FADF_CREATEVECTOR \<and> \<not> has (fFeatures a) FADF_DATADELETED
                  then map_option snd (SAFEARRAY_DestroyData ole psa 0 st1) else Some st1);
          Some (S_OK, (SAFEARRAY_Free (psa - SAFEARRAY_HIDDEN_SIZE) st2)\<lparr>os_desc := (os_desc st2)(psa := None)\<rparr>) } })"

definition SafeArrayDestroyData :: "ole \<Rightarrow> nat \<Rightarrow> ole_state \<Rightarrow> (HRESULT \<times> ole_state) option" where
  "SafeArrayDestroyData ole psa st =
     (if psa = 0 then Some (E_INVALIDARG, st)
      else do {
        a \<leftarrow> os_desc st psa;
        if cLocks a \<noteq> 0 then Some (DISP_E_ARRAYISLOCKED, st)
        else do {
          (hr, st1) \<leftarrow> SAFEARRAY_DestroyData ole psa 0 st;
          if \<not> SUCCEEDED hr then Some (hr, st1)
          else do {
            b \<leftarrow> os_desc st1 psa;
            Some (S_OK,
              if pvData b = 0 then st1
              else if has (fFeatures b) FADF_STATIC
              then put_mem (memset (pvData b) 0 (dword (SAFEARRAY_GetCellCount b * cbElements b)) (mem st1)) st1
              else if \<not> has (fFeatures b) FADF_CREATEVECTOR
              then set_desc psa (b\<lparr>pvData := 0\<rparr>) (SAFEARRAY_Free (pvData b) st1)
              else set_desc psa (b\<lparr>fFeatures := fFeatures b OR FADF_DATADELETED\<rparr>) st1) } } })"

definition SafeArrayDestroy :: "ole \<Rightarrow> nat \<Rightarrow> ole_state \<Rightarrow> (HRESULT \<times> ole_state) option" where
  "SafeArrayDestroy ole psa st =
     (if psa = 0 then Some (S_OK, st)
      else do {
        a \<leftarrow> os_desc st psa;
        if cLocks a > 0 then Some (DISP_E_ARRAYISLOCKED, st)
        else do {
          (_, st1) \<leftarrow> SafeArrayDestroyData ole psa st;
          (_, st2) \<leftarrow> SafeArrayDestroyDescriptor ole psa st1;
          Some (S_OK, st2) } })"

section \<open>Creation\<close>

text \<open>Bounds are kept in the reverse of the order the caller gives them in. \<open>bounds\<close> is null or the array read.\<close>

definition SAFEARRAY_Create :: "ole \<Rightarrow> nat \<Rightarrow> nat \<Rightarrow> SAFEARRAYBOUND list option \<Rightarrow> nat \<Rightarrow> ole_state \<Rightarrow> (nat \<times> ole_state) option" where
  "SAFEARRAY_Create ole vt dims bounds ulSize st =
     (case bounds of
        None \<Rightarrow> Some (0, st)
      | Some bs \<Rightarrow> do {
          (hr, psa, st1) \<leftarrow> SafeArrayAllocDescriptorEx ole vt dims st;
          if \<not> SUCCEEDED hr then Some (0, st1)
          else do {
            a \<leftarrow> os_desc st1 psa;
            let a1 = a\<lparr>fFeatures := fFeatures a OR type_feature vt, rgsabound := rev (take dims bs),
                        cbElements := (if ulSize \<noteq> 0 then ulSize else cbElements a)\<rparr>;
            let st2 = set_desc psa a1 st1;
            (ok, st3) \<leftarrow> (if cbElements a1 = 0 then Some (False, st2)
                          else do { (hr2, s) \<leftarrow> SafeArrayAllocData ole psa st2; Some (SUCCEEDED hr2, s) });
            if ok then Some (psa, st3)
            else do { (_, st4) \<leftarrow> SafeArrayDestroyDescriptor ole psa st3; Some (0, st4) } } })"

definition SAFEARRAY_CreateVector :: "ole \<Rightarrow> nat \<Rightarrow> int \<Rightarrow> nat \<Rightarrow> nat \<Rightarrow> ole_state \<Rightarrow> (nat \<times> ole_state) option" where
  "SAFEARRAY_CreateVector ole vt lb elements ulSize st =
     (if ulSize \<noteq> 0 \<or> vt = VT_RECORD
      then do {
        (hr, psa, st1) \<leftarrow> SAFEARRAY_AllocDescriptor ole 1 (dword (sizeof_SAFEARRAY + dword (ulSize * elements))) st;
        if \<not> SUCCEEDED hr then Some (0, st1)
        else do {
          st2 \<leftarrow> SAFEARRAY_SetFeatures vt psa st1;
          a \<leftarrow> os_desc st2 psa;
          Some (psa, set_desc psa
            (a\<lparr>cDims := 1, fFeatures := (fFeatures a OR FADF_CREATEVECTOR) OR type_feature vt, pvData := psa + sizeof_SAFEARRAY,
               cbElements := ulSize, rgsabound := [\<lparr>cElements = elements, lLbound = lb\<rparr>]\<rparr>) st2) } }
      else Some (0, st))"

definition SafeArrayCreate :: "ole \<Rightarrow> nat \<Rightarrow> nat \<Rightarrow> SAFEARRAYBOUND list option \<Rightarrow> ole_state \<Rightarrow> (nat \<times> ole_state) option" where
  "SafeArrayCreate ole vt dims bounds st = (if vt = VT_RECORD then Some (0, st) else SAFEARRAY_Create ole vt dims bounds 0 st)"

text \<open>The end of the two extended calls: the record information, or the id read through the extra pointer.\<close>

definition set_extra :: "nat \<Rightarrow> nat \<Rightarrow> nat \<Rightarrow> ole_state \<Rightarrow> (nat \<times> ole_state) option" where
  "set_extra vt pvExtra psa st =
     (if pvExtra = 0 then Some (psa, st)
      else if vt = VT_RECORD then do { (_, st1) \<leftarrow> SafeArraySetRecordInfo psa pvExtra st; Some (psa, st1) }
      else if vt = VT_UNKNOWN \<or> vt = VT_DISPATCH
      then do { (_, st1) \<leftarrow> SafeArraySetIID psa (load 16 pvExtra (mem st)) st; Some (psa, st1) }
      else Some (psa, st))"

definition SafeArrayCreateEx :: "ole \<Rightarrow> nat \<Rightarrow> nat \<Rightarrow> SAFEARRAYBOUND list option \<Rightarrow> nat \<Rightarrow> ole_state \<Rightarrow> (nat \<times> ole_state) option" where
  "SafeArrayCreateEx ole vt dims bounds pvExtra st =
     (if vt = VT_RECORD \<and> pvExtra = 0 then Some (0, st)
      else do { (psa, st1) \<leftarrow> SAFEARRAY_Create ole vt dims bounds (if vt = VT_RECORD then ole_GetSize ole pvExtra else 0) st;
                set_extra vt pvExtra psa st1 })"

definition SafeArrayCreateVector :: "ole \<Rightarrow> nat \<Rightarrow> int \<Rightarrow> nat \<Rightarrow> ole_state \<Rightarrow> (nat \<times> ole_state) option" where
  "SafeArrayCreateVector ole vt lb elements st =
     (if vt = VT_RECORD then Some (0, st) else SAFEARRAY_CreateVector ole vt lb elements (SAFEARRAY_GetVTSize vt) st)"

definition SafeArrayCreateVectorEx :: "ole \<Rightarrow> nat \<Rightarrow> int \<Rightarrow> nat \<Rightarrow> nat \<Rightarrow> ole_state \<Rightarrow> (nat \<times> ole_state) option" where
  "SafeArrayCreateVectorEx ole vt lb elements pvExtra st =
     (if vt = VT_RECORD \<and> pvExtra = 0 then Some (0, st)
      else do { (psa, st1) \<leftarrow> SAFEARRAY_CreateVector ole vt lb elements
                  (if vt = VT_RECORD then ole_GetSize ole pvExtra else SAFEARRAY_GetVTSize vt) st;
                set_extra vt pvExtra psa st1 })"

section \<open>Bounds and elements\<close>

definition SafeArrayGetUBound :: "nat \<Rightarrow> nat \<Rightarrow> ole_state \<Rightarrow> (HRESULT \<times> int) option" where
  "SafeArrayGetUBound psa nDim st =
     (if psa = 0 then Some (E_INVALIDARG, 0)
      else do { a \<leftarrow> os_desc st psa;
                Some (if nDim = 0 \<or> nDim > cDims a then (DISP_E_BADINDEX, 0)
                      else (let b = rgsabound a ! (cDims a - nDim) in (S_OK, wrap32 (lLbound b + int (cElements b) - 1)))) })"

definition SafeArrayGetLBound :: "nat \<Rightarrow> nat \<Rightarrow> ole_state \<Rightarrow> (HRESULT \<times> int) option" where
  "SafeArrayGetLBound psa nDim st =
     (if psa = 0 then Some (E_INVALIDARG, 0)
      else do { a \<leftarrow> os_desc st psa;
                Some (if nDim = 0 \<or> nDim > cDims a then (DISP_E_BADINDEX, 0)
                      else (S_OK, lLbound (rgsabound a ! (cDims a - nDim)))) })"

definition SafeArrayGetDim :: "nat \<Rightarrow> ole_state \<Rightarrow> nat option" where
  "SafeArrayGetDim psa st = (if psa = 0 then Some 0 else map_option cDims (os_desc st psa))"

definition SafeArrayGetElemsize :: "nat \<Rightarrow> ole_state \<Rightarrow> nat option" where
  "SafeArrayGetElemsize psa st = (if psa = 0 then Some 0 else map_option cbElements (os_desc st psa))"

text \<open>An index is inside its dimension; the upper end is a \<^verbatim>\<open>LONG\<close> sum.\<close>

definition out_of_bounds :: "SAFEARRAYBOUND \<Rightarrow> int \<Rightarrow> bool" where
  "out_of_bounds b i \<longleftrightarrow> i < lLbound b \<or> i \<ge> wrap32 (lLbound b + wrap32 (int (cElements b)))"

text \<open>
  The loop over the dimensions after the first index: \<open>bs\<close> are the bounds from the last one
  downwards, \<open>dim\<close> the cells of the dimensions before, \<open>prev\<close> the bound just passed.
\<close>

fun cell_loop :: "SAFEARRAYBOUND \<Rightarrow> SAFEARRAYBOUND list \<Rightarrow> int list \<Rightarrow> nat \<Rightarrow> nat \<Rightarrow> nat option" where
  "cell_loop prev [] is dim cell = Some cell"
| "cell_loop prev (b # bs) [] dim cell = None"
| "cell_loop prev (b # bs) (i # is) dim cell =
     (let dim1 = dword (dim * cElements prev)
      in if cElements b = 0 \<or> out_of_bounds b i then None
         else cell_loop b bs is dim1 (dword (cell + dword (ulong (i - lLbound b) * dim1))))"

definition ptr_of_index :: "SAFEARRAY \<Rightarrow> int list \<Rightarrow> nat option" where
  "ptr_of_index a is =
     (case rev (take (cDims a) (rgsabound a)) of
        [] \<Rightarrow> None
      | b # bs \<Rightarrow>
          (case is of
             [] \<Rightarrow> None
           | c1 # is1 \<Rightarrow>
               if out_of_bounds b c1 then None
               else (case cell_loop b bs is1 1 0 of
                       None \<Rightarrow> None
                     | Some cell \<Rightarrow> Some (pvData a + dword (dword (cell + ulong (c1 - lLbound b)) * cbElements a)))))"

text \<open>\<open>rgIndices\<close> is null or at least as many indices as the array has dimensions.\<close>

definition SafeArrayPtrOfIndex :: "nat \<Rightarrow> int list option \<Rightarrow> ole_state \<Rightarrow> (HRESULT \<times> nat) option" where
  "SafeArrayPtrOfIndex psa rgIndices st =
     (case rgIndices of
        None \<Rightarrow> Some (E_INVALIDARG, 0)
      | Some is \<Rightarrow>
          if psa = 0 then Some (E_INVALIDARG, 0)
          else do { a \<leftarrow> os_desc st psa;
                    if cDims a = 0 \<or> length is < cDims a then None
                    else Some (case ptr_of_index a is of None \<Rightarrow> (DISP_E_BADINDEX, 0) | Some p \<Rightarrow> (S_OK, p)) })"

text \<open>The element types of \<open>SafeArrayPutElement\<close>: \<open>pv\<close> is the data, or for a string or an interface the thing itself. Data that is gone is a null pointer.\<close>

definition put_cell :: "ole \<Rightarrow> nat \<Rightarrow> SAFEARRAY \<Rightarrow> nat \<Rightarrow> nat \<Rightarrow> ole_state \<Rightarrow> (HRESULT \<times> ole_state) option" where
  "put_cell ole psa a dest pv st =
     (if pvData a = 0 \<and> cbElements a \<noteq> 0 then None
      else if has (fFeatures a) FADF_VARIANT then ole_VariantCopy ole dest pv st
      else if has (fFeatures a) FADF_BSTR
      then do { st1 \<leftarrow> SysFreeString (load 8 dest (mem st)) st;
                let (p, st2) = SysAllocStringCopy ole pv st1;
                Some (if p = 0 then E_OUTOFMEMORY else S_OK, put_mem (store 8 dest p (mem st2)) st2) }
      else if has (fFeatures a) (FADF_UNKNOWN OR FADF_DISPATCH)
      then (let st1 = (if pv \<noteq> 0 then call (AddRef pv) st else st); old = load 8 dest (mem st1);
                st2 = (if old \<noteq> 0 then call (Release old) st1 else st1)
            in Some (S_OK, put_mem (store 8 dest pv (mem st2)) st2))
      else if has (fFeatures a) FADF_RECORD
      then do { (_, ri, st1) \<leftarrow> SafeArrayGetRecordInfo psa st;
                if ri = 0 then None else (let (hr, st2) = ole_RecordCopy ole ri pv dest st1 in Some (hr, call (Release ri) st2)) }
      else Some (S_OK, put_mem (memcpy dest pv (cbElements a) (mem st)) st))"

definition SafeArrayPutElement :: "ole \<Rightarrow> nat \<Rightarrow> int list option \<Rightarrow> nat \<Rightarrow> ole_state \<Rightarrow> (HRESULT \<times> ole_state) option" where
  "SafeArrayPutElement ole psa rgIndices pv st =
     (if psa = 0 \<or> rgIndices = None then Some (E_INVALIDARG, st)
      else do {
        (hr, st1) \<leftarrow> SafeArrayLock psa st;
        if \<not> SUCCEEDED hr then Some (hr, st1)
        else do {
          (hr2, dest) \<leftarrow> SafeArrayPtrOfIndex psa rgIndices st1;
          (hr3, st2) \<leftarrow> (if SUCCEEDED hr2 then do { a \<leftarrow> os_desc st1 psa; put_cell ole psa a dest pv st1 } else Some (hr2, st1));
          (_, st3) \<leftarrow> SafeArrayUnlock psa st2;
          Some (hr3, st3) } })"

definition get_cell :: "ole \<Rightarrow> nat \<Rightarrow> SAFEARRAY \<Rightarrow> nat \<Rightarrow> nat \<Rightarrow> ole_state \<Rightarrow> (HRESULT \<times> ole_state) option" where
  "get_cell ole psa a src pv st =
     (if pvData a = 0 \<and> cbElements a \<noteq> 0 then None
      else if has (fFeatures a) FADF_VARIANT then ole_VariantCopy ole pv src (put_mem (store 2 pv 0 (mem st)) st)
      else if has (fFeatures a) FADF_BSTR
      then (let b = load 8 src (mem st)
            in if b \<noteq> 0
               then (let (p, st1) = SysAllocStringCopy ole b st
                     in Some (if p = 0 then E_OUTOFMEMORY else S_OK, put_mem (store 8 pv p (mem st1)) st1))
               else Some (S_OK, put_mem (store 8 pv 0 (mem st)) st))
      else if has (fFeatures a) (FADF_UNKNOWN OR FADF_DISPATCH)
      then (let unk = load 8 src (mem st); st1 = (if unk \<noteq> 0 then call (AddRef unk) st else st)
            in Some (S_OK, put_mem (store 8 pv (load 8 src (mem st1)) (mem st1)) st1))
      else if has (fFeatures a) FADF_RECORD
      then do { (_, ri, st1) \<leftarrow> SafeArrayGetRecordInfo psa st;
                if ri = 0 then None else (let (hr, st2) = ole_RecordCopy ole ri src pv st1 in Some (hr, call (Release ri) st2)) }
      else Some (S_OK, put_mem (memcpy pv src (cbElements a) (mem st)) st))"

definition SafeArrayGetElement :: "ole \<Rightarrow> nat \<Rightarrow> int list option \<Rightarrow> nat \<Rightarrow> ole_state \<Rightarrow> (HRESULT \<times> ole_state) option" where
  "SafeArrayGetElement ole psa rgIndices pv st =
     (if psa = 0 \<or> rgIndices = None \<or> pv = 0 then Some (E_INVALIDARG, st)
      else do {
        (hr, st1) \<leftarrow> SafeArrayLock psa st;
        if \<not> SUCCEEDED hr then Some (hr, st1)
        else do {
          (hr2, src) \<leftarrow> SafeArrayPtrOfIndex psa rgIndices st1;
          (hr3, st2) \<leftarrow> (if SUCCEEDED hr2 then do { a \<leftarrow> os_desc st1 psa; get_cell ole psa a src pv st1 } else Some (hr2, st1));
          (_, st3) \<leftarrow> SafeArrayUnlock psa st2;
          Some (hr3, st3) } })"

section \<open>Copying and resizing\<close>

text \<open>The two arrays have the same dimensions, cells of one size and as many of them.\<close>

definition same_shape :: "SAFEARRAY \<Rightarrow> SAFEARRAY \<Rightarrow> bool" where
  "same_shape a d \<longleftrightarrow> cDims a = cDims d \<and> cbElements a = cbElements d
     \<and> (\<forall>i \<in> set [0..<cDims a]. cElements (rgsabound a ! i) = cElements (rgsabound d ! i))"

definition SafeArrayCopyData :: "ole \<Rightarrow> nat \<Rightarrow> nat \<Rightarrow> ole_state \<Rightarrow> (HRESULT \<times> ole_state) option" where
  "SafeArrayCopyData ole psaSource psaTarget st =
     (if psaSource = 0 \<or> psaTarget = 0 then Some (E_INVALIDARG, st)
      else do { a \<leftarrow> os_desc st psaSource; d \<leftarrow> os_desc st psaTarget;
                if \<not> same_shape a d then Some (E_INVALIDARG, st) else SAFEARRAY_CopyData ole psaSource psaTarget st })"

text \<open>A descriptor for the copy: of the type of the array when it has one, else with its features.\<close>

definition copy_descriptor :: "ole \<Rightarrow> nat \<Rightarrow> SAFEARRAY \<Rightarrow> ole_state \<Rightarrow> (HRESULT \<times> nat \<times> ole_state) option" where
  "copy_descriptor ole psa a st =
     (if has (fFeatures a) (FADF_RECORD OR FADF_HAVEIID OR FADF_HAVEVARTYPE)
      then do { (hr, vt) \<leftarrow> SafeArrayGetVartype psa st;
                if SUCCEEDED hr then SafeArrayAllocDescriptorEx ole vt (cDims a) st else Some (hr, 0, st) }
      else do { (hr, out, st1) \<leftarrow> SafeArrayAllocDescriptor ole (cDims a) st;
                if SUCCEEDED hr
                then do { d \<leftarrow> os_desc st1 out;
                          Some (hr, out, set_desc out (d\<lparr>fFeatures := without (fFeatures a) ignored_copy_features, cbElements := cbElements a\<rparr>) st1) }
                else Some (hr, out, st1) })"

definition SafeArrayCopy :: "ole \<Rightarrow> nat \<Rightarrow> ole_state \<Rightarrow> (HRESULT \<times> nat \<times> ole_state) option" where
  "SafeArrayCopy ole psa st =
     (if psa = 0 then Some (S_OK, 0, st)
      else do {
        a \<leftarrow> os_desc st psa;
        if cbElements a = 0 then Some (E_INVALIDARG, 0, st)
        else do {
          (hr, out, st1) \<leftarrow> copy_descriptor ole psa a st;
          if \<not> SUCCEEDED hr then Some (hr, out, st1)
          else do {
            d \<leftarrow> os_desc st1 out;
            let d1 = d\<lparr>rgsabound := take (cDims a) (rgsabound a)\<rparr>;
            (p, st2) \<leftarrow> SAFEARRAY_Malloc ole (dword (SAFEARRAY_GetCellCount a * cbElements a)) (set_desc out d1 st1);
            let st3 = set_desc out (d1\<lparr>pvData := p\<rparr>) st2;
            if p = 0 then do { (_, st4) \<leftarrow> SafeArrayDestroyDescriptor ole out st3; Some (E_OUTOFMEMORY, 0, st4) }
            else do {
              (hr2, st4) \<leftarrow> SAFEARRAY_CopyData ole psa out st3;
              if \<not> SUCCEEDED hr2
              then do { d4 \<leftarrow> os_desc st4 out;
                        (_, st5) \<leftarrow> SafeArrayDestroyDescriptor ole out (SAFEARRAY_Free (pvData d4) st4);
                        Some (hr2, 0, st5) }
              else Some (hr2, out, st4) } } } })"

text \<open>The last dimension is the first bound. Shortening destroys the cells behind the new end, lengthening moves the data.\<close>

definition redim_shorten :: "ole \<Rightarrow> nat \<Rightarrow> SAFEARRAYBOUND \<Rightarrow> SAFEARRAY \<Rightarrow> ole_state \<Rightarrow> ole_state option" where
  "redim_shorten ole psa nb a st =
     map_option snd (SAFEARRAY_DestroyData ole psa
       (dword (cElements nb * (SAFEARRAY_GetCellCount a div cElements (hd (rgsabound a))))) st)"

definition redim_lengthen :: "ole \<Rightarrow> nat \<Rightarrow> SAFEARRAYBOUND \<Rightarrow> SAFEARRAY \<Rightarrow> ole_state \<Rightarrow> (bool \<times> ole_state) option" where
  "redim_lengthen ole psa nb a st =
     (let ulOldSize = dword (SAFEARRAY_GetCellCount a * cbElements a);
          old = hd (rgsabound a);
          ulNewSize = (if ulOldSize \<noteq> 0 then dword (ulOldSize div cElements old * cElements nb)
                       else dword (SAFEARRAY_GetCellCount (a\<lparr>rgsabound := (rgsabound a)[0 := old\<lparr>cElements := cElements nb\<rparr>]\<rparr>) * cbElements a))
      in do {
        (p, st1) \<leftarrow> SAFEARRAY_Malloc ole ulNewSize st;
        if p = 0 then Some (False, st1)
        else if pvData a = 0 \<and> ulOldSize \<noteq> 0 then None
        else (let st2 = put_mem (memcpy p (pvData a) ulOldSize (mem st1)) st1
              in Some (True, set_desc psa (a\<lparr>pvData := p\<rparr>) (SAFEARRAY_Free (pvData a) st2))) })"

definition SafeArrayRedim :: "ole \<Rightarrow> nat \<Rightarrow> SAFEARRAYBOUND option \<Rightarrow> ole_state \<Rightarrow> (HRESULT \<times> ole_state) option" where
  "SafeArrayRedim ole psa psabound st =
     (if psa = 0 then Some (E_INVALIDARG, st)
      else do {
        a0 \<leftarrow> os_desc st psa;
        case psabound of
          None \<Rightarrow> Some (E_INVALIDARG, st)
        | Some nb \<Rightarrow>
            if has (fFeatures a0) FADF_FIXEDSIZE then Some (E_INVALIDARG, st)
            else if cLocks a0 > 0 then Some (DISP_E_ARRAYISLOCKED, st)
            else do {
              (hr, st1) \<leftarrow> SafeArrayLock psa st;
              if \<not> SUCCEEDED hr then Some (hr, st1)
              else do {
                a1 \<leftarrow> os_desc st1 psa;
                let old = hd (rgsabound a1);
                let a = a1\<lparr>rgsabound := (rgsabound a1)[0 := old\<lparr>lLbound := lLbound nb\<rparr>]\<rparr>;
                let st2 = set_desc psa a st1;
                (ok, st3) \<leftarrow> (if cElements nb = cElements old then Some (True, st2)
                              else if cElements nb < cElements old
                              then do { s \<leftarrow> redim_shorten ole psa nb a st2; Some (True, s) }
                              else redim_lengthen ole psa nb a st2);
                if \<not> ok then do { (_, st4) \<leftarrow> SafeArrayUnlock psa st3; Some (E_OUTOFMEMORY, st4) }
                else do {
                  b \<leftarrow> os_desc st3 psa;
                  let st4 = set_desc psa (b\<lparr>rgsabound := (rgsabound b)[0 := (hd (rgsabound b))\<lparr>cElements := cElements nb\<rparr>]\<rparr>) st3;
                  (_, st5) \<leftarrow> SafeArrayUnlock psa st4;
                  Some (S_OK, st5) } } } })"

section \<open>Strings and byte vectors\<close>

text \<open>The address of the new array, or null.\<close>

definition VectorFromBstr :: "ole \<Rightarrow> nat \<Rightarrow> ole_state \<Rightarrow> (HRESULT \<times> nat \<times> ole_state) option" where
  "VectorFromBstr ole bstr st =
     (let n = SysBstrRawByteCount bstr st
      in do { (psa, st1) \<leftarrow> SAFEARRAY_Create ole VT_UI1 1 (Some [\<lparr>cElements = n, lLbound = 0\<rparr>]) 0 st;
              if psa \<noteq> 0 then do { a \<leftarrow> os_desc st1 psa; Some (S_OK, psa, put_mem (memcpy (pvData a) bstr n (mem st1)) st1) }
              else Some (E_OUTOFMEMORY, 0, st1) })"

definition BstrFromVector :: "ole \<Rightarrow> nat \<Rightarrow> ole_state \<Rightarrow> (HRESULT \<times> nat \<times> ole_state) option" where
  "BstrFromVector ole psa st =
     (if psa = 0 then Some (E_INVALIDARG, 0, st)
      else do { a \<leftarrow> os_desc st psa;
                if cbElements a \<noteq> 1 \<or> cDims a \<noteq> 1 then Some (E_INVALIDARG, 0, st)
                else (let (p, st1) = SysAllocStringByteLen ole (pvData a) (cElements (rgsabound a ! 0)) st
                      in Some (if p = 0 then E_OUTOFMEMORY else S_OK, p, st1)) })"

end
