(* ===== verification/Safearray_Index.thy ===== *)
theory Safearray_Index
  imports Safearray_Api
begin

text \<open>
  Indexing: the cells of an array by their indices, as a mixed-radix number over the integers, and
  the loop of \<open>SafeArrayPtrOfIndex\<close> that computes it in 32 bits.
\<close>

section \<open>The specification\<close>

text \<open>Bounds in the order of the indices: the first varies fastest.\<close>

definition bounds_of :: "SAFEARRAY \<Rightarrow> SAFEARRAYBOUND list" where
  "bounds_of a = rev (take (cDims a) (rgsabound a))"

definition index_in :: "SAFEARRAYBOUND \<Rightarrow> int \<Rightarrow> bool" where
  "index_in b i \<longleftrightarrow> lLbound b \<le> i \<and> i < lLbound b + int (cElements b)"

definition inside :: "SAFEARRAYBOUND list \<Rightarrow> int list \<Rightarrow> bool" where
  "inside bs is \<longleftrightarrow> list_all2 index_in bs is"

fun cell_of :: "SAFEARRAYBOUND list \<Rightarrow> int list \<Rightarrow> nat" where
  "cell_of (b # bs) (i # is) = nat (i - lLbound b) + cElements b * cell_of bs is"
| "cell_of _ _ = 0"

definition cells :: "SAFEARRAYBOUND list \<Rightarrow> nat" where
  "cells bs = prod_list (map cElements bs)"

text \<open>The bounds the code handles: no upper bound reaches the largest \<^verbatim>\<open>LONG\<close>.\<close>

definition bound_ok :: "SAFEARRAYBOUND \<Rightarrow> bool" where
  "bound_ok b \<longleftrightarrow> in_int32 (lLbound b) \<and> lLbound b + int (cElements b) < 2147483648 \<and> cElements b < 2147483648"

lemma inside_simps [simp]:
  "inside [] is \<longleftrightarrow> is = []" "inside bs [] \<longleftrightarrow> bs = []" "inside (b # bs) (i # is) \<longleftrightarrow> index_in b i \<and> inside bs is"
  by (auto simp: inside_def)

lemma cells_simps [simp]: "cells [] = 1" "cells (b # bs) = cElements b * cells bs"
  by (simp_all add: cells_def)

lemma inside_length: "inside bs is \<Longrightarrow> length is = length bs"
  by (auto simp: inside_def list_all2_lengthD)

lemma index_in_nat: "index_in b i \<Longrightarrow> nat (i - lLbound b) < cElements b"
  by (auto simp: index_in_def)

lemma mixed_radix_less: "i < m \<Longrightarrow> c < n \<Longrightarrow> i + m * c < m * n" for i m c n :: nat
proof -
  assume "i < m" "c < n"
  then have "i + m * c < m * Suc c" by simp
  also have "\<dots> \<le> m * n" using \<open>c < n\<close> by (intro mult_le_mono) auto
  finally show ?thesis .
qed

lemma mixed_radix_inj: "i + m * c = j + m * d \<Longrightarrow> i < m \<Longrightarrow> j < m \<Longrightarrow> i = j \<and> c = d" for i m c j d :: nat
  by (metis add.commute mod_mult_self2 mod_less nat_mult_eq_cancel1 add_left_cancel not_less_zero gr_zeroI)

lemma cell_of_less: "inside bs is \<Longrightarrow> cell_of bs is < cells bs"
proof (induction bs "is" rule: cell_of.induct)
  case (1 b bs i "is")
  then show ?case using index_in_nat [of b i] by (simp add: mixed_radix_less)
qed (auto simp: inside_def)

lemma cell_of_inj: "inside bs is \<Longrightarrow> inside bs js \<Longrightarrow> cell_of bs is = cell_of bs js \<Longrightarrow> is = js"
proof (induction bs arbitrary: "is" js)
  case (Cons b bs)
  obtain i is' j js' where eq: "is = i # is'" "js = j # js'" using Cons.prems by (cases "is"; cases js) auto
  have "nat (i - lLbound b) = nat (j - lLbound b) \<and> cell_of bs is' = cell_of bs js'"
    using Cons.prems index_in_nat [of b i] index_in_nat [of b j] by (intro mixed_radix_inj) (auto simp: eq)
  then show ?case using Cons eq by (auto simp: index_in_def)
qed (auto simp: inside_def)

text \<open>Only the distance from its lower bound counts for the index of the last dimension.\<close>

lemma cell_of_last:
  "length is = length bs \<Longrightarrow> j - lLbound c = i - lLbound b \<Longrightarrow> cell_of (bs @ [c]) (is @ [j]) = cell_of (bs @ [b]) (is @ [i])"
proof (induction bs arbitrary: "is")
  case (Cons d bs)
  then show ?case by (cases "is") auto
qed simp

lemma cells_append [simp]: "cells (bs @ cs) = cells bs * cells cs"
  by (simp add: cells_def)

section \<open>The loop\<close>

lemma out_of_bounds_iff: "bound_ok b \<Longrightarrow> out_of_bounds b i \<longleftrightarrow> \<not> index_in b i"
  by (auto simp: out_of_bounds_def index_in_def bound_ok_def in_int32_def wrap32_id)

lemma dword_id [simp]: "n < 4294967296 \<Longrightarrow> dword n = n"
  by (simp add: dword_def)

lemma ulong_id: "0 \<le> x \<Longrightarrow> x < 4294967296 \<Longrightarrow> ulong x = nat x"
  by (simp add: ulong_def)

lemma cell_loop_None:
  "list_all bound_ok bs \<Longrightarrow> length bs \<le> length is \<Longrightarrow>
   cell_loop prev bs is dim cell = None \<longleftrightarrow> \<not> inside bs (take (length bs) is)"
proof (induction prev bs "is" dim cell rule: cell_loop.induct)
  case (3 prev b bs i "is" dim cell)
  then show ?case by (auto simp: out_of_bounds_iff Let_def index_in_def)
qed auto

lemma cell_loop_value:
  "list_all bound_ok bs \<Longrightarrow> inside bs (take (length bs) is) \<Longrightarrow> cell < dim * cElements prev \<Longrightarrow>
   dim * cElements prev * cells bs < 4294967296 \<Longrightarrow>
   cell_loop prev bs is dim cell = Some (cell + dim * cElements prev * cell_of bs (take (length bs) is))"
proof (induction prev bs "is" dim cell rule: cell_loop.induct)
  case (3 prev b bs i "is" dim cell)
  let ?D = "dim * cElements prev" and ?k = "nat (i - lLbound b)"
  have b: "bound_ok b" "index_in b i" and rest: "list_all bound_ok bs" "inside bs (take (length bs) is)" using 3 by auto
  have k: "?k < cElements b" by (rule index_in_nat [OF b(2)])
  have "0 < cells bs" using cell_of_less [OF rest(2)] by simp
  moreover have "?D * cElements b * cells bs < 4294967296" using "3.prems"(4) by (simp add: mult.assoc)
  ultimately have D: "?D * cElements b < 4294967296" by (metis le_less_trans mult_le_mono2 mult.right_neutral Suc_leI One_nat_def)
  moreover have "?D \<le> ?D * cElements b" using k mult_le_mono2 [of 1 "cElements b" ?D] by (simp add: Suc_leI)
  ultimately have D1: "?D < 4294967296" by (rule le_less_trans [rotated])
  have sum: "cell + ?D * ?k < ?D * cElements b" using mixed_radix_less [OF "3.prems"(3) k] .
  have u: "ulong (i - lLbound b) = ?k"
    by (rule ulong_id) (use b in \<open>auto simp: index_in_def bound_ok_def in_int32_def\<close>)
  have w: "dword ?D = ?D" "dword (?k * ?D) = ?k * ?D" "dword (cell + ?k * ?D) = cell + ?k * ?D"
    using D1 D sum by (simp_all add: mult.commute)
  have step: "cell_loop prev (b # bs) (i # is) dim cell = cell_loop b bs is ?D (cell + ?k * ?D)"
    using k b by (simp add: Let_def out_of_bounds_iff u w)
  have "cell_loop b bs is (dword ?D) (dword (cell + dword (ulong (i - lLbound b) * dword ?D)))
      = Some (dword (cell + dword (ulong (i - lLbound b) * dword ?D)) + dword ?D * cElements b * cell_of bs (take (length bs) is))"
    by (rule "3.IH" [OF refl _ rest]) (use k b D sum "3.prems"(4) in \<open>simp_all add: out_of_bounds_iff u w mult.commute mult.left_commute\<close>)
  then show ?case unfolding step u w by (simp add: algebra_simps)
qed auto

section \<open>Arrays\<close>

text \<open>A descriptor as the calls that create arrays leave it, with data smaller than 4 GB.\<close>

definition sa_ok :: "SAFEARRAY \<Rightarrow> bool" where
  "sa_ok a \<longleftrightarrow> 0 < cDims a \<and> length (rgsabound a) = cDims a \<and> list_all bound_ok (rgsabound a)
     \<and> 0 < cbElements a \<and> cells (rgsabound a) * cbElements a < 4294967296"

lemma sa_ok_bounds: "sa_ok a \<Longrightarrow> bounds_of a = rev (rgsabound a)"
  by (simp add: sa_ok_def bounds_of_def)

lemma cells_rev [simp]: "cells (rev bs) = cells bs"
  by (simp add: cells_def rev_map [symmetric] prod_list.rev)

lemma ptr_of_index_spec:
  assumes "sa_ok a" "length is = cDims a"
  shows "ptr_of_index a is = (if inside (bounds_of a) is then Some (pvData a + cbElements a * cell_of (bounds_of a) is) else None)"
proof -
  obtain b bs where bs: "bounds_of a = b # bs" using assms by (cases "bounds_of a") (auto simp: sa_ok_bounds, auto simp: sa_ok_def)
  obtain i is' where i: "is = i # is'" using assms by (cases "is") (auto simp: sa_ok_def)
  have rv: "rev (rgsabound a) = b # bs" using bs sa_ok_bounds [OF assms(1)] by simp
  then have "list_all bound_ok (b # bs)" using assms(1) by (metis list_all_rev sa_ok_def)
  then have ok: "bound_ok b" "list_all bound_ok bs" by simp_all
  have len: "length is' = length bs" using assms i rv by (metis Suc_inject length_Cons length_rev sa_ok_def)
  have small: "cells (b # bs) * cbElements a < 4294967296" "0 < cbElements a" using assms(1) rv cells_rev [of "rgsabound a"] by (auto simp: sa_ok_def mult.commute)
  show ?thesis
  proof (cases "inside (b # bs) is")
    case True
    have lt: "cell_of (b # bs) is < cells (b # bs)" by (rule cell_of_less [OF True])
    have ii: "index_in b i" "inside bs is'" using True i by auto
    have "cells (b # bs) \<le> cells (b # bs) * cbElements a" using small(2) by simp
    then have sm: "cells (b # bs) < 4294967296" using small(1) by linarith
    have k: "nat (i - lLbound b) < cElements b" by (rule index_in_nat [OF ii(1)])
    have cl: "cell_loop b bs is' 1 0 = Some (cElements b * cell_of bs is')"
      using cell_loop_value [OF ok(2), of is' 0 1 b] ii k sm len by simp
    have u: "ulong (i - lLbound b) = nat (i - lLbound b)"
      by (rule ulong_id) (use ok ii in \<open>auto simp: index_in_def bound_ok_def in_int32_def\<close>)
    have "cell_of (b # bs) is * cbElements a < cells (b # bs) * cbElements a" by (rule mult_less_mono1 [OF lt small(2)])
    then have "cell_of (b # bs) is * cbElements a < 4294967296" using small(1) by (rule less_trans)
    then have "dword (cell_of (b # bs) is * cbElements a) = cell_of (b # bs) is * cbElements a" by (rule dword_id)
    moreover have "dword (cElements b * cell_of bs is' + nat (i - lLbound b)) = cell_of (b # bs) is"
      using lt sm i by (simp add: add.commute)
    ultimately show ?thesis using True i cl ok ii unfolding ptr_of_index_def bounds_of_def [symmetric] bs
      by (simp add: out_of_bounds_iff u mult.commute del: cell_of.simps)
  next
    case False
    then have "out_of_bounds b i \<or> cell_loop b bs is' 1 0 = None" using ok len i by (auto simp: out_of_bounds_iff cell_loop_None)
    then show ?thesis using False unfolding ptr_of_index_def bounds_of_def [symmetric] bs by (auto simp: i split: option.splits)
  qed
qed

text \<open>The address of the cell with given indices.\<close>

definition cell_addr :: "SAFEARRAY \<Rightarrow> int list \<Rightarrow> nat" where
  "cell_addr a is = pvData a + cbElements a * cell_of (bounds_of a) is"

definition data_size :: "SAFEARRAY \<Rightarrow> nat" where
  "data_size a = cells (rgsabound a) * cbElements a"

lemma SafeArrayPtrOfIndex_spec:
  assumes "psa \<noteq> 0" "os_desc st psa = Some a" "sa_ok a" "length is = cDims a"
  shows "SafeArrayPtrOfIndex psa (Some is) st = Some (if inside (bounds_of a) is then (S_OK, cell_addr a is) else (DISP_E_BADINDEX, 0))"
  using assms ptr_of_index_spec [OF assms(3,4)] by (auto simp: SafeArrayPtrOfIndex_def cell_addr_def sa_ok_def)

lemma cell_addr_bounds:
  assumes "sa_ok a" "inside (bounds_of a) is"
  shows "pvData a \<le> cell_addr a is" "cell_addr a is + cbElements a \<le> pvData a + data_size a"
proof -
  have "Suc (cell_of (bounds_of a) is) \<le> cells (rgsabound a)"
    using cell_of_less [OF assms(2)] sa_ok_bounds [OF assms(1)] by (simp add: Suc_leI)
  then have "cbElements a * Suc (cell_of (bounds_of a) is) \<le> cbElements a * cells (rgsabound a)" by (rule mult_le_mono2)
  then show "cell_addr a is + cbElements a \<le> pvData a + data_size a" by (simp add: cell_addr_def data_size_def mult.commute)
qed (simp add: cell_addr_def)

lemma cell_addr_apart:
  assumes "sa_ok a" "inside (bounds_of a) is" "inside (bounds_of a) js" "is \<noteq> js"
  shows "cell_addr a is + cbElements a \<le> cell_addr a js \<or> cell_addr a js + cbElements a \<le> cell_addr a is"
proof -
  let ?i = "cell_of (bounds_of a) is" and ?j = "cell_of (bounds_of a) js"
  have "?i \<noteq> ?j" using cell_of_inj [OF assms(2,3)] assms(4) by blast
  then have "Suc ?i \<le> ?j \<or> Suc ?j \<le> ?i" by linarith
  then have "cbElements a * Suc ?i \<le> cbElements a * ?j \<or> cbElements a * Suc ?j \<le> cbElements a * ?i" by (metis mult_le_mono2)
  then show ?thesis by (auto simp: cell_addr_def)
qed

text \<open>The count of cells is exact as long as it is below \<open>2 ^ 32\<close>.\<close>

lemma cell_product_exact: "n * cells bs < 4294967296 \<Longrightarrow> cell_product bs n = n * cells bs"
proof (induction bs n rule: cell_product.induct)
  case (2 b bs n)
  show ?case
  proof (cases "cells bs = 0")
    case True
    then have "cell_product bs m = 0" for m by (induction bs m rule: cell_product.induct) auto
    then show ?thesis using True by simp
  next
    case False
    then have "n * cElements b \<le> n * cElements b * cells bs" using mult_le_mono2 [of 1 "cells bs"] by (simp add: Suc_leI)
    then have "n * cElements b < 4294967296" using 2(2) unfolding cells_simps mult.assoc [symmetric] by (rule le_less_trans)
    then show ?thesis using 2 by (auto simp: mult.assoc)
  qed
qed simp

end
