(* ===== verification/Safearray_Laws.thy ===== *)
theory Safearray_Laws
  imports Safearray_Index Memory_Props
begin

text \<open>
  The blocks of the task allocator as the safe arrays see them: allocating, freeing and writing in
  terms of the live ranges of memory. The proofs on arrays rest on these laws.
\<close>

section \<open>Live ranges\<close>

abbreviation heap :: "ole_state \<Rightarrow> mstate" where
  "heap st \<equiv> as_heap (os_al st)"

definition tblocks :: "ole_state \<Rightarrow> nat \<Rightarrow> MemBlock option" where
  "tblocks st p = blocks (heap st) (ms_process (heap st), p)"

text \<open>The invariant of the allocator while no spy is registered.\<close>

definition task_ok :: "ole \<Rightarrow> ole_state \<Rightarrow> bool" where
  "task_ok ole st \<longleftrightarrow> os_ok (ole_os ole) \<and> heap_inv (ole_os ole) (heap st) \<and> heap_there (ms_process (heap st)) (heap st)
     \<and> al_spy (as_al (os_al st)) = None"

definition live :: "ole_state \<Rightarrow> nat \<Rightarrow> nat \<Rightarrow> bool" where
  "live st r n \<longleftrightarrow> (\<exists>q b. tblocks st q = Some b \<and> q \<le> r \<and> r + n \<le> q + mb_len b)"

lemma mem_put [simp]: "mem (put_mem m st) = m"
  by (simp add: mem_def put_mem_def)

lemma put_frame [simp]:
  "os_desc (put_mem m st) = os_desc st" "os_cblocks (put_mem m st) = os_cblocks st" "os_calls (put_mem m st) = os_calls st"
  "as_al (os_al (put_mem m st)) = as_al (os_al st)" "tblocks (put_mem m st) = tblocks st" "live (put_mem m st) = live st"
  by (auto simp: put_mem_def tblocks_def live_def fun_eq_iff)

lemma put_put [simp]: "put_mem m (put_mem m' st) = put_mem m st"
  by (simp add: put_mem_def)

lemma put_same [simp]: "put_mem (mem st) st = st"
  by (simp add: put_mem_def mem_def)

lemma desc_frame [simp]:
  "mem (set_desc psa a st) = mem st" "os_desc (set_desc psa a st) = (os_desc st)(psa \<mapsto> a)" "os_cblocks (set_desc psa a st) = os_cblocks st"
  "os_calls (set_desc psa a st) = os_calls st" "os_al (set_desc psa a st) = os_al st" "tblocks (set_desc psa a st) = tblocks st"
  "live (set_desc psa a st) = live st" "task_ok ole (set_desc psa a st) = task_ok ole st"
  by (auto simp: set_desc_def mem_def tblocks_def live_def task_ok_def fun_eq_iff)

lemma call_frame [simp]:
  "mem (call c st) = mem st" "os_desc (call c st) = os_desc st" "os_al (call c st) = os_al st" "os_cblocks (call c st) = os_cblocks st"
  "os_calls (call c st) = os_calls st @ [c]" "tblocks (call c st) = tblocks st" "live (call c st) = live st" "task_ok ole (call c st) = task_ok ole st"
  by (auto simp: call_def mem_def tblocks_def live_def task_ok_def fun_eq_iff)

lemma set_desc_set_desc [simp]: "set_desc p a (set_desc p b st) = set_desc p a st"
  by (simp add: set_desc_def)

lemma set_desc_put: "set_desc p a (put_mem m st) = put_mem m (set_desc p a st)"
  by (simp add: set_desc_def put_mem_def)

lemma live_sub: "live st r n \<Longrightarrow> r \<le> r' \<Longrightarrow> r' + n' \<le> r + n \<Longrightarrow> live st r' n'"
  unfolding live_def by (meson le_trans)

lemma tblock_bounds:
  assumes "task_ok ole st" "tblocks st p = Some b"
  shows "8 < p" "mb_len b \<le> mb_allocSize b" "p + mb_allocSize b \<le> 2 ^ 64" "mb_ptr b = p" "8 dvd p"
  using new_block_bounds [of "ole_os ole" "heap st" "ms_process (heap st)" p b] assms by (simp_all add: task_ok_def tblocks_def)

lemma tblocks_apart:
  assumes "task_ok ole st" "tblocks st p = Some b" "tblocks st q = Some c" "p \<noteq> q"
  shows "p + mb_allocSize b + 8 \<le> q \<or> q + mb_allocSize c + 8 \<le> p"
  using heap_inv_apart [of "ole_os ole" "heap st" _ b _ c] tblock_bounds(4) [OF assms(1,2)] tblock_bounds(4) [OF assms(1,3)] assms
  by (auto simp: task_ok_def tblocks_def apart_def)

lemma live_bounds: "task_ok ole st \<Longrightarrow> live st r n \<Longrightarrow> 8 < r \<and> r + n \<le> 2 ^ 64"
proof -
  assume ok: "task_ok ole st" and "live st r n"
  then obtain q b where b: "tblocks st q = Some b" "q \<le> r" "r + n \<le> q + mb_len b" by (auto simp: live_def)
  then show ?thesis using tblock_bounds(1,2,3) [OF ok b(1)] by linarith
qed

text \<open>Writing inside a live range keeps the invariant.\<close>

lemma task_ok_put:
  assumes "task_ok ole st" "live st r n" "\<And>x. x < r \<or> r + n \<le> x \<Longrightarrow> m x = mem st x"
  shows "task_ok ole (put_mem m st)"
proof -
  obtain q b where b: "tblocks st q = Some b" "q \<le> r" "r + n \<le> q + mb_len b" using assms(2) by (auto simp: live_def)
  note k = tblock_bounds [OF assms(1) b(1)]
  have "heap_inv (ole_os ole) ((heap st)\<lparr>ms_mem := m\<rparr>)"
  proof (rule heap_inv_write)
    show "heap_inv (ole_os ole) (heap st)" using assms(1) by (simp add: task_ok_def)
    show "blocks (heap st) (ms_process (heap st), q) = Some b" using b(1) by (simp add: tblocks_def)
    show "m a = ms_mem (heap st) a" if "a < mb_ptr b \<or> mb_ptr b + mb_allocSize b \<le> a" for a
      using that assms(3) [of a] b k by (auto simp: mem_def)
  qed
  then show ?thesis using assms(1) by (simp add: task_ok_def put_mem_def)
qed

section \<open>Allocating\<close>

text \<open>What a successful allocation of \<open>n\<close> bytes at \<open>p\<close> changes.\<close>

definition malloced :: "ole \<Rightarrow> nat \<Rightarrow> nat \<Rightarrow> ole_state \<Rightarrow> ole_state \<Rightarrow> bool" where
  "malloced ole p n st st' \<longleftrightarrow> task_ok ole st' \<and> as_al (os_al st') = as_al (os_al st)
     \<and> os_desc st' = os_desc st \<and> os_cblocks st' = os_cblocks st \<and> os_calls st' = os_calls st
     \<and> (\<exists>b. tblocks st p = None \<and> tblocks st' = (tblocks st)(p \<mapsto> b) \<and> mb_len b = n
          \<and> (\<forall>x. x < p - 8 \<or> p + mb_allocSize b \<le> x \<longrightarrow> mem st' x = mem st x))
     \<and> (\<forall>x. p \<le> x \<and> x < p + n \<longrightarrow> mem st' x = 0) \<and> 8 < p
     \<and> (\<exists>h k a. os_memalign (ole_os ole) h k = Some a \<and> a \<le> p \<and> p + n \<le> a + k \<and> (\<forall>x. x < a \<or> a + k \<le> x \<longrightarrow> mem st' x = mem st x))"

text \<open>A heap allocation writes the pages it was given only.\<close>

lemma HeapAlloc_pages:
  assumes "os_ok os" "n + 8 + os_pageSize os \<le> 2 ^ 64" "HeapAlloc os h fl n s = (p, s')" "p \<noteq> 0"
  shows "\<exists>a. os_memalign os s (page_round os n) = Some a \<and> p = a + 8 \<and> n + 8 \<le> page_round os n
    \<and> (\<forall>x. x < a \<or> a + page_round os n \<le> x \<longrightarrow> ms_mem s' x = ms_mem s x)"
proof -
  note pr = page_round_bounds [OF assms(1,2)]
  obtain info where h: "heap_of h s = Some info" using assms(3,4) by (cases "heap_of h s") (auto simp: HeapAlloc_def)
  obtain a where a: "os_memalign os s (page_round os n) = Some a"
    using assms(3,4) h by (cases "os_memalign os s (page_round os n)") (auto simp: HeapAlloc_def Let_def)
  have le: "a + page_round os n \<le> 2 ^ 64" using assms(1) a pr(5) unfolding os_ok_def by blast
  have tm: "memset (size_t (a + 8 + n)) 0 (size_sub (page_round os n - 8) n) m = memset (a + 8 + n) 0 (page_round os n - 8 - n) m" for m
    by (rule tail_memset) (use pr(1,2) le in simp_all)
  have p: "p = a + 8" using assms(3) h a by (simp add: HeapAlloc_def Let_def)
  have m: "ms_mem s' = memset (a + 8 + n) 0 (page_round os n - 8 - n)
      (if has fl HEAP_ZERO_MEMORY then memset (a + 8) 0 n (store 8 a h (ms_mem s)) else store 8 a h (ms_mem s))"
    using arg_cong [OF assms(3), of "ms_mem \<circ> snd"] unfolding HeapAlloc_def h Let_def option.case a pr(4) tm by simp
  have "ms_mem s' x = ms_mem s x" if "x < a \<or> a + page_round os n \<le> x" for x
    using that pr(1) by (auto simp: m memset_def store_outside)
  then show ?thesis using a p pr(1) by blast
qed

text \<open>The system does not give the pages for a block of \<open>n\<close> bytes.\<close>

definition refuses :: "ole \<Rightarrow> nat \<Rightarrow> ole_state \<Rightarrow> bool" where
  "refuses ole n st \<longleftrightarrow> os_memalign (ole_os ole) (heap st) (page_round (ole_os ole) n) = None"

lemma HeapAlloc_refused: "HeapAlloc os h fl n s = (0, s') \<Longrightarrow> heap_there h s \<Longrightarrow> os_memalign os s (page_round os n) = None"
  by (auto simp: HeapAlloc_def heap_there_def Let_def split: option.splits)

lemma SAFEARRAY_Malloc_law:
  assumes ok: "task_ok ole st" and n: "n < 4294967296"
  obtains "SAFEARRAY_Malloc ole n st = Some (0, st)" "refuses ole n st"
  | p st' where "SAFEARRAY_Malloc ole n st = Some (p, st')" "malloced ole p n st st'"
proof -
  let ?os = "ole_os ole" and ?h = "heap st" and ?P = "ms_process (heap st)"
  have os: "os_ok ?os" and inv: "heap_inv ?os ?h" and there: "heap_there ?P ?h" and spy: "al_spy (as_al (os_al st)) = None"
    using ok by (simp_all add: task_ok_def)
  have pg: "n + 8 + os_pageSize ?os \<le> 2 ^ 64" using os n by (simp add: os_ok_def)
  obtain p h' where a: "HeapAlloc ?os ?P 0 n ?h = (p, h')" by fastforce
  let ?st1 = "st\<lparr>os_al := (os_al st)\<lparr>as_heap := h'\<rparr>\<rparr>"
  have run: "SAFEARRAY_Malloc ole n st = Some (p, if p \<noteq> 0 then put_mem (memset p 0 n (mem ?st1)) ?st1 else ?st1)"
    using a n spy by (simp add: SAFEARRAY_Malloc_def CoTaskMemAlloc_def CMalloc_Alloc_def GetProcessHeap_def Let_def)
  from HeapAlloc_law [OF os inv there pg a] show ?thesis
  proof (elim disjE exE conjE)
    assume p: "p = 0" "h' = ?h"
    then have "refuses ole n st" using HeapAlloc_refused [of ?os ?P 0 n ?h h'] a there by (auto simp: refuses_def)
    then show ?thesis using p run that(1) by simp
  next
    fix b assume b: "p \<noteq> 0" "blocks h' = (blocks ?h)((?P, p) \<mapsto> b)" "blocks ?h (?P, p) = None" "heap_inv ?os h'" "mb_ptr b = p" "mb_len b = n"
      "8 < p" "same_outside (p - 8) (p + mb_allocSize b) ?h h'"
    have P: "ms_process h' = ?P" and out: "\<And>x. x < p - 8 \<or> p + mb_allocSize b \<le> x \<Longrightarrow> ms_mem h' x = ms_mem ?h x"
      and th: "heap_there ?P h'" using b(8) there by (auto simp: same_outside_def)
    have t: "tblocks ?st1 = (tblocks st)(p \<mapsto> b)" using b(2) P by (auto simp: tblocks_def fun_eq_iff)
    have ok1: "task_ok ole ?st1" using os b(4) th P spy by (simp add: task_ok_def)
    have lv: "live ?st1 p n" using t b(6) by (auto simp: live_def)
    have ok2: "task_ok ole (put_mem (memset p 0 n (mem ?st1)) ?st1)"
      by (rule task_ok_put [OF ok1 lv]) (auto simp: mem_simps)
    have len: "mb_len b \<le> mb_allocSize b" using tblock_bounds(2) [OF ok1, of p b] t by simp
    obtain base where pages: "os_memalign ?os ?h (page_round ?os n) = Some base" "p = base + 8" "n + 8 \<le> page_round ?os n"
        "\<And>x. x < base \<or> base + page_round ?os n \<le> x \<Longrightarrow> ms_mem h' x = ms_mem ?h x"
      using HeapAlloc_pages [OF os pg a b(1)] by blast
    have same: "mem (put_mem (memset p 0 n (mem ?st1)) ?st1) x = mem st x" if "x < base \<or> base + page_round ?os n \<le> x" for x
      using that pages unfolding mem_put by (auto simp: memset_def mem_def)
    have from_os: "\<exists>h k a. os_memalign ?os h k = Some a \<and> a \<le> p \<and> p + n \<le> a + k
        \<and> (\<forall>x. x < a \<or> a + k \<le> x \<longrightarrow> mem (put_mem (memset p 0 n (mem ?st1)) ?st1) x = mem st x)"
      by (rule exI [of _ ?h], rule exI [of _ "page_round ?os n"], rule exI [of _ base]) (use pages(1-3) same in auto)
    have "malloced ole p n st (put_mem (memset p 0 n (mem ?st1)) ?st1)"
      unfolding malloced_def
    proof (intro conjI from_os exI [of _ b])
      show "tblocks st p = None" using b(3) by (simp add: tblocks_def)
      show "\<forall>x. x < p - 8 \<or> p + mb_allocSize b \<le> x \<longrightarrow> mem (put_mem (memset p 0 n (mem ?st1)) ?st1) x = mem st x"
        using out len b(6) unfolding mem_put by (auto simp: memset_def mem_def)
    qed (use ok2 t b(6,7) in \<open>auto simp: memset_inside\<close>)
    then show ?thesis using run b(1) that(2) by simp
  qed
qed

lemma malloced_live: "malloced ole p n st st' \<Longrightarrow> live st' p n"
  by (auto simp: malloced_def live_def)

text \<open>
  A range the pages of the heap never overlap, such as a live block of \<^verbatim>\<open>malloc\<close>, and a call that changes none of
  its bytes.
\<close>

definition avoids :: "ole \<Rightarrow> nat \<Rightarrow> nat \<Rightarrow> bool" where
  "avoids ole r n \<longleftrightarrow> (\<forall>h k a. os_memalign (ole_os ole) h k = Some a \<longrightarrow> a + k \<le> r \<or> r + n \<le> a)"

definition untouched :: "ole \<Rightarrow> ole_state \<Rightarrow> ole_state \<Rightarrow> bool" where
  "untouched ole st st' \<longleftrightarrow> (\<forall>r n x. avoids ole r n \<longrightarrow> r \<le> x \<longrightarrow> x < r + n \<longrightarrow> mem st' x = mem st x)"

lemma untouched_trans: "untouched ole st st1 \<Longrightarrow> untouched ole st1 st2 \<Longrightarrow> untouched ole st st2"
  by (simp add: untouched_def)

lemma malloced_put_untouched:
  assumes "malloced ole p n st st'" "\<And>x. x < p \<or> p + n \<le> x \<Longrightarrow> m x = mem st' x"
  shows "untouched ole st (put_mem m st')"
proof -
  obtain h k a where a: "os_memalign (ole_os ole) h k = Some a" "a \<le> p" "p + n \<le> a + k" "\<And>x. x < a \<or> a + k \<le> x \<Longrightarrow> mem st' x = mem st x"
    using assms(1) unfolding malloced_def by blast
  have "m x = mem st x" if "avoids ole r l" "r \<le> x" "x < r + l" for r l x
  proof -
    have "a + k \<le> r \<or> r + l \<le> a" using that(1) a(1) unfolding avoids_def by blast
    then have "x < a \<or> a + k \<le> x" using that by auto
    then show ?thesis using a(2-4) assms(2) [of x] by auto
  qed
  then show ?thesis by (simp add: untouched_def)
qed

lemma malloced_untouched: "malloced ole p n st st' \<Longrightarrow> untouched ole st st'"
  using malloced_put_untouched [of ole p n st st' "mem st'"] by simp

lemma malloced_old_live: "malloced ole p n st st' \<Longrightarrow> live st r k \<Longrightarrow> live st' r k"
  unfolding malloced_def live_def by (elim conjE exE) (metis fun_upd_other option.distinct(1))

text \<open>A range that was live is apart from the new block and keeps its bytes.\<close>

lemma malloced_apart:
  assumes m: "malloced ole p n st st'" and l: "live st r k"
  shows "r + k + 8 \<le> p \<or> p + n + 8 \<le> r" "\<And>x. r \<le> x \<Longrightarrow> x < r + k \<Longrightarrow> mem st' x = mem st x"
proof -
  obtain b where b: "tblocks st p = None" "tblocks st' = (tblocks st)(p \<mapsto> b)" "mb_len b = n"
      "\<And>x. x < p - 8 \<or> p + mb_allocSize b \<le> x \<Longrightarrow> mem st' x = mem st x" and ok: "task_ok ole st'"
    using m by (auto simp: malloced_def)
  obtain q c where c: "tblocks st q = Some c" "q \<le> r" "r + k \<le> q + mb_len c" using l by (auto simp: live_def)
  have pq: "p \<noteq> q" "tblocks st' q = Some c" "tblocks st' p = Some b" using b c by auto
  have lens: "mb_len c \<le> mb_allocSize c" "mb_len b \<le> mb_allocSize b" using tblock_bounds(2) [OF ok] pq by auto
  have far: "p + mb_allocSize b + 8 \<le> q \<or> q + mb_allocSize c + 8 \<le> p" using tblocks_apart [OF ok pq(3,2,1)] .
  then show "r + k + 8 \<le> p \<or> p + n + 8 \<le> r" using lens b(3) c by auto
  show "mem st' x = mem st x" if "r \<le> x" "x < r + k" for x
    by (rule b(4)) (use far lens c that in auto)
qed

section \<open>Freeing\<close>

lemma SAFEARRAY_Free_law:
  assumes "task_ok ole st"
  shows "task_ok ole (SAFEARRAY_Free p st)" "mem (SAFEARRAY_Free p st) = mem st" "os_desc (SAFEARRAY_Free p st) = os_desc st"
    "os_cblocks (SAFEARRAY_Free p st) = os_cblocks st" "os_calls (SAFEARRAY_Free p st) = os_calls st"
    "as_al (os_al (SAFEARRAY_Free p st)) = as_al (os_al st)" "tblocks (SAFEARRAY_Free p st) = (tblocks st)(p := None)"
proof -
  let ?h = "heap st" and ?P = "ms_process (heap st)"
  have inv: "heap_inv (ole_os ole) ?h" and spy: "al_spy (as_al (os_al st)) = None" using assms by (simp_all add: task_ok_def)
  have "task_ok ole (SAFEARRAY_Free p st) \<and> mem (SAFEARRAY_Free p st) = mem st \<and> os_desc (SAFEARRAY_Free p st) = os_desc st
      \<and> os_cblocks (SAFEARRAY_Free p st) = os_cblocks st \<and> os_calls (SAFEARRAY_Free p st) = os_calls st
      \<and> as_al (os_al (SAFEARRAY_Free p st)) = as_al (os_al st) \<and> tblocks (SAFEARRAY_Free p st) = (tblocks st)(p := None)"
  proof (cases "p = 0")
    case True
    moreover have "tblocks st 0 = None" using tblock_bounds(1) [OF assms, of 0] by (cases "tblocks st 0") auto
    ultimately show ?thesis
      using assms by (simp add: SAFEARRAY_Free_def CoTaskMemFree_def CMalloc_Free_def fun_upd_idem)
  next
    case False
    obtain ok h' where f: "HeapFree ?P p ?h = (ok, h')" by fastforce
    note law = HeapFree_law [OF inv f]
    have P: "ms_process h' = ?P" and m: "ms_mem h' = ms_mem ?h" and th: "heap_there ?P h' = heap_there ?P ?h"
      using law(4) by (auto simp: same_outside_def)
    have r: "SAFEARRAY_Free p st = st\<lparr>os_al := (os_al st)\<lparr>as_heap := h'\<rparr>\<rparr>"
      using False spy f by (simp add: SAFEARRAY_Free_def CoTaskMemFree_def CMalloc_Free_def GetProcessHeap_def)
    have t: "tblocks (SAFEARRAY_Free p st) = (tblocks st)(p := None)" using law(2) P by (auto simp: r tblocks_def fun_eq_iff)
    show ?thesis
      using t assms law(3) P m th by (simp add: r task_ok_def mem_def)
  qed
  then show "task_ok ole (SAFEARRAY_Free p st)" "mem (SAFEARRAY_Free p st) = mem st" "os_desc (SAFEARRAY_Free p st) = os_desc st"
    "os_cblocks (SAFEARRAY_Free p st) = os_cblocks st" "os_calls (SAFEARRAY_Free p st) = os_calls st"
    "as_al (os_al (SAFEARRAY_Free p st)) = as_al (os_al st)" "tblocks (SAFEARRAY_Free p st) = (tblocks st)(p := None)"
    by blast+
qed

text \<open>A live range survives when it is apart from the freed block.\<close>

lemma free_live:
  assumes "task_ok ole st" "live st r k" "\<And>b. tblocks st p = Some b \<Longrightarrow> r + k + 8 \<le> p \<or> p + mb_len b + 8 \<le> r"
  shows "live (SAFEARRAY_Free p st) r k"
proof -
  obtain q c where c: "tblocks st q = Some c" "q \<le> r" "r + k \<le> q + mb_len c" using assms(2) by (auto simp: live_def)
  have "p \<noteq> q" using assms(3) [of c] c by auto
  then show ?thesis using c unfolding live_def SAFEARRAY_Free_law(7) [OF assms(1)] by auto
qed

end
