(* ===== verification/Safearray_Plain.thy ===== *)
theory Safearray_Plain
  imports Safearray_Laws
begin

text \<open>Arrays of numbers: creating, locking, reading, writing and destroying them.\<close>

section \<open>Live blocks kept\<close>

text \<open>Every live block is still there with the bytes asked for.\<close>

definition keeps :: "ole_state \<Rightarrow> ole_state \<Rightarrow> bool" where
  "keeps st st' \<longleftrightarrow> (\<forall>q b. tblocks st q = Some b \<longrightarrow>
     tblocks st' q = Some b \<and> (\<forall>x. q \<le> x \<and> x < q + mb_len b \<longrightarrow> mem st' x = mem st x))"

lemma keeps_refl [simp]: "keeps st st"
  by (simp add: keeps_def)

lemma keeps_trans: "keeps st st1 \<Longrightarrow> keeps st1 st2 \<Longrightarrow> keeps st st2"
  unfolding keeps_def by metis

lemma keeps_live: "keeps st st' \<Longrightarrow> live st r k \<Longrightarrow> live st' r k"
  unfolding keeps_def live_def by blast

lemma keeps_mem: "keeps st st' \<Longrightarrow> live st r k \<Longrightarrow> r \<le> x \<Longrightarrow> x < r + k \<Longrightarrow> mem st' x = mem st x"
  unfolding keeps_def live_def by fastforce

lemma keeps_frame [simp]:
  "keeps st (set_desc psa a st') = keeps st st'" "keeps st (call c st') = keeps st st'"
  "keeps (set_desc psa a st) st' = keeps st st'"
  by (simp_all add: keeps_def)

lemma malloced_keeps: "malloced ole p n st st' \<Longrightarrow> keeps st st'"
proof -
  assume m: "malloced ole p n st st'"
  then have "tblocks st' q = Some b \<and> (\<forall>x. q \<le> x \<and> x < q + mb_len b \<longrightarrow> mem st' x = mem st x)" if "tblocks st q = Some b" for q b
    using malloced_apart(2) [OF m, of q "mb_len b"] that by (auto simp: live_def malloced_def)
  then show ?thesis by (simp add: keeps_def)
qed

text \<open>Writes into the block just allocated.\<close>

lemma malloced_put_keeps:
  assumes m: "malloced ole p n st st'" and k: "keeps st' st''" "task_ok ole st''"
    and out: "\<And>x. x < p \<or> p + n \<le> x \<Longrightarrow> m' x = mem st'' x"
  shows "keeps st (put_mem m' st'')" "task_ok ole (put_mem m' st'')"
proof -
  have "tblocks st'' q = Some b \<and> (\<forall>x. q \<le> x \<and> x < q + mb_len b \<longrightarrow> m' x = mem st x)" if q: "tblocks st q = Some b" for q b
  proof -
    have l: "live st q (mb_len b)" using q by (auto simp: live_def)
    have "m' x = mem st x" if "q \<le> x" "x < q + mb_len b" for x
    proof -
      have "m' x = mem st'' x" by (rule out) (use malloced_apart(1) [OF m l] that in auto)
      then show ?thesis using keeps_mem [OF keeps_trans [OF malloced_keeps [OF m] k(1)] l that] by simp
    qed
    then show ?thesis using q malloced_keeps [OF m] k(1) by (auto simp: keeps_def)
  qed
  then show "keeps st (put_mem m' st'')" by (simp add: keeps_def)
  show "task_ok ole (put_mem m' st'')" by (rule task_ok_put [OF k(2) keeps_live [OF k(1) malloced_live [OF m]] out])
qed

text \<open>Freeing what was allocated since.\<close>

lemma free_keeps: "task_ok ole st' \<Longrightarrow> keeps st st' \<Longrightarrow> tblocks st p = None \<Longrightarrow> keeps st (SAFEARRAY_Free p st')"
  by (auto simp: keeps_def SAFEARRAY_Free_law)

section \<open>The invariant\<close>

text \<open>A descriptor is in a live block that begins with its hidden bytes.\<close>

definition sa_inv :: "ole \<Rightarrow> ole_state \<Rightarrow> bool" where
  "sa_inv ole st \<longleftrightarrow> task_ok ole st \<and> (\<forall>psa a. os_desc st psa = Some a \<longrightarrow> 16 \<le> psa \<and> tblocks st (psa - 16) \<noteq> None)"

lemma sa_inv_fresh: "sa_inv ole st \<Longrightarrow> tblocks st p = None \<Longrightarrow> os_desc st (p + 16) = None"
  unfolding sa_inv_def by (metis add_diff_cancel_right' not_None_eq)

text \<open>Features of arrays whose elements own nothing, and the types they are made for.\<close>

definition plain :: "SAFEARRAY \<Rightarrow> bool" where
  "plain a \<longleftrightarrow> \<not> has (fFeatures a) FADF_VARIANT \<and> \<not> has (fFeatures a) FADF_BSTR
     \<and> \<not> has (fFeatures a) (FADF_UNKNOWN OR FADF_DISPATCH) \<and> \<not> has (fFeatures a) FADF_RECORD"

definition plain_vt :: "nat \<Rightarrow> bool" where
  "plain_vt vt \<longleftrightarrow> SAFEARRAY_GetVTSize vt \<noteq> 0 \<and> vt \<notin> {VT_BSTR, VT_UNKNOWN, VT_DISPATCH, VT_VARIANT, VT_RECORD}"

text \<open>An array with its own blocks for the descriptor and the data.\<close>

definition array :: "ole_state \<Rightarrow> nat \<Rightarrow> SAFEARRAY \<Rightarrow> bool" where
  "array st psa a \<longleftrightarrow> os_desc st psa = Some a \<and> sa_ok a \<and> 16 \<le> psa \<and> pvData a \<noteq> 0 \<and> pvData a \<noteq> psa - 16
     \<and> (\<exists>hb. tblocks st (psa - 16) = Some hb \<and> 48 \<le> mb_len hb) \<and> (\<exists>db. tblocks st (pvData a) = Some db \<and> data_size a \<le> mb_len db)
     \<and> \<not> has (fFeatures a) FADF_CREATEVECTOR \<and> \<not> has (fFeatures a) FADF_DATADELETED \<and> \<not> has (fFeatures a) FADF_STATIC
     \<and> \<not> has (fFeatures a) FADF_FIXEDSIZE"

lemma array_live: "array st psa a \<Longrightarrow> live st (pvData a) (data_size a)" "array st psa a \<Longrightarrow> live st (psa - 16) 48"
  unfolding array_def live_def by (metis nat_add_left_cancel_le order_refl)+

text \<open>The part of \<open>sa_ok\<close> that sizes depend on.\<close>

definition sized :: "SAFEARRAY \<Rightarrow> bool" where
  "sized a \<longleftrightarrow> length (rgsabound a) = cDims a \<and> 0 < cbElements a \<and> cells (rgsabound a) * cbElements a < 4294967296"

lemma sa_ok_sized: "sa_ok a \<Longrightarrow> sized a"
  by (simp add: sa_ok_def sized_def)

lemma sized_cells: "sized a \<Longrightarrow> SAFEARRAY_GetCellCount a = cells (rgsabound a)"
proof -
  assume ok: "sized a"
  then have "cells (rgsabound a) \<le> cells (rgsabound a) * cbElements a" by (simp add: sized_def)
  then have "1 * cells (rgsabound a) < 4294967296" using ok unfolding sized_def by linarith
  then show ?thesis using ok cell_product_exact [of 1 "rgsabound a"] by (simp add: SAFEARRAY_GetCellCount_def sized_def)
qed

lemma sized_dword: "sized a \<Longrightarrow> dword (SAFEARRAY_GetCellCount a * cbElements a) = data_size a" "sized a \<Longrightarrow> data_size a < 4294967296"
  using sized_cells [of a] by (simp_all add: sized_def data_size_def)

lemmas data_size_dword = sized_dword [OF sa_ok_sized]

lemma sa_ok_cong [simp]:
  "sa_ok (a\<lparr>fFeatures := f\<rparr>) = sa_ok a" "sa_ok (a\<lparr>cLocks := l\<rparr>) = sa_ok a" "sa_ok (a\<lparr>pvData := p\<rparr>) = sa_ok a"
  "data_size (a\<lparr>fFeatures := f\<rparr>) = data_size a" "data_size (a\<lparr>cLocks := l\<rparr>) = data_size a" "data_size (a\<lparr>pvData := p\<rparr>) = data_size a"
  "bounds_of (a\<lparr>fFeatures := f\<rparr>) = bounds_of a" "bounds_of (a\<lparr>cLocks := l\<rparr>) = bounds_of a" "bounds_of (a\<lparr>pvData := p\<rparr>) = bounds_of a"
  "cell_addr (a\<lparr>cLocks := l\<rparr>) is = cell_addr a is" "plain (a\<lparr>cLocks := l\<rparr>) = plain a"
  by (simp_all add: sa_ok_def data_size_def bounds_of_def cell_addr_def plain_def)

section \<open>Locks\<close>

lemma set_desc_same [simp]: "os_desc st psa = Some a \<Longrightarrow> set_desc psa a st = st"
  by (simp add: set_desc_def fun_upd_idem)

lemma SafeArrayLock_ok:
  "psa \<noteq> 0 \<Longrightarrow> os_desc st psa = Some a \<Longrightarrow> 0 \<le> cLocks a \<Longrightarrow> cLocks a < 65535 \<Longrightarrow>
   SafeArrayLock psa st = Some (S_OK, set_desc psa (a\<lparr>cLocks := cLocks a + 1\<rparr>) st)"
  by (simp add: SafeArrayLock_def in_int32_def ulong_def Let_def)

lemma SafeArrayLock_full:
  "psa \<noteq> 0 \<Longrightarrow> os_desc st psa = Some a \<Longrightarrow> cLocks a = 65535 \<Longrightarrow> SafeArrayLock psa st = Some (E_UNEXPECTED, st)"
  by (simp add: SafeArrayLock_def wrap32_def ulong_def Let_def)

lemma SafeArrayUnlock_ok:
  "psa \<noteq> 0 \<Longrightarrow> os_desc st psa = Some a \<Longrightarrow> 0 < cLocks a \<Longrightarrow> cLocks a \<le> 65535 \<Longrightarrow>
   SafeArrayUnlock psa st = Some (S_OK, set_desc psa (a\<lparr>cLocks := cLocks a - 1\<rparr>) st)"
  by (simp add: SafeArrayUnlock_def in_int32_def Let_def)

lemma SafeArrayUnlock_none:
  "psa \<noteq> 0 \<Longrightarrow> os_desc st psa = Some a \<Longrightarrow> cLocks a = 0 \<Longrightarrow> SafeArrayUnlock psa st = Some (E_UNEXPECTED, st)"
  by (simp add: SafeArrayUnlock_def wrap32_def Let_def)

section \<open>Elements\<close>

lemma SafeArrayPutElement_law:
  assumes "psa \<noteq> 0" "os_desc st psa = Some a" "sa_ok a" "plain a" "pvData a \<noteq> 0" "0 \<le> cLocks a" "cLocks a < 65535" "length is = cDims a"
  shows "SafeArrayPutElement ole psa (Some is) pv st =
    Some (if inside (bounds_of a) is then (S_OK, put_mem (memcpy (cell_addr a is) pv (cbElements a) (mem st)) st) else (DISP_E_BADINDEX, st))"
proof -
  let ?b = "a\<lparr>cLocks := cLocks a + 1\<rparr>" and ?st1 = "set_desc psa (a\<lparr>cLocks := cLocks a + 1\<rparr>) st"
  have l: "SafeArrayLock psa st = Some (S_OK, ?st1)" by (rule SafeArrayLock_ok) (use assms in simp_all)
  have p: "SafeArrayPtrOfIndex psa (Some is) ?st1 = Some (if inside (bounds_of a) is then (S_OK, cell_addr a is) else (DISP_E_BADINDEX, 0))"
    using SafeArrayPtrOfIndex_spec [of psa ?st1 ?b "is"] assms by simp
  have u: "SafeArrayUnlock psa (put_mem m ?st1) = Some (S_OK, put_mem m st)" for m
    using SafeArrayUnlock_ok [of psa "put_mem m ?st1" ?b] assms by (simp add: set_desc_put)
  have u0: "SafeArrayUnlock psa ?st1 = Some (S_OK, st)" using SafeArrayUnlock_ok [of psa ?st1 ?b] assms by simp
  show ?thesis using assms(1,2,4,5) l p u0 u by (simp add: SafeArrayPutElement_def put_cell_def plain_def)
qed

lemma SafeArrayGetElement_law:
  assumes "psa \<noteq> 0" "os_desc st psa = Some a" "sa_ok a" "plain a" "pvData a \<noteq> 0" "0 \<le> cLocks a" "cLocks a < 65535" "length is = cDims a" "pv \<noteq> 0"
  shows "SafeArrayGetElement ole psa (Some is) pv st =
    Some (if inside (bounds_of a) is then (S_OK, put_mem (memcpy pv (cell_addr a is) (cbElements a) (mem st)) st) else (DISP_E_BADINDEX, st))"
proof -
  let ?b = "a\<lparr>cLocks := cLocks a + 1\<rparr>" and ?st1 = "set_desc psa (a\<lparr>cLocks := cLocks a + 1\<rparr>) st"
  have l: "SafeArrayLock psa st = Some (S_OK, ?st1)" by (rule SafeArrayLock_ok) (use assms in simp_all)
  have p: "SafeArrayPtrOfIndex psa (Some is) ?st1 = Some (if inside (bounds_of a) is then (S_OK, cell_addr a is) else (DISP_E_BADINDEX, 0))"
    using SafeArrayPtrOfIndex_spec [of psa ?st1 ?b "is"] assms by simp
  have u: "SafeArrayUnlock psa (put_mem m ?st1) = Some (S_OK, put_mem m st)" for m
    using SafeArrayUnlock_ok [of psa "put_mem m ?st1" ?b] assms by (simp add: set_desc_put)
  have u0: "SafeArrayUnlock psa ?st1 = Some (S_OK, st)" using SafeArrayUnlock_ok [of psa ?st1 ?b] assms by simp
  show ?thesis using assms(1,2,4,5,9) l p u0 u by (simp add: SafeArrayGetElement_def get_cell_def plain_def)
qed

section \<open>Destruction\<close>

lemma plain_destroy_data:
  "os_desc st psa = Some a \<Longrightarrow> plain a \<Longrightarrow> n \<le> SAFEARRAY_GetCellCount a \<Longrightarrow> SAFEARRAY_DestroyData ole psa n st = Some (S_OK, st)"
  by (simp add: SAFEARRAY_DestroyData_def plain_def Let_def)

lemma SafeArrayDestroy_law:
  assumes ok: "task_ok ole st" and arr: "array st psa a" and pl: "plain a" and un: "cLocks a = 0"
  obtains st' where "SafeArrayDestroy ole psa st = Some (S_OK, st')" "task_ok ole st'" "mem st' = mem st"
    "tblocks st' = (tblocks st)(pvData a := None, psa - 16 := None)" "os_desc st' = (os_desc st)(psa := None)"
    "os_cblocks st' = os_cblocks st" "os_calls st' = os_calls st"
proof -
  let ?st1 = "set_desc psa (a\<lparr>pvData := 0\<rparr>) (SAFEARRAY_Free (pvData a) st)"
  let ?st2 = "(SAFEARRAY_Free (psa - 16) ?st1)\<lparr>os_desc := (os_desc ?st1)(psa := None)\<rparr>"
  note ar = arr [unfolded array_def]
  have d: "SafeArrayDestroyData ole psa st = Some (S_OK, ?st1)"
    using ar plain_destroy_data [of st psa a 0 ole] pl un by (simp add: SafeArrayDestroyData_def)
  note f1 = SAFEARRAY_Free_law [OF ok, of "pvData a"]
  have ok1: "task_ok ole ?st1" using f1(1) by simp
  note f2 = SAFEARRAY_Free_law [OF ok1, of "psa - 16"]
  have e: "SafeArrayDestroyDescriptor ole psa ?st1 = Some (S_OK, ?st2)"
    using ar pl un f1 by (simp add: SafeArrayDestroyDescriptor_def plain_def SAFEARRAY_HIDDEN_SIZE_def)
  have upd [simp]: "mem (s\<lparr>os_desc := D\<rparr>) = mem s" "tblocks (s\<lparr>os_desc := D\<rparr>) = tblocks s" "task_ok ole (s\<lparr>os_desc := D\<rparr>) = task_ok ole s" for s D
    by (auto simp: mem_def tblocks_def task_ok_def fun_eq_iff)
  show ?thesis
  proof (rule that [of ?st2])
    show "SafeArrayDestroy ole psa st = Some (S_OK, ?st2)" using ar un d e by (simp add: SafeArrayDestroy_def)
    show "os_desc ?st2 = (os_desc st)(psa := None)" using f1 f2 by simp
  qed (use f1 f2 in \<open>simp_all\<close>)
qed

section \<open>Creation\<close>

text \<open>The descriptor of a new array of numbers, before its bounds and data are set.\<close>

definition new_desc :: "nat \<Rightarrow> nat \<Rightarrow> SAFEARRAY" where
  "new_desc vt dims = \<lparr>cDims = dims, fFeatures = FADF_HAVEVARTYPE, cbElements = SAFEARRAY_GetVTSize vt, cLocks = 0, pvData = 0,
     rgsabound = replicate dims \<lparr>cElements = 0, lLbound = 0\<rparr>\<rparr>"

lemma SafeArrayAllocDescriptor_law:
  assumes ok: "task_ok ole st" and d: "0 < dims" "dims < 65536"
  obtains "SafeArrayAllocDescriptor ole dims st = Some (E_OUTOFMEMORY, 0, st)" "refuses ole (48 + 8 * (dims - 1)) st"
  | p st1 where "malloced ole p (48 + 8 * (dims - 1)) st st1"
      "SafeArrayAllocDescriptor ole dims st = Some (S_OK, p + 16, set_desc (p + 16)
         \<lparr>cDims = dims, fFeatures = 0, cbElements = 0, cLocks = 0, pvData = 0, rgsabound = replicate dims \<lparr>cElements = 0, lLbound = 0\<rparr>\<rparr> st1)"
      "SAFEARRAY_Malloc ole (48 + 8 * (dims - 1)) st = Some (p, st1)"
proof -
  let ?n = "48 + 8 * (dims - 1)"
  have n: "sizeof_SAFEARRAY + sizeof_SAFEARRAYBOUND * (dims - 1) + SAFEARRAY_HIDDEN_SIZE = ?n" "?n < 4294967296"
    using d by (simp_all add: sizeof_SAFEARRAY_def sizeof_SAFEARRAYBOUND_def SAFEARRAY_HIDDEN_SIZE_def)
  show ?thesis
  proof (rule SAFEARRAY_Malloc_law [OF ok n(2)])
    assume "SAFEARRAY_Malloc ole ?n st = Some (0, st)" "refuses ole ?n st"
    then show ?thesis using that(1) d n by (simp add: SafeArrayAllocDescriptor_def SAFEARRAY_AllocDescriptor_def)
  next
    fix p st1 assume m: "SAFEARRAY_Malloc ole ?n st = Some (p, st1)" "malloced ole p ?n st st1"
    then have "p \<noteq> 0" by (simp add: malloced_def)
    then show ?thesis using that(2) [OF m(2) _ m(1)] m(1) d n
      by (simp add: SafeArrayAllocDescriptor_def SAFEARRAY_AllocDescriptor_def SAFEARRAY_HIDDEN_SIZE_def Let_def)
  qed
qed

lemma SafeArrayAllocDescriptorEx_law:
  assumes ok: "task_ok ole st" and d: "0 < dims" "dims < 65536" and vt: "plain_vt vt"
  obtains "SafeArrayAllocDescriptorEx ole vt dims st = Some (E_OUTOFMEMORY, 0, st)" "refuses ole (48 + 8 * (dims - 1)) st"
  | p st1 where "malloced ole p (48 + 8 * (dims - 1)) st st1"
      "SafeArrayAllocDescriptorEx ole vt dims st
         = Some (S_OK, p + 16, set_desc (p + 16) (new_desc vt dims) (put_mem (store 4 (12 + p) vt (mem st1)) st1))"
      "SAFEARRAY_Malloc ole (48 + 8 * (dims - 1)) st = Some (p, st1)"
proof (rule SafeArrayAllocDescriptor_law [OF ok d])
  assume "SafeArrayAllocDescriptor ole dims st = Some (E_OUTOFMEMORY, 0, st)" "refuses ole (48 + 8 * (dims - 1)) st"
  then show ?thesis using that(1) by (simp add: SafeArrayAllocDescriptorEx_def)
next
  fix p st1 assume "malloced ole p (48 + 8 * (dims - 1)) st st1"
    "SafeArrayAllocDescriptor ole dims st = Some (S_OK, p + 16, set_desc (p + 16)
       \<lparr>cDims = dims, fFeatures = 0, cbElements = 0, cLocks = 0, pvData = 0, rgsabound = replicate dims \<lparr>cElements = 0, lLbound = 0\<rparr>\<rparr> st1)" "SAFEARRAY_Malloc ole (48 + 8 * (dims - 1)) st = Some (p, st1)"
  then show ?thesis using that(2) vt
    by (simp add: SafeArrayAllocDescriptorEx_def SAFEARRAY_SetFeatures_def SAFEARRAY_SetHiddenDWORD_def plain_vt_def new_desc_def set_desc_put)
qed

text \<open>An array created for bounds \<open>bs\<close>: a zeroed array of its own, and nothing else has changed.\<close>

definition own_blocks :: "SAFEARRAY \<Rightarrow> nat \<Rightarrow> ole_state \<Rightarrow> ole_state \<Rightarrow> MemBlock \<Rightarrow> MemBlock \<Rightarrow> bool" where
  "own_blocks a psa st st' hb db \<longleftrightarrow> array st' psa a \<and> tblocks st (psa - 16) = None \<and> tblocks st (pvData a) = None
     \<and> tblocks st' = (tblocks st)(psa - 16 \<mapsto> hb, pvData a \<mapsto> db) \<and> os_desc st' = (os_desc st)(psa \<mapsto> a)"

definition created :: "ole \<Rightarrow> nat \<Rightarrow> nat \<Rightarrow> SAFEARRAYBOUND list \<Rightarrow> nat \<Rightarrow> ole_state \<Rightarrow> ole_state \<Rightarrow> bool" where
  "created ole vt dims bs psa st st' \<longleftrightarrow> task_ok ole st' \<and> keeps st st'
     \<and> (\<exists>p db hb. own_blocks ((new_desc vt dims)\<lparr>rgsabound := rev bs, pvData := p\<rparr>) psa st st' hb db
          \<and> (\<forall>i < cells bs * SAFEARRAY_GetVTSize vt. mem st' (p + i) = 0))
     \<and> load 4 (psa - 4) (mem st') = vt \<and> untouched ole st st'
     \<and> os_cblocks st' = os_cblocks st \<and> os_calls st' = os_calls st"

lemma array_put [simp]: "array (put_mem m st) psa a = array st psa a"
  by (simp add: array_def)

lemma own_blocks_put [simp]: "own_blocks a psa st (put_mem m st') hb db = own_blocks a psa st st' hb db"
  by (simp add: own_blocks_def)

lemma plain_new_desc [simp]:
  "plain (new_desc vt dims)" "plain (new_desc vt dims\<lparr>rgsabound := bs, pvData := p\<rparr>)" "cLocks (new_desc vt dims) = 0"
  "cDims (new_desc vt dims) = dims" "cbElements (new_desc vt dims) = SAFEARRAY_GetVTSize vt" "fFeatures (new_desc vt dims) = FADF_HAVEVARTYPE"
  "pvData (new_desc vt dims) = 0"
  by (simp_all add: plain_def new_desc_def has_def fadf_defs)

lemma sa_ok_new:
  "0 < dims \<Longrightarrow> plain_vt vt \<Longrightarrow> length bs = dims \<Longrightarrow> list_all bound_ok bs \<Longrightarrow> cells bs * SAFEARRAY_GetVTSize vt < 4294967296 \<Longrightarrow>
   sa_ok (new_desc vt dims\<lparr>rgsabound := rev bs, pvData := p\<rparr>)"
  by (simp add: sa_ok_def plain_vt_def)

lemma type_feature_plain: "plain_vt vt \<Longrightarrow> type_feature vt = 0"
  by (simp add: plain_vt_def type_feature_def)

lemma plain_vt_small: "plain_vt vt \<Longrightarrow> vt < 256 ^ 4"
  by (auto simp: plain_vt_def SAFEARRAY_GetVTSize_def vt_defs split: if_splits)

text \<open>Destroying the descriptor of an array whose data could not be allocated.\<close>

lemma destroy_new_descriptor:
  assumes "task_ok ole st" "os_desc st (p + 16) = Some a" "cLocks a = 0" "\<not> has (fFeatures a) FADF_RECORD" "\<not> has (fFeatures a) FADF_CREATEVECTOR"
  shows "SafeArrayDestroyDescriptor ole (p + 16) st = Some (S_OK, (SAFEARRAY_Free p st)\<lparr>os_desc := (os_desc st)(p + 16 := None)\<rparr>)"
  using assms by (simp add: SafeArrayDestroyDescriptor_def SAFEARRAY_HIDDEN_SIZE_def)

lemma state_desc_frame [simp]:
  "mem (s\<lparr>os_desc := D\<rparr>) = mem s" "tblocks (s\<lparr>os_desc := D\<rparr>) = tblocks s" "task_ok ole (s\<lparr>os_desc := D\<rparr>) = task_ok ole s"
  "keeps st (s\<lparr>os_desc := D\<rparr>) = keeps st s"
  by (auto simp: mem_def tblocks_def task_ok_def keeps_def fun_eq_iff)

text \<open>A failed call leaves the blocks and descriptors as they were.\<close>

definition unchanged :: "ole \<Rightarrow> ole_state \<Rightarrow> ole_state \<Rightarrow> bool" where
  "unchanged ole st st' \<longleftrightarrow> task_ok ole st' \<and> keeps st st' \<and> tblocks st' = tblocks st \<and> os_desc st' = os_desc st
     \<and> os_cblocks st' = os_cblocks st \<and> os_calls st' = os_calls st"

lemma malloced_frame:
  assumes "malloced ole p n st st'"
  shows "task_ok ole st'" "os_desc st' = os_desc st" "os_cblocks st' = os_cblocks st" "os_calls st' = os_calls st" "8 < p"
    "tblocks st p = None" "\<exists>b. tblocks st' = (tblocks st)(p \<mapsto> b) \<and> mb_len b = n" "p \<le> x \<Longrightarrow> x < p + n \<Longrightarrow> mem st' x = 0"
  using assms by (auto simp: malloced_def)

text \<open>The state once the descriptor of a new array has its bounds, with its block at \<open>q\<close>.\<close>

definition with_desc :: "nat \<Rightarrow> nat \<Rightarrow> SAFEARRAYBOUND list \<Rightarrow> nat \<Rightarrow> ole_state \<Rightarrow> ole_state" where
  "with_desc vt dims bs q st1 = set_desc (q + 16) (new_desc vt dims\<lparr>rgsabound := rev bs\<rparr>) (put_mem (store 4 (12 + q) vt (mem st1)) st1)"

lemma with_desc_frame [simp]:
  "os_desc (with_desc vt dims bs q st1) = (os_desc st1)(q + 16 \<mapsto> new_desc vt dims\<lparr>rgsabound := rev bs\<rparr>)"
  "mem (with_desc vt dims bs q st1) = store 4 (12 + q) vt (mem st1)" "tblocks (with_desc vt dims bs q st1) = tblocks st1"
  "os_cblocks (with_desc vt dims bs q st1) = os_cblocks st1" "os_calls (with_desc vt dims bs q st1) = os_calls st1"
  by (simp_all add: with_desc_def)

lemma with_desc_ok:
  assumes "malloced ole q (48 + 8 * (dims - 1)) st st1"
  shows "task_ok ole (with_desc vt dims bs q st1)" "keeps st (with_desc vt dims bs q st1)" "untouched ole st (with_desc vt dims bs q st1)"
proof -
  have out: "store 4 (12 + q) vt (mem st1) x = mem st1 x" if "x < q \<or> q + (48 + 8 * (dims - 1)) \<le> x" for x
    by (rule store_outside) (use that in auto)
  note put = malloced_put_keeps [OF assms keeps_refl malloced_frame(1) [OF assms] out]
  show "task_ok ole (with_desc vt dims bs q st1)" "keeps st (with_desc vt dims bs q st1)" using put by (simp_all add: with_desc_def)
  have "untouched ole st (put_mem (store 4 (12 + q) vt (mem st1)) st1)" by (rule malloced_put_untouched [OF assms out])
  then show "untouched ole st (with_desc vt dims bs q st1)" by (simp add: untouched_def with_desc_def)
qed

lemma new_array_facts:
  assumes "0 < dims" "plain_vt vt" "length bs = dims" "list_all bound_ok bs" "cells bs * SAFEARRAY_GetVTSize vt < 4294967296"
  shows "sa_ok (new_desc vt dims\<lparr>rgsabound := rev bs\<rparr>)" "plain (new_desc vt dims\<lparr>rgsabound := rev bs\<rparr>)"
    "data_size (new_desc vt dims\<lparr>rgsabound := rev bs\<rparr>) = cells bs * SAFEARRAY_GetVTSize vt"
  using sa_ok_new [OF assms, of 0] by (simp_all add: data_size_def plain_def has_def fadf_defs)

text \<open>No memory for the data: the descriptor goes again.\<close>

lemma new_array_fail:
  assumes inv: "sa_inv ole st" and q: "malloced ole q (48 + 8 * (dims - 1)) st st1"
  obtains st' where "SafeArrayDestroyDescriptor ole (q + 16)
      (set_desc (q + 16) (new_desc vt dims\<lparr>rgsabound := rev bs, pvData := 0\<rparr>) (with_desc vt dims bs q st1)) = Some (S_OK, st')"
    "unchanged ole st st'"
proof -
  let ?a = "new_desc vt dims\<lparr>rgsabound := rev bs, pvData := 0\<rparr>"
  let ?st3 = "set_desc (q + 16) ?a (with_desc vt dims bs q st1)"
  let ?st4 = "(SAFEARRAY_Free q ?st3)\<lparr>os_desc := (os_desc ?st3)(q + 16 := None)\<rparr>"
  have ok: "task_ok ole ?st3" using with_desc_ok [OF q] by simp
  note qf = malloced_frame [OF q]
  have "SafeArrayDestroyDescriptor ole (q + 16) ?st3 = Some (S_OK, ?st4)"
    by (rule destroy_new_descriptor [OF ok, where a = ?a]) (simp_all add: has_def fadf_defs)
  moreover have "unchanged ole st ?st4"
    using SAFEARRAY_Free_law [OF ok, of q] free_keeps [OF ok, of st q] with_desc_ok(2) [OF q] qf sa_inv_fresh [OF inv qf(6)]
    by (auto simp: unchanged_def fun_upd_idem fun_eq_iff)
  ultimately show ?thesis by (rule that)
qed

text \<open>Memory for the data at \<open>p\<close>.\<close>

lemma new_array_created:
  assumes d: "0 < dims" "length bs = dims" "plain_vt vt" "list_all bound_ok bs" "cells bs * SAFEARRAY_GetVTSize vt < 4294967296"
    and q: "malloced ole q (48 + 8 * (dims - 1)) st st1"
    and m: "malloced ole p (cells bs * SAFEARRAY_GetVTSize vt) (with_desc vt dims bs q st1) st3"
  shows "created ole vt dims bs (q + 16) st (set_desc (q + 16) (new_desc vt dims\<lparr>rgsabound := rev bs, pvData := p\<rparr>) st3)"
    (is "created _ _ _ _ _ _ (set_desc _ ?a st3)")
proof -
  let ?s = "set_desc (q + 16) ?a st3"
  note pf = malloced_frame [OF m] and qf = malloced_frame [OF q] and a = new_array_facts [OF d(1,3,2,4,5)]
  obtain hb where hb: "tblocks st1 = (tblocks st)(q \<mapsto> hb)" "mb_len hb = 48 + 8 * (dims - 1)" using qf(7) by auto
  obtain db where db: "tblocks st3 = (tblocks st)(q \<mapsto> hb, p \<mapsto> db)" "mb_len db = cells bs * SAFEARRAY_GetVTSize vt"
    using pf(7) hb(1) by auto
  have pq: "p \<noteq> q" "tblocks st p = None" using pf(6) hb(1) by (auto split: if_splits)
  have "array ?s (q + 16) ?a"
    using a sa_ok_new [OF d(1,3,2,4,5), of p] pf(5) pq db hb by (simp add: array_def has_def fadf_defs data_size_def)
  then have "own_blocks ?a (q + 16) st ?s hb db" using pq pf(2) qf db by (simp add: own_blocks_def)
  then have own: "\<exists>p db hb. own_blocks ((new_desc vt dims)\<lparr>rgsabound := rev bs, pvData := p\<rparr>) (q + 16) st ?s hb db
      \<and> (\<forall>i < cells bs * SAFEARRAY_GetVTSize vt. mem ?s (p + i) = 0)"
    using pf(8) by - (rule exI [of _ p], rule exI [of _ db], rule exI [of _ hb], simp)
  have "live (with_desc vt dims bs q st1) (12 + q) 4" using hb by (auto simp: live_def intro!: exI [of _ q])
  then have "load 4 (12 + q) (mem st3) = load 4 (12 + q) (mem (with_desc vt dims bs q st1))"
    using malloced_apart(2) [OF m] by (intro load_cong) auto
  then have "load 4 (q + 16 - 4) (mem ?s) = vt" using plain_vt_small [OF d(3)] by (simp add: load_store_same)
  moreover have "untouched ole st ?s"
    using untouched_trans [OF with_desc_ok(3) [OF q] malloced_untouched [OF m]] by (simp add: untouched_def)
  ultimately show ?thesis using own pf qf keeps_trans [OF with_desc_ok(2) [OF q] malloced_keeps [OF m]] by (simp add: created_def)
qed

lemma SafeArrayCreate_law:
  assumes inv: "sa_inv ole st" and d: "0 < dims" "dims < 65536" "length bs = dims" and vt: "plain_vt vt"
    and bs: "list_all bound_ok bs" "cells bs * SAFEARRAY_GetVTSize vt < 4294967296"
  obtains st' where "SafeArrayCreate ole vt dims (Some bs) st = Some (0, st')" "unchanged ole st st'"
  | psa st' where "SafeArrayCreate ole vt dims (Some bs) st = Some (psa, st')" "psa \<noteq> 0" "created ole vt dims bs psa st st'"
proof -
  have ok: "task_ok ole st" using inv by (simp add: sa_inv_def)
  have vr: "vt \<noteq> VT_RECORD" using vt by (simp add: plain_vt_def)
  show ?thesis
  proof (rule SafeArrayAllocDescriptorEx_law [OF ok d(1,2) vt])
    assume "SafeArrayAllocDescriptorEx ole vt dims st = Some (E_OUTOFMEMORY, 0, st)"
    then show ?thesis using that(1) [of st] vr ok by (simp add: SafeArrayCreate_def SAFEARRAY_Create_def unchanged_def)
  next
    fix q st1 assume q: "malloced ole q (48 + 8 * (dims - 1)) st st1"
      "SafeArrayAllocDescriptorEx ole vt dims st = Some (S_OK, q + 16, set_desc (q + 16) (new_desc vt dims) (put_mem (store 4 (12 + q) vt (mem st1)) st1))"
    let ?a = "new_desc vt dims\<lparr>rgsabound := rev bs\<rparr>" and ?st2 = "with_desc vt dims bs q st1"
    note a = new_array_facts [OF d(1) vt d(3) bs]
    have alloc: "SafeArrayAllocData ole (q + 16) ?st2 = map_option (\<lambda>(p, s). (if p \<noteq> 0 then S_OK else E_OUTOFMEMORY, set_desc (q + 16) (?a\<lparr>pvData := p\<rparr>) s))
        (SAFEARRAY_Malloc ole (data_size ?a) ?st2)"
      using data_size_dword [OF a(1)] by (cases "SAFEARRAY_Malloc ole (data_size ?a) ?st2") (auto simp: SafeArrayAllocData_def)
    have run: "SafeArrayCreate ole vt dims (Some bs) st = do {
        (ok, st3) \<leftarrow> do { (hr2, s) \<leftarrow> SafeArrayAllocData ole (q + 16) ?st2; Some (SUCCEEDED hr2, s) };
        if ok then Some (q + 16, st3) else do { (_, st4) \<leftarrow> SafeArrayDestroyDescriptor ole (q + 16) st3; Some (0, st4) } }"
      using q(2) vr d(3) vt type_feature_plain [OF vt] by (simp add: SafeArrayCreate_def SAFEARRAY_Create_def with_desc_def plain_vt_def)
    show ?thesis
    proof (rule SAFEARRAY_Malloc_law [OF with_desc_ok(1) [OF q(1)] data_size_dword(2) [OF a(1)]])
      assume m: "SAFEARRAY_Malloc ole (data_size ?a) ?st2 = Some (0, ?st2)"
      show ?thesis by (rule new_array_fail [OF inv q(1), where vt = vt and bs = bs]) (rule that(1), use m alloc run in auto)
    next
      fix p st3 assume m: "SAFEARRAY_Malloc ole (data_size ?a) ?st2 = Some (p, st3)" "malloced ole p (data_size ?a) ?st2 st3"
      then have "SafeArrayCreate ole vt dims (Some bs) st = Some (q + 16, set_desc (q + 16) (?a\<lparr>pvData := p\<rparr>) st3)"
        using alloc run malloced_frame(5) [OF m(2)] by simp
      then show ?thesis using that(2) [of "q + 16"] new_array_created [OF d(1,3) vt bs q(1) m(2) [unfolded a(3)]] by simp
    qed
  qed
qed

end
