(* ===== verification/Safearray_Resize.thy ===== *)
theory Safearray_Resize
  imports Safearray_Plain
begin

text \<open>Copying and resizing arrays of numbers.\<close>

section \<open>Writing into a block that is not the caller's\<close>

lemma keeps_put:
  assumes k: "keeps st st'" and ok: "task_ok ole st'" and b: "tblocks st' p = Some b" "tblocks st p = None"
    and out: "\<And>x. x < p \<or> p + mb_len b \<le> x \<Longrightarrow> m x = mem st' x"
  shows "keeps st (put_mem m st')" "task_ok ole (put_mem m st')"
proof -
  have "tblocks st' q = Some c \<and> (\<forall>x. q \<le> x \<and> x < q + mb_len c \<longrightarrow> m x = mem st x)" if q: "tblocks st q = Some c" for q c
  proof -
    have c: "tblocks st' q = Some c" "p \<noteq> q" using k q b by (auto simp: keeps_def)
    have "p + mb_len b \<le> q \<or> q + mb_len c \<le> p"
      using tblocks_apart [OF ok b(1) c] tblock_bounds(2) [OF ok b(1)] tblock_bounds(2) [OF ok c(1)] by auto
    then have "m x = mem st' x" if "q \<le> x" "x < q + mb_len c" for x by (intro out) (use that in auto)
    then show ?thesis using c(1) k q by (auto simp: keeps_def)
  qed
  then show "keeps st (put_mem m st')" by (simp add: keeps_def)
  have "live st' p (mb_len b)" using b(1) by (auto simp: live_def)
  then show "task_ok ole (put_mem m st')" by (rule task_ok_put [OF ok _ out])
qed

section \<open>Copying\<close>

text \<open>An array that knows the type of its elements, as the calls that create one make it.\<close>

definition typed :: "ole_state \<Rightarrow> nat \<Rightarrow> SAFEARRAY \<Rightarrow> nat \<Rightarrow> bool" where
  "typed st psa a vt \<longleftrightarrow> fFeatures a = FADF_HAVEVARTYPE \<and> load 4 (psa - 4) (mem st) = vt \<and> plain_vt vt
     \<and> cbElements a = SAFEARRAY_GetVTSize vt \<and> cDims a < 65536"

lemma typed_plain: "typed st psa a vt \<Longrightarrow> plain a"
  by (simp add: typed_def plain_def has_def fadf_defs)

lemma plain_vt_16: "plain_vt vt \<Longrightarrow> vt mod 2 ^ 16 = vt"
  by (auto simp: plain_vt_def SAFEARRAY_GetVTSize_def vt_defs split: if_splits)

lemma typed_vartype: "typed st psa a vt \<Longrightarrow> os_desc st psa = Some a \<Longrightarrow> psa \<noteq> 0 \<Longrightarrow> SafeArrayGetVartype psa st = Some (S_OK, vt)"
  using plain_vt_16 [of vt] by (simp add: SafeArrayGetVartype_def typed_def SAFEARRAY_GetHiddenDWORD_def has_def fadf_defs)

text \<open>The cells of one array hold the bytes the cells of another held.\<close>

definition same_cells :: "SAFEARRAY \<Rightarrow> ole_state \<Rightarrow> SAFEARRAY \<Rightarrow> ole_state \<Rightarrow> bool" where
  "same_cells a st b st' \<longleftrightarrow> (\<forall>x < data_size a. mem st' (pvData b + x) = mem st (pvData a + x))"

lemma copy_data_plain:
  assumes "os_desc st psa = Some a" "os_desc st out = Some d" "pvData a \<noteq> 0" "pvData d \<noteq> 0"
    and t: "fFeatures a = FADF_HAVEVARTYPE" "fFeatures d = FADF_HAVEVARTYPE" and ok: "sa_ok a"
  shows "SAFEARRAY_CopyData ole psa out st = Some (S_OK, SAFEARRAY_SetHiddenDWORD out
    (SAFEARRAY_GetHiddenDWORD psa (put_mem (memcpy (pvData d) (pvData a) (data_size a) (mem st)) st))
    (put_mem (memcpy (pvData d) (pvData a) (data_size a) (mem st)) st))"
proof -
  have f: "fFeatures d AND FADF_CREATEVECTOR OR without (fFeatures a) ignored_copy_features = FADF_HAVEVARTYPE"
    by (simp add: t without_def ignored_copy_features_def fadf_defs)
  then have "d\<lparr>fFeatures := fFeatures d AND FADF_CREATEVECTOR OR without (fFeatures a) ignored_copy_features\<rparr> = d" using t(2) by simp
  then show ?thesis using assms data_size_dword(1) [OF ok]
    by (simp add: SAFEARRAY_CopyData_def copy_cells_def copy_hidden_def Let_def has_def fadf_defs)
qed

text \<open>There is no memory for the descriptor, or none for the data once the descriptor has its block.\<close>

definition copy_refused :: "ole \<Rightarrow> SAFEARRAY \<Rightarrow> ole_state \<Rightarrow> bool" where
  "copy_refused ole a st \<longleftrightarrow> refuses ole (48 + 8 * (cDims a - 1)) st
     \<or> (\<exists>q s m. SAFEARRAY_Malloc ole (48 + 8 * (cDims a - 1)) st = Some (q, s) \<and> refuses ole (data_size a) (put_mem m s))"

lemma SafeArrayCopy_law:
  assumes inv: "sa_inv ole st" and arr: "array st psa a" and ty: "typed st psa a vt"
  obtains st' where "SafeArrayCopy ole psa st = Some (E_OUTOFMEMORY, 0, st')" "unchanged ole st st'" "copy_refused ole a st"
  | out b st' hb db where "SafeArrayCopy ole psa st = Some (S_OK, out, st')" "own_blocks b out st st' hb db" "task_ok ole st'" "keeps st st'"
      "b = a\<lparr>pvData := pvData b, cLocks := 0\<rparr>" "typed st' out b vt" "same_cells a st b st'" "out \<noteq> psa"
proof -
  have ok: "task_ok ole st" using inv by (simp add: sa_inv_def)
  note ar = arr [unfolded array_def] and tt = ty [unfolded typed_def]
  let ?n = "cDims a" and ?bs = "rev (rgsabound a)"
  have sa: "sa_ok a" and psa: "psa \<noteq> 0" "os_desc st psa = Some a" using ar by auto
  have d: "0 < ?n" "?n < 65536" "length ?bs = ?n" "list_all bound_ok ?bs" "cells ?bs * SAFEARRAY_GetVTSize vt < 4294967296"
    and cb: "cbElements a = SAFEARRAY_GetVTSize vt" "cbElements a \<noteq> 0" and vt: "plain_vt vt" using sa tt by (auto simp: sa_ok_def)
  have sz: "data_size a = cells ?bs * SAFEARRAY_GetVTSize vt" using cb by (simp add: data_size_def)
  have feat: "has (fFeatures a) (FADF_RECORD OR FADF_HAVEIID OR FADF_HAVEVARTYPE)" using tt by (simp add: has_def fadf_defs)
  have cd: "copy_descriptor ole psa a st = SafeArrayAllocDescriptorEx ole vt ?n st"
    using feat typed_vartype [OF ty psa(2,1)] by (simp add: copy_descriptor_def)
  have tk: "take ?n (rgsabound a) = rgsabound a" using sa by (simp add: sa_ok_def)
  show ?thesis
  proof (rule SafeArrayAllocDescriptorEx_law [OF ok d(1,2) vt])
    assume "SafeArrayAllocDescriptorEx ole vt ?n st = Some (E_OUTOFMEMORY, 0, st)" "refuses ole (48 + 8 * (?n - 1)) st"
    then show ?thesis using that(1) [of st] psa cb ok cd by (simp add: SafeArrayCopy_def unchanged_def copy_refused_def)
  next
    fix q st1 assume q: "malloced ole q (48 + 8 * (?n - 1)) st st1"
      "SafeArrayAllocDescriptorEx ole vt ?n st = Some (S_OK, q + 16, set_desc (q + 16) (new_desc vt ?n) (put_mem (store 4 (12 + q) vt (mem st1)) st1))"
      "SAFEARRAY_Malloc ole (48 + 8 * (?n - 1)) st = Some (q, st1)"
    let ?out = "q + 16" and ?st2 = "with_desc vt ?n ?bs q st1"
    have none: "tblocks st q = None" using malloced_frame(6) [OF q(1)] .
    have ne: "?out \<noteq> psa" using sa_inv_fresh [OF inv none] psa by auto
    have run: "SafeArrayCopy ole psa st = do {
        (p, st2) \<leftarrow> SAFEARRAY_Malloc ole (data_size a) ?st2;
        let st3 = set_desc ?out (new_desc vt ?n\<lparr>rgsabound := rev ?bs, pvData := p\<rparr>) st2;
        if p = 0 then do { (_, st4) \<leftarrow> SafeArrayDestroyDescriptor ole ?out st3; Some (E_OUTOFMEMORY, 0, st4) }
        else do {
          (hr2, st4) \<leftarrow> SAFEARRAY_CopyData ole psa ?out st3;
          if \<not> SUCCEEDED hr2
          then do { d4 \<leftarrow> os_desc st4 ?out; (_, st5) \<leftarrow> SafeArrayDestroyDescriptor ole ?out (SAFEARRAY_Free (pvData d4) st4); Some (hr2, 0, st5) }
          else Some (hr2, ?out, st4) } }"
      using psa cb q(2) cd data_size_dword(1) [OF sa] by (simp add: SafeArrayCopy_def with_desc_def tk Let_def)
    have small: "data_size a < 4294967296" by (rule data_size_dword(2) [OF sa])
    show ?thesis
    proof (rule SAFEARRAY_Malloc_law [OF with_desc_ok(1) [OF q(1), of vt ?bs] small])
      assume m: "SAFEARRAY_Malloc ole (data_size a) ?st2 = Some (0, ?st2)" "refuses ole (data_size a) ?st2"
      have "refuses ole (data_size a) (put_mem (store 4 (12 + q) vt (mem st1)) st1)" using m(2) by (simp add: refuses_def with_desc_def)
      then have "copy_refused ole a st" unfolding copy_refused_def using q(3) by blast
      show ?thesis by (rule new_array_fail [OF inv q(1), where vt = vt and bs = ?bs]) (rule that(1), use m run \<open>copy_refused ole a st\<close> in auto)
    next
      fix p st3 assume m: "SAFEARRAY_Malloc ole (data_size a) ?st2 = Some (p, st3)" "malloced ole p (data_size a) ?st2 st3"
      let ?b = "new_desc vt ?n\<lparr>rgsabound := rev ?bs, pvData := p\<rparr>"
      let ?s3 = "set_desc ?out ?b st3"
      let ?s4 = "put_mem (memcpy p (pvData a) (data_size a) (mem ?s3)) ?s3"
      let ?s5 = "put_mem (store 4 (?out - 4) vt (mem ?s4)) ?s4"
      have cr: "created ole vt ?n ?bs ?out st ?s3" using new_array_created [OF d(1,3) vt d(4,5) q(1) m(2) [unfolded sz]] by simp
      obtain hb db where own: "own_blocks ?b ?out st ?s3 hb db" and k3: "keeps st ?s3" and ok3: "task_ok ole ?s3"
      proof -
        from cr obtain p' hb db where o: "own_blocks (?b\<lparr>pvData := p'\<rparr>) ?out st ?s3 hb db" by (auto simp: created_def)
        then have "p' = p" by (simp add: own_blocks_def) (metis SAFEARRAY.select_convs(5) SAFEARRAY.surjective SAFEARRAY.update_convs(5) fun_upd_same option.inject)
        then show ?thesis using that [of hb db] o cr by (simp add: created_def)
      qed
      have p0: "p \<noteq> 0" using malloced_frame(5) [OF m(2)] by simp
      have arr3: "array ?s3 ?out ?b" using own by (simp add: own_blocks_def)
      then have pq: "p \<noteq> q" by (simp add: array_def)
      have tb: "tblocks ?s3 = (tblocks st)(q \<mapsto> hb, p \<mapsto> db)" "tblocks st p = None" using own by (simp_all add: own_blocks_def)
      then have tq: "tblocks ?s3 q = Some hb" "tblocks ?s3 p = Some db" using pq by simp_all
      have "data_size ?b = data_size a" by (simp add: data_size_def cb)
      then have lens: "48 \<le> mb_len hb" "data_size a \<le> mb_len db" using arr3 tq unfolding array_def by auto
      have s3: "os_desc ?s3 psa = Some a" "os_desc ?s3 ?out = Some ?b" "tblocks ?s3 p = Some db" "tblocks ?s3 q = Some hb"
        using own psa ne tq by (simp_all add: own_blocks_def)
      have k4: "keeps st ?s4" "task_ok ole ?s4"
        by (rule keeps_put [OF k3 ok3 s3(3) tb(2)]; use lens in \<open>auto simp: mem_simps\<close>)+
      have hidden: "SAFEARRAY_GetHiddenDWORD psa ?s4 = vt"
      proof -
        have "live st (psa - 4) 4" by (rule live_sub [OF array_live(2) [OF arr]]) (use ar in auto)
        then have "load 4 (psa - 4) (mem ?s4) = load 4 (psa - 4) (mem st)" using keeps_mem [OF k4(1)] by (intro load_cong) auto
        then show ?thesis using tt by (simp add: SAFEARRAY_GetHiddenDWORD_def)
      qed
      have cdata: "SAFEARRAY_CopyData ole psa ?out ?s3 = Some (S_OK, ?s5)"
        using copy_data_plain [OF s3(1,2) _ _ _ _ sa] ar p0 tt hidden by (simp add: SAFEARRAY_SetHiddenDWORD_def)
      have k5: "keeps st ?s5" "task_ok ole ?s5"
        by (rule keeps_put [OF k4, of q hb]; use s3(4) lens none in \<open>auto simp: mem_simps\<close>)+
      show ?thesis
      proof (rule that(2))
        show "SafeArrayCopy ole psa st = Some (S_OK, ?out, ?s5)" using run m(1) p0 cdata by simp
        show "own_blocks ?b ?out st ?s5 hb db" using own by simp
        show "?b = a\<lparr>pvData := pvData ?b, cLocks := 0\<rparr>" using tt by (simp add: new_desc_def)
        show "typed ?s5 ?out ?b vt" using tt vt plain_vt_small [OF vt] by (simp add: typed_def load_store_same)
        have "mem ?s5 (p + x) = mem st (pvData a + x)" if "x < data_size a" for x
        proof -
          have "p + mb_allocSize db + 8 \<le> q \<or> q + mb_allocSize hb + 8 \<le> p" by (rule tblocks_apart [OF ok3 s3(3,4) pq])
          then have "p + x < q + 12 \<or> q + 12 + 4 \<le> p + x"
            using that lens tblock_bounds(2) [OF ok3 s3(3)] tblock_bounds(2) [OF ok3 s3(4)] by auto
          then have "mem ?s5 (p + x) = mem ?s4 (p + x)" unfolding mem_put by (intro store_outside) auto
          also have "\<dots> = mem ?s3 (pvData a + x)" using that by (simp add: memcpy_inside)
          also have "\<dots> = mem st (pvData a + x)" by (rule keeps_mem [OF k3 array_live(1) [OF arr]]) (use that in auto)
          finally show ?thesis .
        qed
        then show "same_cells a st ?b ?s5" by (simp add: same_cells_def)
      qed (use k5 ne in auto)
    qed
  qed
qed

section \<open>Resizing\<close>

text \<open>The bounds after a call that changes the last dimension, which is the first bound.\<close>

definition resized :: "SAFEARRAY \<Rightarrow> SAFEARRAYBOUND \<Rightarrow> SAFEARRAY" where
  "resized a nb = a\<lparr>rgsabound := (rgsabound a)[0 := nb]\<rparr>"

lemma sa_ok_hd: "sa_ok a \<Longrightarrow> \<exists>b bs. rgsabound a = b # bs"
  by (cases "rgsabound a") (auto simp: sa_ok_def)

lemma resized_sizes:
  assumes a: "sized a" and r: "sized (resized a nb)" and b: "rgsabound a = b # bs"
  shows "data_size a = cElements b * (cells bs * cbElements a)" "data_size (resized a nb) = cElements nb * (cells bs * cbElements a)"
    "data_size a div cElements b * cElements nb = (if cElements b = 0 then 0 else data_size (resized a nb))"
    "SAFEARRAY_GetCellCount (resized a nb) * cbElements a = data_size (resized a nb)"
  using sized_cells [OF r] by (simp_all add: data_size_def resized_def b)

text \<open>A longer array: new data that begins with the old.\<close>

lemma redim_lengthen_law:
  assumes ok: "task_ok ole st" and arr: "array st psa a0" and a: "a = a0\<lparr>rgsabound := rgsabound a, cLocks := l\<rparr>" "sized a"
    and r: "sized (resized a nb)" and b: "rgsabound a = b # bs" "lLbound b = lLbound nb" and st2: "st2 = set_desc psa a st"
    and old: "data_size a = data_size a0" and more: "cElements b < cElements nb"
  obtains "redim_lengthen ole psa nb a st2 = Some (False, st2)" "refuses ole (data_size (resized a nb)) st"
  | p st3 where "redim_lengthen ole psa nb a st2 = Some (True, set_desc psa (a\<lparr>pvData := p\<rparr>) st3)" "task_ok ole st3"
      "\<forall>x < data_size a. mem st3 (p + x) = mem st (pvData a0 + x)" "\<forall>x. data_size a \<le> x \<and> x < data_size (resized a nb) \<longrightarrow> mem st3 (p + x) = 0"
      "\<exists>nbk. tblocks st p = None \<and> tblocks st3 = (tblocks st)(p \<mapsto> nbk, pvData a0 := None) \<and> mb_len nbk = data_size (resized a nb)"
      "os_desc st3 = os_desc st2" "os_cblocks st3 = os_cblocks st" "os_calls st3 = os_calls st" "p \<noteq> 0"
      "\<forall>q c x. q \<noteq> pvData a0 \<longrightarrow> tblocks st q = Some c \<longrightarrow> q \<le> x \<and> x < q + mb_len c \<longrightarrow> mem st3 x = mem st x"
proof -
  note sz = resized_sizes [OF a(2) r b(1)] and ar = arr [unfolded array_def]
  let ?new = "data_size (resized a nb)"
  have pv: "pvData a = pvData a0" "pvData a0 \<noteq> 0" "cbElements a = cbElements a0" 
    using arg_cong [OF a(1), of pvData] arg_cong [OF a(1), of cbElements] ar by simp_all
  have small: "data_size a < 4294967296" "?new < 4294967296" using sized_dword(2) a(2) r by blast+
  have le: "data_size a \<le> ?new" unfolding sz(1,2) using more by (intro mult_le_mono1) simp
  have nsz: "(if data_size a \<noteq> 0 then dword (data_size a div cElements b * cElements nb)
      else dword (SAFEARRAY_GetCellCount (a\<lparr>rgsabound := (rgsabound a)[0 := b\<lparr>cElements := cElements nb\<rparr>]\<rparr>) * cbElements a)) = ?new"
  proof -
    have nb: "b\<lparr>cElements := cElements nb\<rparr> = nb" using b(2) by simp
    have "cElements b \<noteq> 0" if "data_size a \<noteq> 0" using that sz(1) by auto
    then show ?thesis using sz(3,4) small(2) by (auto simp: nb resized_def)
  qed
  have run: "redim_lengthen ole psa nb a st2 = do {
      (p, st1) \<leftarrow> SAFEARRAY_Malloc ole ?new st2;
      if p = 0 then Some (False, st1)
      else Some (True, set_desc psa (a\<lparr>pvData := p\<rparr>) (SAFEARRAY_Free (pvData a0) (put_mem (memcpy p (pvData a0) (data_size a) (mem st1)) st1))) }"
    using nsz sized_dword(1) [OF a(2)] b(1) pv by (simp add: redim_lengthen_def Let_def cong: if_cong)
  have ok2: "task_ok ole st2" using ok by (simp add: st2)
  show ?thesis
  proof (rule SAFEARRAY_Malloc_law [OF ok2 small(2)])
    assume "SAFEARRAY_Malloc ole ?new st2 = Some (0, st2)" "refuses ole ?new st2"
    then show ?thesis using that(1) run by (simp add: refuses_def st2)
  next
    fix p st1 assume m: "SAFEARRAY_Malloc ole ?new st2 = Some (p, st1)" "malloced ole p ?new st2 st1"
    let ?m = "memcpy p (pvData a0) (data_size a) (mem st1)"
    let ?s = "put_mem ?m st1" and ?st3 = "SAFEARRAY_Free (pvData a0) (put_mem ?m st1)"
    note mf = malloced_frame [OF m(2)]
    have out: "?m x = mem st1 x" if "x < p \<or> p + ?new \<le> x" for x using that le by (auto simp: memcpy_def)
    note put = malloced_put_keeps [OF m(2) keeps_refl mf(1) out]
    note fr = SAFEARRAY_Free_law [OF put(2), of "pvData a0"]
    have k: "keeps st ?s" using put(1) by (simp add: st2)
    have lv: "live st (pvData a0) (data_size a)" using array_live(1) [OF arr] old by simp
    show ?thesis
    proof (rule that(2) [of p ?st3])
      show "redim_lengthen ole psa nb a st2 = Some (True, set_desc psa (a\<lparr>pvData := p\<rparr>) ?st3)" using run m(1) mf(5) by simp
      show "\<forall>x < data_size a. mem ?st3 (p + x) = mem st (pvData a0 + x)"
      proof (intro allI impI)
        fix x assume x: "x < data_size a"
        have "mem ?st3 (p + x) = mem st1 (pvData a0 + x)" using x by (simp add: fr memcpy_inside)
        also have "\<dots> = mem st2 (pvData a0 + x)"
          by (rule keeps_mem [OF malloced_keeps [OF m(2)]]) (use lv x in \<open>auto simp: st2\<close>)
        finally show "mem ?st3 (p + x) = mem st (pvData a0 + x)" by (simp add: st2)
      qed
      show "\<forall>x. data_size a \<le> x \<and> x < ?new \<longrightarrow> mem ?st3 (p + x) = 0" using mf(8) by (simp add: fr(2) memcpy_outside)
      show "\<exists>nbk. tblocks st p = None \<and> tblocks ?st3 = (tblocks st)(p \<mapsto> nbk, pvData a0 := None) \<and> mb_len nbk = ?new"
        using mf(6,7) by (auto simp: fr st2)
      show "\<forall>q c x. q \<noteq> pvData a0 \<longrightarrow> tblocks st q = Some c \<longrightarrow> q \<le> x \<and> x < q + mb_len c \<longrightarrow> mem ?st3 x = mem st x"
        using k by (simp add: keeps_def fr)
    qed (use fr mf in \<open>simp_all add: st2\<close>)
  qed
qed

text \<open>The whole call on an array that is not locked.\<close>

lemma resized_cells:
  assumes "sa_ok a" "sa_ok (resized a nb)" "rgsabound a = b # bs" "length is = length bs"
    and "lLbound nb = j" "lLbound b = k"
  shows "cell_addr (resized a nb\<lparr>pvData := p\<rparr>) (is @ [j + i]) - p = cell_addr a (is @ [k + i]) - pvData a"
proof -
  have "bounds_of (resized a nb) = rev bs @ [nb]" "bounds_of a = rev bs @ [b]"
    using assms(3) sa_ok_bounds [OF assms(1)] sa_ok_bounds [OF assms(2)] by (simp_all add: resized_def)
  moreover have "cbElements (resized a nb) = cbElements a" by (simp add: resized_def)
  moreover have "cell_of (rev bs @ [nb]) (is @ [j + i]) = cell_of (rev bs @ [b]) (is @ [k + i])"
    by (rule cell_of_last) (use assms in auto)
  ultimately show ?thesis by (simp add: cell_addr_def bounds_of_def)
qed

text \<open>
  What is left of the array: the new bound, the bytes of the cells both shapes have, zeros behind,
  and the other blocks untouched.
\<close>

definition redimmed :: "ole \<Rightarrow> nat \<Rightarrow> SAFEARRAY \<Rightarrow> SAFEARRAYBOUND \<Rightarrow> ole_state \<Rightarrow> ole_state \<Rightarrow> bool" where
  "redimmed ole psa a nb st st' \<longleftrightarrow> task_ok ole st'
     \<and> (\<exists>p. array st' psa (resized a nb\<lparr>pvData := p\<rparr>)
          \<and> (\<forall>x < min (data_size a) (data_size (resized a nb)). mem st' (p + x) = mem st (pvData a + x))
          \<and> (\<forall>x. data_size a \<le> x \<and> x < data_size (resized a nb) \<longrightarrow> mem st' (p + x) = 0)
          \<and> os_desc st' = (os_desc st)(psa \<mapsto> resized a nb\<lparr>pvData := p\<rparr>))
     \<and> (\<forall>q c. q \<noteq> pvData a \<longrightarrow> tblocks st q = Some c \<longrightarrow>
          tblocks st' q = Some c \<and> (\<forall>x. q \<le> x \<and> x < q + mb_len c \<longrightarrow> mem st' x = mem st x))"

lemma SafeArrayRedim_law:
  assumes ok: "task_ok ole st" and arr: "array st psa a" and pl: "plain a" and un: "cLocks a = 0" and r: "sa_ok (resized a nb)"
  obtains l where "SafeArrayRedim ole psa (Some nb) st = Some (E_OUTOFMEMORY, set_desc psa (resized a l) st)" "lLbound l = lLbound nb"
      "cElements l = cElements (hd (rgsabound a))" "cElements (hd (rgsabound a)) < cElements nb" "refuses ole (data_size (resized a nb)) st"
  | st' where "SafeArrayRedim ole psa (Some nb) st = Some (S_OK, st')" "redimmed ole psa a nb st st'"
proof -
  note ar = arr [unfolded array_def]
  obtain b bs where b: "rgsabound a = b # bs" using sa_ok_hd ar by blast
  define b1 where "b1 = b\<lparr>lLbound := lLbound nb\<rparr>"
  define a1 where "a1 = a\<lparr>cLocks := 1, rgsabound := b1 # bs\<rparr>"
  define st2 where "st2 = set_desc psa a1 st"
  have psa: "psa \<noteq> 0" "os_desc st psa = Some a" using ar by auto
  have lock: "SafeArrayLock psa st = Some (S_OK, set_desc psa (a\<lparr>cLocks := 1\<rparr>) st)" using SafeArrayLock_ok [of psa st a] psa un by simp
  have a1: "rgsabound a1 = b1 # bs" "cLocks a1 = 1" "pvData a1 = pvData a" "a1\<lparr>cLocks := 0\<rparr> = resized a b1" "lLbound b1 = lLbound nb"
    "cElements b1 = cElements b" "resized a1 nb = resized a nb\<lparr>cLocks := 1\<rparr>" "data_size a1 = data_size a" "plain a1" "cbElements a1 = cbElements a"
    using b un pl by (simp_all add: a1_def resized_def b1_def data_size_def plain_def)
  have unlock: "SafeArrayUnlock psa (set_desc psa c s) = Some (S_OK, set_desc psa (c\<lparr>cLocks := 0\<rparr>) s)" if "cLocks c = 1" for c s
    using SafeArrayUnlock_ok [of psa "set_desc psa c s" c] psa that by simp
  have run: "SafeArrayRedim ole psa (Some nb) st = do {
      (ok, st3) \<leftarrow> (if cElements nb = cElements b then Some (True, st2)
                    else if cElements nb < cElements b then do { s \<leftarrow> redim_shorten ole psa nb a1 st2; Some (True, s) }
                    else redim_lengthen ole psa nb a1 st2);
      if \<not> ok then do { (_, st4) \<leftarrow> SafeArrayUnlock psa st3; Some (E_OUTOFMEMORY, st4) }
      else do { c \<leftarrow> os_desc st3 psa;
                (_, st5) \<leftarrow> SafeArrayUnlock psa (set_desc psa (c\<lparr>rgsabound := (rgsabound c)[0 := (hd (rgsabound c))\<lparr>cElements := cElements nb\<rparr>]\<rparr>) st3);
                Some (S_OK, st5) } }"
    using psa lock un ar b by (simp add: SafeArrayRedim_def Let_def st2_def a1_def b1_def cong: if_cong)
  have last: "SafeArrayUnlock psa (set_desc psa (a1\<lparr>pvData := p, rgsabound := (rgsabound a1)[0 := (hd (rgsabound a1))\<lparr>cElements := cElements nb\<rparr>]\<rparr>) s)
      = Some (S_OK, set_desc psa (resized a nb\<lparr>pvData := p\<rparr>) s)" for p s
  proof (subst unlock)
    have "a1\<lparr>pvData := p, rgsabound := (rgsabound a1)[0 := (hd (rgsabound a1))\<lparr>cElements := cElements nb\<rparr>], cLocks := 0\<rparr> = resized a nb\<lparr>pvData := p\<rparr>"
      using un b by (cases a, cases b, cases nb) (simp add: a1_def b1_def resized_def)
    then show "Some (S_OK, set_desc psa (a1\<lparr>pvData := p, rgsabound := (rgsabound a1)[0 := (hd (rgsabound a1))\<lparr>cElements := cElements nb\<rparr>], cLocks := 0\<rparr>) s)
      = Some (S_OK, set_desc psa (resized a nb\<lparr>pvData := p\<rparr>) s)" by simp
  qed (simp add: a1_def)
  have last0: "SafeArrayUnlock psa (set_desc psa (a1\<lparr>rgsabound := (rgsabound a1)[0 := (hd (rgsabound a1))\<lparr>cElements := cElements nb\<rparr>]\<rparr>) s)
      = Some (S_OK, set_desc psa (resized a nb) s)" for s
  proof -
    have "a1\<lparr>pvData := pvData a, rgsabound := X\<rparr> = a1\<lparr>rgsabound := X\<rparr>" for X using a1(3) by (cases a1) simp
    moreover have "resized a nb\<lparr>pvData := pvData a\<rparr> = resized a nb" by (simp add: resized_def)
    ultimately show ?thesis using last [of "pvData a" s] by simp
  qed
  have sa1: "sized a1" "sized (resized a1 nb)" and sa0: "sized a" "sized (resized a nb)"
    using ar r b by (auto simp: sa_ok_def sized_def b1_def resized_def a1_def)
  have keep: "redimmed ole psa a nb st (set_desc psa (resized a nb) st)" if le: "cElements nb \<le> cElements b"
  proof -
    have pv: "resized a nb\<lparr>pvData := pvData a\<rparr> = resized a nb" by (simp add: resized_def)
    have dle: "data_size (resized a nb) \<le> data_size a"
      using le resized_sizes(1,2) [OF sa0 b] by (simp add: mult_le_mono1)
    then have "array (set_desc psa (resized a nb) st) psa (resized a nb)" using ar r by (auto simp: array_def resized_def)
    then show ?thesis unfolding redimmed_def using ok dle by (auto simp: pv intro!: exI [of _ "pvData a"])
  qed
  consider (same) "cElements nb = cElements b" | (less) "cElements nb < cElements b" | (more) "cElements b < cElements nb" by linarith
  then show ?thesis
  proof cases
    case same
    then have "SafeArrayRedim ole psa (Some nb) st = Some (S_OK, set_desc psa (resized a nb) st)"
      using run last0 [of st] by (simp add: st2_def)
    then show ?thesis using that(2) keep same by simp
  next
    case less
    have "dword (cElements nb * cells bs) \<le> cElements nb * cells bs" by (simp add: dword_def)
    also have "\<dots> \<le> cElements b * cells bs" using less by (simp add: mult_le_mono1)
    finally have "dword (cElements nb * (SAFEARRAY_GetCellCount a1 div cElements b1)) \<le> SAFEARRAY_GetCellCount a1"
      using sized_cells [OF sa1(1)] less a1(1,6) by simp
    then have "redim_shorten ole psa nb a1 st2 = Some st2"
      using plain_destroy_data [of st2 psa a1 _ ole] a1(1,9) by (simp add: redim_shorten_def st2_def)
    then have "SafeArrayRedim ole psa (Some nb) st = Some (S_OK, set_desc psa (resized a nb) st)"
      using run less last0 [of st] by (simp add: st2_def)
    then show ?thesis using that(2) keep less by simp
  next
    case more
    have a1': "a1 = a\<lparr>rgsabound := rgsabound a1, cLocks := 1\<rparr>" by (simp add: a1_def)
    have more': "cElements b1 < cElements nb" using more a1(6) by simp
    show ?thesis
    proof (rule redim_lengthen_law [OF ok arr a1' sa1 a1(1,5) st2_def a1(8) more'])
      assume "redim_lengthen ole psa nb a1 st2 = Some (False, st2)" and ref: "refuses ole (data_size (resized a1 nb)) st"
      then have "SafeArrayRedim ole psa (Some nb) st = Some (E_OUTOFMEMORY, set_desc psa (resized a b1) st)"
        using run more unlock [of a1 st] a1(2,4) by (simp add: st2_def)
      then show ?thesis using that(1) [of b1] ref a1(5,6,7) b more by (simp add: data_size_def)
    next
      fix p st3 assume l: "redim_lengthen ole psa nb a1 st2 = Some (True, set_desc psa (a1\<lparr>pvData := p\<rparr>) st3)" "task_ok ole st3"
        "\<forall>x < data_size a1. mem st3 (p + x) = mem st (pvData a + x)" "\<forall>x. data_size a1 \<le> x \<and> x < data_size (resized a1 nb) \<longrightarrow> mem st3 (p + x) = 0"
        "\<exists>nbk. tblocks st p = None \<and> tblocks st3 = (tblocks st)(p \<mapsto> nbk, pvData a := None) \<and> mb_len nbk = data_size (resized a1 nb)"
        "os_desc st3 = os_desc st2" "p \<noteq> 0"
        "\<forall>q c x. q \<noteq> pvData a \<longrightarrow> tblocks st q = Some c \<longrightarrow> q \<le> x \<and> x < q + mb_len c \<longrightarrow> mem st3 x = mem st x"
      let ?st' = "set_desc psa (resized a nb\<lparr>pvData := p\<rparr>) st3"
      have sz: "data_size (resized a1 nb) = data_size (resized a nb)" "data_size a \<le> data_size (resized a nb)"
        using a1(7) resized_sizes(1,2) [OF sa0 b] more by (simp_all add: mult_le_mono1)
      obtain nbk where n: "tblocks st p = None" "tblocks st3 = (tblocks st)(p \<mapsto> nbk, pvData a := None)" "mb_len nbk = data_size (resized a nb)"
        using l(5) sz(1) by auto
      have ne: "p \<noteq> pvData a" "p \<noteq> psa - 16" using ar n(1) by auto
      have "SafeArrayRedim ole psa (Some nb) st = Some (S_OK, ?st')" using run more l(1) last [of p st3] by simp
      moreover have "array ?st' psa (resized a nb\<lparr>pvData := p\<rparr>)"
        using ar r n l(7) ne by (auto simp: array_def resized_def)
      then have "redimmed ole psa a nb st ?st'"
        unfolding redimmed_def using l n sz a1(8) ne by (auto simp: st2_def intro!: exI [of _ p])
      ultimately show ?thesis using that(2) by blast
    qed
  qed
qed

end
