(* ===== verification/Safearray_Props.thy ===== *)
theory Safearray_Props
  imports Safearray_Resize
begin

text \<open>The properties of safe arrays, and a concrete array they are applied to.\<close>

section \<open>A concrete array\<close>

text \<open>Two dimensions of shorts on a fresh heap: first index from -1 to 1, second from 10 to 11.\<close>

definition ole0 :: ole where
  "ole0 = \<lparr>ole_os = bump_os, ole_malloc = \<lambda>_ _. None, ole_GetSize = \<lambda>_. 0, ole_RecordClear = \<lambda>_ _ st. st,
     ole_RecordCopy = \<lambda>_ _ _ st. (S_OK, st), ole_VariantClear = \<lambda>_ _. None, ole_VariantCopy = \<lambda>_ _ _. None\<rparr>"

definition st0 :: ole_state where
  "st0 = \<lparr>os_al = \<lparr>as_heap = start, as_al = \<lparr>al_spy = None, al_spyed = 0, al_pending = False, al_blocks = 0, al_length = 0\<rparr>\<rparr>,
     os_desc = Map.empty, os_cblocks = Map.empty, os_calls = []\<rparr>"

definition bounds0 :: "SAFEARRAYBOUND list" where
  "bounds0 = [\<lparr>cElements = 3, lLbound = - 1\<rparr>, \<lparr>cElements = 2, lLbound = 10\<rparr>]"

lemma st0_inv: "sa_inv ole0 st0" "task_ok ole0 st0"
  using start_fresh bump_os_ok by (simp_all add: sa_inv_def task_ok_def ole0_def st0_def)

lemmas sa_run_defs = SafeArrayCreate_def SAFEARRAY_Create_def SafeArrayAllocDescriptorEx_def SafeArrayAllocDescriptor_def
  SAFEARRAY_AllocDescriptor_def SAFEARRAY_SetFeatures_def SafeArrayAllocData_def SAFEARRAY_Malloc_def CoTaskMemAlloc_def CMalloc_Alloc_def
  SAFEARRAY_SetHiddenDWORD_def SAFEARRAY_GetCellCount_def SAFEARRAY_GetVTSize_def vt_defs sizeof_SAFEARRAY_def sizeof_SAFEARRAYBOUND_def
  SAFEARRAY_HIDDEN_SIZE_def type_feature_def put_mem_def set_desc_def GetProcessHeap_def

lemma created0: "\<exists>st. SafeArrayCreate ole0 VT_I2 2 (Some bounds0) st0 = Some (4120, st)"
  by (simp add: sa_run_defs run_defs st0_def ole0_def bounds0_def)


text \<open>A created array as the laws on arrays want it.\<close>

lemma created_array:
  assumes inv: "sa_inv ole st" and c: "created ole vt dims bs psa st st'" and d: "length bs = dims" "dims < 65536" "plain_vt vt"
  obtains a hb db where "a = new_desc vt dims\<lparr>rgsabound := rev bs, pvData := pvData a\<rparr>" "own_blocks a psa st st' hb db" "array st' psa a"
    "typed st' psa a vt" "bounds_of a = bs" "cLocks a = 0" "sa_inv ole st'" "psa \<noteq> 0" "sa_ok a"
    "\<forall>i < data_size a. mem st' (pvData a + i) = 0"
proof -
  obtain p hb db where o: "own_blocks (new_desc vt dims\<lparr>rgsabound := rev bs, pvData := p\<rparr>) psa st st' hb db"
      and z: "\<forall>i < cells bs * SAFEARRAY_GetVTSize vt. mem st' (p + i) = 0" and ok: "task_ok ole st'" and t: "load 4 (psa - 4) (mem st') = vt"
    using c by (auto simp: created_def)
  let ?a = "new_desc vt dims\<lparr>rgsabound := rev bs, pvData := p\<rparr>"
  have arr: "array st' psa ?a" using o by (simp add: own_blocks_def)
  then have "16 \<le> psa" "sa_ok ?a" by (simp_all add: array_def)
  moreover have "sa_inv ole st'" unfolding sa_inv_def
  proof (intro conjI allI impI ok)
    fix q b assume q: "os_desc st' q = Some b"
    show "16 \<le> q" "tblocks st' (q - 16) \<noteq> None"
      using q o inv \<open>16 \<le> psa\<close> by (auto simp: own_blocks_def sa_inv_def split: if_splits)
  qed
  ultimately show ?thesis
    using that [of ?a hb db] o z arr t d by (simp add: typed_def bounds_of_def data_size_def)
qed

lemma bounds0_ok: "list_all bound_ok bounds0" "cells bounds0 * SAFEARRAY_GetVTSize VT_I2 < 4294967296" "plain_vt VT_I2" "length bounds0 = 2"
  by (simp_all add: bounds0_def bound_ok_def in_int32_def SAFEARRAY_GetVTSize_def vt_defs plain_vt_def)

lemma array0:
  obtains st a where "SafeArrayCreate ole0 VT_I2 2 (Some bounds0) st0 = Some (4120, st)" "created ole0 VT_I2 2 bounds0 4120 st0 st"
    "array st 4120 a" "typed st 4120 a VT_I2" "bounds_of a = bounds0" "cLocks a = 0" "sa_inv ole0 st" "cDims a = 2" "cbElements a = 2"
    "rgsabound a = rev bounds0" "\<forall>i < data_size a. mem st (pvData a + i) = 0"
proof -
  obtain st where st: "SafeArrayCreate ole0 VT_I2 2 (Some bounds0) st0 = Some (4120, st)" using created0 by blast
  have "created ole0 VT_I2 2 bounds0 4120 st0 st"
    by (rule SafeArrayCreate_law [OF st0_inv(1) _ _ bounds0_ok(4,3,1,2)]) (use st in auto)
  moreover obtain a hb db where a: "a = new_desc VT_I2 2\<lparr>rgsabound := rev bounds0, pvData := pvData a\<rparr>" "array st 4120 a" "typed st 4120 a VT_I2"
      "bounds_of a = bounds0" "cLocks a = 0" "sa_inv ole0 st" "\<forall>i < data_size a. mem st (pvData a + i) = 0"
    by (rule created_array [OF st0_inv(1) calculation bounds0_ok(4) _ bounds0_ok(3)]) auto
  moreover have "cDims a = 2" "cbElements a = 2" "rgsabound a = rev bounds0"
    using arg_cong [OF a(1), of cDims] arg_cong [OF a(1), of cbElements] arg_cong [OF a(1), of rgsabound]
    by (simp_all add: SAFEARRAY_GetVTSize_def vt_defs)
  ultimately show ?thesis using that [of st a] st by simp
qed

section \<open>Indexing\<close>

text \<open>C20: on an array whose bounds stay below the largest \<^verbatim>\<open>LONG\<close> and whose data is smaller than 4 GB, \<open>SafeArrayPtrOfIndex\<close>
  refuses exactly the indices outside the bounds and takes the others to the cell of their mixed-radix number: inside the
  data, and disjoint from the cell of every other index.\<close>

theorem SafeArrayPtrOfIndex_cells:
  assumes "psa \<noteq> 0" "os_desc st psa = Some a" "sa_ok a" "length is = cDims a"
  shows "SafeArrayPtrOfIndex psa (Some is) st =
      Some (if inside (bounds_of a) is then (S_OK, pvData a + cbElements a * cell_of (bounds_of a) is) else (DISP_E_BADINDEX, 0))
    \<and> (SafeArrayPtrOfIndex psa (Some is) st = Some (S_OK, p) \<longrightarrow> pvData a \<le> p \<and> p + cbElements a \<le> pvData a + data_size a
        \<and> (\<forall>js q. length js = cDims a \<and> js \<noteq> is \<and> SafeArrayPtrOfIndex psa (Some js) st = Some (S_OK, q) \<longrightarrow> p + cbElements a \<le> q \<or> q + cbElements a \<le> p))"
proof -
  note spec = SafeArrayPtrOfIndex_spec [OF assms(1-3)]
  have "pvData a \<le> p \<and> p + cbElements a \<le> pvData a + data_size a
      \<and> (\<forall>js q. length js = cDims a \<and> js \<noteq> is \<and> SafeArrayPtrOfIndex psa (Some js) st = Some (S_OK, q) \<longrightarrow> p + cbElements a \<le> q \<or> q + cbElements a \<le> p)"
    if "SafeArrayPtrOfIndex psa (Some is) st = Some (S_OK, p)"
  proof -
    have p: "inside (bounds_of a) is" "p = cell_addr a is" using that spec [OF assms(4)] by (auto split: if_splits)
    have "p + cbElements a \<le> q \<or> q + cbElements a \<le> p"
      if "length js = cDims a" "js \<noteq> is" "SafeArrayPtrOfIndex psa (Some js) st = Some (S_OK, q)" for js q
    proof -
      have q: "inside (bounds_of a) js" "q = cell_addr a js" using that spec [OF that(1)] by (auto split: if_splits)
      show ?thesis using cell_addr_apart [OF assms(3) p(1) q(1)] p(2) q(2) that(2) by blast
    qed
    then show ?thesis using cell_addr_bounds [OF assms(3) p(1)] p(2) by blast
  qed
  then show ?thesis using spec [OF assms(4)] by (simp add: cell_addr_def)
qed

theorem SafeArrayPtrOfIndex_cells_witness:
  "\<exists>st a. SafeArrayPtrOfIndex 4120 (Some [1, 11]) st = Some (S_OK, pvData a + 10) \<and> os_desc st 4120 = Some a \<and> data_size a = 12
     \<and> SafeArrayPtrOfIndex 4120 (Some [2, 10]) st = Some (DISP_E_BADINDEX, 0)"
proof (rule array0)
  fix st a assume a: "array st 4120 a" "bounds_of a = bounds0" "cDims a = 2" "cbElements a = 2" "rgsabound a = rev bounds0"
  have d: "os_desc st 4120 = Some a" "sa_ok a" using a(1) by (simp_all add: array_def)
  note th = SafeArrayPtrOfIndex_cells [OF _ d, THEN conjunct1]
  have "SafeArrayPtrOfIndex 4120 (Some [1, 11]) st = Some (S_OK, pvData a + 10)" "SafeArrayPtrOfIndex 4120 (Some [2, 10]) st = Some (DISP_E_BADINDEX, 0)"
    using th [of "[1, 11]"] th [of "[2, 10]"] a by (simp_all add: bounds0_def index_in_def)
  moreover have "data_size a = 12" using a by (simp add: data_size_def bounds0_def)
  ultimately show ?thesis using d by blast
qed

section \<open>Elements\<close>

text \<open>C21: an element put into an array of numbers is the element got back at the same indices, and an element
  at other indices is got as it was; neither call changes the descriptor, and no byte changes outside the cell and
  the caller's buffer.\<close>

theorem SafeArrayPut_Get:
  assumes "os_desc st psa = Some a" "psa \<noteq> 0" "sa_ok a" "plain a" "pvData a \<noteq> 0" "0 \<le> cLocks a" "cLocks a < 65535"
    and "length is = cDims a" "length js = cDims a" "inside (bounds_of a) is" "inside (bounds_of a) js" "pv \<noteq> 0"
    and "SafeArrayPutElement ole psa (Some is) pw st = Some (hr, st1)" "SafeArrayGetElement ole psa (Some js) pv st1 = Some (hr', st2)"
  shows "hr = S_OK \<and> hr' = S_OK \<and> os_desc st2 = os_desc st
    \<and> (\<forall>k < cbElements a. mem st2 (pv + k) = (if js = is then mem st (pw + k) else mem st (cell_addr a js + k)))
    \<and> (\<forall>x. (x < pv \<or> pv + cbElements a \<le> x) \<and> (x < cell_addr a is \<or> cell_addr a is + cbElements a \<le> x) \<longrightarrow> mem st2 x = mem st x)"
proof -
  let ?n = "cbElements a" and ?m = "memcpy (cell_addr a is) pw (cbElements a) (mem st)"
  have p: "hr = S_OK" "st1 = put_mem ?m st"
    using SafeArrayPutElement_law [OF assms(2,1,3-8), of ole pw] assms(10,13) by simp_all
  have g: "hr' = S_OK" "st2 = put_mem (memcpy pv (cell_addr a js) ?n ?m) st1"
    using SafeArrayGetElement_law [OF assms(2) _ assms(3-7,9,12), of st1 ole] assms(1,11,14) p(2) by simp_all
  have "?m (cell_addr a js + k) = (if js = is then mem st (pw + k) else mem st (cell_addr a js + k))" if "k < ?n" for k
    using that cell_addr_apart [OF assms(3,10,11)] by (auto simp: memcpy_def)
  then have "\<forall>k < ?n. mem st2 (pv + k) = (if js = is then mem st (pw + k) else mem st (cell_addr a js + k))"
    by (simp add: g(2) memcpy_inside)
  moreover have "mem st2 x = mem st x" if "x < pv \<or> pv + ?n \<le> x" "x < cell_addr a is \<or> cell_addr a is + ?n \<le> x" for x
    using that by (simp add: g(2) p(2) memcpy_outside)
  ultimately show ?thesis using p g by simp
qed

theorem SafeArrayPut_Get_witness:
  "\<exists>st st1 st2 a. SafeArrayPutElement ole0 4120 (Some [1, 11]) 100 st = Some (S_OK, st1) \<and> SafeArrayGetElement ole0 4120 (Some [1, 11]) 200 st1 = Some (S_OK, st2)
     \<and> mem st2 200 = mem st 100 \<and> os_desc st 4120 = Some a \<and> mem st1 (pvData a + 10) = mem st 100"
proof (rule array0)
  fix st a assume a: "array st 4120 a" "typed st 4120 a VT_I2" "bounds_of a = bounds0" "cLocks a = 0" "cDims a = 2" "cbElements a = 2"
  have d: "os_desc st 4120 = Some a" "sa_ok a" "plain a" "pvData a \<noteq> 0" using a(1) typed_plain [OF a(2)] by (simp_all add: array_def)
  have i: "inside (bounds_of a) [1, 11]" by (simp add: a bounds0_def index_in_def)
  have ca: "cell_addr a [1, 11] = pvData a + 10" using a by (simp add: cell_addr_def bounds0_def)
  obtain st1 where p: "SafeArrayPutElement ole0 4120 (Some [1, 11]) 100 st = Some (S_OK, st1)" "st1 = put_mem (memcpy (pvData a + 10) 100 2 (mem st)) st"
    using SafeArrayPutElement_law [of 4120 st a "[1, 11]" ole0 100] d i a ca by simp
  obtain st2 where g: "SafeArrayGetElement ole0 4120 (Some [1, 11]) 200 st1 = Some (S_OK, st2)"
    using SafeArrayGetElement_law [of 4120 st1 a "[1, 11]" 200 ole0] d i a p(2) by simp
  have "\<forall>k < cbElements a. mem st2 (200 + k) = mem st (100 + k)"
    using SafeArrayPut_Get [OF d(1) _ d(2-4) _ _ _ _ i i _ p(1) g] a by simp
  then have "mem st2 200 = mem st 100" using a(6) by (metis add_0_right zero_less_numeral)
  moreover have "mem st1 (pvData a + 10) = mem st 100" by (simp add: p(2) memcpy_inside)
  ultimately show ?thesis using p(1) g d(1) by blast
qed

section \<open>Locks\<close>

text \<open>The same call made \<open>n\<close> times, each of them successful.\<close>

fun calls :: "nat \<Rightarrow> (ole_state \<Rightarrow> (HRESULT \<times> ole_state) option) \<Rightarrow> ole_state \<Rightarrow> ole_state option" where
  "calls 0 f st = Some st"
| "calls (Suc n) f st = (case f st of Some (S_OK, st1) \<Rightarrow> calls n f st1 | _ \<Rightarrow> None)"

lemma lock_times:
  "psa \<noteq> 0 \<Longrightarrow> os_desc st psa = Some a \<Longrightarrow> 0 \<le> cLocks a \<Longrightarrow> cLocks a + int n \<le> 65535 \<Longrightarrow>
   calls n (SafeArrayLock psa) st = Some (set_desc psa (a\<lparr>cLocks := cLocks a + int n\<rparr>) st)"
proof (induction n arbitrary: st a)
  case (Suc n)
  let ?st1 = "set_desc psa (a\<lparr>cLocks := cLocks a + 1\<rparr>) st"
  have "SafeArrayLock psa st = Some (S_OK, ?st1)" using Suc.prems SafeArrayLock_ok by simp
  then show ?case using Suc.IH [of ?st1 "a\<lparr>cLocks := cLocks a + 1\<rparr>"] Suc.prems by (simp add: add.assoc)
qed simp

lemma unlock_times:
  "psa \<noteq> 0 \<Longrightarrow> os_desc st psa = Some a \<Longrightarrow> int n \<le> cLocks a \<Longrightarrow> cLocks a \<le> 65535 \<Longrightarrow>
   calls n (SafeArrayUnlock psa) st = Some (set_desc psa (a\<lparr>cLocks := cLocks a - int n\<rparr>) st)"
proof (induction n arbitrary: st a)
  case (Suc n)
  let ?st1 = "set_desc psa (a\<lparr>cLocks := cLocks a - 1\<rparr>) st"
  have "SafeArrayUnlock psa st = Some (S_OK, ?st1)" using Suc.prems SafeArrayUnlock_ok by simp
  then show ?case using Suc.IH [of ?st1 "a\<lparr>cLocks := cLocks a - 1\<rparr>"] Suc.prems by (simp add: diff_diff_eq)
qed simp

text \<open>An array can be locked up to 65535 times at once. While a lock is held it can be neither destroyed nor resized, and
  the calls that try change nothing; as many unlocks give the very same state back, one more is an error that changes
  nothing, and so is the 65536th lock.\<close>

theorem SafeArrayLock_protects:
  assumes "psa \<noteq> 0" "os_desc st psa = Some a" "cLocks a = 0" "0 < n" "n \<le> 65535" "\<not> has (fFeatures a) FADF_FIXEDSIZE"
  shows "\<exists>st'. calls n (SafeArrayLock psa) st = Some st'
    \<and> SafeArrayDestroy ole psa st' = Some (DISP_E_ARRAYISLOCKED, st')
    \<and> SafeArrayDestroyData ole psa st' = Some (DISP_E_ARRAYISLOCKED, st')
    \<and> SafeArrayDestroyDescriptor ole psa st' = Some (DISP_E_ARRAYISLOCKED, st')
    \<and> SafeArrayRedim ole psa (Some nb) st' = Some (DISP_E_ARRAYISLOCKED, st')
    \<and> calls n (SafeArrayUnlock psa) st' = Some st \<and> SafeArrayUnlock psa st = Some (E_UNEXPECTED, st)
    \<and> (n = 65535 \<longrightarrow> SafeArrayLock psa st' = Some (E_UNEXPECTED, st'))"
proof (intro exI conjI)
  let ?st' = "set_desc psa (a\<lparr>cLocks := int n\<rparr>) st"
  show "calls n (SafeArrayLock psa) st = Some ?st'" using lock_times [OF assms(1,2), of n] assms by simp
  show "SafeArrayDestroy ole psa ?st' = Some (DISP_E_ARRAYISLOCKED, ?st')" using assms by (simp add: SafeArrayDestroy_def)
  show "SafeArrayDestroyData ole psa ?st' = Some (DISP_E_ARRAYISLOCKED, ?st')" using assms by (simp add: SafeArrayDestroyData_def)
  show "SafeArrayDestroyDescriptor ole psa ?st' = Some (DISP_E_ARRAYISLOCKED, ?st')" using assms by (simp add: SafeArrayDestroyDescriptor_def)
  show "SafeArrayRedim ole psa (Some nb) ?st' = Some (DISP_E_ARRAYISLOCKED, ?st')" using assms by (simp add: SafeArrayRedim_def)
  show "calls n (SafeArrayUnlock psa) ?st' = Some st"
    using unlock_times [of psa ?st' "a\<lparr>cLocks := int n\<rparr>" n] assms by (simp add: set_desc_same)
  show "SafeArrayUnlock psa st = Some (E_UNEXPECTED, st)" by (rule SafeArrayUnlock_none [OF assms(1-3)])
  show "n = 65535 \<longrightarrow> SafeArrayLock psa ?st' = Some (E_UNEXPECTED, ?st')" using SafeArrayLock_full [of psa ?st'] assms(1) by simp
qed

theorem SafeArrayLock_protects_witness:
  "\<exists>st st'. calls 2 (SafeArrayLock 4120) st = Some st' \<and> SafeArrayDestroy ole0 4120 st' = Some (DISP_E_ARRAYISLOCKED, st')
     \<and> calls 2 (SafeArrayUnlock 4120) st' = Some st"
proof (rule array0)
  fix st a assume a: "array st 4120 a" "cLocks a = 0"
  have d: "os_desc st 4120 = Some a" "\<not> has (fFeatures a) FADF_FIXEDSIZE" using a(1) by (simp_all add: array_def)
  show ?thesis using SafeArrayLock_protects [OF _ d(1) a(2) _ _ d(2), where n = 2 and ole = ole0 and nb = "\<lparr>cElements = 1, lLbound = 0\<rparr>"]
    by simp blast
qed

section \<open>Creation and destruction\<close>

text \<open>C22: \<open>SafeArrayCreate\<close> of numbers either returns null with every block and descriptor as before, or a zeroed array
  with the bounds asked for in blocks of its own, no live block changed; \<open>SafeArrayDestroy\<close> of the new array takes
  exactly its blocks and its descriptor away again.\<close>

theorem SafeArrayCreate_Destroy:
  assumes "sa_inv ole st" "0 < dims" "dims < 65536" "length bs = dims" "plain_vt vt" "list_all bound_ok bs"
    and "cells bs * SAFEARRAY_GetVTSize vt < 4294967296"
  shows "\<exists>psa st'. SafeArrayCreate ole vt dims (Some bs) st = Some (psa, st') \<and> keeps st st' \<and> sa_inv ole st'
    \<and> (psa = 0 \<longrightarrow> tblocks st' = tblocks st \<and> os_desc st' = os_desc st)
    \<and> (psa \<noteq> 0 \<longrightarrow> (\<exists>a st''. array st' psa a \<and> bounds_of a = bs \<and> cbElements a = SAFEARRAY_GetVTSize vt
        \<and> (\<forall>i < data_size a. mem st' (pvData a + i) = 0)
        \<and> SafeArrayDestroy ole psa st' = Some (S_OK, st'') \<and> tblocks st'' = tblocks st \<and> os_desc st'' = os_desc st \<and> keeps st st''))"
proof (rule SafeArrayCreate_law [OF assms])
  fix st' assume "SafeArrayCreate ole vt dims (Some bs) st = Some (0, st')" "unchanged ole st st'"
  then show ?thesis using assms(1) by (auto simp: unchanged_def sa_inv_def)
next
  fix psa st' assume c: "SafeArrayCreate ole vt dims (Some bs) st = Some (psa, st')" "psa \<noteq> 0" "created ole vt dims bs psa st st'"
  obtain a hb db where a: "a = new_desc vt dims\<lparr>rgsabound := rev bs, pvData := pvData a\<rparr>" "own_blocks a psa st st' hb db" "array st' psa a"
      "typed st' psa a vt" "bounds_of a = bs" "cLocks a = 0" "sa_inv ole st'" "\<forall>i < data_size a. mem st' (pvData a + i) = 0"
    by (rule created_array [OF assms(1) c(3) assms(4,3,5)]) auto
  have ok: "task_ok ole st'" and k: "keeps st st'" using c(3) by (simp_all add: created_def)
  obtain st'' where d: "SafeArrayDestroy ole psa st' = Some (S_OK, st'')" "mem st'' = mem st'"
      "tblocks st'' = (tblocks st')(pvData a := None, psa - 16 := None)" "os_desc st'' = (os_desc st')(psa := None)"
    by (rule SafeArrayDestroy_law [OF ok a(3) typed_plain [OF a(4)] a(6)])
  have fresh: "tblocks st (psa - 16) = None" "tblocks st (pvData a) = None" "os_desc st psa = None"
    using a(2) sa_inv_fresh [OF assms(1), of "psa - 16"] by (auto simp: own_blocks_def array_def)
  then have "tblocks st'' = tblocks st" "os_desc st'' = os_desc st" using a(2) d by (auto simp: own_blocks_def fun_eq_iff)
  moreover have "keeps st st''" using k d(2) calculation(1) by (simp add: keeps_def)
  moreover have "cbElements a = SAFEARRAY_GetVTSize vt" using a(4) by (simp add: typed_def)
  ultimately show ?thesis using c(1,2) k a d(1) by blast
qed

theorem SafeArrayCreate_Destroy_witness:
  "\<exists>st a st''. SafeArrayCreate ole0 VT_I2 2 (Some bounds0) st0 = Some (4120, st) \<and> array st 4120 a \<and> bounds_of a = bounds0
     \<and> SafeArrayDestroy ole0 4120 st = Some (S_OK, st'') \<and> tblocks st'' = tblocks st0 \<and> os_desc st'' = os_desc st0"
  using created0 SafeArrayCreate_Destroy [OF st0_inv(1) _ _ bounds0_ok(4,3,1,2)] by force

section \<open>Copying\<close>

text \<open>C23: \<open>SafeArrayCopy\<close> of an array of numbers makes an unlocked array of the same bounds and type whose descriptor and data are in two blocks that
  were not live before, so that it shares nothing with the source, and every element of which is the element of the source; or there is no
  memory for one of these blocks, and every block and descriptor is as it was. The source and all other blocks keep their bytes.\<close>

theorem SafeArrayCopy_elements:
  assumes "sa_inv ole st" "array st psa a" "typed st psa a vt"
  shows "\<exists>hr out st'. SafeArrayCopy ole psa st = Some (hr, out, st') \<and> keeps st st' \<and> os_desc st' psa = Some a
    \<and> (hr \<noteq> S_OK \<longrightarrow> hr = E_OUTOFMEMORY \<and> copy_refused ole a st \<and> out = 0 \<and> tblocks st' = tblocks st \<and> os_desc st' = os_desc st)
    \<and> (hr = S_OK \<longrightarrow> out \<noteq> psa \<and> (\<exists>b hb db. array st' out b \<and> typed st' out b vt \<and> rgsabound b = rgsabound a \<and> cLocks b = 0
        \<and> tblocks st (out - 16) = None \<and> tblocks st (pvData b) = None
        \<and> tblocks st' = (tblocks st)(out - 16 \<mapsto> hb, pvData b \<mapsto> db) \<and> os_desc st' = (os_desc st)(out \<mapsto> b)
        \<and> (\<forall>is k. inside (bounds_of a) is \<longrightarrow> k < cbElements a \<longrightarrow> mem st' (cell_addr b is + k) = mem st (cell_addr a is + k))))"
proof (rule SafeArrayCopy_law [OF assms])
  fix st' assume "SafeArrayCopy ole psa st = Some (E_OUTOFMEMORY, 0, st')" "unchanged ole st st'" "copy_refused ole a st"
  then show ?thesis using assms(2) by (auto simp: unchanged_def array_def)
next
  fix out b st' hb db assume c: "SafeArrayCopy ole psa st = Some (S_OK, out, st')" "own_blocks b out st st' hb db" "task_ok ole st'" "keeps st st'"
    "b = a\<lparr>pvData := pvData b, cLocks := 0\<rparr>" "typed st' out b vt" "same_cells a st b st'" "out \<noteq> psa"
  have f: "rgsabound b = rgsabound a" "cLocks b = 0" "cbElements b = cbElements a" "bounds_of b = bounds_of a"
    using arg_cong [OF c(5), of rgsabound] arg_cong [OF c(5), of cLocks] arg_cong [OF c(5), of cbElements] arg_cong [OF c(5), of bounds_of] by simp_all
  have cells: "mem st' (cell_addr b is + k) = mem st (cell_addr a is + k)" if "inside (bounds_of a) is" "k < cbElements a" for "is" k
  proof -
    have "sa_ok a" using assms(2) by (simp add: array_def)
    then have "cbElements a * cell_of (bounds_of a) is + k < data_size a" using cell_addr_bounds(2) [OF _ that(1)] that(2) by (simp add: cell_addr_def)
    then show ?thesis using c(7) f(3,4) by (simp add: same_cells_def cell_addr_def add.assoc)
  qed
  note own = c(2) [unfolded own_blocks_def]
  then have "os_desc st' psa = Some a" using c(8) assms(2) by (simp add: array_def)
  moreover have "\<exists>b hb db. array st' out b \<and> typed st' out b vt \<and> rgsabound b = rgsabound a \<and> cLocks b = 0
        \<and> tblocks st (out - 16) = None \<and> tblocks st (pvData b) = None
        \<and> tblocks st' = (tblocks st)(out - 16 \<mapsto> hb, pvData b \<mapsto> db) \<and> os_desc st' = (os_desc st)(out \<mapsto> b)
        \<and> (\<forall>is k. inside (bounds_of a) is \<longrightarrow> k < cbElements a \<longrightarrow> mem st' (cell_addr b is + k) = mem st (cell_addr a is + k))"
    using own c(6) f(1,2) cells by blast
  ultimately show ?thesis using c(1,4,8) by auto
qed

text \<open>The concrete system has pages for the copy.\<close>

definition heaps0 :: "(nat \<times> HeapInfo) list" where
  "heaps0 = [(65536, \<lparr>hi_option = 0, hi_dwInitialSize = 0, hi_dwMaximumSize = 0, hi_lstMem =
     [\<lparr>mb_len = 56, mb_flushLen = 0, mb_allocSize = 4088, mb_ptr = 4104, mb_flags = 0\<rparr>,
      \<lparr>mb_len = 12, mb_flushLen = 0, mb_allocSize = 4088, mb_ptr = 12296, mb_flags = 0\<rparr>]\<rparr>)]"

lemma created0_heaps: "\<exists>st. SafeArrayCreate ole0 VT_I2 2 (Some bounds0) st0 = Some (4120, st) \<and> ms_heaps (heap st) = heaps0
    \<and> ms_process (heap st) = 65536 \<and> al_spy (as_al (os_al st)) = None"
  by (simp add: sa_run_defs run_defs st0_def ole0_def bounds0_def heaps0_def size_sub_def)

lemma copy_granted0:
  assumes "ms_heaps (heap st) = heaps0" "ms_process (heap st) = 65536" "al_spy (as_al (os_al st)) = None" "cDims a = 2" "data_size a = 12"
  shows "\<not> copy_refused ole0 a st"
proof -
  have "\<not> refuses ole0 56 st" using assms(1) by (simp add: refuses_def ole0_def run_defs heaps0_def)
  moreover have "\<not> refuses ole0 12 (put_mem m s)" if "SAFEARRAY_Malloc ole0 56 st = Some (q, s)" for q s m
    using that assms(1-3) by (auto simp: refuses_def ole0_def run_defs heaps0_def SAFEARRAY_Malloc_def CoTaskMemAlloc_def CMalloc_Alloc_def
      GetProcessHeap_def put_mem_def size_sub_def split: if_splits)
  ultimately show ?thesis using assms(4,5) by (auto simp: copy_refused_def)
qed

text \<open>The copy of the concrete array succeeds, and its second element of the second row is that of the source.\<close>

theorem SafeArrayCopy_elements_witness:
  "\<exists>st out st' a b. SafeArrayCopy ole0 4120 st = Some (S_OK, out, st') \<and> os_desc st' 4120 = Some a \<and> os_desc st' out = Some b
     \<and> pvData b \<noteq> pvData a \<and> mem st' (cell_addr b [1, 11]) = mem st (cell_addr a [1, 11])"
proof (rule array0)
  fix st a assume a: "SafeArrayCreate ole0 VT_I2 2 (Some bounds0) st0 = Some (4120, st)" "array st 4120 a" "typed st 4120 a VT_I2" "sa_inv ole0 st"
    "cDims a = 2" "cbElements a = 2" "bounds_of a = bounds0" "rgsabound a = rev bounds0"
  have "data_size a = 12" using a(6,8) by (simp add: data_size_def bounds0_def)
  then have g: "\<not> copy_refused ole0 a st" using created0_heaps a(1,5) copy_granted0 by auto
  obtain out st' where c: "SafeArrayCopy ole0 4120 st = Some (S_OK, out, st')"
    using SafeArrayCopy_elements [OF a(4,2,3)] g by blast
  obtain b where b: "os_desc st' 4120 = Some a" "os_desc st' out = Some b" "tblocks st (pvData b) = None"
      "\<forall>is k. inside (bounds_of a) is \<longrightarrow> k < cbElements a \<longrightarrow> mem st' (cell_addr b is + k) = mem st (cell_addr a is + k)"
    using SafeArrayCopy_elements [OF a(4,2,3)] c by (auto simp: array_def)
  have "inside (bounds_of a) [1, 11]" using a(7) by (simp add: bounds0_def index_in_def)
  then have "mem st' (cell_addr b [1, 11]) = mem st (cell_addr a [1, 11])" using b(4) a(6) by (metis add_0_right zero_less_numeral)
  moreover have "pvData b \<noteq> pvData a" using b(3) a(2) by (auto simp: array_def)
  ultimately show ?thesis using c b by blast
qed

section \<open>Resizing\<close>

text \<open>The cells that only the new shape has are behind the old data.\<close>

lemma cell_of_snoc: "length is = length bs \<Longrightarrow> cell_of (bs @ [c]) (is @ [lLbound c + i]) = cell_of bs is + cells bs * nat i"
proof (induction bs "is" rule: cell_of.induct)
  case (1 b bs i' is')
  then show ?case by (simp add: cells_def algebra_simps)
qed (simp_all add: cells_def)

lemma new_cell_behind:
  assumes "sa_ok a" "sa_ok (resized a nb)" "rgsabound a = b # bs" "length is = length bs" "int (cElements b) \<le> i"
  shows "data_size a \<le> cell_addr (resized a nb\<lparr>pvData := p\<rparr>) (is @ [lLbound nb + i]) - p"
proof -
  have e: "bounds_of (resized a nb) = rev bs @ [nb]" "cells (rgsabound a) = cElements b * cells (rev bs)" "cbElements (resized a nb) = cbElements a"
    using assms(3) sa_ok_bounds [OF assms(2)] by (simp_all add: resized_def cells_def rev_map [symmetric] prod_list.rev)
  have "cElements b \<le> nat i" using assms(5) by simp
  then have "cells (rgsabound a) \<le> cell_of (rev bs) is + cells (rev bs) * nat i" unfolding e(2) by (simp add: mult.commute trans_le_add2 mult_le_mono)
  then have "cells (rgsabound a) * cbElements a \<le> cbElements a * (cell_of (rev bs) is + cells (rev bs) * nat i)" by (simp add: mult.commute mult_le_mono)
  then show ?thesis using assms(4) by (simp add: cell_addr_def e(1,3) data_size_def cell_of_snoc)
qed

text \<open>C24: \<open>SafeArrayRedim\<close> of an unlocked array of numbers to a bound that keeps it below 4 GB either gets no memory for a longer array, and then
  all it has changed is the lower bound of the last dimension, or succeeds: the array has the new bound, every element
  whose indices, counted from the lower bounds, are in both shapes keeps its value, every element that is only in the new shape is zero, no other
  descriptor has changed, and every block that is not the old data is live as before with the same bytes.\<close>

theorem SafeArrayRedim_elements:
  assumes "task_ok ole st" "array st psa a" "plain a" "cLocks a = 0" "sa_ok (resized a nb)" "rgsabound a = b # bs"
  shows "\<exists>hr st'. SafeArrayRedim ole psa (Some nb) st = Some (hr, st')
    \<and> (hr \<noteq> S_OK \<longrightarrow> hr = E_OUTOFMEMORY \<and> cElements b < cElements nb \<and> refuses ole (data_size (resized a nb)) st
        \<and> st' = set_desc psa (resized a (b\<lparr>lLbound := lLbound nb\<rparr>)) st)
    \<and> (hr = S_OK \<longrightarrow> (\<exists>p. array st' psa (resized a nb\<lparr>pvData := p\<rparr>) \<and> os_desc st' = (os_desc st)(psa \<mapsto> resized a nb\<lparr>pvData := p\<rparr>)
        \<and> (\<forall>is i k. length is = length bs \<longrightarrow> inside (bounds_of (resized a nb)) (is @ [lLbound nb + i]) \<longrightarrow> k < cbElements a
             \<longrightarrow> mem st' (cell_addr (resized a nb\<lparr>pvData := p\<rparr>) (is @ [lLbound nb + i]) + k)
                 = (if i < int (cElements b) then mem st (cell_addr a (is @ [lLbound b + i]) + k) else 0)))
        \<and> (\<forall>q c. q \<noteq> pvData a \<longrightarrow> tblocks st q = Some c
             \<longrightarrow> tblocks st' q = Some c \<and> (\<forall>x. q \<le> x \<and> x < q + mb_len c \<longrightarrow> mem st' x = mem st x)))"
proof (rule SafeArrayRedim_law [OF assms(1-5)])
  fix l assume l: "SafeArrayRedim ole psa (Some nb) st = Some (E_OUTOFMEMORY, set_desc psa (resized a l) st)" "lLbound l = lLbound nb"
    "cElements l = cElements (hd (rgsabound a))" "cElements (hd (rgsabound a)) < cElements nb" "refuses ole (data_size (resized a nb)) st"
  then have e: "l = b\<lparr>lLbound := lLbound nb\<rparr>" using assms(6) by (cases l, cases b) simp
  show ?thesis using l(1,4,5) assms(6) unfolding e by simp
next
  fix st' assume r: "SafeArrayRedim ole psa (Some nb) st = Some (S_OK, st')" "redimmed ole psa a nb st st'"
  let ?a = "\<lambda>p. resized a nb\<lparr>pvData := p\<rparr>"
  obtain p where p: "array st' psa (?a p)" "\<forall>x < min (data_size a) (data_size (resized a nb)). mem st' (p + x) = mem st (pvData a + x)"
      "\<forall>x. data_size a \<le> x \<and> x < data_size (resized a nb) \<longrightarrow> mem st' (p + x) = 0" "os_desc st' = (os_desc st)(psa \<mapsto> ?a p)"
    using r(2) by (auto simp: redimmed_def)
  have sa: "sa_ok a" using assms(2) by (simp add: array_def)
  have cell: "mem st' (cell_addr (?a p) (is @ [lLbound nb + i]) + k) = (if i < int (cElements b) then mem st (cell_addr a (is @ [lLbound b + i]) + k) else 0)"
    if "length is = length bs" "inside (bounds_of (resized a nb)) (is @ [lLbound nb + i])" "k < cbElements a" for "is" i k
  proof -
    have "inside (bounds_of (?a p)) (is @ [lLbound nb + i])" "sa_ok (?a p)" using that(2) assms(5) by simp_all
    note b2 = cell_addr_bounds [OF this(2,1)]
    have eqs: "cbElements (?a p) = cbElements a" "pvData (?a p) = p" "data_size (?a p) = data_size (resized a nb)" by (simp_all add: resized_def)
    note b2' = b2 [unfolded eqs]
    let ?y = "cell_addr (?a p) (is @ [lLbound nb + i]) - p + k"
    have y: "?y < data_size (resized a nb)" "p + ?y = cell_addr (?a p) (is @ [lLbound nb + i]) + k" using b2' that(3) by linarith+
    show ?thesis
    proof (cases "i < int (cElements b)")
      case True
      have old: "inside (bounds_of a) (is @ [lLbound b + i])"
        using that(1,2) True sa_ok_bounds [OF sa] sa_ok_bounds [OF assms(5)] assms(6)
        by (auto simp: resized_def inside_def list_all2_append index_in_def)
      let ?x = "cell_addr a (is @ [lLbound b + i]) - pvData a + k"
      have e: "?y = ?x" using resized_cells [OF sa assms(5,6) that(1) refl refl, of p i] by simp
      note b1 = cell_addr_bounds [OF sa old]
      have "?x < data_size a" using b1 that(3) by linarith
      then have "mem st' (p + ?x) = mem st (pvData a + ?x)" using p(2) y(1) e by simp
      moreover have "pvData a + ?x = cell_addr a (is @ [lLbound b + i]) + k" using b1(1) by linarith
      ultimately show ?thesis using True y(2) e by simp
    next
      case False
      then have "data_size a \<le> ?y" using new_cell_behind [OF sa assms(5,6) that(1), of i p] by simp
      then show ?thesis using False p(3) y by metis
    qed
  qed
  then show ?thesis using r p(1,4) by (intro exI [of _ S_OK] exI [of _ st']) (auto simp: redimmed_def)
qed

theorem SafeArrayRedim_elements_witness:
  "\<exists>st st' a p. SafeArrayRedim ole0 4120 (Some \<lparr>cElements = 5, lLbound = 10\<rparr>) st = Some (S_OK, st') \<and> array st 4120 a
     \<and> mem st' (cell_addr (resized a \<lparr>cElements = 5, lLbound = 10\<rparr>\<lparr>pvData := p\<rparr>) [1, 11]) = mem st (cell_addr a [1, 11])
     \<and> mem st' (cell_addr (resized a \<lparr>cElements = 5, lLbound = 10\<rparr>\<lparr>pvData := p\<rparr>) [1, 14]) = 0"
proof (rule array0)
  fix st a assume a: "SafeArrayCreate ole0 VT_I2 2 (Some bounds0) st0 = Some (4120, st)" "array st 4120 a" "typed st 4120 a VT_I2" "sa_inv ole0 st" "cLocks a = 0"
    "rgsabound a = rev bounds0" "cDims a = 2" "cbElements a = 2"
  let ?nb = "\<lparr>cElements = 5, lLbound = 10\<rparr> :: SAFEARRAYBOUND" and ?b = "\<lparr>cElements = 2, lLbound = 10\<rparr> :: SAFEARRAYBOUND"
  let ?bs = "[\<lparr>cElements = 3, lLbound = - 1\<rparr> :: SAFEARRAYBOUND]"
  have ok: "task_ok ole0 st" using a(4) by (simp add: sa_inv_def)
  have rb: "rgsabound a = ?b # ?bs" using a(6) by (simp add: bounds0_def)
  have r: "sa_ok (resized a ?nb)" using a(7,8) rb by (simp add: sa_ok_def resized_def bound_ok_def in_int32_def)
  have "data_size (resized a ?nb) = 30" using a(8) rb by (simp add: data_size_def resized_def)
  moreover have "\<not> refuses ole0 30 st" using created0_heaps a(1) by (auto simp: refuses_def ole0_def run_defs heaps0_def)
  ultimately have "\<not> refuses ole0 (data_size (resized a ?nb)) st" by simp
  then obtain st' p where h: "SafeArrayRedim ole0 4120 (Some ?nb) st = Some (S_OK, st')"
    "\<forall>is i k. length is = length ?bs \<longrightarrow> inside (bounds_of (resized a ?nb)) (is @ [lLbound ?nb + i]) \<longrightarrow> k < cbElements a
             \<longrightarrow> mem st' (cell_addr (resized a ?nb\<lparr>pvData := p\<rparr>) (is @ [lLbound ?nb + i]) + k)
               = (if i < int (cElements ?b) then mem st (cell_addr a (is @ [lLbound ?b + i]) + k) else 0)"
    using SafeArrayRedim_elements [OF ok a(2) typed_plain [OF a(3)] a(5) r rb] by blast
  have i: "inside (bounds_of (resized a ?nb)) ([1] @ [lLbound ?nb + 1])" "inside (bounds_of (resized a ?nb)) ([1] @ [lLbound ?nb + 4])"
    using a(7) rb by (simp_all add: index_in_def bounds_of_def resized_def)
  note cell = h(2) [rule_format, of "[1]", OF _ i(1), of 0] h(2) [rule_format, of "[1]", OF _ i(2), of 0]
  show ?thesis using h(1) a(2) cell a(8) by (intro exI [of _ st] exI [of _ st'] exI [of _ a] exI [of _ p]) simp
qed

end
