(* ===== verification/Bstr_Props.thy ===== *)
theory Bstr_Props
  imports Safearray_Props
begin

text \<open>
  Laws of the \<^verbatim>\<open>BSTR\<close> functions: what an allocation writes, that a copy is a string of its own with the
  same length and bytes, and the round trip of a string through a vector of bytes.
\<close>

section \<open>The word in front of a string\<close>

lemma flag_word:
  fixes len :: nat
  assumes "len < 0x40000000"
  shows "(len OR k_Bstr_ByteAlloc_Flag) AND (0xFFFFFFFF - k_Bstr_ByteAlloc_Flag) = len" "(len OR k_Bstr_ByteAlloc_Flag) AND k_Bstr_ByteAlloc_Flag \<noteq> 0"
    "len OR k_Bstr_ByteAlloc_Flag < 256 ^ 4" "len AND k_Bstr_ByteAlloc_Flag = 0" "len AND (0xFFFFFFFF - k_Bstr_ByteAlloc_Flag) = len"
proof -
  have flag: "k_Bstr_ByteAlloc_Flag = push_bit 30 1" "0xFFFFFFFF - k_Bstr_ByteAlloc_Flag = mask 30 OR push_bit 31 (1::nat)"
    by (simp_all add: k_Bstr_ByteAlloc_Flag_def mask_eq_exp_minus_1)
  have bF: "bit k_Bstr_ByteAlloc_Flag i \<longleftrightarrow> i = 30" for i
    by (simp only: flag(1) bit_push_bit_iff bit_1_iff) auto
  have bM: "bit (0xFFFFFFFF - k_Bstr_ByteAlloc_Flag) i \<longleftrightarrow> i < 30 \<or> i = 31" for i
    by (simp only: flag(2) bit_or_iff bit_mask_iff bit_push_bit_iff bit_1_iff) auto
  have len: "take_bit 30 len = len" using assms by (simp add: take_bit_nat_eq_self_iff)
  have b: "bit len i \<Longrightarrow> i < 30" for i using arg_cong [OF len, of "\<lambda>x. bit x i"] by (simp add: bit_take_bit_iff)
  show "len AND k_Bstr_ByteAlloc_Flag = 0" "len AND (0xFFFFFFFF - k_Bstr_ByteAlloc_Flag) = len"
    "(len OR k_Bstr_ByteAlloc_Flag) AND (0xFFFFFFFF - k_Bstr_ByteAlloc_Flag) = len"
    by (rule bit_eqI, simp only: bit_and_iff bit_or_iff bF bM bit_0_eq, use b in fastforce)+
  have "bit ((len OR k_Bstr_ByteAlloc_Flag) AND k_Bstr_ByteAlloc_Flag) 30" by (simp only: bit_and_iff bit_or_iff bF) simp
  then show "(len OR k_Bstr_ByteAlloc_Flag) AND k_Bstr_ByteAlloc_Flag \<noteq> 0" by (metis bit_0_eq bot_apply bot_bool_def)
  have "take_bit 32 len = len" using assms by (simp add: take_bit_nat_eq_self_iff)
  then have "take_bit 32 (len OR k_Bstr_ByteAlloc_Flag) = len OR k_Bstr_ByteAlloc_Flag" by (simp add: k_Bstr_ByteAlloc_Flag_def)
  then have "len OR k_Bstr_ByteAlloc_Flag < 2 ^ 32" by (simp only: take_bit_nat_eq_self_iff)
  then show "len OR k_Bstr_ByteAlloc_Flag < 256 ^ 4" by simp
qed

section \<open>Allocating\<close>

text \<open>A string at \<open>q\<close> of \<open>n\<close> bytes in a block of its own, the only thing that has changed.\<close>

definition new_bstr :: "nat \<Rightarrow> nat \<Rightarrow> ole_state \<Rightarrow> ole_state \<Rightarrow> bool" where
  "new_bstr q n st st' \<longleftrightarrow> 4 < q
     \<and> (\<exists>k. n + 8 \<le> k \<and> os_cblocks st' = (os_cblocks st)(q - 4 \<mapsto> k) \<and> (\<forall>x. x < q - 4 \<or> q - 4 + k \<le> x \<longrightarrow> mem st' x = mem st x))
     \<and> load 4 (q + n) (mem st') = 0 \<and> os_al st' = (os_al (put_mem (mem st') st)) \<and> os_desc st' = os_desc st \<and> os_calls st' = os_calls st"

text \<open>\<^verbatim>\<open>malloc\<close> does not hand out bytes of a range.\<close>

definition malloc_apart :: "ole \<Rightarrow> ole_state \<Rightarrow> nat \<Rightarrow> nat \<Rightarrow> bool" where
  "malloc_apart ole st r n \<longleftrightarrow> (\<forall>k p. ole_malloc ole st k = Some p \<longrightarrow> p + k \<le> r \<or> r + n \<le> p)"

text \<open>The two allocations with their sizes worked out.\<close>

lemma SysAllocStringByteLen_eq:
  "SysAllocStringByteLen ole s len st =
     (if 0x3FFFFFF8 \<le> len then (0, st)
      else case ole_malloc ole st ((len + 7) div 4 * 4 + 4) of
        None \<Rightarrow> (0, st)
      | Some p \<Rightarrow>
          let st1 = st\<lparr>os_cblocks := (os_cblocks st)(p \<mapsto> (len + 7) div 4 * 4 + 4)\<rparr>; m1 = store 4 p (len OR k_Bstr_ByteAlloc_Flag) (mem st);
              m2 = (if s \<noteq> 0 then memcpy (p + 4) s len m1 else m1)
          in if p = 0 then (0, st1) else (p + 4, put_mem (memset (p + 4 + len) 0 ((len + 7) div 4 * 4 - len) m2) st1))"
proof -
  have "len + 4 + 4 - 1 = len + 7" by linarith
  then have sizes: "(len + sizeof_OLECHAR + sizeof_OLECHAR - 1) div sizeof_OLECHAR * sizeof_OLECHAR = (len + 7) div 4 * 4"
    unfolding sizeof_OLECHAR_def by (simp only:)
  have limit: "k_Bstr_ByteAlloc_Flag - sizeof_OLECHAR * 2 = 0x3FFFFFF8" by (simp add: sizeof_OLECHAR_def k_Bstr_ByteAlloc_Flag_def)
  show ?thesis unfolding SysAllocStringByteLen_def AllocateForBSTR_def Let_def sizes limit sizeof_CBstrSizeType_def
    by (cases "ole_malloc ole st ((len + 7) div 4 * 4 + 4)") (simp_all add: mem_def)
qed

lemma SysAllocStringLen_eq:
  "SysAllocStringLen ole s len st =
     (if 0x8000000 \<le> len then (0, st)
      else case ole_malloc ole st (4 * len + 8) of
        None \<Rightarrow> (0, st)
      | Some p \<Rightarrow>
          let st1 = st\<lparr>os_cblocks := (os_cblocks st)(p \<mapsto> 4 * len + 8)\<rparr>; m1 = store 4 p (2 * len) (mem st);
              m2 = (if s \<noteq> 0 then memcpy (p + 4) s (4 * len) m1 else m1)
          in if p = 0 then (0, st1) else (p + 4, put_mem (store 4 (p + 4 + 4 * len) 0 m2) st1))"
proof -
  have sizes: "4 * len + 4 + sizeof_OLECHAR = 4 * len + 8" "len * sizeof_OLECHAR = 4 * len" "len * 2 = 2 * len"
      "k_Bstr_ByteAlloc_Flag div 2 div sizeof_OLECHAR = 0x8000000"
    by (simp_all add: sizeof_OLECHAR_def k_Bstr_ByteAlloc_Flag_def)
  show ?thesis unfolding SysAllocStringLen_def AllocateForBSTR_def Let_def sizeof_CBstrSizeType_def sizes
    by (cases "ole_malloc ole st (4 * len + 8)") (simp_all add: mem_def)
qed

lemma SysAllocStringByteLen_law:
  assumes run: "SysAllocStringByteLen ole s len st = (q, st')" "q \<noteq> 0" and apart: "s \<noteq> 0 \<Longrightarrow> malloc_apart ole st s len"
  shows "new_bstr q len st st'" "bstr_word q st' = len OR k_Bstr_ByteAlloc_Flag" "len < 0x3FFFFFF8"
    "s \<noteq> 0 \<Longrightarrow> i < len \<Longrightarrow> mem st' (q + i) = mem st (s + i)"
proof -
  define size where "size = (len + 7) div 4 * 4"
  have size: "len + 4 \<le> size" unfolding size_def by linarith
  show len: "len < 0x3FFFFFF8" using run by (auto simp: SysAllocStringByteLen_eq split: if_splits)
  obtain p where p: "ole_malloc ole st (size + 4) = Some p" "p \<noteq> 0"
    using run len by (cases "ole_malloc ole st (size + 4)") (auto simp: SysAllocStringByteLen_eq size_def [symmetric] Let_def split: if_splits)
  define m1 where "m1 = store 4 p (len OR k_Bstr_ByteAlloc_Flag) (mem st)"
  define m2 where "m2 = (if s \<noteq> 0 then memcpy (p + 4) s len m1 else m1)"
  define m3 where "m3 = memset (p + 4 + len) 0 (size - len) m2"
  have eq: "q = p + 4" "st' = put_mem m3 (st\<lparr>os_cblocks := (os_cblocks st)(p \<mapsto> size + 4)\<rparr>)"
    using run p len by (auto simp: SysAllocStringByteLen_eq size_def [symmetric] Let_def m1_def m2_def m3_def)
  have mem: "mem st' = m3" by (simp add: eq put_mem_def mem_def)
  have "load 4 p m3 = load 4 p m1" by (auto simp: m3_def m2_def mem_simps)
  then show "bstr_word q st' = len OR k_Bstr_ByteAlloc_Flag"
    using flag_word(3) [of len] len by (simp add: bstr_word_def mem eq(1) sizeof_CBstrSizeType_def m1_def load_store_same)
  show "mem st' (q + i) = mem st (s + i)" if "s \<noteq> 0" "i < len"
  proof -
    have "p + (size + 4) \<le> s \<or> s + len \<le> p" using apart [OF that(1)] p(1) unfolding malloc_apart_def by blast
    then have "m1 (s + i) = mem st (s + i)" using that size by (auto simp: m1_def store_outside)
    then show ?thesis using that by (simp add: mem eq(1) m3_def m2_def memset_outside memcpy_inside)
  qed
  have out: "mem st' x = mem st x" if "x < p \<or> p + (size + 4) \<le> x" for x
    using that size by (auto simp: mem m3_def m2_def m1_def memset_def memcpy_def store_outside)
  have "load 4 (q + len) (mem st') = 0" by (rule load_zero) (use size in \<open>simp add: mem eq(1) m3_def memset_inside\<close>)
  then show "new_bstr q len st st'" unfolding new_bstr_def
    by (intro conjI exI [of _ "size + 4"]) (use size p out eq in \<open>auto simp: put_mem_def mem_def\<close>)
qed

lemma SysAllocStringLen_law:
  assumes run: "SysAllocStringLen ole s len st = (q, st')" "q \<noteq> 0" and apart: "s \<noteq> 0 \<Longrightarrow> malloc_apart ole st s (4 * len)"
  shows "new_bstr q (4 * len) st st'" "bstr_word q st' = 2 * len" "len < 0x8000000"
    "s \<noteq> 0 \<Longrightarrow> i < 4 * len \<Longrightarrow> mem st' (q + i) = mem st (s + i)"
proof -
  show len: "len < 0x8000000" using run by (auto simp: SysAllocStringLen_eq split: if_splits)
  obtain p where p: "ole_malloc ole st (4 * len + 8) = Some p" "p \<noteq> 0"
    using run len by (cases "ole_malloc ole st (4 * len + 8)") (auto simp: SysAllocStringLen_eq Let_def split: if_splits)
  define m1 where "m1 = store 4 p (2 * len) (mem st)"
  define m2 where "m2 = (if s \<noteq> 0 then memcpy (p + 4) s (4 * len) m1 else m1)"
  define m3 where "m3 = store 4 (p + 4 + 4 * len) 0 m2"
  have eq: "q = p + 4" "st' = put_mem m3 (st\<lparr>os_cblocks := (os_cblocks st)(p \<mapsto> 4 * len + 8)\<rparr>)"
    using run p len by (auto simp: SysAllocStringLen_eq Let_def m1_def m2_def m3_def)
  have mem: "mem st' = m3" by (simp add: eq put_mem_def mem_def)
  have "load 4 p m3 = load 4 p m1" by (auto simp: m3_def m2_def mem_simps)
  then show "bstr_word q st' = 2 * len"
    using len by (simp add: bstr_word_def mem eq(1) sizeof_CBstrSizeType_def m1_def load_store_same)
  show "mem st' (q + i) = mem st (s + i)" if "s \<noteq> 0" "i < 4 * len"
  proof -
    have "p + (4 * len + 8) \<le> s \<or> s + 4 * len \<le> p" using apart [OF that(1)] p(1) unfolding malloc_apart_def by blast
    then have "m1 (s + i) = mem st (s + i)" using that by (auto simp: m1_def store_outside)
    then show ?thesis using that by (simp add: mem eq(1) m3_def m2_def store_outside memcpy_inside)
  qed
  have out: "mem st' x = mem st x" if "x < p \<or> p + (4 * len + 8) \<le> x" for x
    using that by (auto simp: mem m3_def m2_def m1_def memcpy_def store_outside)
  have "load 4 (q + 4 * len) (mem st') = 0" by (simp add: mem eq(1) m3_def load_store_same)
  then show "new_bstr q (4 * len) st st'" unfolding new_bstr_def
    by (intro conjI exI [of _ "4 * len + 8"]) (use p out eq in \<open>auto simp: put_mem_def mem_def\<close>)
qed

section \<open>Copying a string\<close>

text \<open>
  A string the functions of this file can have made: bytes with the flag, or characters with an even length word.
\<close>

definition bstr_ok :: "nat \<Rightarrow> ole_state \<Rightarrow> bool" where
  "bstr_ok bstr st \<longleftrightarrow> bstr \<noteq> 0 \<and> (bstr_is_bytes bstr st \<or> even (bstr_stored_len bstr st))"

lemma bstr_word_bytes:
  assumes "bstr_word q st = len OR k_Bstr_ByteAlloc_Flag" "len < 0x40000000"
  shows "bstr_is_bytes q st" "bstr_stored_len q st = len"
  using flag_word(1,2) [OF assms(2)] assms(1) by (simp_all add: bstr_is_bytes_def bstr_stored_len_def)

lemma bstr_word_chars:
  assumes "bstr_word q st = 2 * len" "len < 0x20000000"
  shows "\<not> bstr_is_bytes q st" "bstr_stored_len q st = 2 * len"
  using flag_word(4,5) [of "2 * len"] assms by (simp_all add: bstr_is_bytes_def bstr_stored_len_def)

text \<open>Two strings with the same bytes in front of the terminator.\<close>

definition same_bytes :: "nat \<Rightarrow> ole_state \<Rightarrow> nat \<Rightarrow> ole_state \<Rightarrow> bool" where
  "same_bytes b st q st' \<longleftrightarrow> SysBstrRawByteCount q st' = SysBstrRawByteCount b st
     \<and> (\<forall>i < SysBstrRawByteCount b st. mem st' (q + i) = mem st (b + i))"

lemma SysAllocStringCopy_law:
  assumes "bstr_ok bstr st" "malloc_apart ole st bstr (SysBstrRawByteCount bstr st)" "SysAllocStringCopy ole bstr st = (q, st')" "q \<noteq> 0"
  shows "bstr_is_bytes q st' = bstr_is_bytes bstr st \<and> SysStringByteLen q st' = SysStringByteLen bstr st \<and> SysStringLen q st' = SysStringLen bstr st
    \<and> same_bytes bstr st q st' \<and> new_bstr q (SysBstrRawByteCount bstr st) st st'
    \<and> (\<exists>st''. SysFreeString q st' = Some st'' \<and> os_cblocks st'' = (os_cblocks st)(q - 4 := None))"
proof -
  let ?n = "SysBstrRawByteCount bstr st"
  have free: "\<exists>st''. SysFreeString q st' = Some st'' \<and> os_cblocks st'' = (os_cblocks st)(q - 4 := None)" if "new_bstr q ?n st st'"
    using that by (auto simp: new_bstr_def SysFreeString_def FreeForBSTR_def sizeof_CBstrSizeType_def)
  have nz: "bstr \<noteq> 0" using assms(1) by (simp add: bstr_ok_def)
  show ?thesis
  proof (cases "bstr_is_bytes bstr st")
    case True
    then have n: "?n = bstr_stored_len bstr st" using nz by (simp add: SysBstrRawByteCount_def)
    have run: "SysAllocStringByteLen ole bstr ?n st = (q, st')" using assms(3) True nz n by (simp add: SysAllocStringCopy_def)
    note law = SysAllocStringByteLen_law [OF run assms(4) assms(2)]
    have "?n < 0x40000000" using law(3) by simp
    note w = bstr_word_bytes [OF law(2) this]
    show ?thesis using law(1) law(4) [OF nz] w True n nz assms(4) free [OF law(1)] by (simp add: SysStringByteLen_def SysStringLen_def same_bytes_def SysBstrRawByteCount_def sizeof_OLECHAR_def)
  next
    case False
    let ?c = "bstr_stored_len bstr st div 2"
    have n: "?n = 4 * ?c" using False nz by (simp add: SysBstrRawByteCount_def sizeof_OLECHAR_def)
    have run: "SysAllocStringLen ole bstr ?c st = (q, st')" using assms(3) False nz by (simp add: SysAllocStringCopy_def)
    note law = SysAllocStringLen_law [OF run assms(4), folded n, OF assms(2)]
    have "?c < 0x20000000" using law(3) by simp
    note w = bstr_word_chars [OF law(2) this]
    have "2 * ?c = bstr_stored_len bstr st" using assms(1) False by (auto simp: bstr_ok_def)
    then show ?thesis using law(1) law(4) [OF nz] w False nz assms(4) free [OF law(1)] by (simp add: SysStringByteLen_def SysStringLen_def same_bytes_def SysBstrRawByteCount_def sizeof_OLECHAR_def)
  qed
qed

text \<open>The block of a copy comes from \<^verbatim>\<open>malloc\<close>, so it keeps away from what \<^verbatim>\<open>malloc\<close> does not hand out.\<close>

lemma SysAllocStringCopy_block:
  assumes run: "SysAllocStringCopy ole bstr st = (q, st')" "q \<noteq> 0"
  obtains p k where "ole_malloc ole st k = Some p" "q = p + 4" "SysBstrRawByteCount bstr st + 8 \<le> k"
proof -
  have nz: "bstr \<noteq> 0" using run by (auto simp: SysAllocStringCopy_def split: if_splits)
  have rounded: "n + 4 \<le> (n + 7) div 4 * 4" for n :: nat by linarith
  have "\<exists>p k. ole_malloc ole st k = Some p \<and> q = p + 4 \<and> SysBstrRawByteCount bstr st + 8 \<le> k"
  proof (cases "bstr_is_bytes bstr st")
    case True
    let ?k = "(bstr_stored_len bstr st + 7) div 4 * 4 + 4"
    have "SysAllocStringByteLen ole bstr (bstr_stored_len bstr st) st = (q, st')" using run(1) True nz by (simp add: SysAllocStringCopy_def)
    then show ?thesis using run(2) True nz rounded [of "bstr_stored_len bstr st"]
      by (intro exI [of _ "q - 4"] exI [of _ ?k]) (auto simp: SysAllocStringByteLen_eq Let_def SysBstrRawByteCount_def split: if_splits option.splits)
  next
    case False
    let ?k = "4 * (bstr_stored_len bstr st div 2) + 8"
    have "SysAllocStringLen ole bstr (bstr_stored_len bstr st div 2) st = (q, st')" using run(1) False nz by (simp add: SysAllocStringCopy_def)
    then show ?thesis using run(2) False nz
      by (intro exI [of _ "q - 4"] exI [of _ ?k])
        (auto simp: SysAllocStringLen_eq Let_def SysBstrRawByteCount_def sizeof_OLECHAR_def split: if_splits option.splits)
  qed
  then show thesis using that by blast
qed

lemma SysAllocStringCopy_apart:
  assumes "SysAllocStringCopy ole bstr st = (q, st')" "q \<noteq> 0" "malloc_apart ole st r m"
  shows "q + SysBstrRawByteCount bstr st + 4 \<le> r \<or> r + m + 4 \<le> q"
proof -
  obtain p k where p: "ole_malloc ole st k = Some p" "q = p + 4" "SysBstrRawByteCount bstr st + 8 \<le> k"
    by (rule SysAllocStringCopy_block [OF assms(1,2)])
  have "p + k \<le> r \<or> r + m \<le> p" using p(1) assms(3) unfolding malloc_apart_def by blast
  then show ?thesis using p(2,3) by linarith
qed

text \<open>A string depends on its word of length and its bytes only.\<close>

lemma bstr_frame:
  assumes "4 \<le> b" "\<And>x. b - 4 \<le> x \<Longrightarrow> x < b + SysBstrRawByteCount b st \<Longrightarrow> mem st' x = mem st x"
  shows "bstr_is_bytes b st' = bstr_is_bytes b st" "SysBstrRawByteCount b st' = SysBstrRawByteCount b st" "same_bytes b st b st'"
proof -
  have "bstr_word b st' = bstr_word b st" unfolding bstr_word_def sizeof_CBstrSizeType_def
    by (rule load_cong) (use assms in auto)
  then show r: "bstr_is_bytes b st' = bstr_is_bytes b st" "SysBstrRawByteCount b st' = SysBstrRawByteCount b st"
    by (simp_all add: bstr_is_bytes_def SysBstrRawByteCount_def bstr_stored_len_def)
  show "same_bytes b st b st'" unfolding same_bytes_def using r(2) assms by auto
qed

lemma same_bytes_trans: "same_bytes a s b t \<Longrightarrow> same_bytes b t c u \<Longrightarrow> same_bytes a s c u"
  by (simp add: same_bytes_def)

text \<open>C26: when \<^verbatim>\<open>malloc\<close> does not hand out the bytes of a string, a copy made by \<open>SysAllocStringCopy\<close> is a string of its own:
  of the same kind and the same length in bytes and in characters, with the same bytes and a terminator; freeing it gives
  back its block and keeps every other one.
\<close>

theorem SysAllocStringCopy_copies:
  assumes "bstr_ok bstr st" "malloc_apart ole st bstr (SysBstrRawByteCount bstr st)" "SysAllocStringCopy ole bstr st = (q, st')" "q \<noteq> 0"
  shows "bstr_is_bytes q st' = bstr_is_bytes bstr st \<and> SysStringByteLen q st' = SysStringByteLen bstr st \<and> SysStringLen q st' = SysStringLen bstr st
    \<and> same_bytes bstr st q st' \<and> new_bstr q (SysBstrRawByteCount bstr st) st st'
    \<and> (\<exists>st''. SysFreeString q st' = Some st'' \<and> os_cblocks st'' = (os_cblocks st)(q - 4 := None))"
  using assms by (rule SysAllocStringCopy_law)

section \<open>A string through a vector of bytes\<close>

text \<open>\<^verbatim>\<open>malloc\<close> does not hand out bytes of a live block of the task allocator.\<close>

definition malloc_separate :: "ole \<Rightarrow> ole_state \<Rightarrow> bool" where
  "malloc_separate ole st \<longleftrightarrow> (\<forall>r n. live st r n \<longrightarrow> malloc_apart ole st r n)"

lemma vector_bound: "n < 0x40000000 \<Longrightarrow> list_all bound_ok [\<lparr>cElements = n, lLbound = 0\<rparr>]"
  by (simp add: bound_ok_def in_int32_def)

lemma VectorFromBstr_law:
  assumes inv: "sa_inv ole st" and n: "SysBstrRawByteCount bstr st < 0x40000000" "avoids ole bstr (SysBstrRawByteCount bstr st)"
  obtains st' where "VectorFromBstr ole bstr st = Some (E_OUTOFMEMORY, 0, st')"
  | psa st' a where "VectorFromBstr ole bstr st = Some (S_OK, psa, st')" "array st' psa a" "cDims a = 1" "cbElements a = 1" "psa \<noteq> 0"
    "rgsabound a = [\<lparr>cElements = SysBstrRawByteCount bstr st, lLbound = 0\<rparr>]" "data_size a = SysBstrRawByteCount bstr st"
    "\<forall>i < SysBstrRawByteCount bstr st. mem st' (pvData a + i) = mem st (bstr + i)" "task_ok ole st'" "live st' (pvData a) (SysBstrRawByteCount bstr st)"
proof -
  let ?n = "SysBstrRawByteCount bstr st" and ?bs = "[\<lparr>cElements = SysBstrRawByteCount bstr st, lLbound = 0\<rparr>]"
  have vt: "plain_vt VT_UI1" "SAFEARRAY_GetVTSize VT_UI1 = 1" by (simp_all add: plain_vt_def SAFEARRAY_GetVTSize_def vt_defs)
  have b: "list_all bound_ok ?bs" "cells ?bs * SAFEARRAY_GetVTSize VT_UI1 < 4294967296" using vector_bound [OF n(1)] n(1) vt by simp_all
  have create: "SAFEARRAY_Create ole VT_UI1 1 (Some ?bs) 0 st = SafeArrayCreate ole VT_UI1 1 (Some ?bs) st"
    by (simp add: SafeArrayCreate_def vt_defs)
  show ?thesis
  proof (rule SafeArrayCreate_law [OF inv _ _ _ vt(1) b])
    fix s assume "SafeArrayCreate ole VT_UI1 1 (Some ?bs) st = Some (0, s)"
    then show ?thesis using that(1) create by (simp add: VectorFromBstr_def)
  next
    fix psa s assume c: "SafeArrayCreate ole VT_UI1 1 (Some ?bs) st = Some (psa, s)" "psa \<noteq> 0" "created ole VT_UI1 1 ?bs psa st s"
    obtain a where a: "a = new_desc VT_UI1 1\<lparr>rgsabound := rev ?bs, pvData := pvData a\<rparr>" "array s psa a" "bounds_of a = ?bs"
      by (rule created_array [OF inv c(3) _ _ vt(1)]) auto
    have f: "cDims a = 1" "cbElements a = 1" "rgsabound a = ?bs"
      using arg_cong [OF a(1), of cDims] arg_cong [OF a(1), of cbElements] arg_cong [OF a(1), of rgsabound] vt(2) by simp_all
    have d: "os_desc s psa = Some a" using a(2) by (simp add: array_def)
    have "mem s (bstr + i) = mem st (bstr + i)" if "i < ?n" for i
      using c(3) n(2) that unfolding created_def untouched_def by auto
    then have bytes: "\<forall>i < ?n. memcpy (pvData a) bstr ?n (mem s) (pvData a + i) = mem st (bstr + i)" by (simp add: memcpy_inside)
    have "VectorFromBstr ole bstr st = Some (S_OK, psa, put_mem (memcpy (pvData a) bstr ?n (mem s)) s)"
      using c(1,2) create d by (simp add: VectorFromBstr_def)
    moreover have ds: "data_size a = ?n" using f by (simp add: data_size_def)
    obtain db where "tblocks s (pvData a) = Some db" "?n \<le> mb_len db" using a(2) ds by (auto simp: array_def)
    then have lv: "live s (pvData a) ?n" unfolding live_def by (intro exI [of _ "pvData a"] exI [of _ db]) simp
    have "task_ok ole s" using c(3) by (simp add: created_def)
    then have "task_ok ole (put_mem (memcpy (pvData a) bstr ?n (mem s)) s)"
      by (rule task_ok_put [OF _ lv]) (auto simp: memcpy_outside)
    ultimately show ?thesis using that(2) [of psa _ a] a(2) f c(2) bytes ds lv by (simp add: live_def)
  qed simp_all
qed

text \<open>A string of less than 1 GB that the heap's pages do not overlap becomes a vector of its bytes or an out-of-memory error,
  and \<open>BstrFromVector\<close> makes of that vector a string with exactly the bytes of the first one.
\<close>

theorem VectorFromBstr_BstrFromVector:
  assumes "sa_inv ole st" "SysBstrRawByteCount bstr st < 0x3FFFFFF8" "avoids ole bstr (SysBstrRawByteCount bstr st)"
    and "\<forall>s. task_ok ole s \<longrightarrow> malloc_separate ole s"
  shows "(\<exists>st1. VectorFromBstr ole bstr st = Some (E_OUTOFMEMORY, 0, st1))
    \<or> (\<exists>psa st1 hr q st2. VectorFromBstr ole bstr st = Some (S_OK, psa, st1) \<and> psa \<noteq> 0 \<and> BstrFromVector ole psa st1 = Some (hr, q, st2)
        \<and> (hr = E_OUTOFMEMORY \<and> q = 0 \<or> hr = S_OK \<and> bstr_is_bytes q st2 \<and> same_bytes bstr st q st2))"
proof -
  let ?n = "SysBstrRawByteCount bstr st"
  show ?thesis
  proof (rule VectorFromBstr_law [OF assms(1) _ assms(3)])
    show "?n < 0x40000000" using assms(2) by simp
    fix psa s a assume v: "VectorFromBstr ole bstr st = Some (S_OK, psa, s)" "array s psa a" "cDims a = 1" "cbElements a = 1" "psa \<noteq> 0"
      "rgsabound a = [\<lparr>cElements = ?n, lLbound = 0\<rparr>]" "data_size a = ?n" "\<forall>i < ?n. mem s (pvData a + i) = mem st (bstr + i)"
      "task_ok ole s" "live s (pvData a) ?n"
    have d: "os_desc s psa = Some a" "pvData a \<noteq> 0" using v(2) by (auto simp: array_def)
    obtain q s2 where r: "SysAllocStringByteLen ole (pvData a) ?n s = (q, s2)" by fastforce
    have run: "BstrFromVector ole psa s = Some (if q = 0 then E_OUTOFMEMORY else S_OK, q, s2)"
      using v d r by (simp add: BstrFromVector_def)
    have "bstr_is_bytes q s2 \<and> same_bytes bstr st q s2" if "q \<noteq> 0"
    proof -
      have sep: "malloc_apart ole s (pvData a) ?n" using assms(4) v(9,10) by (simp add: malloc_separate_def)
      note law = SysAllocStringByteLen_law [OF r that sep]
      have "?n < 0x40000000" using law(3) by simp
      note w = bstr_word_bytes [OF law(2) this]
      then show ?thesis using law(4) [OF d(2)] v(8) that by (simp add: same_bytes_def SysBstrRawByteCount_def [of q])
    qed
    then show ?thesis using v(1,5) run by (cases "q = 0") auto
  qed auto
qed

text \<open>A string of three bytes at 104, and a \<^verbatim>\<open>malloc\<close> behind every block of the heap.\<close>

definition ole1 :: ole where
  "ole1 = ole0\<lparr>ole_malloc := \<lambda>st n. bump (as_heap (os_al st)) n\<rparr>"

definition st1 :: ole_state where
  "st1 = put_mem (\<lambda>x. if x = 100 then 3 else if x = 103 then 64 else if 104 \<le> x \<and> x \<le> 106 then x else 0) st0"

lemma st1_word: "bstr_is_bytes 104 st1" "bstr_stored_len 104 st1 = 3"
proof -
  have "bstr_word 104 st1 = 0x40000003" by (simp add: bstr_word_def st1_def sizeof_CBstrSizeType_def load_4)
  then show "bstr_is_bytes 104 st1" "bstr_stored_len 104 st1 = 3"
    by (simp_all add: bstr_is_bytes_def bstr_stored_len_def k_Bstr_ByteAlloc_Flag_def)
qed

lemma st1_facts: "sa_inv ole1 st1" "SysBstrRawByteCount 104 st1 = 3" "bstr_ok 104 st1" "avoids ole1 104 3"
  "task_ok ole1 s \<Longrightarrow> malloc_separate ole1 s" "malloc_apart ole1 st1 104 3"
proof -
  have h: "heap st1 = start\<lparr>ms_mem := mem st1\<rparr>" by (simp add: st1_def put_mem_def mem_def st0_def)
  have "blocks (heap st1) k = None" for k unfolding h by (cases k) (simp add: blocks_def heap_of_def start_def)
  then have "heap_inv bump_os (heap st1)" unfolding h by (simp add: heap_inv_def heap_of_def start_def)
  then show "sa_inv ole1 st1" using start_fresh(2) bump_os_ok(1)
    by (simp add: sa_inv_def task_ok_def ole0_def ole1_def h) (simp add: st1_def st0_def)
  show "SysBstrRawByteCount 104 st1 = 3" "bstr_ok 104 st1"
    using st1_word by (simp_all add: SysBstrRawByteCount_def bstr_ok_def)
  have low: "107 \<le> p" if "bump h n = Some p" for h n p
    using that by (auto simp: bump_def Let_def split: if_splits)
  show "avoids ole1 104 3" using low by (force simp: avoids_def ole1_def ole0_def bump_os_def)
  show "malloc_apart ole1 st1 104 3" using low by (force simp: malloc_apart_def ole1_def)
  show "malloc_separate ole1 s" if "task_ok ole1 s" unfolding malloc_separate_def malloc_apart_def
  proof (intro allI impI)
    fix r n k p assume l: "live s r n" and p: "ole_malloc ole1 s k = Some p"
    obtain q b where b: "tblocks s q = Some b" "q \<le> r" "r + n \<le> q + mb_len b" using l by (auto simp: live_def)
    let ?t = "top_of (concat (map (hi_lstMem \<circ> snd) (ms_heaps (heap s))))"
    have "p = (?t div 4096 + 1) * 4096" using p by (auto simp: ole1_def bump_def Let_def split: if_splits)
    then have "?t \<le> p" using round_above(1) by simp
    moreover have "mb_ptr b + mb_allocSize b \<le> ?t" using b(1) unfolding tblocks_def by (intro top_of_ge blocks_in_heaps)
    ultimately show "p + k \<le> r \<or> r + n \<le> p" using tblock_bounds [OF that b(1)] b by linarith
  qed
qed

theorem VectorFromBstr_BstrFromVector_witness:
  "(\<exists>s1. VectorFromBstr ole1 104 st1 = Some (E_OUTOFMEMORY, 0, s1))
    \<or> (\<exists>psa s1 hr q s2. VectorFromBstr ole1 104 st1 = Some (S_OK, psa, s1) \<and> psa \<noteq> 0 \<and> BstrFromVector ole1 psa s1 = Some (hr, q, s2)
        \<and> (hr = E_OUTOFMEMORY \<and> q = 0 \<or> hr = S_OK \<and> bstr_is_bytes q s2 \<and> same_bytes 104 st1 q s2))"
  by (rule VectorFromBstr_BstrFromVector) (use st1_facts in simp_all)

theorem SysAllocStringCopy_copies_witness:
  "\<exists>s. SysAllocStringCopy ole1 104 st1 = (4100, s) \<and> same_bytes 104 st1 4100 s \<and> bstr_is_bytes 4100 s"
proof -
  have top: "bump (as_heap (os_al st1)) n = (if 4096 + n \<le> 2 ^ 64 then Some 4096 else None)" for n
    by (simp add: bump_def st1_def put_mem_def st0_def start_def)
  have "\<exists>s. SysAllocStringCopy ole1 104 st1 = (4100, s)"
    using st1_word by (simp add: SysAllocStringCopy_def SysAllocStringByteLen_eq Let_def ole1_def top)
  then obtain s where s: "SysAllocStringCopy ole1 104 st1 = (4100, s)" by blast
  then show ?thesis using SysAllocStringCopy_copies [OF st1_facts(3) _ s] st1_facts st1_word by simp
qed

end
