(* ===== verification/Safearray_Refs.thy ===== *)
theory Safearray_Refs
  imports Safearray_Props
begin

text \<open>
  Arrays of interfaces: the reference calls balance the pointers the cells hold, in every run of
  the calls on elements. And the size of the data that wraps.
\<close>

section \<open>Counting\<close>

text \<open>The references taken and given back according to the calls made.\<close>

definition refs :: "call list \<Rightarrow> nat \<Rightarrow> int" where
  "refs cs x = int (count_list cs (AddRef x)) - int (count_list cs (Release x))"

lemma refs_simps [simp]:
  "refs [] x = 0" "refs (cs @ ds) x = refs cs x + refs ds x" "refs [AddRef y] x = of_bool (y = x)" "refs [Release y] x = - of_bool (y = x)"
  by (simp_all add: refs_def)

definition elems :: "SAFEARRAY \<Rightarrow> ole_state \<Rightarrow> nat list" where
  "elems a st = map (\<lambda>c. load 8 (pvData a + 8 * c) (mem st)) [0..<cells (rgsabound a)]"

text \<open>The cells that hold a pointer.\<close>

definition held :: "SAFEARRAY \<Rightarrow> ole_state \<Rightarrow> nat \<Rightarrow> int" where
  "held a st x = int (count_list (elems a st) x)"

lemma count_list_update:
  "i < length xs \<Longrightarrow> int (count_list (xs[i := v]) x) = int (count_list xs x) - of_bool (xs ! i = x) + of_bool (v = x)"
proof (induction xs arbitrary: i)
  case (Cons y xs)
  then show ?case by (cases i) auto
qed simp

section \<open>Putting and getting\<close>

definition iface :: "SAFEARRAY \<Rightarrow> bool" where
  "iface a \<longleftrightarrow> \<not> has (fFeatures a) FADF_VARIANT \<and> \<not> has (fFeatures a) FADF_BSTR \<and> has (fFeatures a) (FADF_UNKNOWN OR FADF_DISPATCH)
     \<and> sa_ok a \<and> cbElements a = 8 \<and> pvData a \<noteq> 0 \<and> cLocks a = 0"

definition iface_cell :: "SAFEARRAY \<Rightarrow> int list \<Rightarrow> nat" where
  "iface_cell a is = cell_of (bounds_of a) is"

lemma iface_cell_less: "iface a \<Longrightarrow> inside (bounds_of a) is \<Longrightarrow> iface_cell a is < cells (rgsabound a)"
  using cell_of_less [of "bounds_of a" "is"] by (simp add: iface_def iface_cell_def sa_ok_bounds)

lemma iface_addr: "iface a \<Longrightarrow> cell_addr a is = pvData a + 8 * iface_cell a is"
  by (simp add: iface_def cell_addr_def iface_cell_def)

lemma lock_unlock:
  assumes "psa \<noteq> 0" "os_desc st psa = Some a" "cLocks a = 0"
  shows "SafeArrayLock psa st = Some (S_OK, set_desc psa (a\<lparr>cLocks := 1\<rparr>) st)"
    "os_desc s psa = Some (a\<lparr>cLocks := 1\<rparr>) \<Longrightarrow> SafeArrayUnlock psa s = Some (S_OK, set_desc psa a s)"
proof -
  show "SafeArrayLock psa st = Some (S_OK, set_desc psa (a\<lparr>cLocks := 1\<rparr>) st)" using SafeArrayLock_ok [OF assms(1,2)] assms(3) by simp
  have "a\<lparr>cLocks := 0\<rparr> = a" using assms(3) by (cases a) simp
  then show "SafeArrayUnlock psa s = Some (S_OK, set_desc psa a s)" if "os_desc s psa = Some (a\<lparr>cLocks := 1\<rparr>)"
    using SafeArrayUnlock_ok [OF assms(1) that] by simp
qed

lemma iface_ptr:
  assumes "psa \<noteq> 0" "os_desc st psa = Some a" "iface a" "length is = cDims a"
  shows "SafeArrayPtrOfIndex psa (Some is) (set_desc psa (a\<lparr>cLocks := 1\<rparr>) st)
    = Some (if inside (bounds_of a) is then (S_OK, pvData a + 8 * iface_cell a is) else (DISP_E_BADINDEX, 0))"
  using SafeArrayPtrOfIndex_spec [of psa "set_desc psa (a\<lparr>cLocks := 1\<rparr>) st" "a\<lparr>cLocks := 1\<rparr>" "is"] assms iface_addr [OF assms(3), of "is"]
  by (simp add: iface_def)

lemma elems_frame [simp]: "elems a (set_desc p b st) = elems a st" "elems a (call c st) = elems a st" "length (elems a st) = cells (rgsabound a)"
  by (simp_all add: elems_def)

lemma elems_nth: "c < cells (rgsabound a) \<Longrightarrow> elems a st ! c = load 8 (pvData a + 8 * c) (mem st)"
  by (simp add: elems_def)

lemma elems_store:
  assumes "c < cells (rgsabound a)" "v < 2 ^ 64"
  shows "elems a (put_mem (store 8 (pvData a + 8 * c) v (mem st)) st) = (elems a st)[c := v]"
proof (rule nth_equalityI)
  fix i assume "i < length (elems a (put_mem (store 8 (pvData a + 8 * c) v (mem st)) st))"
  then have i: "i < cells (rgsabound a)" by simp
  have "load 8 (pvData a + 8 * i) (store 8 (pvData a + 8 * c) v (mem st)) = (if i = c then v else load 8 (pvData a + 8 * i) (mem st))"
  proof (cases "i = c")
    case False
    then have "pvData a + 8 * i + 8 \<le> pvData a + 8 * c \<or> pvData a + 8 * c + 8 \<le> pvData a + 8 * i" by linarith
    then show ?thesis using False by (simp add: load_store_other)
  qed (use assms(2) in \<open>simp add: load_store_same\<close>)
  then show "elems a (put_mem (store 8 (pvData a + 8 * c) v (mem st)) st) ! i = (elems a st)[c := v] ! i"
    using i by (simp add: elems_nth nth_list_update)
qed simp

lemma put_iface_inside:
  assumes "psa \<noteq> 0" "os_desc st psa = Some a" "iface a" "length is = cDims a" "inside (bounds_of a) is"
  obtains s2 where "SafeArrayPutElement ole psa (Some is) pv st = Some (S_OK, put_mem (store 8 (pvData a + 8 * iface_cell a is) pv (mem st)) s2)"
    "mem s2 = mem st" "os_desc s2 = os_desc st" "os_al s2 = os_al st"
    "os_calls s2 = os_calls st @ (if pv \<noteq> 0 then [AddRef pv] else [])
       @ (if load 8 (pvData a + 8 * iface_cell a is) (mem st) \<noteq> 0 then [Release (load 8 (pvData a + 8 * iface_cell a is) (mem st))] else [])"
proof -
  let ?c = "iface_cell a is" and ?st1 = "set_desc psa (a\<lparr>cLocks := 1\<rparr>) st"
  have f: "\<not> has (fFeatures a) FADF_VARIANT" "\<not> has (fFeatures a) FADF_BSTR" "has (fFeatures a) (FADF_UNKNOWN OR FADF_DISPATCH)" "cLocks a = 0" "pvData a \<noteq> 0"
    using assms(3) by (simp_all add: iface_def)
  note lu = lock_unlock [OF assms(1,2) f(4)] and ptr = iface_ptr [OF assms(1-4)]
  let ?old = "load 8 (pvData a + 8 * ?c) (mem st)"
  define s2 where "s2 = (if ?old \<noteq> 0 then call (Release ?old) (if pv \<noteq> 0 then call (AddRef pv) ?st1 else ?st1) else (if pv \<noteq> 0 then call (AddRef pv) ?st1 else ?st1))"
  have s2: "mem s2 = mem st" "os_desc s2 = os_desc ?st1" "os_al s2 = os_al st"
    "os_calls s2 = os_calls st @ (if pv \<noteq> 0 then [AddRef pv] else []) @ (if ?old \<noteq> 0 then [Release ?old] else [])" by (simp_all add: s2_def)
  have p: "put_cell ole psa (a\<lparr>cLocks := 1\<rparr>) (pvData a + 8 * ?c) pv ?st1 = Some (S_OK, put_mem (store 8 (pvData a + 8 * ?c) pv (mem st)) s2)"
    using f s2(1) by (simp add: put_cell_def Let_def s2_def)
  have "SafeArrayUnlock psa (put_mem (store 8 (pvData a + 8 * ?c) pv (mem st)) s2)
      = Some (S_OK, put_mem (store 8 (pvData a + 8 * ?c) pv (mem st)) (set_desc psa a s2))" by (subst lu(2)) (simp_all add: s2 set_desc_put)
  then have "SafeArrayPutElement ole psa (Some is) pv st = Some (S_OK, put_mem (store 8 (pvData a + 8 * ?c) pv (mem st)) (set_desc psa a s2))"
    using assms(1,5) lu(1) ptr p by (simp add: SafeArrayPutElement_def)
  then show ?thesis by (rule that) (use s2 assms(2) in \<open>simp_all add: fun_upd_idem\<close>)
qed

lemma put_iface_outside:
  assumes "psa \<noteq> 0" "os_desc st psa = Some a" "iface a" "length is = cDims a" "\<not> inside (bounds_of a) is"
  shows "SafeArrayPutElement ole psa (Some is) pv st = Some (DISP_E_BADINDEX, st)"
proof -
  note lu = lock_unlock [OF assms(1,2)] and ptr = iface_ptr [OF assms(1-4)]
  have "SafeArrayUnlock psa (set_desc psa (a\<lparr>cLocks := 1\<rparr>) st) = Some (S_OK, st)"
    using lu(2) [of "set_desc psa (a\<lparr>cLocks := 1\<rparr>) st"] assms(2,3) by (simp add: iface_def)
  then show ?thesis using assms(1,3,5) lu(1) ptr by (simp add: SafeArrayPutElement_def iface_def)
qed

lemma put_iface_law:
  assumes "psa \<noteq> 0" "os_desc st psa = Some a" "iface a" "length is = cDims a" "pv < 2 ^ 64" "SafeArrayPutElement ole psa (Some is) pv st = Some (hr, st')"
  shows "os_desc st' = os_desc st" "refs (os_calls st') x - refs (os_calls st) x = (if x = 0 then 0 else held a st' x - held a st x)"
    "set (elems a st') \<subseteq> insert pv (set (elems a st))"
proof (atomize (full), cases "inside (bounds_of a) is")
  case False
  then have "st' = st" using put_iface_outside [OF assms(1-4)] assms(6) by simp
  then show "os_desc st' = os_desc st \<and> refs (os_calls st') x - refs (os_calls st) x = (if x = 0 then 0 else held a st' x - held a st x)
      \<and> set (elems a st') \<subseteq> insert pv (set (elems a st))" by auto
next
  case True
  let ?c = "iface_cell a is" and ?old = "load 8 (pvData a + 8 * iface_cell a is) (mem st)"
  obtain s2 where s2: "SafeArrayPutElement ole psa (Some is) pv st = Some (S_OK, put_mem (store 8 (pvData a + 8 * ?c) pv (mem st)) s2)"
      "mem s2 = mem st" "os_desc s2 = os_desc st"
      "os_calls s2 = os_calls st @ (if pv \<noteq> 0 then [AddRef pv] else []) @ (if ?old \<noteq> 0 then [Release ?old] else [])"
    by (rule put_iface_inside [OF assms(1-4) True])
  have st': "st' = put_mem (store 8 (pvData a + 8 * ?c) pv (mem st)) s2" using s2(1) assms(6) by simp
  have c: "?c < cells (rgsabound a)" by (rule iface_cell_less [OF assms(3) True])
  have el: "elems a st' = (elems a st)[?c := pv]" using elems_store [OF c assms(5), of st] by (simp add: st' elems_def)
  then have "held a st' x = held a st x - of_bool (?old = x) + of_bool (pv = x)" using c by (simp add: held_def count_list_update elems_nth)
  then show "os_desc st' = os_desc st \<and> refs (os_calls st') x - refs (os_calls st) x = (if x = 0 then 0 else held a st' x - held a st x)
      \<and> set (elems a st') \<subseteq> insert pv (set (elems a st))"
    using s2 set_update_subset_insert [of "elems a st" ?c pv] el by (simp add: st')
qed

lemma elems_outside:
  assumes "\<And>x. pvData a \<le> x \<Longrightarrow> x < pvData a + 8 * cells (rgsabound a) \<Longrightarrow> mem st' x = mem st x"
  shows "elems a st' = elems a st"
proof -
  have "load 8 (pvData a + 8 * c) (mem st') = load 8 (pvData a + 8 * c) (mem st)" if "c < cells (rgsabound a)" for c
    by (rule load_cong) (use that in \<open>auto intro!: assms\<close>)
  then show ?thesis by (simp add: elems_def)
qed

text \<open>A variable of the caller that does not lie in the data.\<close>

definition beside :: "SAFEARRAY \<Rightarrow> nat \<Rightarrow> bool" where
  "beside a pv \<longleftrightarrow> pv \<noteq> 0 \<and> (pv + 8 \<le> pvData a \<or> pvData a + 8 * cells (rgsabound a) \<le> pv)"

lemma get_iface_law:
  assumes "psa \<noteq> 0" "os_desc st psa = Some a" "iface a" "length is = cDims a" "beside a pv" "SafeArrayGetElement ole psa (Some is) pv st = Some (hr, st')"
    and small: "\<forall>v \<in> set (elems a st). v < 2 ^ 64"
  shows "os_desc st' = os_desc st" "elems a st' = elems a st"
    "refs (os_calls st') x - refs (os_calls st) x = of_bool (hr = S_OK \<and> x \<noteq> 0 \<and> load 8 pv (mem st') = x)"
proof -
  let ?c = "iface_cell a is" and ?st1 = "set_desc psa (a\<lparr>cLocks := 1\<rparr>) st"
  have f: "\<not> has (fFeatures a) FADF_VARIANT" "\<not> has (fFeatures a) FADF_BSTR" "has (fFeatures a) (FADF_UNKNOWN OR FADF_DISPATCH)" "cLocks a = 0" "pvData a \<noteq> 0"
    using assms(3) by (simp_all add: iface_def)
  have pv: "pv \<noteq> 0" using assms(5) by (simp add: beside_def)
  note lu = lock_unlock [OF assms(1,2) f(4)] and ptr = iface_ptr [OF assms(1-4)]
  have "os_desc st' = os_desc st \<and> elems a st' = elems a st
      \<and> refs (os_calls st') x - refs (os_calls st) x = of_bool (hr = S_OK \<and> x \<noteq> 0 \<and> load 8 pv (mem st') = x)"
  proof (cases "inside (bounds_of a) is")
    case False
    have "SafeArrayUnlock psa ?st1 = Some (S_OK, st)" using lu(2) [of ?st1] assms(2) by simp
    then have "st' = st" "hr = DISP_E_BADINDEX" using assms(1,6) lu(1) ptr False pv by (simp_all add: SafeArrayGetElement_def)
    then show ?thesis by simp
  next
    case True
    let ?unk = "load 8 (pvData a + 8 * ?c) (mem st)"
    define s2 where "s2 = (if ?unk \<noteq> 0 then call (AddRef ?unk) ?st1 else ?st1)"
    have s2: "mem s2 = mem st" "os_desc s2 = os_desc ?st1" "os_calls s2 = os_calls st @ (if ?unk \<noteq> 0 then [AddRef ?unk] else [])" by (simp_all add: s2_def)
    have p: "get_cell ole psa (a\<lparr>cLocks := 1\<rparr>) (pvData a + 8 * ?c) pv ?st1 = Some (S_OK, put_mem (store 8 pv ?unk (mem st)) s2)"
      using f s2(1) by (simp add: get_cell_def Let_def s2_def)
    have "SafeArrayUnlock psa (put_mem (store 8 pv ?unk (mem st)) s2)
        = Some (S_OK, put_mem (store 8 pv ?unk (mem st)) (set_desc psa a s2))" by (subst lu(2)) (simp_all add: s2 set_desc_put)
    then have st': "st' = put_mem (store 8 pv ?unk (mem st)) (set_desc psa a s2)" "hr = S_OK"
      using assms(1,6) lu(1) ptr True p pv by (simp_all add: SafeArrayGetElement_def)
    have "mem st' y = mem st y" if "pvData a \<le> y" "y < pvData a + 8 * cells (rgsabound a)" for y
      unfolding st'(1) mem_put by (rule store_outside) (use assms(5) that in \<open>auto simp: beside_def\<close>)
    then have "elems a st' = elems a st" by (rule elems_outside)
    moreover have "load 8 pv (mem st') = ?unk"
    proof -
      have "?c < cells (rgsabound a)" by (rule iface_cell_less [OF assms(3) True])
      then have "?unk < 256 ^ 8" using small by (simp add: elems_def)
      then show ?thesis unfolding st'(1) mem_put by (rule load_store_same)
    qed
    ultimately show ?thesis using s2 assms(2) st' by (simp add: fun_upd_idem)
  qed
  then show "os_desc st' = os_desc st" "elems a st' = elems a st"
    "refs (os_calls st') x - refs (os_calls st) x = of_bool (hr = S_OK \<and> x \<noteq> 0 \<and> load 8 pv (mem st') = x)" by blast+
qed

section \<open>Runs\<close>

text \<open>Calls on the elements of one array; \<open>taken\<close> are the pointers handed to the caller.\<close>

inductive iface_run :: "ole \<Rightarrow> nat \<Rightarrow> SAFEARRAY \<Rightarrow> ole_state \<Rightarrow> ole_state \<Rightarrow> nat list \<Rightarrow> bool" for ole psa a s0 where
  start: "iface_run ole psa a s0 s0 []"
| put: "iface_run ole psa a s0 st taken \<Longrightarrow> length is = cDims a \<Longrightarrow> pv < 2 ^ 64 \<Longrightarrow> SafeArrayPutElement ole psa (Some is) pv st = Some (hr, st') \<Longrightarrow>
    iface_run ole psa a s0 st' taken"
| get: "iface_run ole psa a s0 st taken \<Longrightarrow> length is = cDims a \<Longrightarrow> beside a pv \<Longrightarrow> SafeArrayGetElement ole psa (Some is) pv st = Some (hr, st') \<Longrightarrow>
    iface_run ole psa a s0 st' (if hr = S_OK then load 8 pv (mem st') # taken else taken)"

lemma iface_run_inv:
  assumes "iface_run ole psa a s0 st taken" "psa \<noteq> 0" "os_desc s0 psa = Some a" "iface a" "\<forall>v \<in> set (elems a s0). v < 2 ^ 64" "x \<noteq> 0"
  shows "os_desc st psa = Some a \<and> (\<forall>v \<in> set (elems a st). v < 2 ^ 64)
    \<and> refs (os_calls st) x - refs (os_calls s0) x = held a st x - held a s0 x + int (count_list taken x)"
  using assms
proof (induction rule: iface_run.induct)
  case (put st taken "is" pv hr st')
  then have IH: "os_desc st psa = Some a" "\<forall>v \<in> set (elems a st). v < 2 ^ 64"
    "refs (os_calls st) x - refs (os_calls s0) x = held a st x - held a s0 x + int (count_list taken x)" by auto
  note l = put_iface_law [OF put.prems(1) IH(1) put.prems(3) put.hyps(2,3,4)]
  have "\<forall>v \<in> set (elems a st'). v < 2 ^ 64" using l(3) IH(2) put.hyps(3) by blast
  then show ?case using l(1) l(2) [of x] IH(1,3) put.prems(5) by simp
next
  case (get st taken "is" pv hr st')
  then have IH: "os_desc st psa = Some a" "\<forall>v \<in> set (elems a st). v < 2 ^ 64"
    "refs (os_calls st) x - refs (os_calls s0) x = held a st x - held a s0 x + int (count_list taken x)" by auto
  note l = get_iface_law [OF get.prems(1) IH(1) get.prems(3) get.hyps(2,3,4) IH(2)]
  show ?case using l(1,2) l(3) [of x] IH get.prems(5) by (auto simp: held_def)
qed simp

section \<open>Destroying an array of interfaces\<close>

lemma release_cells_frame:
  "os_desc (release_cells n p st) = os_desc st" "os_al (release_cells n p st) = os_al st" "mem (release_cells n p st) = mem st"
  "os_cblocks (release_cells n p st) = os_cblocks st"
  by (induction n p st rule: release_cells.induct) (auto simp: Let_def)

lemma release_cells_calls:
  "os_calls (release_cells n p st) = os_calls st @ map Release (filter (\<lambda>u. u \<noteq> 0) (map (\<lambda>c. load 8 (p + 8 * c) (mem st)) [0..<n]))"
proof (induction n p st rule: release_cells.induct)
  case (2 n p st)
  have "map (\<lambda>c. load 8 (p + 8 * c) (mem st)) [0..<Suc n] = load 8 p (mem st) # map (\<lambda>c. load 8 (p + 8 + 8 * c) (mem st)) [0..<n]"
    unfolding upt_conv_Cons [OF zero_less_Suc] map_Suc_upt [symmetric] list.map map_map by (simp add: o_def algebra_simps)
  then show ?case using 2 by (simp add: Let_def del: upt_Suc)
qed simp

lemma refs_releases: "x \<noteq> 0 \<Longrightarrow> refs (map Release (filter (\<lambda>u. u \<noteq> 0) us)) x = - int (count_list us x)"
  by (induction us) (auto simp: refs_def)

lemma destroy_iface_law:
  assumes "task_ok ole st" "array st psa a" "iface a" "\<not> has (fFeatures a) FADF_RECORD"
  obtains st' where "SafeArrayDestroy ole psa st = Some (S_OK, st')"
    "os_calls st' = os_calls st @ map Release (filter (\<lambda>u. u \<noteq> 0) (elems a st))" "task_ok ole st'"
    "tblocks st' = (tblocks st)(pvData a := None, psa - 16 := None)" "os_desc st' = (os_desc st)(psa := None)"
proof -
  note ar = assms(2) [unfolded array_def] and f = assms(3) [unfolded iface_def]
  let ?n = "cells (rgsabound a)"
  let ?r = "release_cells ?n (pvData a) st"
  let ?st1 = "set_desc psa (a\<lparr>pvData := 0\<rparr>) (SAFEARRAY_Free (pvData a) ?r)"
  let ?st2 = "(SAFEARRAY_Free (psa - 16) ?st1)\<lparr>os_desc := (os_desc ?st1)(psa := None)\<rparr>"
  have n: "SAFEARRAY_GetCellCount a = ?n" using sized_cells sa_ok_sized f by blast
  have okr: "task_ok ole ?r" "tblocks ?r = tblocks st" using assms(1) by (simp_all add: task_ok_def tblocks_def release_cells_frame fun_eq_iff)
  have dd: "SAFEARRAY_DestroyData ole psa 0 st = Some (S_OK, ?r)" using ar f n by (simp add: SAFEARRAY_DestroyData_def Let_def)
  have d: "SafeArrayDestroyData ole psa st = Some (S_OK, ?st1)" using ar f dd by (simp add: SafeArrayDestroyData_def release_cells_frame)
  note f1 = SAFEARRAY_Free_law [OF okr(1), of "pvData a"]
  have ok1: "task_ok ole ?st1" using f1(1) by simp
  note f2 = SAFEARRAY_Free_law [OF ok1, of "psa - 16"]
  have e: "SafeArrayDestroyDescriptor ole psa ?st1 = Some (S_OK, ?st2)"
    using ar f assms(4) f1 by (simp add: SafeArrayDestroyDescriptor_def SAFEARRAY_HIDDEN_SIZE_def)
  have calls: "os_calls ?r = os_calls st @ map Release (filter (\<lambda>u. u \<noteq> 0) (elems a st))" by (simp add: release_cells_calls elems_def)
  show ?thesis
  proof (rule that [of ?st2])
    show "SafeArrayDestroy ole psa st = Some (S_OK, ?st2)" using ar f d e by (simp add: SafeArrayDestroy_def)
    show "os_desc ?st2 = (os_desc st)(psa := None)" using f1 f2 by (simp add: release_cells_frame)
  qed (use f1 f2 calls okr in simp_all)
qed

text \<open>C25: in every run of puts and gets on the cells of an array of interfaces, the references taken on an interface minus those
  given back are the cells that came to hold it plus the pointers handed to the caller; destroying the array gives
  back one reference for every cell, so that only those handed out, less those the cells held at the start, remain.\<close>

theorem iface_references:
  assumes "iface_run ole psa a s0 st taken" "psa \<noteq> 0" "os_desc s0 psa = Some a" "iface a" "\<forall>v \<in> set (elems a s0). v < 2 ^ 64" "x \<noteq> 0"
    and "task_ok ole st" "array st psa a" "\<not> has (fFeatures a) FADF_RECORD"
  shows "refs (os_calls st) x - refs (os_calls s0) x = held a st x - held a s0 x + int (count_list taken x)
    \<and> (\<exists>st'. SafeArrayDestroy ole psa st = Some (S_OK, st') \<and> refs (os_calls st') x - refs (os_calls s0) x = int (count_list taken x) - held a s0 x)"
proof -
  have r: "refs (os_calls st) x - refs (os_calls s0) x = held a st x - held a s0 x + int (count_list taken x)"
    using iface_run_inv [OF assms(1-6)] by blast
  obtain st' where "SafeArrayDestroy ole psa st = Some (S_OK, st')" "os_calls st' = os_calls st @ map Release (filter (\<lambda>u. u \<noteq> 0) (elems a st))"
    by (rule destroy_iface_law [OF assms(7,8,4,9)])
  then show ?thesis using r refs_releases [OF assms(6), of "elems a st"] by (auto simp: held_def)
qed

text \<open>One cell for an interface, in the blocks of the array of shorts.\<close>

definition iface0 :: "SAFEARRAY \<Rightarrow> SAFEARRAY" where
  "iface0 a = a\<lparr>cDims := 1, fFeatures := FADF_HAVEIID OR FADF_UNKNOWN, cbElements := 8, rgsabound := [\<lparr>cElements = 1, lLbound = 0\<rparr>]\<rparr>"

lemma iface0_array:
  assumes "array st 4120 a" "cLocks a = 0" "data_size a = 12"
  shows "array (set_desc 4120 (iface0 a) st) 4120 (iface0 a)" "iface (iface0 a)" "\<not> has (fFeatures (iface0 a)) FADF_RECORD"
  using assms by (auto simp: array_def iface_def iface0_def sa_ok_def bound_ok_def in_int32_def data_size_def has_def fadf_defs)

theorem iface_references_witness:
  "\<exists>st0 st st' a. iface_run ole0 4120 a st0 st [] \<and> held a st 7 = 1 \<and> refs (os_calls st) 7 = refs (os_calls st0) 7 + 1
     \<and> SafeArrayDestroy ole0 4120 st = Some (S_OK, st') \<and> refs (os_calls st') 7 = refs (os_calls st0) 7"
proof (rule array0)
  fix s a assume a: "array s 4120 a" "cLocks a = 0" "sa_inv ole0 s" "cbElements a = 2" "rgsabound a = rev bounds0" "\<forall>i < data_size a. mem s (pvData a + i) = 0"
  let ?a = "iface0 a" and ?st0 = "set_desc 4120 (iface0 a) s"
  have ds: "data_size a = 12" using a(4,5) by (simp add: data_size_def bounds0_def)
  note arr = iface0_array [OF a(1,2) ds]
  have pa: "pvData ?a = pvData a" "cells (rgsabound ?a) = 1" "cDims ?a = 1" "bounds_of ?a = [\<lparr>cElements = 1, lLbound = 0\<rparr>]"
    by (simp_all add: iface0_def bounds_of_def)
  have "mem s x = 0" if "pvData a \<le> x" "x < pvData a + 8" for x
    using a(6) [rule_format, of "x - pvData a"] le_add_diff_inverse [OF that(1)] that(2) ds by simp
  then have "load 8 (pvData a) (mem s) = 0" by (rule load_zero)
  then have e0: "elems ?a ?st0 = [0]" by (simp add: elems_def pa)
  have d0: "os_desc ?st0 4120 = Some ?a" by simp
  have ptr: "inside (bounds_of ?a) [0]" by (simp add: pa index_in_def)
  have c0: "iface_cell ?a [0] = 0" by (simp add: iface_cell_def pa)
  obtain s2 where s2: "SafeArrayPutElement ole0 4120 (Some [0]) 7 ?st0 = Some (S_OK, put_mem (store 8 (pvData a) 7 (mem s)) s2)"
      "mem s2 = mem s" "os_desc s2 = os_desc ?st0" "os_al s2 = os_al s"
    by (rule put_iface_inside [OF _ d0 arr(2) _ ptr, of ole0 7]) (auto simp: pa c0)
  define st where "st = put_mem (store 8 (pvData a) 7 (mem s)) s2"
  have tb: "tblocks s2 = tblocks s" "task_ok ole0 s2 = task_ok ole0 s" using s2(4) by (auto simp: tblocks_def task_ok_def fun_eq_iff)
  have "elems ?a st = [7]" using load_store_same [of 7 8 "pvData a" "mem s"] by (simp add: st_def elems_def pa)
  moreover have "array st 4120 ?a" using arr(1) s2(3) tb(1) by (simp add: array_def st_def)
  moreover have "task_ok ole0 st" unfolding st_def
  proof (rule task_ok_put)
    show "task_ok ole0 s2" using a(3) tb by (simp add: sa_inv_def)
    show "live s2 (pvData a) 8" using live_sub [OF array_live(1) [OF a(1)], of "pvData a" 8] ds tb by (simp add: live_def)
  qed (use s2(2) in \<open>simp add: store_outside\<close>)
  ultimately have st: "SafeArrayPutElement ole0 4120 (Some [0]) 7 ?st0 = Some (S_OK, st)" "elems ?a st = [7]" "array st 4120 ?a" "task_ok ole0 st"
    using s2(1) by (simp_all add: st_def)
  have run: "iface_run ole0 4120 ?a ?st0 st []" by (rule iface_run.put [OF iface_run.start _ _ st(1)]) (simp_all add: pa)
  obtain st' where "SafeArrayDestroy ole0 4120 st = Some (S_OK, st')" "refs (os_calls st') 7 - refs (os_calls ?st0) 7 = 0 - held ?a ?st0 7"
      "refs (os_calls st) 7 - refs (os_calls ?st0) 7 = held ?a st 7 - held ?a ?st0 7 + 0"
    using iface_references [OF run _ d0 arr(2) _ _ st(4,3) arr(3), of 7] e0 by auto
  moreover have "held ?a st 7 = 1" "held ?a ?st0 7 = 0" using st(2) e0 by (simp_all add: held_def)
  ultimately show ?thesis using run by (intro exI [of _ ?st0] exI [of _ st] exI [of _ st'] exI [of _ ?a]) simp
qed

section \<open>The size that wraps\<close>

text \<open>65536 by 65537 bytes: the number of cells is \<open>2 ^ 32 + 65536\<close>.\<close>

definition wide :: "SAFEARRAYBOUND list" where
  "wide = [\<lparr>cElements = 65536, lLbound = 0\<rparr>, \<lparr>cElements = 65537, lLbound = 0\<rparr>]"

text \<open>The count of cells is 32 bits and wraps unseen. An array of 65536 by 65537 bytes is created with a block of 65536
  bytes for its data; \<open>SafeArrayPtrOfIndex\<close> still accepts every index inside the bounds and takes the one behind the first row
  to the byte behind the block, and the one a whole \<open>2 ^ 32\<close> cells on to the first cell again.\<close>

theorem SafeArrayCreate_wraps:
  assumes "task_ok ole st" "SafeArrayCreate ole VT_UI1 2 (Some wide) st = Some (psa, st')" "psa \<noteq> 0"
  shows "\<exists>a b. os_desc st' psa = Some a \<and> bounds_of a = wide \<and> tblocks st' (pvData a) = Some b \<and> mb_len b = 65536
    \<and> SafeArrayPtrOfIndex psa (Some [0, 0]) st' = Some (S_OK, pvData a)
    \<and> SafeArrayPtrOfIndex psa (Some [0, 1]) st' = Some (S_OK, pvData a + mb_len b)
    \<and> SafeArrayPtrOfIndex psa (Some [0, 65536]) st' = Some (S_OK, pvData a)"
proof -
  have vt: "plain_vt VT_UI1" "VT_UI1 \<noteq> VT_RECORD" by (simp_all add: plain_vt_def SAFEARRAY_GetVTSize_def vt_defs)
  show ?thesis
  proof (rule SafeArrayAllocDescriptorEx_law [OF assms(1) _ _ vt(1), of 2])
    assume "SafeArrayAllocDescriptorEx ole VT_UI1 2 st = Some (E_OUTOFMEMORY, 0, st)"
    then show ?thesis using assms(2,3) vt(2) by (simp add: SafeArrayCreate_def SAFEARRAY_Create_def wide_def)
  next
    fix q st1 assume q: "malloced ole q (48 + 8 * (2 - 1)) st st1"
      "SafeArrayAllocDescriptorEx ole VT_UI1 2 st = Some (S_OK, q + 16, set_desc (q + 16) (new_desc VT_UI1 2) (put_mem (store 4 (12 + q) VT_UI1 (mem st1)) st1))"
    let ?a = "new_desc VT_UI1 2\<lparr>rgsabound := rev wide\<rparr>" and ?st2 = "with_desc VT_UI1 2 wide q st1"
    have cb: "cbElements ?a = 1" by (simp add: SAFEARRAY_GetVTSize_def vt_defs)
    have "dword (SAFEARRAY_GetCellCount ?a * cbElements ?a) = 65536"
      unfolding cb by (simp add: SAFEARRAY_GetCellCount_def wide_def dword_def)
    then have alloc: "SafeArrayAllocData ole (q + 16) ?st2 = map_option (\<lambda>(p, s). (if p \<noteq> 0 then S_OK else E_OUTOFMEMORY, set_desc (q + 16) (?a\<lparr>pvData := p\<rparr>) s))
        (SAFEARRAY_Malloc ole 65536 ?st2)"
      by (cases "SAFEARRAY_Malloc ole 65536 ?st2") (auto simp: SafeArrayAllocData_def)
    have run: "SafeArrayCreate ole VT_UI1 2 (Some wide) st = do {
        (ok, st3) \<leftarrow> do { (hr2, s) \<leftarrow> SafeArrayAllocData ole (q + 16) ?st2; Some (SUCCEEDED hr2, s) };
        if ok then Some (q + 16, st3) else do { (_, st4) \<leftarrow> SafeArrayDestroyDescriptor ole (q + 16) st3; Some (0, st4) } }"
      using q(2) vt type_feature_plain [OF vt(1)] cb by (simp add: SafeArrayCreate_def SAFEARRAY_Create_def with_desc_def wide_def)
    show ?thesis
    proof (rule SAFEARRAY_Malloc_law [OF with_desc_ok(1) [OF q(1), where vt = VT_UI1 and bs = wide], of 65536])
      assume m: "SAFEARRAY_Malloc ole 65536 ?st2 = Some (0, ?st2)"
      then have "psa = 0" using run alloc assms(2) by (auto split: bind_splits option.splits)
      then show ?thesis using assms(3) by simp
    next
      fix p st3 assume m: "SAFEARRAY_Malloc ole 65536 ?st2 = Some (p, st3)" "malloced ole p 65536 ?st2 st3"
      let ?b = "?a\<lparr>pvData := p\<rparr>"
      obtain b where b: "tblocks st3 p = Some b" "mb_len b = 65536" using malloced_frame(7) [OF m(2)] by auto
      have r: "psa = q + 16" "st' = set_desc (q + 16) ?b st3" using m(1) run alloc assms(2) malloced_frame(5) [OF m(2)] by simp_all
      have "ptr_of_index ?b [0, 0] = Some p" "ptr_of_index ?b [0, 1] = Some (p + 65536)" "ptr_of_index ?b [0, 65536] = Some p"
        by (simp_all add: ptr_of_index_def wide_def out_of_bounds_def wrap32_def dword_def ulong_def SAFEARRAY_GetVTSize_def vt_defs)
      then show ?thesis using r b by (intro exI [of _ ?b] exI [of _ b]) (simp add: SafeArrayPtrOfIndex_def bounds_of_def wide_def)
    qed simp
  qed simp_all
qed

theorem SafeArrayCreate_wraps_witness:
  "\<exists>st a b. SafeArrayCreate ole0 VT_UI1 2 (Some wide) st0 = Some (4120, st) \<and> os_desc st 4120 = Some a \<and> tblocks st (pvData a) = Some b
     \<and> SafeArrayPtrOfIndex 4120 (Some [0, 1]) st = Some (S_OK, pvData a + mb_len b)"
proof -
  have "\<exists>st. SafeArrayCreate ole0 VT_UI1 2 (Some wide) st0 = Some (4120, st)"
    by (simp add: sa_run_defs run_defs st0_def ole0_def wide_def dword_def)
  then obtain st where st: "SafeArrayCreate ole0 VT_UI1 2 (Some wide) st0 = Some (4120, st)" by blast
  then show ?thesis using SafeArrayCreate_wraps [OF st0_inv(2) st] by auto
qed

end
