(* ===== verification/Variant_Model.thy ===== *)
theory Variant_Model
  imports Safearray_Api
begin

text \<open>
  Variants (\<^verbatim>\<open>src/variant.cpp\<close>): 24 bytes of memory, the type in the first two and the value at offset
  eight. A variant may hold a safe array of variants and a safe array may hold variants, so the
  functions here and those on safe arrays call each other. The knot is tied with fuel: the
  functions at level \<open>Suc n\<close> hand the safe arrays the functions at level \<open>n\<close>, and level 0 does not
  return. Fuel is the depth of arrays inside variants and of references to variants.
\<close>

definition sizeof_VARIANT :: nat where "sizeof_VARIANT = 24"

definition VT_TYPEMASK :: nat where "VT_TYPEMASK = 0xfff"

definition VT_ARRAY :: nat where "VT_ARRAY = 0x2000"

definition VT_BYREF :: nat where "VT_BYREF = 0x4000"

definition variant_vt :: "nat \<Rightarrow> ole_state \<Rightarrow> nat" where
  "variant_vt p st = load 2 p (mem st)"

text \<open>The pointer in the union: string, interface, array or referenced variant.\<close>

definition variant_ptr :: "nat \<Rightarrow> ole_state \<Rightarrow> nat" where
  "variant_ptr p st = load 8 (p + 8) (mem st)"

definition set_variant_vt :: "nat \<Rightarrow> nat \<Rightarrow> ole_state \<Rightarrow> ole_state" where
  "set_variant_vt p vt st = put_mem (store 2 p vt (mem st)) st"

definition set_variant_ptr :: "nat \<Rightarrow> nat \<Rightarrow> ole_state \<Rightarrow> ole_state" where
  "set_variant_ptr p v st = put_mem (store 8 (p + 8) v (mem st)) st"

definition copy_variant_bytes :: "nat \<Rightarrow> nat \<Rightarrow> ole_state \<Rightarrow> ole_state" where
  "copy_variant_bytes dest src st = put_mem (memcpy dest src sizeof_VARIANT (mem st)) st"

definition VariantInit :: "nat \<Rightarrow> ole_state \<Rightarrow> ole_state" where
  "VariantInit p st = (if p = 0 then st else set_variant_vt p 0 (put_mem (memset p 0 sizeof_VARIANT (mem st)) st))"

fun VariantClear :: "nat \<Rightarrow> ole \<Rightarrow> nat \<Rightarrow> ole_state \<Rightarrow> (HRESULT \<times> ole_state) option" where
  "VariantClear 0 ole prop st = None"
| "VariantClear (Suc n) ole prop st =
     (if prop = 0 then Some (E_POINTER, st)
      else do {
        st1 \<leftarrow>
          (if variant_vt prop st AND VT_BYREF \<noteq> 0 then Some st
           else if variant_vt prop st AND VT_ARRAY \<noteq> 0
           then map_option snd (SafeArrayDestroy (ole\<lparr>ole_VariantClear := (\<lambda>p s. map_option snd (VariantClear n ole p s))\<rparr>) (variant_ptr prop st) st)
           else if variant_vt prop st AND VT_TYPEMASK = VT_BSTR then SysFreeString (variant_ptr prop st) st
           else if variant_vt prop st AND VT_TYPEMASK = VT_DISPATCH \<or> variant_vt prop st AND VT_TYPEMASK = VT_UNKNOWN
           then Some (if variant_ptr prop st \<noteq> 0 then call (Release (variant_ptr prop st)) st else st)
           else Some st);
        Some (S_OK, set_variant_vt prop 0 (put_mem (memset prop 0 sizeof_VARIANT (mem st1)) st1)) })"

text \<open>The switch on the plain types.\<close>

definition copy_plain :: "ole \<Rightarrow> nat \<Rightarrow> nat \<Rightarrow> ole_state \<Rightarrow> HRESULT \<times> ole_state" where
  "copy_plain ole dest src st =
     (let t = variant_vt src st AND VT_TYPEMASK
      in if t = VT_BSTR
         then (let (p, st1) = SysAllocStringCopy ole (variant_ptr src st) st; st2 = set_variant_ptr dest p st1
               in if variant_ptr dest st2 = 0 \<and> variant_ptr src st2 \<noteq> 0 then (E_OUTOFMEMORY, st2) else (S_OK, set_variant_vt dest VT_BSTR st2))
         else if t = VT_DISPATCH \<or> t = VT_UNKNOWN
         then (let st1 = set_variant_ptr dest (variant_ptr src st) st; p = variant_ptr dest st1;
                   st2 = (if p \<noteq> 0 then call (AddRef p) st1 else st1)
               in (S_OK, set_variant_vt dest t st2))
         else (S_OK, copy_variant_bytes dest src st))"

fun VariantCopy :: "nat \<Rightarrow> ole \<Rightarrow> nat \<Rightarrow> nat \<Rightarrow> ole_state \<Rightarrow> (HRESULT \<times> ole_state) option" where
  "VariantCopy 0 ole dest src st = None"
| "VariantCopy (Suc n) ole dest src st =
     (if dest = 0 \<or> src = 0 then Some (E_POINTER, st)
      else do {
        (res, st1) \<leftarrow> VariantClear (Suc n) ole dest st;
        if res \<noteq> S_OK then Some (res, st1)
        else if variant_vt src st1 AND VT_TYPEMASK = VT_VARIANT \<and> variant_vt src st1 AND VT_BYREF \<noteq> 0
        then (if variant_ptr src st1 = 0 then Some (S_OK, set_variant_vt dest 0 st1)
              else VariantCopy n ole dest (variant_ptr src st1) st1)
        else if variant_vt src st1 AND VT_BYREF \<noteq> 0 then Some (S_OK, copy_variant_bytes dest src st1)
        else if variant_vt src st1 AND VT_ARRAY \<noteq> 0
        then (let st2 = set_variant_vt dest 0 st1
              in do {
                (hr, out, st3) \<leftarrow> SafeArrayCopy (ole\<lparr>ole_VariantClear := (\<lambda>p s. map_option snd (VariantClear n ole p s)),
                                                        ole_VariantCopy := VariantCopy n ole\<rparr>) (variant_ptr src st2) st2;
                let st4 = set_variant_ptr dest out st3;
                Some (if hr \<noteq> S_OK then (hr, st4) else (S_OK, set_variant_vt dest (variant_vt src st4) st4)) })
        else Some (copy_plain ole dest src st1) })"

text \<open>The library whose safe arrays hold variants, at a level of fuel.\<close>

definition variant_ole :: "nat \<Rightarrow> ole \<Rightarrow> ole" where
  "variant_ole n ole = ole\<lparr>ole_VariantClear := (\<lambda>p s. map_option snd (VariantClear n ole p s)), ole_VariantCopy := VariantCopy n ole\<rparr>"

end
