(* ===== verification/Variant_Props.thy ===== *)
theory Variant_Props
  imports Variant_Model Safearray_Refs Bstr_Props
begin

text \<open>
  Variants that hold numbers, strings, interfaces and references to variants: a copy follows the references and
  needs one level of fuel for each, references that go around in a circle are followed for ever, a copied string
  is a string of its own, and the reference calls of a copy and of clearing it balance.
\<close>

section \<open>An empty variant\<close>

definition cells_apart :: "nat \<Rightarrow> nat \<Rightarrow> bool" where
  "cells_apart p q \<longleftrightarrow> p + sizeof_VARIANT \<le> q \<or> q + sizeof_VARIANT \<le> p"

definition owns_nothing :: "nat \<Rightarrow> ole_state \<Rightarrow> bool" where
  "owns_nothing p st \<longleftrightarrow> variant_vt p st AND VT_BYREF \<noteq> 0
     \<or> variant_vt p st AND VT_ARRAY = 0 \<and> variant_vt p st AND VT_TYPEMASK \<notin> {VT_BSTR, VT_DISPATCH, VT_UNKNOWN}"

lemma load_less: "(\<And>x. m x < 256) \<Longrightarrow> load n a m < 256 ^ n"
proof (induction n arbitrary: a)
  case (Suc n)
  have "load n (a + 1) m + 1 \<le> 256 ^ n" using Suc.IH [of "a + 1"] Suc.prems by (simp add: Suc_leI)
  moreover have "m a < 256" by (rule Suc.prems)
  ultimately show ?case by simp
qed simp

lemma store_zero: "store n a 0 m = (\<lambda>x. if a \<le> x \<and> x < a + n then 0 else m x)"
  by (induction n arbitrary: a m) (auto simp: fun_eq_iff)

lemma variant_mem_put [simp]: "mem (put_mem m st) = m"
  by (simp add: mem_def put_mem_def)

lemma variant_put_put [simp]: "put_mem m (put_mem m' st) = put_mem m st"
  by (simp add: put_mem_def)

lemma calls_put [simp]: "os_calls (put_mem m st) = os_calls st"
  by (simp add: put_mem_def)

lemma mem_call [simp]: "mem (call c st) = mem st" "os_calls (call c st) = os_calls st @ [c]"
  by (simp_all add: mem_def call_def)

lemma store_blank: "store 2 p 0 (memset p 0 sizeof_VARIANT m) = memset p 0 sizeof_VARIANT m"
  by (auto simp: store_zero memset_def sizeof_VARIANT_def fun_eq_iff)

lemma VariantInit_mem: "p \<noteq> 0 \<Longrightarrow> VariantInit p st = put_mem (memset p 0 sizeof_VARIANT (mem st)) st"
  by (simp add: VariantInit_def set_variant_vt_def store_blank)

lemma clear_nothing: "p \<noteq> 0 \<Longrightarrow> owns_nothing p st \<Longrightarrow> VariantClear (Suc n) ole p st = Some (S_OK, VariantInit p st)"
  by (auto simp: owns_nothing_def VariantInit_def)

lemma blank_vt: "p \<noteq> 0 \<Longrightarrow> variant_vt p (VariantInit p st) = 0"
  by (simp add: VariantInit_mem variant_vt_def load_zero memset_inside sizeof_VARIANT_def)

lemma blank_owns_nothing: "p \<noteq> 0 \<Longrightarrow> owns_nothing p (VariantInit p st)"
  by (simp add: owns_nothing_def blank_vt VT_BSTR_def VT_DISPATCH_def VT_UNKNOWN_def)

lemma VariantInit_idem: "p \<noteq> 0 \<Longrightarrow> VariantInit p (VariantInit p st) = VariantInit p st"
  by (auto simp: VariantInit_mem memset_def fun_eq_iff intro!: arg_cong [where f = "\<lambda>m. put_mem m st"])

lemma blank_other:
  assumes "cells_apart p q" "p \<noteq> 0"
  shows "variant_vt q (VariantInit p st) = variant_vt q st" "variant_ptr q (VariantInit p st) = variant_ptr q st"
  using assms by (auto simp: VariantInit_mem variant_vt_def variant_ptr_def cells_apart_def sizeof_VARIANT_def intro!: load_memset_other)

section \<open>References to variants\<close>

text \<open>A variant that refers to another one.\<close>

definition is_ref :: "ole_state \<Rightarrow> nat \<Rightarrow> bool" where
  "is_ref st p \<longleftrightarrow> p \<noteq> 0 \<and> variant_vt p st AND VT_TYPEMASK = VT_VARIANT \<and> variant_vt p st AND VT_BYREF \<noteq> 0 \<and> variant_ptr p st \<noteq> 0"

fun ref_path :: "ole_state \<Rightarrow> nat \<Rightarrow> nat list \<Rightarrow> nat \<Rightarrow> bool" where
  "ref_path st p [] q \<longleftrightarrow> p = q \<and> q \<noteq> 0"
| "ref_path st p (x # xs) q \<longleftrightarrow> p = x \<and> is_ref st x \<and> ref_path st (variant_ptr x st) xs q"

lemma blank_is_ref: "cells_apart p q \<Longrightarrow> p \<noteq> 0 \<Longrightarrow> is_ref (VariantInit p st) q = is_ref st q"
  by (simp add: is_ref_def blank_other)

lemma blank_ref_path:
  "p \<noteq> 0 \<Longrightarrow> (\<And>x. x \<in> set xs \<Longrightarrow> cells_apart p x) \<Longrightarrow> ref_path (VariantInit p st) src xs q = ref_path st src xs q"
  by (induction xs arbitrary: src) (auto simp: blank_is_ref blank_other)

lemma copy_ref:
  assumes d: "dest \<noteq> 0" "owns_nothing dest st" and r: "is_ref st src" "cells_apart dest src"
  shows "VariantCopy (Suc n) ole dest src st = VariantCopy n ole dest (variant_ptr src st) (VariantInit dest st)"
proof -
  have s: "src \<noteq> 0" using r by (simp add: is_ref_def)
  have "is_ref (VariantInit dest st) src" using r d by (simp add: blank_is_ref)
  then show ?thesis using d s r(2) clear_nothing [OF d, of n ole] by (simp add: is_ref_def blank_other)
qed

lemma copy_ref_path:
  "dest \<noteq> 0 \<Longrightarrow> owns_nothing dest st \<Longrightarrow> ref_path st src xs q \<Longrightarrow> (\<And>x. x \<in> set xs \<Longrightarrow> cells_apart dest x) \<Longrightarrow>
   VariantCopy (length xs + n) ole dest src st = VariantCopy n ole dest q (if xs = [] then st else VariantInit dest st)"
proof (induction xs arbitrary: src st)
  case (Cons x xs)
  have "ref_path (VariantInit dest st) (variant_ptr x st) xs q" using Cons.prems by (simp add: blank_ref_path)
  then have "VariantCopy (length xs + n) ole dest (variant_ptr x st) (VariantInit dest st) = VariantCopy n ole dest q (VariantInit dest st)"
    using Cons.IH [of "VariantInit dest st" "variant_ptr x st"] Cons.prems(1,4) by (simp add: VariantInit_idem blank_owns_nothing)
  then show ?case using Cons.prems copy_ref [of dest st x "length xs + n" ole] by simp
qed simp

lemma copy_ring:
  "dest \<noteq> 0 \<Longrightarrow> owns_nothing dest st \<Longrightarrow> src \<in> S \<Longrightarrow> (\<And>p. p \<in> S \<Longrightarrow> is_ref st p \<and> variant_ptr p st \<in> S \<and> cells_apart dest p) \<Longrightarrow>
   VariantCopy n ole dest src st = None"
proof (induction n arbitrary: src st)
  case (Suc n)
  have r: "is_ref st src" "cells_apart dest src" "variant_ptr src st \<in> S" using Suc.prems(3,4) by auto
  have "is_ref (VariantInit dest st) p \<and> variant_ptr p (VariantInit dest st) \<in> S \<and> cells_apart dest p" if "p \<in> S" for p
    using Suc.prems(1) Suc.prems(4) [OF that] by (simp add: blank_is_ref blank_other)
  then show ?case using Suc.IH [of "VariantInit dest st"] Suc.prems(1) blank_owns_nothing r(3) copy_ref [OF Suc.prems(1,2) r(1,2)] by simp
qed simp

section \<open>The last variant\<close>

text \<open>The interface a variant holds a reference on.\<close>

definition held_refs :: "nat \<Rightarrow> ole_state \<Rightarrow> nat list" where
  "held_refs p st = (if variant_vt p st AND VT_TYPEMASK \<in> {VT_DISPATCH, VT_UNKNOWN} \<and> variant_ptr p st \<noteq> 0 then [variant_ptr p st] else [])"

lemmas vt_values = VT_TYPEMASK_def VT_ARRAY_def VT_BYREF_def VT_BSTR_def VT_DISPATCH_def VT_UNKNOWN_def

lemma copy_last:
  assumes "dest \<noteq> 0" "owns_nothing dest st" "cells_apart dest q" "q \<noteq> 0"
    "variant_vt q st AND VT_BYREF = 0" "variant_vt q st AND VT_ARRAY = 0"
  shows "VariantCopy (Suc n) ole dest q st = Some (copy_plain ole dest q (VariantInit dest st))"
  using assms clear_nothing [OF assms(1,2), of n ole] by (simp add: blank_other)

lemma set_ptr_read:
  assumes "v < 256 ^ 8"
  shows "variant_ptr p (set_variant_ptr p v st) = v" "variant_ptr p (set_variant_vt p t st) = variant_ptr p st"
  using load_store_same [OF assms, of "p + 8" "mem st"]
  by (simp_all add: variant_ptr_def set_variant_ptr_def set_variant_vt_def load_store_other)

lemma set_vt_read: "t < 256 ^ 2 \<Longrightarrow> variant_vt p (set_variant_vt p t st) = t"
  using load_store_same [of t 2 p "mem st"] by (simp add: variant_vt_def set_variant_vt_def)

lemma copied_read: "cells_apart p q \<Longrightarrow> variant_vt p (copy_variant_bytes p q st) = variant_vt q st \<and> variant_ptr p (copy_variant_bytes p q st) = variant_ptr q st"
  by (auto simp: variant_vt_def variant_ptr_def copy_variant_bytes_def memcpy_inside sizeof_VARIANT_def add.assoc intro!: load_shift)

lemma put_outside:
  assumes "x < p \<or> p + sizeof_VARIANT \<le> x"
  shows "mem (set_variant_ptr p v st) x = mem st x" "mem (set_variant_vt p t st) x = mem st x" "mem (copy_variant_bytes p q st) x = mem st x"
    "p \<noteq> 0 \<Longrightarrow> mem (VariantInit p st) x = mem st x"
  using assms by (auto simp: set_variant_ptr_def set_variant_vt_def copy_variant_bytes_def VariantInit_mem store_outside memcpy_outside memset_outside sizeof_VARIANT_def)

lemma put_calls [simp]:
  "os_calls (set_variant_ptr p v st) = os_calls st" "os_calls (set_variant_vt p t st) = os_calls st" "os_calls (copy_variant_bytes p q st) = os_calls st"
  "os_calls (VariantInit p st) = os_calls st"
  by (simp_all add: set_variant_ptr_def set_variant_vt_def copy_variant_bytes_def VariantInit_def)

lemma call_read [simp]: "variant_vt p (call c st) = variant_vt p st" "variant_ptr p (call c st) = variant_ptr p st"
  by (simp_all add: variant_vt_def variant_ptr_def)

text \<open>What a copy of a number or an interface leaves in its destination.\<close>

lemma copy_plain_copies:
  assumes d: "cells_apart dest q" and t: "variant_vt q st AND VT_TYPEMASK \<noteq> VT_BSTR" and v: "variant_ptr q st < 256 ^ 8"
  shows "\<exists>st'. copy_plain ole dest q st = (S_OK, st') \<and> variant_ptr dest st' = variant_ptr q st
    \<and> variant_vt dest st' = (if variant_vt q st AND VT_TYPEMASK \<in> {VT_DISPATCH, VT_UNKNOWN} then variant_vt q st AND VT_TYPEMASK else variant_vt q st)
    \<and> (\<forall>x. x < dest \<or> dest + sizeof_VARIANT \<le> x \<longrightarrow> mem st' x = mem st x) \<and> os_calls st' = os_calls st @ map AddRef (held_refs q st)"
proof (cases "variant_vt q st AND VT_TYPEMASK \<in> {VT_DISPATCH, VT_UNKNOWN}")
  case True
  then have t2: "variant_vt q st AND VT_TYPEMASK < 256 ^ 2" by (auto simp: VT_DISPATCH_def VT_UNKNOWN_def)
  show ?thesis using True t v by (auto simp: copy_plain_def Let_def held_refs_def set_ptr_read set_vt_read [OF t2] put_outside)
next
  case False
  then show ?thesis using t copied_read [OF d] by (auto simp: copy_plain_def Let_def held_refs_def put_outside)
qed

lemma clear_releases:
  assumes "p \<noteq> 0" "variant_vt p st AND VT_BYREF = 0" "variant_vt p st AND VT_ARRAY = 0" "variant_vt p st AND VT_TYPEMASK \<noteq> VT_BSTR"
  shows "\<exists>st'. VariantClear (Suc n) ole p st = Some (S_OK, st') \<and> os_calls st' = os_calls st @ map Release (held_refs p st)"
  using assms by (simp add: held_refs_def)

section \<open>A string at the end\<close>

text \<open>
  What copying the string at \<open>p\<close> asks: the string is well formed, it is not in the destination, and \<^verbatim>\<open>malloc\<close>
  hands out 64-bit addresses of bytes that are neither in the destination nor in the string.
\<close>

definition string_ready :: "ole \<Rightarrow> nat \<Rightarrow> nat \<Rightarrow> ole_state \<Rightarrow> bool" where
  "string_ready ole dest p st \<longleftrightarrow> bstr_ok p st \<and> 4 \<le> p \<and> (p + SysBstrRawByteCount p st \<le> dest \<or> dest + sizeof_VARIANT + 4 \<le> p)
     \<and> malloc_apart ole (VariantInit dest st) dest sizeof_VARIANT \<and> malloc_apart ole (VariantInit dest st) (p - 4) (SysBstrRawByteCount p st + 4)
     \<and> (\<forall>k a. ole_malloc ole (VariantInit dest st) k = Some a \<longrightarrow> a + k \<le> 2 ^ 64)"

text \<open>
  A second string at \<open>p'\<close> in a block of its own, apart from the first, of the same kind and with the same
  bytes; besides the block only the variant at \<open>dest\<close> is written.
\<close>

definition string_copied :: "nat \<Rightarrow> nat \<Rightarrow> ole_state \<Rightarrow> nat \<Rightarrow> ole_state \<Rightarrow> bool" where
  "string_copied dest p st p' st' \<longleftrightarrow> 4 < p' \<and> (p' + SysBstrRawByteCount p st + 4 \<le> p \<or> p + SysBstrRawByteCount p st + 4 \<le> p')
     \<and> bstr_is_bytes p' st' = bstr_is_bytes p st \<and> same_bytes p st p' st'
     \<and> (\<exists>k. SysBstrRawByteCount p st + 8 \<le> k \<and> os_cblocks st' = (os_cblocks st)(p' - 4 \<mapsto> k)
         \<and> (\<forall>x. (x < dest \<or> dest + sizeof_VARIANT \<le> x) \<and> (x < p' - 4 \<or> p' - 4 + k \<le> x) \<longrightarrow> mem st' x = mem st x))"

lemma put_blocks [simp]:
  "os_cblocks (set_variant_ptr p v st) = os_cblocks st" "os_cblocks (set_variant_vt p t st) = os_cblocks st"
  "os_cblocks (VariantInit p st) = os_cblocks st"
  by (simp_all add: set_variant_ptr_def set_variant_vt_def VariantInit_def)

lemma SysAllocStringCopy_refused:
  assumes "SysAllocStringCopy ole p st = (q, st')"
  shows "os_calls st' = os_calls st" "q = 0 \<Longrightarrow> mem st' = mem st"
  using assms by (auto simp: SysAllocStringCopy_def SysAllocStringByteLen_eq SysAllocStringLen_eq Let_def mem_def put_mem_def
      split: if_splits option.splits)

text \<open>The state before the destination is written: the string is the one of \<open>st\<close>.\<close>

lemma string_blank:
  assumes "dest \<noteq> 0" "string_ready ole dest p st"
  defines "b \<equiv> VariantInit dest st"
  shows "bstr_ok p b" "SysBstrRawByteCount p b = SysBstrRawByteCount p st" "bstr_is_bytes p b = bstr_is_bytes p st" "same_bytes p st p b"
proof -
  have m: "mem b x = mem st x" if "p - 4 \<le> x" "x < p + SysBstrRawByteCount p st" for x
    unfolding b_def by (rule put_outside) (use assms that in \<open>auto simp: string_ready_def\<close>)
  have p: "4 \<le> p" using assms(2) by (simp add: string_ready_def)
  note f = bstr_frame [OF p m]
  show "SysBstrRawByteCount p b = SysBstrRawByteCount p st" "bstr_is_bytes p b = bstr_is_bytes p st" "same_bytes p st p b"
    using f by simp_all
  have "bstr_word p b = bstr_word p st" unfolding bstr_word_def sizeof_CBstrSizeType_def
    by (rule load_cong) (use m p in auto)
  then show "bstr_ok p b" using assms(2) f by (simp add: string_ready_def bstr_ok_def bstr_stored_len_def)
qed

lemma malloc_apart_part: "malloc_apart ole st (p - 4) (n + 4) \<Longrightarrow> 4 \<le> p \<Longrightarrow> malloc_apart ole st p n"
  unfolding malloc_apart_def by fastforce

text \<open>The pointer and the type written over a destination the new block keeps away from.\<close>

lemma string_stored:
  assumes dest: "dest \<noteq> 0" and r: "string_ready ole dest p st" and run: "SysAllocStringCopy ole p (VariantInit dest st) = (p', s)" "p' \<noteq> 0"
  shows "string_copied dest p st p' (set_variant_vt dest t (set_variant_ptr dest p' s))"
proof -
  let ?b = "VariantInit dest st" and ?n = "SysBstrRawByteCount p st" and ?s' = "set_variant_vt dest t (set_variant_ptr dest p' s)"
  note b = string_blank [OF dest r]
  have ap: "malloc_apart ole ?b dest sizeof_VARIANT" "malloc_apart ole ?b (p - 4) (?n + 4)" "malloc_apart ole ?b p ?n" "4 \<le> p"
    using r malloc_apart_part [of ole ?b p ?n] by (simp_all add: string_ready_def)
  have law: "bstr_is_bytes p' s = bstr_is_bytes p ?b" "same_bytes p ?b p' s" "new_bstr p' ?n ?b s"
    using SysAllocStringCopy_law [OF b(1) _ run] ap(3) b(2) by auto
  have far: "p' + ?n + 4 \<le> p - 4 \<or> p - 4 + (?n + 4) + 4 \<le> p'" "p' + ?n + 4 \<le> dest \<or> dest + sizeof_VARIANT + 4 \<le> p'"
    using SysAllocStringCopy_apart [OF run ap(1)] SysAllocStringCopy_apart [OF run ap(2)] b(2) by simp_all
  obtain k where k: "4 < p'" "?n + 8 \<le> k" "os_cblocks s = (os_cblocks ?b)(p' - 4 \<mapsto> k)" "\<forall>x. x < p' - 4 \<or> p' - 4 + k \<le> x \<longrightarrow> mem s x = mem ?b x"
    using law(3) unfolding new_bstr_def by blast
  have n: "SysBstrRawByteCount p' s = ?n" using law(2) b(2) by (simp add: same_bytes_def)
  have out: "mem ?s' x = mem s x" if "x < dest \<or> dest + sizeof_VARIANT \<le> x" for x using put_outside(1,2) [OF that] by simp
  have "mem ?s' x = mem s x" if "p' - 4 \<le> x" "x < p' + SysBstrRawByteCount p' s" for x by (rule out) (use far(2) that n in auto)
  note f = bstr_frame [OF _ this]
  have "bstr_is_bytes p' ?s' = bstr_is_bytes p st" "same_bytes p st p' ?s'"
    using f k(1) law(1,2) b(3,4) by (auto intro: same_bytes_trans)
  moreover have "mem ?s' x = mem st x" if "x < dest \<or> dest + sizeof_VARIANT \<le> x" "x < p' - 4 \<or> p' - 4 + k \<le> x" for x
    using out [OF that(1)] k(4) that(2) put_outside(4) [OF that(1) dest] by metis
  ultimately show ?thesis using k far(1) ap(4) by (auto simp: string_copied_def intro!: exI [of _ k])
qed

lemma set_ptr_other: "cells_apart dest q \<Longrightarrow> variant_ptr q (set_variant_ptr dest v st) = variant_ptr q st"
  by (auto simp: variant_ptr_def set_variant_ptr_def cells_apart_def sizeof_VARIANT_def intro!: load_store_other)

lemma copy_plain_string:
  assumes "cells_apart dest q" "variant_vt q b AND VT_TYPEMASK = VT_BSTR" "SysAllocStringCopy ole (variant_ptr q b) b = (p', s)" "p' < 256 ^ 8"
  shows "copy_plain ole dest q b = (if p' = 0 \<and> variant_ptr q b \<noteq> 0 then (E_OUTOFMEMORY, set_variant_ptr dest 0 s)
    else (S_OK, set_variant_vt dest VT_BSTR (set_variant_ptr dest p' s)))"
proof -
  have "variant_ptr q s = variant_ptr q b" if "p' = 0" using SysAllocStringCopy_refused(2) [OF assms(3) that] by (simp add: variant_ptr_def)
  then show ?thesis using assms by (auto simp: copy_plain_def Let_def set_ptr_read set_ptr_other)
qed

lemma clear_string:
  assumes "p \<noteq> 0" "variant_vt p st = VT_BSTR" "variant_ptr p st = s" "4 < s" "os_cblocks st (s - 4) \<noteq> None"
  shows "\<exists>st'. VariantClear (Suc n) ole p st = Some (S_OK, st') \<and> os_calls st' = os_calls st \<and> os_cblocks st' = (os_cblocks st)(s - 4 := None)"
  using assms by (auto simp: vt_values SysFreeString_def FreeForBSTR_def sizeof_CBstrSizeType_def mem_def)

lemma last_string:
  assumes d: "dest \<noteq> 0" "cells_apart dest q" and q: "variant_vt q st AND VT_TYPEMASK = VT_BSTR" "variant_ptr q st = p" "p \<noteq> 0"
    and r: "string_ready ole dest p st"
  shows "\<exists>hr st' st''. copy_plain ole dest q (VariantInit dest st) = (hr, st') \<and> VariantClear (Suc n) ole dest st' = Some (S_OK, st'')
    \<and> os_calls st' = os_calls st \<and> os_calls st'' = os_calls st
    \<and> (if fst (SysAllocStringCopy ole p (VariantInit dest st)) = 0
       then hr = E_OUTOFMEMORY \<and> variant_vt dest st' = 0 \<and> (\<forall>x. x < dest \<or> dest + sizeof_VARIANT \<le> x \<longrightarrow> mem st' x = mem st x)
       else hr = S_OK \<and> variant_vt dest st' = VT_BSTR \<and> string_copied dest p st (variant_ptr dest st') st'
         \<and> os_cblocks st'' = (os_cblocks st)(variant_ptr dest st' - 4 := None))"
proof -
  let ?b = "VariantInit dest st"
  have qb: "variant_vt q ?b AND VT_TYPEMASK = VT_BSTR" "variant_ptr q ?b = p" using q by (simp_all add: blank_other [OF d(2,1)])
  obtain p' s where run: "SysAllocStringCopy ole p ?b = (p', s)" by fastforce
  have small: "p' < 256 ^ 8"
  proof (cases "p' = 0")
    case False
    obtain a k where "ole_malloc ole ?b k = Some a" "p' = a + 4" "SysBstrRawByteCount p ?b + 8 \<le> k"
      by (rule SysAllocStringCopy_block [OF run False])
    moreover have "a + k \<le> 2 ^ 64" using calculation(1) r unfolding string_ready_def by blast
    ultimately show ?thesis by simp
  qed simp
  note c = copy_plain_string [OF d(2) qb(1) run [folded qb(2)] small, unfolded qb(2)]
  note calls = SysAllocStringCopy_refused(1) [OF run, simplified]
  show ?thesis
  proof (cases "p' = 0")
    case True
    let ?e = "set_variant_ptr dest 0 s"
    have m: "mem s = mem ?b" by (rule SysAllocStringCopy_refused(2) [OF run True])
    have "variant_vt dest ?e = 0" using blank_vt [OF d(1), of st] m by (simp add: variant_vt_def set_variant_ptr_def load_store_other)
    moreover from this have "owns_nothing dest ?e" by (simp add: owns_nothing_def vt_values)
    note clear_nothing [OF d(1) this, of n ole]
    moreover have "mem ?e x = mem st x" if "x < dest \<or> dest + sizeof_VARIANT \<le> x" for x
      using put_outside(1,4) [OF that] m d(1) by simp
    ultimately show ?thesis using c True q(3) run calls by simp
  next
    case False
    let ?e = "set_variant_vt dest VT_BSTR (set_variant_ptr dest p' s)"
    have e: "variant_vt dest ?e = VT_BSTR" "variant_ptr dest ?e = p'"
      using set_ptr_read [OF small] by (simp_all add: set_vt_read VT_BSTR_def)
    have copied: "string_copied dest p st p' ?e" by (rule string_stored [OF d(1) r run False])
    then obtain k where k: "4 < p'" "os_cblocks ?e = (os_cblocks st)(p' - 4 \<mapsto> k)" unfolding string_copied_def by blast
    then have "os_cblocks ?e (p' - 4) \<noteq> None" by (simp only: fun_upd_same) simp
    then obtain s'' where "VariantClear (Suc n) ole dest ?e = Some (S_OK, s'')" "os_calls s'' = os_calls ?e"
        "os_cblocks s'' = (os_cblocks ?e)(p' - 4 := None)"
      using clear_string [OF d(1) e k(1), of n ole] by blast
    then show ?thesis using c False run calls e copied k(2) by simp
  qed
qed

lemma last_other:
  assumes d: "dest \<noteq> 0" "cells_apart dest q" and q: "variant_vt q st AND VT_BYREF = 0" "variant_vt q st AND VT_ARRAY = 0"
    and other: "variant_vt q st AND VT_TYPEMASK \<noteq> VT_BSTR \<or> variant_ptr q st = 0" and v: "variant_ptr q st < 256 ^ 8"
  shows "\<exists>st' st''. copy_plain ole dest q (VariantInit dest st) = (S_OK, st') \<and> VariantClear (Suc n) ole dest st' = Some (S_OK, st'')
    \<and> os_calls st' = os_calls st @ map AddRef (held_refs q st) \<and> os_calls st'' = os_calls st' @ map Release (held_refs q st)
    \<and> variant_vt dest st' AND VT_TYPEMASK = variant_vt q st AND VT_TYPEMASK \<and> variant_ptr dest st' = variant_ptr q st
    \<and> (\<forall>x. x < dest \<or> dest + sizeof_VARIANT \<le> x \<longrightarrow> mem st' x = mem st x)"
proof (cases "variant_vt q st AND VT_TYPEMASK = VT_BSTR")
  case True
  let ?b = "VariantInit dest st"
  let ?e = "set_variant_vt dest VT_BSTR (set_variant_ptr dest 0 ?b)"
  have p0: "variant_ptr q st = 0" using other True by simp
  have qb: "variant_vt q ?b AND VT_TYPEMASK = VT_BSTR" "variant_ptr q ?b = 0" using True p0 by (simp_all add: blank_other [OF d(2,1)])
  have c: "copy_plain ole dest q ?b = (S_OK, ?e)"
    using copy_plain_string [OF d(2) qb(1), of ole 0 ?b] qb(2) by (simp add: SysAllocStringCopy_def)
  have e: "variant_vt dest ?e = VT_BSTR" "variant_ptr dest ?e = 0"
    using set_ptr_read [of 0] by (simp_all add: set_vt_read VT_BSTR_def)
  have h: "held_refs q st = []" using True by (simp add: held_refs_def vt_values)
  have "\<exists>st''. VariantClear (Suc n) ole dest ?e = Some (S_OK, st'') \<and> os_calls st'' = os_calls st"
    using d(1) e by (simp add: vt_values SysFreeString_def)
  moreover have "mem ?e x = mem st x" if "x < dest \<or> dest + sizeof_VARIANT \<le> x" for x using put_outside [OF that] d(1) by simp
  moreover have "VT_BSTR AND VT_TYPEMASK = VT_BSTR" by (simp add: vt_values)
  ultimately show ?thesis using c e h True p0 by auto
next
  case False
  let ?b = "VariantInit dest st" and ?t = "variant_vt q st AND VT_TYPEMASK"
  have "variant_ptr q ?b < 256 ^ 8" unfolding blank_other(2) [OF d(2,1)] by (rule v)
  then obtain st' where st': "copy_plain ole dest q ?b = (S_OK, st')" "variant_ptr dest st' = variant_ptr q st"
      "variant_vt dest st' = (if ?t \<in> {VT_DISPATCH, VT_UNKNOWN} then ?t else variant_vt q st)"
      "\<forall>x. x < dest \<or> dest + sizeof_VARIANT \<le> x \<longrightarrow> mem st' x = mem ?b x" "os_calls st' = os_calls st @ map AddRef (held_refs q st)"
    using copy_plain_copies [OF d(2), of ?b ole] False by (auto simp: blank_other [OF d(2,1)] held_refs_def)
  have vt: "variant_vt dest st' AND VT_TYPEMASK = ?t" "variant_vt dest st' AND VT_BYREF = 0" "variant_vt dest st' AND VT_ARRAY = 0"
    using q by (auto simp: st'(3) vt_values)
  obtain st'' where st'': "VariantClear (Suc n) ole dest st' = Some (S_OK, st'')" "os_calls st'' = os_calls st' @ map Release (held_refs q st)"
    using clear_releases [OF d(1) vt(2,3), of n ole] vt(1) False st'(2) by (auto simp: held_refs_def)
  have "mem st' x = mem st x" if "x < dest \<or> dest + sizeof_VARIANT \<le> x" for x using st'(4) put_outside(4) [OF that d(1)] that by metis
  then show ?thesis using st'(1,2,5) vt(1) st'' by (intro exI [of _ st'] exI [of _ st''] conjI) simp_all
qed

section \<open>Copies\<close>

text \<open>C29: \<open>VariantCopy\<close> into a variant that owns nothing follows any number of references to variants and, with a level of fuel for
  each, comes back with a copy of the variant at the end. A string gets a string of its own, in a block of its own apart from the
  first, of the same kind and with the same bytes, and clearing the copy frees that block; when the string cannot be allocated the
  error is reported and the destination is left empty. Anything else but an array is copied with the same type and value and nothing is
  written outside the destination, with one \<open>AddRef\<close> when it is an interface, which clearing the copy gives back with one \<open>Release\<close>.\<close>

theorem VariantCopy_follows:
  assumes d: "dest \<noteq> 0" "owns_nothing dest st" and path: "ref_path st src xs q" "\<And>x. x \<in> set (q # xs) \<Longrightarrow> cells_apart dest x"
    and q: "variant_vt q st AND VT_BYREF = 0" "variant_vt q st AND VT_ARRAY = 0"
    and str: "variant_vt q st AND VT_TYPEMASK = VT_BSTR \<Longrightarrow> variant_ptr q st \<noteq> 0 \<Longrightarrow> string_ready ole dest (variant_ptr q st) st"
    and bytes: "\<And>x. mem st x < 256"
  shows "\<exists>hr st' st''. VariantCopy (length xs + Suc n) ole dest src st = Some (hr, st') \<and> VariantClear (Suc n) ole dest st' = Some (S_OK, st'')
    \<and> os_calls st' = os_calls st @ map AddRef (held_refs q st) \<and> os_calls st'' = os_calls st' @ map Release (held_refs q st)
    \<and> (if variant_vt q st AND VT_TYPEMASK = VT_BSTR \<and> variant_ptr q st \<noteq> 0
       then if fst (SysAllocStringCopy ole (variant_ptr q st) (VariantInit dest st)) = 0
            then hr = E_OUTOFMEMORY \<and> variant_vt dest st' = 0 \<and> (\<forall>x. x < dest \<or> dest + sizeof_VARIANT \<le> x \<longrightarrow> mem st' x = mem st x)
            else hr = S_OK \<and> variant_vt dest st' = VT_BSTR \<and> string_copied dest (variant_ptr q st) st (variant_ptr dest st') st'
              \<and> os_cblocks st'' = (os_cblocks st)(variant_ptr dest st' - 4 := None)
       else hr = S_OK \<and> variant_vt dest st' AND VT_TYPEMASK = variant_vt q st AND VT_TYPEMASK \<and> variant_ptr dest st' = variant_ptr q st
         \<and> (\<forall>x. x < dest \<or> dest + sizeof_VARIANT \<le> x \<longrightarrow> mem st' x = mem st x))"
proof -
  let ?b = "VariantInit dest st" and ?p = "variant_ptr q st"
  have q0: "q \<noteq> 0" using path(1) by (induction xs arbitrary: src) auto
  have dq: "cells_apart dest q" using path(2) by simp
  have "VariantCopy (length xs + Suc n) ole dest src st = VariantCopy (Suc n) ole dest q (if xs = [] then st else ?b)"
    by (rule copy_ref_path [OF d path(1)]) (use path(2) in simp)
  also have "\<dots> = Some (copy_plain ole dest q ?b)"
    using copy_last [of dest "if xs = [] then st else ?b" q n ole] d dq q q0
    by (auto simp: blank_other blank_owns_nothing VariantInit_idem)
  finally have c: "VariantCopy (length xs + Suc n) ole dest src st = Some (copy_plain ole dest q ?b)" .
  have v: "?p < 256 ^ 8" unfolding variant_ptr_def by (rule load_less) (rule bytes)
  show ?thesis
  proof (cases "variant_vt q st AND VT_TYPEMASK = VT_BSTR \<and> ?p \<noteq> 0")
    case True
    then have h: "held_refs q st = []" by (simp add: held_refs_def vt_values)
    obtain hr st' st'' where "copy_plain ole dest q ?b = (hr, st')" "VariantClear (Suc n) ole dest st' = Some (S_OK, st'')"
      "os_calls st' = os_calls st" "os_calls st'' = os_calls st"
      "if fst (SysAllocStringCopy ole ?p ?b) = 0
       then hr = E_OUTOFMEMORY \<and> variant_vt dest st' = 0 \<and> (\<forall>x. x < dest \<or> dest + sizeof_VARIANT \<le> x \<longrightarrow> mem st' x = mem st x)
       else hr = S_OK \<and> variant_vt dest st' = VT_BSTR \<and> string_copied dest ?p st (variant_ptr dest st') st'
         \<and> os_cblocks st'' = (os_cblocks st)(variant_ptr dest st' - 4 := None)"
      using last_string [OF d(1) dq _ refl _ str, of n] True by blast
    then show ?thesis using c True by (intro exI [of _ hr] exI [of _ st'] exI [of _ st'']) (simp only: h list.map append_Nil2 if_True simp_thms)
  next
    case False
    then obtain st' st'' where "copy_plain ole dest q ?b = (S_OK, st')" "VariantClear (Suc n) ole dest st' = Some (S_OK, st'')"
      "os_calls st' = os_calls st @ map AddRef (held_refs q st)" "os_calls st'' = os_calls st' @ map Release (held_refs q st)"
      "variant_vt dest st' AND VT_TYPEMASK = variant_vt q st AND VT_TYPEMASK" "variant_ptr dest st' = ?p"
      "\<forall>x. x < dest \<or> dest + sizeof_VARIANT \<le> x \<longrightarrow> mem st' x = mem st x"
      using last_other [OF d(1) dq q _ v, of ole n] by blast
    then show ?thesis using c False by (intro exI [of _ S_OK] exI [of _ st'] exI [of _ st'']) (simp only: if_False simp_thms)
  qed
qed

text \<open>A reference at 200 to a variant at 300, which holds an interface or a string of three bytes at 1004.\<close>

definition var_state :: "nat \<Rightarrow> nat \<Rightarrow> ole_state" where
  "var_state t lo = put_mem (\<lambda>x. if x = 200 then 12 else if x = 201 then 64 else if x = 208 then 44 else if x = 209 then 1
     else if x = 300 then t else if x = 308 then lo else if x = 309 then 3
     else if x = 1000 then 3 else if x = 1003 then 64 else if 1004 \<le> x \<and> x \<le> 1006 then x - 1000 else 0) st0"

lemma var_state_reads:
  "variant_vt 100 (var_state t lo) = 0" "variant_vt 200 (var_state t lo) = 0x400c" "variant_ptr 200 (var_state t lo) = 300"
  "variant_vt 300 (var_state t lo) = t" "variant_ptr 300 (var_state t lo) = 768 + lo"
  by (simp_all add: variant_vt_def variant_ptr_def var_state_def load_2 load_8 load_4)

lemma var_state_facts:
  assumes "t \<in> {8, 9}" "lo < 256"
  shows "owns_nothing 100 (var_state t lo)" "ref_path (var_state t lo) 200 [200] 300" "mem (var_state t lo) x < 256"
    "x \<in> set [300, 200] \<Longrightarrow> cells_apart 100 x" "variant_vt 300 (var_state t lo) AND VT_BYREF = 0" "variant_vt 300 (var_state t lo) AND VT_ARRAY = 0"
    "variant_vt 300 (var_state t lo) AND VT_TYPEMASK = t"
  using assms by (auto simp: is_ref_def var_state_reads owns_nothing_def vt_values VT_VARIANT_def cells_apart_def sizeof_VARIANT_def)
    (auto simp: var_state_def)

lemma var_string:
  "bstr_is_bytes 1004 (var_state 8 236)" "SysBstrRawByteCount 1004 (var_state 8 236) = 3" "bstr_ok 1004 (var_state 8 236)"
proof -
  have "bstr_word 1004 (var_state 8 236) = 0x40000003" by (simp add: bstr_word_def var_state_def sizeof_CBstrSizeType_def load_4)
  then show "bstr_is_bytes 1004 (var_state 8 236)" "SysBstrRawByteCount 1004 (var_state 8 236) = 3" "bstr_ok 1004 (var_state 8 236)"
    by (simp_all add: bstr_is_bytes_def bstr_ok_def SysBstrRawByteCount_def bstr_stored_len_def k_Bstr_ByteAlloc_Flag_def)
qed

lemma var_string_ready: "string_ready ole1 100 1004 (var_state 8 236)"
  and var_string_alloc: "fst (SysAllocStringCopy ole1 1004 (VariantInit 100 (var_state 8 236))) \<noteq> 0"
proof -
  let ?b = "VariantInit 100 (var_state 8 236)"
  have m: "ole_malloc ole1 ?b k = (if 4096 + k \<le> 2 ^ 64 then Some 4096 else None)" for k
    by (simp add: ole1_def VariantInit_mem var_state_def put_mem_def st0_def start_def bump_def)
  show r: "string_ready ole1 100 1004 (var_state 8 236)"
    using var_string by (auto simp: string_ready_def malloc_apart_def m sizeof_VARIANT_def split: if_splits)
  have "bstr_is_bytes 1004 ?b" "SysBstrRawByteCount 1004 ?b = 3"
    using string_blank [OF _ r] var_string by simp_all
  then have "bstr_is_bytes 1004 ?b" "bstr_stored_len 1004 ?b = 3" by (simp_all add: SysBstrRawByteCount_def)
  then show "fst (SysAllocStringCopy ole1 1004 ?b) \<noteq> 0"
    by (simp add: SysAllocStringCopy_def SysAllocStringByteLen_eq Let_def m)
qed

theorem VariantCopy_follows_witness:
  "(\<exists>st'. VariantCopy 2 ole1 100 200 (var_state 9 77) = Some (S_OK, st') \<and> variant_ptr 100 st' = 845 \<and> os_calls st' = os_calls (var_state 9 77) @ [AddRef 845])
   \<and> (\<exists>st'. VariantCopy 2 ole1 100 200 (var_state 8 236) = Some (S_OK, st') \<and> variant_vt 100 st' = VT_BSTR
        \<and> variant_ptr 100 st' \<noteq> 1004 \<and> same_bytes 1004 (var_state 8 236) (variant_ptr 100 st') st')"
proof (rule conjI)
  have two: "length [200 :: nat] + Suc 0 = 2" by simp
  have "\<exists>hr st' st''. VariantCopy 2 ole1 100 200 (var_state 9 77) = Some (hr, st') \<and> VariantClear (Suc 0) ole1 100 st' = Some (S_OK, st'')
    \<and> os_calls st' = os_calls (var_state 9 77) @ [AddRef 845] \<and> hr = S_OK \<and> variant_ptr 100 st' = 845"
    using VariantCopy_follows [where n = 0 and ole = ole1 and dest = 100 and xs = "[200]" and src = 200 and q = 300 and st = "var_state 9 77", unfolded two]
      var_state_facts [of 9 77] by (simp add: held_refs_def var_state_reads vt_values del: VariantClear.simps) metis
  then show "\<exists>st'. VariantCopy 2 ole1 100 200 (var_state 9 77) = Some (S_OK, st') \<and> variant_ptr 100 st' = 845 \<and> os_calls st' = os_calls (var_state 9 77) @ [AddRef 845]"
    by blast
  show "\<exists>st'. VariantCopy 2 ole1 100 200 (var_state 8 236) = Some (S_OK, st') \<and> variant_vt 100 st' = VT_BSTR
        \<and> variant_ptr 100 st' \<noteq> 1004 \<and> same_bytes 1004 (var_state 8 236) (variant_ptr 100 st') st'"
    using VariantCopy_follows [where n = 0 and ole = ole1 and dest = 100 and xs = "[200]" and src = 200 and q = 300 and st = "var_state 8 236", unfolded two]
      var_state_facts [of 8 236] var_string_ready var_string_alloc
    by (simp add: var_state_reads VT_BSTR_def string_copied_def del: VariantClear.simps) fastforce
qed

text \<open>C30: references to variants that go around, in whatever number, are followed for ever: \<open>VariantCopy\<close> does not come back at any
  depth of calls.\<close>

theorem VariantCopy_circle:
  assumes "dest \<noteq> 0" "owns_nothing dest st" "src \<in> S" "\<And>p. p \<in> S \<Longrightarrow> is_ref st p \<and> variant_ptr p st \<in> S \<and> cells_apart dest p"
  shows "VariantCopy n ole dest src st = None"
  using copy_ring [OF assms] .

text \<open>A variant that refers to itself.\<close>

theorem VariantCopy_circle_witness:
  "VariantCopy 100 ole0 100 300 (set_variant_vt 300 0x400c (set_variant_ptr 300 300 (put_mem (\<lambda>_. 0) st0))) = None"
proof -
  let ?st = "set_variant_vt 300 0x400c (set_variant_ptr 300 300 (put_mem (\<lambda>_. 0) st0))"
  have "is_ref ?st 300" "variant_ptr 300 ?st = 300"
    using set_ptr_read [of 300 300] by (simp_all add: is_ref_def set_vt_read VT_TYPEMASK_def VT_VARIANT_def VT_BYREF_def)
  moreover have "variant_vt 100 ?st = 0"
    by (simp add: variant_vt_def set_variant_vt_def set_variant_ptr_def load_store_other load_zero)
  then have "owns_nothing 100 ?st" by (simp add: owns_nothing_def VT_BSTR_def VT_DISPATCH_def VT_UNKNOWN_def)
  ultimately show ?thesis by (intro VariantCopy_circle [where S = "{300}"]) (auto simp: cells_apart_def sizeof_VARIANT_def)
qed

text \<open>A variant copied onto itself is cleared, and its value is lost.\<close>

lemma VariantCopy_self:
  assumes "p \<noteq> 0" "owns_nothing p st" "variant_vt p st AND VT_TYPEMASK \<noteq> VT_VARIANT"
  shows "\<exists>st'. VariantCopy (Suc n) ole p p st = Some (S_OK, st') \<and> variant_vt p st' = 0"
proof -
  have "memcpy p p k m = m" for k m by (simp add: memcpy_def fun_eq_iff)
  then have "copy_variant_bytes p p (VariantInit p st) = VariantInit p st" using assms(1) by (simp add: copy_variant_bytes_def VariantInit_mem)
  then show ?thesis using assms(1) clear_nothing [OF assms(1,2), of n ole] blank_vt [OF assms(1), of st]
    by (simp add: copy_plain_def VT_VARIANT_def VT_BSTR_def VT_DISPATCH_def VT_UNKNOWN_def)
qed

end
