(* ===== verification/Linklist_Model.thy ===== *)
theory Linklist_Model
  imports Swinx_Prelude "HOL-Library.Monad_Syntax"
begin

text \<open>
  The intrusive doubly linked lists of \<^verbatim>\<open>src/list.h\<close>. A node is the address of a \<^verbatim>\<open>struct list\<close>; the two
  link fields of all nodes are the state, so aliasing is as in the code. A list is named by the address of
  its head node, which is linked into the ring like the elements. Null is 0.
\<close>

section \<open>Links\<close>

record links =
  l_next :: "nat \<Rightarrow> nat"
  l_prev :: "nat \<Rightarrow> nat"

definition set_next :: "nat \<Rightarrow> nat \<Rightarrow> links \<Rightarrow> links" where
  "set_next p v s = s\<lparr>l_next := (l_next s)(p := v)\<rparr>"

definition set_prev :: "nat \<Rightarrow> nat \<Rightarrow> links \<Rightarrow> links" where
  "set_prev p v s = s\<lparr>l_prev := (l_prev s)(p := v)\<rparr>"

section \<open>Operations\<close>

text \<open>One line for each assignment; the left sides read the links the lines before have left.\<close>

definition list_add_after :: "nat \<Rightarrow> nat \<Rightarrow> links \<Rightarrow> links" where
  "list_add_after elem to_add s =
     (let s1 = set_next to_add (l_next s elem) s;
          s2 = set_prev to_add elem s1;
          s3 = set_prev (l_next s2 elem) to_add s2
      in set_next elem to_add s3)"

definition list_add_before :: "nat \<Rightarrow> nat \<Rightarrow> links \<Rightarrow> links" where
  "list_add_before elem to_add s =
     (let s1 = set_next to_add elem s;
          s2 = set_prev to_add (l_prev s1 elem) s1;
          s3 = set_next (l_prev s2 elem) to_add s2
      in set_prev elem to_add s3)"

definition list_add_head :: "nat \<Rightarrow> nat \<Rightarrow> links \<Rightarrow> links" where
  "list_add_head list elem s = list_add_after list elem s"

definition list_add_tail :: "nat \<Rightarrow> nat \<Rightarrow> links \<Rightarrow> links" where
  "list_add_tail list elem s = list_add_before list elem s"

definition list_remove :: "nat \<Rightarrow> links \<Rightarrow> links" where
  "list_remove elem s =
     (let s1 = set_prev (l_next s elem) (l_prev s elem) s
      in set_next (l_prev s1 elem) (l_next s1 elem) s1)"

definition list_next :: "nat \<Rightarrow> nat \<Rightarrow> links \<Rightarrow> nat" where
  "list_next list elem s = (let ret = l_next s elem in if l_next s elem = list then 0 else ret)"

definition list_prev :: "nat \<Rightarrow> nat \<Rightarrow> links \<Rightarrow> nat" where
  "list_prev list elem s = (let ret = l_prev s elem in if l_prev s elem = list then 0 else ret)"

definition list_head :: "nat \<Rightarrow> links \<Rightarrow> nat" where
  "list_head list s = list_next list list s"

definition list_tail :: "nat \<Rightarrow> links \<Rightarrow> nat" where
  "list_tail list s = list_prev list list s"

definition list_empty :: "nat \<Rightarrow> links \<Rightarrow> bool" where
  "list_empty list s \<longleftrightarrow> l_next s list = list"

definition list_init :: "nat \<Rightarrow> links \<Rightarrow> links" where
  "list_init list s = (let s1 = set_prev list list s in set_next list (l_prev s1 list) s1)"

text \<open>The loop of \<open>list_count\<close>, from \<open>ptr\<close> on, with a 32-bit counter; \<open>None\<close> is a walk that never comes back to the head.\<close>

partial_function (option) count_from :: "nat \<Rightarrow> links \<Rightarrow> nat \<Rightarrow> nat \<Rightarrow> nat option" where
  "count_from list s ptr count = (if ptr \<noteq> list then count_from list s (l_next s ptr) ((count + 1) mod 4294967296) else Some count)"

definition list_count :: "nat \<Rightarrow> links \<Rightarrow> nat option" where
  "list_count list s = count_from list s (l_next s list) 0"

definition list_move_tail :: "nat \<Rightarrow> nat \<Rightarrow> links \<Rightarrow> links" where
  "list_move_tail dst src s =
     (if list_empty src s then s
      else
        (let s1 = set_next (l_prev s dst) (l_next s src) s;
             s2 = set_prev (l_next s1 src) (l_prev s1 dst) s1;
             s3 = set_prev dst (l_prev s2 src) s2;
             s4 = set_next (l_prev s3 src) dst s3
         in list_init src s4))"

definition list_move_head :: "nat \<Rightarrow> nat \<Rightarrow> links \<Rightarrow> links" where
  "list_move_head dst src s =
     (if list_empty src s then s
      else
        (let s1 = set_prev (l_next s dst) (l_prev s src) s;
             s2 = set_next (l_prev s1 src) (l_next s1 dst) s1;
             s3 = set_next dst (l_next s2 src) s2;
             s4 = set_prev (l_next s3 src) dst s3
         in list_init src s4))"

text \<open>The iterations: the nodes a forward and a backward walk pass, and a walk that survives removals by its body.\<close>

partial_function (option) for_each :: "nat \<Rightarrow> links \<Rightarrow> nat \<Rightarrow> nat list option" where
  "for_each list s cursor =
     (if cursor \<noteq> list then do { cs \<leftarrow> for_each list s (l_next s cursor); Some (cursor # cs) } else Some [])"

partial_function (option) for_each_rev :: "nat \<Rightarrow> links \<Rightarrow> nat \<Rightarrow> nat list option" where
  "for_each_rev list s cursor =
     (if cursor \<noteq> list then do { cs \<leftarrow> for_each_rev list s (l_prev s cursor); Some (cursor # cs) } else Some [])"

text \<open>\<open>f\<close> is the body; the next cursor is read before the body runs.\<close>

partial_function (option) for_each_safe :: "(nat \<Rightarrow> links \<Rightarrow> links) \<Rightarrow> nat \<Rightarrow> links \<Rightarrow> nat \<Rightarrow> nat \<Rightarrow> links option" where
  "for_each_safe f list s cursor cursor2 =
     (if cursor \<noteq> list
      then (let s1 = f cursor s in for_each_safe f list s1 cursor2 (l_next s1 cursor2)) else Some s)"

definition LIST_FOR_EACH :: "nat \<Rightarrow> links \<Rightarrow> nat list option" where
  "LIST_FOR_EACH list s = for_each list s (l_next s list)"

definition LIST_FOR_EACH_REV :: "nat \<Rightarrow> links \<Rightarrow> nat list option" where
  "LIST_FOR_EACH_REV list s = for_each_rev list s (l_prev s list)"

definition LIST_FOR_EACH_SAFE :: "(nat \<Rightarrow> links \<Rightarrow> links) \<Rightarrow> nat \<Rightarrow> links \<Rightarrow> links option" where
  "LIST_FOR_EACH_SAFE f list s = for_each_safe f list s (l_next s list) (l_next s (l_next s list))"

end
