(* ===== verification/Linklist_Props.thy ===== *)
theory Linklist_Props
  imports Linklist_Model
begin

text \<open>
  The lists of \<^verbatim>\<open>list.h\<close> refine lists of addresses: a ring of links represents the elements behind its head,
  several rings that share no node represent a map from heads to lists, and every operation of the header
  does to the links what the operation on lists does to the map.
\<close>

section \<open>Rings\<close>

text \<open>A chain from \<open>a\<close> over the nodes \<open>xs\<close> to \<open>b\<close>, linked both ways.\<close>

fun seg :: "links \<Rightarrow> nat \<Rightarrow> nat list \<Rightarrow> nat \<Rightarrow> bool" where
  "seg s a [] b \<longleftrightarrow> l_next s a = b \<and> l_prev s b = a"
| "seg s a (x # xs) b \<longleftrightarrow> l_next s a = x \<and> l_prev s x = a \<and> seg s x xs b"

definition ring :: "links \<Rightarrow> nat \<Rightarrow> nat list \<Rightarrow> bool" where
  "ring s l xs \<longleftrightarrow> distinct (l # xs) \<and> seg s l xs l"

lemma seg_append: "seg s a (xs @ x # ys) b \<longleftrightarrow> seg s a xs x \<and> seg s x ys b"
  by (induction xs arbitrary: a) auto

lemma seg_next: "seg s a xs b \<Longrightarrow> l_next s a = hd (xs @ [b])"
  by (cases xs) auto

lemma seg_prev: "seg s a xs b \<Longrightarrow> l_prev s b = last (a # xs)"
  by (induction xs arbitrary: a) auto

text \<open>Links that only differ at other nodes.\<close>

lemma seg_cong:
  assumes "\<And>x. x \<in> set (a # xs) \<Longrightarrow> l_next s' x = l_next s x" "\<And>x. x \<in> set (xs @ [b]) \<Longrightarrow> l_prev s' x = l_prev s x"
  shows "seg s' a xs b = seg s a xs b"
  using assms by (induction xs arbitrary: a) auto

lemma links_simps [simp]:
  "l_next (set_next p v s) = (l_next s)(p := v)" "l_prev (set_next p v s) = l_prev s"
  "l_prev (set_prev p v s) = (l_prev s)(p := v)" "l_next (set_prev p v s) = l_next s"
  by (simp_all add: set_next_def set_prev_def)

lemma ring_init: "ring (list_init l s) l []"
  by (simp add: ring_def list_init_def Let_def)

text \<open>A new node between two neighbours \<open>e\<close> and \<open>b\<close>, whichever of the two it is given by.\<close>

definition linked :: "nat \<Rightarrow> nat \<Rightarrow> nat \<Rightarrow> links \<Rightarrow> links" where
  "linked e n b s = s\<lparr>l_next := (l_next s)(n := b, e := n), l_prev := (l_prev s)(n := e, b := n)\<rparr>"

lemma list_add_after_linked:
  "e \<noteq> n \<Longrightarrow> l_next s e \<noteq> n \<Longrightarrow> list_add_after e n s = linked e n (l_next s e) s"
  by (simp add: list_add_after_def linked_def Let_def set_next_def set_prev_def)

lemma list_add_before_linked:
  "b \<noteq> n \<Longrightarrow> l_prev s b \<noteq> n \<Longrightarrow> list_add_before b n s = linked (l_prev s b) n b s"
  by (simp add: list_add_before_def linked_def Let_def set_next_def set_prev_def)

lemma seg_linked:
  assumes "seg s a [] b" "n \<noteq> a" "n \<noteq> b"
  shows "seg (linked a n b s) a [n] b"
  using assms by (simp add: linked_def)

text \<open>In a ring a new node goes between a prefix and the rest.\<close>

lemma seg_insert:
  assumes "seg s a (xs @ ys) b" "n \<notin> set (a # xs @ ys @ [b])" "distinct (a # xs @ ys)" "b \<notin> set (xs @ ys)"
  shows "seg (linked (last (a # xs)) n (hd (ys @ [b])) s) a (xs @ n # ys) b"
  using assms
proof (induction xs arbitrary: a)
  case Nil
  show ?case
  proof (cases ys)
    case (Cons y zs)
    then have "seg (linked a n y s) y zs b = seg s y zs b" using Nil by (intro seg_cong) (auto simp: linked_def)
    then show ?thesis using Nil Cons by (auto simp: linked_def)
  qed (use Nil in \<open>auto simp: linked_def\<close>)
next
  case (Cons x xs)
  have "seg (linked (last (x # xs)) n (hd (ys @ [b])) s) x (xs @ n # ys) b" using Cons.prems by (intro Cons.IH) auto
  moreover have "hd (ys @ [b]) \<noteq> x" "last (x # xs) \<noteq> a" "n \<noteq> a" "n \<noteq> x"
    using Cons.prems by (auto simp: last_in_set split: if_splits) (cases ys, auto)+
  ultimately show ?case using Cons.prems by (simp add: linked_def)
qed

lemma ring_insert:
  assumes "ring s l (xs @ ys)" "n \<notin> set (l # xs @ ys)"
  shows "ring (linked (last (l # xs)) n (hd (ys @ [l])) s) l (xs @ n # ys)"
  using assms seg_insert [of s l xs ys l n] by (auto simp: ring_def)

lemma ring_neighbours:
  assumes "ring s l (xs @ ys)"
  shows "l_next s (last (l # xs)) = hd (ys @ [l])" "l_prev s (hd (ys @ [l])) = last (l # xs)"
proof -
  have "seg s l (xs @ ys) l" using assms by (simp add: ring_def)
  then have "l_next s (last (l # xs)) = hd (ys @ [l]) \<and> l_prev s (hd (ys @ [l])) = last (l # xs)"
  proof (cases xs rule: rev_cases)
    case (snoc zs z)
    then have "seg s z ys l" using \<open>seg s l (xs @ ys) l\<close> by (simp add: seg_append)
    then show ?thesis using snoc by (cases ys) auto
  qed (cases ys, auto)
  then show "l_next s (last (l # xs)) = hd (ys @ [l])" "l_prev s (hd (ys @ [l])) = last (l # xs)" by simp_all
qed

text \<open>Two chains put together, and a chain with a new end.\<close>

definition join :: "nat \<Rightarrow> nat \<Rightarrow> links \<Rightarrow> links" where
  "join a b s = s\<lparr>l_next := (l_next s)(a := b), l_prev := (l_prev s)(b := a)\<rparr>"

lemma join_simps [simp]: "l_next (join a b s) = (l_next s)(a := b)" "l_prev (join a b s) = (l_prev s)(b := a)"
  by (simp_all add: join_def)

lemma seg_join:
  assumes "seg s a xs e" "ys \<noteq> [] \<Longrightarrow> seg s e' ys b" "distinct (a # xs @ ys)" "b \<notin> set (xs @ ys)"
  shows "seg (join (last (a # xs)) (hd (ys @ [b])) s) a (xs @ ys) b"
  using assms
proof (induction xs arbitrary: a)
  case Nil
  show ?case
  proof (cases ys)
    case (Cons y zs)
    then have "seg (join a y s) y zs b = seg s y zs b" using Nil by (intro seg_cong) auto
    then show ?thesis using Nil Cons by auto
  qed (use Nil in auto)
next
  case (Cons x xs)
  have "seg (join (last (x # xs)) (hd (ys @ [b])) s) x (xs @ ys) b" using Cons.prems by (intro Cons.IH) auto
  moreover have "hd (ys @ [b]) \<noteq> x" "last (x # xs) \<noteq> a"
    using Cons.prems by (auto simp: last_in_set split: if_splits) (cases ys, auto)+
  ultimately show ?case using Cons.prems by simp
qed

lemma list_remove_join: "l_next s e \<noteq> e \<Longrightarrow> list_remove e s = join (l_prev s e) (l_next s e) s"
  by (simp add: list_remove_def join_def Let_def set_next_def set_prev_def)

lemma ring_remove:
  assumes "ring s l (xs @ e # ys)"
  shows "ring (list_remove e s) l (xs @ ys)" "list_remove e s = join (last (l # xs)) (hd (ys @ [l])) s"
proof -
  have r: "seg s l xs e" "seg s e ys l" "distinct (l # xs @ e # ys)" using assms by (auto simp: ring_def seg_append)
  have n: "l_next s e = hd (ys @ [l])" "l_prev s e = last (l # xs)" using seg_next [OF r(2)] seg_prev [OF r(1)] .
  have "hd (ys @ [l]) \<noteq> e" using r(3) by (cases ys) auto
  then show eq: "list_remove e s = join (last (l # xs)) (hd (ys @ [l])) s" using list_remove_join [of s e] n by simp
  have "seg (list_remove e s) l (xs @ ys) l" unfolding eq by (rule seg_join [OF r(1,2)]) (use r(3) in auto)
  then show "ring (list_remove e s) l (xs @ ys)" using r(3) by (simp add: ring_def)
qed

text \<open>A whole ring moved in front of or behind the elements of another.\<close>

lemma ring_move_tail:
  assumes d: "ring s d xs" and r: "ring s src ys" and apart: "set (d # xs) \<inter> set (src # ys) = {}" and ne: "ys \<noteq> []"
  shows "ring (list_move_tail d src s) d (xs @ ys)" "ring (list_move_tail d src s) src []"
    "list_move_tail d src s = list_init src (join (last ys) d (join (last (d # xs)) (hd ys) s))"
proof -
  have sd: "seg s d xs d" "distinct (d # xs)" and ss: "seg s src ys src" "distinct (src # ys)" using d r by (auto simp: ring_def)
  have n: "l_next s src = hd ys" "l_prev s src = last ys" "l_prev s d = last (d # xs)" using seg_next [OF ss(1)] seg_prev [OF ss(1)] seg_prev [OF sd(1)] ne by simp_all
  have inq: "hd ys \<in> set ys" "last ys \<in> set ys" "last (d # xs) \<in> set (d # xs)" using ne by simp_all
  have "l_next s src \<noteq> src" using n(1) inq(1) ss(2) by auto
  then show eq: "list_move_tail d src s = list_init src (join (last ys) d (join (last (d # xs)) (hd ys) s))"
    using n inq apart by (auto simp: list_move_tail_def list_empty_def Let_def set_next_def set_prev_def join_def list_init_def)
  have "seg (join (last (d # xs)) (hd (ys @ [src])) s) d (xs @ ys) src" by (rule seg_join [OF sd(1) ss(1)]) (use sd(2) ss(2) apart in auto)
  then have "seg (join (last (d # xs)) (hd ys) s) d (xs @ ys) src" using ne by simp
  then have "seg (join (last (d # xs @ ys)) (hd ([] @ [d])) (join (last (d # xs)) (hd ys) s)) d ((xs @ ys) @ []) d"
    by (intro seg_join) (use sd(2) ss(2) apart in auto)
  then have "seg (join (last ys) d (join (last (d # xs)) (hd ys) s)) d (xs @ ys) d" using ne by simp
  moreover have "seg (list_init src t) d (xs @ ys) d = seg t d (xs @ ys) d" for t
    by (rule seg_cong) (use apart ss(2) in \<open>auto simp: list_init_def Let_def\<close>)
  ultimately show "ring (list_move_tail d src s) d (xs @ ys)" unfolding eq ring_def using sd(2) ss(2) apart by auto
  show "ring (list_move_tail d src s) src []" unfolding eq by (rule ring_init)
qed

lemma ring_move_head:
  assumes d: "ring s d xs" and r: "ring s src ys" and apart: "set (d # xs) \<inter> set (src # ys) = {}" and ne: "ys \<noteq> []"
  shows "ring (list_move_head d src s) d (ys @ xs)" "ring (list_move_head d src s) src []"
    "list_move_head d src s = list_init src (join d (hd ys) (join (last ys) (hd (xs @ [d])) s))"
proof -
  have sd: "seg s d xs d" "distinct (d # xs)" and ss: "seg s src ys src" "distinct (src # ys)" using d r by (auto simp: ring_def)
  have n: "l_next s src = hd ys" "l_prev s src = last ys" "l_next s d = hd (xs @ [d])" using seg_next [OF ss(1)] seg_prev [OF ss(1)] seg_next [OF sd(1)] ne by simp_all
  have inq: "hd ys \<in> set ys" "last ys \<in> set ys" "hd (xs @ [d]) \<in> set (d # xs)" using ne by (simp_all add: hd_append)
  have "l_next s src \<noteq> src" using n(1) inq(1) ss(2) by auto
  then show eq: "list_move_head d src s = list_init src (join d (hd ys) (join (last ys) (hd (xs @ [d])) s))"
    using n inq apart ss(2) by (auto simp: list_move_head_def list_empty_def Let_def set_next_def set_prev_def join_def list_init_def)
  have "seg (join (last (src # ys)) (hd (xs @ [d])) s) src (ys @ xs) d" by (rule seg_join [OF ss(1) sd(1)]) (use sd(2) ss(2) apart in auto)
  then have chain: "seg (join (last ys) (hd (xs @ [d])) s) src (ys @ xs) d" using ne by simp
  obtain y zs where y: "ys = y # zs" using ne by (cases ys) auto
  then have "seg (join (last ys) (hd (xs @ [d])) s) y (zs @ xs) d" using chain by simp
  moreover have "seg (join d y t) y (zs @ xs) d = seg t y (zs @ xs) d" for t
    by (rule seg_cong) (use apart y sd(2) ss(2) in auto)
  ultimately have "seg (join d (hd ys) (join (last ys) (hd (xs @ [d])) s)) d (ys @ xs) d" by (simp add: y)
  moreover have "seg (list_init src t) d (ys @ xs) d = seg t d (ys @ xs) d" for t
    by (rule seg_cong) (use apart ss(2) in \<open>auto simp: list_init_def Let_def\<close>)
  ultimately show "ring (list_move_head d src s) d (ys @ xs)" unfolding eq ring_def using sd(2) ss(2) apart by auto
  show "ring (list_move_head d src s) src []" unfolding eq by (rule ring_init)
qed

section \<open>Several lists\<close>

text \<open>The links represent a map from heads to elements: one ring for each list, and no node in two of them.\<close>

definition rings :: "links \<Rightarrow> (nat \<rightharpoonup> nat list) \<Rightarrow> bool" where
  "rings s F \<longleftrightarrow> (\<forall>l xs. F l = Some xs \<longrightarrow> ring s l xs)
     \<and> (\<forall>l m xs ys. F l = Some xs \<longrightarrow> F m = Some ys \<longrightarrow> l \<noteq> m \<longrightarrow> set (l # xs) \<inter> set (m # ys) = {})"

definition unused :: "nat \<Rightarrow> (nat \<rightharpoonup> nat list) \<Rightarrow> bool" where
  "unused n F \<longleftrightarrow> (\<forall>l xs. F l = Some xs \<longrightarrow> n \<notin> set (l # xs))"

lemma unusedD: "unused n F \<Longrightarrow> F l = Some xs \<Longrightarrow> x \<in> set (l # xs) \<Longrightarrow> x \<noteq> n"
  unfolding unused_def by blast

lemma neighbours_in: "last (l # xs) \<in> set (l # xs @ ys)" "hd (ys @ [l]) \<in> set (l # xs @ ys)"
  by (auto simp: last_in_set split: if_splits) (cases ys, auto)

text \<open>The operations, on links and on the map.\<close>

datatype list_op =
    Init nat
  | AddAfter nat nat
  | AddBefore nat nat
  | Remove nat
  | MoveTail nat nat
  | MoveHead nat nat

fun exec :: "list_op \<Rightarrow> links \<Rightarrow> links" where
  "exec (Init l) s = list_init l s"
| "exec (AddAfter e n) s = list_add_after e n s"
| "exec (AddBefore e n) s = list_add_before e n s"
| "exec (Remove e) s = list_remove e s"
| "exec (MoveTail d src) s = list_move_tail d src s"
| "exec (MoveHead d src) s = list_move_head d src s"

text \<open>A new node goes behind or in front of an element or the head; \<open>xs\<close> are the elements up to the given one.\<close>

inductive abs_step :: "list_op \<Rightarrow> (nat \<rightharpoonup> nat list) \<Rightarrow> (nat \<rightharpoonup> nat list) \<Rightarrow> bool" where
  init: "unused l F \<Longrightarrow> abs_step (Init l) F (F(l \<mapsto> []))"
| add_after: "F l = Some (xs @ ys) \<Longrightarrow> e = last (l # xs) \<Longrightarrow> unused n F \<Longrightarrow> abs_step (AddAfter e n) F (F(l \<mapsto> xs @ n # ys))"
| add_before: "F l = Some (xs @ ys) \<Longrightarrow> e = hd (ys @ [l]) \<Longrightarrow> unused n F \<Longrightarrow> abs_step (AddBefore e n) F (F(l \<mapsto> xs @ n # ys))"
| remove: "F l = Some (xs @ e # ys) \<Longrightarrow> abs_step (Remove e) F (F(l \<mapsto> xs @ ys))"
| move_tail: "F d = Some xs \<Longrightarrow> F src = Some ys \<Longrightarrow> d \<noteq> src \<Longrightarrow> abs_step (MoveTail d src) F (F(d \<mapsto> xs @ ys, src \<mapsto> []))"
| move_head: "F d = Some xs \<Longrightarrow> F src = Some ys \<Longrightarrow> d \<noteq> src \<Longrightarrow> abs_step (MoveHead d src) F (F(d \<mapsto> ys @ xs, src \<mapsto> []))"

inductive_cases abs_stepE: "abs_step op F F'"

text \<open>Links that changed at nodes of the lists in \<open>L\<close> and at new nodes only.\<close>

lemma ring_cong: "(\<And>x. x \<in> set (l # xs) \<Longrightarrow> l_next s' x = l_next s x \<and> l_prev s' x = l_prev s x) \<Longrightarrow> ring s' l xs = ring s l xs"
  unfolding ring_def by (intro conj_cong refl seg_cong) auto

lemma rings_change:
  assumes R: "rings s F" and new: "\<And>l zs. l \<in> L \<Longrightarrow> F' l = Some zs \<Longrightarrow> ring s' l zs \<and> set (l # zs) \<subseteq> W"
    and old: "\<And>l. l \<notin> L \<Longrightarrow> F' l = F l" "\<And>l zs. l \<notin> L \<Longrightarrow> F l = Some zs \<Longrightarrow> set (l # zs) \<inter> W = {}"
    and same: "\<And>x. x \<notin> W \<Longrightarrow> l_next s' x = l_next s x \<and> l_prev s' x = l_prev s x"
    and apart: "\<And>l m xs ys. l \<in> L \<Longrightarrow> m \<in> L \<Longrightarrow> l \<noteq> m \<Longrightarrow> F' l = Some xs \<Longrightarrow> F' m = Some ys \<Longrightarrow> set (l # xs) \<inter> set (m # ys) = {}"
  shows "rings s' F'"
  unfolding rings_def
proof (intro conjI allI impI)
  fix l xs assume l: "F' l = Some xs"
  show "ring s' l xs"
  proof (cases "l \<in> L")
    case False
    then have "F l = Some xs" "set (l # xs) \<inter> W = {}" using l old by auto
    then show ?thesis using R ring_cong [of l xs s' s] same unfolding rings_def by blast
  qed (use new l in blast)
next
  fix l m xs ys assume lm: "F' l = Some xs" "F' m = Some ys" "l \<noteq> m"
  consider "l \<in> L" "m \<in> L" | "l \<in> L" "m \<notin> L" | "l \<notin> L" "m \<in> L" | "l \<notin> L" "m \<notin> L" by blast
  then show "set (l # xs) \<inter> set (m # ys) = {}"
  proof cases
    case 4
    then show ?thesis using R lm old(1) unfolding rings_def by metis
  next
    case 2
    then have "set (l # xs) \<subseteq> W" "set (m # ys) \<inter> W = {}" using new lm old by metis+
    then show ?thesis by blast
  next
    case 3
    then have "set (m # ys) \<subseteq> W" "set (l # xs) \<inter> W = {}" using new lm old by metis+
    then show ?thesis by blast
  qed (use apart lm in blast)
qed

lemma rings_change_one:
  assumes R: "rings s F" and l: "F l = Some xs" and r: "ring s' l zs" "set zs \<subseteq> set xs \<union> N" "\<forall>n\<in>N. unused n F"
    and same: "\<And>x. x \<notin> set (l # xs) \<union> N \<Longrightarrow> l_next s' x = l_next s x \<and> l_prev s' x = l_prev s x"
  shows "rings s' (F(l \<mapsto> zs))"
proof (rule rings_change [OF R, where L = "{l}" and W = "set (l # xs) \<union> N"])
  fix m ys assume m: "m \<notin> {l}" "F m = Some ys"
  then have "set (m # ys) \<inter> set (l # xs) = {}" using R l unfolding rings_def by blast
  moreover have "set (m # ys) \<inter> N = {}" using m r(3) unfolding unused_def by blast
  ultimately show "set (m # ys) \<inter> (set (l # xs) \<union> N) = {}" by blast
qed (use r same in auto)

section \<open>Refinement\<close>

lemma step_add:
  assumes R: "rings s F" and l: "F l = Some (xs @ ys)" and n: "unused n F"
  shows "rings (linked (last (l # xs)) n (hd (ys @ [l])) s) (F(l \<mapsto> xs @ n # ys))"
proof (rule rings_change_one [OF R l, where N = "{n}"])
  have r: "ring s l (xs @ ys)" using R l unfolding rings_def by blast
  have fresh: "n \<notin> set (l # xs @ ys)" using unusedD [OF n l] by blast
  show "ring (linked (last (l # xs)) n (hd (ys @ [l])) s) l (xs @ n # ys)" by (rule ring_insert [OF r fresh])
  fix x assume x: "x \<notin> set (l # xs @ ys) \<union> {n}"
  have "last (l # xs) \<in> set (l # xs)" by simp
  moreover have "hd (ys @ [l]) \<in> set (l # ys)" by (cases ys) auto
  ultimately have "x \<noteq> last (l # xs)" "x \<noteq> hd (ys @ [l])" "x \<noteq> n" using x by auto
  then show "l_next (linked (last (l # xs)) n (hd (ys @ [l])) s) x = l_next s x \<and> l_prev (linked (last (l # xs)) n (hd (ys @ [l])) s) x = l_prev s x"
    by (simp add: linked_def)
qed (use n in auto)

lemma step_remove:
  assumes R: "rings s F" and l: "F l = Some (xs @ e # ys)"
  shows "rings (list_remove e s) (F(l \<mapsto> xs @ ys))"
proof -
  have r: "ring s l (xs @ e # ys)" using R l unfolding rings_def by blast
  show ?thesis
  proof (rule rings_change_one [OF R l, where N = "{}"])
    show "ring (list_remove e s) l (xs @ ys)" by (rule ring_remove [OF r])
    fix x assume x: "x \<notin> set (l # xs @ e # ys) \<union> {}"
    have "last (l # xs) \<in> set (l # xs)" by simp
    moreover have "hd (ys @ [l]) \<in> set (l # ys)" by (cases ys) auto
    ultimately have "x \<noteq> last (l # xs)" "x \<noteq> hd (ys @ [l])" using x by auto
    then show "l_next (list_remove e s) x = l_next s x \<and> l_prev (list_remove e s) x = l_prev s x" using ring_remove(2) [OF r] by simp
  qed auto
qed

lemma step_move:
  assumes R: "rings s F" and l: "F d = Some xs" "F src = Some ys" "d \<noteq> src"
    and r: "ring s' d zs" "ring s' src []" "set zs = set xs \<union> set ys"
    and same: "\<And>x. x \<notin> set (d # xs) \<union> set (src # ys) \<Longrightarrow> l_next s' x = l_next s x \<and> l_prev s' x = l_prev s x"
  shows "rings s' (F(d \<mapsto> zs, src \<mapsto> []))"
proof (rule rings_change [OF R, where L = "{d, src}" and W = "set (d # xs) \<union> set (src # ys)"])
  fix m vs assume m: "m \<notin> {d, src}" "F m = Some vs"
  then have "set (m # vs) \<inter> set (d # xs) = {}" "set (m # vs) \<inter> set (src # ys) = {}" using R l unfolding rings_def by blast+
  then show "set (m # vs) \<inter> (set (d # xs) \<union> set (src # ys)) = {}" by blast
next
  have "src \<notin> set zs" "src \<noteq> d" using R l r(3) unfolding rings_def ring_def by fastforce+
  then show "set (m # us) \<inter> set (k # vs) = {}" if "m \<in> {d, src}" "k \<in> {d, src}" "m \<noteq> k" "(F(d \<mapsto> zs, src \<mapsto> [])) m = Some us"
    "(F(d \<mapsto> zs, src \<mapsto> [])) k = Some vs" for m k us vs
    using that by auto
qed (use r l same in auto)

lemma rings_empty_move:
  assumes "rings s F" "F d = Some xs" "F src = Some []" "d \<noteq> src"
  shows "exec (MoveTail d src) s = s" "exec (MoveHead d src) s = s" "F(d \<mapsto> xs, src \<mapsto> []) = F"
proof -
  have "ring s src []" using assms unfolding rings_def by blast
  then show "exec (MoveTail d src) s = s" "exec (MoveHead d src) s = s"
    by (simp_all add: ring_def list_move_tail_def list_move_head_def list_empty_def)
  show "F(d \<mapsto> xs, src \<mapsto> []) = F" using assms by (auto simp: fun_eq_iff)
qed

lemma exec_refines:
  assumes R: "rings s F" and step: "abs_step op F F'"
  shows "rings (exec op s) F'"
  using step
proof cases
  case (init l)
  have "rings (list_init l s) (F(l \<mapsto> []))"
  proof (rule rings_change [OF R, where L = "{l}" and W = "{l}"])
    show "set (m # zs) \<inter> {l} = {}" if "m \<notin> {l}" "F m = Some zs" for m zs using init(3) that unfolding unused_def by blast
  qed (use ring_init in \<open>auto simp: list_init_def Let_def\<close>)
  then show ?thesis using init by simp
next
  case (add_after l xs ys e n)
  have r: "ring s l (xs @ ys)" using R add_after unfolding rings_def by blast
  have "e \<noteq> n" "l_next s e = hd (ys @ [l])" "hd (ys @ [l]) \<noteq> n"
    using ring_neighbours(1) [OF r] add_after(4) unusedD [OF add_after(5,3) neighbours_in(1)] unusedD [OF add_after(5,3) neighbours_in(2)] by simp_all
  then show ?thesis using step_add [OF R] add_after list_add_after_linked by simp
next
  case (add_before l xs ys e n)
  have r: "ring s l (xs @ ys)" using R add_before unfolding rings_def by blast
  have "e \<noteq> n" "l_prev s e = last (l # xs)" "last (l # xs) \<noteq> n"
    using ring_neighbours(2) [OF r] add_before(4) unusedD [OF add_before(5,3) neighbours_in(2)] unusedD [OF add_before(5,3) neighbours_in(1)] by simp_all
  then show ?thesis using step_add [OF R] add_before list_add_before_linked by simp
next
  case (remove l xs e ys)
  then show ?thesis using step_remove [OF R] by simp
next
  case (move_tail d xs src ys)
  show ?thesis
  proof (cases "ys = []")
    case False
    have r: "ring s d xs" "ring s src ys" "set (d # xs) \<inter> set (src # ys) = {}" using R move_tail unfolding rings_def by blast+
    note mv = ring_move_tail [OF r False]
    have "rings (list_move_tail d src s) (F(d \<mapsto> xs @ ys, src \<mapsto> []))"
      by (rule step_move [OF R _ _ _ mv(1,2)]) (use move_tail mv(3) False in \<open>auto simp: list_init_def Let_def\<close>)
    then show ?thesis using move_tail by simp
  qed (use R move_tail rings_empty_move in simp)
next
  case (move_head d xs src ys)
  show ?thesis
  proof (cases "ys = []")
    case False
    have r: "ring s d xs" "ring s src ys" "set (d # xs) \<inter> set (src # ys) = {}" using R move_head unfolding rings_def by blast+
    note mv = ring_move_head [OF r False]
    have "hd (xs @ [d]) \<in> set (d # xs)" by (cases xs) auto
    then have "rings (list_move_head d src s) (F(d \<mapsto> ys @ xs, src \<mapsto> []))"
      by (intro step_move [OF R move_head(3,4,5) mv(1,2)]) (use mv(3) False in \<open>auto simp: list_init_def Let_def\<close>)
    then show ?thesis using move_head by simp
  qed (use R move_head rings_empty_move in simp)
qed

section \<open>Walks\<close>

lemma for_each_seg: "seg s a xs l \<Longrightarrow> l \<notin> set xs \<Longrightarrow> for_each l s (l_next s a) = Some xs"
proof (induction xs arbitrary: a)
  case (Cons x xs)
  then show ?case by (simp add: for_each.simps [of l s x])
qed (simp add: for_each.simps)

lemma for_each_rev_seg: "seg s l xs b \<Longrightarrow> l \<notin> set xs \<Longrightarrow> for_each_rev l s (l_prev s b) = Some (rev xs)"
proof (induction xs arbitrary: b rule: rev_induct)
  case (snoc x xs)
  then show ?case by (simp add: seg_append for_each_rev.simps [of l s x])
qed (simp add: for_each_rev.simps)

lemma count_from_seg: "seg s a xs l \<Longrightarrow> l \<notin> set xs \<Longrightarrow> count_from l s (l_next s a) (k mod 4294967296) = Some ((k + length xs) mod 4294967296)"
proof (induction xs arbitrary: a k)
  case (Cons x xs)
  then have "count_from l s (l_next s a) (k mod 4294967296) = count_from l s (l_next s x) (Suc k mod 4294967296)"
    by (simp add: count_from.simps [of l s x] mod_Suc_eq)
  then show ?case using Cons.IH [of x "Suc k"] Cons.prems by simp
qed (simp add: count_from.simps)

text \<open>What the reading operations say of a ring.\<close>

definition reads :: "links \<Rightarrow> nat \<Rightarrow> nat list \<Rightarrow> bool" where
  "reads s l xs \<longleftrightarrow> LIST_FOR_EACH l s = Some xs \<and> LIST_FOR_EACH_REV l s = Some (rev xs) \<and> list_count l s = Some (length xs mod 4294967296)
     \<and> (list_empty l s \<longleftrightarrow> xs = []) \<and> list_head l s = hd (xs @ [0]) \<and> list_tail l s = last (0 # xs)
     \<and> (\<forall>ys e zs. xs = ys @ e # zs \<longrightarrow> list_next l e s = hd (zs @ [0]) \<and> list_prev l e s = last (0 # ys))"

lemma next_or_null: "l \<notin> set zs \<Longrightarrow> l_next s e = hd (zs @ [l]) \<Longrightarrow> list_next l e s = hd (zs @ [0])"
  by (cases zs) (auto simp: list_next_def)

lemma prev_or_null: "l \<notin> set ys \<Longrightarrow> l_prev s e = last (l # ys) \<Longrightarrow> list_prev l e s = last (0 # ys)"
  by (cases ys rule: rev_cases) (auto simp: list_prev_def)

lemma ring_reads:
  assumes "ring s l xs"
  shows "reads s l xs"
proof -
  have r: "seg s l xs l" "l \<notin> set xs" using assms by (simp_all add: ring_def)
  have "list_next l e s = hd (zs @ [0]) \<and> list_prev l e s = last (0 # ys)" if "xs = ys @ e # zs" for ys e zs
  proof -
    have "seg s l ys e" "seg s e zs l" "l \<notin> set zs" "l \<notin> set ys" using r that by (auto simp: seg_append)
    then show ?thesis using next_or_null [OF _ seg_next] prev_or_null [OF _ seg_prev] by blast
  qed
  moreover have "list_empty l s \<longleftrightarrow> xs = []" using r seg_next [OF r(1)] by (cases xs) (auto simp: list_empty_def)
  moreover have "list_head l s = hd (xs @ [0])" "list_tail l s = last (0 # xs)"
    using next_or_null [OF r(2) seg_next [OF r(1)]] prev_or_null [OF r(2) seg_prev [OF r(1)]] by (simp_all add: list_head_def list_tail_def)
  ultimately show ?thesis
    using for_each_seg [OF r] for_each_rev_seg [OF r] count_from_seg [OF r, of 0]
    by (simp add: reads_def LIST_FOR_EACH_def LIST_FOR_EACH_REV_def list_count_def)
qed

section \<open>Properties\<close>

interpretation lists: simulation rings exec abs_step
  by unfold_locales (rule exec_refines)

text \<open>C6: the operations of \<open>list.h\<close> refine those on lists: after any sequence of initialisations, insertions before and
  after a node, removals and moves of whole lists, the links represent exactly the lists the same sequence makes of
  the heads' lists, and every walk, count, emptiness test and neighbour read gives what the list says.\<close>

theorem list_refines:
  assumes "rings s F" "abs_run abs_step ops F F'" "F' l = Some xs"
  shows "reads (fold exec ops s) l xs"
  by (rule ring_reads) (use lists.run_simulates [OF assms(1,2)] assms(3) in \<open>simp add: rings_def\<close>)

theorem list_refines_witness:
  "reads (fold exec [Init 1, Init 2, AddAfter 1 10, AddBefore 1 11, AddAfter 10 12, AddAfter 2 20, Remove 10, MoveHead 2 1]
     \<lparr>l_next = \<lambda>_. 0, l_prev = \<lambda>_. 0\<rparr>) 2 [12, 11, 20]"
proof (rule list_refines)
  let ?E = "Map.empty :: nat \<rightharpoonup> nat list"
  show "rings \<lparr>l_next = \<lambda>_. 0, l_prev = \<lambda>_. 0\<rparr> ?E" by (simp add: rings_def)
  have 1: "abs_step (Init 1) ?E [1 \<mapsto> []]" "abs_step (Init 2) [1 \<mapsto> []] [1 \<mapsto> [], 2 \<mapsto> []]" by (auto intro!: abs_step.init simp: unused_def)
  have 2: "abs_step (AddAfter 1 10) [1 \<mapsto> [], 2 \<mapsto> []] ([1 \<mapsto> [], 2 \<mapsto> []](1 \<mapsto> [] @ 10 # []))" by (rule abs_step.add_after) (auto simp: unused_def)
  have 3: "abs_step (AddBefore 1 11) [2 \<mapsto> [], 1 \<mapsto> [10]] ([2 \<mapsto> [], 1 \<mapsto> [10]](1 \<mapsto> [10] @ 11 # []))" by (rule abs_step.add_before) (auto simp: unused_def)
  have 4: "abs_step (AddAfter 10 12) [2 \<mapsto> [], 1 \<mapsto> [10, 11]] ([2 \<mapsto> [], 1 \<mapsto> [10, 11]](1 \<mapsto> [10] @ 12 # [11]))" by (rule abs_step.add_after) (auto simp: unused_def)
  have 5: "abs_step (AddAfter 2 20) [2 \<mapsto> [], 1 \<mapsto> [10, 12, 11]] ([2 \<mapsto> [], 1 \<mapsto> [10, 12, 11]](2 \<mapsto> [] @ 20 # []))" by (rule abs_step.add_after) (auto simp: unused_def)
  have 6: "abs_step (Remove 10) [1 \<mapsto> [10, 12, 11], 2 \<mapsto> [20]] ([1 \<mapsto> [10, 12, 11], 2 \<mapsto> [20]](1 \<mapsto> [] @ [12, 11]))" by (rule abs_step.remove) auto
  have 7: "abs_step (MoveHead 2 1) [2 \<mapsto> [20], 1 \<mapsto> [12, 11]] ([2 \<mapsto> [20], 1 \<mapsto> [12, 11]](2 \<mapsto> [12, 11] @ [20], 1 \<mapsto> []))" by (rule abs_step.move_head) auto
  show "abs_run abs_step [Init 1, Init 2, AddAfter 1 10, AddBefore 1 11, AddAfter 10 12, AddAfter 2 20, Remove 10, MoveHead 2 1] ?E [2 \<mapsto> [12, 11, 20], 1 \<mapsto> []]"
    using 1 2 3 4 5 6 7 by (force simp: fun_upd_twist)
qed simp

lemma for_each_safe_remove:
  assumes "rings s F" "F l = Some (ks @ rest)"
  shows "\<exists>s'. for_each_safe (\<lambda>e s. if P e then list_remove e s else s) l s (hd (rest @ [l])) (l_next s (hd (rest @ [l]))) = Some s'
    \<and> rings s' (F(l \<mapsto> ks @ filter (\<lambda>e. \<not> P e) rest))"
  using assms
proof (induction rest arbitrary: ks s F)
  case Nil
  then have "F(l \<mapsto> ks) = F" by (auto simp: fun_eq_iff)
  then show ?case using Nil by (simp add: for_each_safe.simps)
next
  case (Cons e rest)
  let ?f = "\<lambda>e s. if P e then list_remove e s else s" and ?ks = "if P e then ks else ks @ [e]"
  have r: "ring s l (ks @ e # rest)" using Cons.prems unfolding rings_def by blast
  have n: "l_next s e = hd (rest @ [l])" "e \<noteq> l" using ring_neighbours(1) [of s l "ks @ [e]" rest] r by (auto simp: ring_def)
  have upd: "F(l \<mapsto> (ks @ [e]) @ rest) = F" using Cons.prems(2) by (auto simp: fun_eq_iff)
  have step: "rings (?f e s) (F(l \<mapsto> ?ks @ rest))"
    using step_remove [OF Cons.prems] Cons.prems(1) upd by auto
  have "(F(l \<mapsto> ?ks @ rest)) l = Some (?ks @ rest)" by simp
  from Cons.IH [OF step this] obtain s' where s': "for_each_safe ?f l (?f e s) (hd (rest @ [l])) (l_next (?f e s) (hd (rest @ [l]))) = Some s'"
      "rings s' ((F(l \<mapsto> ?ks @ rest))(l \<mapsto> ?ks @ filter (\<lambda>e. \<not> P e) rest))"
    by blast
  have "for_each_safe ?f l s e (l_next s e) = Some s'"
    by (subst for_each_safe.simps) (use s'(1) n in \<open>simp add: Let_def\<close>)
  moreover have "?ks @ filter (\<lambda>e. \<not> P e) rest = ks @ filter (\<lambda>e. \<not> P e) (e # rest)" by simp
  then have "rings s' (F(l \<mapsto> ks @ filter (\<lambda>e. \<not> P e) (e # rest)))" using s'(2) by (simp only: fun_upd_upd)
  ultimately show ?case by (simp only: append_Cons list.sel) blast
qed

text \<open>The safe iteration survives a body that removes the node it is at: it ends, and exactly the nodes the
  body chose are gone from the list.\<close>

theorem LIST_FOR_EACH_SAFE_removes:
  assumes "rings s F" "F l = Some xs"
  shows "\<exists>s'. LIST_FOR_EACH_SAFE (\<lambda>e s. if P e then list_remove e s else s) l s = Some s' \<and> rings s' (F(l \<mapsto> filter (\<lambda>e. \<not> P e) xs))"
proof -
  have "ring s l xs" using assms unfolding rings_def by blast
  then have "l_next s l = hd (xs @ [l])" using seg_next by (simp add: ring_def)
  then show ?thesis using for_each_safe_remove [of s F l "[]" xs P] assms by (simp add: LIST_FOR_EACH_SAFE_def)
qed

theorem LIST_FOR_EACH_SAFE_removes_witness:
  "\<exists>s'. LIST_FOR_EACH_SAFE (\<lambda>e s. if even e then list_remove e s else s) 1 \<lparr>l_next = (\<lambda>_. 0)(1 := 2, 2 := 3, 3 := 4, 4 := 1), l_prev = (\<lambda>_. 0)(1 := 4, 2 := 1, 3 := 2, 4 := 3)\<rparr> = Some s'
     \<and> rings s' [1 \<mapsto> [3]]"
proof -
  have "rings \<lparr>l_next = (\<lambda>_. 0)(1 := 2, 2 := 3, 3 := 4, 4 := 1), l_prev = (\<lambda>_. 0)(1 := 4, 2 := 1, 3 := 2, 4 := 3)\<rparr> [1 \<mapsto> [2, 3, 4]]"
    by (auto simp: rings_def ring_def split: if_splits)
  from LIST_FOR_EACH_SAFE_removes [OF this, of 1 "[2, 3, 4]" even] show ?thesis by simp
qed

end
