(* ===== verification/Initonce_Props.thy ===== *)
theory Initonce_Props
  imports Swinx_Prelude
begin

text \<open>
  One-time initialization (\<^verbatim>\<open>src/platform/posix/syncapi.cpp\<close>). The blocks the code runs under its mutex are
  atomic functions on the control word; the loops around them, the calls of the application's function and
  the threads are a step relation. The properties say that at most one thread initializes at a time, that
  only one initialization succeeds, and that every context a call hands out is the one it ended with.
\<close>

section \<open>The control word\<close>

datatype RTLRunOnceState = RTL_RUN_ONCE_STATE_INIT | RTL_RUN_ONCE_STATE_IN_PROGRESS | RTL_RUN_ONCE_STATE_COMPLETE

record RTL_RUN_ONCE =
  State :: RTLRunOnceState
  Context :: nat

definition InitOnceInitialize :: "RTL_RUN_ONCE \<Rightarrow> RTL_RUN_ONCE" where
  "InitOnceInitialize w = \<lparr>State = RTL_RUN_ONCE_STATE_INIT, Context = 0\<rparr>"

text \<open>What a thread that has just looked at the word does next.\<close>

datatype seen = Finished nat | Claimed | Busy

text \<open>The block at the head of the loops of \<open>InitOnceExecuteOnce\<close> and \<open>InitOnceBeginInitialize\<close>.\<close>

definition once_check :: "RTL_RUN_ONCE \<Rightarrow> seen \<times> RTL_RUN_ONCE" where
  "once_check w =
     (if State w = RTL_RUN_ONCE_STATE_COMPLETE then (Finished (Context w), w)
      else if State w = RTL_RUN_ONCE_STATE_INIT then (Claimed, w\<lparr>State := RTL_RUN_ONCE_STATE_IN_PROGRESS\<rparr>)
      else (Busy, w))"

text \<open>The block after the application's function has returned \<open>bRet\<close> and left \<open>ctx\<close>.\<close>

definition execute_finish :: "bool \<Rightarrow> nat \<Rightarrow> RTL_RUN_ONCE \<Rightarrow> RTL_RUN_ONCE" where
  "execute_finish bRet ctx w =
     (if bRet then w\<lparr>State := RTL_RUN_ONCE_STATE_COMPLETE, Context := ctx\<rparr> else w\<lparr>State := RTL_RUN_ONCE_STATE_INIT\<rparr>)"

text \<open>\<open>failed\<close> is the flag \<^verbatim>\<open>INIT_ONCE_INIT_FAILED\<close>. The call returns \<^verbatim>\<open>TRUE\<close> whatever the state was.\<close>

definition InitOnceComplete :: "bool \<Rightarrow> nat \<Rightarrow> RTL_RUN_ONCE \<Rightarrow> RTL_RUN_ONCE" where
  "InitOnceComplete failed lpContext w =
     (if failed then w\<lparr>State := RTL_RUN_ONCE_STATE_INIT\<rparr>
      else w\<lparr>State := RTL_RUN_ONCE_STATE_COMPLETE, Context := lpContext\<rparr>)"

section \<open>Threads\<close>

text \<open>
  Where a thread is: outside, in the loop of \<open>InitOnceExecuteOnce\<close> or \<open>InitOnceBeginInitialize\<close>, in the
  application's function, with \<^verbatim>\<open>fPending\<close> set after a blocking or an asynchronous \<open>InitOnceBeginInitialize\<close>,
  back from a call that found the word complete and handed out its context, back from having initialized (the call returns \<^verbatim>\<open>TRUE\<close>, and
  \<open>InitOnceExecuteOnce\<close> leaves \<^verbatim>\<open>*Context\<close> of that caller as it was), or back with a failure. Calls with null arguments, which are refused at
  once, are left out.
\<close>

datatype pc = Outside | Executing | Initializing | Beginning bool | Pending | AsyncPending | Got nat | Initialized | Failed

text \<open>\<open>results\<close> are the contexts that initializations have succeeded with, in their order.\<close>

record once_system =
  word :: RTL_RUN_ONCE
  thread :: "nat \<Rightarrow> pc"
  results :: "nat list"

definition goto :: "nat \<Rightarrow> pc \<Rightarrow> RTL_RUN_ONCE \<Rightarrow> once_system \<Rightarrow> once_system" where
  "goto t p w s = s\<lparr>word := w, thread := (thread s)(t := p)\<rparr>"

fun after_check :: "pc \<Rightarrow> pc \<Rightarrow> seen \<Rightarrow> pc" where
  "after_check claimed busy (Finished c) = Got c"
| "after_check claimed busy Claimed = claimed"
| "after_check claimed busy Busy = busy"

text \<open>
  A thread with the mode \<open>Beginning True\<close> called with \<^verbatim>\<open>INIT_ONCE_ASYNC\<close>: it gets \<^verbatim>\<open>fPending\<close> even while a peer
  is at work.
\<close>

inductive once_step :: "once_system \<Rightarrow> once_system \<Rightarrow> bool" where
  execute: "thread s t = Outside \<Longrightarrow> once_step s (goto t Executing (word s) s)"
| execute_loop: "thread s t = Executing \<Longrightarrow> once_check (word s) = (r, w) \<Longrightarrow> once_step s (goto t (after_check Initializing Executing r) w s)"
| execute_done: "thread s t = Initializing \<Longrightarrow>
     once_step s ((goto t (if bRet then Initialized else Failed) (execute_finish bRet ctx (word s)) s)\<lparr>results := results s @ (if bRet then [ctx] else [])\<rparr>)"
| begin_init: "thread s t = Outside \<Longrightarrow> once_step s (goto t (Beginning bAsync) (word s) s)"
| begin_loop: "thread s t = Beginning False \<Longrightarrow> once_check (word s) = (r, w) \<Longrightarrow> once_step s (goto t (after_check Pending (Beginning False) r) w s)"
| complete: "thread s t = Pending \<Longrightarrow>
     once_step s ((goto t (if failed then Failed else Initialized) (InitOnceComplete failed ctx (word s)) s)\<lparr>results := results s @ (if failed then [] else [ctx])\<rparr>)"
| leave: "thread s t \<in> {Got c, Initialized, Failed} \<Longrightarrow> once_step s (goto t Outside (word s) s)"

text \<open>The same with the asynchronous mode.\<close>

inductive async_step :: "once_system \<Rightarrow> once_system \<Rightarrow> bool" where
  sync: "once_step s s' \<Longrightarrow> async_step s s'"
| begin_async: "thread s t = Beginning True \<Longrightarrow> once_check (word s) = (r, w) \<Longrightarrow> async_step s (goto t (after_check Pending AsyncPending r) w s)"
| complete_async: "thread s t = AsyncPending \<Longrightarrow>
     async_step s ((goto t (if failed then Failed else Initialized) (InitOnceComplete failed ctx (word s)) s)\<lparr>results := results s @ (if failed then [] else [ctx])\<rparr>)"

definition once_start :: once_system where
  "once_start = \<lparr>word = \<lparr>State = RTL_RUN_ONCE_STATE_INIT, Context = 0\<rparr>, thread = \<lambda>_. Outside, results = []\<rparr>"

section \<open>Invariant\<close>

text \<open>The threads that own the initialization.\<close>

definition owns :: "pc \<Rightarrow> bool" where
  "owns p \<longleftrightarrow> p = Initializing \<or> p = Pending"

definition once_inv :: "once_system \<Rightarrow> bool" where
  "once_inv s \<longleftrightarrow> (\<forall>t u. owns (thread s t) \<longrightarrow> owns (thread s u) \<longrightarrow> t = u)
     \<and> (State (word s) = RTL_RUN_ONCE_STATE_IN_PROGRESS \<longleftrightarrow> (\<exists>t. owns (thread s t)))
     \<and> results s = (if State (word s) = RTL_RUN_ONCE_STATE_COMPLETE then [Context (word s)] else [])
     \<and> (\<forall>t c. thread s t = Got c \<longrightarrow> State (word s) = RTL_RUN_ONCE_STATE_COMPLETE \<and> Context (word s) = c)
     \<and> (\<forall>t. thread s t = Initialized \<longrightarrow> State (word s) = RTL_RUN_ONCE_STATE_COMPLETE)"

lemma owns_simps [simp]:
  "owns Initializing" "owns Pending" "\<not> owns Outside" "\<not> owns Executing" "\<not> owns (Beginning b)" "\<not> owns AsyncPending" "\<not> owns (Got c)" "\<not> owns Initialized" "\<not> owns Failed"
  by (simp_all add: owns_def)

lemma goto_simps [simp]:
  "word (goto t p w s) = w" "thread (goto t p w s) = (thread s)(t := p)" "results (goto t p w s) = results s"
  by (simp_all add: goto_def)

text \<open>A step of a thread that owned nothing and owns nothing afterwards, with the word as it was.\<close>

lemma once_inv_idle:
  "once_inv s \<Longrightarrow> \<not> owns (thread s t) \<Longrightarrow> \<not> owns p \<Longrightarrow> p \<noteq> Initialized \<Longrightarrow> (\<And>c. p = Got c \<Longrightarrow> State (word s) = RTL_RUN_ONCE_STATE_COMPLETE \<and> Context (word s) = c)
   \<Longrightarrow> once_inv (goto t p (word s) s)"
proof -
  assume a: "once_inv s" "\<not> owns (thread s t)" "\<not> owns p" "p \<noteq> Initialized" "\<And>c. p = Got c \<Longrightarrow> State (word s) = RTL_RUN_ONCE_STATE_COMPLETE \<and> Context (word s) = c"
  have "owns (thread (goto t p (word s) s) u) = owns (thread s u)" for u using a(2,3) by simp
  then show ?thesis using a(1,4,5) unfolding once_inv_def by auto
qed

lemma once_inv_claim:
  "once_inv s \<Longrightarrow> \<not> owns (thread s t) \<Longrightarrow> owns p \<Longrightarrow> State (word s) = RTL_RUN_ONCE_STATE_INIT
   \<Longrightarrow> once_inv (goto t p ((word s)\<lparr>State := RTL_RUN_ONCE_STATE_IN_PROGRESS\<rparr>) s)"
  unfolding once_inv_def by (auto split: if_splits simp: owns_def)

lemma once_inv_success:
  "once_inv s \<Longrightarrow> owns (thread s t)
   \<Longrightarrow> once_inv ((goto t Initialized ((word s)\<lparr>State := RTL_RUN_ONCE_STATE_COMPLETE, Context := c\<rparr>) s)\<lparr>results := results s @ [c]\<rparr>)"
  unfolding once_inv_def by (auto split: if_splits)

lemma once_inv_failure:
  "once_inv s \<Longrightarrow> owns (thread s t) \<Longrightarrow> once_inv (goto t Failed ((word s)\<lparr>State := RTL_RUN_ONCE_STATE_INIT\<rparr>) s)"
  unfolding once_inv_def by (auto split: if_splits)

lemma once_inv_check:
  assumes "once_inv s" "\<not> owns (thread s t)" "once_check (word s) = (r, w)" "owns claimed" "\<not> owns busy" "\<And>c. busy \<noteq> Got c" "busy \<noteq> Initialized"
  shows "once_inv (goto t (after_check claimed busy r) w s)"
proof -
  have done_word: "once_inv (goto t (Got (Context (word s))) (word s) s)" if "State (word s) = RTL_RUN_ONCE_STATE_COMPLETE"
    by (rule once_inv_idle [OF assms(1,2)]) (use that in auto)
  have "once_inv (goto t busy (word s) s)" by (rule once_inv_idle [OF assms(1,2,5,7)]) (use assms(6) in blast)
  then show ?thesis using assms done_word once_inv_claim [of s t claimed] by (auto simp: once_check_def split: if_splits)
qed

lemma once_step_inv: "once_step s s' \<Longrightarrow> once_inv s \<Longrightarrow> once_inv s'"
proof (induction rule: once_step.induct)
  case (execute_done s t bRet ctx)
  then show ?case using once_inv_success [of s t ctx] once_inv_failure [of s t]
    by (cases bRet) (auto simp: execute_finish_def goto_def)
next
  case (complete s t failed ctx)
  then show ?case using once_inv_success [of s t ctx] once_inv_failure [of s t]
    by (cases failed) (auto simp: InitOnceComplete_def goto_def)
qed (auto intro: once_inv_idle once_inv_check)

lemma once_start_inv: "once_inv once_start"
  by (simp add: once_inv_def once_start_def)

interpretation once: kept once_step once_inv
  by unfold_locales (rule once_step_inv)

lemma once_run_inv: "once_step\<^sup>*\<^sup>* once_start s \<Longrightarrow> once_inv s"
  using once.run_keeps [OF _ once_start_inv] .

section \<open>Properties\<close>

text \<open>Once complete, the word never changes again.\<close>

lemma complete_step:
  assumes "once_step s s'" "once_inv s" "State (word s) = RTL_RUN_ONCE_STATE_COMPLETE"
  shows "word s' = word s"
proof -
  have "\<not> owns (thread s t)" for t using assms(2,3) unfolding once_inv_def by auto
  then have free: "thread s t \<noteq> Initializing" "thread s t \<noteq> Pending" for t by (metis owns_simps(1), metis owns_simps(2))
  show ?thesis using assms(1) free assms(3) by cases (auto simp: once_check_def)
qed

lemma complete_run:
  assumes "once_step\<^sup>*\<^sup>* s s'" "once_inv s" "State (word s) = RTL_RUN_ONCE_STATE_COMPLETE"
  shows "word s' = word s \<and> once_inv s'"
  using assms by (induction rule: rtranclp_induct) (auto simp: complete_step intro: once_step_inv)

text \<open>C27: whatever the interleaving of \<open>InitOnceExecuteOnce\<close> and blocking \<open>InitOnceBeginInitialize\<close> and \<open>InitOnceComplete\<close>
  calls of any number of threads, two threads are never in the initialization at once and at most one initialization
  succeeds; from then on the word keeps its context, no thread initializes again, and every context that a call hands out is that one.
  The thread that initialized is not handed one.\<close>

theorem InitOnce_once:
  assumes "once_step\<^sup>*\<^sup>* once_start s"
  shows "(owns (thread s t) \<longrightarrow> owns (thread s u) \<longrightarrow> t = u) \<and> length (results s) \<le> 1
    \<and> (thread s t = Initialized \<longrightarrow> results s \<noteq> []) \<and> (thread s t = Got c \<longrightarrow> results s = [c])
    \<and> (\<forall>s' d. once_step\<^sup>*\<^sup>* s s' \<longrightarrow> results s = [d]
         \<longrightarrow> results s' = [d] \<and> Context (word s') = d \<and> \<not> owns (thread s' u) \<and> (\<forall>e. thread s' u = Got e \<longrightarrow> e = d))"
proof -
  have inv: "once_inv s" using once_run_inv [OF assms] .
  have "results s' = [d] \<and> Context (word s') = d \<and> \<not> owns (thread s' u) \<and> (\<forall>e. thread s' u = Got e \<longrightarrow> e = d)"
    if "once_step\<^sup>*\<^sup>* s s'" "results s = [d]" for s' d
  proof -
    have fin: "State (word s) = RTL_RUN_ONCE_STATE_COMPLETE" "Context (word s) = d" using inv that(2) unfolding once_inv_def by (auto split: if_splits)
    then show ?thesis using complete_run [OF that(1) inv fin(1)] unfolding once_inv_def by auto
  qed
  moreover have "owns (thread s t) \<longrightarrow> owns (thread s u) \<longrightarrow> t = u" using inv unfolding once_inv_def by blast
  moreover have "length (results s) \<le> 1" using inv unfolding once_inv_def by simp
  moreover have "thread s t = Initialized \<longrightarrow> results s \<noteq> []" "thread s t = Got c \<longrightarrow> results s = [c]" using inv unfolding once_inv_def by force+
  ultimately show ?thesis by blast
qed

lemma once_step_run: "once_step s s' \<Longrightarrow> once_step\<^sup>*\<^sup>* s' s'' \<Longrightarrow> once_step\<^sup>*\<^sup>* s s''"
  by (rule converse_rtranclp_into_rtranclp)

text \<open>Thread 0 initializes, thread 1 comes for the context.\<close>

theorem InitOnce_once_witness:
  "\<exists>s. once_step\<^sup>*\<^sup>* once_start s \<and> thread s 0 = Initialized \<and> thread s 1 = Got 42 \<and> results s = [42]"
proof -
  define s1 where "s1 = goto 0 Executing (word once_start) once_start"
  define s2 where "s2 = goto 0 Initializing \<lparr>State = RTL_RUN_ONCE_STATE_IN_PROGRESS, Context = 0\<rparr> s1"
  define s3 where "s3 = (goto 0 Initialized \<lparr>State = RTL_RUN_ONCE_STATE_COMPLETE, Context = 42\<rparr> s2)\<lparr>results := [42]\<rparr>"
  define s4 where "s4 = goto 1 Executing (word s3) s3"
  define s5 where "s5 = goto 1 (Got 42) (word s4) s4"
  have 1: "once_step once_start s1" unfolding s1_def by (rule once_step.execute) (simp add: once_start_def)
  have 2: "once_step s1 s2" unfolding s2_def
    using once_step.execute_loop [of s1 0 Claimed "\<lparr>State = RTL_RUN_ONCE_STATE_IN_PROGRESS, Context = 0\<rparr>"] by (simp add: s1_def once_start_def once_check_def)
  have 3: "once_step s2 s3" unfolding s3_def
    using once_step.execute_done [of s2 0 True 42] by (simp add: s2_def s1_def once_start_def execute_finish_def goto_def)
  have 4: "once_step s3 s4" unfolding s4_def by (rule once_step.execute) (simp add: s3_def s2_def s1_def once_start_def)
  have 5: "once_step s4 s5" unfolding s5_def
    using once_step.execute_loop [of s4 1 "Finished 42" "word s4"] by (simp add: s4_def s3_def once_check_def)
  have run: "once_step\<^sup>*\<^sup>* once_start s5" using 1 2 3 4 5 by (auto intro: once_step_run)
  have t: "thread s5 0 = Initialized" "thread s5 1 = Got 42" by (simp_all add: s5_def s4_def s3_def)
  then have "results s5 = [42]" using InitOnce_once [OF run] by blast
  then show ?thesis using run t by blast
qed

text \<open>The asynchronous mode breaks this: a thread that got \<^verbatim>\<open>fPending\<close> while another one runs the initialization can
  report a failure, which makes the word free again, and a third thread initializes beside the first.\<close>

theorem InitOnce_async_two_owners:
  "\<exists>s. async_step\<^sup>*\<^sup>* once_start s \<and> thread s 0 = Initializing \<and> thread s 2 = Initializing"
proof -
  let ?P = "\<lparr>State = RTL_RUN_ONCE_STATE_IN_PROGRESS, Context = 0\<rparr>" and ?I = "\<lparr>State = RTL_RUN_ONCE_STATE_INIT, Context = 0\<rparr>"
  define s1 where "s1 = goto 0 Executing ?I once_start"
  define s2 where "s2 = goto 0 Initializing ?P s1"
  define s3 where "s3 = goto 1 (Beginning True) ?P s2"
  define s4 where "s4 = goto 1 AsyncPending ?P s3"
  define s5 where "s5 = goto 1 Failed ?I s4"
  define s6 where "s6 = goto 2 Executing ?I s5"
  define s7 where "s7 = goto 2 Initializing ?P s6"
  note defs = s1_def s2_def s3_def s4_def s5_def s6_def s7_def
  have 1: "once_step once_start s1" using once_step.execute [of once_start 0] by (simp add: s1_def once_start_def)
  have 2: "once_step s1 s2" using once_step.execute_loop [of s1 0 Claimed ?P] by (simp add: defs once_check_def)
  have 3: "once_step s2 s3" using once_step.begin_init [of s2 1 True] by (simp add: defs once_start_def)
  have 4: "async_step s3 s4" using async_step.begin_async [of s3 1 Busy ?P] by (simp add: defs once_check_def)
  have 5: "async_step s4 s5" using async_step.complete_async [of s4 1 True 0] by (simp add: defs InitOnceComplete_def) (simp add: goto_def)
  have 6: "once_step s5 s6" using once_step.execute [of s5 2] by (simp add: defs once_start_def)
  have 7: "once_step s6 s7" using once_step.execute_loop [of s6 2 Claimed ?P] by (simp add: defs once_check_def)
  have "async_step\<^sup>*\<^sup>* once_start s7"
    using async_step.sync [OF 1] async_step.sync [OF 2] async_step.sync [OF 3] 4 5 async_step.sync [OF 6] async_step.sync [OF 7]
    by (meson converse_rtranclp_into_rtranclp rtranclp.rtrancl_refl)
  then show ?thesis by (auto simp: defs intro!: exI [of _ s7])
qed

end
