(* ===== verification/Hook_Model.thy ===== *)
theory Hook_Model
  imports Swinx_Prelude "HOL-Library.Monad_Syntax" "HOL-Library.Multiset"
begin

text \<open>
  Windows hooks (\<^verbatim>\<open>src/hook.cpp\<close>): one list of hook objects for each kind, and a reference count that keeps an
  object alive while its procedure runs. A hook is the address of its object; null is 0. The objects that
  exist are a map from addresses, so \<open>None\<close> as a result is the use of an object that has been deleted.
  The lock around each access of the lists makes every function here one atomic step.
\<close>

section \<open>State\<close>

record hook =
  hk_id :: int
  hk_proc :: nat
  hk_handle :: nat
  hk_tid :: nat
  hk_unicode :: bool
  hk_module :: string
  hk_refs :: int

record hook_mgr =
  s_hooks :: "int \<Rightarrow> nat list"
  hook_objs :: "nat \<Rightarrow> hook option"
  last_error :: nat

definition WH_MINHOOK :: int where "WH_MINHOOK = 0"

definition WH_MAXHOOK :: int where "WH_MAXHOOK = 7"

definition set_error :: "nat \<Rightarrow> hook_mgr \<Rightarrow> hook_mgr" where
  "set_error e st = st\<lparr>last_error := e\<rparr>"

section \<open>Reference counts\<close>

definition hook_acquire :: "nat \<Rightarrow> hook_mgr \<Rightarrow> hook_mgr option" where
  "hook_acquire h st = do { o1 \<leftarrow> hook_objs st h; Some (st\<lparr>hook_objs := (hook_objs st)(h \<mapsto> o1\<lparr>hk_refs := hk_refs o1 + 1\<rparr>)\<rparr>) }"

definition hook_release :: "nat \<Rightarrow> hook_mgr \<Rightarrow> hook_mgr option" where
  "hook_release h st =
     do { o1 \<leftarrow> hook_objs st h;
          let r = hk_refs o1 - 1;
          Some (st\<lparr>hook_objs := (hook_objs st)(h := if r = 0 then None else Some (o1\<lparr>hk_refs := r\<rparr>))\<rparr>) }"

section \<open>The hook manager\<close>

text \<open>
  \<open>modname\<close> is the name \<^verbatim>\<open>GetModuleFileNameA\<close> finds for \<open>inst\<close>, which must be shorter than \<^verbatim>\<open>MAX_PATH\<close>, and \<open>p\<close> the
  address \<^verbatim>\<open>new\<close> returns.
\<close>

definition set_windows_hook :: "int \<Rightarrow> nat \<Rightarrow> nat \<Rightarrow> string option \<Rightarrow> nat \<Rightarrow> bool \<Rightarrow> nat \<Rightarrow> hook_mgr \<Rightarrow> nat \<times> hook_mgr" where
  "set_windows_hook kind proc inst modname tid unicode p st =
     (if proc = 0 \<or> kind < WH_MINHOOK \<or> kind \<ge> WH_MAXHOOK then (0, set_error 87 st)
      else if inst \<noteq> 0 \<and> modname = None then (0, set_error 87 st)
      else (p, st\<lparr>s_hooks := (s_hooks st)(kind := p # s_hooks st kind),
                  hook_objs := (hook_objs st)(p \<mapsto> \<lparr>hk_id = kind, hk_proc = proc, hk_handle = inst, hk_tid = tid, hk_unicode = unicode,
                                                hk_module = (if inst \<noteq> 0 then the modname else []), hk_refs = 1\<rparr>)\<rparr>))"

text \<open>The lists from kind \<open>i\<close> on; the first one with the hook loses it.\<close>

function unhook_from :: "int \<Rightarrow> nat \<Rightarrow> hook_mgr \<Rightarrow> (bool \<times> hook_mgr) option" where
  "unhook_from i h st =
     (if i \<ge> WH_MAXHOOK then Some (False, st)
      else if h \<in> set (s_hooks st i)
      then do { st1 \<leftarrow> hook_release h (st\<lparr>s_hooks := (s_hooks st)(i := remove1 h (s_hooks st i))\<rparr>); Some (True, st1) }
      else unhook_from (i + 1) h st)"
  by pat_completeness auto
termination by (relation "measure (\<lambda>(i, h, st). nat (WH_MAXHOOK - i))") auto

declare unhook_from.simps [simp del]

definition unhook :: "nat \<Rightarrow> hook_mgr \<Rightarrow> (bool \<times> hook_mgr) option" where
  "unhook h st =
     (if h = 0 then Some (False, set_error 6 st)
      else do { (bRet, st1) \<leftarrow> unhook_from WH_MINHOOK h st; Some (bRet, if bRet then st1 else set_error 6 st1) })"

definition get_first_hook :: "int \<Rightarrow> hook_mgr \<Rightarrow> (nat \<times> hook_mgr) option" where
  "get_first_hook kind st =
     (if kind < WH_MINHOOK \<or> kind \<ge> WH_MAXHOOK then Some (0, st)
      else (case s_hooks st kind of
              [] \<Rightarrow> Some (0, st)
            | h # _ \<Rightarrow> do { st1 \<leftarrow> hook_acquire h st; Some (h, st1) }))"

text \<open>The element behind the first occurrence, null at the end of the list or when there is none.\<close>

fun after_in :: "nat \<Rightarrow> nat list \<Rightarrow> nat" where
  "after_in h [] = 0"
| "after_in h (x # xs) = (if x = h then (case xs of [] \<Rightarrow> 0 | y # _ \<Rightarrow> y) else after_in h xs)"

definition get_next_hook :: "nat \<Rightarrow> hook_mgr \<Rightarrow> (nat \<times> hook_mgr) option" where
  "get_next_hook hhk st =
     (if hhk = 0 then Some (0, st)
      else do { o1 \<leftarrow> hook_objs st hhk;
                if hk_id o1 < WH_MINHOOK \<or> hk_id o1 \<ge> WH_MAXHOOK then Some (0, st)
                else (let r = after_in hhk (s_hooks st (hk_id o1))
                      in if r = 0 then Some (0, st) else do { st1 \<leftarrow> hook_acquire r st; Some (r, st1) }) })"

text \<open>
  The call of a hook: \<open>run\<close> is the hook's procedure, called here or through a message to the thread it
  belongs to, with whatever calls of this interface it makes; \<open>connected\<close> tells whether a thread has a
  connection. A hook of a thread without one is passed over.
\<close>

partial_function (option) call_hook ::
    "(nat \<Rightarrow> hook_mgr \<Rightarrow> (int \<times> hook_mgr) option) \<Rightarrow> (nat \<Rightarrow> bool) \<Rightarrow> nat \<Rightarrow> nat \<Rightarrow> hook_mgr \<Rightarrow> (int \<times> hook_mgr) option" where
  "call_hook run connected tid hhk st =
     (if hhk = 0 then Some (0, st)
      else do {
        o1 \<leftarrow> hook_objs st hhk;
        if hk_proc o1 \<noteq> 0 \<and> hk_tid o1 \<noteq> tid \<and> \<not> connected (hk_tid o1)
        then do { (next_hook, st1) \<leftarrow> get_next_hook hhk st;
                  st2 \<leftarrow> hook_release hhk st1;
                  call_hook run connected tid next_hook st2 }
        else do { (ret, st1) \<leftarrow> (if hk_proc o1 \<noteq> 0 then run hhk st else Some (0, st));
                  st2 \<leftarrow> hook_release hhk st1;
                  Some (ret, st2) } })"

section \<open>The exported calls\<close>

definition SetWindowsHookExA :: "int \<Rightarrow> nat \<Rightarrow> nat \<Rightarrow> string option \<Rightarrow> nat \<Rightarrow> nat \<Rightarrow> hook_mgr \<Rightarrow> nat \<times> hook_mgr" where
  "SetWindowsHookExA kind proc inst modname tid p st = set_windows_hook kind proc inst modname tid False p st"

definition SetWindowsHookExW :: "int \<Rightarrow> nat \<Rightarrow> nat \<Rightarrow> string option \<Rightarrow> nat \<Rightarrow> nat \<Rightarrow> hook_mgr \<Rightarrow> nat \<times> hook_mgr" where
  "SetWindowsHookExW kind proc inst modname tid p st = set_windows_hook kind proc inst modname tid True p st"

text \<open>\<open>self\<close> is the current thread.\<close>

definition SetWindowsHookA :: "int \<Rightarrow> nat \<Rightarrow> nat \<Rightarrow> nat \<Rightarrow> hook_mgr \<Rightarrow> nat \<times> hook_mgr" where
  "SetWindowsHookA kind proc self p st = SetWindowsHookExA kind proc 0 None self p st"

definition SetWindowsHookW :: "int \<Rightarrow> nat \<Rightarrow> nat \<Rightarrow> nat \<Rightarrow> hook_mgr \<Rightarrow> nat \<times> hook_mgr" where
  "SetWindowsHookW kind proc self p st = SetWindowsHookExW kind proc 0 None self p st"

definition UnhookWindowsHookEx :: "nat \<Rightarrow> hook_mgr \<Rightarrow> (bool \<times> hook_mgr) option" where
  "UnhookWindowsHookEx hhk st = unhook hhk st"

definition CallNextHookEx :: "(nat \<Rightarrow> hook_mgr \<Rightarrow> (int \<times> hook_mgr) option) \<Rightarrow> (nat \<Rightarrow> bool) \<Rightarrow> nat \<Rightarrow> nat \<Rightarrow> hook_mgr \<Rightarrow> (int \<times> hook_mgr) option" where
  "CallNextHookEx run connected tid hhk st =
     do { (next_hook, st1) \<leftarrow> get_next_hook hhk st; call_hook run connected tid next_hook st1 }"

text \<open>The value is returned as a \<^verbatim>\<open>BOOL\<close> of 32 bits.\<close>

definition CallHook :: "(nat \<Rightarrow> hook_mgr \<Rightarrow> (int \<times> hook_mgr) option) \<Rightarrow> (nat \<Rightarrow> bool) \<Rightarrow> nat \<Rightarrow> int \<Rightarrow> hook_mgr \<Rightarrow> (int \<times> hook_mgr) option" where
  "CallHook run connected tid kind st =
     do { (hhk, st1) \<leftarrow> get_first_hook kind st;
          (ret, st2) \<leftarrow> call_hook run connected tid hhk st1;
          Some (wrap32 ret, st2) }"

section \<open>Threads\<close>

text \<open>
  The steps of threads in any order: \<open>M\<close> holds one hook for each call of a procedure in flight. A thread
  sets or removes a hook, starts a chain, goes on from a hook whose procedure it is in, passes over a hook,
  or comes back from a procedure.
\<close>

inductive hook_step :: "hook_mgr \<times> nat multiset \<Rightarrow> hook_mgr \<times> nat multiset \<Rightarrow> bool" where
  set_hook: "p \<noteq> 0 \<Longrightarrow> hook_objs st p = None \<Longrightarrow> set_windows_hook kind proc inst modname tid unicode p st = (r, st') \<Longrightarrow> hook_step (st, M) (st', M)"
| unhook: "unhook h st = Some (b, st') \<Longrightarrow> hook_step (st, M) (st', M)"
| first: "get_first_hook kind st = Some (r, st') \<Longrightarrow> hook_step (st, M) (st', if r = 0 then M else add_mset r M)"
| next_call: "h \<in># M \<Longrightarrow> get_next_hook h st = Some (r, st') \<Longrightarrow> hook_step (st, M) (st', if r = 0 then M else add_mset r M)"
| return: "h \<in># M \<Longrightarrow> hook_release h st = Some st' \<Longrightarrow> hook_step (st, M) (st', M - {#h#})"

inductive_cases hook_stepE: "hook_step (st, M) (st', M')"

end
