(* ===== verification/Hook_Props.thy ===== *)
theory Hook_Props
  imports Hook_Model
begin

text \<open>
  The count of a hook object is its list entry plus the calls in flight, so no object is used after it has
  been deleted and none is left over; and a chain of calls comes back with every reference given back.
\<close>

section \<open>The invariant\<close>

definition kinds :: "int set" where "kinds = {WH_MINHOOK..<WH_MAXHOOK}"

definition listed :: "nat \<Rightarrow> hook_mgr \<Rightarrow> bool" where
  "listed p st \<longleftrightarrow> (\<exists>i\<in>kinds. p \<in> set (s_hooks st i))"

lemma listed_objs [simp]: "listed p (st\<lparr>hook_objs := D\<rparr>) = listed p st"
  by (simp add: listed_def)

definition lists_ok :: "hook_mgr \<Rightarrow> bool" where
  "lists_ok st \<longleftrightarrow> (\<forall>i\<in>kinds. distinct (s_hooks st i) \<and> (\<forall>p\<in>set (s_hooks st i). \<exists>h. hook_objs st p = Some h \<and> hk_id h = i))"

lemma lists_okD: "lists_ok st \<Longrightarrow> i \<in> kinds \<Longrightarrow> p \<in> set (s_hooks st i) \<Longrightarrow> \<exists>h. hook_objs st p = Some h \<and> hk_id h = i"
  by (simp add: lists_ok_def)

definition counted :: "nat \<Rightarrow> hook \<Rightarrow> hook_mgr \<Rightarrow> nat multiset \<Rightarrow> bool" where
  "counted p h st M \<longleftrightarrow> hk_refs h = of_bool (listed p st) + int (count M p) \<and> 0 < hk_refs h \<and> hk_id h \<in> kinds \<and> hk_proc h \<noteq> 0"

definition hook_inv :: "hook_mgr \<Rightarrow> nat multiset \<Rightarrow> bool" where
  "hook_inv st M \<longleftrightarrow> hook_objs st 0 = None \<and> lists_ok st
     \<and> (\<forall>p h. hook_objs st p = Some h \<longrightarrow> counted p h st M) \<and> (\<forall>p. hook_objs st p = None \<longrightarrow> \<not> listed p st \<and> p \<notin># M)"

lemma inv_obj: "hook_inv st M \<Longrightarrow> hook_objs st p = Some h \<Longrightarrow> counted p h st M"
  unfolding hook_inv_def by blast

lemma inv_none: "hook_inv st M \<Longrightarrow> hook_objs st p = None \<Longrightarrow> \<not> listed p st \<and> p \<notin># M"
  unfolding hook_inv_def by blast

lemma inv_flight: "hook_inv st M \<Longrightarrow> p \<in># M \<Longrightarrow> \<exists>h. hook_objs st p = Some h"
  using inv_none by (cases "hook_objs st p") blast+

lemma inv_listed: "hook_inv st M \<Longrightarrow> listed p st \<Longrightarrow> \<exists>h. hook_objs st p = Some h"
  using inv_none by (cases "hook_objs st p") blast+

lemma inv_null: "hook_inv st M \<Longrightarrow> hook_objs st p = Some h \<Longrightarrow> p \<noteq> 0"
  unfolding hook_inv_def by (metis option.distinct(1))

lemma listed_error [simp]: "listed p (set_error e st) = listed p st"
  by (simp add: listed_def set_error_def)

lemma hook_inv_error [simp]: "hook_inv (set_error e st) M = hook_inv st M"
  by (simp add: hook_inv_def lists_ok_def counted_def set_error_def listed_def cong: conj_cong)

text \<open>A change of one object and of the calls in flight of its hook.\<close>

lemma hook_inv_update:
  assumes inv: "hook_inv st M" and other: "\<And>q. q \<noteq> p \<Longrightarrow> count M' q = count M q"
    and old: "hook_objs st p = Some h"
    and new: "obj = None \<Longrightarrow> \<not> listed p st \<and> count M' p = 0"
      "\<And>h'. obj = Some h' \<Longrightarrow> hk_id h' = hk_id h \<and> hk_proc h' = hk_proc h \<and> hk_refs h' = of_bool (listed p st) + int (count M' p) \<and> 0 < hk_refs h'"
  shows "hook_inv (st\<lparr>hook_objs := (hook_objs st)(p := obj)\<rparr>) M'"
proof -
  let ?st = "st\<lparr>hook_objs := (hook_objs st)(p := obj)\<rparr>"
  have l: "listed q ?st = listed q st" for q by (simp add: listed_def)
  have "lists_ok ?st" unfolding lists_ok_def
  proof (intro ballI conjI)
    fix i assume i: "i \<in> kinds"
    show "distinct (s_hooks ?st i)" using inv i by (simp add: hook_inv_def lists_ok_def)
    fix q assume q: "q \<in> set (s_hooks ?st i)"
    then have lq: "listed q st" using i unfolding listed_def by auto
    have "lists_ok st" using inv by (simp add: hook_inv_def)
    then obtain g where g: "hook_objs st q = Some g" "hk_id g = i" using i q unfolding lists_ok_def by auto
    show "\<exists>h. hook_objs ?st q = Some h \<and> hk_id h = i"
    proof (cases "q = p")
      case True
      then obtain h' where "obj = Some h'" using new(1) lq by (cases obj) auto
      then show ?thesis using True new(2) g old by simp
    qed (use g in simp)
  qed
  moreover have "counted q h' ?st M'" if "hook_objs ?st q = Some h'" for q h'
  proof (cases "q = p")
    case True
    then show ?thesis using that inv_obj [OF inv old] new(2) [of h'] by (simp add: counted_def l)
  next
    case False
    then show ?thesis using that inv_obj [OF inv, of q h'] other by (simp add: counted_def l)
  qed
  moreover have "\<not> listed q ?st \<and> q \<notin># M'" if "hook_objs ?st q = None" for q
  proof (cases "q = p")
    case True
    then show ?thesis using that new(1) by (simp add: l not_in_iff)
  next
    case False
    then show ?thesis using that inv_none [OF inv, of q] other by (simp add: l not_in_iff)
  qed
  moreover have "hook_objs ?st 0 = None" using inv inv_null [OF inv old] by (simp add: hook_inv_def)
  ultimately show ?thesis by (simp add: hook_inv_def)
qed

text \<open>What taking and giving back a reference leaves of the listed hooks.\<close>

definition hook_sig :: "hook_mgr \<Rightarrow> nat \<Rightarrow> hook option" where
  "hook_sig st p = map_option (hk_refs_update (\<lambda>_. 0)) (hook_objs st p)"

definition same_hooks :: "hook_mgr \<Rightarrow> hook_mgr \<Rightarrow> bool" where
  "same_hooks st st' \<longleftrightarrow> s_hooks st' = s_hooks st \<and> (\<forall>p. listed p st \<longrightarrow> hook_sig st' p = hook_sig st p)"

lemma same_hooks_refl: "same_hooks st st"
  by (simp add: same_hooks_def)

lemma same_hooks_listed: "same_hooks st st' \<Longrightarrow> listed p st' = listed p st"
  by (simp add: same_hooks_def listed_def)

lemma same_hooks_trans: "same_hooks st st1 \<Longrightarrow> same_hooks st1 st2 \<Longrightarrow> same_hooks st st2"
  using same_hooks_listed [of st st1] by (simp add: same_hooks_def)

lemma hook_sigD: "hk_refs_update (\<lambda>_. 0) h = hk_refs_update (\<lambda>_. 0) h' \<Longrightarrow> hk_proc h = hk_proc h' \<and> hk_tid h = hk_tid h'"
  by (cases h; cases h') simp

lemma hook_acquire_inv:
  assumes "hook_inv st M" "hook_objs st p = Some h"
  obtains st' where "hook_acquire p st = Some st'" "hook_inv st' (add_mset p M)" "s_hooks st' = s_hooks st" "same_hooks st st'"
proof -
  have "hook_inv (st\<lparr>hook_objs := (hook_objs st)(p := Some (h\<lparr>hk_refs := hk_refs h + 1\<rparr>))\<rparr>) (add_mset p M)"
    by (rule hook_inv_update [OF assms(1) _ assms(2)]) (use inv_obj [OF assms] in \<open>auto simp: counted_def\<close>)
  moreover have "same_hooks st (st\<lparr>hook_objs := (hook_objs st)(p := Some (h\<lparr>hk_refs := hk_refs h + 1\<rparr>))\<rparr>)"
    using assms(2) by (auto simp: same_hooks_def hook_sig_def)
  ultimately show ?thesis using that assms(2) by (simp add: hook_acquire_def)
qed

lemma hook_release_inv:
  assumes "hook_inv st M" "p \<in># M"
  obtains st' where "hook_release p st = Some st'" "hook_inv st' (M - {#p#})" "s_hooks st' = s_hooks st" "same_hooks st st'"
proof -
  obtain h where h: "hook_objs st p = Some h" using inv_flight [OF assms] by blast
  let ?o = "if hk_refs h - 1 = 0 then None else Some (h\<lparr>hk_refs := hk_refs h - 1\<rparr>)"
  obtain n where c: "count M p = Suc n" using assms(2) by (metis Suc_pred' count_greater_zero_iff)
  have r: "hk_refs h = of_bool (listed p st) + int (count M p)" using inv_obj [OF assms(1) h] by (simp add: counted_def)
  have "hook_inv (st\<lparr>hook_objs := (hook_objs st)(p := ?o)\<rparr>) (M - {#p#})"
    by (rule hook_inv_update [OF assms(1) _ h]) (use r c in \<open>auto split: if_splits\<close>, (cases "listed p st"; simp)+)
  moreover have "same_hooks st (st\<lparr>hook_objs := (hook_objs st)(p := ?o)\<rparr>)"
    using h r c by (auto simp: same_hooks_def hook_sig_def)
  ultimately show ?thesis using that h by (simp add: hook_release_def Let_def)
qed

text \<open>A new hook at the head of its list.\<close>

lemma set_windows_hook_inv:
  assumes inv: "hook_inv st M" and p: "p \<noteq> 0" "hook_objs st p = None" and run: "set_windows_hook kind proc inst modname tid unicode p st = (r, st')"
  shows "hook_inv st' M"
proof (cases "s_hooks st' = s_hooks st")
  case True
  then have "st' = set_error 87 st" using run by (auto simp: set_windows_hook_def fun_eq_iff split: if_splits)
  then show ?thesis using inv by simp
next
  case False
  have ok: "proc \<noteq> 0" "kind \<in> kinds" "\<not> (inst \<noteq> 0 \<and> modname = None)"
    using run False by (auto simp: set_windows_hook_def kinds_def set_error_def split: if_splits)
  define h where "h = \<lparr>hk_id = kind, hk_proc = proc, hk_handle = inst, hk_tid = tid, hk_unicode = unicode,
      hk_module = (if inst \<noteq> 0 then the modname else []), hk_refs = 1\<rparr>"
  have h: "hk_id h = kind" "hk_refs h = 1" "hk_proc h \<noteq> 0" and kind: "kind \<in> kinds" using ok by (simp_all add: h_def)
  have st': "s_hooks st' = (s_hooks st)(kind := p # s_hooks st kind)" "hook_objs st' = (hook_objs st)(p \<mapsto> h)"
    using run ok by (auto simp: set_windows_hook_def h_def kinds_def)
  have new: "\<not> listed p st" "p \<notin># M" using inv_none [OF inv p(2)] by auto
  have l: "listed q st' \<longleftrightarrow> q = p \<or> listed q st" for q using kind by (auto simp: st'(1) listed_def)
  have "lists_ok st" using inv by (simp add: hook_inv_def)
  then have "lists_ok st'" using new(1) kind h(1) by (auto simp: lists_ok_def listed_def st')
  moreover have "counted q g st' M" if "hook_objs st' q = Some g" for q g
  proof (cases "q = p")
    case True
    then show ?thesis using that h kind new(2) by (simp add: counted_def l st'(2) not_in_iff)
  next
    case False
    then show ?thesis using that inv_obj [OF inv, of q g] by (simp add: counted_def l st'(2))
  qed
  moreover have "\<not> listed q st' \<and> q \<notin># M" if "hook_objs st' q = None" for q
  proof -
    have "q \<noteq> p" using that by (auto simp: st'(2))
    then show ?thesis using that inv_none [OF inv, of q] by (simp add: l st'(2))
  qed
  moreover have "hook_objs st' 0 = None" using inv p(1) by (simp add: hook_inv_def st'(2))
  ultimately show ?thesis by (simp add: hook_inv_def)
qed

text \<open>Taking a hook out of its list leaves its list entry as a reference in flight, which is then released.\<close>

lemma unlist_inv:
  assumes inv: "hook_inv st M" and i: "i \<in> kinds" "p \<in> set (s_hooks st i)"
  shows "hook_inv (st\<lparr>s_hooks := (s_hooks st)(i := remove1 p (s_hooks st i))\<rparr>) (add_mset p M)"
    "\<not> listed p (st\<lparr>s_hooks := (s_hooks st)(i := remove1 p (s_hooks st i))\<rparr>)"
proof -
  let ?st = "st\<lparr>s_hooks := (s_hooks st)(i := remove1 p (s_hooks st i))\<rparr>"
  have lo: "lists_ok st" using inv by (simp add: hook_inv_def)
  have only: "j = i" if j: "j \<in> kinds" "p \<in> set (s_hooks st j)" for j
  proof -
    obtain g where "hook_objs st p = Some g" "hk_id g = i" using lists_okD [OF lo i] by auto
    moreover obtain g' where "hook_objs st p = Some g'" "hk_id g' = j" using lists_okD [OF lo j] by auto
    ultimately show ?thesis by simp
  qed
  have d: "set (remove1 p (s_hooks st i)) = set (s_hooks st i) - {p}" using lo i by (simp add: lists_ok_def set_remove1_eq)
  have lp: "listed p st" using i by (auto simp: listed_def)
  have "p \<notin> set (s_hooks ?st j)" if "j \<in> kinds" for j using only [OF that] d by (cases "j = i") auto
  then have np: "\<not> listed p ?st" by (simp add: listed_def)
  have "(q \<in> set (s_hooks ?st j)) = (q \<in> set (s_hooks st j))" if "q \<noteq> p" for q j using d that by simp
  then have lq: "listed q ?st = listed q st" if "q \<noteq> p" for q using that unfolding listed_def by blast
  have "lists_ok ?st" unfolding lists_ok_def
  proof (intro ballI conjI)
    fix j assume j: "j \<in> kinds"
    show "distinct (s_hooks ?st j)" using lo j by (auto simp: lists_ok_def intro: distinct_remove1)
    fix q assume "q \<in> set (s_hooks ?st j)"
    then have "q \<in> set (s_hooks st j)" using d by (simp split: if_splits)
    then have "\<exists>h. hook_objs st q = Some h \<and> hk_id h = j" using lists_okD [OF lo j] by blast
    then show "\<exists>h. hook_objs ?st q = Some h \<and> hk_id h = j" by simp
  qed
  moreover have "counted q g ?st (add_mset p M)" if "hook_objs ?st q = Some g" for q g
  proof (cases "q = p")
    case True
    then show ?thesis using that inv_obj [OF inv, of q g] np lp by (simp add: counted_def)
  next
    case False
    then show ?thesis using that inv_obj [OF inv, of q g] by (simp add: counted_def lq)
  qed
  moreover have "\<not> listed q ?st \<and> q \<notin># add_mset p M" if "hook_objs ?st q = None" for q
  proof -
    have "q \<noteq> p" using that inv_listed [OF inv lp] by auto
    then show ?thesis using that inv_none [OF inv, of q] by (simp add: lq)
  qed
  moreover have "hook_objs ?st 0 = None" using inv by (simp add: hook_inv_def)
  ultimately show "hook_inv ?st (add_mset p M)" by (simp add: hook_inv_def)
  show "\<not> listed p ?st" by (rule np)
qed

lemma unhook_from_inv:
  assumes "hook_inv st M" "WH_MINHOOK \<le> i"
  shows "\<exists>b st'. unhook_from i h st = Some (b, st') \<and> hook_inv st' M
    \<and> (b \<longleftrightarrow> (\<exists>j\<in>kinds. i \<le> j \<and> h \<in> set (s_hooks st j))) \<and> (if b then \<not> listed h st' else st' = st)"
  using assms
proof (induction i h st rule: unhook_from.induct)
  case (1 i h st)
  show ?case
  proof (cases "i \<ge> WH_MAXHOOK")
    case True
    then show ?thesis using "1.prems" by (auto simp: unhook_from.simps [of i h st] kinds_def)
  next
    case False
    then have i: "i \<in> kinds" using "1.prems" by (simp add: kinds_def)
    show ?thesis
    proof (cases "h \<in> set (s_hooks st i)")
      case True
      note u = unlist_inv [OF "1.prems"(1) i True]
      obtain st' where st': "hook_release h (st\<lparr>s_hooks := (s_hooks st)(i := remove1 h (s_hooks st i))\<rparr>) = Some st'"
          "hook_inv st' (add_mset h M - {#h#})" "s_hooks st' = s_hooks (st\<lparr>s_hooks := (s_hooks st)(i := remove1 h (s_hooks st i))\<rparr>)"
        by (rule hook_release_inv [OF u(1)]) auto
      then have "\<not> listed h st'" using u(2) by (simp add: listed_def)
      then show ?thesis using st' False True i by (intro exI [of _ True]) (auto simp: unhook_from.simps [of i h st])
    next
      case no: False
      obtain b st' where r: "unhook_from (i + 1) h st = Some (b, st')" "hook_inv st' M"
          "b \<longleftrightarrow> (\<exists>j\<in>kinds. i + 1 \<le> j \<and> h \<in> set (s_hooks st j))" "if b then \<not> listed h st' else st' = st"
        using "1.IH" [OF False no "1.prems"(1)] "1.prems"(2) by auto
      have "i + 1 \<le> j" if "i \<le> j" "h \<in> set (s_hooks st j)" for j using that no by (cases "j = i") auto
      then have "b \<longleftrightarrow> (\<exists>j\<in>kinds. i \<le> j \<and> h \<in> set (s_hooks st j))" using r(3) by (meson add_le_same_cancel1 order_trans zle_add1_eq_le zless_add1_eq)
      moreover have "unhook_from i h st = Some (b, st')" using r(1) False no by (simp add: unhook_from.simps [of i h st])
      ultimately show ?thesis using r(2,4) by blast
    qed
  qed
qed

lemma unhook_inv:
  assumes "hook_inv st M"
  shows "\<exists>b st'. unhook h st = Some (b, st') \<and> hook_inv st' M \<and> b = listed h st \<and> \<not> listed h st'"
proof (cases "h = 0")
  case True
  have "\<not> listed 0 st" using inv_none [OF assms, of 0] assms by (simp add: hook_inv_def)
  then show ?thesis using True assms by (intro exI [of _ False]) (simp add: unhook_def)
next
  case False
  obtain b st' where r: "unhook_from WH_MINHOOK h st = Some (b, st')" "hook_inv st' M"
      "b \<longleftrightarrow> (\<exists>j\<in>kinds. WH_MINHOOK \<le> j \<and> h \<in> set (s_hooks st j))" "if b then \<not> listed h st' else st' = st"
    using unhook_from_inv [OF assms order.refl] by blast
  have "b = listed h st" using r(3) by (auto simp: listed_def kinds_def)
  then show ?thesis using r(1,2,4) False by (cases b) (auto simp: unhook_def)
qed

text \<open>The two calls that take a reference.\<close>

lemma get_first_hook_inv:
  assumes "hook_inv st M"
  shows "\<exists>r st'. get_first_hook kind st = Some (r, st') \<and> hook_inv st' (if r = 0 then M else add_mset r M) \<and> same_hooks st st'
    \<and> (if r = 0 then kind \<notin> kinds \<or> s_hooks st kind = [] else kind \<in> kinds \<and> s_hooks st kind = r # tl (s_hooks st kind))"
proof (cases "kind \<in> kinds \<and> s_hooks st kind \<noteq> []")
  case True
  then obtain h hs where hs: "s_hooks st kind = h # hs" by (cases "s_hooks st kind") auto
  then have "listed h st" using True unfolding listed_def by (intro bexI [of _ kind]) auto
  then obtain o1 where o1: "hook_objs st h = Some o1" using inv_listed [OF assms] by blast
  obtain st' where "hook_acquire h st = Some st'" "hook_inv st' (add_mset h M)" "same_hooks st st'" by (rule hook_acquire_inv [OF assms o1])
  then show ?thesis using True hs inv_null [OF assms o1] by (auto simp: get_first_hook_def kinds_def)
next
  case False
  then have "get_first_hook kind st = Some (0, st)" by (auto simp: get_first_hook_def kinds_def split: list.splits)
  then show ?thesis using assms False same_hooks_refl by auto
qed

lemma after_in_member: "after_in h xs \<noteq> 0 \<Longrightarrow> after_in h xs \<in> set xs"
proof (induction xs)
  case (Cons x xs)
  then show ?case by (cases "x = h"; cases xs) simp_all
qed simp

lemma get_next_hook_inv:
  assumes inv: "hook_inv st M" and h: "h \<in># M"
  shows "\<exists>r st' o1. get_next_hook h st = Some (r, st') \<and> hook_objs st h = Some o1 \<and> hook_inv st' (if r = 0 then M else add_mset r M)
    \<and> same_hooks st st' \<and> r = after_in h (s_hooks st (hk_id o1))"
proof -
  obtain o1 where o1: "hook_objs st h = Some o1" using inv_flight [OF inv h] by blast
  have k: "hk_id o1 \<in> kinds" "h \<noteq> 0" using inv_obj [OF inv o1] inv_null [OF inv o1] by (simp_all add: counted_def)
  show ?thesis
  proof (cases "after_in h (s_hooks st (hk_id o1)) = 0")
    case True
    then have "get_next_hook h st = Some (0, st)" using o1 k by (simp add: get_next_hook_def)
    then show ?thesis using inv o1 True same_hooks_refl by auto
  next
    case False
    let ?r = "after_in h (s_hooks st (hk_id o1))"
    have "listed ?r st" using after_in_member [OF False] k(1) by (auto simp: listed_def)
    then obtain o2 where o2: "hook_objs st ?r = Some o2" using inv_listed [OF inv] by blast
    obtain st' where "hook_acquire ?r st = Some st'" "hook_inv st' (add_mset ?r M)" "s_hooks st' = s_hooks st" "same_hooks st st'" by (rule hook_acquire_inv [OF inv o2])
    then show ?thesis using o1 k False by (auto simp: get_next_hook_def kinds_def Let_def)
  qed
qed

section \<open>A chain of calls\<close>

definition passed_over :: "(nat \<Rightarrow> bool) \<Rightarrow> nat \<Rightarrow> hook_mgr \<Rightarrow> nat \<Rightarrow> bool" where
  "passed_over connected tid st h =
     (case hook_objs st h of None \<Rightarrow> False | Some o1 \<Rightarrow> hk_proc o1 \<noteq> 0 \<and> hk_tid o1 \<noteq> tid \<and> \<not> connected (hk_tid o1))"

lemma passed_over_same:
  assumes "same_hooks st st'" "listed h st"
  shows "passed_over connected tid st' h = passed_over connected tid st h"
proof -
  have "hook_sig st' h = hook_sig st h" using assms by (simp add: same_hooks_def)
  then show ?thesis by (cases "hook_objs st h"; cases "hook_objs st' h") (auto simp: hook_sig_def passed_over_def hook.defs dest!: hook_sigD)
qed

lemma after_in_middle: "h \<notin> set pre \<Longrightarrow> after_in h (pre @ h # post) = (case post of [] \<Rightarrow> 0 | g # _ \<Rightarrow> g)"
  by (induction pre) auto

text \<open>A procedure that comes back leaves the references as it found them.\<close>

definition hook_contract :: "(nat \<Rightarrow> hook_mgr \<Rightarrow> (int \<times> hook_mgr) option) \<Rightarrow> bool" where
  "hook_contract run \<longleftrightarrow> (\<forall>h st M. hook_inv st M \<and> h \<in># M \<longrightarrow> (\<exists>ret st'. run h st = Some (ret, st') \<and> hook_inv st' M))"

lemma call_hook_null [simp]: "call_hook run connected tid 0 st = Some (0, st)"
  by (simp add: call_hook.simps)

text \<open>The first hook of a chain that is not passed over is the one whose procedure answers.\<close>

definition answered :: "(nat \<Rightarrow> hook_mgr \<Rightarrow> (int \<times> hook_mgr) option) \<Rightarrow> hook_mgr \<Rightarrow> nat list \<Rightarrow> int \<Rightarrow> bool" where
  "answered run st hs ret =
     (case hs of [] \<Rightarrow> ret = 0 | g # _ \<Rightarrow> \<exists>st1 st2. same_hooks st st1 \<and> run g st1 = Some (ret, st2))"

lemma answered_same: "same_hooks st0 st \<Longrightarrow> answered run st hs ret \<Longrightarrow> answered run st0 hs ret"
  unfolding answered_def by (cases hs) (auto intro: same_hooks_trans)

lemma call_hook_runs_here:
  assumes run: "hook_contract run" and inv: "hook_inv st (add_mset h M)" and h: "\<not> passed_over connected tid st h"
  shows "\<exists>ret st'. call_hook run connected tid h st = Some (ret, st') \<and> hook_inv st' M \<and> answered run st (h # hs) ret"
proof -
  obtain o1 where o1: "hook_objs st h = Some o1" using inv_flight [OF inv, of h] by auto
  have ok: "hk_proc o1 \<noteq> 0" "h \<noteq> 0" using inv_obj [OF inv o1] inv_null [OF inv o1] by (simp_all add: counted_def)
  obtain ret st1 where r: "run h st = Some (ret, st1)" "hook_inv st1 (add_mset h M)"
    using run inv unfolding hook_contract_def by (meson union_single_eq_member)
  obtain st2 where st2: "hook_release h st1 = Some st2" "hook_inv st2 (add_mset h M - {#h#})" by (rule hook_release_inv [OF r(2)]) auto
  have "call_hook run connected tid h st = Some (ret, st2)"
    using o1 ok h r(1) st2(1) by (auto simp: call_hook.simps [of run connected tid h] passed_over_def)
  then show ?thesis using st2(2) r(1) same_hooks_refl unfolding answered_def by auto
qed

lemma call_hook_passes:
  assumes inv: "hook_inv st (add_mset h M)" and h: "passed_over connected tid st h" and k: "k \<in> kinds" "s_hooks st k = pre @ h # post"
  obtains st2 where "hook_inv st2 (if post = [] then M else add_mset (List.hd post) M)" "same_hooks st st2"
    "call_hook run connected tid h st = call_hook run connected tid (if post = [] then 0 else List.hd post) st2"
    "post = [] \<or> List.hd post \<noteq> 0"
proof -
  have lo: "lists_ok st" using inv by (simp add: hook_inv_def)
  have "h \<in> set (s_hooks st k)" using k(2) by simp
  then obtain o1 where o1: "hook_objs st h = Some o1" "hk_id o1 = k" using lists_okD [OF lo k(1)] by blast
  have nz: "g \<noteq> 0" if g: "g \<in> set (s_hooks st k)" for g
    using lists_okD [OF lo k(1) g] inv_null [OF inv] by auto
  have "distinct (s_hooks st k)" using lo k(1) by (simp add: lists_ok_def)
  then have a: "after_in h (s_hooks st k) = (if post = [] then 0 else List.hd post)"
    using k(2) by (cases post) (simp_all add: after_in_middle)
  obtain r st1 where r: "get_next_hook h st = Some (r, st1)" "hook_inv st1 (if r = 0 then add_mset h M else add_mset r (add_mset h M))"
      "same_hooks st st1" "r = after_in h (s_hooks st k)"
    using get_next_hook_inv [OF inv, of h] o1 by auto
  have "h \<in># (if r = 0 then add_mset h M else add_mset r (add_mset h M))" by simp
  from hook_release_inv [OF r(2) this] obtain st2 where st2: "hook_release h st1 = Some st2" "same_hooks st1 st2"
      "hook_inv st2 ((if r = 0 then add_mset h M else add_mset r (add_mset h M)) - {#h#})" by blast
  have pz: "post \<noteq> [] \<Longrightarrow> List.hd post \<noteq> 0" using nz [of "List.hd post"] k(2) by simp
  have "hook_inv st2 (if post = [] then M else add_mset (List.hd post) M)"
    using st2(3) a r(4) pz by (auto simp: add_mset_commute split: if_splits)
  moreover have "call_hook run connected tid h st = call_hook run connected tid r st2"
    using o1 h r(1) st2(1) nz [of h] k(2) by (simp add: call_hook.simps [of run connected tid h] passed_over_def)
  ultimately show ?thesis using that same_hooks_trans [OF r(3) st2(2)] a r(4) pz by auto
qed

lemma call_hook_chain:
  assumes run: "hook_contract run" and k: "k \<in> kinds"
  shows "hook_inv st (add_mset h M) \<Longrightarrow> s_hooks st k = pre @ h # post \<Longrightarrow>
    \<exists>ret st'. call_hook run connected tid h st = Some (ret, st') \<and> hook_inv st' M
      \<and> answered run st (dropWhile (passed_over connected tid st) (h # post)) ret"
proof (induction post arbitrary: h pre st)
  case Nil
  show ?case
  proof (cases "passed_over connected tid st h")
    case True
    obtain st2 where "hook_inv st2 M" "call_hook run connected tid h st = call_hook run connected tid 0 st2"
      by (rule call_hook_passes [OF Nil.prems(1) True k Nil.prems(2)]) auto
    then show ?thesis using True by (simp add: answered_def)
  next
    case False
    then show ?thesis using call_hook_runs_here [OF run Nil.prems(1) False] by simp
  qed
next
  case (Cons g post)
  show ?case
  proof (cases "passed_over connected tid st h")
    case True
    obtain st2 where st2: "hook_inv st2 (add_mset g M)" "same_hooks st st2" "call_hook run connected tid h st = call_hook run connected tid g st2"
      by (rule call_hook_passes [OF Cons.prems(1) True k Cons.prems(2)]) auto
    have s2: "s_hooks st2 k = (pre @ [h]) @ g # post" using st2(2) Cons.prems(2) by (simp add: same_hooks_def)
    have "listed x st" if "x \<in> set (g # post)" for x using that Cons.prems(2) k unfolding listed_def by (intro bexI [of _ k]) auto
    then have "dropWhile (passed_over connected tid st2) (g # post) = dropWhile (passed_over connected tid st) (g # post)"
      using passed_over_same [OF st2(2)] by (intro dropWhile_cong) auto
    then show ?thesis using Cons.IH [OF st2(1) s2] st2(3) True answered_same [OF st2(2)] by auto
  next
    case False
    then show ?thesis using call_hook_runs_here [OF run Cons.prems(1) False] by simp
  qed
qed

section \<open>Threads\<close>

lemma hook_step_inv: "hook_step c c' \<Longrightarrow> hook_inv (fst c) (snd c) \<Longrightarrow> hook_inv (fst c') (snd c')"
proof (induction rule: hook_step.induct)
  case (set_hook p st kind proc inst modname tid unicode r st' M)
  then show ?case using set_windows_hook_inv by simp
next
  case (unhook h st b st' M)
  then show ?case using unhook_inv [of st M h] by auto
next
  case (first kind st r st' M)
  then show ?case using get_first_hook_inv [of st M kind] by auto
next
  case (next_call h M st r st')
  then show ?case using get_next_hook_inv [of st M h] by auto
next
  case (return h M st st')
  then show ?case using hook_release_inv [of st M h] by (metis fst_conv option.inject snd_conv)
qed

interpretation hooks: kept hook_step "\<lambda>c. hook_inv (fst c) (snd c)"
  by unfold_locales (auto dest: hook_step_inv)

definition no_hooks :: hook_mgr where
  "no_hooks = \<lparr>s_hooks = \<lambda>_. [], hook_objs = \<lambda>_. None, last_error = 0\<rparr>"

lemma no_hooks_inv: "hook_inv no_hooks {#}"
  by (simp add: hook_inv_def lists_ok_def listed_def no_hooks_def)

text \<open>C9: whatever hooks threads set, remove and call, in whatever order, no hook object is used after it was deleted and none
  is left behind: every call in flight still has its object, releasing, going on from it and removing any handle, stale
  ones too, never touch a deleted object, and an object that is neither in a list nor in flight does not exist.\<close>

theorem hooks_no_use_after_free:
  assumes "hook_step\<^sup>*\<^sup>* (no_hooks, {#}) (st, M)"
  shows "(\<forall>h\<in>#M. hook_release h st \<noteq> None \<and> get_next_hook h st \<noteq> None \<and> hook_acquire h st \<noteq> None)
    \<and> (\<exists>st'. UnhookWindowsHookEx g st = Some (listed g st, st') \<and> \<not> listed g st') \<and> get_first_hook kind st \<noteq> None
    \<and> (hook_objs st p \<noteq> None \<longleftrightarrow> listed p st \<or> p \<in># M)"
proof -
  have inv: "hook_inv st M" using hooks.run_keeps [OF assms] no_hooks_inv by simp
  have "hook_release h st \<noteq> None \<and> get_next_hook h st \<noteq> None \<and> hook_acquire h st \<noteq> None" if h: "h \<in># M" for h
  proof -
    obtain st1 where "hook_release h st = Some st1" by (rule hook_release_inv [OF inv h])
    moreover obtain r st2 where "get_next_hook h st = Some (r, st2)" using get_next_hook_inv [OF inv h] by blast
    moreover obtain o1 where "hook_objs st h = Some o1" using inv_flight [OF inv h] by blast
    ultimately show ?thesis by (simp add: hook_acquire_def)
  qed
  moreover have "hook_objs st p \<noteq> None \<longleftrightarrow> listed p st \<or> p \<in># M"
    using inv_none [OF inv, of p] inv_obj [OF inv, of p] by (cases "hook_objs st p"; cases "listed p st") (auto simp: counted_def not_in_iff)
  moreover have "\<exists>st'. UnhookWindowsHookEx g st = Some (listed g st, st') \<and> \<not> listed g st'"
    using unhook_inv [OF inv, of g] unfolding UnhookWindowsHookEx_def by blast
  moreover have "get_first_hook kind st \<noteq> None" using get_first_hook_inv [OF inv, of kind] by fastforce
  ultimately show ?thesis by blast
qed

text \<open>The witness sets a hook and starts its chain.\<close>

definition one_hook :: hook_mgr where
  "one_hook = snd (SetWindowsHookExW 3 77 0 None 5 16 no_hooks)"

lemma one_hook_reached: "hook_step\<^sup>*\<^sup>* (no_hooks, {#}) (one_hook, {#})"
proof -
  have "hook_step (no_hooks, {#}) (one_hook, {#})" unfolding one_hook_def SetWindowsHookExW_def
    by (rule hook_step.set_hook [where p = 16 and r = "fst (set_windows_hook 3 77 0 None 5 True 16 no_hooks)"]) (simp_all add: no_hooks_def)
  then show ?thesis by blast
qed

theorem hooks_no_use_after_free_witness:
  "\<exists>st. hook_step\<^sup>*\<^sup>* (no_hooks, {#}) (st, {#16#}) \<and> hook_release 16 st \<noteq> None \<and> listed 16 st"
proof -
  obtain st1 where st1: "get_first_hook 3 one_hook = Some (16, st1)" "listed 16 st1"
    by (simp add: one_hook_def SetWindowsHookExW_def set_windows_hook_def no_hooks_def get_first_hook_def hook_acquire_def WH_MINHOOK_def WH_MAXHOOK_def
        listed_def kinds_def)
  have "hook_step (one_hook, {#}) (st1, {#16#})" using hook_step.first [OF st1(1), of "{#}"] by simp
  then have "hook_step\<^sup>*\<^sup>* (no_hooks, {#}) (st1, {#16#})" using one_hook_reached by (rule rtranclp.rtrancl_into_rtrancl [rotated])
  moreover from hooks_no_use_after_free [OF this, of 16 3 16] have "hook_release 16 st1 \<noteq> None" by simp
  ultimately show ?thesis using st1(2) by blast
qed

text \<open>C28: the first hook of a kind whose thread is alive answers: a call of the kind's chain comes back, whatever threads have died,
  with the low 32 bits of the value of that hook's procedure (0 when no hook is left), and gives back every reference it took.\<close>

theorem CallHook_returns:
  assumes "hook_step\<^sup>*\<^sup>* (no_hooks, {#}) (st, M)" and run: "hook_contract run" and k: "WH_MINHOOK \<le> kind" "kind < WH_MAXHOOK"
  shows "\<exists>ret st'. CallHook run connected tid kind st = Some (wrap32 ret, st') \<and> hook_inv st' M
    \<and> answered run st (dropWhile (passed_over connected tid st) (s_hooks st kind)) ret"
proof -
  have inv: "hook_inv st M" using hooks.run_keeps [OF assms(1)] no_hooks_inv by simp
  have kk: "kind \<in> kinds" using k by (simp add: kinds_def)
  obtain h st1 where f: "get_first_hook kind st = Some (h, st1)" "hook_inv st1 (if h = 0 then M else add_mset h M)" "same_hooks st st1"
      "if h = 0 then s_hooks st kind = [] else s_hooks st kind = h # tl (s_hooks st kind)"
    using get_first_hook_inv [OF inv, of kind] kk by (auto split: if_splits)
  show ?thesis
  proof (cases "h = 0")
    case True
    then show ?thesis using f by (simp add: CallHook_def answered_def)
  next
    case False
    have s1: "s_hooks st1 kind = [] @ h # tl (s_hooks st kind)" using f(3,4) False by (simp add: same_hooks_def)
    have "listed x st" if "x \<in> set (s_hooks st kind)" for x using that kk unfolding listed_def by (intro bexI [of _ kind]) auto
    then have "dropWhile (passed_over connected tid st1) (s_hooks st kind) = dropWhile (passed_over connected tid st) (s_hooks st kind)"
      using passed_over_same [OF f(3)] by (intro dropWhile_cong) auto
    then show ?thesis using call_hook_chain [OF run kk _ s1, of M connected tid] f False answered_same [OF f(3)] by (auto simp: CallHook_def) blast
  qed
qed

text \<open>The hook of the witness answers 42.\<close>

theorem CallHook_returns_witness:
  "\<exists>st'. CallHook (\<lambda>_ st. Some (42, st)) (\<lambda>_. False) 5 3 one_hook = Some (42, st') \<and> hook_inv st' {#}"
proof -
  have "hook_contract (\<lambda>_ st. Some (42, st))" by (simp add: hook_contract_def)
  from CallHook_returns [OF one_hook_reached this, of 3 "\<lambda>_. False" 5]
  obtain ret st' where r: "CallHook (\<lambda>_ st. Some (42, st)) (\<lambda>_. False) 5 3 one_hook = Some (wrap32 ret, st')" "hook_inv st' {#}"
      "answered (\<lambda>_ st. Some (42, st)) one_hook (dropWhile (passed_over (\<lambda>_. False) 5 one_hook) (s_hooks one_hook 3)) ret"
    by (auto simp: WH_MINHOOK_def WH_MAXHOOK_def)
  have "\<not> passed_over (\<lambda>_. False) 5 one_hook 16" "s_hooks one_hook 3 = [16]"
    by (simp_all add: passed_over_def one_hook_def SetWindowsHookExW_def set_windows_hook_def no_hooks_def WH_MINHOOK_def WH_MAXHOOK_def)
  then have "ret = 42" using r(3) by (simp add: answered_def)
  moreover have "wrap32 42 = 42" by (simp add: wrap32_def)
  ultimately show ?thesis using r by metis
qed

end
