(* ===== verification/Muldiv_Props.thy ===== *)
theory Muldiv_Props
  imports Swinx_Prelude
begin

text \<open>
  \<open>MulDiv\<close> (\<^verbatim>\<open>src/platform/posix/sysapi.cpp\<close>): the quotient of a 64-bit product, rounded, or -1. The negations
  wrap at 32 bits and division truncates toward zero, as in C.
\<close>

definition c_div :: "int \<Rightarrow> int \<Rightarrow> int" where
  "c_div x y = sgn x * sgn y * (\<bar>x\<bar> div \<bar>y\<bar>)"

definition MulDiv :: "int \<Rightarrow> int \<Rightarrow> int \<Rightarrow> int" where
  "MulDiv a b c =
     (if c = 0 then -1
      else (let a1 = (if c < 0 then wrap32 (- a) else a); c1 = (if c < 0 then wrap32 (- c) else c);
                ret = (if a1 < 0 \<and> b < 0 \<or> a1 \<ge> 0 \<and> b \<ge> 0 then c_div (a1 * b + c_div c1 2) c1 else c_div (a1 * b - c_div c1 2) c1)
            in if ret > 2147483647 \<or> ret < -2147483647 then -1 else ret))"

text \<open>The exact quotient rounded to the nearest integer, halves away from zero.\<close>

definition nearest :: "int \<Rightarrow> int \<Rightarrow> int" where
  "nearest x c = sgn x * sgn c * ((2 * \<bar>x\<bar> + \<bar>c\<bar>) div (2 * \<bar>c\<bar>))"

lemma half_up: "0 < c \<Longrightarrow> 0 \<le> x \<Longrightarrow> (x + c div 2) div c = (2 * x + c) div (2 * c :: int)"
proof -
  assume c: "0 < c" and x: "0 \<le> x"
  have "(2 * x + c) div (2 * c) = ((2 * x + c) div 2) div c" using c by (simp add: zdiv_zmult2_eq)
  also have "(2 * x + c) div 2 = x + c div 2" by simp
  finally show ?thesis by simp
qed

lemma rounded:
  assumes "0 < c"
  shows "(if 0 \<le> x then c_div (x + c_div c 2) c else c_div (x - c_div c 2) c) = nearest x c"
proof -
  have h: "c_div c 2 = c div 2" "0 \<le> c div 2" using assms by (simp_all add: c_div_def)
  show ?thesis
  proof (cases "0 < x")
    case True
    then show ?thesis using assms h half_up [of c x] by (simp add: c_div_def nearest_def sgn_if)
  next
    case False
    then show ?thesis using assms h half_up [of c "- x"] by (auto simp: c_div_def nearest_def sgn_if)
  qed
qed

text \<open>\<open>MulDiv\<close> gives the nearest integer to the exact quotient, halves away from zero, or -1 when that does not lie strictly
  between -2147483648 and 2147483648; the divisor must not be 0, and neither it nor the first factor the smallest number.\<close>

theorem MulDiv_nearest:
  assumes "in_int32 a" "in_int32 b" "in_int32 c" "c \<noteq> 0" "a \<noteq> -2147483648" "c \<noteq> -2147483648"
  shows "MulDiv a b c = (if \<bar>nearest (a * b) c\<bar> \<le> 2147483647 then nearest (a * b) c else -1)"
proof -
  define a1 c1 where "a1 = (if c < 0 then wrap32 (- a) else a)" and "c1 = (if c < 0 then wrap32 (- c) else c)"
  have e: "a1 = (if c < 0 then - a else a)" "c1 = \<bar>c\<bar>" using assms by (auto simp: a1_def c1_def wrap32_def in_int32_def)
  have c1: "0 < c1" using e(2) assms(4) by simp
  have n: "nearest (a1 * b) c1 = nearest (a * b) c" using assms(4) by (auto simp: nearest_def e sgn_mult abs_mult sgn_if)
  have s: "(a1 < 0 \<and> b < 0 \<or> 0 \<le> a1 \<and> 0 \<le> b) = (0 \<le> a1 * b) \<or> a1 * b = 0" by (auto simp: zero_le_mult_iff)
  have z: "c_div (0 - c_div c1 2) c1 = 0" "c_div (0 + c_div c1 2) c1 = 0" using c1 by (auto simp: c_div_def sgn_if)
  have "(if a1 < 0 \<and> b < 0 \<or> a1 \<ge> 0 \<and> b \<ge> 0 then c_div (a1 * b + c_div c1 2) c1 else c_div (a1 * b - c_div c1 2) c1) = nearest (a * b) c"
    using rounded [OF c1, of "a1 * b"] s z n by (auto split: if_splits)
  then show ?thesis using assms(4) by (simp add: MulDiv_def Let_def flip: a1_def c1_def) (auto simp: abs_if)
qed

theorem MulDiv_nearest_witness: "MulDiv (-7) 5 2 = -18"
  using MulDiv_nearest [of "-7" 5 2] by (simp add: in_int32_def nearest_def)

end
