(* ===== verification/Codepage_Model.thy ===== *)
theory Codepage_Model
  imports Uniconv_Model Codepage_Tables
begin

text \<open>
  Code pages (\<^verbatim>\<open>src/platform/posix/sysapi.cpp\<close>, \<^verbatim>\<open>src/tostring.cpp\<close>): the conversions with the built-in
  tables that replace a missing \<^verbatim>\<open>iconv\<close>, the two conversion calls over them and over UTF-8, and the string
  helpers. The \<^verbatim>\<open>iconv\<close> of the system is a parameter. A source
  and its length are one list; what is written at the destination is the list returned with the result.
  \<open>wchar_t\<close> has 32 bits.
\<close>

section \<open>Constants\<close>

definition CP_ACP :: nat where "CP_ACP = 0"

definition CP_OEMCP :: nat where "CP_OEMCP = 1"

definition CP_UTF8 :: nat where "CP_UTF8 = 65001"

definition kCP936LeadFirst :: int where "kCP936LeadFirst = 0x81"

definition kCP936LeadLast :: int where "kCP936LeadLast = 0xFE"

definition kCP936TrailCount :: int where "kCP936TrailCount = 190"

definition hasBuiltinTable :: "nat \<Rightarrow> bool" where
  "hasBuiltinTable codePage \<longleftrightarrow> codePage = 936 \<or> builtinSingleByteTable codePage \<noteq> None"

section \<open>From bytes\<close>

definition cp936TrailIndex :: "int \<Rightarrow> int" where
  "cp936TrailIndex c =
     (if c \<ge> 0x40 \<and> c \<le> 0x7E then c - 0x40
      else if c \<ge> 0x80 \<and> c \<le> 0xFE then c - 0x80 + 63
      else -1)"

text \<open>The character of a pair of bytes, 0 when there is none.\<close>

definition cp936_pair :: "int \<Rightarrow> int \<Rightarrow> int" where
  "cp936_pair c d =
     (if c \<ge> kCP936LeadFirst \<and> c \<le> kCP936LeadLast \<and> cp936TrailIndex d \<ge> 0
      then kCP936ToUnicode ! nat ((c - kCP936LeadFirst) * kCP936TrailCount + cp936TrailIndex d) else 0)"

text \<open>The loop for code page 936: the characters and the number of bytes it could not convert.\<close>

fun cp936_decode :: "int list \<Rightarrow> int list \<times> nat" where
  "cp936_decode [] = ([], 0)"
| "cp936_decode (c # s) =
     (if c < 0x80 then (let (us, n) = cp936_decode s in (c # us, n))
      else (case s of
              d # s2 \<Rightarrow>
                if cp936_pair c d \<noteq> 0 then (let (us, n) = cp936_decode s2 in (cp936_pair c d # us, n))
                else (let (us, n) = cp936_decode s in (0xFFFD # us, n + 1))
            | [] \<Rightarrow> ([0xFFFD], 1)))"

text \<open>The body of the loop for the other pages, and its result: a character and whether it stands for no byte.\<close>

definition single_decode :: "int list \<Rightarrow> int \<Rightarrow> int \<times> bool" where
  "single_decode table c =
     (if c < 0x80 then (c, False)
      else (let u = table ! nat (c - 0x80) in if u = 0 then (0xFFFD, True) else (u, False)))"

definition builtinToUnicode :: "nat \<Rightarrow> int list \<Rightarrow> int list \<times> nat" where
  "builtinToUnicode codePage input =
     (if codePage = 936 then cp936_decode input
      else (case builtinSingleByteTable codePage of
              None \<Rightarrow> ([], 0)
            | Some table \<Rightarrow> (map (fst \<circ> single_decode table) input, length (filter (snd \<circ> single_decode table) input))))"

section \<open>To bytes\<close>

text \<open>The characters of the table with their index, sorted.\<close>

definition cp936ReverseMap :: "int list" where
  "cp936ReverseMap = sort (map (\<lambda>(u, i). u * 65536 + int i) (filter (\<lambda>(u, i). u \<noteq> 0) (zip (kCP936ToUnicode) [0..<length (kCP936ToUnicode)])))"

definition cp936Encode :: "int \<Rightarrow> int" where
  "cp936Encode ch =
     (if ch < 0x80 then ch
      else (let key = (ch * 65536) mod 4294967296
            in case List.find (\<lambda>e. e \<ge> key) (cp936ReverseMap) of
                 None \<Rightarrow> 0
               | Some e \<Rightarrow> if e div 65536 = ch then e mod 65536 else 0))"

definition cp936_bytes :: "int \<Rightarrow> int list" where
  "cp936_bytes ch =
     (if ch < 0x80 then [to_char ch]
      else (let idx = cp936Encode ch; trail = idx mod kCP936TrailCount
            in if idx = 0 then [63]
               else [to_char (kCP936LeadFirst + idx div kCP936TrailCount), to_char (if trail < 63 then 0x40 + trail else 0x80 + trail - 63)]))"

text \<open>The first byte of a table that stands for a character.\<close>

definition single_byte :: "int list \<Rightarrow> int \<Rightarrow> int" where
  "single_byte table ch =
     (if ch < 0x80 then to_char ch
      else (case List.find (\<lambda>b. table ! b = ch) [0..<128] of None \<Rightarrow> 63 | Some b \<Rightarrow> 0x80 + int b))"

definition builtinToMb :: "nat \<Rightarrow> int list \<Rightarrow> int list" where
  "builtinToMb codePage input =
     (if codePage = 936 then concat (map (cp936_bytes) input)
      else (case builtinSingleByteTable codePage of None \<Rightarrow> [] | Some table \<Rightarrow> map (single_byte table) input))"

text \<open>
  The system: its \<^verbatim>\<open>iconv\<close> for a code page, \<open>None\<close> where it has none; then the built-in tables answer. A
  conversion with \<^verbatim>\<open>iconv\<close> gives what it wrote, nothing when it failed, and the number of bytes left.
\<close>

record cp_system =
  iconv_to_unicode :: "nat \<Rightarrow> (int list \<Rightarrow> int list \<times> nat) option"
  iconv_to_mb :: "nat \<Rightarrow> (int list \<Rightarrow> int list) option"

definition to_unicode :: "cp_system \<Rightarrow> nat \<Rightarrow> int list \<Rightarrow> int list \<times> nat" where
  "to_unicode cs codePage input =
     (if codePage \<notin> {1200, 1201, 936, 1250, 1251, 1252, 1253, 1254, 1255, 1256, 1257, 1258} then ([], 0)
      else (case iconv_to_unicode cs codePage of
              None \<Rightarrow> if hasBuiltinTable codePage then builtinToUnicode codePage input else ([], 0)
            | Some conv \<Rightarrow> conv input))"

definition to_mb :: "cp_system \<Rightarrow> nat \<Rightarrow> int list \<Rightarrow> int list" where
  "to_mb cs codePage input =
     (if codePage \<notin> {1200, 1201, 936, 1250, 1251, 1252, 1253, 1254, 1255, 1256, 1257, 1258} then []
      else (case iconv_to_mb cs codePage of
              None \<Rightarrow> if hasBuiltinTable codePage then builtinToMb codePage input else []
            | Some conv \<Rightarrow> conv input))"

section \<open>The conversion calls\<close>

text \<open>
  \<open>dst\<close> is the length of the destination, \<open>None\<close> a null destination of length 0; the result is the value
  returned and the units written. \<open>None\<close> as a whole is a read past the end of the source.
\<close>

definition with_end :: "nat \<Rightarrow> int list \<Rightarrow> int list" where
  "with_end n us = (if length us < n then us @ [0] else us)"

definition MultiByteToWideChar :: "cp_system \<Rightarrow> nat \<Rightarrow> bool \<Rightarrow> int list \<Rightarrow> nat option \<Rightarrow> (nat \<times> int list) option" where
  "MultiByteToWideChar cs cp strict src dst =
     (let cp1 = (if cp = CP_OEMCP then 936 else cp)
      in if cp1 \<noteq> CP_ACP \<and> cp1 \<noteq> CP_UTF8
         then (let (str, bad) = to_unicode cs cp1 src
               in if bad \<noteq> 0 \<and> strict then Some (0, [])
                  else (case dst of
                          None \<Rightarrow> Some (length str, [])
                        | Some n \<Rightarrow> if n < length str then Some (0, []) else Some (length str, with_end n str)))
         else (let (need, bad) = UTF32Length src
               in if (case bad of None \<Rightarrow> False | Some k \<Rightarrow> k \<noteq> 0) \<and> strict then Some (0, [])
                  else (case dst of
                          None \<Rightarrow> Some (need, [])
                        | Some n \<Rightarrow> if need > n then Some (0, [])
                                    else map_option (\<lambda>us. (length us, with_end n us)) (UTF32FromUTF8 src n))))"

text \<open>\<open>terminated\<close> is the length -1: the source then ends before its terminator, which is counted in the result.\<close>

definition WideCharToMultiByte :: "cp_system \<Rightarrow> nat \<Rightarrow> int list \<Rightarrow> bool \<Rightarrow> nat option \<Rightarrow> nat \<times> int list" where
  "WideCharToMultiByte cs cp src terminated dst =
     (let cp1 = (if cp = CP_OEMCP then CP_UTF8 else cp)
      in if cp1 \<noteq> CP_ACP \<and> cp1 \<noteq> CP_UTF8
         then (let str = to_mb cs cp1 src; n = (case dst of None \<Rightarrow> 0 | Some k \<Rightarrow> k)
               in if str = [] then (0, []) else if length str > n then (0, []) else (length str, with_end n str))
         else (let extra = (if terminated then 1 else 0); need = UTF32toUTF8Length src + extra
               in case dst of
                    None \<Rightarrow> (need, [])
                  | Some n \<Rightarrow> if need > n then (0, [])
                              else (length (UTF8FromUTF32 src) + extra, with_end n (UTF8FromUTF32 src))))"

section \<open>Strings\<close>

text \<open>A \<^verbatim>\<open>std::string\<close> resized to \<open>n\<close> and then written from its start.\<close>

definition filled :: "nat \<Rightarrow> int list \<Rightarrow> int list" where
  "filled n xs = take n (xs @ replicate n 0)"

definition tostring :: "cp_system \<Rightarrow> int list \<Rightarrow> int list" where
  "tostring cs s =
     (let len = fst (WideCharToMultiByte cs CP_UTF8 s False None)
      in filled len (snd (WideCharToMultiByte cs CP_UTF8 s False (Some len))))"

definition towstring :: "cp_system \<Rightarrow> int list \<Rightarrow> int list option" where
  "towstring cs s =
     (case MultiByteToWideChar cs CP_UTF8 False s None of
        None \<Rightarrow> None
      | Some (len, _) \<Rightarrow> map_option (\<lambda>r. filled len (snd r)) (MultiByteToWideChar cs CP_UTF8 False s (Some len)))"

text \<open>The strings of a list that an empty one ends, with their terminators; \<open>None\<close> when it runs past the buffer.\<close>

function filter_length :: "int list \<Rightarrow> nat option" where
  "filter_length p =
     (let seg = takeWhile ((\<noteq>) 0) p
      in if length seg = length p then None
         else if seg = [] then Some 0
         else map_option ((+) (length seg + 1)) (filter_length (drop (length seg + 1) p)))"
  by pat_completeness auto
termination
proof (relation "measure length", goal_cases)
  case (2 p seg)
  then have "length (takeWhile ((\<noteq>) 0) p) \<noteq> length p" by simp
  then have "p \<noteq> []" by auto
  then show ?case by simp
qed simp

declare filter_length.simps [simp del]

definition tostring_filter :: "cp_system \<Rightarrow> int list \<Rightarrow> int list option" where
  "tostring_filter cs p =
     map_option (\<lambda>n. if n > 0 then tostring cs (take n p) else []) (filter_length p)"

end
