(* ===== verification/Profile_Model.thy ===== *)
theory Profile_Model
  imports Codepage_Model "HOL-Library.Monad_Syntax"
begin

text \<open>
  Ini files (\<^verbatim>\<open>src/platform/posix/profile.cpp\<close>): parsing and writing of the text, the tree of sections and keys,
  the cache of open files, and the exported calls. Text is a list of characters of 32 bits without its
  terminator; a null pointer is \<open>None\<close> and a null list of sections the empty list. \<open>None\<close> as a result is
  undefined behaviour: a write through a failed allocation, or an access past the end of a buffer. The lock
  of the file makes each exported call one atomic step.
\<close>

section \<open>State\<close>

type_synonym wstr = "int list"

datatype ENCODING = ENCODING_ANSI | ENCODING_UTF8 | ENCODING_UTF16LE | ENCODING_UTF16BE

record PROFILEKEY =
  pk_name :: wstr
  pk_value :: "wstr option"

record PROFILESECTION =
  ps_name :: wstr
  ps_keys :: "PROFILEKEY list"

record PROFILE =
  changed :: bool
  sections :: "PROFILESECTION list"
  filename :: "wstr option"
  LastWriteTime :: int
  encoding :: ENCODING

definition N_CACHED_PROFILES :: nat where "N_CACHED_PROFILES = 10"

text \<open>The cache, most recent first, empty before the first call; and the files: bytes and time of the last write.\<close>

record profiles =
  MRUProfile :: "PROFILE list"
  files :: "wstr \<Rightarrow> (int list \<times> int) option"

text \<open>
  What is outside: the conversions of code pages, the folding of case of \<^verbatim>\<open>wcscasecmp\<close>, whether a block of some
  size can be allocated, full names of files, which files can be opened (for writing or not) and read, and the contents
  of fresh memory. Opening a file for writing that does not exist creates it.
\<close>

record penv =
  pe_cs :: cp_system
  pe_fold :: "int \<Rightarrow> int"
  pe_mem :: "nat \<Rightarrow> bool"
  pe_full_path :: "wstr \<Rightarrow> wstr"
  pe_open :: "wstr \<Rightarrow> bool \<Rightarrow> bool"
  pe_readable :: "wstr \<Rightarrow> bool"
  pe_fresh :: "nat \<Rightarrow> int list"

definition wcsicmp_eq :: "penv \<Rightarrow> wstr \<Rightarrow> wstr \<Rightarrow> bool" where
  "wcsicmp_eq env a b \<longleftrightarrow> map (pe_fold env) a = map (pe_fold env) b"

definition cstr :: "int list \<Rightarrow> wstr" where
  "cstr = takeWhile ((\<noteq>) 0)"

section \<open>Buffers\<close>

definition put_at :: "nat \<Rightarrow> int list \<Rightarrow> int list \<Rightarrow> int list option" where
  "put_at pos xs b = (if pos + length xs \<le> length b then Some (take pos b @ xs @ drop (pos + length xs) b) else None)"

text \<open>\<^verbatim>\<open>lstrcpynW\<close> is defined as \<^verbatim>\<open>wcsncpy\<close>: it fills up with zeros and does not end a string that is too long.\<close>

definition lstrcpynW :: "nat \<Rightarrow> wstr \<Rightarrow> nat \<Rightarrow> int list \<Rightarrow> int list option" where
  "lstrcpynW pos s n b = put_at pos (take n (s @ replicate n 0)) b"

definition cstr_at :: "nat \<Rightarrow> int list \<Rightarrow> wstr option" where
  "cstr_at pos b = (if 0 \<in> set (drop pos b) then Some (cstr (drop pos b)) else None)"

definition PROFILE_CopyEntry :: "int list \<Rightarrow> wstr \<Rightarrow> nat \<Rightarrow> int list option" where
  "PROFILE_CopyEntry buffer value len =
     (let quote = (length value \<ge> 2 \<and> (value ! 0 = 39 \<or> value ! 0 = 34) \<and> last value = value ! 0);
          v = (if quote then tl value else value)
      in do { b \<leftarrow> lstrcpynW 0 v len buffer;
              if quote \<and> len \<ge> length v then do { s \<leftarrow> cstr_at 0 b; put_at (length s - 1) [0] b } else Some b })"

section \<open>Bytes of a file\<close>

definition bom_utf8 :: "int list" where "bom_utf8 = [0xEF, 0xBB, 0xBF]"

definition bom_utfle :: "int list" where "bom_utfle = [0xFF, 0xFE]"

definition bom_utfbe :: "int list" where "bom_utfbe = [0xFE, 0xFF]"

text \<open>Swapping the bytes of the first \<open>len\<close> 16-bit words of a buffer.\<close>

fun PROFILE_ByteSwapShortBuffer :: "int list \<Rightarrow> nat \<Rightarrow> int list" where
  "PROFILE_ByteSwapShortBuffer (a # b # r) (Suc n) = b # a # PROFILE_ByteSwapShortBuffer r n"
| "PROFILE_ByteSwapShortBuffer bs _ = bs"

text \<open>The bytes of characters of 32 bits, and the characters at some bytes; reading the last one may pass the end.\<close>

definition wchar_bytes :: "int \<Rightarrow> int list" where
  "wchar_bytes c = [c mod 256, c div 256 mod 256, c div 65536 mod 256, c div 16777216 mod 256]"

fun wchars :: "int list \<Rightarrow> int list option" where
  "wchars [] = Some []"
| "wchars (a # b # c # d # r) = map_option ((#) (a + 256 * b + 65536 * c + 16777216 * d)) (wchars r)"
| "wchars _ = None"

definition PROFILE_WriteMarker :: "ENCODING \<Rightarrow> int list" where
  "PROFILE_WriteMarker e =
     (case e of ENCODING_ANSI \<Rightarrow> []
      | ENCODING_UTF8 \<Rightarrow> bom_utf8
      | ENCODING_UTF16LE \<Rightarrow> wchar_bytes 0xFEFF
      | ENCODING_UTF16BE \<Rightarrow> wchar_bytes 0xFFFE)"

definition PROFILE_DetectTextEncoding :: "int list \<Rightarrow> ENCODING \<times> nat" where
  "PROFILE_DetectTextEncoding buffer =
     (if take 3 buffer = bom_utf8 then (ENCODING_UTF8, 3)
      else if take 2 buffer = bom_utfle then (ENCODING_UTF16LE, 2)
      else if take 2 buffer = bom_utfbe then (ENCODING_UTF16BE, 2)
      else (ENCODING_ANSI, 0))"

text \<open>The bytes written for a line.\<close>

definition write_mb :: "penv \<Rightarrow> nat \<Rightarrow> wstr \<Rightarrow> int list" where
  "write_mb env cp szLine =
     (let n = fst (WideCharToMultiByte (pe_cs env) cp szLine False None)
      in if \<not> pe_mem env n then []
         else (let (len, out) = WideCharToMultiByte (pe_cs env) cp szLine False (Some n) in take len out))"

definition PROFILE_WriteLine :: "penv \<Rightarrow> wstr \<Rightarrow> ENCODING \<Rightarrow> int list" where
  "PROFILE_WriteLine env szLine e =
     (case e of ENCODING_ANSI \<Rightarrow> write_mb env CP_ACP szLine
      | ENCODING_UTF8 \<Rightarrow> write_mb env CP_UTF8 szLine
      | ENCODING_UTF16LE \<Rightarrow> concat (map wchar_bytes szLine)
      | ENCODING_UTF16BE \<Rightarrow> PROFILE_ByteSwapShortBuffer (concat (map wchar_bytes szLine)) (length szLine))"

section \<open>Writing the tree\<close>

definition key_text :: "PROFILEKEY \<Rightarrow> wstr" where
  "key_text k = pk_name k @ (case pk_value k of None \<Rightarrow> [] | Some v \<Rightarrow> 61 # v) @ [13, 10]"

definition section_text :: "PROFILESECTION \<Rightarrow> wstr" where
  "section_text s = (if ps_name s \<noteq> [] then 91 # ps_name s @ [93, 13, 10] else []) @ concat (map key_text (ps_keys s))"

fun save_sections :: "penv \<Rightarrow> PROFILESECTION list \<Rightarrow> ENCODING \<Rightarrow> int list" where
  "save_sections env [] e = []"
| "save_sections env (s # ss) e =
     (if \<not> pe_mem env (4 * length (section_text s)) then []
      else PROFILE_WriteLine env (section_text s) e @ save_sections env ss e)"

definition PROFILE_Save :: "penv \<Rightarrow> PROFILESECTION list \<Rightarrow> ENCODING \<Rightarrow> int list" where
  "PROFILE_Save env ss e = PROFILE_WriteMarker e @ save_sections env ss e"

section \<open>Reading the tree\<close>

definition PROFILE_isspaceW :: "int \<Rightarrow> bool" where
  "PROFILE_isspaceW c \<longleftrightarrow> c \<ge> 0x09 \<and> c \<le> 0x0d \<or> c = 0x1a \<or> c = 0x20"

definition is_newline :: "int \<Rightarrow> bool" where
  "is_newline c \<longleftrightarrow> c = 10 \<or> c = 13"

definition lstrip :: "wstr \<Rightarrow> wstr" where
  "lstrip = dropWhile PROFILE_isspaceW"

definition rstrip :: "wstr \<Rightarrow> wstr" where
  "rstrip s = rev (dropWhile PROFILE_isspaceW (rev s))"

text \<open>The text between the first character, a bracket, and the last closing bracket.\<close>

definition header_name :: "wstr \<Rightarrow> wstr" where
  "header_name line = rev (drop 1 (dropWhile ((\<noteq>) 93) (rev (drop 1 line))))"

definition sizeof_entry :: nat where "sizeof_entry = 24"

text \<open>Name and value of a line.\<close>

definition split_line :: "wstr \<Rightarrow> wstr \<times> wstr option" where
  "split_line line =
     (if 61 \<in> set line
      then (rstrip (takeWhile ((\<noteq>) 61) line), Some (lstrip (drop 1 (dropWhile ((\<noteq>) 61) line))))
      else (line, None))"

definition add_key :: "PROFILEKEY \<Rightarrow> PROFILESECTION list \<Rightarrow> PROFILESECTION list" where
  "add_key k ss = butlast ss @ [(last ss)\<lparr>ps_keys := ps_keys (last ss) @ [k]\<rparr>]"

text \<open>One line without white space around it: whether the loop goes on, and the sections, the last of them the current one.\<close>

definition load_line :: "penv \<Rightarrow> wstr \<Rightarrow> PROFILESECTION list \<Rightarrow> (bool \<times> PROFILESECTION list) option" where
  "load_line env line ss =
     (if line = [] then Some (True, ss)
      else if line ! 0 = 91 \<and> 93 \<in> set line
      then (let name = header_name line
            in if \<not> pe_mem env (sizeof_entry + 4 * length name) then Some (False, ss)
               else Some (True, ss @ [\<lparr>ps_name = cstr name, ps_keys = []\<rparr>]))
      else (let (name, v) = split_line line; keys = ps_keys (last ss)
            in if name \<noteq> [] \<or> keys = [] \<or> pk_name (last keys) \<noteq> []
               then (if \<not> pe_mem env (sizeof_entry + 4 * length name) then Some (False, ss)
                     else (case v of
                             None \<Rightarrow> Some (True, add_key \<lparr>pk_name = cstr name, pk_value = None\<rparr> ss)
                           | Some val \<Rightarrow> if \<not> pe_mem env (4 * (length val + 1)) then None
                                         else Some (True, add_key \<lparr>pk_name = cstr name, pk_value = Some (cstr val)\<rparr> ss)))
               else Some (True, ss)))"

text \<open>A line reaches up to and over the ends of lines that follow it.\<close>

definition next_line :: "wstr \<Rightarrow> wstr" where
  "next_line t = dropWhile is_newline (dropWhile (\<lambda>c. \<not> is_newline c) t)"

definition this_line :: "wstr \<Rightarrow> wstr" where
  "this_line t = take (length t - length (next_line t)) t"

lemma next_line_shorter: "t \<noteq> [] \<Longrightarrow> length (next_line t) < length t"
proof (cases t)
  case (Cons c r)
  have "length (dropWhile is_newline r) \<le> length r" "length (dropWhile is_newline (dropWhile (\<lambda>c. \<not> is_newline c) r)) \<le> length r"
    using length_dropWhile_le [of is_newline] length_dropWhile_le [of "\<lambda>c. \<not> is_newline c" r] order_trans by blast+
  then show ?thesis using Cons by (simp add: next_line_def less_Suc_eq_le)
qed simp

function load_loop :: "penv \<Rightarrow> wstr \<Rightarrow> PROFILESECTION list \<Rightarrow> PROFILESECTION list option" where
  "load_loop env t ss =
     (if t = [] then Some ss
      else do { (go_on, ss1) \<leftarrow> load_line env (rstrip (lstrip (this_line t))) ss;
                if go_on then load_loop env (next_line t) ss1 else Some ss1 })"
  by pat_completeness auto
termination by (relation "measure (\<lambda>(env, t, ss). length t)") (auto simp: next_line_shorter)

declare load_loop.simps [simp del]

text \<open>The text of a file of some encoding, \<open>Some None\<close> when its buffer cannot be allocated.\<close>

definition decode_mb :: "penv \<Rightarrow> nat \<Rightarrow> int list \<Rightarrow> wstr option option" where
  "decode_mb env cp bytes =
     do { (len, _) \<leftarrow> MultiByteToWideChar (pe_cs env) cp False bytes None;
          if \<not> pe_mem env (4 * len) then Some None
          else do { (_, out) \<leftarrow> MultiByteToWideChar (pe_cs env) cp False bytes (Some len);
                    Some (Some (take len (out @ pe_fresh env len))) } }"

definition decode_file :: "penv \<Rightarrow> ENCODING \<Rightarrow> int list \<Rightarrow> wstr option option" where
  "decode_file env e bytes =
     (case e of ENCODING_ANSI \<Rightarrow> decode_mb env CP_ACP bytes
      | ENCODING_UTF8 \<Rightarrow> decode_mb env CP_UTF8 bytes
      | ENCODING_UTF16LE \<Rightarrow> map_option Some (wchars bytes)
      | ENCODING_UTF16BE \<Rightarrow> map_option Some (wchars (PROFILE_ByteSwapShortBuffer bytes (length bytes div 4))))"

text \<open>\<open>old\<close> is the encoding the caller passes in, which some early returns leave alone.\<close>

definition PROFILE_Load :: "penv \<Rightarrow> bool \<Rightarrow> int list \<Rightarrow> ENCODING \<Rightarrow> (PROFILESECTION list \<times> ENCODING) option" where
  "PROFILE_Load env readable bytes old =
     (if bytes = [] \<or> \<not> pe_mem env (length bytes) \<or> \<not> readable then Some ([], old)
      else (let (e, len) = PROFILE_DetectTextEncoding bytes
            in do { text \<leftarrow> decode_file env e (drop len bytes);
                    case text of
                      None \<Rightarrow> Some ([], e)
                    | Some t \<Rightarrow> if \<not> pe_mem env sizeof_entry then Some ([], e)
                                else do { ss \<leftarrow> load_loop env t [\<lparr>ps_name = [], ps_keys = []\<rparr>]; Some (ss, e) } }))"

end
