(* ===== verification/Profile_Api.thy ===== *)
theory Profile_Api
  imports Profile_Model
begin

text \<open>
  Ini files, continued: finding, setting and deleting keys, the cache of files, and the exported calls.
\<close>

section \<open>Keys\<close>

fun delete_key :: "penv \<Rightarrow> wstr \<Rightarrow> PROFILEKEY list \<Rightarrow> PROFILEKEY list option" where
  "delete_key env key_name [] = None"
| "delete_key env key_name (k # ks) =
     (if wcsicmp_eq env (pk_name k) key_name then Some ks else map_option ((#) k) (delete_key env key_name ks))"

fun PROFILE_DeleteKey :: "penv \<Rightarrow> PROFILESECTION list \<Rightarrow> wstr \<Rightarrow> wstr \<Rightarrow> bool \<times> PROFILESECTION list" where
  "PROFILE_DeleteKey env [] section_name key_name = (False, [])"
| "PROFILE_DeleteKey env (s # ss) section_name key_name =
     (case (if wcsicmp_eq env (ps_name s) section_name then delete_key env key_name (ps_keys s) else None) of
        Some ks \<Rightarrow> (True, s\<lparr>ps_keys := ks\<rparr> # ss)
      | None \<Rightarrow> (let (b, ss1) = PROFILE_DeleteKey env ss section_name key_name in (b, s # ss1)))"

fun PROFILE_DeleteAllKeys :: "penv \<Rightarrow> PROFILESECTION list \<Rightarrow> wstr \<Rightarrow> bool \<times> PROFILESECTION list" where
  "PROFILE_DeleteAllKeys env [] section_name = (False, [])"
| "PROFILE_DeleteAllKeys env (s # ss) section_name =
     (let (b, ss1) = PROFILE_DeleteAllKeys env ss section_name
      in if wcsicmp_eq env (ps_name s) section_name then (b \<or> ps_keys s \<noteq> [], s\<lparr>ps_keys := []\<rparr> # ss1) else (b, s # ss1))"

text \<open>Whether a name is the first \<open>n\<close> characters of a string.\<close>

definition name_is :: "penv \<Rightarrow> wstr \<Rightarrow> wstr \<Rightarrow> nat \<Rightarrow> bool" where
  "name_is env name s n \<longleftrightarrow> map (pe_fold env) (take n name) = map (pe_fold env) (take n s) \<and> length name = n"

fun find_key :: "penv \<Rightarrow> wstr \<Rightarrow> nat \<Rightarrow> PROFILEKEY list \<Rightarrow> nat option" where
  "find_key env key_name n [] = None"
| "find_key env key_name n (k # ks) =
     (if name_is env (pk_name k) key_name n then Some 0 else map_option Suc (find_key env key_name n ks))"

fun find_section :: "penv \<Rightarrow> wstr \<Rightarrow> nat \<Rightarrow> PROFILESECTION list \<Rightarrow> nat option" where
  "find_section env section_name n [] = None"
| "find_section env section_name n (s # ss) =
     (if name_is env (ps_name s) section_name n then Some 0 else map_option Suc (find_section env section_name n ss))"

text \<open>
  The key is returned as its section's and its own place in the tree, with the tree. A section whose first key cannot be
  allocated is freed but stays linked, so that case is \<open>None\<close>.
\<close>

definition PROFILE_Find :: "penv \<Rightarrow> PROFILESECTION list \<Rightarrow> wstr \<Rightarrow> wstr \<Rightarrow> bool \<Rightarrow> bool \<Rightarrow> ((nat \<times> nat) option \<times> PROFILESECTION list) option" where
  "PROFILE_Find env ss section_name key_name create create_always =
     (let sn = lstrip section_name; seclen = length (rstrip sn); kn = lstrip key_name; keylen = length (rstrip kn);
          new = \<lparr>pk_name = kn, pk_value = None\<rparr>
      in case find_section env sn seclen ss of
           Some i \<Rightarrow>
             (let keys = ps_keys (ss ! i)
              in case (if create_always then None else find_key env kn keylen keys) of
                   Some j \<Rightarrow> Some (Some (i, j), ss)
                 | None \<Rightarrow> if \<not> create \<or> \<not> pe_mem env (sizeof_entry + 4 * length kn) then Some (None, ss)
                           else Some (Some (i, length keys), ss[i := (ss ! i)\<lparr>ps_keys := keys @ [new]\<rparr>]))
         | None \<Rightarrow>
             if \<not> create \<or> \<not> pe_mem env (sizeof_entry + 4 * length sn) then Some (None, ss)
             else if \<not> pe_mem env (sizeof_entry + 4 * length kn) then None
             else Some (Some (length ss, 0), ss @ [\<lparr>ps_name = sn, ps_keys = [new]\<rparr>]))"

definition value_at :: "nat \<times> nat \<Rightarrow> PROFILESECTION list \<Rightarrow> wstr option" where
  "value_at ij ss = pk_value (ps_keys (ss ! fst ij) ! snd ij)"

definition set_value :: "nat \<times> nat \<Rightarrow> wstr \<Rightarrow> PROFILESECTION list \<Rightarrow> PROFILESECTION list" where
  "set_value ij v ss =
     (let s = ss ! fst ij; k = ps_keys s ! snd ij
      in ss[fst ij := s\<lparr>ps_keys := (ps_keys s)[snd ij := k\<lparr>pk_value := Some v\<rparr>]\<rparr>])"

definition PROFILE_SetString :: "penv \<Rightarrow> PROFILE \<Rightarrow> wstr \<Rightarrow> wstr \<Rightarrow> wstr option \<Rightarrow> bool \<Rightarrow> (bool \<times> PROFILE) option" where
  "PROFILE_SetString env pr section_name key_name val create_always =
     (case val of
        None \<Rightarrow> (let (b, ss) = PROFILE_DeleteKey env (sections pr) section_name key_name
                 in Some (True, pr\<lparr>sections := ss, changed := changed pr \<or> b\<rparr>))
      | Some value \<Rightarrow>
          do { (found, ss) \<leftarrow> PROFILE_Find env (sections pr) section_name key_name True create_always;
               case found of
                 None \<Rightarrow> Some (False, pr\<lparr>sections := ss\<rparr>)
               | Some ij \<Rightarrow>
                   (let v = lstrip value
                    in if value_at ij ss = Some v then Some (True, pr\<lparr>sections := ss\<rparr>)
                       else if \<not> pe_mem env (4 * (length v + 1)) then None
                       else Some (True, pr\<lparr>sections := set_value ij v ss, changed := True\<rparr>)) })"

section \<open>The cache\<close>

definition empty_profile :: PROFILE where
  "empty_profile = \<lparr>changed = False, sections = [], filename = None, LastWriteTime = 0, encoding = ENCODING_ANSI\<rparr>"

definition CurProfile :: "profiles \<Rightarrow> PROFILE" where
  "CurProfile st = MRUProfile st ! 0"

definition set_CurProfile :: "PROFILE \<Rightarrow> profiles \<Rightarrow> profiles" where
  "set_CurProfile pr st = st\<lparr>MRUProfile := (MRUProfile st)[0 := pr]\<rparr>"

text \<open>\<open>now\<close> is the time of the call, in the units of a \<^verbatim>\<open>FILETIME\<close>. A current profile has a name when it has changes.\<close>

definition PROFILE_FlushFile :: "penv \<Rightarrow> int \<Rightarrow> profiles \<Rightarrow> bool \<times> profiles" where
  "PROFILE_FlushFile env now st =
     (if MRUProfile st = [] then (False, st)
      else (let pr = CurProfile st; name = (case filename pr of None \<Rightarrow> [] | Some n \<Rightarrow> n)
            in if \<not> changed pr then (True, st)
               else if \<not> pe_open env name True then (False, st)
               else (True, set_CurProfile (pr\<lparr>LastWriteTime := now, changed := False\<rparr>)
                             (st\<lparr>files := (files st)(name \<mapsto> (PROFILE_Save env (sections pr) (encoding pr), now))\<rparr>))))"

definition PROFILE_ReleaseFile :: "penv \<Rightarrow> int \<Rightarrow> profiles \<Rightarrow> profiles" where
  "PROFILE_ReleaseFile env now st = set_CurProfile empty_profile (snd (PROFILE_FlushFile env now st))"

definition is_not_current :: "int \<Rightarrow> int \<Rightarrow> bool" where
  "is_not_current now ft \<longleftrightarrow> ft + 21000000 < now"

text \<open>The place of a file in the cache.\<close>

definition cached :: "penv \<Rightarrow> wstr \<Rightarrow> PROFILE \<Rightarrow> bool" where
  "cached env name pr \<longleftrightarrow> (case filename pr of None \<Rightarrow> False | Some n \<Rightarrow> wcsicmp_eq env name n)"

definition to_front :: "nat \<Rightarrow> profiles \<Rightarrow> profiles" where
  "to_front i st = st\<lparr>MRUProfile := MRUProfile st ! i # take i (MRUProfile st) @ drop (i + 1) (MRUProfile st)\<rparr>"

text \<open>Reading the open file into the current profile; \<open>name\<close> is the file that is open, whatever the profile is called.\<close>

definition load_current :: "penv \<Rightarrow> wstr \<Rightarrow> profiles \<Rightarrow> profiles option" where
  "load_current env name st =
     (case files st name of
        None \<Rightarrow> None
      | Some (bytes, t) \<Rightarrow>
          do { (ss, e) \<leftarrow> PROFILE_Load env (pe_readable env name) bytes (encoding (CurProfile st));
               Some (set_CurProfile ((CurProfile st)\<lparr>sections := ss, encoding := e, LastWriteTime := t\<rparr>) st) })"

definition open_file :: "penv \<Rightarrow> int \<Rightarrow> wstr \<Rightarrow> bool \<Rightarrow> profiles \<Rightarrow> profiles option" where
  "open_file env now name write_access st =
     (if \<not> pe_open env name write_access then None
      else (case files st name of
              Some _ \<Rightarrow> Some st
            | None \<Rightarrow> if write_access then Some (st\<lparr>files := (files st)(name \<mapsto> ([], now))\<rparr>) else None))"

text \<open>\<open>"win.ini"\<close> is the name used for a null name.\<close>

definition win_ini :: wstr where "win_ini = [119, 105, 110, 46, 105, 110, 105]"

definition PROFILE_Open :: "penv \<Rightarrow> int \<Rightarrow> wstr option \<Rightarrow> bool \<Rightarrow> profiles \<Rightarrow> (bool \<times> profiles) option" where
  "PROFILE_Open env now fname write_access st =
     (if MRUProfile st = [] \<and> \<not> pe_mem env 40 then None
      else
        (let st0 = (if MRUProfile st = [] then st\<lparr>MRUProfile := replicate N_CACHED_PROFILES empty_profile\<rparr> else st);
             buffer = pe_full_path env (case fname of None \<Rightarrow> win_ini | Some n \<Rightarrow> n)
         in case open_file env now buffer write_access st0 of
              None \<Rightarrow> Some (False, st0)
            | Some st1 \<Rightarrow>
                (case List.find (\<lambda>i. cached env buffer (MRUProfile st1 ! i)) [0..<N_CACHED_PROFILES] of
                   Some i \<Rightarrow>
                     (let st2 = (if i \<noteq> 0 then to_front i (snd (PROFILE_FlushFile env now st1)) else st1);
                          t = snd (the (files st2 buffer))
                      in if LastWriteTime (CurProfile st2) = t \<and> is_not_current now t then Some (True, st2)
                         else do { st3 \<leftarrow> load_current env buffer st2; Some (True, st3) })
                 | None \<Rightarrow>
                     (let st2 = to_front (N_CACHED_PROFILES - 1) (snd (PROFILE_FlushFile env now st1));
                          st3 = (if filename (CurProfile st2) \<noteq> None then PROFILE_ReleaseFile env now st2 else st2)
                      in if \<not> pe_mem env (4 * (length buffer + 1)) then None
                         else do { st4 \<leftarrow> load_current env buffer (set_CurProfile ((CurProfile st3)\<lparr>filename := Some buffer\<rparr>) st3);
                                   Some (True, st4) }))))"

section \<open>Reading\<close>

text \<open>
  A buffer is its cells and a length the caller gives; a null buffer, for which the calls return 0 at once, is left
  out. The lists of keys and of names are written from a place \<open>pos\<close> on, with \<open>len\<close> cells left, an \<^verbatim>\<open>UINT\<close>.
\<close>

definition less32 :: "nat \<Rightarrow> nat \<Rightarrow> nat" where
  "less32 a b = nat ((int a - int b) mod 4294967296)"

fun get_keys :: "bool \<Rightarrow> PROFILEKEY list \<Rightarrow> int list \<Rightarrow> nat \<Rightarrow> nat \<Rightarrow> (int list \<times> nat \<times> nat) option" where
  "get_keys return_values [] b pos len = Some (b, pos, len)"
| "get_keys return_values (k # ks) b pos len =
     (if len \<le> 2 then Some (b, pos, len)
      else if pk_name k = [] \<and> pk_value k = None then get_keys return_values ks b pos len
      else if pk_name k \<noteq> [] \<and> pk_name k ! 0 = 59 then get_keys return_values ks b pos len
      else if \<not> return_values \<and> pk_value k = None then get_keys return_values ks b pos len
      else do {
        b1 \<leftarrow> lstrcpynW pos (pk_name k) (len - 1) b;
        s \<leftarrow> cstr_at pos b1;
        let n = length s + 1;
        let len1 = less32 len n;
        let pos1 = pos + n;
        if len1 < 2 then Some (b1, pos1, len1)
        else (case (if return_values then pk_value k else None) of
                None \<Rightarrow> get_keys return_values ks b1 pos1 len1
              | Some v \<Rightarrow> do {
                  b2 \<leftarrow> put_at (pos1 - 1) [61] b1;
                  b3 \<leftarrow> lstrcpynW pos1 v (len1 - 1) b2;
                  s2 \<leftarrow> cstr_at pos1 b3;
                  get_keys return_values ks b3 (pos1 + (length s2 + 1)) (less32 len1 (length s2 + 1)) }) })"

definition PROFILE_GetSection :: "penv \<Rightarrow> int \<Rightarrow> wstr option \<Rightarrow> wstr \<Rightarrow> int list \<Rightarrow> nat \<Rightarrow> bool \<Rightarrow> profiles \<Rightarrow> (int \<times> int list \<times> profiles) option" where
  "PROFILE_GetSection env now fname section_name buffer len return_values st =
     do { (opened, st1) \<leftarrow> PROFILE_Open env now fname False st;
          if \<not> opened then do { b \<leftarrow> put_at 0 [0] buffer; Some (0, b, st1) }
          else (case List.find (\<lambda>s. wcsicmp_eq env (ps_name s) section_name) (sections (CurProfile st1)) of
                  None \<Rightarrow> do { b \<leftarrow> put_at 0 [0, 0] buffer; Some (0, b, st1) }
                | Some s \<Rightarrow> do {
                    (b, pos, rest) \<leftarrow> get_keys return_values (ps_keys s) buffer 0 len;
                    b1 \<leftarrow> put_at pos [0] b;
                    if rest \<le> 1 then (if pos = 0 then None else do { b2 \<leftarrow> put_at (pos - 1) [0] b1; Some (int len - 2, b2, st1) })
                    else Some (int len - int rest, b1, st1) }) }"

fun section_names :: "PROFILESECTION list \<Rightarrow> nat \<Rightarrow> int list \<Rightarrow> nat \<Rightarrow> nat \<Rightarrow> (nat \<times> int list) option" where
  "section_names [] len b pos buflen = do { b1 \<leftarrow> put_at pos [0] b; Some (pos, b1) }"
| "section_names (s # ss) len b pos buflen =
     (if ps_name s = [] then section_names ss len b pos buflen
      else if length (ps_name s) + 1 \<ge> buflen
      then (if buflen > 0
            then do { b1 \<leftarrow> put_at pos (take (buflen - 1) (ps_name s) @ [0]) b; b2 \<leftarrow> put_at (pos + buflen) [0] b1; Some (len - 2, b2) }
            else do { b1 \<leftarrow> put_at pos [0] b; Some (len - 2, b1) })
      else do { b1 \<leftarrow> put_at pos (ps_name s @ [0]) b;
                section_names ss len b1 (pos + (length (ps_name s) + 1)) (buflen - (length (ps_name s) + 1)) })"

definition PROFILE_GetSectionNames :: "PROFILESECTION list \<Rightarrow> int list \<Rightarrow> nat \<Rightarrow> (nat \<times> int list) option" where
  "PROFILE_GetSectionNames ss buffer len =
     (if len = 0 then Some (0, buffer)
      else if len = 1 then do { b \<leftarrow> put_at 0 [0] buffer; Some (0, b) }
      else section_names ss len buffer 0 (len - 1))"

definition GetPrivateProfileSectionNamesW :: "penv \<Rightarrow> int \<Rightarrow> int list \<Rightarrow> nat \<Rightarrow> wstr option \<Rightarrow> profiles \<Rightarrow> (nat \<times> int list \<times> profiles) option" where
  "GetPrivateProfileSectionNamesW env now buffer len fname st =
     do { (opened, st1) \<leftarrow> PROFILE_Open env now fname False st;
          if opened then do { (ret, b) \<leftarrow> PROFILE_GetSectionNames (sections (CurProfile st1)) buffer len; Some (ret, b, st1) }
          else Some (0, buffer, st1) }"

text \<open>A default value without the spaces at its end, one of which stays when there is nothing else.\<close>

definition strip_default :: "wstr \<Rightarrow> wstr" where
  "strip_default d = (let r = rev (dropWhile ((=) 32) (rev d)) in if r = [] then take 1 d else r)"

definition GetPrivateProfileStringW ::
    "penv \<Rightarrow> int \<Rightarrow> wstr option \<Rightarrow> wstr option \<Rightarrow> wstr option \<Rightarrow> int list \<Rightarrow> nat \<Rightarrow> wstr option \<Rightarrow> profiles \<Rightarrow> (int \<times> int list \<times> profiles) option" where
  "GetPrivateProfileStringW env now section entry def_val buffer len fname st =
     (if len = 0 then Some (0, buffer, st)
      else (let d = (case def_val of None \<Rightarrow> [] | Some v \<Rightarrow> v) in
        case section of
          None \<Rightarrow> do { (ret, b, st1) \<leftarrow> GetPrivateProfileSectionNamesW env now buffer len fname st; Some (int ret, b, st1) }
        | Some sec \<Rightarrow>
          (case entry of
             None \<Rightarrow> do { (ret, b, st1) \<leftarrow> PROFILE_GetSection env now fname sec buffer len False st;
                         if b ! 0 = 0
                         then do { b1 \<leftarrow> PROFILE_CopyEntry b d len; s \<leftarrow> cstr_at 0 b1; Some (int (length s), b1, st1) }
                         else Some (ret, b, st1) }
           | Some ent \<Rightarrow>
               (let d1 = strip_default d
                in if d1 \<noteq> [] \<and> \<not> pe_mem env (4 * (length d1 + 1)) then None
                   else do {
                     (opened, st1) \<leftarrow> PROFILE_Open env now fname False st;
                     if opened
                     then do { (key, _) \<leftarrow> PROFILE_Find env (sections (CurProfile st1)) sec ent False False;
                               let v = (case key of None \<Rightarrow> None | Some ij \<Rightarrow> value_at ij (sections (CurProfile st1)));
                               b \<leftarrow> PROFILE_CopyEntry buffer (case v of None \<Rightarrow> d1 | Some x \<Rightarrow> x) len;
                               s \<leftarrow> cstr_at 0 b;
                               Some (int (length s), b, st1) }
                     else do { b \<leftarrow> lstrcpynW 0 d1 len buffer; s \<leftarrow> cstr_at 0 b; Some (int (length s), b, st1) } }))))"

text \<open>\<^verbatim>\<open>wcstoul\<close> with base 10, for an \<^verbatim>\<open>unsigned long\<close> of 64 bits.\<close>

definition wcstoul10 :: "wstr \<Rightarrow> int" where
  "wcstoul10 s =
     (let t = dropWhile (\<lambda>c. 9 \<le> c \<and> c \<le> 13 \<or> c = 32) s;
          neg = (t \<noteq> [] \<and> t ! 0 = 45);
          u = (if t \<noteq> [] \<and> (t ! 0 = 45 \<or> t ! 0 = 43) then tl t else t);
          n = foldl (\<lambda>acc c. 10 * acc + (c - 48)) 0 (takeWhile (\<lambda>c. 48 \<le> c \<and> c \<le> 57) u)
      in if n > 18446744073709551615 then 18446744073709551615 else if neg then (- n) mod 18446744073709551616 else n)"

definition GetPrivateProfileIntW :: "penv \<Rightarrow> int \<Rightarrow> wstr option \<Rightarrow> wstr option \<Rightarrow> int \<Rightarrow> wstr option \<Rightarrow> profiles \<Rightarrow> (int \<times> profiles) option" where
  "GetPrivateProfileIntW env now section entry def_val fname st =
     do { (ret, b, st1) \<leftarrow> GetPrivateProfileStringW env now section entry (Some []) (replicate 30 0) 30 fname st;
          if ret = 0 \<or> b ! 0 = 0 then Some (def_val mod 4294967296, st1)
          else do { s \<leftarrow> cstr_at 0 b; Some (wcstoul10 s mod 4294967296, st1) } }"

definition GetPrivateProfileSectionW :: "penv \<Rightarrow> int \<Rightarrow> wstr option \<Rightarrow> int list \<Rightarrow> nat \<Rightarrow> wstr option \<Rightarrow> profiles \<Rightarrow> (int \<times> int list \<times> profiles) option" where
  "GetPrivateProfileSectionW env now section buffer len fname st =
     (case section of None \<Rightarrow> Some (0, buffer, st) | Some sec \<Rightarrow> PROFILE_GetSection env now fname sec buffer len True st)"

section \<open>Writing\<close>

text \<open>\<open>set_checked\<close> is \<open>PROFILE_SetString\<close> with an entry that may be null: then any comparison with a key's name follows it.\<close>

definition set_checked :: "penv \<Rightarrow> PROFILE \<Rightarrow> wstr \<Rightarrow> wstr option \<Rightarrow> wstr option \<Rightarrow> (bool \<times> PROFILE) option" where
  "set_checked env pr sec entry val =
     (case entry of
        Some ent \<Rightarrow> PROFILE_SetString env pr sec ent val False
      | None \<Rightarrow> if val = None \<and> (\<forall>s\<in>set (sections pr). wcsicmp_eq env (ps_name s) sec \<longrightarrow> ps_keys s = []) then Some (True, pr) else None)"

definition WritePrivateProfileStringW ::
    "penv \<Rightarrow> int \<Rightarrow> wstr option \<Rightarrow> wstr option \<Rightarrow> wstr option \<Rightarrow> wstr option \<Rightarrow> profiles \<Rightarrow> (bool \<times> profiles) option" where
  "WritePrivateProfileStringW env now section entry val fname st =
     do { (opened, st1) \<leftarrow> PROFILE_Open env now fname True st;
          if \<not> opened then Some (False, st1)
          else (case section of
                  None \<Rightarrow> Some (False, st1)
                | Some sec \<Rightarrow> do { (ret, pr) \<leftarrow> set_checked env (CurProfile st1) sec entry val;
                                 let st2 = set_CurProfile pr st1;
                                 Some (if ret then PROFILE_FlushFile env now st2 else (False, st2)) }) }"

text \<open>The entries in the memory behind a pointer, up to an empty one.\<close>

function write_entries :: "penv \<Rightarrow> wstr \<Rightarrow> int list \<Rightarrow> PROFILE \<Rightarrow> (bool \<times> PROFILE) option" where
  "write_entries env sec string pr =
     (if 0 \<notin> set string then None
      else (let s = cstr string
            in if s = [] then Some (True, pr)
               else if \<not> pe_mem env (4 * (length s + 1)) then None
               else do { (ret, pr1) \<leftarrow> (if 61 \<in> set s
                                        then PROFILE_SetString env pr sec (takeWhile ((\<noteq>) 61) s) (Some (drop 1 (dropWhile ((\<noteq>) 61) s))) True
                                        else Some (True, pr));
                         if ret then write_entries env sec (drop (length s + 1) string) pr1 else Some (False, pr1) }))"
  by pat_completeness auto
termination by (relation "measure (\<lambda>(env, sec, string, pr). length string)") (auto dest: length_pos_if_in_set)

declare write_entries.simps [simp del]

definition WritePrivateProfileSectionW :: "penv \<Rightarrow> int \<Rightarrow> wstr \<Rightarrow> int list \<Rightarrow> wstr option \<Rightarrow> profiles \<Rightarrow> (bool \<times> profiles) option" where
  "WritePrivateProfileSectionW env now sec string fname st =
     do { (opened, st1) \<leftarrow> PROFILE_Open env now fname True st;
          if \<not> opened then Some (False, st1)
          else (let (b, ss) = PROFILE_DeleteAllKeys env (sections (CurProfile st1)) sec; pr = CurProfile st1
                in do { (ret, pr1) \<leftarrow> write_entries env sec string (pr\<lparr>sections := ss, changed := changed pr \<or> b\<rparr>);
                        let st2 = set_CurProfile pr1 st1;
                        Some (if ret then PROFILE_FlushFile env now st2 else (False, st2)) }) }"

section \<open>Structures\<close>

definition hex :: "nat \<Rightarrow> int" where
  "hex n = (if n < 10 then 48 + int n else 55 + int n)"

definition hex_digit :: "int \<Rightarrow> int option" where
  "hex_digit c =
     (if c \<ge> 48 \<and> c \<le> 57 then Some (c - 48) else if c \<ge> 65 \<and> c \<le> 90 then Some (c - 65 + 10)
      else if c \<ge> 97 \<and> c \<le> 122 then Some (c - 97 + 10) else None)"

definition get_hex_byte :: "int list \<Rightarrow> int option" where
  "get_hex_byte p = do { v \<leftarrow> hex_digit (p ! 0); w \<leftarrow> hex_digit (p ! 1); Some (v * 16 + w) }"

text \<open>The loop that reads \<open>n\<close> bytes: the bytes stored, their sum, and the text left when all could be read.\<close>

fun read_hex :: "int list \<Rightarrow> nat \<Rightarrow> int \<Rightarrow> int list \<times> int \<times> int list option" where
  "read_hex p 0 chksum = ([], chksum, Some p)"
| "read_hex p (Suc n) chksum =
     (case get_hex_byte p of
        None \<Rightarrow> ([], chksum, None)
      | Some v \<Rightarrow> (let (data, c, r) = read_hex (drop 2 p) n ((chksum + v) mod 256) in (v mod 256 # data, c, r)))"

definition GetPrivateProfileStructW ::
    "penv \<Rightarrow> int \<Rightarrow> wstr option \<Rightarrow> wstr option \<Rightarrow> nat \<Rightarrow> wstr option \<Rightarrow> profiles \<Rightarrow> (bool \<times> int list \<times> profiles) option" where
  "GetPrivateProfileStructW env now section key len fname st =
     (let n = (2 * len + 3) mod 4294967296
      in if \<not> pe_mem env (4 * n) then Some (False, [], st)
         else do { (ret, b, st1) \<leftarrow> GetPrivateProfileStringW env now section key None (pe_fresh env n) n fname st;
                   if ret \<noteq> wrap32 (2 * int len + 2) then Some (False, [], st1)
                   else (let (data, chksum, r) = read_hex b len 0
                         in Some (case r of
                                    None \<Rightarrow> (False, data, st1)
                                  | Some p \<Rightarrow> (case get_hex_byte p of None \<Rightarrow> (False, data, st1) | Some v \<Rightarrow> (v mod 256 = chksum, data, st1)))) })"

definition struct_text :: "nat list \<Rightarrow> wstr" where
  "struct_text bytes =
     concat (map (\<lambda>x. [hex (x div 16), hex (x mod 16)]) bytes) @ [hex (sum_list bytes mod 256 div 16), hex (sum_list bytes mod 16)]"

text \<open>\<open>bytes\<close> is the structure, \<open>null_buf\<close> tells whether its pointer is null. The size of the text is a \<^verbatim>\<open>UINT\<close>.\<close>

definition WritePrivateProfileStructW ::
    "penv \<Rightarrow> int \<Rightarrow> wstr option \<Rightarrow> wstr option \<Rightarrow> bool \<Rightarrow> nat list \<Rightarrow> wstr option \<Rightarrow> profiles \<Rightarrow> (bool \<times> profiles) option" where
  "WritePrivateProfileStructW env now section key null_buf bytes fname st =
     (if section = None \<and> key = None \<and> null_buf then WritePrivateProfileStringW env now None None None fname st
      else if null_buf \<and> bytes \<noteq> [] then None
      else (let n = length bytes * 2 + 3
            in if n \<ge> 4294967296 \<or> \<not> pe_mem env (4 * n) then None
               else WritePrivateProfileStringW env now section key (Some (struct_text bytes)) fname st))"

section \<open>The calls for strings of bytes\<close>

text \<open>\<open>None\<close> in a \<open>bytes\<close> argument is a null pointer; the conversion of one fails, and the calls then return at once.\<close>

definition wide :: "penv \<Rightarrow> int list option \<Rightarrow> wstr option option" where
  "wide env s = (case s of None \<Rightarrow> Some None | Some bytes \<Rightarrow> map_option (\<lambda>r. Some (cstr r)) (towstring (pe_cs env) bytes))"

definition GetPrivateProfileStringA ::
    "penv \<Rightarrow> int \<Rightarrow> int list option \<Rightarrow> int list option \<Rightarrow> int list option \<Rightarrow> int list \<Rightarrow> nat \<Rightarrow> int list option \<Rightarrow> profiles \<Rightarrow> (int \<times> int list \<times> profiles) option" where
  "GetPrivateProfileStringA env now section entry def_val buffer len fname st =
     do { sec \<leftarrow> wide env section; ent \<leftarrow> wide env entry; d \<leftarrow> wide env def_val; f \<leftarrow> wide env fname;
          if sec = None \<or> ent = None \<or> d = None \<or> f = None then Some (0, buffer, st)
          else do { (ret, tmp, st1) \<leftarrow> GetPrivateProfileStringW env now sec ent d (pe_fresh env len) len f st;
                    if ret = 0 then Some (0, buffer, st1)
                    else (let (n, out) = WideCharToMultiByte (pe_cs env) CP_UTF8 (take (nat ret) tmp) False (Some len)
                          in do { b \<leftarrow> put_at 0 out buffer; Some (int n, b, st1) }) } }"

definition GetPrivateProfileIntA :: "penv \<Rightarrow> int \<Rightarrow> int list option \<Rightarrow> int list option \<Rightarrow> int \<Rightarrow> int list option \<Rightarrow> profiles \<Rightarrow> (int \<times> profiles) option" where
  "GetPrivateProfileIntA env now section entry def_val fname st =
     do { sec \<leftarrow> wide env section; ent \<leftarrow> wide env entry; f \<leftarrow> wide env fname;
          if sec = None \<or> ent = None \<or> f = None then Some (def_val mod 4294967296, st)
          else GetPrivateProfileIntW env now sec ent def_val f st }"

text \<open>The zeros written behind the \<open>ret\<close> bytes of a list.\<close>

definition end_list :: "int \<Rightarrow> nat \<Rightarrow> int list \<Rightarrow> int list option" where
  "end_list ret len buffer =
     (if len = 0 then Some buffer
      else do { b \<leftarrow> put_at (if ret < int len then nat ret else len - 1) [0] buffer;
                if ret + 1 < int len then put_at (nat (ret + 1)) [0] b else Some b })"

definition convert_list :: "penv \<Rightarrow> int list \<Rightarrow> nat \<Rightarrow> int list \<Rightarrow> (int \<times> int list) option" where
  "convert_list env tmp len buffer =
     do { str \<leftarrow> tostring_filter (pe_cs env) tmp;
          let ret = min (length str) (len - 1);
          b \<leftarrow> put_at 0 (take ret str) buffer;
          Some (int ret, b) }"

definition GetPrivateProfileSectionA :: "penv \<Rightarrow> int \<Rightarrow> int list option \<Rightarrow> int list \<Rightarrow> nat \<Rightarrow> int list option \<Rightarrow> profiles \<Rightarrow> (int \<times> int list \<times> profiles) option" where
  "GetPrivateProfileSectionA env now section buffer len fname st =
     do { sec \<leftarrow> wide env section; f \<leftarrow> wide env fname;
          if sec = None \<or> f = None then Some (0, buffer, st)
          else do { (ret, tmp, st1) \<leftarrow> GetPrivateProfileSectionW env now sec (pe_fresh env len) len f st;
                    (ret1, b) \<leftarrow> (if ret > 0 then convert_list env tmp len buffer else Some (ret, buffer));
                    b1 \<leftarrow> end_list ret1 len b;
                    Some (ret1, b1, st1) } }"

definition GetPrivateProfileSectionNamesA :: "penv \<Rightarrow> int \<Rightarrow> int list \<Rightarrow> nat \<Rightarrow> int list option \<Rightarrow> profiles \<Rightarrow> (int \<times> int list \<times> profiles) option" where
  "GetPrivateProfileSectionNamesA env now buffer len fname st =
     do { f \<leftarrow> wide env fname;
          if f = None then Some (0, buffer, st)
          else do { (ret, tmp, st1) \<leftarrow> GetPrivateProfileSectionNamesW env now (pe_fresh env len) len f st;
                    (ret1, b) \<leftarrow> (if ret > 0 then convert_list env tmp len buffer else Some (0, buffer));
                    b1 \<leftarrow> end_list ret1 len b;
                    Some (ret1, b1, st1) } }"

definition WritePrivateProfileStringA ::
    "penv \<Rightarrow> int \<Rightarrow> int list option \<Rightarrow> int list option \<Rightarrow> int list option \<Rightarrow> int list option \<Rightarrow> profiles \<Rightarrow> (bool \<times> profiles) option" where
  "WritePrivateProfileStringA env now section entry val fname st =
     do { sec \<leftarrow> wide env section; ent \<leftarrow> wide env entry; v \<leftarrow> wide env val; f \<leftarrow> wide env fname;
          if sec = None \<or> ent = None \<or> v = None \<or> f = None then Some (False, st)
          else WritePrivateProfileStringW env now sec ent v f st }"

text \<open>\<open>string\<close> is the first string of the list, which is all the conversion takes; its result ends with one terminator.\<close>

definition WritePrivateProfileSectionA :: "penv \<Rightarrow> int \<Rightarrow> int list option \<Rightarrow> int list option \<Rightarrow> int list option \<Rightarrow> profiles \<Rightarrow> (bool \<times> profiles) option" where
  "WritePrivateProfileSectionA env now section string fname st =
     do { sec \<leftarrow> wide env section; str \<leftarrow> wide env string; f \<leftarrow> wide env fname;
          case (sec, str, f) of
            (Some s, Some t, Some _) \<Rightarrow> WritePrivateProfileSectionW env now s (t @ [0]) f st
          | _ \<Rightarrow> Some (False, st) }"

definition GetPrivateProfileStructA ::
    "penv \<Rightarrow> int \<Rightarrow> int list option \<Rightarrow> int list option \<Rightarrow> nat \<Rightarrow> int list option \<Rightarrow> profiles \<Rightarrow> (bool \<times> int list \<times> profiles) option" where
  "GetPrivateProfileStructA env now section key len fname st =
     do { sec \<leftarrow> wide env section; k \<leftarrow> wide env key; f \<leftarrow> wide env fname;
          if sec = None \<or> k = None \<or> f = None then Some (False, [], st)
          else GetPrivateProfileStructW env now sec k len f st }"

definition WritePrivateProfileStructA ::
    "penv \<Rightarrow> int \<Rightarrow> int list option \<Rightarrow> int list option \<Rightarrow> bool \<Rightarrow> nat list \<Rightarrow> int list option \<Rightarrow> profiles \<Rightarrow> (bool \<times> profiles) option" where
  "WritePrivateProfileStructA env now section key null_buf bytes fname st =
     do { sec \<leftarrow> wide env section; k \<leftarrow> wide env key; f \<leftarrow> wide env fname;
          if sec = None \<or> k = None \<or> f = None then Some (False, st)
          else WritePrivateProfileStructW env now sec k null_buf bytes f st }"

section \<open>The calls for \<^verbatim>\<open>win.ini\<close>\<close>

definition GetProfileStringW :: "penv \<Rightarrow> int \<Rightarrow> wstr option \<Rightarrow> wstr option \<Rightarrow> wstr option \<Rightarrow> int list \<Rightarrow> nat \<Rightarrow> profiles \<Rightarrow> (int \<times> int list \<times> profiles) option" where
  "GetProfileStringW env now section entry def_val buffer len st = GetPrivateProfileStringW env now section entry def_val buffer len (Some win_ini) st"

definition GetProfileStringA :: "penv \<Rightarrow> int \<Rightarrow> int list option \<Rightarrow> int list option \<Rightarrow> int list option \<Rightarrow> int list \<Rightarrow> nat \<Rightarrow> profiles \<Rightarrow> (int \<times> int list \<times> profiles) option" where
  "GetProfileStringA env now section entry def_val buffer len st = GetPrivateProfileStringA env now section entry def_val buffer len (Some win_ini) st"

definition GetProfileIntW :: "penv \<Rightarrow> int \<Rightarrow> wstr option \<Rightarrow> wstr option \<Rightarrow> int \<Rightarrow> profiles \<Rightarrow> (int \<times> profiles) option" where
  "GetProfileIntW env now section entry def_val st = GetPrivateProfileIntW env now section entry def_val (Some win_ini) st"

definition GetProfileIntA :: "penv \<Rightarrow> int \<Rightarrow> int list option \<Rightarrow> int list option \<Rightarrow> int \<Rightarrow> profiles \<Rightarrow> (int \<times> profiles) option" where
  "GetProfileIntA env now section entry def_val st = GetPrivateProfileIntA env now section entry def_val (Some win_ini) st"

definition GetProfileSectionW :: "penv \<Rightarrow> int \<Rightarrow> wstr option \<Rightarrow> int list \<Rightarrow> nat \<Rightarrow> profiles \<Rightarrow> (int \<times> int list \<times> profiles) option" where
  "GetProfileSectionW env now section buffer len st = GetPrivateProfileSectionW env now section buffer len (Some win_ini) st"

definition GetProfileSectionA :: "penv \<Rightarrow> int \<Rightarrow> int list option \<Rightarrow> int list \<Rightarrow> nat \<Rightarrow> profiles \<Rightarrow> (int \<times> int list \<times> profiles) option" where
  "GetProfileSectionA env now section buffer len st = GetPrivateProfileSectionA env now section buffer len (Some win_ini) st"

definition WriteProfileStringW :: "penv \<Rightarrow> int \<Rightarrow> wstr option \<Rightarrow> wstr option \<Rightarrow> wstr option \<Rightarrow> profiles \<Rightarrow> (bool \<times> profiles) option" where
  "WriteProfileStringW env now section entry val st = WritePrivateProfileStringW env now section entry val (Some win_ini) st"

definition WriteProfileStringA :: "penv \<Rightarrow> int \<Rightarrow> int list option \<Rightarrow> int list option \<Rightarrow> int list option \<Rightarrow> profiles \<Rightarrow> (bool \<times> profiles) option" where
  "WriteProfileStringA env now section entry val st = WritePrivateProfileStringA env now section entry val (Some win_ini) st"

definition WriteProfileSectionW :: "penv \<Rightarrow> int \<Rightarrow> wstr \<Rightarrow> int list \<Rightarrow> profiles \<Rightarrow> (bool \<times> profiles) option" where
  "WriteProfileSectionW env now section string st = WritePrivateProfileSectionW env now section string (Some win_ini) st"

definition WriteProfileSectionA :: "penv \<Rightarrow> int \<Rightarrow> int list option \<Rightarrow> int list option \<Rightarrow> profiles \<Rightarrow> (bool \<times> profiles) option" where
  "WriteProfileSectionA env now section string st = WritePrivateProfileSectionA env now section string (Some win_ini) st"

end
