(* ===== verification/Codepage_Distinct.thy ===== *)
theory Codepage_Distinct
  imports Codepage_Tables
begin

text \<open>
  What the tables of the code pages are like: no character occurs twice in one, and each has between 8 and 16 binary digits. The characters of
  a table are put into a binary tree that is then looked over, so that a table of 23,940 entries is checked by rewriting in less than a minute.
\<close>

section \<open>Trees of characters\<close>

datatype trie = Leaf | Node nat trie trie

fun put :: "num \<Rightarrow> trie \<Rightarrow> trie" where
  "put num.One Leaf = Node (Suc 0) Leaf Leaf"
| "put (num.Bit0 n) Leaf = Node 0 (put n Leaf) Leaf"
| "put (num.Bit1 n) Leaf = Node 0 Leaf (put n Leaf)"
| "put num.One (Node k l r) = Node (Suc k) l r"
| "put (num.Bit0 n) (Node k l r) = Node k (put n l) r"
| "put (num.Bit1 n) (Node k l r) = Node k l (put n r)"

fun join :: "trie \<Rightarrow> trie \<Rightarrow> trie" where
  "join Leaf t = t"
| "join (Node k l r) Leaf = Node k l r"
| "join (Node k l r) (Node k' l' r') = Node (k + k') (join l l') (join r r')"

primrec keys :: "int list \<Rightarrow> trie" where
  "keys [] = Leaf"
| "keys (u # us) = (if u = 0 then keys us else put (num_of_nat (nat u)) (keys us))"

fun mult :: "trie \<Rightarrow> num \<Rightarrow> nat" where
  "mult Leaf n = 0"
| "mult (Node k l r) num.One = k"
| "mult (Node k l r) (num.Bit0 n) = mult l n"
| "mult (Node k l r) (num.Bit1 n) = mult r n"

text \<open>Each number at most once, and with more than \<open>lo\<close> and at most \<open>hi\<close> binary digits.\<close>

fun good :: "nat \<Rightarrow> nat \<Rightarrow> trie \<Rightarrow> bool" where
  "good lo hi Leaf = True"
| "good lo 0 (Node k l r) = False"
| "good 0 (Suc hi) (Node k l r) = (k \<le> Suc 0 \<and> good 0 hi l \<and> good 0 hi r)"
| "good (Suc lo) (Suc hi) (Node k l r) = (k = 0 \<and> good lo hi l \<and> good lo hi r)"

lemma join_put: "join (put n s) t = put n (join s t)"
  by (induction n s arbitrary: t rule: put.induct; case_tac t) simp_all

lemma join_Leaf: "join t Leaf = t"
  by (cases t) simp_all

lemma keys_append: "keys (us @ vs) = join (keys us) (keys vs)"
  by (induction us) (simp_all add: join_put)

lemma keys_0: "keys (0 # us) = keys us" by simp
lemma keys_numeral: "keys (numeral k # us) = put k (keys us)" by (simp add: num_of_nat_numeral_eq)

lemma mult_put: "mult (put n t) m = (if m = n then Suc (mult t m) else mult t m)"
proof (induction n t arbitrary: m rule: put.induct)
  case (4 k l r m)
  then show ?case by (cases m) simp_all
next
  case (5 n k l r m)
  then show ?case by (cases m) simp_all
next
  case (6 n k l r m)
  then show ?case by (cases m) simp_all
qed (case_tac m; simp)+

lemma mult_keys: "mult (keys us) n = length (filter (\<lambda>u. u \<noteq> 0 \<and> num_of_nat (nat u) = n) us)"
  by (induction us) (auto simp: mult_put)

lemma good_mult: "good lo hi t \<Longrightarrow> mult t n \<le> 1 \<and> (0 < mult t n \<longrightarrow> 2 ^ lo \<le> nat_of_num n \<and> nat_of_num n < 2 ^ hi)"
proof (induction lo hi t arbitrary: n rule: good.induct)
  case (3 hi k l r n)
  have one: "Suc 0 < 2 * 2 ^ hi" using one_le_power [of "2 :: nat" hi] by linarith
  show ?case using "3.prems" "3.IH"(1) [of "case n of num.Bit0 m \<Rightarrow> m | _ \<Rightarrow> n"] "3.IH"(2) [of "case n of num.Bit1 m \<Rightarrow> m | _ \<Rightarrow> n"]
    by (cases n) (auto simp: one)
next
  case (4 lo hi k l r n)
  show ?case using "4.prems" "4.IH"(1) [of "case n of num.Bit0 m \<Rightarrow> m | _ \<Rightarrow> n"] "4.IH"(2) [of "case n of num.Bit1 m \<Rightarrow> m | _ \<Rightarrow> n"]
    by (cases n) auto
qed simp_all

section \<open>Tables\<close>

definition table_ok :: "int list \<Rightarrow> bool" where
  "table_ok T \<longleftrightarrow> (\<forall>u\<in>set T. u = 0 \<or> 0x80 \<le> u \<and> u < 65536) \<and> (\<forall>i < length T. \<forall>j < length T. T ! i = T ! j \<and> T ! i \<noteq> 0 \<longrightarrow> i = j)"

lemma good_table_ok:
  assumes "good 7 16 (keys T)"
  shows "table_ok T"
proof -
  let ?P = "\<lambda>n u. u \<noteq> 0 \<and> num_of_nat (nat u) = n"
  have m: "length (filter (?P n) T) \<le> 1" and r: "length (filter (?P n) T) \<noteq> 0 \<Longrightarrow> 128 \<le> nat_of_num n \<and> nat_of_num n < 65536" for n
    using good_mult [OF assms, of n] by (auto simp: mult_keys)
  have "u = 0 \<or> 0x80 \<le> u \<and> u < 65536" if "u \<in> set T" for u
  proof (cases "u = 0")
    case False
    then have "filter (?P (num_of_nat (nat u))) T \<noteq> []" using that by (auto simp: filter_empty_conv)
    then have r: "128 \<le> nat_of_num (num_of_nat (nat u))" "nat_of_num (num_of_nat (nat u)) < 65536" using r by auto
    then have "0 < nat u" by (cases "nat u") simp_all
    then show ?thesis using r unfolding num_of_nat_inverse [OF \<open>0 < nat u\<close>] by linarith
  qed simp
  moreover have "i = j" if i: "i < length T" "j < length T" "T ! i = T ! j" "T ! i \<noteq> 0" for i j
  proof -
    let ?I = "{k. k < length T \<and> ?P (num_of_nat (nat (T ! i))) (T ! k)}"
    have "card ?I \<le> Suc 0" using m [of "num_of_nat (nat (T ! i))"] by (simp add: length_filter_conv_card)
    then have "\<forall>x\<in>?I. \<forall>y\<in>?I. x = y" by (subst (asm) card_le_Suc0_iff_eq) simp_all
    then show ?thesis using i by auto
  qed
  ultimately show ?thesis unfolding table_ok_def by blast
qed

lemma seven_of_sixteen: "good 7 16 = good (Suc (Suc (Suc (Suc (Suc (Suc (Suc 0)))))))
    (Suc (Suc (Suc (Suc (Suc (Suc (Suc (Suc (Suc (Suc (Suc (Suc (Suc (Suc (Suc (Suc 0))))))))))))))))"
  by (simp only: eval_nat_numeral BitM.simps numeral_One Suc_numeral One_nat_def numeral_eq_Suc pred_numeral_simps)

lemmas tree_eqs = keys.simps(1) keys_0 keys_numeral keys_append put.simps join.simps join_Leaf good.simps le0 order_refl add_0 add_0_right simp_thms

lemmas parts936 =
  kCP936_part0_def kCP936_part1_def kCP936_part2_def kCP936_part3_def kCP936_part4_def kCP936_part5_def kCP936_part6_def
  kCP936_part7_def kCP936_part8_def kCP936_part9_def kCP936_part10_def kCP936_part11_def kCP936_part12_def kCP936_part13_def
  kCP936_part14_def kCP936_part15_def kCP936_part16_def kCP936_part17_def kCP936_part18_def kCP936_part19_def

lemmas singles =
  kCP1250ToUnicode_def kCP1251ToUnicode_def kCP1252ToUnicode_def kCP1253ToUnicode_def kCP1254ToUnicode_def
  kCP1255ToUnicode_def kCP1256ToUnicode_def kCP1257ToUnicode_def kCP1258ToUnicode_def

lemma kCP936ToUnicode_ok: "table_ok kCP936ToUnicode"
proof (rule good_table_ok)
  show "good 7 16 (keys kCP936ToUnicode)"
    unfolding seven_of_sixteen kCP936ToUnicode_def by (simp only: parts936 tree_eqs)
qed

lemma length_kCP936_part0: "length kCP936_part0 = 1200"
  by (simp add: kCP936_part0_def)

lemma length_kCP936_part1: "length kCP936_part1 = 1200"
  by (simp add: kCP936_part1_def)

lemma length_kCP936_part2: "length kCP936_part2 = 1200"
  by (simp add: kCP936_part2_def)

lemma length_kCP936_part3: "length kCP936_part3 = 1200"
  by (simp add: kCP936_part3_def)

lemma length_kCP936_part4: "length kCP936_part4 = 1200"
  by (simp add: kCP936_part4_def)

lemma length_kCP936_part5: "length kCP936_part5 = 1200"
  by (simp add: kCP936_part5_def)

lemma length_kCP936_part6: "length kCP936_part6 = 1200"
  by (simp add: kCP936_part6_def)

lemma length_kCP936_part7: "length kCP936_part7 = 1200"
  by (simp add: kCP936_part7_def)

lemma length_kCP936_part8: "length kCP936_part8 = 1200"
  by (simp add: kCP936_part8_def)

lemma length_kCP936_part9: "length kCP936_part9 = 1200"
  by (simp add: kCP936_part9_def)

lemma length_kCP936_part10: "length kCP936_part10 = 1200"
  by (simp add: kCP936_part10_def)

lemma length_kCP936_part11: "length kCP936_part11 = 1200"
  by (simp add: kCP936_part11_def)

lemma length_kCP936_part12: "length kCP936_part12 = 1200"
  by (simp add: kCP936_part12_def)

lemma length_kCP936_part13: "length kCP936_part13 = 1200"
  by (simp add: kCP936_part13_def)

lemma length_kCP936_part14: "length kCP936_part14 = 1200"
  by (simp add: kCP936_part14_def)

lemma length_kCP936_part15: "length kCP936_part15 = 1200"
  by (simp add: kCP936_part15_def)

lemma length_kCP936_part16: "length kCP936_part16 = 1200"
  by (simp add: kCP936_part16_def)

lemma length_kCP936_part17: "length kCP936_part17 = 1200"
  by (simp add: kCP936_part17_def)

lemma length_kCP936_part18: "length kCP936_part18 = 1200"
  by (simp add: kCP936_part18_def)

lemma length_kCP936_part19: "length kCP936_part19 = 1140"
  by (simp add: kCP936_part19_def)

lemma length_936: "length kCP936ToUnicode = 23940"
  by (simp add: kCP936ToUnicode_def length_kCP936_part0 length_kCP936_part1 length_kCP936_part2 length_kCP936_part3 length_kCP936_part4 length_kCP936_part5 length_kCP936_part6
    length_kCP936_part7 length_kCP936_part8 length_kCP936_part9 length_kCP936_part10 length_kCP936_part11 length_kCP936_part12 length_kCP936_part13
    length_kCP936_part14 length_kCP936_part15 length_kCP936_part16 length_kCP936_part17 length_kCP936_part18 length_kCP936_part19)

lemma single_tables:
  assumes "builtinSingleByteTable p = Some T"
  shows "length T = 128 \<and> table_ok T"
proof -
  have "length T = 128 \<and> good 7 16 (keys T)" if "T \<in> {kCP1250ToUnicode, kCP1251ToUnicode, kCP1252ToUnicode, kCP1253ToUnicode, kCP1254ToUnicode, kCP1255ToUnicode, kCP1256ToUnicode, kCP1257ToUnicode, kCP1258ToUnicode}"
    using that unfolding seven_of_sixteen by (elim insertE emptyE) (simp_all only: singles tree_eqs, simp_all)
  moreover have "T \<in> {kCP1250ToUnicode, kCP1251ToUnicode, kCP1252ToUnicode, kCP1253ToUnicode, kCP1254ToUnicode, kCP1255ToUnicode, kCP1256ToUnicode, kCP1257ToUnicode, kCP1258ToUnicode}"
    using assms by (simp add: builtinSingleByteTable_def split: if_splits)
  ultimately show ?thesis using good_table_ok by blast
qed

end
