(* ===== verification/Codepage_Props.thy ===== *)
theory Codepage_Props
  imports Codepage_Model Codepage_Distinct Uniconv_Props
begin

text \<open>
  The built-in code pages, with the tables as they are in the source: encoding undoes decoding, but for the first pair of
  bytes of code page 936; and the string helpers.
\<close>

section \<open>Looking up the table of code page 936\<close>

lemma find_least:
  "sorted L \<Longrightarrow> e \<in> set L \<Longrightarrow> k \<le> e \<Longrightarrow> (\<And>x. x \<in> set L \<Longrightarrow> k \<le> x \<Longrightarrow> e \<le> x) \<Longrightarrow> List.find (\<lambda>x. k \<le> x) L = Some (e :: int)"
proof (induction L)
  case (Cons x L)
  show ?case
  proof (cases "k \<le> x")
    case True
    then have "e \<le> x" using Cons.prems(4) by simp
    moreover have "x \<le> e" using Cons.prems(1,2) by auto
    ultimately show ?thesis using True by simp
  next
    case False
    then show ?thesis using Cons by auto
  qed
qed simp

lemma reverse_map_set:
  "e \<in> set cp936ReverseMap \<longleftrightarrow> (\<exists>i < length kCP936ToUnicode. e = kCP936ToUnicode ! i * 65536 + int i \<and> kCP936ToUnicode ! i \<noteq> 0)"
proof -
  let ?T = "kCP936ToUnicode"
  have z: "set (zip ?T [0..<length ?T]) = (\<lambda>i. (?T ! i, i)) ` {..<length ?T}" by (auto simp: set_zip)
  show ?thesis unfolding cp936ReverseMap_def by (simp only: set_sort set_map set_filter z) auto
qed

lemmas T936 = kCP936ToUnicode_ok [unfolded table_ok_def]

lemma cp936Encode_index:
  assumes i: "i < length kCP936ToUnicode" "kCP936ToUnicode ! i \<noteq> 0"
  shows "cp936Encode (kCP936ToUnicode ! i) = int i"
proof -
  let ?T = "kCP936ToUnicode" let ?u = "?T ! i"
  have u: "0x80 \<le> ?u" "?u < 65536" using T936 i by (meson nth_mem)+
  have i2: "int i < 65536" using i(1) by (simp add: length_936)
  have "List.find (\<lambda>e. e \<ge> ?u * 65536) (cp936ReverseMap) = Some (?u * 65536 + int i)"
  proof (rule find_least)
    show "sorted (cp936ReverseMap)" by (simp add: cp936ReverseMap_def)
    show "?u * 65536 + int i \<in> set cp936ReverseMap" using i by (auto simp: reverse_map_set)
    fix x assume "x \<in> set cp936ReverseMap" "?u * 65536 \<le> x"
    then obtain j where j: "j < length ?T" "x = ?T ! j * 65536 + int j" "?T ! j \<noteq> 0" by (auto simp: reverse_map_set)
    have "int j < 65536" using j(1) by (simp add: length_936)
    then have "?u \<le> ?T ! j" using \<open>?u * 65536 \<le> x\<close> j(2) by auto
    show "?u * 65536 + int i \<le> x"
    proof (cases "?u = ?T ! j")
      case True
      then have "i = j" using T936 i j(1) by blast
      then show ?thesis using j(2) by simp
    next
      case False
      then show ?thesis using \<open>?u \<le> ?T ! j\<close> j(2) i2 by auto
    qed
  qed simp
  moreover have "(?u * 65536 + int i) div 65536 = ?u" "(?u * 65536 + int i) mod 65536 = int i" using i2 by (simp_all add: add.commute)
  ultimately show ?thesis using u by (simp add: cp936Encode_def)
qed

text \<open>A pair of bytes and its index.\<close>

lemma pair_encode:
  assumes b: "0 \<le> d" "d < 256" and p: "cp936_pair c d \<noteq> 0" "cp936_pair c d \<noteq> kCP936ToUnicode ! 0"
  shows "cp936_bytes (cp936_pair c d) = [c, d]"
proof -
  let ?i = "(c - 0x81) * 190 + cp936TrailIndex d"
  have c: "0x81 \<le> c" "c \<le> 0xFE" "0 \<le> cp936TrailIndex d" using p(1) by (auto simp: cp936_pair_def kCP936LeadFirst_def kCP936LeadLast_def split: if_splits)
  then have u: "cp936_pair c d = kCP936ToUnicode ! nat ?i"
    by (simp add: cp936_pair_def kCP936LeadFirst_def kCP936LeadLast_def kCP936TrailCount_def)
  have tr: "cp936TrailIndex d < 190" by (simp add: cp936TrailIndex_def)
  have i: "nat ?i < length kCP936ToUnicode" using c tr by (simp add: length_936)
  have "cp936_pair c d \<in> set kCP936ToUnicode" using i u by simp
  then have ge: "0x80 \<le> cp936_pair c d" using T936 p(1) by blast
  have e: "cp936Encode (cp936_pair c d) = ?i" using cp936Encode_index [OF i] p(1) u c by simp
  have "?i \<noteq> 0" using p(2) u by (metis nat_0)
  moreover have "(cp936TrailIndex d + (c - 0x81) * 190) div 190 = c - 0x81" "(cp936TrailIndex d + (c - 0x81) * 190) mod 190 = cp936TrailIndex d"
    using c(3) tr by (simp_all only: div_mult_self1 mod_mult_self1) simp_all
  then have "?i div 190 = c - 0x81" "?i mod 190 = cp936TrailIndex d" by (simp_all only: add.commute)
  moreover have "to_char c = c" using c by (simp add: to_char_def)
  moreover have "to_char (if cp936TrailIndex d < 63 then 0x40 + cp936TrailIndex d else 0x80 + cp936TrailIndex d - 63) = d"
    using c(3) b by (auto simp: cp936TrailIndex_def to_char_def split: if_splits)
  ultimately show ?thesis using ge e
    by (cases "cp936TrailIndex d < 63") (simp_all add: cp936_bytes_def Let_def kCP936LeadFirst_def kCP936TrailCount_def)
qed

lemma cp936_decode_encode:
  "cp936_decode s = (us, 0) \<Longrightarrow> \<forall>c\<in>set s. 0 \<le> c \<and> c < 256 \<Longrightarrow> kCP936ToUnicode ! 0 \<notin> set us \<Longrightarrow> concat (map cp936_bytes us) = s"
proof (induction s arbitrary: us rule: cp936_decode.induct)
  case (2 c s)
  show ?case
  proof (cases "c < 0x80")
    case True
    then obtain vs where "cp936_decode s = (vs, 0)" "us = c # vs" using "2.prems"(1) by (auto split: prod.splits)
    then show ?thesis using "2.IH"(1) [OF True] "2.prems" True by (simp add: cp936_bytes_def to_char_def)
  next
    case False
    then obtain d s2 where s: "s = d # s2" using "2.prems"(1) by (cases s) auto
    show ?thesis
    proof (cases "cp936_pair c d \<noteq> 0")
      case True
      then obtain vs where v: "cp936_decode s2 = (vs, 0)" "us = cp936_pair c d # vs" using "2.prems"(1) False s by (auto split: prod.splits)
      have "cp936_bytes (cp936_pair c d) = [c, d]" using pair_encode [OF _ _ True] "2.prems"(2,3) s v(2) by auto
      then show ?thesis using "2.IH"(2) [OF False s True v(1)] "2.prems"(2,3) s v(2) by simp
    next
      case no: False
      then show ?thesis using "2.prems"(1) False s by (auto split: prod.splits)
    qed
  qed
qed simp

section \<open>The other pages\<close>

lemma find_only:
  assumes "P i" "i < n" "\<And>j. j < n \<Longrightarrow> P j \<Longrightarrow> j = i"
  shows "List.find P [0..<n] = Some i"
proof -
  have "\<not> P ([0..<n] ! j)" if "j < i" for j using assms(2) assms(3) [of j] that by auto
  then show ?thesis using assms(1,2) unfolding find_Some_iff by (intro exI [of _ i] conjI allI impI) simp_all
qed

lemma single_encode:
  assumes "length T = 128" "table_ok T" "0 \<le> c" "c < 256" "single_decode T c = (u, False)"
  shows "single_byte T u = c"
proof (cases "c < 0x80")
  case True
  then show ?thesis using assms(3,5) by (auto simp: single_decode_def single_byte_def to_char_def)
next
  case False
  then have u: "u = T ! nat (c - 0x80)" "u \<noteq> 0" and i: "nat (c - 0x80) < 128" using assms(4,5) by (auto simp: single_decode_def Let_def split: if_splits)
  then have "u \<in> set T" using assms(1) by simp
  then have ge: "0x80 \<le> u" using assms(2) u(2) by (auto simp: table_ok_def)
  have "List.find (\<lambda>b. T ! b = u) [0..<128] = Some (nat (c - 0x80))"
    by (rule find_only) (use u i assms(1,2) in \<open>auto simp: table_ok_def\<close>)
  then show ?thesis using ge False by (simp add: single_byte_def)
qed

section \<open>Round trip\<close>

lemma first_of_936: "kCP936ToUnicode ! 0 = 0x4E02" "kCP936ToUnicode ! Suc 0 = 0x4E04"
  unfolding kCP936ToUnicode_def kCP936_part0_def by simp_all

lemma builtin_roundtrip:
  assumes "hasBuiltinTable p" "\<forall>c\<in>set s. 0 \<le> c \<and> c < 256" "builtinToUnicode p s = (us, 0)" "p = 936 \<Longrightarrow> 0x4E02 \<notin> set us"
  shows "builtinToMb p us = s"
proof (cases "p = 936")
  case True
  then show ?thesis using cp936_decode_encode [of s us] assms by (simp add: first_of_936 builtinToUnicode_def builtinToMb_def)
next
  case False
  then obtain T where T: "builtinSingleByteTable p = Some T" using assms(1) by (auto simp: hasBuiltinTable_def)
  have us: "us = map (fst \<circ> single_decode T) s" "\<forall>c\<in>set s. \<not> snd (single_decode T c)"
    using assms(3) False T by (auto simp: builtinToUnicode_def filter_empty_conv)
  have "single_byte T (fst (single_decode T c)) = c" if "c \<in> set s" for c
    using single_encode [of T c "fst (single_decode T c)"] single_tables [OF T] assms(2) us(2) that by (auto simp: prod_eq_iff)
  then show ?thesis using False T us(1) by (simp add: builtinToMb_def map_idI)
qed

lemma builtin_pages: "hasBuiltinTable p \<Longrightarrow> p \<in> {936, 1250, 1251, 1252, 1253, 1254, 1255, 1256, 1257, 1258}"
  by (auto simp: hasBuiltinTable_def builtinSingleByteTable_def split: if_splits)

text \<open>C31: where the system's \<^verbatim>\<open>iconv\<close> does not know a code page that has a built-in table, bytes which \<open>MultiByteToWideChar\<close> converts without
  an error to wide characters come back from \<open>WideCharToMultiByte\<close> as the same bytes in a destination of their length; on code page 936 if U+4E02 is not
  among the characters.\<close>

theorem codepage_roundtrip:
  assumes "iconv_to_unicode cs p = None" and "iconv_to_mb cs p = None" and "hasBuiltinTable p" and "\<forall>c\<in>set s. 0 \<le> c \<and> c < 256"
    and "MultiByteToWideChar cs p True s (Some n) = Some (k, us)" and "0 < k" and "p = 936 \<Longrightarrow> 0x4E02 \<notin> set us"
  shows "WideCharToMultiByte cs p (take k us) False (Some (length s)) = (length s, s)"
proof -
  note page = builtin_pages [OF assms(3)]
  have p: "p \<noteq> CP_OEMCP" "p \<noteq> CP_ACP" "p \<noteq> CP_UTF8" using page by (auto simp: CP_OEMCP_def CP_ACP_def CP_UTF8_def)
  obtain str bad where d: "builtinToUnicode p s = (str, bad)" by (meson surj_pair)
  have tu: "to_unicode cs p s = (str, bad)" using page assms(1,3) d by (auto simp: to_unicode_def)
  have r: "bad = 0" "k = length str" "us = with_end n str" using assms(5,6) p tu by (auto simp: MultiByteToWideChar_def split: if_splits)
  then have str: "take k us = str" "set str \<subseteq> set us" by (auto simp: with_end_def)
  have enc: "builtinToMb p str = s" using builtin_roundtrip [OF assms(3,4)] d r(1) str(2) assms(7) by blast
  have "to_mb cs p str = s" using page assms(2,3) enc by (auto simp: to_mb_def)
  moreover have "s \<noteq> []" using d r(2) assms(6) by (auto simp: builtinToUnicode_def split: if_splits option.splits)
  ultimately show ?thesis using p str(1) by (simp add: WideCharToMultiByte_def with_end_def)
qed

text \<open>A system without \<^verbatim>\<open>iconv\<close>; an A and the character of the second pair of bytes.\<close>

definition no_iconv :: cp_system where
  "no_iconv = \<lparr>iconv_to_unicode = \<lambda>_. None, iconv_to_mb = \<lambda>_. None\<rparr>"

lemma decode_second: "builtinToUnicode 936 [0x41, 0x81, 0x41] = ([0x41, 0x4E04], 0)"
  by (simp add: builtinToUnicode_def first_of_936 cp936_pair_def kCP936LeadFirst_def kCP936LeadLast_def kCP936TrailCount_def cp936TrailIndex_def)

theorem codepage_roundtrip_witness:
  "MultiByteToWideChar no_iconv 936 True [0x41, 0x81, 0x41] (Some 8) = Some (2, [0x41, 0x4E04, 0])
   \<and> WideCharToMultiByte no_iconv 936 [0x41, 0x4E04] False (Some 3) = (3, [0x41, 0x81, 0x41])"
proof -
  have b: "hasBuiltinTable 936" by (simp add: hasBuiltinTable_def)
  have m: "MultiByteToWideChar no_iconv 936 True [0x41, 0x81, 0x41] (Some 8) = Some (2, [0x41, 0x4E04, 0])"
    using b decode_second
    by (simp add: MultiByteToWideChar_def to_unicode_def no_iconv_def with_end_def CP_OEMCP_def CP_ACP_def CP_UTF8_def)
  show ?thesis using codepage_roundtrip [OF _ _ b _ m] m by (simp add: no_iconv_def numeral_3_eq_3 numeral_2_eq_2)
qed

text \<open>The character at the start of the table of code page 936 decodes but does not encode: index 0 stands for failure.\<close>

theorem cp936_first_lost:
  "builtinToUnicode 936 [0x81, 0x40] = ([0x4E02], 0) \<and> builtinToMb 936 [0x4E02] = [63]"
proof -
  have "0 < length kCP936ToUnicode" by (simp add: length_936)
  then show ?thesis using cp936Encode_index [of 0]
    by (simp add: first_of_936 builtinToUnicode_def builtinToMb_def cp936_bytes_def cp936_pair_def cp936TrailIndex_def kCP936LeadFirst_def kCP936LeadLast_def)
qed

section \<open>Strings\<close>

lemma UTF32toUTF8Length_exact: "length (UTF8FromUTF32 us) = UTF32toUTF8Length us"
  by (induction us) simp_all

lemma UTF32Length_encoded: "\<forall>u\<in>set us. 0 \<le> u \<and> u < 0x200000 \<Longrightarrow> UTF32Length (UTF8FromUTF32 us) = (length us, None)"
proof (induction us)
  case (Cons u us)
  have u: "0 \<le> u" "u < 0x200000" using Cons.prems by auto
  have IH: "UTF32Length (UTF8FromUTF32 us) = (length us, None)" using Cons by simp
  consider "u < 0x80" | "0x80 \<le> u" "u < 0x800" | "0x800 \<le> u" "u < 0x10000" | "0x10000 \<le> u" by linarith
  then show ?case
  proof cases
    case 1
    then show ?thesis using u IH by (simp add: to_char_def UTF8CharLength_def)
  next
    case 2
    then obtain a b where "enc2 u = [192 + a, 128 + b]" "0 \<le> a" "a < 32" by (rule enc2_bytes)
    then show ?thesis using 2 IH by (simp add: UTF8CharLength_def)
  next
    case 3
    then obtain a b c where "enc3 u = [224 + a, 128 + b, 128 + c]" "0 \<le> a" "a < 16" by (rule enc3_bytes)
    then show ?thesis using 3 IH by (simp add: UTF8CharLength_def)
  next
    case 4
    then obtain a b c d where "enc4 u = [240 + a, 128 + b, 128 + c, 128 + d]" "0 \<le> a" using u(2) by (rule enc4_bytes)
    then show ?thesis using 4 u IH by (simp add: UTF8CharLength_def)
  qed
qed simp

definition is_text :: "int list \<Rightarrow> bool" where
  "is_text us \<longleftrightarrow> (\<forall>u\<in>set us. 0 \<le> u \<and> u < 0x200000)"

lemma encode_text: "WideCharToMultiByte cs p us False None = (length (UTF8FromUTF32 us), [])"
    "WideCharToMultiByte cs p us False (Some (length (UTF8FromUTF32 us))) = (length (UTF8FromUTF32 us), UTF8FromUTF32 us)"
  if "p = CP_ACP \<or> p = CP_UTF8"
  using that by (auto simp: WideCharToMultiByte_def Let_def UTF32toUTF8Length_exact with_end_def CP_ACP_def CP_OEMCP_def CP_UTF8_def)

lemma decode_text:
  assumes "is_text us" "p = CP_ACP \<or> p = CP_UTF8"
  shows "MultiByteToWideChar cs p strict (UTF8FromUTF32 us) None = Some (length us, [])"
    "MultiByteToWideChar cs p strict (UTF8FromUTF32 us) (Some (length us)) = Some (length us, us)"
  using assms UTF32Length_encoded [of us] UTF32_roundtrip [of us "length us"]
  by (auto simp: MultiByteToWideChar_def Let_def is_text_def with_end_def CP_ACP_def CP_OEMCP_def CP_UTF8_def)

lemma tostring_bytes: "tostring cs us = UTF8FromUTF32 us"
  by (simp add: tostring_def encode_text filled_def)

lemma towstring_tostring: "is_text us \<Longrightarrow> towstring cs (tostring cs us) = Some us"
  by (simp add: tostring_bytes towstring_def decode_text filled_def)

end
