(* ===== verification/Profile_Props.thy ===== *)
theory Profile_Props
  imports Profile_Api Codepage_Props
begin

text \<open>
  Ini files: what is saved is read back as the same tree, in the two encodings by bytes; and a concrete system.
\<close>

section \<open>Trees that can be written and read\<close>

definition plain :: "wstr \<Rightarrow> bool" where
  "plain s \<longleftrightarrow> (\<forall>c\<in>set s. 0 < c \<and> c < 0x200000 \<and> \<not> is_newline c)"

definition trimmed :: "wstr \<Rightarrow> bool" where
  "trimmed s \<longleftrightarrow> s = [] \<or> \<not> PROFILE_isspaceW (List.hd s) \<and> \<not> PROFILE_isspaceW (last s)"

definition key_ok :: "PROFILEKEY \<Rightarrow> bool" where
  "key_ok k \<longleftrightarrow> plain (pk_name k) \<and> trimmed (pk_name k) \<and> 61 \<notin> set (pk_name k) \<and> (pk_name k = [] \<longrightarrow> pk_value k \<noteq> None)
     \<and> (\<forall>v. pk_value k = Some v \<longrightarrow> plain v \<and> trimmed v)
     \<and> (pk_name k \<noteq> [] \<and> List.hd (pk_name k) = 91 \<longrightarrow> 93 \<notin> set (key_text k))"

text \<open>No two keys without a name follow each other; the first argument tells whether one is in front.\<close>

fun named :: "bool \<Rightarrow> PROFILEKEY list \<Rightarrow> bool" where
  "named e [] \<longleftrightarrow> True"
| "named e (k # ks) \<longleftrightarrow> (e \<longrightarrow> pk_name k \<noteq> []) \<and> named (pk_name k = []) ks"

definition section_ok :: "PROFILESECTION \<Rightarrow> bool" where
  "section_ok s \<longleftrightarrow> plain (ps_name s) \<and> (\<forall>k\<in>set (ps_keys s). key_ok k) \<and> named False (ps_keys s)"

definition tree_ok :: "PROFILESECTION list \<Rightarrow> bool" where
  "tree_ok ss \<longleftrightarrow> (\<forall>s\<in>set ss. section_ok s) \<and> (\<forall>s\<in>set (tl ss). ps_name s \<noteq> [])"

text \<open>A tree that is read begins with a nameless section.\<close>

definition normal :: "PROFILESECTION list \<Rightarrow> PROFILESECTION list" where
  "normal ss = (if ss \<noteq> [] \<and> ps_name (List.hd ss) = [] then ss else \<lparr>ps_name = [], ps_keys = []\<rparr> # ss)"

definition mem_ok :: "penv \<Rightarrow> bool" where
  "mem_ok env \<longleftrightarrow> (\<forall>n. pe_mem env n)"

section \<open>One line\<close>

lemma cstr_plain: "plain s \<Longrightarrow> cstr s = s"
  by (auto simp: cstr_def plain_def takeWhile_eq_all_conv)

lemma lstrip_id: "s = [] \<or> \<not> PROFILE_isspaceW (List.hd s) \<Longrightarrow> lstrip s = s"
  by (cases s) (auto simp: lstrip_def)

lemma rstrip_id: "s = [] \<or> \<not> PROFILE_isspaceW (last s) \<Longrightarrow> rstrip s = s"
  by (cases s rule: rev_cases) (auto simp: rstrip_def)

lemma space_break [simp]: "PROFILE_isspaceW 13" "PROFILE_isspaceW 10" "\<not> PROFILE_isspaceW 61" "\<not> PROFILE_isspaceW 91" "\<not> PROFILE_isspaceW 93"
  by (simp_all add: PROFILE_isspaceW_def)

lemma newline_13_10 [simp]: "is_newline 13" "is_newline 10"
  by (simp_all add: is_newline_def)

definition starts_line :: "wstr \<Rightarrow> bool" where
  "starts_line r \<longleftrightarrow> r = [] \<or> \<not> is_newline (List.hd r)"

lemma next_line_break:
  assumes "plain l" "starts_line r"
  shows "next_line (l @ [13, 10] @ r) = r" "this_line (l @ [13, 10] @ r) = l @ [13, 10]"
proof -
  have "dropWhile (\<lambda>c. \<not> is_newline c) (l @ 13 # 10 # r) = 13 # 10 # r" using assms(1) by (simp add: plain_def dropWhile_append2)
  moreover have "dropWhile is_newline r = r" using assms(2) by (cases r) (auto simp: starts_line_def)
  ultimately show n: "next_line (l @ [13, 10] @ r) = r" by (simp add: next_line_def)
  show "this_line (l @ [13, 10] @ r) = l @ [13, 10]" by (simp add: this_line_def n [simplified])
qed

lemma strip_break: "l \<noteq> [] \<Longrightarrow> trimmed l \<Longrightarrow> rstrip (lstrip (l @ [13, 10])) = l"
proof -
  assume l: "l \<noteq> []" "trimmed l"
  then have "lstrip (l @ [13, 10]) = l @ [13, 10]" by (intro lstrip_id) (auto simp: trimmed_def)
  moreover have "rstrip (l @ [13, 10]) = rstrip l" by (simp add: rstrip_def)
  moreover have "rstrip l = l" using l by (intro rstrip_id) (auto simp: trimmed_def)
  ultimately show ?thesis by simp
qed

lemma load_loop_line:
  assumes "plain l" "trimmed l" "l \<noteq> []" "starts_line r" "load_line env l ss = Some (True, ss1)"
  shows "load_loop env (l @ [13, 10] @ r) ss = load_loop env r ss1"
  using assms next_line_break [OF assms(1,4)] strip_break [OF assms(3,2)]
  by (subst load_loop.simps) simp

section \<open>The lines of a tree\<close>

definition key_line :: "PROFILEKEY \<Rightarrow> wstr" where
  "key_line k = pk_name k @ (case pk_value k of None \<Rightarrow> [] | Some v \<Rightarrow> 61 # v)"

lemma key_text_line: "key_text k = key_line k @ [13, 10]"
  by (simp add: key_text_def key_line_def)

lemma key_line_ok: "key_ok k \<Longrightarrow> plain (key_line k) \<and> trimmed (key_line k) \<and> key_line k \<noteq> []"
  by (cases "pk_name k = []"; cases "pk_value k") (auto simp: key_ok_def key_line_def plain_def trimmed_def is_newline_def)

lemma split_key_line: "key_ok k \<Longrightarrow> split_line (key_line k) = (pk_name k, pk_value k)"
proof (cases "pk_value k")
  case None
  then show "key_ok k \<Longrightarrow> ?thesis" by (simp add: key_ok_def key_line_def split_line_def)
next
  case (Some v)
  assume k: "key_ok k"
  then have n: "61 \<notin> set (pk_name k)" "rstrip (pk_name k) = pk_name k" "lstrip v = v" using Some
    by (auto simp: key_ok_def trimmed_def intro: rstrip_id lstrip_id)
  have "takeWhile ((\<noteq>) 61) (pk_name k @ 61 # v) = pk_name k" "dropWhile ((\<noteq>) 61) (pk_name k @ 61 # v) = 61 # v"
    using n(1) by (auto simp: takeWhile_append dropWhile_append)
  then show ?thesis using Some n(2,3) by (simp add: split_line_def key_line_def)
qed

lemma load_key_line:
  assumes m: "mem_ok env" and k: "key_ok k" and e: "ps_keys (last ss) = [] \<or> pk_name (last (ps_keys (last ss))) \<noteq> [] \<or> pk_name k \<noteq> []"
  shows "load_line env (key_line k) ss = Some (True, add_key k ss)"
proof -
  have "\<not> (key_line k ! 0 = 91 \<and> 93 \<in> set (key_line k))"
  proof (cases "pk_name k")
    case Nil
    then show ?thesis using k by (auto simp: key_ok_def key_line_def)
  next
    case (Cons c n)
    then show ?thesis using k by (auto simp: key_ok_def key_line_def key_text_def)
  qed
  moreover have "key_line k \<noteq> []" using key_line_ok [OF k] by simp
  moreover have "cstr (pk_name k) = pk_name k" "\<And>v. pk_value k = Some v \<Longrightarrow> cstr v = v" using k by (auto simp: key_ok_def cstr_plain)
  ultimately show ?thesis using split_key_line [OF k] m e
    by (cases k; cases "pk_value k") (auto simp: load_line_def mem_ok_def)
qed

lemma load_header:
  assumes "mem_ok env" "plain n"
  shows "load_line env (91 # n @ [93]) ss = Some (True, ss @ [\<lparr>ps_name = n, ps_keys = []\<rparr>])"
  using assms by (simp add: load_line_def header_name_def mem_ok_def cstr_plain)

lemma load_keys:
  assumes m: "mem_ok env" and r: "starts_line r"
  shows "\<forall>k\<in>set ks. key_ok k \<Longrightarrow> named (ps_keys s \<noteq> [] \<and> pk_name (last (ps_keys s)) = []) ks \<Longrightarrow>
    load_loop env (concat (map key_text ks) @ r) (ss @ [s]) = load_loop env r (ss @ [s\<lparr>ps_keys := ps_keys s @ ks\<rparr>])"
proof (induction ks arbitrary: s)
  case (Cons k ks)
  have k: "key_ok k" using Cons.prems(1) by simp
  note l = key_line_ok [OF k]
  have "starts_line (concat (map key_text ks) @ r)"
  proof (cases ks)
    case (Cons k' ks')
    then have "key_ok k'" using Cons.prems(1) by simp
    then show ?thesis using key_line_ok [of k'] Cons by (auto simp: starts_line_def key_text_line plain_def)
  qed (use r in simp)
  moreover have "load_line env (key_line k) (ss @ [s]) = Some (True, add_key k (ss @ [s]))"
    by (rule load_key_line [OF m k]) (use Cons.prems(2) in auto)
  ultimately have "load_loop env (key_line k @ [13, 10] @ concat (map key_text ks) @ r) (ss @ [s])
      = load_loop env (concat (map key_text ks) @ r) (ss @ [s\<lparr>ps_keys := ps_keys s @ [k]\<rparr>])"
    using load_loop_line l by (simp add: add_key_def)
  also have "\<dots> = load_loop env r (ss @ [s\<lparr>ps_keys := ps_keys s @ [k]\<rparr>\<lparr>ps_keys := ps_keys (s\<lparr>ps_keys := ps_keys s @ [k]\<rparr>) @ ks\<rparr>])"
    by (rule Cons.IH) (use Cons.prems in simp_all)
  finally show ?case by (simp add: key_text_line [of k])
qed simp

section \<open>The text of a tree\<close>

definition tree_text :: "PROFILESECTION list \<Rightarrow> wstr" where
  "tree_text ss = concat (map section_text ss)"

lemma starts_tree: "\<forall>s\<in>set ss. ps_name s \<noteq> [] \<Longrightarrow> starts_line (tree_text ss)"
  by (cases ss) (auto simp: tree_text_def section_text_def starts_line_def is_newline_def)

lemma load_sections:
  "mem_ok env \<Longrightarrow> \<forall>s\<in>set ss. section_ok s \<and> ps_name s \<noteq> [] \<Longrightarrow> load_loop env (tree_text ss) acc = Some (acc @ ss)"
proof (induction ss arbitrary: acc)
  case Nil
  then show ?case by (simp add: tree_text_def load_loop.simps)
next
  case (Cons s ss)
  let ?e = "\<lparr>ps_name = ps_name s, ps_keys = []\<rparr>" let ?r = "concat (map key_text (ps_keys s)) @ tree_text ss"
  have st: "starts_line (tree_text ss)" using Cons.prems(2) by (intro starts_tree) simp
  have "starts_line ?r"
  proof (cases "ps_keys s")
    case (Cons k ks)
    then have "key_ok k" using Cons.prems(2) by (simp add: section_ok_def)
    then show ?thesis using key_line_ok [of k] Cons by (auto simp: starts_line_def key_text_line plain_def)
  qed (use st in simp)
  moreover have "plain (91 # ps_name s @ [93])" "trimmed (91 # ps_name s @ [93])" "plain (ps_name s)"
    using Cons.prems(2) by (auto simp: section_ok_def plain_def trimmed_def is_newline_def)
  ultimately have "load_loop env ((91 # ps_name s @ [93]) @ [13, 10] @ ?r) acc = load_loop env ?r (acc @ [?e])"
    using load_loop_line load_header [OF Cons.prems(1)] by blast
  also have "\<dots> = load_loop env (tree_text ss) (acc @ [?e\<lparr>ps_keys := ps_keys ?e @ ps_keys s\<rparr>])"
    by (rule load_keys [OF Cons.prems(1) st]) (use Cons.prems(2) in \<open>simp_all add: section_ok_def\<close>)
  also have "?e\<lparr>ps_keys := ps_keys ?e @ ps_keys s\<rparr> = s" by simp
  also have "load_loop env (tree_text ss) (acc @ [s]) = Some ((acc @ [s]) @ ss)" using Cons by (intro Cons.IH) simp_all
  finally show ?case using Cons.prems(2) by (simp add: tree_text_def section_text_def)
qed

lemma load_tree:
  assumes "mem_ok env" "tree_ok ss"
  shows "load_loop env (tree_text ss) [\<lparr>ps_name = [], ps_keys = []\<rparr>] = Some (normal ss)"
proof (cases "ss \<noteq> [] \<and> ps_name (List.hd ss) = []")
  case True
  then obtain s tl where ss: "ss = s # tl" and n: "ps_name s = []" by (cases ss) auto
  have st: "starts_line (tree_text tl)" using assms(2) ss by (intro starts_tree) (simp add: tree_ok_def)
  let ?e = "\<lparr>ps_name = [], ps_keys = []\<rparr>"
  have "load_loop env (concat (map key_text (ps_keys s)) @ tree_text tl) ([] @ [?e])
      = load_loop env (tree_text tl) ([] @ [?e\<lparr>ps_keys := ps_keys ?e @ ps_keys s\<rparr>])"
    by (rule load_keys [OF assms(1) st]) (use assms(2) ss in \<open>simp_all add: tree_ok_def section_ok_def\<close>)
  also have "\<dots> = Some (([] @ [?e\<lparr>ps_keys := ps_keys ?e @ ps_keys s\<rparr>]) @ tl)"
    by (rule load_sections [OF assms(1)]) (use assms(2) ss in \<open>simp add: tree_ok_def\<close>)
  also have "?e\<lparr>ps_keys := ps_keys ?e @ ps_keys s\<rparr> = s" using n by simp
  finally show ?thesis using ss n by (simp add: tree_text_def section_text_def normal_def)
next
  case False
  then have "\<forall>s\<in>set ss. section_ok s \<and> ps_name s \<noteq> []" using assms(2) by (cases ss) (auto simp: tree_ok_def)
  then show ?thesis using load_sections [OF assms(1)] False by (auto simp: normal_def)
qed

section \<open>Bytes\<close>

lemma UTF8FromUTF32_append: "UTF8FromUTF32 (a @ b) = UTF8FromUTF32 a @ UTF8FromUTF32 b"
  by (induction a) simp_all

lemma write_mb_text: "mem_ok env \<Longrightarrow> cp = CP_ACP \<or> cp = CP_UTF8 \<Longrightarrow> write_mb env cp t = UTF8FromUTF32 t"
  by (simp add: write_mb_def encode_text mem_ok_def)

lemma decode_mb_text: "mem_ok env \<Longrightarrow> cp = CP_ACP \<or> cp = CP_UTF8 \<Longrightarrow> is_text t \<Longrightarrow> decode_mb env cp (UTF8FromUTF32 t) = Some (Some t)"
  by (simp add: decode_mb_def decode_text mem_ok_def)

lemma save_tree:
  assumes "mem_ok env" "e = ENCODING_ANSI \<or> e = ENCODING_UTF8"
  shows "save_sections env ss e = UTF8FromUTF32 (tree_text ss)"
proof (induction ss)
  case (Cons s ss)
  then show ?case using assms by (auto simp: tree_text_def PROFILE_WriteLine_def write_mb_text UTF8FromUTF32_append) (simp_all add: mem_ok_def)
qed (simp add: tree_text_def)

lemma plain_text: "plain s \<Longrightarrow> is_text s"
  by (auto simp: plain_def is_text_def)

lemma is_text_append [simp]: "is_text (a @ b) \<longleftrightarrow> is_text a \<and> is_text b"
  by (auto simp: is_text_def)

lemma key_text_ok: "key_ok k \<Longrightarrow> is_text (key_text k)"
  using key_line_ok [of k] plain_text [of "key_line k"] by (simp add: key_text_line) (simp add: is_text_def)

lemma section_text_ok: "section_ok s \<Longrightarrow> is_text (section_text s)"
proof -
  assume s: "section_ok s"
  have "is_text (concat (map key_text ks))" if "\<forall>k\<in>set ks. key_ok k" for ks
    using that by (induction ks) (auto simp: key_text_ok, simp add: is_text_def)
  then have "is_text (concat (map key_text (ps_keys s)))" using s by (simp add: section_ok_def)
  moreover have "is_text (ps_name s)" using s by (simp add: section_ok_def plain_text)
  ultimately show ?thesis by (auto simp: section_text_def is_text_def)
qed

lemma tree_text_ok: "tree_ok ss \<Longrightarrow> is_text (tree_text ss)"
  using section_text_ok by (fastforce simp: tree_ok_def tree_text_def is_text_def)

text \<open>Text that does not begin with a byte order mark has no bytes of one in front.\<close>

lemma first_byte:
  assumes "0 \<le> u" "u < 0x200000"
  shows "\<exists>a r. UTF8FromUTF32 (u # t) = a # r \<and> a < 0xFE"
proof -
  consider "u < 0x80" | "0x80 \<le> u" "u < 0x800" | "0x800 \<le> u" "u < 0x10000" | "0x10000 \<le> u" by linarith
  then show ?thesis
  proof cases
    case 1
    then show ?thesis using assms by (simp add: to_char_def)
  next
    case 2
    then show ?thesis by (simp add: enc2_eq)
  next
    case 3
    then show ?thesis by (simp add: enc3_eq)
  next
    case 4
    then show ?thesis using assms by (simp add: enc4_eq)
  qed
qed

lemma bom_only:
  assumes "0 \<le> u" "u < 0x200000" "take 3 (UTF8FromUTF32 (u # t)) = bom_utf8"
  shows "u = 0xFEFF"
proof -
  consider "u < 0x80" | "0x80 \<le> u" "u < 0x800" | "0x800 \<le> u" "u < 0x10000" | "0x10000 \<le> u" by linarith
  then show ?thesis
  proof cases
    case 1
    then show ?thesis using assms by (simp add: to_char_def bom_utf8_def)
  next
    case 2
    then have "192 + u div 64 = 239" using assms(3) by (simp add: enc2_eq bom_utf8_def)
    then show ?thesis using 2 by presburger
  next
    case 3
    then have "224 + u div 4096 = 239" "128 + (u div 64) mod 64 = 187" "128 + u mod 64 = 191" using assms(3) by (simp_all add: enc3_eq bom_utf8_def)
    moreover have "64 * (u div 64) + u mod 64 = u" "64 * (u div 64 div 64) + u div 64 mod 64 = u div 64" by (rule mult_div_mod_eq)+
    ultimately show ?thesis by (simp add: div_chain(1))
  next
    case 4
    then have "240 + u div 262144 = 239" using assms by (simp add: enc4_eq bom_utf8_def)
    moreover have "0 \<le> u div 262144" using assms(1) by (simp add: pos_imp_zdiv_nonneg_iff)
    ultimately show ?thesis by simp
  qed
qed

lemma detect_ansi:
  assumes "is_text t" "t \<noteq> []" "List.hd t \<noteq> 0xFEFF"
  shows "PROFILE_DetectTextEncoding (UTF8FromUTF32 t) = (ENCODING_ANSI, 0)" "UTF8FromUTF32 t \<noteq> []"
proof -
  obtain u r where t: "t = u # r" using assms(2) by (cases t) auto
  have u: "0 \<le> u" "u < 0x200000" using assms(1) t by (auto simp: is_text_def)
  obtain a b where ab: "UTF8FromUTF32 (u # r) = a # b" "a < 0xFE" using first_byte [OF u] by blast
  define bs where "bs = UTF8FromUTF32 t"
  have bs: "bs = a # b" "take 3 bs \<noteq> bom_utf8" using ab(1) bom_only [OF u, of r] assms(3) t by (auto simp: bs_def)
  then show "PROFILE_DetectTextEncoding (UTF8FromUTF32 t) = (ENCODING_ANSI, 0)" "UTF8FromUTF32 t \<noteq> []"
    unfolding bs_def [symmetric] using ab(2) by (auto simp: PROFILE_DetectTextEncoding_def bom_utfle_def bom_utfbe_def numeral_2_eq_2)
qed

section \<open>Round trip\<close>

lemma load_save:
  assumes m: "mem_ok env" and ok: "tree_ok ss" and e: "e = ENCODING_UTF8 \<or> e = ENCODING_ANSI \<and> tree_text ss \<noteq> [] \<and> List.hd (tree_text ss) \<noteq> 0xFEFF"
  shows "PROFILE_Load env True (PROFILE_Save env ss e) old = Some (normal ss, e)"
proof -
  have t: "is_text (tree_text ss)" by (rule tree_text_ok [OF ok])
  have enc: "e = ENCODING_ANSI \<or> e = ENCODING_UTF8" using e by auto
  note s = save_tree [OF m enc, of ss]
  have "PROFILE_DetectTextEncoding (PROFILE_Save env ss e) = (e, length (PROFILE_WriteMarker e)) \<and> PROFILE_Save env ss e \<noteq> []"
  proof (cases "e = ENCODING_UTF8")
    case True
    then show ?thesis by (simp add: PROFILE_Save_def PROFILE_WriteMarker_def PROFILE_DetectTextEncoding_def bom_utf8_def)
  next
    case False
    then show ?thesis using e detect_ansi [OF t] s by (simp add: PROFILE_Save_def PROFILE_WriteMarker_def)
  qed
  moreover have "drop (length (PROFILE_WriteMarker e)) (PROFILE_Save env ss e) = UTF8FromUTF32 (tree_text ss)" by (simp add: PROFILE_Save_def s)
  moreover have "decode_file env e (UTF8FromUTF32 (tree_text ss)) = Some (Some (tree_text ss))"
    using enc decode_mb_text [OF m _ t] by (auto simp: decode_file_def)
  ultimately show ?thesis using load_tree [OF m ok] m by (simp add: PROFILE_Load_def mem_ok_def)
qed

text \<open>C32: a tree whose names and values have no ends of lines and no white space around them, with no nameless section but
  the first, is read back from what was saved of it as the same tree (with a nameless section in front when it has none), in both encodings by bytes; in the one without a
  mark the text must not be empty nor begin with a mark.\<close>

theorem PROFILE_Load_Save:
  assumes m: "mem_ok env" and ok: "tree_ok ss" and e: "e = ENCODING_UTF8 \<or> e = ENCODING_ANSI \<and> tree_text ss \<noteq> [] \<and> List.hd (tree_text ss) \<noteq> 0xFEFF"
  shows "PROFILE_Load env True (PROFILE_Save env ss e) old = Some (normal ss, e)"
  by (rule load_save [OF assms])

section \<open>A concrete system\<close>

definition env0 :: penv where
  "env0 = \<lparr>pe_cs = no_iconv,
     pe_fold = (\<lambda>c. if 65 \<le> c \<and> c \<le> 90 then c + 32 else c), pe_mem = \<lambda>_. True, pe_full_path = \<lambda>n. n,
     pe_open = \<lambda>_ _. True, pe_readable = \<lambda>_. True, pe_fresh = \<lambda>n. replicate n 1\<rparr>"

lemma env0_mem: "mem_ok env0"
  by (simp add: mem_ok_def env0_def)

text \<open>A tree with a key without a value, one with spaces inside, and a section.\<close>

definition tree0 :: "PROFILESECTION list" where
  "tree0 = [\<lparr>ps_name = [], ps_keys = [\<lparr>pk_name = [59, 120], pk_value = None\<rparr>]\<rparr>,
     \<lparr>ps_name = [115, 32], ps_keys = [\<lparr>pk_name = [107], pk_value = Some [118, 32, 61]\<rparr>, \<lparr>pk_name = [], pk_value = Some []\<rparr>]\<rparr>]"

lemma tree0_ok: "tree_ok tree0"
  by (simp add: tree_ok_def section_ok_def key_ok_def plain_def trimmed_def tree0_def is_newline_def PROFILE_isspaceW_def key_text_def)

theorem PROFILE_Load_Save_witness:
  "PROFILE_Load env0 True (PROFILE_Save env0 tree0 ENCODING_ANSI) ENCODING_UTF8 = Some (tree0, ENCODING_ANSI)"
proof -
  have n: "normal tree0 = tree0" by (simp add: normal_def tree0_def)
  have "tree_text tree0 \<noteq> [] \<and> List.hd (tree_text tree0) \<noteq> 0xFEFF" by (simp add: tree_text_def section_text_def key_text_def tree0_def)
  then show ?thesis using PROFILE_Load_Save [OF env0_mem tree0_ok, of ENCODING_ANSI ENCODING_UTF8] by (simp add: n)
qed

end
