(* ===== verification/Profile_Lookup.thy ===== *)
theory Profile_Lookup
  imports Profile_Props
begin

text \<open>
  Looking up a value after setting one: the tree of an ini file is a map from section and key, up to case and white space
  around the names.
\<close>

section \<open>The first match\<close>

fun first :: "('a \<Rightarrow> bool) \<Rightarrow> 'a list \<Rightarrow> nat option" where
  "first P [] = None"
| "first P (x # xs) = (if P x then Some 0 else map_option Suc (first P xs))"

lemma first_Some: "first P xs = Some i \<Longrightarrow> i < length xs \<and> P (xs ! i)"
  by (induction xs arbitrary: i) (auto split: if_splits)

lemma first_snoc: "first P (xs @ [x]) = (case first P xs of Some i \<Rightarrow> Some i | None \<Rightarrow> if P x then Some (length xs) else None)"
  by (induction xs) (auto split: option.splits)

lemma first_None: "\<forall>x\<in>set xs. \<not> P x \<Longrightarrow> first P xs = None"
  by (induction xs) auto

lemma first_update: "i < length xs \<Longrightarrow> P y = P (xs ! i) \<Longrightarrow> first P (xs[i := y]) = first P xs"
proof (induction xs arbitrary: i)
  case (Cons x xs)
  then show ?case by (cases i) auto
qed simp

section \<open>Lookup\<close>

definition trim :: "wstr \<Rightarrow> wstr" where
  "trim s = rstrip (lstrip s)"

definition same_name :: "penv \<Rightarrow> wstr \<Rightarrow> wstr \<Rightarrow> bool" where
  "same_name env a b \<longleftrightarrow> map (pe_fold env) a = map (pe_fold env) b"

lemma rstrip_prefix: "take (length (rstrip s)) s = rstrip s"
proof -
  have "rev s = takeWhile PROFILE_isspaceW (rev s) @ rev (rstrip s)" by (simp add: rstrip_def)
  then have "s = rstrip s @ rev (takeWhile PROFILE_isspaceW (rev s))" by (metis rev_append rev_rev_ident)
  then show ?thesis by (metis append_eq_conv_conj)
qed

lemma name_is_trim: "name_is env name (lstrip s) (length (rstrip (lstrip s))) = same_name env name (trim s)"
proof -
  have "length name = length (trim s)" if "same_name env name (trim s)" using that by (metis same_name_def length_map)
  then show ?thesis by (auto simp: name_is_def same_name_def trim_def rstrip_prefix)
qed

lemma find_key_first: "find_key env (lstrip e) (length (rstrip (lstrip e))) ks = first (\<lambda>k. same_name env (pk_name k) (trim e)) ks"
  by (induction ks) (simp_all add: name_is_trim)

lemma find_section_first: "find_section env (lstrip e) (length (rstrip (lstrip e))) ss = first (\<lambda>s. same_name env (ps_name s) (trim e)) ss"
  by (induction ss) (simp_all add: name_is_trim)

text \<open>The value of a key, through the search of the code.\<close>

definition lookup :: "penv \<Rightarrow> PROFILESECTION list \<Rightarrow> wstr \<Rightarrow> wstr \<Rightarrow> wstr option" where
  "lookup env ss sec ent =
     (case PROFILE_Find env ss sec ent False False of
        Some (Some ij, _) \<Rightarrow> value_at ij ss
      | _ \<Rightarrow> None)"

text \<open>The same without the code's search.\<close>

definition key_value :: "penv \<Rightarrow> wstr \<Rightarrow> PROFILEKEY list \<Rightarrow> wstr option" where
  "key_value env ent ks = (case first (\<lambda>k. same_name env (pk_name k) (trim ent)) ks of None \<Rightarrow> None | Some j \<Rightarrow> pk_value (ks ! j))"

lemma lookup_eq:
  "lookup env ss sec ent = (case first (\<lambda>s. same_name env (ps_name s) (trim sec)) ss of None \<Rightarrow> None | Some i \<Rightarrow> key_value env ent (ps_keys (ss ! i)))"
  by (auto simp: lookup_def PROFILE_Find_def Let_def find_key_first find_section_first key_value_def value_at_def split: option.splits)

lemma Find_reads:
  obtains r where "PROFILE_Find env ss sec ent False False = Some (r, ss)" "(case r of None \<Rightarrow> None | Some ij \<Rightarrow> value_at ij ss) = lookup env ss sec ent"
proof -
  have "\<exists>r. PROFILE_Find env ss sec ent False False = Some (r, ss)"
    by (cases "find_section env (lstrip sec) (length (rstrip (lstrip sec))) ss") (simp_all add: PROFILE_Find_def Let_def split: option.split)
  then show ?thesis using that by (auto simp: lookup_def split: option.splits)
qed

text \<open>Replacing the keys of a section whose name stays.\<close>

lemma lookup_update:
  assumes "i < length ss"
  shows "lookup env (ss[i := (ss ! i)\<lparr>ps_keys := ks\<rparr>]) sec ent =
    (if first (\<lambda>s. same_name env (ps_name s) (trim sec)) ss = Some i then key_value env ent ks else lookup env ss sec ent)"
  using assms by (auto simp: lookup_eq first_update nth_list_update split: option.splits)

lemma key_value_set:
  "j < length ks \<Longrightarrow> key_value env ent (ks[j := (ks ! j)\<lparr>pk_value := v\<rparr>]) =
     (if first (\<lambda>k. same_name env (pk_name k) (trim ent)) ks = Some j then v else key_value env ent ks)"
  by (auto simp: key_value_def first_update nth_list_update split: option.splits)

lemma same_name_trans: "same_name env a b \<Longrightarrow> same_name env c b = same_name env c a"
  by (simp add: same_name_def)

text \<open>Two matches at one place have the same name.\<close>

lemma first_same: "first (\<lambda>x. same_name env (f x) a) xs = Some i \<Longrightarrow> (first (\<lambda>x. same_name env (f x) b) xs = Some i) = same_name env a b"
proof
  assume a: "first (\<lambda>x. same_name env (f x) a) xs = Some i" and b: "first (\<lambda>x. same_name env (f x) b) xs = Some i"
  show "same_name env a b" using first_Some [OF a] first_Some [OF b] by (simp add: same_name_def)
next
  assume a: "first (\<lambda>x. same_name env (f x) a) xs = Some i" and s: "same_name env a b"
  have "same_name env (f x) b = same_name env (f x) a" for x using s by (simp add: same_name_def)
  then show "first (\<lambda>x. same_name env (f x) b) xs = Some i" using a by simp
qed

section \<open>Setting a value\<close>

lemma set_value_keys:
  "set_value (i, j) v ss = ss[i := (ss ! i)\<lparr>ps_keys := (ps_keys (ss ! i))[j := (ps_keys (ss ! i) ! j)\<lparr>pk_value := Some v\<rparr>]\<rparr>]"
  by (simp add: set_value_def Let_def)

lemma set_value_new_section:
  "set_value (length ss, 0) v (ss @ [\<lparr>ps_name = n, ps_keys = [\<lparr>pk_name = m, pk_value = x\<rparr>]\<rparr>]) = ss @ [\<lparr>ps_name = n, ps_keys = [\<lparr>pk_name = m, pk_value = Some v\<rparr>]\<rparr>]"
  "value_at (length ss, 0) (ss @ [\<lparr>ps_name = n, ps_keys = [\<lparr>pk_name = m, pk_value = x\<rparr>]\<rparr>]) = x"
  by (simp_all add: set_value_keys value_at_def)

lemma set_value_new_key:
  assumes "i < length ss"
  shows "set_value (i, length (ps_keys (ss ! i))) v (ss[i := (ss ! i)\<lparr>ps_keys := ps_keys (ss ! i) @ [\<lparr>pk_name = m, pk_value = x\<rparr>]\<rparr>])
      = ss[i := (ss ! i)\<lparr>ps_keys := ps_keys (ss ! i) @ [\<lparr>pk_name = m, pk_value = Some v\<rparr>]\<rparr>]"
    "value_at (i, length (ps_keys (ss ! i))) (ss[i := (ss ! i)\<lparr>ps_keys := ps_keys (ss ! i) @ [\<lparr>pk_name = m, pk_value = x\<rparr>]\<rparr>]) = x"
  using assms by (simp_all add: set_value_keys value_at_def)

lemma lookup_set_value:
  assumes i: "first (\<lambda>s. same_name env (ps_name s) (trim sec)) ss = Some i"
    and j: "first (\<lambda>k. same_name env (pk_name k) (trim ent)) (ps_keys (ss ! i)) = Some j"
  shows "lookup env (set_value (i, j) v ss) sec' ent' =
    (if same_name env (trim sec) (trim sec') \<and> same_name env (trim ent) (trim ent') then Some v else lookup env ss sec' ent')"
proof -
  have "lookup env (set_value (i, j) v ss) sec' ent' =
      (if first (\<lambda>s. same_name env (ps_name s) (trim sec')) ss = Some i
       then (if first (\<lambda>k. same_name env (pk_name k) (trim ent')) (ps_keys (ss ! i)) = Some j then Some v else key_value env ent' (ps_keys (ss ! i)))
       else lookup env ss sec' ent')"
    using first_Some [OF i] first_Some [OF j] by (simp add: set_value_keys lookup_update key_value_set)
  moreover have "lookup env ss sec' ent' = key_value env ent' (ps_keys (ss ! i))" if "same_name env (trim sec) (trim sec')"
    using first_same [OF i, of "trim sec'"] that by (simp add: lookup_eq)
  ultimately show ?thesis using first_same [OF i, of "trim sec'"] first_same [OF j, of "trim ent'"] by simp
qed

lemma lookup_new_key:
  assumes i: "first (\<lambda>s. same_name env (ps_name s) (trim sec)) ss = Some i"
    and j: "first (\<lambda>k. same_name env (pk_name k) (trim ent)) (ps_keys (ss ! i)) = None"
  shows "lookup env (ss[i := (ss ! i)\<lparr>ps_keys := ps_keys (ss ! i) @ [\<lparr>pk_name = trim ent, pk_value = Some v\<rparr>]\<rparr>]) sec' ent' =
    (if same_name env (trim sec) (trim sec') \<and> same_name env (trim ent) (trim ent') then Some v else lookup env ss sec' ent')"
proof -
  let ?ks = "ps_keys (ss ! i)" let ?P = "\<lambda>e k. same_name env (pk_name k) (trim e)"
  have none: "first (?P ent') ?ks = None" if "same_name env (trim ent) (trim ent')"
    using j first_same [where f = pk_name and xs = ?ks and a = "trim ent'" and b = "trim ent"] that
    by (cases "first (?P ent') ?ks") (auto simp: same_name_def)
  have kv: "key_value env ent' (?ks @ [\<lparr>pk_name = trim ent, pk_value = Some v\<rparr>]) =
      (if same_name env (trim ent) (trim ent') then Some v else key_value env ent' ?ks)"
    using none by (auto simp: key_value_def first_snoc nth_append dest: first_Some split: option.splits)
  have "lookup env ss sec' ent' = key_value env ent' ?ks" if "same_name env (trim sec) (trim sec')"
    using first_same [OF i, of "trim sec'"] that by (simp add: lookup_eq)
  then show ?thesis using first_Some [OF i] first_same [OF i, of "trim sec'"] kv by (simp add: lookup_update)
qed

lemma lookup_new_section:
  assumes i: "first (\<lambda>s. same_name env (ps_name s) (trim sec)) ss = None"
  shows "lookup env (ss @ [\<lparr>ps_name = trim sec, ps_keys = [\<lparr>pk_name = trim ent, pk_value = Some v\<rparr>]\<rparr>]) sec' ent' =
    (if same_name env (trim sec) (trim sec') \<and> same_name env (trim ent) (trim ent') then Some v else lookup env ss sec' ent')"
proof -
  let ?P = "\<lambda>e s. same_name env (ps_name s) (trim e)"
  have "first (?P sec') ss = None" if "same_name env (trim sec) (trim sec')"
    using i first_same [where f = ps_name and xs = ss and a = "trim sec'" and b = "trim sec"] that
    by (cases "first (?P sec') ss") (auto simp: same_name_def)
  then show ?thesis by (auto simp: lookup_eq key_value_def first_snoc nth_append dest: first_Some split: option.splits)
qed

lemma Find_found:
  assumes "PROFILE_Find env ss sec ent True False = Some (Some ij, ss1)" "value_at ij ss1 = Some v"
  shows "ss1 = ss"
proof (rule ccontr)
  assume n: "ss1 \<noteq> ss"
  have "value_at ij ss1 = None"
  proof (cases "find_section env (lstrip sec) (length (rstrip (lstrip sec))) ss")
    case None
    then show ?thesis using assms(1) by (auto simp: PROFILE_Find_def Let_def set_value_new_section(2) split: if_splits)
  next
    case (Some i)
    then have "i < length ss" by (simp add: find_section_first first_Some)
    then show ?thesis using assms(1) Some n by (auto simp: PROFILE_Find_def Let_def set_value_new_key(2) split: if_splits option.splits)
  qed
  then show False using assms(2) by simp
qed

lemma trim_right: "rstrip s = s \<Longrightarrow> lstrip s = trim s"
proof -
  assume s: "rstrip s = s"
  have "s = [] \<or> \<not> PROFILE_isspaceW (last s)"
  proof (cases "s = []")
    case False
    then have "dropWhile PROFILE_isspaceW (rev s) = rev s" "rev s \<noteq> []" using s by (simp_all add: rstrip_def rev_swap)
    then have "\<not> PROFILE_isspaceW (List.hd (rev s))" by (metis hd_dropWhile)
    then show ?thesis using False by (simp add: hd_rev)
  qed simp
  moreover have "last (lstrip s) = last s" if "lstrip s \<noteq> []"
    unfolding lstrip_def using that by (metis last_appendR lstrip_def takeWhile_dropWhile_id)
  moreover have "s \<noteq> []" if "lstrip s \<noteq> []" using that by (auto simp: lstrip_def)
  ultimately have "lstrip s = [] \<or> \<not> PROFILE_isspaceW (last (lstrip s))" by metis
  then show ?thesis unfolding trim_def by (simp add: rstrip_id)
qed

lemma set_string:
  assumes m: "mem_ok env" and t: "rstrip sec = sec" "rstrip ent = ent"
  shows "\<exists>pr'. PROFILE_SetString env pr sec ent (Some val) False = Some (True, pr') \<and>
    lookup env (sections pr') sec' ent' =
      (if same_name env (trim sec) (trim sec') \<and> same_name env (trim ent) (trim ent') then Some (lstrip val) else lookup env (sections pr) sec' ent')"
proof -
  let ?ss = "sections pr" let ?v = "lstrip val"
  note find = find_section_first [of env sec, unfolded trim_right [OF t(1)]] find_key_first [of env ent, unfolded trim_right [OF t(2)]]
    trim_right [OF t(1)] trim_right [OF t(2)]
  let ?r = "if same_name env (trim sec) (trim sec') \<and> same_name env (trim ent) (trim ent') then Some ?v else lookup env ?ss sec' ent'"
  obtain ij ss1 where f: "PROFILE_Find env ?ss sec ent True False = Some (Some ij, ss1)" and l: "lookup env (set_value ij ?v ss1) sec' ent' = ?r"
    and id: "value_at ij ss1 = Some ?v \<Longrightarrow> set_value ij ?v ss1 = ss1"
  proof (cases "first (\<lambda>s. same_name env (ps_name s) (trim sec)) ?ss")
    case None
    then have "PROFILE_Find env ?ss sec ent True False = Some (Some (length ?ss, 0), ?ss @ [\<lparr>ps_name = trim sec, ps_keys = [\<lparr>pk_name = trim ent, pk_value = None\<rparr>]\<rparr>])"
      using m None by (simp add: PROFILE_Find_def Let_def find mem_ok_def)
    then show ?thesis
      by (rule that) (unfold set_value_new_section, rule lookup_new_section [OF None], simp)
  next
    case (Some i)
    note i = first_Some [OF Some]
    let ?ks = "ps_keys (?ss ! i)"
    show ?thesis
    proof (cases "first (\<lambda>k. same_name env (pk_name k) (trim ent)) ?ks")
      case None
      let ?new = "\<lparr>pk_name = trim ent, pk_value = None\<rparr>"
      have "PROFILE_Find env ?ss sec ent True False = Some (Some (i, length ?ks), ?ss[i := (?ss ! i)\<lparr>ps_keys := ?ks @ [?new]\<rparr>])"
        using m Some None by (simp add: PROFILE_Find_def Let_def find mem_ok_def)
      then show ?thesis
        by (rule that) (unfold set_value_new_key [OF conjunct1 [OF i]], rule lookup_new_key [OF Some None], simp)
    next
      case j: (Some j)
      have "PROFILE_Find env ?ss sec ent True False = Some (Some (i, j), ?ss)"
        using Some j by (simp add: PROFILE_Find_def Let_def find)
      moreover have "set_value (i, j) ?v ?ss = ?ss" if "value_at (i, j) ?ss = Some ?v"
      proof -
        have "(?ks ! j)\<lparr>pk_value := Some ?v\<rparr> = ?ks ! j" using that by (simp add: value_at_def)
        then show ?thesis by (simp add: set_value_keys)
      qed
      ultimately show ?thesis using lookup_set_value [OF Some j] by (intro that)
    qed
  qed
  show ?thesis
  proof (cases "value_at ij ss1 = Some ?v")
    case True
    then show ?thesis using f l id by (simp add: PROFILE_SetString_def)
  next
    case False
    then show ?thesis using f l m by (simp add: PROFILE_SetString_def mem_ok_def)
  qed
qed

text \<open>C33: setting a value makes the lookup of its section and key, up to case and the white space around the names, give the
  value without the white space in front of it, and leaves every other lookup as it was; the names must not end in
  white space.\<close>

theorem SetString_lookup:
  assumes m: "mem_ok env" and t: "rstrip sec = sec" "rstrip ent = ent"
  shows "\<exists>pr'. PROFILE_SetString env pr sec ent (Some val) False = Some (True, pr') \<and>
    lookup env (sections pr') sec' ent' =
      (if same_name env (trim sec) (trim sec') \<and> same_name env (trim ent) (trim ent') then Some (lstrip val) else lookup env (sections pr) sec' ent')"
  by (rule set_string [OF assms])

theorem SetString_lookup_witness:
  "\<exists>pr'. PROFILE_SetString env0 (empty_profile\<lparr>sections := tree0\<rparr>) [115] [110] (Some [32, 49]) False = Some (True, pr')
    \<and> lookup env0 (sections pr') [32, 83] [78] = Some [49]"
proof -
  have t: "rstrip [115] = [115]" "rstrip [110] = [110]" by (simp_all add: rstrip_def PROFILE_isspaceW_def)
  from SetString_lookup [OF env0_mem t, of "empty_profile\<lparr>sections := tree0\<rparr>" "[32, 49]" "[32, 83]" "[78]"]
  show ?thesis by (simp add: same_name_def trim_def rstrip_def lstrip_def PROFILE_isspaceW_def env0_def)
qed

end
