(* ===== verification/Profile_Files.thy ===== *)
theory Profile_Files
  imports Profile_Lookup
begin

text \<open>
  Ini files as the exported calls see them: what one process writes another reads, structures come back as they were
  written; and the inputs on which the calls go wrong.
\<close>

section \<open>The encodings of 16 bits\<close>

lemma wchars_length: "wchars bs = Some ws \<Longrightarrow> length bs mod 4 = 0"
  by (induction bs arbitrary: ws rule: wchars.induct) (auto simp: mod_Suc)

lemma wchars_odd: "length bs mod 4 \<noteq> 0 \<Longrightarrow> wchars bs = None"
  using wchars_length [of bs] by (cases "wchars bs") auto

lemma swap_length [simp]: "length (PROFILE_ByteSwapShortBuffer bs n) = length bs"
  by (induction bs n rule: PROFILE_ByteSwapShortBuffer.induct) simp_all

lemma save_16_length:
  "e = ENCODING_UTF16LE \<or> e = ENCODING_UTF16BE \<Longrightarrow> length (save_sections env ss e) mod 4 = 0"
proof (induction ss)
  case (Cons s ss)
  have "length (concat (map wchar_bytes t)) = 4 * length t" for t by (induction t) (simp_all add: wchar_bytes_def)
  then show ?case using Cons by (auto simp: PROFILE_WriteLine_def)
qed simp

text \<open>No tree that was saved in one of the encodings of 16 bits can be read back: the mark has four bytes when it is
  written and two when it is read, and reading runs past the end of the buffer.\<close>

theorem PROFILE_16_unreadable:
  assumes "mem_ok env" "e = ENCODING_UTF16LE \<or> e = ENCODING_UTF16BE"
  shows "PROFILE_Load env True (PROFILE_Save env ss e) old = None"
proof -
  let ?b = "PROFILE_Save env ss e"
  have d: "PROFILE_DetectTextEncoding ?b = (e, 2)" "?b \<noteq> []"
    using assms(2) by (auto simp: PROFILE_Save_def PROFILE_WriteMarker_def PROFILE_DetectTextEncoding_def wchar_bytes_def bom_utf8_def bom_utfle_def bom_utfbe_def)
  have "length (drop 2 ?b) mod 4 = 2"
    using assms(2) save_16_length [OF assms(2), of env ss]
    by (auto simp: PROFILE_Save_def PROFILE_WriteMarker_def wchar_bytes_def mod_Suc)
  then have "wchars (drop 2 ?b) = None" "wchars (PROFILE_ByteSwapShortBuffer (drop 2 ?b) n) = None" for n
    using wchars_odd [of "drop 2 ?b"] wchars_odd [of "PROFILE_ByteSwapShortBuffer (drop 2 ?b) n"] by (simp_all del: length_drop)
  then have "decode_file env e (drop 2 ?b) = None" using assms(2) by (auto simp: decode_file_def)
  then show ?thesis using assms(1) d by (simp add: PROFILE_Load_def mem_ok_def)
qed

theorem PROFILE_16_unreadable_witness: "PROFILE_Load env0 True (PROFILE_Save env0 tree0 ENCODING_UTF16LE) ENCODING_ANSI = None"
  by (rule PROFILE_16_unreadable [OF env0_mem]) simp

section \<open>Buffers that are too small\<close>

lemma put_whole: "length xs = length b \<Longrightarrow> put_at 0 xs b = Some xs"
  by (simp add: put_at_def)

lemma cut_copy:
  assumes "length b = len" "len \<le> length s" "0 \<notin> set s"
  shows "\<exists>b1. lstrcpynW 0 s len b = Some b1 \<and> length b1 = len \<and> 0 \<notin> set b1"
proof -
  have "lstrcpynW 0 s len b = Some (take len s)" using assms(1,2) by (simp add: lstrcpynW_def put_whole)
  then show ?thesis using assms(2,3) by (auto dest: in_set_takeD)
qed

lemma CopyEntry_cut:
  assumes "length b = len" "len \<le> length s" "0 \<notin> set s" "length s < 2 \<or> s ! 0 \<notin> {34, 39}"
  shows "\<exists>b1. PROFILE_CopyEntry b s len = Some b1 \<and> cstr_at 0 b1 = None"
proof -
  have q: "\<not> (length s \<ge> 2 \<and> (s ! 0 = 39 \<or> s ! 0 = 34) \<and> last s = s ! 0)" using assms(4) by auto
  obtain b1 where b1: "lstrcpynW 0 s len b = Some b1" "0 \<notin> set b1" using cut_copy [OF assms(1-3)] by blast
  show ?thesis using b1 by (intro exI [of _ b1]) (simp add: PROFILE_CopyEntry_def Let_def q cstr_at_def)
qed

text \<open>C36: a value without quotes that does not fit into the buffer with its terminator is copied without one, and the length of
  the result is taken by reading past the end of the buffer.\<close>

theorem GetPrivateProfileString_overread:
  assumes m: "mem_ok env" and opened: "PROFILE_Open env now fname False st = Some (True, st1)"
    and v: "lookup env (sections (CurProfile st1)) sec ent = Some v" "0 \<notin> set v" "length v < 2 \<or> v ! 0 \<notin> {34, 39}"
    and b: "length buffer = len" "0 < len" "len \<le> length v"
  shows "GetPrivateProfileStringW env now (Some sec) (Some ent) d buffer len fname st = None"
proof -
  let ?ss = "sections (CurProfile st1)"
  obtain r where f: "PROFILE_Find env ?ss sec ent False False = Some (r, ?ss)" and r: "(case r of None \<Rightarrow> None | Some ij \<Rightarrow> value_at ij ?ss) = Some v"
    using v(1) by (metis Find_reads)
  obtain b1 where "PROFILE_CopyEntry buffer v len = Some b1" "cstr_at 0 b1 = None" using CopyEntry_cut [OF b(1,3) v(2,3)] by blast
  then show ?thesis using m opened f r b(2) by (simp add: GetPrivateProfileStringW_def Let_def mem_ok_def)
qed

section \<open>Opening a file in a new process\<close>

lemma first_open:
  assumes m: "mem_ok env" and st: "MRUProfile st = []" and o: "open_file env now (pe_full_path env f) wr (st\<lparr>MRUProfile := replicate 10 empty_profile\<rparr>) = Some sta"
    and b: "files sta (pe_full_path env f) = Some (bytes, t)" and r: "PROFILE_Load env (pe_readable env (pe_full_path env f)) bytes ENCODING_ANSI = Some (ss, e)"
  shows "\<exists>st'. PROFILE_Open env now (Some f) wr st = Some (True, st') \<and> files st' = files sta \<and> MRUProfile st' \<noteq> []
    \<and> CurProfile st' = \<lparr>changed = False, sections = ss, filename = Some (pe_full_path env f), LastWriteTime = t, encoding = e\<rparr>"
proof -
  let ?name = "pe_full_path env f"
  have mru: "MRUProfile sta = replicate 10 empty_profile" using o by (auto simp: open_file_def split: if_splits option.splits)
  have "\<not> cached env ?name (MRUProfile sta ! i)" if "i < 10" for i using mru that by (simp add: cached_def empty_profile_def)
  then have nf: "List.find (\<lambda>i. cached env ?name (MRUProfile sta ! i)) [0..<N_CACHED_PROFILES] = None"
    by (auto simp: find_None_iff N_CACHED_PROFILES_def)
  have fl: "PROFILE_FlushFile env now sta = (True, sta)" using mru by (simp add: PROFILE_FlushFile_def CurProfile_def empty_profile_def)
  have tf: "to_front 9 sta = sta"
    using mru by (cases sta) (simp add: to_front_def eval_nat_numeral)
  let ?st = "set_CurProfile (empty_profile\<lparr>filename := Some ?name\<rparr>) sta"
  have cur: "CurProfile sta = empty_profile" using mru by (simp add: CurProfile_def)
  have l: "CurProfile (set_CurProfile pr sta) = pr" "files (set_CurProfile pr sta) = files sta" "set_CurProfile pr' (set_CurProfile pr sta) = set_CurProfile pr' sta" for pr pr'
    using mru by (simp_all add: CurProfile_def set_CurProfile_def eval_nat_numeral)
  have "load_current env ?name ?st = Some (set_CurProfile (empty_profile\<lparr>filename := Some ?name, sections := ss, encoding := e, LastWriteTime := t\<rparr>) sta)"
    using b r by (simp add: load_current_def l) (simp add: empty_profile_def)
  then have "PROFILE_Open env now (Some f) wr st = Some (True, set_CurProfile (empty_profile\<lparr>filename := Some ?name, sections := ss, encoding := e, LastWriteTime := t\<rparr>) sta)"
    using m st o nf fl tf cur by (simp add: PROFILE_Open_def Let_def mem_ok_def N_CACHED_PROFILES_def) (simp add: empty_profile_def)
  then show ?thesis using l mru by (auto simp: empty_profile_def set_CurProfile_def)
qed

lemma open_creates:
  assumes "open_file env now name wr st = Some sta"
  obtains bytes t where "files sta name = Some (bytes, t)"
  using assms by (auto simp: open_file_def split: if_splits option.splits)

lemma Open_not_opened: "MRUProfile st = [] \<Longrightarrow> PROFILE_Open env now (Some f) wr st = Some (True, st') \<Longrightarrow>
    \<exists>sta. open_file env now (pe_full_path env f) wr (st\<lparr>MRUProfile := replicate 10 empty_profile\<rparr>) = Some sta"
  by (auto simp: PROFILE_Open_def Let_def N_CACHED_PROFILES_def split: if_splits option.splits)

text \<open>The converse of \<open>first_open\<close>: the file could be read.\<close>

lemma first_opened:
  assumes m: "mem_ok env" and st: "MRUProfile st = []" and o: "PROFILE_Open env now (Some f) wr st = Some (True, st')"
  obtains sta bytes t ss e where
    "open_file env now (pe_full_path env f) wr (st\<lparr>MRUProfile := replicate 10 empty_profile\<rparr>) = Some sta"
    "files sta (pe_full_path env f) = Some (bytes, t)" "PROFILE_Load env (pe_readable env (pe_full_path env f)) bytes ENCODING_ANSI = Some (ss, e)"
    "files st' = files sta" "MRUProfile st' \<noteq> []"
    "CurProfile st' = \<lparr>changed = False, sections = ss, filename = Some (pe_full_path env f), LastWriteTime = t, encoding = e\<rparr>"
proof -
  obtain sta where sta: "open_file env now (pe_full_path env f) wr (st\<lparr>MRUProfile := replicate 10 empty_profile\<rparr>) = Some sta"
    using Open_not_opened [OF st o] by blast
  obtain bytes t where b: "files sta (pe_full_path env f) = Some (bytes, t)" by (rule open_creates [OF sta])
  show thesis
  proof (cases "PROFILE_Load env (pe_readable env (pe_full_path env f)) bytes ENCODING_ANSI")
    case (Some se)
    then obtain ss e where l: "PROFILE_Load env (pe_readable env (pe_full_path env f)) bytes ENCODING_ANSI = Some (ss, e)" by (cases se) auto
    from first_open [OF m st sta b l] o show thesis using that [OF sta b l] by auto
  next
    case None
    have mru: "MRUProfile sta = replicate 10 empty_profile" using sta by (auto simp: open_file_def split: if_splits option.splits)
    have nf: "List.find (\<lambda>i. cached env (pe_full_path env f) (MRUProfile sta ! i)) [0..<N_CACHED_PROFILES] = None"
      using mru by (auto simp: find_None_iff N_CACHED_PROFILES_def cached_def empty_profile_def)
    have fl: "PROFILE_FlushFile env now sta = (True, sta)" using mru by (simp add: PROFILE_FlushFile_def CurProfile_def empty_profile_def)
    have tf: "to_front 9 sta = sta" using mru by (cases sta) (simp add: to_front_def eval_nat_numeral)
    have cur: "CurProfile sta = empty_profile" using mru by (simp add: CurProfile_def)
    have "load_current env (pe_full_path env f) (set_CurProfile (empty_profile\<lparr>filename := Some (pe_full_path env f)\<rparr>) sta) = None"
      using b None mru by (simp add: load_current_def CurProfile_def set_CurProfile_def eval_nat_numeral) (simp add: empty_profile_def)
    then have "PROFILE_Open env now (Some f) wr st = None"
      using m st sta nf fl tf cur by (simp add: PROFILE_Open_def Let_def mem_ok_def N_CACHED_PROFILES_def) (simp add: empty_profile_def)
    then show thesis using o by simp
  qed
qed

section \<open>Reading what was written\<close>

lemma lookup_normal: "tree_ok ss \<Longrightarrow> lookup env (normal ss) sec ent = lookup env ss sec ent"
proof (cases "ss \<noteq> [] \<and> ps_name (List.hd ss) = []")
  case no: False
  assume ok: "tree_ok ss"
  show ?thesis
  proof (cases "same_name env [] (trim sec)")
    case True
    then have t: "trim sec = []" by (simp add: same_name_def)
    have "\<forall>s\<in>set ss. ps_name s \<noteq> []" using ok no by (cases ss) (auto simp: tree_ok_def)
    then have "first (\<lambda>s. same_name env (ps_name s) (trim sec)) ss = None" by (intro first_None) (auto simp: t same_name_def)
    then show ?thesis using no True by (auto simp: normal_def lookup_eq key_value_def)
  next
    case False
    then show ?thesis using no by (auto simp: normal_def lookup_eq split: option.splits)
  qed
qed (simp add: normal_def)

text \<open>A profile whose tree is read back after it is saved.\<close>

definition writable :: "PROFILE \<Rightarrow> bool" where
  "writable pr \<longleftrightarrow> tree_ok (sections pr) \<and> (encoding pr = ENCODING_UTF8
     \<or> encoding pr = ENCODING_ANSI \<and> tree_text (sections pr) \<noteq> [] \<and> List.hd (tree_text (sections pr)) \<noteq> 0xFEFF)"

lemma copy_fits:
  assumes "length b = len" "length s < len" "0 \<notin> set s" "length s < 2 \<or> s ! 0 \<notin> {34, 39}"
  shows "PROFILE_CopyEntry b s len = Some (s @ replicate (len - length s) 0)" "cstr_at 0 (s @ replicate (len - length s) 0) = Some s"
proof -
  have q: "\<not> (length s \<ge> 2 \<and> (s ! 0 = 39 \<or> s ! 0 = 34) \<and> last s = s ! 0)" using assms(4) by auto
  have "take len (s @ replicate len 0) = s @ replicate (len - length s) 0" using assms(2) by (simp add: min_def)
  then show "PROFILE_CopyEntry b s len = Some (s @ replicate (len - length s) 0)"
    using assms(1,2) by (simp add: PROFILE_CopyEntry_def Let_def q lstrcpynW_def put_whole)
  show "cstr_at 0 (s @ replicate (len - length s) 0) = Some s"
    using assms(2,3) by (auto simp: cstr_at_def cstr_def takeWhile_append)
qed

lemma get_string:
  assumes m: "mem_ok env" and o: "PROFILE_Open env now fname False st = Some (True, st1)"
    and v: "lookup env (sections (CurProfile st1)) sec ent = Some v" "0 \<notin> set v" "length v < 2 \<or> v ! 0 \<notin> {34, 39}"
    and b: "length buffer = len" "length v < len"
  shows "GetPrivateProfileStringW env now (Some sec) (Some ent) d buffer len fname st = Some (int (length v), v @ replicate (len - length v) 0, st1)"
proof -
  let ?ss = "sections (CurProfile st1)"
  obtain r where f: "PROFILE_Find env ?ss sec ent False False = Some (r, ?ss)" and r: "(case r of None \<Rightarrow> None | Some ij \<Rightarrow> value_at ij ?ss) = Some v"
    using v(1) by (metis Find_reads)
  show ?thesis using m o f r b copy_fits [OF b(1,2) v(2,3)] by (simp add: GetPrivateProfileStringW_def Let_def mem_ok_def)
qed

text \<open>A write that succeeds in a new process leaves the value in the file for the next one.\<close>

lemma written_value:
  assumes m: "mem_ok env" and st: "MRUProfile st = []" and t: "rstrip sec = sec" "rstrip ent = ent"
    and w: "WritePrivateProfileStringW env now (Some sec) (Some ent) (Some val) (Some f) st = Some (True, st1)"
    and ok: "writable (CurProfile st1)"
    and r: "pe_readable env (pe_full_path env f)" "pe_open env (pe_full_path env f) False"
  obtains st2 where "PROFILE_Open env now' (Some f) False (st1\<lparr>MRUProfile := []\<rparr>) = Some (True, st2)"
    "lookup env (sections (CurProfile st2)) sec ent = Some (lstrip val)"
proof -
  let ?n = "pe_full_path env f"
  obtain sta where opened: "PROFILE_Open env now (Some f) True st = Some (True, sta)"
    using w by (auto simp: WritePrivateProfileStringW_def split: bind_splits if_splits)
  obtain bytes t ss e where a: "files sta ?n = Some (bytes, t)" "PROFILE_Load env True bytes ENCODING_ANSI = Some (ss, e)"
      "MRUProfile sta \<noteq> []" "CurProfile sta = \<lparr>changed = False, sections = ss, filename = Some ?n, LastWriteTime = t, encoding = e\<rparr>"
    by (rule first_opened [OF m st opened]) (use r(1) in simp)
  obtain pr where pr: "PROFILE_SetString env (CurProfile sta) sec ent (Some val) False = Some (True, pr)"
      "lookup env (sections pr) sec ent = Some (lstrip val)"
    using set_string [OF m t, of "CurProfile sta" val sec ent] by (auto simp: same_name_def)
  have fl: "PROFILE_FlushFile env now (set_CurProfile pr sta) = (True, st1)"
    using w opened pr(1) by (simp add: WritePrivateProfileStringW_def set_checked_def)
  have cur: "CurProfile (set_CurProfile q sta) = q" for q using a(3) by (simp add: CurProfile_def set_CurProfile_def)
  have keeps: "filename pr = Some ?n" "encoding pr = e" "\<not> changed pr \<Longrightarrow> sections pr = ss"
    using pr(1) a(4) Find_found [of env ss sec ent]
    by (auto simp: PROFILE_SetString_def Let_def split: bind_splits option.splits if_splits)
  have "\<exists>b' t' ss'. files st1 ?n = Some (b', t') \<and> PROFILE_Load env True b' ENCODING_ANSI = Some (ss', e)
      \<and> (ss' = sections pr \<or> ss' = normal (sections pr) \<and> tree_ok (sections pr))"
  proof (cases "changed pr")
    case False
    then have "st1 = set_CurProfile pr sta" using fl a(3) by (simp add: PROFILE_FlushFile_def cur split: if_splits)
    then show ?thesis using a keeps False by (auto simp: cur) (simp add: set_CurProfile_def)
  next
    case True
    have s1: "st1 = set_CurProfile (pr\<lparr>LastWriteTime := now, changed := False\<rparr>)
        ((set_CurProfile pr sta)\<lparr>files := (files (set_CurProfile pr sta))(?n \<mapsto> (PROFILE_Save env (sections pr) e, now))\<rparr>)"
      using fl a(3) True keeps(1,2) by (simp add: PROFILE_FlushFile_def cur Let_def split: if_splits)
    then have c1: "CurProfile st1 = pr\<lparr>LastWriteTime := now, changed := False\<rparr>" using a(3) by (simp add: CurProfile_def set_CurProfile_def)
    have "PROFILE_Load env True (PROFILE_Save env (sections pr) e) ENCODING_ANSI = Some (normal (sections pr), e)"
      by (rule load_save [OF m]) (use ok c1 keeps(2) in \<open>auto simp: writable_def\<close>)
    moreover have "tree_ok (sections pr)" using ok c1 by (simp add: writable_def)
    ultimately show ?thesis using s1 c1 keeps(2) by (simp add: set_CurProfile_def)
  qed
  then obtain b' t' ss' where b': "files st1 ?n = Some (b', t')" "PROFILE_Load env True b' ENCODING_ANSI = Some (ss', e)"
      "ss' = sections pr \<or> ss' = normal (sections pr) \<and> tree_ok (sections pr)" by blast
  have "open_file env now' ?n False (st1\<lparr>MRUProfile := []\<rparr>\<lparr>MRUProfile := replicate 10 empty_profile\<rparr>) = Some (st1\<lparr>MRUProfile := replicate 10 empty_profile\<rparr>)"
    using r(2) b'(1) by (simp add: open_file_def)
  from first_open [OF m _ this, of b' t' ss' e] b'(1,2) r(1) obtain st2 where
      "PROFILE_Open env now' (Some f) False (st1\<lparr>MRUProfile := []\<rparr>) = Some (True, st2)" "sections (CurProfile st2) = ss'"
    by auto
  then show thesis using pr(2) that b'(3) lookup_normal [of "sections pr" env sec ent] by auto
qed

lemma WritePrivateProfileString_lemma:
  assumes m: "mem_ok env" and st: "MRUProfile st = []" and t: "rstrip sec = sec" "rstrip ent = ent"
    and w: "WritePrivateProfileStringW env now (Some sec) (Some ent) (Some val) (Some f) st = Some (True, st1)" and ok: "writable (CurProfile st1)"
    and r: "pe_readable env (pe_full_path env f)" "pe_open env (pe_full_path env f) False"
    and v: "0 \<notin> set (lstrip val)" "length (lstrip val) < 2 \<or> lstrip val ! 0 \<notin> {34, 39}"
    and b: "length buffer = len" "length (lstrip val) < len"
  shows "\<exists>st2. GetPrivateProfileStringW env now' (Some sec) (Some ent) d buffer len (Some f) (st1\<lparr>MRUProfile := []\<rparr>)
    = Some (int (length (lstrip val)), lstrip val @ replicate (len - length (lstrip val)) 0, st2)"
proof -
  obtain st2 where "PROFILE_Open env now' (Some f) False (st1\<lparr>MRUProfile := []\<rparr>) = Some (True, st2)"
      "lookup env (sections (CurProfile st2)) sec ent = Some (lstrip val)"
    by (rule written_value [OF m st t w ok r])
  then show ?thesis using get_string [OF m _ _ v b] by blast
qed

text \<open>A first write in a process of the system above: the file is created, with one section.\<close>

definition st0 :: profiles where
  "st0 = \<lparr>MRUProfile = [], files = \<lambda>_. None\<rparr>"

definition written :: "wstr \<Rightarrow> PROFILE" where
  "written v = \<lparr>changed = False, sections = [\<lparr>ps_name = [115], ps_keys = [\<lparr>pk_name = [107], pk_value = Some v\<rparr>]\<rparr>],
     filename = Some [102], LastWriteTime = 7, encoding = ENCODING_ANSI\<rparr>"

lemma first_write:
  obtains st1 where "WritePrivateProfileStringW env0 7 (Some [115]) (Some [107]) (Some val) (Some [102]) st0 = Some (True, st1)"
    "CurProfile st1 = written (lstrip val)"
proof -
  let ?sta = "st0\<lparr>MRUProfile := replicate 10 empty_profile, files := (\<lambda>_. None)([102] \<mapsto> ([], 7))\<rparr>"
  have o: "open_file env0 7 (pe_full_path env0 [102]) True (st0\<lparr>MRUProfile := replicate 10 empty_profile\<rparr>) = Some ?sta"
    by (simp add: open_file_def env0_def st0_def)
  have l: "PROFILE_Load env0 (pe_readable env0 (pe_full_path env0 [102])) [] ENCODING_ANSI = Some ([], ENCODING_ANSI)"
    by (simp add: PROFILE_Load_def)
  obtain sta where a: "PROFILE_Open env0 7 (Some [102]) True st0 = Some (True, sta)" "MRUProfile sta \<noteq> []"
      "CurProfile sta = \<lparr>changed = False, sections = [], filename = Some [102], LastWriteTime = 7, encoding = ENCODING_ANSI\<rparr>"
    using first_open [OF env0_mem _ o _ l, of 7] by (auto simp: st0_def env0_def)
  have n: "lstrip [115] = [115]" "lstrip [107] = [107]" "rstrip [115] = [115]" "rstrip [107] = [107]"
    by (simp_all add: lstrip_def rstrip_def PROFILE_isspaceW_def)
  have c: "CurProfile (set_CurProfile pr sta) = pr" for pr using a(2) by (simp add: CurProfile_def set_CurProfile_def)
  have c': "CurProfile ((set_CurProfile pr sta)\<lparr>files := fs\<rparr>) = pr" "MRUProfile (set_CurProfile pr ((set_CurProfile pr' sta)\<lparr>files := fs\<rparr>)) \<noteq> []"
      "CurProfile (set_CurProfile pr ((set_CurProfile pr' sta)\<lparr>files := fs\<rparr>)) = pr" for pr pr' fs
    using a(2) by (simp_all add: CurProfile_def set_CurProfile_def)
  have m: "pe_mem env0 k" "pe_open env0 x b" for k x b by (simp_all add: env0_def)
  have "MRUProfile (set_CurProfile pr sta) \<noteq> []" for pr using a(2) by (simp add: set_CurProfile_def)
  then show thesis
    using that a by (simp add: WritePrivateProfileStringW_def set_checked_def PROFILE_SetString_def PROFILE_Find_def n m
        value_at_def set_value_def PROFILE_FlushFile_def c c' written_def Let_def)
qed

lemma written_writable:
  "plain v \<Longrightarrow> trimmed v \<Longrightarrow> writable (written v)"
  by (simp add: writable_def written_def tree_ok_def section_ok_def key_ok_def tree_text_def section_text_def)
    (simp add: plain_def trimmed_def is_newline_def PROFILE_isspaceW_def)

text \<open>C34: what one process writes the next one reads: after a write that succeeds in a process that has read no file yet, and
  leaves a tree that can be saved, the same call in a new process returns the value without the white space in front,
  when it fits into the buffer, has no quotes and the names do not end in white space.\<close>

theorem WritePrivateProfileString_persists:
  assumes m: "mem_ok env" and st: "MRUProfile st = []" and t: "rstrip sec = sec" "rstrip ent = ent"
    and w: "WritePrivateProfileStringW env now (Some sec) (Some ent) (Some val) (Some f) st = Some (True, st1)" and ok: "writable (CurProfile st1)"
    and r: "pe_readable env (pe_full_path env f)" "pe_open env (pe_full_path env f) False"
    and v: "0 \<notin> set (lstrip val)" "length (lstrip val) < 2 \<or> lstrip val ! 0 \<notin> {34, 39}"
    and b: "length buffer = len" "length (lstrip val) < len"
  shows "\<exists>st2. GetPrivateProfileStringW env now' (Some sec) (Some ent) d buffer len (Some f) (st1\<lparr>MRUProfile := []\<rparr>)
    = Some (int (length (lstrip val)), lstrip val @ replicate (len - length (lstrip val)) 0, st2)"
  using WritePrivateProfileString_lemma [OF assms] .

theorem WritePrivateProfileString_persists_witness:
  "\<exists>st1 st2. WritePrivateProfileStringW env0 7 (Some [115]) (Some [107]) (Some [32, 118]) (Some [102]) st0 = Some (True, st1)
    \<and> GetPrivateProfileStringW env0 8 (Some [115]) (Some [107]) None [9, 9, 9] 3 (Some [102]) (st1\<lparr>MRUProfile := []\<rparr>) = Some (1, [118, 0, 0], st2)"
proof -
  have v: "lstrip [32, 118] = [118]" by (simp add: lstrip_def PROFILE_isspaceW_def)
  obtain st1 where w: "WritePrivateProfileStringW env0 7 (Some [115]) (Some [107]) (Some [32, 118]) (Some [102]) st0 = Some (True, st1)"
      "CurProfile st1 = written (lstrip [32, 118])" by (rule first_write)
  have "writable (CurProfile st1)"
    unfolding w(2) v by (rule written_writable) (simp_all add: plain_def trimmed_def is_newline_def PROFILE_isspaceW_def)
  from WritePrivateProfileString_persists [OF env0_mem _ _ _ w(1) this, of "[9, 9, 9]" 3 8 None] w(1) show ?thesis
    by (simp add: v rstrip_def PROFILE_isspaceW_def env0_def st0_def numeral_2_eq_2)
qed

section \<open>Structures\<close>

lemma hex_byte: "x < 256 \<Longrightarrow> get_hex_byte (hex (x div 16) # hex (x mod 16) # r) = Some (int x)"
proof -
  assume x: "x < 256"
  have d: "hex_digit (hex n) = Some (int n)" if "n < 16" for n using that by (auto simp: hex_digit_def hex_def)
  have "x div 16 < 16" "x mod 16 < 16" using x by simp_all
  then have "get_hex_byte (hex (x div 16) # hex (x mod 16) # r) = Some (int (x div 16) * 16 + int (x mod 16))" by (simp add: get_hex_byte_def d)
  also have "int (x div 16) * 16 + int (x mod 16) = int x" by (metis div_mult_mod_eq of_nat_add of_nat_mult of_nat_numeral)
  finally show ?thesis .
qed

lemma read_hex_bytes:
  "\<forall>x\<in>set bytes. x < 256 \<Longrightarrow> read_hex (concat (map (\<lambda>x. [hex (x div 16), hex (x mod 16)]) bytes) @ r) (length bytes) c
    = (map int bytes, if bytes = [] then c else (c + int (sum_list bytes)) mod 256, Some r)"
proof (induction bytes arbitrary: c)
  case (Cons x bytes)
  then show ?case by (simp add: hex_byte mod_add_left_eq add.assoc)
qed simp

lemma hex_range: "n < 16 \<Longrightarrow> 48 \<le> hex n \<and> hex n \<le> 70"
  by (simp add: hex_def)

lemma struct_text_chars:
  assumes "c \<in> set (struct_text bytes)" "\<forall>x\<in>set bytes. x < 256"
  shows "48 \<le> c \<and> c \<le> 70"
proof -
  have "c \<in> hex ` {..<16}" using assms by (auto simp: struct_text_def less_mult_imp_div_less)
  then show ?thesis using hex_range by auto
qed

lemma struct_text_length: "length (struct_text bytes) = 2 * length bytes + 2"
  by (simp add: struct_text_def) (induction bytes, simp_all)

lemma struct_text_strip: "\<forall>x\<in>set bytes. x < 256 \<Longrightarrow> lstrip (struct_text bytes) = struct_text bytes"
proof (rule lstrip_id)
  assume b: "\<forall>x\<in>set bytes. x < 256"
  have "struct_text bytes \<noteq> []" using struct_text_length [of bytes] by auto
  then have "48 \<le> List.hd (struct_text bytes)" using struct_text_chars [OF _ b] by simp
  then show "struct_text bytes = [] \<or> \<not> PROFILE_isspaceW (List.hd (struct_text bytes))" by (simp add: PROFILE_isspaceW_def)
qed

lemma read_struct:
  assumes "\<forall>x\<in>set bytes. x < 256"
  shows "\<exists>p. read_hex (struct_text bytes @ z) (length bytes) 0 = (map int bytes, int (sum_list bytes) mod 256, Some p)
    \<and> get_hex_byte p = Some (int (sum_list bytes) mod 256)"
proof -
  let ?s = "sum_list bytes mod 256"
  let ?p = "[hex (?s div 16), hex (sum_list bytes mod 16)] @ z"
  have "sum_list bytes mod 16 = ?s mod 16" by (simp add: mod_mod_cancel)
  then have "get_hex_byte ?p = Some (int ?s)" using hex_byte [of ?s z] by simp
  moreover have "read_hex (struct_text bytes @ z) (length bytes) 0 = (map int bytes, int (sum_list bytes) mod 256, Some ?p)"
    using read_hex_bytes [OF assms, of ?p 0] by (simp add: struct_text_def)
  ultimately show ?thesis by (auto simp: of_nat_mod)
qed

text \<open>C35: a structure one process writes comes back in the next: every byte is read from the two digits that were written, and the
  checksum agrees.\<close>

theorem PrivateProfileStruct_roundtrip:
  assumes m: "mem_ok env" and st: "MRUProfile st = []" and t: "rstrip sec = sec" "rstrip ent = ent"
    and w: "WritePrivateProfileStructW env now (Some sec) (Some ent) False bytes (Some f) st = Some (True, st1)" and ok: "writable (CurProfile st1)"
    and r: "pe_readable env (pe_full_path env f)" "pe_open env (pe_full_path env f) False"
    and b: "\<forall>x\<in>set bytes. x < 256" "2 * length bytes + 3 < 2147483648" "length (pe_fresh env (2 * length bytes + 3)) = 2 * length bytes + 3"
  shows "\<exists>st2. GetPrivateProfileStructW env now' (Some sec) (Some ent) (length bytes) (Some f) (st1\<lparr>MRUProfile := []\<rparr>) = Some (True, map int bytes, st2)"
proof -
  let ?t = "struct_text bytes" let ?n = "2 * length bytes + 3"
  have w': "WritePrivateProfileStringW env now (Some sec) (Some ent) (Some ?t) (Some f) st = Some (True, st1)"
    using w by (auto simp: WritePrivateProfileStructW_def Let_def split: if_splits)
  have "?t ! 0 \<in> set ?t" using struct_text_length [of bytes] by simp
  then have c: "0 \<notin> set ?t" "?t ! 0 \<notin> {34, 39}" using struct_text_chars [OF _ b(1)] by force+
  obtain st2 where g: "GetPrivateProfileStringW env now' (Some sec) (Some ent) None (pe_fresh env ?n) ?n (Some f) (st1\<lparr>MRUProfile := []\<rparr>)
      = Some (int (length ?t), ?t @ replicate (?n - length ?t) 0, st2)"
    using WritePrivateProfileString_lemma [OF m st t w' ok r _ _ b(3)] c struct_text_strip [OF b(1)] struct_text_length [of bytes] by auto
  obtain p where p: "read_hex (?t @ replicate (?n - length ?t) 0) (length bytes) 0 = (map int bytes, int (sum_list bytes) mod 256, Some p)"
      "get_hex_byte p = Some (int (sum_list bytes) mod 256)"
    using read_struct [OF b(1)] by blast
  have "int (length ?t) = wrap32 (2 * int (length bytes) + 2)" using b(2) struct_text_length [of bytes] by (simp add: wrap32_def)
  then show ?thesis using m g p b(2) by (simp add: GetPrivateProfileStructW_def Let_def mem_ok_def)
qed

theorem PrivateProfileStruct_roundtrip_witness:
  "\<exists>st1 st2. WritePrivateProfileStructW env0 7 (Some [115]) (Some [107]) False [1, 254] (Some [102]) st0 = Some (True, st1)
    \<and> GetPrivateProfileStructW env0 8 (Some [115]) (Some [107]) 2 (Some [102]) (st1\<lparr>MRUProfile := []\<rparr>) = Some (True, [1, 254], st2)"
proof -
  have t: "struct_text [1, 254] = [48, 49, 70, 69, 70, 70]" by (simp add: struct_text_def hex_def)
  have l: "lstrip (struct_text [1, 254]) = struct_text [1, 254]" by (rule struct_text_strip) simp
  obtain st1 where w: "WritePrivateProfileStringW env0 7 (Some [115]) (Some [107]) (Some (struct_text [1, 254])) (Some [102]) st0 = Some (True, st1)"
      "CurProfile st1 = written (lstrip (struct_text [1, 254]))" by (rule first_write)
  have k: "writable (CurProfile st1)"
    unfolding w(2) l by (subst t, rule written_writable) (simp_all add: plain_def trimmed_def is_newline_def PROFILE_isspaceW_def)
  have w': "WritePrivateProfileStructW env0 7 (Some [115]) (Some [107]) False [1, 254] (Some [102]) st0 = Some (True, st1)"
    using w(1) by (simp add: WritePrivateProfileStructW_def env0_def)
  from PrivateProfileStruct_roundtrip [OF env0_mem _ _ _ w' k, of 8] w' show ?thesis
    by (simp add: rstrip_def PROFILE_isspaceW_def env0_def st0_def numeral_2_eq_2)
qed

section \<open>A value that does not fit\<close>

theorem GetPrivateProfileString_overread_witness:
  "\<exists>st. GetPrivateProfileStringW env0 8 (Some [115]) (Some [107]) None [9, 9] 2 (Some [102]) st = None"
proof -
  have v: "lstrip [118, 119] = [118, 119]" by (simp add: lstrip_def PROFILE_isspaceW_def)
  obtain st1 where w: "WritePrivateProfileStringW env0 7 (Some [115]) (Some [107]) (Some [118, 119]) (Some [102]) st0 = Some (True, st1)"
      "CurProfile st1 = written (lstrip [118, 119])" by (rule first_write)
  have k: "writable (CurProfile st1)"
    unfolding w(2) v by (rule written_writable) (simp_all add: plain_def trimmed_def is_newline_def PROFILE_isspaceW_def)
  obtain st2 where "PROFILE_Open env0 8 (Some [102]) False (st1\<lparr>MRUProfile := []\<rparr>) = Some (True, st2)"
      "lookup env0 (sections (CurProfile st2)) [115] [107] = Some (lstrip [118, 119])"
    by (rule written_value [OF env0_mem _ _ _ w(1) k]) (simp_all add: rstrip_def PROFILE_isspaceW_def env0_def st0_def)
  from GetPrivateProfileString_overread [OF env0_mem this(1), of "[115]" "[107]" "[118, 119]" "[9, 9]" 2 None] this(2) show ?thesis
    by (auto simp: v)
qed

end
