(* ===== verification/Qsort_Model.thy ===== *)
theory Qsort_Model
  imports Swinx_Prelude "HOL-Library.Monad_Syntax"
begin

text \<open>
  \<open>qsort_s\<close> (\<^verbatim>\<open>src/platform/posix/sysapi.cpp\<close>): the sort of an array in place with an explicit stack. The array
  is the list of its elements, a pointer into it the index of an element, which may leave the array on
  either side; the comparison function with its context is a function of two elements. \<open>None\<close> is an access
  outside the array or a stack that is full.
\<close>

section \<open>Elements\<close>

definition rd :: "'a list \<Rightarrow> int \<Rightarrow> 'a option" where
  "rd xs i = (if 0 \<le> i \<and> i < int (length xs) then Some (xs ! nat i) else None)"

definition COMPARE :: "('a \<Rightarrow> 'a \<Rightarrow> int) \<Rightarrow> 'a list \<Rightarrow> int \<Rightarrow> int \<Rightarrow> int option" where
  "COMPARE cmp xs i j = do { a \<leftarrow> rd xs i; b \<leftarrow> rd xs j; Some (cmp a b) }"

definition swap_c :: "'a list \<Rightarrow> int \<Rightarrow> int \<Rightarrow> 'a list option" where
  "swap_c xs i j = do { a \<leftarrow> rd xs i; b \<leftarrow> rd xs j; Some (xs[nat i := b, nat j := a]) }"

text \<open>The loop that swaps elements of \<open>width\<close> bytes at two addresses, byte by byte.\<close>

fun swap_bytes :: "nat \<Rightarrow> nat \<Rightarrow> nat \<Rightarrow> 'b list \<Rightarrow> 'b list" where
  "swap_bytes a b 0 bs = bs"
| "swap_bytes a b (Suc width) bs = swap_bytes (a + 1) (b + 1) width (bs[a := bs ! b, b := bs ! a])"

section \<open>Short arrays\<close>

function find_max :: "('a \<Rightarrow> 'a \<Rightarrow> int) \<Rightarrow> 'a list \<Rightarrow> int \<Rightarrow> int \<Rightarrow> int \<Rightarrow> int option" where
  "find_max cmp xs p hi mx =
     (if p \<le> hi then do { c \<leftarrow> COMPARE cmp xs p mx; find_max cmp xs (p + 1) hi (if c > 0 then p else mx) }
      else Some mx)"
  by pat_completeness auto
termination by (relation "measure (\<lambda>(cmp, xs, p, hi, mx). nat (hi - p + 1))") auto

function shortsort_s :: "('a \<Rightarrow> 'a \<Rightarrow> int) \<Rightarrow> 'a list \<Rightarrow> int \<Rightarrow> int \<Rightarrow> 'a list option" where
  "shortsort_s cmp xs lo hi =
     (if hi > lo then do {
        mx \<leftarrow> find_max cmp xs (lo + 1) hi lo;
        xs1 \<leftarrow> swap_c xs mx hi;
        shortsort_s cmp xs1 lo (hi - 1) }
      else Some xs)"
  by pat_completeness auto
termination by (relation "measure (\<lambda>(cmp, xs, lo, hi). nat (hi - lo))") auto

section \<open>Partition\<close>

text \<open>The loops that move \<open>loguy\<close> up, below the middle element and above it.\<close>

function up_to_mid :: "('a \<Rightarrow> 'a \<Rightarrow> int) \<Rightarrow> 'a list \<Rightarrow> int \<Rightarrow> int \<Rightarrow> int option" where
  "up_to_mid cmp xs mid loguy =
     (let l = loguy + 1
      in if l < mid then do { c \<leftarrow> COMPARE cmp xs l mid; if c \<le> 0 then up_to_mid cmp xs mid l else Some l }
         else Some l)"
  by pat_completeness auto
termination by (relation "measure (\<lambda>(cmp, xs, mid, loguy). nat (mid - loguy))") auto

function up_to_hi :: "('a \<Rightarrow> 'a \<Rightarrow> int) \<Rightarrow> 'a list \<Rightarrow> int \<Rightarrow> int \<Rightarrow> int \<Rightarrow> int option" where
  "up_to_hi cmp xs mid hi loguy =
     (let l = loguy + 1
      in if l \<le> hi then do { c \<leftarrow> COMPARE cmp xs l mid; if c \<le> 0 then up_to_hi cmp xs mid hi l else Some l }
         else Some l)"
  by pat_completeness auto
termination by (relation "measure (\<lambda>(cmp, xs, mid, hi, loguy). nat (hi - loguy + 1))") auto

text \<open>The loops that move \<open>higuy\<close> down: over greater elements to the middle, over equal ones to the middle and to the low end.\<close>

function down_to :: "('a \<Rightarrow> 'a \<Rightarrow> int) \<Rightarrow> (int \<Rightarrow> bool) \<Rightarrow> 'a list \<Rightarrow> int \<Rightarrow> int \<Rightarrow> int \<Rightarrow> int option" where
  "down_to cmp go_on xs mid limit higuy =
     (let h = higuy - 1
      in if h > limit then do { c \<leftarrow> COMPARE cmp xs h mid; if go_on c then down_to cmp go_on xs mid limit h else Some h }
         else Some h)"
  by pat_completeness auto
termination by (relation "measure (\<lambda>(cmp, go_on, xs, mid, limit, higuy). nat (higuy - limit))") auto

declare find_max.simps [simp del] shortsort_s.simps [simp del] up_to_mid.simps [simp del] up_to_hi.simps [simp del] down_to.simps [simp del]

definition move_up :: "('a \<Rightarrow> 'a \<Rightarrow> int) \<Rightarrow> 'a list \<Rightarrow> int \<Rightarrow> int \<Rightarrow> int \<Rightarrow> int option" where
  "move_up cmp xs mid hi loguy =
     do { l \<leftarrow> (if mid > loguy then up_to_mid cmp xs mid loguy else Some loguy);
          if mid \<le> l then up_to_hi cmp xs mid hi l else Some l }"

lemma up_to_mid_less: "up_to_mid cmp xs mid l = Some l' \<Longrightarrow> l < l'"
  by (induction cmp xs mid l rule: up_to_mid.induct) (subst (asm) (2) up_to_mid.simps, force simp: Let_def split: bind_splits if_splits)

lemma up_to_hi_less: "up_to_hi cmp xs mid hi l = Some l' \<Longrightarrow> l < l'"
  by (induction cmp xs mid hi l rule: up_to_hi.induct) (subst (asm) (2) up_to_hi.simps, force simp: Let_def split: bind_splits if_splits)

lemma down_to_less: "down_to cmp go_on xs mid limit h = Some h' \<Longrightarrow> h' < h"
  by (induction cmp go_on xs mid limit h rule: down_to.induct) (subst (asm) (2) down_to.simps, force simp: Let_def split: bind_splits if_splits)

lemma move_up_less: "move_up cmp xs mid hi l = Some l' \<Longrightarrow> l < l'"
  by (fastforce simp: move_up_def split: bind_splits if_splits dest: up_to_mid_less up_to_hi_less)

text \<open>The loop that swaps elements on the wrong side; its result is the array, the middle element, \<open>loguy\<close> and \<open>higuy\<close>.\<close>

function partition_loop :: "('a \<Rightarrow> 'a \<Rightarrow> int) \<Rightarrow> 'a list \<Rightarrow> int \<Rightarrow> int \<Rightarrow> int \<Rightarrow> int \<Rightarrow> ('a list \<times> int \<times> int \<times> int) option" where
  "partition_loop cmp xs mid hi loguy higuy =
     do { l \<leftarrow> move_up cmp xs mid hi loguy;
          h \<leftarrow> down_to cmp (\<lambda>c. c > 0) xs mid mid higuy;
          if h < l then Some (xs, mid, l, h)
          else do { xs1 \<leftarrow> swap_c xs l h; partition_loop cmp xs1 (if mid = h then l else mid) hi l h } }"
  by pat_completeness auto
termination
proof (relation "measure (\<lambda>(cmp, xs, mid, hi, loguy, higuy). nat (higuy - loguy))", goal_cases)
  case (2 cmp xs mid hi loguy higuy l h xs1)
  then have "loguy < l" "h < higuy" using move_up_less down_to_less by blast+
  then show ?case using 2(3) by auto
qed simp

declare partition_loop.simps [simp del]

text \<open>The three comparisons that put first, middle and last element into order.\<close>

definition order_at :: "('a \<Rightarrow> 'a \<Rightarrow> int) \<Rightarrow> int \<Rightarrow> int \<Rightarrow> 'a list \<Rightarrow> 'a list option" where
  "order_at cmp i j xs = do { c \<leftarrow> COMPARE cmp xs i j; if c > 0 then swap_c xs i j else Some xs }"

definition skip_equal :: "('a \<Rightarrow> 'a \<Rightarrow> int) \<Rightarrow> 'a list \<Rightarrow> int \<Rightarrow> int \<Rightarrow> int \<Rightarrow> int option" where
  "skip_equal cmp xs mid lo higuy =
     do { let h1 = higuy + 1;
          h2 \<leftarrow> (if mid < h1 then down_to cmp (\<lambda>c. c = 0) xs mid mid h1 else Some h1);
          if mid \<ge> h2 then down_to cmp (\<lambda>c. c = 0) xs mid lo h2 else Some h2 }"

text \<open>The whole pass over a part of the array: the array, and the ends \<open>higuy\<close> and \<open>loguy\<close> of what is left to sort.\<close>

definition partition_s :: "('a \<Rightarrow> 'a \<Rightarrow> int) \<Rightarrow> 'a list \<Rightarrow> int \<Rightarrow> int \<Rightarrow> ('a list \<times> int \<times> int) option" where
  "partition_s cmp xs lo hi =
     do { let mid = lo + (hi - lo + 1) div 2;
          xs1 \<leftarrow> order_at cmp lo mid xs;
          xs2 \<leftarrow> order_at cmp lo hi xs1;
          xs3 \<leftarrow> order_at cmp mid hi xs2;
          (xs4, mid1, loguy, higuy) \<leftarrow> partition_loop cmp xs3 mid hi lo hi;
          h \<leftarrow> skip_equal cmp xs4 mid1 lo higuy;
          Some (xs4, h, loguy) }"

section \<open>The sort\<close>

definition CUTOFF :: int where "CUTOFF = 8"

definition STKSIZ :: nat where "STKSIZ = 62"

text \<open>What comes after a partition: the larger part is put on the stack, the smaller one is next if it has two elements or more.\<close>

definition push :: "int \<times> int \<Rightarrow> (int \<times> int) list \<Rightarrow> (int \<times> int) list option" where
  "push r stk = (if fst r < snd r then (if length stk < STKSIZ then Some (r # stk) else None) else Some stk)"

definition next_parts :: "int \<Rightarrow> int \<Rightarrow> int \<Rightarrow> int \<Rightarrow> (int \<times> int) list \<Rightarrow> ((int \<times> int) list \<times> (int \<times> int) list) option" where
  "next_parts lo higuy loguy hi stk =
     (if higuy - lo \<ge> hi - loguy
      then do { stk1 \<leftarrow> push (lo, higuy) stk; Some (if loguy < hi then [(loguy, hi)] else [], stk1) }
      else do { stk1 \<leftarrow> push (loguy, hi) stk; Some (if lo < higuy then [(lo, higuy)] else [], stk1) })"


text \<open>The part at hand and the stack; the results of the partition bound what comes after it.\<close>

lemma partition_loop_ends:
  "partition_loop cmp xs mid hi l h = Some (xs', mid', l', h') \<Longrightarrow> l < l' \<and> h' < h \<and> h' < l'"
proof (induction cmp xs mid hi l h rule: partition_loop.induct)
  case (1 cmp xs mid hi loguy higuy)
  obtain l h where lh: "move_up cmp xs mid hi loguy = Some l" "down_to cmp (\<lambda>c. c > 0) xs mid mid higuy = Some h"
    using 1(2) by (subst (asm) partition_loop.simps) (auto split: bind_splits)
  then have "loguy < l" "h < higuy" using move_up_less down_to_less by blast+
  moreover have "(if h < l then Some (xs, mid, l, h)
      else do { xs1 \<leftarrow> swap_c xs l h; partition_loop cmp xs1 (if mid = h then l else mid) hi l h }) = Some (xs', mid', l', h')"
    using 1(2) lh by (subst (asm) partition_loop.simps) simp
  ultimately show ?case using 1(1) [OF lh] by (force split: bind_splits if_splits)
qed

lemma skip_equal_ends: "skip_equal cmp xs mid lo h = Some h' \<Longrightarrow> h' \<le> h"
  by (fastforce simp: skip_equal_def Let_def split: bind_splits if_splits dest: down_to_less)

lemma partition_s_ends: "partition_s cmp xs lo hi = Some (xs', h, l) \<Longrightarrow> lo < l \<and> h < hi \<and> h < l"
  by (fastforce simp: partition_s_def Let_def split: bind_splits dest: partition_loop_ends skip_equal_ends)

definition weight :: "int \<times> int \<Rightarrow> nat" where
  "weight r = nat (3 * (snd r - fst r) + 1)"

lemma next_parts_weight:
  assumes "next_parts lo h l hi stk = Some (now, stk1)" "lo < l" "h < hi" "h < l" "lo < hi"
  shows "sum_list (map weight (now @ stk1)) + length (now @ stk1) < weight (lo, hi) + sum_list (map weight stk) + length stk + 1"
  using assms by (auto simp: next_parts_def push_def weight_def split: if_splits bind_splits)

function qsort_loop :: "('a \<Rightarrow> 'a \<Rightarrow> int) \<Rightarrow> 'a list \<Rightarrow> int \<Rightarrow> int \<Rightarrow> (int \<times> int) list \<Rightarrow> 'a list option" where
  "qsort_loop cmp xs lo hi stk =
     (if hi - lo + 1 \<le> CUTOFF
      then do { xs1 \<leftarrow> shortsort_s cmp xs lo hi;
                case stk of [] \<Rightarrow> Some xs1 | (lo1, hi1) # stk1 \<Rightarrow> qsort_loop cmp xs1 lo1 hi1 stk1 }
      else do { (xs1, higuy, loguy) \<leftarrow> partition_s cmp xs lo hi;
                (now, stk1) \<leftarrow> next_parts lo higuy loguy hi stk;
                case now @ stk1 of [] \<Rightarrow> Some xs1 | (lo1, hi1) # stk2 \<Rightarrow> qsort_loop cmp xs1 lo1 hi1 stk2 })"
  by pat_completeness auto
termination
proof (relation "measure (\<lambda>(cmp, xs, lo, hi, stk). weight (lo, hi) + sum_list (map weight stk) + length stk)", goal_cases)
  case (3 cmp xs lo hi stk p xs1 q higuy loguy r now stk1 t stk2 lo1 hi1)
  then have e: "lo < loguy" "higuy < hi" "higuy < loguy" using partition_s_ends [of cmp xs lo hi] by auto
  have "next_parts lo higuy loguy hi stk = Some (now, stk1)" "lo < hi" using 3 by (auto simp: CUTOFF_def)
  from next_parts_weight [OF this(1) e this(2)]
  have "sum_list (map weight ((lo1, hi1) # stk2)) + length ((lo1, hi1) # stk2) < weight (lo, hi) + sum_list (map weight stk) + length stk + 1"
    using 3 by simp
  then show ?case by simp
qed auto

declare qsort_loop.simps [simp del]

text \<open>\<open>base_null\<close> tells whether the array is a null pointer; \<open>None\<close> for the comparison is a null pointer, which is refused, as is a width of 0.\<close>

definition qsort_s :: "bool \<Rightarrow> nat \<Rightarrow> ('a \<Rightarrow> 'a \<Rightarrow> int) option \<Rightarrow> 'a list \<Rightarrow> 'a list option" where
  "qsort_s base_null width cmp_fn xs =
     (if base_null \<and> xs \<noteq> [] \<or> width = 0 then Some xs
      else (case cmp_fn of
              None \<Rightarrow> Some xs
            | Some cmp \<Rightarrow> if length xs < 2 then Some xs else qsort_loop cmp xs 0 (int (length xs) - 1) []))"

end
