(* ===== verification/Qsort_Props.thy ===== *)
theory Qsort_Props
  imports Qsort_Model "HOL-Library.Multiset"
begin

text \<open>
  \<open>qsort_s\<close> comes back with a permutation, without leaving the array and without filling its stack, whatever the
  comparison answers; and the permutation is sorted when the comparison is one of a total preorder.
\<close>

section \<open>Comparisons and elements\<close>

definition comparison :: "('a \<Rightarrow> 'a \<Rightarrow> int) \<Rightarrow> bool" where
  "comparison cmp \<longleftrightarrow> (\<forall>a b. cmp a b > 0 \<longrightarrow> cmp b a \<le> 0) \<and> (\<forall>a b. cmp a b = 0 \<longrightarrow> cmp b a \<le> 0)
     \<and> (\<forall>a b c. cmp a b \<le> 0 \<longrightarrow> cmp b c \<le> 0 \<longrightarrow> cmp a c \<le> 0)"

lemma comparisonD:
  assumes "comparison cmp"
  shows "\<not> cmp a b \<le> 0 \<Longrightarrow> cmp b a \<le> 0" "cmp a b = 0 \<Longrightarrow> cmp b a \<le> 0" "cmp a b \<le> 0 \<Longrightarrow> cmp b c \<le> 0 \<Longrightarrow> cmp a c \<le> 0" "cmp a a \<le> 0"
  using assms unfolding comparison_def by (metis linorder_not_less)+

definition inside :: "'a list \<Rightarrow> int \<Rightarrow> bool" where
  "inside xs i \<longleftrightarrow> 0 \<le> i \<and> i < int (length xs)"

abbreviation at :: "'a list \<Rightarrow> int \<Rightarrow> 'a" where
  "at xs i \<equiv> xs ! nat i"

lemma COMPARE_inside [simp]: "inside xs i \<Longrightarrow> inside xs j \<Longrightarrow> COMPARE cmp xs i j = Some (cmp (at xs i) (at xs j))"
  by (simp add: COMPARE_def rd_def inside_def)

text \<open>What changes only a part of the array, and there only the places of the elements.\<close>

definition within :: "int \<Rightarrow> int \<Rightarrow> 'a list \<Rightarrow> 'a list \<Rightarrow> bool" where
  "within lo hi xs ys \<longleftrightarrow> length ys = length xs \<and> mset ys = mset xs
     \<and> (\<forall>k. inside xs k \<longrightarrow> k < lo \<or> hi < k \<longrightarrow> at ys k = at xs k) \<and> (\<forall>k. lo \<le> k \<longrightarrow> k \<le> hi \<longrightarrow> (\<exists>j. lo \<le> j \<and> j \<le> hi \<and> at ys k = at xs j))"

lemma within_refl [simp]: "within lo hi xs xs"
  by (auto simp: within_def)

lemma within_trans: "within lo hi xs ys \<Longrightarrow> within lo hi ys zs \<Longrightarrow> within lo hi xs zs"
  unfolding within_def inside_def by (intro conjI; simp; metis)

lemma within_widen: "within lo hi xs ys \<Longrightarrow> 0 \<le> lo' \<Longrightarrow> lo' \<le> lo \<Longrightarrow> hi \<le> hi' \<Longrightarrow> hi' < int (length xs) \<Longrightarrow> within lo' hi' xs ys"
  unfolding within_def inside_def by (intro conjI; simp) (metis dual_order.trans leI le_less_trans not_le order.trans)

lemma withinD:
  assumes "within lo hi xs ys"
  shows "length ys = length xs" "mset ys = mset xs" "inside ys k \<longleftrightarrow> inside xs k"
    "inside xs k \<Longrightarrow> k < lo \<or> hi < k \<Longrightarrow> at ys k = at xs k"
  using assms by (auto simp: within_def inside_def)

lemma swap_inside:
  assumes "inside xs i" "inside xs j" "lo \<le> i" "i \<le> hi" "lo \<le> j" "j \<le> hi" "0 \<le> lo" "hi < int (length xs)"
  obtains ys where "swap_c xs i j = Some ys" "within lo hi xs ys" "at ys i = at xs j" "at ys j = at xs i" "\<And>k. 0 \<le> k \<Longrightarrow> k \<noteq> i \<Longrightarrow> k \<noteq> j \<Longrightarrow> at ys k = at xs k"
proof -
  let ?ys = "xs[nat i := at xs j, nat j := at xs i]"
  have r: "at ?ys i = at xs j" "at ?ys j = at xs i" "0 \<le> k \<Longrightarrow> k \<noteq> i \<Longrightarrow> k \<noteq> j \<Longrightarrow> at ?ys k = at xs k" for k
    using assms(1,2) by (auto simp: inside_def nth_list_update nat_eq_iff)
  have "mset ?ys = mset xs" using assms(1,2) mset_swap [of "nat j" xs "nat i"] by (simp add: inside_def nat_less_iff)
  moreover have "\<exists>m. lo \<le> m \<and> m \<le> hi \<and> at ?ys k = at xs m" if "lo \<le> k" "k \<le> hi" for k
    using r(1,2) r(3) [of k] assms that by (cases "k = i"; cases "k = j") auto
  moreover have "at ?ys k = at xs k" if "inside xs k" "k < lo \<or> hi < k" for k
    using r(3) [of k] assms that by (auto simp: inside_def)
  ultimately have "within lo hi xs ?ys" by (simp add: within_def)
  moreover have "swap_c xs i j = Some ?ys" using assms(1,2) by (simp add: swap_c_def rd_def inside_def)
  ultimately show thesis using that r by blast
qed

text \<open>The swap of elements is what the loop over their bytes does.\<close>

lemma swap_bytes_length [simp]: "length (swap_bytes a b w bs) = length bs"
  by (induction a b w bs rule: swap_bytes.induct) simp_all

lemma swap_bytes_nth:
  assumes "a + w \<le> length bs" "b + w \<le> length bs" "a + w \<le> b \<or> b + w \<le> a" "k < length bs"
  shows "swap_bytes a b w bs ! k = (if a \<le> k \<and> k < a + w then bs ! (k - a + b) else if b \<le> k \<and> k < b + w then bs ! (k - b + a) else bs ! k)"
  using assms
proof (induction a b w bs rule: swap_bytes.induct)
  case (2 a b w bs)
  let ?bs = "bs[a := bs ! b, b := bs ! a]"
  have n: "?bs ! m = (if m = a then bs ! b else if m = b then bs ! a else bs ! m)" if "m < length bs" for m
    using that 2(2,3,4) by (auto simp: nth_list_update)
  have "swap_bytes a b (Suc w) bs ! k = swap_bytes (a + 1) (b + 1) w ?bs ! k" by simp
  also have "\<dots> = (if a + 1 \<le> k \<and> k < a + 1 + w then ?bs ! (k - (a + 1) + (b + 1))
      else if b + 1 \<le> k \<and> k < b + 1 + w then ?bs ! (k - (b + 1) + (a + 1)) else ?bs ! k)"
    by (rule 2(1)) (use 2(2-) in auto)
  finally have e: "swap_bytes a b (Suc w) bs ! k = \<dots>" .
  consider "k = a" | "k = b" | "a < k" "k < a + Suc w" | "b < k" "k < b + Suc w" "\<not> (a < k \<and> k < a + Suc w)"
    | "\<not> (a \<le> k \<and> k < a + Suc w)" "\<not> (b \<le> k \<and> k < b + Suc w)" by linarith
  then show ?case
  proof cases
    case 3
    then have "k - (a + 1) + (b + 1) = k - a + b" "k - a + b \<noteq> a" "k - a + b \<noteq> b" "k - a + b < length bs" using 2(2,3,4) by auto
    then show ?thesis using e n [of "k - a + b"] 3 by simp
  next
    case 4
    then have "k - (b + 1) + (a + 1) = k - b + a" "k - b + a \<noteq> a" "k - b + a \<noteq> b" "k - b + a < length bs" using 2(2,3,4) by auto
    then show ?thesis using e n [of "k - b + a"] 4 2(4) by auto
  qed (use e n [of k] 2(2-) in auto)
qed auto

lemma concat_element: "\<forall>x\<in>set xs. length x = w \<Longrightarrow> i < length xs \<Longrightarrow> r < w \<Longrightarrow> concat xs ! (i * w + r) = xs ! i ! r"
proof (induction xs arbitrary: i)
  case (Cons x xs)
  then show ?case by (cases i) (auto simp: nth_append)
qed simp

lemma concat_size: "\<forall>x\<in>set xs. length x = w \<Longrightarrow> length (concat xs) = length xs * w"
  by (induction xs) auto

lemma swap_bytes_elements:
  assumes w: "\<forall>x\<in>set xs. length x = w" and ij: "inside xs i" "inside xs j" "i \<noteq> j"
  shows "Some (swap_bytes (nat i * w) (nat j * w) w (concat xs)) = map_option concat (swap_c xs i j)"
proof -
  let ?i = "nat i" and ?j = "nat j" let ?ys = "xs[?i := xs ! ?j, ?j := xs ! ?i]"
  have b: "?i < length xs" "?j < length xs" "?i \<noteq> ?j" using ij by (auto simp: inside_def)
  have room: "?i * w + w \<le> length xs * w" "?j * w + w \<le> length xs * w" "?i * w + w \<le> ?j * w \<or> ?j * w + w \<le> ?i * w"
    using b mult_le_mono1 [of "Suc _" _ w] by (auto simp: add.commute [of _ w] simp flip: mult_Suc intro!: mult_le_mono1)
  have wy: "\<forall>x\<in>set ?ys. length x = w" using w b by (auto dest!: set_update_subset_insert [THEN subsetD])
  have "swap_bytes (?i * w) (?j * w) w (concat xs) = concat ?ys"
  proof (rule nth_equalityI)
    fix k assume k: "k < length (swap_bytes (?i * w) (?j * w) w (concat xs))"
    define m r where "m = k div w" and "r = k mod w"
    have kl: "k < length xs * w" using k concat_size [OF w] by simp
    then have "0 < w" by (cases w) auto
    then have mr: "k = m * w + r" "r < w" "m < length xs" using kl by (simp_all add: m_def r_def less_mult_imp_div_less)
    have same: "n * w \<le> k \<and> k < n * w + w \<longleftrightarrow> m = n" for n
    proof -
      have "m < n \<Longrightarrow> Suc m * w \<le> n * w" "n < m \<Longrightarrow> Suc n * w \<le> m * w" by (rule mult_le_mono1, simp)+
      then show ?thesis using mr(1,2) by (cases "m < n"; cases "n < m") auto
    qed
    have "swap_bytes (?i * w) (?j * w) w (concat xs) ! k = (if m = ?i then concat xs ! (k - ?i * w + ?j * w)
        else if m = ?j then concat xs ! (k - ?j * w + ?i * w) else concat xs ! k)"
      by (subst swap_bytes_nth) (use room kl concat_size [OF w] in \<open>simp_all only: same\<close>)
    also have "\<dots> = (if m = ?i then xs ! ?j ! r else if m = ?j then xs ! ?i ! r else xs ! m ! r)"
      using concat_element [OF w, of ?i r] concat_element [OF w, of ?j r] concat_element [OF w, of m r] b mr by (simp add: add.commute)
    also have "\<dots> = ?ys ! m ! r" using b by (simp add: nth_list_update)
    also have "\<dots> = concat ?ys ! k" using concat_element [OF wy, of m r] mr by simp
    finally show "swap_bytes (?i * w) (?j * w) w (concat xs) ! k = concat ?ys ! k" .
  qed (use concat_size [OF w] concat_size [OF wy] in simp)
  then show ?thesis using b ij by (simp add: swap_c_def rd_def inside_def)
qed

section \<open>Short arrays\<close>

lemma find_max_result:
  assumes "0 \<le> lo" "lo \<le> mx" "mx < p" "p \<le> hi + 1" "hi < int (length xs)"
  shows "\<exists>m. find_max cmp xs p hi mx = Some m \<and> lo \<le> m \<and> m \<le> hi
    \<and> (comparison cmp \<longrightarrow> (\<forall>i. lo \<le> i \<longrightarrow> i < p \<longrightarrow> cmp (at xs i) (at xs mx) \<le> 0) \<longrightarrow> (\<forall>i. lo \<le> i \<longrightarrow> i \<le> hi \<longrightarrow> cmp (at xs i) (at xs m) \<le> 0))"
  using assms
proof (induction cmp xs p hi mx rule: find_max.induct)
  case (1 cmp xs p hi mx)
  show ?case
  proof (cases "p \<le> hi")
    case True
    let ?c = "cmp (at xs p) (at xs mx)" let ?m = "if ?c > 0 then p else mx"
    have c: "COMPARE cmp xs p mx = Some ?c" using 1(2-) True by (simp add: inside_def)
    have b: "lo \<le> ?m" "?m < p + 1" "p + 1 \<le> hi + 1" using 1(2-) True by auto
    obtain m where m: "find_max cmp xs (p + 1) hi ?m = Some m" "lo \<le> m" "m \<le> hi"
      "comparison cmp \<longrightarrow> (\<forall>i. lo \<le> i \<longrightarrow> i < p + 1 \<longrightarrow> cmp (at xs i) (at xs ?m) \<le> 0) \<longrightarrow> (\<forall>i. lo \<le> i \<longrightarrow> i \<le> hi \<longrightarrow> cmp (at xs i) (at xs m) \<le> 0)"
      using 1(1) [OF True c 1(2) b 1(6)] by blast
    have "cmp (at xs i) (at xs ?m) \<le> 0" if cc: "comparison cmp" and h: "\<forall>i. lo \<le> i \<longrightarrow> i < p \<longrightarrow> cmp (at xs i) (at xs mx) \<le> 0" and i: "lo \<le> i" "i < p + 1" for i
    proof (cases "?c > 0")
      case True
      then have "cmp (at xs mx) (at xs p) \<le> 0" using comparisonD(1) [OF cc] by simp
      then show ?thesis using True h i comparisonD(3) [OF cc, of "at xs i" "at xs mx" "at xs p"] comparisonD(4) [OF cc] by (cases "i = p") auto
    next
      case False
      then show ?thesis using h i by (cases "i = p") auto
    qed
    then show ?thesis using m c True by (subst find_max.simps) auto
  next
    case False
    then show ?thesis using 1(2-) by (subst find_max.simps) auto
  qed
qed

definition ordered :: "('a \<Rightarrow> 'a \<Rightarrow> int) \<Rightarrow> 'a list \<Rightarrow> int \<Rightarrow> int \<Rightarrow> bool" where
  "ordered cmp xs lo hi \<longleftrightarrow> (\<forall>i j. lo \<le> i \<longrightarrow> i < j \<longrightarrow> j \<le> hi \<longrightarrow> cmp (at xs i) (at xs j) \<le> 0)"

lemma shortsort_result:
  assumes "0 \<le> lo" "hi < int (length xs)"
  shows "\<exists>ys. shortsort_s cmp xs lo hi = Some ys \<and> within lo hi xs ys \<and> (comparison cmp \<longrightarrow> ordered cmp ys lo hi)"
  using assms
proof (induction cmp xs lo hi rule: shortsort_s.induct)
  case (1 cmp xs lo hi)
  show ?case
  proof (cases "hi > lo")
    case True
    obtain m where m: "find_max cmp xs (lo + 1) hi lo = Some m" "lo \<le> m" "m \<le> hi"
      "comparison cmp \<longrightarrow> (\<forall>i. lo \<le> i \<longrightarrow> i \<le> hi \<longrightarrow> cmp (at xs i) (at xs m) \<le> 0)"
      using find_max_result [of lo lo "lo + 1" hi xs cmp] 1(2-) True comparisonD(4) [of cmp] by fastforce
    obtain xs1 where s: "swap_c xs m hi = Some xs1" "within lo hi xs xs1" "at xs1 hi = at xs m"
      by (rule swap_inside [of xs m hi lo hi]) (use m(2,3) 1(2-) True in \<open>auto simp: inside_def\<close>)
    obtain ys where ys: "shortsort_s cmp xs1 lo (hi - 1) = Some ys" "within lo (hi - 1) xs1 ys" "comparison cmp \<longrightarrow> ordered cmp ys lo (hi - 1)"
      using 1(1) [OF True m(1) s(1)] 1(2-) withinD(1) [OF s(2)] by auto
    have w: "within lo hi xs ys"
      by (rule within_trans [OF s(2) within_widen [OF ys(2)]]) (use 1(2-) withinD(1) [OF s(2)] in auto)
    have "ordered cmp ys lo hi" if cc: "comparison cmp"
    proof -
      have "cmp (at ys i) (at ys hi) \<le> 0" if i: "lo \<le> i" "i < hi" for i
      proof -
        obtain j where j: "lo \<le> j" "j \<le> hi" "at ys i = at xs j" using w i by (auto simp: within_def)
        have "at ys hi = at xs m" using withinD(4) [OF ys(2), of hi] s(3) 1(2-) True withinD(1) [OF s(2)] by (simp add: inside_def)
        then show ?thesis using j m(4) cc by simp
      qed
      then show ?thesis using ys(3) cc by (auto simp: ordered_def) (metis linorder_not_less order_less_le zle_diff1_eq)
    qed
    then show ?thesis using True m(1) s(1) ys(1) w by (subst shortsort_s.simps) auto
  next
    case False
    then show ?thesis by (subst shortsort_s.simps) (auto simp: ordered_def)
  qed
qed

section \<open>Partition\<close>

lemma up_to_mid_result:
  assumes "0 \<le> l" "l < mid" "mid < int (length xs)"
  shows "\<exists>l'. up_to_mid cmp xs mid l = Some l' \<and> l < l' \<and> l' \<le> mid \<and> (\<forall>i. l < i \<longrightarrow> i < l' \<longrightarrow> cmp (at xs i) (at xs mid) \<le> 0)
    \<and> (l' < mid \<longrightarrow> cmp (at xs l') (at xs mid) > 0)"
  using assms
proof (induction cmp xs mid l rule: up_to_mid.induct)
  case (1 cmp xs mid l)
  let ?c = "cmp (at xs (l + 1)) (at xs mid)"
  show ?case
  proof (cases "l + 1 < mid \<and> ?c \<le> 0")
    case True
    have c: "COMPARE cmp xs (l + 1) mid = Some ?c" using 1(2-) True by (simp add: inside_def)
    obtain l' where l': "up_to_mid cmp xs mid (l + 1) = Some l'" "l + 1 < l'" "l' \<le> mid"
        "\<forall>i. l + 1 < i \<longrightarrow> i < l' \<longrightarrow> cmp (at xs i) (at xs mid) \<le> 0" "l' < mid \<longrightarrow> cmp (at xs l') (at xs mid) > 0"
      using 1(1) [OF refl _ c] True 1(2-) by auto
    have "\<forall>i. l < i \<longrightarrow> i < l' \<longrightarrow> cmp (at xs i) (at xs mid) \<le> 0" using l'(4) True by (metis zle_add1_eq_le linorder_not_less order_le_less)
    then show ?thesis using l' c True by (subst up_to_mid.simps) (auto simp: Let_def)
  next
    case False
    then show ?thesis using 1(2-) by (subst up_to_mid.simps) (auto simp: Let_def inside_def)
  qed
qed

lemma up_to_hi_result:
  assumes "-1 \<le> l" "l \<le> hi" "inside xs mid" "hi < int (length xs)"
  shows "\<exists>l'. up_to_hi cmp xs mid hi l = Some l' \<and> l < l' \<and> l' \<le> hi + 1 \<and> (\<forall>i. l < i \<longrightarrow> i < l' \<longrightarrow> cmp (at xs i) (at xs mid) \<le> 0)
    \<and> (l' \<le> hi \<longrightarrow> cmp (at xs l') (at xs mid) > 0)"
  using assms
proof (induction cmp xs mid hi l rule: up_to_hi.induct)
  case (1 cmp xs mid hi l)
  let ?c = "cmp (at xs (l + 1)) (at xs mid)"
  show ?case
  proof (cases "l + 1 \<le> hi \<and> ?c \<le> 0")
    case True
    have c: "COMPARE cmp xs (l + 1) mid = Some ?c" using 1(2-) True by (simp add: inside_def)
    obtain l' where l': "up_to_hi cmp xs mid hi (l + 1) = Some l'" "l + 1 < l'" "l' \<le> hi + 1"
        "\<forall>i. l + 1 < i \<longrightarrow> i < l' \<longrightarrow> cmp (at xs i) (at xs mid) \<le> 0" "l' \<le> hi \<longrightarrow> cmp (at xs l') (at xs mid) > 0"
      using 1(1) [OF refl _ c] True 1(2-) by auto
    have "\<forall>i. l < i \<longrightarrow> i < l' \<longrightarrow> cmp (at xs i) (at xs mid) \<le> 0" using l'(4) True by (metis zle_add1_eq_le linorder_not_less order_le_less)
    then show ?thesis using l' c True by (subst up_to_hi.simps) (auto simp: Let_def)
  next
    case False
    then show ?thesis using 1(2-) by (subst up_to_hi.simps) (auto simp: Let_def inside_def)
  qed
qed

lemma down_to_result:
  assumes "0 \<le> limit" "h \<le> int (length xs)" "inside xs mid"
  shows "\<exists>h'. down_to cmp go_on xs mid limit h = Some h' \<and> h' < h \<and> min limit (h - 1) \<le> h' \<and> (\<forall>i. h' < i \<longrightarrow> i < h \<longrightarrow> go_on (cmp (at xs i) (at xs mid)))
    \<and> (h' > limit \<longrightarrow> \<not> go_on (cmp (at xs h') (at xs mid)))"
  using assms
proof (induction cmp go_on xs mid limit h rule: down_to.induct)
  case (1 cmp go_on xs mid limit h)
  let ?c = "cmp (at xs (h - 1)) (at xs mid)"
  show ?case
  proof (cases "h - 1 > limit \<and> go_on ?c")
    case True
    have c: "COMPARE cmp xs (h - 1) mid = Some ?c" using 1(2-) True by (simp add: inside_def)
    obtain h' where h': "down_to cmp go_on xs mid limit (h - 1) = Some h'" "h' < h - 1" "min limit (h - 1 - 1) \<le> h'"
        "\<forall>i. h' < i \<longrightarrow> i < h - 1 \<longrightarrow> go_on (cmp (at xs i) (at xs mid))" "h' > limit \<longrightarrow> \<not> go_on (cmp (at xs h') (at xs mid))"
      using 1(1) [OF refl _ c] True 1(2-) by auto
    have "\<forall>i. h' < i \<longrightarrow> i < h \<longrightarrow> go_on (cmp (at xs i) (at xs mid))" using h'(4) True by (metis zle_diff1_eq order_le_less)
    then show ?thesis using h' c True by (subst down_to.simps) (auto simp: Let_def)
  next
    case False
    then show ?thesis using 1(2-) by (subst down_to.simps) (auto simp: Let_def inside_def)
  qed
qed

lemma move_up_result:
  assumes "0 \<le> l" "l \<le> hi" "0 \<le> mid" "mid \<le> hi" "hi < int (length xs)"
  shows "\<exists>l'. move_up cmp xs mid hi l = Some l' \<and> l < l' \<and> l' \<le> hi + 1 \<and> (\<forall>i. l < i \<longrightarrow> i < l' \<longrightarrow> i \<noteq> mid \<longrightarrow> cmp (at xs i) (at xs mid) \<le> 0)
    \<and> (l' \<le> hi \<longrightarrow> cmp (at xs l') (at xs mid) > 0) \<and> l' \<noteq> mid"
proof -
  have m: "inside xs mid" using assms by (simp add: inside_def)
  obtain l1 where l1: "(if mid > l then up_to_mid cmp xs mid l else Some l) = Some l1" "l \<le> l1" "mid > l \<longrightarrow> l < l1 \<and> l1 \<le> mid"
      "\<forall>i. l < i \<longrightarrow> i < l1 \<longrightarrow> cmp (at xs i) (at xs mid) \<le> 0" "mid > l \<longrightarrow> l1 < mid \<longrightarrow> cmp (at xs l1) (at xs mid) > 0" "mid \<le> l \<longrightarrow> l1 = l"
    using up_to_mid_result [of l mid xs cmp] assms by fastforce
  show ?thesis
  proof (cases "mid \<le> l1")
    case True
    then obtain l2 where l2: "up_to_hi cmp xs mid hi l1 = Some l2" "l1 < l2" "l2 \<le> hi + 1" "\<forall>i. l1 < i \<longrightarrow> i < l2 \<longrightarrow> cmp (at xs i) (at xs mid) \<le> 0"
        "l2 \<le> hi \<longrightarrow> cmp (at xs l2) (at xs mid) > 0"
      using up_to_hi_result [of l1 hi xs mid cmp] l1(2,3,6) assms m by fastforce
    have "cmp (at xs i) (at xs mid) \<le> 0" if "l < i" "i < l2" "i \<noteq> mid" for i
      using that l1(3,4,6) l2(4) True by (cases "i < l1"; cases "i = l1") auto
    then show ?thesis using l1(1,2) l2 True by (simp add: move_up_def)
  next
    case False
    then show ?thesis using l1 assms by (auto simp: move_up_def)
  qed
qed

text \<open>What the loop of the partition keeps, for a comparison of a preorder.\<close>

definition sides :: "('a \<Rightarrow> 'a \<Rightarrow> int) \<Rightarrow> 'a list \<Rightarrow> int \<Rightarrow> int \<Rightarrow> int \<Rightarrow> int \<Rightarrow> int \<Rightarrow> bool" where
  "sides cmp xs lo mid hi l h \<longleftrightarrow> mid < hi \<and> (\<forall>i. lo \<le> i \<longrightarrow> i \<le> l \<longrightarrow> cmp (at xs i) (at xs mid) \<le> 0)
     \<and> (\<forall>i. h \<le> i \<longrightarrow> i < hi \<longrightarrow> cmp (at xs i) (at xs mid) > 0) \<and> cmp (at xs mid) (at xs hi) \<le> 0"

definition split_at :: "('a \<Rightarrow> 'a \<Rightarrow> int) \<Rightarrow> 'a list \<Rightarrow> int \<Rightarrow> int \<Rightarrow> int \<Rightarrow> int \<Rightarrow> int \<Rightarrow> bool" where
  "split_at cmp xs lo mid hi l h \<longleftrightarrow> (\<forall>i. lo \<le> i \<longrightarrow> i < l \<longrightarrow> cmp (at xs i) (at xs mid) \<le> 0)
     \<and> (\<forall>i. h < i \<longrightarrow> i < hi \<longrightarrow> cmp (at xs i) (at xs mid) > 0) \<and> cmp (at xs mid) (at xs hi) \<le> 0"

lemma sides_swap:
  assumes cc: "comparison cmp" and s: "sides cmp xs lo mid hi l h" "h \<le> hi" "lo \<le> l" "0 \<le> lo" and up: "l < l'" "\<forall>i. l < i \<longrightarrow> i < l' \<longrightarrow> i \<noteq> mid \<longrightarrow> cmp (at xs i) (at xs mid) \<le> 0"
    "l' \<le> hi \<longrightarrow> cmp (at xs l') (at xs mid) > 0" "l' \<noteq> mid"
    and down: "h' < h" "min mid (h - 1) \<le> h'" "\<forall>i. h' < i \<longrightarrow> i < h \<longrightarrow> cmp (at xs i) (at xs mid) > 0" "h' > mid \<longrightarrow> \<not> cmp (at xs h') (at xs mid) > 0"
    and le: "l' \<le> h'" and ys: "at ys l' = at xs h'" "at ys h' = at xs l'" "\<And>k. 0 \<le> k \<Longrightarrow> k \<noteq> l' \<Longrightarrow> k \<noteq> h' \<Longrightarrow> at ys k = at xs k" and mid: "0 \<le> mid"
  shows "sides cmp ys lo (if mid = h' then l' else mid) hi l' h'"
proof -
  let ?m = "if mid = h' then l' else mid"
  note refl = comparisonD(4) [OF cc]
  have m: "at ys ?m = at xs mid" using ys up(4) mid by auto
  have "mid < h" using s(1) refl [of "at xs mid"] unfolding sides_def by (metis leI not_less)
  then have h': "cmp (at xs h') (at xs mid) \<le> 0" using down(2,4) refl [of "at xs mid"] by (cases "h' = mid") auto
  have low: "cmp (at ys i) (at xs mid) \<le> 0" if "lo \<le> i" "i \<le> l'" for i
  proof (cases "i = l'")
    case False
    then have "at ys i = at xs i" using ys(3) [of i] that s(4) le by auto
    then show ?thesis using s(1) up(2) that False refl [of "at xs mid"] unfolding sides_def by (metis leI order_le_less)
  qed (simp add: ys h')
  have high: "cmp (at ys i) (at xs mid) > 0" if "h' \<le> i" "i < hi" for i
  proof (cases "i = h'")
    case False
    then have "at ys i = at xs i" using ys(3) [of i] that s(3,4) le up(1) by auto
    then show ?thesis using s(1) down(3) that False unfolding sides_def by (metis leI order_le_less)
  qed (use ys(2) up(3) that le in simp)
  have "at ys hi = at xs hi" using ys(3) [of hi] s(2,3,4) le up(1) down(1) by auto
  then show ?thesis using s(1,2) low high m le down(1) unfolding sides_def by auto
qed

lemma partition_loop_result:
  assumes "0 \<le> lo" "lo \<le> l" "l \<le> hi" "lo < h" "h \<le> hi" "lo \<le> mid" "mid \<le> hi" "hi < int (length xs)"
  shows "\<exists>ys mid' l' h'. partition_loop cmp xs mid hi l h = Some (ys, mid', l', h') \<and> within lo hi xs ys \<and> l' \<le> hi + 1 \<and> lo \<le> h'
    \<and> lo \<le> mid' \<and> mid' \<le> hi \<and> (comparison cmp \<longrightarrow> sides cmp xs lo mid hi l h \<longrightarrow> split_at cmp ys lo mid' hi l' h')"
  using assms
proof (induction cmp xs mid hi l h rule: partition_loop.induct)
  case (1 cmp xs mid hi l h)
  obtain l' where l': "move_up cmp xs mid hi l = Some l'" "l < l'" "l' \<le> hi + 1" "\<forall>i. l < i \<longrightarrow> i < l' \<longrightarrow> i \<noteq> mid \<longrightarrow> cmp (at xs i) (at xs mid) \<le> 0"
      "l' \<le> hi \<longrightarrow> cmp (at xs l') (at xs mid) > 0" "l' \<noteq> mid"
    using move_up_result [of l hi mid xs cmp] 1(2-) by auto
  obtain h' where h': "down_to cmp (\<lambda>c. c > 0) xs mid mid h = Some h'" "h' < h" "min mid (h - 1) \<le> h'" "\<forall>i. h' < i \<longrightarrow> i < h \<longrightarrow> cmp (at xs i) (at xs mid) > 0"
      "h' > mid \<longrightarrow> \<not> cmp (at xs h') (at xs mid) > 0"
    using down_to_result [of mid h xs mid cmp "\<lambda>c. c > 0"] 1(2-) by (auto simp: inside_def)
  have e: "partition_loop cmp xs mid hi l h = (if h' < l' then Some (xs, mid, l', h')
      else do { xs1 \<leftarrow> swap_c xs l' h'; partition_loop cmp xs1 (if mid = h' then l' else mid) hi l' h' })"
    using l'(1) h'(1) by (subst partition_loop.simps) simp
  show ?case
  proof (cases "h' < l'")
    case True
    have "split_at cmp xs lo mid hi l' h'" if cc: "comparison cmp" and s: "sides cmp xs lo mid hi l h"
      using s l'(4) h'(4) comparisonD(4) [OF cc] unfolding sides_def split_at_def by (metis leI)
    then show ?thesis using e True l'(3) h'(3) 1(2-) by auto
  next
    case False
    then have b: "l' \<le> h'" "h' < hi" "lo < l'" using l'(2) h'(2) 1(2-) by auto
    let ?m = "if mid = h' then l' else mid"
    obtain xs1 where x: "swap_c xs l' h' = Some xs1" "within lo hi xs xs1" "at xs1 l' = at xs h'" "at xs1 h' = at xs l'"
        "\<And>k. 0 \<le> k \<Longrightarrow> k \<noteq> l' \<Longrightarrow> k \<noteq> h' \<Longrightarrow> at xs1 k = at xs k"
      by (rule swap_inside [of xs l' h' lo hi]) (use b 1(2-) in \<open>auto simp: inside_def\<close>)
    have m: "lo \<le> l'" "l' \<le> hi" "lo < h'" "h' \<le> hi" "lo \<le> ?m" "?m \<le> hi" "hi < int (length xs1)"
      using 1(2-) b withinD(1) [OF x(2)] by auto
    obtain ys mid' l2 h2 where y: "partition_loop cmp xs1 ?m hi l' h' = Some (ys, mid', l2, h2)" "within lo hi xs1 ys" "l2 \<le> hi + 1" "lo \<le> h2"
        "lo \<le> mid'" "mid' \<le> hi" "comparison cmp \<longrightarrow> sides cmp xs1 lo ?m hi l' h' \<longrightarrow> split_at cmp ys lo mid' hi l2 h2"
      using 1(1) [OF l'(1) h'(1) False x(1) 1(2) m] by blast
    have "sides cmp xs1 lo ?m hi l' h'" if cc: "comparison cmp" and s: "sides cmp xs lo mid hi l h"
      by (rule sides_swap [OF cc s _ _ _ l'(2,4,5,6) h'(2-5) b(1) x(3,4,5)]) (use 1(2-) in auto)
    then show ?thesis using e False x(1) y within_trans [OF x(2) y(2)] by simp
  qed
qed

lemma skip_equal_result:
  assumes "0 \<le> lo" "lo \<le> h" "h < hi" "lo \<le> mid" "mid \<le> hi" "hi < int (length xs)"
  shows "\<exists>h'. skip_equal cmp xs mid lo h = Some h' \<and> lo - 1 \<le> h' \<and> h' \<le> h \<and> (\<forall>i. h' < i \<longrightarrow> i \<le> h \<longrightarrow> i = mid \<or> cmp (at xs i) (at xs mid) = 0)"
proof -
  have m: "inside xs mid" using assms by (simp add: inside_def)
  obtain h2 where h2: "(if mid < h + 1 then down_to cmp (\<lambda>c. c = 0) xs mid mid (h + 1) else Some (h + 1)) = Some h2"
      "mid < h + 1 \<longrightarrow> mid \<le> h2 \<and> h2 < h + 1" "mid \<ge> h + 1 \<longrightarrow> h2 = h + 1" "\<forall>i. h2 < i \<longrightarrow> i < h + 1 \<longrightarrow> cmp (at xs i) (at xs mid) = 0"
  proof (cases "mid < h + 1")
    case True
    have "0 \<le> mid" "h + 1 \<le> int (length xs)" using assms by auto
    from down_to_result [OF this m, of cmp "\<lambda>c. c = 0"] obtain h2 where
        "down_to cmp (\<lambda>c. c = 0) xs mid mid (h + 1) = Some h2" "h2 < h + 1" "min mid (h + 1 - 1) \<le> h2"
        "\<forall>i. h2 < i \<longrightarrow> i < h + 1 \<longrightarrow> cmp (at xs i) (at xs mid) = 0" by blast
    with True show ?thesis by (intro that [of h2]) auto
  qed (use that in simp)
  show ?thesis
  proof (cases "mid \<ge> h2")
    case True
    obtain h3 where h3: "down_to cmp (\<lambda>c. c = 0) xs mid lo h2 = Some h3" "h3 < h2" "min lo (h2 - 1) \<le> h3" "\<forall>i. h3 < i \<longrightarrow> i < h2 \<longrightarrow> cmp (at xs i) (at xs mid) = 0"
      using down_to_result [of lo h2 xs mid cmp "\<lambda>c. c = 0"] assms m h2(2,3) by fastforce
    have "i = mid \<or> cmp (at xs i) (at xs mid) = 0" if "h3 < i" "i \<le> h" for i
      using that h2(2,3,4) h3(4) True by (cases "i < h2"; cases "i = h2") auto
    moreover have "lo - 1 \<le> h3" "h3 \<le> h" using h2(2,3) h3(2,3) assms True by (cases "mid < h + 1"; simp add: min_def split: if_splits)+
    ultimately show ?thesis using h2(1) h3(1) True by (simp add: skip_equal_def)
  next
    case False
    then show ?thesis using h2 assms by (auto simp: skip_equal_def)
  qed
qed

text \<open>The parts a partition leaves, and the elements between and around them.\<close>

definition parted :: "('a \<Rightarrow> 'a \<Rightarrow> int) \<Rightarrow> 'a list \<Rightarrow> int \<Rightarrow> int \<Rightarrow> int \<Rightarrow> int \<Rightarrow> bool" where
  "parted cmp ys lo h l hi \<longleftrightarrow> (\<forall>i j. lo \<le> i \<longrightarrow> i < j \<longrightarrow> j \<le> hi \<longrightarrow> j \<le> h \<or> l \<le> i \<or> cmp (at ys i) (at ys j) \<le> 0)"

lemma order_at_result:
  assumes "lo \<le> i" "i < j" "j \<le> hi" "0 \<le> lo" "hi < int (length xs)"
  obtains ys where "order_at cmp i j xs = Some ys" "within lo hi xs ys"
    "ys = xs \<and> \<not> cmp (at xs i) (at xs j) > 0 \<or> cmp (at xs i) (at xs j) > 0 \<and> at ys i = at xs j \<and> at ys j = at xs i"
    "\<And>k. 0 \<le> k \<Longrightarrow> k \<noteq> i \<Longrightarrow> k \<noteq> j \<Longrightarrow> at ys k = at xs k"
proof -
  have c: "COMPARE cmp xs i j = Some (cmp (at xs i) (at xs j))" using assms by (simp add: inside_def)
  obtain zs where z: "swap_c xs i j = Some zs" "within lo hi xs zs" "at zs i = at xs j" "at zs j = at xs i" "\<And>k. 0 \<le> k \<Longrightarrow> k \<noteq> i \<Longrightarrow> k \<noteq> j \<Longrightarrow> at zs k = at xs k"
    by (rule swap_inside [of xs i j lo hi]) (use assms in \<open>auto simp: inside_def\<close>)
  show thesis
  proof (cases "cmp (at xs i) (at xs j) > 0")
    case True
    show ?thesis by (rule that [of zs]) (use True c z in \<open>simp_all add: order_at_def\<close>)
  next
    case False
    show ?thesis by (rule that [of xs]) (use False c in \<open>simp_all add: order_at_def\<close>)
  qed
qed

lemma partition_result:
  assumes "0 \<le> lo" "lo + 7 < hi" "hi < int (length xs)"
  shows "\<exists>ys h l. partition_s cmp xs lo hi = Some (ys, h, l) \<and> within lo hi xs ys \<and> lo - 1 \<le> h \<and> h < l \<and> l \<le> hi + 1 \<and> lo < l \<and> h < hi
    \<and> (comparison cmp \<longrightarrow> parted cmp ys lo h l hi)"
proof -
  define mid where "mid = lo + (hi - lo + 1) div 2"
  have mid: "lo < mid" "mid < hi" using assms by (auto simp: mid_def)
  obtain x1 where x1: "order_at cmp lo mid xs = Some x1" "within lo hi xs x1"
      "x1 = xs \<and> \<not> cmp (at xs lo) (at xs mid) > 0 \<or> cmp (at xs lo) (at xs mid) > 0 \<and> at x1 lo = at xs mid \<and> at x1 mid = at xs lo"
    by (rule order_at_result [of lo lo mid hi xs cmp]) (use assms mid in auto)
  have len1: "length x1 = length xs" using withinD(1) [OF x1(2)] .
  obtain x2 where x2: "order_at cmp lo hi x1 = Some x2" "within lo hi x1 x2"
      "x2 = x1 \<and> \<not> cmp (at x1 lo) (at x1 hi) > 0 \<or> cmp (at x1 lo) (at x1 hi) > 0 \<and> at x2 lo = at x1 hi \<and> at x2 hi = at x1 lo"
      "\<And>k. 0 \<le> k \<Longrightarrow> k \<noteq> lo \<Longrightarrow> k \<noteq> hi \<Longrightarrow> at x2 k = at x1 k"
    by (rule order_at_result [of lo lo hi hi x1 cmp]) (use assms mid len1 in auto)
  have len2: "length x2 = length xs" using withinD(1) [OF x2(2)] len1 by simp
  obtain x3 where x3: "order_at cmp mid hi x2 = Some x3" "within lo hi x2 x3"
      "x3 = x2 \<and> \<not> cmp (at x2 mid) (at x2 hi) > 0 \<or> cmp (at x2 mid) (at x2 hi) > 0 \<and> at x3 mid = at x2 hi \<and> at x3 hi = at x2 mid"
      "\<And>k. 0 \<le> k \<Longrightarrow> k \<noteq> mid \<Longrightarrow> k \<noteq> hi \<Longrightarrow> at x3 k = at x2 k"
    by (rule order_at_result [of lo mid hi hi x2 cmp]) (use assms mid len2 in auto)
  have len3: "length x3 = length xs" using withinD(1) [OF x3(2)] len2 by simp
  obtain ys mid' l h where p: "partition_loop cmp x3 mid hi lo hi = Some (ys, mid', l, h)" "within lo hi x3 ys" "l \<le> hi + 1" "lo \<le> h" "lo \<le> mid'" "mid' \<le> hi"
      "comparison cmp \<longrightarrow> sides cmp x3 lo mid hi lo hi \<longrightarrow> split_at cmp ys lo mid' hi l h"
    using partition_loop_result [of lo lo hi hi mid x3 cmp] assms mid len3 by auto
  have e: "lo < l" "h < hi" "h < l" using partition_loop_ends [OF p(1)] by auto
  have len4: "length ys = length xs" using withinD(1) [OF p(2)] len3 by simp
  obtain h' where h': "skip_equal cmp ys mid' lo h = Some h'" "lo - 1 \<le> h'" "h' \<le> h" "\<forall>i. h' < i \<longrightarrow> i \<le> h \<longrightarrow> i = mid' \<or> cmp (at ys i) (at ys mid') = 0"
    using skip_equal_result [of lo h hi mid' ys cmp] assms e p(4-6) len4 by auto
  have w: "within lo hi xs ys" using within_trans [OF within_trans [OF within_trans [OF x1(2) x2(2)] x3(2)] p(2)] .
  have "parted cmp ys lo h' l hi" if cc: "comparison cmp"
  proof -
    note C = comparisonD [OF cc]
    have "cmp (at x1 lo) (at x1 mid) \<le> 0" using x1(3) C(1) by force
    then have 2: "cmp (at x2 lo) (at x2 mid) \<le> 0" "cmp (at x2 lo) (at x2 hi) \<le> 0"
      using x2(3) x2(4) [of mid] mid assms C(1) [of "at x1 lo" "at x1 hi"] C(3) [of "at x1 hi" "at x1 lo" "at x1 mid"] by auto
    have "cmp (at x3 lo) (at x3 mid) \<le> 0" "cmp (at x3 mid) (at x3 hi) \<le> 0"
      using x3(3) x3(4) [of lo] 2 mid assms C(1) [of "at x2 mid" "at x2 hi"] by auto
    then have "sides cmp x3 lo mid hi lo hi" using mid by (auto simp: sides_def)
    then have s: "split_at cmp ys lo mid' hi l h" using p(7) cc by simp
    let ?pv = "at ys mid'"
    have low: "cmp (at ys i) ?pv \<le> 0" if "lo \<le> i" "i < l" for i using s that by (simp add: split_at_def)
    have high: "cmp ?pv (at ys j) \<le> 0" if j: "h' < j" "j \<le> hi" for j
    proof -
      consider "j \<le> h" | "h < j" "j < hi" | "j = hi" using j by linarith
      then show ?thesis
      proof cases
        case 1
        then show ?thesis using h'(4) j(1) C(2,4) by metis
      next
        case 2
        then show ?thesis using s C(1) unfolding split_at_def by (meson not_less)
      qed (use s in \<open>simp add: split_at_def\<close>)
    qed
    show ?thesis using low high C(3) unfolding parted_def by (meson not_less)
  qed
  moreover have "partition_s cmp xs lo hi = Some (ys, h', l)"
    using x1(1) x2(1) x3(1) p(1) h'(1) by (simp add: partition_s_def Let_def flip: mid_def)
  ultimately show ?thesis using w h' e p(3) by auto
qed

section \<open>The sort\<close>

text \<open>
  Parts of the array still to be sorted: inside it and apart from each other; and an array where every two elements that
  do not lie in one such part are in order.
\<close>

definition parts_ok :: "int \<Rightarrow> (int \<times> int) list \<Rightarrow> bool" where
  "parts_ok n rs \<longleftrightarrow> (\<forall>r\<in>set rs. 0 \<le> fst r \<and> fst r \<le> snd r \<and> snd r < n) \<and> sorted_wrt (\<lambda>r q. snd r < fst q \<or> snd q < fst r) rs"

definition ordered_but :: "('a \<Rightarrow> 'a \<Rightarrow> int) \<Rightarrow> 'a list \<Rightarrow> (int \<times> int) list \<Rightarrow> bool" where
  "ordered_but cmp xs rs \<longleftrightarrow> (\<forall>i j. 0 \<le> i \<longrightarrow> i < j \<longrightarrow> j < int (length xs) \<longrightarrow> (\<exists>r\<in>set rs. fst r \<le> i \<and> j \<le> snd r) \<or> cmp (at xs i) (at xs j) \<le> 0)"

text \<open>Each part on the stack is at most half as long as the one below it could be.\<close>

fun fits :: "int \<Rightarrow> (int \<times> int) list \<Rightarrow> bool" where
  "fits n [] \<longleftrightarrow> True"
| "fits n (r # rs) \<longleftrightarrow> (snd r - fst r + 1) * 2 ^ length rs \<le> n \<and> fits n rs"

text \<open>What happens inside one part leaves the rest as it was.\<close>

lemma ordered_but_within:
  assumes o: "ordered_but cmp xs (r # rs)" and w: "within (fst r) (snd r) xs ys" and ok: "parts_ok (int (length xs)) (r # rs)"
    and new: "\<And>i j. fst r \<le> i \<Longrightarrow> i < j \<Longrightarrow> j \<le> snd r \<Longrightarrow> (\<exists>q\<in>set qs. fst q \<le> i \<and> j \<le> snd q) \<or> cmp (at ys i) (at ys j) \<le> 0"
  shows "ordered_but cmp ys (qs @ rs)"
  unfolding ordered_but_def
proof (intro allI impI)
  fix i j assume ij: "0 \<le> i" "i < j" "j < int (length ys)"
  note len = withinD(1) [OF w]
  let ?in = "\<lambda>k. fst r \<le> k \<and> k \<le> snd r"
  have src: "\<exists>m. at ys k = at xs m \<and> (if ?in k then ?in m else m = k)" if "0 \<le> k" "k < int (length xs)" for k
    using w that by (cases "?in k") (auto simp: within_def inside_def)
  show "(\<exists>q\<in>set (qs @ rs). fst q \<le> i \<and> j \<le> snd q) \<or> cmp (at ys i) (at ys j) \<le> 0"
  proof (cases "?in i \<and> ?in j")
    case True
    then show ?thesis using new [of i j] ij by auto
  next
    case False
    obtain a b where a: "at ys i = at xs a" "if ?in i then ?in a else a = i" and b: "at ys j = at xs b" "if ?in j then ?in b else b = j"
      using src [of i] src [of j] ij len by auto
    have ab: "0 \<le> a" "a < b" "b < int (length xs)" "\<not> (?in a \<and> ?in b)"
      using a(2) b(2) False ij len ok by (auto simp: parts_ok_def split: if_splits)
    have "(\<exists>q\<in>set rs. fst q \<le> a \<and> b \<le> snd q) \<or> cmp (at xs a) (at xs b) \<le> 0"
      using o [unfolded ordered_but_def, rule_format, OF ab(1,2,3)] ab(2,4) by auto
    then consider q where "q \<in> set rs" "fst q \<le> a" "b \<le> snd q" | "cmp (at xs a) (at xs b) \<le> 0"
      by blast
    then show ?thesis
    proof cases
      case 1
      then have "snd r < fst q \<or> snd q < fst r" using ok by (auto simp: parts_ok_def)
      then have "a = i" "b = j" using a(2) b(2) 1 ab(2) by (auto split: if_splits)
      then show ?thesis using 1 by auto
    qed (use a(1) b(1) in simp)
  qed
qed

lemma push_fits:
  assumes "fits n stk" "(snd r - fst r + 1) * 2 ^ length stk \<le> n" "fst r < snd r \<longrightarrow> length stk < STKSIZ"
  shows "\<exists>stk1. push r stk = Some stk1 \<and> fits n stk1 \<and> stk1 = (if fst r < snd r then [r] else []) @ stk"
  using assms by (auto simp: push_def)

text \<open>The stack has room, and the parts that are left are the two of the partition that have two elements or more.\<close>

lemma next_parts_result:
  assumes f: "fits n ((lo, hi) # stk)" "n < 2 ^ 64" and e: "lo + 7 < hi" "lo - 1 \<le> h" "h < l" "l \<le> hi + 1" "lo < l" "h < hi"
  shows "\<exists>now stk1. next_parts lo h l hi stk = Some (now, stk1) \<and> fits n (now @ stk1)
    \<and> (now @ stk1 = filter (\<lambda>r. fst r < snd r) [(lo, h), (l, hi)] @ stk \<or> now @ stk1 = filter (\<lambda>r. fst r < snd r) [(l, hi), (lo, h)] @ stk)"
proof -
  let ?p = "2 ^ length stk :: int"
  have "9 * ?p \<le> (hi - lo + 1) * ?p" using e(1) by (intro mult_right_mono) auto
  also have "\<dots> < 2 ^ 64" using f by simp
  finally have "?p < 2 ^ 61" by simp
  then have "length stk < 61" by (intro power_less_imp_less_exp [of "2 :: int"]) simp_all
  then have room: "length stk < STKSIZ" by (simp add: STKSIZ_def)
  have cur: "(hi - lo + 1) * ?p \<le> n" using f(1) by simp
  have small: "(2 * s) * ?p \<le> n" if "2 * s \<le> hi - lo + 1" for s
    by (rule order.trans [OF mult_right_mono [OF that] cur]) simp
  have big: "s * ?p \<le> n" if "s \<le> hi - lo + 1" for s
    by (rule order.trans [OF mult_right_mono [OF that] cur]) simp
  have stk: "fits n stk" using f(1) by simp
  show ?thesis
  proof (cases "h - lo \<ge> hi - l")
    case True
    obtain stk1 where s: "push (lo, h) stk = Some stk1" "fits n stk1" "stk1 = (if lo < h then [(lo, h)] else []) @ stk"
      using push_fits [OF stk, of "(lo, h)"] big [of "h - lo + 1"] e room by auto
    have "(hi - l + 1) * 2 ^ length stk1 \<le> n" using s(3) small [of "hi - l + 1"] big [of "hi - l + 1"] True e by (auto simp: algebra_simps)
    then show ?thesis using True s by (auto simp: next_parts_def)
  next
    case False
    obtain stk1 where s: "push (l, hi) stk = Some stk1" "fits n stk1" "stk1 = (if l < hi then [(l, hi)] else []) @ stk"
      using push_fits [OF stk, of "(l, hi)"] big [of "hi - l + 1"] e room by auto
    have "(h - lo + 1) * 2 ^ length stk1 \<le> n" using s(3) small [of "h - lo + 1"] big [of "h - lo + 1"] False e by (auto simp: algebra_simps)
    then show ?thesis using False s by (auto simp: next_parts_def)
  qed
qed

text \<open>The loop: it comes back with a permutation, and with a sorted one when the comparison is one of a preorder.\<close>

lemma parts_ok_split:
  assumes "parts_ok n ((lo, hi) # stk)" "lo - 1 \<le> h" "h < l" "l \<le> hi + 1" "lo < l" "h < hi"
    and "qs = filter (\<lambda>r. fst r < snd r) [(lo, h), (l, hi)] \<or> qs = filter (\<lambda>r. fst r < snd r) [(l, hi), (lo, h)]"
  shows "parts_ok n (qs @ stk)"
proof -
  have "hi < a \<or> b < lo" if "(a, b) \<in> set stk" for a b using assms(1) that by (force simp: parts_ok_def)
  then have "a \<le> b \<and> (hi < a \<or> b < lo)" if "(a, b) \<in> set stk" for a b using assms(1) that by (fastforce simp: parts_ok_def)
  then show ?thesis using assms by (fastforce simp: parts_ok_def split: if_splits)
qed

lemma parted_parts:
  assumes "parted cmp ys lo h l hi" "lo \<le> i" "i < j" "j \<le> hi"
    and "qs = filter (\<lambda>r. fst r < snd r) [(lo, h), (l, hi)] \<or> qs = filter (\<lambda>r. fst r < snd r) [(l, hi), (lo, h)]"
  shows "(\<exists>q\<in>set qs. fst q \<le> i \<and> j \<le> snd q) \<or> cmp (at ys i) (at ys j) \<le> 0"
proof -
  have "set qs = {r \<in> {(lo, h), (l, hi)}. fst r < snd r}" using assms(5) by (elim disjE) (simp only: set_filter; auto)+
  moreover have "j \<le> h \<or> l \<le> i \<or> cmp (at ys i) (at ys j) \<le> 0" using assms(1-4) by (simp add: parted_def)
  moreover have "j \<le> h \<Longrightarrow> (lo, h) \<in> set qs" "l \<le> i \<Longrightarrow> (l, hi) \<in> set qs" using calculation(1) assms(2-4) by auto
  ultimately show ?thesis using assms(2-4) by (metis fst_conv snd_conv)
qed

lemma qsort_loop_result:
  assumes "parts_ok (int (length xs)) ((lo, hi) # stk)" "fits (int (length xs)) ((lo, hi) # stk)" "length xs < 2 ^ 64"
  shows "\<exists>ys. qsort_loop cmp xs lo hi stk = Some ys \<and> length ys = length xs \<and> mset ys = mset xs
    \<and> (comparison cmp \<longrightarrow> ordered_but cmp xs ((lo, hi) # stk) \<longrightarrow> ordered_but cmp ys [])"
  using assms
proof (induction cmp xs lo hi stk rule: qsort_loop.induct)
  case (1 cmp xs lo hi stk)
  have b: "0 \<le> lo" "lo \<le> hi" "hi < int (length xs)" using 1(3) by (auto simp: parts_ok_def)
  show ?case
  proof (cases "hi - lo + 1 \<le> CUTOFF")
    case True
    obtain xs1 where x: "shortsort_s cmp xs lo hi = Some xs1" "within lo hi xs xs1" "comparison cmp \<longrightarrow> ordered cmp xs1 lo hi"
      using shortsort_result [OF b(1,3)] by blast
    note len = withinD(1,2) [OF x(2)]
    have o: "ordered_but cmp xs1 stk" if "comparison cmp" "ordered_but cmp xs ((lo, hi) # stk)"
      using ordered_but_within [OF that(2), of xs1 "[]"] x(2,3) 1(3) that(1) by (simp add: ordered_def)
    show ?thesis
    proof (cases stk)
      case Nil
      then show ?thesis using True x(1) len o by (subst qsort_loop.simps) auto
    next
      case (Cons r rs)
      obtain l1 h1 where r: "r = (l1, h1)" by fastforce
      have "parts_ok (int (length xs1)) ((l1, h1) # rs)" "fits (int (length xs1)) ((l1, h1) # rs)" "length xs1 < 2 ^ 64"
        using 1(3,4,5) Cons r len by (auto simp: parts_ok_def)
      from 1(1) [OF True x(1) Cons r [symmetric] this] obtain ys where "qsort_loop cmp xs1 l1 h1 rs = Some ys" "length ys = length xs1" "mset ys = mset xs1"
          "comparison cmp \<longrightarrow> ordered_but cmp xs1 ((l1, h1) # rs) \<longrightarrow> ordered_but cmp ys []" by blast
      then show ?thesis using True x(1) len o Cons r by (subst qsort_loop.simps) auto
    qed
  next
    case False
    then have lt: "lo + 7 < hi" by (simp add: CUTOFF_def)
    obtain xs1 h l where p: "partition_s cmp xs lo hi = Some (xs1, h, l)" "within lo hi xs xs1" "lo - 1 \<le> h" "h < l" "l \<le> hi + 1" "lo < l" "h < hi"
        "comparison cmp \<longrightarrow> parted cmp xs1 lo h l hi"
      using partition_result [OF b(1) lt b(3)] by blast
    note len = withinD(1,2) [OF p(2)]
    obtain now stk1 qs where n: "next_parts lo h l hi stk = Some (now, stk1)" "fits (int (length xs)) (now @ stk1)" "now @ stk1 = qs @ stk"
        "qs = filter (\<lambda>r. fst r < snd r) [(lo, h), (l, hi)] \<or> qs = filter (\<lambda>r. fst r < snd r) [(l, hi), (lo, h)]"
      using next_parts_result [OF 1(4) _ lt p(3-7)] 1(5) by auto
    have ok: "parts_ok (int (length xs)) (qs @ stk)" by (rule parts_ok_split [OF 1(3) p(3-7) n(4)])
    have o: "ordered_but cmp xs1 (qs @ stk)" if "comparison cmp" "ordered_but cmp xs ((lo, hi) # stk)"
    proof (rule ordered_but_within [OF that(2) _ 1(3)])
      show "within (fst (lo, hi)) (snd (lo, hi)) xs xs1" using p(2) by simp
      show "(\<exists>q\<in>set qs. fst q \<le> i \<and> j \<le> snd q) \<or> cmp (at xs1 i) (at xs1 j) \<le> 0"
        if "fst (lo, hi) \<le> i" "i < j" "j \<le> snd (lo, hi)" for i j
        by (rule parted_parts [OF _ _ that(2) _ n(4)]) (use that p(8) \<open>comparison cmp\<close> in auto)
    qed
    show ?thesis
    proof (cases "qs @ stk")
      case Nil
      then show ?thesis using False p(1) n(1,3) len o by (subst qsort_loop.simps) auto
    next
      case (Cons r rs)
      obtain l1 h1 where r: "r = (l1, h1)" by fastforce
      have "parts_ok (int (length xs1)) ((l1, h1) # rs)" "fits (int (length xs1)) ((l1, h1) # rs)" "length xs1 < 2 ^ 64"
        using ok n(2,3) 1(5) Cons r len by auto
      from 1(2) [OF False p(1) refl refl n(1) refl _ r [symmetric] this] Cons n(3) obtain ys where "qsort_loop cmp xs1 l1 h1 rs = Some ys" "length ys = length xs1" "mset ys = mset xs1"
          "comparison cmp \<longrightarrow> ordered_but cmp xs1 ((l1, h1) # rs) \<longrightarrow> ordered_but cmp ys []" by auto
      then show ?thesis using False p(1) n(1,3) len o Cons r by (subst qsort_loop.simps) auto
    qed
  qed
qed

section \<open>Properties\<close>

text \<open>C4: whatever the comparison answers, even inconsistent ones, \<open>qsort_s\<close> comes back with a permutation of the array: it
  compares and swaps only elements of the array, and its stack of 62 entries is never full.\<close>

theorem qsort_s_permutes:
  assumes "length xs < 2 ^ 64"
  shows "\<exists>ys. qsort_s base_null width cmp_fn xs = Some ys \<and> mset ys = mset xs"
proof -
  have "parts_ok (int (length xs)) [(0, int (length xs) - 1)]" "fits (int (length xs)) [(0, int (length xs) - 1)]" if "\<not> length xs < 2"
    using that by (auto simp: parts_ok_def)
  then show ?thesis using qsort_loop_result [OF _ _ assms] by (fastforce simp: qsort_s_def split: option.splits)
qed

theorem qsort_s_permutes_witness:
  "\<exists>ys. qsort_s False 4 (Some (\<lambda>a b. if even a then 1 else - 1)) [3, 1, 4, 1, 5, 9, 2, 6, 5, 3, 5, 8 :: int] = Some ys
    \<and> mset ys = {#3, 1, 4, 1, 5, 9, 2, 6, 5, 3, 5, 8#}"
  using qsort_s_permutes [of "[3, 1, 4, 1, 5, 9, 2, 6, 5, 3, 5, 8 :: int]" False 4] by (simp add: ac_simps)

text \<open>C5: with a comparison that is one of a total preorder the array is sorted in the end.\<close>

theorem qsort_s_sorts:
  assumes "length xs < 2 ^ 64" "comparison cmp" "0 < width" "\<not> base_null"
  shows "\<exists>ys. qsort_s base_null width (Some cmp) xs = Some ys \<and> mset ys = mset xs \<and> sorted_wrt (\<lambda>a b. cmp a b \<le> 0) ys"
proof (cases "length xs < 2")
  case True
  then have "sorted_wrt (\<lambda>a b. cmp a b \<le> 0) xs" by (cases xs) auto
  then show ?thesis using True assms by (simp add: qsort_s_def)
next
  case False
  have "ordered_but cmp xs [(0, int (length xs) - 1)]" by (auto simp: ordered_but_def)
  moreover have "parts_ok (int (length xs)) [(0, int (length xs) - 1)]" "fits (int (length xs)) [(0, int (length xs) - 1)]"
    using False by (auto simp: parts_ok_def)
  ultimately obtain ys where ys: "qsort_loop cmp xs 0 (int (length xs) - 1) [] = Some ys" "mset ys = mset xs" "ordered_but cmp ys []"
    using qsort_loop_result [OF _ _ assms(1)] assms(2) by blast
  have "cmp (ys ! i) (ys ! j) \<le> 0" if "i < j" "j < length ys" for i j
    using ys(3) [unfolded ordered_but_def, rule_format, of "int i" "int j"] that by simp
  then have "sorted_wrt (\<lambda>a b. cmp a b \<le> 0) ys" by (simp add: sorted_wrt_iff_nth_less)
  then show ?thesis using ys False assms by (simp add: qsort_s_def)
qed

theorem qsort_s_sorts_witness:
  "qsort_s False 4 (Some (\<lambda>a b. a - b)) [3, 1, 4, 1, 5, 9, 2, 6, 5, 3, 5, 8 :: int] = Some [1, 1, 2, 3, 3, 4, 5, 5, 5, 6, 8, 9]"
proof -
  let ?xs = "[3, 1, 4, 1, 5, 9, 2, 6, 5, 3, 5, 8 :: int]"
  obtain ys where "qsort_s False 4 (Some (\<lambda>a b. a - b)) ?xs = Some ys" "mset ys = mset ?xs" "sorted_wrt (\<lambda>a b. a - b \<le> 0) ys"
    using qsort_s_sorts [of ?xs "\<lambda>a b. a - b" 4 False] by (auto simp: comparison_def)
  then have "sort ?xs = ys" by (intro properties_for_sort) simp_all
  moreover have "sort ?xs = [1, 1, 2, 3, 3, 4, 5, 5, 5, 6, 8, 9]" by simp
  ultimately show ?thesis using \<open>qsort_s False 4 _ _ = Some ys\<close> by simp
qed

end
