(* ===== verification/Listbox_Model.thy ===== *)
theory Listbox_Model
  imports Muldiv_Props "HOL-Library.Monad_Syntax"
begin

text \<open>
  Listboxes (\<^verbatim>\<open>src/cmnctl32/listbox.cpp\<close>): the storage of the items, the visible page, the selection, the caret,
  and insertion and removal of items. The style is the set of its flags. Painting leaves no trace in the
  descriptor and is left out, but for the flag that a repaint is due; calls of scroll bars and messages to the
  owner are recorded. What the owner answers, the state of the keyboard and mouse, whether a string begins with another up to case, whether a
  block can be allocated and the contents of fresh memory are parameters. \<open>None\<close> is an access outside the storage, a
  division by zero or an exception. Coordinates are
  unbounded integers: an overflow of theirs is undefined in the code.
\<close>

section \<open>State\<close>

datatype LBS = LBS_NOTIFY | LBS_SORT | LBS_NOREDRAW | LBS_MULTIPLESEL | LBS_OWNERDRAWFIXED | LBS_OWNERDRAWVARIABLE | LBS_HASSTRINGS
  | LBS_USETABSTOPS | LBS_NOINTEGRALHEIGHT | LBS_MULTICOLUMN | LBS_WANTKEYBOARDINPUT | LBS_EXTENDEDSEL | LBS_DISABLENOSCROLL
  | LBS_NODATA | LBS_NOSEL | LBS_DISPLAYCHANGED | WS_VSCROLL | WS_HSCROLL

type_synonym cstring = "int list"

record LB_ITEMDATA =
  it_str :: "cstring option"
  it_selected :: bool
  it_height :: int
  it_data :: int

text \<open>Messages to the owner; scroll bars: whether the horizontal one, range, position and page, which is unsigned; the mask
  of the fields that count is left out; timer, capture and the height the window is resized to.\<close>

datatype lb_call = Notify int | DeleteItem int int | SetScroll bool int int int int | HideHorz
  | SetTimer | KillTimer | SetCapture | ReleaseCapture | SetHeight int

datatype TIMER_DIRECTION = LB_TIMER_NONE | LB_TIMER_UP | LB_TIMER_LEFT | LB_TIMER_DOWN | LB_TIMER_RIGHT

text \<open>\<open>u_items\<close> and \<open>u_nodata\<close> are the two sides of the union; the style tells which is used. The timer is a variable of the file.\<close>

record LB_DESCR =
  style :: "LBS set"
  lb_width :: int
  lb_height :: int
  u_items :: "LB_ITEMDATA list option"
  u_nodata :: "bool list option"
  nb_items :: int
  items_size :: int
  top_item :: int
  selected_item :: int
  focus_item :: int
  anchor_item :: int
  item_height :: int
  page_size :: int
  column_width :: int
  horz_extent :: int
  horz_pos :: int
  lb_tabs :: "int list"
  avg_char_width :: int
  wheel_remain :: int
  captured :: bool
  in_focus :: bool
  LISTBOX_Timer :: TIMER_DIRECTION
  lb_calls :: "lb_call list"

record lb_env =
  lb_mem :: "int \<Rightarrow> bool"
  lb_junk :: "nat \<Rightarrow> LB_ITEMDATA"
  lb_measure :: "int \<Rightarrow> int \<Rightarrow> int \<Rightarrow> int"
  lb_compare :: "int \<Rightarrow> int \<Rightarrow> int"
  lb_prefix :: "cstring \<Rightarrow> cstring \<Rightarrow> bool"
  lb_visible :: bool
  lb_focus :: bool
  lb_capture :: bool
  lb_shift :: bool
  lb_vkeytoitem :: "int \<Rightarrow> int \<Rightarrow> int"
  lb_chartoitem :: "int \<Rightarrow> int \<Rightarrow> int"
  lb_stack :: int

definition LB_OKAY :: int where "LB_OKAY = 0"

definition LB_ERR :: int where "LB_ERR = -1"

definition LB_ERRSPACE :: int where "LB_ERRSPACE = -2"

definition LBN_ERRSPACE :: int where "LBN_ERRSPACE = -2"

definition LBN_SELCHANGE :: int where "LBN_SELCHANGE = 1"

definition LBN_SELCANCEL :: int where "LBN_SELCANCEL = 3"

definition flag :: "LB_DESCR \<Rightarrow> LBS \<Rightarrow> bool" where
  "flag d f \<longleftrightarrow> f \<in> style d"

definition IS_OWNERDRAW :: "LB_DESCR \<Rightarrow> bool" where
  "IS_OWNERDRAW d \<longleftrightarrow> flag d LBS_OWNERDRAWFIXED \<or> flag d LBS_OWNERDRAWVARIABLE"

definition HAS_STRINGS :: "LB_DESCR \<Rightarrow> bool" where
  "HAS_STRINGS d \<longleftrightarrow> \<not> IS_OWNERDRAW d \<or> flag d LBS_HASSTRINGS"

text \<open>Whether there is a state for each item, and whether several items can be selected.\<close>

definition multi :: "LB_DESCR \<Rightarrow> bool" where
  "multi d \<longleftrightarrow> flag d LBS_MULTIPLESEL \<or> flag d LBS_EXTENDEDSEL"

definition IS_MULTISELECT :: "LB_DESCR \<Rightarrow> bool" where
  "IS_MULTISELECT d \<longleftrightarrow> multi d \<and> \<not> flag d LBS_NOSEL"

definition send :: "lb_call \<Rightarrow> LB_DESCR \<Rightarrow> LB_DESCR" where
  "send c d = d\<lparr>lb_calls := lb_calls d @ [c]\<rparr>"

definition divide :: "int \<Rightarrow> int \<Rightarrow> int option" where
  "divide x y = (if y = 0 then None else Some (c_div x y))"

definition modulo :: "int \<Rightarrow> int \<Rightarrow> int option" where
  "modulo x y = (if y = 0 then None else Some (x - y * c_div x y))"

section \<open>Storage\<close>

text \<open>The conversion to \<^verbatim>\<open>UINT\<close>.\<close>

definition to_uint :: "int \<Rightarrow> int" where
  "to_uint x = x mod 4294967296"

definition get_sizeof_item :: "LB_DESCR \<Rightarrow> int" where
  "get_sizeof_item d = (if flag d LBS_NODATA then 1 else 24)"

definition LB_ARRAY_GRANULARITY :: int where "LB_ARRAY_GRANULARITY = 16"

text \<open>A block reallocated for \<open>n\<close> cells; what is new has the contents \<open>junk\<close>.\<close>

definition realloc_cells :: "(nat \<Rightarrow> 'b) \<Rightarrow> nat \<Rightarrow> 'b list option \<Rightarrow> 'b list" where
  "realloc_cells junk n old = (let xs = (case old of None \<Rightarrow> [] | Some ys \<Rightarrow> ys) in take n xs @ map junk [length xs..<n])"

definition grow_storage :: "lb_env \<Rightarrow> int \<Rightarrow> LB_DESCR \<Rightarrow> LB_DESCR" where
  "grow_storage env n d =
     (if flag d LBS_NODATA
      then (if multi d then d\<lparr>u_nodata := Some (realloc_cells (\<lambda>i. it_selected (lb_junk env i)) (nat n) (u_nodata d))\<rparr> else d)
      else d\<lparr>u_items := Some (realloc_cells (lb_junk env) (nat n) (u_items d))\<rparr>)\<lparr>items_size := n\<rparr>"

definition clear_marks :: "int \<Rightarrow> LB_DESCR \<Rightarrow> LB_DESCR" where
  "clear_marks n d =
     (case u_nodata d of
        Some bs \<Rightarrow> if flag d LBS_NODATA \<and> wrap32 n > nb_items d
                    then d\<lparr>u_nodata := Some (take (nat (nb_items d)) bs @ replicate (nat (n - nb_items d)) False @ drop (nat n) bs)\<rparr> else d
      | None \<Rightarrow> d)"

definition resize_storage :: "lb_env \<Rightarrow> LB_DESCR \<Rightarrow> int \<Rightarrow> bool \<times> LB_DESCR" where
  "resize_storage env d n =
     (let resize = (to_uint n > items_size d \<or> to_uint (n + LB_ARRAY_GRANULARITY * 2) < items_size d);
          size1 = (if resize then to_uint (n + LB_ARRAY_GRANULARITY - 1) div LB_ARRAY_GRANULARITY * LB_ARRAY_GRANULARITY else to_uint n)
      in if resize \<and> (\<not> flag d LBS_NODATA \<or> multi d) \<and> \<not> lb_mem env (size1 * get_sizeof_item d) then (False, send (Notify LBN_ERRSPACE) d)
         else (True, clear_marks size1 (if resize then grow_storage env size1 d else d)))"

text \<open>One cell of a block, and its change.\<close>

definition cell :: "'b list option \<Rightarrow> int \<Rightarrow> 'b option" where
  "cell u i = (case u of None \<Rightarrow> None | Some xs \<Rightarrow> if 0 \<le> i \<and> i < int (length xs) then Some (xs ! nat i) else None)"

definition set_cell :: "'b list option \<Rightarrow> int \<Rightarrow> ('b \<Rightarrow> 'b) \<Rightarrow> 'b list option option" where
  "set_cell u i f = (case u of None \<Rightarrow> None | Some xs \<Rightarrow> if 0 \<le> i \<and> i < int (length xs) then Some (Some (xs[nat i := f (xs ! nat i)])) else None)"

definition change_item :: "int \<Rightarrow> (LB_ITEMDATA \<Rightarrow> LB_ITEMDATA) \<Rightarrow> LB_DESCR \<Rightarrow> LB_DESCR option" where
  "change_item i f d = (if flag d LBS_NODATA then Some d else do { u \<leftarrow> set_cell (u_items d) i f; Some (d\<lparr>u_items := u\<rparr>) })"

definition get_item_data :: "LB_DESCR \<Rightarrow> int \<Rightarrow> int option" where
  "get_item_data d i = (if flag d LBS_NODATA then Some 0 else map_option it_data (cell (u_items d) i))"

definition set_item_data :: "int \<Rightarrow> int \<Rightarrow> LB_DESCR \<Rightarrow> LB_DESCR option" where
  "set_item_data i v = change_item i (\<lambda>it. it\<lparr>it_data := v\<rparr>)"

definition get_item_string :: "LB_DESCR \<Rightarrow> int \<Rightarrow> cstring option option" where
  "get_item_string d i = (if HAS_STRINGS d then map_option it_str (cell (u_items d) i) else Some None)"

definition set_item_string :: "int \<Rightarrow> cstring option \<Rightarrow> LB_DESCR \<Rightarrow> LB_DESCR option" where
  "set_item_string i s = change_item i (\<lambda>it. it\<lparr>it_str := s\<rparr>)"

definition get_item_height :: "LB_DESCR \<Rightarrow> int \<Rightarrow> int option" where
  "get_item_height d i = (if flag d LBS_NODATA then Some 0 else map_option it_height (cell (u_items d) i))"

definition set_item_height :: "int \<Rightarrow> int \<Rightarrow> LB_DESCR \<Rightarrow> LB_DESCR option" where
  "set_item_height i h = change_item i (\<lambda>it. it\<lparr>it_height := h\<rparr>)"

definition is_item_selected :: "LB_DESCR \<Rightarrow> int \<Rightarrow> bool option" where
  "is_item_selected d i =
     (if \<not> multi d then Some (i = selected_item d)
      else if flag d LBS_NODATA then cell (u_nodata d) i
      else map_option it_selected (cell (u_items d) i))"

definition set_item_selected_state :: "int \<Rightarrow> bool \<Rightarrow> LB_DESCR \<Rightarrow> LB_DESCR option" where
  "set_item_selected_state i b d =
     (if \<not> multi d then Some d
      else if flag d LBS_NODATA then do { u \<leftarrow> set_cell (u_nodata d) i (\<lambda>_. b); Some (d\<lparr>u_nodata := u\<rparr>) }
      else change_item i (\<lambda>it. it\<lparr>it_selected := b\<rparr>) d)"

text \<open>The moves of the cells behind \<open>index\<close> one place up, and one place down onto it.\<close>

definition move_up_cells :: "nat \<Rightarrow> nat \<Rightarrow> 'b list \<Rightarrow> 'b list option" where
  "move_up_cells i n xs =
     (if i \<ge> n then Some xs
      else if n + 1 > length xs then None
      else Some (take (i + 1) xs @ take (n - i) (drop i xs) @ drop (n + 1) xs))"

definition move_down_cells :: "nat \<Rightarrow> nat \<Rightarrow> 'b list \<Rightarrow> 'b list option" where
  "move_down_cells i n xs =
     (if i \<ge> n then Some xs
      else if n + 1 > length xs then None
      else Some (take i xs @ take (n - i) (drop (i + 1) xs) @ drop n xs))"

definition on_cells :: "(LB_ITEMDATA list \<Rightarrow> LB_ITEMDATA list option) \<Rightarrow> (bool list \<Rightarrow> bool list option) \<Rightarrow> LB_DESCR \<Rightarrow> LB_DESCR option" where
  "on_cells f g d =
     (if flag d LBS_NODATA
      then (case u_nodata d of None \<Rightarrow> Some d | Some bs \<Rightarrow> do { bs1 \<leftarrow> g bs; Some (d\<lparr>u_nodata := Some bs1\<rparr>) })
      else (case u_items d of None \<Rightarrow> Some d | Some xs \<Rightarrow> do { xs1 \<leftarrow> f xs; Some (d\<lparr>u_items := Some xs1\<rparr>) }))"

definition insert_item_data :: "int \<Rightarrow> LB_DESCR \<Rightarrow> LB_DESCR option" where
  "insert_item_data i d = on_cells (move_up_cells (nat i) (nat (nb_items d))) (move_up_cells (nat i) (nat (nb_items d))) d"

definition remove_item_data :: "int \<Rightarrow> LB_DESCR \<Rightarrow> LB_DESCR option" where
  "remove_item_data i d = on_cells (move_down_cells (nat i) (nat (nb_items d))) (move_down_cells (nat i) (nat (nb_items d))) d"

section \<open>The page\<close>

function page_end :: "LB_DESCR \<Rightarrow> int \<Rightarrow> int \<Rightarrow> int option" where
  "page_end d i height =
     (if i < nb_items d
      then do { h \<leftarrow> get_item_height d i; if height + h > lb_height d then Some i else page_end d (i + 1) (height + h) }
      else Some i)"
  by pat_completeness auto
termination by (relation "measure (\<lambda>(d, i, height). nat (nb_items d - i))") auto

function page_start :: "LB_DESCR \<Rightarrow> int \<Rightarrow> int \<Rightarrow> int option" where
  "page_start d mx page =
     (if mx \<ge> 0
      then do { h \<leftarrow> get_item_height d mx; if page - h < 0 then Some mx else page_start d (mx - 1) (page - h) }
      else Some mx)"
  by pat_completeness auto
termination by (relation "measure (\<lambda>(d, mx, page). nat (mx + 1))") auto

declare page_end.simps [simp del] page_start.simps [simp del]

definition LISTBOX_GetCurrentPageSize :: "LB_DESCR \<Rightarrow> int option" where
  "LISTBOX_GetCurrentPageSize d =
     (if \<not> flag d LBS_OWNERDRAWVARIABLE then Some (page_size d)
      else do { i \<leftarrow> page_end d (top_item d) 0; Some (if i = top_item d then 1 else i - top_item d) })"

definition LISTBOX_GetMaxTopIndex :: "LB_DESCR \<Rightarrow> int option" where
  "LISTBOX_GetMaxTopIndex d =
     do { mx \<leftarrow> (if flag d LBS_OWNERDRAWVARIABLE
                 then do { m \<leftarrow> page_start d (nb_items d - 1) (lb_height d); Some (if m < nb_items d - 1 then m + 1 else m) }
                 else if flag d LBS_MULTICOLUMN
                 then do { cols \<leftarrow> divide (lb_width d) (column_width d);
                           all \<leftarrow> divide (nb_items d + page_size d - 1) (page_size d);
                           Some ((all - max 1 cols) * page_size d) }
                 else Some (nb_items d - page_size d));
          Some (max 0 mx) }"

definition LISTBOX_UpdateScroll :: "LB_DESCR \<Rightarrow> LB_DESCR option" where
  "LISTBOX_UpdateScroll d =
     (if flag d LBS_NOREDRAW then Some d
      else if flag d LBS_MULTICOLUMN
      then do { mx \<leftarrow> divide (nb_items d - 1) (page_size d);
                pos \<leftarrow> divide (top_item d) (page_size d);
                cols \<leftarrow> divide (lb_width d) (column_width d);
                let page = (if cols = 0 then 1 else cols);
                let d1 = (if flag d WS_HSCROLL then send (SetScroll True 0 mx pos page) d else d);
                Some (if flag d WS_VSCROLL then send (SetScroll False 0 0 pos page) d1 else d1) }
      else do { page \<leftarrow> LISTBOX_GetCurrentPageSize d;
                let d1 = (if flag d WS_VSCROLL then send (SetScroll False 0 (nb_items d - 1) (top_item d) page) d else d);
                Some (if flag d WS_HSCROLL \<and> horz_extent d \<noteq> 0 then send (SetScroll True 0 (nb_items d - 1) (horz_pos d) (lb_width d)) d1
                      else if flag d LBS_DISABLENOSCROLL then send (SetScroll True 0 0 (top_item d) page) d1
                      else send HideHorz d1) })"

text \<open>The distance to scroll by is computed but not used.\<close>

definition LISTBOX_SetTopItem :: "int \<Rightarrow> LB_DESCR \<Rightarrow> LB_DESCR option" where
  "LISTBOX_SetTopItem index d =
     do { mx \<leftarrow> LISTBOX_GetMaxTopIndex d;
          let i1 = max 0 (min index mx);
          i2 \<leftarrow> (if flag d LBS_MULTICOLUMN then map_option ((-) i1) (modulo i1 (page_size d)) else Some i1);
          if top_item d = i2 then Some d else LISTBOX_UpdateScroll (d\<lparr>top_item := i2\<rparr>) }"

definition LISTBOX_UpdatePage :: "LB_DESCR \<Rightarrow> LB_DESCR option" where
  "LISTBOX_UpdatePage d =
     (let page = (if item_height d = 0 \<or> c_div (lb_height d) (item_height d) < 1 then 1 else c_div (lb_height d) (item_height d))
      in if page = page_size d then Some d else LISTBOX_SetTopItem (top_item d) (d\<lparr>page_size := page\<rparr>))"

text \<open>The heights of the items from one index up to another, which the loops add up.\<close>

fun sum_heights :: "LB_DESCR \<Rightarrow> int \<Rightarrow> nat \<Rightarrow> int option" where
  "sum_heights d i 0 = Some 0"
| "sum_heights d i (Suc n) = do { h \<leftarrow> get_item_height d i; s \<leftarrow> sum_heights d (i + 1) n; Some (h + s) }"

text \<open>A rectangle is left, top, right and bottom.\<close>

type_synonym lb_rect = "int \<times> int \<times> int \<times> int"

definition item_rect :: "LB_DESCR \<Rightarrow> int \<Rightarrow> lb_rect option" where
  "item_rect d index =
     (if flag d LBS_MULTICOLUMN
      then do { c \<leftarrow> divide index (page_size d); t \<leftarrow> divide (top_item d) (page_size d); r \<leftarrow> modulo index (page_size d);
                let left = (c - t) * column_width d; let top = r * item_height d;
                Some (left, top, left + column_width d, top + item_height d) }
      else if flag d LBS_OWNERDRAWVARIABLE
      then (if index \<ge> 0 \<and> index < nb_items d
            then do { top \<leftarrow> (if index < top_item d then map_option uminus (sum_heights d index (nat (top_item d - index)))
                              else sum_heights d (top_item d) (nat (index - top_item d)));
                      h \<leftarrow> get_item_height d index;
                      Some (0, top, lb_width d + horz_pos d, top + h) }
            else Some (0, 0, lb_width d + horz_pos d, lb_height d))
      else (let top = (index - top_item d) * item_height d
            in Some (0, top, lb_width d + horz_pos d, top + item_height d)))"

definition rect_visible :: "LB_DESCR \<Rightarrow> lb_rect \<Rightarrow> bool" where
  "rect_visible d rc = (case rc of (l, t, r, b) \<Rightarrow> l < lb_width d \<and> r > 0 \<and> t < lb_height d \<and> b > 0)"

definition LISTBOX_GetItemRect :: "LB_DESCR \<Rightarrow> int \<Rightarrow> (int \<times> lb_rect) option" where
  "LISTBOX_GetItemRect d index =
     (if index \<noteq> 0 \<and> index \<ge> nb_items d then Some (LB_ERR, (0, 0, 0, 0))
      else do { rc \<leftarrow> item_rect d index; Some (if rect_visible d rc then 1 else 0, rc) })"

text \<open>The loops over items of different heights, down from the top item and up from it.\<close>

function item_below :: "LB_DESCR \<Rightarrow> int \<Rightarrow> int \<Rightarrow> int \<Rightarrow> int option" where
  "item_below d y index pos =
     (if index < nb_items d
      then do { h \<leftarrow> get_item_height d index; if pos + h > y then Some index else item_below d y (index + 1) (pos + h) }
      else Some index)"
  by pat_completeness auto
termination by (relation "measure (\<lambda>(d, y, index, pos). nat (nb_items d - index))") auto

function item_above :: "LB_DESCR \<Rightarrow> int \<Rightarrow> int \<Rightarrow> int \<Rightarrow> int option" where
  "item_above d y index pos =
     (if index > 0
      then do { h \<leftarrow> get_item_height d (index - 1); if pos - h \<le> y then Some (index - 1) else item_above d y (index - 1) (pos - h) }
      else Some index)"
  by pat_completeness auto
termination by (relation "measure (\<lambda>(d, y, index, pos). nat index)") auto

declare item_below.simps [simp del] item_above.simps [simp del]

definition LISTBOX_GetItemFromPoint :: "LB_DESCR \<Rightarrow> int \<Rightarrow> int \<Rightarrow> int option" where
  "LISTBOX_GetItemFromPoint d x y =
     (if nb_items d = 0 then Some (-1)
      else do {
        index \<leftarrow> (if flag d LBS_OWNERDRAWVARIABLE
                  then (if y \<ge> 0 then item_below d y (top_item d) 0 else item_above d y (top_item d) 0)
                  else if flag d LBS_MULTICOLUMN
                  then (if y \<ge> item_height d * page_size d then Some (nb_items d)
                        else do { row \<leftarrow> (if y \<ge> 0 then divide y (item_height d) else Some 0);
                                  cols \<leftarrow> (if x \<ge> 0 then divide x (column_width d) else map_option (\<lambda>c. 1 - c) (divide (x + 1) (column_width d)));
                                  Some (top_item d + row + cols * page_size d) })
                  else map_option ((+) (top_item d)) (divide y (item_height d)));
        Some (if index < 0 then 0 else if index \<ge> nb_items d then -1 else index) })"

end
