(* ===== verification/Listbox_Ops.thy ===== *)
theory Listbox_Ops
  imports Listbox_Model
begin

text \<open>
  Listboxes, continued: selection, caret, insertion, removal and search. \<open>str\<close> with \<open>data\<close> is the argument of a message
  that is a string or a number: the string it points to, none for a null pointer, and the number.
\<close>

section \<open>Repaint\<close>

definition display_changed :: "LB_DESCR \<Rightarrow> LB_DESCR" where
  "display_changed d = d\<lparr>style := insert LBS_DISPLAYCHANGED (style d)\<rparr>"

definition LISTBOX_SetRedraw :: "bool \<Rightarrow> LB_DESCR \<Rightarrow> LB_DESCR option" where
  "LISTBOX_SetRedraw on d =
     (if on
      then (if \<not> flag d LBS_NOREDRAW then Some d
            else (let d1 = d\<lparr>style := style d - {LBS_NOREDRAW}\<rparr>;
                      d2 = (if flag d1 LBS_DISPLAYCHANGED
                            then (let d3 = (if top_item d1 + page_size d1 > nb_items d1 then d1\<lparr>top_item := max 0 (nb_items d1 - page_size d1)\<rparr> else d1)
                                  in d3\<lparr>style := style d3 - {LBS_DISPLAYCHANGED}\<rparr>)
                            else d1)
                  in LISTBOX_UpdateScroll d2))
      else Some (d\<lparr>style := insert LBS_NOREDRAW (style d)\<rparr>))"

text \<open>What a repaint leaves in the descriptor. Each looks up the rectangle of an item; what it paints there is left out.\<close>

definition LISTBOX_InvalidateItemRect :: "int \<Rightarrow> LB_DESCR \<Rightarrow> LB_DESCR option" where
  "LISTBOX_InvalidateItemRect index d = do { _ \<leftarrow> LISTBOX_GetItemRect d index; Some d }"

definition LISTBOX_RepaintItem :: "lb_env \<Rightarrow> int \<Rightarrow> LB_DESCR \<Rightarrow> LB_DESCR option" where
  "LISTBOX_RepaintItem env index d =
     (if \<not> lb_visible env then Some d
      else if flag d LBS_NOREDRAW then Some (display_changed d)
      else LISTBOX_InvalidateItemRect index d)"

definition LISTBOX_DrawFocusRect :: "lb_env \<Rightarrow> LB_DESCR \<Rightarrow> LB_DESCR option" where
  "LISTBOX_DrawFocusRect env d =
     (if \<not> lb_visible env \<or> focus_item d = -1 \<or> \<not> in_focus d then Some d else LISTBOX_InvalidateItemRect (focus_item d) d)"

definition LISTBOX_InvalidateItems :: "int \<Rightarrow> LB_DESCR \<Rightarrow> LB_DESCR option" where
  "LISTBOX_InvalidateItems index d =
     do { (r, _) \<leftarrow> LISTBOX_GetItemRect d index; Some (if r = 1 \<and> flag d LBS_NOREDRAW then display_changed d else d) }"

section \<open>Settings\<close>

definition LISTBOX_InitStorage :: "lb_env \<Rightarrow> int \<Rightarrow> LB_DESCR \<Rightarrow> int \<times> LB_DESCR" where
  "LISTBOX_InitStorage env n d =
     (let new_size = to_uint (nb_items d + n)
      in if new_size > items_size d
         then (let (ok, d1) = resize_storage env d new_size in if ok then (items_size d1, d1) else (LB_ERRSPACE, d1))
         else (items_size d, d))"

text \<open>A failed allocation leaves the count without the array; the list of tabs is then empty.\<close>

definition LISTBOX_SetTabStops :: "lb_env \<Rightarrow> int list \<Rightarrow> LB_DESCR \<Rightarrow> bool \<times> LB_DESCR" where
  "LISTBOX_SetTabStops env tabs d =
     (if \<not> flag d LBS_USETABSTOPS then (False, d)
      else if tabs = [] then (True, d\<lparr>lb_tabs := []\<rparr>)
      else if \<not> lb_mem env (4 * int (length tabs)) then (False, d\<lparr>lb_tabs := []\<rparr>)
      else (True, d\<lparr>lb_tabs := map (\<lambda>t. MulDiv t (avg_char_width d) 4) tabs\<rparr>))"

definition LISTBOX_GetItemHeight :: "LB_DESCR \<Rightarrow> int \<Rightarrow> int option" where
  "LISTBOX_GetItemHeight d index =
     (if flag d LBS_OWNERDRAWVARIABLE \<and> nb_items d > 0
      then (if index < 0 \<or> index \<ge> nb_items d then Some LB_ERR else get_item_height d index)
      else Some (item_height d))"

definition LISTBOX_SetItemHeight :: "int \<Rightarrow> int \<Rightarrow> bool \<Rightarrow> LB_DESCR \<Rightarrow> (int \<times> LB_DESCR) option" where
  "LISTBOX_SetItemHeight index height repaint d =
     (if height > 65535 then Some (-1, d)
      else (let h = (if height = 0 then 1 else height)
            in if flag d LBS_OWNERDRAWVARIABLE
               then (if index < 0 \<or> index \<ge> nb_items d then Some (LB_ERR, d)
                     else do { d1 \<leftarrow> set_item_height index h d; d2 \<leftarrow> LISTBOX_UpdateScroll d1;
                               d3 \<leftarrow> (if repaint then LISTBOX_InvalidateItems index d2 else Some d2); Some (LB_OKAY, d3) })
               else if h \<noteq> item_height d
               then do { d1 \<leftarrow> LISTBOX_UpdatePage (d\<lparr>item_height := h\<rparr>); d2 \<leftarrow> LISTBOX_UpdateScroll d1; Some (LB_OKAY, d2) }
               else Some (LB_OKAY, d)))"

definition LISTBOX_SetHorizontalPos :: "int \<Rightarrow> LB_DESCR \<Rightarrow> LB_DESCR option" where
  "LISTBOX_SetHorizontalPos pos d =
     (let p = max 0 (min pos (horz_extent d - lb_width d))
      in if horz_pos d = p then Some d else LISTBOX_UpdateScroll (d\<lparr>horz_pos := p\<rparr>))"

definition LISTBOX_SetHorizontalExtent :: "int \<Rightarrow> LB_DESCR \<Rightarrow> LB_DESCR option" where
  "LISTBOX_SetHorizontalExtent extent d =
     (if flag d LBS_MULTICOLUMN \<or> extent = horz_extent d then Some d
      else (let d1 = d\<lparr>horz_extent := extent\<rparr>;
                d2 = (if flag d1 WS_HSCROLL then send (SetScroll True 0 (if extent \<noteq> 0 then extent - 1 else 0) 0 0) d1 else d1)
            in if horz_pos d2 > extent - lb_width d2 then LISTBOX_SetHorizontalPos (extent - lb_width d2) d2 else Some d2))"

text \<open>The size is that of the client rectangle.\<close>

definition LISTBOX_SetColumnWidth :: "int \<Rightarrow> int \<Rightarrow> int \<Rightarrow> LB_DESCR \<Rightarrow> LB_DESCR option" where
  "LISTBOX_SetColumnWidth width height column d =
     do { d1 \<leftarrow> LISTBOX_UpdatePage (d\<lparr>lb_width := width, lb_height := height, column_width := column\<rparr>); LISTBOX_UpdateScroll d1 }"

section \<open>Caret\<close>

text \<open>The loop up from an item as far as the page has room.\<close>

function fit_above :: "LB_DESCR \<Rightarrow> int \<Rightarrow> int \<Rightarrow> int option" where
  "fit_above d t height =
     (if t > top_item d
      then do { h \<leftarrow> get_item_height d (t - 1); if height + h > lb_height d then Some t else fit_above d (t - 1) (height + h) }
      else Some t)"
  by pat_completeness auto
termination by (relation "measure (\<lambda>(d, t, height). nat (t - top_item d))") auto

declare fit_above.simps [simp del]

definition LISTBOX_MakeItemVisible :: "int \<Rightarrow> bool \<Rightarrow> LB_DESCR \<Rightarrow> LB_DESCR option" where
  "LISTBOX_MakeItemVisible index fully d =
     do { t \<leftarrow>
            (if index \<le> top_item d then Some (Some index)
             else if flag d LBS_MULTICOLUMN
             then do { let w = lb_width d + (if fully then 0 else column_width d - 1);
                       cols \<leftarrow> (if w \<ge> column_width d then divide w (column_width d) else Some 1);
                       Some (if index < top_item d + page_size d * cols then None else Some (index - page_size d * (cols - 1))) }
             else if flag d LBS_OWNERDRAWVARIABLE
             then do { h \<leftarrow> (if fully then get_item_height d index else Some 1); map_option Some (fit_above d index h) }
             else Some (if index < top_item d + page_size d then None
                        else if \<not> fully \<and> index = top_item d + page_size d \<and> lb_height d > page_size d * item_height d then None
                        else Some (index - page_size d + 1)));
          case t of None \<Rightarrow> Some d | Some i \<Rightarrow> LISTBOX_SetTopItem i d }"

definition LISTBOX_SetCaretIndex :: "lb_env \<Rightarrow> int \<Rightarrow> bool \<Rightarrow> LB_DESCR \<Rightarrow> (int \<times> LB_DESCR) option" where
  "LISTBOX_SetCaretIndex env index fully_visible d =
     (if flag d LBS_NOSEL \<or> index < 0 \<or> index \<ge> nb_items d then Some (LB_ERR, d)
      else if focus_item d = index then map_option (Pair LB_OKAY) (LISTBOX_MakeItemVisible index fully_visible d)
      else do { d1 \<leftarrow> LISTBOX_DrawFocusRect env d;
                d2 \<leftarrow> LISTBOX_MakeItemVisible index fully_visible (d1\<lparr>focus_item := index\<rparr>);
                d3 \<leftarrow> LISTBOX_DrawFocusRect env d2;
                Some (LB_OKAY, d3) })"

section \<open>Selection\<close>

text \<open>The loop that gives \<open>n\<close> items from an index on the same state.\<close>

fun select_loop :: "bool \<Rightarrow> int \<Rightarrow> nat \<Rightarrow> LB_DESCR \<Rightarrow> LB_DESCR option" where
  "select_loop on i 0 d = Some d"
| "select_loop on i (Suc n) d =
     do { s \<leftarrow> is_item_selected d i;
          d1 \<leftarrow> (if s = on then Some d else do { e \<leftarrow> set_item_selected_state i on d; LISTBOX_InvalidateItemRect i e });
          select_loop on (i + 1) n d1 }"

definition LISTBOX_SelectItemRange :: "int \<Rightarrow> int \<Rightarrow> bool \<Rightarrow> LB_DESCR \<Rightarrow> (int \<times> LB_DESCR) option" where
  "LISTBOX_SelectItemRange first final on d =
     (if flag d LBS_NOSEL \<or> \<not> flag d LBS_MULTIPLESEL then Some (LB_ERR, d)
      else if nb_items d = 0 then Some (LB_OKAY, d)
      else (let l = (if final = -1 \<or> final \<ge> nb_items d then nb_items d - 1 else final); f = max 0 first
            in if l < f then Some (LB_OKAY, d) else map_option (Pair LB_OKAY) (select_loop on f (nat (l - f + 1)) d)))"

definition LISTBOX_SetSelection :: "lb_env \<Rightarrow> int \<Rightarrow> bool \<Rightarrow> bool \<Rightarrow> LB_DESCR \<Rightarrow> (int \<times> LB_DESCR) option" where
  "LISTBOX_SetSelection env index on send_notify d =
     (if flag d LBS_NOSEL then Some (LB_ERR, d\<lparr>selected_item := index\<rparr>)
      else if index < -1 \<or> index \<ge> nb_items d then Some (LB_ERR, d)
      else if flag d LBS_MULTIPLESEL
      then (if index = -1 then LISTBOX_SelectItemRange 0 (nb_items d) on d else LISTBOX_SelectItemRange index index on d)
      else (let oldsel = selected_item d
            in if index = oldsel then Some (LB_OKAY, d)
               else do { d1 \<leftarrow> (if oldsel \<noteq> -1 then set_item_selected_state oldsel False d else Some d);
                         d2 \<leftarrow> (if index \<noteq> -1 then set_item_selected_state index True d1 else Some d1);
                         let d3 = d2\<lparr>selected_item := index\<rparr>;
                         d4 \<leftarrow> (if oldsel \<noteq> -1 then LISTBOX_RepaintItem env oldsel d3 else Some d3);
                         d5 \<leftarrow> (if index \<noteq> -1 then LISTBOX_RepaintItem env index d4 else Some d4);
                         Some (LB_OKAY, if send_notify \<and> nb_items d5 \<noteq> 0
                                        then send (Notify (if index \<noteq> -1 then LBN_SELCHANGE else LBN_SELCANCEL)) d5 else d5) }))"

definition LISTBOX_MoveCaret :: "lb_env \<Rightarrow> int \<Rightarrow> bool \<Rightarrow> LB_DESCR \<Rightarrow> LB_DESCR option" where
  "LISTBOX_MoveCaret env index fully_visible d =
     (if index < 0 \<or> index \<ge> nb_items d then Some d
      else do {
        d0 \<leftarrow> LISTBOX_DrawFocusRect env d;
        d1 \<leftarrow> (if flag d0 LBS_EXTENDEDSEL
               then (if anchor_item d0 \<noteq> -1
                     then (let first = min index (anchor_item d0); last = max index (anchor_item d0)
                           in do { (_, e1) \<leftarrow> (if first > 0 then LISTBOX_SelectItemRange 0 (first - 1) False d0 else Some (LB_OKAY, d0));
                                   (_, e2) \<leftarrow> LISTBOX_SelectItemRange (last + 1) (-1) False e1;
                                   (_, e3) \<leftarrow> LISTBOX_SelectItemRange first last True e2;
                                   Some e3 })
                     else Some d0)
               else if \<not> flag d0 LBS_MULTIPLESEL then map_option snd (LISTBOX_SetSelection env index True False d0)
               else Some d0);
        d2 \<leftarrow> LISTBOX_MakeItemVisible index fully_visible (d1\<lparr>focus_item := index\<rparr>);
        LISTBOX_DrawFocusRect env d2 })"

fun count_selected :: "LB_DESCR \<Rightarrow> int \<Rightarrow> nat \<Rightarrow> int option" where
  "count_selected d i 0 = Some 0"
| "count_selected d i (Suc n) = do { s \<leftarrow> is_item_selected d i; c \<leftarrow> count_selected d (i + 1) n; Some (if s then c + 1 else c) }"

definition LISTBOX_GetSelCount :: "LB_DESCR \<Rightarrow> int option" where
  "LISTBOX_GetSelCount d =
     (if \<not> flag d LBS_MULTIPLESEL \<or> flag d LBS_NOSEL then Some LB_ERR else count_selected d 0 (nat (nb_items d)))"

fun selected_from :: "LB_DESCR \<Rightarrow> int \<Rightarrow> nat \<Rightarrow> int \<Rightarrow> int list option" where
  "selected_from d i 0 room = Some []"
| "selected_from d i (Suc n) room =
     (if room \<le> 0 then Some []
      else do { s \<leftarrow> is_item_selected d i;
                if s then map_option ((#) i) (selected_from d (i + 1) n (room - 1)) else selected_from d (i + 1) n room })"

text \<open>The count, and what is stored in the array.\<close>

definition LISTBOX_GetSelItems :: "LB_DESCR \<Rightarrow> int \<Rightarrow> (int \<times> int list) option" where
  "LISTBOX_GetSelItems d room =
     (if \<not> flag d LBS_MULTIPLESEL then Some (LB_ERR, [])
      else do { is \<leftarrow> selected_from d 0 (nat (nb_items d)) room; Some (int (length is), is) })"

section \<open>Insertion and removal\<close>

definition put_item :: "int \<Rightarrow> cstring option \<Rightarrow> int \<Rightarrow> LB_DESCR \<Rightarrow> LB_DESCR option" where
  "put_item i str data d =
     do { d1 \<leftarrow> insert_item_data i d;
          d2 \<leftarrow> set_item_string i str (d1\<lparr>nb_items := nb_items d1 + 1\<rparr>);
          d3 \<leftarrow> set_item_data i (if HAS_STRINGS d2 then 0 else data) d2;
          d4 \<leftarrow> set_item_height i 0 d3;
          set_item_selected_state i False d4 }"

definition measure_item :: "lb_env \<Rightarrow> int \<Rightarrow> int \<Rightarrow> LB_DESCR \<Rightarrow> LB_DESCR option" where
  "measure_item env i data d =
     (if flag d LBS_OWNERDRAWVARIABLE
      then (let h = lb_measure env i data (item_height d) in set_item_height i (if h \<noteq> 0 then h else 1) d)
      else Some d)"

definition LISTBOX_InsertItem :: "lb_env \<Rightarrow> int \<Rightarrow> cstring option \<Rightarrow> int \<Rightarrow> LB_DESCR \<Rightarrow> (int \<times> LB_DESCR) option" where
  "LISTBOX_InsertItem env index str data d =
     (let oldfocus = focus_item d; i = (if index = -1 then nb_items d else index)
      in if i < 0 \<or> i > nb_items d then Some (LB_ERR, d)
         else (let (ok, d0) = resize_storage env d (nb_items d + 1)
               in if \<not> ok then Some (LB_ERR, d0)
                  else do {
                    d5 \<leftarrow> put_item i str data d0;
                    d6 \<leftarrow> measure_item env i data d5;
                    d7 \<leftarrow> LISTBOX_UpdateScroll d6;
                    d8 \<leftarrow> LISTBOX_InvalidateItems i d7;
                    d9 \<leftarrow> (if nb_items d8 = 1 then map_option snd (LISTBOX_SetCaretIndex env 0 False d8)
                           else if \<not> IS_MULTISELECT d8
                           then map_option snd (LISTBOX_SetSelection env (selected_item d8) True False (d8\<lparr>selected_item := selected_item d8 + 1\<rparr>))
                           else Some (if i \<le> selected_item d8 then d8\<lparr>selected_item := selected_item d8 + 1, focus_item := oldfocus\<rparr> else d8));
                    Some (LB_OKAY, d9) }))"

definition LISTBOX_InsertString :: "lb_env \<Rightarrow> int \<Rightarrow> cstring option \<Rightarrow> int \<Rightarrow> LB_DESCR \<Rightarrow> (int \<times> LB_DESCR) option" where
  "LISTBOX_InsertString env index str data d =
     (let s = (case str of None \<Rightarrow> [] | Some t \<Rightarrow> t)
      in if HAS_STRINGS d \<and> \<not> lb_mem env (int (length s) + 1) then Some (LB_ERRSPACE, send (Notify LBN_ERRSPACE) d)
         else (let i = (if index = -1 then nb_items d else index)
               in do { (ret, d1) \<leftarrow> LISTBOX_InsertItem env i (if HAS_STRINGS d then Some s else None) data d;
                       Some (if ret \<noteq> LB_OKAY then ret else i, d1) }))"

definition LISTBOX_DeleteItem :: "int \<Rightarrow> LB_DESCR \<Rightarrow> LB_DESCR option" where
  "LISTBOX_DeleteItem index d =
     do { data \<leftarrow> get_item_data d index;
          _ \<leftarrow> get_item_string d index;
          Some (if IS_OWNERDRAW d \<or> data \<noteq> 0 then send (DeleteItem index data) d else d) }"

text \<open>The loop of \<open>LISTBOX_ResetContent\<close>, from the last item to the first.\<close>

fun delete_items :: "nat \<Rightarrow> LB_DESCR \<Rightarrow> LB_DESCR option" where
  "delete_items 0 d = Some d"
| "delete_items (Suc n) d = do { d1 \<leftarrow> LISTBOX_DeleteItem (int n) d; delete_items n d1 }"

definition LISTBOX_ResetContent :: "LB_DESCR \<Rightarrow> LB_DESCR option" where
  "LISTBOX_ResetContent d =
     do { d1 \<leftarrow> (if flag d LBS_NODATA then Some d else delete_items (nat (nb_items d)) d);
          Some (d1\<lparr>nb_items := 0, top_item := 0, selected_item := -1, focus_item := 0, anchor_item := -1, items_size := 0,
                   u_items := None, u_nodata := None\<rparr>) }"

text \<open>What the message \<^verbatim>\<open>LB_RESETCONTENT\<close> does.\<close>

definition reset_content :: "LB_DESCR \<Rightarrow> LB_DESCR option" where
  "reset_content d = do { d1 \<leftarrow> LISTBOX_ResetContent d; LISTBOX_UpdateScroll d1 }"

definition LISTBOX_RemoveItem :: "lb_env \<Rightarrow> int \<Rightarrow> LB_DESCR \<Rightarrow> (int \<times> LB_DESCR) option" where
  "LISTBOX_RemoveItem env index d =
     (if index < 0 \<or> index \<ge> nb_items d then Some (LB_ERR, d)
      else do {
        d0 \<leftarrow> LISTBOX_InvalidateItems index d;
        if nb_items d0 = 1 then map_option (Pair LB_OKAY) (reset_content d0)
        else do {
          d1 \<leftarrow> LISTBOX_DeleteItem index (d0\<lparr>nb_items := nb_items d0 - 1\<rparr>);
          d2 \<leftarrow> remove_item_data index d1;
          let d3 = (if anchor_item d2 = nb_items d2 then d2\<lparr>anchor_item := anchor_item d2 - 1\<rparr> else d2);
          let d4 = snd (resize_storage env d3 (nb_items d3));
          d5 \<leftarrow> LISTBOX_UpdateScroll d4;
          d6 \<leftarrow> (if nb_items d5 = page_size d5 then LISTBOX_SetTopItem 0 d5 else Some d5);
          let d7 = (if IS_MULTISELECT d6 then d6
                    else if index = selected_item d6 then d6\<lparr>selected_item := -1\<rparr>
                    else if index < selected_item d6 then d6\<lparr>selected_item := selected_item d6 - 1\<rparr> else d6);
          Some (LB_OKAY, if focus_item d7 \<ge> nb_items d7 then d7\<lparr>focus_item := max 0 (nb_items d7 - 1)\<rparr> else d7) } })"

definition LISTBOX_SetCount :: "lb_env \<Rightarrow> int \<Rightarrow> LB_DESCR \<Rightarrow> (int \<times> LB_DESCR) option" where
  "LISTBOX_SetCount env count d =
     (if \<not> flag d LBS_NODATA then Some (LB_ERR, d)
      else (let orig_num = nb_items d; (ok, d0) = resize_storage env d count
            in if \<not> ok then Some (LB_ERRSPACE, d0)
               else (let d1 = d0\<lparr>nb_items := count\<rparr>; d2 = (if flag d1 LBS_NOREDRAW then display_changed d1 else d1)
                     in if count = 0 then map_option (Pair LB_OKAY) (reset_content d2)
                        else do {
                          d3 \<leftarrow> LISTBOX_UpdateScroll d2;
                          if count < orig_num
                          then do {
                            let d4 = d3\<lparr>anchor_item := min (anchor_item d3) (count - 1),
                                        selected_item := (if selected_item d3 \<ge> count then -1 else selected_item d3)\<rparr>;
                            d5 \<leftarrow> (if count \<le> page_size d4 \<and> orig_num > page_size d4 then LISTBOX_SetTopItem 0 d4 else Some d4);
                            Some (LB_OKAY, d5\<lparr>focus_item := min (focus_item d5) (count - 1)\<rparr>) }
                          else if orig_num = 0 then map_option (\<lambda>r. (LB_OKAY, snd r)) (LISTBOX_SetCaretIndex env 0 False d3)
                          else Some (LB_OKAY, d3) })))"

end
