(* ===== verification/Listbox_Input.thy ===== *)
theory Listbox_Input
  imports Listbox_Ops
begin

text \<open>
  Listboxes, continued: the searches, the handlers of scroll bars, mouse and keyboard, the creation of a listbox and
  its window procedure. \<open>CompareStringA\<close> is that of \<^verbatim>\<open>src/winnsl.cpp\<close>, which the searches call.
\<close>

section \<open>Comparison of strings\<close>

text \<open>A constructor of \<^verbatim>\<open>std::string\<close> that is given a length: a negative one is an exception. A string is followed by its terminator,
  and nothing behind it may be read.\<close>

definition std_string :: "cstring option \<Rightarrow> int \<Rightarrow> cstring option" where
  "std_string p n =
     (case p of None \<Rightarrow> None | Some s \<Rightarrow> if n < 0 \<or> n > int (length s) + 1 then None else Some (take (nat n) (s @ [0])))"

text \<open>The sign of \<^verbatim>\<open>compare\<close>: the characters as unsigned ones, then the lengths.\<close>

fun std_compare :: "cstring \<Rightarrow> cstring \<Rightarrow> int" where
  "std_compare [] [] = 0"
| "std_compare [] (y # ys) = -1"
| "std_compare (x # xs) [] = 1"
| "std_compare (x # xs) (y # ys) =
     (if x mod 256 < y mod 256 then -1 else if x mod 256 > y mod 256 then 1 else std_compare xs ys)"

definition CompareStringA :: "cstring option \<Rightarrow> int \<Rightarrow> cstring option \<Rightarrow> int \<Rightarrow> int option" where
  "CompareStringA str1 len1 str2 len2 =
     do { p1 \<leftarrow> std_string str1 len1; p2 \<leftarrow> std_string str2 len2; Some (std_compare p1 p2) }"

definition CSTR_LESS_THAN :: int where "CSTR_LESS_THAN = 1"

definition CSTR_EQUAL :: int where "CSTR_EQUAL = 2"

definition CSTR_GREATER_THAN :: int where "CSTR_GREATER_THAN = 3"

definition LISTBOX_lstrcmpi :: "cstring option \<Rightarrow> cstring option \<Rightarrow> int option" where
  "LISTBOX_lstrcmpi str1 str2 =
     do { ret \<leftarrow> CompareStringA str1 (-1) str2 (-1);
          Some (if ret = CSTR_LESS_THAN then -1 else if ret = CSTR_EQUAL then 0 else if ret = CSTR_GREATER_THAN then 1 else -1) }"

section \<open>Searches\<close>

text \<open>The comparison of an item with the string or the number searched for, and the loop on the bounds.\<close>

definition compare_item :: "lb_env \<Rightarrow> LB_DESCR \<Rightarrow> int \<Rightarrow> cstring option \<Rightarrow> int \<Rightarrow> int option" where
  "compare_item env d index str data =
     (if HAS_STRINGS d then do { s \<leftarrow> get_item_string d index; LISTBOX_lstrcmpi s str }
      else do { x \<leftarrow> get_item_data d index; Some (lb_compare env x data) })"

function find_pos :: "(int \<Rightarrow> int option) \<Rightarrow> bool \<Rightarrow> int \<Rightarrow> int \<Rightarrow> int option" where
  "find_pos cmp exact mn mx =
     (if mn \<le> mx
      then do { let index = (mn + mx) div 2;
                res \<leftarrow> cmp index;
                if res = 0 then Some index
                else if res > 0 then find_pos cmp exact mn (index - 1) else find_pos cmp exact (index + 1) mx }
      else Some (if exact then -1 else mn))"
  by pat_completeness auto
termination by (relation "measure (\<lambda>(cmp, exact, mn, mx). nat (mx + 1 - mn))") auto

declare find_pos.simps [simp del]

definition LISTBOX_FindStringPos :: "lb_env \<Rightarrow> LB_DESCR \<Rightarrow> cstring option \<Rightarrow> int \<Rightarrow> bool \<Rightarrow> int option" where
  "LISTBOX_FindStringPos env d str data exact =
     (if nb_items d = 0 \<or> \<not> flag d LBS_SORT then Some (-1)
      else find_pos (\<lambda>i. compare_item env d i str data) exact 0 (nb_items d - 1))"

text \<open>The character at an index that is at most the length of the string.\<close>

definition char_at :: "cstring \<Rightarrow> nat \<Rightarrow> int" where
  "char_at s i = (if i < length s then s ! i else 0)"

text \<open>The order of file names, directories and drives: \<^verbatim>\<open>[-c-]\<close> is a drive and \<^verbatim>\<open>[name]\<close> a directory.\<close>

definition compare_file :: "cstring \<Rightarrow> cstring \<Rightarrow> int option" where
  "compare_file str p =
     (if char_at p 0 = 91
      then (if char_at str 0 \<noteq> 91 then Some (-1)
            else if char_at p 1 = 45 then Some (if char_at str 1 = 45 then char_at str 2 - char_at p 2 else -1)
            else if char_at str 1 = 45 then Some 1 else LISTBOX_lstrcmpi (Some str) (Some p))
      else if char_at str 0 = 91 then Some 1 else LISTBOX_lstrcmpi (Some str) (Some p))"

function find_file_pos :: "(int \<Rightarrow> int option) \<Rightarrow> int \<Rightarrow> int \<Rightarrow> int option" where
  "find_file_pos cmp mn mx =
     (if mn < mx
      then do { let index = (mn + mx) div 2;
                res \<leftarrow> cmp index;
                if res = 0 then Some index else if res < 0 then find_file_pos cmp mn index else find_file_pos cmp (index + 1) mx }
      else Some mx)"
  by pat_completeness auto
termination by (relation "measure (\<lambda>(cmp, mn, mx). nat (mx - mn))") auto

declare find_file_pos.simps [simp del]

definition LISTBOX_FindFileStrPos :: "lb_env \<Rightarrow> LB_DESCR \<Rightarrow> cstring option \<Rightarrow> int \<Rightarrow> int option" where
  "LISTBOX_FindFileStrPos env d str data =
     (if \<not> HAS_STRINGS d then LISTBOX_FindStringPos env d str data False
      else find_file_pos (\<lambda>i. do { q \<leftarrow> get_item_string d i; p \<leftarrow> q; s \<leftarrow> str; compare_file s p }) 0 (nb_items d))"

text \<open>The loop over all the items from an index on, around the end, up to the first for which a test holds.\<close>

fun find_around :: "(int \<Rightarrow> bool option) \<Rightarrow> int \<Rightarrow> int \<Rightarrow> nat \<Rightarrow> int option" where
  "find_around test nb index 0 = Some LB_ERR"
| "find_around test nb index (Suc n) =
     (let i = (if index = nb then 0 else index) in do { b \<leftarrow> test i; if b then Some i else find_around test nb (i + 1) n })"

definition starts_item :: "lb_env \<Rightarrow> cstring \<Rightarrow> cstring \<Rightarrow> bool" where
  "starts_item env s t \<longleftrightarrow>
     lb_prefix env s t \<or> (char_at t 0 = 91 \<and> (lb_prefix env s (drop 1 t) \<or> (char_at t 1 = 45 \<and> lb_prefix env s (drop 2 t))))"

definition LISTBOX_FindString :: "lb_env \<Rightarrow> LB_DESCR \<Rightarrow> int \<Rightarrow> cstring option \<Rightarrow> int \<Rightarrow> bool \<Rightarrow> int option" where
  "LISTBOX_FindString env d start str data exact =
     (if flag d LBS_NODATA then Some LB_ERR
      else (let first = (if start + 1 \<ge> nb_items d then 0 else start + 1)
            in if HAS_STRINGS d
               then (case str of
                       None \<Rightarrow> Some LB_ERR
                     | Some s \<Rightarrow>
                         if s = [] then Some LB_ERR
                         else if exact
                         then find_around (\<lambda>i. do { t \<leftarrow> get_item_string d i; map_option (\<lambda>r. r = 0) (LISTBOX_lstrcmpi str t) })
                                (nb_items d) first (nat (nb_items d))
                         else find_around (\<lambda>i. do { q \<leftarrow> get_item_string d i; t \<leftarrow> q; Some (starts_item env s t) })
                                (nb_items d) first (nat (nb_items d)))
               else if exact \<and> flag d LBS_SORT then LISTBOX_FindStringPos env d str data True
               else find_around (\<lambda>i. map_option (\<lambda>x. x = data) (get_item_data d i)) (nb_items d) first (nat (nb_items d))))"

text \<open>What is returned, and what a buffer gets: the text of an item, or its number.\<close>

datatype lb_text = Text cstring | Datum int

definition LISTBOX_GetText :: "LB_DESCR \<Rightarrow> int \<Rightarrow> (int \<times> lb_text option) option" where
  "LISTBOX_GetText d index =
     (if index < 0 \<or> index \<ge> nb_items d then Some (LB_ERR, None)
      else if HAS_STRINGS d then do { q \<leftarrow> get_item_string d index; s \<leftarrow> q; Some (int (length s), Some (Text s)) }
      else do { x \<leftarrow> get_item_data d index; Some (8, Some (Datum x)) })"

section \<open>Scroll bars and wheel\<close>

text \<open>The requests of a scroll bar; those of the horizontal one have the same numbers.\<close>

datatype scroll_req = SB_LINEUP | SB_LINEDOWN | SB_PAGEUP | SB_PAGEDOWN | SB_THUMBPOSITION int | SB_THUMBTRACK int | SB_TOP | SB_BOTTOM | SB_ENDSCROLL

definition LISTBOX_HandleVScroll :: "scroll_req \<Rightarrow> LB_DESCR \<Rightarrow> LB_DESCR option" where
  "LISTBOX_HandleVScroll req d =
     (if flag d LBS_MULTICOLUMN then Some d
      else (case req of
              SB_LINEUP \<Rightarrow> LISTBOX_SetTopItem (top_item d - 1) d
            | SB_LINEDOWN \<Rightarrow> LISTBOX_SetTopItem (top_item d + 1) d
            | SB_PAGEUP \<Rightarrow> do { p \<leftarrow> LISTBOX_GetCurrentPageSize d; LISTBOX_SetTopItem (top_item d - p) d }
            | SB_PAGEDOWN \<Rightarrow> do { p \<leftarrow> LISTBOX_GetCurrentPageSize d; LISTBOX_SetTopItem (top_item d + p) d }
            | SB_THUMBPOSITION pos \<Rightarrow> LISTBOX_SetTopItem pos d
            | SB_THUMBTRACK pos \<Rightarrow> LISTBOX_SetTopItem pos d
            | SB_TOP \<Rightarrow> LISTBOX_SetTopItem 0 d
            | SB_BOTTOM \<Rightarrow> LISTBOX_SetTopItem (nb_items d) d
            | SB_ENDSCROLL \<Rightarrow> Some d))"

definition LISTBOX_HandleHScroll :: "scroll_req \<Rightarrow> LB_DESCR \<Rightarrow> LB_DESCR option" where
  "LISTBOX_HandleHScroll req d =
     (if flag d LBS_MULTICOLUMN
      then (case req of
              SB_LINEUP \<Rightarrow> LISTBOX_SetTopItem (top_item d - page_size d) d
            | SB_LINEDOWN \<Rightarrow> LISTBOX_SetTopItem (top_item d + page_size d) d
            | SB_PAGEUP \<Rightarrow> do { p \<leftarrow> divide (lb_width d) (column_width d); LISTBOX_SetTopItem (top_item d - max 1 p * page_size d) d }
            | SB_PAGEDOWN \<Rightarrow> do { p \<leftarrow> divide (lb_width d) (column_width d); LISTBOX_SetTopItem (top_item d + max 1 p * page_size d) d }
            | SB_THUMBPOSITION pos \<Rightarrow> LISTBOX_SetTopItem (pos * page_size d) d
            | SB_THUMBTRACK pos \<Rightarrow> LISTBOX_SetTopItem (pos * page_size d) d
            | SB_TOP \<Rightarrow> LISTBOX_SetTopItem 0 d
            | SB_BOTTOM \<Rightarrow> LISTBOX_SetTopItem (nb_items d) d
            | SB_ENDSCROLL \<Rightarrow> Some d)
      else if horz_extent d \<noteq> 0
      then (case req of
              SB_LINEUP \<Rightarrow> LISTBOX_SetHorizontalPos (horz_pos d - 1) d
            | SB_LINEDOWN \<Rightarrow> LISTBOX_SetHorizontalPos (horz_pos d + 1) d
            | SB_PAGEUP \<Rightarrow> LISTBOX_SetHorizontalPos (horz_pos d - lb_width d) d
            | SB_PAGEDOWN \<Rightarrow> LISTBOX_SetHorizontalPos (horz_pos d + lb_width d) d
            | SB_THUMBPOSITION pos \<Rightarrow> LISTBOX_SetHorizontalPos pos d
            | SB_THUMBTRACK pos \<Rightarrow> LISTBOX_SetHorizontalPos pos d
            | SB_TOP \<Rightarrow> LISTBOX_SetHorizontalPos 0 d
            | SB_BOTTOM \<Rightarrow> LISTBOX_SetHorizontalPos (horz_extent d - lb_width d) d
            | SB_ENDSCROLL \<Rightarrow> Some d)
      else Some d)"

definition WHEEL_DELTA :: int where "WHEEL_DELTA = 120"

text \<open>The number of lines is the answer of \<^verbatim>\<open>SystemParametersInfo\<close>, which is 3.\<close>

definition wheel_lines :: int where "wheel_lines = 3"

definition LISTBOX_HandleMouseWheel :: "int \<Rightarrow> LB_DESCR \<Rightarrow> LB_DESCR option" where
  "LISTBOX_HandleMouseWheel delta d =
     (let d1 = d\<lparr>wheel_remain := (if (delta < 0 \<and> wheel_remain d < 0) \<or> (delta > 0 \<and> wheel_remain d > 0) then wheel_remain d + delta else delta)\<rparr>
      in if wheel_remain d1 = 0 \<or> wheel_lines = 0 then Some d1
         else if flag d1 LBS_MULTICOLUMN
         then do { cols \<leftarrow> divide (lb_width d1) (column_width d1);
                   let lines = max 1 (min cols wheel_lines);
                   let c = c_div (lines * wheel_remain d1) WHEEL_DELTA;
                   back \<leftarrow> divide (WHEEL_DELTA * c) lines;
                   LISTBOX_SetTopItem (top_item d1 - c * page_size d1) (d1\<lparr>wheel_remain := wheel_remain d1 - back\<rparr>) }
         else do { let lines = min (page_size d1) wheel_lines;
                   let c = c_div (lines * wheel_remain d1) WHEEL_DELTA;
                   back \<leftarrow> divide (WHEEL_DELTA * c) lines;
                   LISTBOX_SetTopItem (top_item d1 - c) (d1\<lparr>wheel_remain := wheel_remain d1 - back\<rparr>) })"

end
