(* ===== verification/Listbox_Proc.thy ===== *)
theory Listbox_Proc
  imports Listbox_Input
begin

text \<open>
  Listboxes, continued: mouse, timer and keyboard, the creation of a listbox, and the window procedure with the messages
  as constructors. Messages that only paint or only report a font or a locale are left out, as are strings in wide characters.
\<close>

section \<open>Mouse and timer\<close>

definition LBN_DBLCLK :: int where "LBN_DBLCLK = 2"

definition LBN_SETFOCUS :: int where "LBN_SETFOCUS = 4"

definition LBN_KILLFOCUS :: int where "LBN_KILLFOCUS = 5"

text \<open>What the message \<^verbatim>\<open>WM_SETFOCUS\<close> does, which \<^verbatim>\<open>SetFocus\<close> sends when it gives the focus.\<close>

definition gets_focus :: "lb_env \<Rightarrow> LB_DESCR \<Rightarrow> LB_DESCR option" where
  "gets_focus env d = map_option (send (Notify LBN_SETFOCUS)) (LISTBOX_DrawFocusRect env (d\<lparr>in_focus := True\<rparr>))"

definition LISTBOX_HandleLButtonDown :: "lb_env \<Rightarrow> bool \<Rightarrow> bool \<Rightarrow> int \<Rightarrow> int \<Rightarrow> LB_DESCR \<Rightarrow> LB_DESCR option" where
  "LISTBOX_HandleLButtonDown env shift control x y d =
     do { index \<leftarrow> LISTBOX_GetItemFromPoint d x y;
          d1 \<leftarrow> (if \<not> in_focus d \<and> lb_focus env then gets_focus env d else Some d);
          if index = -1 then Some d1
          else do {
            let d2 = send SetCapture (d1\<lparr>captured := True\<rparr>);
            let notify = flag d2 LBS_NOTIFY;
            if multi d2
            then do {
              let d3 = (if shift then d2 else d2\<lparr>anchor_item := index\<rparr>);
              if control
              then do { (_, d4) \<leftarrow> LISTBOX_SetCaretIndex env index False d3;
                        s \<leftarrow> is_item_selected d4 index;
                        map_option snd (LISTBOX_SetSelection env index (\<not> s) notify d4) }
              else do { d4 \<leftarrow> LISTBOX_MoveCaret env index False d3;
                        s \<leftarrow> is_item_selected d4 index;
                        map_option snd (LISTBOX_SetSelection env index (if flag d4 LBS_EXTENDEDSEL then s else \<not> s) notify d4) } }
            else do { d3 \<leftarrow> LISTBOX_MoveCaret env index False (d2\<lparr>anchor_item := index\<rparr>);
                      map_option snd (LISTBOX_SetSelection env index True notify d3) } } }"

definition LISTBOX_HandleLButtonUp :: "lb_env \<Rightarrow> LB_DESCR \<Rightarrow> LB_DESCR" where
  "LISTBOX_HandleLButtonUp env d =
     (let d1 = (if LISTBOX_Timer d \<noteq> LB_TIMER_NONE then send KillTimer d else d)\<lparr>LISTBOX_Timer := LB_TIMER_NONE\<rparr>
      in if captured d1
         then (let d2 = d1\<lparr>captured := False\<rparr>; d3 = (if lb_capture env then send ReleaseCapture d2 else d2)
               in if flag d3 LBS_NOTIFY \<and> nb_items d3 \<noteq> 0 then send (Notify LBN_SELCHANGE) d3 else d3)
         else d1)"

definition LISTBOX_HandleTimer :: "lb_env \<Rightarrow> int \<Rightarrow> TIMER_DIRECTION \<Rightarrow> LB_DESCR \<Rightarrow> (bool \<times> LB_DESCR) option" where
  "LISTBOX_HandleTimer env index dir d =
     do { i \<leftarrow> (case dir of
                  LB_TIMER_UP \<Rightarrow> Some (if top_item d \<noteq> 0 then top_item d - 1 else 0)
                | LB_TIMER_LEFT \<Rightarrow> Some (if top_item d \<noteq> 0 then index - page_size d else index)
                | LB_TIMER_DOWN \<Rightarrow>
                    do { p \<leftarrow> LISTBOX_GetCurrentPageSize d;
                         let j = (if top_item d + p = focus_item d then top_item d + p + 1 else top_item d + p);
                         Some (if j \<ge> nb_items d then nb_items d - 1 else j) }
                | LB_TIMER_RIGHT \<Rightarrow> Some (if index + page_size d < nb_items d then index + page_size d else index)
                | LB_TIMER_NONE \<Rightarrow> Some index);
          if i = focus_item d then Some (False, d) else map_option (Pair True) (LISTBOX_MoveCaret env i False d) }"

definition LISTBOX_HandleSystemTimer :: "lb_env \<Rightarrow> LB_DESCR \<Rightarrow> LB_DESCR option" where
  "LISTBOX_HandleSystemTimer env d =
     do { (go_on, d1) \<leftarrow> LISTBOX_HandleTimer env (focus_item d) (LISTBOX_Timer d) d;
          Some (if go_on then d1 else (send KillTimer d1)\<lparr>LISTBOX_Timer := LB_TIMER_NONE\<rparr>) }"

definition LISTBOX_HandleMouseMove :: "lb_env \<Rightarrow> int \<Rightarrow> int \<Rightarrow> LB_DESCR \<Rightarrow> LB_DESCR option" where
  "LISTBOX_HandleMouseMove env x y d =
     (if \<not> captured d then Some d
      else do {
        let (x1, y1, dir) =
          (if flag d LBS_MULTICOLUMN
           then (if x < 0 then 0 else if x \<ge> lb_width d then lb_width d - 1 else x,
                 if y < 0 then 0 else if y \<ge> item_height d * page_size d then item_height d * page_size d - 1 else y,
                 if x < 0 then LB_TIMER_LEFT else if x \<ge> lb_width d then LB_TIMER_RIGHT else LB_TIMER_NONE)
           else (x, y, if y < 0 then LB_TIMER_UP else if y \<ge> lb_height d then LB_TIMER_DOWN else LB_TIMER_NONE));
        i \<leftarrow> LISTBOX_GetItemFromPoint d x1 y1;
        (go_on, d1) \<leftarrow> LISTBOX_HandleTimer env (if i = -1 then focus_item d else i) dir d;
        let dir1 = (if go_on then dir else LB_TIMER_NONE);
        let d2 = (if dir1 \<noteq> LB_TIMER_NONE then send SetTimer d1 else if LISTBOX_Timer d1 \<noteq> LB_TIMER_NONE then send KillTimer d1 else d1);
        Some (d2\<lparr>LISTBOX_Timer := dir1\<rparr>) })"

section \<open>Keyboard\<close>

definition VK_SPACE :: int where "VK_SPACE = 0x20"
definition VK_PRIOR :: int where "VK_PRIOR = 0x21"
definition VK_NEXT :: int where "VK_NEXT = 0x22"
definition VK_END :: int where "VK_END = 0x23"
definition VK_HOME :: int where "VK_HOME = 0x24"
definition VK_LEFT :: int where "VK_LEFT = 0x25"
definition VK_UP :: int where "VK_UP = 0x26"
definition VK_RIGHT :: int where "VK_RIGHT = 0x27"
definition VK_DOWN :: int where "VK_DOWN = 0x28"

text \<open>The items that a page has, in all of its columns.\<close>

definition page_items :: "LB_DESCR \<Rightarrow> int option" where
  "page_items d =
     (if flag d LBS_MULTICOLUMN then do { p \<leftarrow> divide (lb_width d) (column_width d); Some (max 1 p * page_size d) }
      else LISTBOX_GetCurrentPageSize d)"

text \<open>The switch on the key: the item it moves to or -1, whether the item with the focus is taken instead, and the state.\<close>

definition key_caret :: "lb_env \<Rightarrow> int \<Rightarrow> bool \<Rightarrow> LB_DESCR \<Rightarrow> (int \<times> bool \<times> LB_DESCR) option" where
  "key_caret env key force d =
     (let f = focus_item d; nb = nb_items d; columns = flag d LBS_MULTICOLUMN
      in if key = VK_LEFT \<and> columns then Some (if f \<ge> page_size d then f - page_size d else -1, False, d)
         else if key = VK_LEFT \<or> key = VK_UP then Some (if f - 1 < 0 then 0 else f - 1, force, d)
         else if key = VK_RIGHT \<and> columns then Some (min (f + page_size d) (nb - 1), False, d)
         else if key = VK_RIGHT \<or> key = VK_DOWN then Some (if f + 1 \<ge> nb then nb - 1 else f + 1, force, d)
         else if key = VK_PRIOR then do { p \<leftarrow> page_items d; let c = f - p + 1; Some (if c < 0 then 0 else c, force, d) }
         else if key = VK_NEXT then do { p \<leftarrow> page_items d; let c = f + p - 1; Some (if c \<ge> nb then nb - 1 else c, force, d) }
         else if key = VK_HOME then Some (0, force, d)
         else if key = VK_END then Some (nb - 1, force, d)
         else if key = VK_SPACE
         then (if flag d LBS_EXTENDEDSEL then Some (f, force, d)
               else if flag d LBS_MULTIPLESEL
               then do { s \<leftarrow> is_item_selected d f;
                         (_, d1) \<leftarrow> LISTBOX_SetSelection env f (\<not> s) (flag d LBS_NOTIFY) d;
                         Some (-1, force, d1) }
               else Some (-1, force, d))
         else Some (-1, False, d))"

definition LISTBOX_HandleKeyDown :: "lb_env \<Rightarrow> int \<Rightarrow> LB_DESCR \<Rightarrow> LB_DESCR option" where
  "LISTBOX_HandleKeyDown env key d =
     (let force = (\<not> (IS_MULTISELECT d \<or> selected_item d = focus_item d));
          asked = (if flag d LBS_WANTKEYBOARDINPUT then lb_vkeytoitem env key (focus_item d) else -1)
      in if asked = -2 then Some d
         else do {
           (c, force1, d1) \<leftarrow> (if asked = -1 then key_caret env key force d else Some (asked, force, d));
           let caret = (if force1 then focus_item d1 else c);
           if caret < 0 then Some d1
           else do {
             d2 \<leftarrow> LISTBOX_MoveCaret env caret True
                    (if (flag d1 LBS_EXTENDEDSEL \<and> \<not> lb_shift env) \<or> \<not> IS_MULTISELECT d1 then d1\<lparr>anchor_item := caret\<rparr> else d1);
             d3 \<leftarrow> (if flag d2 LBS_MULTIPLESEL then Some (d2\<lparr>selected_item := caret\<rparr>)
                    else map_option snd (LISTBOX_SetSelection env caret True False d2));
             Some (if flag d3 LBS_NOTIFY \<and> nb_items d3 \<noteq> 0 then send (Notify LBN_SELCHANGE) d3 else d3) } })"

definition LISTBOX_HandleChar :: "lb_env \<Rightarrow> int \<Rightarrow> LB_DESCR \<Rightarrow> LB_DESCR option" where
  "LISTBOX_HandleChar env c d =
     (let asked = (if flag d LBS_WANTKEYBOARDINPUT then lb_chartoitem env c (focus_item d) else -1)
      in if asked = -2 then Some d
         else do {
           caret \<leftarrow> (if asked = -1 then LISTBOX_FindString env d (focus_item d) (Some (if c = 0 then [] else [c])) (lb_stack env) False
                     else Some asked);
           if caret = -1 then Some d
           else do {
             d1 \<leftarrow> (if \<not> IS_MULTISELECT d \<and> selected_item d = -1 then map_option snd (LISTBOX_SetSelection env caret True False d) else Some d);
             d2 \<leftarrow> LISTBOX_MoveCaret env caret True d1;
             Some (if flag d2 LBS_NOTIFY \<and> nb_items d2 \<noteq> 0 then send (Notify LBN_SELCHANGE) d2 else d2) } })"

section \<open>Size, font and creation\<close>

definition LISTBOX_UpdateSize :: "int \<Rightarrow> int \<Rightarrow> LB_DESCR \<Rightarrow> LB_DESCR option" where
  "LISTBOX_UpdateSize width height d =
     do { let d1 = d\<lparr>lb_width := width, lb_height := height\<rparr>;
          remaining \<leftarrow> (if \<not> flag d1 LBS_NOINTEGRALHEIGHT \<and> \<not> flag d1 LBS_OWNERDRAWVARIABLE \<and> item_height d1 \<noteq> 0
                        then modulo (lb_height d1) (item_height d1) else Some 0);
          if lb_height d1 > item_height d1 \<and> remaining \<noteq> 0 then Some (send (SetHeight (lb_height d1 - remaining)) d1)
          else do { d2 \<leftarrow> LISTBOX_UpdatePage d1; d3 \<leftarrow> LISTBOX_UpdateScroll d2; LISTBOX_InvalidateItemRect (focus_item d3) d3 } }"

text \<open>The width of the alphabet and the height of the font, or none when there is no drawing context.\<close>

definition LISTBOX_SetFont :: "(int \<times> int) option \<Rightarrow> LB_DESCR \<Rightarrow> (int \<times> LB_DESCR) option" where
  "LISTBOX_SetFont sz d =
     (case sz of
        None \<Rightarrow> Some (16, d)
      | Some (cx, cy) \<Rightarrow>
          do { let d1 = d\<lparr>avg_char_width := c_div (c_div cx 26 + 1) 2\<rparr>;
               d2 \<leftarrow> (if \<not> IS_OWNERDRAW d1 then map_option snd (LISTBOX_SetItemHeight 0 cy False d1) else Some d1);
               Some (cy, d2) })"

text \<open>\<open>measured\<close> is the height that the owner answers, \<open>junk\<close> what the fresh block has for the width of a character, and \<open>timer\<close> the variable of the
  file, which all the listboxes share.\<close>

definition LISTBOX_Create :: "LBS set \<Rightarrow> int \<Rightarrow> int \<Rightarrow> (int \<times> int) option \<Rightarrow> (int \<Rightarrow> int) \<Rightarrow> int \<Rightarrow> TIMER_DIRECTION
    \<Rightarrow> LB_DESCR option" where
  "LISTBOX_Create styles width height sz measured junk timer =
     (let s1 = (if LBS_EXTENDEDSEL \<in> styles then insert LBS_MULTIPLESEL styles else styles);
          s2 = (if LBS_MULTICOLUMN \<in> s1 then s1 - {LBS_OWNERDRAWVARIABLE} else s1);
          s3 = (if LBS_OWNERDRAWVARIABLE \<in> s2 then insert LBS_NOINTEGRALHEIGHT s2 else s2);
          s4 = (if LBS_OWNERDRAWFIXED \<in> s3 \<and> LBS_HASSTRINGS \<notin> s3 \<and> LBS_SORT \<notin> s3 then s3 else s3 - {LBS_NODATA});
          d0 = \<lparr>style = s4, lb_width = width, lb_height = height, u_items = None, u_nodata = None, nb_items = 0, items_size = 0, top_item = 0,
                selected_item = -1, focus_item = 0, anchor_item = -1, item_height = 1, page_size = 1, column_width = 150, horz_extent = 0,
                horz_pos = 0, lb_tabs = [], avg_char_width = junk, wheel_remain = 0, captured = False, in_focus = False,
                LISTBOX_Timer = timer, lb_calls = []\<rparr>
      in do { (h, d1) \<leftarrow> LISTBOX_SetFont sz d0;
              let d2 = d1\<lparr>item_height := h\<rparr>;
              Some (if flag d2 LBS_OWNERDRAWFIXED
                    then d2\<lparr>style := style d2 - {LBS_OWNERDRAWVARIABLE}, item_height := (if measured h \<noteq> 0 then measured h else 1)\<rparr>
                    else d2) })"

section \<open>The window procedure\<close>

text \<open>The messages in three groups, of which each has its own switch.\<close>

datatype item_msg = LB_RESETCONTENT | LB_ADDSTRING "cstring option" int | LB_INSERTSTRING int "cstring option" int | LB_ADDFILE "cstring option" int
  | LB_DELETESTRING int | LB_GETITEMDATA int | LB_SETITEMDATA int int | LB_GETCOUNT | LB_GETTEXT int | LB_GETTEXTLEN int
  | LB_GETITEMHEIGHT int | LB_SETITEMHEIGHT int int | LB_FINDSTRING int "cstring option" int | LB_FINDSTRINGEXACT int "cstring option" int
  | LB_INITSTORAGE int | LB_SETCOUNT int | LB_SETTABSTOPS "int list"

datatype select_msg = LB_GETCURSEL | LB_SETCARETINDEX int int | LB_GETCARETINDEX | LB_SELECTSTRING int "cstring option" int | LB_GETSEL int
  | LB_SETSEL int int | LB_SETCURSEL int | LB_GETSELCOUNT | LB_GETSELITEMS int | LB_SELITEMRANGE bool int int | LB_SELITEMRANGEEX int int
  | LB_GETANCHORINDEX | LB_SETANCHORINDEX int

datatype view_msg = LB_GETTOPINDEX | LB_ITEMFROMPOINT int int | LB_SETTOPINDEX int | LB_SETCOLUMNWIDTH int int int | LB_GETITEMRECT int
  | LB_GETHORIZONTALEXTENT | LB_SETHORIZONTALEXTENT int | LB_GETLISTBOXINFO | WM_SETREDRAW bool | WM_SIZE int int
  | WM_SETFONT "(int \<times> int) option" | WM_SETFOCUS | WM_KILLFOCUS | WM_HSCROLL scroll_req | WM_VSCROLL scroll_req | WM_MOUSEWHEEL bool int
  | WM_LBUTTONDOWN bool bool int int | WM_LBUTTONDBLCLK | WM_MOUSEMOVE int int | WM_LBUTTONUP | WM_KEYDOWN int | WM_CHAR int | WM_TIMER

datatype lb_msg = Items item_msg | Selection select_msg | View view_msg

definition to_word :: "int \<Rightarrow> int" where
  "to_word x = x mod 65536"

definition LISTBOX_ItemFromPoint :: "LB_DESCR \<Rightarrow> int \<Rightarrow> int \<Rightarrow> int option" where
  "LISTBOX_ItemFromPoint d x y =
     (if nb_items d = 0 then Some 0x1ffff
      else do {
        let inside = (0 \<le> x \<and> x < lb_width d \<and> 0 \<le> y \<and> y < lb_height d);
        let px = (if inside then x else max (min x (lb_width d - 1)) 0);
        let py = (if inside then y else max (min y (lb_height d - 1)) 0);
        i \<leftarrow> LISTBOX_GetItemFromPoint d px py;
        Some (to_word (if i = -1 then nb_items d - 1 else i) + 65536 * (if inside \<and> i \<noteq> -1 then 0 else 1)) })"

abbreviation answer :: "LB_DESCR \<Rightarrow> int option \<Rightarrow> (int \<times> LB_DESCR) option" where
  "answer d r \<equiv> map_option (\<lambda>v. (v, d)) r"

abbreviation then_0 :: "LB_DESCR option \<Rightarrow> (int \<times> LB_DESCR) option" where
  "then_0 r \<equiv> map_option (Pair 0) r"

text \<open>The return value of \<open>LISTBOX_SetColumnWidth\<close> and \<open>LISTBOX_SetTopItem\<close> is \<open>LB_OKAY\<close>.\<close>

fun lb_items_proc :: "lb_env \<Rightarrow> item_msg \<Rightarrow> LB_DESCR \<Rightarrow> (int \<times> LB_DESCR) option" where
  "lb_items_proc env LB_RESETCONTENT d = then_0 (reset_content d)"
| "lb_items_proc env (LB_ADDSTRING str data) d = do { i \<leftarrow> LISTBOX_FindStringPos env d str data False; LISTBOX_InsertString env i str data d }"
| "lb_items_proc env (LB_INSERTSTRING i str data) d = LISTBOX_InsertString env i str data d"
| "lb_items_proc env (LB_ADDFILE str data) d = do { i \<leftarrow> LISTBOX_FindFileStrPos env d str data; LISTBOX_InsertString env i str data d }"
| "lb_items_proc env (LB_DELETESTRING i) d =
     do { (r, d1) \<leftarrow> LISTBOX_RemoveItem env i d; Some (if r \<noteq> LB_ERR then nb_items d1 else LB_ERR, d1) }"
| "lb_items_proc env (LB_GETITEMDATA i) d = answer d (if i < 0 \<or> i \<ge> nb_items d then Some LB_ERR else get_item_data d i)"
| "lb_items_proc env (LB_SETITEMDATA i v) d =
     (if i < 0 \<or> i \<ge> nb_items d then Some (LB_ERR, d) else map_option (Pair 1) (set_item_data i v d))"
| "lb_items_proc env LB_GETCOUNT d = Some (nb_items d, d)"
| "lb_items_proc env (LB_GETTEXT i) d = answer d (map_option fst (LISTBOX_GetText d i))"
| "lb_items_proc env (LB_GETTEXTLEN i) d =
     answer d (if i \<ge> nb_items d \<or> i < 0 then Some LB_ERR
               else if \<not> HAS_STRINGS d then Some 8 else do { q \<leftarrow> get_item_string d i; s \<leftarrow> q; Some (int (length s)) })"
| "lb_items_proc env (LB_GETITEMHEIGHT i) d = answer d (LISTBOX_GetItemHeight d i)"
| "lb_items_proc env (LB_SETITEMHEIGHT i h) d = LISTBOX_SetItemHeight i h True d"
| "lb_items_proc env (LB_FINDSTRING i str data) d = answer d (LISTBOX_FindString env d i str data False)"
| "lb_items_proc env (LB_FINDSTRINGEXACT i str data) d = answer d (LISTBOX_FindString env d i str data True)"
| "lb_items_proc env (LB_INITSTORAGE n) d = Some (LISTBOX_InitStorage env n d)"
| "lb_items_proc env (LB_SETCOUNT n) d = LISTBOX_SetCount env n d"
| "lb_items_proc env (LB_SETTABSTOPS tabs) d = (let (ok, d1) = LISTBOX_SetTabStops env tabs d in Some (if ok then 1 else 0, d1))"

fun lb_select_proc :: "lb_env \<Rightarrow> select_msg \<Rightarrow> LB_DESCR \<Rightarrow> (int \<times> LB_DESCR) option" where
  "lb_select_proc env LB_GETCURSEL d =
     Some (if nb_items d = 0 then LB_ERR
           else if \<not> IS_MULTISELECT d then selected_item d else if selected_item d \<noteq> -1 then selected_item d else focus_item d, d)"
| "lb_select_proc env (LB_SETCARETINDEX i l) d =
     (if \<not> IS_MULTISELECT d \<and> selected_item d \<noteq> -1 then Some (LB_ERR, d) else LISTBOX_SetCaretIndex env i (l = 0) d)"
| "lb_select_proc env LB_GETCARETINDEX d = Some (focus_item d, d)"
| "lb_select_proc env (LB_SELECTSTRING start str data) d =
     do { i \<leftarrow> LISTBOX_FindString env d start str data False;
          if i = LB_ERR then Some (i, d)
          else do { d1 \<leftarrow> LISTBOX_MoveCaret env i True d; (_, d2) \<leftarrow> LISTBOX_SetSelection env i True False d1; Some (i, d2) } }"
| "lb_select_proc env (LB_GETSEL i) d =
     answer d (if i < 0 \<or> i \<ge> nb_items d then Some LB_ERR else map_option (\<lambda>s. if s then 1 else 0) (is_item_selected d i))"
| "lb_select_proc env (LB_SETSEL on i) d =
     do { (ret, d1) \<leftarrow> LISTBOX_SetSelection env i (on \<noteq> 0) False d;
          if ret \<noteq> LB_ERR \<and> on \<noteq> 0
          then (let d2 = d1\<lparr>anchor_item := i\<rparr>
                in if i \<noteq> -1 then map_option (\<lambda>r. (ret, snd r)) (LISTBOX_SetCaretIndex env i True d2) else Some (ret, d2))
          else Some (ret, d1) }"
| "lb_select_proc env (LB_SETCURSEL i) d =
     (if IS_MULTISELECT d then Some (LB_ERR, d)
      else do { (_, d1) \<leftarrow> LISTBOX_SetCaretIndex env i True d;
                (ret, d2) \<leftarrow> LISTBOX_SetSelection env i True False d1;
                Some (if ret \<noteq> LB_ERR then selected_item d2 else ret, d2) })"
| "lb_select_proc env LB_GETSELCOUNT d = answer d (LISTBOX_GetSelCount d)"
| "lb_select_proc env (LB_GETSELITEMS room) d = answer d (map_option fst (LISTBOX_GetSelItems d room))"
| "lb_select_proc env (LB_SELITEMRANGE on lo hi) d =
     (if to_word lo \<le> to_word hi then LISTBOX_SelectItemRange (to_word lo) (to_word hi) on d
      else LISTBOX_SelectItemRange (to_word hi) (to_word lo) on d)"
| "lb_select_proc env (LB_SELITEMRANGEEX w l) d =
     (if l \<ge> w then LISTBOX_SelectItemRange w l True d else LISTBOX_SelectItemRange l w False d)"
| "lb_select_proc env LB_GETANCHORINDEX d = Some (anchor_item d, d)"
| "lb_select_proc env (LB_SETANCHORINDEX i) d =
     Some (if i < -1 \<or> i \<ge> nb_items d then (LB_ERR, d) else (LB_OKAY, d\<lparr>anchor_item := i\<rparr>))"

fun lb_view_proc :: "lb_env \<Rightarrow> view_msg \<Rightarrow> LB_DESCR \<Rightarrow> (int \<times> LB_DESCR) option" where
  "lb_view_proc env LB_GETTOPINDEX d = Some (top_item d, d)"
| "lb_view_proc env (LB_ITEMFROMPOINT x y) d = answer d (LISTBOX_ItemFromPoint d x y)"
| "lb_view_proc env (LB_SETTOPINDEX i) d = map_option (Pair LB_OKAY) (LISTBOX_SetTopItem i d)"
| "lb_view_proc env (LB_SETCOLUMNWIDTH w h c) d = map_option (Pair LB_OKAY) (LISTBOX_SetColumnWidth w h c d)"
| "lb_view_proc env (LB_GETITEMRECT i) d = answer d (map_option fst (LISTBOX_GetItemRect d i))"
| "lb_view_proc env LB_GETHORIZONTALEXTENT d = Some (horz_extent d, d)"
| "lb_view_proc env (LB_SETHORIZONTALEXTENT e) d = map_option (Pair LB_OKAY) (LISTBOX_SetHorizontalExtent e d)"
| "lb_view_proc env LB_GETLISTBOXINFO d = Some (page_size d, d)"
| "lb_view_proc env (WM_SETREDRAW on) d = then_0 (LISTBOX_SetRedraw on d)"
| "lb_view_proc env (WM_SIZE w h) d = then_0 (LISTBOX_UpdateSize w h d)"
| "lb_view_proc env (WM_SETFONT sz) d = map_option (\<lambda>r. (0, snd r)) (LISTBOX_SetFont sz d)"
| "lb_view_proc env WM_SETFOCUS d = then_0 (gets_focus env d)"
| "lb_view_proc env WM_KILLFOCUS d =
     do { let d1 = (LISTBOX_HandleLButtonUp env d)\<lparr>in_focus := False, wheel_remain := 0\<rparr>;
          d2 \<leftarrow> (if focus_item d1 \<noteq> -1 then LISTBOX_RepaintItem env (focus_item d1) d1 else Some d1);
          Some (0, send (Notify LBN_KILLFOCUS) d2) }"
| "lb_view_proc env (WM_HSCROLL req) d = then_0 (LISTBOX_HandleHScroll req d)"
| "lb_view_proc env (WM_VSCROLL req) d = then_0 (LISTBOX_HandleVScroll req d)"
| "lb_view_proc env (WM_MOUSEWHEEL keys delta) d = (if keys then Some (0, d) else then_0 (LISTBOX_HandleMouseWheel delta d))"
| "lb_view_proc env (WM_LBUTTONDOWN shift control x y) d = then_0 (LISTBOX_HandleLButtonDown env shift control (to_word x) (to_word y) d)"
| "lb_view_proc env WM_LBUTTONDBLCLK d = Some (0, if flag d LBS_NOTIFY then send (Notify LBN_DBLCLK) d else d)"
| "lb_view_proc env (WM_MOUSEMOVE x y) d =
     then_0 (if lb_capture env then LISTBOX_HandleMouseMove env (to_word x) (to_word y) d else Some d)"
| "lb_view_proc env WM_LBUTTONUP d = Some (0, LISTBOX_HandleLButtonUp env d)"
| "lb_view_proc env (WM_KEYDOWN key) d = then_0 (LISTBOX_HandleKeyDown env key d)"
| "lb_view_proc env (WM_CHAR c) d = then_0 (LISTBOX_HandleChar env c d)"
| "lb_view_proc env WM_TIMER d = then_0 (LISTBOX_HandleSystemTimer env d)"

fun LISTBOX_WindowProc :: "lb_env \<Rightarrow> lb_msg \<Rightarrow> LB_DESCR \<Rightarrow> (int \<times> LB_DESCR) option" where
  "LISTBOX_WindowProc env (Items msg) d = lb_items_proc env msg d"
| "LISTBOX_WindowProc env (Selection msg) d = lb_select_proc env msg d"
| "LISTBOX_WindowProc env (View msg) d = lb_view_proc env msg d"

end
