(* ===== verification/Listbox_Laws.thy ===== *)
theory Listbox_Laws
  imports Listbox_Proc
begin

text \<open>
  The invariant of a listbox, and that the operations on its page and its storage come back without a fault and keep it.
\<close>

section \<open>Results without a fault\<close>

definition fine :: "('a \<Rightarrow> bool) \<Rightarrow> 'a option \<Rightarrow> bool" where
  "fine P r \<longleftrightarrow> (\<exists>x. r = Some x \<and> P x)"

named_theorems fine_rules \<open>operations that come back without a fault\<close>

lemma fine_Some [simp]: "fine P (Some x) \<longleftrightarrow> P x"
  by (simp add: fine_def)

lemma fine_None [simp]: "\<not> fine P None"
  by (simp add: fine_def)

lemma fine_bind: "fine Q r \<Longrightarrow> (\<And>x. Q x \<Longrightarrow> fine P (f x)) \<Longrightarrow> fine P (Option.bind r f)"
  by (auto simp: fine_def)

lemma fine_map: "fine (\<lambda>x. P (f x)) r \<Longrightarrow> fine P (map_option f r)"
  by (auto simp: fine_def)

lemma fine_mono: "fine Q r \<Longrightarrow> (\<And>x. Q x \<Longrightarrow> P x) \<Longrightarrow> fine P r"
  by (auto simp: fine_def)

lemma fine_if: "(b \<Longrightarrow> fine P r) \<Longrightarrow> (\<not> b \<Longrightarrow> fine P s) \<Longrightarrow> fine P (if b then r else s)"
  by simp

lemma fineD: "fine P r \<Longrightarrow> r = Some x \<Longrightarrow> P x"
  by (simp add: fine_def)

lemma fineE: "fine P r \<Longrightarrow> (\<And>x. r = Some x \<Longrightarrow> P x \<Longrightarrow> R) \<Longrightarrow> R"
  by (auto simp: fine_def)

section \<open>The invariant\<close>

definition cells_ok :: "'b list option \<Rightarrow> int \<Rightarrow> bool" where
  "cells_ok u n \<longleftrightarrow> (case u of None \<Rightarrow> n = 0 | Some xs \<Rightarrow> int (length xs) = n)"

definition storage_ok :: "LB_DESCR \<Rightarrow> bool" where
  "storage_ok d \<longleftrightarrow>
     (if flag d LBS_NODATA then u_items d = None \<and> (if multi d then cells_ok (u_nodata d) (items_size d) else u_nodata d = None)
      else u_nodata d = None \<and> cells_ok (u_items d) (items_size d))"

text \<open>The items, for a listbox that stores them.\<close>

definition items :: "LB_DESCR \<Rightarrow> LB_ITEMDATA list" where
  "items d = (case u_items d of None \<Rightarrow> [] | Some xs \<Rightarrow> take (nat (nb_items d)) xs)"

definition strings_ok :: "LB_DESCR \<Rightarrow> bool" where
  "strings_ok d \<longleftrightarrow> (HAS_STRINGS d \<longrightarrow> \<not> flag d LBS_NODATA \<and> (\<forall>it\<in>set (items d). it_str it \<noteq> None))"

text \<open>What the operations on the page rely on, and with the place of the caret what every message keeps.\<close>

definition core :: "LB_DESCR \<Rightarrow> bool" where
  "core d \<longleftrightarrow> 0 \<le> nb_items d \<and> nb_items d \<le> items_size d \<and> items_size d < 2147483648 \<and> storage_ok d \<and> strings_ok d
     \<and> 1 \<le> page_size d \<and> item_height d \<noteq> 0 \<and> (flag d LBS_MULTICOLUMN \<longrightarrow> column_width d \<noteq> 0)
     \<and> 0 \<le> top_item d \<and> (flag d LBS_OWNERDRAWVARIABLE \<longrightarrow> top_item d \<le> nb_items d \<and> \<not> flag d LBS_NODATA)
     \<and> (flag d LBS_EXTENDEDSEL \<longrightarrow> flag d LBS_MULTIPLESEL)"

definition lb_ok :: "LB_DESCR \<Rightarrow> bool" where
  "lb_ok d \<longleftrightarrow> core d \<and> 0 \<le> focus_item d \<and> focus_item d \<le> max 0 (nb_items d - 1)
     \<and> (flag d LBS_MULTIPLESEL \<or> flag d LBS_NOSEL \<or> (-1 \<le> selected_item d \<and> selected_item d < nb_items d))"

lemmas style_defs = flag_def multi_def HAS_STRINGS_def IS_OWNERDRAW_def IS_MULTISELECT_def

text \<open>The fields of the items, the selection and the caret, which the operations on the page leave alone.\<close>

definition rest :: "LB_DESCR \<Rightarrow> int \<times> int \<times> LB_ITEMDATA list option \<times> bool list option \<times> int \<times> int \<times> int \<times> LBS set" where
  "rest d = (nb_items d, items_size d, u_items d, u_nodata d, selected_item d, focus_item d, anchor_item d, style d - {LBS_DISPLAYCHANGED})"

lemma rest_flag: "rest d' = rest d \<Longrightarrow> f \<noteq> LBS_DISPLAYCHANGED \<Longrightarrow> flag d' f = flag d f"
  by (auto simp: rest_def flag_def)

lemma rest_fields:
  assumes "rest d' = rest d"
  shows "nb_items d' = nb_items d" "items_size d' = items_size d" "u_items d' = u_items d" "u_nodata d' = u_nodata d"
    "selected_item d' = selected_item d" "focus_item d' = focus_item d" "anchor_item d' = anchor_item d"
  using assms by (simp_all add: rest_def)

lemma rest_style:
  assumes "rest d' = rest d"
  shows "multi d' = multi d" "HAS_STRINGS d' = HAS_STRINGS d" "IS_OWNERDRAW d' = IS_OWNERDRAW d" "IS_MULTISELECT d' = IS_MULTISELECT d"
  by (simp_all add: multi_def HAS_STRINGS_def IS_OWNERDRAW_def IS_MULTISELECT_def rest_flag [OF assms])

lemma rest_items: "rest d' = rest d \<Longrightarrow> items d' = items d"
  by (auto simp: rest_def items_def split: option.splits)

lemmas restD = rest_fields rest_style rest_items

lemma flag_simps [simp]:
  "flag (d\<lparr>lb_calls := c\<rparr>) f = flag d f" "flag (d\<lparr>top_item := t\<rparr>) f = flag d f" "flag (d\<lparr>nb_items := n\<rparr>) f = flag d f"
  "flag (d\<lparr>selected_item := t\<rparr>) f = flag d f" "flag (d\<lparr>focus_item := t\<rparr>) f = flag d f" "flag (d\<lparr>anchor_item := t\<rparr>) f = flag d f"
  "flag (d\<lparr>u_items := x\<rparr>) f = flag d f" "flag (d\<lparr>u_nodata := y\<rparr>) f = flag d f" "flag (d\<lparr>items_size := t\<rparr>) f = flag d f"
  "flag (d\<lparr>horz_pos := t\<rparr>) f = flag d f" "flag (d\<lparr>horz_extent := t\<rparr>) f = flag d f" "flag (d\<lparr>page_size := t\<rparr>) f = flag d f"
  "flag (d\<lparr>lb_width := t\<rparr>) f = flag d f" "flag (d\<lparr>lb_height := t\<rparr>) f = flag d f" "flag (d\<lparr>column_width := t\<rparr>) f = flag d f"
  "flag (d\<lparr>item_height := t\<rparr>) f = flag d f" "flag (d\<lparr>lb_tabs := l\<rparr>) f = flag d f" "flag (d\<lparr>avg_char_width := t\<rparr>) f = flag d f"
  "flag (d\<lparr>wheel_remain := t\<rparr>) f = flag d f" "flag (d\<lparr>captured := b\<rparr>) f = flag d f" "flag (d\<lparr>in_focus := b\<rparr>) f = flag d f"
  "flag (d\<lparr>LISTBOX_Timer := dir\<rparr>) f = flag d f" "flag (send call d) f = flag d f"
  by (simp_all add: flag_def send_def)

lemma send_simps [simp]:
  "nb_items (send c d) = nb_items d" "items_size (send c d) = items_size d" "u_items (send c d) = u_items d" "u_nodata (send c d) = u_nodata d"
  "selected_item (send c d) = selected_item d" "focus_item (send c d) = focus_item d" "anchor_item (send c d) = anchor_item d"
  "top_item (send c d) = top_item d" "page_size (send c d) = page_size d" "item_height (send c d) = item_height d" "column_width (send c d) = column_width d"
  "style (send c d) = style d" "lb_width (send c d) = lb_width d" "lb_height (send c d) = lb_height d" "horz_extent (send c d) = horz_extent d"
  "horz_pos (send c d) = horz_pos d"
  by (simp_all add: send_def)

lemmas core_unfold = core_def storage_ok_def strings_ok_def items_def multi_def HAS_STRINGS_def IS_OWNERDRAW_def

lemma core_simps [simp]:
  "core (d\<lparr>lb_calls := c\<rparr>) = core d" "core (d\<lparr>selected_item := t\<rparr>) = core d" "core (d\<lparr>focus_item := t\<rparr>) = core d" "core (d\<lparr>anchor_item := t\<rparr>) = core d"
  "core (d\<lparr>horz_pos := t\<rparr>) = core d" "core (d\<lparr>horz_extent := t\<rparr>) = core d" "core (d\<lparr>lb_width := t\<rparr>) = core d" "core (d\<lparr>lb_height := t\<rparr>) = core d"
  "core (d\<lparr>lb_tabs := l\<rparr>) = core d" "core (d\<lparr>avg_char_width := t\<rparr>) = core d" "core (d\<lparr>wheel_remain := t\<rparr>) = core d" "core (d\<lparr>captured := b\<rparr>) = core d"
  "core (d\<lparr>in_focus := b\<rparr>) = core d" "core (d\<lparr>LISTBOX_Timer := dir\<rparr>) = core d" "core (send call d) = core d"
  by (simp_all add: core_unfold)

lemma core_top: "core d \<Longrightarrow> 0 \<le> t \<Longrightarrow> (flag d LBS_OWNERDRAWVARIABLE \<Longrightarrow> t \<le> nb_items d) \<Longrightarrow> core (d\<lparr>top_item := t\<rparr>)"
  by (simp add: core_unfold)

lemma rest_simps [simp]:
  "rest (d\<lparr>lb_calls := c\<rparr>) = rest d" "rest (d\<lparr>top_item := t\<rparr>) = rest d" "rest (send call d) = rest d" "rest (d\<lparr>horz_pos := t\<rparr>) = rest d"
  "rest (d\<lparr>page_size := t\<rparr>) = rest d" "rest (d\<lparr>item_height := t\<rparr>) = rest d" "rest (d\<lparr>column_width := t\<rparr>) = rest d"
  "rest (d\<lparr>lb_width := t\<rparr>) = rest d" "rest (d\<lparr>lb_height := t\<rparr>) = rest d" "rest (d\<lparr>horz_extent := t\<rparr>) = rest d" "rest (d\<lparr>wheel_remain := t\<rparr>) = rest d"
  "rest (d\<lparr>captured := b\<rparr>) = rest d" "rest (d\<lparr>in_focus := b\<rparr>) = rest d" "rest (d\<lparr>LISTBOX_Timer := dir\<rparr>) = rest d" "rest (d\<lparr>lb_tabs := l\<rparr>) = rest d"
  "rest (d\<lparr>avg_char_width := t\<rparr>) = rest d"
  by (simp_all add: rest_def send_def)

section \<open>The page\<close>

lemma divide_fine: "y \<noteq> 0 \<Longrightarrow> divide x y = Some (c_div x y)"
  by (simp add: divide_def)

lemma modulo_fine: "y \<noteq> 0 \<Longrightarrow> modulo x y = Some (x - y * c_div x y)"
  by (simp add: modulo_def)

lemma item_height_fine: "core d \<Longrightarrow> 0 \<le> i \<Longrightarrow> i < items_size d \<Longrightarrow> fine (\<lambda>_. True) (get_item_height d i)"
  by (auto simp: core_def storage_ok_def cells_ok_def get_item_height_def cell_def split: option.splits if_splits)

lemma page_end_fine: "core d \<Longrightarrow> 0 \<le> i \<Longrightarrow> fine (\<lambda>j. i \<le> j) (page_end d i h)"
proof (induction d i h rule: page_end.induct)
  case (1 d i h)
  show ?case
  proof (cases "i < nb_items d")
    case True
    then obtain k where k: "get_item_height d i = Some k" using item_height_fine [of d i] 1(2,3) by (auto simp: core_def elim: fineE)
    show ?thesis
    proof (cases "h + k > lb_height d")
      case False
      have "fine ((\<le>) (i + 1)) (page_end d (i + 1) (h + k))" using 1(1) [OF True k] False 1(2,3) by simp
      then have "fine ((\<le>) i) (page_end d (i + 1) (h + k))" by (rule fine_mono) simp
      then show ?thesis using True k False by (subst page_end.simps) simp
    qed (use True k in \<open>subst page_end.simps, simp\<close>)
  qed (subst page_end.simps, simp)
qed

lemma page_start_fine: "core d \<Longrightarrow> m < nb_items d \<Longrightarrow> -1 \<le> m \<Longrightarrow> fine (\<lambda>j. -1 \<le> j \<and> j \<le> m) (page_start d m p)"
proof (induction d m p rule: page_start.induct)
  case (1 d m p)
  show ?case
  proof (cases "m \<ge> 0")
    case True
    then obtain k where k: "get_item_height d m = Some k" using item_height_fine [of d m] 1(2,3) by (auto simp: core_def elim: fineE)
    show ?thesis
    proof (cases "p - k < 0")
      case False
      have "fine (\<lambda>j. -1 \<le> j \<and> j \<le> m - 1) (page_start d (m - 1) (p - k))" using 1(1) [OF True k] False 1(2,3) True by simp
      then have "fine (\<lambda>j. -1 \<le> j \<and> j \<le> m) (page_start d (m - 1) (p - k))" by (rule fine_mono) simp
      then show ?thesis using True k False by (subst page_start.simps) simp
    qed (use True k in \<open>subst page_start.simps, simp\<close>)
  qed (use 1(4) in \<open>subst page_start.simps, simp\<close>)
qed

lemma GetCurrentPageSize_fine: "core d \<Longrightarrow> fine (\<lambda>p. 1 \<le> p) (LISTBOX_GetCurrentPageSize d)"
  using page_end_fine [of d "top_item d" 0]
  by (auto simp: LISTBOX_GetCurrentPageSize_def core_def intro!: fine_bind elim: fineE)

lemma GetMaxTopIndex_fine:
  assumes "core d"
  shows "fine (\<lambda>m. 0 \<le> m \<and> (flag d LBS_OWNERDRAWVARIABLE \<longrightarrow> m \<le> nb_items d)) (LISTBOX_GetMaxTopIndex d)"
proof (cases "flag d LBS_OWNERDRAWVARIABLE")
  case True
  obtain m where "page_start d (nb_items d - 1) (lb_height d) = Some m" "m \<le> nb_items d - 1"
    using page_start_fine [OF assms, of "nb_items d - 1" "lb_height d"] assms by (auto simp: core_def elim: fineE)
  then show ?thesis using True assms by (simp add: LISTBOX_GetMaxTopIndex_def core_def)
next
  case False
  then show ?thesis using assms by (simp add: LISTBOX_GetMaxTopIndex_def core_def divide_fine)
qed

lemma UpdateScroll_fine: "core d \<Longrightarrow> fine (\<lambda>d'. core d' \<and> rest d' = rest d) (LISTBOX_UpdateScroll d)"
  unfolding LISTBOX_UpdateScroll_def Let_def
  by (intro fine_if fine_bind [OF GetCurrentPageSize_fine]) (auto simp: divide_fine core_def [of d])

lemma SetTopItem_fine:
  assumes "core d"
  shows "fine (\<lambda>d'. core d' \<and> rest d' = rest d) (LISTBOX_SetTopItem i d)"
proof -
  obtain m where m: "LISTBOX_GetMaxTopIndex d = Some m" "0 \<le> m" "flag d LBS_OWNERDRAWVARIABLE \<longrightarrow> m \<le> nb_items d"
    using GetMaxTopIndex_fine [OF assms] by (auto elim: fineE)
  have page: "1 \<le> page_size d" using assms by (simp add: core_def)
  define t where "t = (if flag d LBS_MULTICOLUMN then max 0 (min i m) - (max 0 (min i m) - page_size d * c_div (max 0 (min i m)) (page_size d)) else max 0 (min i m))"
  have c: "c_div x (page_size d) = x div page_size d" if "0 \<le> x" for x
    using that page by (cases "x = 0") (simp_all add: c_div_def)
  have "page_size d * (x div page_size d) \<le> x" for x
    using mult_div_mod_eq [of "page_size d" x] pos_mod_sign [of "page_size d" x] page by linarith
  then have "0 \<le> t" "t \<le> max 0 (min i m)"
    using page pos_imp_zdiv_nonneg_iff [of "page_size d" "max 0 (min i m)"] by (auto simp: t_def c)
  then have "core (d\<lparr>top_item := t\<rparr>)" using m assms by (intro core_top) auto
  then have "fine (\<lambda>d'. core d' \<and> rest d' = rest d) (LISTBOX_UpdateScroll (d\<lparr>top_item := t\<rparr>))" using UpdateScroll_fine by fastforce
  moreover have "LISTBOX_SetTopItem i d = (if top_item d = t then Some d else LISTBOX_UpdateScroll (d\<lparr>top_item := t\<rparr>))"
    using m(1) page by (cases "flag d LBS_MULTICOLUMN") (simp_all add: LISTBOX_SetTopItem_def t_def modulo_fine Let_def)
  ultimately show ?thesis using assms by simp
qed

lemma UpdatePage_fine:
  assumes "core d"
  shows "fine (\<lambda>d'. core d' \<and> rest d' = rest d) (LISTBOX_UpdatePage d)"
proof -
  have "core (d\<lparr>page_size := p\<rparr>)" if "1 \<le> p" for p using assms that by (simp add: core_unfold)
  from SetTopItem_fine [OF this] show ?thesis using assms by (auto simp: LISTBOX_UpdatePage_def Let_def)
qed

lemma sum_heights_fine: "core d \<Longrightarrow> 0 \<le> i \<Longrightarrow> i + int n \<le> items_size d \<Longrightarrow> fine (\<lambda>_. True) (sum_heights d i n)"
proof (induction n arbitrary: i)
  case (Suc n)
  have "fine (\<lambda>_. True) (get_item_height d i)" "fine (\<lambda>_. True) (sum_heights d (i + 1) n)"
    using Suc by (auto intro: item_height_fine)
  then show ?case by (auto elim!: fineE)
qed simp

lemma GetItemRect_fine:
  assumes "core d"
  shows "fine (\<lambda>_. True) (LISTBOX_GetItemRect d i)"
proof -
  have "fine (\<lambda>_. True) (item_rect d i)" if "flag d LBS_OWNERDRAWVARIABLE" "0 \<le> i" "i < nb_items d" "\<not> flag d LBS_MULTICOLUMN"
  proof -
    have b: "nb_items d \<le> items_size d" "top_item d \<le> nb_items d" "0 \<le> top_item d" using assms that by (auto simp: core_def)
    then have "fine (\<lambda>_. True) (get_item_height d i)" "i < top_item d \<Longrightarrow> fine (\<lambda>_. True) (sum_heights d i (nat (top_item d - i)))"
      "\<not> i < top_item d \<Longrightarrow> fine (\<lambda>_. True) (sum_heights d (top_item d) (nat (i - top_item d)))"
      using assms that by (auto intro!: item_height_fine sum_heights_fine)
    then show ?thesis using that by (cases "i < top_item d") (auto simp: item_rect_def elim!: fineE)
  qed
  then have "fine (\<lambda>_. True) (item_rect d i)" if "i = 0 \<or> i < nb_items d"
    using assms that by (cases "flag d LBS_MULTICOLUMN"; cases "flag d LBS_OWNERDRAWVARIABLE"; cases "0 \<le> i \<and> i < nb_items d")
      (auto simp: item_rect_def divide_fine modulo_fine core_def Let_def)
  then show ?thesis by (auto simp: LISTBOX_GetItemRect_def intro!: fine_bind)
qed

lemma core_display: "core d \<Longrightarrow> core (display_changed d) \<and> rest (display_changed d) = rest d"
  by (auto simp: display_changed_def core_unfold flag_def rest_def)

lemma InvalidateItemRect_fine: "core d \<Longrightarrow> fine (\<lambda>d'. d' = d) (LISTBOX_InvalidateItemRect i d)"
  using GetItemRect_fine [of d i] by (auto simp: LISTBOX_InvalidateItemRect_def elim: fineE)

lemma InvalidateItems_fine: "core d \<Longrightarrow> fine (\<lambda>d'. core d' \<and> rest d' = rest d) (LISTBOX_InvalidateItems i d)"
  using GetItemRect_fine [of d i] by (auto simp: LISTBOX_InvalidateItems_def core_display elim!: fineE)

lemma RepaintItem_fine: "core d \<Longrightarrow> fine (\<lambda>d'. core d' \<and> rest d' = rest d) (LISTBOX_RepaintItem env i d)"
  using InvalidateItemRect_fine [of d i] by (auto simp: LISTBOX_RepaintItem_def core_display elim: fine_mono)

lemma DrawFocusRect_fine: "core d \<Longrightarrow> fine (\<lambda>d'. d' = d) (LISTBOX_DrawFocusRect env d)"
  using InvalidateItemRect_fine [of d] by (auto simp: LISTBOX_DrawFocusRect_def)

lemma fit_above_fine: "core d \<Longrightarrow> t \<le> nb_items d \<Longrightarrow> fine (\<lambda>_. True) (fit_above d t h)"
proof (induction d t h rule: fit_above.induct)
  case (1 d t h)
  show ?case
  proof (cases "t > top_item d")
    case True
    then obtain k where k: "get_item_height d (t - 1) = Some k"
      using item_height_fine [of d "t - 1"] 1(2,3) by (auto simp: core_def elim: fineE)
    show ?thesis using 1(1) [OF True k] 1(2,3) True k by (subst fit_above.simps) simp
  qed (subst fit_above.simps, simp)
qed

lemma MakeItemVisible_fine:
  assumes "core d" "0 \<le> i" "i < nb_items d"
  shows "fine (\<lambda>d'. core d' \<and> rest d' = rest d) (LISTBOX_MakeItemVisible i fully d)"
proof -
  have "fine (\<lambda>_. True) (get_item_height d i)" using assms by (intro item_height_fine) (auto simp: core_def)
  then obtain h where h: "get_item_height d i = Some h" by (auto elim: fineE)
  have "fine (\<lambda>_. True) (fit_above d i k)" for k using assms by (intro fit_above_fine) auto
  then have f: "fine (\<lambda>_. True) (map_option Some (fit_above d i k))" for k by (simp add: fine_map)
  have c: "flag d LBS_MULTICOLUMN \<longrightarrow> column_width d \<noteq> 0" using assms by (simp add: core_def)
  show ?thesis unfolding LISTBOX_MakeItemVisible_def
    by (rule fine_bind [where Q = "\<lambda>_. True"])
      (auto simp: h f c divide_fine Let_def assms SetTopItem_fine [OF assms(1)] split: option.splits)
qed

end
