(* ===== verification/Listbox_Store.thy ===== *)
theory Listbox_Store
  imports Listbox_Laws
begin

text \<open>
  The storage of a listbox as a list: growing and shrinking keep the items, and the moves of cells with the settings of one cell
  insert an item into the list and remove one from it.
\<close>

text \<open>The marks of the selected items, for a listbox without data.\<close>

definition marks :: "LB_DESCR \<Rightarrow> bool list" where
  "marks d = (case u_nodata d of None \<Rightarrow> [] | Some bs \<Rightarrow> take (nat (nb_items d)) bs)"

section \<open>Growing and shrinking\<close>

definition first_cells :: "int \<Rightarrow> 'b list option \<Rightarrow> 'b list" where
  "first_cells n u = (case u of None \<Rightarrow> [] | Some xs \<Rightarrow> take (nat n) xs)"

lemma items_first_cells: "items d = first_cells (nb_items d) (u_items d)"
  by (simp add: items_def first_cells_def)

lemma marks_first_cells: "marks d = first_cells (nb_items d) (u_nodata d)"
  by (simp add: marks_def first_cells_def)

lemma realloc_cells_length [simp]: "length (realloc_cells junk n u) = n"
  by (simp add: realloc_cells_def Let_def split: option.splits)

lemma realloc_cells_first: "cells_ok u s \<Longrightarrow> m \<le> s \<Longrightarrow> m \<le> int n \<Longrightarrow> first_cells m (Some (realloc_cells junk n u)) = first_cells m u"
  by (auto simp: realloc_cells_def first_cells_def cells_ok_def split: option.splits)

definition room :: "int \<Rightarrow> int \<Rightarrow> int" where
  "room n s = (if n > s \<or> n + 32 < s then (n + 15) div 16 * 16 else s)"

lemma room_bounds: "0 \<le> n \<Longrightarrow> n \<le> 2147483632 \<Longrightarrow> s < 2147483648 \<Longrightarrow> n \<le> room n s \<and> room n s < 2147483648"
  by (auto simp: room_def)

text \<open>A change of the storage alone.\<close>

definition apart :: "LB_DESCR \<Rightarrow> LB_DESCR" where
  "apart d = d\<lparr>u_items := None, u_nodata := None, items_size := 0\<rparr>"

definition stored :: "int \<Rightarrow> LB_DESCR \<Rightarrow> LB_DESCR \<Rightarrow> bool" where
  "stored m d d' \<longleftrightarrow> apart d' = apart d \<and> first_cells m (u_items d') = first_cells m (u_items d) \<and> first_cells m (u_nodata d') = first_cells m (u_nodata d)"

lemma apart_fields:
  assumes "apart d' = apart d"
  shows "nb_items d' = nb_items d" "style d' = style d" "top_item d' = top_item d" "page_size d' = page_size d" "item_height d' = item_height d"
    "column_width d' = column_width d" "focus_item d' = focus_item d" "selected_item d' = selected_item d" "anchor_item d' = anchor_item d"
  using arg_cong [OF assms, of nb_items] arg_cong [OF assms, of style] arg_cong [OF assms, of top_item] arg_cong [OF assms, of page_size]
    arg_cong [OF assms, of item_height] arg_cong [OF assms, of column_width] arg_cong [OF assms, of focus_item] arg_cong [OF assms, of selected_item]
    arg_cong [OF assms, of anchor_item]
  by (simp_all add: apart_def)

lemma apart_flag:
  assumes "apart d' = apart d"
  shows "flag d' f = flag d f" "multi d' = multi d" "HAS_STRINGS d' = HAS_STRINGS d"
  by (simp_all add: style_defs apart_fields [OF assms])

lemma stored_trans: "stored m d d1 \<Longrightarrow> stored m d1 d2 \<Longrightarrow> stored m d d2"
  by (simp add: stored_def)

lemma first_cells_None [simp]: "first_cells m None = []"
  by (simp add: first_cells_def)

lemma first_cells_clear:
  "m \<le> k \<Longrightarrow> k \<le> length bs \<Longrightarrow> first_cells (int m) (Some (take k bs @ ys)) = first_cells (int m) (Some bs)"
  by (simp add: first_cells_def)


lemma grow_storage_ok:
  assumes "storage_ok d" "0 \<le> n" "m \<le> n" "m \<le> items_size d"
  shows "storage_ok (grow_storage env n d) \<and> items_size (grow_storage env n d) = n \<and> stored m d (grow_storage env n d)"
proof (cases "flag d LBS_NODATA")
  case True
  show ?thesis
  proof (cases "multi d")
    case m: True
    then have c: "cells_ok (u_nodata d) (items_size d)" "u_items d = None" using True assms(1) by (auto simp: storage_ok_def)
    have "first_cells m (Some (realloc_cells (\<lambda>i. it_selected (lb_junk env i)) (nat n) (u_nodata d))) = first_cells m (u_nodata d)"
      using realloc_cells_first [OF c(1) assms(4)] assms(2,3) by simp
    then show ?thesis using m True c assms unfolding grow_storage_def storage_ok_def stored_def
      by (simp add: multi_def cells_ok_def apart_def)
  next
    case False
    then show ?thesis using True assms unfolding grow_storage_def storage_ok_def stored_def by (simp add: multi_def apart_def)
  qed
next
  case False
  then have "first_cells m (Some (realloc_cells (lb_junk env) (nat n) (u_items d))) = first_cells m (u_items d)"
    using realloc_cells_first [of "u_items d" "items_size d" m "nat n"] assms by (simp add: storage_ok_def)
  then show ?thesis using False assms unfolding grow_storage_def storage_ok_def stored_def
    by (simp add: multi_def cells_ok_def apart_def)
qed

lemma clear_marks_ok:
  assumes "storage_ok d" "0 \<le> n" "n \<le> items_size d" "n < 2147483648" "m \<le> nb_items d" "nb_items d \<le> items_size d" "0 \<le> nb_items d"
  shows "storage_ok (clear_marks n d) \<and> items_size (clear_marks n d) = items_size d \<and> stored m d (clear_marks n d)"
proof (cases "u_nodata d")
  case None
  then show ?thesis using assms by (simp add: clear_marks_def stored_def)
next
  case (Some bs)
  then have b: "flag d LBS_NODATA" "multi d" "int (length bs) = items_size d" using assms(1) by (auto simp: storage_ok_def cells_ok_def split: if_splits)
  have w: "wrap32 n = n" using assms by (simp add: in_int32_def)
  have "first_cells m (Some (take (nat (nb_items d)) bs @ ys)) = first_cells m (Some bs)" for ys
    using b assms by (auto simp: first_cells_def min_def nat_mono)
  then show ?thesis using Some b w assms unfolding clear_marks_def storage_ok_def stored_def
    by (simp add: multi_def cells_ok_def apart_def)
qed

lemma resize_storage_ok:
  assumes d: "storage_ok d" "0 \<le> nb_items d" "nb_items d \<le> items_size d" "items_size d < 2147483648"
    and n: "0 \<le> n" "n \<le> 2147483632" and r: "resize_storage env d n = (True, d')"
  shows "storage_ok d' \<and> n \<le> items_size d' \<and> items_size d' < 2147483648 \<and> stored (min n (nb_items d)) d d'"
proof -
  define z where "z = (n + 15) div 16 * 16"
  have u: "to_uint n = n" "to_uint (n + LB_ARRAY_GRANULARITY * 2) = n + 32"
      "to_uint (n + LB_ARRAY_GRANULARITY - 1) div LB_ARRAY_GRANULARITY * LB_ARRAY_GRANULARITY = z"
    using n by (auto simp: to_uint_def LB_ARRAY_GRANULARITY_def z_def)
  have z: "n \<le> z" "z < 2147483648" "0 \<le> z" using n by (auto simp: z_def)
  show ?thesis
  proof (cases "n > items_size d \<or> n + 32 < items_size d")
    case True
    define e where "e = grow_storage env z d"
    have d': "d' = clear_marks z e" using r True unfolding resize_storage_def u e_def by (auto simp: Let_def split: if_splits)
    have e: "storage_ok e" "items_size e = z" "stored (min n (nb_items d)) d e"
      using grow_storage_ok [of d z "min n (nb_items d)" env] d n z by (auto simp: e_def)
    have f: "nb_items e = nb_items d" using e(3) by (simp add: stored_def apart_fields [of e d])
    have "storage_ok d' \<and> items_size d' = z \<and> stored (min n (nb_items d)) e d'"
    proof (cases "nb_items d \<le> z")
      case True
      then show ?thesis using clear_marks_ok [of e z "min n (nb_items d)"] e z d n f by (auto simp: d')
    next
      case False
      then have "d' = e" using z f by (auto simp: d' clear_marks_def in_int32_def split: option.splits)
      then show ?thesis using e by (simp add: stored_def)
    qed
    then show ?thesis using e(3) z stored_trans by blast
  next
    case False
    then have d': "d' = clear_marks n d" using r unfolding resize_storage_def u by (auto simp: Let_def)
    show ?thesis using clear_marks_ok [OF d(1) n(1), of "min n (nb_items d)"] False d n by (auto simp: d')
  qed
qed

section \<open>Insertion and removal of a cell\<close>

lemma move_up_cells_fine:
  assumes "i \<le> n" "n < length xs"
  obtains ys where "move_up_cells i n xs = Some ys" "length ys = length xs"
    "\<And>v. take (Suc n) (ys[i := v]) = take i xs @ v # drop i (take n xs)"
proof (cases "i = n")
  case True
  have "take (Suc n) (xs[i := v]) = take i xs @ v # drop i (take n xs)" for v
    using assms True by (simp add: take_Suc_conv_app_nth)
  then show ?thesis using that [of xs] True by (simp add: move_up_cells_def)
next
  case False
  let ?ys = "take (i + 1) xs @ take (n - i) (drop i xs) @ drop (n + 1) xs"
  have l: "length (take i xs) = i" "length (take (n - i) (drop i xs)) = n - i" using assms by auto
  have "take (Suc n) (?ys[i := v]) = take i xs @ v # drop i (take n xs)" for v
  proof -
    have "?ys = take i xs @ xs ! i # take (n - i) (drop i xs) @ drop (n + 1) xs" using assms by (simp add: take_Suc_conv_app_nth)
    then have "?ys[i := v] = take i xs @ v # take (n - i) (drop i xs) @ drop (n + 1) xs"
      using l by (simp add: list_update_append)
    then show ?thesis using l assms by (simp add: Suc_diff_le drop_take)
  qed
  moreover have "length ?ys = length xs" using assms by auto
  ultimately show ?thesis using that [of ?ys] assms False by (simp add: move_up_cells_def)
qed

lemma move_down_cells_fine:
  assumes "i \<le> n" "n < length xs"
  obtains ys where "move_down_cells i n xs = Some ys" "length ys = length xs" "take n ys = take i xs @ drop (Suc i) (take (Suc n) xs)"
proof (cases "i = n")
  case True
  then show ?thesis using that [of xs] by (simp add: move_down_cells_def)
next
  case False
  let ?ys = "take i xs @ take (n - i) (drop (i + 1) xs) @ drop n xs"
  have "take n ?ys = take i xs @ drop (Suc i) (take (Suc n) xs)" using assms False by (auto simp: drop_take min_def)
  moreover have "length ?ys = length xs" using assms by auto
  ultimately show ?thesis using that [of ?ys] assms False by (simp add: move_down_cells_def)
qed

lemma put_item_fine:
  assumes d: "storage_ok d" "0 \<le> i" "i \<le> nb_items d" "nb_items d < items_size d"
  shows "fine (\<lambda>d'. storage_ok d' \<and> apart d' = apart (d\<lparr>nb_items := nb_items d + 1\<rparr>) \<and> items_size d' = items_size d
      \<and> (\<not> flag d LBS_NODATA \<longrightarrow> (\<exists>s. (multi d \<longrightarrow> \<not> s) \<and> items d' =
           take (nat i) (items d) @ \<lparr>it_str = str, it_selected = s, it_height = 0, it_data = (if HAS_STRINGS d then 0 else data)\<rparr> # drop (nat i) (items d)))
      \<and> (flag d LBS_NODATA \<and> multi d \<longrightarrow> marks d' = take (nat i) (marks d) @ False # drop (nat i) (marks d)))
    (put_item i str data d)"
proof (cases "flag d LBS_NODATA")
  case False
  then obtain xs where x: "u_items d = Some xs" "int (length xs) = items_size d" "u_nodata d = None"
    using d by (auto simp: storage_ok_def cells_ok_def split: option.splits)
  have b: "nat i \<le> nat (nb_items d)" "nat (nb_items d) < length xs" using d x(2) by auto
  obtain ys where y: "move_up_cells (nat i) (nat (nb_items d)) xs = Some ys" "length ys = length xs"
    "\<And>v. take (Suc (nat (nb_items d))) (ys[nat i := v]) = take (nat i) xs @ v # drop (nat i) (take (nat (nb_items d)) xs)"
    using move_up_cells_fine [OF b] by blast
  have i: "i < int (length ys)" "nat i < length ys" using b y(2) d by linarith+
  have n: "nat (nb_items d + 1) = Suc (nat (nb_items d))" using d by simp
  define s where "s = (if multi d then False else it_selected (ys ! nat i))"
  have "put_item i str data d = Some (d\<lparr>u_items := Some (ys[nat i := \<lparr>it_str = str, it_selected = s, it_height = 0,
      it_data = (if HAS_STRINGS d then 0 else data)\<rparr>]), nb_items := nb_items d + 1\<rparr>)"
    using False x y(1) i d(2) unfolding put_item_def insert_item_data_def on_cells_def set_item_string_def set_item_data_def set_item_height_def
      set_item_selected_state_def change_item_def set_cell_def s_def
    by (cases "ys ! nat i") (simp add: multi_def HAS_STRINGS_def IS_OWNERDRAW_def)
  then show ?thesis using False x y(2) d(2,3) b
    by (auto simp: storage_ok_def cells_ok_def multi_def apart_def items_def n y(3) s_def min_def intro!: exI [of _ s])
next
  case nodata: True
  have n: "nat (nb_items d + 1) = Suc (nat (nb_items d))" using d by simp
  show ?thesis
  proof (cases "multi d")
    case True
    then obtain bs where x: "u_nodata d = Some bs" "int (length bs) = items_size d" "u_items d = None"
      using d nodata by (auto simp: storage_ok_def cells_ok_def split: option.splits)
    have b: "nat i \<le> nat (nb_items d)" "nat (nb_items d) < length bs" using d x(2) by auto
    obtain ys where y: "move_up_cells (nat i) (nat (nb_items d)) bs = Some ys" "length ys = length bs"
      "\<And>v. take (Suc (nat (nb_items d))) (ys[nat i := v]) = take (nat i) bs @ v # drop (nat i) (take (nat (nb_items d)) bs)"
      using move_up_cells_fine [OF b] by blast
    have i: "i < int (length ys)" "nat i < length ys" using b y(2) d by linarith+
    have "put_item i str data d = Some (d\<lparr>u_nodata := Some (ys[nat i := False]), nb_items := nb_items d + 1\<rparr>)"
      using True nodata x y(1) i d(2) unfolding put_item_def insert_item_data_def on_cells_def set_item_string_def set_item_data_def set_item_height_def
        set_item_selected_state_def change_item_def set_cell_def
      by (auto simp: multi_def)
    then show ?thesis using True nodata x y(2) d(2,3) b
      by (auto simp: storage_ok_def cells_ok_def multi_def apart_def marks_def n y(3) min_def)
  next
    case False
    then have x: "u_nodata d = None" "u_items d = None" using d nodata by (auto simp: storage_ok_def)
    then have "put_item i str data d = Some (d\<lparr>nb_items := nb_items d + 1\<rparr>)"
      using False nodata unfolding put_item_def insert_item_data_def on_cells_def set_item_string_def set_item_data_def set_item_height_def
        set_item_selected_state_def change_item_def
      by (simp add: multi_def)
    then show ?thesis using False nodata x d by (simp add: storage_ok_def multi_def apart_def)
  qed
qed

lemma remove_item_data_fine:
  assumes d: "storage_ok d" "0 \<le> i" "i \<le> nb_items d" "nb_items d < items_size d"
  shows "fine (\<lambda>d'. storage_ok d' \<and> apart d' = apart d \<and> items_size d' = items_size d
      \<and> items d' = (let xs = first_cells (nb_items d + 1) (u_items d) in take (nat i) xs @ drop (Suc (nat i)) xs)
      \<and> marks d' = (let xs = first_cells (nb_items d + 1) (u_nodata d) in take (nat i) xs @ drop (Suc (nat i)) xs))
    (remove_item_data i d)"
proof -
  have n: "nat (nb_items d + 1) = Suc (nat (nb_items d))" using d by simp
  have b: "nat i \<le> nat (nb_items d)" using d by auto
  show ?thesis
  proof (cases "flag d LBS_NODATA")
    case False
    then obtain xs where x: "u_items d = Some xs" "int (length xs) = items_size d" "u_nodata d = None"
      using d by (auto simp: storage_ok_def cells_ok_def split: option.splits)
    then have l: "nat (nb_items d) < length xs" using d by auto
    from move_down_cells_fine [OF b l] obtain ys where y: "move_down_cells (nat i) (nat (nb_items d)) xs = Some ys" "length ys = length xs"
      "take (nat (nb_items d)) ys = take (nat i) xs @ drop (Suc (nat i)) (take (Suc (nat (nb_items d))) xs)" .
    then show ?thesis using False x b
      by (simp add: remove_item_data_def on_cells_def storage_ok_def cells_ok_def multi_def apart_def items_def marks_def first_cells_def n min_def)
  next
    case nodata: True
    show ?thesis
    proof (cases "multi d")
      case True
      then obtain xs where x: "u_nodata d = Some xs" "int (length xs) = items_size d" "u_items d = None"
        using d nodata by (auto simp: storage_ok_def cells_ok_def split: option.splits)
      then have l: "nat (nb_items d) < length xs" using d by auto
      from move_down_cells_fine [OF b l] obtain ys where y: "move_down_cells (nat i) (nat (nb_items d)) xs = Some ys" "length ys = length xs"
        "take (nat (nb_items d)) ys = take (nat i) xs @ drop (Suc (nat i)) (take (Suc (nat (nb_items d))) xs)" .
      then show ?thesis using True nodata x b
        by (auto simp add: remove_item_data_def on_cells_def storage_ok_def cells_ok_def multi_def apart_def items_def marks_def first_cells_def n min_def)
    next
      case False
      then show ?thesis using nodata d
        by (simp add: remove_item_data_def on_cells_def storage_ok_def items_def marks_def first_cells_def)
    qed
  qed
qed

section \<open>Changes of one item\<close>

lemma set_cell_fine:
  assumes "cells_ok u s" "0 \<le> i" "i < n" "n \<le> s"
  shows "fine (\<lambda>u'. cells_ok u' s \<and> first_cells n u' = (first_cells n u)[nat i := f (first_cells n u ! nat i)]) (set_cell u i f)"
proof -
  obtain xs where x: "u = Some xs" "int (length xs) = s" using assms by (cases u) (auto simp: cells_ok_def)
  have "nat i < nat n" "nat n \<le> length xs" using assms x by auto
  then show ?thesis using x assms by (simp add: set_cell_def cells_ok_def first_cells_def take_update_swap)
qed

lemma change_item_fine:
  assumes d: "storage_ok d" "0 \<le> i" "i < nb_items d" "nb_items d \<le> items_size d"
  shows "fine (\<lambda>d'. storage_ok d' \<and> apart d' = apart d \<and> items_size d' = items_size d \<and> marks d' = marks d
      \<and> (\<not> flag d LBS_NODATA \<longrightarrow> items d' = (items d)[nat i := f (items d ! nat i)]))
    (change_item i f d)"
proof (cases "flag d LBS_NODATA")
  case False
  then have u: "cells_ok (u_items d) (items_size d)" "u_nodata d = None" using d by (auto simp: storage_ok_def)
  from set_cell_fine [OF u(1) d(2-4), of f] show ?thesis using False u(2)
    by (auto simp: change_item_def storage_ok_def apart_def marks_def multi_def items_first_cells elim!: fineE)
qed (use d in \<open>simp add: change_item_def\<close>)

lemma set_item_selected_state_fine:
  assumes d: "storage_ok d" "0 \<le> i" "i < nb_items d" "nb_items d \<le> items_size d"
  shows "fine (\<lambda>d'. storage_ok d' \<and> apart d' = apart d \<and> items_size d' = items_size d
      \<and> (items d' = (if multi d \<and> \<not> flag d LBS_NODATA then (items d)[nat i := (items d ! nat i)\<lparr>it_selected := b\<rparr>] else items d))
      \<and> (marks d' = (if multi d \<and> flag d LBS_NODATA then (marks d)[nat i := b] else marks d)))
    (set_item_selected_state i b d)"
proof (cases "multi d")
  case m: True
  show ?thesis
  proof (cases "flag d LBS_NODATA")
    case True
    then have u: "cells_ok (u_nodata d) (items_size d)" "u_items d = None" using d m by (auto simp: storage_ok_def)
    from set_cell_fine [OF u(1) d(2-4), of "\<lambda>_. b"] show ?thesis using True m u(2)
      by (auto simp: set_item_selected_state_def storage_ok_def apart_def items_def multi_def marks_first_cells elim!: fineE)
  next
    case False
    from change_item_fine [OF d, of "\<lambda>it. it\<lparr>it_selected := b\<rparr>"] show ?thesis using False m
      by (auto simp: set_item_selected_state_def elim!: fine_mono)
  qed
qed (use d in \<open>simp add: set_item_selected_state_def\<close>)

lemma is_item_selected_eq:
  assumes d: "storage_ok d" "0 \<le> i" "i < nb_items d" "nb_items d \<le> items_size d"
  shows "is_item_selected d i = Some (if \<not> multi d then i = selected_item d else if flag d LBS_NODATA then marks d ! nat i else it_selected (items d ! nat i))"
proof -
  have c: "cell u i = Some (first_cells (nb_items d) u ! nat i)" if "cells_ok u (items_size d)" for u :: "'x list option"
    using that d by (auto simp: cell_def first_cells_def cells_ok_def split: option.splits)
  show ?thesis using d c [of "u_items d"] c [of "u_nodata d"]
    by (auto simp: is_item_selected_def storage_ok_def items_first_cells marks_first_cells)
qed

end
