(* ===== verification/Listbox_Select.thy ===== *)
theory Listbox_Select
  imports Listbox_Store
begin

text \<open>
  Selection, insertion and removal over the laws of the storage: which items are chosen afterwards, and what the list of items is.
\<close>

section \<open>The invariant after a change of the storage\<close>

lemma core_stored:
  assumes d: "core d" and a: "apart d' = apart d" and s: "storage_ok d'" "nb_items d \<le> items_size d'" "items_size d' < 2147483648"
    and t: "HAS_STRINGS d \<Longrightarrow> \<forall>it\<in>set (items d'). it_str it \<noteq> None"
  shows "core d'"
  using d s t by (auto simp: core_def strings_ok_def apart_fields [OF a] apart_flag [OF a])

lemma core_store: "core d \<Longrightarrow> storage_ok d \<and> 0 \<le> nb_items d \<and> nb_items d \<le> items_size d \<and> items_size d < 2147483648"
  by (simp add: core_def)

section \<open>Selection\<close>

text \<open>Everything but the marks, and the marks of the items, where several can be selected.\<close>

definition unmarked :: "LB_DESCR \<Rightarrow> int \<times> int \<times> int \<times> LBS set \<times> LB_ITEMDATA list" where
  "unmarked d = (nb_items d, focus_item d, anchor_item d, style d - {LBS_DISPLAYCHANGED}, map (\<lambda>it. it\<lparr>it_selected := False\<rparr>) (items d))"

definition chosen :: "LB_DESCR \<Rightarrow> bool list" where
  "chosen d = (if flag d LBS_NODATA then marks d else map it_selected (items d))"

lemma unmarkedD:
  assumes "unmarked d' = unmarked d"
  shows "nb_items d' = nb_items d" "focus_item d' = focus_item d" "anchor_item d' = anchor_item d"
    "map (\<lambda>it. it\<lparr>it_selected := False\<rparr>) (items d') = map (\<lambda>it. it\<lparr>it_selected := False\<rparr>) (items d)"
  using assms by (simp_all add: unmarked_def)

lemma unmarked_flag: "unmarked d' = unmarked d \<Longrightarrow> f \<noteq> LBS_DISPLAYCHANGED \<Longrightarrow> flag d' f = flag d f"
  by (auto simp: unmarked_def flag_def)

lemma unmarked_style:
  assumes "unmarked d' = unmarked d"
  shows "multi d' = multi d" "HAS_STRINGS d' = HAS_STRINGS d" "IS_OWNERDRAW d' = IS_OWNERDRAW d" "IS_MULTISELECT d' = IS_MULTISELECT d"
  by (simp_all add: multi_def HAS_STRINGS_def IS_OWNERDRAW_def IS_MULTISELECT_def unmarked_flag [OF assms])

lemma rest_unmarked:
  assumes "rest d' = rest d"
  shows "unmarked d' = unmarked d"
  using assms unfolding unmarked_def rest_items [OF assms] by (simp add: rest_def)

lemma marks_rest: "rest d' = rest d \<Longrightarrow> marks d' = marks d"
  by (auto simp: marks_def rest_def split: option.splits)

lemma rest_chosen:
  assumes "rest d' = rest d"
  shows "chosen d' = chosen d"
  by (simp add: chosen_def marks_rest [OF assms] rest_items [OF assms] rest_flag [OF assms])

lemma length_items: "core d \<Longrightarrow> \<not> flag d LBS_NODATA \<Longrightarrow> length (items d) = nat (nb_items d)"
  by (auto simp: core_def storage_ok_def cells_ok_def items_def split: option.splits)

lemma length_marks: "core d \<Longrightarrow> flag d LBS_NODATA \<Longrightarrow> multi d \<Longrightarrow> length (marks d) = nat (nb_items d)"
  by (auto simp: core_def storage_ok_def cells_ok_def marks_def split: option.splits)

lemma length_chosen: "core d \<Longrightarrow> multi d \<Longrightarrow> length (chosen d) = nat (nb_items d)"
  by (simp add: chosen_def length_items length_marks)

lemma selected_chosen: "core d \<Longrightarrow> multi d \<Longrightarrow> 0 \<le> i \<Longrightarrow> i < nb_items d \<Longrightarrow> is_item_selected d i = Some (chosen d ! nat i)"
  using is_item_selected_eq [of d i] length_items [of d] core_store [of d] by (auto simp: chosen_def)

lemma selected_fine: "core d \<Longrightarrow> 0 \<le> i \<Longrightarrow> i < nb_items d \<Longrightarrow> fine (\<lambda>_. True) (is_item_selected d i)"
  using is_item_selected_eq [of d i] core_store [of d] by simp

lemma mark_fine:
  assumes d: "core d" "multi d" "0 \<le> i" "i < nb_items d"
  shows "fine (\<lambda>d'. core d' \<and> unmarked d' = unmarked d \<and> selected_item d' = selected_item d \<and> chosen d' = (chosen d)[nat i := b])
    (set_item_selected_state i b d)"
proof -
  have "fine (\<lambda>d'. storage_ok d' \<and> apart d' = apart d \<and> items_size d' = items_size d
      \<and> (items d' = (if multi d \<and> \<not> flag d LBS_NODATA then (items d)[nat i := (items d ! nat i)\<lparr>it_selected := b\<rparr>] else items d))
      \<and> (marks d' = (if multi d \<and> flag d LBS_NODATA then (marks d)[nat i := b] else marks d)))
    (set_item_selected_state i b d)"
    using d core_store [of d] by (intro set_item_selected_state_fine) auto
  then show ?thesis
  proof (rule fine_mono, elim conjE)
    fix d' assume s: "storage_ok d'" and a: "apart d' = apart d" and z: "items_size d' = items_size d"
      and it: "items d' = (if multi d \<and> \<not> flag d LBS_NODATA then (items d)[nat i := (items d ! nat i)\<lparr>it_selected := b\<rparr>] else items d)"
      and ma: "marks d' = (if multi d \<and> flag d LBS_NODATA then (marks d)[nat i := b] else marks d)"
    have same: "map (\<lambda>it. it\<lparr>it_selected := False\<rparr>) (items d') = map (\<lambda>it. it\<lparr>it_selected := False\<rparr>) (items d)"
      using d length_items [OF d(1)] by (auto simp: it map_update intro!: list_update_same_conv [THEN iffD2])
    have "it_str x \<noteq> None" if "HAS_STRINGS d" "x \<in> set (items d')" for x
    proof -
      have "x\<lparr>it_selected := False\<rparr> \<in> set (map (\<lambda>it. it\<lparr>it_selected := False\<rparr>) (items d))" using that(2) same by (metis image_eqI list.set_map)
      then obtain y where "y \<in> set (items d)" "x\<lparr>it_selected := False\<rparr> = y\<lparr>it_selected := False\<rparr>" by auto
      then have "it_str x = it_str y" by (metis LB_ITEMDATA.select_convs(1) LB_ITEMDATA.surjective LB_ITEMDATA.update_convs(2))
      then show ?thesis using d(1) that(1) \<open>y \<in> _\<close> by (auto simp: core_def strings_ok_def)
    qed
    then have "core d'" using core_stored [OF d(1) a s] z core_store [OF d(1)] by auto
    moreover have "unmarked d' = unmarked d" using same by (simp add: unmarked_def apart_fields [OF a])
    moreover have "chosen d' = (chosen d)[nat i := b]"
      using d(2) by (simp add: chosen_def it ma apart_flag [OF a] map_update)
    ultimately show "core d' \<and> unmarked d' = unmarked d \<and> selected_item d' = selected_item d \<and> chosen d' = (chosen d)[nat i := b]"
      by (simp add: apart_fields [OF a])
  qed
qed

definition set_range :: "int \<Rightarrow> int \<Rightarrow> bool \<Rightarrow> bool list \<Rightarrow> bool list" where
  "set_range first final on cs = map (\<lambda>k. if first \<le> int k \<and> int k \<le> final then on else cs ! k) [0..<length cs]"

lemma length_set_range [simp]: "length (set_range a b on cs) = length cs"
  by (simp add: set_range_def)

lemma set_range_nth [simp]: "k < length cs \<Longrightarrow> set_range a b on cs ! k = (if a \<le> int k \<and> int k \<le> b then on else cs ! k)"
  by (simp add: set_range_def)

lemma set_range_none: "b < a \<or> b < 0 \<or> int (length cs) \<le> a \<Longrightarrow> set_range a b on cs = cs"
  by (rule nth_equalityI) auto

lemma set_range_step: "0 \<le> i \<Longrightarrow> nat i < length cs \<Longrightarrow> i \<le> b \<Longrightarrow> set_range (i + 1) b on (cs[nat i := on]) = set_range i b on cs"
proof (rule nth_equalityI)
  fix k assume i: "0 \<le> i" "nat i < length cs" "i \<le> b" and "k < length (set_range (i + 1) b on (cs[nat i := on]))"
  then have k: "k < length cs" by simp
  consider "int k = i" | "int k < i" | "i < int k" by linarith
  then show "set_range (i + 1) b on (cs[nat i := on]) ! k = set_range i b on cs ! k"
    by cases (use i k in \<open>auto simp: nth_list_update\<close>)
qed simp

lemma select_loop_fine:
  "core d \<Longrightarrow> multi d \<Longrightarrow> 0 \<le> i \<Longrightarrow> i + int n \<le> nb_items d \<Longrightarrow>
    fine (\<lambda>d'. core d' \<and> unmarked d' = unmarked d \<and> selected_item d' = selected_item d \<and> chosen d' = set_range i (i + int n - 1) on (chosen d))
      (select_loop on i n d)"
proof (induction n arbitrary: i d)
  case 0
  then show ?case by (simp add: set_range_none)
next
  case (Suc n)
  have i: "i < nb_items d" using Suc.prems by simp
  have sel: "is_item_selected d i = Some (chosen d ! nat i)" using selected_chosen Suc.prems i by blast
  have l: "nat i < length (chosen d)" using length_chosen Suc.prems i by simp
  let ?step = "if chosen d ! nat i = on then Some d else do { e \<leftarrow> set_item_selected_state i on d; LISTBOX_InvalidateItemRect i e }"
  have "fine (\<lambda>e. core e \<and> unmarked e = unmarked d \<and> selected_item e = selected_item d \<and> chosen e = (chosen d)[nat i := on]) ?step"
  proof (cases "chosen d ! nat i = on")
    case True
    then have "(chosen d)[nat i := on] = chosen d" using list_update_id [of "chosen d" "nat i"] by simp
    then show ?thesis using True Suc.prems by simp
  next
    case False
    have "fine (\<lambda>e. core e \<and> unmarked e = unmarked d \<and> selected_item e = selected_item d \<and> chosen e = (chosen d)[nat i := on])
        (do { e \<leftarrow> set_item_selected_state i on d; LISTBOX_InvalidateItemRect i e })"
      by (rule fine_bind [OF mark_fine [OF Suc.prems(1,2,3) i]], rule fine_mono [OF InvalidateItemRect_fine]) auto
    then show ?thesis using False by simp
  qed
  then obtain e where e: "?step = Some e" "core e" "unmarked e = unmarked d" "selected_item e = selected_item d" "chosen e = (chosen d)[nat i := on]"
    by (auto elim: fineE)
  have "fine (\<lambda>d'. core d' \<and> unmarked d' = unmarked e \<and> selected_item d' = selected_item e \<and> chosen d' = set_range (i + 1) (i + 1 + int n - 1) on (chosen e))
      (select_loop on (i + 1) n e)"
    using Suc.IH [of e "i + 1"] e(2) Suc.prems unmarked_style(1) [OF e(3)] unmarkedD(1) [OF e(3)] by simp
  moreover have "set_range (i + 1) (i + int n) on ((chosen d)[nat i := on]) = set_range i (i + int n) on (chosen d)"
    using set_range_step [OF Suc.prems(3) l, of "i + int n" on] by simp
  ultimately show ?case using e sel by simp
qed

lemma SelectItemRange_fine:
  assumes "core d"
  shows "fine (\<lambda>(r, d'). core d' \<and> unmarked d' = unmarked d \<and> selected_item d' = selected_item d
      \<and> (r = LB_OKAY \<longleftrightarrow> \<not> flag d LBS_NOSEL \<and> flag d LBS_MULTIPLESEL)
      \<and> chosen d' = (if flag d LBS_NOSEL \<or> \<not> flag d LBS_MULTIPLESEL then chosen d
                     else set_range first (if final = -1 then nb_items d - 1 else final) on (chosen d)))
    (LISTBOX_SelectItemRange first final on d)"
proof (cases "flag d LBS_NOSEL \<or> \<not> flag d LBS_MULTIPLESEL")
  case True
  then show ?thesis using assms by (simp add: LISTBOX_SelectItemRange_def LB_ERR_def LB_OKAY_def)
next
  case False
  have n0: "0 \<le> nb_items d" using assms by (simp add: core_def)
  have m: "multi d" using False by (simp add: multi_def)
  define l where "l = (if final = -1 \<or> final \<ge> nb_items d then nb_items d - 1 else final)"
  define f where "f = max 0 first"
  have len: "int (length (chosen d)) = nb_items d" using length_chosen [OF assms m] n0 by simp
  have c: "set_range first (if final = -1 then nb_items d - 1 else final) on (chosen d) = set_range f l on (chosen d)"
    using len by (auto intro!: nth_equalityI simp: f_def l_def)
  show ?thesis
  proof (cases "nb_items d = 0 \<or> l < f")
    case True
    then have "set_range f l on (chosen d) = chosen d" using len by (intro set_range_none) (auto simp: l_def f_def)
    then show ?thesis using False True assms unfolding c by (auto simp: LISTBOX_SelectItemRange_def l_def [symmetric] f_def [symmetric] Let_def)
  next
    case nz: False
    have "f + int (nat (l - f + 1)) \<le> nb_items d" "f + int (nat (l - f + 1)) - 1 = l" using nz by (auto simp: l_def f_def)
    then have "fine (\<lambda>d'. core d' \<and> unmarked d' = unmarked d \<and> selected_item d' = selected_item d \<and> chosen d' = set_range f l on (chosen d))
        (select_loop on f (nat (l - f + 1)) d)"
      using select_loop_fine [OF assms m, of f "nat (l - f + 1)" on] by (simp add: f_def)
    then show ?thesis using False nz unfolding c
      by (auto simp: LISTBOX_SelectItemRange_def l_def [symmetric] f_def [symmetric] Let_def elim!: fineE)
  qed
qed

end
