(* ===== verification/Listbox_Change.thy ===== *)
theory Listbox_Change
  imports Listbox_Select
begin

text \<open>
  The caret and the selection, insertion and removal of items: what each leaves, and that none meets a fault.
\<close>

definition sel_ok :: "LB_DESCR \<Rightarrow> bool" where
  "sel_ok d \<longleftrightarrow> flag d LBS_MULTIPLESEL \<or> flag d LBS_NOSEL \<or> (-1 \<le> selected_item d \<and> selected_item d < nb_items d)"

definition focus_ok :: "LB_DESCR \<Rightarrow> bool" where
  "focus_ok d \<longleftrightarrow> 0 \<le> focus_item d \<and> focus_item d \<le> max 0 (nb_items d - 1)"

lemma lb_ok_iff: "lb_ok d \<longleftrightarrow> core d \<and> focus_ok d \<and> sel_ok d"
  by (auto simp: lb_ok_def sel_ok_def focus_ok_def)

lemma ok_simps [simp]:
  "sel_ok (d\<lparr>focus_item := i\<rparr>) = sel_ok d" "sel_ok (d\<lparr>anchor_item := i\<rparr>) = sel_ok d" "sel_ok (send c d) = sel_ok d"
  "focus_ok (d\<lparr>selected_item := i\<rparr>) = focus_ok d" "focus_ok (d\<lparr>anchor_item := i\<rparr>) = focus_ok d" "focus_ok (send c d) = focus_ok d"
  by (simp_all add: sel_ok_def focus_ok_def)

lemma rest_ok:
  assumes "rest d' = rest d"
  shows "sel_ok d' = sel_ok d" "focus_ok d' = focus_ok d"
  by (simp_all add: sel_ok_def focus_ok_def rest_flag [OF assms] restD [OF assms])

lemma unmarked_ok:
  assumes "unmarked d' = unmarked d"
  shows "selected_item d' = selected_item d \<Longrightarrow> sel_ok d' = sel_ok d" "focus_ok d' = focus_ok d"
  by (simp_all add: sel_ok_def focus_ok_def unmarked_flag [OF assms] unmarkedD [OF assms])

section \<open>Selection and caret\<close>

lemma single_state: "core d \<Longrightarrow> \<not> flag d LBS_MULTIPLESEL \<Longrightarrow> set_item_selected_state i b d = Some d"
  by (simp add: set_item_selected_state_def multi_def core_def)

lemma unmarked_simps [simp]:
  "unmarked (d\<lparr>selected_item := i\<rparr>) = unmarked d" "unmarked (send c d) = unmarked d" "chosen (d\<lparr>selected_item := i\<rparr>) = chosen d" "chosen (send c d) = chosen d"
  "unmarked (d\<lparr>wheel_remain := i\<rparr>) = unmarked d"
  "items (d\<lparr>selected_item := i\<rparr>) = items d" "items (send c d) = items d" "items (d\<lparr>focus_item := i\<rparr>) = items d" "items (d\<lparr>anchor_item := i\<rparr>) = items d"
  "chosen (d\<lparr>focus_item := i\<rparr>) = chosen d" "chosen (d\<lparr>anchor_item := i\<rparr>) = chosen d"
  "marks (d\<lparr>selected_item := i\<rparr>) = marks d" "marks (send c d) = marks d" "marks (d\<lparr>focus_item := i\<rparr>) = marks d"
  by (simp_all add: unmarked_def chosen_def items_first_cells marks_first_cells)

definition selection_set :: "LB_DESCR \<Rightarrow> int \<Rightarrow> bool \<Rightarrow> int \<times> LB_DESCR \<Rightarrow> bool" where
  "selection_set d i on r \<longleftrightarrow> core (snd r) \<and> unmarked (snd r) = unmarked d
     \<and> (if flag d LBS_NOSEL then fst r = LB_ERR \<and> selected_item (snd r) = i \<and> chosen (snd r) = chosen d \<and> items (snd r) = items d
        else if i < -1 \<or> i \<ge> nb_items d then r = (LB_ERR, d)
        else fst r = LB_OKAY
          \<and> (if flag d LBS_MULTIPLESEL
             then selected_item (snd r) = selected_item d
               \<and> chosen (snd r) = (if i = -1 then set_range 0 (nb_items d) on (chosen d) else set_range i i on (chosen d))
             else selected_item (snd r) = i \<and> chosen (snd r) = chosen d \<and> items (snd r) = items d))"

lemma selection_set_ok: "selection_set d i on r \<Longrightarrow> sel_ok d \<Longrightarrow> sel_ok (snd r)"
  using unmarked_flag [of "snd r" d] unmarkedD [of "snd r" d] by (auto simp: selection_set_def sel_ok_def split: if_splits)

lemma SetSelection_fine:
  assumes "core d"
  shows "fine (selection_set d i on) (LISTBOX_SetSelection env i on notify d)"
proof (cases "flag d LBS_NOSEL \<or> i < -1 \<or> i \<ge> nb_items d")
  case True
  then show ?thesis using assms by (auto simp: LISTBOX_SetSelection_def selection_set_def)
next
  case False
  show ?thesis
  proof (cases "flag d LBS_MULTIPLESEL")
    case True
    have n: "nb_items d \<noteq> -1" using assms by (simp add: core_def)
    show ?thesis
    proof (cases "i = -1")
      case True
      then show ?thesis using SelectItemRange_fine [OF assms, of 0 "nb_items d" on] False \<open>flag d LBS_MULTIPLESEL\<close> n
        by (auto simp: LISTBOX_SetSelection_def selection_set_def elim!: fine_mono)
    next
      case i: False
      then show ?thesis using SelectItemRange_fine [OF assms, of i i on] False True
        by (auto simp: LISTBOX_SetSelection_def selection_set_def elim!: fine_mono)
    qed
  next
    case single: False
    define d3 where "d3 = d\<lparr>selected_item := i\<rparr>"
    have repaint: "fine (\<lambda>e. core e \<and> rest e = rest d3) (if b then LISTBOX_RepaintItem env j e else Some e)" if "core e" "rest e = rest d3" for b j e
      using RepaintItem_fine [OF that(1), of env j] that by simp
    have d3: "core d3" using assms by (simp add: d3_def)
    obtain d4 where d4: "(if selected_item d \<noteq> -1 then LISTBOX_RepaintItem env (selected_item d) d3 else Some d3) = Some d4" "core d4" "rest d4 = rest d3"
      using repaint [OF d3 refl, of "selected_item d \<noteq> -1" "selected_item d"] unfolding fine_def by blast
    obtain d5 where d5: "(if i \<noteq> -1 then LISTBOX_RepaintItem env i d4 else Some d4) = Some d5" "core d5" "rest d5 = rest d3"
      using repaint [OF d4(2,3), of "i \<noteq> -1" i] unfolding fine_def by blast
    have p: "unmarked d5 = unmarked d" "chosen d5 = chosen d" "selected_item d5 = i" "items d5 = items d"
      using rest_unmarked [OF d5(3)] rest_chosen [OF d5(3)] rest_fields(5) [OF d5(3)] rest_items [OF d5(3)] by (simp_all add: d3_def)
    show ?thesis
    proof (cases "i = selected_item d")
      case True
      then show ?thesis using False single assms by (simp add: LISTBOX_SetSelection_def selection_set_def)
    next
      case i: False
      have "LISTBOX_SetSelection env i on notify d = Some (LB_OKAY, if notify \<and> nb_items d5 \<noteq> 0 then send (Notify (if i \<noteq> -1 then LBN_SELCHANGE else LBN_SELCANCEL)) d5 else d5)"
        using False single i d4(1) [unfolded d3_def] d5(1) unfolding LISTBOX_SetSelection_def
        by (cases "i = -1"; cases "selected_item d = -1") (simp_all add: single_state [OF assms single] Let_def)
      then show ?thesis using p d5(2) False single by (simp add: selection_set_def)
    qed
  qed
qed

lemma SetCaretIndex_fine:
  assumes "core d"
  shows "fine (\<lambda>(r, d'). core d' \<and> rest d' = rest (if flag d LBS_NOSEL \<or> i < 0 \<or> i \<ge> nb_items d then d else d\<lparr>focus_item := i\<rparr>))
    (LISTBOX_SetCaretIndex env i fully d)"
proof (cases "flag d LBS_NOSEL \<or> i < 0 \<or> i \<ge> nb_items d")
  case True
  then show ?thesis using assms by (simp add: LISTBOX_SetCaretIndex_def)
next
  case False
  show ?thesis
  proof (cases "focus_item d = i")
    case True
    then have "d\<lparr>focus_item := i\<rparr> = d" by simp
    then show ?thesis using MakeItemVisible_fine [OF assms, of i fully] True False
      by (auto simp: LISTBOX_SetCaretIndex_def elim!: fineE)
  next
    case i: False
    obtain d1 where d1: "LISTBOX_DrawFocusRect env d = Some d1" "d1 = d" using DrawFocusRect_fine [OF assms] by (auto elim: fineE)
    obtain d2 where d2: "LISTBOX_MakeItemVisible i fully (d\<lparr>focus_item := i\<rparr>) = Some d2" "core d2" "rest d2 = rest (d\<lparr>focus_item := i\<rparr>)"
      using MakeItemVisible_fine [of "d\<lparr>focus_item := i\<rparr>" i fully] assms False by (auto elim: fineE)
    have "LISTBOX_DrawFocusRect env d2 = Some d2" using DrawFocusRect_fine [OF d2(2)] by (auto elim: fineE)
    then show ?thesis using i False d1 d2 by (simp add: LISTBOX_SetCaretIndex_def)
  qed
qed

definition extended :: "LB_DESCR \<Rightarrow> int \<Rightarrow> LB_DESCR \<Rightarrow> bool" where
  "extended d i d' \<longleftrightarrow> core d' \<and> unmarked d' = unmarked (d\<lparr>focus_item := i\<rparr>) \<and> (sel_ok d \<longrightarrow> sel_ok d')
     \<and> (flag d LBS_MULTIPLESEL \<longrightarrow> selected_item d' = selected_item d)
     \<and> chosen d' = (if flag d LBS_EXTENDEDSEL \<and> \<not> flag d LBS_NOSEL \<and> anchor_item d \<noteq> -1
                    then map (\<lambda>k. min i (anchor_item d) \<le> int k \<and> int k \<le> max i (anchor_item d)) [0..<length (chosen d)] else chosen d)"

lemma MoveCaret_selects:
  assumes d: "core d" and i: "0 \<le> i" "i < nb_items d" and a: "flag d LBS_EXTENDEDSEL" "anchor_item d \<noteq> -1"
  defines "first \<equiv> min i (anchor_item d)" and "final \<equiv> max i (anchor_item d)"
  shows "fine (\<lambda>d'. core d' \<and> unmarked d' = unmarked d \<and> selected_item d' = selected_item d
      \<and> chosen d' = (if flag d LBS_NOSEL then chosen d else map (\<lambda>k. first \<le> int k \<and> int k \<le> final) [0..<length (chosen d)]))
    (do { (_, e1) \<leftarrow> (if first > 0 then LISTBOX_SelectItemRange 0 (first - 1) False d else Some (LB_OKAY, d));
          (_, e2) \<leftarrow> LISTBOX_SelectItemRange (final + 1) (-1) False e1;
          (_, e3) \<leftarrow> LISTBOX_SelectItemRange first final True e2;
          Some e3 })"
proof -
  have m: "flag d LBS_MULTIPLESEL" using d a by (simp add: core_def)
  have len: "int (length (chosen d)) = nb_items d" using length_chosen [OF d] m i by (simp add: multi_def)
  have fin: "0 \<le> final" using i by (simp add: final_def)
  let ?u = "\<lambda>e cs. core e \<and> unmarked e = unmarked d \<and> selected_item e = selected_item d \<and> chosen e = (if flag d LBS_NOSEL then chosen d else cs)"
  let ?c1 = "set_range 0 (first - 1) False (chosen d)" and ?c2 = "\<lambda>cs. set_range (final + 1) (nb_items d - 1) False cs"
  have step: "fine (\<lambda>(r, e'). ?u e' (set_range x (if y = -1 then nb_items d - 1 else y) on cs)) (LISTBOX_SelectItemRange x y on e)" if "?u e cs" for x y on e cs
    using SelectItemRange_fine [of e x y on] that m unmarked_flag [of e d] unmarkedD(1) [of e d] by (auto elim!: fine_mono)
  obtain r1 e1 where e1: "(if first > 0 then LISTBOX_SelectItemRange 0 (first - 1) False d else Some (LB_OKAY, d)) = Some (r1, e1)" "?u e1 ?c1"
  proof (cases "first > 0")
    case True
    then show ?thesis using step [of d "chosen d" 0 "first - 1" False] d that by (auto elim!: fineE)
  next
    case False
    then have "?c1 = chosen d" by (intro set_range_none) auto
    then show ?thesis using that [of LB_OKAY d] False d by simp
  qed
  obtain r2 e2 where e2: "LISTBOX_SelectItemRange (final + 1) (-1) False e1 = Some (r2, e2)" "?u e2 (?c2 ?c1)"
    using step [OF e1(2), of "final + 1" "-1" False] by (auto elim!: fineE)
  obtain r3 e3 where e3: "LISTBOX_SelectItemRange first final True e2 = Some (r3, e3)" "?u e3 (set_range first final True (?c2 ?c1))"
    using step [OF e2(2), of first final True] fin by (auto elim!: fineE)
  have "set_range first final True (?c2 ?c1) = map (\<lambda>k. first \<le> int k \<and> int k \<le> final) [0..<length (chosen d)]"
  proof (rule nth_equalityI)
    fix k assume "k < length (set_range first final True (?c2 ?c1))"
    then have "k < length (chosen d)" by simp
    moreover from this have "int k < nb_items d" using len by linarith
    ultimately show "set_range first final True (?c2 ?c1) ! k = map (\<lambda>k. first \<le> int k \<and> int k \<le> final) [0..<length (chosen d)] ! k"
      by auto
  qed simp
  then show ?thesis using e1(1) e2(1) e3 by simp
qed

lemma MoveCaret_fine:
  assumes d: "core d" and i: "0 \<le> i" "i < nb_items d"
  shows "fine (extended d i) (LISTBOX_MoveCaret env i fully d)"
proof -
  let ?mid = "if flag d LBS_EXTENDEDSEL
     then (if anchor_item d \<noteq> -1
           then (let first = min i (anchor_item d); last = max i (anchor_item d)
                 in do { (_, e1) \<leftarrow> (if first > 0 then LISTBOX_SelectItemRange 0 (first - 1) False d else Some (LB_OKAY, d));
                         (_, e2) \<leftarrow> LISTBOX_SelectItemRange (last + 1) (-1) False e1;
                         (_, e3) \<leftarrow> LISTBOX_SelectItemRange first last True e2;
                         Some e3 })
           else Some d)
     else if \<not> flag d LBS_MULTIPLESEL then map_option snd (LISTBOX_SetSelection env i True False d)
     else Some d"
  let ?q = "\<lambda>e. core e \<and> unmarked e = unmarked d \<and> (sel_ok d \<longrightarrow> sel_ok e) \<and> (flag d LBS_MULTIPLESEL \<longrightarrow> selected_item e = selected_item d)
    \<and> chosen e = (if flag d LBS_EXTENDEDSEL \<and> \<not> flag d LBS_NOSEL \<and> anchor_item d \<noteq> -1
                  then map (\<lambda>k. min i (anchor_item d) \<le> int k \<and> int k \<le> max i (anchor_item d)) [0..<length (chosen d)] else chosen d)"
  have "fine ?q ?mid"
  proof (cases "flag d LBS_EXTENDEDSEL")
    case True
    show ?thesis
    proof (cases "anchor_item d = -1")
      case False
      from MoveCaret_selects [OF d i True False] show ?thesis unfolding Let_def if_P [OF True] if_P [OF False]
      proof (rule fine_mono, elim conjE)
        fix e assume e: "core e" "unmarked e = unmarked d" "selected_item e = selected_item d"
          "chosen e = (if flag d LBS_NOSEL then chosen d
             else map (\<lambda>k. min i (anchor_item d) \<le> int k \<and> int k \<le> max i (anchor_item d)) [0..<length (chosen d)])"
        show "?q e" using e unmarked_ok(1) [OF e(2,3)] True False by simp
      qed
    qed (use True d in simp)
  next
    case False
    show ?thesis
    proof (cases "flag d LBS_MULTIPLESEL")
      case single: False
      from SetSelection_fine [OF d, of i True env False] obtain r e where
        e: "LISTBOX_SetSelection env i True False d = Some (r, e)" "selection_set d i True (r, e)" by (auto elim!: fineE)
      then show ?thesis using False single selection_set_ok [OF e(2)] by (auto simp: selection_set_def split: if_splits)
    qed (use False d in simp)
  qed
  then obtain d1 where d1: "?mid = Some d1" "?q d1" by (auto elim: fineE)
  have n: "nb_items d1 = nb_items d" using d1(2) unmarkedD(1) by blast
  have c1: "core (d1\<lparr>focus_item := i\<rparr>)" "i < nb_items (d1\<lparr>focus_item := i\<rparr>)" using d1(2) n i by simp_all
  obtain d2 where d2: "LISTBOX_MakeItemVisible i fully (d1\<lparr>focus_item := i\<rparr>) = Some d2" "core d2" "rest d2 = rest (d1\<lparr>focus_item := i\<rparr>)"
    using MakeItemVisible_fine [OF c1(1) i(1) c1(2), of fully] by (auto elim: fineE)
  have f: "LISTBOX_DrawFocusRect env d2 = Some d2" "LISTBOX_DrawFocusRect env d = Some d"
    using DrawFocusRect_fine [OF d2(2)] DrawFocusRect_fine [OF d] by (auto elim: fineE)
  have "unmarked (d1\<lparr>focus_item := i\<rparr>) = unmarked (d\<lparr>focus_item := i\<rparr>)" using d1(2) by (simp add: unmarked_def)
  then have "extended d i d2" unfolding extended_def
    using d1(2) d2(2) rest_unmarked [OF d2(3)] rest_chosen [OF d2(3)] rest_ok(1) [OF d2(3)] rest_fields(5) [OF d2(3)] by simp
  moreover have "LISTBOX_MoveCaret env i fully d = do { d1 \<leftarrow> ?mid; d2 \<leftarrow> LISTBOX_MakeItemVisible i fully (d1\<lparr>focus_item := i\<rparr>); LISTBOX_DrawFocusRect env d2 }"
    using i f(2) by (simp add: LISTBOX_MoveCaret_def)
  ultimately show ?thesis using d1(1) d2(1) f(1) by simp
qed

lemma MoveCaret_out: "i < 0 \<or> nb_items d \<le> i \<Longrightarrow> LISTBOX_MoveCaret env i fully d = Some d"
  by (simp add: LISTBOX_MoveCaret_def)

end
