(* ===== verification/Listbox_Edit.thy ===== *)
theory Listbox_Edit
  imports Listbox_Change
begin

text \<open>
  Insertion and removal of items, emptying a listbox and setting its count: what the list of items and the selection are
  afterwards, and that the invariant is kept.
\<close>

lemma apart_nb: "apart d' = apart d \<Longrightarrow> apart (d'\<lparr>nb_items := n\<rparr>) = apart (d\<lparr>nb_items := n\<rparr>)"
proof -
  have "apart (e\<lparr>nb_items := n\<rparr>) = (apart e)\<lparr>nb_items := n\<rparr>" for e by (simp add: apart_def)
  then show "apart d' = apart d \<Longrightarrow> apart (d'\<lparr>nb_items := n\<rparr>) = apart (d\<lparr>nb_items := n\<rparr>)" by simp
qed

lemma style_nb [simp]:
  "multi (d\<lparr>nb_items := n\<rparr>) = multi d" "HAS_STRINGS (d\<lparr>nb_items := n\<rparr>) = HAS_STRINGS d"
  "IS_MULTISELECT (d\<lparr>nb_items := n\<rparr>) = IS_MULTISELECT d" "IS_OWNERDRAW (d\<lparr>nb_items := n\<rparr>) = IS_OWNERDRAW d"
  by (simp_all add: multi_def HAS_STRINGS_def IS_OWNERDRAW_def IS_MULTISELECT_def)

lemma core_counted:
  assumes d: "core d" and a: "apart d' = apart (d\<lparr>nb_items := n\<rparr>)" and n: "0 \<le> n" "flag d LBS_OWNERDRAWVARIABLE \<Longrightarrow> top_item d \<le> n"
    and s: "storage_ok d'" "n \<le> items_size d'" "items_size d' < 2147483648"
    and t: "HAS_STRINGS d \<Longrightarrow> \<forall>it\<in>set (items d'). it_str it \<noteq> None"
  shows "core d'"
  using d n s t by (auto simp: core_def strings_ok_def apart_fields [OF a] apart_flag [OF a])

section \<open>Insertion\<close>

text \<open>An item inserted at \<open>i\<close>; the selection of a listbox with several of them moves with its item, a single one keeps its index.\<close>

definition inserted :: "LB_DESCR \<Rightarrow> int \<Rightarrow> cstring option \<Rightarrow> int \<Rightarrow> LB_DESCR \<Rightarrow> bool" where
  "inserted d i str data d' \<longleftrightarrow> nb_items d' = nb_items d + 1
     \<and> (\<not> flag d LBS_NODATA \<longrightarrow> (\<exists>it. items d' = take (nat i) (items d) @ it # drop (nat i) (items d)
          \<and> it_str it = str \<and> it_data it = (if HAS_STRINGS d then 0 else data)))
     \<and> (multi d \<longrightarrow> chosen d' = take (nat i) (chosen d) @ False # drop (nat i) (chosen d))
     \<and> selected_item d' = (if nb_items d = 0 \<or> \<not> IS_MULTISELECT d \<or> selected_item d < i then selected_item d else selected_item d + 1)"

lemma measure_item_fine:
  assumes d: "core d" "0 \<le> i" "i < nb_items d"
  shows "fine (\<lambda>d'. storage_ok d' \<and> apart d' = apart d \<and> items_size d' = items_size d \<and> marks d' = marks d
      \<and> (\<not> flag d LBS_NODATA \<longrightarrow> (\<exists>h. items d' = (items d)[nat i := (items d ! nat i)\<lparr>it_height := h\<rparr>]))) (measure_item env i data d)"
proof (cases "flag d LBS_OWNERDRAWVARIABLE")
  case True
  define h where "h = (let h = lb_measure env i data (item_height d) in if h \<noteq> 0 then h else 1)"
  have s: "storage_ok d" "nb_items d \<le> items_size d" using core_store [OF d(1)] by simp_all
  from change_item_fine [OF s(1) d(2,3) s(2), of "\<lambda>it. it\<lparr>it_height := h\<rparr>"] show ?thesis using True
    by (auto simp: measure_item_def set_item_height_def h_def Let_def elim!: fine_mono)
next
  case False
  have "\<exists>h. items d = (items d)[nat i := (items d ! nat i)\<lparr>it_height := h\<rparr>]" if "\<not> flag d LBS_NODATA"
  proof -
    have "(items d ! nat i)\<lparr>it_height := it_height (items d ! nat i)\<rparr> = items d ! nat i" by simp
    then show ?thesis by (metis list_update_id)
  qed
  then show ?thesis using False core_store [OF d(1)] by (simp add: measure_item_def)
qed

lemma strings_insert:
  assumes "\<forall>it\<in>set xs. it_str it \<noteq> None" "it_str x \<noteq> None" "y \<in> set (take k xs @ x # drop k xs)"
  shows "it_str y \<noteq> None"
proof -
  have "y = x \<or> y \<in> set xs" using assms(3) set_take_subset [of k xs] set_drop_subset [of k xs] by auto
  then show ?thesis using assms(1,2) by metis
qed

lemma put_measured:
  assumes d: "core d" "0 \<le> i" "i \<le> nb_items d" "nb_items d < 2147483632" and str: "HAS_STRINGS d \<Longrightarrow> str \<noteq> None"
    and r: "resize_storage env d (nb_items d + 1) = (True, d0)"
  shows "fine (\<lambda>d'. core d' \<and> apart d' = apart (d\<lparr>nb_items := nb_items d + 1\<rparr>)
      \<and> (\<not> flag d LBS_NODATA \<longrightarrow> (\<exists>it. items d' = take (nat i) (items d) @ it # drop (nat i) (items d)
          \<and> it_str it = str \<and> it_data it = (if HAS_STRINGS d then 0 else data) \<and> (multi d \<longrightarrow> \<not> it_selected it)))
      \<and> (flag d LBS_NODATA \<and> multi d \<longrightarrow> marks d' = take (nat i) (marks d) @ False # drop (nat i) (marks d)))
    (do { d5 \<leftarrow> put_item i str data d0; measure_item env i data d5 })"
proof -
  have s: "storage_ok d" "0 \<le> nb_items d" "nb_items d \<le> items_size d" "items_size d < 2147483648" using core_store [OF d(1)] by simp_all
  have "storage_ok d0 \<and> nb_items d + 1 \<le> items_size d0 \<and> items_size d0 < 2147483648 \<and> stored (min (nb_items d + 1) (nb_items d)) d d0"
    using s d r by (intro resize_storage_ok [OF s]) auto
  then have st: "storage_ok d0" "nb_items d < items_size d0" "items_size d0 < 2147483648" "apart d0 = apart d"
    "first_cells (nb_items d) (u_items d0) = first_cells (nb_items d) (u_items d)" "first_cells (nb_items d) (u_nodata d0) = first_cells (nb_items d) (u_nodata d)"
    by (simp_all add: stored_def)
  then have d0: "storage_ok d0" "nb_items d < items_size d0" "items_size d0 < 2147483648" "apart d0 = apart d" "items d0 = items d" "marks d0 = marks d"
    by (simp_all add: items_first_cells marks_first_cells apart_fields(1) [OF st(4)])
  have i: "i \<le> nb_items d0" "nb_items d0 < items_size d0" using d d0 apart_fields(1) [OF d0(4)] by simp_all
  note a0 = apart_fields [OF d0(4)] apart_flag [OF d0(4)]
  obtain d5 where d5: "put_item i str data d0 = Some d5" "storage_ok d5" "apart d5 = apart (d0\<lparr>nb_items := nb_items d0 + 1\<rparr>)" "items_size d5 = items_size d0"
    "\<not> flag d LBS_NODATA \<longrightarrow> (\<exists>s. (multi d \<longrightarrow> \<not> s) \<and> items d5 =
       take (nat i) (items d) @ \<lparr>it_str = str, it_selected = s, it_height = 0, it_data = (if HAS_STRINGS d then 0 else data)\<rparr> # drop (nat i) (items d))"
    "flag d LBS_NODATA \<and> multi d \<longrightarrow> marks d5 = take (nat i) (marks d) @ False # drop (nat i) (marks d)"
    using put_item_fine [OF d0(1) d(2) i, of str data] by (auto simp: a0 d0(5,6) elim!: fineE)
  have a5: "apart d5 = apart (d\<lparr>nb_items := nb_items d + 1\<rparr>)" using d5(3) apart_nb [OF d0(4)] a0(1) by simp
  have "it_str it \<noteq> None" if "HAS_STRINGS d" "it \<in> set (items d5)" for it
  proof -
    have nd: "\<not> flag d LBS_NODATA" "\<forall>it\<in>set (items d). it_str it \<noteq> None" using d(1) that by (auto simp: core_def strings_ok_def)
    then obtain x where "it_str x = str" "items d5 = take (nat i) (items d) @ x # drop (nat i) (items d)" using d5(5) by fastforce
    then show ?thesis using strings_insert [OF nd(2), of x it "nat i"] that str [OF that(1)] by simp
  qed
  moreover have "nb_items d + 1 \<le> items_size d5" "items_size d5 < 2147483648" "0 \<le> nb_items d + 1" using d5(4) d0 s by auto
  moreover have "flag d LBS_OWNERDRAWVARIABLE \<Longrightarrow> top_item d \<le> nb_items d + 1" using d(1) by (simp add: core_def)
  ultimately have c5: "core d5" using core_counted [OF d(1) a5] d5(2) by blast
  have n5: "nb_items d5 = nb_items d + 1" using apart_fields(1) [OF a5] by simp
  obtain d6 where d6: "measure_item env i data d5 = Some d6" "storage_ok d6" "apart d6 = apart d5" "items_size d6 = items_size d5" "marks d6 = marks d5"
    "\<not> flag d5 LBS_NODATA \<longrightarrow> (\<exists>h. items d6 = (items d5)[nat i := (items d5 ! nat i)\<lparr>it_height := h\<rparr>])"
    using measure_item_fine [OF c5 d(2), of env data] n5 d(3) by (auto elim!: fineE)
  have it6: "\<exists>it. items d6 = take (nat i) (items d) @ it # drop (nat i) (items d)
          \<and> it_str it = str \<and> it_data it = (if HAS_STRINGS d then 0 else data) \<and> (multi d \<longrightarrow> \<not> it_selected it)" if nd: "\<not> flag d LBS_NODATA"
  proof -
    have l: "length (take (nat i) (items d)) = nat i" using length_items [OF d(1) nd] d(3) by simp
    obtain s h where e: "multi d \<longrightarrow> \<not> s" "items d5 =
       take (nat i) (items d) @ \<lparr>it_str = str, it_selected = s, it_height = 0, it_data = (if HAS_STRINGS d then 0 else data)\<rparr> # drop (nat i) (items d)"
      "items d6 = (items d5)[nat i := (items d5 ! nat i)\<lparr>it_height := h\<rparr>]"
      using d5(5) d6(6) nd apart_flag(1) [OF a5] by auto
    then have "items d6 = take (nat i) (items d) @ \<lparr>it_str = str, it_selected = s, it_height = h, it_data = (if HAS_STRINGS d then 0 else data)\<rparr> # drop (nat i) (items d)"
      using l by (simp add: nth_append list_update_append)
    then show ?thesis using e(1) by auto
  qed
  have "it_str it \<noteq> None" if "HAS_STRINGS d" "it \<in> set (items d6)" for it
  proof -
    have nd: "\<not> flag d LBS_NODATA" "\<forall>it\<in>set (items d). it_str it \<noteq> None" using d(1) that by (auto simp: core_def strings_ok_def)
    then obtain x where "it_str x = str" "items d6 = take (nat i) (items d) @ x # drop (nat i) (items d)" using it6 by fastforce
    then show ?thesis using strings_insert [OF nd(2), of x it "nat i"] that str [OF that(1)] by simp
  qed
  moreover have "HAS_STRINGS d5 = HAS_STRINGS d" using apart_flag(3) [OF a5] by simp
  ultimately have "core d6" using core_stored [OF c5 d6(3,2)] d6(4) core_store [OF c5] by simp
  then show ?thesis using d5(1,6) d6 a5 it6 by simp
qed

lemma InsertItem_fine:
  fixes i :: int
  assumes d: "lb_ok d" "nb_items d < 2147483632" and str: "HAS_STRINGS d \<Longrightarrow> str \<noteq> None"
  defines "j \<equiv> (if i = -1 then nb_items d else i)"
  shows "fine (\<lambda>(r, d'). lb_ok d' \<and> (if r = LB_OKAY then 0 \<le> j \<and> j \<le> nb_items d \<and> inserted d j str data d' else r = LB_ERR \<and> unmarked d' = unmarked d
      \<and> chosen d' = chosen d \<and> selected_item d' = selected_item d \<and> (j < 0 \<or> nb_items d < j \<or> \<not> fst (resize_storage env d (nb_items d + 1)))))
    (LISTBOX_InsertItem env i str data d)"
proof -
  obtain ok d0 where r: "resize_storage env d (nb_items d + 1) = (ok, d0)" by fastforce
  have c: "core d" "focus_ok d" "sel_ok d" using d(1) by (simp_all add: lb_ok_iff)
  consider "j < 0 \<or> nb_items d < j" | "0 \<le> j" "j \<le> nb_items d" "\<not> ok" | "0 \<le> j" "j \<le> nb_items d" "ok" by linarith
  then show ?thesis
  proof cases
    case 1
    then have "LISTBOX_InsertItem env i str data d = Some (LB_ERR, d)" by (simp add: LISTBOX_InsertItem_def j_def [symmetric] Let_def)
    then show ?thesis using d(1) 1 by (auto simp: LB_ERR_def LB_OKAY_def)
  next
    case 2
    then have "d0 = send (Notify LBN_ERRSPACE) d" using r by (auto simp: resize_storage_def Let_def split: if_splits)
    moreover have "LISTBOX_InsertItem env i str data d = Some (LB_ERR, d0)" using 2 r by (simp add: LISTBOX_InsertItem_def j_def [symmetric] Let_def)
    ultimately show ?thesis using c r 2 by (simp add: LB_ERR_def LB_OKAY_def lb_ok_iff)
  next
    case 3
    define n where "n = nb_items d + 1"
    have rt: "resize_storage env d (nb_items d + 1) = (True, d0)" using r 3 by simp
    obtain d6 where d6: "do { d5 \<leftarrow> put_item j str data d0; measure_item env j data d5 } = Some d6" "core d6" "apart d6 = apart (d\<lparr>nb_items := n\<rparr>)"
      "\<not> flag d LBS_NODATA \<longrightarrow> (\<exists>it. items d6 = take (nat j) (items d) @ it # drop (nat j) (items d)
          \<and> it_str it = str \<and> it_data it = (if HAS_STRINGS d then 0 else data) \<and> (multi d \<longrightarrow> \<not> it_selected it))"
      "flag d LBS_NODATA \<and> multi d \<longrightarrow> marks d6 = take (nat j) (marks d) @ False # drop (nat j) (marks d)"
      using put_measured [OF c(1) 3(1,2) d(2) str rt, of data] unfolding n_def by (auto elim!: fineE)
    note f6 = apart_fields [OF d6(3)] apart_flag [OF d6(3)]
    obtain d7 where d7: "LISTBOX_UpdateScroll d6 = Some d7" "core d7" "rest d7 = rest d6" using UpdateScroll_fine [OF d6(2)] by (auto elim: fineE)
    obtain d8 where d8: "LISTBOX_InvalidateItems j d7 = Some d8" "core d8" "rest d8 = rest d6" using InvalidateItems_fine [OF d7(2), of j] d7(3) by (auto elim: fineE)
    note f8 = restD [OF d8(3)] rest_flag [OF d8(3)]
    have nb8: "nb_items d8 = n" "selected_item d8 = selected_item d" "focus_item d8 = focus_item d" using f8(1,5,6) f6(1,7,8) by simp_all
    have ms: "IS_MULTISELECT d8 = IS_MULTISELECT d" "flag d8 LBS_NOSEL = flag d LBS_NOSEL" "flag d8 LBS_MULTIPLESEL = flag d LBS_MULTIPLESEL"
      using f8 f6 by (simp_all add: style_defs apart_fields(2) [OF d6(3)])
    have ch: "chosen d8 = take (nat j) (chosen d) @ False # drop (nat j) (chosen d)" if "multi d"
      using d6(4,5) that rest_chosen [OF d8(3)] by (auto simp: chosen_def f6 take_map drop_map)
    let ?q = "\<lambda>d9. lb_ok d9 \<and> nb_items d9 = n \<and> items d9 = items d8 \<and> chosen d9 = chosen d8
      \<and> selected_item d9 = (if nb_items d = 0 \<or> \<not> IS_MULTISELECT d \<or> selected_item d < j then selected_item d else selected_item d + 1)"
    let ?tail = "if nb_items d8 = 1 then map_option snd (LISTBOX_SetCaretIndex env 0 False d8)
                           else if \<not> IS_MULTISELECT d8
                           then map_option snd (LISTBOX_SetSelection env (selected_item d8) True False (d8\<lparr>selected_item := selected_item d8 + 1\<rparr>))
                           else Some (if j \<le> selected_item d8 then d8\<lparr>selected_item := selected_item d8 + 1, focus_item := focus_item d\<rparr> else d8)"
    have n: "0 < n" "n - 1 = nb_items d" using core_store [OF c(1)] by (simp_all add: n_def)
    have "fine ?q ?tail"
    proof -
      consider "n = 1" | "n \<noteq> 1" "\<not> IS_MULTISELECT d" | "n \<noteq> 1" "IS_MULTISELECT d" by blast
      then show ?thesis
      proof cases
        case 1
        obtain x d9 where d9: "LISTBOX_SetCaretIndex env 0 False d8 = Some (x, d9)" "core d9"
          "rest d9 = rest (if flag d8 LBS_NOSEL \<or> (0::int) < 0 \<or> 0 \<ge> nb_items d8 then d8 else d8\<lparr>focus_item := 0\<rparr>)"
          using SetCaretIndex_fine [OF d8(2), of 0 env False] by (auto elim!: fineE)
        define e where "e = (if flag d8 LBS_NOSEL \<or> (0::int) < 0 \<or> 0 \<ge> nb_items d8 then d8 else d8\<lparr>focus_item := 0\<rparr>)"
        have e: "nb_items e = 1" "items e = items d8" "chosen e = chosen d8" "selected_item e = selected_item d" "focus_item e = 0"
          "flag e LBS_MULTIPLESEL = flag d LBS_MULTIPLESEL" "flag e LBS_NOSEL = flag d LBS_NOSEL"
          using nb8 1 n c(2) ms by (auto simp: e_def focus_ok_def)
        have r9: "rest d9 = rest e" using d9(3) by (simp add: e_def)
        have "sel_ok e" "focus_ok e" using e c(3) n 1 by (auto simp: sel_ok_def focus_ok_def)
        then have "?q d9" using d9(2) rest_ok [OF r9] restD(1,5,12) [OF r9] rest_chosen [OF r9] e 1 n by (simp add: lb_ok_iff)
        then show ?thesis using nb8 1 d9(1) by simp
      next
        case 2
        let ?e = "d8\<lparr>selected_item := selected_item d8 + 1\<rparr>"
        obtain x d9 where d9: "LISTBOX_SetSelection env (selected_item d8) True False ?e = Some (x, d9)" "selection_set ?e (selected_item d8) True (x, d9)"
          using SetSelection_fine [of ?e "selected_item d8" True env False] d8(2) by (auto elim!: fineE)
        have "\<not> flag d LBS_NOSEL \<Longrightarrow> \<not> flag d LBS_MULTIPLESEL" using 2 by (auto simp: IS_MULTISELECT_def multi_def)
        moreover have "\<not> flag d LBS_NOSEL \<Longrightarrow> \<not> flag d LBS_MULTIPLESEL \<Longrightarrow> -1 \<le> selected_item d \<and> selected_item d < n"
          using c(3) n by (auto simp: sel_ok_def)
        ultimately have e9: "core d9 \<and> unmarked d9 = unmarked d8 \<and> selected_item d9 = selected_item d \<and> chosen d9 = chosen d8 \<and> items d9 = items d8"
          using d9(2) nb8 ms by (auto simp: selection_set_def split: if_splits)
        then have u: "unmarked d9 = unmarked d8" by simp
        have "focus_ok d8" "flag d8 LBS_NOSEL \<or> (-1 \<le> selected_item d \<and> selected_item d < n)"
          using c(2,3) n nb8 ms \<open>\<not> flag d LBS_NOSEL \<Longrightarrow> \<not> flag d LBS_MULTIPLESEL\<close> by (auto simp: focus_ok_def sel_ok_def)
        then have "focus_ok d9" "sel_ok d9"
          using e9 unmarked_ok(2) [OF u] unmarked_flag [OF u] unmarkedD(1) [OF u] nb8 by (auto simp: sel_ok_def)
        then have "?q d9" using e9 2 unmarkedD(1) [OF u] nb8 by (simp add: lb_ok_iff)
        then show ?thesis using nb8 ms 2 d9(1) by simp
      next
        case 3
        then have m: "flag d LBS_MULTIPLESEL" using c(1) by (auto simp: IS_MULTISELECT_def multi_def core_def)
        let ?e = "if j \<le> selected_item d8 then d8\<lparr>selected_item := selected_item d8 + 1, focus_item := focus_item d\<rparr> else d8"
        have "focus_ok ?e" "sel_ok ?e" using c(2) m ms nb8 n by (auto simp: focus_ok_def sel_ok_def)
        then have "?q ?e" using d8(2) nb8 3 n by (auto simp: lb_ok_iff)
        then show ?thesis using nb8 ms 3 by auto
      qed
    qed
    then obtain d9 where d9: "?tail = Some d9" "?q d9" by (auto elim: fineE)
    obtain d5 where d5: "put_item j str data d0 = Some d5" "measure_item env j data d5 = Some d6" using d6(1) by (auto simp: bind_eq_Some_conv)
    have "LISTBOX_InsertItem env i str data d = do { d9 \<leftarrow> ?tail; Some (LB_OKAY, d9) }"
      using 3(1,2) rt d5 d7(1) d8(1) by (simp add: LISTBOX_InsertItem_def j_def [symmetric] Let_def)
    then have "LISTBOX_InsertItem env i str data d = Some (LB_OKAY, d9)" unfolding d9(1) by simp
    moreover have "inserted d j str data d9" using d9(2) ch d6(4) restD(12) [OF d8(3)] by (auto simp: inserted_def n_def)
    ultimately show ?thesis using d9(2) 3 by simp
  qed
qed

text \<open>The string that is stored: none for an item without one.\<close>

definition stored_string :: "LB_DESCR \<Rightarrow> cstring option \<Rightarrow> cstring option" where
  "stored_string d str = (if HAS_STRINGS d then Some (case str of None \<Rightarrow> [] | Some t \<Rightarrow> t) else None)"

lemma InsertString_fine:
  fixes i :: int
  assumes d: "lb_ok d" "nb_items d < 2147483632"
  defines "j \<equiv> (if i = -1 then nb_items d else i)"
  shows "fine (\<lambda>(r, d'). lb_ok d' \<and> (if 0 \<le> r then r = j \<and> j \<le> nb_items d \<and> inserted d j (stored_string d str) data d'
      else unmarked d' = unmarked d \<and> chosen d' = chosen d \<and> selected_item d' = selected_item d
        \<and> (j < 0 \<or> nb_items d < j \<or> \<not> fst (resize_storage env d (nb_items d + 1)) \<or> \<not> (\<forall>n. lb_mem env n))))
    (LISTBOX_InsertString env i str data d)"
proof (cases "HAS_STRINGS d \<and> \<not> lb_mem env (int (length (case str of None \<Rightarrow> [] | Some t \<Rightarrow> t)) + 1)")
  case True
  then show ?thesis using d by (auto simp: LISTBOX_InsertString_def Let_def lb_ok_iff LB_ERRSPACE_def)
next
  case False
  have "HAS_STRINGS d \<Longrightarrow> stored_string d str \<noteq> None" by (simp add: stored_string_def)
  from InsertItem_fine [where i = j and env = env and data = data, OF d this] obtain r d' where e: "LISTBOX_InsertItem env j (stored_string d str) data d = Some (r, d')" "lb_ok d'"
      "if r = LB_OKAY then 0 \<le> j \<and> j \<le> nb_items d \<and> inserted d j (stored_string d str) data d' else r = LB_ERR \<and> unmarked d' = unmarked d
      \<and> chosen d' = chosen d \<and> selected_item d' = selected_item d \<and> (j < 0 \<or> nb_items d < j \<or> \<not> fst (resize_storage env d (nb_items d + 1)))"
    using core_store [of d] d by (auto simp: j_def lb_ok_iff elim!: fineE split: if_splits)
  have "LISTBOX_InsertString env i str data d = Some (if r \<noteq> LB_OKAY then r else j, d')"
    using False e(1) by (auto simp: LISTBOX_InsertString_def j_def stored_string_def Let_def)
  then show ?thesis using e(2,3) by (auto simp: LB_OKAY_def LB_ERR_def split: if_splits)
qed

section \<open>Emptying\<close>

lemma DeleteItem_fine:
  assumes "storage_ok d" "strings_ok d" "0 \<le> i" "i < items_size d"
  shows "fine (\<lambda>d'. d' = d \<or> (\<exists>c. d' = send c d)) (LISTBOX_DeleteItem i d)"
proof -
  have "fine (\<lambda>_. True) (get_item_data d i) \<and> fine (\<lambda>_. True) (get_item_string d i)"
  proof (cases "flag d LBS_NODATA")
    case True
    then show ?thesis using assms(2) by (auto simp: get_item_data_def get_item_string_def strings_ok_def)
  next
    case False
    then obtain xs where "u_items d = Some xs" "i < int (length xs)"
      using assms by (auto simp: storage_ok_def cells_ok_def split: option.splits)
    then show ?thesis using False assms(3) by (simp add: get_item_data_def get_item_string_def cell_def)
  qed
  then obtain x str where "get_item_data d i = Some x" "get_item_string d i = Some str" unfolding fine_def by blast
  then have "LISTBOX_DeleteItem i d = Some (if IS_OWNERDRAW d \<or> x \<noteq> 0 then send (DeleteItem i x) d else d)" by (simp add: LISTBOX_DeleteItem_def)
  then show ?thesis by auto
qed

lemma delete_items_fine: "core d \<Longrightarrow> int n \<le> nb_items d \<Longrightarrow> fine (\<lambda>d'. core d') (delete_items n d)"
proof (induction n arbitrary: d)
  case (Suc n)
  have "fine (\<lambda>d'. d' = d \<or> (\<exists>c. d' = send c d)) (LISTBOX_DeleteItem (int n) d)"
    using Suc.prems by (intro DeleteItem_fine) (auto simp: core_def)
  then obtain e where e: "LISTBOX_DeleteItem (int n) d = Some e" "core e" "int n \<le> nb_items e"
    using Suc.prems by (auto elim!: fineE)
  show ?case using Suc.IH [OF e(2,3)] e(1) by simp
qed simp

lemma reset_content_fine:
  assumes "core d"
  shows "fine (\<lambda>d'. lb_ok d' \<and> nb_items d' = 0 \<and> items d' = [] \<and> chosen d' = [] \<and> selected_item d' = -1) (reset_content d)"
proof -
  have "fine core (if flag d LBS_NODATA then Some d else delete_items (nat (nb_items d)) d)"
    using assms delete_items_fine [OF assms, of "nat (nb_items d)"] core_store [OF assms] by simp
  then obtain d1 where d1: "(if flag d LBS_NODATA then Some d else delete_items (nat (nb_items d)) d) = Some d1" "core d1"
    by (auto simp: fine_def)
  define e where "e = d1\<lparr>nb_items := 0, top_item := 0, selected_item := -1, focus_item := 0, anchor_item := -1, items_size := 0, u_items := None, u_nodata := None\<rparr>"
  have e: "core e" "focus_ok e" "sel_ok e"
    using d1(2) by (simp_all add: e_def core_unfold cells_ok_def focus_ok_def sel_ok_def)
  have "LISTBOX_ResetContent d = Some e" using d1(1) by (simp add: LISTBOX_ResetContent_def e_def)
  moreover obtain d2 where d2: "LISTBOX_UpdateScroll e = Some d2" "core d2" "rest d2 = rest e" using UpdateScroll_fine [OF e(1)] by (auto elim: fineE)
  moreover have "items e = []" "chosen e = []" by (simp_all add: e_def items_def chosen_def marks_def)
  moreover have "nb_items e = 0" "selected_item e = -1" by (simp_all add: e_def)
  ultimately show ?thesis using e restD(1,5,12) [OF d2(3)] rest_ok [OF d2(3)] rest_chosen [OF d2(3)] by (simp add: reset_content_def lb_ok_iff)
qed

section \<open>Removal\<close>

definition removed :: "LB_DESCR \<Rightarrow> int \<Rightarrow> LB_DESCR \<Rightarrow> bool" where
  "removed d i d' \<longleftrightarrow> nb_items d' = nb_items d - 1 \<and> items d' = take (nat i) (items d) @ drop (Suc (nat i)) (items d)
     \<and> (multi d \<longrightarrow> chosen d' = take (nat i) (chosen d) @ drop (Suc (nat i)) (chosen d))
     \<and> selected_item d' = (if nb_items d = 1 then -1 else if IS_MULTISELECT d then selected_item d else if i = selected_item d then -1
                            else if i < selected_item d then selected_item d - 1 else selected_item d)"

lemma cells_removed:
  assumes d: "core d" "\<not> flag d LBS_OWNERDRAWVARIABLE" "0 \<le> i" "i < nb_items d"
  shows "fine (\<lambda>d'. core d' \<and> apart d' = apart (d\<lparr>nb_items := nb_items d - 1\<rparr>) \<and> items d' = take (nat i) (items d) @ drop (Suc (nat i)) (items d)
      \<and> marks d' = take (nat i) (marks d) @ drop (Suc (nat i)) (marks d)) (remove_item_data i (d\<lparr>nb_items := nb_items d - 1\<rparr>))"
proof -
  let ?e = "d\<lparr>nb_items := nb_items d - 1\<rparr>"
  have "storage_ok ?e" using core_store [OF d(1)] by (simp add: storage_ok_def multi_def)
  then have "fine (\<lambda>d'. storage_ok d' \<and> apart d' = apart ?e \<and> items_size d' = items_size ?e
      \<and> items d' = (let xs = first_cells (nb_items ?e + 1) (u_items ?e) in take (nat i) xs @ drop (Suc (nat i)) xs)
      \<and> marks d' = (let xs = first_cells (nb_items ?e + 1) (u_nodata ?e) in take (nat i) xs @ drop (Suc (nat i)) xs)) (remove_item_data i ?e)"
    using d core_store [OF d(1)] by (intro remove_item_data_fine) auto
  then show ?thesis
  proof (rule fine_mono, elim conjE)
    fix d' assume s: "storage_ok d'" "apart d' = apart ?e" "items_size d' = items_size ?e"
      and it: "items d' = (let xs = first_cells (nb_items ?e + 1) (u_items ?e) in take (nat i) xs @ drop (Suc (nat i)) xs)"
      and ma: "marks d' = (let xs = first_cells (nb_items ?e + 1) (u_nodata ?e) in take (nat i) xs @ drop (Suc (nat i)) xs)"
    have i: "items d' = take (nat i) (items d) @ drop (Suc (nat i)) (items d)" using it by (simp add: items_first_cells Let_def)
    have m: "marks d' = take (nat i) (marks d) @ drop (Suc (nat i)) (marks d)" using ma by (simp add: marks_first_cells Let_def)
    have "set (items d') \<subseteq> set (items d)" unfolding i using set_take_subset set_drop_subset by fastforce
    then have "HAS_STRINGS d \<Longrightarrow> \<forall>it\<in>set (items d'). it_str it \<noteq> None" using d(1) unfolding core_def strings_ok_def by blast
    then have "core d'" using core_counted [OF d(1) s(2) _ _ s(1)] s(3) d core_store [OF d(1)] by auto
    then show "core d' \<and> apart d' = apart ?e \<and> items d' = take (nat i) (items d) @ drop (Suc (nat i)) (items d)
      \<and> marks d' = take (nat i) (marks d) @ drop (Suc (nat i)) (marks d)" using s i m by simp
  qed
qed


end
