(* ===== verification/Listbox_Remove.thy ===== *)
theory Listbox_Remove
  imports Listbox_Edit
begin

text \<open>
  Removal of an item, the count of a listbox without data, and room in advance.
\<close>

section \<open>Room\<close>

text \<open>A result that is refused leaves only a message; otherwise the items up to the new count are kept.\<close>

lemma resized_fine:
  assumes d: "core d" "0 \<le> n" "n \<le> 2147483632"
  obtains ok d' where "resize_storage env d n = (ok, d')" "apart d' = apart d \<or> d' = send (Notify LBN_ERRSPACE) d" "storage_ok d'" "items_size d' < 2147483648"
    "ok \<Longrightarrow> n \<le> items_size d'" "nb_items d \<le> n \<Longrightarrow> core d' \<and> items d' = items d \<and> marks d' = marks d" "\<not> ok \<Longrightarrow> d' = send (Notify LBN_ERRSPACE) d"
    "ok \<Longrightarrow> apart d' = apart d"
proof -
  obtain ok d' where r: "resize_storage env d n = (ok, d')" by fastforce
  have s: "storage_ok d" "0 \<le> nb_items d" "nb_items d \<le> items_size d" "items_size d < 2147483648" using core_store [OF d(1)] by simp_all
  show ?thesis
  proof (cases ok)
    case True
    then have st: "storage_ok d'" "n \<le> items_size d'" "items_size d' < 2147483648" "stored (min n (nb_items d)) d d'"
      using resize_storage_ok [OF s d(2,3), of env d'] r by auto
    have a: "apart d' = apart d" using st(4) by (simp add: stored_def)
    have "core d' \<and> items d' = items d \<and> marks d' = marks d" if "nb_items d \<le> n"
    proof -
      have "first_cells (nb_items d) (u_items d') = first_cells (nb_items d) (u_items d)" "first_cells (nb_items d) (u_nodata d') = first_cells (nb_items d) (u_nodata d)"
        using st(4) that by (simp_all add: stored_def min_absorb2)
      then have im: "items d' = items d" "marks d' = marks d" by (simp_all add: items_first_cells marks_first_cells apart_fields(1) [OF a])
      have "HAS_STRINGS d \<Longrightarrow> \<forall>it\<in>set (items d'). it_str it \<noteq> None" using d(1) unfolding im core_def strings_ok_def by blast
      then show ?thesis using core_stored [OF d(1) a st(1)] st that im by auto
    qed
    then show ?thesis using that r st a True by blast
  next
    case False
    then have "d' = send (Notify LBN_ERRSPACE) d" using r by (auto simp: resize_storage_def Let_def split: if_splits)
    then show ?thesis using that [OF r] False s d(1) by (simp add: storage_ok_def multi_def)
  qed
qed

lemma InitStorage_fine:
  assumes "lb_ok d" "0 \<le> n" "nb_items d + n \<le> 2147483632"
  shows "lb_ok (snd (LISTBOX_InitStorage env n d))"
proof -
  have c: "core d" "focus_ok d" "sel_ok d" using assms(1) by (simp_all add: lb_ok_iff)
  have u: "to_uint (nb_items d + n) = nb_items d + n" using assms(2,3) core_store [OF c(1)] by (simp add: to_uint_def)
  obtain ok d' where r: "resize_storage env d (nb_items d + n) = (ok, d')" "apart d' = apart d \<or> d' = send (Notify LBN_ERRSPACE) d" "core d'"
    using resized_fine [OF c(1) _ assms(3), of env] core_store [OF c(1)] assms(2) by (metis add_increasing2 add_nonneg_nonneg le_add_same_cancel1)
  have "focus_ok d' \<and> sel_ok d'"
    using r(2)
  proof
    assume "apart d' = apart d"
    from apart_fields [OF this] apart_flag [OF this] show ?thesis using c by (simp add: focus_ok_def sel_ok_def)
  qed (use c in simp)
  then show ?thesis using r(1,3) assms(1) by (simp add: LISTBOX_InitStorage_def u lb_ok_iff Let_def)
qed

section \<open>Removal\<close>

lemma RemoveItem_fine:
  assumes d: "lb_ok d" "nb_items d \<le> 2147483632" "\<not> flag d LBS_OWNERDRAWVARIABLE"
  shows "fine (\<lambda>(r, d'). lb_ok d' \<and> (if 0 \<le> i \<and> i < nb_items d then r = LB_OKAY \<and> removed d i d' else r = LB_ERR \<and> d' = d)) (LISTBOX_RemoveItem env i d)"
proof (cases "0 \<le> i \<and> i < nb_items d")
  case False
  then show ?thesis using d(1) by (auto simp: LISTBOX_RemoveItem_def)
next
  case i: True
  have c: "core d" "focus_ok d" "sel_ok d" using d(1) by (simp_all add: lb_ok_iff)
  obtain d0 where d0: "LISTBOX_InvalidateItems i d = Some d0" "core d0" "rest d0 = rest d" using InvalidateItems_fine [OF c(1), of i] by (auto elim: fineE)
  note f0 = restD [OF d0(3)] rest_flag [OF d0(3)]
  show ?thesis
  proof (cases "nb_items d = 1")
    case True
    obtain d' where d': "reset_content d0 = Some d'" "lb_ok d'" "nb_items d' = 0" "items d' = []" "chosen d' = []" "selected_item d' = -1"
      using reset_content_fine [OF d0(2)] by (auto elim: fineE)
    have l: "length (items d) \<le> 1" "multi d \<Longrightarrow> length (chosen d) = 1"
      using True length_chosen [OF c(1)] by (auto simp: items_def split: option.splits)
    have "removed d i d'" using True i d' l by (auto simp: removed_def)
    then show ?thesis using i True d'(1,2) d0(1) f0(1) by (simp add: LISTBOX_RemoveItem_def)
  next
    case n1: False
    define n where "n = nb_items d - 1"
    have n: "0 < n" "n \<le> 2147483632" "i \<le> n" "nb_items d0 = n + 1" using i n1 d(2) f0(1) by (auto simp: n_def)
    have s0: "storage_ok (d0\<lparr>nb_items := n\<rparr>)" "strings_ok (d0\<lparr>nb_items := n\<rparr>)" "i < items_size d0"
    proof -
      show "storage_ok (d0\<lparr>nb_items := n\<rparr>)" using core_store [OF d0(2)] by (simp add: storage_ok_def multi_def)
      have "set (items (d0\<lparr>nb_items := n\<rparr>)) \<subseteq> set (items d0)"
      proof (cases "u_items d0")
        case (Some xs)
        have "set (take (nat n) xs) \<subseteq> set (take (nat (n + 1)) xs)" using n by (intro set_take_subset_set_take) simp
        then show ?thesis using Some n(4) by (simp add: items_first_cells first_cells_def)
      qed (simp add: items_first_cells first_cells_def)
      then show "strings_ok (d0\<lparr>nb_items := n\<rparr>)" using d0(2) unfolding core_def strings_ok_def by auto
      show "i < items_size d0" using core_store [OF d0(2)] n i f0(1) by linarith
    qed
    obtain d1 where d1: "LISTBOX_DeleteItem i (d0\<lparr>nb_items := n\<rparr>) = Some d1" "d1 = d0\<lparr>nb_items := n\<rparr> \<or> (\<exists>x. d1 = send x (d0\<lparr>nb_items := n\<rparr>))"
      using DeleteItem_fine [OF s0(1,2), of i] s0(3) i by (auto elim: fineE)
    obtain e where e: "core e" "rest e = rest d" "d1 = e\<lparr>nb_items := nb_items e - 1\<rparr>" "nb_items e = nb_items d"
    proof -
      from d1(2) consider "d1 = d0\<lparr>nb_items := n\<rparr>" | x where "d1 = send x (d0\<lparr>nb_items := n\<rparr>)" by blast
      then show ?thesis
      proof cases
        case 1
        then show ?thesis using that [of d0] d0 n f0(1) by simp
      next
        case 2
        have "d1 = (send x d0)\<lparr>nb_items := nb_items (send x d0) - 1\<rparr>" using 2 n by (simp add: send_def)
        then show ?thesis using that [of "send x d0"] d0 f0(1) by simp
      qed
    qed
    note fe = restD [OF e(2)] rest_flag [OF e(2)]
    obtain d2 where d2: "remove_item_data i d1 = Some d2" "core d2" "apart d2 = apart (e\<lparr>nb_items := n\<rparr>)"
      "items d2 = take (nat i) (items d) @ drop (Suc (nat i)) (items d)" "marks d2 = take (nat i) (marks d) @ drop (Suc (nat i)) (marks d)"
      using cells_removed [OF e(1) _ _, of i] d(3) i e(3,4) fe(12) fe(13) [of LBS_OWNERDRAWVARIABLE] marks_rest [OF e(2)]
      by (auto simp: n_def elim!: fineE)
    note f2 = apart_fields [OF d2(3)] apart_flag [OF d2(3)]
    define d3 where "d3 = (if anchor_item d2 = nb_items d2 then d2\<lparr>anchor_item := anchor_item d2 - 1\<rparr> else d2)"
    have f3: "core d3" "items d3 = items d2" "marks d3 = marks d2" "nb_items d3 = n" "selected_item d3 = selected_item d" "focus_item d3 = focus_item d"
      "flag d3 f = flag d2 f" for f
      using d2(2) f2(1,7,8) fe(5,6) by (simp_all add: d3_def marks_first_cells)
    obtain ok d4 where d4: "resize_storage env d3 n = (ok, d4)" "apart d4 = apart d3 \<or> d4 = send (Notify LBN_ERRSPACE) d3" "core d4" "items d4 = items d3" "marks d4 = marks d3"
      using resized_fine [OF f3(1) _ n(2), of env] n(1) f3(4) by (metis less_imp_le order_refl)
    have f4: "nb_items d4 = n" "selected_item d4 = selected_item d" "focus_item d4 = focus_item d" "flag d4 f = flag d3 f" for f
    proof -
      have "nb_items d4 = nb_items d3 \<and> selected_item d4 = selected_item d3 \<and> focus_item d4 = focus_item d3 \<and> flag d4 f = flag d3 f" for f
        using d4(2)
      proof
        assume a: "apart d4 = apart d3"
        from apart_fields(1,7,8) [OF a] apart_flag(1) [OF a] show ?thesis by simp
      qed simp
      then show "nb_items d4 = n" "selected_item d4 = selected_item d" "focus_item d4 = focus_item d" "flag d4 f = flag d3 f" for f using f3 by simp_all
    qed
    obtain d5 where d5: "LISTBOX_UpdateScroll d4 = Some d5" "core d5" "rest d5 = rest d4" using UpdateScroll_fine [OF d4(3)] by (auto elim: fineE)
    have "fine (\<lambda>d6. core d6 \<and> rest d6 = rest d4) (if nb_items d5 = page_size d5 then LISTBOX_SetTopItem 0 d5 else Some d5)"
      using SetTopItem_fine [OF d5(2), of 0] d5(2,3) by simp
    then obtain d6 where d6: "(if nb_items d5 = page_size d5 then LISTBOX_SetTopItem 0 d5 else Some d5) = Some d6" "core d6" "rest d6 = rest d4"
      by (auto elim: fineE)
    note f6 = restD [OF d6(3)]
    have fl: "flag d6 f = flag d f" if "f \<noteq> LBS_DISPLAYCHANGED" for f
      using rest_flag [OF d6(3) that] f4(4) f3(7) f2(10) fe(13) [OF that] by simp
    have st: "IS_MULTISELECT d6 = IS_MULTISELECT d" "multi d6 = multi d" by (simp_all add: IS_MULTISELECT_def multi_def fl)
    define d7 where "d7 = (if IS_MULTISELECT d6 then d6 else if i = selected_item d6 then d6\<lparr>selected_item := -1\<rparr>
                    else if i < selected_item d6 then d6\<lparr>selected_item := selected_item d6 - 1\<rparr> else d6)"
    define d8 where "d8 = (if focus_item d7 \<ge> nb_items d7 then d7\<lparr>focus_item := max 0 (nb_items d7 - 1)\<rparr> else d7)"
    have "LISTBOX_RemoveItem env i d = Some (LB_OKAY, d8)"
    proof -
      have r: "\<not> (i < 0 \<or> i \<ge> nb_items d)" "nb_items d0 \<noteq> 1" "nb_items d0 - 1 = n" using i n1 f0(1) by (auto simp: n_def)
      have d4': "snd (resize_storage env d3 (nb_items d3)) = d4" using d4(1) f3(4) by simp
      show ?thesis
        unfolding LISTBOX_RemoveItem_def if_not_P [OF r(1)] d0(1) Option.bind_lunit if_not_P [OF r(2)] r(3) d1(1) d2(1) Let_def
          d3_def [symmetric] d4' d5(1) d6(1) d7_def [symmetric] d8_def [symmetric] ..
    qed
    moreover have "removed d i d8"
    proof -
      have "items d8 = items d6" "chosen d8 = chosen d6" "nb_items d8 = n" "selected_item d8 = selected_item d7"
        using f6(1) f4(1) by (simp_all add: d8_def d7_def)
      moreover have "items d6 = take (nat i) (items d) @ drop (Suc (nat i)) (items d)" using f6(12) d4(4) f3(2) d2(4) by simp
      moreover have "marks d6 = take (nat i) (marks d) @ drop (Suc (nat i)) (marks d)" using marks_rest [OF d6(3)] d4(5) f3(3) d2(5) by simp
      moreover have "flag d6 LBS_NODATA = flag d LBS_NODATA" by (simp add: fl)
      ultimately show ?thesis using n1 st f6(5) f4(2) by (auto simp: removed_def n_def d7_def chosen_def take_map drop_map)
    qed
    moreover have "lb_ok d8"
    proof -
      have c8: "core d8" using d6(2) by (simp add: d8_def d7_def)
      have n8: "nb_items d8 = n" using f6(1) f4(1) by (simp add: d8_def d7_def)
      have "focus_item d7 = focus_item d" "nb_items d7 = n" using f6(1,6) f4(1,3) by (simp_all add: d7_def)
      then have "focus_ok d8" using c(2) n n8 by (auto simp: focus_ok_def d8_def)
      moreover have "sel_ok d8"
      proof (cases "flag d LBS_MULTIPLESEL \<or> flag d LBS_NOSEL")
        case True
        have "flag d8 f = flag d6 f" for f by (simp add: d8_def d7_def)
        then show ?thesis using True by (auto simp: sel_ok_def fl)
      next
        case False
        then have "\<not> multi d" using c(1) by (auto simp: multi_def core_def)
        then have "\<not> IS_MULTISELECT d6" unfolding st by (simp add: IS_MULTISELECT_def)
        moreover have "selected_item d8 = selected_item d7" by (simp add: d8_def)
        ultimately show ?thesis using False c(3) f6(5) f4(2) n8 i by (auto simp: sel_ok_def d7_def n_def)
      qed
      ultimately show ?thesis using c8 by (simp add: lb_ok_iff)
    qed
    ultimately show ?thesis using i by simp
  qed
qed

section \<open>The count of a listbox without data\<close>

lemma SetCount_fine:
  assumes d: "lb_ok d" and n: "0 \<le> n" "n \<le> 2147483632"
  shows "fine (\<lambda>(r, d'). lb_ok d' \<and> (if r = LB_OKAY then nb_items d' = n else nb_items d' = nb_items d)) (LISTBOX_SetCount env n d)"
proof (cases "flag d LBS_NODATA")
  case False
  then show ?thesis using d by (simp add: LISTBOX_SetCount_def LB_ERR_def LB_OKAY_def)
next
  case nodata: True
  have c: "core d" "focus_ok d" "sel_ok d" using d(1) by (simp_all add: lb_ok_iff)
  obtain ok d0 where d0: "resize_storage env d n = (ok, d0)" "storage_ok d0" "items_size d0 < 2147483648" "ok \<Longrightarrow> n \<le> items_size d0"
    "\<not> ok \<Longrightarrow> d0 = send (Notify LBN_ERRSPACE) d" "ok \<Longrightarrow> apart d0 = apart d" using resized_fine [OF c(1) n, of env] by metis
  show ?thesis
  proof (cases ok)
    case False
    then show ?thesis using nodata d0(1,5) c by (simp add: LISTBOX_SetCount_def LB_ERRSPACE_def LB_OKAY_def lb_ok_iff)
  next
    case True
    let ?d1 = "d0\<lparr>nb_items := n\<rparr>"
    define d2 where "d2 = (if flag ?d1 LBS_NOREDRAW then display_changed ?d1 else ?d1)"
    have a1: "apart ?d1 = apart (d\<lparr>nb_items := n\<rparr>)" using apart_nb [OF d0(6) [OF True]] .
    have s1: "storage_ok ?d1" using d0(2) by (simp add: storage_ok_def multi_def)
    have "\<not> HAS_STRINGS d" "\<not> flag d LBS_OWNERDRAWVARIABLE" using c(1) nodata by (auto simp: core_def strings_ok_def)
    then have c1: "core ?d1" using core_counted [OF c(1) a1 n(1) _ s1] d0(3,4) True by simp
    then have c2: "core d2" "rest d2 = rest ?d1" using core_display [OF c1] by (simp_all add: d2_def)
    note f2 = restD [OF c2(2)] rest_flag [OF c2(2)]
    note f1 = apart_fields [OF a1] apart_flag [OF a1]
    show ?thesis
    proof (cases "n = 0")
      case True
      obtain d' where "reset_content d2 = Some d'" "lb_ok d'" "nb_items d' = 0" using reset_content_fine [OF c2(1)] by (auto elim: fineE)
      then show ?thesis using nodata d0(1) \<open>ok\<close> True
        by (cases "flag d0 LBS_NOREDRAW") (simp_all add: LISTBOX_SetCount_def d2_def Let_def)
    next
      case n0: False
      obtain d3 where d3: "LISTBOX_UpdateScroll d2 = Some d3" "core d3" "rest d3 = rest ?d1" using UpdateScroll_fine [OF c2(1)] c2(2) by (auto elim: fineE)
      note f3 = restD [OF d3(3)] rest_flag [OF d3(3)]
      have g3: "nb_items d3 = n" "selected_item d3 = selected_item d" "focus_item d3 = focus_item d"
        "flag d3 LBS_MULTIPLESEL = flag d LBS_MULTIPLESEL" "flag d3 LBS_NOSEL = flag d LBS_NOSEL"
        using f3 f1 by simp_all
      define r where "r = (if n < nb_items d
                          then do {
                            let d4 = d3\<lparr>anchor_item := min (anchor_item d3) (n - 1), selected_item := (if selected_item d3 \<ge> n then -1 else selected_item d3)\<rparr>;
                            d5 \<leftarrow> (if n \<le> page_size d4 \<and> nb_items d > page_size d4 then LISTBOX_SetTopItem 0 d4 else Some d4);
                            Some (LB_OKAY, d5\<lparr>focus_item := min (focus_item d5) (n - 1)\<rparr>) }
                          else if nb_items d = 0 then map_option (\<lambda>r. (LB_OKAY, snd r)) (LISTBOX_SetCaretIndex env 0 False d3)
                          else Some (LB_OKAY, d3))"
      have "fine (\<lambda>(r, d'). r = LB_OKAY \<and> lb_ok d' \<and> nb_items d' = n) r"
      proof -
        consider "n < nb_items d" | "nb_items d \<le> n" "nb_items d = 0" | "nb_items d \<le> n" "nb_items d \<noteq> 0" by linarith
        then show ?thesis
        proof cases
          case 1
          define d4 where "d4 = d3\<lparr>anchor_item := min (anchor_item d3) (n - 1), selected_item := (if selected_item d3 \<ge> n then -1 else selected_item d3)\<rparr>"
          have c4: "core d4" "nb_items d4 = n" "focus_item d4 = focus_item d" using d3(2) g3 by (simp_all add: d4_def)
          have s4: "sel_ok d4" using c(3) g3 n0 n by (auto simp: sel_ok_def d4_def)
          have "fine (\<lambda>d5. core d5 \<and> rest d5 = rest d4) (if n \<le> page_size d4 \<and> nb_items d > page_size d4 then LISTBOX_SetTopItem 0 d4 else Some d4)"
            using SetTopItem_fine [OF c4(1), of 0] c4(1) by simp
          then obtain d5 where d5: "(if n \<le> page_size d4 \<and> nb_items d > page_size d4 then LISTBOX_SetTopItem 0 d4 else Some d4) = Some d5" "core d5" "rest d5 = rest d4"
            by (auto elim: fineE)
          have "focus_ok (d5\<lparr>focus_item := min (focus_item d5) (n - 1)\<rparr>)" "sel_ok d5" "nb_items d5 = n"
            using restD(1,6) [OF d5(3)] rest_ok(1) [OF d5(3)] c4 s4 c(2) n n0 by (auto simp: focus_ok_def)
          then show ?thesis using 1 d5(1,2) by (simp add: r_def d4_def [symmetric] lb_ok_iff)
        next
          case 2
          obtain x d4 where d4: "LISTBOX_SetCaretIndex env 0 False d3 = Some (x, d4)" "core d4"
            "rest d4 = rest (if flag d3 LBS_NOSEL \<or> (0::int) < 0 \<or> 0 \<ge> nb_items d3 then d3 else d3\<lparr>focus_item := 0\<rparr>)"
            using SetCaretIndex_fine [OF d3(2), of 0 env False] by (auto elim!: fineE)
          define e where "e = (if flag d3 LBS_NOSEL \<or> (0::int) < 0 \<or> 0 \<ge> nb_items d3 then d3 else d3\<lparr>focus_item := 0\<rparr>)"
          have r4: "rest d4 = rest e" using d4(3) by (simp add: e_def)
          have "focus_ok e" "sel_ok e" "nb_items e = n" using 2 c(2,3) g3 n by (auto simp: focus_ok_def sel_ok_def e_def)
          then show ?thesis using 2 d4(1,2) rest_ok [OF r4] restD(1) [OF r4] by (simp add: r_def lb_ok_iff)
        next
          case 3
          then have "focus_ok d3" "sel_ok d3" using c(2,3) g3 n by (auto simp: focus_ok_def sel_ok_def)
          then show ?thesis using 3 d3(2) g3(1) by (simp add: r_def lb_ok_iff)
        qed
      qed
      moreover have "LISTBOX_SetCount env n d = r"
      proof -
        have nd: "\<not> (\<not> flag d LBS_NODATA)" and rs: "resize_storage env d n = (True, d0)" using nodata d0(1) True by simp_all
        show ?thesis
          unfolding LISTBOX_SetCount_def if_not_P [OF nd] rs Let_def prod.case not_True_eq_False if_False d2_def [symmetric] if_not_P [OF n0]
            d3(1) Option.bind_lunit r_def ..
      qed
      ultimately show ?thesis by (auto elim!: fine_mono)
    qed
  qed
qed

end
