(* ===== verification/Listbox_Safe.thy ===== *)
theory Listbox_Safe
  imports Listbox_Remove
begin

text \<open>
  Every message that is permitted keeps the invariant and comes back without a fault. The messages that are not permitted are those
  that do meet one.
\<close>

section \<open>The operations under the whole invariant\<close>

text \<open>What an operation leaves that keeps the invariant and the number of items.\<close>

definition kept_ok :: "LB_DESCR \<Rightarrow> LB_DESCR \<Rightarrow> bool" where
  "kept_ok d d' \<longleftrightarrow> lb_ok d' \<and> nb_items d' = nb_items d \<and> (\<forall>f. f \<noteq> LBS_DISPLAYCHANGED \<longrightarrow> f \<noteq> LBS_NOREDRAW \<longrightarrow> flag d' f = flag d f)"

lemma kept_okD: "kept_ok d d' \<Longrightarrow> lb_ok d'" "kept_ok d d' \<Longrightarrow> nb_items d' = nb_items d"
  by (simp_all add: kept_ok_def)

lemma kept_ok_trans: "kept_ok d e \<Longrightarrow> kept_ok e f \<Longrightarrow> kept_ok d f"
  by (simp add: kept_ok_def)

lemma kept_ok_refl: "lb_ok d \<Longrightarrow> kept_ok d d"
  by (simp add: kept_ok_def)

lemma rest_kept:
  assumes "lb_ok d" "rest d' = rest d" "core d'"
  shows "kept_ok d d'"
  using assms(1,3) restD(1) [OF assms(2)] rest_ok [OF assms(2)] rest_flag [OF assms(2)] by (simp add: kept_ok_def lb_ok_iff)

lemma rest_fine: "lb_ok d \<Longrightarrow> fine (\<lambda>d'. core d' \<and> rest d' = rest d) r \<Longrightarrow> fine (kept_ok d) r"
  by (erule fine_mono) (simp add: rest_kept)

lemma lb_ok_core: "lb_ok d \<Longrightarrow> core d"
  by (simp add: lb_ok_def)

lemma kept_simps [simp]:
  "lb_ok (d\<lparr>anchor_item := i\<rparr>) = lb_ok d" "lb_ok (send c d) = lb_ok d" "lb_ok (d\<lparr>wheel_remain := i\<rparr>) = lb_ok d" "lb_ok (d\<lparr>captured := b\<rparr>) = lb_ok d"
  "lb_ok (d\<lparr>in_focus := b\<rparr>) = lb_ok d" "lb_ok (d\<lparr>LISTBOX_Timer := dir\<rparr>) = lb_ok d" "lb_ok (d\<lparr>horz_pos := i\<rparr>) = lb_ok d" "lb_ok (d\<lparr>horz_extent := i\<rparr>) = lb_ok d"
  "lb_ok (d\<lparr>lb_width := i\<rparr>) = lb_ok d" "lb_ok (d\<lparr>lb_height := i\<rparr>) = lb_ok d" "lb_ok (d\<lparr>lb_tabs := l\<rparr>) = lb_ok d" "lb_ok (d\<lparr>avg_char_width := i\<rparr>) = lb_ok d"
  by (simp_all add: lb_ok_def)

lemma kept_update [simp]:
  "kept_ok d (e\<lparr>anchor_item := i\<rparr>) = kept_ok d e" "kept_ok d (send c e) = kept_ok d e" "kept_ok d (e\<lparr>wheel_remain := i\<rparr>) = kept_ok d e"
  "kept_ok d (e\<lparr>captured := b\<rparr>) = kept_ok d e" "kept_ok d (e\<lparr>in_focus := b\<rparr>) = kept_ok d e" "kept_ok d (e\<lparr>LISTBOX_Timer := dir\<rparr>) = kept_ok d e"
  "kept_ok d (e\<lparr>horz_pos := i\<rparr>) = kept_ok d e" "kept_ok d (e\<lparr>horz_extent := i\<rparr>) = kept_ok d e" "kept_ok d (e\<lparr>lb_width := i\<rparr>) = kept_ok d e"
  "kept_ok d (e\<lparr>lb_height := i\<rparr>) = kept_ok d e" "kept_ok d (e\<lparr>lb_tabs := l\<rparr>) = kept_ok d e" "kept_ok d (e\<lparr>avg_char_width := i\<rparr>) = kept_ok d e"
  by (simp_all add: kept_ok_def)

lemma kept_since [simp]:
  "kept_ok (d\<lparr>anchor_item := i\<rparr>) = kept_ok d" "kept_ok (send c d) = kept_ok d" "kept_ok (d\<lparr>wheel_remain := i\<rparr>) = kept_ok d"
  "kept_ok (d\<lparr>captured := b\<rparr>) = kept_ok d" "kept_ok (d\<lparr>in_focus := b\<rparr>) = kept_ok d" "kept_ok (d\<lparr>LISTBOX_Timer := dir\<rparr>) = kept_ok d"
  "kept_ok (d\<lparr>horz_pos := i\<rparr>) = kept_ok d" "kept_ok (d\<lparr>horz_extent := i\<rparr>) = kept_ok d" "kept_ok (d\<lparr>lb_width := i\<rparr>) = kept_ok d"
  "kept_ok (d\<lparr>lb_height := i\<rparr>) = kept_ok d" "kept_ok (d\<lparr>lb_tabs := l\<rparr>) = kept_ok d" "kept_ok (d\<lparr>avg_char_width := i\<rparr>) = kept_ok d"
  by (simp_all add: kept_ok_def fun_eq_iff)

lemma SetSelection_kept:
  assumes "lb_ok d"
  shows "fine (\<lambda>r. kept_ok d (snd r)) (LISTBOX_SetSelection env i on notify d)"
proof (rule fine_mono [OF SetSelection_fine [OF lb_ok_core [OF assms]]])
  fix r assume r: "selection_set d i on r"
  then have u: "unmarked (snd r) = unmarked d" "core (snd r)" by (simp_all add: selection_set_def)
  then show "kept_ok d (snd r)"
    using assms selection_set_ok [OF r] unmarked_ok(2) [OF u(1)] unmarkedD(1) [OF u(1)] unmarked_flag [OF u(1)] by (simp add: kept_ok_def lb_ok_iff)
qed

lemma SelectItemRange_kept:
  assumes "lb_ok d"
  shows "fine (\<lambda>r. kept_ok d (snd r)) (LISTBOX_SelectItemRange first final on d)"
proof (rule fine_mono [OF SelectItemRange_fine [OF lb_ok_core [OF assms]]], clarify)
  fix r d' assume u: "core d'" "unmarked d' = unmarked d" "selected_item d' = selected_item d"
  then show "kept_ok d (snd (r, d'))"
    using assms unmarked_ok [OF u(2)] unmarkedD(1) [OF u(2)] unmarked_flag [OF u(2)] by (simp add: kept_ok_def lb_ok_iff)
qed

lemma SetCaretIndex_kept:
  assumes "lb_ok d"
  shows "fine (\<lambda>r. kept_ok d (snd r)) (LISTBOX_SetCaretIndex env i fully d)"
proof (rule fine_mono [OF SetCaretIndex_fine [OF lb_ok_core [OF assms]]], clarify)
  fix r d'
  define e where "e = (if flag d LBS_NOSEL \<or> i < 0 \<or> i \<ge> nb_items d then d else d\<lparr>focus_item := i\<rparr>)"
  assume "core d'" "rest d' = rest (if flag d LBS_NOSEL \<or> i < 0 \<or> i \<ge> nb_items d then d else d\<lparr>focus_item := i\<rparr>)"
  then have d': "core d'" "rest d' = rest e" by (simp_all add: e_def)
  have "lb_ok e" "kept_ok d e" using assms by (auto simp: e_def lb_ok_iff focus_ok_def kept_ok_def)
  then show "kept_ok d (snd (r, d'))" using rest_kept [of e d'] d' kept_ok_trans by auto
qed

lemma MoveCaret_kept:
  assumes "lb_ok d"
  shows "fine (kept_ok d) (LISTBOX_MoveCaret env i fully d)"
proof (cases "0 \<le> i \<and> i < nb_items d")
  case True
  show ?thesis
  proof (rule fine_mono [OF MoveCaret_fine [OF lb_ok_core [OF assms]]])
    fix d' assume e: "extended d i d'"
    then have u: "unmarked d' = unmarked (d\<lparr>focus_item := i\<rparr>)" by (simp add: extended_def)
    have "focus_ok (d\<lparr>focus_item := i\<rparr>)" using True by (simp add: focus_ok_def)
    then show "kept_ok d d'"
      using e assms unmarked_ok(2) [OF u] unmarkedD(1) [OF u] unmarked_flag [OF u] by (simp add: kept_ok_def lb_ok_iff extended_def)
  qed (use True in auto)
next
  case False
  then have "LISTBOX_MoveCaret env i fully d = Some d" by (intro MoveCaret_out) auto
  then show ?thesis using assms by (simp add: kept_ok_refl)
qed

lemma change_item_kept:
  assumes d: "lb_ok d" "0 \<le> i" "i < nb_items d" and f: "\<And>it. it_str (f it) = it_str it"
  shows "fine (kept_ok d) (change_item i f d)"
proof -
  note c = lb_ok_core [OF d(1)]
  have "fine (\<lambda>d'. storage_ok d' \<and> apart d' = apart d \<and> items_size d' = items_size d \<and> marks d' = marks d
      \<and> (\<not> flag d LBS_NODATA \<longrightarrow> items d' = (items d)[nat i := f (items d ! nat i)])) (change_item i f d)"
    using change_item_fine core_store [OF c] d by simp
  then show ?thesis
  proof (rule fine_mono, elim conjE)
    fix d' assume s: "storage_ok d'" and a: "apart d' = apart d" and z: "items_size d' = items_size d"
      and it: "\<not> flag d LBS_NODATA \<longrightarrow> items d' = (items d)[nat i := f (items d ! nat i)]"
    have "it_str x \<noteq> None" if h: "HAS_STRINGS d" "x \<in> set (items d')" for x
    proof -
      have g: "\<not> flag d LBS_NODATA" "\<forall>it\<in>set (items d). it_str it \<noteq> None" using c h(1) by (auto simp: core_def strings_ok_def)
      then have "nat i < length (items d)" using length_items [OF c] d by simp
      then have "it_str (items d ! nat i) \<noteq> None" using g(2) by (metis nth_mem)
      moreover have "x \<in> set (items d) \<or> x = f (items d ! nat i)" using it g(1) h(2) set_update_subset_insert [of "items d" "nat i"] by auto
      ultimately show ?thesis using g(2) f by metis
    qed
    then have "core d'" using core_stored [OF c a s] z core_store [OF c] by auto
    then show "kept_ok d d'" using d(1) apart_fields [OF a] apart_flag [OF a] by (simp add: kept_ok_def lb_ok_def)
  qed
qed

section \<open>The page, the scroll bars and the settings\<close>

lemma kept_next: "kept_ok d e \<Longrightarrow> (lb_ok e \<Longrightarrow> fine (kept_ok e) r) \<Longrightarrow> fine (kept_ok d) r"
  by (rule fine_mono [where Q = "kept_ok e"]) (auto intro: kept_ok_trans kept_okD)

lemma kept_via:
  "fine (\<lambda>x. kept_ok d (p x)) r \<Longrightarrow> (\<And>x. kept_ok d (p x) \<Longrightarrow> lb_ok (p x) \<Longrightarrow> fine (\<lambda>y. kept_ok (p x) (q y)) (f x))
    \<Longrightarrow> fine (\<lambda>y. kept_ok d (q y)) (Option.bind r f)"
  by (auto simp: fine_def kept_ok_def)

lemmas kept_bind = kept_via [where p = "\<lambda>x. x" and q = "\<lambda>x. x"]
lemmas kept_bind_snd = kept_via [where p = "\<lambda>x. x" and q = snd]
lemmas kept_snd_bind = kept_via [where p = snd and q = "\<lambda>x. x"]
lemmas kept_snd_snd = kept_via [where p = snd and q = snd]

lemma page_kept:
  assumes "lb_ok d"
  shows "fine (kept_ok d) (LISTBOX_UpdateScroll d)" "fine (kept_ok d) (LISTBOX_SetTopItem i d)" "fine (kept_ok d) (LISTBOX_UpdatePage d)"
    "fine (kept_ok d) (LISTBOX_RepaintItem env i d)" "fine (kept_ok d) (LISTBOX_InvalidateItems i d)"
    "fine (kept_ok d) (LISTBOX_DrawFocusRect env d)" "fine (kept_ok d) (LISTBOX_InvalidateItemRect i d)"
proof -
  note c = lb_ok_core [OF assms]
  show "fine (kept_ok d) (LISTBOX_UpdateScroll d)" "fine (kept_ok d) (LISTBOX_SetTopItem i d)" "fine (kept_ok d) (LISTBOX_UpdatePage d)"
    "fine (kept_ok d) (LISTBOX_RepaintItem env i d)" "fine (kept_ok d) (LISTBOX_InvalidateItems i d)"
    using rest_fine [OF assms] UpdateScroll_fine [OF c] SetTopItem_fine [OF c] UpdatePage_fine [OF c] RepaintItem_fine [OF c] InvalidateItems_fine [OF c]
    by simp_all
  show "fine (kept_ok d) (LISTBOX_DrawFocusRect env d)" "fine (kept_ok d) (LISTBOX_InvalidateItemRect i d)"
    using fine_mono [OF DrawFocusRect_fine [OF c]] fine_mono [OF InvalidateItemRect_fine [OF c]] kept_ok_refl [OF assms] by simp_all
qed

lemma core_heights: "core d \<Longrightarrow> h \<noteq> 0 \<Longrightarrow> core (d\<lparr>item_height := h\<rparr>)"
  by (simp add: core_unfold)

lemma core_columns: "core d \<Longrightarrow> c \<noteq> 0 \<Longrightarrow> core (d\<lparr>lb_width := w, lb_height := h, column_width := c\<rparr>)"
  by (simp add: core_unfold)

lemma SetItemHeight_kept:
  assumes "lb_ok d"
  shows "fine (\<lambda>r. kept_ok d (snd r)) (LISTBOX_SetItemHeight i h repaint d)"
proof -
  define k where "k = (if h = 0 then 1 else h)"
  have k: "kept_ok d (d\<lparr>item_height := k\<rparr>)" by (rule rest_kept [OF assms]) (simp_all add: k_def core_heights lb_ok_core [OF assms])
  have "fine (\<lambda>r. kept_ok (d\<lparr>item_height := k\<rparr>) (snd r))
      (do { d1 \<leftarrow> LISTBOX_UpdatePage (d\<lparr>item_height := k\<rparr>); d2 \<leftarrow> LISTBOX_UpdateScroll d1; Some (LB_OKAY, d2) })"
    using kept_okD(1) [OF k] by (auto intro!: kept_bind_snd page_kept kept_ok_refl)
  then have "fine (\<lambda>r. kept_ok d (snd r)) (do { d1 \<leftarrow> LISTBOX_UpdatePage (d\<lparr>item_height := k\<rparr>); d2 \<leftarrow> LISTBOX_UpdateScroll d1; Some (LB_OKAY, d2) })"
    by (rule fine_mono) (rule kept_ok_trans [OF k])
  moreover have "fine (\<lambda>r. kept_ok d (snd r)) (do { d1 \<leftarrow> set_item_height i k d; d2 \<leftarrow> LISTBOX_UpdateScroll d1;
      d3 \<leftarrow> (if repaint then LISTBOX_InvalidateItems i d2 else Some d2); Some (LB_OKAY, d3) })" if "0 \<le> i" "i < nb_items d"
    unfolding set_item_height_def by (rule kept_bind_snd [OF change_item_kept [OF assms that]]) (auto intro!: kept_bind_snd page_kept kept_ok_refl)
  ultimately show ?thesis
    using assms by (auto simp: LISTBOX_SetItemHeight_def Let_def k_def [symmetric] kept_ok_refl)
qed

lemma SetHorizontalPos_kept: "lb_ok d \<Longrightarrow> fine (kept_ok d) (LISTBOX_SetHorizontalPos pos d)"
  using page_kept(1) [of "d\<lparr>horz_pos := max 0 (min pos (horz_extent d - lb_width d))\<rparr>"]
  by (simp add: LISTBOX_SetHorizontalPos_def Let_def kept_ok_refl)

lemma SetHorizontalExtent_kept: "lb_ok d \<Longrightarrow> fine (kept_ok d) (LISTBOX_SetHorizontalExtent e d)"
  using SetHorizontalPos_kept [of "d\<lparr>horz_extent := e\<rparr>"] SetHorizontalPos_kept [of "send _ (d\<lparr>horz_extent := e\<rparr>)"]
  by (simp add: LISTBOX_SetHorizontalExtent_def Let_def kept_ok_refl)

lemma SetColumnWidth_kept:
  assumes "lb_ok d" "c \<noteq> 0"
  shows "fine (kept_ok d) (LISTBOX_SetColumnWidth w h c d)"
proof -
  have "kept_ok d (d\<lparr>lb_width := w, lb_height := h, column_width := c\<rparr>)"
    by (rule rest_kept [OF assms(1)]) (simp_all add: core_columns lb_ok_core assms)
  then show ?thesis unfolding LISTBOX_SetColumnWidth_def by (rule kept_next) (auto intro!: kept_bind page_kept)
qed

lemma SetRedraw_kept:
  assumes "lb_ok d"
  shows "fine (kept_ok d) (LISTBOX_SetRedraw on d)"
proof -
  have off: "kept_ok d (d\<lparr>style := S\<rparr>)" if "\<forall>f. f \<noteq> LBS_DISPLAYCHANGED \<longrightarrow> f \<noteq> LBS_NOREDRAW \<longrightarrow> (f \<in> S) = (f \<in> style d)" for S
    using assms that by (simp add: kept_ok_def lb_ok_def core_unfold flag_def)
  have t: "kept_ok d (e\<lparr>top_item := max 0 (nb_items e - page_size e)\<rparr>)" if "kept_ok d e" for e
  proof -
    have "core (e\<lparr>top_item := max 0 (nb_items e - page_size e)\<rparr>)"
      using that by (intro core_top) (auto simp: kept_ok_def lb_ok_def core_def)
    then show ?thesis by (intro kept_ok_trans [OF that] rest_kept) (simp_all add: kept_okD(1) [OF that])
  qed
  define e where "e = d\<lparr>style := style d - {LBS_NOREDRAW}\<rparr>"
  define g where "g = (if top_item e + page_size e > nb_items e then e\<lparr>top_item := max 0 (nb_items e - page_size e)\<rparr> else e)"
  have e: "kept_ok d e" unfolding e_def by (rule off) simp
  have g: "kept_ok d g" using e t [OF e] by (simp add: g_def)
  have s: "kept_ok d (x\<lparr>style := style x - {LBS_DISPLAYCHANGED}\<rparr>)" if "kept_ok d x" for x
  proof -
    have "core (x\<lparr>style := style x - {LBS_DISPLAYCHANGED}\<rparr>) = core x" by (simp add: core_unfold flag_def)
    moreover have "rest (x\<lparr>style := style x - {LBS_DISPLAYCHANGED}\<rparr>) = rest x" by (simp add: rest_def)
    ultimately show ?thesis using kept_okD(1) [OF that] lb_ok_core by (intro kept_ok_trans [OF that] rest_kept) simp_all
  qed
  show ?thesis
    using e s [OF g] off assms
    by (auto simp: LISTBOX_SetRedraw_def Let_def e_def [symmetric] g_def [symmetric] kept_ok_refl intro!: kept_next [OF _ page_kept(1)])
qed

lemma UpdateSize_kept:
  assumes "lb_ok d"
  shows "fine (kept_ok d) (LISTBOX_UpdateSize w h d)"
proof -
  define e where "e = d\<lparr>lb_width := w, lb_height := h\<rparr>"
  have e: "lb_ok e" "kept_ok d e" using assms by (simp_all add: e_def kept_ok_refl)
  have i: "item_height e \<noteq> 0" using e(1) by (simp add: lb_ok_def core_def)
  have "fine (kept_ok d) (do { d2 \<leftarrow> LISTBOX_UpdatePage e; d3 \<leftarrow> LISTBOX_UpdateScroll d2; LISTBOX_InvalidateItemRect (focus_item d3) d3 })"
    by (rule kept_next [OF e(2)]) (auto intro!: kept_bind page_kept)
  then show ?thesis using i e by (auto simp: LISTBOX_UpdateSize_def Let_def e_def [symmetric] modulo_fine)
qed

lemma kept_map_snd: "fine (\<lambda>r. kept_ok d (snd r)) r \<Longrightarrow> fine (kept_ok d) (map_option snd r)"
  by (auto simp: fine_def)

lemma kept_map_pair: "fine (kept_ok d) r \<Longrightarrow> fine (\<lambda>x. kept_ok d (snd x)) (map_option (Pair v) r)"
  by (auto simp: fine_def)

lemma SetFont_kept:
  assumes "lb_ok d"
  shows "fine (\<lambda>r. kept_ok d (snd r)) (LISTBOX_SetFont sz d)"
proof (cases sz)
  case (Some r)
  obtain cx cy where r: "r = (cx, cy)" by (cases r)
  define e where "e = d\<lparr>avg_char_width := c_div (c_div cx 26 + 1) 2\<rparr>"
  have e: "lb_ok e" "kept_ok d e" using assms by (simp_all add: e_def kept_ok_refl)
  have "fine (kept_ok e) (if \<not> IS_OWNERDRAW e then map_option snd (LISTBOX_SetItemHeight 0 cy False e) else Some e)"
    using e by (simp add: kept_map_snd SetItemHeight_kept kept_ok_refl)
  then have "fine (\<lambda>x. kept_ok e (snd x))
      (do { d2 \<leftarrow> (if \<not> IS_OWNERDRAW e then map_option snd (LISTBOX_SetItemHeight 0 cy False e) else Some e); Some (cy, d2) })"
    by (rule kept_bind_snd) (simp add: kept_ok_refl)
  then have "fine (\<lambda>x. kept_ok d (snd x))
      (do { d2 \<leftarrow> (if \<not> IS_OWNERDRAW e then map_option snd (LISTBOX_SetItemHeight 0 cy False e) else Some e); Some (cy, d2) })"
    by (rule fine_mono) (rule kept_ok_trans [OF e(2)])
  moreover have "LISTBOX_SetFont sz d
      = do { d2 \<leftarrow> (if \<not> IS_OWNERDRAW e then map_option snd (LISTBOX_SetItemHeight 0 cy False e) else Some e); Some (cy, d2) }"
    unfolding LISTBOX_SetFont_def Some r option.case prod.case Let_def e_def ..
  ultimately show ?thesis by simp
qed (simp add: LISTBOX_SetFont_def assms kept_ok_refl)

lemma SetTabStops_kept: "lb_ok d \<Longrightarrow> kept_ok d (snd (LISTBOX_SetTabStops env tabs d))"
  by (simp add: LISTBOX_SetTabStops_def kept_ok_refl)

section \<open>Mouse, timer and wheel\<close>

lemma VScroll_kept: "lb_ok d \<Longrightarrow> fine (kept_ok d) (LISTBOX_HandleVScroll req d)"
  using GetCurrentPageSize_fine [of d]
  by (cases req) (auto simp: LISTBOX_HandleVScroll_def lb_ok_core page_kept kept_ok_refl elim!: fineE)

lemma columns: "lb_ok d \<Longrightarrow> flag d LBS_MULTICOLUMN \<Longrightarrow> divide x (column_width d) = Some (c_div x (column_width d))"
  by (simp add: lb_ok_def core_def divide_fine)

lemma HScroll_kept: "lb_ok d \<Longrightarrow> fine (kept_ok d) (LISTBOX_HandleHScroll req d)"
  by (cases req) (simp_all add: LISTBOX_HandleHScroll_def columns page_kept SetHorizontalPos_kept kept_ok_refl)

lemma MouseWheel_kept:
  assumes "lb_ok d"
  shows "fine (kept_ok d) (LISTBOX_HandleMouseWheel delta d)"
proof -
  define e where
    "e = d\<lparr>wheel_remain := (if (delta < 0 \<and> wheel_remain d < 0) \<or> (delta > 0 \<and> wheel_remain d > 0) then wheel_remain d + delta else delta)\<rparr>"
  have e: "lb_ok e" "kept_ok d = kept_ok e" using assms by (simp_all add: e_def)
  have "1 \<le> page_size e" using e(1) by (simp add: lb_ok_def core_def)
  then have "min (page_size e) wheel_lines \<noteq> 0" "max 1 x \<noteq> 0" for x :: int by (auto simp: wheel_lines_def)
  then show ?thesis
    using e page_kept(2) [of "e\<lparr>wheel_remain := _\<rparr>"]
    unfolding LISTBOX_HandleMouseWheel_def e_def [symmetric] by (simp add: Let_def columns divide_fine kept_ok_refl)
qed

lemma item_below_fine: "core d \<Longrightarrow> 0 \<le> i \<Longrightarrow> fine (\<lambda>_. True) (item_below d y i p)"
proof (induction d y i p rule: item_below.induct)
  case (1 d y i p)
  show ?case
  proof (cases "i < nb_items d")
    case True
    then obtain k where k: "get_item_height d i = Some k" using item_height_fine [of d i] 1(2,3) by (auto simp: core_def elim: fineE)
    show ?thesis using 1(1) [OF True k] 1(2,3) True k by (subst item_below.simps) simp
  qed (subst item_below.simps, simp)
qed

lemma item_above_fine: "core d \<Longrightarrow> i \<le> nb_items d \<Longrightarrow> fine (\<lambda>_. True) (item_above d y i p)"
proof (induction d y i p rule: item_above.induct)
  case (1 d y i p)
  show ?case
  proof (cases "0 < i")
    case True
    then obtain k where k: "get_item_height d (i - 1) = Some k" using item_height_fine [of d "i - 1"] 1(2,3) by (auto simp: core_def elim: fineE)
    show ?thesis using 1(1) [OF True k] 1(2,3) True k by (subst item_above.simps) simp
  qed (subst item_above.simps, simp)
qed

lemma GetItemFromPoint_fine:
  assumes "core d"
  shows "fine (\<lambda>i. -1 \<le> i \<and> i < nb_items d) (LISTBOX_GetItemFromPoint d x y)"
proof -
  have b: "0 \<le> nb_items d" "item_height d \<noteq> 0" "flag d LBS_MULTICOLUMN \<longrightarrow> column_width d \<noteq> 0" "0 \<le> top_item d"
    "flag d LBS_OWNERDRAWVARIABLE \<longrightarrow> top_item d \<le> nb_items d" using assms by (simp_all add: core_def)
  then have "flag d LBS_OWNERDRAWVARIABLE \<Longrightarrow> fine (\<lambda>_. True) (item_below d y (top_item d) 0)"
    "flag d LBS_OWNERDRAWVARIABLE \<Longrightarrow> fine (\<lambda>_. True) (item_above d y (top_item d) 0)"
    using item_below_fine [OF assms] item_above_fine [OF assms] by simp_all
  then show ?thesis using b by (auto simp: LISTBOX_GetItemFromPoint_def divide_fine Let_def elim!: fineE)
qed

lemma ItemFromPoint_fine: "core d \<Longrightarrow> fine (\<lambda>_. True) (LISTBOX_ItemFromPoint d x y)"
  unfolding LISTBOX_ItemFromPoint_def Let_def by (auto intro!: fine_bind [OF GetItemFromPoint_fine])

lemma selected_kept: "lb_ok d \<Longrightarrow> 0 \<le> i \<Longrightarrow> i < nb_items d \<Longrightarrow> fine (\<lambda>_. True) (is_item_selected d i)"
  by (rule selected_fine [OF lb_ok_core])

lemma gets_focus_kept: "lb_ok d \<Longrightarrow> fine (kept_ok d) (gets_focus env d)"
  using page_kept(6) [of "d\<lparr>in_focus := True\<rparr>" env] by (auto simp: gets_focus_def elim!: fineE)

lemma LButtonUp_kept: "lb_ok d \<Longrightarrow> kept_ok d (LISTBOX_HandleLButtonUp env d)"
  by (simp add: LISTBOX_HandleLButtonUp_def Let_def kept_ok_refl)

lemma HandleTimer_kept:
  assumes "lb_ok d"
  shows "fine (\<lambda>r. kept_ok d (snd r)) (LISTBOX_HandleTimer env i dir d)"
proof -
  obtain p where p: "LISTBOX_GetCurrentPageSize d = Some p" using GetCurrentPageSize_fine [OF lb_ok_core [OF assms]] by (auto elim: fineE)
  show ?thesis
    using assms MoveCaret_kept [OF assms] by (cases dir) (simp_all add: LISTBOX_HandleTimer_def p Let_def kept_ok_refl kept_map_pair)
qed

lemma SystemTimer_kept: "lb_ok d \<Longrightarrow> fine (kept_ok d) (LISTBOX_HandleSystemTimer env d)"
  using HandleTimer_kept [of d env "focus_item d" "LISTBOX_Timer d"] by (auto simp: LISTBOX_HandleSystemTimer_def elim!: fineE)

lemma MouseMove_kept:
  assumes "lb_ok d"
  shows "fine (kept_ok d) (LISTBOX_HandleMouseMove env x y d)"
proof -
  have "fine (kept_ok d) (do { i \<leftarrow> LISTBOX_GetItemFromPoint d x1 y1;
        (go_on, d1) \<leftarrow> LISTBOX_HandleTimer env (if i = -1 then focus_item d else i) dir d;
        let dir1 = (if go_on then dir else LB_TIMER_NONE);
        let d2 = (if dir1 \<noteq> LB_TIMER_NONE then send SetTimer d1 else if LISTBOX_Timer d1 \<noteq> LB_TIMER_NONE then send KillTimer d1 else d1);
        Some (d2\<lparr>LISTBOX_Timer := dir1\<rparr>) })" for x1 y1 dir
    by (rule fine_bind [OF GetItemFromPoint_fine [OF lb_ok_core [OF assms]]], rule fine_bind [OF HandleTimer_kept [OF assms]])
      (auto simp: Let_def)
  then show ?thesis using assms by (auto simp: LISTBOX_HandleMouseMove_def kept_ok_refl split: prod.split)
qed

end
