(* ===== verification/Listbox_Messages.thy ===== *)
theory Listbox_Messages
  imports Listbox_Safe
begin

text \<open>
  Listboxes, continued: mouse, keyboard and searches under the invariant, and with them every message: each that is permitted
  comes back without a fault and keeps the invariant, so every run of such messages does.
\<close>

section \<open>Mouse button and keyboard\<close>

lemma LButtonDown_kept:
  assumes "lb_ok d"
  shows "fine (kept_ok d) (LISTBOX_HandleLButtonDown env shift control x y d)"
proof -
  obtain i where i: "LISTBOX_GetItemFromPoint d x y = Some i" "-1 \<le> i" "i < nb_items d"
    using GetItemFromPoint_fine [OF lb_ok_core [OF assms], of x y] by (auto elim: fineE)
  have f: "fine (kept_ok d) (if \<not> in_focus d \<and> lb_focus env then gets_focus env d else Some d)"
    using assms by (simp add: gets_focus_kept kept_ok_refl)
  have s: "fine (\<lambda>_. True) (is_item_selected e i)" if "kept_ok d e" "i \<noteq> -1" for e
    using that i by (intro selected_kept) (simp_all add: kept_ok_def)
  have m: "fine (kept_ok e) (do { s \<leftarrow> is_item_selected e i; map_option snd (LISTBOX_SetSelection env i (g e s) notify e) })"
    if "kept_ok d e" "i \<noteq> -1" for e g notify
    using that by (intro fine_bind [OF s] kept_map_snd SetSelection_kept kept_okD(1) [of d]) auto
  have control: "fine (kept_ok x) (do { (_, d4) \<leftarrow> LISTBOX_SetCaretIndex env i False e; s \<leftarrow> is_item_selected d4 i; map_option snd (LISTBOX_SetSelection env i (\<not> s) notify d4) })"
    if "kept_ok d e" "i \<noteq> -1" "kept_ok x = kept_ok e" for e x notify
    using that m [where g = "\<lambda>_ s. \<not> s"] kept_ok_trans [of d e] unfolding that(3)
    by (intro kept_snd_bind SetCaretIndex_kept) (auto simp: kept_okD(1) split: prod.split)
  have plain: "fine (kept_ok x) (do { d4 \<leftarrow> LISTBOX_MoveCaret env i False e; s \<leftarrow> is_item_selected d4 i; map_option snd (LISTBOX_SetSelection env i (g d4 s) notify d4) })"
    if "kept_ok d e" "i \<noteq> -1" "kept_ok x = kept_ok e" for e x g notify
    using that m [of _ g] kept_ok_trans [of d e] unfolding that(3) by (intro kept_bind MoveCaret_kept) (auto simp: kept_okD(1))
  have single: "fine (kept_ok x) (do { d3 \<leftarrow> LISTBOX_MoveCaret env i False e; map_option snd (LISTBOX_SetSelection env i True notify d3) })"
    if "kept_ok d e" "kept_ok x = kept_ok e" for e x notify
    unfolding that(2) using that by (intro kept_bind MoveCaret_kept kept_map_snd SetSelection_kept) (auto simp: kept_okD(1))
  show ?thesis
    unfolding LISTBOX_HandleLButtonDown_def i(1) Option.bind_lunit
    by (intro kept_bind [OF f]) (auto simp: Let_def kept_ok_refl intro!: control plain [where g = "\<lambda>d4 s. if flag d4 LBS_EXTENDEDSEL then s else \<not> s"] single)
qed

lemma page_items_fine: "lb_ok d \<Longrightarrow> fine (\<lambda>_. True) (page_items d)"
  using GetCurrentPageSize_fine [OF lb_ok_core, of d] by (auto simp: page_items_def columns elim: fineE)

lemma key_caret_kept:
  assumes "lb_ok d" and space: "key = VK_SPACE \<Longrightarrow> nb_items d \<noteq> 0 \<or> \<not> flag d LBS_MULTIPLESEL \<or> flag d LBS_EXTENDEDSEL"
  shows "fine (\<lambda>r. kept_ok d (snd (snd r))) (key_caret env key force d)"
proof -
  obtain p where p: "page_items d = Some p" using page_items_fine [OF assms(1)] by (auto elim: fineE)
  have "fine (\<lambda>r. kept_ok d (snd (snd r)))
      (do { s \<leftarrow> is_item_selected d (focus_item d); (_, d1) \<leftarrow> LISTBOX_SetSelection env (focus_item d) (\<not> s) (flag d LBS_NOTIFY) d; Some (-1, force, d1) })"
    if "nb_items d \<noteq> 0"
  proof -
    have "0 \<le> focus_item d" "focus_item d < nb_items d" using assms(1) that by (auto simp: lb_ok_def core_def)
    then show ?thesis
      by (intro fine_bind [OF selected_kept [OF assms(1)]] fine_bind [OF SetSelection_kept [OF assms(1)]]) auto
  qed
  then show ?thesis using assms by (auto simp: key_caret_def p Let_def kept_ok_refl)
qed

lemma chosen_kept: "lb_ok d \<Longrightarrow> flag d LBS_MULTIPLESEL \<Longrightarrow> kept_ok d (d\<lparr>selected_item := i\<rparr>)"
  by (simp add: kept_ok_def lb_ok_def)

lemma KeyDown_kept:
  assumes "lb_ok d" and "key = VK_SPACE \<Longrightarrow> nb_items d \<noteq> 0 \<or> \<not> flag d LBS_MULTIPLESEL \<or> flag d LBS_EXTENDEDSEL"
  shows "fine (kept_ok d) (LISTBOX_HandleKeyDown env key d)"
proof -
  have f: "fine (\<lambda>r. kept_ok d (snd (snd r))) (if asked = -1 then key_caret env key force d else Some (asked, force, d))" for asked force
    using key_caret_kept [OF assms] assms(1) by (simp add: kept_ok_refl)
  have m: "fine (kept_ok e) (do { d2 \<leftarrow> LISTBOX_MoveCaret env c True e;
        d3 \<leftarrow> (if flag d2 LBS_MULTIPLESEL then Some (d2\<lparr>selected_item := c\<rparr>) else map_option snd (LISTBOX_SetSelection env c True False d2));
        Some (if flag d3 LBS_NOTIFY \<and> nb_items d3 \<noteq> 0 then send (Notify LBN_SELCHANGE) d3 else d3) })" if "lb_ok e" for e c
  proof (rule kept_bind [OF MoveCaret_kept [OF that]])
    fix d2 assume "lb_ok d2"
    then show "fine (kept_ok d2) (do {
        d3 \<leftarrow> (if flag d2 LBS_MULTIPLESEL then Some (d2\<lparr>selected_item := c\<rparr>) else map_option snd (LISTBOX_SetSelection env c True False d2));
        Some (if flag d3 LBS_NOTIFY \<and> nb_items d3 \<noteq> 0 then send (Notify LBN_SELCHANGE) d3 else d3) })"
      by (intro kept_bind) (simp_all add: chosen_kept kept_map_snd SetSelection_kept kept_ok_refl)
  qed
  have step: "fine (kept_ok x) (do { d2 \<leftarrow> LISTBOX_MoveCaret env c True e;
        d3 \<leftarrow> (if flag d2 LBS_MULTIPLESEL then Some (d2\<lparr>selected_item := c\<rparr>) else map_option snd (LISTBOX_SetSelection env c True False d2));
        Some (if flag d3 LBS_NOTIFY \<and> nb_items d3 \<noteq> 0 then send (Notify LBN_SELCHANGE) d3 else d3) })" if "lb_ok e" "kept_ok x = kept_ok e" for e c x
    unfolding that(2) by (rule m [OF that(1)])
  show ?thesis
  proof (cases "(if flag d LBS_WANTKEYBOARDINPUT then lb_vkeytoitem env key (focus_item d) else -1) = -2")
    case False
    show ?thesis unfolding LISTBOX_HandleKeyDown_def Let_def if_not_P [OF False]
      by (rule kept_via [where p = "\<lambda>r. snd (snd r)" and q = "\<lambda>x. x", OF f]) (auto simp: kept_ok_refl split: prod.split intro!: step)
  qed (simp add: LISTBOX_HandleKeyDown_def assms(1) kept_ok_refl)
qed

section \<open>Searches\<close>

lemma item_string_fine:
  assumes "core d" "HAS_STRINGS d" "0 \<le> i" "i < nb_items d"
  obtains t where "get_item_string d i = Some (Some t)"
proof -
  have g: "\<not> flag d LBS_NODATA" "\<forall>it\<in>set (items d). it_str it \<noteq> None" using assms by (auto simp: core_def strings_ok_def)
  then obtain xs where xs: "u_items d = Some xs" "int (length xs) = items_size d"
    using assms by (auto simp: core_def storage_ok_def cells_ok_def split: option.splits)
  have b: "nb_items d \<le> items_size d" using assms(1) by (simp add: core_def)
  then have "items d ! nat i = xs ! nat i" "nat i < length (items d)" using xs assms(3,4) by (auto simp: items_def)
  then obtain t where "it_str (xs ! nat i) = Some t" using g(2) nth_mem by fastforce
  then show ?thesis using that [of t] xs b assms by (simp add: get_item_string_def cell_def)
qed

lemma item_data_fine: "core d \<Longrightarrow> 0 \<le> i \<Longrightarrow> i < nb_items d \<Longrightarrow> fine (\<lambda>_. True) (get_item_data d i)"
  by (auto simp: core_def storage_ok_def cells_ok_def get_item_data_def cell_def split: option.splits if_splits)

lemma find_pos_fine:
  "(\<And>i. lo \<le> i \<Longrightarrow> i \<le> hi \<Longrightarrow> fine (\<lambda>_. True) (cmp i)) \<Longrightarrow> 
    fine (\<lambda>r. (exact \<and> r = -1) \<or> (lo \<le> r \<and> r \<le> max lo (hi + 1))) (find_pos cmp exact lo hi)"
proof (induction cmp exact lo hi rule: find_pos.induct)
  case (1 cmp exact lo hi)
  show ?case
  proof (cases "lo \<le> hi")
    case True
    define m where "m = (lo + hi) div 2"
    have m: "lo \<le> m" "m \<le> hi" using True by (simp_all add: m_def)
    then obtain r where r: "cmp m = Some r" using 1(3) by (auto simp: fine_def)
    consider "r = 0" | "r > 0" | "r < 0" by linarith
    then show ?thesis
    proof cases
      case 2
      then have "fine (\<lambda>r. (exact \<and> r = -1) \<or> (lo \<le> r \<and> r \<le> max lo (m - 1 + 1))) (find_pos cmp exact lo (m - 1))"
        using 1(1) [OF True m_def r] 1(3) m by simp
      then show ?thesis using 2 r True m by (subst find_pos.simps) (auto simp: m_def [symmetric] elim!: fine_mono)
    next
      case 3
      then have "fine (\<lambda>r. (exact \<and> r = -1) \<or> (m + 1 \<le> r \<and> r \<le> max (m + 1) (hi + 1))) (find_pos cmp exact (m + 1) hi)"
        using 1(2) [OF True m_def r] 1(3) m by simp
      then show ?thesis using 3 r True m by (subst find_pos.simps) (auto simp: m_def [symmetric] elim!: fine_mono)
    qed (use r True m in \<open>subst find_pos.simps, simp add: m_def [symmetric]\<close>)
  qed (subst find_pos.simps, auto)
qed

lemma find_around_fine:
  "(\<And>i. 0 \<le> i \<Longrightarrow> i < nb \<Longrightarrow> fine (\<lambda>_. True) (test i)) \<Longrightarrow> 0 \<le> i \<Longrightarrow> i \<le> nb \<Longrightarrow> 0 < nb \<Longrightarrow>
    fine (\<lambda>r. r = LB_ERR \<or> (0 \<le> r \<and> r < nb)) (find_around test nb i n)"
proof (induction n arbitrary: i)
  case (Suc n)
  define j where "j = (if i = nb then 0 else i)"
  have j: "0 \<le> j" "j < nb" using Suc(3,4,5) by (auto simp: j_def)
  then have "fine (\<lambda>_. True) (test j)" using Suc(2) by simp
  moreover have "fine (\<lambda>r. r = LB_ERR \<or> (0 \<le> r \<and> r < nb)) (find_around test nb (j + 1) n)" using Suc j by simp
  ultimately show ?case using j by (auto simp: Let_def j_def [symmetric] elim!: fineE)
qed simp

end
