(* ===== verification/Listbox_Window.thy ===== *)
theory Listbox_Window
  imports Listbox_Messages
begin

text \<open>
  Listboxes, continued: the messages that are permitted, and that each of them comes back without a fault and keeps the invariant.
\<close>

lemma FindStringPos_fine:
  assumes "core d" "HAS_STRINGS d \<Longrightarrow> flag d LBS_SORT \<Longrightarrow> nb_items d = 0"
  shows "fine (\<lambda>i. -1 \<le> i \<and> i \<le> nb_items d) (LISTBOX_FindStringPos env d str data exact)"
proof (cases "nb_items d = 0 \<or> \<not> flag d LBS_SORT")
  case False
  then have "\<not> HAS_STRINGS d" using assms by auto
  then have "fine (\<lambda>_. True) (compare_item env d i str data)" if "0 \<le> i" "i \<le> nb_items d - 1" for i
    using item_data_fine [OF assms(1), of i] that by (auto simp: compare_item_def elim!: fineE)
  then have "fine (\<lambda>r. (exact \<and> r = -1) \<or> (0 \<le> r \<and> r \<le> max 0 (nb_items d - 1 + 1)))
      (find_pos (\<lambda>i. compare_item env d i str data) exact 0 (nb_items d - 1))" by (rule find_pos_fine)
  moreover have "0 < nb_items d" using False assms(1) by (simp add: core_def)
  ultimately show ?thesis using False by (auto simp: LISTBOX_FindStringPos_def elim!: fine_mono)
qed (use assms(1) in \<open>auto simp: LISTBOX_FindStringPos_def core_def\<close>)

lemma FindFileStrPos_fine:
  assumes "core d" "HAS_STRINGS d \<Longrightarrow> nb_items d = 0"
  shows "fine (\<lambda>_. True) (LISTBOX_FindFileStrPos env d str data)"
  using assms FindStringPos_fine [OF assms(1), of env str data False]
  by (auto simp: LISTBOX_FindFileStrPos_def find_file_pos.simps elim: fine_mono)

lemma FindString_fine:
  assumes "core d" "-1 \<le> start" and "exact \<Longrightarrow> HAS_STRINGS d \<Longrightarrow> nb_items d = 0 \<or> str = None \<or> str = Some []"
  shows "fine (\<lambda>i. i = LB_ERR \<or> (0 \<le> i \<and> i \<le> nb_items d)) (LISTBOX_FindString env d start str data exact)"
proof (cases "nb_items d = 0")
  case True
  then show ?thesis by (auto simp: LISTBOX_FindString_def LISTBOX_FindStringPos_def Let_def LB_ERR_def split: option.splits)
next
  case False
  define first where "first = (if start + 1 \<ge> nb_items d then 0 else start + 1)"
  have b: "0 \<le> first" "first \<le> nb_items d" "0 < nb_items d" using assms False by (auto simp: first_def core_def)
  have around: "fine (\<lambda>i. i = LB_ERR \<or> (0 \<le> i \<and> i \<le> nb_items d)) (find_around test (nb_items d) first n)"
    if "\<And>i. 0 \<le> i \<Longrightarrow> i < nb_items d \<Longrightarrow> fine (\<lambda>_. True) (test i)" for test n
    using find_around_fine [OF that b] by (rule fine_mono) auto
  have s: "fine (\<lambda>_. True) (do { q \<leftarrow> get_item_string d i; t \<leftarrow> q; Some (f t) })" if "HAS_STRINGS d" "0 \<le> i" "i < nb_items d" for i and f :: "cstring \<Rightarrow> bool"
    using item_string_fine [OF assms(1) that] by fastforce
  have n: "fine (\<lambda>_. True) (map_option (\<lambda>x. x = data) (get_item_data d i))" if "0 \<le> i" "i < nb_items d" for i
    using item_data_fine [OF assms(1) that] by (auto elim: fineE)
  have p: "fine (\<lambda>i. i = LB_ERR \<or> (0 \<le> i \<and> i \<le> nb_items d)) (LISTBOX_FindStringPos env d str data True)" if "\<not> HAS_STRINGS d"
    using FindStringPos_fine [OF assms(1), of env str data True] that by (auto simp: LB_ERR_def elim!: fine_mono)
  show ?thesis
    using assms(3) False around [OF s] around [OF n] p
    by (auto simp: LISTBOX_FindString_def first_def [symmetric] Let_def split: option.split)
qed

lemma HandleChar_kept:
  assumes "lb_ok d"
  shows "fine (kept_ok d) (LISTBOX_HandleChar env c d)"
proof -
  define asked where "asked = (if flag d LBS_WANTKEYBOARDINPUT then lb_chartoitem env c (focus_item d) else -1)"
  have "-1 \<le> focus_item d" using assms by (simp add: lb_ok_def)
  then obtain i where i: "(if asked = -1 then LISTBOX_FindString env d (focus_item d) (Some (if c = 0 then [] else [c])) (lb_stack env) False else Some asked) = Some i"
    using FindString_fine [OF lb_ok_core [OF assms], of "focus_item d" False "Some (if c = 0 then [] else [c])" env "lb_stack env"] by (fastforce elim: fineE)
  have f: "fine (kept_ok d) (if \<not> IS_MULTISELECT d \<and> selected_item d = -1 then map_option snd (LISTBOX_SetSelection env i True False d) else Some d)"
    using assms by (simp add: kept_ok_refl kept_map_snd SetSelection_kept)
  have "fine (kept_ok d) (do {
      d1 \<leftarrow> (if \<not> IS_MULTISELECT d \<and> selected_item d = -1 then map_option snd (LISTBOX_SetSelection env i True False d) else Some d);
      d2 \<leftarrow> LISTBOX_MoveCaret env i True d1;
      Some (if flag d2 LBS_NOTIFY \<and> nb_items d2 \<noteq> 0 then send (Notify LBN_SELCHANGE) d2 else d2) })"
    by (intro kept_bind [OF f] kept_bind [OF MoveCaret_kept]) (simp_all add: kept_ok_refl)
  then show ?thesis using assms i unfolding LISTBOX_HandleChar_def asked_def [symmetric] Let_def by (simp add: kept_ok_refl)
qed

section \<open>Answers about the items\<close>

lemma GetText_fine: "core d \<Longrightarrow> fine (\<lambda>_. True) (LISTBOX_GetText d i)"
proof (cases "0 \<le> i \<and> i < nb_items d \<and> HAS_STRINGS d")
  case True
  moreover assume "core d"
  ultimately obtain t where "get_item_string d i = Some (Some t)" using item_string_fine [of d i] by auto
  then show ?thesis using True by (simp add: LISTBOX_GetText_def)
qed (auto simp: LISTBOX_GetText_def dest!: item_data_fine [of d i] elim!: fineE)

lemma count_selected_fine: "core d \<Longrightarrow> 0 \<le> i \<Longrightarrow> i + int n \<le> nb_items d \<Longrightarrow> fine (\<lambda>_. True) (count_selected d i n)"
proof (induction n arbitrary: i)
  case (Suc n)
  then have "fine (\<lambda>_. True) (is_item_selected d i)" "fine (\<lambda>_. True) (count_selected d (i + 1) n)" by (auto intro: selected_fine)
  then show ?case by (auto elim!: fineE)
qed simp

lemma selected_from_fine: "core d \<Longrightarrow> 0 \<le> i \<Longrightarrow> i + int n \<le> nb_items d \<Longrightarrow> fine (\<lambda>_. True) (selected_from d i n k)"
proof (induction n arbitrary: i k)
  case (Suc n)
  then have "fine (\<lambda>_. True) (is_item_selected d i)" "fine (\<lambda>_. True) (selected_from d (i + 1) n (k - 1))"
    "fine (\<lambda>_. True) (selected_from d (i + 1) n k)" by (auto intro: selected_fine)
  then show ?case by (auto elim!: fineE)
qed simp

lemma GetItemHeight_fine: "core d \<Longrightarrow> fine (\<lambda>_. True) (LISTBOX_GetItemHeight d i)"
  by (auto simp: LISTBOX_GetItemHeight_def core_def intro!: item_height_fine)

section \<open>Messages\<close>

fun permitted :: "lb_msg \<Rightarrow> LB_DESCR \<Rightarrow> bool" where
  "permitted (Items (LB_ADDSTRING str data)) d \<longleftrightarrow> nb_items d < 2147483632 \<and> (HAS_STRINGS d \<and> flag d LBS_SORT \<longrightarrow> nb_items d = 0)"
| "permitted (Items (LB_INSERTSTRING i str data)) d \<longleftrightarrow> nb_items d < 2147483632"
| "permitted (Items (LB_ADDFILE str data)) d \<longleftrightarrow> nb_items d < 2147483632 \<and> (HAS_STRINGS d \<longrightarrow> nb_items d = 0)"
| "permitted (Items (LB_DELETESTRING i)) d \<longleftrightarrow> nb_items d \<le> 2147483632 \<and> \<not> flag d LBS_OWNERDRAWVARIABLE"
| "permitted (Items (LB_FINDSTRING start str data)) d \<longleftrightarrow> -1 \<le> start"
| "permitted (Items (LB_FINDSTRINGEXACT start str data)) d \<longleftrightarrow>
     -1 \<le> start \<and> (HAS_STRINGS d \<longrightarrow> nb_items d = 0 \<or> str = None \<or> str = Some [])"
| "permitted (Items (LB_INITSTORAGE n)) d \<longleftrightarrow> 0 \<le> n \<and> nb_items d + n \<le> 2147483632"
| "permitted (Items (LB_SETCOUNT n)) d \<longleftrightarrow> 0 \<le> n \<and> n \<le> 2147483632"
| "permitted (Selection (LB_SELECTSTRING start str data)) d \<longleftrightarrow> -1 \<le> start"
| "permitted (View (LB_SETCOLUMNWIDTH w h c)) d \<longleftrightarrow> c \<noteq> 0"
| "permitted (View (WM_KEYDOWN key)) d \<longleftrightarrow>
     (key = VK_SPACE \<longrightarrow> nb_items d \<noteq> 0 \<or> \<not> flag d LBS_MULTIPLESEL \<or> flag d LBS_EXTENDEDSEL)"
| "permitted _ d \<longleftrightarrow> True"

abbreviation safe :: "(int \<times> LB_DESCR) option \<Rightarrow> bool" where
  "safe \<equiv> fine (\<lambda>r. lb_ok (snd r))"

lemma safe_kept: "fine (kept_ok d) r \<Longrightarrow> safe (map_option (Pair v) r)" "fine (\<lambda>r. kept_ok d (snd r)) s \<Longrightarrow> safe s"
  "fine (\<lambda>r. kept_ok d (snd r)) s \<Longrightarrow> safe (map_option (\<lambda>r. (v, snd r)) s)"
  by (auto simp: fine_def kept_ok_def)

lemma safe_answer: "lb_ok d \<Longrightarrow> fine P r \<Longrightarrow> safe (map_option (\<lambda>v. (v, d)) r)" "lb_ok d \<Longrightarrow> fine Q s \<Longrightarrow> safe (map_option (\<lambda>v. (v, d)) (map_option f s))"
  by (auto simp: fine_def)

lemma items_safe:
  assumes "lb_ok d" "permitted (Items msg) d"
  shows "safe (lb_items_proc env msg d)"
proof -
  note c = lb_ok_core [OF assms(1)]
  have ins: "safe (LISTBOX_InsertString env i str data d)" if "nb_items d < 2147483632" for i str data
    by (rule fine_mono [OF InsertString_fine [OF assms(1) that]]) auto
  show ?thesis
  proof (cases msg)
    case LB_RESETCONTENT
    then show ?thesis using reset_content_fine [OF c] by (auto elim!: fineE)
  next
    case (LB_ADDSTRING str data)
    then show ?thesis using assms(2) fine_bind [OF FindStringPos_fine [OF c] ins] by simp
  next
    case (LB_ADDFILE str data)
    then show ?thesis using assms(2) fine_bind [OF FindFileStrPos_fine [OF c] ins] by simp
  next
    case (LB_DELETESTRING i)
    then show ?thesis using assms RemoveItem_fine [OF assms(1), of i env] by (auto elim!: fineE)
  next
    case (LB_GETTEXTLEN i)
    show ?thesis
    proof (cases "0 \<le> i \<and> i < nb_items d \<and> HAS_STRINGS d")
      case True
      then obtain t where "get_item_string d i = Some (Some t)" using item_string_fine [OF c] by auto
      then show ?thesis using LB_GETTEXTLEN True assms(1) by simp
    qed (use LB_GETTEXTLEN assms(1) in auto)
  next
    case (LB_SETCOUNT n)
    then show ?thesis using assms SetCount_fine [OF assms(1), of n env] by (auto elim!: fine_mono)
  next
    case (LB_SETTABSTOPS tabs)
    then show ?thesis using SetTabStops_kept [OF assms(1), of env tabs] by (cases "LISTBOX_SetTabStops env tabs d") (simp add: kept_ok_def)
  next
    case (LB_SETITEMDATA i v)
    have "fine (kept_ok d) (set_item_data i v d)" if "0 \<le> i" "i < nb_items d"
      unfolding set_item_data_def using that by (intro change_item_kept [OF assms(1)]) simp_all
    then show ?thesis using LB_SETITEMDATA assms(1) safe_kept(1) by auto
  qed (use assms in \<open>auto simp: InitStorage_fine split: prod.split
      intro!: ins safe_answer(1) [OF assms(1) item_data_fine [OF c]] safe_answer(2) [OF assms(1) GetText_fine [OF c]]
        safe_answer(1) [OF assms(1) GetItemHeight_fine [OF c]] safe_answer(1) [OF assms(1) FindString_fine [OF c]]
        safe_kept(2) [OF SetItemHeight_kept [OF assms(1)]]\<close>)
qed

lemma selection_safe:
  assumes "lb_ok d" "permitted (Selection msg) d"
  shows "safe (lb_select_proc env msg d)"
proof -
  note c = lb_ok_core [OF assms(1)]
  have sel: "safe (LISTBOX_SetSelection env i on notify e)" if "lb_ok e" for i on notify e
    by (rule safe_kept(2) [OF SetSelection_kept [OF that]])
  have ran: "safe (LISTBOX_SelectItemRange lo hi on d)" for lo hi on
    by (rule safe_kept(2) [OF SelectItemRange_kept [OF assms(1)]])
  have car: "safe (LISTBOX_SetCaretIndex env i fully e)" if "lb_ok e" for i fully e
    by (rule safe_kept(2) [OF SetCaretIndex_kept [OF that]])
  have mov: "fine lb_ok (LISTBOX_MoveCaret env i fully d)" for i fully
    using MoveCaret_kept [OF assms(1)] by (rule fine_mono) (rule kept_okD)
  show ?thesis
  proof (cases msg)
    case (LB_SELECTSTRING start str data)
    then obtain i where i: "LISTBOX_FindString env d start str data False = Some i"
      using FindString_fine [OF c, of start False str env data] assms(2) by (auto elim: fineE)
    have "safe (do { d1 \<leftarrow> LISTBOX_MoveCaret env i True d; (_, d2) \<leftarrow> LISTBOX_SetSelection env i True False d1; Some (i, d2) })"
      by (intro fine_bind [OF mov] fine_bind [OF sel]) auto
    then show ?thesis using LB_SELECTSTRING i assms(1) by simp
  next
    case (LB_SETSEL on i)
    have "safe (map_option (\<lambda>r. (ret, snd r)) (LISTBOX_SetCaretIndex env i True (e\<lparr>anchor_item := i\<rparr>)))" if "lb_ok e" for ret e
      using that by (intro safe_kept(3) [OF SetCaretIndex_kept]) simp
    then show ?thesis unfolding LB_SETSEL lb_select_proc.simps
      by (intro fine_bind [OF sel [OF assms(1)]]) (auto simp: Let_def split: prod.split)
  next
    case (LB_SETCURSEL i)
    have "safe (do { (_, d1) \<leftarrow> LISTBOX_SetCaretIndex env i True d; (ret, d2) \<leftarrow> LISTBOX_SetSelection env i True False d1;
                Some (if ret \<noteq> LB_ERR then selected_item d2 else ret, d2) })"
    proof (rule fine_bind [OF car [OF assms(1)]])
      fix x :: "int \<times> LB_DESCR" assume "lb_ok (snd x)"
      then show "safe (case x of (_, d1) \<Rightarrow> do { (ret, d2) \<leftarrow> LISTBOX_SetSelection env i True False d1;
                Some (if ret \<noteq> LB_ERR then selected_item d2 else ret, d2) })"
        using fine_bind [OF sel, of "snd x"] by (cases x) (auto intro!: fine_bind [OF sel])
    qed
    then show ?thesis using LB_SETCURSEL assms(1) by simp
  next
    case (LB_GETSEL i)
    then show ?thesis using assms(1) selected_fine [OF c, of i] by (auto elim!: fineE)
  next
    case LB_GETSELCOUNT
    have "fine (\<lambda>_. True) (LISTBOX_GetSelCount d)"
      using count_selected_fine [OF c, of 0 "nat (nb_items d)"] c by (auto simp: LISTBOX_GetSelCount_def core_def)
    then show ?thesis using LB_GETSELCOUNT assms(1) by (auto elim!: fineE)
  next
    case (LB_GETSELITEMS m)
    have "fine (\<lambda>_. True) (LISTBOX_GetSelItems d m)"
      using selected_from_fine [OF c, of 0 "nat (nb_items d)" m] c by (auto simp: LISTBOX_GetSelItems_def core_def elim!: fineE)
    then show ?thesis using LB_GETSELITEMS assms(1) by (auto elim!: fineE)
  qed (use assms(1) in \<open>auto intro: ran car\<close>)
qed

lemma view_safe:
  assumes "lb_ok d" "permitted (View msg) d"
  shows "safe (lb_view_proc env msg d)"
proof -
  note c = lb_ok_core [OF assms(1)]
  show ?thesis
  proof (cases msg)
    case WM_KILLFOCUS
    define e where "e = (LISTBOX_HandleLButtonUp env d)\<lparr>in_focus := False, wheel_remain := 0\<rparr>"
    have "lb_ok e" using LButtonUp_kept [OF assms(1), of env] by (simp add: e_def kept_ok_def)
    then have "fine (kept_ok e) (if focus_item e \<noteq> -1 then LISTBOX_RepaintItem env (focus_item e) e else Some e)" by (simp add: page_kept kept_ok_refl)
    then show ?thesis unfolding WM_KILLFOCUS lb_view_proc.simps Let_def e_def [symmetric]
      by (rule fine_bind) (simp add: kept_okD)
  next
    case (LB_ITEMFROMPOINT x y)
    then show ?thesis using safe_answer(1) [OF assms(1) ItemFromPoint_fine [OF c]] by simp
  next
    case (LB_GETITEMRECT i)
    then show ?thesis using safe_answer(2) [OF assms(1) GetItemRect_fine [OF c]] by simp
  next
    case WM_LBUTTONUP
    then show ?thesis using kept_okD(1) [OF LButtonUp_kept [OF assms(1)]] by simp
  qed (use assms in \<open>auto intro!: safe_kept(1) [OF page_kept(2)] safe_kept(1) [OF SetColumnWidth_kept] safe_kept(1) [OF SetHorizontalExtent_kept]
      safe_kept(1) [OF SetRedraw_kept] safe_kept(1) [OF UpdateSize_kept] safe_kept(3) [OF SetFont_kept] safe_kept(1) [OF gets_focus_kept]
      safe_kept(1) [OF HScroll_kept] safe_kept(1) [OF VScroll_kept] safe_kept(1) [OF MouseWheel_kept] safe_kept(1) [OF LButtonDown_kept]
      safe_kept(1) [OF MouseMove_kept] safe_kept(1) [OF KeyDown_kept] safe_kept(1) [OF HandleChar_kept] safe_kept(1) [OF SystemTimer_kept]\<close>)
qed

lemma message_safe: "lb_ok d \<Longrightarrow> permitted msg d \<Longrightarrow> safe (LISTBOX_WindowProc env msg d)"
  by (cases msg) (simp_all add: items_safe selection_safe view_safe)

end
