(* ===== verification/Listbox_Props.thy ===== *)
theory Listbox_Props
  imports Listbox_Window
begin

text \<open>
  What a listbox promises: its messages are safe, insertion and removal act on the list of its items, the caret selects ranges, a sorted list
  stays sorted, and the point and the rectangle of an item belong together.
\<close>

section \<open>Every run\<close>

text \<open>A message that is permitted and comes back; the keyboard, the owner and the memory may answer differently each time.\<close>

inductive lb_step :: "LB_DESCR \<Rightarrow> LB_DESCR \<Rightarrow> bool" where
  message: "permitted msg d \<Longrightarrow> LISTBOX_WindowProc env msg d = Some (r, d') \<Longrightarrow> lb_step d d'"

lemma lb_step_keeps: "lb_step d d' \<Longrightarrow> lb_ok d \<Longrightarrow> lb_ok d'"
proof (induction rule: lb_step.induct)
  case (message msg d env r d')
  then show ?case using message_safe [OF message(3,1), of env] by simp
qed

interpretation listboxes: kept lb_step lb_ok
  by unfold_locales (rule lb_step_keeps)

lemma Create_ok:
  assumes "LISTBOX_Create styles w h sz measured junk timer = Some d" and "sz = None \<or> snd (the sz) \<noteq> 0"
  shows "lb_ok d"
proof -
  define s1 where "s1 = (if LBS_EXTENDEDSEL \<in> styles then insert LBS_MULTIPLESEL styles else styles)"
  define s2 where "s2 = (if LBS_MULTICOLUMN \<in> s1 then s1 - {LBS_OWNERDRAWVARIABLE} else s1)"
  define s3 where "s3 = (if LBS_OWNERDRAWVARIABLE \<in> s2 then insert LBS_NOINTEGRALHEIGHT s2 else s2)"
  define s4 where "s4 = (if LBS_OWNERDRAWFIXED \<in> s3 \<and> LBS_HASSTRINGS \<notin> s3 \<and> LBS_SORT \<notin> s3 then s3 else s3 - {LBS_NODATA})"
  define d0 where "d0 = \<lparr>style = s4, lb_width = w, lb_height = h, u_items = None, u_nodata = None, nb_items = 0, items_size = 0, top_item = 0,
                selected_item = -1, focus_item = 0, anchor_item = -1, item_height = 1, page_size = 1, column_width = 150, horz_extent = 0,
                horz_pos = 0, lb_tabs = [], avg_char_width = junk, wheel_remain = 0, captured = False, in_focus = False,
                LISTBOX_Timer = timer, lb_calls = []\<rparr>"
  have s: "LBS_EXTENDEDSEL \<in> s4 \<longrightarrow> LBS_MULTIPLESEL \<in> s4" "LBS_NODATA \<in> s4 \<longrightarrow> LBS_OWNERDRAWFIXED \<in> s4 \<and> LBS_HASSTRINGS \<notin> s4"
    by (auto simp: s4_def s3_def s2_def s1_def)
  have "LISTBOX_Create styles w h sz measured junk timer = do { (ht, d1) \<leftarrow> LISTBOX_SetFont sz d0;
      let d2 = d1\<lparr>item_height := ht\<rparr>;
      Some (if flag d2 LBS_OWNERDRAWFIXED then d2\<lparr>style := style d2 - {LBS_OWNERDRAWVARIABLE}, item_height := (if measured ht \<noteq> 0 then measured ht else 1)\<rparr> else d2) }"
    unfolding LISTBOX_Create_def s1_def [symmetric] s2_def [symmetric] s3_def [symmetric] s4_def [symmetric] Let_def d0_def ..
  then obtain ht d1 where f: "LISTBOX_SetFont sz d0 = Some (ht, d1)"
    and d: "d = (if flag d1 LBS_OWNERDRAWFIXED
        then d1\<lparr>item_height := if measured ht \<noteq> 0 then measured ht else 1, style := style d1 - {LBS_OWNERDRAWVARIABLE}\<rparr> else d1\<lparr>item_height := ht\<rparr>)"
    using assms(1) by (cases "LISTBOX_SetFont sz d0") (auto simp: Let_def)
  have ht: "ht \<noteq> 0" using f assms(2) by (auto simp: LISTBOX_SetFont_def Let_def bind_eq_Some_conv split: option.splits)
  show ?thesis
  proof (cases "LBS_OWNERDRAWFIXED \<in> s4 \<or> LBS_OWNERDRAWVARIABLE \<in> s4")
    case True
    then have "IS_OWNERDRAW d0" by (auto simp: d0_def IS_OWNERDRAW_def flag_def)
    then have "IS_OWNERDRAW (d0\<lparr>avg_char_width := c\<rparr>)" for c by (simp add: IS_OWNERDRAW_def)
    then obtain c where "d1 = d0\<lparr>avg_char_width := c\<rparr>"
      using f that [of junk] by (auto simp: LISTBOX_SetFont_def Let_def d0_def split: option.splits)
    then show ?thesis using s True ht unfolding d
      by (auto simp: d0_def lb_ok_def core_unfold flag_def cells_ok_def)
  next
    case False
    then have "lb_ok d0" using s by (auto simp: d0_def lb_ok_def core_unfold flag_def cells_ok_def)
    then have k: "kept_ok d0 d1" using SetFont_kept [of d0 sz] f by simp
    have "\<not> flag d1 LBS_OWNERDRAWFIXED" using k False by (simp add: kept_ok_def flag_def d0_def)
    then have "d = d1\<lparr>item_height := ht\<rparr>" using d by simp
    then show ?thesis using rest_kept [OF kept_okD(1) [OF k], of d] core_heights [OF lb_ok_core [OF kept_okD(1) [OF k]] ht] by (simp add: kept_ok_def)
  qed
qed

text \<open>C2: Whatever messages a listbox has handled since its creation, the next one that is permitted comes back without an access outside the
  storage, a division by zero or an exception, and leaves a listbox whose counts, storage, selection and caret agree.\<close>

theorem listbox_messages_safe:
  assumes "LISTBOX_Create styles w h sz measured junk timer = Some d" and "sz = None \<or> snd (the sz) \<noteq> 0"
    and "lb_step\<^sup>*\<^sup>* d e" and "permitted msg e"
  shows "\<exists>r e'. LISTBOX_WindowProc env msg e = Some (r, e') \<and> lb_ok e'"
proof -
  have "lb_ok e" using listboxes.run_keeps [OF assms(3) Create_ok [OF assms(1,2)]] .
  then show ?thesis using message_safe [OF _ assms(4), of env] by (auto simp: fine_def)
qed

definition demo_env :: lb_env where
  "demo_env = \<lparr>lb_mem = (\<lambda>_. True), lb_junk = (\<lambda>_. \<lparr>it_str = None, it_selected = True, it_height = 7, it_data = 9\<rparr>), lb_measure = (\<lambda>_ _ _. 12),
     lb_compare = (\<lambda>x y. x - y), lb_prefix = (\<lambda>s t. take (length s) t = s), lb_visible = True, lb_focus = True, lb_capture = True, lb_shift = False,
     lb_vkeytoitem = (\<lambda>_ _. -1), lb_chartoitem = (\<lambda>_ _. -1), lb_stack = 0\<rparr>"


text \<open>A listbox of the given style after some messages.\<close>

fun lb_script :: "lb_env \<Rightarrow> lb_msg list \<Rightarrow> LB_DESCR \<Rightarrow> LB_DESCR option" where
  "lb_script env [] d = Some d"
| "lb_script env (msg # msgs) d = do { (_, d1) \<leftarrow> LISTBOX_WindowProc env msg d; lb_script env msgs d1 }"

definition demo :: "LBS set \<Rightarrow> lb_msg list \<Rightarrow> LB_DESCR" where
  "demo styles msgs = the (do { d \<leftarrow> LISTBOX_Create styles 100 50 (Some (260, 10)) (\<lambda>h. h) 3 LB_TIMER_NONE; lb_script demo_env msgs d })"

definition one_item :: LB_DESCR where
  "one_item = demo {LBS_NOTIFY} [Items (LB_ADDSTRING (Some [65, 66]) 0)]"

theorem listbox_messages_safe_witness:
  "\<exists>r e'. LISTBOX_WindowProc demo_env (View (WM_KEYDOWN VK_DOWN)) one_item = Some (r, e') \<and> lb_ok e'"
proof -
  let ?add = "Items (LB_ADDSTRING (Some [65, 66]) 0)"
  let ?d = "demo {LBS_NOTIFY} []"
  have c: "map_option nb_items (LISTBOX_Create {LBS_NOTIFY} 100 50 (Some (260, 10)) (\<lambda>h. h) 3 LB_TIMER_NONE) = Some 0" by code_simp
  then have d: "LISTBOX_Create {LBS_NOTIFY} 100 50 (Some (260, 10)) (\<lambda>h. h) 3 LB_TIMER_NONE = Some ?d" by (auto simp: demo_def)
  have "map_option fst (LISTBOX_WindowProc demo_env ?add ?d) = Some 0" by code_simp
  then have "LISTBOX_WindowProc demo_env ?add ?d = Some (0, one_item)" 
    by (auto simp: one_item_def demo_def [of _ "[?add]"] d simp del: LISTBOX_WindowProc.simps)
  moreover have "permitted ?add ?d" by code_simp
  ultimately have "lb_step\<^sup>*\<^sup>* ?d one_item" by (intro r_into_rtranclp message)
  moreover have "permitted (View (WM_KEYDOWN VK_DOWN)) one_item" by (simp add: VK_DOWN_def VK_SPACE_def)
  ultimately show ?thesis using listbox_messages_safe [OF d, of _ "View (WM_KEYDOWN VK_DOWN)" demo_env] by simp
qed

section \<open>The list of the items\<close>

lemma resize_granted: "\<forall>n. lb_mem env n \<Longrightarrow> fst (resize_storage env d n)"
  by (simp add: resize_storage_def Let_def)

lemma InsertString_granted:
  assumes "lb_ok d" and "nb_items d < 2147483632" and "-1 \<le> i" and "i \<le> nb_items d" and "\<forall>n. lb_mem env n"
  shows "\<exists>j d'. LISTBOX_InsertString env i str data d = Some (j, d') \<and> j = (if i = -1 then nb_items d else i) \<and> lb_ok d'
    \<and> inserted d j (stored_string d str) data d'"
proof -
  obtain r d' where r: "LISTBOX_InsertString env i str data d = Some (r, d')" "lb_ok d'"
      "if 0 \<le> r then r = (if i = -1 then nb_items d else i) \<and> r \<le> nb_items d \<and> inserted d r (stored_string d str) data d'
       else (if i = -1 then nb_items d else i) < 0 \<or> nb_items d < (if i = -1 then nb_items d else i)"
    using InsertString_fine [OF assms(1,2), of i str data env] resize_granted [OF assms(5)] assms(5) by (auto simp: fine_def split: if_splits)
  moreover have "0 \<le> nb_items d" using assms(1) by (simp add: lb_ok_def core_def)
  ultimately show ?thesis using assms(3,4) by (cases "0 \<le> r") (auto split: if_splits)
qed

text \<open>C7: Inserting an item, when memory is granted, puts it at its index and shifts the items behind it; it stores a copy of the string, or the number if the
  listbox has no strings. In a listbox with several selections the states of selection shift with the items and the new item starts out not selected. A
  listbox with a single selection keeps the index of the selected item, not the item: the new item is the selected one if it goes to that index.\<close>

theorem InsertString_inserts:
  assumes "lb_ok d" and "nb_items d < 2147483632" and "-1 \<le> i" and "i \<le> nb_items d" and "\<forall>n. lb_mem env n"
  shows "\<exists>j d'. LISTBOX_InsertString env i str data d = Some (j, d') \<and> j = (if i = -1 then nb_items d else i) \<and> lb_ok d'
    \<and> inserted d j (stored_string d str) data d'
    \<and> (if multi d then \<not> chosen d' ! nat j else selected_item d' = selected_item d)"
proof -
  obtain j d' where r: "LISTBOX_InsertString env i str data d = Some (j, d')" "j = (if i = -1 then nb_items d else i)" "lb_ok d'"
      "inserted d j (stored_string d str) data d'"
    using InsertString_granted [OF assms, of str data] by blast
  have "\<not> chosen d' ! nat j" if m: "multi d"
  proof -
    have "nat j \<le> length (chosen d)" using length_chosen [OF lb_ok_core [OF assms(1)] m] r(2) assms(4) by (auto split: if_splits)
    then show ?thesis using r(4) m by (simp add: inserted_def nth_append)
  qed
  moreover have "\<not> multi d \<Longrightarrow> selected_item d' = selected_item d" using r(4) by (auto simp: inserted_def IS_MULTISELECT_def)
  ultimately show ?thesis using r by auto
qed

theorem InsertString_inserts_witness:
  "\<exists>d'. LISTBOX_InsertString demo_env 0 (Some [67]) 0 one_item = Some (0, d') \<and> lb_ok d'
    \<and> inserted one_item 0 (stored_string one_item (Some [67])) 0 d' \<and> selected_item d' = selected_item one_item"
proof -
  have o: "lb_ok one_item" "nb_items one_item = 1" "\<not> multi one_item" by code_simp+
  have "\<forall>n. lb_mem demo_env n" by (simp add: demo_env_def)
  with o InsertString_inserts [of one_item 0 demo_env "Some [67]" 0] show ?thesis by simp
qed

text \<open>C8: Removing an item takes it and its state out of the lists and moves the selection of a single-selection listbox with the item it is on; an item
  that does not exist is an error that changes nothing. The items are not of variable height (no \<^verbatim>\<open>LBS_OWNERDRAWVARIABLE\<close>).\<close>

theorem RemoveItem_removes:
  assumes "lb_ok d" and "nb_items d \<le> 2147483632" and "\<not> flag d LBS_OWNERDRAWVARIABLE"
  shows "\<exists>r d'. LISTBOX_RemoveItem env i d = Some (r, d') \<and> lb_ok d'
    \<and> (if 0 \<le> i \<and> i < nb_items d then r = LB_OKAY \<and> removed d i d' else r = LB_ERR \<and> d' = d)"
  using RemoveItem_fine [OF assms, of i env] by (auto simp: fine_def)

theorem RemoveItem_removes_witness:
  "\<exists>r d'. LISTBOX_RemoveItem demo_env 0 one_item = Some (r, d') \<and> lb_ok d'
    \<and> r = LB_OKAY \<and> removed one_item 0 d'"
proof -
  have "lb_ok one_item" "nb_items one_item = 1"
    "\<not> flag one_item LBS_OWNERDRAWVARIABLE" by code_simp+
  then show ?thesis using RemoveItem_removes [of one_item demo_env 0] by simp
qed

section \<open>Selection\<close>

text \<open>C37: Moving the caret of a listbox with extended selection selects exactly the items between the anchor and the new caret.\<close>

theorem MoveCaret_extends:
  assumes "lb_ok d" and "0 \<le> i" and "i < nb_items d" and "flag d LBS_EXTENDEDSEL" and "\<not> flag d LBS_NOSEL" and "anchor_item d \<noteq> -1"
  shows "\<exists>d'. LISTBOX_MoveCaret env i fully d = Some d' \<and> lb_ok d' \<and> focus_item d' = i \<and> nb_items d' = nb_items d
    \<and> (\<forall>k. 0 \<le> k \<and> k < nb_items d \<longrightarrow> is_item_selected d' k = Some (min i (anchor_item d) \<le> k \<and> k \<le> max i (anchor_item d)))"
proof -
  obtain d' where m: "LISTBOX_MoveCaret env i fully d = Some d'" "extended d i d'"
    using MoveCaret_fine [OF lb_ok_core [OF assms(1)] assms(2,3), of env fully] by (auto simp: fine_def)
  have k: "kept_ok d d'" using MoveCaret_kept [OF assms(1), of env i fully] m(1) by simp
  have u: "unmarked d' = unmarked (d\<lparr>focus_item := i\<rparr>)" "core d'"
    and c: "chosen d' = map (\<lambda>k. min i (anchor_item d) \<le> int k \<and> int k \<le> max i (anchor_item d)) [0..<length (chosen d)]"
    using m(2) assms(4-6) by (simp_all add: extended_def)
  have multi: "multi d" "multi d'" using assms(4) k by (simp_all add: multi_def kept_ok_def)
  have "is_item_selected d' k = Some (min i (anchor_item d) \<le> k \<and> k \<le> max i (anchor_item d))" if "0 \<le> k" "k < nb_items d" for k
    using selected_chosen [OF u(2) multi(2), of k] length_chosen [OF lb_ok_core [OF assms(1)] multi(1)] kept_okD(2) [OF k] that by (simp add: c)
  then show ?thesis using m(1) kept_okD [OF k] unmarkedD(2) [OF u(1)] by simp
qed

text \<open>Four items, with the anchor at the second.\<close>

definition four_items :: LB_DESCR where
  "four_items = demo {LBS_EXTENDEDSEL, LBS_MULTIPLESEL} (map (\<lambda>c. Items (LB_ADDSTRING (Some [c]) 0)) [65, 66, 67, 68] @ [Selection (LB_SETANCHORINDEX 1)])"

theorem MoveCaret_extends_witness:
  "\<exists>d'. LISTBOX_MoveCaret demo_env 2 True four_items = Some d' \<and> lb_ok d' \<and> focus_item d' = 2 \<and> nb_items d' = nb_items four_items
    \<and> (\<forall>k. 0 \<le> k \<and> k < nb_items four_items \<longrightarrow> is_item_selected d' k = Some (min 2 (anchor_item four_items) \<le> k \<and> k \<le> max 2 (anchor_item four_items)))"
proof -
  have "lb_ok four_items" "2 < nb_items four_items" "flag four_items LBS_EXTENDEDSEL" "\<not> flag four_items LBS_NOSEL" "anchor_item four_items \<noteq> -1"
    by code_simp+
  then show ?thesis using MoveCaret_extends [of four_items 2 demo_env True] by simp
qed

end
