(* ===== verification/Listbox_Order.thy ===== *)
theory Listbox_Order
  imports Listbox_Props
begin

text \<open>
  Sorted listboxes: the search for the place of a new item, which keeps the order that the owner gives by comparing, and the
  comparison of strings, which throws.
\<close>

section \<open>The order of the owner\<close>

definition owner_order :: "(int \<Rightarrow> int \<Rightarrow> int) \<Rightarrow> bool" where
  "owner_order c \<longleftrightarrow> (\<forall>x y. c x y \<le> 0 \<longleftrightarrow> 0 \<le> c y x) \<and> (\<forall>x y z. c x y \<le> 0 \<longrightarrow> c y z \<le> 0 \<longrightarrow> c x z \<le> 0)"

lemma owner_orderD:
  assumes "owner_order c"
  shows "c x y \<le> 0 \<Longrightarrow> 0 \<le> c y x" "0 \<le> c x y \<Longrightarrow> c y x \<le> 0" "c x y \<le> 0 \<Longrightarrow> c y z \<le> 0 \<Longrightarrow> c x z \<le> 0"
  using assms unfolding owner_order_def by blast+

definition in_order :: "(int \<Rightarrow> int \<Rightarrow> int) \<Rightarrow> int list \<Rightarrow> bool" where
  "in_order c xs \<longleftrightarrow> sorted_wrt (\<lambda>x y. c x y \<le> 0) xs"

text \<open>The places where a value can be put into the list.\<close>

definition place :: "(int \<Rightarrow> int \<Rightarrow> int) \<Rightarrow> int list \<Rightarrow> int \<Rightarrow> int \<Rightarrow> bool" where
  "place c xs v r \<longleftrightarrow> 0 \<le> r \<and> r \<le> int (length xs) \<and> (\<forall>k<length xs. if int k < r then c (xs ! k) v \<le> 0 else 0 \<le> c (xs ! k) v)"

lemma place_inserts:
  assumes "owner_order c" "in_order c xs" "place c xs v r"
  shows "in_order c (take (nat r) xs @ v # drop (nat r) xs)"
proof -
  have s: "in_order c (take (nat r) xs)" "in_order c (drop (nat r) xs)" "\<forall>x\<in>set (take (nat r) xs). \<forall>y\<in>set (drop (nat r) xs). c x y \<le> 0"
    using assms(2) sorted_wrt_append [of "\<lambda>x y. c x y \<le> 0" "take (nat r) xs" "drop (nat r) xs"] by (simp_all add: in_order_def)
  have "c x v \<le> 0" if "x \<in> set (take (nat r) xs)" for x
    using that assms(3) by (auto simp: place_def in_set_conv_nth) 
  moreover have "c v y \<le> 0" if "y \<in> set (drop (nat r) xs)" for y
  proof -
    obtain k where "k < length xs - nat r" "y = xs ! (nat r + k)" using \<open>y \<in> set (drop (nat r) xs)\<close> by (auto simp: in_set_conv_nth)
    then have "0 \<le> c y v" using assms(3) by (auto simp: place_def dest!: spec [of _ "nat r + k"])
    then show ?thesis by (rule owner_orderD(2) [OF assms(1)])
  qed
  ultimately show ?thesis using s by (auto simp: in_order_def sorted_wrt_append)
qed

lemma find_pos_place:
  assumes c: "owner_order c" and xs: "in_order c xs" and cmp: "\<And>k. k < length xs \<Longrightarrow> cmp (int k) = Some (c (xs ! k) v)"
  shows "0 \<le> lo \<Longrightarrow> lo \<le> hi + 1 \<Longrightarrow> hi < int (length xs) \<Longrightarrow> (\<And>k. int k < lo \<Longrightarrow> c (xs ! k) v \<le> 0)
    \<Longrightarrow> (\<And>k. hi < int k \<Longrightarrow> k < length xs \<Longrightarrow> 0 \<le> c (xs ! k) v) \<Longrightarrow> fine (place c xs v) (find_pos cmp False lo hi)"
proof (induction "nat (hi + 1 - lo)" arbitrary: lo hi rule: less_induct)
  case less
  show ?case
  proof (cases "lo \<le> hi")
    case True
    define m where "m = (lo + hi) div 2"
    have m: "lo \<le> m" "m \<le> hi" "int (nat m) = m" "nat m < length xs" using True less.prems by (auto simp: m_def)
    then have r: "cmp m = Some (c (xs ! nat m) v)" using cmp [of "nat m"] by simp
    have step: "find_pos cmp False lo hi = (if c (xs ! nat m) v = 0 then Some m
        else if c (xs ! nat m) v > 0 then find_pos cmp False lo (m - 1) else find_pos cmp False (m + 1) hi)"
      using True r by (subst find_pos.simps) (simp add: m_def [symmetric])
    have above: "c (xs ! nat m) (xs ! k) \<le> 0" if "nat m < k" "k < length xs" for k
      using xs that by (simp add: in_order_def sorted_wrt_iff_nth_less)
    have below: "c (xs ! k) (xs ! nat m) \<le> 0" if "k < nat m" for k
      using xs that m(4) by (simp add: in_order_def sorted_wrt_iff_nth_less)
    have left: "c (xs ! k) v \<le> 0" if "k \<le> nat m" "c (xs ! nat m) v \<le> 0" for k
      using that below [of k] owner_orderD(3) [OF c, of "xs ! k" "xs ! nat m" v] by (cases "k = nat m") auto
    have right: "0 \<le> c (xs ! k) v" if "nat m \<le> k" "k < length xs" "0 \<le> c (xs ! nat m) v" for k
    proof (cases "k = nat m")
      case False
      then have "c (xs ! nat m) (xs ! k) \<le> 0" using above that by simp
      then show ?thesis using owner_orderD(3) [OF c owner_orderD(2) [OF c that(3)]] owner_orderD(1) [OF c] by blast
    qed (use that in simp)
    consider "c (xs ! nat m) v = 0" | "c (xs ! nat m) v > 0" | "c (xs ! nat m) v < 0" by linarith
    then show ?thesis
    proof cases
      case 1
      then have "place c xs v m" using m left right less.prems(1) by (auto simp: place_def)
      then show ?thesis using 1 by (simp add: step)
    next
      case 2
      have "fine (place c xs v) (find_pos cmp False lo (m - 1))"
        by (rule less.hyps) (use 2 m less.prems right in auto)
      then show ?thesis using 2 by (simp add: step)
    next
      case 3
      have "fine (place c xs v) (find_pos cmp False (m + 1) hi)"
        by (rule less.hyps) (use 3 m less.prems left in auto)
      then show ?thesis using 3 by (simp add: step)
    qed
  next
    case False
    then have "lo = hi + 1" using less.prems by simp
    then have "place c xs v lo" using less.prems by (auto simp: place_def)
    then show ?thesis using False by (subst find_pos.simps) simp
  qed
qed

lemma get_item_data_items:
  assumes "core d" "\<not> flag d LBS_NODATA" "k < length (items d)"
  shows "get_item_data d (int k) = Some (it_data (items d ! k))"
proof -
  have b: "nb_items d \<le> items_size d" "0 \<le> nb_items d" using assms(1) by (simp_all add: core_def)
  then obtain zs where "u_items d = Some zs" "int (length zs) = items_size d"
    using assms by (auto simp: core_def storage_ok_def cells_ok_def items_def split: option.splits)
  then show ?thesis using assms(2,3) b by (auto simp: get_item_data_def cell_def items_def)
qed

text \<open>C38: Adding an item to a sorted listbox of the owner, whose comparison is an order, puts it where the items stay in order.\<close>

theorem AddString_sorted:
  assumes "lb_ok d" and "nb_items d < 2147483632" and "flag d LBS_SORT" and "\<not> HAS_STRINGS d" and "\<not> flag d LBS_NODATA"
    and "owner_order (lb_compare env)" and "in_order (lb_compare env) (map it_data (items d))" and "\<forall>n. lb_mem env n"
  shows "\<exists>j d'. LISTBOX_WindowProc env (Items (LB_ADDSTRING str data)) d = Some (j, d') \<and> lb_ok d' \<and> 0 \<le> j \<and> j < nb_items d'
    \<and> map it_data (items d') = take (nat j) (map it_data (items d)) @ data # drop (nat j) (map it_data (items d))
    \<and> in_order (lb_compare env) (map it_data (items d'))"
proof -
  let ?xs = "map it_data (items d)"
  note c = lb_ok_core [OF assms(1)]
  have n: "int (length ?xs) = nb_items d" "0 \<le> nb_items d" using length_items [OF c assms(5)] c by (simp_all add: core_def)
  have "fine (place (lb_compare env) ?xs data) (find_pos (\<lambda>i. compare_item env d i str data) False 0 (nb_items d - 1))"
    using n get_item_data_items [OF c assms(5)] assms(4)
    by (intro find_pos_place [OF assms(6,7)]) (auto simp: compare_item_def)
  then obtain x where x: "find_pos (\<lambda>i. compare_item env d i str data) False 0 (nb_items d - 1) = Some x" "place (lb_compare env) ?xs data x"
    by (auto simp: fine_def)
  have "\<exists>i. LISTBOX_FindStringPos env d str data False = Some i \<and> -1 \<le> i \<and> place (lb_compare env) ?xs data (if i = -1 then nb_items d else i)"
  proof (cases "nb_items d = 0")
    case True
    then show ?thesis using n by (simp add: LISTBOX_FindStringPos_def place_def)
  next
    case False
    have "0 \<le> x" using x(2) by (simp add: place_def)
    then show ?thesis using False x assms(3) by (intro exI [of _ x]) (simp add: LISTBOX_FindStringPos_def)
  qed
  then obtain i where i: "LISTBOX_FindStringPos env d str data False = Some i" "-1 \<le> i"
    and p: "place (lb_compare env) ?xs data (if i = -1 then nb_items d else i)" by blast
  define j where "j = (if i = -1 then nb_items d else i)"
  have j: "0 \<le> j" "j \<le> nb_items d" using p n by (auto simp: place_def j_def)
  obtain d' where ins: "LISTBOX_InsertString env i str data d = Some (j, d')" "lb_ok d'" and r': "inserted d j (stored_string d str) data d'"
    using InsertString_granted [OF assms(1,2) i(2) _ assms(8), of str data] j by (auto simp: j_def split: if_splits)
  then have l: "map it_data (items d') = take (nat j) ?xs @ data # drop (nat j) ?xs"
    using assms(4,5) by (auto simp: inserted_def take_map drop_map)
  have "in_order (lb_compare env) (map it_data (items d'))" unfolding l by (rule place_inserts [OF assms(6,7)]) (use p in \<open>simp add: j_def\<close>)
  then show ?thesis using i(1) ins r' l j by (simp add: inserted_def)
qed

definition owned_items :: LB_DESCR where
  "owned_items = demo {LBS_OWNERDRAWFIXED, LBS_SORT} (map (\<lambda>v. Items (LB_ADDSTRING None v)) [30, 10, 20])"

theorem AddString_sorted_witness:
  "\<exists>j d'. LISTBOX_WindowProc demo_env (Items (LB_ADDSTRING None 15)) owned_items = Some (j, d') \<and> lb_ok d' \<and> 0 \<le> j \<and> j < nb_items d'
    \<and> map it_data (items d') = take (nat j) [10, 20, 30] @ 15 # drop (nat j) [10, 20, 30]
    \<and> in_order (lb_compare demo_env) (map it_data (items d'))"
proof -
  have "lb_ok owned_items" "nb_items owned_items < 2147483632" "flag owned_items LBS_SORT" "\<not> HAS_STRINGS owned_items"
    "\<not> flag owned_items LBS_NODATA" and l: "map it_data (items owned_items) = [10, 20, 30]" by code_simp+
  then show ?thesis using AddString_sorted [of owned_items demo_env None 15]
    by (simp add: demo_env_def owner_order_def in_order_def)
qed

section \<open>Strings\<close>

text \<open>C39: A sorted listbox with strings that has an item cannot get another one by \<^verbatim>\<open>LB_ADDSTRING\<close>: the comparison builds a string of length -1.\<close>

theorem sorted_listbox_throws:
  assumes "HAS_STRINGS d" and "flag d LBS_SORT" and "0 < nb_items d"
  shows "LISTBOX_WindowProc env (Items (LB_ADDSTRING str data)) d = None"
proof -
  have "LISTBOX_lstrcmpi s t = None" for s t by (cases s) (simp_all add: LISTBOX_lstrcmpi_def CompareStringA_def std_string_def)
  then have "compare_item env d i str data = None" for i
    using assms(1) by (cases "get_item_string d i") (simp_all add: compare_item_def)
  then have "find_pos (\<lambda>i. compare_item env d i str data) False 0 (nb_items d - 1) = None" using assms(3) by (subst find_pos.simps) simp
  then show ?thesis using assms by (simp add: LISTBOX_FindStringPos_def)
qed

theorem sorted_listbox_throws_witness:
  "LISTBOX_WindowProc demo_env (Items (LB_ADDSTRING (Some [66]) 0)) (demo {LBS_SORT} [Items (LB_ADDSTRING (Some [65]) 0)]) = None"
proof -
  have "HAS_STRINGS (demo {LBS_SORT} [Items (LB_ADDSTRING (Some [65]) 0)])" "flag (demo {LBS_SORT} [Items (LB_ADDSTRING (Some [65]) 0)]) LBS_SORT"
    "0 < nb_items (demo {LBS_SORT} [Items (LB_ADDSTRING (Some [65]) 0)])" by code_simp+
  then show ?thesis by (rule sorted_listbox_throws)
qed

end
