(* ===== verification/Listbox_Points.thy ===== *)
theory Listbox_Points
  imports Listbox_Order
begin

text \<open>
  The point and the rectangle of an item: a point inside the rectangle of an item is found to be on that item.
\<close>

lemma c_div_nonneg: "0 \<le> x \<Longrightarrow> 0 < y \<Longrightarrow> c_div x y = x div y"
  by (cases "x = 0") (simp_all add: c_div_def)

lemma get_item_height_items:
  assumes "core d" "\<not> flag d LBS_NODATA" "0 \<le> k" "k < nb_items d"
  shows "\<exists>it\<in>set (items d). get_item_height d k = Some (it_height it)"
proof -
  have b: "nb_items d \<le> items_size d" using assms(1) by (simp add: core_def)
  then obtain zs where zs: "u_items d = Some zs" "int (length zs) = items_size d"
    using assms by (auto simp: core_def storage_ok_def cells_ok_def items_def split: option.splits)
  then have "zs ! nat k \<in> set (items d)" using assms b by (auto simp: items_def in_set_conv_nth intro!: exI [of _ "nat k"])
  then show ?thesis using zs assms b by (auto simp: get_item_height_def cell_def)
qed

definition heights_ok :: "LB_DESCR \<Rightarrow> bool" where
  "heights_ok d \<longleftrightarrow> (\<forall>it\<in>set (items d). 0 \<le> it_height it)"

lemma sum_heights_nonneg:
  assumes "core d" "\<not> flag d LBS_NODATA" "heights_ok d"
  shows "0 \<le> j \<Longrightarrow> j + int n \<le> nb_items d \<Longrightarrow> sum_heights d j n = Some s \<Longrightarrow> 0 \<le> s"
proof (induction n arbitrary: j s)
  case (Suc n)
  obtain h u where h: "get_item_height d j = Some h" "sum_heights d (j + 1) n = Some u" "s = h + u"
    using Suc.prems(3) by (auto simp: bind_eq_Some_conv)
  have "0 \<le> u" using Suc.IH [OF _ _ h(2)] Suc.prems by simp
  moreover have "0 \<le> h" using get_item_height_items [OF assms(1,2), of j] h(1) Suc.prems assms(3) by (auto simp: heights_ok_def)
  ultimately show ?case using h(3) by simp
qed simp

lemma item_below_finds:
  assumes "core d" "\<not> flag d LBS_NODATA" "heights_ok d" "i < nb_items d" "get_item_height d i = Some h"
  shows "0 \<le> j \<Longrightarrow> j + int n = i \<Longrightarrow> sum_heights d j n = Some s \<Longrightarrow> p + s \<le> y \<Longrightarrow> y < p + s + h \<Longrightarrow> item_below d y j p = Some i"
proof (induction n arbitrary: j s p)
  case 0
  then show ?case using assms(4,5) by (subst item_below.simps) simp
next
  case (Suc n)
  obtain k u where k: "get_item_height d j = Some k" "sum_heights d (j + 1) n = Some u" "s = k + u"
    using Suc.prems(3) by (auto simp: bind_eq_Some_conv)
  have "0 \<le> u" using sum_heights_nonneg [OF assms(1-3) _ _ k(2)] Suc.prems assms(4) by simp
  moreover have "item_below d y (j + 1) (p + k) = Some i" using Suc.IH [OF _ _ k(2)] Suc.prems k(3) by simp
  ultimately show ?case using k Suc.prems assms(4) by (subst item_below.simps) simp
qed

text \<open>C40: A point of the window that lies in the rectangle of an item is on that item, whether the items have one height, stand in columns or have heights of their own;
  with columns the first visible item has to be the first of its column, and heights may not be negative.\<close>

theorem point_of_rect:
  assumes "lb_ok d" and "0 \<le> i" and "i < nb_items d" and "LISTBOX_GetItemRect d i = Some (v, (l, t, r, b))"
    and "0 \<le> x" and "l \<le> x" and "x < r" and "0 \<le> y" and "t \<le> y" and "y < b"
    and "flag d LBS_MULTICOLUMN \<Longrightarrow> page_size d dvd top_item d" and "flag d LBS_OWNERDRAWVARIABLE \<Longrightarrow> heights_ok d"
    and "\<not> (flag d LBS_MULTICOLUMN \<and> flag d LBS_OWNERDRAWVARIABLE)"
  shows "LISTBOX_GetItemFromPoint d x y = Some i"
proof -
  have c: "core d" "0 < nb_items d" "1 \<le> page_size d" "0 \<le> top_item d" using lb_ok_core [OF assms(1)] assms(2,3) by (simp_all add: core_def)
  have rc: "item_rect d i = Some (l, t, r, b)" using assms(2-4) by (cases "item_rect d i") (auto simp: LISTBOX_GetItemRect_def)
  consider "flag d LBS_MULTICOLUMN" | "flag d LBS_OWNERDRAWVARIABLE" | "\<not> flag d LBS_MULTICOLUMN" "\<not> flag d LBS_OWNERDRAWVARIABLE" by blast
  then show ?thesis
  proof cases
    case 1
    let ?p = "page_size d" and ?w = "column_width d" and ?h = "item_height d"
    have w: "?w \<noteq> 0" using 1 c(1) by (simp add: core_def)
    have e: "l = (i div ?p - top_item d div ?p) * ?w" "t = (i mod ?p) * ?h" "r = l + ?w" "b = t + ?h"
      using rc 1 c assms(2) by (auto simp: item_rect_def divide_fine modulo_fine c_div_nonneg Let_def minus_mult_div_eq_mod)
    then have pos: "0 < ?w" "0 < ?h" using assms(6-10) by linarith+
    have row: "y div ?h = i mod ?p" using e(2,4) pos assms(9,10) by (intro int_div_pos_eq [of _ _ _ "y - t"]) (auto simp: algebra_simps)
    have col: "x div ?w = i div ?p - top_item d div ?p" using e(1,3) pos assms(6,7) by (intro int_div_pos_eq [of _ _ _ "x - l"]) (auto simp: algebra_simps)
    have "i mod ?p + 1 \<le> ?p" using c(3) by (simp add: add1_zle_eq)
    then have "(i mod ?p + 1) * ?h \<le> ?p * ?h" using pos by (intro mult_right_mono) auto
    then have "y < ?h * ?p" using e(2,4) assms(10) by (simp add: algebra_simps)
    moreover have "top_item d = ?p * (top_item d div ?p)" using assms(11) 1 by simp
    then have "top_item d + i mod ?p + (i div ?p - top_item d div ?p) * ?p = i"
      using mult_div_mod_eq [of ?p i] by (simp add: algebra_simps)
    ultimately show ?thesis
      using 1 assms(2,3,5,8,13) c w pos row col by (simp add: LISTBOX_GetItemFromPoint_def divide_fine c_div_nonneg)
  next
    case 2
    then have n: "\<not> flag d LBS_MULTICOLUMN" "\<not> flag d LBS_NODATA" "top_item d \<le> nb_items d" using assms(13) c(1) by (auto simp: core_def)
    obtain h where h: "get_item_height d i = Some h" "b = t + h" and s: "(if i < top_item d then map_option uminus (sum_heights d i (nat (top_item d - i)))
        else sum_heights d (top_item d) (nat (i - top_item d))) = Some t"
      using rc 2 n assms(2,3) by (auto simp: item_rect_def bind_eq_Some_conv split: if_splits)
    have "top_item d \<le> i"
    proof (rule ccontr)
      assume "\<not> top_item d \<le> i"
      then obtain k where k: "nat (top_item d - i) = Suc k" "i + 1 + int k = top_item d" by (intro that [of "nat (top_item d - i - 1)"]) auto
      then obtain u where "sum_heights d (i + 1) k = Some u" "t = - (h + u)"
        using s h(1) \<open>\<not> top_item d \<le> i\<close> by (auto simp: bind_eq_Some_conv)
      then show False using sum_heights_nonneg [OF c(1) n(2) assms(12) [OF 2], of "i + 1" k u] k(2) n(3) h(2) assms(2,8,10) by simp
    qed
    then have "item_below d y (top_item d) 0 = Some i"
      using s h assms(3,9,10) c item_below_finds [OF c(1) n(2) assms(12) [OF 2] assms(3) h(1), of "top_item d" "nat (i - top_item d)" t 0 y] by simp
    then show ?thesis using 2 assms(2,3,8) c by (simp add: LISTBOX_GetItemFromPoint_def)
  next
    case 3
    have e: "t = (i - top_item d) * item_height d" "b = t + item_height d" using rc 3 by (auto simp: item_rect_def Let_def)
    then have pos: "0 < item_height d" using assms(9,10) by linarith
    have "y div item_height d = i - top_item d" using e pos assms(9,10) by (intro int_div_pos_eq [of _ _ _ "y - t"]) (auto simp: algebra_simps)
    then show ?thesis using 3 assms(2,3,8) c pos by (simp add: LISTBOX_GetItemFromPoint_def divide_fine c_div_nonneg)
  qed
qed

theorem point_of_rect_witness: "LISTBOX_GetItemFromPoint four_items 5 25 = Some 2"
proof -
  have "LISTBOX_GetItemRect four_items 2 = Some (1, (0, 20, 100, 30))" "lb_ok four_items" "2 < nb_items four_items"
    "\<not> flag four_items LBS_MULTICOLUMN" "\<not> flag four_items LBS_OWNERDRAWVARIABLE" by code_simp+
  then show ?thesis by (intro point_of_rect [of four_items 2 1 0 20 100 30]) auto
qed

end
