(* ===== verification/Spec2Isabelle.thy ===== *)
theory Spec2Isabelle
  imports Region_Props Handle_Props Strapi_Props Path_Props Memory_Props TaskMem_Props Bstr_Props Safearray_Refs Variant_Props
    Linklist_Props Initonce_Props Hook_Props Muldiv_Props Profile_Files Qsort_Props Listbox_Points
begin

text \<open>
  swinx is the Win32 interface on other systems. Below the windows, drawing and platform code, which mostly call other
  libraries, lies a runtime of its own: handles and the regions and other objects behind them, heaps and local memory, strings
  and their encodings, paths, ini files, the automation types of COM, hooks, lists, one-time initialization, sorting, and the
  controls built on windows. This development models that runtime and some of the controls, function by function.

  The parts and how they rest on each other:
  \<^item> \<^verbatim>\<open>Swinx_Prelude\<close>: 32-bit wrap-around, facts on lists, and the two interfaces that components share: \<open>kept\<close> (steps keep an
    invariant, so runs keep it; interpreted by heaps, one-time initialization, hooks and listboxes) and \<open>simulation\<close> (operations simulate abstract ones,
    so runs do; interpreted by lists). \<open>region_op\<close> in \<^verbatim>\<open>Region_Sweep\<close> is the interface of the band sweep, interpreted for
    intersection, union and subtraction.
  \<^item> Regions, \<^verbatim>\<open>src/region.cpp\<close>. \<^verbatim>\<open>Rect_Model\<close>, \<^verbatim>\<open>Region_Model\<close>: rectangles, the region structure, the band sweep
    \<open>REGION_RegionOp\<close> with its functions on bands and \<open>REGION_Coalesce\<close>. \<^verbatim>\<open>Region_Store\<close>: the operations on region objects, which may be
    the same object. \<^verbatim>\<open>Region_Api\<close>: the exported functions on handles, over the handles of \<^verbatim>\<open>Handle_Model\<close>
    (\<^verbatim>\<open>src/handle.cpp\<close>, \<^verbatim>\<open>src/handle.h\<close>). A region means the set of its points (\<^verbatim>\<open>Region_Spec\<close>); \<^verbatim>\<open>Region_Coalesce\<close>,
    \<^verbatim>\<open>Region_Sweep\<close>, \<^verbatim>\<open>Region_Bands\<close>, \<^verbatim>\<open>Region_Ops\<close>, \<^verbatim>\<open>Region_Moves\<close> and \<^verbatim>\<open>Region_Laws\<close> show that each operation computes the set it is named
    after and keeps the lists banded and coalesced; \<^verbatim>\<open>Region_Canonical\<close> that such lists are equal if their points are; \<^verbatim>\<open>Region_Query\<close> that
    the searches decide membership; \<^verbatim>\<open>Region_Create\<close> that region data is read in when memory is granted; \<^verbatim>\<open>Region_Props\<close> states the results on handles.
  \<^item> Memory, \<^verbatim>\<open>src/platform/posix/memory.cpp\<close>. \<^verbatim>\<open>Memory_Model\<close>: the blocks of a heap with the handle in front of each, and fixed and moveable
    local memory, on bytes. \<^verbatim>\<open>Memory_Laws\<close>, \<^verbatim>\<open>Memory_Local\<close>, \<^verbatim>\<open>Memory_Props\<close>: blocks never overlap while the sizes asked for stay below
    \<^verbatim>\<open>2^64\<close> by a page and eight bytes (\<open>heap_step\<close>; above, \<open>HeapAlloc_wraps\<close>), handles and pointers are each other's inverse, locks count up to 255, reallocation keeps the contents. The task allocator and its spy (\<^verbatim>\<open>src/malloc_impl.cpp\<close>, \<^verbatim>\<open>TaskMem_Model\<close>,
    \<^verbatim>\<open>TaskMem_Props\<close>) uses local memory.
  \<^item> Automation. \<^verbatim>\<open>Bstr_Model\<close> (\<^verbatim>\<open>src/objbase.cpp\<close>): strings with their length in front, and the state that the automation
    types share: bytes, live blocks, recorded calls of interfaces. \<^verbatim>\<open>Safearray_Model\<close>, \<^verbatim>\<open>Safearray_Resize\<close>, \<^verbatim>\<open>Safearray_Api\<close> (\<^verbatim>\<open>src/safearray.cpp\<close>): arrays of
    arrays of any type. \<^verbatim>\<open>Variant_Model\<close> (\<^verbatim>\<open>src/variant.cpp\<close>) ties variants and arrays together: each contains the other, so it takes fuel, one unit for
    each level of nesting, and running out is not a result. \<^verbatim>\<open>Safearray_Index\<close> shows that cells do not overlap, \<^verbatim>\<open>Safearray_Laws\<close> and
    \<^verbatim>\<open>Safearray_Plain\<close> what the operations change, \<^verbatim>\<open>Safearray_Refs\<close> that an array holds exactly the references of its cells, \<^verbatim>\<open>Variant_Props\<close> that
    copies of variants own what they hold: a reference or a string.
  \<^item> Text. \<^verbatim>\<open>Uniconv_Model\<close> (\<^verbatim>\<open>src/uniconv.cpp\<close>), \<^verbatim>\<open>Codepage_Model\<close> (\<^verbatim>\<open>src/platform/posix/sysapi.cpp\<close>, \<^verbatim>\<open>src/tostring.cpp\<close>): the
    conversions and their round trips. \<^verbatim>\<open>Codepage_Tables\<close> has the tables of \<^verbatim>\<open>src/cptable.h\<close> entry by entry, \<^verbatim>\<open>Codepage_Distinct\<close> checks that no
    character occurs twice in one, by insertion into binary trees. \<^verbatim>\<open>Strapi_Model\<close> (\<^verbatim>\<open>src/strapi.cpp\<close>), \<^verbatim>\<open>Path_Model\<close> (\<^verbatim>\<open>src/shlwapi.cpp\<close>): checked
    copies, splitting of paths, and paths in buffers of \<^verbatim>\<open>MAX_PATH\<close> characters.
  \<^item> Ini files, \<^verbatim>\<open>src/platform/posix/profile.cpp\<close>. \<^verbatim>\<open>Profile_Model\<close>: reading and writing; \<^verbatim>\<open>Profile_Api\<close>: the tree, the cache of files and the exported
    calls. \<^verbatim>\<open>Profile_Props\<close>: saved trees are read back; \<^verbatim>\<open>Profile_Lookup\<close>: the tree is a map up to case; \<^verbatim>\<open>Profile_Files\<close>: what a
    process writes the next one reads.
  \<^item> \<^verbatim>\<open>Linklist_Model\<close> (\<^verbatim>\<open>src/list.h\<close>): intrusive lists as links between addresses; they refine lists. \<^verbatim>\<open>Hook_Model\<close>
    (\<^verbatim>\<open>src/hook.cpp\<close>): the chains of hooks and their reference counts, as steps that interleave. \<^verbatim>\<open>Initonce_Props\<close>
    (\<^verbatim>\<open>src/platform/posix/syncapi.cpp\<close>): one-time initialization as atomic steps of threads; the thread that
    ran the initialization returns without a context, the others with the one it made.
  \<^item> \<^verbatim>\<open>Qsort_Model\<close>, \<^verbatim>\<open>Muldiv_Props\<close> (\<^verbatim>\<open>src/platform/posix/sysapi.cpp\<close>): the sort in place with a stack of 62 entries, and the rounded quotient.
    The larger part is pushed, so the parts on the stack halve in size and 62 are enough for fewer than \<^verbatim>\<open>2^64\<close> elements (\<open>parts_ok\<close>).
  \<^item> Listboxes, \<^verbatim>\<open>src/cmnctl32/listbox.cpp\<close>. \<^verbatim>\<open>Listbox_Model\<close>: the descriptor and its storage, the page, item and point; \<^verbatim>\<open>Listbox_Ops\<close>:
    selection, caret, insertion, removal; \<^verbatim>\<open>Listbox_Input\<close>: searches, scroll bars and wheel; \<^verbatim>\<open>Listbox_Proc\<close>: mouse, timer, keyboard, creation and the
    window procedure on messages as constructors. \<^verbatim>\<open>Listbox_Laws\<close> has the invariant \<open>lb_ok\<close> and the operations on the page; \<^verbatim>\<open>Listbox_Store\<close>,
    \<^verbatim>\<open>Listbox_Select\<close>, \<^verbatim>\<open>Listbox_Change\<close>, \<^verbatim>\<open>Listbox_Edit\<close>, \<^verbatim>\<open>Listbox_Remove\<close> show what storage, selection, caret, insertion and removal do to the list of
    items and of their states; \<^verbatim>\<open>Listbox_Safe\<close>, \<^verbatim>\<open>Listbox_Messages\<close>, \<^verbatim>\<open>Listbox_Window\<close> that every message that is \<open>permitted\<close> keeps the invariant without a
    fault; \<^verbatim>\<open>Listbox_Props\<close>, \<^verbatim>\<open>Listbox_Order\<close>, \<^verbatim>\<open>Listbox_Points\<close> state the results. Not permitted are the messages that do meet a fault, or may: sorted
    insertion and exact search with strings, which throw; removal from a listbox with items of different heights, whose top item may be left behind the end; counts
    near \<open>2^31\<close>; columns of width 0; a search from before -1; the space key in an empty listbox.

  Conventions. A pointer is an address or an index, a null pointer is 0 or \<open>None\<close>. An operation that can read or write outside what it owns, or divide by zero, has
  an option type, and \<open>None\<close> is that fault, so a theorem that says \<open>Some\<close> says that there is none. Integers that the code adds or multiplies
  are reduced to their width where the wrap-around is defined. What the sources take from elsewhere is a parameter: pages and protection (\<open>os_ok\<close>),
  \<^verbatim>\<open>malloc\<close>, record descriptions and interfaces (\<open>ole\<close>), files, time and the folding of case (\<open>penv\<close>), \<^verbatim>\<open>iconv\<close>
  (\<open>cp_system\<close>), the owner of a listbox and its window (\<open>lb_env\<close>). Every hypothesis on them is part of the statement that uses it, and the witnesses
  instantiate it.

  Not modelled: windows, messages, drawing, the clipboard, drag and drop, and the platform connections, whose
  functions consist of calls of xcb, Cocoa, cairo, CoreGraphics, the browser and FreeRTOS; sockets, sound, cryptography and files, which are calls of the system;
  the registry and the resources, which are formats in files; the polygon scan converter and the round rectangles of \<^verbatim>\<open>src/region.cpp\<close>.
\<close>

end
